(* ===== verification/Prelude.thy ===== *)
theory Prelude
  imports Main "HOL-Library.Word" "HOL-Library.Multiset"
begin

text \<open>
  The shared ground of the development.

  \<^item> The error values. Every \<^verbatim>\<open>err(...); return -1;\<close> and every \<^verbatim>\<open>die(...)\<close> of the
    sources is a value of the type \<open>error\<close>, grouped by the C file that reports it. The
    text of the message is not kept, only which check failed.
  \<^item> The result type \<open>'a res\<close> and its bind \<open>rbind\<close>: an operation that may fail returns
    \<open>Inl e\<close> where the C function returns \<open>-1\<close> (or dies) and \<open>Inr\<close> the new state
    where it returns \<open>0\<close>.
  \<^item> \<open>dl_foreach\<close>: the macro DL_FOREACH of \<^verbatim>\<open>utlist.h\<close>, which walks a doubly linked list
    by following the \<open>next\<close> pointer of the current element after the body has run, so that
    elements appended by the body are visited and elements removed are not.
  \<^item> Generic lemmas on lists that several components use.
\<close>

subsection \<open>Errors\<close>

datatype chan_error =
    ChanNameTooLong | ChanAlreadyDirty | ChanNotSingle | ChanNotStack
  | ChanDirty | ChanDup | ChanStackFull | ChanStackEmpty | ChanPopMismatch | ChanNotDirty

datatype bay_error =
    BayBadState | BayOnDirtyList | BayAlreadyRegistered | BayNotFound | BayCbOfDirtyChan

datatype mux_error =
    MuxSelectType | MuxIndexBounds | MuxOutputNotSingle | MuxSelectIsOutput
  | MuxSelectNotRegistered | MuxOutputNotRegistered | MuxInputIsOutput | MuxInputTaken
  | MuxNotOneInput | MuxInputUnset | TrackNameTooLong | TrackWrongMode

datatype sort_error = SortOldEqNew | SortOutOfBounds | SortInputTaken

datatype prv_error =
    PrvDup | PrvZero | PrvType | PrvFlags | PrvRowTaken | PrvBackwards | PvtExists
  | PcfTypeTaken | PcfValueTaken | PcfLabelTooLong | PcfTypeMissing
  | PrfBounds | PrfRowTaken | PrfLabelTooLong | PrfRowMissing

datatype body_error =
    BodyNull | BodyIdZero | BodyExists | BodyNoResurrect | BodyPaused | BodyNotCreated
  | BodyStackSet | BodyNested | BodyNoPause | BodyNotRunning | BodyNotPaused
  | BodyStackUnset | BodyOtherStack | BodyNotTop

datatype task_error =
    TaskExists | TaskTypeUnknown | TaskNotParallel | TaskNull | TaskBodyNotFound
  | TaskTypeExists | TaskTypeIdZero | TaskLabelTooLong

datatype thread_error =
    ThreadNoCpu | ThreadHasCpu | ThreadCpuNull | ThreadRunning | ThreadBadState
  | ThreadNotActive | ThreadNotRunning | ThreadOutOfCpu | ThreadNotFound
  | ThreadDead | ThreadUnknown | ThreadGindexUnset | ThreadMetaUnset | ThreadNotInit | ThreadNoPvt
  | ThreadMetaLoaded | ThreadNotFinished

datatype cpu_error =
    CpuOversubscribed | CpuThreadAssigned | CpuThreadMissing | CpuNotFound
  | CpuGindexUnset | CpuLoomUnset | CpuNotInit | CpuNoPvt

datatype loom_error =
    LoomNameSlash | LoomNameTooLong | LoomCpusEmpty | LoomCpuIndexNegative | LoomCpuIndexMismatch
  | LoomPhyidNegative | LoomPhyidTaken | LoomIsInit | LoomRankMinSet | LoomRankMissing
  | LoomRankMinUnset | LoomNoCpus | LoomNoProcs | LoomCpuIndexBounds | LoomCpuIndexTaken
  | LoomPidTaken | LoomArrayUnset

datatype proc_error =
    ProcAppidMismatch | ProcAppidNotPositive | ProcRankNegative | ProcRankMismatch | ProcNranksMissing
  | ProcNranksNotPositive | ProcNranksMismatch | ProcRankBounds | ProcIsInit | ProcTidTaken
  | ProcGindexUnset | ProcAppidUnset

datatype stream_error =
    StreamInactive | StreamOffsetExceeds | StreamIncompleteEvent | StreamClockBackwards
  | StreamOutOfBuffer | StreamEmpty | StreamBadHeader | StreamClkoffStarted | StreamClkoffSet

datatype player_error =
    PlayerBackwards | PlayerClockGate | HeapGetFailed | HeapSlotTaken | HeapChildSet

datatype event_error =
    EvUnknownModel | EvUnknownCategory | EvUnknownValue | EvPayloadSize | EvNotJumbo
  | EvIdZero | EvTypeGidZero | EvAppidNotPositive | EvSwitchNull | EvSwitchSame
  | EvTaskNotFound | EvBodyIdNotZero | EvBodyIdZero | EvWrongSubsystem
  | EvBodyNotRunning | EvTooManyBursts | EvMarkNotFound | EvMarkZero
  | EvOutOfBounds | EvHwcNone | EvHwcSize

datatype rt_error =
    RtNotReady | RtJumboFlag | RtPayloadTooSmall | RtPayloadNoSpace | RtPayloadNotEmpty
  | RtEventTooLarge | RtZeroValue | RtOverread | RtProcNotReady | RtNegative | RtProcInit | RtLoomTooLong
  | RtFinished | RtTidZero | RtWriteFailed | RtClockFailed | RtMetaFailed | RtModelName | RtVersionNull
  | RtVersionParse | RtVersionIncompatible | RtKeyNotFound | RtKeyType | RtMarkRange | RtMarkTitle | RtMarkExists
  | RtMarkValue | RtMarkUndefined | RtMarkLabelExists

datatype sys_error =
    SysNoTid | SysNoPid | SysNoLoomName | SysNoPart | SysNoVersion | SysClkoffSet | SysClkoffNoLoom
  | SysUnknownStream | SysCpuNotObject | SysPrfAdd | SysLabelTooLong | SysNoAccelerators

datatype model_error =
    ModelRegistered | ModelNotRegistered | ModelNotEnabled | ModelNoRequire | ModelVersion | ModelIncompatible
  | ModelFieldMissing | ModelProbe | ModelChanNotEmpty | ModelThreadAlive | ModelFinish

datatype mark_error =
    MarkNumber | MarkLabelTaken | MarkLabelTooLong | MarkTypeTaken | MarkTitleTooLong | MarkTypeRange | MarkNotObject
  | MarkNoTitle | MarkNoChanType | MarkChanType | MarkTitleMismatch | MarkChanTypeMismatch | MarkLabelsNotObject
  | MarkLabelNotString

datatype hwc_error =
    HwcNumber | HwcRange | HwcExceeds | HwcNotObject | HwcNoName | HwcNameTaken | HwcCount

datatype osort_error =
    OsRingHead | OsRingTail | OsNoDestination | OsBufSize | OsExceedsLast | OsNotLast | OsRingUnsorted | OsBackjump
  | OsWriteFailed

datatype evspec_error =
    EsType | EsTooManyArgs | EsNoType | EsNoName | EsNameTooLong | EsTooShort | EsBadMcv | EsJumboNoArgs | EsParen
  | EsEmptyArgs | EsSigTooLong | EsNoEvents | EsDuplicated | EsBadModel | EsNoSpace | EsFormat | EsArgName | EsArgNotFound

datatype error =
    EChan chan_error | EBay bay_error | EMux mux_error | ESort sort_error | EPrv prv_error
  | EBody body_error | ETask task_error | EThread thread_error | ECpu cpu_error
  | ELoom loom_error | EProc proc_error | EStream stream_error | EPlayer player_error | EEvent event_error | ERt rt_error
  | ESys sys_error | EModel model_error | EMark mark_error | EHwc hwc_error | EOsort osort_error | EEvspec evspec_error
  | EFuel \<comment> \<open>not an error of the code: the bound given to a loop of the model ran out\<close>

type_synonym 'a res = "error + 'a"

subsection \<open>Sequencing of operations that may fail\<close>

definition rbind :: "'a res \<Rightarrow> ('a \<Rightarrow> 'b res) \<Rightarrow> 'b res" where
  "rbind m f = (case m of Inl e \<Rightarrow> Inl e | Inr x \<Rightarrow> f x)"

lemma rbind_simps [simp]:
  "rbind (Inl e) f = Inl e"
  "rbind (Inr x) f = f x"
  by (simp_all add: rbind_def)

lemma rbind_eq_Inr [simp]: "rbind m f = Inr y \<longleftrightarrow> (\<exists>x. m = Inr x \<and> f x = Inr y)"
  by (cases m) simp_all

lemma rbind_eq_Inl:
  "rbind m f = Inl e \<longleftrightarrow> m = Inl e \<or> (\<exists>x. m = Inr x \<and> f x = Inl e)"
  by (cases m) simp_all

lemma rbind_cong [fundef_cong]:
  "m = m' \<Longrightarrow> (\<And>x. m' = Inr x \<Longrightarrow> f x = f' x) \<Longrightarrow> rbind m f = rbind m' f'"
  by (cases m') simp_all

lemma rbind_Inr_right [simp]: "rbind m Inr = m"
  by (cases m) simp_all

text \<open>Collections of lemmas: what an operation leaves unchanged, and what its
  success says.\<close>

named_theorems frame \<open>fields of the state an operation does not write\<close>
named_theorems okD \<open>what the success of an operation entails\<close>

subsection \<open>Doubly linked lists\<close>

text \<open>The element after \<open>x\<close> in the list: \<^verbatim>\<open>x->next\<close>. The lists of the sources never hold
  an element twice.\<close>

fun next_after :: "'a \<Rightarrow> 'a list \<Rightarrow> 'a option" where
  "next_after x [] = None"
| "next_after x (y # ys) =
     (if x = y then (case ys of [] \<Rightarrow> None | z # _ \<Rightarrow> Some z) else next_after x ys)"

definition dl_head :: "'a list \<Rightarrow> 'a option" where
  "dl_head xs = (case xs of [] \<Rightarrow> None | x # _ \<Rightarrow> Some x)"

text \<open>DL_FOREACH: \<open>lst\<close> reads the list from the current state, \<open>body\<close> is the loop body.
  The first argument bounds the number of iterations.\<close>

fun dl_foreach ::
  "nat \<Rightarrow> ('w \<Rightarrow> 'a list) \<Rightarrow> ('a \<Rightarrow> 'w \<Rightarrow> 'w res) \<Rightarrow> 'a option \<Rightarrow> 'w \<Rightarrow> 'w res" where
  "dl_foreach n lst body None w = Inr w"
| "dl_foreach 0 lst body (Some x) w = Inl EFuel"
| "dl_foreach (Suc n) lst body (Some x) w =
     rbind (body x w) (\<lambda>w'. dl_foreach n lst body (next_after x (lst w')) w')"

lemma next_after_append:
  "x \<notin> set xs \<Longrightarrow> next_after x (xs @ x # ys) = dl_head ys"
  by (induction xs) (auto simp: dl_head_def split: list.splits)

lemma next_after_notin: "x \<notin> set xs \<Longrightarrow> next_after x xs = None"
  by (induction xs) auto

text \<open>The part of the list still to visit when the cursor is at \<open>c\<close>.\<close>

fun dl_from :: "'a option \<Rightarrow> 'a list \<Rightarrow> 'a list" where
  "dl_from None xs = []"
| "dl_from (Some x) xs = dropWhile (\<lambda>y. y \<noteq> x) xs"

lemma dl_from_head [simp]: "dl_from (dl_head xs) xs = xs"
  by (cases xs) (auto simp: dl_head_def)

lemma dl_from_next:
  "distinct xs \<Longrightarrow> dl_from (Some x) xs = x # ys \<Longrightarrow> dl_from (next_after x xs) xs = ys"
proof (induction xs)
  case (Cons a xs)
  show ?case
  proof (cases "a = x")
    case True
    with Cons.prems have "ys = xs" by simp
    with True Cons.prems(1) show ?thesis by (cases xs) auto
  next
    case False
    with Cons.prems have "dl_from (Some x) xs = x # ys" by simp
    with Cons have IH: "dl_from (next_after x xs) xs = ys" by simp
    show ?thesis
    proof (cases "next_after x xs")
      case None
      with False IH show ?thesis by simp
    next
      case (Some z)
      have "z \<in> set xs" if "next_after x xs = Some z" for z
        using that by (induction xs) (auto split: if_splits list.splits)
      with Some Cons.prems(1) have "a \<noteq> z" by auto
      with False Some IH show ?thesis by simp
    qed
  qed
qed simp

lemma next_after_in: "next_after x xs = Some z \<Longrightarrow> z \<in> set xs"
  by (induction xs) (auto split: if_splits list.splits)

lemma next_after_neq: "distinct xs \<Longrightarrow> next_after x xs \<noteq> Some x"
  by (induction xs) (auto split: list.splits dest: next_after_in)

lemma dl_from_Some: "x \<in> set xs \<Longrightarrow> \<exists>ys. dl_from (Some x) xs = x # ys"
  by (induction xs) auto

lemma dl_head_None [simp]: "dl_head xs = None \<longleftrightarrow> xs = []"
  by (cases xs) (auto simp: dl_head_def)

lemma dl_head_in: "dl_head xs = Some x \<Longrightarrow> x \<in> set xs"
  by (cases xs) (auto simp: dl_head_def)

text \<open>A loop whose body leaves the list alone runs the body on each element in turn.\<close>

fun foldr_res :: "('a \<Rightarrow> 'w \<Rightarrow> 'w res) \<Rightarrow> 'a list \<Rightarrow> 'w \<Rightarrow> 'w res" where
  "foldr_res body [] w = Inr w"
| "foldr_res body (x # xs) w = rbind (body x w) (foldr_res body xs)"

lemma dl_foreach_static:
  assumes keep: "\<And>x w w'. body x w = Inr w' \<Longrightarrow> lst w' = lst w"
    and dist: "distinct (lst w)"
    and fuel: "length (dl_from c (lst w)) \<le> n"
    and c: "\<And>x. c = Some x \<Longrightarrow> x \<in> set (lst w)"
  shows "dl_foreach n lst body c w = foldr_res body (dl_from c (lst w)) w"
  using dist fuel c
proof (induction n arbitrary: c w)
  case 0
  then have "c = None"
    by (cases c) (auto dest: dl_from_Some)
  then show ?case by simp
next
  case (Suc n)
  show ?case
  proof (cases c)
    case (Some x)
    with Suc.prems(3) obtain ys where ys: "dl_from (Some x) (lst w) = x # ys"
      using dl_from_Some [of x "lst w"] by auto
    then have nx: "dl_from (next_after x (lst w)) (lst w) = ys"
      using Suc.prems(1) by (rule dl_from_next [rotated])
    show ?thesis
    proof (cases "body x w")
      case (Inl e)
      with Some ys show ?thesis by simp
    next
      case (Inr w')
      then have eq: "lst w' = lst w" by (rule keep)
      have "dl_foreach n lst body (next_after x (lst w)) w' =
          foldr_res body (dl_from (next_after x (lst w')) (lst w')) w'"
        using Suc.IH [of w' "next_after x (lst w')"] Suc.prems eq nx Some ys
        by (auto dest: next_after_in)
      with Some Inr ys eq nx show ?thesis by simp
    qed
  qed simp
qed

text \<open>What every iteration keeps, the loop keeps.\<close>

lemma dl_foreach_invar:
  assumes "dl_foreach n lst body c w = Inr w'"
    and "I w" and "\<And>x. c = Some x \<Longrightarrow> x \<in> set (lst w)"
    and step: "\<And>x w w'. I w \<Longrightarrow> x \<in> set (lst w) \<Longrightarrow> body x w = Inr w' \<Longrightarrow> I w'"
  shows "I w'"
  using assms(1-3)
proof (induction n arbitrary: c w)
  case 0
  then show ?case by (cases c) auto
next
  case (Suc n)
  show ?case
  proof (cases c)
    case (Some x)
    with Suc.prems(1) obtain w1 where w1: "body x w = Inr w1"
      and rest: "dl_foreach n lst body (next_after x (lst w1)) w1 = Inr w'"
      by auto
    from step [OF Suc.prems(2) _ w1] Suc.prems(3) Some have "I w1" by blast
    with rest show ?thesis by (rule Suc.IH) (rule next_after_in)
  qed (use Suc.prems in auto)
qed

lemma foldr_res_invar:
  assumes "foldr_res body xs w = Inr w'"
    and "I w" and "\<And>x w w'. x \<in> set xs \<Longrightarrow> I w \<Longrightarrow> body x w = Inr w' \<Longrightarrow> I w'"
  shows "I w'"
  using assms
proof (induction xs arbitrary: w)
  case (Cons x xs)
  from Cons.prems(1) obtain w1 where w1: "body x w = Inr w1" "foldr_res body xs w1 = Inr w'"
    by auto
  from Cons.prems(2,3) w1(1) have "I w1" by auto
  with w1(2) Cons.prems(3) show ?case by (intro Cons.IH) auto
qed auto

text \<open>The loop ends within its bound when a measure of what is still to visit decreases.\<close>

lemma dl_foreach_fuel:
  assumes step: "\<And>x w w'. I w \<Longrightarrow> x \<in> set (lst w) \<Longrightarrow> body x w = Inr w' \<Longrightarrow>
      I w' \<and> m w' (dl_from (next_after x (lst w')) (lst w')) < (m w (dl_from (Some x) (lst w)) :: nat)"
    and nofuel: "\<And>x w. I w \<Longrightarrow> x \<in> set (lst w) \<Longrightarrow> body x w \<noteq> Inl EFuel"
    and pos: "\<And>x w. I w \<Longrightarrow> x \<in> set (lst w) \<Longrightarrow> 0 < m w (dl_from (Some x) (lst w))"
    and "I w" and "m w (dl_from c (lst w)) \<le> n" and "\<And>x. c = Some x \<Longrightarrow> x \<in> set (lst w)"
  shows "dl_foreach n lst body c w \<noteq> Inl EFuel"
  using assms(4-6)
proof (induction n arbitrary: c w)
  case 0
  then show ?case using pos by (cases c) fastforce+
next
  case (Suc n)
  show ?case
  proof (cases c)
    case (Some x)
    with Suc.prems(3) have x: "x \<in> set (lst w)" by simp
    show ?thesis
    proof (cases "body x w")
      case (Inl e)
      with Some nofuel [OF Suc.prems(1) x] show ?thesis by auto
    next
      case (Inr w')
      from step [OF Suc.prems(1) x Inr]
      have "I w'" and "m w' (dl_from (next_after x (lst w')) (lst w')) \<le> n"
        using Suc.prems(2) Some by auto
      then have "dl_foreach n lst body (next_after x (lst w')) w' \<noteq> Inl EFuel"
        by (intro Suc.IH) (auto dest: next_after_in)
      with Some Inr show ?thesis by simp
    qed
  qed simp
qed

lemma dl_from_append:
  "x \<in> set xs \<Longrightarrow> dl_from (Some x) (xs @ ys) = dl_from (Some x) xs @ ys"
  by (simp add: dropWhile_append1)

lemma dl_from_length: "length (dl_from c xs) \<le> length xs"
  by (cases c) (auto simp: length_dropWhile_le)

lemma foldr_res_append:
  "foldr_res body (xs @ ys) w = rbind (foldr_res body xs w) (foldr_res body ys)"
  by (induction xs arbitrary: w) (auto simp: rbind_def split: sum.splits)

lemma dl_from_remove1:
  "distinct xs \<Longrightarrow> j \<noteq> i \<Longrightarrow> dl_from (Some i) xs = i # ys \<Longrightarrow>
     dl_from (Some i) (remove1 j xs) = i # remove1 j ys"
proof (induction xs)
  case (Cons a xs)
  show ?case
  proof (cases "a = i")
    case True
    with Cons.prems show ?thesis by auto
  next
    case False
    then have *: "dl_from (Some i) xs = i # ys" using Cons.prems by simp
    show ?thesis
    proof (cases "a = j")
      case True
      then have "j \<notin> set xs" using Cons.prems(1) by simp
      moreover have "set ys \<subseteq> set xs"
        using * set_dropWhileD [of _ "\<lambda>y. y \<noteq> i" xs] by auto
      ultimately have "remove1 j ys = ys" by (intro remove1_idem) auto
      with True False * show ?thesis by simp
    next
      case False
      with Cons * \<open>a \<noteq> i\<close> show ?thesis by auto
    qed
  qed
qed simp

lemma ex_upto_Suc: "(\<exists>i < Suc n. P i) \<longleftrightarrow> P n \<or> (\<exists>i < n. P i)"
  by (auto simp: less_Suc_eq)

subsection \<open>Decimal numbers in names\<close>

fun dec :: "nat \<Rightarrow> string" where
  "dec n = (if n < 10 then [char_of (48 + n)] else dec (n div 10) @ [char_of (48 + n mod 10)])"

declare dec.simps [simp del]

end
