(* ===== verification/Chan.thy ===== *)
theory Chan
  imports Prelude
begin

text \<open>
  Channels: \<^verbatim>\<open>src/emu/value.h\<close>, \<^verbatim>\<open>src/emu/chan.h\<close> and \<^verbatim>\<open>src/emu/chan.c\<close>.

  A channel holds one value (type single) or a bounded stack of values (type stack). Writing
  to it makes it dirty until \<^verbatim>\<open>chan_flush\<close>; the first write since the last flush runs the dirty
  callback, which the bay installs. The operations below take that callback as an argument,
  together with the state \<open>'s\<close> it changes, so this theory does not depend on the bay.

  The array \<^verbatim>\<open>stack.values[0..n-1]\<close> is a list with the top of the stack first. The union of the
  stack and the single value is two fields: each operation looks at the type first and then
  uses one of them only. \<^verbatim>\<open>value_is_equal\<close> compares the bytes of two values, that is, their
  type and their 64 bits.
\<close>

subsection \<open>Values and channels\<close>

datatype chval = VALUE_NULL | VALUE_INT64 int | VALUE_DOUBLE "64 word"

definition value_is_null :: "chval \<Rightarrow> bool" where
  "value_is_null v \<longleftrightarrow> v = VALUE_NULL"

datatype chan_type = CHAN_SINGLE | CHAN_STACK

datatype chan_prop = CHAN_DIRTY_WRITE | CHAN_ALLOW_DUP | CHAN_IGNORE_DUP

definition MAX_CHAN_STACK :: nat where "MAX_CHAN_STACK = 512"
definition MAX_CHAN_NAME :: nat where "MAX_CHAN_NAME = 512"

record chan =
  ch_is_dirty :: bool
  ch_prop :: "chan_prop \<Rightarrow> bool"
  ch_dirty_cb :: bool \<comment> \<open>\<^verbatim>\<open>dirty_cb != NULL\<close>\<close>
  ch_last_value :: chval
  ch_type :: chan_type
  ch_stack :: "chval list" \<comment> \<open>\<^verbatim>\<open>data.stack\<close>, top first\<close>
  ch_value :: chval \<comment> \<open>\<^verbatim>\<open>data.value\<close>\<close>
  ch_name :: string

subsection \<open>Operations\<close>

definition chan_read :: "chan \<Rightarrow> chval" where
  "chan_read ch =
     (if ch_type ch = CHAN_SINGLE then ch_value ch
      else (case ch_stack ch of [] \<Rightarrow> VALUE_NULL | v # _ \<Rightarrow> v))"

text \<open>\<open>name\<close> is the name already printed by the format of the call.\<close>

definition chan_init :: "chan_type \<Rightarrow> string \<Rightarrow> chan res" where
  "chan_init type name =
     (if length name \<ge> MAX_CHAN_NAME then Inl (EChan ChanNameTooLong)
      else Inr \<lparr>ch_is_dirty = False, ch_prop = (\<lambda>_. False), ch_dirty_cb = False,
                ch_last_value = VALUE_NULL, ch_type = type, ch_stack = [],
                ch_value = VALUE_NULL, ch_name = name\<rparr>)"

definition chan_set_dirty_cb :: "chan \<Rightarrow> chan" where
  "chan_set_dirty_cb ch = ch\<lparr>ch_dirty_cb := True\<rparr>"

definition chan_prop_set :: "chan_prop \<Rightarrow> bool \<Rightarrow> chan \<Rightarrow> chan" where
  "chan_prop_set p b ch = ch\<lparr>ch_prop := (ch_prop ch)(p := b)\<rparr>"

definition set_dirty :: "(chan \<Rightarrow> 's \<Rightarrow> 's res) \<Rightarrow> chan \<Rightarrow> 's \<Rightarrow> (chan \<times> 's) res" where
  "set_dirty cb ch s =
     (if ch_is_dirty ch
      then (if ch_prop ch CHAN_DIRTY_WRITE then Inr (ch, s) else Inl (EChan ChanAlreadyDirty))
      else let ch' = ch\<lparr>ch_is_dirty := True\<rparr>
           in if ch_dirty_cb ch' then rbind (cb ch' s) (\<lambda>s'. Inr (ch', s'))
              else Inr (ch', s))"

definition chan_set ::
  "(chan \<Rightarrow> 's \<Rightarrow> 's res) \<Rightarrow> chan \<Rightarrow> chval \<Rightarrow> 's \<Rightarrow> (chan \<times> 's) res" where
  "chan_set cb ch v s =
     (if ch_type ch \<noteq> CHAN_SINGLE then Inl (EChan ChanNotSingle)
      else if ch_is_dirty ch \<and> \<not> ch_prop ch CHAN_DIRTY_WRITE then Inl (EChan ChanDirty)
      else if \<not> ch_prop ch CHAN_ALLOW_DUP \<and> ch_last_value ch = v
      then (if ch_prop ch CHAN_IGNORE_DUP then Inr (ch, s) else Inl (EChan ChanDup))
      else set_dirty cb (ch\<lparr>ch_value := v\<rparr>) s)"

definition chan_push ::
  "(chan \<Rightarrow> 's \<Rightarrow> 's res) \<Rightarrow> chan \<Rightarrow> chval \<Rightarrow> 's \<Rightarrow> (chan \<times> 's) res" where
  "chan_push cb ch v s =
     (if ch_type ch \<noteq> CHAN_STACK then Inl (EChan ChanNotStack)
      else if ch_is_dirty ch \<and> \<not> ch_prop ch CHAN_DIRTY_WRITE then Inl (EChan ChanDirty)
      else if \<not> ch_prop ch CHAN_ALLOW_DUP \<and> ch_last_value ch = v
      then (if ch_prop ch CHAN_IGNORE_DUP then Inr (ch, s) else Inl (EChan ChanDup))
      else if length (ch_stack ch) \<ge> MAX_CHAN_STACK then Inl (EChan ChanStackFull)
      else set_dirty cb (ch\<lparr>ch_stack := v # ch_stack ch\<rparr>) s)"

definition chan_pop ::
  "(chan \<Rightarrow> 's \<Rightarrow> 's res) \<Rightarrow> chan \<Rightarrow> chval \<Rightarrow> 's \<Rightarrow> (chan \<times> 's) res" where
  "chan_pop cb ch v s =
     (if ch_type ch \<noteq> CHAN_STACK then Inl (EChan ChanNotStack)
      else if ch_is_dirty ch \<and> \<not> ch_prop ch CHAN_DIRTY_WRITE then Inl (EChan ChanDirty)
      else (case ch_stack ch of
              [] \<Rightarrow> Inl (EChan ChanStackEmpty)
            | x # rest \<Rightarrow>
                if x \<noteq> v then Inl (EChan ChanPopMismatch)
                else set_dirty cb (ch\<lparr>ch_stack := rest\<rparr>) s))"

text \<open>\<^verbatim>\<open>get_value\<close> of \<^verbatim>\<open>chan.c\<close> is a second copy of \<^verbatim>\<open>chan_read\<close>.\<close>

definition chan_flush :: "chan \<Rightarrow> chan res" where
  "chan_flush ch =
     (if \<not> ch_is_dirty ch then Inl (EChan ChanNotDirty)
      else Inr (ch\<lparr>ch_last_value := chan_read ch, ch_is_dirty := False\<rparr>))"

definition chan_dirty :: "(chan \<Rightarrow> 's \<Rightarrow> 's res) \<Rightarrow> chan \<Rightarrow> 's \<Rightarrow> (chan \<times> 's) res" where
  "chan_dirty cb ch s = (if ch_is_dirty ch then Inr (ch, s) else set_dirty cb ch s)"

lemmas chan_op_defs = chan_set_def chan_push_def chan_pop_def chan_dirty_def set_dirty_def Let_def

subsection \<open>Well-formed channels\<close>

text \<open>The stack never outgrows its array, and a clean channel remembers in
  \<^verbatim>\<open>last_value\<close> exactly what a reader sees.\<close>

definition chan_wf :: "chan \<Rightarrow> bool" where
  "chan_wf ch \<longleftrightarrow> length (ch_stack ch) \<le> MAX_CHAN_STACK
     \<and> (\<not> ch_is_dirty ch \<longrightarrow> ch_last_value ch = chan_read ch)"

definition same_chan :: "chan \<Rightarrow> chan \<Rightarrow> bool" where
  "same_chan ch ch' \<longleftrightarrow> ch_type ch' = ch_type ch \<and> ch_prop ch' = ch_prop ch
     \<and> ch_name ch' = ch_name ch \<and> ch_dirty_cb ch' = ch_dirty_cb ch
     \<and> ch_last_value ch' = ch_last_value ch"

lemma same_chan_refl [simp]: "same_chan ch ch"
  by (simp add: same_chan_def)

lemma set_dirty_ok [okD]:
  "set_dirty cb ch s = Inr (ch', s') \<Longrightarrow>
     ch' = ch\<lparr>ch_is_dirty := True\<rparr> \<and>
     (if ch_is_dirty ch \<or> \<not> ch_dirty_cb ch then s' = s
      else cb (ch\<lparr>ch_is_dirty := True\<rparr>) s = Inr s')"
  by (auto simp: set_dirty_def Let_def split: if_splits)

text \<open>What a successful operation leaves: the value read, and the callback run exactly
  when the channel was clean, has a callback and the write was not ignored.\<close>

lemma chan_set_ok [okD]:
  assumes "chan_set cb ch v s = Inr (ch', s')"
  shows "ch_type ch = CHAN_SINGLE \<and> same_chan ch ch' \<and> ch_stack ch' = ch_stack ch
    \<and> (ch' = ch \<and> s' = s \<and> ch_last_value ch = v \<and> ch_prop ch CHAN_IGNORE_DUP
         \<and> \<not> ch_prop ch CHAN_ALLOW_DUP
       \<or> ch_is_dirty ch' \<and> ch_value ch' = v \<and>
         (if ch_is_dirty ch \<or> \<not> ch_dirty_cb ch then s' = s
          else cb ch' s = Inr s'))"
  using assms
  by (auto simp: chan_set_def same_chan_def split: if_splits dest!: set_dirty_ok)

lemma chan_push_ok [okD]:
  assumes "chan_push cb ch v s = Inr (ch', s')"
  shows "ch_type ch = CHAN_STACK \<and> same_chan ch ch' \<and> ch_value ch' = ch_value ch
    \<and> (ch' = ch \<and> s' = s \<and> ch_last_value ch = v \<and> ch_prop ch CHAN_IGNORE_DUP
         \<and> \<not> ch_prop ch CHAN_ALLOW_DUP
       \<or> ch_is_dirty ch' \<and> ch_stack ch' = v # ch_stack ch
         \<and> length (ch_stack ch) < MAX_CHAN_STACK \<and>
         (if ch_is_dirty ch \<or> \<not> ch_dirty_cb ch then s' = s
          else cb ch' s = Inr s'))"
  using assms
  by (auto simp: chan_push_def same_chan_def split: if_splits dest!: set_dirty_ok)

lemma chan_pop_ok [okD]:
  assumes "chan_pop cb ch v s = Inr (ch', s')"
  shows "ch_type ch = CHAN_STACK \<and> same_chan ch ch' \<and> ch_value ch' = ch_value ch
    \<and> ch_is_dirty ch' \<and> ch_stack ch = v # ch_stack ch' \<and>
         (if ch_is_dirty ch \<or> \<not> ch_dirty_cb ch then s' = s
          else cb ch' s = Inr s')"
  using assms
  by (auto simp: chan_pop_def same_chan_def split: if_splits list.splits dest!: set_dirty_ok)

lemma chan_flush_ok [okD]:
  "chan_flush ch = Inr ch' \<Longrightarrow>
     ch_is_dirty ch \<and> ch' = ch\<lparr>ch_last_value := chan_read ch, ch_is_dirty := False\<rparr>"
  by (simp add: chan_flush_def split: if_splits)

lemma chan_init_wf: "chan_init t n = Inr ch \<Longrightarrow> chan_wf ch"
  by (auto simp: chan_init_def chan_wf_def chan_read_def split: if_splits)

lemma chan_flush_wf: "chan_wf ch \<Longrightarrow> chan_flush ch = Inr ch' \<Longrightarrow> chan_wf ch'"
  by (auto simp: chan_wf_def chan_read_def dest!: chan_flush_ok split: list.splits)

lemma chan_set_wf: "chan_wf ch \<Longrightarrow> chan_set cb ch v s = Inr (ch', s') \<Longrightarrow> chan_wf ch'"
  by (drule chan_set_ok) (auto simp: chan_wf_def chan_read_def same_chan_def)

lemma chan_push_wf: "chan_wf ch \<Longrightarrow> chan_push cb ch v s = Inr (ch', s') \<Longrightarrow> chan_wf ch'"
  by (drule chan_push_ok) (auto simp: chan_wf_def chan_read_def same_chan_def)

lemma chan_pop_wf: "chan_wf ch \<Longrightarrow> chan_pop cb ch v s = Inr (ch', s') \<Longrightarrow> chan_wf ch'"
  by (drule chan_pop_ok) (auto simp: chan_wf_def chan_read_def same_chan_def)

subsection \<open>What the operations guarantee\<close>

text \<open>A successful \<^verbatim>\<open>chan_set\<close> on a well-formed channel is seen by the next read: whatever
  the duplicate properties of the channel and whatever the callback does, a clean channel
  reads as the value written, also when the write was ignored as a duplicate.\<close>

theorem chan_set_read:
  assumes "chan_wf ch" and "\<not> ch_is_dirty ch" and "chan_set cb ch v s = Inr (ch', s')"
  shows "chan_read ch' = v"
  using assms by (auto simp: chan_wf_def chan_read_def same_chan_def dest!: chan_set_ok)

definition demo_chan :: "chan_type \<Rightarrow> chan" where
  "demo_chan t = \<lparr>ch_is_dirty = False, ch_prop = (\<lambda>_. False), ch_dirty_cb = False,
     ch_last_value = VALUE_NULL, ch_type = t, ch_stack = [],
     ch_value = VALUE_NULL, ch_name = ''demo''\<rparr>"

theorem chan_set_read_witness:
  "\<exists>ch'. chan_set (\<lambda>_. Inr) (demo_chan CHAN_SINGLE) (VALUE_INT64 7) () = Inr (ch', ())
     \<and> chan_read ch' = VALUE_INT64 7"
proof -
  let ?ch' = "(demo_chan CHAN_SINGLE)\<lparr>ch_value := VALUE_INT64 7, ch_is_dirty := True\<rparr>"
  have run: "chan_set (\<lambda>_. Inr) (demo_chan CHAN_SINGLE) (VALUE_INT64 7) () = Inr (?ch', ())"
    by (simp add: chan_op_defs demo_chan_def)
  have "chan_read ?ch' = VALUE_INT64 7"
    by (rule chan_set_read [OF _ _ run]) (simp_all add: chan_wf_def demo_chan_def chan_read_def)
  with run show ?thesis by blast
qed

text \<open>Matching push and pop with the flushes between them restore the stack: the pop of the
  pushed value succeeds on the flushed channel and leaves the stack, the value read and the
  cleanliness of the channel as they were.\<close>

theorem chan_push_pop_roundtrip:
  assumes wf: "chan_wf ch" and clean: "\<not> ch_is_dirty ch" and nocb: "\<not> ch_dirty_cb ch"
    and dup: "ch_prop ch CHAN_ALLOW_DUP \<or> \<not> ch_prop ch CHAN_IGNORE_DUP"
    and push: "chan_push cb ch v s = Inr (ch1, s1)"
    and fl: "chan_flush ch1 = Inr ch2"
  shows "\<exists>ch3 ch4. chan_pop cb ch2 v s1 = Inr (ch3, s1) \<and> chan_flush ch3 = Inr ch4 \<and> ch4 = ch"
proof -
  have c1: "ch1 = ch\<lparr>ch_stack := v # ch_stack ch, ch_is_dirty := True\<rparr>"
    and ty: "ch_type ch = CHAN_STACK"
    using push clean nocb dup
    by (auto simp: chan_push_def set_dirty_def Let_def split: if_splits)
  have c2: "ch2 = ch1\<lparr>ch_last_value := v, ch_is_dirty := False\<rparr>"
    using fl c1 ty by (auto simp: chan_flush_def chan_read_def split: if_splits)
  have pop: "chan_pop cb ch2 v s1 = Inr (ch2\<lparr>ch_stack := ch_stack ch, ch_is_dirty := True\<rparr>, s1)"
    using c1 c2 ty nocb by (simp add: chan_pop_def set_dirty_def)
  have "chan_flush (ch2\<lparr>ch_stack := ch_stack ch, ch_is_dirty := True\<rparr>) = Inr ch"
    using wf clean c1 c2 ty by (auto simp: chan_flush_def chan_read_def chan_wf_def)
  with pop show ?thesis by blast
qed

theorem chan_push_pop_roundtrip_witness:
  "\<exists>ch1 ch2 ch3 ch4.
     chan_push (\<lambda>_. Inr) (demo_chan CHAN_STACK) (VALUE_INT64 3) () = Inr (ch1, ())
     \<and> chan_flush ch1 = Inr ch2
     \<and> chan_pop (\<lambda>_. Inr) ch2 (VALUE_INT64 3) () = Inr (ch3, ())
     \<and> chan_flush ch3 = Inr ch4 \<and> ch4 = demo_chan CHAN_STACK"
proof -
  let ?ch1 = "(demo_chan CHAN_STACK)\<lparr>ch_stack := [VALUE_INT64 3], ch_is_dirty := True\<rparr>"
  let ?ch2 = "?ch1\<lparr>ch_last_value := VALUE_INT64 3, ch_is_dirty := False\<rparr>"
  have run: "chan_push (\<lambda>_. Inr) (demo_chan CHAN_STACK) (VALUE_INT64 3) () = Inr (?ch1, ())"
    by (simp add: chan_op_defs demo_chan_def MAX_CHAN_STACK_def)
  have fl: "chan_flush ?ch1 = Inr ?ch2"
    by (simp add: chan_flush_def chan_read_def demo_chan_def)
  have "\<exists>ch3 ch4. chan_pop (\<lambda>_. Inr) ?ch2 (VALUE_INT64 3) () = Inr (ch3, ())
     \<and> chan_flush ch3 = Inr ch4 \<and> ch4 = demo_chan CHAN_STACK"
    by (rule chan_push_pop_roundtrip [OF _ _ _ _ run fl])
      (simp_all add: chan_wf_def chan_read_def demo_chan_def)
  with run fl show ?thesis by blast
qed

end
