(* ===== verification/Bay.thy ===== *)
theory Bay
  imports Chan
begin

text \<open>
  The patch bay: \<^verbatim>\<open>src/emu/bay.h\<close> and \<^verbatim>\<open>src/emu/bay.c\<close>.

  Channels live in structures all over the emulator; an address of type \<open>cid\<close> names the place of
  each one, and the field \<open>bay_mem\<close> is the memory that holds them. The bay itself has the hash
  table of the registered channels by name, the list of dirty channels and, for each registered
  channel, the lists of its enabled callbacks. A \<^verbatim>\<open>struct bay_chan\<close> is named by the address of
  its channel, a \<^verbatim>\<open>struct bay_cb\<close> by a number.

  A callback is a function pointer and its argument. The sources install four functions, the
  constructors of \<open>cb_func\<close>; what they do is the parameter \<open>run\<close> of \<^verbatim>\<open>bay_propagate\<close>, supplied where
  the multiplexers, the sorters and the trace writer are known.
\<close>

subsection \<open>Data\<close>

datatype cid =
    ThreadChan nat nat \<comment> \<open>\<^verbatim>\<open>thread[g].chan[i]\<close>\<close>
  | CpuChan nat nat \<comment> \<open>\<^verbatim>\<open>cpu[g].chan[i]\<close>\<close>
  | ModelChan nat nat nat \<comment> \<open>\<^verbatim>\<open>EXT(thread[g], m)->m.ch[i]\<close>\<close>
  | ModelThreadTrack nat nat nat \<comment> \<open>\<^verbatim>\<open>EXT(thread[g], m)->m.track[i].ch\<close>\<close>
  | ModelCpuTrack nat nat nat \<comment> \<open>\<^verbatim>\<open>EXT(cpu[g], m)->m.track[i].ch\<close>\<close>
  | MarkChan nat nat \<comment> \<open>\<^verbatim>\<open>EXT(thread[g], 'O')->mark.channels[i]\<close>\<close>
  | HwcChan nat nat \<comment> \<open>\<^verbatim>\<open>EXT(thread[g], 'V')->hwc.chan[i]\<close>\<close>
  | SortOutput nat nat \<comment> \<open>\<^verbatim>\<open>sort->outputs[i]\<close>\<close>
  | OtherChan nat \<comment> \<open>any other channel\<close>

datatype cb_func =
    CB_SELECT nat \<comment> \<open>\<^verbatim>\<open>cb_select\<close> of \<^verbatim>\<open>mux.c\<close>, on a multiplexer\<close>
  | CB_INPUT nat nat \<comment> \<open>\<^verbatim>\<open>cb_input\<close> of \<^verbatim>\<open>mux.c\<close>, on an input of a multiplexer\<close>
  | SORT_CB_INPUT nat nat \<comment> \<open>\<^verbatim>\<open>sort_cb_input\<close> of \<^verbatim>\<open>sort.c\<close>, on an input of a sorter\<close>
  | CB_PRV nat nat \<comment> \<open>\<^verbatim>\<open>cb_prv\<close> of \<^verbatim>\<open>prv.c\<close>, on a channel of a trace\<close>

datatype bay_cb_type = BAY_CB_DIRTY | BAY_CB_EMIT

datatype bay_state = BAY_UKNOWN | BAY_READY | BAY_PROPAGATING | BAY_EMITTING | BAY_FLUSHING

record bay_cb =
  cb_fun :: cb_func
  cb_bchan :: cid
  cb_enabled :: bool
  cb_type :: bay_cb_type

record bay_chan =
  bc_ncallbacks :: "bay_cb_type \<Rightarrow> nat"
  bc_cb :: "bay_cb_type \<Rightarrow> nat list"
  bc_is_dirty :: bool

record bay =
  bay_state :: bay_state
  bay_channels :: "string \<rightharpoonup> cid"
  bay_dirty :: "cid list"
  bay_bchans :: "cid \<Rightarrow> bay_chan"
  bay_cbs :: "nat \<Rightarrow> bay_cb"
  bay_ncbs :: nat
  bay_mem :: "cid \<Rightarrow> chan"

abbreviation registered :: "'x bay_scheme \<Rightarrow> cid set" where
  "registered w \<equiv> ran (bay_channels w)"

abbreviation cb_list :: "cid \<Rightarrow> bay_cb_type \<Rightarrow> 'x bay_scheme \<Rightarrow> nat list" where
  "cb_list c t w \<equiv> bc_cb (bay_bchans w c) t"

subsection \<open>Registration and callbacks\<close>

definition bay_init :: "'x bay_scheme \<Rightarrow> 'x bay_scheme" where
  "bay_init w = w\<lparr>bay_state := BAY_READY, bay_channels := Map.empty, bay_dirty := []\<rparr>"

text \<open>Called from the channel when it becomes dirty. The channel is appended to the dirty list,
  but the flag \<^verbatim>\<open>is_dirty\<close> of its \<^verbatim>\<open>bay_chan\<close> stays as it is.\<close>

definition cb_chan_is_dirty :: "cid \<Rightarrow> 'x bay_scheme \<Rightarrow> 'x bay_scheme res" where
  "cb_chan_is_dirty c w =
     (if bay_state w \<noteq> BAY_READY \<and> bay_state w \<noteq> BAY_PROPAGATING then Inl (EBay BayBadState)
      else if bc_is_dirty (bay_bchans w c) then Inl (EBay BayOnDirtyList)
      else Inr (w\<lparr>bay_dirty := bay_dirty w @ [c]\<rparr>))"

definition bay_find :: "'x bay_scheme \<Rightarrow> string \<Rightarrow> cid option" where
  "bay_find w name = bay_channels w name"

definition bay_register :: "cid \<Rightarrow> 'x bay_scheme \<Rightarrow> 'x bay_scheme res" where
  "bay_register c w =
     (let name = ch_name (bay_mem w c) in
      if bay_find w name \<noteq> None then Inl (EBay BayAlreadyRegistered)
      else Inr (w\<lparr>bay_bchans := (bay_bchans w)(c := \<lparr>bc_ncallbacks = (\<lambda>_. 0), bc_cb = (\<lambda>_. []),
                                                     bc_is_dirty = False\<rparr>),
                  bay_mem := (bay_mem w)(c := chan_set_dirty_cb (bay_mem w c)),
                  bay_channels := (bay_channels w)(name \<mapsto> c)\<rparr>))"

definition bay_enable_cb :: "nat \<Rightarrow> 'x bay_scheme \<Rightarrow> 'x bay_scheme res" where
  "bay_enable_cb i w =
     (let cb = bay_cbs w i; c = cb_bchan cb; t = cb_type cb; b = bay_bchans w c in
      if cb_enabled cb then Inr w
      else if bc_is_dirty b then Inl (EBay BayCbOfDirtyChan)
      else Inr (w\<lparr>bay_cbs := (bay_cbs w)(i := cb\<lparr>cb_enabled := True\<rparr>),
                  bay_bchans := (bay_bchans w)(c := b\<lparr>
                    bc_cb := (bc_cb b)(t := bc_cb b t @ [i]),
                    bc_ncallbacks := (bc_ncallbacks b)(t := Suc (bc_ncallbacks b t))\<rparr>)\<rparr>))"

text \<open>As written, \<^verbatim>\<open>bay_disable_cb\<close> also adds one to the counter of callbacks.\<close>

definition bay_disable_cb :: "nat \<Rightarrow> 'x bay_scheme \<Rightarrow> 'x bay_scheme res" where
  "bay_disable_cb i w =
     (let cb = bay_cbs w i; c = cb_bchan cb; t = cb_type cb; b = bay_bchans w c in
      if \<not> cb_enabled cb then Inr w
      else if bc_is_dirty b then Inl (EBay BayCbOfDirtyChan)
      else Inr (w\<lparr>bay_cbs := (bay_cbs w)(i := cb\<lparr>cb_enabled := False\<rparr>),
                  bay_bchans := (bay_bchans w)(c := b\<lparr>
                    bc_cb := (bc_cb b)(t := remove1 i (bc_cb b t)),
                    bc_ncallbacks := (bc_ncallbacks b)(t := Suc (bc_ncallbacks b t))\<rparr>)\<rparr>))"

definition bay_add_cb ::
  "bay_cb_type \<Rightarrow> cid \<Rightarrow> cb_func \<Rightarrow> bool \<Rightarrow> 'x bay_scheme \<Rightarrow> (nat \<times> 'x bay_scheme) res" where
  "bay_add_cb t c f enabled w =
     (case bay_find w (ch_name (bay_mem w c)) of
        None \<Rightarrow> Inl (EBay BayNotFound)
      | Some b \<Rightarrow>
          let i = bay_ncbs w;
              w1 = w\<lparr>bay_cbs := (bay_cbs w)(i := \<lparr>cb_fun = f, cb_bchan = b, cb_enabled = False,
                                                   cb_type = t\<rparr>),
                     bay_ncbs := Suc i\<rparr>
          in if enabled then rbind (bay_enable_cb i w1) (\<lambda>w2. Inr (i, w2)) else Inr (i, w1))"

subsection \<open>Channel operations on the memory\<close>

text \<open>A channel operation at an address: the callback of the channel is \<^verbatim>\<open>cb_chan_is_dirty\<close>
  on its \<^verbatim>\<open>bay_chan\<close>.\<close>

definition put_chan :: "cid \<Rightarrow> chan \<times> 'x bay_scheme \<Rightarrow> 'x bay_scheme res" where
  "put_chan c p = (case p of (ch, w) \<Rightarrow> Inr (w\<lparr>bay_mem := (bay_mem w)(c := ch)\<rparr>))"

definition chan_set_at :: "cid \<Rightarrow> chval \<Rightarrow> 'x bay_scheme \<Rightarrow> 'x bay_scheme res" where
  "chan_set_at c v w =
     rbind (chan_set (\<lambda>_. cb_chan_is_dirty c) (bay_mem w c) v w) (put_chan c)"

definition chan_push_at :: "cid \<Rightarrow> chval \<Rightarrow> 'x bay_scheme \<Rightarrow> 'x bay_scheme res" where
  "chan_push_at c v w =
     rbind (chan_push (\<lambda>_. cb_chan_is_dirty c) (bay_mem w c) v w) (put_chan c)"

definition chan_pop_at :: "cid \<Rightarrow> chval \<Rightarrow> 'x bay_scheme \<Rightarrow> 'x bay_scheme res" where
  "chan_pop_at c v w =
     rbind (chan_pop (\<lambda>_. cb_chan_is_dirty c) (bay_mem w c) v w) (put_chan c)"

abbreviation chan_read_at :: "cid \<Rightarrow> 'x bay_scheme \<Rightarrow> chval" where
  "chan_read_at c w \<equiv> chan_read (bay_mem w c)"

definition chan_flush_at :: "cid \<Rightarrow> 'x bay_scheme \<Rightarrow> 'x bay_scheme res" where
  "chan_flush_at c w =
     rbind (chan_flush (bay_mem w c)) (\<lambda>ch. Inr (w\<lparr>bay_mem := (bay_mem w)(c := ch)\<rparr>))"

subsection \<open>Propagation\<close>

type_synonym 'w cb_run = "cb_func \<Rightarrow> cid \<Rightarrow> 'w \<Rightarrow> 'w res"

definition propagate_chan ::
  "'x bay_scheme cb_run \<Rightarrow> nat \<Rightarrow> bay_cb_type \<Rightarrow> cid \<Rightarrow> 'x bay_scheme \<Rightarrow> 'x bay_scheme res" where
  "propagate_chan run n t c w =
     dl_foreach n (cb_list c t) (\<lambda>i w. run (cb_fun (bay_cbs w i)) c w)
       (dl_head (cb_list c t w)) w"

definition flush_chan :: "cid \<Rightarrow> 'x bay_scheme \<Rightarrow> 'x bay_scheme res" where
  "flush_chan c w =
     rbind (chan_flush_at c w) (\<lambda>w1.
       Inr (w1\<lparr>bay_bchans := (bay_bchans w1)(c := (bay_bchans w1 c)\<lparr>bc_is_dirty := False\<rparr>)\<rparr>))"

text \<open>The first argument after \<open>run\<close> bounds the iterations of each loop.\<close>

definition bay_propagate :: "'x bay_scheme cb_run \<Rightarrow> nat \<Rightarrow> 'x bay_scheme \<Rightarrow> 'x bay_scheme res" where
  "bay_propagate run n w0 =
     (let w = w0\<lparr>bay_state := BAY_PROPAGATING\<rparr> in
      rbind (dl_foreach n bay_dirty (propagate_chan run n BAY_CB_DIRTY) (dl_head (bay_dirty w)) w)
      (\<lambda>w1. let w1 = w1\<lparr>bay_state := BAY_EMITTING\<rparr> in
      rbind (dl_foreach n bay_dirty (propagate_chan run n BAY_CB_EMIT) (dl_head (bay_dirty w1)) w1)
      (\<lambda>w2. let w2 = w2\<lparr>bay_state := BAY_FLUSHING\<rparr> in
      rbind (dl_foreach n bay_dirty flush_chan (dl_head (bay_dirty w2)) w2)
      (\<lambda>w3. Inr (w3\<lparr>bay_dirty := [], bay_state := BAY_READY\<rparr>)))))"

subsection \<open>The invariant of the bay\<close>

text \<open>The registered channels are those with a dirty callback, under their own name; the dirty
  list holds every registered channel that is dirty exactly once; the flag of a \<^verbatim>\<open>bay_chan\<close> is
  never set; a callback is in the list of its channel and type exactly when it is enabled.\<close>

definition bay_chans_wf :: "'x bay_scheme \<Rightarrow> bool" where
  "bay_chans_wf w \<longleftrightarrow>
     finite (dom (bay_channels w))
     \<and> (\<forall>n c. bay_channels w n = Some c \<longrightarrow> ch_name (bay_mem w c) = n)
     \<and> (\<forall>c. ch_dirty_cb (bay_mem w c) \<longleftrightarrow> c \<in> registered w)
     \<and> distinct (bay_dirty w)
     \<and> (\<forall>c. c \<in> set (bay_dirty w) \<longleftrightarrow> c \<in> registered w \<and> ch_is_dirty (bay_mem w c))
     \<and> (\<forall>c. \<not> bc_is_dirty (bay_bchans w c))
     \<and> (\<forall>c. chan_wf (bay_mem w c))"

definition bay_cbs_wf :: "'x bay_scheme \<Rightarrow> bool" where
  "bay_cbs_wf w \<longleftrightarrow>
     (\<forall>c t. distinct (cb_list c t w))
     \<and> (\<forall>c t i. i \<in> set (cb_list c t w) \<longleftrightarrow>
          i < bay_ncbs w \<and> cb_enabled (bay_cbs w i) \<and> cb_bchan (bay_cbs w i) = c
          \<and> cb_type (bay_cbs w i) = t)
     \<and> (\<forall>i < bay_ncbs w. cb_bchan (bay_cbs w i) \<in> registered w)"

definition bay_wf :: "'x bay_scheme \<Rightarrow> bool" where
  "bay_wf w \<longleftrightarrow> bay_chans_wf w \<and> bay_cbs_wf w"

lemmas bay_wf_defs = bay_wf_def bay_chans_wf_def bay_cbs_wf_def

lemma registered_finite: "bay_wf w \<Longrightarrow> finite (registered w)"
  by (simp add: bay_wf_defs finite_ran)

text \<open>What one channel operation, and more generally any callback, may do to the bay.\<close>

definition bay_step :: "'x bay_scheme \<Rightarrow> 'x bay_scheme \<Rightarrow> bool" where
  "bay_step w w' \<longleftrightarrow>
     bay_wf w' \<and> bay_state w' = bay_state w \<and> bay_channels w' = bay_channels w
     \<and> bay_ncbs w' = bay_ncbs w
     \<and> (\<forall>i. cb_fun (bay_cbs w' i) = cb_fun (bay_cbs w i) \<and> cb_bchan (bay_cbs w' i) = cb_bchan (bay_cbs w i)
            \<and> cb_type (bay_cbs w' i) = cb_type (bay_cbs w i))
     \<and> (\<exists>ys. bay_dirty w' = bay_dirty w @ ys)
     \<and> (bay_state w \<noteq> BAY_READY \<and> bay_state w \<noteq> BAY_PROPAGATING \<longrightarrow> bay_dirty w' = bay_dirty w)"

lemma bay_wf_state [simp]: "bay_wf (w\<lparr>bay_state := st\<rparr>) = bay_wf w"
  by (simp add: bay_wf_defs)

lemma bay_step_refl: "bay_wf w \<Longrightarrow> bay_step w w"
  by (simp add: bay_step_def)

lemma bay_step_trans [trans]: "bay_step w w' \<Longrightarrow> bay_step w' w'' \<Longrightarrow> bay_step w w''"
  by (auto simp: bay_step_def)

lemma bay_step_wf: "bay_step w w' \<Longrightarrow> bay_wf w'"
  by (simp add: bay_step_def)

lemma bay_wfD:
  assumes "bay_wf w"
  shows "distinct (bay_dirty w)" and "distinct (cb_list c t w)"
    and "ch_dirty_cb (bay_mem w c) \<longleftrightarrow> c \<in> registered w"
    and "c \<in> set (bay_dirty w) \<longleftrightarrow> c \<in> registered w \<and> ch_is_dirty (bay_mem w c)"
    and "chan_wf (bay_mem w c)" and "\<not> bc_is_dirty (bay_bchans w c)"
    and "i \<in> set (cb_list c t w) \<Longrightarrow> i < bay_ncbs w"
    and "i \<in> set (cb_list c t w) \<Longrightarrow> cb_bchan (bay_cbs w i) = c"
    and "i \<in> set (cb_list c t w) \<Longrightarrow> cb_type (bay_cbs w i) = t"
    and "i \<in> set (cb_list c t w) \<Longrightarrow> cb_enabled (bay_cbs w i)"
  using assms by (simp_all add: bay_wf_defs)

subsection \<open>Channel operations keep the invariant\<close>

lemma cb_chan_is_dirty_ok [okD]:
  "cb_chan_is_dirty c w = Inr w' \<Longrightarrow>
     w' = w\<lparr>bay_dirty := bay_dirty w @ [c]\<rparr>
     \<and> (bay_state w = BAY_READY \<or> bay_state w = BAY_PROPAGATING)"
  by (auto simp: cb_chan_is_dirty_def split: if_splits)

text \<open>What an operation on the channel \<open>c\<close> may do: it writes that channel only, and leaves the
  callbacks and the rest of the emulator alone.\<close>

definition bay_write :: "cid \<Rightarrow> 'x bay_scheme \<Rightarrow> 'x bay_scheme \<Rightarrow> bool" where
  "bay_write c w w' \<longleftrightarrow> bay_step w w' \<and> bay_bchans w' = bay_bchans w \<and> bay_cbs w' = bay_cbs w
     \<and> bay.more w' = bay.more w \<and> (\<forall>d. d \<noteq> c \<longrightarrow> bay_mem w' d = bay_mem w d)
     \<and> same_chan (bay_mem w c) (bay_mem w' c)"

lemma bay_write_step: "bay_write c w w' \<Longrightarrow> bay_step w w'"
  by (simp add: bay_write_def)

text \<open>A sequence of operations on channels of the set \<open>C\<close>.\<close>

definition bay_writes :: "cid set \<Rightarrow> 'x bay_scheme \<Rightarrow> 'x bay_scheme \<Rightarrow> bool" where
  "bay_writes C w w' \<longleftrightarrow> bay_step w w' \<and> bay_bchans w' = bay_bchans w \<and> bay_cbs w' = bay_cbs w
     \<and> bay.more w' = bay.more w \<and> (\<forall>d. d \<notin> C \<longrightarrow> bay_mem w' d = bay_mem w d)
     \<and> (\<forall>c. same_chan (bay_mem w c) (bay_mem w' c))"

lemma bay_write_writes: "bay_write c w w' \<Longrightarrow> bay_writes {c} w w'"
  unfolding bay_write_def bay_writes_def by (metis same_chan_refl singletonI)

lemma bay_writes_refl: "bay_wf w \<Longrightarrow> bay_writes C w w"
  by (simp add: bay_writes_def bay_step_refl)

lemma bay_writes_trans:
  "bay_writes C w w' \<Longrightarrow> bay_writes D w' w'' \<Longrightarrow> bay_writes (C \<union> D) w w''"
  by (auto simp: bay_writes_def same_chan_def intro: bay_step_trans)

lemma bay_writes_mono: "bay_writes C w w' \<Longrightarrow> C \<subseteq> D \<Longrightarrow> bay_writes D w w'"
  by (auto simp: bay_writes_def)

lemma bay_writes_step: "bay_writes C w w' \<Longrightarrow> bay_step w w'"
  by (simp add: bay_writes_def)

lemma bay_writes_wf: "bay_writes C w w' \<Longrightarrow> bay_wf w'"
  by (simp add: bay_writes_def bay_step_def)

text \<open>The two ways a successful operation leaves the bay: nothing changed, or the channel is
  dirty and, when it was registered and clean before, on the dirty list.\<close>

lemma put_chan_write:
  assumes wf: "bay_wf w" and ch': "chan_wf ch'" "same_chan (bay_mem w c) ch'"
    and w1: "ch' = bay_mem w c \<and> w1 = w \<or> ch_is_dirty ch' \<and>
        (if ch_is_dirty (bay_mem w c) \<or> \<not> ch_dirty_cb (bay_mem w c) then w1 = w
         else cb_chan_is_dirty c w = Inr w1)"
    and w': "put_chan c (ch', w1) = Inr w'"
  shows "bay_write c w w'"
proof -
  have w': "w' = w1\<lparr>bay_mem := (bay_mem w1)(c := ch')\<rparr>"
    using w' by (simp add: put_chan_def)
  consider "ch' = bay_mem w c" "w1 = w"
    | "ch_is_dirty ch'" "ch_is_dirty (bay_mem w c) \<or> \<not> ch_dirty_cb (bay_mem w c)" "w1 = w"
    | "ch_is_dirty ch'" "\<not> ch_is_dirty (bay_mem w c)" "ch_dirty_cb (bay_mem w c)"
      "cb_chan_is_dirty c w = Inr w1"
    using w1 by (auto split: if_splits)
  then show ?thesis
  proof cases
    case 1
    with w' wf show ?thesis by (simp add: bay_write_def bay_step_refl)
  next
    case 2
    with w' wf ch' show ?thesis
      by (auto simp: bay_write_def bay_step_def bay_wf_defs same_chan_def)
  next
    case 3
    with w' wf ch' cb_chan_is_dirty_ok [OF 3(4)] show ?thesis
      by (auto simp: bay_write_def bay_step_def bay_wf_defs same_chan_def)
  qed
qed

lemma chan_set_at_write:
  assumes "bay_wf w" and "chan_set_at c v w = Inr w'"
  shows "bay_write c w w'"
proof -
  obtain ch' w1 where run: "chan_set (\<lambda>_. cb_chan_is_dirty c) (bay_mem w c) v w = Inr (ch', w1)"
    and w': "put_chan c (ch', w1) = Inr w'"
    using assms(2) by (auto simp: chan_set_at_def)
  from chan_set_ok [OF run] chan_set_wf [OF bay_wfD(5) [OF assms(1)] run] assms(1) w'
  show ?thesis by (intro put_chan_write) auto
qed

lemma chan_push_at_write:
  assumes "bay_wf w" and "chan_push_at c v w = Inr w'"
  shows "bay_write c w w'"
proof -
  obtain ch' w1 where run: "chan_push (\<lambda>_. cb_chan_is_dirty c) (bay_mem w c) v w = Inr (ch', w1)"
    and w': "put_chan c (ch', w1) = Inr w'"
    using assms(2) by (auto simp: chan_push_at_def)
  from chan_push_ok [OF run] chan_push_wf [OF bay_wfD(5) [OF assms(1)] run] assms(1) w'
  show ?thesis by (intro put_chan_write) auto
qed

lemma chan_pop_at_write:
  assumes "bay_wf w" and "chan_pop_at c v w = Inr w'"
  shows "bay_write c w w'"
proof -
  obtain ch' w1 where run: "chan_pop (\<lambda>_. cb_chan_is_dirty c) (bay_mem w c) v w = Inr (ch', w1)"
    and w': "put_chan c (ch', w1) = Inr w'"
    using assms(2) by (auto simp: chan_pop_at_def)
  from chan_pop_ok [OF run] chan_pop_wf [OF bay_wfD(5) [OF assms(1)] run] assms(1) w'
  show ?thesis by (intro put_chan_write) auto
qed

text \<open>The value the channel has afterwards.\<close>

lemma chan_set_at_value:
  assumes "chan_set_at c v w = Inr w'"
  shows "ch_type (bay_mem w c) = CHAN_SINGLE \<and>
    (chan_read_at c w' = v \<or> ch_last_value (bay_mem w c) = v \<and> w' = w)"
  using assms
  by (auto simp: chan_set_at_def put_chan_def chan_read_def same_chan_def dest!: chan_set_ok)

lemma chan_set_at_value_clean:
  "bay_wf w \<Longrightarrow> \<not> ch_is_dirty (bay_mem w c) \<Longrightarrow> chan_set_at c v w = Inr w' \<Longrightarrow> chan_read_at c w' = v"
  using chan_set_at_value [of c v w w'] bay_wfD(5) [of w c] by (auto simp: chan_wf_def)

text \<open>A channel that allows duplicates and dirty writes takes every value while the bay accepts
  dirty channels.\<close>

lemma chan_set_at_allow_dup:
  assumes "ch_prop (bay_mem w c) CHAN_ALLOW_DUP" and "chan_set_at c v w = Inr w'"
  shows "chan_read_at c w' = v"
  using assms by (auto simp: chan_set_at_def put_chan_def chan_read_def same_chan_def dest!: chan_set_ok)

lemma chan_set_at_total:
  assumes "bay_wf w" and "ch_type (bay_mem w c) = CHAN_SINGLE"
    and "ch_prop (bay_mem w c) CHAN_ALLOW_DUP" and "ch_prop (bay_mem w c) CHAN_DIRTY_WRITE"
    and "bay_state w = BAY_READY \<or> bay_state w = BAY_PROPAGATING"
  shows "\<exists>w'. chan_set_at c v w = Inr w'"
  using assms bay_wfD(6) [OF assms(1), of c]
  by (auto simp: chan_set_at_def chan_set_def set_dirty_def Let_def put_chan_def cb_chan_is_dirty_def)

lemma chan_push_at_value:
  assumes "chan_push_at c v w = Inr w'"
  shows "ch_type (bay_mem w c) = CHAN_STACK \<and>
    (ch_stack (bay_mem w' c) = v # ch_stack (bay_mem w c) \<or>
     ch_last_value (bay_mem w c) = v \<and> ch_prop (bay_mem w c) CHAN_IGNORE_DUP \<and> w' = w)"
  using assms
  by (auto simp: chan_push_at_def put_chan_def same_chan_def dest!: chan_push_ok)

lemma chan_pop_at_value:
  assumes "chan_pop_at c v w = Inr w'"
  shows "ch_type (bay_mem w c) = CHAN_STACK \<and> ch_stack (bay_mem w c) = v # ch_stack (bay_mem w' c)"
  using assms
  by (auto simp: chan_pop_at_def put_chan_def same_chan_def dest!: chan_pop_ok)

subsection \<open>Registration and callbacks keep the invariant\<close>

lemma bay_init_wf:
  "(\<And>c. chan_wf (bay_mem w c) \<and> \<not> ch_dirty_cb (bay_mem w c)) \<Longrightarrow> bay_ncbs w = 0 \<Longrightarrow>
   (\<And>c t. cb_list c t w = [] \<and> \<not> bc_is_dirty (bay_bchans w c)) \<Longrightarrow> bay_wf (bay_init w)"
  by (simp add: bay_init_def bay_wf_defs)

lemma registered_name:
  "bay_wf w \<Longrightarrow> c \<in> registered w \<Longrightarrow> bay_channels w (ch_name (bay_mem w c)) = Some c"
  by (auto simp: bay_wf_defs ran_def)

lemma bay_register_wf:
  assumes wf: "bay_wf w" and clean: "\<not> ch_is_dirty (bay_mem w c)"
    and ok: "bay_register c w = Inr w'"
  shows "bay_wf w' \<and> registered w' = insert c (registered w) \<and> bay_find w' (ch_name (bay_mem w c)) = Some c"
proof -
  let ?n = "ch_name (bay_mem w c)"
  have none: "bay_channels w ?n = None"
    and w': "w' = w\<lparr>bay_bchans := (bay_bchans w)(c := \<lparr>bc_ncallbacks = (\<lambda>_. 0), bc_cb = (\<lambda>_. []),
                                                     bc_is_dirty = False\<rparr>),
                  bay_mem := (bay_mem w)(c := chan_set_dirty_cb (bay_mem w c)),
                  bay_channels := (bay_channels w)(?n \<mapsto> c)\<rparr>"
    using ok by (auto simp: bay_register_def Let_def bay_find_def split: if_splits)
  have notin: "c \<notin> registered w"
    using registered_name [OF wf, of c] none by auto
  have nocb: "cb_bchan (bay_cbs w i) \<noteq> c" if "i < bay_ncbs w" for i
    using wf that notin unfolding bay_wf_defs by metis
  have reg: "registered w' = insert c (registered w)"
    using none w' by simp
  have "bay_wf w'"
    using wf clean none notin nocb reg unfolding w' bay_wf_defs
    by (auto simp: chan_set_dirty_cb_def chan_wf_def chan_read_def)
  with reg w' show ?thesis by (simp add: bay_find_def)
qed

text \<open>Initializing a channel that is not registered yet.\<close>

lemma bay_wf_new_chan:
  assumes "bay_wf w" and "c \<notin> registered w" and "chan_wf ch" and "\<not> ch_dirty_cb ch"
  shows "bay_wf (w\<lparr>bay_mem := (bay_mem w)(c := ch)\<rparr>)"
proof -
  have "bay_chans_wf (w\<lparr>bay_mem := (bay_mem w)(c := ch)\<rparr>)"
    using assms unfolding bay_wf_def bay_chans_wf_def by (auto simp: ran_def)
  with assms(1) show ?thesis by (simp add: bay_wf_def bay_cbs_wf_def)
qed

text \<open>Enabling and disabling a callback: the callback is put in, or taken out of, the list of its
  channel, and nothing else changes.\<close>

lemma cb_enabled_same: "cb_enabled cb = b \<Longrightarrow> cb\<lparr>cb_enabled := b\<rparr> = (cb :: bay_cb)"
  by (cases cb) simp

lemma bay_enable_cb_ok:
  assumes wf: "bay_wf w" and i: "i < bay_ncbs w"
  shows "\<exists>w'. bay_enable_cb i w = Inr w' \<and> bay_step w w' \<and> bay_mem w' = bay_mem w
    \<and> bay_dirty w' = bay_dirty w \<and> bay.more w' = bay.more w
    \<and> bay_cbs w' = (bay_cbs w)(i := (bay_cbs w i)\<lparr>cb_enabled := True\<rparr>)
    \<and> (\<forall>c t. cb_list c t w' =
         (if c = cb_bchan (bay_cbs w i) \<and> t = cb_type (bay_cbs w i) \<and> \<not> cb_enabled (bay_cbs w i)
          then cb_list c t w @ [i] else cb_list c t w))"
proof (cases "cb_enabled (bay_cbs w i)")
  case True
  then show ?thesis by (simp add: bay_enable_cb_def Let_def bay_step_refl wf cb_enabled_same)
next
  case False
  let ?cb = "bay_cbs w i"
  let ?c = "cb_bchan ?cb" and ?t = "cb_type ?cb"
  let ?b = "bay_bchans w ?c"
  let ?w = "w\<lparr>bay_cbs := (bay_cbs w)(i := ?cb\<lparr>cb_enabled := True\<rparr>),
              bay_bchans := (bay_bchans w)(?c := ?b\<lparr>
                bc_cb := (bc_cb ?b)(?t := bc_cb ?b ?t @ [i]),
                bc_ncallbacks := (bc_ncallbacks ?b)(?t := Suc (bc_ncallbacks ?b ?t))\<rparr>)\<rparr>"
  have run: "bay_enable_cb i w = Inr ?w"
    using False bay_wfD(6) [OF wf] by (simp add: bay_enable_cb_def Let_def)
  have notin: "i \<notin> set (cb_list c t w)" for c t
    using False bay_wfD(10) [OF wf] by blast
  have "bay_chans_wf ?w"
    using wf by (simp add: bay_wf_def bay_chans_wf_def)
  moreover have "bay_cbs_wf ?w"
    using wf i False notin by (auto simp: bay_wf_def bay_cbs_wf_def)
  ultimately have "bay_wf ?w" by (simp add: bay_wf_def)
  with run False show ?thesis by (auto simp: bay_step_def)
qed

lemma bay_disable_cb_ok:
  assumes wf: "bay_wf w" and i: "i < bay_ncbs w"
  shows "\<exists>w'. bay_disable_cb i w = Inr w' \<and> bay_step w w' \<and> bay_mem w' = bay_mem w
    \<and> bay_dirty w' = bay_dirty w \<and> bay.more w' = bay.more w
    \<and> bay_cbs w' = (bay_cbs w)(i := (bay_cbs w i)\<lparr>cb_enabled := False\<rparr>)
    \<and> (\<forall>c t. cb_list c t w' = remove1 i (cb_list c t w))"
proof (cases "cb_enabled (bay_cbs w i)")
  case False
  then have notin: "i \<notin> set (cb_list c t w)" for c t
    using bay_wfD(10) [OF wf] by blast
  with False show ?thesis
    by (simp add: bay_disable_cb_def Let_def bay_step_refl wf remove1_idem cb_enabled_same)
next
  case True
  let ?cb = "bay_cbs w i"
  let ?c = "cb_bchan ?cb" and ?t = "cb_type ?cb"
  let ?b = "bay_bchans w ?c"
  let ?w = "w\<lparr>bay_cbs := (bay_cbs w)(i := ?cb\<lparr>cb_enabled := False\<rparr>),
              bay_bchans := (bay_bchans w)(?c := ?b\<lparr>
                bc_cb := (bc_cb ?b)(?t := remove1 i (bc_cb ?b ?t)),
                bc_ncallbacks := (bc_ncallbacks ?b)(?t := Suc (bc_ncallbacks ?b ?t))\<rparr>)\<rparr>"
  have run: "bay_disable_cb i w = Inr ?w"
    using True bay_wfD(6) [OF wf] by (simp add: bay_disable_cb_def Let_def)
  have notin: "i \<notin> set (cb_list c t w)" if "c \<noteq> ?c \<or> t \<noteq> ?t" for c t
    using that bay_wfD(8,9) [OF wf] by blast
  have "bay_chans_wf ?w"
    using wf by (simp add: bay_wf_def bay_chans_wf_def)
  moreover have "bay_cbs_wf ?w"
    using wf i True notin by (auto simp: bay_wf_def bay_cbs_wf_def)
  ultimately have "bay_wf ?w" by (simp add: bay_wf_def)
  with run True notin show ?thesis by (auto simp: bay_step_def remove1_idem)
qed

lemma bay_add_cb_ok:
  assumes wf: "bay_wf w" and c: "c \<in> registered w"
  shows "\<exists>w'. bay_add_cb t c f en w = Inr (bay_ncbs w, w') \<and> bay_wf w'
    \<and> bay_ncbs w' = Suc (bay_ncbs w) \<and> bay_channels w' = bay_channels w
    \<and> bay_state w' = bay_state w \<and> bay_mem w' = bay_mem w \<and> bay_dirty w' = bay_dirty w
    \<and> bay.more w' = bay.more w
    \<and> bay_cbs w' = (bay_cbs w)(bay_ncbs w := \<lparr>cb_fun = f, cb_bchan = c, cb_enabled = en, cb_type = t\<rparr>)
    \<and> (\<forall>d u. cb_list d u w' = (if en \<and> d = c \<and> u = t then cb_list d u w @ [bay_ncbs w]
                               else cb_list d u w))"
proof -
  let ?i = "bay_ncbs w"
  let ?w = "w\<lparr>bay_cbs := (bay_cbs w)(?i := \<lparr>cb_fun = f, cb_bchan = c, cb_enabled = False, cb_type = t\<rparr>),
              bay_ncbs := Suc ?i\<rparr>"
  have find: "bay_find w (ch_name (bay_mem w c)) = Some c"
    using registered_name [OF wf c] by (simp add: bay_find_def)
  have old: "i \<noteq> ?i" if "i \<in> set (cb_list d u w)" for i d u
    using bay_wfD(7) [OF wf that] by simp
  have wf1: "bay_wf ?w"
    using wf c old unfolding bay_wf_defs by (auto simp: less_Suc_eq)
  show ?thesis
  proof (cases en)
    case False
    with find wf1 show ?thesis by (simp add: bay_add_cb_def Let_def)
  next
    case True
    obtain w2 where w2: "bay_enable_cb ?i ?w = Inr w2" "bay_step ?w w2" "bay_mem w2 = bay_mem w"
      "bay_dirty w2 = bay_dirty w" "bay.more w2 = bay.more w"
      "bay_cbs w2 = (bay_cbs ?w)(?i := (bay_cbs ?w ?i)\<lparr>cb_enabled := True\<rparr>)"
      "\<forall>d u. cb_list d u w2 = (if d = c \<and> u = t then cb_list d u w @ [?i] else cb_list d u w)"
      using bay_enable_cb_ok [OF wf1, of ?i] by auto
    with True find show ?thesis
      by (simp add: bay_add_cb_def Let_def bay_step_def)
  qed
qed

subsection \<open>Propagation, for callbacks that keep the rules of the bay\<close>

text \<open>The weight of a list of callbacks bounds the calls that remain: a selection may enable the
  callback of one more input on the channel being propagated.\<close>

fun cb_weight :: "cb_func \<Rightarrow> nat" where
  "cb_weight (CB_SELECT m) = 2"
| "cb_weight _ = 1"

definition lst_weight :: "'x bay_scheme \<Rightarrow> nat list \<Rightarrow> nat" where
  "lst_weight w is = sum_list (map (\<lambda>i. cb_weight (cb_fun (bay_cbs w i))) is)"

lemma cb_weight_bounds: "0 < cb_weight f" "cb_weight f \<le> 2"
  by (cases f; simp)+

lemma lst_weight_simps [simp]:
  "lst_weight w [] = 0"
  "lst_weight w (i # is) = cb_weight (cb_fun (bay_cbs w i)) + lst_weight w is"
  "lst_weight w (is @ js) = lst_weight w is + lst_weight w js"
  by (simp_all add: lst_weight_def)

lemma lst_weight_le: "lst_weight w is \<le> 2 * length is"
proof (induction "is")
  case (Cons i "is")
  then show ?case using cb_weight_bounds(2) [of "cb_fun (bay_cbs w i)"] by simp
qed simp

lemma lst_weight_step: "bay_step w w' \<Longrightarrow> lst_weight w' is = lst_weight w is"
  by (simp add: bay_step_def lst_weight_def)

lemma cb_list_length: "bay_wf w \<Longrightarrow> length (cb_list c t w) \<le> bay_ncbs w"
proof -
  assume wf: "bay_wf w"
  then have "set (cb_list c t w) \<subseteq> {..<bay_ncbs w}" using bay_wfD(7) by blast
  from card_mono [OF _ this] wf show ?thesis
    by (simp add: distinct_card [OF bay_wfD(2)])
qed

lemma dirty_length: "bay_wf w \<Longrightarrow> length (bay_dirty w) \<le> card (registered w)"
proof -
  assume wf: "bay_wf w"
  then have "set (bay_dirty w) \<subseteq> registered w" using bay_wfD(4) by blast
  from card_mono [OF registered_finite [OF wf] this] wf show ?thesis
    by (simp add: distinct_card [OF bay_wfD(1)])
qed

text \<open>The flush phase: it cannot fail, and leaves every channel of the list clean with the value
  it had.\<close>

definition flushed :: "chan \<Rightarrow> chan" where
  "flushed ch = ch\<lparr>ch_last_value := chan_read ch, ch_is_dirty := False\<rparr>"

lemma flush_chan_eq:
  "ch_is_dirty (bay_mem w c) \<Longrightarrow> flush_chan c w =
     Inr (w\<lparr>bay_mem := (bay_mem w)(c := flushed (bay_mem w c)),
            bay_bchans := (bay_bchans w)(c := (bay_bchans w c)\<lparr>bc_is_dirty := False\<rparr>)\<rparr>)"
  by (simp add: flush_chan_def chan_flush_at_def chan_flush_def flushed_def)

lemma flush_all:
  assumes "distinct cs" and "\<And>c. c \<in> set cs \<Longrightarrow> ch_is_dirty (bay_mem w c)"
  shows "foldr_res flush_chan cs w =
    Inr (w\<lparr>bay_mem := (\<lambda>c. if c \<in> set cs then flushed (bay_mem w c) else bay_mem w c),
           bay_bchans := (\<lambda>c. if c \<in> set cs then (bay_bchans w c)\<lparr>bc_is_dirty := False\<rparr>
                              else bay_bchans w c)\<rparr>)"
  using assms
proof (induction cs arbitrary: w)
  case (Cons c cs)
  let ?w = "w\<lparr>bay_mem := (bay_mem w)(c := flushed (bay_mem w c)),
              bay_bchans := (bay_bchans w)(c := (bay_bchans w c)\<lparr>bc_is_dirty := False\<rparr>)\<rparr>"
  have "flush_chan c w = Inr ?w" using Cons.prems(2) by (simp add: flush_chan_eq)
  moreover have "ch_is_dirty (bay_mem ?w d)" if "d \<in> set cs" for d
    using that Cons.prems by auto
  ultimately have "foldr_res flush_chan (c # cs) w =
    Inr (?w\<lparr>bay_mem := (\<lambda>d. if d \<in> set cs then flushed (bay_mem ?w d) else bay_mem ?w d),
           bay_bchans := (\<lambda>d. if d \<in> set cs then (bay_bchans ?w d)\<lparr>bc_is_dirty := False\<rparr>
                              else bay_bchans ?w d)\<rparr>)"
    using Cons.IH [of ?w] Cons.prems(1) by simp
  also have "\<dots> = Inr (w\<lparr>bay_mem := (\<lambda>d. if d \<in> set (c # cs) then flushed (bay_mem w d) else bay_mem w d),
           bay_bchans := (\<lambda>d. if d \<in> set (c # cs) then (bay_bchans w d)\<lparr>bc_is_dirty := False\<rparr>
                              else bay_bchans w d)\<rparr>)"
    using Cons.prems(1) by (simp add: fun_eq_iff)
  finally show ?case .
qed simp

lemma flush_loop:
  assumes wf: "bay_wf w" and n: "card (registered w) \<le> n"
  shows "dl_foreach n bay_dirty flush_chan (dl_head (bay_dirty w)) w =
    foldr_res flush_chan (bay_dirty w) w"
proof -
  have "dl_foreach n bay_dirty flush_chan (dl_head (bay_dirty w)) w =
      foldr_res flush_chan (dl_from (dl_head (bay_dirty w)) (bay_dirty w)) w"
  proof (rule dl_foreach_static)
    fix x and w w' :: "'a bay_scheme" assume "flush_chan x w = Inr w'"
    then show "bay_dirty w' = bay_dirty w" by (auto simp: flush_chan_def chan_flush_at_def)
  qed (use wf n dirty_length [OF wf] in \<open>auto simp: bay_wfD dest: dl_head_in\<close>)
  then show ?thesis by simp
qed

lemma flushed_simps [simp]:
  "chan_read (flushed ch) = chan_read ch" "\<not> ch_is_dirty (flushed ch)"
  "ch_last_value (flushed ch) = chan_read ch" "ch_name (flushed ch) = ch_name ch"
  "ch_dirty_cb (flushed ch) = ch_dirty_cb ch" "ch_stack (flushed ch) = ch_stack ch"
  by (simp_all add: flushed_def chan_read_def split: list.splits)

lemma flush_all_wf:
  assumes wf: "bay_wf w" and "foldr_res flush_chan (bay_dirty w) w = Inr w'"
  shows "bay_wf (w'\<lparr>bay_dirty := [], bay_state := st\<rparr>)
    \<and> (\<forall>c. chan_read_at c w' = chan_read_at c w) \<and> bay_channels w' = bay_channels w
    \<and> (\<forall>c \<in> registered w. \<not> ch_is_dirty (bay_mem w' c) \<and> ch_last_value (bay_mem w' c) = chan_read_at c w)"
proof -
  have d: "ch_is_dirty (bay_mem w c)" if "c \<in> set (bay_dirty w)" for c
    using that bay_wfD(4) [OF wf] by blast
  from assms(2) flush_all [OF bay_wfD(1) [OF wf] d]
  have w': "w' = w\<lparr>bay_mem := (\<lambda>c. if c \<in> set (bay_dirty w) then flushed (bay_mem w c) else bay_mem w c),
      bay_bchans := (\<lambda>c. if c \<in> set (bay_dirty w) then (bay_bchans w c)\<lparr>bc_is_dirty := False\<rparr>
                              else bay_bchans w c)\<rparr>"
    by simp
  have cb: "cb_list c t w' = cb_list c t w" for c t by (simp add: w')
  have "bay_chans_wf (w'\<lparr>bay_dirty := [], bay_state := st\<rparr>)"
    using wf unfolding bay_wf_def bay_chans_wf_def w' by (auto simp: chan_wf_def)
  moreover have "bay_cbs_wf (w'\<lparr>bay_dirty := [], bay_state := st\<rparr>)"
    using wf cb unfolding bay_wf_def bay_cbs_wf_def by (simp add: w')
  moreover have "ch_last_value (bay_mem w c) = chan_read_at c w"
    if "\<not> ch_is_dirty (bay_mem w c)" for c
    using wf that by (simp add: bay_wf_defs chan_wf_def)
  moreover have "c \<notin> set (bay_dirty w) \<Longrightarrow> c \<in> registered w \<Longrightarrow> \<not> ch_is_dirty (bay_mem w c)" for c
    using wf by (simp add: bay_wf_defs)
  ultimately show ?thesis by (auto simp: bay_wf_def w')
qed

text \<open>The contract of the callbacks: \<open>inv\<close> is the invariant of the components they belong to.\<close>

locale bay_callbacks =
  fixes run :: "'x bay_scheme cb_run" and inv :: "'x bay_scheme \<Rightarrow> bool"
  assumes run_step: "bay_wf w \<Longrightarrow> inv w \<Longrightarrow> i \<in> set (cb_list c t w) \<Longrightarrow>
      run (cb_fun (bay_cbs w i)) c w = Inr w' \<Longrightarrow> bay_step w w' \<and> inv w'"
    and run_progress: "bay_wf w \<Longrightarrow> inv w \<Longrightarrow> i \<in> set (cb_list c t w) \<Longrightarrow>
      run (cb_fun (bay_cbs w i)) c w = Inr w' \<Longrightarrow>
      lst_weight w (dl_from (next_after i (cb_list c t w')) (cb_list c t w'))
        < lst_weight w (dl_from (Some i) (cb_list c t w))"
    and run_no_fuel: "bay_wf w \<Longrightarrow> inv w \<Longrightarrow> i \<in> set (cb_list c t w) \<Longrightarrow>
      run (cb_fun (bay_cbs w i)) c w \<noteq> Inl EFuel"
    and inv_state: "inv w \<Longrightarrow> inv (w\<lparr>bay_state := st\<rparr>)"
    and inv_dirty: "inv w \<Longrightarrow> inv (w\<lparr>bay_dirty := d\<rparr>)"
    and inv_flush: "inv w \<Longrightarrow> flush_chan c w = Inr w' \<Longrightarrow> inv w'"
begin

lemma propagate_chan_step:
  assumes "bay_wf w" and "inv w" and "propagate_chan run n t c w = Inr w'"
  shows "bay_step w w' \<and> inv w'"
  using assms(3) unfolding propagate_chan_def
proof (rule dl_foreach_invar [where I = "\<lambda>w'. bay_step w w' \<and> inv w'"])
  fix i w1 w2
  assume "bay_step w w1 \<and> inv w1" "i \<in> set (cb_list c t w1)" "run (cb_fun (bay_cbs w1 i)) c w1 = Inr w2"
  then show "bay_step w w2 \<and> inv w2"
    using run_step [of w1 i c t w2] by (auto intro: bay_step_trans dest: bay_step_wf)
qed (use assms in \<open>auto simp: bay_step_refl dest: dl_head_in\<close>)

lemma propagate_phase_step:
  assumes "bay_wf w" and "inv w"
    and "dl_foreach n bay_dirty (propagate_chan run n t) (dl_head (bay_dirty w)) w = Inr w'"
  shows "bay_step w w' \<and> inv w'"
  using assms(3)
proof (rule dl_foreach_invar [where I = "\<lambda>w'. bay_step w w' \<and> inv w'"])
  fix c w1 w2
  assume "bay_step w w1 \<and> inv w1" "propagate_chan run n t c w1 = Inr w2"
  then show "bay_step w w2 \<and> inv w2"
    using propagate_chan_step [of w1 n t c w2] by (auto intro: bay_step_trans dest: bay_step_wf)
qed (use assms in \<open>auto simp: bay_step_refl dest: dl_head_in\<close>)

lemma propagate_chan_no_fuel:
  assumes "bay_wf w" and "inv w" and n: "2 * bay_ncbs w \<le> n"
  shows "propagate_chan run n t c w \<noteq> Inl EFuel"
  unfolding propagate_chan_def
proof (rule dl_foreach_fuel [where I = "\<lambda>w. bay_wf w \<and> inv w" and m = lst_weight])
  fix i and w w' :: "'x bay_scheme"
  assume w: "bay_wf w \<and> inv w" and i: "i \<in> set (cb_list c t w)"
    and r: "run (cb_fun (bay_cbs w i)) c w = Inr w'"
  from w i r have s: "bay_step w w' \<and> inv w'" using run_step by blast
  with w i r run_progress [of w i c t w']
  show "(bay_wf w' \<and> inv w') \<and> lst_weight w' (dl_from (next_after i (cb_list c t w')) (cb_list c t w'))
      < lst_weight w (dl_from (Some i) (cb_list c t w))"
    by (simp add: lst_weight_step [of w w'] bay_step_def)
next
  fix i and w :: "'x bay_scheme"
  assume "bay_wf w \<and> inv w" and i: "i \<in> set (cb_list c t w)"
  then show "run (cb_fun (bay_cbs w i)) c w \<noteq> Inl EFuel" using run_no_fuel by blast
  from dl_from_Some [OF i] obtain ys where "dl_from (Some i) (cb_list c t w) = i # ys" ..
  then show "0 < lst_weight w (dl_from (Some i) (cb_list c t w))"
    using cb_weight_bounds(1) [of "cb_fun (bay_cbs w i)"] by simp
next
  have "lst_weight w (cb_list c t w) \<le> 2 * bay_ncbs w"
    using lst_weight_le [of w "cb_list c t w"] cb_list_length [OF assms(1), of c t] by linarith
  with n show "lst_weight w (dl_from (dl_head (cb_list c t w)) (cb_list c t w)) \<le> n" by simp
qed (use assms in \<open>auto dest: dl_head_in\<close>)

lemma dirty_suffix:
  assumes wf: "bay_wf w" and s: "bay_step w w'" and c: "c \<in> set (bay_dirty w)"
  shows "card (registered w) - length (bay_dirty w')
        + length (dl_from (next_after c (bay_dirty w')) (bay_dirty w'))
      < card (registered w) - length (bay_dirty w) + length (dl_from (Some c) (bay_dirty w))"
proof -
  obtain ys where ys: "bay_dirty w' = bay_dirty w @ ys" using s by (auto simp: bay_step_def)
  have wf': "bay_wf w'" and reg: "registered w' = registered w"
    using s by (auto simp: bay_step_def)
  from dl_from_Some [OF c] obtain zs where zs: "dl_from (Some c) (bay_dirty w) = c # zs" ..
  then have "dl_from (Some c) (bay_dirty w') = c # zs @ ys"
    using dl_from_append [OF c, of ys] ys by simp
  then have "dl_from (next_after c (bay_dirty w')) (bay_dirty w') = zs @ ys"
    using bay_wfD(1) [OF wf'] dl_from_next by fastforce
  with zs ys dirty_length [OF wf'] reg show ?thesis by simp
qed

lemma propagate_phase_no_fuel:
  assumes "bay_wf w" and "inv w" and "2 * bay_ncbs w \<le> n" and "card (registered w) \<le> n"
  shows "dl_foreach n bay_dirty (propagate_chan run n t) (dl_head (bay_dirty w)) w \<noteq> Inl EFuel"
proof (rule dl_foreach_fuel [where
      I = "\<lambda>w'. bay_wf w' \<and> inv w' \<and> bay_ncbs w' = bay_ncbs w \<and> registered w' = registered w" and
      m = "\<lambda>w' xs. card (registered w) - length (bay_dirty w') + length xs"])
  fix c and w1 w2 :: "'x bay_scheme"
  assume w1: "bay_wf w1 \<and> inv w1 \<and> bay_ncbs w1 = bay_ncbs w \<and> registered w1 = registered w"
    and c: "c \<in> set (bay_dirty w1)" and r: "propagate_chan run n t c w1 = Inr w2"
  from w1 r have s: "bay_step w1 w2 \<and> inv w2" using propagate_chan_step by blast
  with w1 c dirty_suffix [of w1 w2 c]
  show "(bay_wf w2 \<and> inv w2 \<and> bay_ncbs w2 = bay_ncbs w \<and> registered w2 = registered w)
      \<and> card (registered w) - length (bay_dirty w2)
        + length (dl_from (next_after c (bay_dirty w2)) (bay_dirty w2))
      < card (registered w) - length (bay_dirty w1) + length (dl_from (Some c) (bay_dirty w1))"
    by (simp add: bay_step_def)
next
  fix c and w1 :: "'x bay_scheme"
  assume w1: "bay_wf w1 \<and> inv w1 \<and> bay_ncbs w1 = bay_ncbs w \<and> registered w1 = registered w"
    and c: "c \<in> set (bay_dirty w1)"
  then show "propagate_chan run n t c w1 \<noteq> Inl EFuel"
    using assms(3) by (intro propagate_chan_no_fuel) auto
  from dl_from_Some [OF c] obtain ys where "dl_from (Some c) (bay_dirty w1) = c # ys" ..
  then show "0 < card (registered w) - length (bay_dirty w1) + length (dl_from (Some c) (bay_dirty w1))"
    by simp
next
  show "card (registered w) - length (bay_dirty w)
      + length (dl_from (dl_head (bay_dirty w)) (bay_dirty w)) \<le> n"
    using assms(4) dirty_length [OF assms(1)] by simp
qed (use assms in \<open>auto dest: dl_head_in\<close>)

text \<open>The two propagation phases of \<^verbatim>\<open>bay_propagate\<close>, from the state it starts in to the state
  it flushes.\<close>

lemma propagate_phases:
  assumes "bay_wf w" and "inv w" and "bay_propagate run n w = Inr w'"
  shows "\<exists>w2 w3. bay_wf w2 \<and> inv w2 \<and> bay_channels w2 = bay_channels w \<and> bay_ncbs w2 = bay_ncbs w
    \<and> bay_state w2 = BAY_FLUSHING
    \<and> dl_foreach n bay_dirty flush_chan (dl_head (bay_dirty w2)) w2 = Inr w3
    \<and> w' = w3\<lparr>bay_dirty := [], bay_state := BAY_READY\<rparr>"
proof -
  let ?w0 = "w\<lparr>bay_state := BAY_PROPAGATING\<rparr>"
  obtain w1 w2 w3 where
    1: "dl_foreach n bay_dirty (propagate_chan run n BAY_CB_DIRTY) (dl_head (bay_dirty ?w0)) ?w0 = Inr w1"
    and 2: "dl_foreach n bay_dirty (propagate_chan run n BAY_CB_EMIT) (dl_head (bay_dirty w1))
          (w1\<lparr>bay_state := BAY_EMITTING\<rparr>) = Inr w2"
    and 3: "dl_foreach n bay_dirty flush_chan (dl_head (bay_dirty w2))
          (w2\<lparr>bay_state := BAY_FLUSHING\<rparr>) = Inr w3"
    and w': "w' = w3\<lparr>bay_dirty := [], bay_state := BAY_READY\<rparr>"
    using assms(3) by (auto simp: bay_propagate_def Let_def)
  have s1: "bay_step ?w0 w1 \<and> inv w1"
    using propagate_phase_step [OF _ _ 1] assms(1,2) inv_state by simp
  have "bay_step (w1\<lparr>bay_state := BAY_EMITTING\<rparr>) w2 \<and> inv w2"
    using propagate_phase_step [of "w1\<lparr>bay_state := BAY_EMITTING\<rparr>" n BAY_CB_EMIT w2] 2 s1
      inv_state by (auto dest: bay_step_wf)
  with s1 3 w' inv_state [of w2 BAY_FLUSHING] show ?thesis
    by (intro exI [of _ "w2\<lparr>bay_state := BAY_FLUSHING\<rparr>"] exI [of _ w3]) (simp add: bay_step_def)
qed

lemma propagate_ok:
  assumes "bay_wf w" and "inv w" and n: "card (registered w) \<le> n"
    and "bay_propagate run n w = Inr w'"
  shows "bay_wf w' \<and> inv w' \<and> bay_dirty w' = [] \<and> bay_state w' = BAY_READY
    \<and> bay_channels w' = bay_channels w
    \<and> (\<forall>c \<in> registered w. \<not> ch_is_dirty (bay_mem w' c) \<and> ch_last_value (bay_mem w' c) = chan_read_at c w')"
proof -
  obtain w2 w3 where w2: "bay_wf w2" "inv w2" "bay_channels w2 = bay_channels w"
    and fl: "dl_foreach n bay_dirty flush_chan (dl_head (bay_dirty w2)) w2 = Inr w3"
    and w': "w' = w3\<lparr>bay_dirty := [], bay_state := BAY_READY\<rparr>"
    using propagate_phases [OF assms(1,2,4)] by auto
  have fl: "foldr_res flush_chan (bay_dirty w2) w2 = Inr w3"
    using fl flush_loop [OF w2(1)] n w2(3) by simp
  have "inv w3"
    using fl w2(2) inv_flush by (rule foldr_res_invar [where I = inv])
  with flush_all_wf [OF w2(1) fl, of BAY_READY] w' w2(3) inv_state inv_dirty show ?thesis
    by simp
qed

lemma propagate_no_fuel:
  assumes "bay_wf w" and "inv w" and n: "2 * bay_ncbs w \<le> n" "card (registered w) \<le> n"
  shows "bay_propagate run n w \<noteq> Inl EFuel"
proof
  let ?w0 = "w\<lparr>bay_state := BAY_PROPAGATING\<rparr>"
  assume fuel: "bay_propagate run n w = Inl EFuel"
  have 1: "dl_foreach n bay_dirty (propagate_chan run n BAY_CB_DIRTY) (dl_head (bay_dirty ?w0)) ?w0 \<noteq> Inl EFuel"
    using assms inv_state by (intro propagate_phase_no_fuel) auto
  then obtain w1 where
    w1: "dl_foreach n bay_dirty (propagate_chan run n BAY_CB_DIRTY) (dl_head (bay_dirty ?w0)) ?w0 = Inr w1"
    using fuel by (auto simp: bay_propagate_def Let_def rbind_eq_Inl)
  let ?w1 = "w1\<lparr>bay_state := BAY_EMITTING\<rparr>"
  have s1: "bay_step ?w0 w1 \<and> inv w1"
    using propagate_phase_step [OF _ _ w1] assms(1,2) inv_state by simp
  then have wf1: "bay_wf ?w1" "inv ?w1" "bay_ncbs ?w1 = bay_ncbs w" "registered ?w1 = registered w"
    using inv_state by (auto simp: bay_step_def)
  then have 2: "dl_foreach n bay_dirty (propagate_chan run n BAY_CB_EMIT) (dl_head (bay_dirty ?w1)) ?w1 \<noteq> Inl EFuel"
    using n by (intro propagate_phase_no_fuel) auto
  then obtain w2 where
    w2: "dl_foreach n bay_dirty (propagate_chan run n BAY_CB_EMIT) (dl_head (bay_dirty ?w1)) ?w1 = Inr w2"
    using fuel w1 by (auto simp: bay_propagate_def Let_def rbind_eq_Inl)
  let ?w2 = "w2\<lparr>bay_state := BAY_FLUSHING\<rparr>"
  have "bay_step ?w1 w2 \<and> inv w2"
    using propagate_phase_step [OF wf1(1,2) w2] .
  then have wf2: "bay_wf ?w2" "registered ?w2 = registered w"
    using wf1(4) by (auto simp: bay_step_def)
  have d: "ch_is_dirty (bay_mem ?w2 c)" if "c \<in> set (bay_dirty ?w2)" for c
    using that bay_wfD(4) [OF wf2(1)] by blast
  from flush_all [OF bay_wfD(1) [OF wf2(1)] d] flush_loop [OF wf2(1)] wf2(2) n(2)
  obtain w3 where "dl_foreach n bay_dirty flush_chan (dl_head (bay_dirty ?w2)) ?w2 = Inr w3"
    by auto
  with w1 w2 fuel show False by (simp add: bay_propagate_def Let_def)
qed

end

end
