(* ===== verification/Mux.thy ===== *)
theory Mux
  imports Bay
begin

text \<open>
  Multiplexers: \<^verbatim>\<open>src/emu/mux.h\<close> and \<^verbatim>\<open>src/emu/mux.c\<close>.

  A multiplexer copies one of its input channels to its output channel; the value of its select
  channel says which. The callback of the select channel is always enabled, the callback of an
  input only while that input is selected. The structures \<^verbatim>\<open>struct mux\<close> are embedded in tracks and
  breakdowns; a number names the place of each one.

  A selection function gets the number of inputs, the channels of the inputs, a reader of
  channels and the value of the select channel, and gives the index of an input or none.
  Following a NULL pointer, or an index outside \<^verbatim>\<open>inputs\<close>, is undefined in C; both are errors here.
\<close>

subsection \<open>Data\<close>

type_synonym mux_select_func =
  "int \<Rightarrow> (nat \<Rightarrow> cid option) \<Rightarrow> (cid \<Rightarrow> chval) \<Rightarrow> chval \<Rightarrow> nat option res"

record mux_input =
  mi_index :: nat
  mi_chan :: "cid option"
  mi_selected :: bool
  mi_output :: "cid option"
  mi_cb :: "nat option"

record mux =
  mx_ninputs :: int
  mx_selected :: int
  mx_inputs :: "mux_input list"
  mx_select_func :: "mux_select_func option"
  mx_select :: cid
  mx_output :: cid
  mx_def :: chval

record mux_bay = bay +
  muxes :: "nat \<Rightarrow> mux"

subsection \<open>Operations\<close>

definition default_select :: mux_select_func where
  "default_select ninputs chans rd key =
     (case key of
        VALUE_NULL \<Rightarrow> Inr None
      | VALUE_INT64 index \<Rightarrow>
          if index < 0 \<or> index \<ge> ninputs then Inl (EMux MuxIndexBounds)
          else Inr (Some (nat index))
      | VALUE_DOUBLE _ \<Rightarrow> Inl (EMux MuxSelectType))"

definition mux_input_chan :: "mux \<Rightarrow> nat \<Rightarrow> cid option" where
  "mux_input_chan mx k =
     (if k < length (mx_inputs mx) then mi_chan (mx_inputs mx ! k) else None)"

definition select_input :: "mux \<Rightarrow> chval \<Rightarrow> 'x mux_bay_scheme \<Rightarrow> nat option res" where
  "select_input mx key w =
     (case mx_select_func mx of
        None \<Rightarrow> default_select (mx_ninputs mx) (mux_input_chan mx) (\<lambda>c. chan_read_at c w) key
      | Some f \<Rightarrow> f (mx_ninputs mx) (mux_input_chan mx) (\<lambda>c. chan_read_at c w) key)"

text \<open>The steps of \<^verbatim>\<open>cb_select\<close>: clear the previous selection, make the new one, write the output.\<close>

definition mux_update :: "nat \<Rightarrow> mux \<Rightarrow> 'x mux_bay_scheme \<Rightarrow> 'x mux_bay_scheme" where
  "mux_update m mx w = w\<lparr>muxes := (muxes w)(m := mx)\<rparr>"

definition mux_clear :: "nat \<Rightarrow> 'x mux_bay_scheme \<Rightarrow> 'x mux_bay_scheme res" where
  "mux_clear m w =
     (let mx = muxes w m; k = nat (mx_selected mx) in
      if mx_selected mx < 0 then Inr w
      else if k \<ge> length (mx_inputs mx) then Inl (EMux MuxInputUnset)
      else case mi_cb (mx_inputs mx ! k) of
             None \<Rightarrow> Inl (EMux MuxInputUnset)
           | Some i \<Rightarrow>
               rbind (bay_disable_cb i w) (\<lambda>w1.
               Inr (mux_update m (mx\<lparr>mx_inputs := (mx_inputs mx)[k := (mx_inputs mx ! k)\<lparr>mi_selected := False\<rparr>],
                                      mx_selected := -1\<rparr>) w1)))"

definition mux_choose :: "nat \<Rightarrow> nat \<Rightarrow> 'x mux_bay_scheme \<Rightarrow> 'x mux_bay_scheme res" where
  "mux_choose m k w =
     (let mx = muxes w m in
      if k \<ge> length (mx_inputs mx) then Inl (EMux MuxInputUnset)
      else case mi_cb (mx_inputs mx ! k) of
             None \<Rightarrow> Inl (EMux MuxInputUnset)
           | Some i \<Rightarrow>
               rbind (bay_enable_cb i w) (\<lambda>w1.
               Inr (mux_update m (mx\<lparr>mx_inputs := (mx_inputs mx)[k := (mx_inputs mx ! k)\<lparr>mi_selected := True\<rparr>],
                                      mx_selected := int (mi_index (mx_inputs mx ! k))\<rparr>) w1)))"

definition mux_out_value :: "mux \<Rightarrow> nat option \<Rightarrow> 'x mux_bay_scheme \<Rightarrow> chval" where
  "mux_out_value mx sel w =
     (case sel of
        None \<Rightarrow> mx_def mx
      | Some k \<Rightarrow> (case mux_input_chan mx k of None \<Rightarrow> mx_def mx | Some c \<Rightarrow> chan_read_at c w))"

definition cb_select :: "nat \<Rightarrow> cid \<Rightarrow> 'x mux_bay_scheme \<Rightarrow> 'x mux_bay_scheme res" where
  "cb_select m sel_chan w =
     (let sel_value = chan_read_at sel_chan w in
      rbind (mux_clear m w) (\<lambda>w1.
      rbind (select_input (muxes w1 m) sel_value w1) (\<lambda>sel.
      rbind (case sel of None \<Rightarrow> Inr w1 | Some k \<Rightarrow> mux_choose m k w1) (\<lambda>w2.
      chan_set_at (mx_output (muxes w2 m)) (mux_out_value (muxes w2 m) sel w2) w2))))"

definition cb_input :: "nat \<Rightarrow> nat \<Rightarrow> cid \<Rightarrow> 'x mux_bay_scheme \<Rightarrow> 'x mux_bay_scheme res" where
  "cb_input m k in_chan w =
     (if k \<ge> length (mx_inputs (muxes w m)) then Inl (EMux MuxInputUnset)
      else case mi_output (mx_inputs (muxes w m) ! k) of
             None \<Rightarrow> Inl (EMux MuxInputUnset)
           | Some out \<Rightarrow> chan_set_at out (chan_read_at in_chan w) w)"

definition empty_input :: mux_input where
  "empty_input = \<lparr>mi_index = 0, mi_chan = None, mi_selected = False, mi_output = None, mi_cb = None\<rparr>"

definition mux_init ::
  "nat \<Rightarrow> cid \<Rightarrow> cid \<Rightarrow> mux_select_func option \<Rightarrow> nat \<Rightarrow> 'x mux_bay_scheme \<Rightarrow> 'x mux_bay_scheme res"
where
  "mux_init m select output select_func ninputs w =
     (if ch_type (bay_mem w output) \<noteq> CHAN_SINGLE then Inl (EMux MuxOutputNotSingle)
      else if select = output then Inl (EMux MuxSelectIsOutput)
      else if bay_find w (ch_name (bay_mem w select)) = None then Inl (EMux MuxSelectNotRegistered)
      else if bay_find w (ch_name (bay_mem w output)) = None then Inl (EMux MuxOutputNotRegistered)
      else let out1 = chan_prop_set CHAN_DIRTY_WRITE True (bay_mem w output);
               out2 = chan_prop_set CHAN_ALLOW_DUP True out1;
               w1 = w\<lparr>bay_mem := (bay_mem w)(output := out2)\<rparr>;
               w2 = mux_update m \<lparr>mx_ninputs = int ninputs, mx_selected = 0,
                      mx_inputs = replicate ninputs empty_input, mx_select_func = select_func,
                      mx_select = select, mx_output = output, mx_def = VALUE_NULL\<rparr> w1
           in rbind (bay_add_cb BAY_CB_DIRTY select (CB_SELECT m) True w2) (\<lambda>(_, w3). Inr w3))"

definition mux_set_input :: "nat \<Rightarrow> nat \<Rightarrow> cid \<Rightarrow> 'x mux_bay_scheme \<Rightarrow> 'x mux_bay_scheme res" where
  "mux_set_input m index c w =
     (let mx = muxes w m in
      if c = mx_output mx then Inl (EMux MuxInputIsOutput)
      else if index \<ge> length (mx_inputs mx) then Inl (EMux MuxIndexBounds)
      else if mi_chan (mx_inputs mx ! index) \<noteq> None then Inl (EMux MuxInputTaken)
      else rbind (bay_add_cb BAY_CB_DIRTY c (CB_INPUT m index) False w) (\<lambda>(i, w1).
        Inr (mux_update m (mx\<lparr>mx_inputs := (mx_inputs mx)[index :=
               (mx_inputs mx ! index)\<lparr>mi_index := index, mi_chan := Some c,
                 mi_output := Some (mx_output mx), mi_cb := Some i\<rparr>]\<rparr>) w1)))"

definition mux_set_default :: "nat \<Rightarrow> chval \<Rightarrow> 'x mux_bay_scheme \<Rightarrow> 'x mux_bay_scheme" where
  "mux_set_default m def w = mux_update m ((muxes w m)\<lparr>mx_def := def\<rparr>) w"

subsection \<open>The invariant of the multiplexers\<close>

text \<open>A multiplexer is in use once its select callback is installed.\<close>

definition mux_used :: "nat \<Rightarrow> 'x mux_bay_scheme \<Rightarrow> bool" where
  "mux_used m w \<longleftrightarrow> (\<exists>i < bay_ncbs w. cb_fun (bay_cbs w i) = CB_SELECT m)"

text \<open>The output channel takes any write, an input has its channel, output and callback set
  together, and only the selected input has its callback enabled.\<close>

definition mux_out_ok :: "mux \<Rightarrow> 'x mux_bay_scheme \<Rightarrow> bool" where
  "mux_out_ok mx w \<longleftrightarrow>
     ch_type (bay_mem w (mx_output mx)) = CHAN_SINGLE
     \<and> ch_prop (bay_mem w (mx_output mx)) CHAN_DIRTY_WRITE
     \<and> ch_prop (bay_mem w (mx_output mx)) CHAN_ALLOW_DUP
     \<and> mx_output mx \<in> registered w \<and> mx_output mx \<noteq> mx_select mx"

definition mux_sel_ok :: "mux \<Rightarrow> bool" where
  "mux_sel_ok mx \<longleftrightarrow> (\<forall>f. mx_select_func mx = Some f \<longrightarrow>
     (\<forall>chans rd key. f (mx_ninputs mx) chans rd key \<noteq> Inl EFuel \<and>
       (\<forall>k. f (mx_ninputs mx) chans rd key = Inr (Some k) \<longrightarrow> int k < mx_ninputs mx)))"

definition mux_input_ok :: "nat \<Rightarrow> nat \<Rightarrow> 'x mux_bay_scheme \<Rightarrow> bool" where
  "mux_input_ok m k w \<longleftrightarrow>
     (let mx = muxes w m; inp = mx_inputs mx ! k in
      (mi_cb inp = None \<longrightarrow> mi_chan inp = None \<and> \<not> mi_selected inp)
      \<and> (\<forall>i. mi_cb inp = Some i \<longrightarrow> i < bay_ncbs w \<and> cb_fun (bay_cbs w i) = CB_INPUT m k
          \<and> cb_type (bay_cbs w i) = BAY_CB_DIRTY
          \<and> mi_chan inp = Some (cb_bchan (bay_cbs w i)) \<and> mi_index inp = k
          \<and> mi_output inp = Some (mx_output mx) \<and> mi_chan inp \<noteq> Some (mx_output mx)
          \<and> (cb_enabled (bay_cbs w i) \<longleftrightarrow> mi_selected inp)
          \<and> (mi_selected inp \<longrightarrow> mx_selected mx = int k)))"

definition mux_ok :: "nat \<Rightarrow> 'x mux_bay_scheme \<Rightarrow> bool" where
  "mux_ok m w \<longleftrightarrow>
     int (length (mx_inputs (muxes w m))) = mx_ninputs (muxes w m)
     \<and> mux_out_ok (muxes w m) w \<and> mux_sel_ok (muxes w m)
     \<and> (\<forall>k < length (mx_inputs (muxes w m)). mux_input_ok m k w)"

definition mux_cb_ok :: "nat \<Rightarrow> 'x mux_bay_scheme \<Rightarrow> bool" where
  "mux_cb_ok i w \<longleftrightarrow>
     (\<forall>m. cb_fun (bay_cbs w i) = CB_SELECT m \<longrightarrow> cb_bchan (bay_cbs w i) = mx_select (muxes w m))
     \<and> (\<forall>m k. cb_fun (bay_cbs w i) = CB_INPUT m k \<longrightarrow>
          mux_used m w \<and> k < length (mx_inputs (muxes w m))
          \<and> mi_cb (mx_inputs (muxes w m) ! k) = Some i)"

definition mux_inv :: "'x mux_bay_scheme \<Rightarrow> bool" where
  "mux_inv w \<longleftrightarrow> (\<forall>i < bay_ncbs w. mux_cb_ok i w) \<and> (\<forall>m. mux_used m w \<longrightarrow> mux_ok m w)"

lemmas mux_inv_defs = mux_inv_def mux_cb_ok_def mux_ok_def mux_input_ok_def mux_out_ok_def
  mux_used_def Let_def

lemma more_muxes: "bay.more w' = bay.more w \<Longrightarrow> muxes w' = muxes (w :: 'x mux_bay_scheme)"
  by (cases w rule: mux_bay.cases_scheme; cases w' rule: mux_bay.cases_scheme) simp

text \<open>Writing a channel does not disturb the multiplexers.\<close>

lemma mux_ok_cong:
  assumes "mux_ok m w" and eq: "muxes w' m = muxes w m" and "registered w \<subseteq> registered w'"
    and "\<And>i. i < bay_ncbs w \<Longrightarrow> i < bay_ncbs w' \<and> bay_cbs w' i = bay_cbs w i"
    and "\<And>c p. ch_type (bay_mem w' c) = ch_type (bay_mem w c)
      \<and> (ch_prop (bay_mem w c) p \<longrightarrow> ch_prop (bay_mem w' c) p)"
  shows "mux_ok m w'"
  using assms(1) unfolding mux_ok_def mux_out_ok_def mux_input_ok_def Let_def eq
  using assms(3-5) by auto

lemma mux_inv_cong:
  assumes inv: "mux_inv w" and eqs: "muxes w' = muxes w" "bay_cbs w' = bay_cbs w"
    "bay_ncbs w' = bay_ncbs w" and reg: "registered w \<subseteq> registered w'"
    and ch: "\<And>c. ch_type (bay_mem w' c) = ch_type (bay_mem w c) \<and> ch_prop (bay_mem w' c) = ch_prop (bay_mem w c)"
  shows "mux_inv w'"
proof -
  have u: "mux_used m w' = mux_used m w" for m by (simp add: mux_used_def eqs)
  have "mux_cb_ok i w' = mux_cb_ok i w" for i by (simp add: mux_cb_ok_def u eqs)
  moreover have "mux_ok m w \<Longrightarrow> mux_ok m w'" for m
    by (erule mux_ok_cong) (use eqs reg ch in auto)
  ultimately show ?thesis using inv by (simp add: mux_inv_def u eqs(3))
qed

lemma mux_inv_writes: "mux_inv w \<Longrightarrow> bay_writes C w w' \<Longrightarrow> mux_inv w'"
  by (rule mux_inv_cong [of w])
    (auto simp: bay_writes_def bay_step_def same_chan_def intro: more_muxes)

lemma mux_inv_write: "mux_inv w \<Longrightarrow> bay_write c w w' \<Longrightarrow> mux_inv w'"
  by (rule mux_inv_writes [OF _ bay_write_writes])

lemma mux_inv_new_chan:
  assumes inv: "mux_inv w" and c: "c \<notin> registered w"
  shows "mux_inv (w\<lparr>bay_mem := (bay_mem w)(c := ch)\<rparr>)"
proof -
  let ?w = "w\<lparr>bay_mem := (bay_mem w)(c := ch)\<rparr>"
  have "mux_ok m ?w" if "mux_ok m w" for m
    using that c by (auto simp: mux_ok_def mux_out_ok_def mux_input_ok_def Let_def)
  moreover have "mux_used m ?w = mux_used m w" for m by (simp add: mux_used_def)
  ultimately show ?thesis using inv by (simp add: mux_inv_def mux_cb_ok_def)
qed

lemma mux_inv_state: "mux_inv w \<Longrightarrow> mux_inv (w\<lparr>bay_state := st\<rparr>)"
  by (rule mux_inv_cong [of w]) simp_all

lemma mux_inv_dirty: "mux_inv w \<Longrightarrow> mux_inv (w\<lparr>bay_dirty := d\<rparr>)"
  by (rule mux_inv_cong [of w]) simp_all

lemma mux_inv_flush:
  assumes "mux_inv w" and "flush_chan c w = Inr w'"
  shows "mux_inv w'"
  using assms(1)
proof (rule mux_inv_cong)
qed (use assms(2) in \<open>auto simp: flush_chan_def chan_flush_at_def dest!: chan_flush_ok\<close>)

text \<open>The part of a multiplexer that never changes after its wiring.\<close>

definition mux_static :: "mux \<Rightarrow> mux \<Rightarrow> bool" where
  "mux_static mx mx' \<longleftrightarrow> mx_output mx' = mx_output mx \<and> mx_select mx' = mx_select mx
     \<and> mx_def mx' = mx_def mx \<and> mx_ninputs mx' = mx_ninputs mx
     \<and> mx_select_func mx' = mx_select_func mx \<and> length (mx_inputs mx') = length (mx_inputs mx)
     \<and> (\<forall>k. mux_input_chan mx' k = mux_input_chan mx k)"

lemma bay_wf_mux_update [simp]: "bay_wf (mux_update m mx w) = bay_wf w"
  by (simp add: mux_update_def bay_wf_defs)

lemma bay_step_mux_update [simp]: "bay_step w (mux_update m mx w') = bay_step w w'"
  unfolding bay_step_def bay_wf_mux_update by (simp add: mux_update_def)

lemma mux_inputD:
  assumes "mux_inv w" and "mux_used m w" and "k < length (mx_inputs (muxes w m))"
    and "mi_cb (mx_inputs (muxes w m) ! k) = Some j"
  shows "j < bay_ncbs w" and "cb_fun (bay_cbs w j) = CB_INPUT m k"
    and "mi_index (mx_inputs (muxes w m) ! k) = k"
    and "mi_output (mx_inputs (muxes w m) ! k) = Some (mx_output (muxes w m))"
    and "mi_chan (mx_inputs (muxes w m) ! k) = Some (cb_bchan (bay_cbs w j))"
    and "mi_selected (mx_inputs (muxes w m) ! k) \<longrightarrow> mx_selected (muxes w m) = int k"
    and "cb_bchan (bay_cbs w j) \<noteq> mx_output (muxes w m)"
    and "cb_enabled (bay_cbs w j) = mi_selected (mx_inputs (muxes w m) ! k)"
proof -
  have "mux_input_ok m k w" using assms by (simp add: mux_inv_def mux_ok_def)
  with assms(4) show "j < bay_ncbs w" "cb_fun (bay_cbs w j) = CB_INPUT m k"
    "mi_index (mx_inputs (muxes w m) ! k) = k"
    "mi_output (mx_inputs (muxes w m) ! k) = Some (mx_output (muxes w m))"
    "mi_chan (mx_inputs (muxes w m) ! k) = Some (cb_bchan (bay_cbs w j))"
    "mi_selected (mx_inputs (muxes w m) ! k) \<longrightarrow> mx_selected (muxes w m) = int k"
    "cb_bchan (bay_cbs w j) \<noteq> mx_output (muxes w m)"
    "cb_enabled (bay_cbs w j) = mi_selected (mx_inputs (muxes w m) ! k)"
    by (auto simp: mux_input_ok_def Let_def)
qed

text \<open>Setting the selection of the input \<open>k\<close> to \<open>b\<close>, when no other input is selected, together with
  the state of its callback.\<close>

lemma mux_select_inv:
  assumes inv: "mux_inv w" and used: "mux_used m w"
    and k: "k < length (mx_inputs (muxes w m))" and j: "mi_cb (mx_inputs (muxes w m) ! k) = Some j"
    and others: "\<And>k'. k' < length (mx_inputs (muxes w m)) \<Longrightarrow> k' \<noteq> k \<Longrightarrow>
      mi_cb (mx_inputs (muxes w m) ! k') \<noteq> None \<Longrightarrow> \<not> mi_selected (mx_inputs (muxes w m) ! k')"
    and s: "b \<Longrightarrow> s = int k"
    and w1: "bay_ncbs w1 = bay_ncbs w" "bay_channels w1 = bay_channels w" "bay_mem w1 = bay_mem w"
      "bay_cbs w1 = (bay_cbs w)(j := (bay_cbs w j)\<lparr>cb_enabled := b\<rparr>)"
      "muxes w1 = (muxes w)(m := (muxes w m)\<lparr>mx_inputs := (mx_inputs (muxes w m))[k :=
         (mx_inputs (muxes w m) ! k)\<lparr>mi_selected := b\<rparr>], mx_selected := s\<rparr>)"
  shows "mux_inv w1"
proof -
  have f: "cb_fun (bay_cbs w1 i) = cb_fun (bay_cbs w i)" "cb_bchan (bay_cbs w1 i) = cb_bchan (bay_cbs w i)"
    "cb_type (bay_cbs w1 i) = cb_type (bay_cbs w i)" for i
    by (simp_all add: w1)
  have u: "mux_used m' w1 = mux_used m' w" for m'
    by (simp add: mux_used_def f w1(1))
  have len: "length (mx_inputs (muxes w1 m')) = length (mx_inputs (muxes w m'))" for m'
    by (simp add: w1)
  have st: "mx_output (muxes w1 m') = mx_output (muxes w m')" "mx_select (muxes w1 m') = mx_select (muxes w m')"
    "mx_ninputs (muxes w1 m') = mx_ninputs (muxes w m')"
    "mx_select_func (muxes w1 m') = mx_select_func (muxes w m')" for m'
    by (simp_all add: w1)
  have icb: "mi_cb (mx_inputs (muxes w1 m') ! k') = mi_cb (mx_inputs (muxes w m') ! k')" for m' k'
    using k by (cases "k' = k") (simp_all add: w1)
  have jok: "j < bay_ncbs w" "cb_fun (bay_cbs w j) = CB_INPUT m k"
    using mux_inputD [OF inv used k j] by blast+
  have "mux_cb_ok i w1" if "i < bay_ncbs w1" for i
    using inv that unfolding mux_inv_def mux_cb_ok_def f u len icb st w1(1) by blast
  moreover have "mux_ok m' w1" if "mux_used m' w1" for m'
  proof -
    have mok: "mux_ok m' w" using inv that u by (simp add: mux_inv_def)
    have "mux_input_ok m' k' w1" if k': "k' < length (mx_inputs (muxes w m'))" for k'
    proof -
      have old: "mux_input_ok m' k' w" using mok k' by (simp add: mux_ok_def)
      have "j \<noteq> i" if "mi_cb (mx_inputs (muxes w m') ! k') = Some i" "m' \<noteq> m \<or> k' \<noteq> k" for i
        using old that jok by (auto simp: mux_input_ok_def Let_def)
      with old j others k k' s show ?thesis
        by (cases "m' = m"; cases "k' = k") (auto simp: mux_input_ok_def Let_def w1)
    qed
    with mok show ?thesis
      unfolding mux_ok_def mux_out_ok_def mux_sel_ok_def len st w1(2,3) by blast
  qed
  ultimately show ?thesis by (simp add: mux_inv_def)
qed

lemma mux_clear_ok:
  assumes wf: "bay_wf w" and inv: "mux_inv w" and used: "mux_used m w"
    and ok: "mux_clear m w = Inr w1"
  shows "bay_step w w1" and "mux_inv w1" and "bay_mem w1 = bay_mem w" and "bay_dirty w1 = bay_dirty w"
    and "mux_static (muxes w m) (muxes w1 m)" and "mx_selected (muxes w1 m) < 0"
    and "\<exists>j. (\<forall>c t. cb_list c t w1 = remove1 j (cb_list c t w))
           \<and> (j < bay_ncbs w \<longrightarrow> (\<exists>k. cb_fun (bay_cbs w j) = CB_INPUT m k))"
proof -
  let ?mx = "muxes w m"
  let ?k = "nat (mx_selected ?mx)"
  let ?inp = "mx_inputs ?mx ! ?k"
  have all: "bay_step w w1 \<and> mux_inv w1 \<and> bay_mem w1 = bay_mem w \<and> bay_dirty w1 = bay_dirty w
    \<and> mux_static ?mx (muxes w1 m) \<and> mx_selected (muxes w1 m) < 0
    \<and> (\<exists>j. (\<forall>c t. cb_list c t w1 = remove1 j (cb_list c t w))
           \<and> (j < bay_ncbs w \<longrightarrow> (\<exists>k. cb_fun (bay_cbs w j) = CB_INPUT m k)))"
  proof (cases "mx_selected ?mx < 0")
    case True
    then have "w1 = w" using ok by (simp add: mux_clear_def)
    moreover have "remove1 (bay_ncbs w) (cb_list c t w) = cb_list c t w" for c t
      using bay_wfD(7) [OF wf] by (intro remove1_idem) blast
    ultimately show ?thesis
      using True wf inv by (auto simp: bay_step_refl mux_static_def intro!: exI [of _ "bay_ncbs w"])
  next
    case False
    obtain j w' where k: "?k < length (mx_inputs ?mx)" and j: "mi_cb ?inp = Some j"
      and dis: "bay_disable_cb j w = Inr w'"
      and w1: "w1 = mux_update m (?mx\<lparr>mx_inputs := (mx_inputs ?mx)[?k := ?inp\<lparr>mi_selected := False\<rparr>],
                                      mx_selected := -1\<rparr>) w'"
      using ok False by (auto simp: mux_clear_def Let_def split: if_splits option.splits)
    note jok = mux_inputD(1,2) [OF inv used k j]
    obtain s: "bay_step w w'" "bay_mem w' = bay_mem w" "bay_dirty w' = bay_dirty w"
      and more: "bay.more w' = bay.more w"
      and cbs: "bay_cbs w' = (bay_cbs w)(j := (bay_cbs w j)\<lparr>cb_enabled := False\<rparr>)"
      and lst: "\<forall>c t. cb_list c t w' = remove1 j (cb_list c t w)"
      using bay_disable_cb_ok [OF wf jok(1)] dis by auto
    have mux': "muxes w' = muxes w" using more by (rule more_muxes)
    have inv1: "mux_inv w1"
    proof (rule mux_select_inv [OF inv used k j])
      fix k' assume "k' < length (mx_inputs ?mx)" "k' \<noteq> ?k" "mi_cb (mx_inputs ?mx ! k') \<noteq> None"
      then show "\<not> mi_selected (mx_inputs ?mx ! k')"
        using mux_inputD(6) [OF inv used, of k'] False by fastforce
    qed (use s cbs mux' in \<open>auto simp: w1 mux_update_def bay_step_def\<close>)
    have "bay_step w w1" using s(1) by (simp add: w1)
    moreover have "mux_static ?mx (muxes w1 m)" "mx_selected (muxes w1 m) < 0"
      using k by (simp_all add: w1 mux_update_def mux_static_def mux_input_chan_def nth_list_update)
    moreover have "cb_list c t w1 = remove1 j (cb_list c t w)" for c t
      using lst by (simp add: w1 mux_update_def)
    moreover have "bay_mem w1 = bay_mem w" "bay_dirty w1 = bay_dirty w"
      using s by (simp_all add: w1 mux_update_def)
    ultimately show ?thesis using inv1 jok by blast
  qed
  then show "bay_step w w1" "mux_inv w1" "bay_mem w1 = bay_mem w" "bay_dirty w1 = bay_dirty w"
    "mux_static (muxes w m) (muxes w1 m)" "mx_selected (muxes w1 m) < 0"
    "\<exists>j. (\<forall>c t. cb_list c t w1 = remove1 j (cb_list c t w))
           \<and> (j < bay_ncbs w \<longrightarrow> (\<exists>k. cb_fun (bay_cbs w j) = CB_INPUT m k))"
    by blast+
qed

lemma mux_choose_ok:
  assumes wf: "bay_wf w" and inv: "mux_inv w" and used: "mux_used m w"
    and none: "mx_selected (muxes w m) < 0" and ok: "mux_choose m k w = Inr w1"
  shows "bay_step w w1" and "mux_inv w1" and "bay_mem w1 = bay_mem w" and "bay_dirty w1 = bay_dirty w"
    and "mux_static (muxes w m) (muxes w1 m)" and "mx_selected (muxes w1 m) = int k"
    and "\<exists>d. mux_input_chan (muxes w m) k = Some d"
    and "\<exists>j. j < bay_ncbs w \<and> cb_fun (bay_cbs w j) = CB_INPUT m k \<and> (\<forall>c t. j \<notin> set (cb_list c t w))
       \<and> (\<forall>c t. cb_list c t w1 = cb_list c t w \<or> cb_list c t w1 = cb_list c t w @ [j])"
proof -
  let ?mx = "muxes w m"
  let ?inp = "mx_inputs ?mx ! k"
  obtain j w' where k: "k < length (mx_inputs ?mx)" and j: "mi_cb ?inp = Some j"
    and en: "bay_enable_cb j w = Inr w'"
    and w1: "w1 = mux_update m (?mx\<lparr>mx_inputs := (mx_inputs ?mx)[k := ?inp\<lparr>mi_selected := True\<rparr>],
                                    mx_selected := int (mi_index ?inp)\<rparr>) w'"
    using ok by (auto simp: mux_choose_def Let_def split: if_splits option.splits)
  note jok = mux_inputD [OF inv used k j]
  obtain s: "bay_step w w'" "bay_mem w' = bay_mem w" "bay_dirty w' = bay_dirty w"
    and more: "bay.more w' = bay.more w"
    and cbs: "bay_cbs w' = (bay_cbs w)(j := (bay_cbs w j)\<lparr>cb_enabled := True\<rparr>)"
    and lst: "\<forall>c t. cb_list c t w' =
         (if c = cb_bchan (bay_cbs w j) \<and> t = cb_type (bay_cbs w j) \<and> \<not> cb_enabled (bay_cbs w j)
          then cb_list c t w @ [j] else cb_list c t w)"
    using bay_enable_cb_ok [OF wf jok(1)] en by auto
  have mux': "muxes w' = muxes w" using more by (rule more_muxes)
  show "mux_inv w1"
  proof (rule mux_select_inv [OF inv used k j])
    fix k' assume "k' < length (mx_inputs ?mx)" "mi_cb (mx_inputs ?mx ! k') \<noteq> None"
    then show "\<not> mi_selected (mx_inputs ?mx ! k')"
      using mux_inputD(6) [OF inv used, of k'] none by fastforce
  qed (use s cbs mux' jok(3) in \<open>auto simp: w1 mux_update_def bay_step_def\<close>)
  show "bay_step w w1" using s(1) by (simp add: w1)
  show "mux_static ?mx (muxes w1 m)" "mx_selected (muxes w1 m) = int k"
    using jok(3) k by (simp_all add: w1 mux_update_def mux_static_def mux_input_chan_def nth_list_update)
  show "bay_mem w1 = bay_mem w" "bay_dirty w1 = bay_dirty w"
    using s by (simp_all add: w1 mux_update_def)
  show "\<exists>d. mux_input_chan ?mx k = Some d" using jok(5) k by (simp add: mux_input_chan_def)
  have "\<not> cb_enabled (bay_cbs w j)" using jok(6,8) none by auto
  then have "j \<notin> set (cb_list c t w)" for c t using bay_wfD(10) [OF wf] by blast
  moreover have "cb_list c t w1 = cb_list c t w \<or> cb_list c t w1 = cb_list c t w @ [j]" for c t
    using lst by (simp add: w1 mux_update_def)
  ultimately show "\<exists>j. j < bay_ncbs w \<and> cb_fun (bay_cbs w j) = CB_INPUT m k \<and> (\<forall>c t. j \<notin> set (cb_list c t w))
       \<and> (\<forall>c t. cb_list c t w1 = cb_list c t w \<or> cb_list c t w1 = cb_list c t w @ [j])"
    using jok(1,2) by blast
qed

lemma mux_staticD:
  assumes "mux_static mx mx'"
  shows "mx_output mx' = mx_output mx" and "bay_mem w' = bay_mem w \<Longrightarrow> select_input mx' v w' = select_input mx v w"
    and "bay_mem w' = bay_mem w \<Longrightarrow> mux_out_value mx' sel w' = mux_out_value mx sel w"
proof -
  have "mux_input_chan mx' = mux_input_chan mx" using assms by (auto simp: mux_static_def)
  with assms show "mx_output mx' = mx_output mx"
    "bay_mem w' = bay_mem w \<Longrightarrow> select_input mx' v w' = select_input mx v w"
    "bay_mem w' = bay_mem w \<Longrightarrow> mux_out_value mx' sel w' = mux_out_value mx sel w"
    by (simp_all add: mux_static_def select_input_def mux_out_value_def split: option.split)
qed

lemma mux_static_trans: "mux_static a b \<Longrightarrow> mux_static b c \<Longrightarrow> mux_static a c"
  by (simp add: mux_static_def)

lemma mux_used_step: "bay_step w w' \<Longrightarrow> mux_used m w' = mux_used m w"
  by (simp add: mux_used_def bay_step_def)

text \<open>What a list of callbacks becomes during a selection: perhaps one callback of an input taken
  out, perhaps one appended.\<close>

definition cb_list_select :: "nat \<Rightarrow> 'x bay_scheme \<Rightarrow> nat list \<Rightarrow> nat list \<Rightarrow> bool" where
  "cb_list_select m w xs xs' \<longleftrightarrow>
     (\<exists>j ks. xs' = remove1 j xs @ ks
        \<and> (j < bay_ncbs w \<longrightarrow> (\<exists>k. cb_fun (bay_cbs w j) = CB_INPUT m k))
        \<and> (ks = [] \<or> (\<exists>i k. ks = [i] \<and> i \<notin> set (remove1 j xs) \<and> cb_fun (bay_cbs w i) = CB_INPUT m k)))"

lemma cb_select_steps:
  assumes wf: "bay_wf w" and inv: "mux_inv w" and used: "mux_used m w"
    and ok: "cb_select m c w = Inr w'"
  shows "\<exists>sel w2. select_input (muxes w m) (chan_read_at c w) w = Inr sel
    \<and> bay_step w w2 \<and> mux_inv w2 \<and> mux_static (muxes w m) (muxes w2 m) \<and> bay_mem w2 = bay_mem w
    \<and> (case sel of None \<Rightarrow> mx_selected (muxes w2 m) < 0 | Some k \<Rightarrow> mx_selected (muxes w2 m) = int k
         \<and> (\<exists>d. mux_input_chan (muxes w m) k = Some d))
    \<and> (\<forall>c t. cb_list_select m w (cb_list c t w) (cb_list c t w2))
    \<and> chan_set_at (mx_output (muxes w m)) (mux_out_value (muxes w m) sel w) w2 = Inr w'"
proof -
  obtain w1 sel w2 where cl: "mux_clear m w = Inr w1"
    and sel: "select_input (muxes w1 m) (chan_read_at c w) w1 = Inr sel"
    and ch: "(case sel of None \<Rightarrow> Inr w1 | Some k \<Rightarrow> mux_choose m k w1) = Inr w2"
    and out: "chan_set_at (mx_output (muxes w2 m)) (mux_out_value (muxes w2 m) sel w2) w2 = Inr w'"
    using ok by (auto simp: cb_select_def)
  note c1 = mux_clear_ok [OF wf inv used cl]
  from c1(7) obtain j where
    j: "cb_list c t w1 = remove1 j (cb_list c t w)"
    and jin: "j < bay_ncbs w \<longrightarrow> (\<exists>k. cb_fun (bay_cbs w j) = CB_INPUT m k)" for c t by auto
  have used1: "mux_used m w1" using used mux_used_step [OF c1(1)] by simp
  have sel': "select_input (muxes w m) (chan_read_at c w) w = Inr sel"
    using sel mux_staticD(2) [OF c1(5,3)] by simp
  have "bay_step w w2 \<and> mux_inv w2 \<and> mux_static (muxes w m) (muxes w2 m) \<and> bay_mem w2 = bay_mem w
    \<and> (case sel of None \<Rightarrow> mx_selected (muxes w2 m) < 0 | Some k \<Rightarrow> mx_selected (muxes w2 m) = int k
         \<and> (\<exists>d. mux_input_chan (muxes w m) k = Some d))
    \<and> (\<forall>c t. cb_list_select m w (cb_list c t w) (cb_list c t w2))"
  proof (cases sel)
    case None
    with ch have "w2 = w1" by simp
    with None c1 j jin show ?thesis by (auto simp: cb_list_select_def)
  next
    case (Some k)
    with ch have ch: "mux_choose m k w1 = Inr w2" by simp
    note c2 = mux_choose_ok [OF bay_step_wf [OF c1(1)] c1(2) used1 c1(6) ch]
    from c2(8) obtain i where i: "i < bay_ncbs w1" "cb_fun (bay_cbs w1 i) = CB_INPUT m k"
      "\<And>c t. i \<notin> set (cb_list c t w1)"
      "\<And>c t. cb_list c t w2 = cb_list c t w1 \<or> cb_list c t w2 = cb_list c t w1 @ [i]" by blast
    have fi: "cb_fun (bay_cbs w i) = CB_INPUT m k" using i(2) c1(1) by (simp add: bay_step_def)
    have "cb_list_select m w (cb_list c t w) (cb_list c t w2)" for c t
      using i(3,4) [of c t] fi jin j unfolding cb_list_select_def by (metis append_Nil2)
    moreover have "\<exists>d. mux_input_chan (muxes w m) k = Some d"
      using c2(7) c1(5) by (simp add: mux_static_def)
    ultimately show ?thesis
      using Some c1(3) c2(2,3,6) bay_step_trans [OF c1(1) c2(1)] mux_static_trans [OF c1(5) c2(5)]
      by simp
  qed
  moreover from this have "mx_output (muxes w2 m) = mx_output (muxes w m)"
    "mux_out_value (muxes w2 m) sel w2 = mux_out_value (muxes w m) sel w"
    using mux_staticD by blast+
  ultimately show ?thesis using sel' out by auto
qed

lemma mux_outD:
  assumes "mux_inv w" and "mux_used m w"
  shows "mux_out_ok (muxes w m) w" and "mux_sel_ok (muxes w m)"
    and "int (length (mx_inputs (muxes w m))) = mx_ninputs (muxes w m)"
  using assms by (simp_all add: mux_inv_def mux_ok_def)

lemma cb_select_ok:
  assumes wf: "bay_wf w" and inv: "mux_inv w" and used: "mux_used m w"
    and ok: "cb_select m c w = Inr w'"
  shows "bay_step w w'" and "mux_inv w'"
    and "\<And>c t. cb_list_select m w (cb_list c t w) (cb_list c t w')"
proof -
  from cb_select_steps [OF assms] obtain sel w2 where
    w2: "bay_step w w2" "mux_inv w2" "\<forall>c t. cb_list_select m w (cb_list c t w) (cb_list c t w2)"
    and out: "chan_set_at (mx_output (muxes w m)) (mux_out_value (muxes w m) sel w) w2 = Inr w'"
    by blast
  have wr: "bay_write (mx_output (muxes w m)) w2 w'"
    by (rule chan_set_at_write [OF bay_step_wf [OF w2(1)] out])
  show "bay_step w w'" using w2(1) bay_write_step [OF wr] by (rule bay_step_trans)
  show "mux_inv w'" using w2(2) wr by (rule mux_inv_write)
  show "cb_list_select m w (cb_list c t w) (cb_list c t w')" for c t
    using w2(3) wr by (simp add: bay_write_def)
qed

lemma cb_select_same_chan:
  assumes "bay_wf w" and "mux_inv w" and "mux_used m w" and "cb_select m c w = Inr w'"
  shows "same_chan (bay_mem w d) (bay_mem w' d)"
proof -
  from cb_select_steps [OF assms] obtain sel w2 where
    w2: "bay_step w w2" "bay_mem w2 = bay_mem w"
    and out: "chan_set_at (mx_output (muxes w m)) (mux_out_value (muxes w m) sel w) w2 = Inr w'"
    by blast
  from bay_write_writes [OF chan_set_at_write [OF bay_step_wf [OF w2(1)] out]] w2(2) show ?thesis
    by (simp add: bay_writes_def)
qed

text \<open>A multiplexer changes nothing beyond the bay and the multiplexers.\<close>

lemma more_mux_more:
  "bay.more w' = bay.more w \<Longrightarrow> mux_bay.more w' = mux_bay.more (w :: 'x mux_bay_scheme)"
  by (cases w rule: mux_bay.cases_scheme; cases w' rule: mux_bay.cases_scheme) simp

lemma bay_disable_cb_more: "bay_disable_cb i w = Inr w' \<Longrightarrow> bay.more w' = bay.more w"
  by (auto simp: bay_disable_cb_def Let_def split: if_splits)

lemma bay_enable_cb_more: "bay_enable_cb i w = Inr w' \<Longrightarrow> bay.more w' = bay.more w"
  by (auto simp: bay_enable_cb_def Let_def split: if_splits)

lemma chan_set_at_more: "chan_set_at c v w = Inr w' \<Longrightarrow> bay.more w' = bay.more w"
  by (auto simp: chan_set_at_def chan_set_def set_dirty_def put_chan_def cb_chan_is_dirty_def Let_def
      split: if_splits)

lemma mux_clear_more: "mux_clear m w = Inr w1 \<Longrightarrow> mux_bay.more w1 = mux_bay.more w"
  by (auto simp: mux_clear_def mux_update_def Let_def split: if_splits option.splits
      dest!: bay_disable_cb_more more_mux_more)

lemma mux_choose_more: "mux_choose m k w = Inr w1 \<Longrightarrow> mux_bay.more w1 = mux_bay.more w"
  by (auto simp: mux_choose_def mux_update_def Let_def split: if_splits option.splits
      dest!: bay_enable_cb_more more_mux_more)

lemma cb_select_more: "cb_select m c w = Inr w' \<Longrightarrow> mux_bay.more w' = mux_bay.more w"
  by (auto simp: cb_select_def Let_def split: option.splits
      dest!: mux_clear_more mux_choose_more chan_set_at_more more_mux_more)

text \<open>The callbacks still to run on the channel weigh less after a selection.\<close>

lemma cb_list_select_progress:
  assumes "cb_list_select m w xs xs'" and xs: "distinct xs" "i \<in> set xs" and xs': "distinct xs'"
    and i: "cb_fun (bay_cbs w i) = CB_SELECT m'" and lt: "\<And>j. j \<in> set xs \<Longrightarrow> j < bay_ncbs w"
  shows "lst_weight w (dl_from (next_after i xs') xs') < lst_weight w (dl_from (Some i) xs)"
proof -
  from assms(1) obtain j ks where x': "xs' = remove1 j xs @ ks"
    and j: "j < bay_ncbs w \<Longrightarrow> \<exists>k. cb_fun (bay_cbs w j) = CB_INPUT m k"
    and ks: "ks = [] \<or> (\<exists>i k. ks = [i] \<and> i \<notin> set (remove1 j xs) \<and> cb_fun (bay_cbs w i) = CB_INPUT m k)"
    unfolding cb_list_select_def by auto
  from dl_from_Some [OF xs(2)] obtain ys where ys: "dl_from (Some i) xs = i # ys" ..
  have "j \<noteq> i" using j [OF lt] i xs(2) by auto
  then have i': "i \<in> set (remove1 j xs)" using xs by simp
  have "dl_from (Some i) (remove1 j xs) = i # remove1 j ys"
    by (rule dl_from_remove1 [OF xs(1) \<open>j \<noteq> i\<close> ys])
  then have "dl_from (Some i) xs' = i # remove1 j ys @ ks"
    using dl_from_append [OF i', of ks] x' by simp
  then have next': "dl_from (next_after i xs') xs' = remove1 j ys @ ks"
    using dl_from_next [OF xs'] by blast
  have "lst_weight w (remove1 j ys) \<le> lst_weight w ys"
    by (induction ys) auto
  moreover have "lst_weight w ks \<le> 1" using ks by auto
  ultimately show ?thesis using i next' ys by simp
qed

text \<open>A selection copies the chosen input: when the select callback of a multiplexer succeeds, the
  output channel reads as the channel of the input that the selection function gives for the
  value of the select channel, or as the default value when it gives none; afterwards the callback of
  an input of the multiplexer is enabled only if it is the selected one.\<close>

theorem cb_select_output:
  assumes wf: "bay_wf w" and inv: "mux_inv w" and used: "mux_used m w"
    and ok: "cb_select m c w = Inr w'"
  shows "\<exists>sel. select_input (muxes w m) (chan_read_at c w) w = Inr sel
    \<and> chan_read_at (mx_output (muxes w m)) w' =
        (case sel of None \<Rightarrow> mx_def (muxes w m)
         | Some k \<Rightarrow> chan_read_at (the (mux_input_chan (muxes w m) k)) w)
    \<and> (\<forall>k i. k < length (mx_inputs (muxes w' m)) \<and> mi_cb (mx_inputs (muxes w' m) ! k) = Some i \<and>
         cb_enabled (bay_cbs w' i) \<longrightarrow> sel = Some k)"
proof -
  from cb_select_steps [OF assms] obtain sel w2 where
    sel: "select_input (muxes w m) (chan_read_at c w) w = Inr sel"
    and w2: "bay_step w w2" "mux_inv w2" "bay_mem w2 = bay_mem w"
      "case sel of None \<Rightarrow> mx_selected (muxes w2 m) < 0 | Some k \<Rightarrow> mx_selected (muxes w2 m) = int k
         \<and> (\<exists>d. mux_input_chan (muxes w m) k = Some d)"
    and out: "chan_set_at (mx_output (muxes w m)) (mux_out_value (muxes w m) sel w) w2 = Inr w'"
    by blast
  have wr: "bay_write (mx_output (muxes w m)) w2 w'"
    by (rule chan_set_at_write [OF bay_step_wf [OF w2(1)] out])
  have inv': "mux_inv w'" using w2(2) wr by (rule mux_inv_write)
  have used': "mux_used m w'"
    using used mux_used_step [OF w2(1)] mux_used_step [OF bay_write_step [OF wr]] by simp
  have mux': "muxes w' = muxes w2" using wr by (intro more_muxes) (simp add: bay_write_def)
  have "chan_read_at (mx_output (muxes w m)) w' = mux_out_value (muxes w m) sel w"
    using mux_outD(1) [OF inv used] w2(3)
    by (intro chan_set_at_allow_dup [OF _ out]) (simp add: mux_out_ok_def)
  moreover have "mux_out_value (muxes w m) sel w = (case sel of None \<Rightarrow> mx_def (muxes w m)
         | Some k \<Rightarrow> chan_read_at (the (mux_input_chan (muxes w m) k)) w)"
    using w2(4) by (auto simp: mux_out_value_def split: option.splits)
  moreover have "sel = Some k" if "k < length (mx_inputs (muxes w' m))"
    "mi_cb (mx_inputs (muxes w' m) ! k) = Some i" "cb_enabled (bay_cbs w' i)" for k i
    using mux_inputD(6,8) [OF inv' used' that(1,2)] that(3) w2(4) mux'
    by (auto split: option.splits)
  ultimately show ?thesis using sel by auto
qed

lemma cb_input_ok:
  assumes wf: "bay_wf w" and inv: "mux_inv w" and i: "i < bay_ncbs w"
    and f: "cb_fun (bay_cbs w i) = CB_INPUT m k"
  shows "cb_input m k c w = chan_set_at (mx_output (muxes w m)) (chan_read_at c w) w"
    and "cb_input m k c w = Inr w' \<Longrightarrow> bay_write (mx_output (muxes w m)) w w'"
proof -
  have "mux_used m w" and "k < length (mx_inputs (muxes w m))"
    and "mi_cb (mx_inputs (muxes w m) ! k) = Some i"
    using inv i f by (auto simp: mux_inv_def mux_cb_ok_def)
  with mux_inputD(4) [OF inv this]
  show eq: "cb_input m k c w = chan_set_at (mx_output (muxes w m)) (chan_read_at c w) w"
    by (simp add: cb_input_def)
  show "cb_input m k c w = Inr w' \<Longrightarrow> bay_write (mx_output (muxes w m)) w w'"
    unfolding eq by (rule chan_set_at_write [OF wf])
qed

text \<open>While the bay propagates, the callback of a selected input never fails: it copies the
  value of the input channel to the output, whatever the output had before.\<close>

theorem cb_input_copies:
  assumes wf: "bay_wf w" and inv: "mux_inv w" and i: "i < bay_ncbs w"
    and f: "cb_fun (bay_cbs w i) = CB_INPUT m k" and st: "bay_state w = BAY_PROPAGATING"
  shows "\<exists>w'. cb_input m k c w = Inr w' \<and> chan_read_at (mx_output (muxes w m)) w' = chan_read_at c w
    \<and> mux_inv w' \<and> bay_step w w'"
proof -
  let ?o = "mx_output (muxes w m)"
  note eq = cb_input_ok [OF wf inv i f]
  have "mux_used m w" using inv i f by (auto simp: mux_inv_def mux_cb_ok_def)
  then have o: "mux_out_ok (muxes w m) w" by (rule mux_outD(1) [OF inv])
  then obtain w' where w': "chan_set_at ?o (chan_read_at c w) w = Inr w'"
    using chan_set_at_total [OF wf, of ?o] st by (auto simp: mux_out_ok_def)
  have "chan_read_at ?o w' = chan_read_at c w"
    using o by (intro chan_set_at_allow_dup [OF _ w']) (simp add: mux_out_ok_def)
  with w' eq mux_inv_write [OF inv] bay_write_step show ?thesis by metis
qed

subsection \<open>Wiring keeps the invariant\<close>

definition mux_fresh :: "nat \<Rightarrow> 'x mux_bay_scheme \<Rightarrow> bool" where
  "mux_fresh m w \<longleftrightarrow> (\<forall>i < bay_ncbs w. cb_fun (bay_cbs w i) \<noteq> CB_SELECT m
     \<and> (\<forall>k. cb_fun (bay_cbs w i) \<noteq> CB_INPUT m k))"

lemma bay_wf_props:
  "bay_wf w \<Longrightarrow> bay_wf (w\<lparr>bay_mem := (bay_mem w)(c := chan_prop_set p b (bay_mem w c))\<rparr>)"
  unfolding bay_wf_defs by (auto simp: chan_prop_set_def chan_wf_def chan_read_def)

lemma mux_init_inv:
  assumes wf: "bay_wf w" and inv: "mux_inv w" and fresh: "mux_fresh m w"
    and reg: "sel \<in> registered w" "out \<in> registered w"
    and f: "\<And>f chans rd key k. sf = Some f \<Longrightarrow> f (int n) chans rd key \<noteq> Inl EFuel
       \<and> (f (int n) chans rd key = Inr (Some k) \<longrightarrow> k < n)"
    and ok: "mux_init m sel out sf n w = Inr w'"
  shows "bay_wf w' \<and> mux_inv w' \<and> mux_used m w' \<and> mx_output (muxes w' m) = out
    \<and> bay_channels w' = bay_channels w"
proof -
  let ?ch = "chan_prop_set CHAN_ALLOW_DUP True (chan_prop_set CHAN_DIRTY_WRITE True (bay_mem w out))"
  let ?mx = "\<lparr>mx_ninputs = int n, mx_selected = 0, mx_inputs = replicate n empty_input,
     mx_select_func = sf, mx_select = sel, mx_output = out, mx_def = VALUE_NULL\<rparr>"
  let ?w = "mux_update m ?mx (w\<lparr>bay_mem := (bay_mem w)(out := ?ch)\<rparr>)"
  have ty: "ch_type (bay_mem w out) = CHAN_SINGLE" "sel \<noteq> out"
    and run: "\<exists>i. bay_add_cb BAY_CB_DIRTY sel (CB_SELECT m) True ?w = Inr (i, w')"
    using ok by (auto simp: mux_init_def Let_def split: if_splits)
  have wf1: "bay_wf ?w"
    using bay_wf_props [OF bay_wf_props [OF wf, of out CHAN_DIRTY_WRITE True], of out CHAN_ALLOW_DUP True]
    by simp
  have "sel \<in> registered ?w" using reg by (simp add: mux_update_def)
  from bay_add_cb_ok [OF wf1 this, of BAY_CB_DIRTY "CB_SELECT m" True] run
  have w': "bay_wf w'" "bay_ncbs w' = Suc (bay_ncbs w)" "bay_channels w' = bay_channels w"
    "bay_mem w' = (bay_mem w)(out := ?ch)" "bay.more w' = bay.more ?w"
    "bay_cbs w' = (bay_cbs w)(bay_ncbs w := \<lparr>cb_fun = CB_SELECT m, cb_bchan = sel, cb_enabled = True,
        cb_type = BAY_CB_DIRTY\<rparr>)"
    by (auto simp: mux_update_def)
  have mux': "muxes w' = (muxes w)(m := ?mx)" using more_muxes [OF w'(5)] by (simp add: mux_update_def)
  have old: "bay_cbs w' i = bay_cbs w i" if "i < bay_ncbs w" for i using that w'(6) by simp
  have used: "mux_used m' w' \<longleftrightarrow> m' = m \<or> mux_used m' w" for m'
    using old by (auto simp: mux_used_def w'(2) ex_upto_Suc) (simp add: w'(6))+
  have "mux_cb_ok i w'" if "i < bay_ncbs w'" for i
  proof (cases "i = bay_ncbs w")
    case True
    then show ?thesis by (simp add: mux_cb_ok_def w'(6) mux')
  next
    case False
    then have i: "i < bay_ncbs w" using that w'(2) by simp
    then have "mux_cb_ok i w" using inv by (simp add: mux_inv_def)
    with old [OF i] fresh i show ?thesis by (auto simp: mux_cb_ok_def mux' used mux_fresh_def)
  qed
  moreover have "mux_ok m' w'" if u: "mux_used m' w'" for m'
  proof (cases "m' = m")
    case True
    have "mux_sel_ok ?mx" using f by (auto simp: mux_sel_ok_def)
    moreover have "mux_input_ok m k w'" if "k < n" for k
      using that by (simp add: mux_input_ok_def mux' empty_input_def)
    ultimately show ?thesis
      using True ty reg w'(3,4)
      by (simp add: mux_ok_def mux' mux_out_ok_def chan_prop_set_def)
  next
    case False
    then have "mux_ok m' w" using inv u used by (simp add: mux_inv_def)
    then show ?thesis
      by (rule mux_ok_cong) (use False mux' w' old in \<open>auto simp: chan_prop_set_def\<close>)
  qed
  ultimately show ?thesis using w'(1,3) used mux' by (simp add: mux_inv_def)
qed

lemma mux_set_input_inv:
  assumes wf: "bay_wf w" and inv: "mux_inv w" and used: "mux_used m w"
    and reg: "c \<in> registered w" and ok: "mux_set_input m k c w = Inr w'"
  shows "bay_wf w' \<and> mux_inv w' \<and> mux_input_chan (muxes w' m) k = Some c
    \<and> bay_channels w' = bay_channels w"
proof -
  let ?mx = "muxes w m"
  let ?i = "bay_ncbs w"
  let ?inp = "(mx_inputs ?mx ! k)\<lparr>mi_index := k, mi_chan := Some c,
                 mi_output := Some (mx_output ?mx), mi_cb := Some ?i\<rparr>"
  have c: "c \<noteq> mx_output ?mx" and k: "k < length (mx_inputs ?mx)" and free: "mi_chan (mx_inputs ?mx ! k) = None"
    and run: "\<exists>i w1. bay_add_cb BAY_CB_DIRTY c (CB_INPUT m k) False w = Inr (i, w1)
        \<and> w' = mux_update m (?mx\<lparr>mx_inputs := (mx_inputs ?mx)[k := (mx_inputs ?mx ! k)\<lparr>mi_index := k,
              mi_chan := Some c, mi_output := Some (mx_output ?mx), mi_cb := Some i\<rparr>]\<rparr>) w1"
    using ok by (auto simp: mux_set_input_def Let_def split: if_splits)
  from bay_add_cb_ok [OF wf reg, of BAY_CB_DIRTY "CB_INPUT m k" False] run
  obtain w1 where w1: "bay_wf w1" "bay_ncbs w1 = Suc ?i" "bay_channels w1 = bay_channels w"
    "bay_mem w1 = bay_mem w" "bay.more w1 = bay.more w"
    "bay_cbs w1 = (bay_cbs w)(?i := \<lparr>cb_fun = CB_INPUT m k, cb_bchan = c, cb_enabled = False,
        cb_type = BAY_CB_DIRTY\<rparr>)"
    and w': "w' = mux_update m (?mx\<lparr>mx_inputs := (mx_inputs ?mx)[k := ?inp]\<rparr>) w1"
    by auto
  have mux': "muxes w' = (muxes w)(m := ?mx\<lparr>mx_inputs := (mx_inputs ?mx)[k := ?inp]\<rparr>)"
    using more_muxes [OF w1(5)] w' by (simp add: mux_update_def)
  have b: "bay_wf w'" "bay_ncbs w' = Suc ?i" "registered w' = registered w" "bay_mem w' = bay_mem w"
    "bay_cbs w' = bay_cbs w1" "bay_channels w' = bay_channels w"
    using w1 by (auto simp: w' mux_update_def bay_wf_defs)
  have old: "bay_cbs w' i = bay_cbs w i" if "i < ?i" for i using that b(5) w1(6) by simp
  have usedeq: "mux_used m' w' \<longleftrightarrow> mux_used m' w" for m'
    using old by (auto simp: mux_used_def b(2) ex_upto_Suc) (simp add: b(5) w1(6))
  have free_cb: "mi_cb (mx_inputs ?mx ! k) = None"
    using mux_inputD(5) [OF inv used k] free by (cases "mi_cb (mx_inputs ?mx ! k)") auto
  have "mux_cb_ok i w'" if "i < bay_ncbs w'" for i
  proof (cases "i = ?i")
    case True
    then show ?thesis using used usedeq k by (simp add: mux_cb_ok_def b(5) w1(6) mux')
  next
    case False
    then have i: "i < ?i" using that b(2) by simp
    then have "mux_cb_ok i w" using inv by (simp add: mux_inv_def)
    with old [OF i] free_cb k show ?thesis
      by (auto simp: mux_cb_ok_def mux' usedeq nth_list_update)
  qed
  moreover have "mux_ok m' w'" if u: "mux_used m' w'" for m'
  proof (cases "m' = m")
    case True
    have mok: "mux_ok m w" using inv used by (simp add: mux_inv_def)
    have "mux_input_ok m k' w'" if "k' < length (mx_inputs ?mx)" for k'
    proof (cases "k' = k")
      case True
      have "\<not> mi_selected (mx_inputs ?mx ! k)"
        using mok k free_cb by (simp add: mux_ok_def mux_input_ok_def Let_def)
      with True k c show ?thesis by (simp add: mux_input_ok_def mux' b(2,5) w1(6))
    next
      case False
      have "mux_input_ok m k' w" using mok that by (simp add: mux_ok_def)
      with False old show ?thesis by (auto simp: mux_input_ok_def Let_def mux' b(2))
    qed
    with True mok b(3,4) show ?thesis by (simp add: mux_ok_def mux' mux_out_ok_def mux_sel_ok_def)
  next
    case False
    then have "mux_ok m' w" using inv u usedeq by (simp add: mux_inv_def)
    then show ?thesis
      by (rule mux_ok_cong) (use False mux' b old in auto)
  qed
  moreover have "mux_input_chan (muxes w' m) k = Some c" using k by (simp add: mux' mux_input_chan_def)
  ultimately show ?thesis using b(1,6) by (simp add: mux_inv_def)
qed

subsection \<open>A multiplexer with two inputs\<close>

definition demo_bay0 :: mux_bay where
  "demo_bay0 = bay_init \<lparr>bay_state = BAY_UKNOWN, bay_channels = Map.empty, bay_dirty = [],
     bay_bchans = (\<lambda>_. \<lparr>bc_ncallbacks = (\<lambda>_. 0), bc_cb = (\<lambda>_. []), bc_is_dirty = False\<rparr>),
     bay_cbs = (\<lambda>_. \<lparr>cb_fun = CB_SELECT 0, cb_bchan = OtherChan 0, cb_enabled = False,
                     cb_type = BAY_CB_DIRTY\<rparr>),
     bay_ncbs = 0,
     bay_mem = (\<lambda>c. (demo_chan CHAN_SINGLE)\<lparr>ch_name :=
        (case c of OtherChan n \<Rightarrow> replicate n CHR ''x'' | _ \<Rightarrow> [])\<rparr>),
     muxes = (\<lambda>_. \<lparr>mx_ninputs = 0, mx_selected = 0, mx_inputs = [], mx_select_func = None,
                  mx_select = OtherChan 0, mx_output = OtherChan 0, mx_def = VALUE_NULL\<rparr>)\<rparr>"

definition demo_mux_on :: "'x mux_bay_scheme \<Rightarrow> 'x mux_bay_scheme res" where
  "demo_mux_on w =
     rbind (foldr_res bay_register [OtherChan 0, OtherChan 1, OtherChan 2, OtherChan 3] w) (\<lambda>w.
     rbind (mux_init 0 (OtherChan 0) (OtherChan 3) None 2 w) (\<lambda>w.
     rbind (mux_set_input 0 0 (OtherChan 1) w) (\<lambda>w.
     rbind (mux_set_input 0 1 (OtherChan 2) w) (\<lambda>w.
     rbind (chan_set_at (OtherChan 2) (VALUE_INT64 7) w) (\<lambda>w.
     chan_set_at (OtherChan 0) (VALUE_INT64 1) w)))))"

definition demo_mux :: "mux_bay res" where
  "demo_mux = demo_mux_on demo_bay0"

text \<open>The result of a successful run, seen through \<open>f\<close>.\<close>

definition res_get :: "('w \<Rightarrow> 'a) \<Rightarrow> 'w res \<Rightarrow> 'a option" where
  "res_get f r = (case r of Inl _ \<Rightarrow> None | Inr w \<Rightarrow> Some (f w))"

lemma res_get_Some: "res_get f r = Some x \<longleftrightarrow> (\<exists>w. r = Inr w \<and> f w = x)"
  by (cases r) (auto simp: res_get_def)

lemma bay_register_mux:
  assumes "mux_inv w" and "bay_wf w" and "\<not> ch_is_dirty (bay_mem w c)" and "bay_register c w = Inr w'"
  shows "mux_inv w'"
proof -
  have reg: "registered w' = insert c (registered w)" using bay_register_wf [OF assms(2-4)] by simp
  have eqs: "muxes w' = muxes w" "bay_cbs w' = bay_cbs w" "bay_ncbs w' = bay_ncbs w"
    using assms(4) by (auto simp: bay_register_def Let_def split: if_splits)
  have ch: "ch_type (bay_mem w' d) = ch_type (bay_mem w d) \<and> ch_prop (bay_mem w' d) = ch_prop (bay_mem w d)" for d
    using assms(4) by (auto simp: bay_register_def chan_set_dirty_cb_def Let_def split: if_splits)
  show ?thesis by (rule mux_inv_cong [OF assms(1) eqs _ ch]) (use reg in auto)
qed

lemma demo_bay0_inv: "bay_wf demo_bay0" "mux_inv demo_bay0"
  by (auto simp: demo_bay0_def bay_init_def bay_wf_defs chan_wf_def chan_read_def demo_chan_def
      mux_inv_defs)

lemma bay_register_list:
  assumes "foldr_res bay_register cs w = Inr w'" and "bay_wf w" and "mux_inv w"
    and "\<And>c. \<not> ch_is_dirty (bay_mem w c)"
  shows "bay_wf w' \<and> mux_inv w' \<and> registered w' = set cs \<union> registered w \<and> bay_ncbs w' = bay_ncbs w"
  using assms
proof (induction cs arbitrary: w)
  case (Cons c cs)
  then obtain w1 where w1: "bay_register c w = Inr w1" "foldr_res bay_register cs w1 = Inr w'" by auto
  have c: "bay_wf w1" "registered w1 = insert c (registered w)" "mux_inv w1" "bay_ncbs w1 = bay_ncbs w"
    "\<not> ch_is_dirty (bay_mem w1 d)" for d
    using bay_register_wf [OF _ _ w1(1)] bay_register_mux [OF _ _ _ w1(1)] Cons.prems w1(1)
    by (auto simp: bay_register_def chan_set_dirty_cb_def Let_def split: if_splits)
  from Cons.IH [OF w1(2) c(1,3,5)] c(2,4) show ?case by auto
qed simp

lemma demo_mux_on_inv:
  assumes "demo_mux_on w0 = Inr w" and w0: "bay_wf w0" "mux_inv w0"
    "\<And>c. \<not> ch_is_dirty (bay_mem w0 c)" "bay_ncbs w0 = 0"
  shows "bay_wf w \<and> mux_inv w \<and> mux_used 0 w
    \<and> registered w = {OtherChan 0, OtherChan 1, OtherChan 2, OtherChan 3} \<union> registered w0"
proof -
  obtain w1 w2 w3 w4 w5 where
    1: "foldr_res bay_register [OtherChan 0, OtherChan 1, OtherChan 2, OtherChan 3] w0 = Inr w1"
    and 2: "mux_init 0 (OtherChan 0) (OtherChan 3) None 2 w1 = Inr w2"
    and 3: "mux_set_input 0 0 (OtherChan 1) w2 = Inr w3"
    and 4: "mux_set_input 0 1 (OtherChan 2) w3 = Inr w4"
    and 5: "chan_set_at (OtherChan 2) (VALUE_INT64 7) w4 = Inr w5"
    and 6: "chan_set_at (OtherChan 0) (VALUE_INT64 1) w5 = Inr w"
    using assms(1) unfolding demo_mux_on_def rbind_eq_Inr by blast
  have i1: "bay_wf w1" "mux_inv w1" "mux_fresh 0 w1" "OtherChan 0 \<in> registered w1"
    "OtherChan 1 \<in> registered w1" "OtherChan 2 \<in> registered w1" "OtherChan 3 \<in> registered w1"
    "registered w1 = {OtherChan 0, OtherChan 1, OtherChan 2, OtherChan 3} \<union> registered w0"
    using bay_register_list [OF 1 w0(1-3)] w0(4) by (auto simp: mux_fresh_def)
  have i2: "bay_wf w2" "mux_inv w2" "mux_used 0 w2" "bay_channels w2 = bay_channels w1"
    using mux_init_inv [OF i1(1-4,7) _ 2] by auto
  have i3: "bay_wf w3" "mux_inv w3" "bay_channels w3 = bay_channels w1"
    using mux_set_input_inv [OF i2(1-3) _ 3] i1(5) i2(4) by auto
  have u3: "mux_used 0 w3"
    using i2(3) 3 bay_add_cb_ok [OF i2(1), of "OtherChan 1" BAY_CB_DIRTY "CB_INPUT 0 0" False] i1(5) i2(4)
    by (auto simp: mux_set_input_def Let_def mux_used_def mux_update_def less_Suc_eq split: if_splits)
  have i4: "bay_wf w4" "mux_inv w4" "bay_channels w4 = bay_channels w1"
    using mux_set_input_inv [OF i3(1,2) u3 _ 4] i1(6) i3(3) by simp_all
  have u4: "mux_used 0 w4"
    using u3 4 bay_add_cb_ok [OF i3(1), of "OtherChan 2" BAY_CB_DIRTY "CB_INPUT 0 1" False] i1(6) i3(3)
    by (auto simp: mux_set_input_def Let_def mux_used_def mux_update_def less_Suc_eq split: if_splits)
  note w5 = chan_set_at_write [OF i4(1) 5]
  note w6 = chan_set_at_write [OF bay_step_wf [OF bay_write_step [OF w5]] 6]
  show ?thesis
    using bay_step_wf [OF bay_write_step [OF w6]] mux_inv_write [OF mux_inv_write [OF i4(2) w5] w6]
      u4 mux_used_step [OF bay_write_step [OF w5]] mux_used_step [OF bay_write_step [OF w6]]
      bay_write_step [OF w5] bay_write_step [OF w6] i4(3) i1(8)
    by (simp add: bay_step_def)
qed

lemma demo_mux_inv: "demo_mux = Inr w \<Longrightarrow> bay_wf w \<and> mux_inv w \<and> mux_used 0 w"
  using demo_mux_on_inv [OF _ demo_bay0_inv, of w]
  by (simp add: demo_mux_def demo_bay0_def bay_init_def demo_chan_def)

theorem cb_select_output_witness:
  "\<exists>w w'. demo_mux = Inr w \<and> cb_select 0 (OtherChan 0) w = Inr w' \<and>
     chan_read_at (OtherChan 3) w' = VALUE_INT64 7"
proof -
  have "res_get (\<lambda>w. (res_get (\<lambda>_. ()) (cb_select 0 (OtherChan 0) w),
      select_input (muxes w 0) (chan_read_at (OtherChan 0) w) w, mx_output (muxes w 0),
      mux_input_chan (muxes w 0) 1, chan_read_at (OtherChan 2) w)) demo_mux =
      Some (Some (), Inr (Some 1), OtherChan 3, Some (OtherChan 2), VALUE_INT64 7)"
    by code_simp
  then obtain w w' where w: "demo_mux = Inr w" and w': "cb_select 0 (OtherChan 0) w = Inr w'"
    and vals: "select_input (muxes w 0) (chan_read_at (OtherChan 0) w) w = Inr (Some 1)"
      "mx_output (muxes w 0) = OtherChan 3" "mux_input_chan (muxes w 0) 1 = Some (OtherChan 2)"
      "chan_read_at (OtherChan 2) w = VALUE_INT64 7"
    by (auto simp: res_get_Some)
  have "\<exists>sel. select_input (muxes w 0) (chan_read_at (OtherChan 0) w) w = Inr sel
    \<and> chan_read_at (mx_output (muxes w 0)) w' =
        (case sel of None \<Rightarrow> mx_def (muxes w 0)
         | Some k \<Rightarrow> chan_read_at (the (mux_input_chan (muxes w 0) k)) w)
    \<and> (\<forall>k i. k < length (mx_inputs (muxes w' 0)) \<and> mi_cb (mx_inputs (muxes w' 0) ! k) = Some i \<and>
         cb_enabled (bay_cbs w' i) \<longrightarrow> sel = Some k)"
    using demo_mux_inv [OF w] w' by (intro cb_select_output) auto
  with vals have "chan_read_at (OtherChan 3) w' = VALUE_INT64 7" by auto
  with w w' show ?thesis by blast
qed

theorem cb_input_copies_witness:
  "\<exists>w w'. demo_mux = Inr w \<and> cb_input 0 1 (OtherChan 2) (w\<lparr>bay_state := BAY_PROPAGATING\<rparr>) = Inr w'
     \<and> chan_read_at (OtherChan 3) w' = VALUE_INT64 7"
proof -
  have "res_get (\<lambda>w. (cb_fun (bay_cbs w 2), bay_ncbs w, mx_output (muxes w 0),
      chan_read_at (OtherChan 2) w)) demo_mux =
      Some (CB_INPUT 0 1, 3, OtherChan 3, VALUE_INT64 7)"
    by code_simp
  then obtain w where w: "demo_mux = Inr w" "cb_fun (bay_cbs w 2) = CB_INPUT 0 1" "bay_ncbs w = 3"
    "mx_output (muxes w 0) = OtherChan 3" "chan_read_at (OtherChan 2) w = VALUE_INT64 7"
    by (auto simp: res_get_Some)
  let ?w = "w\<lparr>bay_state := BAY_PROPAGATING\<rparr>"
  have "\<exists>w'. cb_input 0 1 (OtherChan 2) ?w = Inr w'
    \<and> chan_read_at (mx_output (muxes ?w 0)) w' = chan_read_at (OtherChan 2) ?w
    \<and> mux_inv w' \<and> bay_step ?w w'"
    using demo_mux_inv [OF w(1)] w(2,3) mux_inv_state
    by (intro cb_input_copies [where i = 2]) auto
  with w show ?thesis by auto
qed

end
