(* ===== verification/Sort.thy ===== *)
theory Sort
  imports Mux
begin

text \<open>
  The sorting module: \<^verbatim>\<open>src/emu/sort.h\<close> and \<^verbatim>\<open>src/emu/sort.c\<close>.

  A sorter has \<open>n\<close> input channels and \<open>n\<close> output channels; the outputs show the values of the inputs in
  ascending order. When one input changes, \<^verbatim>\<open>sort_replace\<close> updates the sorted array in place with two
  scans instead of sorting it again; the array is a list here and every access outside it is the
  error \<open>SortOutOfBounds\<close>. \<^verbatim>\<open>qsort\<close> with \<^verbatim>\<open>cmp_int64\<close> is \<open>sort\<close>.
\<close>

subsection \<open>Replacing a value in a sorted array\<close>

text \<open>\<^verbatim>\<open>for (; arr[i] < old; i++);\<close>\<close>

function skip_less :: "int list \<Rightarrow> int \<Rightarrow> nat \<Rightarrow> nat res" where
  "skip_less arr old i =
     (if i \<ge> length arr then Inl (ESort SortOutOfBounds)
      else if arr ! i < old then skip_less arr old (Suc i) else Inr i)"
  by pat_completeness auto
termination by (relation "measure (\<lambda>(arr, _, i). length arr - i)") auto

declare skip_less.simps [simp del]

text \<open>\<^verbatim>\<open>for (; i < n - 1 && arr[i + 1] <= new; i++) arr[i] = arr[i + 1];\<close> and then \<^verbatim>\<open>arr[i] = new\<close>\<close>

function shift_left :: "int list \<Rightarrow> int \<Rightarrow> nat \<Rightarrow> int list" where
  "shift_left arr new i =
     (if Suc i < length arr \<and> arr ! Suc i \<le> new
      then shift_left (arr[i := arr ! Suc i]) new (Suc i) else arr[i := new])"
  by pat_completeness auto
termination by (relation "measure (\<lambda>(arr, _, i). length arr - i)") auto

declare shift_left.simps [simp del]

text \<open>\<^verbatim>\<open>for (; i > 0 && arr[i - 1] > new; i--) arr[i] = arr[i - 1];\<close> and then \<^verbatim>\<open>arr[i] = new\<close>\<close>

fun shift_right :: "int list \<Rightarrow> int \<Rightarrow> nat \<Rightarrow> int list" where
  "shift_right arr new 0 = arr[0 := new]"
| "shift_right arr new (Suc i) =
     (if arr ! i > new then shift_right (arr[Suc i := arr ! i]) new i else arr[Suc i := new])"

definition sort_replace :: "int list \<Rightarrow> int \<Rightarrow> int \<Rightarrow> int list res" where
  "sort_replace arr old new =
     (if old = new then Inl (ESort SortOldEqNew)
      else if old < new then
        (let m = length arr div 2 in
         if m \<ge> length arr then Inl (ESort SortOutOfBounds)
         else rbind (skip_less arr old (if arr ! m < old then m else 0)) (\<lambda>i.
           Inr (shift_left arr new i)))
      else rbind (skip_less arr old 0) (\<lambda>i. Inr (shift_right arr new i)))"

lemma skip_less_eq:
  assumes "xs = as @ x # ys" and "\<forall>a \<in> set as. a < old" and "\<not> x < old" and "i \<le> length as"
  shows "skip_less xs old i = Inr (length as)"
  using assms
proof (induction xs old i rule: skip_less.induct)
  case (1 arr old i)
  show ?case
  proof (cases "i = length as")
    case True
    with "1.prems" show ?thesis by (subst skip_less.simps) (simp add: nth_append)
  next
    case False
    with "1.prems" have i: "i < length as" by simp
    then have "arr ! i < old" "\<not> length arr \<le> i" using "1.prems" by (simp_all add: nth_append)
    with "1.IH" "1.prems" i show ?thesis by (subst skip_less.simps) simp
  qed
qed

lemma shift_left_eq:
  "shift_left (as @ x # ys) new (length as) =
     as @ takeWhile (\<lambda>y. y \<le> new) ys @ new # dropWhile (\<lambda>y. y \<le> new) ys"
proof (induction ys arbitrary: as x)
  case Nil
  then show ?case by (subst shift_left.simps) (simp add: list_update_append)
next
  case (Cons y ys)
  show ?case
  proof (cases "y \<le> new")
    case True
    then have "shift_left (as @ x # y # ys) new (length as) =
        shift_left ((as @ [y]) @ y # ys) new (length (as @ [y]))"
      by (subst shift_left.simps) (simp add: nth_append list_update_append)
    also have "\<dots> = (as @ [y]) @ takeWhile (\<lambda>y. y \<le> new) ys @ new # dropWhile (\<lambda>y. y \<le> new) ys"
      by (rule Cons.IH)
    finally show ?thesis using True by simp
  next
    case False
    then show ?thesis by (subst shift_left.simps) (simp add: nth_append list_update_append)
  qed
qed

lemma shift_right_eq:
  "\<exists>bs cs. as = bs @ cs \<and> (\<forall>c \<in> set cs. new < c) \<and> (bs = [] \<or> last bs \<le> new)
     \<and> shift_right (as @ x # ys) new (length as) = bs @ new # cs @ ys"
proof (induction as arbitrary: x ys rule: rev_induct)
  case Nil
  then show ?case by simp
next
  case (snoc a as)
  show ?case
  proof (cases "a > new")
    case True
    then have eq: "shift_right ((as @ [a]) @ x # ys) new (length (as @ [a])) =
        shift_right (as @ a # a # ys) new (length as)"
      by (simp add: nth_append list_update_append)
    from snoc.IH [of a "a # ys"] obtain bs cs where
      "as = bs @ cs" "\<forall>c \<in> set cs. new < c" "bs = [] \<or> last bs \<le> new"
      "shift_right (as @ a # a # ys) new (length as) = bs @ new # cs @ a # ys" by blast
    with True eq show ?thesis by (intro exI [of _ bs] exI [of _ "cs @ [a]"]) simp
  next
    case False
    then show ?thesis
      by (intro exI [of _ "as @ [a]"] exI [of _ "[]"]) (simp add: nth_append list_update_append)
  qed
qed

lemma sorted_split_at:
  assumes "sorted xs" and "x \<in> set xs"
  shows "\<exists>as ys. xs = as @ x # ys \<and> (\<forall>a \<in> set as. a < x)"
proof -
  obtain as ys where xs: "xs = as @ x # ys" and "x \<notin> set as"
    using split_list_first [OF assms(2)] by blast
  moreover from this assms(1) have "\<forall>a \<in> set as. a < x" by (auto simp: sorted_append le_less)
  ultimately show ?thesis by blast
qed

lemma sorted_mset_unique: "sorted xs \<Longrightarrow> sorted ys \<Longrightarrow> mset xs = mset ys \<Longrightarrow> xs = (ys :: int list)"
  by (metis properties_for_sort)

lemma sort_replace_eq:
  assumes arr: "sorted arr" "old \<in> set arr" and neq: "old \<noteq> new"
  shows "sort_replace arr old new = Inr (insort new (remove1 old arr))"
proof -
  obtain as ys where xs: "arr = as @ old # ys" and as: "\<forall>a \<in> set as. a < old"
    using sorted_split_at [OF arr] by blast
  have rm: "remove1 old arr = as @ ys" using as xs by (auto simp: remove1_append)
  have srt: "sorted as" "sorted ys" "\<forall>y \<in> set ys. old \<le> y" "\<forall>a \<in> set as. \<forall>y \<in> set ys. a \<le> y"
    using arr(1) xs by (auto simp: sorted_append)
  have "\<exists>r. sort_replace arr old new = Inr r \<and> sorted r \<and> mset r = add_mset new (mset (as @ ys))"
  proof (cases "old < new")
    case True
    let ?m = "length arr div 2"
    let ?i = "if arr ! ?m < old then ?m else 0"
    have "?m \<le> length as" if "arr ! ?m < old"
    proof (rule ccontr)
      assume "\<not> ?thesis"
      then have "arr ! ?m \<in> set (old # ys)"
        using xs by (auto simp: nth_append less_diff_conv2)
      with that srt(3) show False by auto
    qed
    then have skip: "skip_less arr old ?i = Inr (length as)"
      using as xs by (intro skip_less_eq) auto
    let ?r = "as @ takeWhile (\<lambda>y. y \<le> new) ys @ new # dropWhile (\<lambda>y. y \<le> new) ys"
    have "?m < length arr" using xs by simp
    then have "sort_replace arr old new = rbind (skip_less arr old ?i) (\<lambda>i. Inr (shift_left arr new i))"
      using True by (simp add: sort_replace_def Let_def)
    then have "sort_replace arr old new = Inr ?r"
      using skip xs shift_left_eq [of as old ys new] by simp
    moreover have d: "\<forall>y \<in> set (dropWhile (\<lambda>y. y \<le> new) ys). new < y \<and> y \<in> set ys"
      using srt(2) by (induction ys) auto
    moreover have t: "\<forall>y \<in> set (takeWhile (\<lambda>y. y \<le> new) ys). y \<le> new \<and> y \<in> set ys"
      by (auto dest: set_takeWhileD)
    moreover have "sorted (takeWhile (\<lambda>y. y \<le> new) ys)" "sorted (dropWhile (\<lambda>y. y \<le> new) ys)"
      using srt(2) sorted_takeWhile sorted_dropWhile by blast+
    moreover have "\<forall>a \<in> set as. a \<le> new" using as True by auto
    ultimately have "sorted ?r"
      using srt(1,4) by (simp add: sorted_append Ball_def) (meson less_imp_le order_trans)
    moreover have "mset (takeWhile (\<lambda>y. y \<le> new) ys) + mset (dropWhile (\<lambda>y. y \<le> new) ys) = mset ys"
      by (metis mset_append takeWhile_dropWhile_id)
    ultimately show ?thesis using \<open>sort_replace arr old new = Inr ?r\<close> by auto
  next
    case False
    have skip: "skip_less arr old 0 = Inr (length as)"
      using as xs by (intro skip_less_eq) auto
    obtain bs cs where bc: "as = bs @ cs" "\<forall>c \<in> set cs. new < c" "bs = [] \<or> last bs \<le> new"
      and r: "shift_right (as @ old # ys) new (length as) = bs @ new # cs @ ys"
      using shift_right_eq [of as new old ys] by blast
    have run: "sort_replace arr old new = Inr (bs @ new # cs @ ys)"
      using False neq skip xs r by (simp add: sort_replace_def)
    have "\<forall>b \<in> set bs. b \<le> new"
    proof
      fix b assume b: "b \<in> set bs"
      then have "b \<le> last bs" using srt(1) bc(1)
        by (cases bs rule: rev_cases) (auto simp: sorted_append)
      with b bc(3) show "b \<le> new" by auto
    qed
    then have "sorted (bs @ new # cs @ ys)"
      using srt False neq bc by (force simp: sorted_append)
    with run bc(1) show ?thesis by auto
  qed
  then obtain r where r: "sort_replace arr old new = Inr r" "sorted r" "mset r = add_mset new (mset (as @ ys))"
    by blast
  have "r = insort new (as @ ys)"
    using r(2,3) srt by (intro sorted_mset_unique) (auto simp: sorted_insort sorted_append)
  with r(1) rm show ?thesis by simp
qed

text \<open>C27. The in-place update of the sorter equals the reference that removes the old value and inserts
  the new one in order: on a sorted array that holds \<open>old\<close>, with \<open>old\<close> and \<open>new\<close> different,
  \<^verbatim>\<open>sort_replace\<close> never reads outside the array and leaves it sorted.\<close>

theorem sort_replace_insort:
  assumes "sorted arr" and "old \<in> set arr" and "old \<noteq> new"
  shows "sort_replace arr old new = Inr (insort new (remove1 old arr)) \<and>
    sorted (insort new (remove1 old arr)) \<and> mset (insort new (remove1 old arr)) = mset arr - {#old#} + {#new#}"
  using sort_replace_eq [OF assms] assms(1) by (simp add: sorted_insort sorted_remove1)

theorem sort_replace_insort_witness:
  "sort_replace [1, 3, 3, 8] 3 5 = Inr (insort 5 (remove1 3 [1, 3, 3, 8]))
   \<and> insort 5 (remove1 3 [1, 3, 3, 8]) = [1, 3, 5, 8 :: int]"
  using sort_replace_insort [of "[1, 3, 3, 8]" 3 5] by simp

subsection \<open>Sorters\<close>

record sort_input =
  si_index :: nat
  si_chan :: "cid option"

record sorter =
  so_n :: nat
  so_inputs :: "sort_input list"
  so_values :: "int list"
  so_sorted :: "int list"
  so_copied :: bool

text \<open>The output channel \<open>i\<close> of the sorter \<open>s\<close> is at the address \<open>SortOutput s i\<close>.\<close>

record sort_bay = mux_bay +
  sorts :: "nat \<Rightarrow> sorter"

definition sort_update :: "nat \<Rightarrow> sorter \<Rightarrow> 'x sort_bay_scheme \<Rightarrow> 'x sort_bay_scheme" where
  "sort_update s so w = w\<lparr>sorts := (sorts w)(s := so)\<rparr>"

definition sort_init_output :: "nat \<Rightarrow> string \<Rightarrow> nat \<Rightarrow> 'x sort_bay_scheme \<Rightarrow> 'x sort_bay_scheme res" where
  "sort_init_output s name i w =
     rbind (chan_init CHAN_SINGLE (name @ ''.out'' @ dec i)) (\<lambda>ch.
       let ch = chan_prop_set CHAN_ALLOW_DUP True (chan_prop_set CHAN_DIRTY_WRITE True ch)
       in bay_register (SortOutput s i) (w\<lparr>bay_mem := (bay_mem w)(SortOutput s i := ch)\<rparr>))"

definition sort_init :: "nat \<Rightarrow> nat \<Rightarrow> string \<Rightarrow> 'x sort_bay_scheme \<Rightarrow> 'x sort_bay_scheme res" where
  "sort_init s n name w =
     foldr_res (sort_init_output s name) [0..<n]
       (sort_update s \<lparr>so_n = n, so_inputs = replicate n \<lparr>si_index = 0, si_chan = None\<rparr>,
          so_values = replicate n 0, so_sorted = replicate n 0, so_copied = False\<rparr> w)"

definition sort_set_input :: "nat \<Rightarrow> nat \<Rightarrow> cid \<Rightarrow> 'x sort_bay_scheme \<Rightarrow> 'x sort_bay_scheme res" where
  "sort_set_input s index c w =
     (let so = sorts w s in
      if index \<ge> length (so_inputs so) then Inl (ESort SortOutOfBounds)
      else if si_chan (so_inputs so ! index) \<noteq> None then Inl (ESort SortInputTaken)
      else let so' = so\<lparr>so_inputs := (so_inputs so)[index := \<lparr>si_index = index, si_chan = Some c\<rparr>]\<rparr>
           in rbind (bay_add_cb BAY_CB_DIRTY c (SORT_CB_INPUT s index) True (sort_update s so' w))
                (\<lambda>(_, w1). Inr w1))"

text \<open>One turn of the loop that writes the outputs.\<close>

definition sort_write :: "nat \<Rightarrow> nat \<Rightarrow> 'x sort_bay_scheme \<Rightarrow> 'x sort_bay_scheme res" where
  "sort_write s i w =
     (let val = VALUE_INT64 (so_sorted (sorts w s) ! i) in
      if chan_read_at (SortOutput s i) w = val then Inr w else chan_set_at (SortOutput s i) val w)"

text \<open>The sorted array after one value changed from \<open>old\<close> to \<open>new\<close>.\<close>

definition sort_refresh :: "int \<Rightarrow> int \<Rightarrow> sorter \<Rightarrow> sorter res" where
  "sort_refresh old new so =
     (if so_copied so
      then rbind (sort_replace (so_sorted so) old new) (\<lambda>arr. Inr (so\<lparr>so_sorted := arr\<rparr>))
      else Inr (so\<lparr>so_sorted := sort (so_values so), so_copied := True\<rparr>))"

definition sort_cb_input :: "nat \<Rightarrow> nat \<Rightarrow> cid \<Rightarrow> 'x sort_bay_scheme \<Rightarrow> 'x sort_bay_scheme res" where
  "sort_cb_input s k in_chan w =
     (let so = sorts w s;
          new = (case chan_read_at in_chan w of VALUE_INT64 i \<Rightarrow> i | _ \<Rightarrow> 0) in
      if k \<ge> length (so_inputs so) then Inl (ESort SortOutOfBounds)
      else let index = si_index (so_inputs so ! k) in
      if index \<ge> length (so_values so) then Inl (ESort SortOutOfBounds)
      else let old = so_values so ! index in
      if old = new then Inr w
      else rbind (sort_refresh old new (so\<lparr>so_values := (so_values so)[index := new]\<rparr>))
             (\<lambda>so2. foldr_res (sort_write s) [0..<so_n so2] (sort_update s so2 w)))"

lemma sort_update_sel [simp]:
  "bay_ncbs (sort_update s so w) = bay_ncbs w" "bay_cbs (sort_update s so w) = bay_cbs w"
  "bay_mem (sort_update s so w) = bay_mem w" "bay_channels (sort_update s so w) = bay_channels w"
  "bay_state (sort_update s so w) = bay_state w" "bay_dirty (sort_update s so w) = bay_dirty w"
  "bay_bchans (sort_update s so w) = bay_bchans w" "muxes (sort_update s so w) = muxes w"
  "sorts (sort_update s so w) = (sorts w)(s := so)"
  by (simp_all add: sort_update_def)

subsection \<open>The invariant of the sorters\<close>

definition sort_out_ok :: "nat \<Rightarrow> nat \<Rightarrow> 'x sort_bay_scheme \<Rightarrow> bool" where
  "sort_out_ok s i w \<longleftrightarrow>
     ch_type (bay_mem w (SortOutput s i)) = CHAN_SINGLE
     \<and> ch_prop (bay_mem w (SortOutput s i)) CHAN_DIRTY_WRITE
     \<and> ch_prop (bay_mem w (SortOutput s i)) CHAN_ALLOW_DUP"

definition sorter_ok :: "sorter \<Rightarrow> bool" where
  "sorter_ok so \<longleftrightarrow> length (so_inputs so) = so_n so \<and> length (so_values so) = so_n so
     \<and> so_sorted so = sort (so_values so)"

definition sort_inv :: "'x sort_bay_scheme \<Rightarrow> bool" where
  "sort_inv w \<longleftrightarrow> (\<forall>i < bay_ncbs w. \<forall>s k. cb_fun (bay_cbs w i) = SORT_CB_INPUT s k \<longrightarrow>
     sorter_ok (sorts w s) \<and> k < so_n (sorts w s) \<and> si_index (so_inputs (sorts w s) ! k) = k
     \<and> (\<forall>j < so_n (sorts w s). sort_out_ok s j w))"

lemma more_sorts: "bay.more w' = bay.more w \<Longrightarrow> sorts w' = sorts (w :: 'x sort_bay_scheme)"
  by (cases w rule: sort_bay.cases_scheme; cases w' rule: sort_bay.cases_scheme) simp

lemma sort_inv_cong:
  assumes inv: "sort_inv w" and so: "sorts w' = sorts w"
    and cbs: "bay_ncbs w' = bay_ncbs w" "\<And>i. cb_fun (bay_cbs w' i) = cb_fun (bay_cbs w i)"
    and ch: "\<And>c. ch_type (bay_mem w' c) = ch_type (bay_mem w c) \<and> ch_prop (bay_mem w' c) = ch_prop (bay_mem w c)"
  shows "sort_inv w'"
proof -
  have "sort_out_ok s j w' = sort_out_ok s j w" for s j by (simp add: sort_out_ok_def ch)
  then have "sort_inv w' = sort_inv w" by (simp add: sort_inv_def so cbs)
  with inv show ?thesis by simp
qed

lemma sort_inv_writes: "sort_inv w \<Longrightarrow> bay_writes C w w' \<Longrightarrow> sort_inv w'"
  by (rule sort_inv_cong [of w])
    (auto simp: bay_writes_def bay_step_def same_chan_def intro: more_sorts)

lemma sort_inv_state: "sort_inv w \<Longrightarrow> sort_inv (w\<lparr>bay_state := st\<rparr>)"
  by (rule sort_inv_cong [of w]) simp_all

lemma sort_inv_dirty: "sort_inv w \<Longrightarrow> sort_inv (w\<lparr>bay_dirty := d\<rparr>)"
  by (rule sort_inv_cong [of w]) simp_all

lemma sort_inv_flush:
  assumes "sort_inv w" and "flush_chan c w = Inr w'"
  shows "sort_inv w'"
  using assms(1)
proof (rule sort_inv_cong)
qed (use assms(2) in \<open>auto simp: flush_chan_def chan_flush_at_def dest!: chan_flush_ok\<close>)

lemma sort_replace_values:
  assumes "i < length vs" and "vs ! i \<noteq> new"
  shows "sort_replace (sort vs) (vs ! i) new = Inr (sort (vs[i := new]))"
proof -
  have "mset (insort new (remove1 (vs ! i) (sort vs))) = mset (vs[i := new])"
    using assms(1) by (simp add: mset_update)
  then have "insort new (remove1 (vs ! i) (sort vs)) = sort (vs[i := new])"
    by (intro sorted_mset_unique) (simp_all add: sorted_insort sorted_remove1)
  with assms sort_replace_eq [of "sort vs" "vs ! i" new] show ?thesis by simp
qed

text \<open>The loop over the outputs writes the sorted values, one per channel.\<close>

lemma sort_write_ok:
  assumes "bay_wf w" and "sort_write s i w = Inr w'"
  shows "bay_writes {SortOutput s i} w w'"
  using assms chan_set_at_write [OF assms(1), of "SortOutput s i"]
  by (auto simp: sort_write_def Let_def bay_writes_refl intro: bay_write_writes split: if_splits)

lemma sort_write_loop:
  assumes "bay_wf w" and "foldr_res (sort_write s) is w = Inr w'"
  shows "bay_writes (SortOutput s ` set is) w w'"
  using assms
proof (induction "is" arbitrary: w)
  case (Cons i "is")
  then obtain w1 where w1: "sort_write s i w = Inr w1" "foldr_res (sort_write s) is w1 = Inr w'" by auto
  note b1 = sort_write_ok [OF Cons.prems(1) w1(1)]
  from bay_writes_trans [OF b1 Cons.IH [OF bay_writes_wf [OF b1] w1(2)]] show ?case by simp
qed (simp add: bay_writes_refl)

lemma sort_write_total:
  assumes "bay_wf w" and "sort_out_ok s i w" and "bay_state w = BAY_PROPAGATING"
  shows "\<exists>w'. sort_write s i w = Inr w' \<and> bay_writes {SortOutput s i} w w'
    \<and> chan_read_at (SortOutput s i) w' = VALUE_INT64 (so_sorted (sorts w s) ! i)"
proof -
  let ?v = "VALUE_INT64 (so_sorted (sorts w s) ! i)"
  obtain w' where w': "chan_set_at (SortOutput s i) ?v w = Inr w'"
    using chan_set_at_total [OF assms(1), of "SortOutput s i" ?v] assms by (auto simp: sort_out_ok_def)
  have "chan_read_at (SortOutput s i) w' = ?v"
    using assms(2) by (intro chan_set_at_allow_dup [OF _ w']) (simp add: sort_out_ok_def)
  with w' chan_set_at_write [OF assms(1) w'] assms(1) show ?thesis
    by (auto simp: sort_write_def Let_def bay_writes_refl intro: bay_write_writes)
qed

lemma sort_write_loop_total:
  assumes "bay_wf w" and "\<And>i. i \<in> set is \<Longrightarrow> sort_out_ok s i w" and "bay_state w = BAY_PROPAGATING"
    and "distinct is"
  shows "\<exists>w'. foldr_res (sort_write s) is w = Inr w' \<and> bay_writes (SortOutput s ` set is) w w'
    \<and> (\<forall>i \<in> set is. chan_read_at (SortOutput s i) w' = VALUE_INT64 (so_sorted (sorts w s) ! i))"
  using assms
proof (induction "is" arbitrary: w)
  case (Cons i "is")
  obtain w1 where w1: "sort_write s i w = Inr w1" "bay_writes {SortOutput s i} w w1"
    "chan_read_at (SortOutput s i) w1 = VALUE_INT64 (so_sorted (sorts w s) ! i)"
    using sort_write_total [OF Cons.prems(1) _ Cons.prems(3)] Cons.prems(2) by fastforce
  have so: "sorts w1 = sorts w" using w1(2) by (intro more_sorts) (simp add: bay_writes_def)
  have "sort_out_ok s j w1" if "j \<in> set is" for j
    using Cons.prems(2) [of j] that w1(2) by (simp add: sort_out_ok_def bay_writes_def same_chan_def)
  with Cons.IH [of w1] Cons.prems(3,4) w1(2) obtain w' where
    w': "foldr_res (sort_write s) is w1 = Inr w'" "bay_writes (SortOutput s ` set is) w1 w'"
      "\<forall>i \<in> set is. chan_read_at (SortOutput s i) w' = VALUE_INT64 (so_sorted (sorts w1 s) ! i)"
    by (auto simp: bay_writes_def bay_step_def)
  have "bay_mem w' (SortOutput s i) = bay_mem w1 (SortOutput s i)"
    using w'(2) Cons.prems(4) by (auto simp: bay_writes_def)
  with w1 w' so bay_writes_trans [OF w1(2) w'(2)] show ?case by auto
qed (simp add: bay_writes_refl)

lemma bay_wf_sort_update [simp]: "bay_wf (sort_update s so w) = bay_wf w"
  by (simp add: sort_update_def bay_wf_defs)

text \<open>The body of the callback in one equation: nothing when the value is the same, otherwise the
  sorted values are written.\<close>

definition chval_int :: "chval \<Rightarrow> int" where
  "chval_int v = (case v of VALUE_INT64 i \<Rightarrow> i | _ \<Rightarrow> 0)"

lemma sort_cb_input_eq:
  assumes ok: "sorter_ok (sorts w s)" and k: "k < so_n (sorts w s)" "si_index (so_inputs (sorts w s) ! k) = k"
  shows "sort_cb_input s k c w =
    (let so = sorts w s; new = chval_int (chan_read_at c w); vs = (so_values so)[k := new] in
     if so_values so ! k = new then Inr w
     else foldr_res (sort_write s) [0..<so_n so]
            (sort_update s (so\<lparr>so_values := vs, so_sorted := sort vs, so_copied := True\<rparr>) w))"
proof -
  let ?so = "sorts w s"
  let ?new = "chval_int (chan_read_at c w)"
  have len: "k < length (so_inputs ?so)" "k < length (so_values ?so)" using ok k by (auto simp: sorter_ok_def)
  let ?vs = "(so_values ?so)[k := ?new]"
  let ?body = "\<lambda>so'. if so_values ?so ! k = ?new then Inr w
      else foldr_res (sort_write s) [0..<so_n ?so] (sort_update s so' w)"
  have "sort_cb_input s k c w = ?body (?so\<lparr>so_values := ?vs, so_sorted := sort ?vs, so_copied := True\<rparr>)"
  proof (cases "so_copied ?so")
    case True
    then have "?so\<lparr>so_values := ?vs, so_sorted := sort ?vs\<rparr> =
        ?so\<lparr>so_values := ?vs, so_sorted := sort ?vs, so_copied := True\<rparr>"
      by (cases ?so) simp
    moreover have "sort_cb_input s k c w = ?body (?so\<lparr>so_values := ?vs, so_sorted := sort ?vs\<rparr>)"
      using True len k(2) ok sort_replace_values [OF len(2), of ?new]
      by (auto simp: sort_cb_input_def sort_refresh_def Let_def chval_int_def [symmetric] sorter_ok_def)
    ultimately show ?thesis by (rule subst [where P = "\<lambda>so'. sort_cb_input s k c w = ?body so'"])
  next
    case False
    then show ?thesis
      using len k(2) ok
      by (auto simp: sort_cb_input_def sort_refresh_def Let_def chval_int_def [symmetric] sorter_ok_def)
  qed
  then show ?thesis by (simp add: Let_def)
qed

lemma sort_cb_input_inv:
  assumes wf: "bay_wf w" and inv: "sort_inv w" and minv: "mux_inv w" and i: "i < bay_ncbs w"
    and f: "cb_fun (bay_cbs w i) = SORT_CB_INPUT s k" and ok: "sort_cb_input s k c w = Inr w'"
  shows "bay_step w w' \<and> sort_inv w' \<and> mux_inv w' \<and> bay_bchans w' = bay_bchans w
    \<and> bay_cbs w' = bay_cbs w \<and> muxes w' = muxes w \<and> (\<forall>d. (\<forall>j. d \<noteq> SortOutput s j) \<longrightarrow> bay_mem w' d = bay_mem w d)"
proof -
  let ?so = "sorts w s"
  let ?vs = "(so_values ?so)[k := chval_int (chan_read_at c w)]"
  let ?w = "sort_update s (?so\<lparr>so_values := ?vs, so_sorted := sort ?vs, so_copied := True\<rparr>) w"
  have so: "sorter_ok ?so" "k < so_n ?so" "si_index (so_inputs ?so ! k) = k"
    using inv i f by (auto simp: sort_inv_def)
  consider "w' = w" | "foldr_res (sort_write s) [0..<so_n ?so] ?w = Inr w'"
    using ok sort_cb_input_eq [OF so, of c]
    by (cases "so_values ?so ! k = chval_int (chan_read_at c w)") (simp_all add: Let_def)
  then show ?thesis
  proof cases
    case 1
    then show ?thesis using wf inv minv by (simp add: bay_step_refl)
  next
    case 2
    have wr: "bay_writes (SortOutput s ` set [0..<so_n ?so]) ?w w'"
      using sort_write_loop [OF _ 2] wf by simp
    have inv1: "sort_inv ?w"
      using inv by (auto simp: sort_inv_def sort_update_def sorter_ok_def sort_out_ok_def)
    have "mux_inv ?w" by (rule mux_inv_cong [OF minv]) (simp_all add: sort_update_def)
    moreover have "bay_step w ?w" using wf by (simp add: sort_update_def bay_step_def bay_wf_defs)
    moreover have "bay_bchans w' = bay_bchans w" "bay_cbs w' = bay_cbs w"
      "\<forall>d. (\<forall>j. d \<noteq> SortOutput s j) \<longrightarrow> bay_mem w' d = bay_mem w d"
      using wr by (auto simp: bay_writes_def sort_update_def)
    moreover have "muxes w' = muxes w"
      using wr more_muxes [of w' ?w] by (simp add: bay_writes_def sort_update_def)
    ultimately show ?thesis
      using wr sort_inv_writes [OF inv1 wr] mux_inv_writes [OF _ wr] bay_step_trans [OF _ bay_writes_step [OF wr]]
      by blast
  qed
qed

text \<open>A sorter changes nothing beyond the bay and the sorters.\<close>

lemma more_sort_more:
  "bay.more w' = bay.more w \<Longrightarrow> sort_bay.more w' = sort_bay.more (w :: 'x sort_bay_scheme)"
  by (cases w rule: sort_bay.cases_scheme; cases w' rule: sort_bay.cases_scheme) simp

lemma sort_write_more: "sort_write s i w = Inr w' \<Longrightarrow> sort_bay.more w' = sort_bay.more w"
  by (auto simp: sort_write_def Let_def split: if_splits dest!: chan_set_at_more more_sort_more)

lemma sort_cb_input_more:
  assumes "sort_cb_input s k c w = Inr w'"
  shows "sort_bay.more w' = sort_bay.more w"
proof -
  define so where "so = sorts w s"
  define new where "new = (case chan_read_at c w of VALUE_INT64 i \<Rightarrow> i | _ \<Rightarrow> 0)"
  define ix where "ix = si_index (so_inputs so ! k)"
  have run: "(if length (so_inputs so) \<le> k then Inl (ESort SortOutOfBounds)
      else if length (so_values so) \<le> ix then Inl (ESort SortOutOfBounds)
      else if so_values so ! ix = new then Inr w
      else rbind (sort_refresh (so_values so ! ix) new (so\<lparr>so_values := (so_values so)[ix := new]\<rparr>))
             (\<lambda>so2. foldr_res (sort_write s) [0..<so_n so2] (sort_update s so2 w))) = Inr w'"
    using assms unfolding sort_cb_input_def Let_def so_def new_def ix_def .
  show ?thesis
  proof (cases "so_values so ! ix = new")
    case True
    with run show ?thesis by (simp split: if_splits)
  next
    case False
    with run obtain so2 where
      "foldr_res (sort_write s) [0..<so_n so2] (sort_update s so2 w) = Inr w'"
      by (auto split: if_splits)
    then have "sort_bay.more w' = sort_bay.more (sort_update s so2 w)"
      by (rule foldr_res_invar [where I = "\<lambda>v. sort_bay.more v = sort_bay.more (sort_update s so2 w)"])
        (simp, drule sort_write_more, simp)
    then show ?thesis by (simp add: sort_update_def)
  qed
qed


subsection \<open>Wiring keeps the invariant\<close>

definition sort_fresh :: "nat \<Rightarrow> 'x sort_bay_scheme \<Rightarrow> bool" where
  "sort_fresh s w \<longleftrightarrow> (\<forall>i < bay_ncbs w. \<forall>k. cb_fun (bay_cbs w i) \<noteq> SORT_CB_INPUT s k)"

lemma sort_init_output_ok:
  assumes wf: "bay_wf w" and inv: "mux_inv w" "sort_inv w" "sort_fresh s w"
    and c: "SortOutput s i \<notin> registered w" and ok: "sort_init_output s name i w = Inr w'"
  shows "bay_wf w' \<and> mux_inv w' \<and> sort_inv w' \<and> sort_fresh s w' \<and> sort_out_ok s i w'
    \<and> registered w' = insert (SortOutput s i) (registered w) \<and> sorts w' = sorts w
    \<and> (\<forall>j. j \<noteq> i \<longrightarrow> sort_out_ok s j w' = sort_out_ok s j w)"
proof -
  obtain ch0 where ch0: "chan_init CHAN_SINGLE (name @ ''.out'' @ dec i) = Inr ch0"
    using ok by (auto simp: sort_init_output_def)
  let ?ch = "chan_prop_set CHAN_ALLOW_DUP True (chan_prop_set CHAN_DIRTY_WRITE True ch0)"
  let ?w = "w\<lparr>bay_mem := (bay_mem w)(SortOutput s i := ?ch)\<rparr>"
  have reg: "bay_register (SortOutput s i) ?w = Inr w'"
    using ok ch0 by (simp add: sort_init_output_def Let_def)
  have ch: "chan_wf ?ch" "\<not> ch_dirty_cb ?ch" "\<not> ch_is_dirty ?ch" "ch_type ?ch = CHAN_SINGLE"
    "ch_prop ?ch CHAN_ALLOW_DUP" "ch_prop ?ch CHAN_DIRTY_WRITE"
    using ch0 by (auto simp: chan_init_def chan_prop_set_def chan_wf_def chan_read_def split: if_splits)
  have wf1: "bay_wf ?w" by (rule bay_wf_new_chan [OF wf c ch(1,2)])
  have m1: "mux_inv ?w" by (rule mux_inv_new_chan [OF inv(1) c])
  have d: "\<not> ch_is_dirty (bay_mem ?w (SortOutput s i))" using ch(3) by simp
  note r = bay_register_wf [OF wf1 d reg] bay_register_mux [OF m1 wf1 d reg]
  have eqs: "bay_ncbs w' = bay_ncbs w" "bay_cbs w' = bay_cbs w" "sorts w' = sorts w"
    using reg by (auto simp: bay_register_def Let_def split: if_splits)
  have same: "ch_type (bay_mem w' e) = ch_type (bay_mem ?w e) \<and> ch_prop (bay_mem w' e) = ch_prop (bay_mem ?w e)" for e
    using reg by (auto simp: bay_register_def chan_set_dirty_cb_def Let_def split: if_splits)
  have out: "sort_out_ok s i w'" using ch(4-6) by (simp add: sort_out_ok_def same)
  have other: "sort_out_ok t j w' = sort_out_ok t j w" if "t \<noteq> s \<or> j \<noteq> i" for t j
    using that by (auto simp: sort_out_ok_def same)
  have "sort_inv w'"
    using inv(2,3) by (simp add: sort_inv_def eqs sort_fresh_def) (metis other)
  with r out other eqs inv(3) show ?thesis by (simp add: sort_fresh_def)
qed

lemma sort_init_outputs_ok:
  assumes "foldr_res (sort_init_output s name) is w = Inr w'" and "distinct is"
    and "bay_wf w" "mux_inv w" "sort_inv w" "sort_fresh s w"
    and "\<And>i. i \<in> set is \<Longrightarrow> SortOutput s i \<notin> registered w"
  shows "bay_wf w' \<and> mux_inv w' \<and> sort_inv w' \<and> sort_fresh s w' \<and> sorts w' = sorts w
    \<and> registered w' = SortOutput s ` set is \<union> registered w
    \<and> (\<forall>j. sort_out_ok s j w' \<longleftrightarrow> j \<in> set is \<or> sort_out_ok s j w)"
  using assms
proof (induction "is" arbitrary: w)
  case (Cons i "is")
  then obtain w1 where w1: "sort_init_output s name i w = Inr w1"
    "foldr_res (sort_init_output s name) is w1 = Inr w'" by auto
  from sort_init_output_ok [OF Cons.prems(3-6) _ w1(1)] Cons.prems(7)
  have s1: "bay_wf w1" "mux_inv w1" "sort_inv w1" "sort_fresh s w1" "sort_out_ok s i w1"
    "registered w1 = insert (SortOutput s i) (registered w)" "sorts w1 = sorts w"
    "\<And>j. j \<noteq> i \<Longrightarrow> sort_out_ok s j w1 = sort_out_ok s j w" by auto
  have "bay_wf w' \<and> mux_inv w' \<and> sort_inv w' \<and> sort_fresh s w' \<and> sorts w' = sorts w1
    \<and> registered w' = SortOutput s ` set is \<union> registered w1
    \<and> (\<forall>j. sort_out_ok s j w' \<longleftrightarrow> j \<in> set is \<or> sort_out_ok s j w1)"
    using Cons.prems(2,7) s1 by (intro Cons.IH [OF w1(2)]) auto
  with s1(5-8) show ?case by simp metis
qed auto

lemma sort_init_ok:
  assumes ok: "sort_init s n name w = Inr w'" and wf: "bay_wf w"
    and inv: "mux_inv w" "sort_inv w" "sort_fresh s w"
    and out: "\<And>i. SortOutput s i \<notin> registered w"
  shows "bay_wf w' \<and> mux_inv w' \<and> sort_inv w' \<and> sort_fresh s w' \<and> sorter_ok (sorts w' s)
    \<and> so_n (sorts w' s) = n \<and> (\<forall>j < n. sort_out_ok s j w')
    \<and> registered w' = SortOutput s ` {..<n} \<union> registered w"
proof -
  let ?so = "\<lparr>so_n = n, so_inputs = replicate n \<lparr>si_index = 0, si_chan = None\<rparr>,
          so_values = replicate n 0, so_sorted = replicate n 0, so_copied = False\<rparr>"
  let ?w = "sort_update s ?so w"
  have run: "foldr_res (sort_init_output s name) [0..<n] ?w = Inr w'" using ok by (simp add: sort_init_def)
  have "mux_inv ?w" by (rule mux_inv_cong [OF inv(1)]) (simp_all add: sort_update_def)
  moreover have "sort_inv ?w" "sort_fresh s ?w"
    using inv(2,3) by (auto simp: sort_inv_def sort_fresh_def sort_update_def sort_out_ok_def)
  moreover have "sort (replicate n (0::int)) = replicate n 0"
    by (intro sorted_mset_unique) simp_all
  ultimately show ?thesis
    using sort_init_outputs_ok [OF run] wf out
    by (auto simp: sorter_ok_def lessThan_atLeast0)
qed

lemma sort_set_input_ok:
  assumes ok: "sort_set_input s k c w = Inr w'" and wf: "bay_wf w"
    and inv: "mux_inv w" "sort_inv w" and so: "sorter_ok (sorts w s)"
    and out: "\<And>j. j < so_n (sorts w s) \<Longrightarrow> sort_out_ok s j w" and c: "c \<in> registered w"
  shows "bay_wf w' \<and> mux_inv w' \<and> sort_inv w'"
proof -
  let ?so = "sorts w s"
  let ?so' = "?so\<lparr>so_inputs := (so_inputs ?so)[k := \<lparr>si_index = k, si_chan = Some c\<rparr>]\<rparr>"
  let ?w = "sort_update s ?so' w"
  let ?n = "bay_ncbs w"
  have k: "k < length (so_inputs ?so)" and free: "si_chan (so_inputs ?so ! k) = None"
    and run: "\<exists>i. bay_add_cb BAY_CB_DIRTY c (SORT_CB_INPUT s k) True ?w = Inr (i, w')"
    using ok by (auto simp: sort_set_input_def Let_def split: if_splits)
  have "c \<in> registered ?w" using c by (simp add: sort_update_def)
  moreover have "bay_wf ?w" using wf by simp
  ultimately obtain w1 where "bay_add_cb BAY_CB_DIRTY c (SORT_CB_INPUT s k) True ?w = Inr (bay_ncbs ?w, w1)"
    "bay_wf w1" "bay_ncbs w1 = Suc (bay_ncbs ?w)" "bay_mem w1 = bay_mem ?w"
    "bay_channels w1 = bay_channels ?w" "bay.more w1 = bay.more ?w"
    "bay_cbs w1 = (bay_cbs ?w)(bay_ncbs ?w := \<lparr>cb_fun = SORT_CB_INPUT s k, cb_bchan = c,
        cb_enabled = True, cb_type = BAY_CB_DIRTY\<rparr>)"
    using bay_add_cb_ok [of ?w c BAY_CB_DIRTY "SORT_CB_INPUT s k" True] by blast
  with run
  have w': "bay_wf w'" "bay_ncbs w' = Suc ?n" "bay_mem w' = bay_mem w" "bay_channels w' = bay_channels w"
    "bay.more w' = bay.more ?w" and cbs: "cb_fun (bay_cbs w' ?n) = SORT_CB_INPUT s k"
    "\<And>i. i < ?n \<Longrightarrow> bay_cbs w' i = bay_cbs w i"
    by auto
  have so': "sorts w' = (sorts w)(s := ?so')" using more_sorts [OF w'(5)] by simp
  have mux': "muxes w' = muxes w" using more_muxes [OF w'(5)] by simp
  have "mux_inv w'"
  proof -
    have u: "mux_used m w' = mux_used m w" for m
      using cbs by (auto simp: mux_used_def w'(2) ex_upto_Suc)
    have "mux_cb_ok i w'" if "i < Suc ?n" for i
      using that inv(1) cbs by (cases "i = ?n") (auto simp: mux_inv_def mux_cb_ok_def u mux' less_Suc_eq)
    moreover have "mux_ok m w'" if "mux_ok m w" for m
      using that by (rule mux_ok_cong) (use mux' w' cbs in auto)
    ultimately show ?thesis using inv(1) u by (simp add: mux_inv_def w'(2))
  qed
  moreover have o: "sort_out_ok t j w' = sort_out_ok t j w" for t j by (simp add: sort_out_ok_def w'(3))
  have "sort_inv w'"
    unfolding sort_inv_def
  proof (intro allI impI)
    fix i t l assume i: "i < bay_ncbs w'" and f: "cb_fun (bay_cbs w' i) = SORT_CB_INPUT t l"
    show "sorter_ok (sorts w' t) \<and> l < so_n (sorts w' t) \<and> si_index (so_inputs (sorts w' t) ! l) = l
      \<and> (\<forall>j < so_n (sorts w' t). sort_out_ok t j w')"
    proof (cases "i = ?n")
      case True
      with f cbs(1) have "t = s" "l = k" by auto
      then show ?thesis using so out k by (simp add: so' o sorter_ok_def)
    next
      case False
      with i have "i < ?n" by (simp add: w'(2))
      with inv(2) f cbs(2) have "sorter_ok (sorts w t) \<and> l < so_n (sorts w t)
        \<and> si_index (so_inputs (sorts w t) ! l) = l \<and> (\<forall>j < so_n (sorts w t). sort_out_ok t j w)"
        by (simp add: sort_inv_def)
      then show ?thesis using k by (auto simp: so' o sorter_ok_def nth_list_update)
    qed
  qed
  with \<open>mux_inv w'\<close> w'(1) show ?thesis by simp
qed

subsection \<open>A sorter with two inputs\<close>

definition demo_sort0 :: sort_bay where
  "demo_sort0 = bay.extend (bay.truncate demo_bay0)
     \<lparr>muxes = muxes demo_bay0, sorts = (\<lambda>_. \<lparr>so_n = 0, so_inputs = [], so_values = [], so_sorted = [],
        so_copied = False\<rparr>)\<rparr>"

definition demo_sort :: "sort_bay res" where
  "demo_sort =
     rbind (foldr_res bay_register [OtherChan 0, OtherChan 1] demo_sort0) (\<lambda>w.
     rbind (sort_init 0 2 ''s'' w) (\<lambda>w.
     rbind (sort_set_input 0 0 (OtherChan 0) w) (\<lambda>w.
     chan_set_at (OtherChan 0) (VALUE_INT64 (-3)) w)))"

lemma demo_sort_inv:
  assumes "demo_sort = Inr w"
  shows "bay_wf w \<and> sort_inv w"
proof -
  obtain w1 w2 w3 where
    1: "foldr_res bay_register [OtherChan 0, OtherChan 1] demo_sort0 = Inr w1"
    and 2: "sort_init 0 2 ''s'' w1 = Inr w2"
    and 3: "sort_set_input 0 0 (OtherChan 0) w2 = Inr w3"
    and 4: "chan_set_at (OtherChan 0) (VALUE_INT64 (-3)) w3 = Inr w"
    using assms unfolding demo_sort_def rbind_eq_Inr by blast
  have 0: "bay_wf demo_sort0" "mux_inv demo_sort0" "\<And>c. \<not> ch_is_dirty (bay_mem demo_sort0 c)"
    "bay_ncbs demo_sort0 = 0" "registered demo_sort0 = {}"
    by (auto simp: demo_sort0_def demo_bay0_def bay_init_def bay_wf_defs chan_wf_def chan_read_def
        demo_chan_def mux_inv_defs bay.defs)
  have i1: "bay_wf w1" "mux_inv w1" "bay_ncbs w1 = 0" "registered w1 = {OtherChan 0, OtherChan 1}"
    using bay_register_list [OF 1 0(1-3)] 0(4,5) by auto
  then have "sort_inv w1" "sort_fresh 0 w1" by (simp_all add: sort_inv_def sort_fresh_def)
  with i1 sort_init_ok [OF 2] have i2: "bay_wf w2" "mux_inv w2" "sort_inv w2" "sorter_ok (sorts w2 0)"
    "\<And>j. j < so_n (sorts w2 0) \<Longrightarrow> sort_out_ok 0 j w2" "OtherChan 0 \<in> registered w2"
    by auto
  have i3: "bay_wf w3" "sort_inv w3" using sort_set_input_ok [OF 3 i2] by auto
  note wr = chan_set_at_write [OF i3(1) 4]
  from bay_write_step [OF wr] sort_inv_writes [OF i3(2) bay_write_writes [OF wr]] show ?thesis
    by (simp add: bay_step_wf)
qed


end
