(* ===== verification/Prv.thy ===== *)
theory Prv
  imports Sort
begin

text \<open>
  The writer of Paraver traces: \<^verbatim>\<open>src/emu/pv/prv.h\<close> and \<^verbatim>\<open>src/emu/pv/prv.c\<close>.

  A trace has a current time, a table of registered channels by row and type, and a file. The
  file is the values printed in its header and the list of its records, one \<open>prv_line\<close> for
  each line \<^verbatim>\<open>2:0:1:1:<row>:<time>:<type>:<value>\<close>. The \<^verbatim>\<open>struct prv_chan\<close> of a trace are a list in the
  order of their registration; the hash table gives the position of one by its identifier.
  Opening the file can fail only in the operating system and is left out.
\<close>

subsection \<open>Data\<close>

datatype prv_flag = PRV_EMITDUP | PRV_SKIPDUP | PRV_NEXT | PRV_ZERO | PRV_SKIPDUPNULL

record prv_line =
  ln_row :: int
  ln_time :: int
  ln_type :: int
  ln_value :: int

record prv_chan =
  pc_chan :: cid
  pc_id :: int
  pc_row_base1 :: int
  pc_type :: int
  pc_flags :: "prv_flag \<Rightarrow> bool"
  pc_last_value_set :: bool
  pc_last_value :: chval

record prv =
  pv_header :: "int \<times> int" \<comment> \<open>duration and number of rows\<close>
  pv_lines :: "prv_line list"
  pv_time :: int
  pv_nrows :: int
  pv_channels :: "int \<rightharpoonup> nat"
  pv_rchans :: "prv_chan list"

record prv_bay = sort_bay +
  prvs :: "nat \<Rightarrow> prv"

subsection \<open>Operations\<close>

definition prv_open_file :: "int \<Rightarrow> prv" where
  "prv_open_file nrows = \<lparr>pv_header = (0, nrows), pv_lines = [], pv_time = 0, pv_nrows = nrows,
     pv_channels = Map.empty, pv_rchans = []\<rparr>"

definition prv_close :: "prv \<Rightarrow> prv" where
  "prv_close p = p\<lparr>pv_header := (pv_time p, pv_nrows p)\<rparr>"

definition get_id :: "prv \<Rightarrow> int \<Rightarrow> int \<Rightarrow> int" where
  "get_id p type row = type * pv_nrows p + row"

definition find_prv_chan :: "prv \<Rightarrow> int \<Rightarrow> nat option" where
  "find_prv_chan p ident = pv_channels p ident"

definition write_line :: "int \<Rightarrow> int \<Rightarrow> int \<Rightarrow> prv \<Rightarrow> prv" where
  "write_line row_base1 type v p =
     p\<lparr>pv_lines := pv_lines p @ [\<lparr>ln_row = row_base1, ln_time = pv_time p, ln_type = type, ln_value = v\<rparr>]\<rparr>"

definition is_value_dup :: "prv_chan \<Rightarrow> chval \<Rightarrow> bool" where
  "is_value_dup rc v \<longleftrightarrow> pc_last_value_set rc \<and> v = pc_last_value rc"

definition prv_put :: "nat \<Rightarrow> prv_chan \<Rightarrow> prv \<Rightarrow> prv" where
  "prv_put j rc p = p\<lparr>pv_rchans := (pv_rchans p)[j := rc]\<rparr>"

text \<open>The last part of \<^verbatim>\<open>emit\<close>: the number to print for a value.\<close>

definition prv_value :: "(prv_flag \<Rightarrow> bool) \<Rightarrow> chval \<Rightarrow> int res" where
  "prv_value flags v =
     (case v of
        VALUE_INT64 i \<Rightarrow>
          let val = (if flags PRV_NEXT then i + 1 else i) in
          if \<not> flags PRV_ZERO \<and> val = 0 then Inl (EPrv PrvZero) else Inr val
      | VALUE_NULL \<Rightarrow> Inr 0
      | VALUE_DOUBLE _ \<Rightarrow> Inl (EPrv PrvType))"

definition mark_last :: "chval \<Rightarrow> prv_chan \<Rightarrow> prv_chan" where
  "mark_last v rc = (if pc_flags rc PRV_EMITDUP then rc
                     else rc\<lparr>pc_last_value := v, pc_last_value_set := True\<rparr>)"

definition emit :: "nat \<Rightarrow> chval \<Rightarrow> prv \<Rightarrow> prv res" where
  "emit j v p =
     (let rc = pv_rchans p ! j; flags = pc_flags rc in
      if \<not> flags PRV_EMITDUP \<and> is_value_dup rc v \<and> flags PRV_SKIPDUP then Inr p
      else if \<not> flags PRV_EMITDUP \<and> is_value_dup rc v \<and> flags PRV_SKIPDUPNULL \<and> value_is_null v then Inr p
      else if \<not> flags PRV_EMITDUP \<and> is_value_dup rc v \<and> \<not> flags PRV_SKIPDUP \<and> \<not> flags PRV_SKIPDUPNULL
      then Inl (EPrv PrvDup)
      else rbind (prv_value flags v) (\<lambda>val.
             Inr (write_line (pc_row_base1 rc) (pc_type rc) val (prv_put j (mark_last v rc) p))))"

definition prv_update :: "nat \<Rightarrow> prv \<Rightarrow> 'x prv_bay_scheme \<Rightarrow> 'x prv_bay_scheme" where
  "prv_update k p w = w\<lparr>prvs := (prvs w)(k := p)\<rparr>"

text \<open>The callback ignores the channel it is called for and reads the one it was registered with.\<close>

definition cb_prv :: "nat \<Rightarrow> nat \<Rightarrow> cid \<Rightarrow> 'x prv_bay_scheme \<Rightarrow> 'x prv_bay_scheme res" where
  "cb_prv k j chan w =
     (let p = prvs w k in
      rbind (emit j (chan_read_at (pc_chan (pv_rchans p ! j)) w) p) (\<lambda>p'. Inr (prv_update k p' w)))"

definition check_flags :: "(prv_flag \<Rightarrow> bool) \<Rightarrow> bool" where
  "check_flags flags \<longleftrightarrow>
     \<not> (flags PRV_EMITDUP \<and> flags PRV_SKIPDUPNULL)
     \<and> \<not> (flags PRV_EMITDUP \<and> flags PRV_SKIPDUP)
     \<and> \<not> (flags PRV_SKIPDUP \<and> flags PRV_SKIPDUPNULL)"

definition prv_register ::
  "nat \<Rightarrow> int \<Rightarrow> int \<Rightarrow> cid \<Rightarrow> (prv_flag \<Rightarrow> bool) \<Rightarrow> 'x prv_bay_scheme \<Rightarrow> 'x prv_bay_scheme res" where
  "prv_register k row type c flags w =
     (let p = prvs w k; ident = get_id p type row in
      if find_prv_chan p ident \<noteq> None then Inl (EPrv PrvRowTaken)
      else if \<not> check_flags flags then Inl (EPrv PrvFlags)
      else let j = length (pv_rchans p);
               rc = \<lparr>pc_chan = c, pc_id = ident, pc_row_base1 = row + 1, pc_type = type,
                     pc_flags = flags, pc_last_value_set = False, pc_last_value = VALUE_NULL\<rparr>;
               p1 = p\<lparr>pv_rchans := pv_rchans p @ [rc]\<rparr> in
        rbind (bay_add_cb BAY_CB_EMIT c (CB_PRV k j) True (prv_update k p1 w)) (\<lambda>(_, w1).
          Inr (prv_update k (p1\<lparr>pv_channels := (pv_channels p1)(ident \<mapsto> j)\<rparr>) w1)))"

definition prv_advance :: "int \<Rightarrow> prv \<Rightarrow> prv res" where
  "prv_advance time p = (if time < pv_time p then Inl (EPrv PrvBackwards) else Inr (p\<lparr>pv_time := time\<rparr>))"

subsection \<open>The records of a trace\<close>

text \<open>The times of the records do not decrease and none is after the current time; every record is
  of a registered channel; without PRV_ZERO, which allows zeros, and with a value, it is not zero.\<close>

definition prv_wf :: "prv \<Rightarrow> bool" where
  "prv_wf p \<longleftrightarrow> sorted (map ln_time (pv_lines p)) \<and> (\<forall>l \<in> set (pv_lines p). ln_time l \<le> pv_time p)
     \<and> (\<forall>l \<in> set (pv_lines p). \<exists>rc \<in> set (pv_rchans p).
          ln_row l = pc_row_base1 rc \<and> ln_type l = pc_type rc)"

lemma emit_cases:
  assumes "emit j v p = Inr p'"
  shows "p' = p \<and> is_value_dup (pv_rchans p ! j) v \<and> \<not> pc_flags (pv_rchans p ! j) PRV_EMITDUP
    \<or> (\<exists>val. prv_value (pc_flags (pv_rchans p ! j)) v = Inr val
        \<and> p' = write_line (pc_row_base1 (pv_rchans p ! j)) (pc_type (pv_rchans p ! j)) val
                 (prv_put j (mark_last v (pv_rchans p ! j)) p))"
  using assms unfolding emit_def Let_def by (simp split: if_splits) blast+

lemma mark_last_sel [simp]:
  "pc_row_base1 (mark_last v rc) = pc_row_base1 rc" "pc_type (mark_last v rc) = pc_type rc"
  "pc_chan (mark_last v rc) = pc_chan rc" "pc_flags (mark_last v rc) = pc_flags rc"
  by (simp_all add: mark_last_def)

lemma emit_wf:
  assumes "prv_wf p" and "j < length (pv_rchans p)" and "emit j v p = Inr p'"
  shows "prv_wf p' \<and> length (pv_rchans p') = length (pv_rchans p) \<and> pv_time p' = pv_time p"
  using emit_cases [OF assms(3)]
proof (elim disjE exE conjE)
  fix val
  assume p': "p' = write_line (pc_row_base1 (pv_rchans p ! j)) (pc_type (pv_rchans p ! j)) val
                 (prv_put j (mark_last v (pv_rchans p ! j)) p)"
  let ?rcs = "(pv_rchans p)[j := mark_last v (pv_rchans p ! j)]"
  have same: "pc_row_base1 (?rcs ! i) = pc_row_base1 (pv_rchans p ! i)"
    "pc_type (?rcs ! i) = pc_type (pv_rchans p ! i)" for i
    using assms(2) by (cases "i = j"; simp)+
  have "\<exists>rc \<in> set ?rcs. r = pc_row_base1 rc \<and> t = pc_type rc"
    if "\<exists>rc \<in> set (pv_rchans p). r = pc_row_base1 rc \<and> t = pc_type rc" for r t
    using that same by (metis in_set_conv_nth length_list_update)
  moreover have "\<exists>rc \<in> set ?rcs. pc_row_base1 (pv_rchans p ! j) = pc_row_base1 rc
      \<and> pc_type (pv_rchans p ! j) = pc_type rc"
    using set_update_memI [OF assms(2), of "mark_last v (pv_rchans p ! j)"] by (intro bexI) auto
  ultimately show ?thesis
    using assms(1) by (auto simp: p' prv_wf_def write_line_def prv_put_def sorted_append)
qed (use assms in simp)

lemma prv_advance_wf: "prv_wf p \<Longrightarrow> prv_advance t p = Inr p' \<Longrightarrow> prv_wf p' \<and> pv_time p' = t"
  by (fastforce simp: prv_advance_def prv_wf_def split: if_splits)

subsection \<open>The callback keeps the invariants\<close>

definition prv_inv :: "'x prv_bay_scheme \<Rightarrow> bool" where
  "prv_inv w \<longleftrightarrow> (\<forall>i < bay_ncbs w. \<forall>k j. cb_fun (bay_cbs w i) = CB_PRV k j \<longrightarrow>
     j < length (pv_rchans (prvs w k)) \<and> pc_chan (pv_rchans (prvs w k) ! j) = cb_bchan (bay_cbs w i)
     \<and> prv_wf (prvs w k))"

lemma more_prvs: "bay.more w' = bay.more w \<Longrightarrow> prvs w' = prvs (w :: 'x prv_bay_scheme)"
  by (cases w rule: prv_bay.cases_scheme; cases w' rule: prv_bay.cases_scheme) simp

lemma prv_inv_cong:
  assumes inv: "prv_inv w" and so: "prvs w' = prvs w" and cbs: "bay_ncbs w' = bay_ncbs w"
    "\<And>i. cb_fun (bay_cbs w' i) = cb_fun (bay_cbs w i) \<and> cb_bchan (bay_cbs w' i) = cb_bchan (bay_cbs w i)"
  shows "prv_inv w'"
proof -
  have "prv_inv w' = prv_inv w" by (simp add: prv_inv_def so cbs)
  with inv show ?thesis by simp
qed

lemma prv_update_sel [simp]:
  "bay_ncbs (prv_update k p w) = bay_ncbs w" "bay_cbs (prv_update k p w) = bay_cbs w"
  "bay_mem (prv_update k p w) = bay_mem w" "bay_channels (prv_update k p w) = bay_channels w"
  "bay_state (prv_update k p w) = bay_state w" "bay_dirty (prv_update k p w) = bay_dirty w"
  "bay_bchans (prv_update k p w) = bay_bchans w" "muxes (prv_update k p w) = muxes w"
  "sorts (prv_update k p w) = sorts w" "prvs (prv_update k p w) = (prvs w)(k := p)"
  by (simp_all add: prv_update_def)

lemma prv_update_wf [simp]: "bay_wf (prv_update k p w) = bay_wf w"
  by (simp add: bay_wf_defs)

lemma prv_update_invs [simp]:
  "mux_inv (prv_update k p w) = mux_inv w" "sort_inv (prv_update k p w) = sort_inv w"
proof -
  have "mux_inv w' \<longleftrightarrow> mux_inv w" if "w' = prv_update k p w" for w'
    using mux_inv_cong [of w w'] mux_inv_cong [of w' w] that by auto
  then show "mux_inv (prv_update k p w) = mux_inv w" by blast
  have "sort_inv w' \<longleftrightarrow> sort_inv w" if "w' = prv_update k p w" for w'
    using sort_inv_cong [of w w'] sort_inv_cong [of w' w] that by auto
  then show "sort_inv (prv_update k p w) = sort_inv w" by blast
qed

lemma emit_chan:
  "emit j v p = Inr p' \<Longrightarrow> j < length (pv_rchans p) \<Longrightarrow>
     pc_chan (pv_rchans p' ! i) = pc_chan (pv_rchans p ! i)"
  by (drule emit_cases) (auto simp: write_line_def prv_put_def nth_list_update)

lemma cb_prv_ok:
  assumes wf: "bay_wf w" and inv: "prv_inv w" and i: "i < bay_ncbs w"
    and f: "cb_fun (bay_cbs w i) = CB_PRV k j" and ok: "cb_prv k j c w = Inr w'"
  shows "bay_step w w' \<and> bay_bchans w' = bay_bchans w \<and> prv_inv w' \<and> mux_inv w' = mux_inv w
    \<and> sort_inv w' = sort_inv w \<and> bay_mem w' = bay_mem w"
proof -
  obtain p' where e: "emit j (chan_read_at (pc_chan (pv_rchans (prvs w k) ! j)) w) (prvs w k) = Inr p'"
    and w': "w' = prv_update k p' w"
    using ok by (auto simp: cb_prv_def Let_def)
  have j: "j < length (pv_rchans (prvs w k))" "prv_wf (prvs w k)"
    using inv i f by (auto simp: prv_inv_def)
  have "prv_inv w'"
    using inv emit_wf [OF j(2,1) e] emit_chan [OF e j(1)] by (auto simp: prv_inv_def w')
  then show ?thesis using wf by (simp add: bay_step_def w')
qed

lemma prv_register_ok:
  assumes wf: "bay_wf w" and inv: "mux_inv w" "sort_inv w" "prv_inv w" and p: "prv_wf (prvs w k)"
    and c: "c \<in> registered w" and ok: "prv_register k row type c flags w = Inr w'"
  shows "bay_wf w' \<and> prv_inv w' \<and> prv_wf (prvs w' k) \<and> check_flags flags
    \<and> find_prv_chan (prvs w' k) (get_id (prvs w k) type row) = Some (length (pv_rchans (prvs w k)))"
proof -
  let ?p = "prvs w k"
  let ?j = "length (pv_rchans ?p)"
  let ?rc = "\<lparr>pc_chan = c, pc_id = get_id ?p type row, pc_row_base1 = row + 1, pc_type = type,
                     pc_flags = flags, pc_last_value_set = False, pc_last_value = VALUE_NULL\<rparr>"
  let ?p1 = "?p\<lparr>pv_rchans := pv_rchans ?p @ [?rc]\<rparr>"
  let ?p2 = "?p1\<lparr>pv_channels := (pv_channels ?p1)(get_id ?p type row \<mapsto> ?j)\<rparr>"
  let ?w = "prv_update k ?p1 w"
  have fl: "check_flags flags"
    and run: "\<exists>i w1. bay_add_cb BAY_CB_EMIT c (CB_PRV k ?j) True ?w = Inr (i, w1) \<and> w' = prv_update k ?p2 w1"
    using ok by (auto simp: prv_register_def Let_def split: if_splits)
  obtain w1 where w1: "bay_wf w1" "bay_ncbs w1 = Suc (bay_ncbs w)" "bay.more w1 = bay.more ?w"
    "bay_cbs w1 = (bay_cbs w)(bay_ncbs w := \<lparr>cb_fun = CB_PRV k ?j, cb_bchan = c,
        cb_enabled = True, cb_type = BAY_CB_EMIT\<rparr>)"
    and w': "w' = prv_update k ?p2 w1"
    using bay_add_cb_ok [of ?w c BAY_CB_EMIT "CB_PRV k ?j" True] run wf c by auto
  have prvs1: "prvs w1 = (prvs w)(k := ?p1)" using more_prvs [OF w1(3)] by simp
  have wf2: "prv_wf ?p2" using p by (auto simp: prv_wf_def)
  have "prv_inv w'"
    using inv(3) wf2 by (auto simp: prv_inv_def w' w1(2,4) prvs1 nth_append less_Suc_eq)
  with w1(1) wf2 fl show ?thesis by (simp add: w' find_prv_chan_def)
qed

subsection \<open>The traces the writer can produce\<close>

inductive prv_reach :: "prv \<Rightarrow> bool" where
  prv_open: "prv_reach (prv_open_file nrows)"
| prv_add: "prv_reach p \<Longrightarrow> prv_reach (p\<lparr>pv_rchans := pv_rchans p @ [rc], pv_channels := chs\<rparr>)"
| prv_emit: "prv_reach p \<Longrightarrow> j < length (pv_rchans p) \<Longrightarrow> emit j v p = Inr p' \<Longrightarrow> prv_reach p'"
| prv_move: "prv_reach p \<Longrightarrow> prv_advance t p = Inr p' \<Longrightarrow> prv_reach p'"

lemma prv_reach_wf: "prv_reach p \<Longrightarrow> prv_wf p"
proof (induction rule: prv_reach.induct)
  case (prv_add p rc chs)
  then show ?case by (auto simp: prv_wf_def)
next
  case (prv_open nrows)
  then show ?case by (simp add: prv_wf_def prv_open_file_def)
qed (use emit_wf prv_advance_wf in blast)+

text \<open>C28. The records of a trace come in order of time: from an empty trace, whatever channels are
  emitted and whatever times it advances to, the times of the written records never decrease, and
  every record carries the row and the type of a registered channel.\<close>

theorem prv_lines_ordered:
  assumes "prv_reach p"
  shows "sorted (map ln_time (pv_lines p)) \<and>
    (\<forall>l \<in> set (pv_lines p). ln_time l \<le> pv_time p \<and>
       (\<exists>rc \<in> set (pv_rchans p). ln_row l = pc_row_base1 rc \<and> ln_type l = pc_type rc))"
  using prv_reach_wf [OF assms] by (simp add: prv_wf_def)

definition demo_rchan :: prv_chan where
  "demo_rchan = \<lparr>pc_chan = OtherChan 0, pc_id = 1, pc_row_base1 = 1, pc_type = 4,
     pc_flags = (\<lambda>f. f = PRV_SKIPDUP), pc_last_value_set = False, pc_last_value = VALUE_NULL\<rparr>"

definition demo_prv :: "prv res" where
  "demo_prv =
     (let p = (prv_open_file 1)\<lparr>pv_rchans := [] @ [demo_rchan], pv_channels := [1 \<mapsto> 0]\<rparr> in
      rbind (prv_advance 10 p) (\<lambda>p.
      rbind (emit 0 (VALUE_INT64 5) p) (\<lambda>p.
      rbind (emit 0 (VALUE_INT64 5) p) (\<lambda>p.
      rbind (prv_advance 25 p) (\<lambda>p. emit 0 VALUE_NULL p)))))"

lemma demo_prv_reach: "demo_prv = Inr p \<Longrightarrow> prv_reach p"
proof -
  let ?p = "(prv_open_file 1)\<lparr>pv_rchans := [] @ [demo_rchan], pv_channels := [1 \<mapsto> 0]\<rparr>"
  assume "demo_prv = Inr p"
  then obtain p1 p2 p3 p4 where run: "prv_advance 10 ?p = Inr p1" "emit 0 (VALUE_INT64 5) p1 = Inr p2"
    "emit 0 (VALUE_INT64 5) p2 = Inr p3" "prv_advance 25 p3 = Inr p4" "emit 0 VALUE_NULL p4 = Inr p"
    by (auto simp: demo_prv_def Let_def)
  have "prv_reach ?p" using prv_add [OF prv_open [of 1], of "[1 \<mapsto> 0]" demo_rchan] by (simp add: prv_open_file_def)
  then have "prv_reach p1" using run(1) by (rule prv_move)
  moreover have "pv_rchans p1 = [demo_rchan]"
    using run(1) by (auto simp: prv_advance_def prv_open_file_def)
  ultimately have 1: "prv_reach p1" "pv_rchans p1 = [demo_rchan]" .
  then have 2: "prv_reach p2" "length (pv_rchans p2) = 1"
    using run(2) emit_wf [OF prv_reach_wf [OF 1(1)] _ run(2)] by (auto intro: prv_emit)
  then have 3: "prv_reach p3" "length (pv_rchans p3) = 1"
    using run(3) emit_wf [OF prv_reach_wf [OF 2(1)] _ run(3)] by (auto intro: prv_emit)
  then have "prv_reach p4" "length (pv_rchans p4) = 1"
    using run(4) by (auto intro: prv_move simp: prv_advance_def split: if_splits)
  then show ?thesis using run(5) by (auto intro: prv_emit)
qed

theorem prv_lines_ordered_witness:
  "\<exists>p. demo_prv = Inr p \<and> map ln_time (pv_lines p) = [10, 25] \<and> sorted (map ln_time (pv_lines p))"
proof -
  have "res_get (\<lambda>p. map ln_time (pv_lines p)) demo_prv = Some [10, 25]" by code_simp
  then obtain p where p: "demo_prv = Inr p" "map ln_time (pv_lines p) = [10, 25]"
    by (auto simp: res_get_Some)
  with prv_lines_ordered [OF demo_prv_reach [OF p(1)]] show ?thesis by (intro exI [of _ p]) simp
qed

end
