(* ===== verification/Loom.thy ===== *)
theory Loom
  imports Prv
begin

text \<open>
  The parts of the emulated system and how they contain each other: looms (\<^verbatim>\<open>src/emu/loom.c\<close>), processes
  (\<^verbatim>\<open>src/emu/proc.c\<close>), threads and CPUs (the structures of \<^verbatim>\<open>src/emu/thread.h\<close> and \<^verbatim>\<open>src/emu/cpu.h\<close>).

  Each structure lives at an address, a number; a field of the emulator state maps the addresses
  to the structures. The hash tables of a loom and of a process keep their elements in a list, so a
  table is the list of the addresses of its elements in iteration order, and finding a key is finding
  the first element with that key. The metadata of a stream is JSON read with \<^verbatim>\<open>parson\<close>; the functions that
  load it get the values they read as arguments, \<open>None\<close> for a missing one.
\<close>

subsection \<open>Data\<close>

datatype thread_state =
  TH_ST_UNKNOWN | TH_ST_RUNNING | TH_ST_PAUSED | TH_ST_DEAD | TH_ST_COOLING | TH_ST_WARMING

record thread =
  th_gindex :: int
  th_is_init :: bool
  th_tid :: int
  th_proc :: "nat option"
  th_state :: thread_state
  th_is_running :: bool
  th_is_active :: bool
  th_is_out_of_cpu :: bool
  th_cpu :: "nat option"
  th_meta :: bool \<comment> \<open>\<^verbatim>\<open>meta != NULL\<close>\<close>

record cpu =
  cp_gindex :: int
  cp_is_init :: bool
  cp_index :: int
  cp_phyid :: int
  cp_loom :: "nat option"
  cp_nthreads :: nat
  cp_nth_running :: nat
  cp_nth_active :: nat
  cp_threads :: "nat list"
  cp_th_running :: "nat option"
  cp_th_active :: "nat option"
  cp_is_virtual :: bool

record proc =
  pr_gindex :: int
  pr_is_init :: bool
  pr_pid :: int
  pr_appid :: int
  pr_rank :: int
  pr_nranks :: int
  pr_nthreads :: int
  pr_threads :: "nat list"
  pr_loom :: "nat option"

record loom =
  lm_gindex :: int
  lm_is_init :: bool
  lm_name :: string
  lm_hostname :: string
  lm_ncpus :: nat
  lm_rank_enabled :: bool
  lm_rank_min :: int
  lm_cpus :: "nat list"
  lm_cpus_array :: "nat option list option" \<comment> \<open>\<open>None\<close> before \<^verbatim>\<open>loom_init_end\<close>\<close>
  lm_vcpu :: nat \<comment> \<open>the address of the embedded \<^verbatim>\<open>vcpu\<close>\<close>
  lm_nprocs :: nat
  lm_procs :: "nat list"
  lm_clock_offset :: int

record sys_bay = prv_bay +
  threads :: "nat \<Rightarrow> thread"
  cpus :: "nat \<Rightarrow> cpu"
  procs :: "nat \<Rightarrow> proc"
  looms :: "nat \<Rightarrow> loom"
  rec_pvts :: "(string \<times> nat) list" \<comment> \<open>the traces of the recorder by name\<close>

definition PATH_MAX :: nat where "PATH_MAX = 4096"
definition INT_MAX :: int where "INT_MAX = 2147483647"

definition put_thread :: "nat \<Rightarrow> thread \<Rightarrow> 'x sys_bay_scheme \<Rightarrow> 'x sys_bay_scheme" where
  "put_thread t th w = w\<lparr>threads := (threads w)(t := th)\<rparr>"

definition put_cpu :: "nat \<Rightarrow> cpu \<Rightarrow> 'x sys_bay_scheme \<Rightarrow> 'x sys_bay_scheme" where
  "put_cpu c cp w = w\<lparr>cpus := (cpus w)(c := cp)\<rparr>"

definition put_proc :: "nat \<Rightarrow> proc \<Rightarrow> 'x sys_bay_scheme \<Rightarrow> 'x sys_bay_scheme" where
  "put_proc p pr w = w\<lparr>procs := (procs w)(p := pr)\<rparr>"

definition put_loom :: "nat \<Rightarrow> loom \<Rightarrow> 'x sys_bay_scheme \<Rightarrow> 'x sys_bay_scheme" where
  "put_loom l lm w = w\<lparr>looms := (looms w)(l := lm)\<rparr>"

lemma put_sel [simp]:
  "threads (put_thread t th w) = (threads w)(t := th)" "cpus (put_thread t th w) = cpus w"
  "procs (put_thread t th w) = procs w" "looms (put_thread t th w) = looms w"
  "threads (put_cpu c cp w) = threads w" "cpus (put_cpu c cp w) = (cpus w)(c := cp)"
  "procs (put_cpu c cp w) = procs w" "looms (put_cpu c cp w) = looms w"
  "threads (put_proc p pr w) = threads w" "cpus (put_proc p pr w) = cpus w"
  "procs (put_proc p pr w) = (procs w)(p := pr)" "looms (put_proc p pr w) = looms w"
  "threads (put_loom l lm w) = threads w" "cpus (put_loom l lm w) = cpus w"
  "procs (put_loom l lm w) = procs w" "looms (put_loom l lm w) = (looms w)(l := lm)"
  by (simp_all add: put_thread_def put_cpu_def put_proc_def put_loom_def)

subsection \<open>CPUs\<close>

definition cpu_init_begin :: "int \<Rightarrow> int \<Rightarrow> bool \<Rightarrow> cpu" where
  "cpu_init_begin index phyid is_virtual =
     \<lparr>cp_gindex = -1, cp_is_init = False, cp_index = index, cp_phyid = phyid, cp_loom = None,
      cp_nthreads = 0, cp_nth_running = 0, cp_nth_active = 0, cp_threads = [], cp_th_running = None,
      cp_th_active = None, cp_is_virtual = is_virtual\<rparr>"

definition cpu_set_loom :: "nat \<Rightarrow> nat \<Rightarrow> 'x sys_bay_scheme \<Rightarrow> 'x sys_bay_scheme" where
  "cpu_set_loom c l w = put_cpu c ((cpus w c)\<lparr>cp_loom := Some l\<rparr>) w"

subsection \<open>Processes\<close>

definition proc_init_begin :: "int \<Rightarrow> proc" where
  "proc_init_begin pid =
     \<lparr>pr_gindex = -1, pr_is_init = False, pr_pid = pid, pr_appid = 0, pr_rank = -1, pr_nranks = 0,
      pr_nthreads = 0, pr_threads = [], pr_loom = None\<rparr>"

definition load_appid :: "int option \<Rightarrow> proc \<Rightarrow> proc res" where
  "load_appid app_id pr =
     (case app_id of
        None \<Rightarrow> Inr pr
      | Some appid \<Rightarrow>
          if pr_appid pr \<noteq> 0 \<and> pr_appid pr \<noteq> appid then Inl (EProc ProcAppidMismatch)
          else if appid \<le> 0 then Inl (EProc ProcAppidNotPositive)
          else Inr (pr\<lparr>pr_appid := appid\<rparr>))"

definition load_rank :: "int option \<Rightarrow> int option \<Rightarrow> proc \<Rightarrow> proc res" where
  "load_rank rank_val nranks_val pr =
     (case rank_val of
        None \<Rightarrow> Inr pr
      | Some rank \<Rightarrow>
          if rank < 0 then Inl (EProc ProcRankNegative)
          else if pr_rank pr \<ge> 0 \<and> pr_rank pr \<noteq> rank then Inl (EProc ProcRankMismatch)
          else (case nranks_val of
                  None \<Rightarrow> Inl (EProc ProcNranksMissing)
                | Some nranks \<Rightarrow>
                    if nranks \<le> 0 then Inl (EProc ProcNranksNotPositive)
                    else if pr_nranks pr > 0 \<and> pr_nranks pr \<noteq> nranks then Inl (EProc ProcNranksMismatch)
                    else if rank \<ge> nranks then Inl (EProc ProcRankBounds)
                    else Inr (pr\<lparr>pr_rank := rank, pr_nranks := nranks\<rparr>)))"

definition proc_load_metadata :: "int option \<Rightarrow> int option \<Rightarrow> int option \<Rightarrow> proc \<Rightarrow> proc res" where
  "proc_load_metadata app_id rank_val nranks_val pr =
     rbind (load_appid app_id pr) (load_rank rank_val nranks_val)"

definition proc_find_thread :: "nat \<Rightarrow> int \<Rightarrow> 'x sys_bay_scheme \<Rightarrow> nat option" where
  "proc_find_thread p tid w = find (\<lambda>t. th_tid (threads w t) = tid) (pr_threads (procs w p))"

definition proc_add_thread :: "nat \<Rightarrow> nat \<Rightarrow> 'x sys_bay_scheme \<Rightarrow> 'x sys_bay_scheme res" where
  "proc_add_thread p t w =
     (let pr = procs w p in
      if pr_is_init pr then Inl (EProc ProcIsInit)
      else if proc_find_thread p (th_tid (threads w t)) w \<noteq> None then Inl (EProc ProcTidTaken)
      else Inr (put_thread t ((threads w t)\<lparr>th_proc := Some p\<rparr>)
             (put_proc p (pr\<lparr>pr_threads := pr_threads pr @ [t], pr_nthreads := pr_nthreads pr + 1\<rparr>) w)))"

definition proc_sort :: "nat \<Rightarrow> 'x sys_bay_scheme \<Rightarrow> 'x sys_bay_scheme" where
  "proc_sort p w =
     (let pr = procs w p in
      put_proc p (pr\<lparr>pr_threads := sort_key (\<lambda>t. th_tid (threads w t)) (pr_threads pr)\<rparr>) w)"

definition proc_init_end :: "proc \<Rightarrow> proc res" where
  "proc_init_end pr =
     (if pr_gindex pr < 0 then Inl (EProc ProcGindexUnset)
      else if pr_appid pr \<le> 0 then Inl (EProc ProcAppidUnset)
      else Inr (pr\<lparr>pr_is_init := True\<rparr>))"

subsection \<open>Looms\<close>

text \<open>The name up to the first dot; the destination has room for \<^verbatim>\<open>PATH_MAX - 1\<close> characters.\<close>

definition set_hostname :: "string \<Rightarrow> string" where
  "set_hostname name = take (PATH_MAX - 1) (takeWhile (\<lambda>c. c \<noteq> CHR ''.'') name)"

definition loom_init_begin :: "nat \<Rightarrow> string \<Rightarrow> nat \<Rightarrow> 'x sys_bay_scheme \<Rightarrow> 'x sys_bay_scheme res" where
  "loom_init_begin l name vcpu w =
     (if CHR ''/'' \<in> set name then Inl (ELoom LoomNameSlash)
      else if length name \<ge> PATH_MAX then Inl (ELoom LoomNameTooLong)
      else Inr (cpu_set_loom vcpu l (put_cpu vcpu (cpu_init_begin (-1) (-1) True)
        (put_loom l \<lparr>lm_gindex = 0, lm_is_init = False, lm_name = name,
           lm_hostname = set_hostname name, lm_ncpus = 0, lm_rank_enabled = False,
           lm_rank_min = INT_MAX, lm_cpus = [], lm_cpus_array = None, lm_vcpu = vcpu,
           lm_nprocs = 0, lm_procs = [], lm_clock_offset = 0\<rparr> w))))"

definition loom_find_cpu :: "nat \<Rightarrow> int \<Rightarrow> 'x sys_bay_scheme \<Rightarrow> nat option" where
  "loom_find_cpu l phyid w =
     (if phyid = -1 then Some (lm_vcpu (looms w l))
      else find (\<lambda>c. cp_phyid (cpus w c) = phyid) (lm_cpus (looms w l)))"

definition loom_get_cpu :: "nat \<Rightarrow> int \<Rightarrow> 'x sys_bay_scheme \<Rightarrow> nat option res" where
  "loom_get_cpu l index w =
     (case lm_cpus_array (looms w l) of
        None \<Rightarrow> Inl (ELoom LoomArrayUnset)
      | Some arr \<Rightarrow>
          if index = -1 then Inr (Some (lm_vcpu (looms w l)))
          else if index < 0 \<or> index \<ge> int (lm_ncpus (looms w l)) then Inr None
          else Inr (arr ! nat index))"

definition loom_add_cpu :: "nat \<Rightarrow> nat \<Rightarrow> 'x sys_bay_scheme \<Rightarrow> 'x sys_bay_scheme res" where
  "loom_add_cpu l c w =
     (let lm = looms w l; phyid = cp_phyid (cpus w c) in
      if phyid < 0 then Inl (ELoom LoomPhyidNegative)
      else if loom_find_cpu l phyid w \<noteq> None then Inl (ELoom LoomPhyidTaken)
      else if lm_is_init lm then Inl (ELoom LoomIsInit)
      else Inr (cpu_set_loom c l
             (put_loom l (lm\<lparr>lm_cpus := lm_cpus lm @ [c], lm_ncpus := Suc (lm_ncpus lm)\<rparr>) w)))"

text \<open>One turn of the loop of \<^verbatim>\<open>load_cpus\<close>: \<open>index\<close> and \<open>phyid\<close> are the values of the array element and \<open>c\<close> the
  address \<^verbatim>\<open>calloc\<close> gives when the CPU is new.\<close>

definition load_cpu :: "nat \<Rightarrow> int \<times> int \<times> nat \<Rightarrow> 'x sys_bay_scheme \<Rightarrow> 'x sys_bay_scheme res" where
  "load_cpu l jcpu w =
     (case jcpu of (index, phyid, c) \<Rightarrow>
        if index < 0 then Inl (ELoom LoomCpuIndexNegative)
        else case loom_find_cpu l phyid w of
               Some cpu \<Rightarrow> if cp_index (cpus w cpu) \<noteq> index then Inl (ELoom LoomCpuIndexMismatch)
                           else Inr w
             | None \<Rightarrow> loom_add_cpu l c (put_cpu c (cpu_init_begin index phyid False) w))"

definition load_cpus ::
  "nat \<Rightarrow> (int \<times> int \<times> nat) list option \<Rightarrow> 'x sys_bay_scheme \<Rightarrow> 'x sys_bay_scheme res" where
  "load_cpus l cpuarray w =
     (case cpuarray of
        None \<Rightarrow> Inr w
      | Some js \<Rightarrow> if js = [] then Inl (ELoom LoomCpusEmpty) else foldr_res (load_cpu l) js w)"

definition loom_set_rank_min :: "nat \<Rightarrow> 'x sys_bay_scheme \<Rightarrow> 'x sys_bay_scheme res" where
  "loom_set_rank_min l w =
     (let lm = looms w l; ranks = map (\<lambda>p. pr_rank (procs w p)) (lm_procs lm);
          enabled = (lm_rank_enabled lm \<or> list_ex (\<lambda>r. r \<ge> 0) ranks) in
      if lm_rank_min lm \<noteq> INT_MAX then Inl (ELoom LoomRankMinSet)
      else if \<not> enabled then Inr w
      else if list_ex (\<lambda>r. r < 0) ranks then Inl (ELoom LoomRankMissing)
      else Inr (put_loom l (lm\<lparr>lm_rank_enabled := True, lm_rank_min := fold min ranks (lm_rank_min lm)\<rparr>) w))"

definition loom_sort :: "nat \<Rightarrow> 'x sys_bay_scheme \<Rightarrow> 'x sys_bay_scheme" where
  "loom_sort l w =
     (let lm = looms w l;
          key = (if lm_rank_enabled lm then (\<lambda>p. pr_rank (procs w p)) else (\<lambda>p. pr_pid (procs w p)));
          lm1 = lm\<lparr>lm_procs := sort_key key (lm_procs lm),
                   lm_cpus := sort_key (\<lambda>c. cp_phyid (cpus w c)) (lm_cpus lm)\<rparr>
      in fold proc_sort (lm_procs lm1) (put_loom l lm1 w))"

text \<open>The loop that fills \<^verbatim>\<open>cpus_array\<close>.\<close>

fun fill_cpus :: "(nat \<Rightarrow> int) \<Rightarrow> nat list \<Rightarrow> nat option list \<Rightarrow> nat option list res" where
  "fill_cpus ix [] arr = Inr arr"
| "fill_cpus ix (c # cs) arr =
     (if ix c < 0 \<or> ix c \<ge> int (length arr) then Inl (ELoom LoomCpuIndexBounds)
      else if arr ! nat (ix c) \<noteq> None then Inl (ELoom LoomCpuIndexTaken)
      else fill_cpus ix cs (arr[nat (ix c) := Some c]))"

definition loom_init_end :: "nat \<Rightarrow> 'x sys_bay_scheme \<Rightarrow> 'x sys_bay_scheme res" where
  "loom_init_end l w =
     (let lm = looms w l in
      if lm_rank_enabled lm \<and> lm_rank_min lm = INT_MAX then Inl (ELoom LoomRankMinUnset)
      else if lm_ncpus lm = 0 then Inl (ELoom LoomNoCpus)
      else if lm_nprocs lm = 0 then Inl (ELoom LoomNoProcs)
      else rbind (fill_cpus (\<lambda>c. cp_index (cpus w c)) (lm_cpus lm) (replicate (lm_ncpus lm) None)) (\<lambda>arr.
        Inr (put_loom l (lm\<lparr>lm_cpus_array := Some arr, lm_is_init := True\<rparr>) w)))"

definition loom_find_proc :: "nat \<Rightarrow> int \<Rightarrow> 'x sys_bay_scheme \<Rightarrow> nat option" where
  "loom_find_proc l pid w = find (\<lambda>p. pr_pid (procs w p) = pid) (lm_procs (looms w l))"

fun first_thread :: "nat list \<Rightarrow> int \<Rightarrow> 'x sys_bay_scheme \<Rightarrow> nat option" where
  "first_thread [] tid w = None"
| "first_thread (p # ps) tid w =
     (case proc_find_thread p tid w of Some t \<Rightarrow> Some t | None \<Rightarrow> first_thread ps tid w)"

definition loom_find_thread :: "nat \<Rightarrow> int \<Rightarrow> 'x sys_bay_scheme \<Rightarrow> nat option" where
  "loom_find_thread l tid w = first_thread (lm_procs (looms w l)) tid w"

definition loom_add_proc :: "nat \<Rightarrow> nat \<Rightarrow> 'x sys_bay_scheme \<Rightarrow> 'x sys_bay_scheme res" where
  "loom_add_proc l p w =
     (let lm = looms w l in
      if loom_find_proc l (pr_pid (procs w p)) w \<noteq> None then Inl (ELoom LoomPidTaken)
      else if lm_is_init lm then Inl (ELoom LoomIsInit)
      else Inr (put_proc p ((procs w p)\<lparr>pr_loom := Some l\<rparr>)
             (put_loom l (lm\<lparr>lm_procs := lm_procs lm @ [p], lm_nprocs := Suc (lm_nprocs lm)\<rparr>) w)))"

subsection \<open>The CPUs of a loom\<close>

text \<open>The counters of a loom are the lengths of its tables.\<close>

definition loom_wf :: "loom \<Rightarrow> bool" where
  "loom_wf lm \<longleftrightarrow> lm_ncpus lm = length (lm_cpus lm) \<and> lm_nprocs lm = length (lm_procs lm)"

lemma loom_init_begin_wf: "loom_init_begin l name v w = Inr w' \<Longrightarrow> loom_wf (looms w' l)"
  by (auto simp: loom_init_begin_def loom_wf_def cpu_set_loom_def split: if_splits)

lemma loom_add_cpu_wf: "loom_wf (looms w l) \<Longrightarrow> loom_add_cpu l c w = Inr w' \<Longrightarrow> loom_wf (looms w' l)"
  by (auto simp: loom_add_cpu_def loom_wf_def cpu_set_loom_def Let_def split: if_splits)

lemma loom_add_proc_wf: "loom_wf (looms w l) \<Longrightarrow> loom_add_proc l p w = Inr w' \<Longrightarrow> loom_wf (looms w' l)"
  by (auto simp: loom_add_proc_def loom_wf_def Let_def split: if_splits)

lemma load_cpus_wf:
  assumes "loom_wf (looms w l)" and "load_cpus l js w = Inr w'"
  shows "loom_wf (looms w' l)"
proof (cases js)
  case (Some xs)
  have one: "loom_wf (looms v' l)" if "loom_wf (looms v l)" "load_cpu l j v = Inr v'" for j and v v' :: "'a sys_bay_scheme"
    using that loom_add_cpu_wf [of "put_cpu _ _ v" l _ v']
    by (auto simp: load_cpu_def split: prod.splits if_splits option.splits)
  from Some assms(2) have "foldr_res (load_cpu l) xs w = Inr w'" by (auto simp: load_cpus_def split: if_splits)
  then show ?thesis using assms(1) one by (rule foldr_res_invar [where I = "\<lambda>v. loom_wf (looms v l)"])
qed (use assms in \<open>simp add: load_cpus_def\<close>)

text \<open>Filling the array: every CPU of the list lands in its own slot, and no slot is used twice.\<close>

lemma fill_cpus_ok:
  assumes "fill_cpus ix cs arr = Inr arr'"
  shows "length arr' = length arr
    \<and> (\<forall>i < length arr. \<forall>c. arr' ! i = Some c \<longrightarrow> arr ! i = Some c \<or> c \<in> set cs \<and> ix c = int i)
    \<and> (\<forall>i < length arr. arr ! i \<noteq> None \<longrightarrow> arr' ! i = arr ! i)
    \<and> card {i. i < length arr \<and> arr' ! i \<noteq> None} = card {i. i < length arr \<and> arr ! i \<noteq> None} + length cs"
  using assms
proof (induction cs arbitrary: arr)
  case (Cons c cs)
  let ?i = "nat (ix c)"
  let ?arr = "arr[?i := Some c]"
  have i: "0 \<le> ix c" "?i < length arr" "arr ! ?i = None" and rest: "fill_cpus ix cs ?arr = Inr arr'"
    using Cons.prems by (auto split: if_splits)
  have "{i. i < length arr \<and> ?arr ! i \<noteq> None} = insert ?i {i. i < length arr \<and> arr ! i \<noteq> None}"
    using i(2) by (auto simp: nth_list_update)
  then have "card {i. i < length arr \<and> ?arr ! i \<noteq> None} = Suc (card {i. i < length arr \<and> arr ! i \<noteq> None})"
    using i(3) by simp
  moreover have "arr ! j = Some d \<or> d \<in> set (c # cs) \<and> ix d = int j"
    if "j < length arr" "arr' ! j = Some d" for j d
    using Cons.IH [OF rest] that i by (auto simp: nth_list_update split: if_splits)
  moreover have "arr' ! j = arr ! j" if "j < length arr" "arr ! j \<noteq> None" for j
    using Cons.IH [OF rest] that i by (auto simp: nth_list_update)
  ultimately show ?case using Cons.IH [OF rest] by auto
qed simp

text \<open>Once a loom is initialized, every logical index below its number of CPUs gives a CPU of the loom that
  has that index, the index -1 gives the virtual CPU and every other index none: the array has no hole, although
  the indices come from the metadata of the streams.\<close>

theorem loom_get_cpu_total:
  assumes wf: "loom_wf (looms w l)" and ok: "loom_init_end l w = Inr w'"
  shows "if index = -1 then loom_get_cpu l index w' = Inr (Some (lm_vcpu (looms w l)))
    else if 0 \<le> index \<and> index < int (length (lm_cpus (looms w l)))
    then \<exists>c \<in> set (lm_cpus (looms w l)). loom_get_cpu l index w' = Inr (Some c) \<and> cp_index (cpus w c) = index
    else loom_get_cpu l index w' = Inr None"
proof -
  let ?lm = "looms w l"
  let ?n = "length (lm_cpus ?lm)"
  let ?ix = "\<lambda>c. cp_index (cpus w c)"
  obtain arr where fill: "fill_cpus ?ix (lm_cpus ?lm) (replicate ?n None) = Inr arr"
    and w': "w' = put_loom l (?lm\<lparr>lm_cpus_array := Some arr, lm_is_init := True\<rparr>) w"
    using ok wf by (auto simp: loom_init_end_def loom_wf_def Let_def split: if_splits)
  note f = fill_cpus_ok [OF fill]
  have none: "{i. i < ?n \<and> replicate ?n None ! i \<noteq> None} = {}" by auto
  have all: "{i. i < ?n \<and> arr ! i \<noteq> None} = {..<?n}"
    by (rule card_subset_eq) (use f none in auto)
  have slot: "\<exists>c \<in> set (lm_cpus ?lm). arr ! i = Some c \<and> ?ix c = int i" if "i < ?n" for i
  proof -
    from all that obtain c where "arr ! i = Some c" by auto
    with f that show ?thesis by (auto simp: dest!: spec [of _ i])
  qed
  from wf slot [of "nat index"] show ?thesis
    by (auto simp: loom_get_cpu_def w' loom_wf_def)
qed

definition demo_sys0 :: sys_bay where
  "demo_sys0 = bay.extend (bay.truncate demo_bay0)
     \<lparr>muxes = muxes demo_bay0, sorts = (\<lambda>_. \<lparr>so_n = 0, so_inputs = [], so_values = [], so_sorted = [],
        so_copied = False\<rparr>), prvs = (\<lambda>_. prv_open_file 1),
      threads = (\<lambda>_. \<lparr>th_gindex = -1, th_is_init = False, th_tid = 0, th_proc = None, th_state = TH_ST_UNKNOWN,
        th_is_running = False, th_is_active = False, th_is_out_of_cpu = False, th_cpu = None, th_meta = False\<rparr>),
      cpus = (\<lambda>_. cpu_init_begin 0 0 False), procs = (\<lambda>_. proc_init_begin 1),
      looms = (\<lambda>_. \<lparr>lm_gindex = 0, lm_is_init = False, lm_name = [], lm_hostname = [], lm_ncpus = 0,
        lm_rank_enabled = False, lm_rank_min = INT_MAX, lm_cpus = [], lm_cpus_array = None, lm_vcpu = 0,
        lm_nprocs = 0, lm_procs = [], lm_clock_offset = 0\<rparr>), rec_pvts = []\<rparr>"

text \<open>A loom with two CPUs, defined in the metadata in reverse order, and one process.\<close>

definition demo_loom :: "sys_bay res" where
  "demo_loom =
     rbind (loom_init_begin 0 ''node.1'' 9 demo_sys0) (\<lambda>w.
     rbind (load_cpus 0 (Some [(1, 4, 5), (0, 7, 6)]) w) (\<lambda>w.
     loom_add_proc 0 0 w))"

lemma demo_loom_wf: "demo_loom = Inr w \<Longrightarrow> loom_wf (looms w 0)"
  unfolding demo_loom_def rbind_eq_Inr
  by (blast intro: loom_add_proc_wf load_cpus_wf loom_init_begin_wf)

theorem loom_get_cpu_total_witness:
  "\<exists>w w' c. demo_loom = Inr w \<and> loom_init_end 0 w = Inr w' \<and> loom_get_cpu 0 1 w' = Inr (Some c)
     \<and> cp_index (cpus w c) = 1"
proof -
  have "res_get (\<lambda>w. (res_get (\<lambda>_. ()) (loom_init_end 0 w), length (lm_cpus (looms w 0)))) demo_loom
      = Some (Some (), 2)"
    by code_simp
  then obtain w w' where w: "demo_loom = Inr w" "loom_init_end 0 w = Inr w'" "length (lm_cpus (looms w 0)) = 2"
    by (auto simp: res_get_Some)
  from loom_get_cpu_total [OF demo_loom_wf [OF w(1)] w(2), of 1] w show ?thesis by auto
qed

end
