(* ===== verification/Thread.thy ===== *)
theory Thread
  imports Loom
begin

text \<open>
  Threads: \<^verbatim>\<open>src/emu/thread.c\<close>, and the recorder of the traces, \<^verbatim>\<open>src/emu/recorder.c\<close>.

  The channels of the thread at address \<open>t\<close> are at \<open>ThreadChan t i\<close>. The conversion of an \<^verbatim>\<open>int64_t\<close> to
  \<^verbatim>\<open>enum thread_state\<close> keeps the low 32 bits.
\<close>

subsection \<open>The recorder\<close>

definition recorder_find_pvt :: "string \<Rightarrow> 'x sys_bay_scheme \<Rightarrow> nat option" where
  "recorder_find_pvt name w = map_of (rec_pvts w) name"

text \<open>\<open>k\<close> is the address of the new trace.\<close>

definition recorder_add_pvt :: "string \<Rightarrow> nat \<Rightarrow> int \<Rightarrow> 'x sys_bay_scheme \<Rightarrow> 'x sys_bay_scheme res" where
  "recorder_add_pvt name k nrows w =
     (if recorder_find_pvt name w \<noteq> None then Inl (EPrv PvtExists)
      else Inr ((prv_update k (prv_open_file nrows) w)\<lparr>rec_pvts := rec_pvts w @ [(name, k)]\<rparr>))"

definition recorder_advance :: "int \<Rightarrow> 'x sys_bay_scheme \<Rightarrow> 'x sys_bay_scheme res" where
  "recorder_advance time w =
     foldr_res (\<lambda>(_, k) v. rbind (prv_advance time (prvs v k)) (\<lambda>p. Inr (prv_update k p v))) (rec_pvts w) w"

definition recorder_finish :: "'x sys_bay_scheme \<Rightarrow> 'x sys_bay_scheme" where
  "recorder_finish w = fold (\<lambda>(_, k) v. prv_update k (prv_close (prvs v k)) v) (rec_pvts w) w"

text \<open>After a successful advance every trace of the recorder is at the new time.\<close>

lemma prv_update_rec [simp]: "rec_pvts (prv_update k p w) = rec_pvts w"
  by (simp add: prv_update_def)

lemma recorder_advance_time:
  assumes "recorder_advance t w = Inr w'" and "(name, k) \<in> set (rec_pvts w)"
  shows "pv_time (prvs w' k) = t"
proof -
  have "(\<forall>(n, k) \<in> set xs. pv_time (prvs v' k) = t) \<and> (\<forall>k. pv_time (prvs v k) = t \<longrightarrow> pv_time (prvs v' k) = t)"
    if "foldr_res (\<lambda>(_, k) v. rbind (prv_advance t (prvs v k)) (\<lambda>p. Inr (prv_update k p v))) xs v = Inr v'" for xs v v'
    using that
  proof (induction xs arbitrary: v)
    case (Cons x xs)
    obtain n k where x: "x = (n, k)" by (cases x)
    with Cons.prems obtain p where p: "prv_advance t (prvs v k) = Inr p"
      and rest: "foldr_res (\<lambda>(_, k) v. rbind (prv_advance t (prvs v k)) (\<lambda>p. Inr (prv_update k p v))) xs
          (prv_update k p v) = Inr v'"
      by auto
    have "pv_time p = t" using p by (auto simp: prv_advance_def split: if_splits)
    with Cons.IH [OF rest] x show ?case by (auto split: if_splits)
  qed simp
  with assms show ?thesis unfolding recorder_advance_def by blast
qed

subsection \<open>Names and values of the channels\<close>

definition TH_CHAN_CPU :: nat where "TH_CHAN_CPU = 0"
definition TH_CHAN_TID :: nat where "TH_CHAN_TID = 1"
definition TH_CHAN_STATE :: nat where "TH_CHAN_STATE = 2"
definition TH_CHAN_MAX :: nat where "TH_CHAN_MAX = 3"

lemmas th_chan_defs = TH_CHAN_CPU_def TH_CHAN_TID_def TH_CHAN_STATE_def TH_CHAN_MAX_def

fun th_st :: "thread_state \<Rightarrow> int" where
  "th_st TH_ST_UNKNOWN = 0"
| "th_st TH_ST_RUNNING = 1"
| "th_st TH_ST_PAUSED = 2"
| "th_st TH_ST_DEAD = 3"
| "th_st TH_ST_COOLING = 4"
| "th_st TH_ST_WARMING = 5"

definition th_chan_name :: "nat \<Rightarrow> string" where
  "th_chan_name i = (if i = TH_CHAN_CPU then ''cpu_gindex''
                     else if i = TH_CHAN_TID then ''tid_active'' else ''state'')"

definition th_chan_type :: "nat \<Rightarrow> int" where
  "th_chan_type i = (if i = TH_CHAN_CPU then 6 else if i = TH_CHAN_TID then 2 else 4)"

definition th_prv_flags :: "nat \<Rightarrow> prv_flag \<Rightarrow> bool" where
  "th_prv_flags i f = (if i = TH_CHAN_CPU then f = PRV_NEXT
                       else if i = TH_CHAN_STATE then f = PRV_SKIPDUP else False)"

subsection \<open>Operations\<close>

definition thread_init_begin :: "int \<Rightarrow> thread" where
  "thread_init_begin tid =
     \<lparr>th_gindex = -1, th_is_init = False, th_tid = tid, th_proc = None, th_state = TH_ST_UNKNOWN,
      th_is_running = False, th_is_active = False, th_is_out_of_cpu = False, th_cpu = None, th_meta = False\<rparr>"

definition thread_set_gindex :: "int \<Rightarrow> thread \<Rightarrow> thread" where
  "thread_set_gindex g th = th\<lparr>th_gindex := g\<rparr>"

text \<open>\<open>finished\<close> is whether the attribute \<^verbatim>\<open>ovni.finished\<close> is 1.\<close>

definition thread_load_metadata :: "bool \<Rightarrow> thread \<Rightarrow> thread res" where
  "thread_load_metadata finished th =
     (if th_meta th then Inl (EThread ThreadMetaLoaded)
      else if \<not> finished then Inl (EThread ThreadNotFinished)
      else Inr (th\<lparr>th_meta := True\<rparr>))"

definition thread_init_chan :: "nat \<Rightarrow> nat \<Rightarrow> 'x sys_bay_scheme \<Rightarrow> 'x sys_bay_scheme res" where
  "thread_init_chan t i w =
     rbind (chan_init CHAN_SINGLE (''thread'' @ dec (nat (th_gindex (threads w t))) @ ''.'' @ th_chan_name i))
       (\<lambda>ch. Inr (w\<lparr>bay_mem := (bay_mem w)(ThreadChan t i := ch)\<rparr>))"

definition thread_init_end :: "nat \<Rightarrow> 'x sys_bay_scheme \<Rightarrow> 'x sys_bay_scheme res" where
  "thread_init_end t w =
     (let th = threads w t in
      if th_gindex th < 0 then Inl (EThread ThreadGindexUnset)
      else if \<not> th_meta th then Inl (EThread ThreadMetaUnset)
      else rbind (foldr_res (thread_init_chan t) [0..<TH_CHAN_MAX] w) (\<lambda>w1.
        let c = ThreadChan t TH_CHAN_TID;
            w2 = w1\<lparr>bay_mem := (bay_mem w1)(c := chan_prop_set CHAN_IGNORE_DUP True (bay_mem w1 c))\<rparr>
        in Inr (put_thread t ((threads w2 t)\<lparr>th_is_init := True\<rparr>) w2)))"

definition thread_connect_chan :: "nat \<Rightarrow> nat \<Rightarrow> nat \<Rightarrow> 'x sys_bay_scheme \<Rightarrow> 'x sys_bay_scheme res" where
  "thread_connect_chan t k i w =
     rbind (bay_register (ThreadChan t i) w) (\<lambda>w1.
       prv_register k (th_gindex (threads w1 t)) (th_chan_type i) (ThreadChan t i) (th_prv_flags i) w1)"

definition thread_connect :: "nat \<Rightarrow> 'x sys_bay_scheme \<Rightarrow> 'x sys_bay_scheme res" where
  "thread_connect t w =
     (if \<not> th_is_init (threads w t) then Inl (EThread ThreadNotInit)
      else case recorder_find_pvt ''thread'' w of
             None \<Rightarrow> Inl (EThread ThreadNoPvt)
           | Some k \<Rightarrow> foldr_res (thread_connect_chan t k) [0..<TH_CHAN_MAX] w)"

definition th_state_active :: "thread_state \<Rightarrow> bool" where
  "th_state_active st \<longleftrightarrow> st = TH_ST_RUNNING \<or> st = TH_ST_COOLING \<or> st = TH_ST_WARMING"

definition thread_set_state :: "nat \<Rightarrow> thread_state \<Rightarrow> 'x sys_bay_scheme \<Rightarrow> 'x sys_bay_scheme res" where
  "thread_set_state t state w =
     (let th = threads w t in
      if th_cpu th = None then Inl (EThread ThreadNoCpu)
      else let th1 = th\<lparr>th_state := state, th_is_running := (state = TH_ST_RUNNING),
                        th_is_active := th_state_active state\<rparr>;
               tid_active = (if th_is_active th1 then VALUE_INT64 (th_tid th1) else VALUE_NULL) in
        rbind (chan_set_at (ThreadChan t TH_CHAN_STATE) (VALUE_INT64 (th_st state)) (put_thread t th1 w)) (\<lambda>w1.
          chan_set_at (ThreadChan t TH_CHAN_TID) tid_active w1))"

definition enum_of :: "int \<Rightarrow> int" where
  "enum_of i = i mod 2 ^ 32"

definition thread_select_active :: mux_select_func where
  "thread_select_active ninputs chans rd v =
     (case v of
        VALUE_NULL \<Rightarrow> Inr None
      | VALUE_DOUBLE _ \<Rightarrow> Inl (EMux MuxSelectType)
      | VALUE_INT64 i \<Rightarrow>
          if ninputs \<noteq> 1 then Inl (EMux MuxNotOneInput)
          else if enum_of i = th_st TH_ST_RUNNING \<or> enum_of i = th_st TH_ST_COOLING
                  \<or> enum_of i = th_st TH_ST_WARMING then Inr (Some 0)
          else Inr None)"

definition thread_select_running :: mux_select_func where
  "thread_select_running ninputs chans rd v =
     (case v of
        VALUE_NULL \<Rightarrow> Inr None
      | VALUE_DOUBLE _ \<Rightarrow> Inl (EMux MuxSelectType)
      | VALUE_INT64 i \<Rightarrow>
          if ninputs \<noteq> 1 then Inl (EMux MuxNotOneInput)
          else if enum_of i = th_st TH_ST_RUNNING then Inr (Some 0)
          else Inr None)"

definition thread_set_cpu :: "nat \<Rightarrow> nat option \<Rightarrow> 'x sys_bay_scheme \<Rightarrow> 'x sys_bay_scheme res" where
  "thread_set_cpu t cpu w =
     (case cpu of
        None \<Rightarrow> Inl (EThread ThreadCpuNull)
      | Some c \<Rightarrow>
          let th = threads w t in
          if th_cpu th \<noteq> None then Inl (EThread ThreadHasCpu)
          else chan_set_at (ThreadChan t TH_CHAN_CPU) (VALUE_INT64 (cp_gindex (cpus w c)))
                 (put_thread t (th\<lparr>th_cpu := Some c\<rparr>) w))"

definition thread_unset_cpu :: "nat \<Rightarrow> 'x sys_bay_scheme \<Rightarrow> 'x sys_bay_scheme res" where
  "thread_unset_cpu t w =
     (let th = threads w t in
      if th_cpu th = None then Inl (EThread ThreadNoCpu)
      else chan_set_at (ThreadChan t TH_CHAN_CPU) VALUE_NULL (put_thread t (th\<lparr>th_cpu := None\<rparr>) w))"

definition thread_migrate_cpu :: "nat \<Rightarrow> nat \<Rightarrow> 'x sys_bay_scheme \<Rightarrow> 'x sys_bay_scheme res" where
  "thread_migrate_cpu t c w =
     (let th = threads w t in
      if th_cpu th = None then Inl (EThread ThreadNoCpu)
      else chan_set_at (ThreadChan t TH_CHAN_CPU) (VALUE_INT64 (cp_gindex (cpus w c)))
             (put_thread t (th\<lparr>th_cpu := Some c\<rparr>) w))"

subsection \<open>What the operations do\<close>

text \<open>Channel operations change neither the system nor the traces.\<close>

lemma more_sys:
  fixes w :: "'x sys_bay_scheme"
  assumes "bay.more w' = bay.more w"
  shows "threads w' = threads w \<and> cpus w' = cpus w \<and> procs w' = procs w \<and> looms w' = looms w
    \<and> rec_pvts w' = rec_pvts w \<and> sys_bay.more w' = sys_bay.more w"
  using assms by (cases w rule: sys_bay.cases_scheme; cases w' rule: sys_bay.cases_scheme) simp

lemma chan_set_at_sys [frame]:
  fixes w :: "'x sys_bay_scheme"
  assumes "chan_set_at c v w = Inr w'"
  shows "threads w' = threads w" "cpus w' = cpus w" "procs w' = procs w" "looms w' = looms w"
    "sys_bay.more w' = sys_bay.more w"
  using more_sys [OF chan_set_at_more [OF assms]] by auto

lemma put_bay [simp]:
  "bay_wf (put_thread t th w) = bay_wf w" "bay_mem (put_thread t th w) = bay_mem w"
  "bay_wf (put_cpu c cp w) = bay_wf w" "bay_mem (put_cpu c cp w) = bay_mem w"
  "bay_state (put_thread t th w) = bay_state w" "bay_state (put_cpu c cp w) = bay_state w"
  by (simp_all add: put_thread_def put_cpu_def bay_wf_defs)

lemma thread_set_state_threads:
  assumes "thread_set_state t st w = Inr w'"
  shows "th_cpu (threads w t) \<noteq> None
    \<and> threads w' = (threads w)(t := (threads w t)\<lparr>th_state := st, th_is_running := (st = TH_ST_RUNNING),
        th_is_active := th_state_active st\<rparr>) \<and> cpus w' = cpus w \<and> procs w' = procs w \<and> looms w' = looms w"
  using assms by (auto simp: thread_set_state_def Let_def chan_set_at_sys split: if_splits)

lemma thread_cpu_threads:
  shows "thread_set_cpu t (Some c) w = Inr w' \<Longrightarrow> th_cpu (threads w t) = None
      \<and> threads w' = (threads w)(t := (threads w t)\<lparr>th_cpu := Some c\<rparr>) \<and> cpus w' = cpus w
      \<and> procs w' = procs w \<and> looms w' = looms w"
    and "thread_unset_cpu t w = Inr w' \<Longrightarrow> th_cpu (threads w t) \<noteq> None
      \<and> threads w' = (threads w)(t := (threads w t)\<lparr>th_cpu := None\<rparr>) \<and> cpus w' = cpus w
      \<and> procs w' = procs w \<and> looms w' = looms w"
    and "thread_migrate_cpu t c w = Inr w' \<Longrightarrow> th_cpu (threads w t) \<noteq> None
      \<and> threads w' = (threads w)(t := (threads w t)\<lparr>th_cpu := Some c\<rparr>) \<and> cpus w' = cpus w
      \<and> procs w' = procs w \<and> looms w' = looms w"
  by (auto simp: thread_set_cpu_def thread_unset_cpu_def thread_migrate_cpu_def Let_def chan_set_at_sys
      split: if_splits)

text \<open>The states a thread goes through as seen by the channels that follow it.\<close>

lemma enum_of_th_st [simp]: "enum_of (th_st st) = th_st st"
  by (cases st) (simp_all add: enum_of_def)

lemma th_st_inj [simp]: "th_st a = th_st b \<longleftrightarrow> a = b"
  by (cases a; cases b) simp_all

text \<open>When the state of a thread is set on clean channels, its state channel reads as the state, its TID channel
  as the TID while the thread is active and null otherwise, and the selection functions of the tracking
  multiplexers pick the tracked channel exactly when the thread is running, or active.\<close>

theorem thread_set_state_tracking:
  assumes wf: "bay_wf w" and ok: "thread_set_state t st w = Inr w'"
    and clean: "\<not> ch_is_dirty (bay_mem w (ThreadChan t TH_CHAN_STATE))"
      "\<not> ch_is_dirty (bay_mem w (ThreadChan t TH_CHAN_TID))"
  shows "chan_read_at (ThreadChan t TH_CHAN_STATE) w' = VALUE_INT64 (th_st st)
    \<and> chan_read_at (ThreadChan t TH_CHAN_TID) w' =
        (if th_state_active st then VALUE_INT64 (th_tid (threads w t)) else VALUE_NULL)
    \<and> thread_select_running 1 chans rd (chan_read_at (ThreadChan t TH_CHAN_STATE) w') =
        Inr (if th_is_running (threads w' t) then Some 0 else None)
    \<and> thread_select_active 1 chans rd (chan_read_at (ThreadChan t TH_CHAN_STATE) w') =
        Inr (if th_is_active (threads w' t) then Some 0 else None)"
proof -
  let ?S = "ThreadChan t TH_CHAN_STATE" and ?T = "ThreadChan t TH_CHAN_TID"
  let ?th = "(threads w t)\<lparr>th_state := st, th_is_running := (st = TH_ST_RUNNING),
                        th_is_active := th_state_active st\<rparr>"
  let ?v = "if th_state_active st then VALUE_INT64 (th_tid (threads w t)) else VALUE_NULL"
  obtain w1 where 1: "chan_set_at ?S (VALUE_INT64 (th_st st)) (put_thread t ?th w) = Inr w1"
    and 2: "chan_set_at ?T ?v w1 = Inr w'"
    using ok by (auto simp: thread_set_state_def Let_def split: if_splits)
  have wf0: "bay_wf (put_thread t ?th w)" using wf by simp
  note b1 = chan_set_at_write [OF wf0 1]
  have wf1: "bay_wf w1" using bay_write_step [OF b1] by (rule bay_step_wf)
  note b2 = chan_set_at_write [OF wf1 2]
  have ne: "?S \<noteq> ?T" by (simp add: th_chan_defs)
  have s1: "chan_read_at ?S w1 = VALUE_INT64 (th_st st)"
    using chan_set_at_value_clean [OF wf0 _ 1] clean(1) by simp
  have "bay_mem w' ?S = bay_mem w1 ?S" using b2 ne by (simp add: bay_write_def)
  then have S: "chan_read_at ?S w' = VALUE_INT64 (th_st st)" using s1 by simp
  have "bay_mem w1 ?T = bay_mem w ?T" using b1 ne by (simp add: bay_write_def)
  then have T: "chan_read_at ?T w' = ?v"
    using chan_set_at_value_clean [OF wf1 _ 2] clean(2) by simp
  have "threads w' t = ?th" using thread_set_state_threads [OF ok] by simp
  with S T show ?thesis
    using th_st_inj [of st TH_ST_RUNNING] th_st_inj [of st TH_ST_COOLING] th_st_inj [of st TH_ST_WARMING]
    by (simp add: thread_select_running_def thread_select_active_def th_state_active_def)
qed


lemma demo_sys0_wf: "bay_wf demo_sys0"
  by (auto simp: demo_sys0_def demo_bay0_def bay_init_def bay_wf_defs chan_wf_def chan_read_def demo_chan_def
      bay.defs)

definition demo_thread :: sys_bay where
  "demo_thread = put_thread 0 ((thread_init_begin 55)\<lparr>th_cpu := Some 1\<rparr>) demo_sys0"

theorem thread_set_state_tracking_witness:
  "\<exists>w'. thread_set_state 0 TH_ST_COOLING demo_thread = Inr w'
     \<and> chan_read_at (ThreadChan 0 TH_CHAN_TID) w' = VALUE_INT64 55"
proof -
  have wf: "bay_wf demo_thread" using demo_sys0_wf by (simp add: demo_thread_def)
  have "res_get (\<lambda>_. ()) (thread_set_state 0 TH_ST_COOLING demo_thread) = Some ()" by code_simp
  then obtain w' where w': "thread_set_state 0 TH_ST_COOLING demo_thread = Inr w'"
    by (auto simp: res_get_Some)
  have clean: "\<not> ch_is_dirty (bay_mem demo_thread (ThreadChan 0 TH_CHAN_STATE))"
    "\<not> ch_is_dirty (bay_mem demo_thread (ThreadChan 0 TH_CHAN_TID))" "th_tid (threads demo_thread 0) = 55"
    by code_simp+
  from thread_set_state_tracking [OF wf w' clean(1,2)] w' clean(3) show ?thesis
    by (simp add: th_state_active_def)
qed

end
