(* ===== verification/Cpu.thy ===== *)
theory Cpu
  imports Thread
begin

text \<open>
  CPUs: \<^verbatim>\<open>src/emu/cpu.c\<close>.

  The channels of the CPU at address \<open>c\<close> are at \<open>CpuChan c i\<close>. The list of threads of a CPU holds the
  addresses of the threads in the order they were added.
\<close>

subsection \<open>Names and values of the channels\<close>

definition CPU_CHAN_NRUN :: nat where "CPU_CHAN_NRUN = 0"
definition CPU_CHAN_PID :: nat where "CPU_CHAN_PID = 1"
definition CPU_CHAN_TID :: nat where "CPU_CHAN_TID = 2"
definition CPU_CHAN_THRUN :: nat where "CPU_CHAN_THRUN = 3"
definition CPU_CHAN_THACT :: nat where "CPU_CHAN_THACT = 4"
definition CPU_CHAN_MAX :: nat where "CPU_CHAN_MAX = 5"

lemmas cpu_chan_defs = CPU_CHAN_NRUN_def CPU_CHAN_PID_def CPU_CHAN_TID_def CPU_CHAN_THRUN_def
  CPU_CHAN_THACT_def CPU_CHAN_MAX_def

definition cpu_chan_name :: "nat \<Rightarrow> string" where
  "cpu_chan_name i = (if i = CPU_CHAN_NRUN then ''nrunning''
                      else if i = CPU_CHAN_PID then ''pid_running''
                      else if i = CPU_CHAN_TID then ''tid_running''
                      else if i = CPU_CHAN_THRUN then ''th_running'' else ''th_active'')"

definition cpu_chan_type :: "nat \<Rightarrow> int" where
  "cpu_chan_type i = (if i = CPU_CHAN_PID then 1 else if i = CPU_CHAN_TID then 2
                      else if i = CPU_CHAN_NRUN then 3 else -1)"

definition cpu_prv_flags :: "nat \<Rightarrow> prv_flag \<Rightarrow> bool" where
  "cpu_prv_flags i f \<longleftrightarrow> i = CPU_CHAN_NRUN \<and> f = PRV_ZERO"

subsection \<open>Operations\<close>

definition cpu_init_chan :: "nat \<Rightarrow> nat \<Rightarrow> 'x sys_bay_scheme \<Rightarrow> 'x sys_bay_scheme res" where
  "cpu_init_chan c i w =
     rbind (chan_init CHAN_SINGLE (''cpu'' @ dec (nat (cp_gindex (cpus w c))) @ ''.'' @ cpu_chan_name i))
       (\<lambda>ch. Inr (w\<lparr>bay_mem := (bay_mem w)(CpuChan c i := ch)\<rparr>))"

text \<open>The name of the CPU, always shorter than \<^verbatim>\<open>PATH_MAX\<close>, is not modelled.\<close>

definition cpu_init_end :: "nat \<Rightarrow> 'x sys_bay_scheme \<Rightarrow> 'x sys_bay_scheme res" where
  "cpu_init_end c w =
     (let cp = cpus w c in
      if cp_gindex cp < 0 then Inl (ECpu CpuGindexUnset)
      else if cp_loom cp = None then Inl (ECpu CpuLoomUnset)
      else rbind (foldr_res (cpu_init_chan c) [0..<CPU_CHAN_MAX] w) (\<lambda>w1.
        let mem = fold (\<lambda>i m. m(CpuChan c i := chan_prop_set CHAN_IGNORE_DUP True (m (CpuChan c i))))
                    [CPU_CHAN_NRUN, CPU_CHAN_TID, CPU_CHAN_PID, CPU_CHAN_THRUN, CPU_CHAN_THACT]
                    (bay_mem w1)
        in Inr (put_cpu c ((cpus w1 c)\<lparr>cp_is_init := True\<rparr>) (w1\<lparr>bay_mem := mem\<rparr>))))"

definition cpu_connect_chan :: "nat \<Rightarrow> nat \<Rightarrow> nat \<Rightarrow> 'x sys_bay_scheme \<Rightarrow> 'x sys_bay_scheme res" where
  "cpu_connect_chan c k i w =
     rbind (bay_register (CpuChan c i) w) (\<lambda>w1.
       if cpu_chan_type i < 0 then Inr w1
       else prv_register k (cp_gindex (cpus w1 c)) (cpu_chan_type i) (CpuChan c i) (cpu_prv_flags i) w1)"

definition cpu_connect :: "nat \<Rightarrow> 'x sys_bay_scheme \<Rightarrow> 'x sys_bay_scheme res" where
  "cpu_connect c w =
     (if \<not> cp_is_init (cpus w c) then Inl (ECpu CpuNotInit)
      else case recorder_find_pvt ''cpu'' w of
             None \<Rightarrow> Inl (ECpu CpuNoPvt)
           | Some k \<Rightarrow> foldr_res (cpu_connect_chan c k) [0..<CPU_CHAN_MAX] w)"

definition find_thread :: "nat \<Rightarrow> nat \<Rightarrow> 'x sys_bay_scheme \<Rightarrow> nat option" where
  "find_thread c t w = find (\<lambda>p. p = t) (cp_threads (cpus w c))"

text \<open>The loop of \<^verbatim>\<open>cpu_update\<close>: the number of running and of active threads and the last of each.\<close>

record cpu_scan =
  sc_running :: nat
  sc_active :: nat
  sc_th_running :: "nat option"
  sc_th_active :: "nat option"

definition cpu_scan_step :: "(nat \<Rightarrow> thread) \<Rightarrow> nat \<Rightarrow> cpu_scan \<Rightarrow> cpu_scan" where
  "cpu_scan_step ths t s =
     (if th_state (ths t) = TH_ST_RUNNING
      then s\<lparr>sc_running := Suc (sc_running s), sc_active := Suc (sc_active s),
             sc_th_running := Some t, sc_th_active := Some t\<rparr>
      else if th_state (ths t) = TH_ST_COOLING \<or> th_state (ths t) = TH_ST_WARMING
      then s\<lparr>sc_active := Suc (sc_active s), sc_th_active := Some t\<rparr>
      else s)"

definition cpu_scan_threads :: "(nat \<Rightarrow> thread) \<Rightarrow> nat list \<Rightarrow> cpu_scan" where
  "cpu_scan_threads ths ts =
     fold (cpu_scan_step ths) ts
       \<lparr>sc_running = 0, sc_active = 0, sc_th_running = None, sc_th_active = None\<rparr>"

definition th_value :: "(thread \<Rightarrow> int) \<Rightarrow> nat option \<Rightarrow> 'x sys_bay_scheme \<Rightarrow> chval" where
  "th_value f t w = (case t of None \<Rightarrow> VALUE_NULL | Some t \<Rightarrow> VALUE_INT64 (f (threads w t)))"

text \<open>\<^verbatim>\<open>th->proc->pid\<close>; \<^verbatim>\<open>proc_add_thread\<close> sets the process of every thread of the system.\<close>

definition th_pid :: "'x sys_bay_scheme \<Rightarrow> thread \<Rightarrow> int" where
  "th_pid w th = (case th_proc th of None \<Rightarrow> 0 | Some p \<Rightarrow> pr_pid (procs w p))"

definition cpu_update :: "nat \<Rightarrow> 'x sys_bay_scheme \<Rightarrow> 'x sys_bay_scheme res" where
  "cpu_update c w =
     (let cp = cpus w c;
          s = cpu_scan_threads (threads w) (cp_threads cp);
          cp1 = cp\<lparr>cp_nth_running := sc_running s, cp_nth_active := sc_active s\<rparr> in
      if cp_nth_running cp1 > 1 \<and> \<not> cp_is_virtual cp1 then Inl (ECpu CpuOversubscribed)
      else let run = (if sc_running s = 1 then sc_th_running s else None);
               act = (if sc_active s = 1 then sc_th_active s else None);
               w1 = put_cpu c (cp1\<lparr>cp_th_running := run\<rparr>) w in
      rbind (chan_set_at (CpuChan c CPU_CHAN_TID) (th_value th_tid run w) w1) (\<lambda>w2.
      rbind (chan_set_at (CpuChan c CPU_CHAN_PID) (th_value (th_pid w) run w) w2) (\<lambda>w3.
      rbind (chan_set_at (CpuChan c CPU_CHAN_THRUN) (th_value th_gindex run w) w3) (\<lambda>w4.
      let w5 = put_cpu c ((cpus w4 c)\<lparr>cp_th_active := act\<rparr>) w4 in
      rbind (chan_set_at (CpuChan c CPU_CHAN_NRUN) (VALUE_INT64 (int (sc_running s))) w5) (\<lambda>w6.
      chan_set_at (CpuChan c CPU_CHAN_THACT) (th_value th_gindex act w) w6)))))"

definition cpu_add_thread :: "nat \<Rightarrow> nat \<Rightarrow> 'x sys_bay_scheme \<Rightarrow> 'x sys_bay_scheme res" where
  "cpu_add_thread c t w =
     (if find_thread c t w \<noteq> None then Inl (ECpu CpuThreadAssigned)
      else let cp = cpus w c in
        cpu_update c (put_cpu c (cp\<lparr>cp_threads := cp_threads cp @ [t], cp_nthreads := Suc (cp_nthreads cp)\<rparr>) w))"

definition cpu_remove_thread :: "nat \<Rightarrow> nat \<Rightarrow> 'x sys_bay_scheme \<Rightarrow> 'x sys_bay_scheme res" where
  "cpu_remove_thread c t w =
     (if find_thread c t w = None then Inl (ECpu CpuThreadMissing)
      else let cp = cpus w c in
        cpu_update c (put_cpu c (cp\<lparr>cp_threads := remove1 t (cp_threads cp), cp_nthreads := cp_nthreads cp - 1\<rparr>) w))"

definition cpu_migrate_thread :: "nat \<Rightarrow> nat \<Rightarrow> nat \<Rightarrow> 'x sys_bay_scheme \<Rightarrow> 'x sys_bay_scheme res" where
  "cpu_migrate_thread c t newcpu w = rbind (cpu_remove_thread c t w) (cpu_add_thread newcpu t)"

subsection \<open>The threads of a CPU\<close>

definition running_in :: "(nat \<Rightarrow> thread) \<Rightarrow> nat list \<Rightarrow> nat list" where
  "running_in ths ts = filter (\<lambda>t. th_state (ths t) = TH_ST_RUNNING) ts"

definition active_in :: "(nat \<Rightarrow> thread) \<Rightarrow> nat list \<Rightarrow> nat list" where
  "active_in ths ts = filter (\<lambda>t. th_state_active (th_state (ths t))) ts"

definition the_only :: "nat list \<Rightarrow> nat option" where
  "the_only xs = (case xs of [x] \<Rightarrow> Some x | _ \<Rightarrow> None)"

lemma cpu_scan_eq:
  "cpu_scan_threads ths ts =
     \<lparr>sc_running = length (running_in ths ts), sc_active = length (active_in ths ts),
      sc_th_running = (if running_in ths ts = [] then None else Some (last (running_in ths ts))),
      sc_th_active = (if active_in ths ts = [] then None else Some (last (active_in ths ts)))\<rparr>"
  by (induction ts rule: rev_induct)
    (auto simp: cpu_scan_threads_def cpu_scan_step_def running_in_def active_in_def th_state_active_def)

lemma the_only_last: "(if length xs = 1 then (if xs = [] then None else Some (last xs)) else None) = the_only xs"
  by (cases xs rule: list.exhaust [case_names Nil Cons]; cases "tl xs")
    (auto simp: the_only_def split: list.splits)

text \<open>The counters and pointers a CPU keeps of its threads.\<close>

definition cpu_counts :: "nat \<Rightarrow> 'x sys_bay_scheme \<Rightarrow> bool" where
  "cpu_counts c w \<longleftrightarrow>
     (let cp = cpus w c; run = running_in (threads w) (cp_threads cp); act = active_in (threads w) (cp_threads cp) in
      cp_nth_running cp = length run \<and> cp_nth_active cp = length act
      \<and> cp_th_running cp = the_only run \<and> cp_th_active cp = the_only act
      \<and> (\<not> cp_is_virtual cp \<longrightarrow> length run \<le> 1))"

lemma cpu_update_ok:
  assumes "cpu_update c w = Inr w'"
  shows "threads w' = threads w \<and> procs w' = procs w \<and> looms w' = looms w \<and> cpu_counts c w'
    \<and> (\<forall>d. d \<noteq> c \<longrightarrow> cpus w' d = cpus w d) \<and> cp_threads (cpus w' c) = cp_threads (cpus w c)
    \<and> cp_nthreads (cpus w' c) = cp_nthreads (cpus w c)
    \<and> cp_gindex (cpus w' c) = cp_gindex (cpus w c) \<and> cp_is_virtual (cpus w' c) = cp_is_virtual (cpus w c)
    \<and> cp_loom (cpus w' c) = cp_loom (cpus w c) \<and> cp_index (cpus w' c) = cp_index (cpus w c)"
proof -
  let ?run = "running_in (threads w) (cp_threads (cpus w c))"
  let ?act = "active_in (threads w) (cp_threads (cpus w c))"
  let ?cp = "(cpus w c)\<lparr>cp_nth_running := length ?run, cp_nth_active := length ?act,
      cp_th_running := the_only ?run, cp_th_active := the_only ?act\<rparr>"
  have "threads w' = threads w \<and> procs w' = procs w \<and> looms w' = looms w \<and> cpus w' = (cpus w)(c := ?cp)
    \<and> (\<not> cp_is_virtual (cpus w c) \<longrightarrow> length ?run \<le> 1)"
    using assms the_only_last [of ?run] the_only_last [of ?act]
    by (auto simp: cpu_update_def cpu_scan_eq Let_def chan_set_at_sys split: if_splits)
  then show ?thesis by (simp add: cpu_counts_def Let_def)
qed

lemma chan_set_at_other: "chan_set_at c v w = Inr w' \<Longrightarrow> d \<noteq> c \<Longrightarrow> bay_mem w' d = bay_mem w d"
  by (auto simp: chan_set_at_def chan_set_def set_dirty_def put_chan_def cb_chan_is_dirty_def Let_def
      split: if_splits)

lemma chan_set_at_bay: "bay_wf w \<Longrightarrow> chan_set_at c v w = Inr w' \<Longrightarrow> bay_wf w'"
  using chan_set_at_write bay_write_step bay_step_wf by blast

lemma chan_set_at_keeps: "chan_set_at c v w = Inr w' \<Longrightarrow> bay_wf w \<longrightarrow> bay_wf w'"
  using chan_set_at_bay by blast

lemma cpu_update_bay: "cpu_update c w = Inr w' \<Longrightarrow> bay_wf w \<longrightarrow> bay_wf w'"
  by (auto simp: cpu_update_def Let_def split: if_splits dest!: chan_set_at_keeps)

text \<open>C25. The channels of a CPU tell what its threads do: after \<^verbatim>\<open>cpu_update\<close> on clean channels the number channel
  reads as the number of running threads of the CPU, and the TID, PID and thread channels name the running
  (or active) thread when there is exactly one and are null otherwise. It fails on a physical CPU with more
  than one running thread.\<close>

theorem cpu_update_channels:
  assumes wf: "bay_wf w" and ok: "cpu_update c w = Inr w'"
    and clean: "\<And>i. i < CPU_CHAN_MAX \<Longrightarrow> \<not> ch_is_dirty (bay_mem w (CpuChan c i))"
  shows "let run = running_in (threads w) (cp_threads (cpus w c));
             act = active_in (threads w) (cp_threads (cpus w c)) in
    (cp_is_virtual (cpus w c) \<or> length run \<le> 1)
    \<and> chan_read_at (CpuChan c CPU_CHAN_NRUN) w' = VALUE_INT64 (int (length run))
    \<and> chan_read_at (CpuChan c CPU_CHAN_TID) w' = th_value th_tid (the_only run) w
    \<and> chan_read_at (CpuChan c CPU_CHAN_PID) w' = th_value (th_pid w) (the_only run) w
    \<and> chan_read_at (CpuChan c CPU_CHAN_THRUN) w' = th_value th_gindex (the_only run) w
    \<and> chan_read_at (CpuChan c CPU_CHAN_THACT) w' = th_value th_gindex (the_only act) w"
proof -
  let ?run = "running_in (threads w) (cp_threads (cpus w c))"
  let ?act = "active_in (threads w) (cp_threads (cpus w c))"
  let ?cp = "(cpus w c)\<lparr>cp_nth_running := length ?run, cp_nth_active := length ?act,
      cp_th_running := the_only ?run\<rparr>"
  let ?C = "CpuChan c"
  obtain w2 w3 w4 w6 where
    s2: "chan_set_at (?C CPU_CHAN_TID) (th_value th_tid (the_only ?run) w) (put_cpu c ?cp w) = Inr w2"
    and s3: "chan_set_at (?C CPU_CHAN_PID) (th_value (th_pid w) (the_only ?run) w) w2 = Inr w3"
    and s4: "chan_set_at (?C CPU_CHAN_THRUN) (th_value th_gindex (the_only ?run) w) w3 = Inr w4"
    and s6: "chan_set_at (?C CPU_CHAN_NRUN) (VALUE_INT64 (int (length ?run)))
        (put_cpu c ((cpus w4 c)\<lparr>cp_th_active := the_only ?act\<rparr>) w4) = Inr w6"
    and s7: "chan_set_at (?C CPU_CHAN_THACT) (th_value th_gindex (the_only ?act) w) w6 = Inr w'"
    and phys: "cp_is_virtual (cpus w c) \<or> length ?run \<le> 1"
    using ok the_only_last [of ?run] the_only_last [of ?act]
    by (auto simp: cpu_update_def cpu_scan_eq Let_def split: if_splits)
  have wf2: "bay_wf w2" using chan_set_at_bay [OF _ s2] wf by simp
  have wf3: "bay_wf w3" using chan_set_at_bay [OF wf2 s3] .
  have wf4: "bay_wf w4" using chan_set_at_bay [OF wf3 s4] .
  have wf6: "bay_wf w6" using chan_set_at_bay [OF _ s6] wf4 by simp
  note o2 = chan_set_at_other [OF s2] and o3 = chan_set_at_other [OF s3] and o4 = chan_set_at_other [OF s4]
    and o6 = chan_set_at_other [OF s6] and o7 = chan_set_at_other [OF s7]
  have cl: "\<not> ch_is_dirty (bay_mem w (?C CPU_CHAN_TID))" "\<not> ch_is_dirty (bay_mem w (?C CPU_CHAN_PID))"
    "\<not> ch_is_dirty (bay_mem w (?C CPU_CHAN_THRUN))" "\<not> ch_is_dirty (bay_mem w (?C CPU_CHAN_NRUN))"
    "\<not> ch_is_dirty (bay_mem w (?C CPU_CHAN_THACT))"
    by (rule clean, simp add: cpu_chan_defs)+
  have "chan_read_at (?C CPU_CHAN_TID) w2 = th_value th_tid (the_only ?run) w"
    using chan_set_at_value_clean [OF _ _ s2] wf cl(1) by simp
  moreover have "chan_read_at (?C CPU_CHAN_PID) w3 = th_value (th_pid w) (the_only ?run) w"
    using chan_set_at_value_clean [OF wf2 _ s3] cl(2) o2 by (simp add: cpu_chan_defs)
  moreover have "chan_read_at (?C CPU_CHAN_THRUN) w4 = th_value th_gindex (the_only ?run) w"
    using chan_set_at_value_clean [OF wf3 _ s4] cl(3) o2 o3 by (simp add: cpu_chan_defs)
  moreover have "chan_read_at (?C CPU_CHAN_NRUN) w6 = VALUE_INT64 (int (length ?run))"
    using chan_set_at_value_clean [OF _ _ s6] wf4 cl(4) o2 o3 o4 by (simp add: cpu_chan_defs)
  moreover have "chan_read_at (?C CPU_CHAN_THACT) w' = th_value th_gindex (the_only ?act) w"
    using chan_set_at_value_clean [OF wf6 _ s7] cl(5) o2 o3 o4 o6 by (simp add: cpu_chan_defs)
  ultimately show ?thesis
    using phys o3 o4 o6 o7 by (simp add: Let_def cpu_chan_defs)
qed

text \<open>A physical CPU with a running and a cooling thread; every channel has the property CPU channels get.\<close>

definition demo_sys1 :: sys_bay where
  "demo_sys1 = demo_sys0\<lparr>bay_mem := (\<lambda>c. chan_prop_set CHAN_IGNORE_DUP True (bay_mem demo_sys0 c))\<rparr>"

lemma demo_sys1_wf: "bay_wf demo_sys1"
  by (auto simp: demo_sys1_def demo_sys0_def demo_bay0_def bay_init_def bay_wf_defs chan_wf_def chan_read_def
      demo_chan_def chan_prop_set_def bay.defs)

definition demo_cpu :: sys_bay where
  "demo_cpu = put_cpu 1 ((cpu_init_begin 0 3 False)\<lparr>cp_threads := [0, 2], cp_nthreads := 2\<rparr>)
     (put_thread 2 ((thread_init_begin 56)\<lparr>th_cpu := Some 1, th_state := TH_ST_COOLING\<rparr>)
     (put_thread 0 ((thread_init_begin 55)\<lparr>th_cpu := Some 1, th_state := TH_ST_RUNNING\<rparr>) demo_sys1))"

theorem cpu_update_channels_witness:
  "\<exists>w'. cpu_update 1 demo_cpu = Inr w' \<and> chan_read_at (CpuChan 1 CPU_CHAN_NRUN) w' = VALUE_INT64 (int (length [0 :: nat]))
     \<and> chan_read_at (CpuChan 1 CPU_CHAN_TID) w' = VALUE_INT64 55
     \<and> chan_read_at (CpuChan 1 CPU_CHAN_THACT) w' = VALUE_NULL"
proof -
  have wf: "bay_wf demo_cpu" using demo_sys1_wf by (simp add: demo_cpu_def)
  have "res_get (\<lambda>_. ()) (cpu_update 1 demo_cpu) = Some ()" by code_simp
  then obtain w' where w': "cpu_update 1 demo_cpu = Inr w'" by (auto simp: res_get_Some)
  have "\<forall>i \<in> {..<CPU_CHAN_MAX}. \<not> ch_is_dirty (bay_mem demo_cpu (CpuChan 1 i))"
    by (simp add: demo_cpu_def demo_sys1_def chan_prop_set_def demo_sys0_def demo_bay0_def bay_init_def demo_chan_def bay.defs)
  then have "\<not> ch_is_dirty (bay_mem demo_cpu (CpuChan 1 i))" if "i < CPU_CHAN_MAX" for i using that by blast
  note u = cpu_update_channels [OF wf w' this, unfolded Let_def]
  moreover have "running_in (threads demo_cpu) (cp_threads (cpus demo_cpu 1)) = [0]"
    "active_in (threads demo_cpu) (cp_threads (cpus demo_cpu 1)) = [0, 2]" "th_tid (threads demo_cpu 0) = 55"
    by code_simp+
  ultimately show ?thesis using w' by (auto simp only: the_only_def th_value_def list.case option.case list.size)
qed

subsection \<open>The invariant of threads and CPUs\<close>

text \<open>A thread is in the list of a CPU exactly when the CPU is the one the thread is assigned to, once; it is
  assigned to one from its first execution until it ends. The flags of a thread follow its state, and the
  counters of a CPU its list.\<close>

definition thread_ok :: "thread \<Rightarrow> bool" where
  "thread_ok th \<longleftrightarrow> th_is_running th = (th_state th = TH_ST_RUNNING)
     \<and> th_is_active th = th_state_active (th_state th)
     \<and> (th_cpu th = None \<longleftrightarrow> th_state th = TH_ST_UNKNOWN \<or> th_state th = TH_ST_DEAD)"

definition cpu_lists :: "'x sys_bay_scheme \<Rightarrow> bool" where
  "cpu_lists w \<longleftrightarrow> (\<forall>c. distinct (cp_threads (cpus w c)) \<and> cp_nthreads (cpus w c) = length (cp_threads (cpus w c)))
     \<and> (\<forall>c t. t \<in> set (cp_threads (cpus w c)) \<longleftrightarrow> th_cpu (threads w t) = Some c)"

definition sys_wf :: "'x sys_bay_scheme \<Rightarrow> bool" where
  "sys_wf w \<longleftrightarrow> cpu_lists w \<and> (\<forall>t. thread_ok (threads w t)) \<and> (\<forall>c. cpu_counts c w)"

lemma cpu_counts_cong:
  assumes "cpus w' c = cpus w c"
    and "\<And>t. t \<in> set (cp_threads (cpus w c)) \<Longrightarrow> th_state (threads w' t) = th_state (threads w t)"
  shows "cpu_counts c w' = cpu_counts c w"
proof -
  have "running_in (threads w') (cp_threads (cpus w c)) = running_in (threads w) (cp_threads (cpus w c))"
    "active_in (threads w') (cp_threads (cpus w c)) = active_in (threads w) (cp_threads (cpus w c))"
    using assms(2) by (auto simp: running_in_def active_in_def intro!: filter_cong)
  with assms(1) show ?thesis by (simp add: cpu_counts_def)
qed

lemma find_thread_iff: "find_thread c t w = None \<longleftrightarrow> t \<notin> set (cp_threads (cpus w c))"
  by (auto simp: find_thread_def find_None_iff)

text \<open>Moving a thread between states on its CPU: set the state and update the CPU.\<close>

lemma thread_state_update_wf:
  assumes wf: "sys_wf w" and st: "st \<noteq> TH_ST_UNKNOWN" "st \<noteq> TH_ST_DEAD"
    and s: "thread_set_state t st w = Inr w1" and c: "th_cpu (threads w t) = Some c"
    and u: "cpu_update c w1 = Inr w'"
  shows "sys_wf w'"
proof -
  note s1 = thread_set_state_threads [OF s] and u1 = cpu_update_ok [OF u]
  have threads: "threads w' = threads w1" using u1 by simp
  have lists: "cp_threads (cpus w' d) = cp_threads (cpus w d)" "cp_nthreads (cpus w' d) = cp_nthreads (cpus w d)" for d
    using s1 u1 by (cases "d = c"; simp)+
  have cpu: "th_cpu (threads w' x) = th_cpu (threads w x)" for x using s1 u1 by simp
  have "cpu_lists w'" using wf unfolding sys_wf_def cpu_lists_def lists cpu by blast
  moreover have "thread_ok (threads w' x)" for x
    using wf s1 u1 st c by (cases "x = t") (auto simp: sys_wf_def thread_ok_def)
  moreover have "cpu_counts d w'" for d
  proof (cases "d = c")
    case True
    with u1 show ?thesis by simp
  next
    case False
    have "cpu_counts d w' = cpu_counts d w"
    proof (rule cpu_counts_cong)
      show "cpus w' d = cpus w d" using False u1 s1 by simp
      fix x assume "x \<in> set (cp_threads (cpus w d))"
      then have "th_cpu (threads w x) = Some d" using wf by (simp add: sys_wf_def cpu_lists_def)
      then have "x \<noteq> t" using c False by auto
      then show "th_state (threads w' x) = th_state (threads w x)" using s1 u1 by simp
    qed
    with wf show ?thesis by (simp add: sys_wf_def)
  qed
  ultimately show ?thesis by (simp add: sys_wf_def)
qed

end
