(* ===== verification/Propagate.thy ===== *)
theory Propagate
  imports Prv
begin

text \<open>
  Propagation of the changes through the whole emulator. The callbacks that \<^verbatim>\<open>bay_add_cb\<close> gets
  in the sources are those of the multiplexers, the sorters and the trace writers; \<open>run_cb\<close> calls
  them. They satisfy the contract \<open>bay_callbacks\<close> of the bay with the invariants of the three
  modules, so \<^verbatim>\<open>bay_propagate\<close> terminates and leaves every channel clean.
\<close>

fun run_cb :: "cb_func \<Rightarrow> cid \<Rightarrow> 'x prv_bay_scheme \<Rightarrow> 'x prv_bay_scheme res" where
  "run_cb (CB_SELECT m) c w = cb_select m c w"
| "run_cb (CB_INPUT m k) c w = cb_input m k c w"
| "run_cb (SORT_CB_INPUT s k) c w = sort_cb_input s k c w"
| "run_cb (CB_PRV p j) c w = cb_prv p j c w"

definition emu_inv :: "'x prv_bay_scheme \<Rightarrow> bool" where
  "emu_inv w \<longleftrightarrow> mux_inv w \<and> sort_inv w \<and> prv_inv w"

lemma more_fields:
  fixes w :: "'x prv_bay_scheme"
  shows "mux_bay.more w' = mux_bay.more w \<Longrightarrow> sorts w' = sorts w \<and> prvs w' = prvs w"
    and "sort_bay.more w' = sort_bay.more w \<Longrightarrow> prvs w' = prvs w"
  by (cases w rule: prv_bay.cases_scheme; cases w' rule: prv_bay.cases_scheme; simp)+

lemma run_cb_ok:
  assumes wf: "bay_wf w" and inv: "emu_inv w" and i: "i < bay_ncbs w"
    and ok: "run_cb (cb_fun (bay_cbs w i)) c w = Inr w'"
  shows "bay_step w w' \<and> emu_inv w' \<and>
    ((\<exists>m. cb_fun (bay_cbs w i) = CB_SELECT m \<and> (\<forall>c t. cb_list_select m w (cb_list c t w) (cb_list c t w')))
     \<or> bay_bchans w' = bay_bchans w)"
proof (cases "cb_fun (bay_cbs w i)")
  case (CB_SELECT m)
  with ok have sel: "cb_select m c w = Inr w'" by simp
  have "mux_used m w" using i CB_SELECT by (auto simp: mux_used_def)
  with inv wf sel have s: "bay_step w w'" "mux_inv w'"
    "\<And>c t. cb_list_select m w (cb_list c t w) (cb_list c t w')"
    using cb_select_ok [of w m c w'] by (auto simp: emu_inv_def)
  have ch: "ch_type (bay_mem w' d) = ch_type (bay_mem w d) \<and> ch_prop (bay_mem w' d) = ch_prop (bay_mem w d)" for d
    using cb_select_same_chan [OF wf _ \<open>mux_used m w\<close> sel, of d] inv
    by (simp add: emu_inv_def same_chan_def)
  note fr = more_fields(1) [OF cb_select_more [OF sel]]
  have "sort_inv w'"
    by (rule sort_inv_cong [of w]) (use inv s(1) fr ch in \<open>auto simp: emu_inv_def bay_step_def\<close>)
  moreover have "prv_inv w'"
    by (rule prv_inv_cong [of w]) (use inv s(1) fr in \<open>auto simp: emu_inv_def bay_step_def\<close>)
  ultimately have "sort_inv w'" "prv_inv w'" .
  with s CB_SELECT show ?thesis by (auto simp: emu_inv_def)
next
  case (CB_INPUT m k)
  with ok have "cb_input m k c w = Inr w'" by simp
  from cb_input_ok(2) [OF wf _ i CB_INPUT this] inv
  have wr: "bay_writes {mx_output (muxes w m)} w w'" by (simp add: emu_inv_def bay_write_writes)
  have "prv_inv w'"
    by (rule prv_inv_cong [of w])
      (use inv wr in \<open>auto simp: emu_inv_def bay_writes_def bay_step_def intro: more_prvs\<close>)
  with inv wr mux_inv_writes [OF _ wr] sort_inv_writes [OF _ wr] show ?thesis
    by (simp add: emu_inv_def bay_writes_def)
next
  case (SORT_CB_INPUT s k)
  with ok have run: "sort_cb_input s k c w = Inr w'" by simp
  have r: "bay_step w w' \<and> sort_inv w' \<and> mux_inv w' \<and> bay_bchans w' = bay_bchans w"
    using sort_cb_input_inv [OF wf _ _ i SORT_CB_INPUT run] inv by (simp add: emu_inv_def)
  have "prv_inv w'"
    by (rule prv_inv_cong [of w])
      (use inv r more_fields(2) [OF sort_cb_input_more [OF run]] in \<open>auto simp: emu_inv_def bay_step_def\<close>)
  with r show ?thesis by (simp add: emu_inv_def)
next
  case (CB_PRV p j)
  with ok have "cb_prv p j c w = Inr w'" by simp
  from cb_prv_ok [OF wf _ i CB_PRV this] inv show ?thesis by (simp add: emu_inv_def)
qed

lemma run_cb_progress:
  assumes wf: "bay_wf w" and inv: "emu_inv w" and i: "i \<in> set (cb_list c t w)"
    and ok: "run_cb (cb_fun (bay_cbs w i)) c w = Inr w'"
  shows "lst_weight w (dl_from (next_after i (cb_list c t w')) (cb_list c t w'))
    < lst_weight w (dl_from (Some i) (cb_list c t w))"
proof -
  note lt = bay_wfD(7) [OF wf i]
  note r = run_cb_ok [OF wf inv lt ok]
  then have wf': "bay_wf w'" by (simp add: bay_step_def)
  from r show ?thesis
  proof (elim conjE disjE exE)
    fix m assume "cb_fun (bay_cbs w i) = CB_SELECT m"
      "\<forall>c t. cb_list_select m w (cb_list c t w) (cb_list c t w')"
    with cb_list_select_progress [of m w "cb_list c t w" "cb_list c t w'" i m] i
      bay_wfD(2,7) [OF wf] bay_wfD(2) [OF wf'] show ?thesis by blast
  next
    assume "bay_bchans w' = bay_bchans w"
    moreover from dl_from_Some [OF i] obtain ys where ys: "dl_from (Some i) (cb_list c t w) = i # ys" ..
    ultimately have "dl_from (next_after i (cb_list c t w')) (cb_list c t w') = ys"
      using dl_from_next [OF bay_wfD(2) [OF wf] ys] by simp
    then show ?thesis unfolding ys using cb_weight_bounds(1) [of "cb_fun (bay_cbs w i)"] by simp
  qed
qed

text \<open>No callback runs out of the bounds of a loop: their own loops are over fixed lists.\<close>

lemma chan_set_at_no_fuel: "chan_set_at c v w \<noteq> Inl EFuel"
  by (auto simp: chan_set_at_def chan_set_def set_dirty_def put_chan_def cb_chan_is_dirty_def Let_def
      rbind_eq_Inl split: if_splits)

lemma foldr_res_no_fuel:
  "(\<And>x w. body x w \<noteq> Inl EFuel) \<Longrightarrow> foldr_res body xs w \<noteq> Inl EFuel"
  by (induction xs arbitrary: w) (auto simp: rbind_eq_Inl)

lemma sort_replace_no_fuel: "sort_replace arr old new \<noteq> Inl EFuel"
proof -
  have "skip_less arr old i \<noteq> Inl EFuel" for i
    by (induction arr old i rule: skip_less.induct) (subst skip_less.simps, simp)
  then show ?thesis by (auto simp: sort_replace_def Let_def rbind_eq_Inl split: if_splits)
qed

lemma sort_cb_input_no_fuel: "sort_cb_input s k c w \<noteq> Inl EFuel"
proof -
  have "sort_write s i v \<noteq> Inl EFuel" for i and v :: "'a sort_bay_scheme"
    using chan_set_at_no_fuel by (auto simp: sort_write_def Let_def split: if_splits)
  then have "foldr_res (sort_write s) is v \<noteq> Inl EFuel" for "is" and v :: "'a sort_bay_scheme"
    by (rule foldr_res_no_fuel)
  then show ?thesis
    using sort_replace_no_fuel
    by (auto simp: sort_cb_input_def sort_refresh_def Let_def rbind_eq_Inl split: if_splits)
qed

lemma cb_select_no_fuel:
  assumes wf: "bay_wf w" and inv: "mux_inv w" and used: "mux_used m w"
  shows "cb_select m c w \<noteq> Inl EFuel"
proof -
  have dis: "bay_disable_cb i v \<noteq> Inl EFuel" "bay_enable_cb i v \<noteq> Inl EFuel" for i and v :: "'a mux_bay_scheme"
    by (auto simp: bay_disable_cb_def bay_enable_cb_def Let_def split: if_splits)
  have cl: "mux_clear m w \<noteq> Inl EFuel" and ch: "mux_choose m k v \<noteq> Inl EFuel" for k and v :: "'a mux_bay_scheme"
    using dis by (auto simp: mux_clear_def mux_choose_def Let_def rbind_eq_Inl split: if_splits option.splits)
  have sel: "select_input (muxes w1 m) v w1 \<noteq> Inl EFuel" if "mux_clear m w = Inr w1" for w1 v
  proof -
    note c = mux_clear_ok [OF wf inv used that]
    have "mux_used m w1" using used mux_used_step [OF c(1)] by simp
    from mux_outD(2) [OF c(2) this] show ?thesis
      by (auto simp: mux_sel_ok_def select_input_def default_select_def split: option.splits chval.splits)
  qed
  show ?thesis
    using cl ch sel
    by (auto simp: cb_select_def Let_def rbind_eq_Inl chan_set_at_no_fuel split: option.splits)
qed

lemma run_cb_no_fuel:
  assumes wf: "bay_wf w" and inv: "emu_inv w" and i: "i < bay_ncbs w"
  shows "run_cb (cb_fun (bay_cbs w i)) c w \<noteq> Inl EFuel"
proof (cases "cb_fun (bay_cbs w i)")
  case (CB_SELECT m)
  moreover from this i have "mux_used m w" by (auto simp: mux_used_def)
  ultimately show ?thesis using cb_select_no_fuel [OF wf] inv by (simp add: emu_inv_def)
next
  case (CB_INPUT m k)
  then show ?thesis
    using chan_set_at_no_fuel by (auto simp: cb_input_def split: option.splits)
next
  case (SORT_CB_INPUT s k)
  then show ?thesis by (simp add: sort_cb_input_no_fuel)
next
  case (CB_PRV p j)
  then show ?thesis
    by (auto simp: cb_prv_def emit_def prv_value_def Let_def rbind_eq_Inl split: if_splits chval.splits)
qed

interpretation emu_bay: bay_callbacks run_cb emu_inv
proof unfold_locales
  fix w w' :: "'a prv_bay_scheme" and i c t
  assume w: "bay_wf w" "emu_inv w" "i \<in> set (cb_list c t w)"
  note lt = bay_wfD(7) [OF w(1,3)]
  show "run_cb (cb_fun (bay_cbs w i)) c w \<noteq> Inl EFuel" by (rule run_cb_no_fuel [OF w(1,2) lt])
  assume r: "run_cb (cb_fun (bay_cbs w i)) c w = Inr w'"
  show "bay_step w w' \<and> emu_inv w'" using run_cb_ok [OF w(1,2) lt r] by blast
  show "lst_weight w (dl_from (next_after i (cb_list c t w')) (cb_list c t w'))
    < lst_weight w (dl_from (Some i) (cb_list c t w))" by (rule run_cb_progress [OF w r])
next
  fix w :: "'a prv_bay_scheme" assume "emu_inv w"
  then have i: "mux_inv w" "sort_inv w" "prv_inv w" by (simp_all add: emu_inv_def)
  have "prv_inv (w\<lparr>bay_state := st\<rparr>)" "prv_inv (w\<lparr>bay_dirty := d\<rparr>)" for st d
    by (rule prv_inv_cong [OF i(3)]; simp)+
  with i show "emu_inv (w\<lparr>bay_state := st\<rparr>)" "emu_inv (w\<lparr>bay_dirty := d\<rparr>)" for st d
    by (simp_all add: emu_inv_def mux_inv_state mux_inv_dirty sort_inv_state sort_inv_dirty)
  fix c w' assume f: "flush_chan c w = Inr w'"
  have "prv_inv w'"
    by (rule prv_inv_cong [OF i(3)]) (use f in \<open>auto simp: flush_chan_def chan_flush_at_def\<close>)
  with i f show "emu_inv w'" by (simp add: emu_inv_def mux_inv_flush sort_inv_flush)
qed

text \<open>C16. Propagation terminates: with as many turns for each loop as there are registered channels and
  twice as many as there are callbacks, \<^verbatim>\<open>bay_propagate\<close> ends on every well-formed state, either with the
  error of a callback or with a state.\<close>

theorem bay_propagate_terminates:
  assumes "bay_wf w" and "emu_inv w"
  shows "bay_propagate run_cb (max (card (registered w)) (2 * bay_ncbs w)) w \<noteq> Inl EFuel"
  using assms by (intro emu_bay.propagate_no_fuel) simp_all

text \<open>C15. After a successful propagation the bay is ready and at rest: no channel is dirty, the dirty list is
  empty, every registered channel remembers in \<^verbatim>\<open>last_value\<close> the value it reads as, and the invariants
  of the bay, the multiplexers, the sorters and the traces hold.\<close>

theorem bay_propagate_clean:
  assumes "bay_wf w" and "emu_inv w" and "card (registered w) \<le> n"
    and "bay_propagate run_cb n w = Inr w'"
  shows "bay_wf w' \<and> emu_inv w' \<and> bay_dirty w' = [] \<and> bay_state w' = BAY_READY
    \<and> (\<forall>c \<in> registered w'. \<not> ch_is_dirty (bay_mem w' c) \<and> ch_last_value (bay_mem w' c) = chan_read_at c w')"
  using emu_bay.propagate_ok [OF assms] by simp

subsection \<open>A propagation\<close>

definition demo_emu0 :: prv_bay where
  "demo_emu0 = bay.extend (bay.truncate demo_bay0)
     \<lparr>muxes = muxes demo_bay0, sorts = sorts demo_sort0, prvs = (\<lambda>_. prv_open_file 1)\<rparr>"

definition demo_emu :: "prv_bay res" where
  "demo_emu = demo_mux_on demo_emu0"

lemma demo_emu_inv:
  "\<exists>w. demo_emu = Inr w \<and> bay_wf w \<and> emu_inv w \<and> bay_ncbs w = 3 \<and> card (registered w) \<le> 4"
proof -
  have "res_get (\<lambda>w. (bay_ncbs w, map (\<lambda>i. cb_fun (bay_cbs w i)) [0..<3])) demo_emu =
      Some (3, [CB_SELECT 0, CB_INPUT 0 0, CB_INPUT 0 1])"
    by code_simp
  then obtain w where w: "demo_emu = Inr w" "bay_ncbs w = 3"
    "map (\<lambda>i. cb_fun (bay_cbs w i)) [0..<3] = [CB_SELECT 0, CB_INPUT 0 0, CB_INPUT 0 1]"
    by (auto simp: res_get_Some)
  have 0: "bay_wf demo_emu0" "mux_inv demo_emu0" "\<And>c. \<not> ch_is_dirty (bay_mem demo_emu0 c)"
    "bay_ncbs demo_emu0 = 0" "registered demo_emu0 = {}"
    by (auto simp: demo_emu0_def demo_bay0_def bay_init_def bay_wf_defs chan_wf_def chan_read_def
        demo_chan_def mux_inv_defs bay.defs)
  have i: "bay_wf w" "mux_inv w" "registered w = {OtherChan 0, OtherChan 1, OtherChan 2, OtherChan 3}"
    using demo_mux_on_inv [OF _ 0(1-4)] w(1) 0(5) by (auto simp: demo_emu_def)
  have f: "cb_fun (bay_cbs w 0) = CB_SELECT 0" "cb_fun (bay_cbs w 1) = CB_INPUT 0 0"
    "cb_fun (bay_cbs w 2) = CB_INPUT 0 1"
    using w(3) by (simp_all add: upt_rec numeral_eq_Suc)
  have "i < 3 \<Longrightarrow> i = 0 \<or> i = 1 \<or> i = (2 :: nat)" for i by auto
  then have "sort_inv w" "prv_inv w"
    using f w(2) by (fastforce simp: sort_inv_def prv_inv_def)+
  moreover have "card (registered w) \<le> 4" unfolding i(3) by simp
  ultimately show ?thesis using i(1,2) w by (auto simp: emu_inv_def)
qed

theorem bay_propagate_terminates_witness:
  "\<exists>w. demo_emu = Inr w \<and> bay_propagate run_cb (max (card (registered w)) (2 * bay_ncbs w)) w \<noteq> Inl EFuel"
  using demo_emu_inv bay_propagate_terminates by blast

theorem bay_propagate_clean_witness:
  "\<exists>w w'. demo_emu = Inr w \<and> bay_propagate run_cb 8 w = Inr w' \<and> bay_dirty w' = []
     \<and> bay_state w' = BAY_READY \<and> chan_read_at (OtherChan 3) w' = VALUE_INT64 7"
proof -
  obtain w where w: "demo_emu = Inr w" "bay_wf w" "emu_inv w" "card (registered w) \<le> 8"
    using demo_emu_inv by auto
  have "res_get (\<lambda>w. chan_read_at (OtherChan 3) w) (rbind demo_emu (bay_propagate run_cb 8)) =
      Some (VALUE_INT64 7)"
    by code_simp
  then have "res_get (\<lambda>w. chan_read_at (OtherChan 3) w) (bay_propagate run_cb 8 w) = Some (VALUE_INT64 7)"
    unfolding w(1) by simp
  then obtain w' where w': "bay_propagate run_cb 8 w = Inr w'" "chan_read_at (OtherChan 3) w' = VALUE_INT64 7"
    by (auto simp: res_get_Some)
  from bay_propagate_clean [OF w(2-4) w'(1)] w(1) w' show ?thesis by blast
qed

end
