(* ===== verification/View.thy ===== *)
theory View
  imports Propagate
begin

text \<open>
  What the propagation is for: after \<^verbatim>\<open>bay_propagate\<close> the output of every multiplexer shows the input that its
  select channel chooses now.

  This holds for the wiring that the tracks of \<^verbatim>\<open>src/emu/track.c\<close> make: the select channels and the inputs are channels
  that the events write, the outputs are not, and the selection depends on the value of the select channel only. In a chain
  of multiplexers it may fail, because a channel that is written again while it is dirty does not enter the dirty list again.
\<close>

subsection \<open>The view of a multiplexer\<close>

text \<open>The channels that the events write.\<close>

fun is_source :: "cid \<Rightarrow> bool" where
  "is_source (ThreadChan t i) = True"
| "is_source (CpuChan c i) = True"
| "is_source (ModelChan t m i) = True"
| "is_source (MarkChan t i) = True"
| "is_source (HwcChan t i) = True"
| "is_source _ = False"

definition mux_flat :: "'x mux_bay_scheme \<Rightarrow> nat \<Rightarrow> bool" where
  "mux_flat w m \<longleftrightarrow>
     (let mx = muxes w m in
      \<not> is_source (mx_output mx) \<and> (\<forall>s i. mx_output mx \<noteq> SortOutput s i) \<and> is_source (mx_select mx)
      \<and> (\<forall>k c. mux_input_chan mx k = Some c \<longrightarrow> is_source c)
      \<and> (\<forall>m'. mux_used m' w \<longrightarrow> mx_output (muxes w m') = mx_output mx \<longrightarrow> m' = m)
      \<and> (\<forall>f n ch rd rd' v. mx_select_func mx = Some f \<longrightarrow> f n ch rd v = f n ch rd' v))"

definition flat :: "'x mux_bay_scheme \<Rightarrow> bool" where
  "flat w \<longleftrightarrow> (\<forall>m. mux_used m w \<longrightarrow> mux_flat w m)"

definition mux_chosen :: "nat \<Rightarrow> 'x mux_bay_scheme \<Rightarrow> nat option \<Rightarrow> bool" where
  "mux_chosen m w sel \<longleftrightarrow>
     (let mx = muxes w m in
      select_input mx (chan_read_at (mx_select mx) w) w = Inr sel
      \<and> (\<forall>k. sel = Some k \<longrightarrow> k < length (mx_inputs mx))
      \<and> (\<forall>k < length (mx_inputs mx). mi_selected (mx_inputs mx ! k) \<longleftrightarrow> sel = Some k))"

definition mux_view :: "nat \<Rightarrow> 'x mux_bay_scheme \<Rightarrow> bool" where
  "mux_view m w \<longleftrightarrow> (\<exists>sel. mux_chosen m w sel
     \<and> chan_read_at (mx_output (muxes w m)) w = mux_out_value (muxes w m) sel w)"

text \<open>The same while the callbacks of the set \<open>K\<close> are still to be called.\<close>

definition view_upto :: "nat set \<Rightarrow> nat \<Rightarrow> 'x mux_bay_scheme \<Rightarrow> bool" where
  "view_upto K m w \<longleftrightarrow>
     (\<exists>i \<in> K. cb_fun (bay_cbs w i) = CB_SELECT m)
     \<or> (\<exists>sel. mux_chosen m w sel
         \<and> (chan_read_at (mx_output (muxes w m)) w = mux_out_value (muxes w m) sel w
            \<or> (\<exists>k. sel = Some k \<and> (\<exists>i \<in> K. cb_fun (bay_cbs w i) = CB_INPUT m k))))"

lemma view_upto_empty: "view_upto {} m w = mux_view m w"
  by (simp add: view_upto_def mux_view_def)

lemma view_upto_mono: "view_upto K m w \<Longrightarrow> K \<subseteq> L \<Longrightarrow> view_upto L m w"
  unfolding view_upto_def by blast

lemma mux_static_refl [simp]: "mux_static mx mx"
  by (simp add: mux_static_def)

lemma mux_flatD:
  assumes "flat w" "mux_used m w"
  shows "\<not> is_source (mx_output (muxes w m))" and "mx_output (muxes w m) \<noteq> SortOutput s i"
    and "is_source (mx_select (muxes w m))" and "mux_input_chan (muxes w m) k = Some c \<Longrightarrow> is_source c"
    and "mux_used m' w \<Longrightarrow> mx_output (muxes w m') = mx_output (muxes w m) \<Longrightarrow> m' = m"
    and "(\<And>c. is_source c \<Longrightarrow> chan_read_at c w' = chan_read_at c w) \<Longrightarrow> select_input (muxes w m) v w' = select_input (muxes w m) v w"
proof -
  from assms have m: "mux_flat w m" by (simp add: flat_def)
  then show "\<not> is_source (mx_output (muxes w m))" "mx_output (muxes w m) \<noteq> SortOutput s i"
    "is_source (mx_select (muxes w m))" "mux_input_chan (muxes w m) k = Some c \<Longrightarrow> is_source c"
    "mux_used m' w \<Longrightarrow> mx_output (muxes w m') = mx_output (muxes w m) \<Longrightarrow> m' = m"
    by (auto simp: mux_flat_def Let_def)
  show "select_input (muxes w m) v w' = select_input (muxes w m) v w"
    using m by (auto simp: mux_flat_def Let_def select_input_def default_select_def split: option.split)
qed

lemma mux_flat_static:
  assumes "mux_flat w m" and st: "\<And>m. mux_static (muxes w m) (muxes w' m)" and "\<And>m. mux_used m w' = mux_used m w"
  shows "mux_flat w' m"
proof -
  have "mux_input_chan (muxes w' m) = mux_input_chan (muxes w m)" using st [of m] by (auto simp: mux_static_def)
  moreover have "mx_output (muxes w' m') = mx_output (muxes w m')" for m' using st [of m'] by (simp add: mux_static_def)
  ultimately show ?thesis
    using assms(1,3) st [of m] by (simp add: mux_flat_def Let_def mux_static_def)
qed

lemma flat_static:
  "flat w \<Longrightarrow> (\<And>m. mux_static (muxes w m) (muxes w' m)) \<Longrightarrow> (\<And>m. mux_used m w' = mux_used m w) \<Longrightarrow> flat w'"
  unfolding flat_def using mux_flat_static by blast

text \<open>A step that leaves a multiplexer and what it reads alone leaves its view alone.\<close>

lemma view_upto_cong:
  assumes flat: "flat w" "mux_used m w" and view: "view_upto K m w"
    and mux: "muxes w' m = muxes w m" and src: "\<And>c. is_source c \<Longrightarrow> chan_read_at c w' = chan_read_at c w"
    and out: "chan_read_at (mx_output (muxes w m)) w' = chan_read_at (mx_output (muxes w m)) w"
    and K: "\<And>i. i \<in> K \<Longrightarrow> cb_fun (bay_cbs w i) = CB_SELECT m \<or> (\<exists>k. cb_fun (bay_cbs w i) = CB_INPUT m k) \<Longrightarrow>
      i \<in> L \<and> cb_fun (bay_cbs w' i) = cb_fun (bay_cbs w i)"
  shows "view_upto L m w'"
proof -
  note f = mux_flatD [OF flat]
  have sel: "select_input (muxes w m) (chan_read_at (mx_select (muxes w m)) w') w'
      = select_input (muxes w m) (chan_read_at (mx_select (muxes w m)) w) w"
    using f(6) [of w', OF src] src [OF f(3)] by simp
  have val: "mux_out_value (muxes w m) s w' = mux_out_value (muxes w m) s w" for s
    using src f(4) by (simp add: mux_out_value_def split: option.split)
  have "mux_chosen m w' s = mux_chosen m w s" for s
    unfolding mux_chosen_def mux Let_def sel ..
  with view K show ?thesis unfolding view_upto_def mux val out by (metis (no_types, lifting))
qed

lemma mux_chosen_chan:
  assumes "mux_inv w" and "mux_used m w" and "mux_chosen m w sel" and "sel = Some k"
  shows "mux_input_chan (muxes w m) k \<noteq> None"
proof -
  have k: "k < length (mx_inputs (muxes w m))" "mi_selected (mx_inputs (muxes w m) ! k)"
    using assms(3,4) by (auto simp: mux_chosen_def Let_def)
  then have "mux_input_ok m k w" using assms(1,2) by (simp add: mux_inv_def mux_ok_def)
  with k show ?thesis by (auto simp: mux_input_ok_def mux_input_chan_def Let_def)
qed

subsection \<open>What a callback changes\<close>

lemma mux_clear_others: "mux_clear m w = Inr w1 \<Longrightarrow> m' \<noteq> m \<Longrightarrow> muxes w1 m' = muxes w m'"
  by (auto simp: mux_clear_def mux_update_def Let_def split: if_splits option.splits
      dest!: bay_disable_cb_more more_muxes)

lemma mux_choose_others: "mux_choose m k w = Inr w1 \<Longrightarrow> m' \<noteq> m \<Longrightarrow> muxes w1 m' = muxes w m'"
  by (auto simp: mux_choose_def mux_update_def Let_def split: if_splits option.splits
      dest!: bay_enable_cb_more more_muxes)

lemma mux_choose_selects:
  "mux_choose m k w = Inr w1 \<Longrightarrow> k < length (mx_inputs (muxes w1 m)) \<and> mi_selected (mx_inputs (muxes w1 m) ! k)"
  by (auto simp: mux_choose_def mux_update_def Let_def split: if_splits option.splits)

lemma mux_selectedD:
  assumes "mux_inv w" and "mux_used m w" and "k < length (mx_inputs (muxes w m))"
    and "mi_selected (mx_inputs (muxes w m) ! k)"
  shows "mx_selected (muxes w m) = int k"
proof -
  from assms(1-3) have ok: "mux_input_ok m k w" by (simp add: mux_inv_def mux_ok_def)
  with assms(4) obtain j where "mi_cb (mx_inputs (muxes w m) ! k) = Some j"
    by (cases "mi_cb (mx_inputs (muxes w m) ! k)") (auto simp: mux_input_ok_def Let_def)
  with mux_inputD(6) [OF assms(1-3)] assms(4) show ?thesis by blast
qed

lemma cb_select_view:
  assumes wf: "bay_wf w" and inv: "mux_inv w" and used: "mux_used m w" and ok: "cb_select m c w = Inr w'"
  shows "\<exists>sel. select_input (muxes w m) (chan_read_at c w) w = Inr sel \<and> mux_static (muxes w m) (muxes w' m)
    \<and> (\<forall>k. sel = Some k \<longrightarrow> k < length (mx_inputs (muxes w' m)))
    \<and> (\<forall>k < length (mx_inputs (muxes w' m)). mi_selected (mx_inputs (muxes w' m) ! k) \<longleftrightarrow> sel = Some k)
    \<and> (\<forall>m'. m' \<noteq> m \<longrightarrow> muxes w' m' = muxes w m')
    \<and> (\<forall>d. d \<noteq> mx_output (muxes w m) \<longrightarrow> bay_mem w' d = bay_mem w d)
    \<and> chan_read_at (mx_output (muxes w m)) w' = mux_out_value (muxes w m) sel w"
proof -
  obtain w1 sel w2 where cl: "mux_clear m w = Inr w1"
    and sel: "select_input (muxes w1 m) (chan_read_at c w) w1 = Inr sel"
    and ch: "(case sel of None \<Rightarrow> Inr w1 | Some k \<Rightarrow> mux_choose m k w1) = Inr w2"
    and out: "chan_set_at (mx_output (muxes w2 m)) (mux_out_value (muxes w2 m) sel w2) w2 = Inr w'"
    using ok by (auto simp: cb_select_def)
  note c1 = mux_clear_ok [OF wf inv used cl]
  have used1: "mux_used m w1" using used mux_used_step [OF c1(1)] by simp
  have w2: "bay_wf w2 \<and> bay_mem w2 = bay_mem w \<and> mux_static (muxes w m) (muxes w2 m)
    \<and> (\<forall>k. sel = Some k \<longrightarrow> k < length (mx_inputs (muxes w2 m)) \<and> mi_selected (mx_inputs (muxes w2 m) ! k))
    \<and> mx_selected (muxes w2 m) = (case sel of None \<Rightarrow> mx_selected (muxes w2 m) | Some k \<Rightarrow> int k)
    \<and> (sel = None \<longrightarrow> mx_selected (muxes w2 m) < 0)
    \<and> (\<forall>m'. m' \<noteq> m \<longrightarrow> muxes w2 m' = muxes w m')"
  proof (cases sel)
    case None
    with ch c1 mux_clear_others [OF cl] show ?thesis by (auto dest: bay_step_wf)
  next
    case (Some k)
    with ch have ch: "mux_choose m k w1 = Inr w2" by simp
    note c2 = mux_choose_ok [OF bay_step_wf [OF c1(1)] c1(2) used1 c1(6) ch]
    show ?thesis
      using Some c1(3) c2(1,3,6) mux_static_trans [OF c1(5) c2(5)] mux_clear_others [OF cl] mux_choose_others [OF ch]
        mux_choose_selects [OF ch] by (auto dest: bay_step_wf)
  qed
  note st = mux_staticD [of "muxes w m" "muxes w2 m"]
  from out w2 st(1) st(3) [of w2 w sel] have
    out: "chan_set_at (mx_output (muxes w m)) (mux_out_value (muxes w m) sel w) w2 = Inr w'" by simp
  note wr = chan_set_at_write [OF _ out]
  have mux': "muxes w' = muxes w2" using wr w2 by (intro more_muxes) (simp add: bay_write_def)
  have "chan_read_at (mx_output (muxes w m)) w' = mux_out_value (muxes w m) sel w"
    using mux_outD(1) [OF inv used] w2 by (intro chan_set_at_allow_dup [OF _ out]) (simp add: mux_out_ok_def)
  moreover have "select_input (muxes w m) (chan_read_at c w) w = Inr sel"
    using sel mux_staticD(2) [OF c1(5,3)] by simp
  moreover have "mi_selected (mx_inputs (muxes w' m) ! k) \<longleftrightarrow> sel = Some k" if "k < length (mx_inputs (muxes w' m))" for k
  proof
    assume "sel = Some k"
    with w2 mux' show "mi_selected (mx_inputs (muxes w' m) ! k)" by simp
  next
    assume "mi_selected (mx_inputs (muxes w' m) ! k)"
    then have "mx_selected (muxes w' m) = int k"
      using mux_selectedD [OF cb_select_ok(2) [OF wf inv used ok]] used mux_used_step [OF cb_select_ok(1) [OF wf inv used ok]] that
      by blast
    with w2 mux' show "sel = Some k" by (cases sel) auto
  qed
  ultimately show ?thesis using w2 wr mux' by (auto simp: bay_write_def)
qed

text \<open>No callback writes a channel that the events write, nor anything beyond the bay and its components.\<close>

lemma run_cb_frame:
  assumes wf: "bay_wf w" and inv: "emu_inv w" and flat: "flat w" and i: "i < bay_ncbs w"
    and ok: "run_cb (cb_fun (bay_cbs w i)) c w = Inr w'"
  shows "prv_bay.more w' = prv_bay.more w \<and> (\<forall>d. is_source d \<longrightarrow> bay_mem w' d = bay_mem w d)
    \<and> (\<forall>m. mux_static (muxes w m) (muxes w' m)) \<and> (\<forall>m. mux_used m w' = mux_used m w) \<and> flat w'"
proof -
  have "prv_bay.more w' = prv_bay.more w \<and> (\<forall>d. is_source d \<longrightarrow> bay_mem w' d = bay_mem w d)
    \<and> (\<forall>m. mux_static (muxes w m) (muxes w' m))"
  proof (cases "cb_fun (bay_cbs w i)")
    case (CB_SELECT m)
    with ok have sel: "cb_select m c w = Inr w'" by simp
    have u: "mux_used m w" using i CB_SELECT by (auto simp: mux_used_def)
    with cb_select_view [OF wf _ u sel] inv have f: "mux_static (muxes w m) (muxes w' m)"
      "\<forall>m'. m' \<noteq> m \<longrightarrow> muxes w' m' = muxes w m'" "\<forall>d. d \<noteq> mx_output (muxes w m) \<longrightarrow> bay_mem w' d = bay_mem w d"
      by (auto simp: emu_inv_def)
    then have "mux_static (muxes w m') (muxes w' m')" for m' by (cases "m' = m") simp_all
    moreover have "prv_bay.more w' = prv_bay.more w"
      using cb_select_more [OF sel] by (cases w rule: prv_bay.cases_scheme; cases w' rule: prv_bay.cases_scheme) simp
    moreover have "bay_mem w' d = bay_mem w d" if "is_source d" for d
      using f(3) that mux_flatD(1) [OF flat u] by metis
    ultimately show ?thesis by blast
  next
    case (CB_INPUT m k)
    with ok have "cb_input m k c w = Inr w'" by simp
    from cb_input_ok(2) [OF wf _ i CB_INPUT this] inv have wr: "bay_write (mx_output (muxes w m)) w w'"
      by (simp add: emu_inv_def)
    then have more: "bay.more w' = bay.more w" by (simp add: bay_write_def)
    have u: "mux_used m w" using inv i CB_INPUT by (auto simp: emu_inv_def mux_inv_def mux_cb_ok_def)
    have "prv_bay.more w' = prv_bay.more w"
      using more by (cases w rule: prv_bay.cases_scheme; cases w' rule: prv_bay.cases_scheme) simp
    moreover have "bay_mem w' d = bay_mem w d" if "is_source d" for d
      using wr that mux_flatD(1) [OF flat u] unfolding bay_write_def by metis
    ultimately show ?thesis using more_muxes [OF more] by simp
  next
    case (SORT_CB_INPUT s k)
    with ok have run: "sort_cb_input s k c w = Inr w'" by simp
    have r: "muxes w' = muxes w" "\<forall>d. (\<forall>j. d \<noteq> SortOutput s j) \<longrightarrow> bay_mem w' d = bay_mem w d"
      using sort_cb_input_inv [OF wf _ _ i SORT_CB_INPUT run] inv by (simp_all add: emu_inv_def)
    have "prv_bay.more w' = prv_bay.more w"
      using sort_cb_input_more [OF run] by (cases w rule: prv_bay.cases_scheme; cases w' rule: prv_bay.cases_scheme) simp
    moreover have "bay_mem w' d = bay_mem w d" if "is_source d" for d
      using r(2) that by (cases d) auto
    ultimately show ?thesis using r(1) by simp
  next
    case (CB_PRV p j)
    with ok show ?thesis by (auto simp: cb_prv_def prv_update_def Let_def)
  qed
  moreover have "mux_used m w' = mux_used m w" for m
    using run_cb_ok [OF wf inv i ok] mux_used_step by blast
  ultimately show ?thesis using flat_static [OF flat] by blast
qed

subsection \<open>Every callback brings the views up to date\<close>

text \<open>The callbacks that remain on a channel after a selection: one that the selection disabled may be gone.\<close>

lemma cb_list_select_rest:
  assumes "cb_list_select m w xs xs'" and xs: "distinct xs" and xs': "distinct xs'" and ys: "dl_from (Some i) xs = i # ys"
    and i: "cb_fun (bay_cbs w i) = CB_SELECT m'" and lt: "\<And>j. j \<in> set xs \<Longrightarrow> j < bay_ncbs w"
    and j: "j \<in> set ys" "\<And>k. cb_fun (bay_cbs w j) \<noteq> CB_INPUT m k"
  shows "j \<in> set (dl_from (next_after i xs') xs')"
proof -
  from assms(1) obtain j' ks where x': "xs' = remove1 j' xs @ ks"
    and j': "j' < bay_ncbs w \<Longrightarrow> \<exists>k. cb_fun (bay_cbs w j') = CB_INPUT m k" unfolding cb_list_select_def by auto
  have sub: "set (i # ys) \<subseteq> set xs" using ys set_dropWhileD [of _ "\<lambda>y. y \<noteq> i" xs] by (simp add: subset_iff)
  then have "j' \<noteq> i" using j' [OF lt] i by auto
  then have i': "i \<in> set (remove1 j' xs)" using xs sub by simp
  have "dl_from (Some i) (remove1 j' xs) = i # remove1 j' ys"
    by (rule dl_from_remove1 [OF xs \<open>j' \<noteq> i\<close> ys])
  then have "dl_from (Some i) xs' = i # remove1 j' ys @ ks"
    using dl_from_append [OF i', of ks] x' by simp
  then have "dl_from (next_after i xs') xs' = remove1 j' ys @ ks" using dl_from_next [OF xs'] by blast
  moreover have "j' \<noteq> j" using j' [OF lt] j sub by auto
  ultimately show ?thesis using j(1) by (simp add: in_set_remove1)
qed

lemma cb_list_select_in:
  "cb_list_select m w xs xs' \<Longrightarrow> j \<in> set xs \<Longrightarrow> j < bay_ncbs w \<Longrightarrow> (\<And>k. cb_fun (bay_cbs w j) \<noteq> CB_INPUT m k) \<Longrightarrow> j \<in> set xs'"
  unfolding cb_list_select_def by (metis Un_iff in_set_remove1 set_append)

definition cbs_of :: "cid set \<Rightarrow> 'x bay_scheme \<Rightarrow> nat set" where
  "cbs_of D w = (\<Union>d \<in> D. set (cb_list d BAY_CB_DIRTY w))"

lemma cb_select_view_upto:
  assumes wf: "bay_wf w" and inv: "emu_inv w" and flat: "flat w" and i: "i < bay_ncbs w"
    and f: "cb_fun (bay_cbs w i) = CB_SELECT m" and c: "cb_bchan (bay_cbs w i) = c" and ok: "cb_select m c w = Inr w'"
  shows "view_upto K m w'"
proof -
  have u: "mux_used m w" using i f by (auto simp: mux_used_def)
  have "c = mx_select (muxes w m)" using inv i f c by (auto simp: emu_inv_def mux_inv_def mux_cb_ok_def)
  moreover obtain sel where sel: "select_input (muxes w m) (chan_read_at c w) w = Inr sel"
    and st: "mux_static (muxes w m) (muxes w' m)" and lt: "\<forall>k. sel = Some k \<longrightarrow> k < length (mx_inputs (muxes w' m))"
    and ms: "\<forall>k < length (mx_inputs (muxes w' m)). mi_selected (mx_inputs (muxes w' m) ! k) \<longleftrightarrow> sel = Some k"
    and mem: "\<forall>d. d \<noteq> mx_output (muxes w m) \<longrightarrow> bay_mem w' d = bay_mem w d"
    and out: "chan_read_at (mx_output (muxes w m)) w' = mux_out_value (muxes w m) sel w"
    using cb_select_view [OF wf _ u ok] inv unfolding emu_inv_def by metis
  have src: "chan_read_at d w' = chan_read_at d w" if "is_source d" for d
    using that mem mux_flatD(1) [OF flat u] by metis
  have eq: "mux_input_chan (muxes w' m) = mux_input_chan (muxes w m)" using st by (auto simp: mux_static_def)
  have "select_input (muxes w' m) v w' = select_input (muxes w m) v w" for v
    using mux_flatD(6) [OF flat u src, of v] mux_staticD(2) [OF st, of w' w' v] by simp
  moreover have "mux_out_value (muxes w' m) sel w' = mux_out_value (muxes w m) sel w"
    using src mux_flatD(4) [OF flat u] st eq by (simp add: mux_out_value_def mux_static_def split: option.split)
  moreover have "mx_select (muxes w' m) = mx_select (muxes w m)" "mx_output (muxes w' m) = mx_output (muxes w m)"
    using st by (simp_all add: mux_static_def)
  ultimately have "mux_chosen m w' sel \<and> chan_read_at (mx_output (muxes w' m)) w' = mux_out_value (muxes w' m) sel w'"
    using sel lt ms out src [OF mux_flatD(3) [OF flat u]] by (simp add: mux_chosen_def)
  then show ?thesis unfolding view_upto_def by blast
qed

lemma cb_input_view_upto:
  assumes wf: "bay_wf w" and inv: "emu_inv w" and flat: "flat w" and i: "i \<in> set (cb_list c t w)"
    and f: "cb_fun (bay_cbs w i) = CB_INPUT m k" and ok: "cb_input m k c w = Inr w'"
    and view: "view_upto K m w" and K: "K - {i} \<subseteq> L"
  shows "view_upto L m w'"
proof -
  note lt = bay_wfD(7) [OF wf i]
  have minv: "mux_inv w" using inv by (simp add: emu_inv_def)
  have u: "mux_used m w" "k < length (mx_inputs (muxes w m))" "mi_cb (mx_inputs (muxes w m) ! k) = Some i"
    using minv lt f by (auto simp: mux_inv_def mux_cb_ok_def)
  note inp = mux_inputD [OF minv u]
  have sel: "mi_selected (mx_inputs (muxes w m) ! k)" using inp(8) bay_wfD(10) [OF wf i] by simp
  have ch: "mux_input_chan (muxes w m) k = Some c"
    using inp(5) bay_wfD(8) [OF wf i] u(2) by (simp add: mux_input_chan_def)
  have set: "chan_set_at (mx_output (muxes w m)) (chan_read_at c w) w = Inr w'"
    using ok cb_input_ok(1) [OF wf minv lt f] by simp
  note wr = chan_set_at_write [OF wf set]
  have mux': "muxes w' = muxes w" using wr by (intro more_muxes) (simp add: bay_write_def)
  have out: "chan_read_at (mx_output (muxes w m)) w' = chan_read_at c w"
    using mux_outD(1) [OF minv u(1)] by (intro chan_set_at_allow_dup [OF _ set]) (simp add: mux_out_ok_def)
  have src: "chan_read_at d w' = chan_read_at d w" if "is_source d" for d
    using that wr mux_flatD(1) [OF flat u(1)] unfolding bay_write_def by metis
  have cbs: "bay_cbs w' = bay_cbs w" using wr by (simp add: bay_write_def)
  have ch': "mux_chosen m w' s = mux_chosen m w s" for s
    using mux_flatD(6) [OF flat u(1) src] src [OF mux_flatD(3) [OF flat u(1)]] by (simp add: mux_chosen_def mux')
  from view consider j where "j \<in> K" "cb_fun (bay_cbs w j) = CB_SELECT m" | s where "mux_chosen m w s"
    unfolding view_upto_def by blast
  then show ?thesis
  proof cases
    case 1
    then have "j \<in> L" using K f by auto
    with 1(2) show ?thesis unfolding view_upto_def cbs by blast
  next
    case 2
    then have "s = Some k" using sel u(2) by (simp add: mux_chosen_def Let_def)
    with 2 ch' out ch src [OF mux_flatD(4) [OF flat u(1) ch]]
    have "mux_chosen m w' (Some k) \<and> chan_read_at (mx_output (muxes w' m)) w' = mux_out_value (muxes w' m) (Some k) w'"
      by (simp add: mux_out_value_def mux')
    then show ?thesis unfolding view_upto_def by blast
  qed
qed

lemma cbs_of_mono: "D \<subseteq> E \<Longrightarrow> cbs_of D w \<subseteq> cbs_of E w"
  unfolding cbs_of_def by blast

lemma cbs_of_same: "bay_bchans w' = bay_bchans w \<Longrightarrow> cbs_of D w' = cbs_of D w"
  by (simp add: cbs_of_def)

text \<open>One callback of the channel \<open>c\<close>: the ones that follow it on the channel and those of the channels \<open>D\<close> remain.\<close>

lemma run_cb_view:
  assumes wf: "bay_wf w" and inv: "emu_inv w" and flat: "flat w" and i: "i \<in> set (cb_list c t w)"
    and ok: "run_cb (cb_fun (bay_cbs w i)) c w = Inr w'" and used: "mux_used m w"
    and view: "view_upto (set (dl_from (Some i) (cb_list c t w)) \<union> cbs_of D w) m w"
  shows "view_upto (set (dl_from (next_after i (cb_list c t w')) (cb_list c t w')) \<union> cbs_of D w') m w'"
    (is "view_upto ?L m w'")
proof -
  note lt = bay_wfD(7) [OF wf i]
  note fr = run_cb_frame [OF wf inv flat lt ok]
  from dl_from_Some [OF i] obtain ys where ys: "dl_from (Some i) (cb_list c t w) = i # ys" ..
  have step: "bay_step w w'" using run_cb_ok [OF wf inv lt ok] by blast
  then have wf': "bay_wf w'" and funs: "\<And>j. cb_fun (bay_cbs w' j) = cb_fun (bay_cbs w j)" by (auto simp: bay_step_def)
  have src: "chan_read_at d w' = chan_read_at d w" if "is_source d" for d using fr that by simp
  let ?K = "set (i # ys) \<union> cbs_of D w"
  have view: "view_upto ?K m w" using view ys by simp
  have same: "?K - {i} \<subseteq> ?L" if "bay_bchans w' = bay_bchans w"
  proof -
    have "dl_from (next_after i (cb_list c t w')) (cb_list c t w') = ys"
      using dl_from_next [OF bay_wfD(2) [OF wf] ys] that by simp
    then show ?thesis unfolding cbs_of_same [OF that] by auto
  qed
  show ?thesis
  proof (cases "cb_fun (bay_cbs w i)")
    case (CB_SELECT m')
    with ok have sel: "cb_select m' c w = Inr w'" by simp
    have u: "mux_used m' w" using lt CB_SELECT by (auto simp: mux_used_def)
    show ?thesis
    proof (cases "m = m'")
      case True
      with cb_select_view_upto [OF wf inv flat lt CB_SELECT bay_wfD(8) [OF wf i] sel] show ?thesis by simp
    next
      case False
      have minv: "mux_inv w" using inv by (simp add: emu_inv_def)
      note sv = cb_select_view [OF wf minv u sel]
      note ls = cb_select_ok(3) [OF wf minv u sel]
      show ?thesis
      proof (rule view_upto_cong [OF flat used view _ src])
        show "muxes w' m = muxes w m" using sv False by auto
        have "mx_output (muxes w m) \<noteq> mx_output (muxes w m')" using mux_flatD(5) [OF flat u used] False by auto
        then show "chan_read_at (mx_output (muxes w m)) w' = chan_read_at (mx_output (muxes w m)) w" using sv by auto
        fix j assume j: "j \<in> ?K" "cb_fun (bay_cbs w j) = CB_SELECT m \<or> (\<exists>k. cb_fun (bay_cbs w j) = CB_INPUT m k)"
        then have nj: "\<And>k. cb_fun (bay_cbs w j) \<noteq> CB_INPUT m' k" "j \<noteq> i" using False CB_SELECT by auto
        from j(1) nj(2) consider "j \<in> set ys" | d where "d \<in> D" "j \<in> set (cb_list d BAY_CB_DIRTY w)"
          by (auto simp: cbs_of_def)
        then have "j \<in> ?L"
        proof cases
          case 1
          with cb_list_select_rest [OF ls [of c t] bay_wfD(2) [OF wf] bay_wfD(2) [OF wf'] ys CB_SELECT bay_wfD(7) [OF wf, of _ c t] _ nj(1)]
          show ?thesis by blast
        next
          case 2
          with cb_list_select_in [OF ls [of d BAY_CB_DIRTY] 2(2) bay_wfD(7) [OF wf 2(2)] nj(1)] show ?thesis
            by (auto simp: cbs_of_def)
        qed
        with funs show "j \<in> ?L \<and> cb_fun (bay_cbs w' j) = cb_fun (bay_cbs w j)" by blast
      qed simp
    qed
  next
    case (CB_INPUT m' k)
    with ok have inp: "cb_input m' k c w = Inr w'" by simp
    have minv: "mux_inv w" using inv by (simp add: emu_inv_def)
    note wr = cb_input_ok(2) [OF wf minv lt CB_INPUT inp]
    have b: "bay_bchans w' = bay_bchans w" using wr by (simp add: bay_write_def)
    show ?thesis
    proof (cases "m = m'")
      case True
      with cb_input_view_upto [OF wf inv flat i CB_INPUT inp _ same [OF b]] view show ?thesis by simp
    next
      case False
      have u: "mux_used m' w" using minv lt CB_INPUT by (auto simp: mux_inv_def mux_cb_ok_def)
      show ?thesis
      proof (rule view_upto_cong [OF flat used view _ src])
        show "muxes w' m = muxes w m" using more_muxes [of w' w] wr by (simp add: bay_write_def)
        have "mx_output (muxes w m) \<noteq> mx_output (muxes w m')" using mux_flatD(5) [OF flat u used] False by auto
        then show "chan_read_at (mx_output (muxes w m)) w' = chan_read_at (mx_output (muxes w m)) w"
          using wr by (simp add: bay_write_def)
        fix j assume "j \<in> ?K" "cb_fun (bay_cbs w j) = CB_SELECT m \<or> (\<exists>k. cb_fun (bay_cbs w j) = CB_INPUT m k)"
        then show "j \<in> ?L \<and> cb_fun (bay_cbs w' j) = cb_fun (bay_cbs w j)"
          using same [OF b] False CB_INPUT funs by auto
      qed simp
    qed
  next
    case (SORT_CB_INPUT s k)
    with ok have "sort_cb_input s k c w = Inr w'" by simp
    then have r: "bay_bchans w' = bay_bchans w" "muxes w' = muxes w"
      "\<forall>d. (\<forall>j. d \<noteq> SortOutput s j) \<longrightarrow> bay_mem w' d = bay_mem w d"
      using sort_cb_input_inv [OF wf _ _ lt SORT_CB_INPUT] inv by (simp_all add: emu_inv_def)
    show ?thesis
    proof (rule view_upto_cong [OF flat used view _ src])
      show "chan_read_at (mx_output (muxes w m)) w' = chan_read_at (mx_output (muxes w m)) w"
        using r(3) mux_flatD(2) [OF flat used] by simp
      show "j \<in> ?L \<and> cb_fun (bay_cbs w' j) = cb_fun (bay_cbs w j)"
        if "j \<in> ?K" "cb_fun (bay_cbs w j) = CB_SELECT m \<or> (\<exists>k. cb_fun (bay_cbs w j) = CB_INPUT m k)" for j
        using that same [OF r(1)] SORT_CB_INPUT funs by auto
    qed (simp_all add: r)
  next
    case (CB_PRV p j)
    with ok have r: "bay_bchans w' = bay_bchans w" "muxes w' = muxes w" "bay_mem w' = bay_mem w"
      by (auto simp: cb_prv_def prv_update_def Let_def)
    show ?thesis
    proof (rule view_upto_cong [OF flat used view _ src])
      show "j' \<in> ?L \<and> cb_fun (bay_cbs w' j') = cb_fun (bay_cbs w j')"
        if "j' \<in> ?K" "cb_fun (bay_cbs w j') = CB_SELECT m \<or> (\<exists>k. cb_fun (bay_cbs w j') = CB_INPUT m k)" for j'
        using that same [OF r(1)] CB_PRV funs by auto
    qed (simp_all add: r)
  qed
qed

subsection \<open>The loops of the propagation\<close>

text \<open>A property of a loop over a list that also depends on the part of the list that is left.\<close>

lemma dl_foreach_rest:
  assumes "dl_foreach n lst body c w = Inr w'"
    and "P (dl_from c (lst w)) w" and "\<And>x. c = Some x \<Longrightarrow> x \<in> set (lst w)"
    and step: "\<And>x w w'. x \<in> set (lst w) \<Longrightarrow> P (dl_from (Some x) (lst w)) w \<Longrightarrow> body x w = Inr w' \<Longrightarrow>
      P (dl_from (next_after x (lst w')) (lst w')) w'"
  shows "P [] w'"
  using assms(1-3)
proof (induction n arbitrary: c w)
  case 0
  then show ?case by (cases c) auto
next
  case (Suc n)
  show ?case
  proof (cases c)
    case (Some x)
    with Suc.prems(1) obtain w1 where w1: "body x w = Inr w1"
      and rest: "dl_foreach n lst body (next_after x (lst w1)) w1 = Inr w'" by auto
    from step [OF _ _ w1] Suc.prems(2,3) Some have "P (dl_from (next_after x (lst w1)) (lst w1)) w1" by blast
    with rest show ?thesis by (rule Suc.IH) (rule next_after_in)
  qed (use Suc.prems in auto)
qed

text \<open>What a propagation leaves alone.\<close>

definition prop_frame :: "'x prv_bay_scheme \<Rightarrow> 'x prv_bay_scheme \<Rightarrow> bool" where
  "prop_frame w w' \<longleftrightarrow> prv_bay.more w' = prv_bay.more w \<and> (\<forall>m. mux_static (muxes w m) (muxes w' m))
     \<and> (\<forall>m. mux_used m w' = mux_used m w)
     \<and> (\<forall>d. is_source d \<longrightarrow> ch_type (bay_mem w' d) = ch_type (bay_mem w d)
          \<and> ch_prop (bay_mem w' d) = ch_prop (bay_mem w d) \<and> chan_read_at d w' = chan_read_at d w
          \<and> ch_stack (bay_mem w' d) = ch_stack (bay_mem w d))"

lemma prop_frame_refl: "prop_frame w w"
  by (simp add: prop_frame_def)

lemma prop_frame_trans: "prop_frame w w' \<Longrightarrow> prop_frame w' w'' \<Longrightarrow> prop_frame w w''"
  unfolding prop_frame_def by (auto intro: mux_static_trans)

text \<open>The callback of the select channel of a multiplexer is always enabled.\<close>

definition sel_wired :: "'x mux_bay_scheme \<Rightarrow> bool" where
  "sel_wired w \<longleftrightarrow> (\<forall>m. mux_used m w \<longrightarrow>
     (\<exists>i \<in> set (cb_list (mx_select (muxes w m)) BAY_CB_DIRTY w). cb_fun (bay_cbs w i) = CB_SELECT m))"

definition prop_inv :: "'x prv_bay_scheme \<Rightarrow> bool" where
  "prop_inv w \<longleftrightarrow> bay_wf w \<and> emu_inv w \<and> flat w \<and> sel_wired w"

lemma run_cb_sel_wired:
  assumes wf: "bay_wf w" and inv: "emu_inv w" and i: "i < bay_ncbs w"
    and ok: "run_cb (cb_fun (bay_cbs w i)) c w = Inr w'" and st: "\<And>m. mux_static (muxes w m) (muxes w' m)"
    and sw: "sel_wired w"
  shows "sel_wired w'"
proof -
  note r = run_cb_ok [OF wf inv i ok]
  then have funs: "\<And>j. cb_fun (bay_cbs w' j) = cb_fun (bay_cbs w j)" by (auto simp: bay_step_def)
  have "j \<in> set (cb_list d t w')" if "j \<in> set (cb_list d t w)" "cb_fun (bay_cbs w j) = CB_SELECT m" for j d t m
    using r that cb_list_select_in [of _ w "cb_list d t w" "cb_list d t w'" j] bay_wfD(7) [OF wf that(1)] by auto
  moreover have "mux_used m w' = mux_used m w" for m using r mux_used_step by blast
  moreover have "mx_select (muxes w' m) = mx_select (muxes w m)" for m using st [of m] by (simp add: mux_static_def)
  ultimately show ?thesis using sw unfolding sel_wired_def funs by metis
qed

lemma run_cb_prop:
  assumes inv: "prop_inv w" and i: "i \<in> set (cb_list c t w)" and ok: "run_cb (cb_fun (bay_cbs w i)) c w = Inr w'"
  shows "prop_inv w' \<and> bay_step w w' \<and> prop_frame w w'"
proof -
  from inv have w: "bay_wf w" "emu_inv w" "flat w" "sel_wired w" by (simp_all add: prop_inv_def)
  note lt = bay_wfD(7) [OF w(1) i]
  have "sel_wired w'" using run_cb_frame [OF w(1-3) lt ok] by (intro run_cb_sel_wired [OF w(1,2) lt ok _ w(4)]) blast
  with run_cb_ok [OF w(1,2) lt ok] run_cb_frame [OF w(1-3) lt ok] show ?thesis
    by (auto simp: prop_inv_def prop_frame_def dest: bay_step_wf)
qed

definition views_upto :: "nat set \<Rightarrow> nat set \<Rightarrow> 'x mux_bay_scheme \<Rightarrow> bool" where
  "views_upto M K w \<longleftrightarrow> (\<forall>m \<in> M. mux_used m w \<longrightarrow> view_upto K m w)"

lemma propagate_chan_views:
  assumes inv: "prop_inv w" and ok: "propagate_chan run_cb n t c w = Inr w'"
    and views: "views_upto M (set (cb_list c t w) \<union> cbs_of D w) w"
  shows "prop_inv w' \<and> bay_step w w' \<and> prop_frame w w' \<and> views_upto M (cbs_of D w') w'"
proof -
  have "prop_inv w' \<and> bay_step w w' \<and> prop_frame w w' \<and> views_upto M (set [] \<union> cbs_of D w') w'"
    using ok unfolding propagate_chan_def
  proof (rule dl_foreach_rest [where P = "\<lambda>R v. prop_inv v \<and> bay_step w v \<and> prop_frame w v \<and> views_upto M (set R \<union> cbs_of D v) v"])
    fix i v v'
    assume i: "i \<in> set (cb_list c t v)" and ok: "run_cb (cb_fun (bay_cbs v i)) c v = Inr v'"
      and P: "prop_inv v \<and> bay_step w v \<and> prop_frame w v
        \<and> views_upto M (set (dl_from (Some i) (cb_list c t v)) \<union> cbs_of D v) v"
    then have v: "bay_wf v" "emu_inv v" "flat v" by (simp_all add: prop_inv_def)
    from P have r: "prop_inv v' \<and> bay_step v v' \<and> prop_frame v v'" using run_cb_prop [OF _ i ok] by blast
    moreover have "views_upto M (set (dl_from (next_after i (cb_list c t v')) (cb_list c t v')) \<union> cbs_of D v') v'"
      using P r run_cb_view [OF v i ok] by (auto simp: views_upto_def prop_frame_def)
    ultimately show "prop_inv v' \<and> bay_step w v' \<and> prop_frame w v'
        \<and> views_upto M (set (dl_from (next_after i (cb_list c t v')) (cb_list c t v')) \<union> cbs_of D v') v'"
      using P bay_step_trans prop_frame_trans by blast
  qed (use inv views in \<open>auto simp: prop_frame_refl bay_step_refl prop_inv_def dest: dl_head_in\<close>)
  then show ?thesis by simp
qed

text \<open>The channels that are left after \<open>c\<close> in the dirty list.\<close>

lemma dirty_rest:
  assumes wf: "bay_wf w" and c: "c \<in> set (bay_dirty w)" and s: "bay_step w w'"
  shows "set (dl_from (Some c) (bay_dirty w)) \<subseteq> insert c (set (dl_from (next_after c (bay_dirty w')) (bay_dirty w')))"
proof -
  obtain ys where ys: "bay_dirty w' = bay_dirty w @ ys" and wf': "bay_wf w'" using s by (auto simp: bay_step_def)
  from dl_from_Some [OF c] obtain zs where zs: "dl_from (Some c) (bay_dirty w) = c # zs" ..
  then have "dl_from (Some c) (bay_dirty w') = c # zs @ ys" using dl_from_append [OF c, of ys] ys by simp
  then have "dl_from (next_after c (bay_dirty w')) (bay_dirty w') = zs @ ys"
    using bay_wfD(1) [OF wf'] dl_from_next by fastforce
  with zs show ?thesis by auto
qed

lemma dirty_phase_views:
  assumes inv: "prop_inv w" and views: "views_upto M (cbs_of (set (bay_dirty w)) w) w"
    and ok: "dl_foreach n bay_dirty (propagate_chan run_cb n BAY_CB_DIRTY) (dl_head (bay_dirty w)) w = Inr w'"
  shows "prop_inv w' \<and> bay_step w w' \<and> prop_frame w w' \<and> views_upto M {} w'"
proof -
  have "prop_inv w' \<and> bay_step w w' \<and> prop_frame w w' \<and> views_upto M (cbs_of (set []) w') w'"
    using ok
  proof (rule dl_foreach_rest [where P = "\<lambda>R v. prop_inv v \<and> bay_step w v \<and> prop_frame w v \<and> views_upto M (cbs_of (set R) v) v"])
    fix c v v'
    assume c: "c \<in> set (bay_dirty v)" and ok: "propagate_chan run_cb n BAY_CB_DIRTY c v = Inr v'"
      and P: "prop_inv v \<and> bay_step w v \<and> prop_frame w v \<and> views_upto M (cbs_of (set (dl_from (Some c) (bay_dirty v))) v) v"
    let ?D = "set (dl_from (Some c) (bay_dirty v)) - {c}"
    have "views_upto M (set (cb_list c BAY_CB_DIRTY v) \<union> cbs_of ?D v) v"
      using P by (auto simp: views_upto_def cbs_of_def elim!: view_upto_mono)
    with P propagate_chan_views [OF _ ok] have r: "prop_inv v' \<and> bay_step v v' \<and> prop_frame v v' \<and> views_upto M (cbs_of ?D v') v'"
      by blast
    have "?D \<subseteq> set (dl_from (next_after c (bay_dirty v')) (bay_dirty v'))"
      using dirty_rest [OF _ c, of v'] P r by (auto simp: prop_inv_def)
    with r have "views_upto M (cbs_of (set (dl_from (next_after c (bay_dirty v')) (bay_dirty v'))) v') v'"
      unfolding views_upto_def using view_upto_mono cbs_of_mono by blast
    with P r show "prop_inv v' \<and> bay_step w v' \<and> prop_frame w v'
        \<and> views_upto M (cbs_of (set (dl_from (next_after c (bay_dirty v')) (bay_dirty v'))) v') v'"
      using bay_step_trans prop_frame_trans by blast
  qed (use inv views in \<open>auto simp: prop_frame_refl bay_step_refl prop_inv_def dest: dl_head_in\<close>)
  then show ?thesis by (simp add: cbs_of_def)
qed

lemma emit_phase_views:
  assumes inv: "prop_inv w" and views: "views_upto M {} w"
    and ok: "dl_foreach n bay_dirty (propagate_chan run_cb n BAY_CB_EMIT) (dl_head (bay_dirty w)) w = Inr w'"
  shows "prop_inv w' \<and> bay_step w w' \<and> prop_frame w w' \<and> views_upto M {} w'"
  using ok
proof (rule dl_foreach_invar [where I = "\<lambda>v. prop_inv v \<and> bay_step w v \<and> prop_frame w v \<and> views_upto M {} v"])
  fix c v v'
  assume P: "prop_inv v \<and> bay_step w v \<and> prop_frame w v \<and> views_upto M {} v"
    and ok: "propagate_chan run_cb n BAY_CB_EMIT c v = Inr v'"
  from P have "views_upto M (set (cb_list c BAY_CB_EMIT v) \<union> cbs_of {} v) v"
    by (auto simp: views_upto_def elim: view_upto_mono)
  with P propagate_chan_views [OF _ ok] have "prop_inv v' \<and> bay_step v v' \<and> prop_frame v v' \<and> views_upto M (cbs_of {} v') v'"
    by blast
  with P bay_step_trans [of w v v'] prop_frame_trans [of w v v']
  show "prop_inv v' \<and> bay_step w v' \<and> prop_frame w v' \<and> views_upto M {} v'" by (simp add: cbs_of_def)
qed (use inv views in \<open>auto simp: prop_frame_refl bay_step_refl prop_inv_def dest: dl_head_in\<close>)

lemma prop_inv_state: "prop_inv w \<Longrightarrow> prop_inv (w\<lparr>bay_state := st\<rparr>)"
  unfolding prop_inv_def flat_def mux_flat_def mux_used_def sel_wired_def by (simp add: emu_bay.inv_state)

lemma views_upto_cong:
  assumes "muxes w' = muxes w" "bay_cbs w' = bay_cbs w" "bay_ncbs w' = bay_ncbs w"
    and rd: "\<And>c. chan_read_at c w' = chan_read_at c w"
  shows "views_upto M K w' = views_upto M K w"
proof -
  have "select_input mx v w' = select_input mx v w" "mux_out_value mx s w' = mux_out_value mx s w" for mx v s
    using rd by (simp_all add: select_input_def mux_out_value_def split: option.split)
  with assms show ?thesis by (simp add: views_upto_def view_upto_def mux_chosen_def mux_used_def)
qed

lemma views_upto_state: "views_upto M K (w\<lparr>bay_state := st\<rparr>) = views_upto M K w"
  by (rule views_upto_cong) simp_all

lemma prop_frame_state: "prop_frame w (w'\<lparr>bay_state := st\<rparr>) = prop_frame w w'" "prop_frame (w\<lparr>bay_state := st\<rparr>) w' = prop_frame w w'"
  by (simp_all add: prop_frame_def mux_used_def)

lemma flush_all_frame:
  assumes wf: "bay_wf w" and ok: "foldr_res flush_chan (bay_dirty w) w = Inr w'"
  shows "prop_frame w (w'\<lparr>bay_dirty := [], bay_state := st\<rparr>)" and "views_upto M {} w \<Longrightarrow> views_upto M {} (w'\<lparr>bay_dirty := [], bay_state := st\<rparr>)"
    and "flat w \<Longrightarrow> flat w'" and "sel_wired w \<Longrightarrow> sel_wired w'"
proof -
  have d: "ch_is_dirty (bay_mem w c)" if "c \<in> set (bay_dirty w)" for c
    using that bay_wfD(4) [OF wf] by blast
  from ok flush_all [OF bay_wfD(1) [OF wf] d]
  have w': "w' = w\<lparr>bay_mem := (\<lambda>c. if c \<in> set (bay_dirty w) then flushed (bay_mem w c) else bay_mem w c),
      bay_bchans := (\<lambda>c. if c \<in> set (bay_dirty w) then (bay_bchans w c)\<lparr>bc_is_dirty := False\<rparr> else bay_bchans w c)\<rparr>"
    by simp
  have rd: "chan_read_at c w' = chan_read_at c w" for c by (simp add: w')
  have m: "muxes w' = muxes w" "bay_cbs w' = bay_cbs w" "bay_ncbs w' = bay_ncbs w" by (simp_all add: w')
  have "ch_type (bay_mem w' c) = ch_type (bay_mem w c) \<and> ch_prop (bay_mem w' c) = ch_prop (bay_mem w c)
      \<and> ch_stack (bay_mem w' c) = ch_stack (bay_mem w c)" for c
    by (simp add: w' flushed_def)
  moreover have "prv_bay.more w' = prv_bay.more w" by (simp add: w')
  ultimately show "prop_frame w (w'\<lparr>bay_dirty := [], bay_state := st\<rparr>)" using rd m by (simp add: prop_frame_def mux_used_def)
  show "views_upto M {} w \<Longrightarrow> views_upto M {} (w'\<lparr>bay_dirty := [], bay_state := st\<rparr>)"
    using views_upto_cong [of "w'\<lparr>bay_dirty := [], bay_state := st\<rparr>" w] rd m by simp
  show "flat w \<Longrightarrow> flat w'" unfolding flat_def mux_flat_def mux_used_def m .
  have "cb_list c t w' = cb_list c t w" for c t by (simp add: w')
  then show "sel_wired w \<Longrightarrow> sel_wired w'" by (simp add: sel_wired_def mux_used_def m)
qed

theorem propagate_views:
  assumes inv: "prop_inv w" and views: "views_upto M (cbs_of (set (bay_dirty w)) w) w" and n: "card (registered w) \<le> n"
    and ok: "bay_propagate run_cb n w = Inr w'"
  shows "prop_inv w' \<and> prop_frame w w' \<and> views_upto M {} w'"
proof -
  let ?w0 = "w\<lparr>bay_state := BAY_PROPAGATING\<rparr>"
  obtain w1 w2 w3 where
    1: "dl_foreach n bay_dirty (propagate_chan run_cb n BAY_CB_DIRTY) (dl_head (bay_dirty ?w0)) ?w0 = Inr w1"
    and 2: "dl_foreach n bay_dirty (propagate_chan run_cb n BAY_CB_EMIT) (dl_head (bay_dirty w1))
          (w1\<lparr>bay_state := BAY_EMITTING\<rparr>) = Inr w2"
    and 3: "dl_foreach n bay_dirty flush_chan (dl_head (bay_dirty w2)) (w2\<lparr>bay_state := BAY_FLUSHING\<rparr>) = Inr w3"
    and w': "w' = w3\<lparr>bay_dirty := [], bay_state := BAY_READY\<rparr>"
    using ok by (auto simp: bay_propagate_def Let_def)
  have "views_upto M (cbs_of (set (bay_dirty ?w0)) ?w0) ?w0" using views by (simp add: views_upto_state cbs_of_def)
  from dirty_phase_views [OF prop_inv_state [OF inv] this 1]
  have r1: "prop_inv w1" "bay_step ?w0 w1" "prop_frame w w1" "views_upto M {} w1" by (simp_all add: prop_frame_state)
  let ?w1 = "w1\<lparr>bay_state := BAY_EMITTING\<rparr>" and ?w2 = "w2\<lparr>bay_state := BAY_FLUSHING\<rparr>"
  have r2: "prop_inv w2" "bay_step ?w1 w2" "prop_frame w1 w2" "views_upto M {} w2"
    using emit_phase_views [OF prop_inv_state [OF r1(1)], of M BAY_EMITTING n w2] r1(4) 2
    by (simp_all add: prop_frame_state views_upto_state)
  have w2: "bay_wf ?w2" "registered ?w2 = registered w" "views_upto M {} ?w2" "prop_frame w ?w2" "flat ?w2" "sel_wired ?w2"
    using r1 r2 prop_frame_trans prop_inv_state [OF r2(1)] unfolding prop_inv_def views_upto_state prop_frame_state
    by (auto simp: bay_step_def)
  have fl: "foldr_res flush_chan (bay_dirty ?w2) ?w2 = Inr w3"
    using 3 flush_loop [OF w2(1), of n] w2(2) n by simp
  note f = flush_all_frame [OF w2(1) fl]
  have "prop_frame w w'" "views_upto M {} w'" using f(1,2) w2 w' prop_frame_trans by blast+
  moreover have "flat w'" using f(3) [OF w2(5)] w' by (simp add: flat_def mux_flat_def mux_used_def)
  moreover have "sel_wired w'" using f(4) [OF w2(6)] w' by (simp add: sel_wired_def mux_used_def)
  moreover have "bay_wf w' \<and> emu_inv w'"
    using emu_bay.propagate_ok [OF _ _ n ok] inv by (simp add: prop_inv_def)
  ultimately show ?thesis by (simp add: prop_inv_def)
qed

subsection \<open>Events and propagation\<close>

text \<open>What an event does to the bay: it writes channels of the emulator, which become dirty, and nothing of the wiring.\<close>

definition src_step :: "'x prv_bay_scheme \<Rightarrow> 'x prv_bay_scheme \<Rightarrow> bool" where
  "src_step w w' \<longleftrightarrow> bay_step w w' \<and> bay_bchans w' = bay_bchans w \<and> bay_cbs w' = bay_cbs w
     \<and> muxes w' = muxes w \<and> sorts w' = sorts w \<and> prvs w' = prvs w
     \<and> (\<forall>c. same_chan (bay_mem w c) (bay_mem w' c))
     \<and> (\<forall>c. bay_mem w' c = bay_mem w c \<or> is_source c \<and> ch_is_dirty (bay_mem w' c))"

lemma src_step_refl: "bay_wf w \<Longrightarrow> src_step w w"
  by (simp add: src_step_def bay_step_refl)

lemma src_step_trans [trans]: "src_step w w' \<Longrightarrow> src_step w' w'' \<Longrightarrow> src_step w w''"
  unfolding src_step_def same_chan_def using bay_step_trans by (metis (no_types, lifting))

lemma src_step_inv:
  assumes inv: "prop_inv w" and s: "src_step w w'"
  shows "prop_inv w'"
proof -
  have ch: "ch_type (bay_mem w' c) = ch_type (bay_mem w c) \<and> ch_prop (bay_mem w' c) = ch_prop (bay_mem w c)" for c
    using s by (simp add: src_step_def same_chan_def)
  from inv have i: "mux_inv w" "sort_inv w" "prv_inv w" by (simp_all add: prop_inv_def emu_inv_def)
  have "mux_inv w'" by (rule mux_inv_cong [OF i(1)]) (use s ch in \<open>auto simp: src_step_def bay_step_def\<close>)
  moreover have "sort_inv w'" by (rule sort_inv_cong [OF i(2)]) (use s ch in \<open>auto simp: src_step_def bay_step_def\<close>)
  moreover have "prv_inv w'" by (rule prv_inv_cong [OF i(3)]) (use s ch in \<open>auto simp: src_step_def bay_step_def\<close>)
  moreover have "bay_ncbs w' = bay_ncbs w" "muxes w' = muxes w" "bay_cbs w' = bay_cbs w" "bay_bchans w' = bay_bchans w" "bay_wf w'"
    using s by (simp_all add: src_step_def bay_step_def)
  ultimately show ?thesis using inv unfolding prop_inv_def emu_inv_def flat_def mux_flat_def sel_wired_def mux_used_def by simp
qed

lemma src_step_views:
  assumes inv: "prop_inv w" and s: "src_step w w'"
    and views: "\<And>m. m \<in> M \<Longrightarrow> mux_used m w \<Longrightarrow> mux_view m w \<or> mx_select (muxes w m) \<in> set (bay_dirty w')"
  shows "views_upto M (cbs_of (set (bay_dirty w')) w') w'"
  unfolding views_upto_def
proof (intro ballI impI)
  fix m assume m: "m \<in> M" "mux_used m w'"
  then have u: "mux_used m w" using s mux_used_step by (auto simp: src_step_def)
  from inv s have wf: "bay_wf w" "bay_wf w'" "flat w" "mux_inv w" by (auto simp: prop_inv_def emu_inv_def src_step_def bay_step_def)
  have eqs: "muxes w' = muxes w" "bay_cbs w' = bay_cbs w" "bay_bchans w' = bay_bchans w" "bay_ncbs w' = bay_ncbs w"
    "registered w' = registered w" using s by (auto simp: src_step_def bay_step_def)
  have dirty: "c \<in> set (bay_dirty w')" if "bay_mem w' c \<noteq> bay_mem w c" "i \<in> set (cb_list c t w)" for c i t
  proof -
    have "c \<in> registered w" using wf(1) that(2) by (auto simp: bay_wf_defs)
    moreover have "ch_is_dirty (bay_mem w' c)" using s that(1) by (auto simp: src_step_def)
    ultimately show ?thesis using bay_wfD(4) [OF wf(2)] eqs(5) by blast
  qed
  let ?K = "cbs_of (set (bay_dirty w')) w'"
  let ?sel = "mx_select (muxes w m)"
  note fl = mux_flatD [OF wf(3) u]
  from inv u obtain i where i: "i \<in> set (cb_list ?sel BAY_CB_DIRTY w)" "cb_fun (bay_cbs w i) = CB_SELECT m"
    by (auto simp: prop_inv_def sel_wired_def)
  show "view_upto ?K m w'"
  proof (cases "?sel \<in> set (bay_dirty w')")
    case True
    with i have "i \<in> ?K" by (auto simp: cbs_of_def eqs)
    with i(2) show ?thesis unfolding view_upto_def eqs by blast
  next
    case False
    with dirty i(1) have True: "bay_mem w' ?sel = bay_mem w ?sel" by blast
    from views [OF m(1) u] False obtain sel where ch: "mux_chosen m w sel"
      and out: "chan_read_at (mx_output (muxes w m)) w = mux_out_value (muxes w m) sel w"
      by (auto simp: mux_view_def)
    have out': "chan_read_at (mx_output (muxes w m)) w' = mux_out_value (muxes w m) sel w"
      using s fl(1) out unfolding src_step_def by metis
    have "select_input (muxes w m) v w' = select_input (muxes w m) v w" for v
      using inv u by (auto simp: prop_inv_def flat_def mux_flat_def Let_def select_input_def default_select_def split: option.split)
    with ch True have ch': "mux_chosen m w' sel" by (simp add: mux_chosen_def eqs)
    show ?thesis
    proof (cases "mux_out_value (muxes w m) sel w' = mux_out_value (muxes w m) sel w")
      case True
      with ch' out' show ?thesis unfolding view_upto_def eqs by metis
    next
      case False
      then obtain k c where k: "sel = Some k" "mux_input_chan (muxes w m) k = Some c" and "chan_read_at c w' \<noteq> chan_read_at c w"
        by (auto simp: mux_out_value_def split: option.splits)
      then have k: "sel = Some k" "mux_input_chan (muxes w m) k = Some c" "bay_mem w' c \<noteq> bay_mem w c" by auto
      have kl: "k < length (mx_inputs (muxes w m))" "mi_selected (mx_inputs (muxes w m) ! k)" using ch k(1) by (auto simp: mux_chosen_def Let_def)
      then have "mi_chan (mx_inputs (muxes w m) ! k) = Some c" using k(2) by (simp add: mux_input_chan_def)
      moreover have "mux_input_ok m k w" using wf(4) u kl(1) by (simp add: mux_inv_def mux_ok_def)
      ultimately obtain i where i: "i < bay_ncbs w" "cb_fun (bay_cbs w i) = CB_INPUT m k" "cb_type (bay_cbs w i) = BAY_CB_DIRTY"
        "cb_bchan (bay_cbs w i) = c" "cb_enabled (bay_cbs w i)"
        using kl(2) by (auto simp: mux_input_ok_def Let_def)
      then have il: "i \<in> set (cb_list c BAY_CB_DIRTY w)" using wf(1) by (simp add: bay_wf_defs)
      with dirty [OF k(3)] have "i \<in> ?K" by (auto simp: cbs_of_def eqs)
      with i(2) k(1) ch' show ?thesis unfolding view_upto_def eqs by blast
    qed
  qed
qed


end
