(* ===== verification/Body.thy ===== *)
theory Body
  imports Prelude
begin

text \<open>
  Task bodies and the stacks they run on: \<^verbatim>\<open>src/emu/body.h\<close> and \<^verbatim>\<open>src/emu/body.c\<close>.

  A body is named by the table of tasks it belongs to (one per runtime model and process), the
  identifier of its task and its own identifier. A stack belongs to a thread, for one model. The
  doubly linked list of a stack is a list with the top first. A pointer that may be NULL is a name
  that may be absent from the table of bodies.
\<close>

subsection \<open>Data\<close>

datatype body_flag = BODY_FLAG_PAUSE | BODY_FLAG_RESURRECT | BODY_FLAG_RELAX_NESTING

datatype body_state = BODY_ST_CREATED | BODY_ST_RUNNING | BODY_ST_PAUSED | BODY_ST_DEAD

datatype info_ref = InfoRef nat nat \<comment> \<open>model, process\<close>
datatype stack_ref = StackRef nat nat \<comment> \<open>model, thread\<close>
datatype task_ref = TaskRef info_ref "32 word"
datatype body_ref = BodyRef task_ref "32 word"

record body =
  bd_flags :: "body_flag \<Rightarrow> bool"
  bd_state :: body_state
  bd_stack :: "stack_ref option"
  bd_iteration :: nat

record body_world =
  bodies :: "body_ref \<rightharpoonup> body"
  body_stacks :: "stack_ref \<Rightarrow> body_ref list"

subsection \<open>Operations\<close>

definition body_find :: "task_ref \<Rightarrow> 32 word \<Rightarrow> 'x body_world_scheme \<Rightarrow> body option" where
  "body_find t body_id w = bodies w (BodyRef t body_id)"

definition body_create ::
  "task_ref \<Rightarrow> 32 word \<Rightarrow> (body_flag \<Rightarrow> bool) \<Rightarrow> 'x body_world_scheme \<Rightarrow> 'x body_world_scheme res" where
  "body_create t body_id flags w =
     (if body_id = 0 then Inl (EBody BodyIdZero)
      else if body_find t body_id w \<noteq> None then Inl (EBody BodyExists)
      else Inr (w\<lparr>bodies := (bodies w)(BodyRef t body_id \<mapsto>
             \<lparr>bd_flags = flags, bd_state = BODY_ST_CREATED, bd_stack = None, bd_iteration = 0\<rparr>)\<rparr>))"

definition body_get_top :: "stack_ref \<Rightarrow> 'x body_world_scheme \<Rightarrow> body_ref option" where
  "body_get_top s w = (case body_stacks w s of [] \<Rightarrow> None | k # _ \<Rightarrow> Some k)"

definition body_get_running :: "stack_ref \<Rightarrow> 'x body_world_scheme \<Rightarrow> body_ref option" where
  "body_get_running s w =
     (case body_stacks w s of
        [] \<Rightarrow> None
      | k # _ \<Rightarrow> (case bodies w k of
                    None \<Rightarrow> None
                  | Some b \<Rightarrow> if bd_state b = BODY_ST_RUNNING then Some k else None))"

definition body_can_resurrect :: "body \<Rightarrow> bool" where
  "body_can_resurrect b = bd_flags b BODY_FLAG_RESURRECT"

definition body_can_pause :: "body \<Rightarrow> bool" where
  "body_can_pause b = bd_flags b BODY_FLAG_PAUSE"

definition body_put :: "body_ref \<Rightarrow> body \<Rightarrow> 'x body_world_scheme \<Rightarrow> 'x body_world_scheme" where
  "body_put k b w = w\<lparr>bodies := (bodies w)(k \<mapsto> b)\<rparr>"

definition body_revive :: "body \<Rightarrow> body res" where
  "body_revive b =
     (if bd_state b = BODY_ST_DEAD
      then (if \<not> body_can_resurrect b then Inl (EBody BodyNoResurrect)
            else Inr (b\<lparr>bd_state := BODY_ST_CREATED, bd_iteration := Suc (bd_iteration b)\<rparr>))
      else Inr b)"

definition body_nesting :: "stack_ref \<Rightarrow> 'x body_world_scheme \<Rightarrow> bool" where
  "body_nesting s w \<longleftrightarrow>
     (case body_get_running s w of
        None \<Rightarrow> True
      | Some k \<Rightarrow> (case bodies w k of None \<Rightarrow> False | Some b \<Rightarrow> bd_flags b BODY_FLAG_RELAX_NESTING))"

definition body_execute :: "stack_ref \<Rightarrow> body_ref \<Rightarrow> 'x body_world_scheme \<Rightarrow> 'x body_world_scheme res" where
  "body_execute s k w =
     (case bodies w k of
        None \<Rightarrow> Inl (EBody BodyNull)
      | Some b0 \<Rightarrow>
          rbind (body_revive b0) (\<lambda>b.
          if bd_state b = BODY_ST_PAUSED then Inl (EBody BodyPaused)
          else if bd_state b \<noteq> BODY_ST_CREATED then Inl (EBody BodyNotCreated)
          else if bd_stack b \<noteq> None then Inl (EBody BodyStackSet)
          else if \<not> body_nesting s w then Inl (EBody BodyNested)
          else Inr ((body_put k (b\<lparr>bd_stack := Some s, bd_state := BODY_ST_RUNNING\<rparr>) w)
                 \<lparr>body_stacks := (body_stacks w)(s := k # body_stacks w s)\<rparr>)))"

text \<open>The checks on the stack that pause, resume and end share.\<close>

definition body_on_top :: "stack_ref \<Rightarrow> body_ref \<Rightarrow> body \<Rightarrow> 'x body_world_scheme \<Rightarrow> unit res" where
  "body_on_top s k b w =
     (if bd_stack b = None then Inl (EBody BodyStackUnset)
      else if bd_stack b \<noteq> Some s then Inl (EBody BodyOtherStack)
      else if body_get_top s w \<noteq> Some k then Inl (EBody BodyNotTop)
      else Inr ())"

definition body_pause :: "stack_ref \<Rightarrow> body_ref \<Rightarrow> 'x body_world_scheme \<Rightarrow> 'x body_world_scheme res" where
  "body_pause s k w =
     (case bodies w k of
        None \<Rightarrow> Inl (EBody BodyNull)
      | Some b \<Rightarrow>
          if \<not> body_can_pause b then Inl (EBody BodyNoPause)
          else if bd_state b \<noteq> BODY_ST_RUNNING then Inl (EBody BodyNotRunning)
          else rbind (body_on_top s k b w) (\<lambda>_.
            Inr (body_put k (b\<lparr>bd_state := BODY_ST_PAUSED\<rparr>) w)))"

definition body_resume :: "stack_ref \<Rightarrow> body_ref \<Rightarrow> 'x body_world_scheme \<Rightarrow> 'x body_world_scheme res" where
  "body_resume s k w =
     (case bodies w k of
        None \<Rightarrow> Inl (EBody BodyNull)
      | Some b \<Rightarrow>
          if bd_state b \<noteq> BODY_ST_PAUSED then Inl (EBody BodyNotPaused)
          else rbind (body_on_top s k b w) (\<lambda>_.
            Inr (body_put k (b\<lparr>bd_state := BODY_ST_RUNNING\<rparr>) w)))"

definition body_end :: "stack_ref \<Rightarrow> body_ref \<Rightarrow> 'x body_world_scheme \<Rightarrow> 'x body_world_scheme res" where
  "body_end s k w =
     (case bodies w k of
        None \<Rightarrow> Inl (EBody BodyNull)
      | Some b \<Rightarrow>
          if bd_state b \<noteq> BODY_ST_RUNNING then Inl (EBody BodyNotRunning)
          else rbind (body_on_top s k b w) (\<lambda>_.
            Inr ((body_put k (b\<lparr>bd_state := BODY_ST_DEAD, bd_stack := None\<rparr>) w)
                  \<lparr>body_stacks := (body_stacks w)(s := remove1 k (body_stacks w s))\<rparr>)))"

subsection \<open>The invariant of the stacks\<close>

text \<open>A body is on a stack exactly while it runs or is paused, on one stack and once. Only the top
  of a stack runs, except below it where a body allows relaxed nesting; only a body that may pause is
  paused.\<close>

definition body_wf :: "'x body_world_scheme \<Rightarrow> bool" where
  "body_wf w \<longleftrightarrow>
     (\<forall>s. distinct (body_stacks w s))
     \<and> (\<forall>s k. k \<in> set (body_stacks w s) \<longleftrightarrow> (\<exists>b. bodies w k = Some b \<and> bd_stack b = Some s))
     \<and> (\<forall>k b. bodies w k = Some b \<longrightarrow>
          (bd_stack b \<noteq> None \<longleftrightarrow> bd_state b = BODY_ST_RUNNING \<or> bd_state b = BODY_ST_PAUSED)
          \<and> (bd_state b = BODY_ST_PAUSED \<longrightarrow> bd_flags b BODY_FLAG_PAUSE))
     \<and> (\<forall>s k b. k \<in> set (tl (body_stacks w s)) \<longrightarrow> bodies w k = Some b \<longrightarrow>
          bd_state b = BODY_ST_PAUSED \<or> bd_flags b BODY_FLAG_RELAX_NESTING)"

lemma body_on_top_ok [simp]:
  "body_on_top s k b w = Inr u \<longleftrightarrow> bd_stack b = Some s \<and> (\<exists>ks. body_stacks w s = k # ks)"
  by (auto simp: body_on_top_def body_get_top_def split: list.splits)

lemma in_tlD: "x \<in> set (tl xs) \<Longrightarrow> x \<in> set xs"
  by (cases xs) auto

lemma body_wfD:
  assumes "body_wf w"
  shows "distinct (body_stacks w s)"
    and "k \<in> set (body_stacks w s) \<longleftrightarrow> (\<exists>b. bodies w k = Some b \<and> bd_stack b = Some s)"
    and "bodies w k = Some b \<Longrightarrow>
          (bd_stack b \<noteq> None) = (bd_state b = BODY_ST_RUNNING \<or> bd_state b = BODY_ST_PAUSED)
          \<and> (bd_state b = BODY_ST_PAUSED \<longrightarrow> bd_flags b BODY_FLAG_PAUSE)"
    and "k \<in> set (tl (body_stacks w s)) \<Longrightarrow> bodies w k = Some b \<Longrightarrow>
          bd_state b = BODY_ST_PAUSED \<or> bd_flags b BODY_FLAG_RELAX_NESTING"
  using assms unfolding body_wf_def by blast+

lemma body_wfI:
  assumes "\<And>s. distinct (body_stacks w s)"
    and "\<And>s k. k \<in> set (body_stacks w s) \<longleftrightarrow> (\<exists>b. bodies w k = Some b \<and> bd_stack b = Some s)"
    and "\<And>k b. bodies w k = Some b \<Longrightarrow>
          (bd_stack b \<noteq> None) = (bd_state b = BODY_ST_RUNNING \<or> bd_state b = BODY_ST_PAUSED)
          \<and> (bd_state b = BODY_ST_PAUSED \<longrightarrow> bd_flags b BODY_FLAG_PAUSE)"
    and "\<And>s k b. k \<in> set (tl (body_stacks w s)) \<Longrightarrow> bodies w k = Some b \<Longrightarrow>
          bd_state b = BODY_ST_PAUSED \<or> bd_flags b BODY_FLAG_RELAX_NESTING"
  shows "body_wf w"
  unfolding body_wf_def using assms by blast

lemma body_create_wf:
  assumes wf: "body_wf w" and ok: "body_create t i fl w = Inr w'"
  shows "body_wf w'"
proof -
  let ?k = "BodyRef t i"
  have none: "bodies w ?k = None"
    and w': "w' = w\<lparr>bodies := (bodies w)(?k \<mapsto> \<lparr>bd_flags = fl, bd_state = BODY_ST_CREATED,
         bd_stack = None, bd_iteration = 0\<rparr>)\<rparr>"
    using ok by (auto simp: body_create_def body_find_def split: if_splits)
  have notin: "?k \<notin> set (body_stacks w s)" for s using body_wfD(2) [OF wf, of ?k s] none by simp
  show ?thesis
  proof (rule body_wfI)
    show "j \<in> set (body_stacks w' s) \<longleftrightarrow> (\<exists>b. bodies w' j = Some b \<and> bd_stack b = Some s)" for s j
      using body_wfD(2) [OF wf, of j s] notin [of s] by (auto simp: w')
    fix s j b assume "j \<in> set (tl (body_stacks w' s))" "bodies w' j = Some b"
    then show "bd_state b = BODY_ST_PAUSED \<or> bd_flags b BODY_FLAG_RELAX_NESTING"
      using body_wfD(4) [OF wf, of j s b] notin [of s] in_tlD [of j "body_stacks w s"]
      by (auto simp: w' split: if_splits)
  next
    fix j b assume "bodies w' j = Some b"
    then show "(bd_stack b \<noteq> None) = (bd_state b = BODY_ST_RUNNING \<or> bd_state b = BODY_ST_PAUSED)
          \<and> (bd_state b = BODY_ST_PAUSED \<longrightarrow> bd_flags b BODY_FLAG_PAUSE)"
      using body_wfD(3) [OF wf, of j b] by (cases "j = ?k") (auto simp: w')
  qed (simp add: w' body_wfD(1) [OF wf])
qed

lemma body_pause_ok [okD]:
  "body_pause s k w = Inr w' \<Longrightarrow> \<exists>b ks. bodies w k = Some b \<and> bd_state b = BODY_ST_RUNNING
     \<and> bd_flags b BODY_FLAG_PAUSE \<and> bd_stack b = Some s \<and> body_stacks w s = k # ks
     \<and> w' = body_put k (b\<lparr>bd_state := BODY_ST_PAUSED\<rparr>) w"
  by (auto simp: body_pause_def body_can_pause_def split: option.splits if_splits)

lemma body_resume_ok [okD]:
  "body_resume s k w = Inr w' \<Longrightarrow> \<exists>b ks. bodies w k = Some b \<and> bd_state b = BODY_ST_PAUSED
     \<and> bd_stack b = Some s \<and> body_stacks w s = k # ks
     \<and> w' = body_put k (b\<lparr>bd_state := BODY_ST_RUNNING\<rparr>) w"
  by (auto simp: body_resume_def split: option.splits if_splits)

lemma body_end_ok [okD]:
  "body_end s k w = Inr w' \<Longrightarrow> \<exists>b ks. bodies w k = Some b \<and> bd_state b = BODY_ST_RUNNING
     \<and> bd_stack b = Some s \<and> body_stacks w s = k # ks
     \<and> w' = (body_put k (b\<lparr>bd_state := BODY_ST_DEAD, bd_stack := None\<rparr>) w)
              \<lparr>body_stacks := (body_stacks w)(s := ks)\<rparr>"
  by (auto simp: body_end_def split: option.splits if_splits)

lemma body_execute_ok [okD]:
  assumes "body_execute s k w = Inr w'"
  shows "\<exists>b n. bodies w k = Some b \<and> bd_stack b = None
     \<and> (bd_state b = BODY_ST_CREATED \<and> n = bd_iteration b
        \<or> bd_state b = BODY_ST_DEAD \<and> bd_flags b BODY_FLAG_RESURRECT \<and> n = Suc (bd_iteration b))
     \<and> body_nesting s w
     \<and> w' = (body_put k (b\<lparr>bd_iteration := n, bd_stack := Some s, bd_state := BODY_ST_RUNNING\<rparr>) w)
              \<lparr>body_stacks := (body_stacks w)(s := k # body_stacks w s)\<rparr>"
proof -
  obtain b0 where b0: "bodies w k = Some b0" using assms by (auto simp: body_execute_def split: option.splits)
  show ?thesis
  proof (cases "bd_state b0 = BODY_ST_DEAD")
    case True
    with assms b0 show ?thesis
      by (auto simp: body_execute_def body_revive_def body_can_resurrect_def split: if_splits)
  next
    case False
    have same: "b0\<lparr>bd_iteration := bd_iteration b0, bd_stack := x, bd_state := y\<rparr> = b0\<lparr>bd_stack := x, bd_state := y\<rparr>" for x y
      by (cases b0) simp
    from False assms b0 show ?thesis
      by (intro exI [of _ b0] exI [of _ "bd_iteration b0"], unfold same)
        (auto simp: body_execute_def body_revive_def split: if_splits)
  qed
qed

lemma body_execute_wf:
  assumes wf: "body_wf w" and ok: "body_execute s k w = Inr w'"
  shows "body_wf w'"
proof -
  obtain b n where b: "bodies w k = Some b" "bd_stack b = None" "body_nesting s w"
    and w': "w' = (body_put k (b\<lparr>bd_iteration := n, bd_stack := Some s, bd_state := BODY_ST_RUNNING\<rparr>) w)
              \<lparr>body_stacks := (body_stacks w)(s := k # body_stacks w s)\<rparr>"
    using body_execute_ok [OF ok] by blast
  have notin: "k \<notin> set (body_stacks w t)" for t using wf b(1,2) by (auto simp: body_wf_def)
  have old: "bd_state c = BODY_ST_PAUSED \<or> bd_flags c BODY_FLAG_RELAX_NESTING"
    if "j \<in> set (body_stacks w s)" "bodies w j = Some c" for j c
  proof (cases "j \<in> set (tl (body_stacks w s))")
    case True
    with wf that(2) show ?thesis unfolding body_wf_def by blast
  next
    case False
    with that(1) have top: "\<exists>ks. body_stacks w s = j # ks" by (cases "body_stacks w s") auto
    moreover have "bd_stack c = Some s" using wf that by (auto simp: body_wf_def)
    then have "bd_state c = BODY_ST_RUNNING \<or> bd_state c = BODY_ST_PAUSED"
      using wf that(2) unfolding body_wf_def by (metis option.distinct(1))
    ultimately show ?thesis using b(3) that(2)
      by (auto simp: body_nesting_def body_get_running_def)
  qed
  show ?thesis
  proof (rule body_wfI)
    show "distinct (body_stacks w' t)" for t
      using body_wfD(1) [OF wf] notin by (simp add: w' body_put_def)
    show "j \<in> set (body_stacks w' t) \<longleftrightarrow> (\<exists>c. bodies w' j = Some c \<and> bd_stack c = Some t)" for t j
      using body_wfD(2) [OF wf, of j t] notin [of t] by (auto simp: w' body_put_def)
  next
    fix j c assume "bodies w' j = Some c"
    then show "(bd_stack c \<noteq> None) = (bd_state c = BODY_ST_RUNNING \<or> bd_state c = BODY_ST_PAUSED) \<and>
        (bd_state c = BODY_ST_PAUSED \<longrightarrow> bd_flags c BODY_FLAG_PAUSE)"
      using body_wfD(3) [OF wf, of j c] by (cases "j = k") (auto simp: w' body_put_def)
  next
    fix t j c assume j: "j \<in> set (tl (body_stacks w' t))" "bodies w' j = Some c"
    have "j \<in> set (body_stacks w t)" using j(1) in_tlD by (cases "t = s") (auto simp: w' body_put_def)
    then have "j \<noteq> k" using notin by blast
    then show "bd_state c = BODY_ST_PAUSED \<or> bd_flags c BODY_FLAG_RELAX_NESTING"
      using j old [of j c] body_wfD(4) [OF wf, of j t c]
      by (cases "t = s") (auto simp: w' body_put_def)
  qed
qed

text \<open>The operations on the top of a stack.\<close>

lemma body_top_wf:
  assumes wf: "body_wf w" and k: "bodies w k = Some b" "bd_stack b = Some s" "body_stacks w s = k # ks"
    and st: "st = BODY_ST_RUNNING \<or> st = BODY_ST_PAUSED \<and> bd_flags b BODY_FLAG_PAUSE"
  shows "body_wf (body_put k (b\<lparr>bd_state := st\<rparr>) w)"
proof -
  have "k \<notin> set (tl (body_stacks w t))" for t
  proof
    assume "k \<in> set (tl (body_stacks w t))"
    then have in_t: "k \<in> set (body_stacks w t)" by (cases "body_stacks w t") auto
    then have "t = s" using wf k(1,2) by (auto simp: body_wf_def)
    with \<open>k \<in> set (tl (body_stacks w t))\<close> k(3) wf show False
      unfolding body_wf_def by (metis distinct.simps(2) list.sel(3))
  qed
  with wf k st show ?thesis by (auto simp: body_wf_def body_put_def)
qed

lemma body_pause_wf: "body_wf w \<Longrightarrow> body_pause s k w = Inr w' \<Longrightarrow> body_wf w'"
  by (drule body_pause_ok) (auto intro: body_top_wf)

lemma body_resume_wf: "body_wf w \<Longrightarrow> body_resume s k w = Inr w' \<Longrightarrow> body_wf w'"
  by (drule body_resume_ok) (auto intro: body_top_wf)

lemma body_end_wf:
  assumes wf: "body_wf w" and ok: "body_end s k w = Inr w'"
  shows "body_wf w'"
proof -
  obtain b ks where b: "bodies w k = Some b" "bd_stack b = Some s" "body_stacks w s = k # ks"
    and w': "w' = (body_put k (b\<lparr>bd_state := BODY_ST_DEAD, bd_stack := None\<rparr>) w)
              \<lparr>body_stacks := (body_stacks w)(s := ks)\<rparr>"
    using body_end_ok [OF ok] by blast
  have "distinct (body_stacks w s)" using wf by (simp add: body_wf_def)
  then have dist: "distinct (k # ks)" by (simp only: b(3))
  have other: "k \<notin> set (body_stacks w t)" if "t \<noteq> s" for t
    using that wf b(1,2) by (auto simp: body_wf_def)
  show ?thesis
  proof (rule body_wfI)
    show "distinct (body_stacks w' t)" for t
      using body_wfD(1) [OF wf] dist by (simp add: w' body_put_def)
    show "j \<in> set (body_stacks w' t) \<longleftrightarrow> (\<exists>c. bodies w' j = Some c \<and> bd_stack c = Some t)" for t j
      using body_wfD(2) [OF wf, of j t] b(3) dist other [of t]
      by (cases "j = k"; cases "t = s") (auto simp: w' body_put_def)
  next
    fix j c assume "bodies w' j = Some c"
    then show "(bd_stack c \<noteq> None) = (bd_state c = BODY_ST_RUNNING \<or> bd_state c = BODY_ST_PAUSED) \<and>
        (bd_state c = BODY_ST_PAUSED \<longrightarrow> bd_flags c BODY_FLAG_PAUSE)"
      using body_wfD(3) [OF wf, of j c] by (cases "j = k") (auto simp: w' body_put_def)
  next
    fix t j c assume j: "j \<in> set (tl (body_stacks w' t))" "bodies w' j = Some c"
    have "j \<in> set (tl (body_stacks w t)) \<and> j \<noteq> k"
    proof (cases "t = s")
      case True
      with j(1) b(3) dist in_tlD [of j ks] show ?thesis by (auto simp: w' body_put_def)
    next
      case False
      with j(1) other [OF False] in_tlD [of j "body_stacks w t"] show ?thesis by (auto simp: w' body_put_def)
    qed
    then show "bd_state c = BODY_ST_PAUSED \<or> bd_flags c BODY_FLAG_RELAX_NESTING"
      using j(2) body_wfD(4) [OF wf, of j t c] by (simp add: w' body_put_def)
  qed
qed

subsection \<open>Sequences of operations\<close>

datatype body_op =
    OpCreate task_ref "32 word" "body_flag \<Rightarrow> bool"
  | OpExecute stack_ref body_ref
  | OpPause stack_ref body_ref
  | OpResume stack_ref body_ref
  | OpEnd stack_ref body_ref

fun body_do :: "body_op \<Rightarrow> 'x body_world_scheme \<Rightarrow> 'x body_world_scheme res" where
  "body_do (OpCreate t i fl) w = body_create t i fl w"
| "body_do (OpExecute s k) w = body_execute s k w"
| "body_do (OpPause s k) w = body_pause s k w"
| "body_do (OpResume s k) w = body_resume s k w"
| "body_do (OpEnd s k) w = body_end s k w"

definition body_world0 :: body_world where
  "body_world0 = \<lparr>bodies = Map.empty, body_stacks = (\<lambda>_. [])\<rparr>"

inductive body_reach :: "body_world \<Rightarrow> bool" where
  body_reach_init: "body_reach body_world0"
| body_reach_step: "body_reach w \<Longrightarrow> body_do op w = Inr w' \<Longrightarrow> body_reach w'"

lemma body_do_wf: "body_wf w \<Longrightarrow> body_do op w = Inr w' \<Longrightarrow> body_wf w'"
  by (cases op) (auto intro: body_create_wf body_execute_wf body_pause_wf body_resume_wf body_end_wf)

lemma body_world0_wf: "body_wf body_world0"
  by (simp add: body_wf_def body_world0_def)

lemma body_reach_wf: "body_reach w \<Longrightarrow> body_wf w"
  by (induction rule: body_reach.induct) (auto intro: body_do_wf body_world0_wf)

text \<open>C29. The stack discipline of task bodies: after any sequence of successful operations, a body that
  is running and does not allow relaxed nesting is the top of the stack it is assigned to, it is what
  \<^verbatim>\<open>body_get_running\<close> returns for that stack, and it is on no other stack.\<close>

theorem body_running_is_top:
  assumes "body_reach w" and "bodies w k = Some b" and "bd_state b = BODY_ST_RUNNING"
    and "\<not> bd_flags b BODY_FLAG_RELAX_NESTING"
  shows "\<exists>s. bd_stack b = Some s \<and> body_get_running s w = Some k
    \<and> (\<forall>t. k \<in> set (body_stacks w t) \<longrightarrow> t = s)"
proof -
  note wf = body_reach_wf [OF assms(1)]
  obtain s where s: "bd_stack b = Some s" using body_wfD(3) [OF wf assms(2)] assms(3) by auto
  then have "k \<in> set (body_stacks w s)" using body_wfD(2) [OF wf] assms(2) by blast
  moreover have "k \<notin> set (tl (body_stacks w s))"
    using body_wfD(4) [OF wf _ assms(2), of s] assms(3,4) by auto
  ultimately obtain ks where "body_stacks w s = k # ks" by (cases "body_stacks w s") auto
  with s assms body_wfD(2) [OF wf, of k] show ?thesis by (auto simp: body_get_running_def)
qed

definition demo_body :: body_ref where "demo_body = BodyRef (TaskRef (InfoRef 0 0) 5) 1"

definition demo_body_run :: "body_world res" where
  "demo_body_run =
     rbind (body_do (OpCreate (TaskRef (InfoRef 0 0) 5) 1 (\<lambda>f. f = BODY_FLAG_PAUSE)) body_world0) (\<lambda>w.
     rbind (body_do (OpExecute (StackRef 0 2) demo_body) w) (\<lambda>w.
     rbind (body_do (OpPause (StackRef 0 2) demo_body) w) (\<lambda>w.
     body_do (OpResume (StackRef 0 2) demo_body) w)))"

theorem body_running_is_top_witness:
  "\<exists>w. demo_body_run = Inr w \<and> body_get_running (StackRef 0 2) w = Some demo_body"
proof -
  let ?b = "\<lparr>bd_flags = (\<lambda>f. f = BODY_FLAG_PAUSE), bd_state = BODY_ST_RUNNING,
     bd_stack = Some (StackRef 0 2), bd_iteration = 0\<rparr>"
  let ?w = "\<lparr>bodies = [demo_body \<mapsto> ?b], body_stacks = (\<lambda>_. [])(StackRef 0 2 := [demo_body])\<rparr>"
  have run: "demo_body_run = Inr ?w"
    by (simp add: demo_body_run_def demo_body_def body_world0_def body_create_def body_find_def
        body_execute_def body_revive_def body_nesting_def body_get_running_def body_put_def
        body_pause_def body_can_pause_def body_resume_def body_on_top_def body_get_top_def)
  then obtain w1 w2 w3 where
    "body_do (OpCreate (TaskRef (InfoRef 0 0) 5) 1 (\<lambda>f. f = BODY_FLAG_PAUSE)) body_world0 = Inr w1"
    "body_do (OpExecute (StackRef 0 2) demo_body) w1 = Inr w2"
    "body_do (OpPause (StackRef 0 2) demo_body) w2 = Inr w3"
    "body_do (OpResume (StackRef 0 2) demo_body) w3 = Inr ?w"
    unfolding demo_body_run_def rbind_eq_Inr by (elim exE conjE)
  note steps = this
  have "body_reach ?w"
    by (rule body_reach_step [OF _ steps(4)], rule body_reach_step [OF _ steps(3)],
        rule body_reach_step [OF _ steps(2)], rule body_reach_step [OF _ steps(1)], rule body_reach_init)
  then have "\<exists>s. bd_stack ?b = Some s \<and> body_get_running s ?w = Some demo_body
      \<and> (\<forall>t. demo_body \<in> set (body_stacks ?w t) \<longrightarrow> t = s)"
    by (rule body_running_is_top) simp_all
  with run show ?thesis by auto
qed

text \<open>Executing a body and ending it returns the stack to what it was: the end of a body that was just
  executed always succeeds, leaves every stack and every other body as before, and the body dead.\<close>

theorem body_execute_end_roundtrip:
  assumes wf: "body_wf w" and ok: "body_execute s k w = Inr w1"
  shows "\<exists>w2 b. body_end s k w1 = Inr w2 \<and> body_stacks w2 = body_stacks w
    \<and> bodies w2 k = Some b \<and> bd_state b = BODY_ST_DEAD \<and> bd_stack b = None
    \<and> (\<forall>j. j \<noteq> k \<longrightarrow> bodies w2 j = bodies w j)"
proof -
  obtain b n where w1: "w1 = (body_put k (b\<lparr>bd_iteration := n, bd_stack := Some s,
        bd_state := BODY_ST_RUNNING\<rparr>) w)\<lparr>body_stacks := (body_stacks w)(s := k # body_stacks w s)\<rparr>"
    using body_execute_ok [OF ok] by blast
  show ?thesis
    by (simp add: w1 body_end_def body_put_def body_on_top_def body_get_top_def)
qed

theorem body_execute_end_roundtrip_witness:
  "\<exists>w1 w2. body_execute (StackRef 0 2) demo_body
       (body_put demo_body \<lparr>bd_flags = (\<lambda>_. False), bd_state = BODY_ST_CREATED, bd_stack = None,
          bd_iteration = 0\<rparr> body_world0) = Inr w1
     \<and> body_end (StackRef 0 2) demo_body w1 = Inr w2 \<and> body_stacks w2 (StackRef 0 2) = []"
proof -
  let ?w = "body_put demo_body \<lparr>bd_flags = (\<lambda>_. False), bd_state = BODY_ST_CREATED, bd_stack = None,
          bd_iteration = 0\<rparr> body_world0"
  have wf: "body_wf ?w" by (auto simp: body_wf_def body_put_def body_world0_def)
  obtain w1 where w1: "body_execute (StackRef 0 2) demo_body ?w = Inr w1"
    by (simp add: body_execute_def body_put_def body_world0_def body_revive_def body_nesting_def
        body_get_running_def)
  from body_execute_end_roundtrip [OF wf w1] w1 show ?thesis
    by (auto simp: body_put_def body_world0_def)
qed

end
