(* ===== verification/Task.thy ===== *)
theory Task
  imports Body
begin

unbundle bit_operations_syntax

text \<open>
  Tasks and task types: \<^verbatim>\<open>src/emu/task.h\<close> and \<^verbatim>\<open>src/emu/task.c\<close>.

  Every runtime model keeps for each process a \<^verbatim>\<open>struct task_info\<close>, the tables of the known task types and
  tasks. The operations on a task find one of its bodies, creating it on the first execution, and move
  it on the stack of a thread. The hash function of the labels belongs to \<^verbatim>\<open>uthash.h\<close> and is the argument
  \<open>hash\<close> of the operations that use it.
\<close>

subsection \<open>Data\<close>

datatype task_flag =
  TASK_FLAG_PARALLEL | TASK_FLAG_RESURRECT | TASK_FLAG_PAUSE | TASK_FLAG_RELAX_NESTING

record task_type =
  tt_gid :: "32 word"
  tt_label :: string

record task =
  tk_type :: "32 word" \<comment> \<open>the identifier of its type in the same table\<close>
  tk_nbodies :: int
  tk_flags :: "task_flag \<Rightarrow> bool"

record task_world = body_world +
  task_types :: "info_ref \<Rightarrow> 32 word \<rightharpoonup> task_type"
  tasks :: "info_ref \<Rightarrow> 32 word \<rightharpoonup> task"

definition MAX_PCF_LABEL :: nat where "MAX_PCF_LABEL = 512"
definition PCF_RESERVED :: "32 word" where "PCF_RESERVED = 1000"

subsection \<open>Operations\<close>

definition task_find :: "info_ref \<Rightarrow> 32 word \<Rightarrow> 'x task_world_scheme \<Rightarrow> task option" where
  "task_find info task_id w = tasks w info task_id"

definition task_type_find :: "info_ref \<Rightarrow> 32 word \<Rightarrow> 'x task_world_scheme \<Rightarrow> task_type option" where
  "task_type_find info type_id w = task_types w info type_id"

definition task_put :: "task_ref \<Rightarrow> task \<Rightarrow> 'x task_world_scheme \<Rightarrow> 'x task_world_scheme" where
  "task_put t tk w = (case t of TaskRef info i \<Rightarrow> w\<lparr>tasks := (tasks w)(info := (tasks w info)(i \<mapsto> tk))\<rparr>)"

definition task_get :: "task_ref \<Rightarrow> 'x task_world_scheme \<Rightarrow> task option" where
  "task_get t w = (case t of TaskRef info i \<Rightarrow> task_find info i w)"

definition task_create ::
  "info_ref \<Rightarrow> 32 word \<Rightarrow> 32 word \<Rightarrow> (task_flag \<Rightarrow> bool) \<Rightarrow> 'x task_world_scheme \<Rightarrow> 'x task_world_scheme res"
where
  "task_create info type_id task_id flags w =
     (if task_find info task_id w \<noteq> None then Inl (ETask TaskExists)
      else if task_type_find info type_id w = None then Inl (ETask TaskTypeUnknown)
      else Inr (task_put (TaskRef info task_id)
                  \<lparr>tk_type = type_id, tk_nbodies = 0, tk_flags = flags\<rparr> w))"

definition task_is_parallel :: "task \<Rightarrow> bool" where
  "task_is_parallel tk = tk_flags tk TASK_FLAG_PARALLEL"

definition body_flags_of :: "task \<Rightarrow> body_flag \<Rightarrow> bool" where
  "body_flags_of tk f =
     (case f of
        BODY_FLAG_RELAX_NESTING \<Rightarrow> tk_flags tk TASK_FLAG_RELAX_NESTING
      | BODY_FLAG_RESURRECT \<Rightarrow> tk_flags tk TASK_FLAG_RESURRECT
      | BODY_FLAG_PAUSE \<Rightarrow> tk_flags tk TASK_FLAG_PAUSE)"

definition create_body ::
  "task_ref \<Rightarrow> task \<Rightarrow> 32 word \<Rightarrow> 'x task_world_scheme \<Rightarrow> 'x task_world_scheme res" where
  "create_body t tk body_id w =
     (if \<not> task_is_parallel tk \<and> tk_nbodies tk > 0 then Inl (ETask TaskNotParallel)
      else rbind (body_create t body_id (body_flags_of tk) w) (\<lambda>w1.
        Inr (task_put t (tk\<lparr>tk_nbodies := tk_nbodies tk + 1\<rparr>) w1)))"

definition task_execute ::
  "stack_ref \<Rightarrow> task_ref \<Rightarrow> 32 word \<Rightarrow> 'x task_world_scheme \<Rightarrow> 'x task_world_scheme res" where
  "task_execute s t body_id w =
     (case task_get t w of
        None \<Rightarrow> Inl (ETask TaskNull)
      | Some tk \<Rightarrow>
          rbind (case body_find t body_id w of
                   None \<Rightarrow> create_body t tk body_id w
                 | Some _ \<Rightarrow> Inr w)
            (\<lambda>w1. body_execute s (BodyRef t body_id) w1))"

definition task_pause ::
  "stack_ref \<Rightarrow> task_ref \<Rightarrow> 32 word \<Rightarrow> 'x task_world_scheme \<Rightarrow> 'x task_world_scheme res" where
  "task_pause s t body_id w =
     (if task_get t w = None then Inl (ETask TaskNull)
      else if body_find t body_id w = None then Inl (ETask TaskBodyNotFound)
      else body_pause s (BodyRef t body_id) w)"

definition task_resume ::
  "stack_ref \<Rightarrow> task_ref \<Rightarrow> 32 word \<Rightarrow> 'x task_world_scheme \<Rightarrow> 'x task_world_scheme res" where
  "task_resume s t body_id w =
     (if task_get t w = None then Inl (ETask TaskNull)
      else if body_find t body_id w = None then Inl (ETask TaskBodyNotFound)
      else body_resume s (BodyRef t body_id) w)"

definition task_end ::
  "stack_ref \<Rightarrow> task_ref \<Rightarrow> 32 word \<Rightarrow> 'x task_world_scheme \<Rightarrow> 'x task_world_scheme res" where
  "task_end s t body_id w =
     (if task_get t w = None then Inl (ETask TaskNull)
      else if body_find t body_id w = None then Inl (ETask TaskBodyNotFound)
      else body_end s (BodyRef t body_id) w)"

definition task_get_type_gid :: "(string \<Rightarrow> 32 word) \<Rightarrow> string \<Rightarrow> 32 word" where
  "task_get_type_gid hash label =
     (let gid = (hash label + 666) AND 0x7FFFFFFF
      in if gid < PCF_RESERVED then gid + PCF_RESERVED else gid)"

definition task_type_create ::
  "(string \<Rightarrow> 32 word) \<Rightarrow> info_ref \<Rightarrow> 32 word \<Rightarrow> string \<Rightarrow> 'x task_world_scheme \<Rightarrow> 'x task_world_scheme res"
where
  "task_type_create hash info type_id label w =
     (if task_types w info type_id \<noteq> None then Inl (ETask TaskTypeExists)
      else if type_id = 0 then Inl (ETask TaskTypeIdZero)
      else let lbl = (if label = [] then ''(unlabeled task type '' @ dec (unat type_id) @ '')'' else label) in
        if length lbl \<ge> MAX_PCF_LABEL then Inl (ETask TaskLabelTooLong)
        else Inr (w\<lparr>task_types := (task_types w)(info := (task_types w info)(type_id \<mapsto>
               \<lparr>tt_gid = task_get_type_gid hash lbl, tt_label = lbl\<rparr>))\<rparr>))"

definition task_get_running :: "stack_ref \<Rightarrow> 'x task_world_scheme \<Rightarrow> body_ref option" where
  "task_get_running s w = body_get_running s w"

definition task_get_top :: "stack_ref \<Rightarrow> 'x task_world_scheme \<Rightarrow> body_ref option" where
  "task_get_top s w = body_get_top s w"

subsection \<open>Identifiers of task types\<close>

lemma sint_nonneg_32: "(x :: 32 word) \<le> 0x7FFFFFFF \<Longrightarrow> 0 \<le> sint x"
proof -
  assume "x \<le> 0x7FFFFFFF"
  then have "uint x < 2 ^ 31" by (simp add: word_le_def)
  moreover have "- (2 ^ 31) \<le> uint x" using uint_ge_0 [of x] by (rule order_trans [rotated]) simp
  ultimately have "sint x = uint x"
    using signed_take_bit_int_eq_self [of 31 "uint x"] by (simp add: sint_uint)
  then show ?thesis by simp
qed

text \<open>The global identifier of a task type is never one of the values reserved in the Paraver
  configuration, and never negative when read as a C \<^verbatim>\<open>int\<close>, whatever the hash of its label.\<close>

theorem task_get_type_gid_bounds:
  "PCF_RESERVED \<le> task_get_type_gid hash label \<and> task_get_type_gid hash label \<le> 0x7FFFFFFF
   \<and> 0 \<le> sint (task_get_type_gid hash label)"
proof -
  let ?g = "(hash label + 666) AND 0x7FFFFFFF"
  have m: "?g \<le> 0x7FFFFFFF" by (rule word_and_le1)
  show ?thesis
  proof (cases "?g < PCF_RESERVED")
    case True
    then have "unat ?g < 1000" by (simp add: PCF_RESERVED_def word_less_nat_alt)
    then have u: "unat (?g + PCF_RESERVED) = unat ?g + 1000"
      by (simp add: PCF_RESERVED_def unat_word_ariths)
    then have "PCF_RESERVED \<le> ?g + PCF_RESERVED" "?g + PCF_RESERVED \<le> 0x7FFFFFFF"
      using True by (simp_all add: word_le_nat_alt PCF_RESERVED_def word_less_nat_alt)
    moreover from this(2) have "0 \<le> sint (?g + PCF_RESERVED)" by (rule sint_nonneg_32)
    ultimately show ?thesis using True by (simp add: task_get_type_gid_def Let_def)
  next
    case False
    have "0 \<le> sint ?g" using m by (rule sint_nonneg_32)
    with False m show ?thesis by (simp add: task_get_type_gid_def Let_def)
  qed
qed

subsection \<open>The invariant of the tasks\<close>

text \<open>Every body belongs to a known task, has the flags its task gives, and is counted in
  \<^verbatim>\<open>nbodies\<close>; a task that is not parallel has one body at most; the type of a task is known.\<close>

definition task_bodies :: "task_ref \<Rightarrow> 'x task_world_scheme \<Rightarrow> (32 word) set" where
  "task_bodies t w = {i. bodies w (BodyRef t i) \<noteq> None}"

definition task_wf :: "'x task_world_scheme \<Rightarrow> bool" where
  "task_wf w \<longleftrightarrow> body_wf w
     \<and> (\<forall>t i b. bodies w (BodyRef t i) = Some b \<longrightarrow>
          i \<noteq> 0 \<and> (\<exists>tk. task_get t w = Some tk \<and> bd_flags b = body_flags_of tk))
     \<and> (\<forall>t tk. task_get t w = Some tk \<longrightarrow> tk_nbodies tk = int (card (task_bodies t w))
          \<and> (\<not> task_is_parallel tk \<longrightarrow> tk_nbodies tk \<le> 1))
     \<and> (\<forall>info i tk. task_find info i w = Some tk \<longrightarrow> task_type_find info (tk_type tk) w \<noteq> None)"

lemma task_put_get [simp]:
  "task_get t (task_put t' tk w) = (if t = t' then Some tk else task_get t w)"
  by (cases t; cases t') (auto simp: task_get_def task_put_def task_find_def)

lemma task_put_sel [simp]:
  "bodies (task_put t tk w) = bodies w" "body_stacks (task_put t tk w) = body_stacks w"
  "task_types (task_put t tk w) = task_types w"
  by (cases t; simp add: task_put_def)+

lemma body_wf_task_put [simp]: "body_wf (task_put t tk w) = body_wf w"
  by (simp add: body_wf_def)

lemma task_find_get: "task_find info i w = task_get (TaskRef info i) w"
  by (simp add: task_get_def)

lemma task_wfD:
  assumes "task_wf w"
  shows "body_wf w"
    and "bodies w (BodyRef t i) = Some b \<Longrightarrow> i \<noteq> 0 \<and> (\<exists>tk. task_get t w = Some tk \<and> bd_flags b = body_flags_of tk)"
    and "task_get t w = Some tk \<Longrightarrow> tk_nbodies tk = int (card (task_bodies t w))
          \<and> (\<not> task_is_parallel tk \<longrightarrow> tk_nbodies tk \<le> 1)"
    and "task_get (TaskRef info j) w = Some tk \<Longrightarrow> task_type_find info (tk_type tk) w \<noteq> None"
  using assms unfolding task_wf_def task_find_get by blast+

lemma task_wfI:
  assumes "body_wf w"
    and "\<And>t i b. bodies w (BodyRef t i) = Some b \<Longrightarrow> i \<noteq> 0 \<and> (\<exists>tk. task_get t w = Some tk \<and> bd_flags b = body_flags_of tk)"
    and "\<And>t tk. task_get t w = Some tk \<Longrightarrow> tk_nbodies tk = int (card (task_bodies t w))
          \<and> (\<not> task_is_parallel tk \<longrightarrow> tk_nbodies tk \<le> 1)"
    and "\<And>info j tk. task_get (TaskRef info j) w = Some tk \<Longrightarrow> task_type_find info (tk_type tk) w \<noteq> None"
  shows "task_wf w"
  unfolding task_wf_def task_find_get using assms by blast

text \<open>The operations on bodies change neither which bodies there are nor their flags.\<close>

lemma body_move_task_wf:
  assumes wf: "task_wf w" and bwf: "body_wf w'"
    and same: "\<And>k. bodies w' k = None \<longleftrightarrow> bodies w k = None"
      "\<And>k b b'. bodies w k = Some b \<Longrightarrow> bodies w' k = Some b' \<Longrightarrow> bd_flags b' = bd_flags b"
      "tasks w' = tasks w" "task_types w' = task_types w"
  shows "task_wf w'"
proof -
  have get: "task_get t w' = task_get t w" for t
    by (cases t) (simp add: task_get_def task_find_def same)
  have bod: "task_bodies t w' = task_bodies t w" for t by (simp add: task_bodies_def same)
  show ?thesis
  proof (rule task_wfI [OF bwf])
    fix t i b assume b: "bodies w' (BodyRef t i) = Some b"
    then obtain b0 where "bodies w (BodyRef t i) = Some b0" using same(1) [of "BodyRef t i"]
      by (cases "bodies w (BodyRef t i)") auto
    with b task_wfD(2) [OF wf this] same(2) get
    show "i \<noteq> 0 \<and> (\<exists>tk. task_get t w' = Some tk \<and> bd_flags b = body_flags_of tk)" by metis
  qed (use wf get bod same(4) in \<open>auto simp: task_type_find_def dest: task_wfD\<close>)
qed

lemma body_ops_task_wf:
  assumes wf: "task_wf w"
  shows "body_execute s k w = Inr w' \<Longrightarrow> task_wf w'" and "body_pause s k w = Inr w' \<Longrightarrow> task_wf w'"
    and "body_resume s k w = Inr w' \<Longrightarrow> task_wf w'" and "body_end s k w = Inr w' \<Longrightarrow> task_wf w'"
proof -
  note b = task_wfD(1) [OF wf]
  show "task_wf w'" if r: "body_execute s k w = Inr w'"
    by (rule body_move_task_wf [OF wf body_execute_wf [OF b r]])
      (use body_execute_ok [OF r] in \<open>auto simp: body_put_def split: if_splits\<close>)
  show "task_wf w'" if r: "body_pause s k w = Inr w'"
    by (rule body_move_task_wf [OF wf body_pause_wf [OF b r]])
      (use body_pause_ok [OF r] in \<open>auto simp: body_put_def split: if_splits\<close>)
  show "task_wf w'" if r: "body_resume s k w = Inr w'"
    by (rule body_move_task_wf [OF wf body_resume_wf [OF b r]])
      (use body_resume_ok [OF r] in \<open>auto simp: body_put_def split: if_splits\<close>)
  show "task_wf w'" if r: "body_end s k w = Inr w'"
    by (rule body_move_task_wf [OF wf body_end_wf [OF b r]])
      (use body_end_ok [OF r] in \<open>auto simp: body_put_def split: if_splits\<close>)
qed

lemma create_body_wf:
  assumes wf: "task_wf w" and tk: "task_get t w = Some tk" and ok: "create_body t tk i w = Inr w'"
  shows "task_wf w'"
proof -
  let ?tk = "tk\<lparr>tk_nbodies := tk_nbodies tk + 1\<rparr>"
  let ?b = "\<lparr>bd_flags = body_flags_of tk, bd_state = BODY_ST_CREATED, bd_stack = None, bd_iteration = 0\<rparr>"
  obtain w1 where par: "task_is_parallel tk \<or> tk_nbodies tk \<le> 0"
    and w1: "body_create t i (body_flags_of tk) w = Inr w1" and w': "w' = task_put t ?tk w1"
    using ok by (auto simp: create_body_def split: if_splits)
  have i: "i \<noteq> 0" and none: "bodies w (BodyRef t i) = None"
    and w1': "w1 = w\<lparr>bodies := (bodies w)(BodyRef t i \<mapsto> ?b)\<rparr>"
    using w1 by (auto simp: body_create_def body_find_def split: if_splits)
  have get: "task_get u w' = (if u = t then Some ?tk else task_get u w)" for u
    unfolding w' task_put_get by (cases u) (simp add: w1' task_get_def task_find_def)
  have fl: "body_flags_of ?tk = body_flags_of tk" by (auto simp: body_flags_of_def fun_eq_iff split: body_flag.split)
  have bodt: "task_bodies t w' = insert i (task_bodies t w)" "i \<notin> task_bodies t w"
    and bodu: "u \<noteq> t \<Longrightarrow> task_bodies u w' = task_bodies u w" for u
    using none by (auto simp: task_bodies_def w' w1')
  show ?thesis
  proof (rule task_wfI)
    show "body_wf w'" using body_create_wf [OF task_wfD(1) [OF wf] w1] by (simp add: w')
    fix u j b assume b: "bodies w' (BodyRef u j) = Some b"
    show "j \<noteq> 0 \<and> (\<exists>tk. task_get u w' = Some tk \<and> bd_flags b = body_flags_of tk)"
    proof (cases "u = t \<and> j = i")
      case True
      with b i get fl show ?thesis by (auto simp: w' w1')
    next
      case False
      with b have "bodies w (BodyRef u j) = Some b" by (auto simp: w' w1' split: if_splits)
      from task_wfD(2) [OF wf this] get fl tk show ?thesis by auto
    qed
  next
    fix u tk' assume u: "task_get u w' = Some tk'"
    show "tk_nbodies tk' = int (card (task_bodies u w')) \<and> (\<not> task_is_parallel tk' \<longrightarrow> tk_nbodies tk' \<le> 1)"
    proof (cases "u = t")
      case True
      with u get have "tk' = ?tk" by simp
      moreover have "card (task_bodies t w') = Suc (card (task_bodies t w))" using bodt by simp
      ultimately show ?thesis using task_wfD(3) [OF wf tk] par True by (auto simp: task_is_parallel_def)
    next
      case False
      with u get task_wfD(3) [OF wf, of u tk'] bodu [of u] show ?thesis by auto
    qed
  next
    fix info j tk' assume "task_get (TaskRef info j) w' = Some tk'"
    with get tk task_wfD(4) [OF wf, of info j] show "task_type_find info (tk_type tk') w' \<noteq> None"
      by (auto simp: task_type_find_def w' w1' split: if_splits)
  qed
qed

lemma task_execute_wf:
  assumes wf: "task_wf w" and ok: "task_execute s t i w = Inr w'"
  shows "task_wf w'"
proof -
  obtain tk w1 where tk: "task_get t w = Some tk"
    and w1: "(case body_find t i w of None \<Rightarrow> create_body t tk i w | Some _ \<Rightarrow> Inr w) = Inr w1"
    and ex: "body_execute s (BodyRef t i) w1 = Inr w'"
    using ok by (auto simp: task_execute_def split: option.splits)
  have "task_wf w1"
    using w1 wf create_body_wf [OF wf tk] by (auto split: option.splits)
  then show ?thesis using ex by (rule body_ops_task_wf(1))
qed

lemma task_pause_wf: "task_wf w \<Longrightarrow> task_pause s t i w = Inr w' \<Longrightarrow> task_wf w'"
  by (auto simp: task_pause_def split: if_splits intro: body_ops_task_wf)

lemma task_resume_wf: "task_wf w \<Longrightarrow> task_resume s t i w = Inr w' \<Longrightarrow> task_wf w'"
  by (auto simp: task_resume_def split: if_splits intro: body_ops_task_wf)

lemma task_end_wf: "task_wf w \<Longrightarrow> task_end s t i w = Inr w' \<Longrightarrow> task_wf w'"
  by (auto simp: task_end_def split: if_splits intro: body_ops_task_wf)

lemma task_create_wf:
  assumes wf: "task_wf w" and ok: "task_create info ty i fl w = Inr w'"
  shows "task_wf w'"
proof -
  let ?t = "TaskRef info i" and ?tk = "\<lparr>tk_type = ty, tk_nbodies = 0, tk_flags = fl\<rparr>"
  have none: "task_get ?t w = None" and ty: "task_type_find info ty w \<noteq> None" and w': "w' = task_put ?t ?tk w"
    using ok by (auto simp: task_create_def task_find_get split: if_splits)
  have "bodies w (BodyRef ?t j) = None" for j
    using task_wfD(2) [OF wf, of ?t j] none by (cases "bodies w (BodyRef ?t j)") auto
  then have nob: "task_bodies ?t w = {}" by (simp add: task_bodies_def)
  have bod: "task_bodies u w' = task_bodies u w" for u by (simp add: task_bodies_def w')
  show ?thesis
  proof (rule task_wfI)
    show "body_wf w'" using task_wfD(1) [OF wf] by (simp add: w')
    fix u j b assume "bodies w' (BodyRef u j) = Some b"
    with task_wfD(2) [OF wf, of u j b] none show "j \<noteq> 0 \<and> (\<exists>tk. task_get u w' = Some tk \<and> bd_flags b = body_flags_of tk)"
      by (auto simp: w')
  next
    fix u tk assume "task_get u w' = Some tk"
    with task_wfD(3) [OF wf, of u tk] nob bod [of u]
    show "tk_nbodies tk = int (card (task_bodies u w')) \<and> (\<not> task_is_parallel tk \<longrightarrow> tk_nbodies tk \<le> 1)"
      by (auto simp: w' split: if_splits)
  next
    fix info' j tk assume "task_get (TaskRef info' j) w' = Some tk"
    with task_wfD(4) [OF wf, of info' j tk] ty show "task_type_find info' (tk_type tk) w' \<noteq> None"
      by (auto simp: w' task_type_find_def split: if_splits)
  qed
qed

lemma task_type_create_wf:
  assumes wf: "task_wf w" and ok: "task_type_create h info ty lbl w = Inr w'"
  shows "task_wf w'"
proof -
  obtain tt where w': "w' = w\<lparr>task_types := (task_types w)(info := (task_types w info)(ty \<mapsto> tt))\<rparr>"
    using ok by (auto simp: task_type_create_def Let_def split: if_splits)
  have get: "task_get t w' = task_get t w" for t by (cases t) (simp add: w' task_get_def task_find_def)
  have bod: "task_bodies u w' = task_bodies u w" for u by (simp add: task_bodies_def w')
  show ?thesis
  proof (rule task_wfI)
    show "body_wf w'" using task_wfD(1) [OF wf] by (simp add: w' body_wf_def)
    fix info' j tk assume "task_get (TaskRef info' j) w' = Some tk"
    with task_wfD(4) [OF wf, of info' j tk] get show "task_type_find info' (tk_type tk) w' \<noteq> None"
      by (auto simp: w' task_type_find_def)
  next
    fix t tk assume "task_get t w' = Some tk"
    then show "tk_nbodies tk = int (card (task_bodies t w')) \<and> (\<not> task_is_parallel tk \<longrightarrow> tk_nbodies tk \<le> 1)"
      unfolding get bod by (rule task_wfD(3) [OF wf])
  next
    fix t i b assume "bodies w' (BodyRef t i) = Some b"
    then have "bodies w (BodyRef t i) = Some b" by (simp add: w')
    then show "i \<noteq> 0 \<and> (\<exists>tk. task_get t w' = Some tk \<and> bd_flags b = body_flags_of tk)"
      unfolding get by (rule task_wfD(2) [OF wf])
  qed
qed

subsection \<open>Sequences of operations\<close>

datatype task_op =
    OpTypeCreate info_ref "32 word" string
  | OpTaskCreate info_ref "32 word" "32 word" "task_flag \<Rightarrow> bool"
  | OpTaskExecute stack_ref task_ref "32 word"
  | OpTaskPause stack_ref task_ref "32 word"
  | OpTaskResume stack_ref task_ref "32 word"
  | OpTaskEnd stack_ref task_ref "32 word"

fun task_do :: "(string \<Rightarrow> 32 word) \<Rightarrow> task_op \<Rightarrow> 'x task_world_scheme \<Rightarrow> 'x task_world_scheme res" where
  "task_do h (OpTypeCreate info ty lbl) w = task_type_create h info ty lbl w"
| "task_do h (OpTaskCreate info ty i fl) w = task_create info ty i fl w"
| "task_do h (OpTaskExecute s t i) w = task_execute s t i w"
| "task_do h (OpTaskPause s t i) w = task_pause s t i w"
| "task_do h (OpTaskResume s t i) w = task_resume s t i w"
| "task_do h (OpTaskEnd s t i) w = task_end s t i w"

definition task_world0 :: task_world where
  "task_world0 = \<lparr>bodies = Map.empty, body_stacks = (\<lambda>_. []), task_types = (\<lambda>_. Map.empty),
     tasks = (\<lambda>_. Map.empty)\<rparr>"

inductive task_reach :: "(string \<Rightarrow> 32 word) \<Rightarrow> task_world \<Rightarrow> bool" for h where
  task_reach_init: "task_reach h task_world0"
| task_reach_step: "task_reach h w \<Longrightarrow> task_do h op w = Inr w' \<Longrightarrow> task_reach h w'"

lemma task_do_wf: "task_wf w \<Longrightarrow> task_do h op w = Inr w' \<Longrightarrow> task_wf w'"
  by (cases op) (auto intro: task_type_create_wf task_create_wf task_execute_wf task_pause_wf
      task_resume_wf task_end_wf)

lemma task_world0_wf: "task_wf task_world0"
proof (rule task_wfI)
  show "body_wf task_world0" by (simp add: body_wf_def task_world0_def)
  show "tk_nbodies tk = int (card (task_bodies t task_world0)) \<and> (\<not> task_is_parallel tk \<longrightarrow> tk_nbodies tk \<le> 1)"
    if "task_get t task_world0 = Some tk" for t tk
    using that by (cases t) (simp add: task_world0_def task_get_def task_find_def)
qed (simp_all add: task_world0_def task_get_def task_find_def)

lemma task_reach_wf: "task_reach h w \<Longrightarrow> task_wf w"
  by (induction rule: task_reach.induct) (auto intro: task_do_wf task_world0_wf)

text \<open>C30. After any sequence of successful operations on tasks, every body belongs to a task of the table and
  has the flags of that task, no body has the identifier zero, \<^verbatim>\<open>nbodies\<close> counts the bodies of the task, and a task
  without the parallel flag never has two bodies.\<close>

theorem task_bodies_counted:
  assumes "task_reach h w"
  shows "(\<forall>t i b. bodies w (BodyRef t i) = Some b \<longrightarrow>
      i \<noteq> 0 \<and> (\<exists>tk. task_get t w = Some tk \<and> bd_flags b = body_flags_of tk))
    \<and> (\<forall>t tk. task_get t w = Some tk \<longrightarrow> tk_nbodies tk = int (card (task_bodies t w)))
    \<and> (\<forall>t tk i j. task_get t w = Some tk \<and> \<not> task_is_parallel tk \<and> i \<in> task_bodies t w \<and> j \<in> task_bodies t w
         \<longrightarrow> i = j)"
proof -
  note wf = task_reach_wf [OF assms]
  have "i = j" if "task_get t w = Some tk" "\<not> task_is_parallel tk" "i \<in> task_bodies t w" "j \<in> task_bodies t w" for t tk i j
  proof -
    have "card (task_bodies t w) \<le> Suc 0" using task_wfD(3) [OF wf that(1)] that(2) by auto
    with that(3,4) show ?thesis by (auto simp: card_le_Suc0_iff_eq)
  qed
  with task_wfD(2,3) [OF wf] show ?thesis by blast
qed

definition demo_task_run :: "task_world res" where
  "demo_task_run =
     (let h = (\<lambda>_. 7); i = InfoRef 0 0 in
     rbind (task_do h (OpTypeCreate i 3 ''main'') task_world0) (\<lambda>w.
     rbind (task_do h (OpTaskCreate i 3 5 (\<lambda>_. False)) w) (\<lambda>w.
     task_do h (OpTaskExecute (StackRef 0 2) (TaskRef i 5) 1) w)))"

theorem task_bodies_counted_witness:
  "\<exists>w tk. demo_task_run = Inr w \<and> task_get (TaskRef (InfoRef 0 0) 5) w = Some tk \<and> tk_nbodies tk = 1
     \<and> tk_nbodies tk = int (card (task_bodies (TaskRef (InfoRef 0 0) 5) w))"
proof -
  have "case demo_task_run of Inl _ \<Rightarrow> False | Inr w \<Rightarrow> map_option tk_nbodies (task_get (TaskRef (InfoRef 0 0) 5) w) = Some 1"
    by code_simp
  then obtain w tk where w: "demo_task_run = Inr w" "task_get (TaskRef (InfoRef 0 0) 5) w = Some tk" "tk_nbodies tk = 1"
    by (auto split: sum.splits)
  from w(1) obtain w1 w2 where
    "task_do (\<lambda>_. 7) (OpTypeCreate (InfoRef 0 0) 3 ''main'') task_world0 = Inr w1"
    "task_do (\<lambda>_. 7) (OpTaskCreate (InfoRef 0 0) 3 5 (\<lambda>_. False)) w1 = Inr w2"
    "task_do (\<lambda>_. 7) (OpTaskExecute (StackRef 0 2) (TaskRef (InfoRef 0 0) 5) 1) w2 = Inr w"
    unfolding demo_task_run_def Let_def rbind_eq_Inr by (elim exE conjE)
  note steps = this
  have "task_reach (\<lambda>_. 7) w"
    by (rule task_reach_step [OF _ steps(3)], rule task_reach_step [OF _ steps(2)],
        rule task_reach_step [OF _ steps(1)], rule task_reach_init)
  from task_bodies_counted [OF this] w show ?thesis by blast
qed

end
