(* ===== verification/Track.thy ===== *)
theory Track
  imports Cpu View Task "HOL-Library.Countable"
begin

text \<open>
  Tracking: \<^verbatim>\<open>src/emu/track.c\<close>, \<^verbatim>\<open>src/emu/model_thread.c\<close>, \<^verbatim>\<open>src/emu/model_cpu.c\<close>, \<^verbatim>\<open>src/emu/model_pvt.c\<close> and the types of
  \<^verbatim>\<open>src/emu/pv/pcf.c\<close>.

  A model gives every thread some channels. The track of a channel follows it while the thread is running or active, and each CPU
  has a track that follows the channel of the thread that runs there. The track is the channel
  \<open>ModelThreadTrack\<close> or \<open>ModelCpuTrack\<close> and the multiplexer numbered \<open>track_mux\<close>. The tracks are connected to the rows of the traces.

  The types and labels that go to the configuration file of Paraver are kept apart from the world, in a function from the address
  of a trace to its \<^verbatim>\<open>struct pcf\<close>, a list of types in the order they were added.
\<close>

subsection \<open>Types and labels of Paraver\<close>

record pcf_type =
  pt_id :: int
  pt_label :: string
  pt_values :: "(int \<times> string) list"

type_synonym pcf = "pcf_type list"

definition pcf_find_type :: "int \<Rightarrow> pcf \<Rightarrow> pcf_type option" where
  "pcf_find_type ident pcf = find (\<lambda>t. pt_id t = ident) pcf"

definition pcf_add_type :: "int \<Rightarrow> string \<Rightarrow> pcf \<Rightarrow> pcf res" where
  "pcf_add_type ident label pcf =
     (if pcf_find_type ident pcf \<noteq> None then Inl (EPrv PcfTypeTaken)
      else if length label \<ge> MAX_PCF_LABEL then Inl (EPrv PcfLabelTooLong)
      else Inr (pcf @ [\<lparr>pt_id = ident, pt_label = label, pt_values = []\<rparr>]))"

definition pcf_find_value :: "int \<Rightarrow> pcf_type \<Rightarrow> string option" where
  "pcf_find_value v t = map_of (pt_values t) v"

definition pcf_add_value :: "int \<Rightarrow> string \<Rightarrow> pcf_type \<Rightarrow> pcf_type res" where
  "pcf_add_value v label t =
     (if pcf_find_value v t \<noteq> None then Inl (EPrv PcfValueTaken)
      else if length label \<ge> MAX_PCF_LABEL then Inl (EPrv PcfLabelTooLong)
      else Inr (t\<lparr>pt_values := pt_values t @ [(v, label)]\<rparr>))"

subsection \<open>The channels of a model\<close>

datatype track_th = TRACK_TH_ANY | TRACK_TH_RUN | TRACK_TH_ACT

text \<open>A NULL table of flags is all zeros, and a NULL table of labels is empty.\<close>

record model_pvt_spec =
  ps_type :: "nat \<Rightarrow> int"
  ps_prefix :: "nat \<Rightarrow> string"
  ps_flags :: "nat \<Rightarrow> prv_flag \<Rightarrow> bool"
  ps_label :: "nat \<Rightarrow> (int \<times> string) list"

record model_chan_spec =
  cs_nch :: nat
  cs_prefix :: string
  cs_names :: "nat \<Rightarrow> string"
  cs_stack :: "nat \<Rightarrow> bool"
  cs_dup :: "(nat \<Rightarrow> bool) option"
  cs_pvt :: model_pvt_spec
  cs_track :: "nat \<Rightarrow> track_th"

fun pcf_suffix :: "track_th \<Rightarrow> string" where
  "pcf_suffix TRACK_TH_ANY = ''''"
| "pcf_suffix TRACK_TH_RUN = ''of the RUNNING thread''"
| "pcf_suffix TRACK_TH_ACT = ''of the ACTIVE thread''"

definition create_values :: "(int \<times> string) list \<Rightarrow> pcf_type \<Rightarrow> pcf_type res" where
  "create_values vs t = foldr_res (\<lambda>(v, label). pcf_add_value v label) vs t"

definition create_type :: "model_pvt_spec \<Rightarrow> nat \<Rightarrow> track_th \<Rightarrow> pcf \<Rightarrow> pcf res" where
  "create_type pvt i mode pcf =
     (let type = ps_type pvt i; label = ps_prefix pvt i @ '' '' @ pcf_suffix mode in
      if type = -1 then Inr pcf
      else if length label \<ge> MAX_PCF_LABEL then Inl (EPrv PcfLabelTooLong)
      else rbind (pcf_add_type type label pcf) (\<lambda>pcf1.
           rbind (create_values (ps_label pvt i) (last pcf1)) (\<lambda>t. Inr (butlast pcf1 @ [t]))))"

definition init_pcf :: "model_chan_spec \<Rightarrow> pcf \<Rightarrow> pcf res" where
  "init_pcf spec pcf = foldr_res (\<lambda>i. create_type (cs_pvt spec) i (cs_track spec i)) [0..<cs_nch spec] pcf"

subsection \<open>Tracks\<close>

fun th_suffix :: "track_th \<Rightarrow> string" where
  "th_suffix TRACK_TH_ANY = ''.any''"
| "th_suffix TRACK_TH_RUN = ''.run''"
| "th_suffix TRACK_TH_ACT = ''.act''"

fun track_mux :: "cid \<Rightarrow> nat" where
  "track_mux (ModelThreadTrack t m i) = 2 * prod_encode (t, prod_encode (m, i))"
| "track_mux (ModelCpuTrack c m i) = Suc (2 * prod_encode (c, prod_encode (m, i)))"
| "track_mux _ = 0"

declare track_mux.simps [simp del]

text \<open>A channel that is initialized and put in the bay.\<close>

definition new_chan :: "cid \<Rightarrow> chan \<Rightarrow> 'x bay_scheme \<Rightarrow> 'x bay_scheme res" where
  "new_chan c ch w = bay_register c (w\<lparr>bay_mem := (bay_mem w)(c := ch)\<rparr>)"

definition track_init :: "cid \<Rightarrow> track_th \<Rightarrow> string \<Rightarrow> 'x bay_scheme \<Rightarrow> 'x bay_scheme res" where
  "track_init tr mode name w =
     (if length name \<ge> MAX_CHAN_NAME then Inl (EMux TrackNameTooLong)
      else rbind (chan_init CHAN_SINGLE (name @ th_suffix mode)) (\<lambda>ch. new_chan tr ch w))"

definition track_get_output :: "cid \<Rightarrow> track_th \<Rightarrow> cid \<Rightarrow> cid" where
  "track_get_output tr mode inp = (if mode = TRACK_TH_ANY then inp else tr)"

definition track_set_select :: "cid \<Rightarrow> cid \<Rightarrow> mux_select_func option \<Rightarrow> nat \<Rightarrow> 'x mux_bay_scheme \<Rightarrow> 'x mux_bay_scheme res" where
  "track_set_select tr sel fsel ninputs w = mux_init (track_mux tr) sel tr fsel ninputs w"

definition track_set_input :: "cid \<Rightarrow> nat \<Rightarrow> cid \<Rightarrow> 'x mux_bay_scheme \<Rightarrow> 'x mux_bay_scheme res" where
  "track_set_input tr index inp w = mux_set_input (track_mux tr) index inp w"

fun track_fsel :: "track_th \<Rightarrow> mux_select_func" where
  "track_fsel TRACK_TH_ACT = thread_select_active"
| "track_fsel _ = thread_select_running"

definition track_th_input_chan :: "cid \<Rightarrow> track_th \<Rightarrow> cid \<Rightarrow> cid \<Rightarrow> 'x mux_bay_scheme \<Rightarrow> 'x mux_bay_scheme res" where
  "track_th_input_chan tr mode sel inp w =
     (if mode = TRACK_TH_ANY then Inr w
      else rbind (track_set_select tr sel (Some (track_fsel mode)) 1 w) (track_set_input tr 0 inp))"

definition track_connect_thread :: "model_chan_spec \<Rightarrow> nat \<Rightarrow> nat \<Rightarrow> 'x mux_bay_scheme \<Rightarrow> 'x mux_bay_scheme res" where
  "track_connect_thread spec m t w =
     foldr_res (\<lambda>i. track_th_input_chan (ModelThreadTrack t m i) (cs_track spec i) (ThreadChan t TH_CHAN_STATE) (ModelChan t m i))
       [0..<cs_nch spec] w"

subsection \<open>Threads\<close>

definition model_thread_chan :: "model_chan_spec \<Rightarrow> nat \<Rightarrow> nat \<Rightarrow> nat \<Rightarrow> 'x sys_bay_scheme \<Rightarrow> 'x sys_bay_scheme res" where
  "model_thread_chan spec m t i w =
     rbind (chan_init (if cs_stack spec i then CHAN_STACK else CHAN_SINGLE)
         (cs_prefix spec @ ''.thread'' @ dec (nat (th_gindex (threads w t))) @ ''.'' @ cs_names spec i)) (\<lambda>ch.
       new_chan (ModelChan t m i)
         (case cs_dup spec of None \<Rightarrow> ch | Some dup \<Rightarrow> chan_prop_set CHAN_ALLOW_DUP (dup i) ch) w)"

definition model_thread_track :: "model_chan_spec \<Rightarrow> nat \<Rightarrow> nat \<Rightarrow> nat \<Rightarrow> 'x sys_bay_scheme \<Rightarrow> 'x sys_bay_scheme res" where
  "model_thread_track spec m t i w =
     track_init (ModelThreadTrack t m i) (cs_track spec i)
       (cs_prefix spec @ ''.thread'' @ dec (nat (th_gindex (threads w t))) @ ''.'' @ cs_names spec i) w"

definition init_thread :: "model_chan_spec \<Rightarrow> nat \<Rightarrow> nat \<Rightarrow> 'x sys_bay_scheme \<Rightarrow> 'x sys_bay_scheme res" where
  "init_thread spec m t w =
     rbind (foldr_res (model_thread_chan spec m t) [0..<cs_nch spec] w)
       (foldr_res (model_thread_track spec m t) [0..<cs_nch spec])"

definition model_thread_create :: "model_chan_spec \<Rightarrow> nat \<Rightarrow> nat list \<Rightarrow> 'x sys_bay_scheme \<Rightarrow> 'x sys_bay_scheme res" where
  "model_thread_create spec m ths w = foldr_res (init_thread spec m) ths w"

text \<open>The rows of a trace.\<close>

definition connect_thread_prv :: "model_chan_spec \<Rightarrow> nat \<Rightarrow> nat \<Rightarrow> nat \<Rightarrow> 'x sys_bay_scheme \<Rightarrow> 'x sys_bay_scheme res" where
  "connect_thread_prv spec m k t w =
     foldr_res (\<lambda>i v. prv_register k (th_gindex (threads v t)) (ps_type (cs_pvt spec) i)
         (track_get_output (ModelThreadTrack t m i) (cs_track spec i) (ModelChan t m i)) (ps_flags (cs_pvt spec) i) v)
       [0..<cs_nch spec] w"

type_synonym 'x pcf_st = "(nat \<Rightarrow> pcf) \<times> 'x sys_bay_scheme"

definition model_pvt_connect_thread :: "model_chan_spec \<Rightarrow> nat \<Rightarrow> nat list \<Rightarrow> 'x pcf_st \<Rightarrow> 'x pcf_st res" where
  "model_pvt_connect_thread spec m ths = (\<lambda>(pcfs, w).
     case recorder_find_pvt ''thread'' w of
       None \<Rightarrow> Inl (EThread ThreadNoPvt)
     | Some k \<Rightarrow>
         rbind (foldr_res (connect_thread_prv spec m k) ths w) (\<lambda>w1.
         rbind (init_pcf spec (pcfs k)) (\<lambda>pcf. Inr (pcfs(k := pcf), w1))))"

definition model_thread_connect :: "model_chan_spec \<Rightarrow> nat \<Rightarrow> nat list \<Rightarrow> 'x pcf_st \<Rightarrow> 'x pcf_st res" where
  "model_thread_connect spec m ths = (\<lambda>(pcfs, w).
     rbind (foldr_res (track_connect_thread spec m) ths w) (\<lambda>w1. model_pvt_connect_thread spec m ths (pcfs, w1)))"

subsection \<open>CPUs\<close>

definition init_cpu :: "model_chan_spec \<Rightarrow> nat \<Rightarrow> nat \<Rightarrow> 'x sys_bay_scheme \<Rightarrow> 'x sys_bay_scheme res" where
  "init_cpu spec m c w =
     foldr_res (\<lambda>i v. track_init (ModelCpuTrack c m i) (cs_track spec i)
         (cs_prefix spec @ ''.cpu'' @ dec (nat (cp_gindex (cpus v c))) @ ''.'' @ cs_names spec i) v)
       [0..<cs_nch spec] w"

definition model_cpu_create :: "model_chan_spec \<Rightarrow> nat \<Rightarrow> nat list \<Rightarrow> 'x sys_bay_scheme \<Rightarrow> 'x sys_bay_scheme res" where
  "model_cpu_create spec m cps w = foldr_res (init_cpu spec m) cps w"

definition connect_cpu_track :: "model_chan_spec \<Rightarrow> nat \<Rightarrow> nat list \<Rightarrow> nat \<Rightarrow> nat \<Rightarrow> 'x sys_bay_scheme \<Rightarrow> 'x sys_bay_scheme res" where
  "connect_cpu_track spec m ths c i w =
     (if cs_track spec i \<noteq> TRACK_TH_RUN then Inl (EMux TrackWrongMode)
      else rbind (track_set_select (ModelCpuTrack c m i) (CpuChan c CPU_CHAN_THRUN) None (length ths) w)
        (foldr_res (\<lambda>t v. track_set_input (ModelCpuTrack c m i) (nat (th_gindex (threads v t))) (ModelChan t m i) v) ths))"

definition connect_cpu :: "model_chan_spec \<Rightarrow> nat \<Rightarrow> nat list \<Rightarrow> nat \<Rightarrow> 'x sys_bay_scheme \<Rightarrow> 'x sys_bay_scheme res" where
  "connect_cpu spec m ths c w = foldr_res (connect_cpu_track spec m ths c) [0..<cs_nch spec] w"

definition connect_cpu_prv :: "model_chan_spec \<Rightarrow> nat \<Rightarrow> nat \<Rightarrow> nat \<Rightarrow> 'x sys_bay_scheme \<Rightarrow> 'x sys_bay_scheme res" where
  "connect_cpu_prv spec m k c w =
     foldr_res (\<lambda>i v. prv_register k (cp_gindex (cpus v c)) (ps_type (cs_pvt spec) i)
         (ModelCpuTrack c m i) (ps_flags (cs_pvt spec) i) v) [0..<cs_nch spec] w"

definition model_pvt_connect_cpu :: "model_chan_spec \<Rightarrow> nat \<Rightarrow> nat list \<Rightarrow> 'x pcf_st \<Rightarrow> 'x pcf_st res" where
  "model_pvt_connect_cpu spec m cps = (\<lambda>(pcfs, w).
     case recorder_find_pvt ''cpu'' w of
       None \<Rightarrow> Inl (ECpu CpuNoPvt)
     | Some k \<Rightarrow>
         rbind (foldr_res (connect_cpu_prv spec m k) cps w) (\<lambda>w1.
         rbind (init_pcf spec (pcfs k)) (\<lambda>pcf. Inr (pcfs(k := pcf), w1))))"

definition model_cpu_connect :: "model_chan_spec \<Rightarrow> nat \<Rightarrow> nat list \<Rightarrow> nat list \<Rightarrow> 'x pcf_st \<Rightarrow> 'x pcf_st res" where
  "model_cpu_connect spec m ths cps = (\<lambda>(pcfs, w).
     rbind (foldr_res (connect_cpu spec m ths) cps w) (\<lambda>w1. model_pvt_connect_cpu spec m cps (pcfs, w1)))"

end
