(* ===== verification/Wiring.thy ===== *)
theory Wiring
  imports Track
begin

text \<open>
  The wiring that \<^verbatim>\<open>model_thread_create\<close>, \<^verbatim>\<open>model_cpu_create\<close>, \<^verbatim>\<open>model_thread_connect\<close> and \<^verbatim>\<open>model_cpu_connect\<close> leave: it keeps the
  invariant of the propagation, and the multiplexers of the tracks have the select channel and the inputs that make
  a track follow its thread and a CPU follow its running thread.
\<close>

subsection \<open>New channels\<close>

lemma new_chan_ok:
  assumes inv: "prop_inv w" and c: "c \<notin> registered w" "\<And>s i. c \<noteq> SortOutput s i"
    and ch: "chan_wf ch" "\<not> ch_is_dirty ch" "\<not> ch_dirty_cb ch" and ok: "new_chan c ch w = Inr w'"
  shows "prop_inv w'" and "registered w' = insert c (registered w)"
    and "bay_mem w' = (bay_mem w)(c := chan_set_dirty_cb ch)" and "bay.more w' = bay.more w"
    and "bay_cbs w' = bay_cbs w" and "bay_ncbs w' = bay_ncbs w" and "bay_dirty w' = bay_dirty w" and "bay_state w' = bay_state w"
proof -
  let ?w = "w\<lparr>bay_mem := (bay_mem w)(c := ch)\<rparr>"
  from inv have i: "bay_wf w" "mux_inv w" "sort_inv w" "prv_inv w" "flat w" "sel_wired w"
    by (simp_all add: prop_inv_def emu_inv_def)
  have reg: "bay_register c ?w = Inr w'" using ok by (simp add: new_chan_def)
  have wf: "bay_wf ?w" by (rule bay_wf_new_chan [OF i(1) c(1) ch(1,3)])
  note r = bay_register_wf [OF wf _ reg]
  from reg have w': "w' = ?w\<lparr>bay_bchans := (bay_bchans w)(c := \<lparr>bc_ncallbacks = (\<lambda>_. 0), bc_cb = (\<lambda>_. []), bc_is_dirty = False\<rparr>),
      bay_mem := (bay_mem w)(c := chan_set_dirty_cb ch), bay_channels := (bay_channels w)(ch_name ch \<mapsto> c)\<rparr>"
    by (auto simp: bay_register_def Let_def split: if_splits)
  show "registered w' = insert c (registered w)" using r ch by simp
  show mem: "bay_mem w' = (bay_mem w)(c := chan_set_dirty_cb ch)" and more: "bay.more w' = bay.more w"
    and cbs: "bay_cbs w' = bay_cbs w" and ncbs: "bay_ncbs w' = bay_ncbs w" and "bay_dirty w' = bay_dirty w" "bay_state w' = bay_state w"
    by (simp_all add: w')
  have mux: "muxes w' = muxes w" and so: "sorts w' = sorts w" and pr: "prvs w' = prvs w" by (simp_all add: w')
  have "mux_inv w'" using bay_register_mux [OF mux_inv_new_chan [OF i(2) c(1)] wf _ reg] ch(2) by simp
  moreover have "sort_inv w'"
    using i(3) c(2) [symmetric] unfolding sort_inv_def sort_out_ok_def by (simp add: mem cbs ncbs so)
  moreover have "prv_inv w'" by (rule prv_inv_cong [OF i(4)]) (simp_all add: cbs ncbs pr)
  moreover have "flat w'" using i(5) unfolding flat_def mux_flat_def mux_used_def mux cbs ncbs .
  moreover have "sel_wired w'"
  proof -
    have "cb_list d t w' = cb_list d t w" if "i \<in> set (cb_list d t w)" for d t i
    proof -
      have "d \<in> registered w" using i(1) that by (auto simp: bay_wf_defs)
      with c(1) have "d \<noteq> c" by auto
      then show ?thesis by (simp add: w')
    qed
    then show ?thesis using i(6) unfolding sel_wired_def mux_used_def mux cbs ncbs by metis
  qed
  ultimately show "prop_inv w'" using r ch(2) by (simp add: prop_inv_def emu_inv_def)
qed

subsection \<open>A multiplexer and its inputs\<close>

lemma add_cb_sort_inv:
  assumes "sort_inv w" and "bay_ncbs w' = Suc (bay_ncbs w)" "bay_cbs w' = (bay_cbs w)(bay_ncbs w := cb)"
    and "\<And>s k. cb_fun cb \<noteq> SORT_CB_INPUT s k" and "sorts w' = sorts w"
    and "\<And>s i. bay_mem w' (SortOutput s i) = bay_mem w (SortOutput s i)"
  shows "sort_inv w'"
  using assms unfolding sort_inv_def sort_out_ok_def by (auto simp: less_Suc_eq)

lemma add_cb_prv_inv:
  assumes "prv_inv w" and "bay_ncbs w' = Suc (bay_ncbs w)" "bay_cbs w' = (bay_cbs w)(bay_ncbs w := cb)"
    and "\<And>k j. cb_fun cb \<noteq> CB_PRV k j" and "prvs w' = prvs w"
  shows "prv_inv w'"
  using assms unfolding prv_inv_def by (auto simp: less_Suc_eq)

lemma add_cb_mux_used:
  assumes "bay_ncbs w' = Suc (bay_ncbs w)" "bay_cbs w' = (bay_cbs w)(bay_ncbs w := cb)"
  shows "mux_used m w' \<longleftrightarrow> cb_fun cb = CB_SELECT m \<or> mux_used m w"
proof -
  have "(\<exists>i < bay_ncbs w. cb_fun (bay_cbs w' i) = CB_SELECT m) = (\<exists>i < bay_ncbs w. cb_fun (bay_cbs w i) = CB_SELECT m)"
    unfolding assms(2) by (intro ex_cong1 conj_cong) auto
  then show ?thesis unfolding mux_used_def assms(1) ex_upto_Suc by (simp add: assms(2))
qed

lemma mux_init_facts:
  assumes wf: "bay_wf w" and sel: "sel \<in> registered w" and ok: "mux_init m sel out sf n w = Inr w'"
  shows "bay_ncbs w' = Suc (bay_ncbs w)" "bay_channels w' = bay_channels w" "bay_dirty w' = bay_dirty w" "bay_state w' = bay_state w"
    "bay_mem w' = (bay_mem w)(out := chan_prop_set CHAN_ALLOW_DUP True (chan_prop_set CHAN_DIRTY_WRITE True (bay_mem w out)))"
    "mux_bay.more w' = mux_bay.more w"
    "muxes w' = (muxes w)(m := \<lparr>mx_ninputs = int n, mx_selected = 0, mx_inputs = replicate n empty_input,
       mx_select_func = sf, mx_select = sel, mx_output = out, mx_def = VALUE_NULL\<rparr>)"
    "bay_cbs w' = (bay_cbs w)(bay_ncbs w := \<lparr>cb_fun = CB_SELECT m, cb_bchan = sel, cb_enabled = True, cb_type = BAY_CB_DIRTY\<rparr>)"
    "\<And>d u. set (cb_list d u w) \<subseteq> set (cb_list d u w')" "bay_ncbs w \<in> set (cb_list sel BAY_CB_DIRTY w')"
    "ch_type (bay_mem w out) = CHAN_SINGLE" "sel \<noteq> out"
proof -
  let ?ch = "chan_prop_set CHAN_ALLOW_DUP True (chan_prop_set CHAN_DIRTY_WRITE True (bay_mem w out))"
  let ?mx = "\<lparr>mx_ninputs = int n, mx_selected = 0, mx_inputs = replicate n empty_input,
     mx_select_func = sf, mx_select = sel, mx_output = out, mx_def = VALUE_NULL\<rparr>"
  let ?w = "mux_update m ?mx (w\<lparr>bay_mem := (bay_mem w)(out := ?ch)\<rparr>)"
  have run: "\<exists>i. bay_add_cb BAY_CB_DIRTY sel (CB_SELECT m) True ?w = Inr (i, w')"
    and "ch_type (bay_mem w out) = CHAN_SINGLE" "sel \<noteq> out"
    using ok by (auto simp: mux_init_def Let_def split: if_splits)
  then show "ch_type (bay_mem w out) = CHAN_SINGLE" "sel \<noteq> out" by simp_all
  have wf1: "bay_wf ?w"
    using bay_wf_props [OF bay_wf_props [OF wf, of out CHAN_DIRTY_WRITE True], of out CHAN_ALLOW_DUP True] by simp
  have "sel \<in> registered ?w" using sel by (simp add: mux_update_def)
  from bay_add_cb_ok [OF wf1 this, of BAY_CB_DIRTY "CB_SELECT m" True] run
  have w': "bay_wf w'" "bay_ncbs w' = Suc (bay_ncbs w)" "bay_channels w' = bay_channels w" "bay_state w' = bay_state w"
    "bay_mem w' = (bay_mem w)(out := ?ch)" "bay_dirty w' = bay_dirty w" "bay.more w' = bay.more ?w"
    "bay_cbs w' = (bay_cbs w)(bay_ncbs w := \<lparr>cb_fun = CB_SELECT m, cb_bchan = sel, cb_enabled = True, cb_type = BAY_CB_DIRTY\<rparr>)"
    "\<forall>d u. cb_list d u w' = (if d = sel \<and> u = BAY_CB_DIRTY then cb_list d u w @ [bay_ncbs w] else cb_list d u w)"
    by (auto simp: mux_update_def)
  from w' show "bay_ncbs w' = Suc (bay_ncbs w)" "bay_channels w' = bay_channels w" "bay_dirty w' = bay_dirty w" "bay_state w' = bay_state w"
    "bay_mem w' = (bay_mem w)(out := ?ch)"
    "bay_cbs w' = (bay_cbs w)(bay_ncbs w := \<lparr>cb_fun = CB_SELECT m, cb_bchan = sel, cb_enabled = True, cb_type = BAY_CB_DIRTY\<rparr>)"
    "\<And>d u. set (cb_list d u w) \<subseteq> set (cb_list d u w')" "bay_ncbs w \<in> set (cb_list sel BAY_CB_DIRTY w')" by auto
  show "muxes w' = (muxes w)(m := ?mx)" using more_muxes [OF w'(7)] by (simp add: mux_update_def)
  show "mux_bay.more w' = mux_bay.more w" using more_mux_more [OF w'(7)] by (simp add: mux_update_def)
qed

lemma mux_set_input_facts:
  assumes wf: "bay_wf w" and c: "c \<in> registered w" and ok: "mux_set_input m k c w = Inr w'"
  shows "bay_ncbs w' = Suc (bay_ncbs w)" "bay_channels w' = bay_channels w" "bay_dirty w' = bay_dirty w" "bay_state w' = bay_state w"
    "bay_mem w' = bay_mem w" "mux_bay.more w' = mux_bay.more w"
    "muxes w' = (muxes w)(m := (muxes w m)\<lparr>mx_inputs := (mx_inputs (muxes w m))[k :=
       (mx_inputs (muxes w m) ! k)\<lparr>mi_index := k, mi_chan := Some c, mi_output := Some (mx_output (muxes w m)), mi_cb := Some (bay_ncbs w)\<rparr>]\<rparr>)"
    "bay_cbs w' = (bay_cbs w)(bay_ncbs w := \<lparr>cb_fun = CB_INPUT m k, cb_bchan = c, cb_enabled = False, cb_type = BAY_CB_DIRTY\<rparr>)"
    "\<And>d u. cb_list d u w' = cb_list d u w" "k < length (mx_inputs (muxes w m))"
proof -
  from ok obtain i w1 where run: "bay_add_cb BAY_CB_DIRTY c (CB_INPUT m k) False w = Inr (i, w1)"
    and w': "w' = mux_update m ((muxes w m)\<lparr>mx_inputs := (mx_inputs (muxes w m))[k := (mx_inputs (muxes w m) ! k)\<lparr>mi_index := k,
              mi_chan := Some c, mi_output := Some (mx_output (muxes w m)), mi_cb := Some i\<rparr>]\<rparr>) w1"
    and k: "k < length (mx_inputs (muxes w m))"
    by (auto simp: mux_set_input_def Let_def split: if_splits)
  from bay_add_cb_ok [OF wf c, of BAY_CB_DIRTY "CB_INPUT m k" False] run
  have w1: "i = bay_ncbs w" "bay_ncbs w1 = Suc (bay_ncbs w)" "bay_channels w1 = bay_channels w" "bay_state w1 = bay_state w"
    "bay_mem w1 = bay_mem w" "bay_dirty w1 = bay_dirty w" "bay.more w1 = bay.more w" "\<forall>d u. cb_list d u w1 = cb_list d u w"
    "bay_cbs w1 = (bay_cbs w)(bay_ncbs w := \<lparr>cb_fun = CB_INPUT m k, cb_bchan = c, cb_enabled = False, cb_type = BAY_CB_DIRTY\<rparr>)" by auto
  have "muxes w1 = muxes w" "mux_bay.more w1 = mux_bay.more w" using more_muxes [OF w1(7)] more_mux_more [OF w1(7)] by simp_all
  with w1 k show "bay_ncbs w' = Suc (bay_ncbs w)" "bay_channels w' = bay_channels w" "bay_dirty w' = bay_dirty w"
    "bay_state w' = bay_state w" "bay_mem w' = bay_mem w" "mux_bay.more w' = mux_bay.more w"
    "muxes w' = (muxes w)(m := (muxes w m)\<lparr>mx_inputs := (mx_inputs (muxes w m))[k :=
       (mx_inputs (muxes w m) ! k)\<lparr>mi_index := k, mi_chan := Some c, mi_output := Some (mx_output (muxes w m)), mi_cb := Some (bay_ncbs w)\<rparr>]\<rparr>)"
    "bay_cbs w' = (bay_cbs w)(bay_ncbs w := \<lparr>cb_fun = CB_INPUT m k, cb_bchan = c, cb_enabled = False, cb_type = BAY_CB_DIRTY\<rparr>)"
    "\<And>d u. cb_list d u w' = cb_list d u w" "k < length (mx_inputs (muxes w m))"
    by (simp_all add: w' mux_update_def)
qed

fun is_track :: "cid \<Rightarrow> bool" where
  "is_track (ModelThreadTrack t m i) = True"
| "is_track (ModelCpuTrack c m i) = True"
| "is_track _ = False"

text \<open>Every multiplexer in use belongs to a track, its output.\<close>

definition tracks_only :: "'x mux_bay_scheme \<Rightarrow> bool" where
  "tracks_only w \<longleftrightarrow> (\<forall>m. mux_used m w \<longrightarrow> is_track (mx_output (muxes w m)) \<and> m = track_mux (mx_output (muxes w m)))"

lemma track_mux_inj: "is_track a \<Longrightarrow> is_track b \<Longrightarrow> track_mux a = track_mux b \<Longrightarrow> a = b"
  by (cases a; cases b) (auto simp: track_mux.simps dest: arg_cong [where f = even])

lemma is_track_chan: "is_track tr \<Longrightarrow> \<not> is_source tr \<and> (\<forall>s i. tr \<noteq> SortOutput s i)"
  by (cases tr) auto

lemma mux_fresh_unused: "mux_inv w \<Longrightarrow> \<not> mux_used m w \<Longrightarrow> mux_fresh m w"
  unfolding mux_fresh_def mux_inv_def mux_cb_ok_def mux_used_def by metis

text \<open>Wiring multiplexers of the set \<open>M\<close> changes nothing else: no channel gets another value, and nothing becomes dirty.\<close>

definition wire_step :: "nat set \<Rightarrow> 'x prv_bay_scheme \<Rightarrow> 'x prv_bay_scheme \<Rightarrow> bool" where
  "wire_step M w w' \<longleftrightarrow> prop_inv w' \<and> tracks_only w' \<and> prv_bay.more w' = prv_bay.more w
     \<and> bay_channels w' = bay_channels w \<and> bay_dirty w' = bay_dirty w \<and> bay_state w' = bay_state w
     \<and> (\<forall>c. chan_read_at c w' = chan_read_at c w \<and> (is_source c \<longrightarrow> bay_mem w' c = bay_mem w c))
     \<and> (\<forall>m. m \<notin> M \<longrightarrow> muxes w' m = muxes w m \<and> mux_used m w' = mux_used m w)
     \<and> (\<forall>k. prv_wf (prvs w k) \<longrightarrow> prv_wf (prvs w' k))"

lemma wire_step_refl: "prop_inv w \<Longrightarrow> tracks_only w \<Longrightarrow> wire_step M w w"
  by (simp add: wire_step_def)

lemma wire_step_trans: "wire_step M w w' \<Longrightarrow> wire_step N w' w'' \<Longrightarrow> wire_step (M \<union> N) w w''"
  unfolding wire_step_def by auto

lemma wire_step_mono: "wire_step M w w' \<Longrightarrow> M \<subseteq> N \<Longrightarrow> wire_step N w w'"
  unfolding wire_step_def by blast

lemma chan_prop_set_read [simp]: "chan_read (chan_prop_set p b ch) = chan_read ch"
  by (simp add: chan_prop_set_def chan_read_def split: list.split)

lemma mux_init_wire:
  assumes inv: "prop_inv w" "tracks_only w" and tr: "is_track tr" "tr \<in> registered w" "\<not> mux_used (track_mux tr) w"
    and sel: "is_source sel" "sel \<in> registered w"
    and sf: "\<And>f. sf = Some f \<Longrightarrow> f = thread_select_running \<and> n = 1 \<or> f = thread_select_active \<and> n = 1"
    and ok: "mux_init (track_mux tr) sel tr sf n w = Inr w'"
  shows "wire_step {track_mux tr} w w'" and "mux_used (track_mux tr) w'"
    and "muxes w' (track_mux tr) = \<lparr>mx_ninputs = int n, mx_selected = 0, mx_inputs = replicate n empty_input,
       mx_select_func = sf, mx_select = sel, mx_output = tr, mx_def = VALUE_NULL\<rparr>"
proof -
  let ?m = "track_mux tr"
  from inv have i: "bay_wf w" "mux_inv w" "sort_inv w" "prv_inv w" "flat w" "sel_wired w"
    by (simp_all add: prop_inv_def emu_inv_def)
  note f = mux_init_facts [OF i(1) sel(2) ok]
  note trc = is_track_chan [OF tr(1)]
  have ss: "f (int n) chans rd key \<noteq> Inl EFuel \<and> (f (int n) chans rd key = Inr (Some k) \<longrightarrow> k < n)" if "sf = Some f" for f chans rd key k
    using sf [OF that] by (auto simp: thread_select_running_def thread_select_active_def split: chval.splits if_splits)
  have mi: "bay_wf w' \<and> mux_inv w' \<and> mux_used ?m w'"
    using mux_init_inv [OF i(1,2) mux_fresh_unused [OF i(2) tr(3)] sel(2) tr(2) _ ok] ss by simp
  then show used: "mux_used ?m w'" by simp
  show mx: "muxes w' ?m = \<lparr>mx_ninputs = int n, mx_selected = 0, mx_inputs = replicate n empty_input,
       mx_select_func = sf, mx_select = sel, mx_output = tr, mx_def = VALUE_NULL\<rparr>" by (simp add: f(7))
  have others: "muxes w' m = muxes w m" if "m \<noteq> ?m" for m using that by (simp add: f(7))
  have u: "mux_used m w' \<longleftrightarrow> m = ?m \<or> mux_used m w" for m using add_cb_mux_used [OF f(1,8)] by auto
  have more: "sorts w' = sorts w" "prvs w' = prvs w" using more_fields(1) [OF f(6)] by simp_all
  have "sort_inv w'" by (rule add_cb_sort_inv [OF i(3) f(1,8)]) (use more trc in \<open>auto simp: f(5)\<close>)
  moreover have "prv_inv w'" by (rule add_cb_prv_inv [OF i(4) f(1,8)]) (use more in auto)
  moreover have "flat w'"
  proof -
    have out: "mx_output (muxes w m) \<noteq> tr" if "mux_used m w" for m
      using that inv(2) tr(3) unfolding tracks_only_def by metis
    have "mux_flat w' m" if "mux_used m w'" for m
    proof (cases "m = ?m")
      case True
      have "f n' ch rd v = f n' ch rd' v" if "sf = Some f" for f n' ch rd rd' v
        using sf [OF that] by (auto simp: thread_select_running_def thread_select_active_def)
      moreover have "mux_input_chan (muxes w' ?m) k = None" for k by (simp add: mx mux_input_chan_def empty_input_def)
      moreover have "m' = ?m" if "mux_used m' w'" "mx_output (muxes w' m') = tr" for m'
        using that u out others by metis
      ultimately show ?thesis using trc sel(1) True by (auto simp: mux_flat_def mx Let_def)
    next
      case False
      then have um: "mux_used m w" using that u by simp
      with i(5) have "mux_flat w m" by (simp add: flat_def)
      with False others u out [OF um] mx show ?thesis unfolding mux_flat_def Let_def
        by (smt (verit, ccfv_threshold) mux.select_convs(6))
    qed
    then show ?thesis by (simp add: flat_def)
  qed
  moreover have "sel_wired w'"
    unfolding sel_wired_def
  proof (intro allI impI)
    fix m assume um: "mux_used m w'"
    show "\<exists>i\<in>set (cb_list (mx_select (muxes w' m)) BAY_CB_DIRTY w'). cb_fun (bay_cbs w' i) = CB_SELECT m"
    proof (cases "m = ?m")
      case True
      then show ?thesis using f(10) by (intro bexI [of _ "bay_ncbs w"]) (simp_all add: mx f(8))
    next
      case False
      with um u have "mux_used m w" by simp
      with i(6) obtain j where j: "j \<in> set (cb_list (mx_select (muxes w m)) BAY_CB_DIRTY w)" "cb_fun (bay_cbs w j) = CB_SELECT m"
        by (auto simp: sel_wired_def)
      with bay_wfD(7) [OF i(1) j(1)] f(9) others [OF False] show ?thesis by (intro bexI [of _ j]) (auto simp: f(8))
    qed
  qed
  ultimately have "prop_inv w'" using mi by (simp add: prop_inv_def emu_inv_def)
  moreover have "tracks_only w'"
    unfolding tracks_only_def
  proof (intro allI impI)
    fix m assume "mux_used m w'"
    then show "is_track (mx_output (muxes w' m)) \<and> m = track_mux (mx_output (muxes w' m))"
      using inv(2) u others mx tr(1) by (cases "m = ?m") (auto simp: tracks_only_def)
  qed
  moreover have "prv_bay.more w' = prv_bay.more w"
    using f(6) by (cases w rule: prv_bay.cases_scheme; cases w' rule: prv_bay.cases_scheme) simp
  ultimately show "wire_step {?m} w w'"
    using f(2-5) trc others u more by (auto simp: wire_step_def)
qed

lemma mux_set_input_wire:
  assumes inv: "prop_inv w" "tracks_only w" and used: "mux_used m w" and c: "is_source c" "c \<in> registered w"
    and ok: "mux_set_input m k c w = Inr w'"
  shows "wire_step {m} w w'" and "mux_used m w'"
    and "mx_select (muxes w' m) = mx_select (muxes w m)" and "mx_output (muxes w' m) = mx_output (muxes w m)"
    and "mx_select_func (muxes w' m) = mx_select_func (muxes w m)" and "mx_ninputs (muxes w' m) = mx_ninputs (muxes w m)"
    and "mx_def (muxes w' m) = mx_def (muxes w m)" and "length (mx_inputs (muxes w' m)) = length (mx_inputs (muxes w m))"
    and "mux_input_chan (muxes w' m) = (mux_input_chan (muxes w m))(k := Some c)"
    and "\<And>j. mi_selected (mx_inputs (muxes w' m) ! j) = mi_selected (mx_inputs (muxes w m) ! j)"
proof -
  from inv have i: "bay_wf w" "mux_inv w" "sort_inv w" "prv_inv w" "flat w" "sel_wired w"
    by (simp_all add: prop_inv_def emu_inv_def)
  note f = mux_set_input_facts [OF i(1) c(2) ok]
  have mi: "bay_wf w' \<and> mux_inv w'" using mux_set_input_inv [OF i(1,2) used c(2) ok] by blast
  have u: "mux_used m' w' \<longleftrightarrow> mux_used m' w" for m' using add_cb_mux_used [OF f(1,8)] by simp
  then show "mux_used m w'" using used by simp
  show s: "mx_select (muxes w' m) = mx_select (muxes w m)" "mx_output (muxes w' m) = mx_output (muxes w m)"
    "mx_select_func (muxes w' m) = mx_select_func (muxes w m)" "mx_ninputs (muxes w' m) = mx_ninputs (muxes w m)"
    "mx_def (muxes w' m) = mx_def (muxes w m)" "length (mx_inputs (muxes w' m)) = length (mx_inputs (muxes w m))"
    by (simp_all add: f(7))
  show ic: "mux_input_chan (muxes w' m) = (mux_input_chan (muxes w m))(k := Some c)"
    using f(10) by (auto simp: f(7) mux_input_chan_def)
  show "mi_selected (mx_inputs (muxes w' m) ! j) = mi_selected (mx_inputs (muxes w m) ! j)" for j
    using f(10) by (cases "j = k") (simp_all add: f(7))
  have others: "muxes w' m' = muxes w m'" if "m' \<noteq> m" for m' using that by (simp add: f(7))
  have more: "sorts w' = sorts w" "prvs w' = prvs w" using more_fields(1) [OF f(6)] by simp_all
  have out: "mx_output (muxes w' m') = mx_output (muxes w m')" for m' using s(2) others by (cases "m' = m") simp_all
  have "sort_inv w'" by (rule add_cb_sort_inv [OF i(3) f(1,8)]) (use more in \<open>auto simp: f(5)\<close>)
  moreover have "prv_inv w'" by (rule add_cb_prv_inv [OF i(4) f(1,8)]) (use more in auto)
  moreover have "flat w'"
  proof -
    have "mux_flat w' m'" if um: "mux_used m' w'" for m'
    proof (cases "m' = m")
      case True
      have "mux_flat w m" using i(5) used by (simp add: flat_def)
      then show ?thesis using True u out c(1) s by (auto simp: mux_flat_def Let_def ic)
    next
      case False
      then have "mux_flat w m'" using i(5) um u by (simp add: flat_def)
      then show ?thesis using False others u out by (simp add: mux_flat_def Let_def)
    qed
    then show ?thesis by (simp add: flat_def)
  qed
  moreover have "sel_wired w'"
    unfolding sel_wired_def f(9)
  proof (intro allI impI)
    fix m' assume um: "mux_used m' w'"
    with u i(6) obtain j where j: "j \<in> set (cb_list (mx_select (muxes w m')) BAY_CB_DIRTY w)" "cb_fun (bay_cbs w j) = CB_SELECT m'"
      by (auto simp: sel_wired_def)
    have "mx_select (muxes w' m') = mx_select (muxes w m')" using s(1) others by (cases "m' = m") simp_all
    with j bay_wfD(7) [OF i(1) j(1)]
    show "\<exists>j\<in>set (cb_list (mx_select (muxes w' m')) BAY_CB_DIRTY w). cb_fun (bay_cbs w' j) = CB_SELECT m'"
      by (intro bexI [of _ j]) (auto simp: f(8))
  qed
  ultimately have "prop_inv w'" using mi by (simp add: prop_inv_def emu_inv_def)
  moreover have "tracks_only w'" using inv(2) u out by (simp add: tracks_only_def)
  moreover have "prv_bay.more w' = prv_bay.more w"
    using f(6) by (cases w rule: prv_bay.cases_scheme; cases w' rule: prv_bay.cases_scheme) simp
  ultimately show "wire_step {m} w w'" using f(2-5) others u more by (auto simp: wire_step_def)
qed

subsection \<open>A connected track\<close>

definition track_wired :: "cid \<Rightarrow> cid \<Rightarrow> mux_select_func option \<Rightarrow> (nat \<Rightarrow> cid option) \<Rightarrow> nat \<Rightarrow> 'x mux_bay_scheme \<Rightarrow> bool" where
  "track_wired tr sel sf inputs n w \<longleftrightarrow>
     mux_used (track_mux tr) w
     \<and> (let mx = muxes w (track_mux tr) in
        mx_select mx = sel \<and> mx_output mx = tr \<and> mx_select_func mx = sf \<and> mx_ninputs mx = int n
        \<and> mux_input_chan mx = inputs)"

text \<open>While the select channel of a track has no value, neither has the track.\<close>

definition idle_track :: "cid \<Rightarrow> 'x mux_bay_scheme \<Rightarrow> bool" where
  "idle_track tr w \<longleftrightarrow> (let mx = muxes w (track_mux tr) in mx_def mx = VALUE_NULL \<and> (\<forall>i \<in> set (mx_inputs mx). \<not> mi_selected i))"

lemma idle_track_view:
  assumes "track_wired tr sel sf inputs n w" and "idle_track tr w" and "chan_read_at sel w = VALUE_NULL" "chan_read_at tr w = VALUE_NULL"
    and "sf = None \<or> sf = Some thread_select_running \<or> sf = Some thread_select_active"
  shows "mux_view (track_mux tr) w"
proof -
  have "select_input (muxes w (track_mux tr)) VALUE_NULL w = Inr None"
    using assms(1,5) by (auto simp: track_wired_def Let_def select_input_def default_select_def thread_select_running_def thread_select_active_def)
  with assms(1-4) show ?thesis
    unfolding mux_view_def by (intro exI [of _ None]) (auto simp: mux_chosen_def track_wired_def idle_track_def mux_out_value_def Let_def)
qed

lemma track_wired_step: "wire_step M w w' \<Longrightarrow> track_mux tr \<notin> M \<Longrightarrow>
    track_wired tr sel sf inputs n w' = track_wired tr sel sf inputs n w \<and> idle_track tr w' = idle_track tr w"
  by (simp add: wire_step_def track_wired_def idle_track_def)

text \<open>\<^verbatim>\<open>mux_init\<close> and \<^verbatim>\<open>mux_set_input\<close> for each input.\<close>

lemma set_inputs_wire:
  assumes "prop_inv w" "tracks_only w" and "track_wired tr sel sf f n w" "idle_track tr w"
    and "\<And>x. x \<in> set xs \<Longrightarrow> is_source (inp x) \<and> inp x \<in> registered w"
    and "foldr_res (\<lambda>x v. mux_set_input (track_mux tr) (ix v x) (inp x) v) xs w = Inr w'"
    and "\<And>v x. prv_bay.more v = prv_bay.more w \<Longrightarrow> x \<in> set xs \<Longrightarrow> ix v x = pos x"
  shows "wire_step {track_mux tr} w w' \<and> track_wired tr sel sf (fold (\<lambda>x f. f(pos x := Some (inp x))) xs f) n w' \<and> idle_track tr w'"
  using assms
proof (induction xs arbitrary: w f)
  case Nil
  then show ?case by (simp add: wire_step_refl)
next
  case (Cons x xs)
  let ?m = "track_mux tr"
  have p: "ix w x = pos x" using Cons.prems(7) by simp
  with Cons.prems(6) obtain w1 where ok: "mux_set_input ?m (pos x) (inp x) w = Inr w1"
    and rest: "foldr_res (\<lambda>x v. mux_set_input ?m (ix v x) (inp x) v) xs w1 = Inr w'" by auto
  have x: "is_source (inp x)" "inp x \<in> registered w" "mux_used ?m w" using Cons.prems(3,5) by (auto simp: track_wired_def)
  note s = mux_set_input_wire [OF Cons.prems(1,2) x(3,1,2) ok]
  from s(1) have w1: "prop_inv w1" "tracks_only w1" "registered w1 = registered w" "prv_bay.more w1 = prv_bay.more w"
    by (auto simp: wire_step_def)
  have tw: "track_wired tr sel sf (f(pos x := Some (inp x))) n w1"
    using Cons.prems(3) s(2-6,9) by (simp add: track_wired_def Let_def)
  have "idle_track tr w1"
    using Cons.prems(4) s(7,8,10) by (simp add: idle_track_def Let_def all_set_conv_all_nth)
  then have "wire_step {?m} w1 w' \<and> track_wired tr sel sf (fold (\<lambda>x f. f(pos x := Some (inp x))) xs (f(pos x := Some (inp x)))) n w'
      \<and> idle_track tr w'"
    by (rule Cons.IH [OF w1(1,2) tw _ _ rest]) (use Cons.prems(5,7) w1(3,4) in auto)
  with wire_step_trans [OF s(1), of "{?m}" w'] show ?case by (simp del: fun_upd_apply)
qed

lemma init_track_wired:
  assumes inv: "prop_inv w" "tracks_only w" and tr: "is_track tr" "tr \<in> registered w" "\<not> mux_used (track_mux tr) w"
    and sel: "is_source sel" "sel \<in> registered w"
    and sf: "\<And>f. sf = Some f \<Longrightarrow> f = thread_select_running \<and> n = 1 \<or> f = thread_select_active \<and> n = 1"
    and ok: "mux_init (track_mux tr) sel tr sf n w = Inr w'"
  shows "track_wired tr sel sf (\<lambda>_. None) n w' \<and> idle_track tr w'"
proof -
  note s = mux_init_wire [OF inv tr sel sf ok]
  have "mux_input_chan (muxes w' (track_mux tr)) = (\<lambda>_. None)"
    by (auto simp: s(3) mux_input_chan_def empty_input_def)
  with s show ?thesis by (simp add: track_wired_def idle_track_def empty_input_def)
qed

lemma prv_register_wire:
  assumes inv: "prop_inv w" "tracks_only w" and c: "c \<in> registered w" and p: "prv_wf (prvs w k)"
    and ok: "prv_register k row type c flags w = Inr w'"
  shows "wire_step {} w w'"
proof -
  let ?p = "prvs w k"
  let ?j = "length (pv_rchans ?p)"
  let ?rc = "\<lparr>pc_chan = c, pc_id = get_id ?p type row, pc_row_base1 = row + 1, pc_type = type,
                     pc_flags = flags, pc_last_value_set = False, pc_last_value = VALUE_NULL\<rparr>"
  let ?p1 = "?p\<lparr>pv_rchans := pv_rchans ?p @ [?rc]\<rparr>"
  let ?p2 = "?p1\<lparr>pv_channels := (pv_channels ?p1)(get_id ?p type row \<mapsto> ?j)\<rparr>"
  let ?w = "prv_update k ?p1 w"
  from inv have i: "bay_wf w" "mux_inv w" "sort_inv w" "prv_inv w" "flat w" "sel_wired w"
    by (simp_all add: prop_inv_def emu_inv_def)
  note r = prv_register_ok [OF i(1-4) p c ok]
  have run: "\<exists>i w1. bay_add_cb BAY_CB_EMIT c (CB_PRV k ?j) True ?w = Inr (i, w1) \<and> w' = prv_update k ?p2 w1"
    using ok by (auto simp: prv_register_def Let_def split: if_splits)
  obtain w1 where w1: "bay_ncbs w1 = Suc (bay_ncbs w)" "bay.more w1 = bay.more ?w" "bay_channels w1 = bay_channels w"
    "bay_mem w1 = bay_mem w" "bay_dirty w1 = bay_dirty w" "bay_state w1 = bay_state w"
    "bay_cbs w1 = (bay_cbs w)(bay_ncbs w := \<lparr>cb_fun = CB_PRV k ?j, cb_bchan = c, cb_enabled = True, cb_type = BAY_CB_EMIT\<rparr>)"
    "\<forall>d u. cb_list d u w1 = (if d = c \<and> u = BAY_CB_EMIT then cb_list d u w @ [bay_ncbs w] else cb_list d u w)"
    and w': "w' = prv_update k ?p2 w1"
    using bay_add_cb_ok [of ?w c BAY_CB_EMIT "CB_PRV k ?j" True] run i(1) c by auto
  have prvs1: "prvs w1 = (prvs w)(k := ?p1)" "muxes w1 = muxes w" "sorts w1 = sorts w" "prv_bay.more w1 = prv_bay.more w"
    using more_prvs [OF w1(2)] more_muxes [OF w1(2)] more_sorts [OF w1(2)] w1(2)
    by (cases w rule: prv_bay.cases_scheme; cases w1 rule: prv_bay.cases_scheme; simp add: prv_update_def)+
  have u: "mux_used m w' = mux_used m w" for m
    using add_cb_mux_used [of w' w] w1(1,7) by (simp add: w')
  have m': "muxes w' = muxes w" by (simp add: w' prvs1)
  have "bay_cbs w' = (bay_cbs w)(bay_ncbs w := \<lparr>cb_fun = CB_PRV k ?j, cb_bchan = c, cb_enabled = True, cb_type = BAY_CB_EMIT\<rparr>)"
    by (simp add: w' w1)
  note cbs = this
  have "mux_inv w'"
  proof -
    have "mux_cb_ok i w'" if "i < bay_ncbs w'" for i
    proof (cases "i = bay_ncbs w")
      case True
      then show ?thesis by (simp add: mux_cb_ok_def cbs)
    next
      case False
      with that w1(1) have "i < bay_ncbs w" by (simp add: w')
      with i(2) have "mux_cb_ok i w" by (simp add: mux_inv_def)
      with False show ?thesis by (simp add: mux_cb_ok_def cbs u m')
    qed
    moreover have "mux_ok m w'" if "mux_used m w'" for m
    proof -
      have "mux_ok m w" using i(2) that u by (simp add: mux_inv_def)
      then show ?thesis by (rule mux_ok_cong) (auto simp: cbs w' w1 prvs1)
    qed
    ultimately show ?thesis by (simp add: mux_inv_def)
  qed
  moreover have "sort_inv w'" by (rule add_cb_sort_inv [OF i(3) _ cbs]) (auto simp: w' w1 prvs1)
  moreover have "flat w'" using i(5) u unfolding flat_def mux_flat_def m' by simp
  moreover have "sel_wired w'"
    unfolding sel_wired_def m' u
  proof (intro allI impI)
    fix m assume "mux_used m w"
    with i(6) obtain j where j: "j \<in> set (cb_list (mx_select (muxes w m)) BAY_CB_DIRTY w)" "cb_fun (bay_cbs w j) = CB_SELECT m"
      by (auto simp: sel_wired_def)
    with bay_wfD(7) [OF i(1) j(1)] w1(8)
    show "\<exists>j\<in>set (cb_list (mx_select (muxes w m)) BAY_CB_DIRTY w'). cb_fun (bay_cbs w' j) = CB_SELECT m"
      by (intro bexI [of _ j]) (auto simp: w' w1(7))
  qed
  ultimately have "prop_inv w'" using r by (simp add: prop_inv_def emu_inv_def)
  moreover have "tracks_only w'" using inv(2) by (simp add: tracks_only_def u m')
  moreover have "prv_wf (prvs w k') \<longrightarrow> prv_wf (prvs w' k')" for k' using r by (simp add: w' prvs1)
  moreover have "prv_bay.more w' = prv_bay.more w" by (simp add: w' prv_update_def prvs1(4))
  ultimately show ?thesis using u by (simp add: wire_step_def w' w1 prvs1)
qed

lemma more_threads:
  "prv_bay.more w' = prv_bay.more w \<Longrightarrow> threads w' = threads (w :: 'x sys_bay_scheme) \<and> cpus w' = cpus w \<and> rec_pvts w' = rec_pvts w"
  by (cases w rule: sys_bay.cases_scheme; cases w' rule: sys_bay.cases_scheme) simp

subsection \<open>Loops\<close>

text \<open>A loop that wires the multiplexers \<open>T x\<close> for every element \<open>x\<close>, and gets \<open>P x\<close> for them.\<close>

lemma foldr_wire:
  assumes "foldr_res body xs w = Inr w'" and inv: "prop_inv w" "tracks_only w" and "distinct xs"
    and step: "\<And>x v v'. x \<in> set xs \<Longrightarrow> wire_step (- T x) w v \<Longrightarrow> body x v = Inr v' \<Longrightarrow> wire_step (T x) v v' \<and> P x v'"
    and disj: "\<And>x y. x \<in> set xs \<Longrightarrow> y \<in> set xs \<Longrightarrow> x \<noteq> y \<Longrightarrow> T x \<inter> T y = {}"
    and stable: "\<And>x v v' N. P x v \<Longrightarrow> wire_step N v v' \<Longrightarrow> N \<inter> T x = {} \<Longrightarrow> P x v'"
  shows "wire_step (\<Union>x \<in> set xs. T x) w w' \<and> (\<forall>x \<in> set xs. P x w')"
proof -
  have "wire_step (\<Union>x \<in> set (ys @ zs). T x) w v' \<and> (\<forall>x \<in> set (ys @ zs). P x v')"
    if "foldr_res body zs v = Inr v'" "xs = ys @ zs" "wire_step (\<Union>x \<in> set ys. T x) w v" "\<forall>x \<in> set ys. P x v" for ys zs v v'
    using that
  proof (induction zs arbitrary: ys v)
    case (Cons z zs)
    then obtain v1 where b: "body z v = Inr v1" and rest: "foldr_res body zs v1 = Inr v'" by auto
    have z: "z \<in> set xs" "z \<notin> set ys" using Cons.prems(2) assms(4) by auto
    have "T y \<inter> T z = {}" if "y \<in> set ys" for y
      using disj [of y z] that z Cons.prems(2) by auto
    then have d: "(\<Union>x \<in> set ys. T x) \<subseteq> - T z" and d': "y \<in> set ys \<Longrightarrow> T z \<inter> T y = {}" for y by blast+
    from step [OF z(1) wire_step_mono [OF Cons.prems(3) d] b] have s: "wire_step (T z) v v1" "P z v1" by simp_all
    have "wire_step (\<Union>x \<in> set (ys @ [z]). T x) w v1" using wire_step_trans [OF Cons.prems(3) s(1)] by (simp add: Un_commute)
    moreover have "\<forall>x \<in> set (ys @ [z]). P x v1" using Cons.prems(4) s d' stable by (metis Un_iff empty_iff insert_iff list.set set_append)
    ultimately show ?case using Cons.IH [OF rest, of "ys @ [z]"] Cons.prems(2) by simp
  qed simp
  from this [of xs w w' "[]"] assms(1) wire_step_refl [OF inv] show ?thesis by simp
qed

lemma track_th_input_chan_wire:
  assumes inv: "prop_inv w" "tracks_only w" and tr: "is_track tr" "tr \<in> registered w" "\<not> mux_used (track_mux tr) w"
    and reg: "is_source sel" "sel \<in> registered w" "is_source inp" "inp \<in> registered w"
    and ok: "track_th_input_chan tr mode sel inp w = Inr w'"
  shows "wire_step {track_mux tr} w w'
    \<and> (mode \<noteq> TRACK_TH_ANY \<longrightarrow> track_wired tr sel (Some (track_fsel mode)) [0 \<mapsto> inp] 1 w' \<and> idle_track tr w')"
proof (cases "mode = TRACK_TH_ANY")
  case True
  with ok inv show ?thesis by (simp add: track_th_input_chan_def wire_step_refl)
next
  case False
  with ok obtain w1 where 1: "mux_init (track_mux tr) sel tr (Some (track_fsel mode)) 1 w = Inr w1"
    and 2: "mux_set_input (track_mux tr) 0 inp w1 = Inr w'"
    by (auto simp: track_th_input_chan_def track_set_select_def track_set_input_def)
  have sf: "f = thread_select_running \<and> (1 :: nat) = 1 \<or> f = thread_select_active \<and> (1 :: nat) = 1" if "Some (track_fsel mode) = Some f" for f
    using that False by (cases mode) auto
  note i1 = mux_init_wire [OF inv tr reg(1,2) sf 1] init_track_wired [OF inv tr reg(1,2) sf 1]
  have w1: "prop_inv w1" "tracks_only w1" "inp \<in> registered w1" using i1(1) reg by (auto simp: wire_step_def)
  have "foldr_res (\<lambda>x v. mux_set_input (track_mux tr) 0 inp v) [()] w1 = Inr w'" using 2 by simp
  from set_inputs_wire [OF w1(1,2) conjunct1 [OF i1(4)] conjunct2 [OF i1(4)] _ this, of "\<lambda>_. 0"] reg w1(3)
  have "wire_step {track_mux tr} w1 w' \<and> track_wired tr sel (Some (track_fsel mode)) [0 \<mapsto> inp] 1 w' \<and> idle_track tr w'"
    by simp
  with wire_step_trans [OF i1(1)] show ?thesis by fastforce
qed

definition thread_wired :: "model_chan_spec \<Rightarrow> nat \<Rightarrow> nat \<Rightarrow> 'x mux_bay_scheme \<Rightarrow> bool" where
  "thread_wired spec m t w \<longleftrightarrow> (\<forall>i < cs_nch spec. cs_track spec i \<noteq> TRACK_TH_ANY \<longrightarrow>
     track_wired (ModelThreadTrack t m i) (ThreadChan t TH_CHAN_STATE) (Some (track_fsel (cs_track spec i))) [0 \<mapsto> ModelChan t m i] 1 w
     \<and> idle_track (ModelThreadTrack t m i) w)"

definition cpu_wired :: "model_chan_spec \<Rightarrow> nat \<Rightarrow> nat list \<Rightarrow> nat \<Rightarrow> 'x mux_bay_scheme \<Rightarrow> bool" where
  "cpu_wired spec m ths c w \<longleftrightarrow> (\<forall>i < cs_nch spec.
     track_wired (ModelCpuTrack c m i) (CpuChan c CPU_CHAN_THRUN) None
       (\<lambda>k. if k < length ths then Some (ModelChan (ths ! k) m i) else None) (length ths) w
     \<and> idle_track (ModelCpuTrack c m i) w)"

text \<open>The channels of a model are registered and no multiplexer of its tracks is in use.\<close>

definition thread_ready :: "model_chan_spec \<Rightarrow> nat \<Rightarrow> nat \<Rightarrow> 'x mux_bay_scheme \<Rightarrow> bool" where
  "thread_ready spec m t w \<longleftrightarrow> ThreadChan t TH_CHAN_STATE \<in> registered w \<and> (\<forall>i < cs_nch spec. ModelChan t m i \<in> registered w
     \<and> ModelThreadTrack t m i \<in> registered w)"

definition cpu_ready :: "model_chan_spec \<Rightarrow> nat \<Rightarrow> nat \<Rightarrow> 'x mux_bay_scheme \<Rightarrow> bool" where
  "cpu_ready spec m c w \<longleftrightarrow> CpuChan c CPU_CHAN_THRUN \<in> registered w \<and> (\<forall>i < cs_nch spec. ModelCpuTrack c m i \<in> registered w)"

lemma ready_step:
  "wire_step M w w' \<Longrightarrow> thread_ready spec m t w' = thread_ready spec m t w \<and> cpu_ready spec m c w' = cpu_ready spec m c w"
  by (simp add: wire_step_def thread_ready_def cpu_ready_def)

definition th_muxes :: "nat \<Rightarrow> nat \<Rightarrow> nat set" where
  "th_muxes m t = track_mux ` range (ModelThreadTrack t m)"

definition cpu_muxes :: "nat \<Rightarrow> nat \<Rightarrow> nat set" where
  "cpu_muxes m c = track_mux ` range (ModelCpuTrack c m)"

lemma track_muxes_disjoint:
  "t \<noteq> t' \<Longrightarrow> th_muxes m t \<inter> th_muxes m t' = {}" "c \<noteq> c' \<Longrightarrow> cpu_muxes m c \<inter> cpu_muxes m c' = {}"
  "th_muxes m t \<inter> cpu_muxes m' c = {}"
  by (auto simp: th_muxes_def cpu_muxes_def dest!: track_mux_inj [rotated 2])

lemma track_connect_thread_wire:
  assumes inv: "prop_inv w" "tracks_only w" and rdy: "thread_ready spec m t w" and fresh: "\<And>x. x \<in> th_muxes m t \<Longrightarrow> \<not> mux_used x w"
    and ok: "track_connect_thread spec m t w = Inr w'"
  shows "wire_step (th_muxes m t) w w' \<and> thread_wired spec m t w'"
proof -
  let ?tr = "ModelThreadTrack t m"
  have "wire_step (\<Union>i \<in> set [0..<cs_nch spec]. {track_mux (?tr i)}) w w' \<and> (\<forall>i \<in> set [0..<cs_nch spec]. cs_track spec i \<noteq> TRACK_TH_ANY \<longrightarrow>
      track_wired (?tr i) (ThreadChan t TH_CHAN_STATE) (Some (track_fsel (cs_track spec i))) [0 \<mapsto> ModelChan t m i] 1 w'
      \<and> idle_track (?tr i) w')"
    using ok unfolding track_connect_thread_def
  proof (rule foldr_wire [OF _ inv])
    fix i v v'
    assume i: "i \<in> set [0..<cs_nch spec]" and v: "wire_step (- {track_mux (?tr i)}) w v"
      and b: "track_th_input_chan (?tr i) (cs_track spec i) (ThreadChan t TH_CHAN_STATE) (ModelChan t m i) v = Inr v'"
    have "\<not> mux_used (track_mux (?tr i)) w" using fresh by (simp add: th_muxes_def)
    with v have f: "\<not> mux_used (track_mux (?tr i)) v" "prop_inv v" "tracks_only v" by (auto simp: wire_step_def)
    have "thread_ready spec m t v" using ready_step [OF v] rdy by blast
    with i have "?tr i \<in> registered v" "ThreadChan t TH_CHAN_STATE \<in> registered v" "ModelChan t m i \<in> registered v"
      by (simp_all add: thread_ready_def)
    with track_th_input_chan_wire [OF f(2,3) _ _ f(1) _ _ _ _ b]
    show "wire_step {track_mux (?tr i)} v v' \<and> (cs_track spec i \<noteq> TRACK_TH_ANY \<longrightarrow>
      track_wired (?tr i) (ThreadChan t TH_CHAN_STATE) (Some (track_fsel (cs_track spec i))) [0 \<mapsto> ModelChan t m i] 1 v'
      \<and> idle_track (?tr i) v')" by simp
  next
    fix i v v' N
    assume "cs_track spec i \<noteq> TRACK_TH_ANY \<longrightarrow>
      track_wired (?tr i) (ThreadChan t TH_CHAN_STATE) (Some (track_fsel (cs_track spec i))) [0 \<mapsto> ModelChan t m i] 1 v
      \<and> idle_track (?tr i) v" "wire_step N v v'" "N \<inter> {track_mux (?tr i)} = {}"
    with track_wired_step show "cs_track spec i \<noteq> TRACK_TH_ANY \<longrightarrow>
      track_wired (?tr i) (ThreadChan t TH_CHAN_STATE) (Some (track_fsel (cs_track spec i))) [0 \<mapsto> ModelChan t m i] 1 v'
      \<and> idle_track (?tr i) v'" by blast
  qed (auto dest!: track_mux_inj [rotated 2])
  then show ?thesis
    using wire_step_mono [of "\<Union>i \<in> set [0..<cs_nch spec]. {track_mux (?tr i)}" w w' "th_muxes m t"]
    by (auto simp: thread_wired_def th_muxes_def)
qed

lemma fold_positions:
  assumes "\<And>k. k < length xs \<Longrightarrow> pos (xs ! k) = k + n"
  shows "fold (\<lambda>x f. f(pos x := Some (inp x))) xs f =
    (\<lambda>k. if n \<le> k \<and> k < n + length xs then Some (inp (xs ! (k - n))) else f k)"
  using assms
proof (induction xs arbitrary: n f)
  case (Cons x xs)
  have "pos x = n" using Cons.prems [of 0] by simp
  moreover have "pos (xs ! k) = k + Suc n" if "k < length xs" for k using Cons.prems [of "Suc k"] that by simp
  ultimately show ?case
    using Cons.IH [of "Suc n" "f(n := Some (inp x))"]
    by (auto simp: fun_eq_iff nth_Cons' Suc_diff_le not_less_eq_eq simp del: fun_upd_apply) (auto simp: fun_upd_def)
qed (auto simp: fun_eq_iff)

definition gindexed :: "nat list \<Rightarrow> 'x sys_bay_scheme \<Rightarrow> bool" where
  "gindexed ths w \<longleftrightarrow> (\<forall>k < length ths. th_gindex (threads w (ths ! k)) = int k)"

lemma connect_cpu_track_wire:
  assumes inv: "prop_inv w" "tracks_only w" and rdy: "cpu_ready spec m c w" "\<And>t. t \<in> set ths \<Longrightarrow> ModelChan t m i \<in> registered w"
    and fresh: "\<not> mux_used (track_mux (ModelCpuTrack c m i)) w" and i: "i < cs_nch spec" and g: "gindexed ths w"
    and ok: "connect_cpu_track spec m ths c i w = Inr w'"
  shows "wire_step {track_mux (ModelCpuTrack c m i)} w w'
    \<and> track_wired (ModelCpuTrack c m i) (CpuChan c CPU_CHAN_THRUN) None
        (\<lambda>k. if k < length ths then Some (ModelChan (ths ! k) m i) else None) (length ths) w'
    \<and> idle_track (ModelCpuTrack c m i) w'"
proof -
  let ?tr = "ModelCpuTrack c m i" and ?sel = "CpuChan c CPU_CHAN_THRUN" and ?pos = "\<lambda>t. nat (th_gindex (threads w t))"
  obtain w1 where 1: "mux_init (track_mux ?tr) ?sel ?tr None (length ths) w = Inr w1"
    and 2: "foldr_res (\<lambda>t v. mux_set_input (track_mux ?tr) (nat (th_gindex (threads v t))) (ModelChan t m i) v) ths w1 = Inr w'"
    using ok by (auto simp: connect_cpu_track_def track_set_select_def track_set_input_def split: if_splits)
  have reg: "is_track ?tr" "?tr \<in> registered w" "is_source ?sel" "?sel \<in> registered w"
    using rdy(1) i by (simp_all add: cpu_ready_def)
  have i1: "wire_step {track_mux ?tr} w w1" "track_wired ?tr ?sel None (\<lambda>_. None) (length ths) w1" "idle_track ?tr w1"
    using mux_init_wire(1) [OF inv reg(1,2) fresh reg(3,4) _ 1] init_track_wired [OF inv reg(1,2) fresh reg(3,4) _ 1] by simp_all
  have w1: "prop_inv w1" "tracks_only w1" "registered w1 = registered w" "prv_bay.more w1 = prv_bay.more w"
    using i1(1) by (auto simp: wire_step_def)
  have pos: "nat (th_gindex (threads v t)) = ?pos t" if "prv_bay.more v = prv_bay.more w1" for v :: "'a sys_bay_scheme" and t
    using more_threads that w1(4) by metis
  have "?pos (ths ! k) = k + 0" if "k < length ths" for k using g that by (simp add: gindexed_def)
  from fold_positions [OF this, of "\<lambda>t. ModelChan t m i" "\<lambda>_. None"]
  have fp: "fold (\<lambda>t f. f(?pos t := Some (ModelChan t m i))) ths (\<lambda>_. None) =
      (\<lambda>k. if k < length ths then Some (ModelChan (ths ! k) m i) else None)" by (simp cong: if_cong)
  have "wire_step {track_mux ?tr} w1 w' \<and> track_wired ?tr ?sel None (fold (\<lambda>t f. f(?pos t := Some (ModelChan t m i))) ths (\<lambda>_. None)) (length ths) w'
      \<and> idle_track ?tr w'"
    using i1(2,3) rdy(2) w1(3) pos by (intro set_inputs_wire [OF w1(1,2) _ _ _ 2]) auto
  with wire_step_trans [OF i1(1), of "{track_mux ?tr}" w'] show ?thesis unfolding fp by simp
qed

lemma connect_cpu_wire:
  assumes inv: "prop_inv w" "tracks_only w" and rdy: "cpu_ready spec m c w"
    and th: "\<And>t i. t \<in> set ths \<Longrightarrow> i < cs_nch spec \<Longrightarrow> ModelChan t m i \<in> registered w"
    and fresh: "\<And>x. x \<in> cpu_muxes m c \<Longrightarrow> \<not> mux_used x w" and g: "gindexed ths w" and ok: "connect_cpu spec m ths c w = Inr w'"
  shows "wire_step (cpu_muxes m c) w w' \<and> cpu_wired spec m ths c w'"
proof -
  let ?tr = "ModelCpuTrack c m"
  let ?P = "\<lambda>i w. track_wired (?tr i) (CpuChan c CPU_CHAN_THRUN) None
        (\<lambda>k. if k < length ths then Some (ModelChan (ths ! k) m i) else None) (length ths) w \<and> idle_track (?tr i) w"
  have "wire_step (\<Union>i \<in> set [0..<cs_nch spec]. {track_mux (?tr i)}) w w' \<and> (\<forall>i \<in> set [0..<cs_nch spec]. ?P i w')"
    using ok unfolding connect_cpu_def
  proof (rule foldr_wire [OF _ inv])
    fix i v v'
    assume i: "i \<in> set [0..<cs_nch spec]" and v: "wire_step (- {track_mux (?tr i)}) w v" and b: "connect_cpu_track spec m ths c i v = Inr v'"
    have "\<not> mux_used (track_mux (?tr i)) w" using fresh by (simp add: cpu_muxes_def)
    with v have f: "\<not> mux_used (track_mux (?tr i)) v" "prop_inv v" "tracks_only v" "registered v = registered w" by (auto simp: wire_step_def)
    have "gindexed ths v" using g v more_threads [of v w] by (simp add: gindexed_def wire_step_def)
    moreover have "cpu_ready spec m c v" using ready_step [OF v] rdy by blast
    ultimately show "wire_step {track_mux (?tr i)} v v' \<and> ?P i v'"
      using connect_cpu_track_wire [OF f(2,3) _ _ f(1) _ _ b] th f(4) i by simp
  next
    fix i v v' N
    assume "?P i v" "wire_step N v v'" "N \<inter> {track_mux (?tr i)} = {}"
    with track_wired_step show "?P i v'" by blast
  qed (auto dest!: track_mux_inj [rotated 2])
  then show ?thesis
    using wire_step_mono [of "\<Union>i \<in> set [0..<cs_nch spec]. {track_mux (?tr i)}" w w' "cpu_muxes m c"]
    by (auto simp: cpu_wired_def cpu_muxes_def)
qed

text \<open>The rows of the trace leave the wiring as it is.\<close>

lemma prv_rows_wire:
  assumes "foldr_res (\<lambda>x v. prv_register k (row v x) (ty x) (ch x) (fl x) v) xs w = Inr w'" and inv: "prop_inv w" "tracks_only w"
    and p: "prv_wf (prvs w k)" and reg: "\<And>x. x \<in> set xs \<Longrightarrow> ch x \<in> registered w"
  shows "wire_step {} w w'"
  using assms
proof (induction xs arbitrary: w)
  case (Cons x xs)
  then obtain v where v: "prv_register k (row w x) (ty x) (ch x) (fl x) w = Inr v"
    and rest: "foldr_res (\<lambda>x v. prv_register k (row v x) (ty x) (ch x) (fl x) v) xs v = Inr w'" by auto
  have s: "wire_step {} w v" using prv_register_wire [OF Cons.prems(2,3) _ _ v] Cons.prems(4,5) by simp
  then have "wire_step {} v w'"
    by (intro Cons.IH [OF rest]) (use Cons.prems(4,5) in \<open>auto simp: wire_step_def\<close>)
  with wire_step_trans [OF s, of "{}" w'] show ?case by simp
qed (simp add: wire_step_refl)

lemma foldr_rows_wire:
  assumes "foldr_res body xs w = Inr w'" and inv: "prop_inv w" "tracks_only w"
    and step: "\<And>x v v'. x \<in> set xs \<Longrightarrow> wire_step {} w v \<Longrightarrow> body x v = Inr v' \<Longrightarrow> wire_step {} v v'"
  shows "wire_step {} w w'"
  using assms(1)
proof (rule foldr_res_invar [where I = "wire_step {} w"])
  show "wire_step {} w w" by (rule wire_step_refl [OF inv])
  fix x v v' assume "x \<in> set xs" "wire_step {} w v" "body x v = Inr v'"
  from wire_step_trans [OF this(2) step [OF this]] show "wire_step {} w v'" by simp
qed

lemma model_thread_connect_wire:
  assumes inv: "prop_inv w" "tracks_only w" and d: "distinct ths" and rdy: "\<And>t. t \<in> set ths \<Longrightarrow> thread_ready spec m t w"
    and fresh: "\<And>t x. t \<in> set ths \<Longrightarrow> x \<in> th_muxes m t \<Longrightarrow> \<not> mux_used x w"
    and p: "\<And>k. recorder_find_pvt ''thread'' w = Some k \<Longrightarrow> prv_wf (prvs w k)"
    and ok: "model_thread_connect spec m ths (pcfs, w) = Inr (pcfs', w')"
  shows "wire_step (\<Union>t \<in> set ths. th_muxes m t) w w' \<and> (\<forall>t \<in> set ths. thread_wired spec m t w')"
proof -
  obtain w1 where 1: "foldr_res (track_connect_thread spec m) ths w = Inr w1"
    and 2: "model_pvt_connect_thread spec m ths (pcfs, w1) = Inr (pcfs', w')"
    using ok by (auto simp: model_thread_connect_def)
  from 2 obtain k where k: "recorder_find_pvt ''thread'' w1 = Some k" and pv: "foldr_res (connect_thread_prv spec m k) ths w1 = Inr w'"
    by (auto simp: model_pvt_connect_thread_def split: option.splits)
  have s1: "wire_step (\<Union>t \<in> set ths. th_muxes m t) w w1 \<and> (\<forall>t \<in> set ths. thread_wired spec m t w1)"
    using 1
  proof (rule foldr_wire [OF _ inv d])
    fix t v v' assume t: "t \<in> set ths" and v: "wire_step (- th_muxes m t) w v" and b: "track_connect_thread spec m t v = Inr v'"
    have "prop_inv v" "tracks_only v" "thread_ready spec m t v" using v rdy [OF t] ready_step [OF v] by (auto simp: wire_step_def)
    moreover have "\<not> mux_used x v" if "x \<in> th_muxes m t" for x using v fresh [OF t that] that by (auto simp: wire_step_def)
    ultimately show "wire_step (th_muxes m t) v v' \<and> thread_wired spec m t v'" using track_connect_thread_wire b by blast
  next
    fix t v v' N assume "thread_wired spec m t v" "wire_step N v v'" "N \<inter> th_muxes m t = {}"
    then show "thread_wired spec m t v'" using track_wired_step [of N v v'] unfolding thread_wired_def th_muxes_def by blast
  qed (use track_muxes_disjoint(1) in blast)
  then have w1: "prop_inv w1" "tracks_only w1" by (auto simp: wire_step_def)
  have "recorder_find_pvt ''thread'' w = Some k" using k s1 more_threads [of w1 w] by (simp add: wire_step_def recorder_find_pvt_def)
  then have pk: "prv_wf (prvs w1 k)" using p s1 by (auto simp: wire_step_def)
  have s2: "wire_step {} w1 w'"
    using pv w1
  proof (rule foldr_rows_wire)
    fix t v v' assume t: "t \<in> set ths" and v: "wire_step {} w1 v" and b: "connect_thread_prv spec m k t v = Inr v'"
    have "thread_ready spec m t v" using rdy [OF t] ready_step s1 v by blast
    then show "wire_step {} v v'"
      using b v pk unfolding connect_thread_prv_def
      by (intro prv_rows_wire) (auto simp: wire_step_def thread_ready_def track_get_output_def)
  qed
  have "thread_wired spec m t w'" if "t \<in> set ths" for t
    using s1 that track_wired_step [OF s2] by (simp add: thread_wired_def)
  with wire_step_trans [OF conjunct1 [OF s1] s2] show ?thesis by simp
qed

lemma model_cpu_connect_wire:
  assumes inv: "prop_inv w" "tracks_only w" and d: "distinct cps" and rdy: "\<And>c. c \<in> set cps \<Longrightarrow> cpu_ready spec m c w"
    and th: "\<And>t i. t \<in> set ths \<Longrightarrow> i < cs_nch spec \<Longrightarrow> ModelChan t m i \<in> registered w"
    and fresh: "\<And>c x. c \<in> set cps \<Longrightarrow> x \<in> cpu_muxes m c \<Longrightarrow> \<not> mux_used x w" and g: "gindexed ths w"
    and p: "\<And>k. recorder_find_pvt ''cpu'' w = Some k \<Longrightarrow> prv_wf (prvs w k)"
    and ok: "model_cpu_connect spec m ths cps (pcfs, w) = Inr (pcfs', w')"
  shows "wire_step (\<Union>c \<in> set cps. cpu_muxes m c) w w' \<and> (\<forall>c \<in> set cps. cpu_wired spec m ths c w')"
proof -
  obtain w1 where 1: "foldr_res (connect_cpu spec m ths) cps w = Inr w1"
    and 2: "model_pvt_connect_cpu spec m cps (pcfs, w1) = Inr (pcfs', w')"
    using ok by (auto simp: model_cpu_connect_def)
  from 2 obtain k where k: "recorder_find_pvt ''cpu'' w1 = Some k" and pv: "foldr_res (connect_cpu_prv spec m k) cps w1 = Inr w'"
    by (auto simp: model_pvt_connect_cpu_def split: option.splits)
  have s1: "wire_step (\<Union>c \<in> set cps. cpu_muxes m c) w w1 \<and> (\<forall>c \<in> set cps. cpu_wired spec m ths c w1)"
    using 1
  proof (rule foldr_wire [OF _ inv d])
    fix c v v' assume c: "c \<in> set cps" and v: "wire_step (- cpu_muxes m c) w v" and b: "connect_cpu spec m ths c v = Inr v'"
    have "prop_inv v" "tracks_only v" "cpu_ready spec m c v" "gindexed ths v" "registered v = registered w"
      using v rdy [OF c] ready_step [OF v] g more_threads [of v w] by (auto simp: wire_step_def gindexed_def)
    moreover have "\<not> mux_used x v" if "x \<in> cpu_muxes m c" for x using v fresh [OF c that] that by (auto simp: wire_step_def)
    ultimately show "wire_step (cpu_muxes m c) v v' \<and> cpu_wired spec m ths c v'" using connect_cpu_wire [OF _ _ _ _ _ _ b] th by simp
  next
    fix c v v' N assume "cpu_wired spec m ths c v" "wire_step N v v'" "N \<inter> cpu_muxes m c = {}"
    then show "cpu_wired spec m ths c v'" using track_wired_step [of N v v'] unfolding cpu_wired_def cpu_muxes_def by blast
  qed (use track_muxes_disjoint(2) in blast)
  then have w1: "prop_inv w1" "tracks_only w1" by (auto simp: wire_step_def)
  have "recorder_find_pvt ''cpu'' w = Some k" using k s1 more_threads [of w1 w] by (simp add: wire_step_def recorder_find_pvt_def)
  then have pk: "prv_wf (prvs w1 k)" using p s1 by (auto simp: wire_step_def)
  have s2: "wire_step {} w1 w'"
    using pv w1
  proof (rule foldr_rows_wire)
    fix c v v' assume c: "c \<in> set cps" and v: "wire_step {} w1 v" and b: "connect_cpu_prv spec m k c v = Inr v'"
    have "cpu_ready spec m c v" using rdy [OF c] ready_step s1 v by blast
    then show "wire_step {} v v'"
      using b v pk unfolding connect_cpu_prv_def
      by (intro prv_rows_wire) (auto simp: wire_step_def cpu_ready_def)
  qed
  have "cpu_wired spec m ths c w'" if "c \<in> set cps" for c
    using s1 that track_wired_step [OF s2] by (simp add: cpu_wired_def)
  with wire_step_trans [OF conjunct1 [OF s1] s2] show ?thesis by simp
qed

subsection \<open>Creating the channels\<close>

definition create_step :: "cid set \<Rightarrow> 'x prv_bay_scheme \<Rightarrow> 'x prv_bay_scheme \<Rightarrow> bool" where
  "create_step C w w' \<longleftrightarrow> prop_inv w' \<and> registered w' = registered w \<union> C \<and> bay.more w' = bay.more w
     \<and> bay_cbs w' = bay_cbs w \<and> bay_ncbs w' = bay_ncbs w \<and> bay_dirty w' = bay_dirty w \<and> bay_state w' = bay_state w
     \<and> (\<forall>c. c \<notin> C \<longrightarrow> bay_mem w' c = bay_mem w c)
     \<and> (\<forall>c \<in> C. chan_read_at c w' = VALUE_NULL \<and> ch_stack (bay_mem w' c) = [] \<and> \<not> ch_is_dirty (bay_mem w' c))"

lemma create_step_refl: "prop_inv w \<Longrightarrow> create_step {} w w"
  by (simp add: create_step_def)

lemma create_step_trans: "create_step C w w' \<Longrightarrow> create_step D w' w'' \<Longrightarrow> create_step (C \<union> D) w w''"
  (is "?A \<Longrightarrow> ?B \<Longrightarrow> ?C")
proof -
  assume a: ?A and b: ?B
  have "chan_read_at c w'' = VALUE_NULL \<and> ch_stack (bay_mem w'' c) = [] \<and> \<not> ch_is_dirty (bay_mem w'' c)" if "c \<in> C \<union> D" for c
    using a b that by (cases "c \<in> D") (simp_all add: create_step_def)
  with a b show ?C by (simp add: create_step_def Un_assoc)
qed

lemma foldr_create:
  assumes "foldr_res body xs w = Inr w'" and "prop_inv w" and "distinct xs"
    and step: "\<And>x v v'. x \<in> set xs \<Longrightarrow> prop_inv v \<Longrightarrow> bay.more v = bay.more w \<Longrightarrow> C x \<inter> registered v = {} \<Longrightarrow> body x v = Inr v' \<Longrightarrow> create_step (C x) v v'"
    and fresh: "\<And>x. x \<in> set xs \<Longrightarrow> C x \<inter> registered w = {}"
    and disj: "\<And>x y. x \<in> set xs \<Longrightarrow> y \<in> set xs \<Longrightarrow> x \<noteq> y \<Longrightarrow> C x \<inter> C y = {}"
  shows "create_step (\<Union>x \<in> set xs. C x) w w'"
  using assms
proof (induction xs arbitrary: w)
  case (Cons x xs)
  then obtain v where v: "body x w = Inr v" and rest: "foldr_res body xs v = Inr w'" by auto
  have s: "create_step (C x) w v" using Cons.prems(2,4,5) v by simp
  then have pv: "prop_inv v" "bay.more v = bay.more w" "registered v = registered w \<union> C x" by (simp_all add: create_step_def)
  have "C y \<inter> registered v = {}" if "y \<in> set xs" for y
    using Cons.prems(5) [of y] Cons.prems(6) [of y x] that pv(3) Cons.prems(3) by auto
  then have "create_step (\<Union>x \<in> set xs. C x) v w'"
    by (intro Cons.IH [OF rest pv(1)]) (use Cons.prems pv(2) in auto)
  from create_step_trans [OF s this] show ?case by simp
qed (simp add: create_step_refl)

lemma new_chan_create:
  assumes "prop_inv w" and "{c} \<inter> registered w = {}" "\<And>s i. c \<noteq> SortOutput s i"
    and ch: "chan_init ty name = Inr ch0" "ch = ch0 \<or> (\<exists>p b. ch = chan_prop_set p b ch0)" and ok: "new_chan c ch w = Inr w'"
  shows "create_step {c} w w'"
proof -
  have "chan_wf ch" "\<not> ch_is_dirty ch" "\<not> ch_dirty_cb ch" "chan_read (chan_set_dirty_cb ch) = VALUE_NULL" "ch_stack ch = []"
    using ch by (auto simp: chan_init_def chan_wf_def chan_read_def chan_prop_set_def chan_set_dirty_cb_def split: if_splits)
  moreover from new_chan_ok [OF assms(1) _ assms(3) this(1-3) ok] assms(2)
  have "prop_inv w'" "registered w' = insert c (registered w)" "bay_mem w' = (bay_mem w)(c := chan_set_dirty_cb ch)"
    "bay.more w' = bay.more w" "bay_cbs w' = bay_cbs w" "bay_ncbs w' = bay_ncbs w" "bay_dirty w' = bay_dirty w" "bay_state w' = bay_state w"
    by simp_all
  ultimately show ?thesis by (simp add: create_step_def chan_set_dirty_cb_def)
qed

lemma track_init_create:
  assumes "prop_inv w" "{tr} \<inter> registered w = {}" "is_track tr" "track_init tr mode name w = Inr w'"
  shows "create_step {tr} w w'"
proof -
  obtain ch where "chan_init CHAN_SINGLE (name @ th_suffix mode) = Inr ch" "new_chan tr ch w = Inr w'"
    using assms(4) by (auto simp: track_init_def split: if_splits)
  with assms(1-3) is_track_chan show ?thesis by (intro new_chan_create) auto
qed

definition th_chans :: "model_chan_spec \<Rightarrow> nat \<Rightarrow> nat \<Rightarrow> cid set" where
  "th_chans spec m t = ModelChan t m ` {..<cs_nch spec} \<union> ModelThreadTrack t m ` {..<cs_nch spec}"

definition cpu_chans :: "model_chan_spec \<Rightarrow> nat \<Rightarrow> nat \<Rightarrow> cid set" where
  "cpu_chans spec m c = ModelCpuTrack c m ` {..<cs_nch spec}"

lemma UN_image: "(\<Union>i \<in> set [0..<n]. {f i}) = f ` {..<n}"
  by auto

lemma init_thread_create:
  assumes "prop_inv w" and fresh: "th_chans spec m t \<inter> registered w = {}" and ok: "init_thread spec m t w = Inr w'"
  shows "create_step (th_chans spec m t) w w'"
proof -
  obtain w1 where 1: "foldr_res (model_thread_chan spec m t) [0..<cs_nch spec] w = Inr w1"
    and 2: "foldr_res (model_thread_track spec m t) [0..<cs_nch spec] w1 = Inr w'"
    using ok by (auto simp: init_thread_def)
  have s1: "create_step (\<Union>i \<in> set [0..<cs_nch spec]. {ModelChan t m i}) w w1"
    using 1 assms(1)
  proof (rule foldr_create)
    fix i v v' assume "prop_inv v" "{ModelChan t m i} \<inter> registered v = {}" "model_thread_chan spec m t i v = Inr v'"
    then show "create_step {ModelChan t m i} v v'"
      unfolding model_thread_chan_def rbind_eq_Inr by (elim exE conjE) (rule new_chan_create, auto split: option.split)
  qed (use fresh in \<open>auto simp: th_chans_def\<close>)
  then have w1: "prop_inv w1" "registered w1 = registered w \<union> ModelChan t m ` {..<cs_nch spec}"
    unfolding UN_image by (simp_all add: create_step_def)
  have "create_step (\<Union>i \<in> set [0..<cs_nch spec]. {ModelThreadTrack t m i}) w1 w'"
    using 2 w1(1)
  proof (rule foldr_create)
    fix i v v' assume "prop_inv v" "{ModelThreadTrack t m i} \<inter> registered v = {}" "model_thread_track spec m t i v = Inr v'"
    then show "create_step {ModelThreadTrack t m i} v v'" by (auto simp: model_thread_track_def intro: track_init_create)
  qed (use fresh w1(2) in \<open>auto simp: th_chans_def\<close>)
  from create_step_trans [OF s1 this] show ?thesis unfolding UN_image th_chans_def .
qed

lemma init_cpu_create:
  assumes "prop_inv w" and fresh: "cpu_chans spec m c \<inter> registered w = {}" and ok: "init_cpu spec m c w = Inr w'"
  shows "create_step (cpu_chans spec m c) w w'"
proof -
  have "create_step (\<Union>i \<in> set [0..<cs_nch spec]. {ModelCpuTrack c m i}) w w'"
    using ok assms(1) unfolding init_cpu_def
    by (rule foldr_create) (use fresh in \<open>auto simp: cpu_chans_def intro: track_init_create\<close>)
  then show ?thesis unfolding UN_image cpu_chans_def .
qed

lemma model_create_step:
  assumes "prop_inv w" and d: "distinct ths" "distinct cps"
    and fresh: "\<And>t i. ModelChan t m i \<notin> registered w" "\<And>t i. ModelThreadTrack t m i \<notin> registered w" "\<And>c i. ModelCpuTrack c m i \<notin> registered w"
    and 1: "model_thread_create tspec m ths w = Inr w1" and 2: "model_cpu_create cspec m cps w1 = Inr w2"
  shows "create_step ((\<Union>t \<in> set ths. th_chans tspec m t) \<union> (\<Union>c \<in> set cps. cpu_chans cspec m c)) w w2"
proof -
  have s1: "create_step (\<Union>t \<in> set ths. th_chans tspec m t) w w1"
    using 1 assms(1) d(1) unfolding model_thread_create_def
    by (rule foldr_create) (use init_thread_create fresh in \<open>auto simp: th_chans_def\<close>)
  then have w1: "prop_inv w1" "registered w1 = registered w \<union> (\<Union>t \<in> set ths. th_chans tspec m t)" by (simp_all add: create_step_def)
  have "create_step (\<Union>c \<in> set cps. cpu_chans cspec m c) w1 w2"
    using 2 w1(1) d(2) unfolding model_cpu_create_def
    by (rule foldr_create) (use init_cpu_create fresh w1(2) in \<open>auto simp: cpu_chans_def th_chans_def\<close>)
  from create_step_trans [OF s1 this] show ?thesis .
qed

subsection \<open>What the tracks show\<close>

lemma create_step_tracks: "create_step C w w' \<Longrightarrow> tracks_only w \<Longrightarrow> tracks_only w'"
  using more_muxes [of w' w] by (simp add: create_step_def tracks_only_def mux_used_def)

text \<open>A track that is not in the bay has no multiplexer.\<close>

lemma track_mux_fresh:
  assumes "prop_inv w" "tracks_only w" "is_track tr" "tr \<notin> registered w"
  shows "\<not> mux_used (track_mux tr) w"
proof
  assume u: "mux_used (track_mux tr) w"
  let ?o = "mx_output (muxes w (track_mux tr))"
  from u assms(2) have "is_track ?o" "track_mux tr = track_mux ?o" by (simp_all add: tracks_only_def)
  with track_mux_inj assms(3) have "?o = tr" by metis
  moreover have "?o \<in> registered w"
    using u assms(1) by (auto simp: prop_inv_def emu_inv_def mux_inv_def mux_ok_def mux_out_ok_def Let_def)
  ultimately show False using assms(4) by simp
qed

definition thread_shown :: "track_th \<Rightarrow> chval \<Rightarrow> bool" where
  "thread_shown mode st \<longleftrightarrow> track_fsel mode 1 (\<lambda>_. None) (\<lambda>_. VALUE_NULL) st = Inr (Some 0)"

lemma thread_shown_simps:
  "thread_shown TRACK_TH_RUN (VALUE_INT64 i) \<longleftrightarrow> enum_of i = th_st TH_ST_RUNNING"
  "thread_shown TRACK_TH_ACT (VALUE_INT64 i) \<longleftrightarrow>
     enum_of i = th_st TH_ST_RUNNING \<or> enum_of i = th_st TH_ST_COOLING \<or> enum_of i = th_st TH_ST_WARMING"
  "\<not> thread_shown mode VALUE_NULL"
  by (cases mode; simp add: thread_shown_def thread_select_running_def thread_select_active_def)+

text \<open>A model is connected: its tracks are wired, and show what they select.\<close>

definition model_connected :: "model_chan_spec \<Rightarrow> model_chan_spec \<Rightarrow> nat \<Rightarrow> nat list \<Rightarrow> nat list \<Rightarrow> 'x mux_bay_scheme \<Rightarrow> bool" where
  "model_connected tspec cspec m ths cps w \<longleftrightarrow>
     (\<forall>t \<in> set ths. \<forall>i < cs_nch tspec. cs_track tspec i \<noteq> TRACK_TH_ANY \<longrightarrow>
        track_wired (ModelThreadTrack t m i) (ThreadChan t TH_CHAN_STATE) (Some (track_fsel (cs_track tspec i))) [0 \<mapsto> ModelChan t m i] 1 w
        \<and> mux_view (track_mux (ModelThreadTrack t m i)) w \<and> mx_def (muxes w (track_mux (ModelThreadTrack t m i))) = VALUE_NULL)
     \<and> (\<forall>c \<in> set cps. \<forall>i < cs_nch cspec.
        track_wired (ModelCpuTrack c m i) (CpuChan c CPU_CHAN_THRUN) None
          (\<lambda>k. if k < length ths then Some (ModelChan (ths ! k) m i) else None) (length ths) w
        \<and> mux_view (track_mux (ModelCpuTrack c m i)) w \<and> mx_def (muxes w (track_mux (ModelCpuTrack c m i))) = VALUE_NULL)"

lemma thread_track_shows:
  assumes "model_connected tspec cspec m ths cps w" and t: "t \<in> set ths" "i < cs_nch tspec" "cs_track tspec i \<noteq> TRACK_TH_ANY"
  shows "chan_read_at (ModelThreadTrack t m i) w =
    (if thread_shown (cs_track tspec i) (chan_read_at (ThreadChan t TH_CHAN_STATE) w) then chan_read_at (ModelChan t m i) w else VALUE_NULL)"
proof -
  let ?mx = "muxes w (track_mux (ModelThreadTrack t m i))" and ?st = "chan_read_at (ThreadChan t TH_CHAN_STATE) w"
  from assms have tw: "mx_select ?mx = ThreadChan t TH_CHAN_STATE" "mx_output ?mx = ModelThreadTrack t m i"
    "mx_select_func ?mx = Some (track_fsel (cs_track tspec i))" "mx_ninputs ?mx = 1" "mux_input_chan ?mx = [0 \<mapsto> ModelChan t m i]"
    "mux_view (track_mux (ModelThreadTrack t m i)) w" "mx_def ?mx = VALUE_NULL"
    by (auto simp: model_connected_def track_wired_def Let_def)
  then obtain sel where sel: "track_fsel (cs_track tspec i) 1 [0 \<mapsto> ModelChan t m i] (\<lambda>c. chan_read_at c w) ?st = Inr sel"
    and out: "chan_read_at (ModelThreadTrack t m i) w = mux_out_value ?mx sel w"
    by (auto simp: mux_view_def mux_chosen_def Let_def select_input_def)
  have "sel = (if thread_shown (cs_track tspec i) ?st then Some 0 else None)"
    using sel t(3) by (cases "cs_track tspec i")
      (auto simp: thread_shown_def thread_select_running_def thread_select_active_def split: chval.splits if_splits)
  with out tw(5,7) show ?thesis by (simp add: mux_out_value_def)
qed

lemma cpu_track_shows:
  assumes "model_connected tspec cspec m ths cps w" and c: "c \<in> set cps" "i < cs_nch cspec"
  shows "(case chan_read_at (CpuChan c CPU_CHAN_THRUN) w of
      VALUE_NULL \<Rightarrow> chan_read_at (ModelCpuTrack c m i) w = VALUE_NULL
    | VALUE_INT64 k \<Rightarrow> 0 \<le> k \<and> k < int (length ths) \<and> chan_read_at (ModelCpuTrack c m i) w = chan_read_at (ModelChan (ths ! nat k) m i) w
    | VALUE_DOUBLE d \<Rightarrow> False)"
proof -
  let ?mx = "muxes w (track_mux (ModelCpuTrack c m i))" and ?run = "chan_read_at (CpuChan c CPU_CHAN_THRUN) w"
  from assms have tw: "mx_select ?mx = CpuChan c CPU_CHAN_THRUN" "mx_output ?mx = ModelCpuTrack c m i"
    "mx_select_func ?mx = None" "mx_ninputs ?mx = int (length ths)"
    "mux_input_chan ?mx = (\<lambda>k. if k < length ths then Some (ModelChan (ths ! k) m i) else None)"
    "mux_view (track_mux (ModelCpuTrack c m i)) w" "mx_def ?mx = VALUE_NULL"
    by (auto simp: model_connected_def track_wired_def Let_def)
  then obtain sel where sel: "default_select (int (length ths)) (mux_input_chan ?mx) (\<lambda>c. chan_read_at c w) ?run = Inr sel"
    and out: "chan_read_at (ModelCpuTrack c m i) w = mux_out_value ?mx sel w"
    by (auto simp: mux_view_def mux_chosen_def Let_def select_input_def)
  show ?thesis
    using sel out unfolding default_select_def mux_out_value_def tw(5,7) by (auto split: chval.splits if_splits)
qed

text \<open>The emulation of an event: the event writes channels of threads and CPUs, and the bay propagates.\<close>

inductive emu_round :: "'x prv_bay_scheme \<Rightarrow> 'x prv_bay_scheme \<Rightarrow> bool" where
  "src_step w w1 \<Longrightarrow> card (registered w1) \<le> n \<Longrightarrow> bay_propagate run_cb n w1 = Inr w2 \<Longrightarrow> emu_round w w2"

lemma emu_round_keeps:
  assumes inv: "prop_inv w" and r: "emu_round w w'"
  shows "prop_inv w' \<and> (\<forall>m. mux_used m w' = mux_used m w \<and> mux_static (muxes w m) (muxes w' m))
    \<and> (\<forall>m. mux_used m w \<longrightarrow> mux_view m w \<longrightarrow> mux_view m w')"
  using r
proof cases
  case (1 w1 n)
  have "prop_inv w' \<and> prop_frame w1 w' \<and> views_upto {m. mux_view m w} {} w'"
    by (rule propagate_views [OF src_step_inv [OF inv 1(1)] src_step_views [OF inv 1(1)] 1(2,3)]) simp
  moreover have "muxes w1 = muxes w" "\<And>m. mux_used m w1 = mux_used m w"
    using 1(1) mux_used_step by (auto simp: src_step_def)
  ultimately show ?thesis by (auto simp: prop_frame_def views_upto_def view_upto_empty)
qed

lemma emu_round_connected:
  assumes inv: "prop_inv w" and c: "model_connected tspec cspec m ths cps w" and r: "emu_round w w'"
  shows "model_connected tspec cspec m ths cps w'"
proof -
  note k = emu_round_keeps [OF inv r]
  have "track_wired tr sel sf inputs n w \<Longrightarrow> mux_view (track_mux tr) w \<Longrightarrow> mx_def (muxes w (track_mux tr)) = VALUE_NULL
      \<Longrightarrow> track_wired tr sel sf inputs n w' \<and> mux_view (track_mux tr) w' \<and> mx_def (muxes w' (track_mux tr)) = VALUE_NULL" for tr sel sf inputs n
    using k by (auto simp: track_wired_def Let_def mux_static_def)
  with c show ?thesis unfolding model_connected_def by blast
qed

lemma emu_rounds_connected:
  "emu_round\<^sup>*\<^sup>* w w' \<Longrightarrow> prop_inv w \<Longrightarrow> model_connected tspec cspec m ths cps w \<Longrightarrow> prop_inv w' \<and> model_connected tspec cspec m ths cps w'"
  by (induction rule: rtranclp_induct) (use emu_round_keeps emu_round_connected in blast)+

text \<open>The state the models are created in: the system has its channels, no thread has run, and no model has channels.\<close>

definition system_ready :: "nat list \<Rightarrow> nat list \<Rightarrow> 'x sys_bay_scheme \<Rightarrow> bool" where
  "system_ready ths cps w \<longleftrightarrow> prop_inv w \<and> tracks_only w \<and> gindexed ths w
     \<and> (\<forall>t \<in> set ths. ThreadChan t TH_CHAN_STATE \<in> registered w \<and> chan_read_at (ThreadChan t TH_CHAN_STATE) w = VALUE_NULL)
     \<and> (\<forall>c \<in> set cps. CpuChan c CPU_CHAN_THRUN \<in> registered w \<and> chan_read_at (CpuChan c CPU_CHAN_THRUN) w = VALUE_NULL)
     \<and> (\<forall>k \<in> set (map snd (rec_pvts w)). prv_wf (prvs w k))"

definition model_fresh :: "nat \<Rightarrow> 'x bay_scheme \<Rightarrow> bool" where
  "model_fresh m w \<longleftrightarrow> (\<forall>x i. ModelChan x m i \<notin> registered w \<and> ModelThreadTrack x m i \<notin> registered w \<and> ModelCpuTrack x m i \<notin> registered w)"

definition model_made :: "model_chan_spec \<Rightarrow> model_chan_spec \<Rightarrow> nat \<Rightarrow> nat list \<Rightarrow> nat list \<Rightarrow> 'x mux_bay_scheme \<Rightarrow> bool" where
  "model_made tspec cspec m ths cps w \<longleftrightarrow>
     (\<forall>t \<in> set ths. thread_ready tspec m t w) \<and> (\<forall>c \<in> set cps. cpu_ready cspec m c w)
     \<and> (\<forall>x. \<forall>u \<in> th_muxes m x \<union> cpu_muxes m x. \<not> mux_used u w)
     \<and> (\<forall>x i. chan_read_at (ModelThreadTrack x m i) w = VALUE_NULL \<or> ModelThreadTrack x m i \<notin> registered w)
     \<and> (\<forall>x i. chan_read_at (ModelCpuTrack x m i) w = VALUE_NULL \<or> ModelCpuTrack x m i \<notin> registered w)"

definition model_muxes :: "nat \<Rightarrow> nat set" where
  "model_muxes m = (\<Union>x. th_muxes m x \<union> cpu_muxes m x)"

lemma model_muxes_disjoint: "m \<noteq> m' \<Longrightarrow> model_muxes m \<inter> model_muxes m' = {}"
  by (auto simp: model_muxes_def th_muxes_def cpu_muxes_def dest!: track_mux_inj [rotated 2])

text \<open>What \<^verbatim>\<open>model_<name>_create\<close> and \<^verbatim>\<open>model_<name>_connect\<close> do for the channels of a model.\<close>

definition chans_create :: "nat list \<Rightarrow> nat list \<Rightarrow> nat \<times> model_chan_spec \<times> model_chan_spec \<Rightarrow> 'x sys_bay_scheme \<Rightarrow> 'x sys_bay_scheme res" where
  "chans_create ths cps = (\<lambda>(m, tspec, cspec) w. rbind (model_thread_create tspec m ths w) (model_cpu_create cspec m cps))"

definition chans_connect :: "nat list \<Rightarrow> nat list \<Rightarrow> nat \<times> model_chan_spec \<times> model_chan_spec \<Rightarrow> 'x pcf_st \<Rightarrow> 'x pcf_st res" where
  "chans_connect ths cps = (\<lambda>(m, tspec, cspec) s. rbind (model_thread_connect tspec m ths s) (model_cpu_connect cspec m ths cps))"

lemma chans_create_made:
  assumes sys: "system_ready ths cps w" and d: "distinct ths" "distinct cps" and fresh: "model_fresh m w"
    and ok: "chans_create ths cps (m, tspec, cspec) w = Inr w'"
  shows "system_ready ths cps w' \<and> model_made tspec cspec m ths cps w'
    \<and> (\<forall>m'. m' \<noteq> m \<longrightarrow> model_fresh m' w \<longrightarrow> model_fresh m' w')
    \<and> (\<forall>m' ts cs. m' \<noteq> m \<longrightarrow> model_made ts cs m' ths cps w \<longrightarrow> model_made ts cs m' ths cps w')"
proof -
  obtain w1 where 1: "model_thread_create tspec m ths w = Inr w1" and 2: "model_cpu_create cspec m cps w1 = Inr w'"
    using ok by (auto simp: chans_create_def)
  let ?C = "(\<Union>t \<in> set ths. th_chans tspec m t) \<union> (\<Union>c \<in> set cps. cpu_chans cspec m c)"
  from sys have inv: "prop_inv w" "tracks_only w" by (simp_all add: system_ready_def)
  have s: "create_step ?C w w'"
    using model_create_step [OF inv(1) d _ _ _ 1 2] fresh by (simp add: model_fresh_def)
  then have w': "prop_inv w'" "registered w' = registered w \<union> ?C" "bay.more w' = bay.more w" "bay_cbs w' = bay_cbs w" "bay_ncbs w' = bay_ncbs w"
    "\<And>c. c \<notin> ?C \<Longrightarrow> bay_mem w' c = bay_mem w c" "\<And>c. c \<in> ?C \<Longrightarrow> chan_read_at c w' = VALUE_NULL"
    unfolding create_step_def by blast+
  have more: "muxes w' = muxes w" "prvs w' = prvs w" "threads w' = threads w" "rec_pvts w' = rec_pvts w"
    using more_muxes [OF w'(3)] more_prvs [OF w'(3)] more_threads [of w' w] w'(3)
    by (simp_all, (cases w rule: prv_bay.cases_scheme; cases w' rule: prv_bay.cases_scheme; simp)+)
  have u: "mux_used x w' = mux_used x w" for x by (simp add: mux_used_def w'(4,5))
  have C: "ThreadChan x i \<notin> ?C" "CpuChan x i \<notin> ?C" "ModelChan x m' i \<in> ?C \<Longrightarrow> m' = m" "ModelThreadTrack x m' i \<in> ?C \<Longrightarrow> m' = m"
    "ModelCpuTrack x m' i \<in> ?C \<Longrightarrow> m' = m" for x m' i by (auto simp: th_chans_def cpu_chans_def)
  have "system_ready ths cps w'"
    using sys w'(1) create_step_tracks [OF s inv(2)] w'(6) [OF C(1)] w'(6) [OF C(2)]
    by (simp add: system_ready_def gindexed_def more w'(2))
  moreover have "model_made tspec cspec m ths cps w'"
  proof -
    have "\<not> mux_used (track_mux tr) w'" if "is_track tr" "tr \<notin> registered w" for tr
      using track_mux_fresh [OF inv that] u by simp
    then have unused: "\<forall>x. \<forall>y \<in> th_muxes m x \<union> cpu_muxes m x. \<not> mux_used y w'"
      using fresh by (auto simp: th_muxes_def cpu_muxes_def model_fresh_def)
    have null: "chan_read_at c w' = VALUE_NULL \<or> c \<notin> registered w'" if "c \<notin> registered w" for c
      using that w'(2) w'(7) [of c] by auto
    have "thread_ready tspec m t w'" if "t \<in> set ths" for t
      using that sys by (auto simp: thread_ready_def w'(2) th_chans_def system_ready_def)
    moreover have "cpu_ready cspec m c w'" if "c \<in> set cps" for c
      using that sys by (auto simp: cpu_ready_def w'(2) cpu_chans_def system_ready_def)
    ultimately show ?thesis using unused fresh null by (simp add: model_made_def model_fresh_def)
  qed
  moreover have "model_fresh m' w'" if "m' \<noteq> m" "model_fresh m' w" for m'
    using that unfolding model_fresh_def w'(2) by (auto simp: th_chans_def cpu_chans_def)
  moreover have "model_made ts cs m' ths cps w'" if "m' \<noteq> m" "model_made ts cs m' ths cps w" for m' ts cs
  proof -
    have nC: "ModelThreadTrack x m' i \<notin> ?C" "ModelCpuTrack x m' i \<notin> ?C" for x i using that(1) by (auto simp: th_chans_def cpu_chans_def)
    have eq: "bay_mem w' (ModelThreadTrack x m' i) = bay_mem w (ModelThreadTrack x m' i)"
      "bay_mem w' (ModelCpuTrack x m' i) = bay_mem w (ModelCpuTrack x m' i)" for x i by (rule w'(6), rule nC)+
    have reg: "ModelThreadTrack x m' i \<in> registered w' \<longleftrightarrow> ModelThreadTrack x m' i \<in> registered w"
      "ModelCpuTrack x m' i \<in> registered w' \<longleftrightarrow> ModelCpuTrack x m' i \<in> registered w" for x i using nC by (simp_all add: w'(2))
    have "thread_ready ts m' t w \<Longrightarrow> thread_ready ts m' t w'" "cpu_ready cs m' t w \<Longrightarrow> cpu_ready cs m' t w'" for t
      by (simp_all add: thread_ready_def cpu_ready_def w'(2))
    with that(2) show ?thesis by (simp add: model_made_def u eq reg del: Un_iff)
  qed
  ultimately show ?thesis by blast
qed

lemma track_fsel_cases: "track_fsel mode = thread_select_running \<or> track_fsel mode = thread_select_active"
  by (cases mode) simp_all

lemma chans_connect_step:
  assumes sys: "system_ready ths cps w" and d: "distinct ths" "distinct cps" and made: "model_made tspec cspec m ths cps w"
    and n: "cs_nch cspec \<le> cs_nch tspec" and ok: "chans_connect ths cps (m, tspec, cspec) (pcfs, w) = Inr (pcfs', w')"
  shows "wire_step (model_muxes m) w w' \<and> model_connected tspec cspec m ths cps w'"
proof -
  obtain pcfs1 w1 where 1: "model_thread_connect tspec m ths (pcfs, w) = Inr (pcfs1, w1)"
    and 2: "model_cpu_connect cspec m ths cps (pcfs1, w1) = Inr (pcfs', w')"
    using ok by (auto simp: chans_connect_def)
  let ?T = "\<Union>t \<in> set ths. th_muxes m t" and ?C = "\<Union>c \<in> set cps. cpu_muxes m c"
  from sys have inv: "prop_inv w" "tracks_only w" "gindexed ths w" by (simp_all add: system_ready_def)
  have prv: "prv_wf (prvs w k)" if "recorder_find_pvt name w = Some k" for name k
    using that sys map_of_SomeD [of "rec_pvts w" name k] by (force simp: recorder_find_pvt_def system_ready_def)
  have unused: "\<not> mux_used x w" if "x \<in> th_muxes m t \<or> x \<in> cpu_muxes m t" for x t using made that by (auto simp: model_made_def)
  have rdy: "thread_ready tspec m t w" if "t \<in> set ths" for t using made that by (simp add: model_made_def)
  have s1: "wire_step ?T w w1" "\<And>t. t \<in> set ths \<Longrightarrow> thread_wired tspec m t w1"
    using model_thread_connect_wire [OF inv(1,2) d(1) rdy unused [OF disjI1] prv [of "''thread''"] 1] by simp_all
  then have w1: "prop_inv w1" "tracks_only w1" "registered w1 = registered w" "prv_bay.more w1 = prv_bay.more w"
    by (auto simp: wire_step_def)
  have rdy1: "cpu_ready cspec m c w1" if "c \<in> set cps" for c using made that ready_step [OF s1(1)] by (auto simp: model_made_def)
  have th: "ModelChan t m i \<in> registered w1" if "t \<in> set ths" "i < cs_nch cspec" for t i
    using made that n w1(3) by (auto simp: model_made_def thread_ready_def)
  have un1: "\<not> mux_used x w1" if "x \<in> cpu_muxes m c" for x c
    using s1(1) unused that track_muxes_disjoint(3) by (fastforce simp: wire_step_def)
  have prv1: "prv_wf (prvs w1 k)" if "recorder_find_pvt ''cpu'' w1 = Some k" for k
    using prv that s1(1) more_threads [OF w1(4)] by (auto simp: wire_step_def recorder_find_pvt_def)
  have g1: "gindexed ths w1" using inv(3) more_threads [OF w1(4)] by (simp add: gindexed_def)
  have s2: "wire_step ?C w1 w'" "\<And>c. c \<in> set cps \<Longrightarrow> cpu_wired cspec m ths c w'"
    using model_cpu_connect_wire [OF w1(1,2) d(2) rdy1 th un1 g1 prv1 2] by auto
  have s: "wire_step (?T \<union> ?C) w w'" by (rule wire_step_trans [OF s1(1) s2(1)])
  then have rd: "chan_read_at c w' = chan_read_at c w" for c by (simp add: wire_step_def)
  have tw: "thread_wired tspec m t w'" if "t \<in> set ths" for t
  proof -
    have "track_mux (ModelThreadTrack t m i) \<notin> ?C" for i using track_muxes_disjoint(3) [of m t m] unfolding th_muxes_def by blast
    then show ?thesis using s1(2) [OF that] track_wired_step [OF s2(1)] by (auto simp: thread_wired_def)
  qed
  have null: "t \<in> set ths \<Longrightarrow> i < cs_nch tspec \<Longrightarrow> chan_read_at (ModelThreadTrack t m i) w = VALUE_NULL"
    "c \<in> set cps \<Longrightarrow> i < cs_nch cspec \<Longrightarrow> chan_read_at (ModelCpuTrack c m i) w = VALUE_NULL" for t c i
    using made unfolding model_made_def thread_ready_def cpu_ready_def by blast+
  have "mux_view (track_mux (ModelThreadTrack t m i)) w'" if "t \<in> set ths" "i < cs_nch tspec" "cs_track tspec i \<noteq> TRACK_TH_ANY" for t i
    using tw [OF that(1)] that sys null(1) track_fsel_cases
    by (intro idle_track_view [where sel = "ThreadChan t TH_CHAN_STATE"]) (auto simp: thread_wired_def rd system_ready_def)
  moreover have "mux_view (track_mux (ModelCpuTrack c m i)) w'" if "c \<in> set cps" "i < cs_nch cspec" for c i
    using s2(2) [OF that(1)] that sys null(2)
    by (intro idle_track_view [where sel = "CpuChan c CPU_CHAN_THRUN"]) (auto simp: cpu_wired_def rd system_ready_def)
  moreover have "wire_step (model_muxes m) w w'" by (rule wire_step_mono [OF s]) (auto simp: model_muxes_def)
  ultimately show ?thesis
    using tw s2(2) by (simp add: model_connected_def thread_wired_def cpu_wired_def idle_track_def Let_def)
qed

text \<open>Every model that is enabled is created, and then every one is connected.\<close>

definition models_ok :: "(nat \<times> model_chan_spec \<times> model_chan_spec) list \<Rightarrow> bool" where
  "models_ok ms \<longleftrightarrow> distinct (map fst ms) \<and> (\<forall>(m, tspec, cspec) \<in> set ms. cs_nch cspec \<le> cs_nch tspec)"

lemma models_create_made:
  assumes "foldr_res (chans_create ths cps) ms w = Inr w'" and "system_ready ths cps w" and "distinct ths" "distinct cps"
    and "distinct (map fst ms)" and "\<And>m. m \<in> fst ` set ms \<Longrightarrow> model_fresh m w"
  shows "system_ready ths cps w' \<and> (\<forall>(m, tspec, cspec) \<in> set ms. model_made tspec cspec m ths cps w')
    \<and> (\<forall>m tspec cspec. m \<notin> fst ` set ms \<longrightarrow> model_made tspec cspec m ths cps w \<longrightarrow> model_made tspec cspec m ths cps w')"
  using assms
proof (induction ms arbitrary: w)
  case (Cons x ms)
  obtain m ts cs where x: "x = (m, ts, cs)" by (cases x)
  with Cons.prems(1) obtain v where v: "chans_create ths cps (m, ts, cs) w = Inr v"
    and rest: "foldr_res (chans_create ths cps) ms v = Inr w'" by auto
  have "model_fresh m w" using Cons.prems(6) x by simp
  note s = chans_create_made [OF Cons.prems(2-4) this v]
  have fr: "model_fresh m' v" if "m' \<in> fst ` set ms" for m'
    using s that Cons.prems(5,6) x by (metis distinct.simps(2) fst_conv image_eqI insertCI list.set(2) list.simps(9) set_map)
  have dm: "distinct (map fst ms)" "m \<notin> fst ` set ms" using Cons.prems(5) x by auto
  note ih = Cons.IH [OF rest conjunct1 [OF s] Cons.prems(3,4) dm(1) fr]
  have "model_made ts cs m ths cps w'" using ih s dm(2) by blast
  moreover have "model_made tspec cspec m' ths cps w'" if "m' \<notin> fst ` set (x # ms)" "model_made tspec cspec m' ths cps w" for m' tspec cspec
    using ih s that x by auto
  ultimately show ?case using ih x by auto
qed simp

lemma connected_step:
  assumes s: "wire_step (model_muxes m) w w'" and "m' \<noteq> m"
  shows "model_connected ts cs m' ths cps w \<Longrightarrow> model_connected ts cs m' ths cps w'"
    and "model_made ts cs m' ths cps w \<Longrightarrow> model_made ts cs m' ths cps w'"
proof -
  have x: "u \<notin> model_muxes m" if "u \<in> th_muxes m' y \<or> u \<in> cpu_muxes m' y" for u y
    using model_muxes_disjoint [of m m'] assms(2) that unfolding model_muxes_def by blast
  from s have rd: "chan_read_at c w' = chan_read_at c w" and ch: "bay_channels w' = bay_channels w" for c by (simp_all add: wire_step_def)
  have eq: "muxes w' (track_mux tr) = muxes w (track_mux tr)" "mux_used (track_mux tr) w' = mux_used (track_mux tr) w"
    if "track_mux tr \<in> th_muxes m' y \<or> track_mux tr \<in> cpu_muxes m' y" for tr y
    using s x [OF that] by (simp_all add: wire_step_def)
  have tt: "track_mux (ModelThreadTrack y m' i) \<in> th_muxes m' y" "track_mux (ModelCpuTrack y m' i) \<in> cpu_muxes m' y" for y i
    by (simp_all add: th_muxes_def cpu_muxes_def)
  have view: "mux_view u w' = mux_view u w" if "muxes w' u = muxes w u" for u
    unfolding mux_view_def mux_chosen_def select_input_def mux_out_value_def that Let_def rd by simp
  have th: "muxes w' (track_mux (ModelThreadTrack y m' i)) = muxes w (track_mux (ModelThreadTrack y m' i))"
    "mux_used (track_mux (ModelThreadTrack y m' i)) w' = mux_used (track_mux (ModelThreadTrack y m' i)) w"
    "muxes w' (track_mux (ModelCpuTrack y m' i)) = muxes w (track_mux (ModelCpuTrack y m' i))"
    "mux_used (track_mux (ModelCpuTrack y m' i)) w' = mux_used (track_mux (ModelCpuTrack y m' i)) w" for y i
    using eq [of _ y] tt by blast+
  show "model_connected ts cs m' ths cps w'" if "model_connected ts cs m' ths cps w"
    using that unfolding model_connected_def track_wired_def th view [OF th(1)] view [OF th(3)] .
  have "\<not> mux_used u w' \<longleftrightarrow> \<not> mux_used u w" if "u \<in> th_muxes m' y \<union> cpu_muxes m' y" for u y
    using s x that by (simp add: wire_step_def)
  then show "model_made ts cs m' ths cps w'" if "model_made ts cs m' ths cps w"
    using that ready_step [OF s] unfolding model_made_def rd ch by blast
qed

lemma system_ready_step: "wire_step M w w' \<Longrightarrow> system_ready ths cps w \<Longrightarrow> system_ready ths cps w'"
  using more_threads [of w' w] by (auto simp: system_ready_def wire_step_def gindexed_def)

lemma models_connect_connected:
  assumes "foldr_res (chans_connect ths cps) ms (pcfs, w) = Inr (pcfs', w')" and "system_ready ths cps w" and "distinct ths" "distinct cps"
    and "models_ok ms" and "\<And>m ts cs. (m, ts, cs) \<in> set ms \<Longrightarrow> model_made ts cs m ths cps w"
  shows "system_ready ths cps w' \<and> (\<forall>(m, ts, cs) \<in> set ms. model_connected ts cs m ths cps w')
    \<and> (\<forall>m ts cs. m \<notin> fst ` set ms \<longrightarrow> model_connected ts cs m ths cps w \<longrightarrow> model_connected ts cs m ths cps w')"
  using assms
proof (induction ms arbitrary: pcfs w)
  case (Cons x ms)
  obtain m ts cs where x: "x = (m, ts, cs)" by (cases x)
  with Cons.prems(1) obtain q v where v: "chans_connect ths cps (m, ts, cs) (pcfs, w) = Inr (q, v)"
    and rest: "foldr_res (chans_connect ths cps) ms (q, v) = Inr (pcfs', w')" by auto
  have made: "model_made ts cs m ths cps w" and n: "cs_nch cs \<le> cs_nch ts" and dm: "models_ok ms" "m \<notin> fst ` set ms"
    using Cons.prems(5,6) x by (auto simp: models_ok_def)
  note s = chans_connect_step [OF Cons.prems(2-4) made n v]
  have "model_made ts' cs' m' ths cps v" if "(m', ts', cs') \<in> set ms" for m' ts' cs'
    using connected_step(2) [OF conjunct1 [OF s]] Cons.prems(6) that dm(2) by (metis fst_conv image_eqI list.set_intros(2))
  note ih = Cons.IH [OF rest system_ready_step [OF conjunct1 [OF s] Cons.prems(2)] Cons.prems(3,4) dm(1) this]
  have "model_connected ts cs m ths cps w'" using ih s dm(2) by blast
  moreover have "model_connected ts' cs' m' ths cps w'" if "m' \<notin> fst ` set (x # ms)" "model_connected ts' cs' m' ths cps w" for m' ts' cs'
    using ih connected_step(1) [OF conjunct1 [OF s]] that x by auto
  ultimately show ?case using ih x by auto
qed simp


end
