(* ===== verification/Source_Writes.thy ===== *)
theory Source_Writes
  imports View Cpu
begin

text \<open>
  Event handlers write the channels of threads and CPUs, the sources of the propagation. Every operation on such a channel
  is a \<open>src_step\<close>: it leaves the wiring alone, and a channel that changes becomes dirty.
\<close>

lemma bay_write_src:
  assumes "bay_write c w w'" and "is_source c" and "bay_mem w' c = bay_mem w c \<or> ch_is_dirty (bay_mem w' c)"
  shows "src_step w w'"
proof -
  from assms(1) have w: "bay_step w w'" "bay_bchans w' = bay_bchans w" "bay_cbs w' = bay_cbs w" "bay.more w' = bay.more w"
    "\<And>d. d \<noteq> c \<Longrightarrow> bay_mem w' d = bay_mem w d" "same_chan (bay_mem w c) (bay_mem w' c)" by (auto simp: bay_write_def)
  have "same_chan (bay_mem w d) (bay_mem w' d) \<and> (bay_mem w' d = bay_mem w d \<or> is_source d \<and> ch_is_dirty (bay_mem w' d))" for d
    using w(5,6) assms(2,3) by (cases "d = c") auto
  then show ?thesis using w more_muxes [OF w(4)] more_sorts [OF w(4)] more_prvs [OF w(4)] by (simp add: src_step_def)
qed

lemma chan_set_at_src:
  assumes "bay_wf w" and "is_source c" and "chan_set_at c v w = Inr w'"
  shows "src_step w w'"
  by (rule bay_write_src [OF chan_set_at_write [OF assms(1,3)] assms(2)])
     (use assms(3) in \<open>auto simp: chan_set_at_def put_chan_def dest!: chan_set_ok\<close>)

lemma chan_push_at_src:
  assumes "bay_wf w" and "is_source c" and "chan_push_at c v w = Inr w'"
  shows "src_step w w'"
  by (rule bay_write_src [OF chan_push_at_write [OF assms(1,3)] assms(2)])
     (use assms(3) in \<open>auto simp: chan_push_at_def put_chan_def dest!: chan_push_ok\<close>)

lemma chan_pop_at_src:
  assumes "bay_wf w" and "is_source c" and "chan_pop_at c v w = Inr w'"
  shows "src_step w w'"
  by (rule bay_write_src [OF chan_pop_at_write [OF assms(1,3)] assms(2)])
     (use assms(3) in \<open>auto simp: chan_pop_at_def put_chan_def dest!: chan_pop_ok\<close>)

lemmas chan_src = chan_set_at_src chan_push_at_src chan_pop_at_src

lemma src_step_wf: "src_step w w' \<Longrightarrow> bay_wf w'"
  by (simp add: src_step_def bay_step_def)

text \<open>What the rest of the emulator keeps beside the bay does not matter.\<close>

lemma put_src [simp]:
  "src_step w (put_thread t th v) = src_step w v" "src_step w (put_cpu c cp v) = src_step w v"
  "src_step (put_thread t th w) v = src_step w v" "src_step (put_cpu c cp w) v = src_step w v"
  by (simp_all add: src_step_def put_thread_def put_cpu_def bay_step_def bay_wf_defs)

lemma foldr_src:
  assumes "foldr_res body xs w = Inr w'" and "bay_wf w" and "\<And>x v v'. x \<in> set xs \<Longrightarrow> bay_wf v \<Longrightarrow> body x v = Inr v' \<Longrightarrow> src_step v v'"
  shows "src_step w w'"
  using assms(1)
proof (rule foldr_res_invar [where I = "src_step w"])
  show "src_step w w" by (rule src_step_refl [OF assms(2)])
  fix x v v' assume "x \<in> set xs" "src_step w v" "body x v = Inr v'"
  with assms(3) src_step_wf src_step_trans show "src_step w v'" by blast
qed

end
