(* ===== verification/Ev.thy ===== *)
theory Ev
  imports Prelude
begin

unbundle bit_operations_syntax

text \<open>
  Events: the structures of \<^verbatim>\<open>include/ovni.h.in\<close>, the functions on events of \<^verbatim>\<open>src/rt/ovni.c\<close> that the
  emulator shares with the runtime, and \<^verbatim>\<open>src/emu/emu_ev.c\<close>.

  A stream is a sequence of bytes. \<^verbatim>\<open>struct ovni_ev\<close> is packed and little endian: four bytes with
  the flags and the model, category and value, eight with the clock, then the payload. \<open>ev_at\<close> is the
  view of a place of a stream as an event (the cast of the pointer), \<open>ev_bytes\<close> the memory of an event.
  The payload is the list of the bytes that follow; a byte past the end of the buffer reads as zero, as
  the rest of the last page of a mapped file does. The type \<^verbatim>\<open>int\<close> has 32 bits and conversions to it wrap.
\<close>

type_synonym byte = "8 word"

subsection \<open>Little endian numbers\<close>

fun le_dec :: "byte list \<Rightarrow> nat" where
  "le_dec [] = 0"
| "le_dec (b # bs) = unat b + 256 * le_dec bs"

fun le_enc :: "nat \<Rightarrow> nat \<Rightarrow> byte list" where
  "le_enc 0 x = []"
| "le_enc (Suc k) x = word_of_nat x # le_enc k (x div 256)"

lemma le_enc_length [simp]: "length (le_enc k x) = k"
  by (induction k arbitrary: x) simp_all

lemma unat_byte: "unat (b :: byte) < 256"
proof -
  have "unat b < 2 ^ LENGTH(8)" by (rule unsigned_less)
  then show ?thesis by simp
qed

lemma le_dec_less: "le_dec bs < 256 ^ length bs"
proof (induction bs)
  case (Cons b bs)
  have "unat b < 2 ^ LENGTH(8)" by (rule unsigned_less)
  with Cons show ?case by simp
qed simp

lemma le_dec_enc: "le_dec (le_enc k x) = x mod 256 ^ k"
proof (induction k arbitrary: x)
  case (Suc k)
  have "unat (word_of_nat x :: byte) = x mod 256" by (simp add: unat_of_nat)
  then show ?case by (simp add: Suc mod_mult2_eq)
qed simp

lemma le_enc_dec: "le_enc (length bs) (le_dec bs) = bs"
proof (induction bs)
  case (Cons b bs)
  have u: "unat b < 256" by (rule unat_byte)
  then have "(unat b + 256 * le_dec bs) div 256 = le_dec bs" by simp
  moreover have "(word_of_nat (unat b + 256 * le_dec bs) :: byte) = b"
  proof -
    have "(256 :: byte) = 0" by simp
    then show ?thesis by (simp only: of_nat_add of_nat_mult of_nat_numeral mult_zero_left add_0_right) simp
  qed
  ultimately show ?case using Cons by simp
qed simp

text \<open>The conversions of C: to \<^verbatim>\<open>int\<close>, to \<^verbatim>\<open>int64_t\<close> and to \<^verbatim>\<open>size_t\<close>.\<close>

definition c_int :: "int \<Rightarrow> int" where
  "c_int x = (x + 2 ^ 31) mod 2 ^ 32 - 2 ^ 31"

definition c_int64 :: "int \<Rightarrow> int" where
  "c_int64 x = (x + 2 ^ 63) mod 2 ^ 64 - 2 ^ 63"

definition c_size :: "int \<Rightarrow> nat" where
  "c_size x = nat (x mod 2 ^ 64)"

lemma c_int_id [simp]: "- (2 ^ 31) \<le> x \<Longrightarrow> x < 2 ^ 31 \<Longrightarrow> c_int x = x"
  by (simp add: c_int_def)

lemma c_int64_id [simp]: "- (2 ^ 63) \<le> x \<Longrightarrow> x < 2 ^ 63 \<Longrightarrow> c_int64 x = x"
  by (simp add: c_int64_def)

lemma c_size_id [simp]: "0 \<le> x \<Longrightarrow> x < 2 ^ 64 \<Longrightarrow> c_size x = nat x"
  by (simp add: c_size_def)

lemma c_int_range: "- (2 ^ 31) \<le> c_int x" "c_int x < 2 ^ 31"
  by (auto simp: c_int_def pos_mod_bound diff_less_eq)

lemma c_int64_range: "- (2 ^ 63) \<le> c_int64 x" "c_int64 x < 2 ^ 63"
  by (auto simp: c_int64_def pos_mod_bound diff_less_eq)

text \<open>The number in \<open>k\<close> bytes at offset \<open>off\<close>.\<close>

definition rd_u :: "nat \<Rightarrow> nat \<Rightarrow> byte list \<Rightarrow> nat" where
  "rd_u k off bs = le_dec (take k (drop off bs))"

definition payload_u8 :: "nat \<Rightarrow> byte list \<Rightarrow> nat" where
  "payload_u8 i p = rd_u 1 i p"

definition payload_u32 :: "nat \<Rightarrow> byte list \<Rightarrow> nat" where
  "payload_u32 i p = rd_u 4 (4 * i) p"

definition payload_i32 :: "nat \<Rightarrow> byte list \<Rightarrow> int" where
  "payload_i32 i p = c_int (int (rd_u 4 (4 * i) p))"

definition payload_i64 :: "nat \<Rightarrow> byte list \<Rightarrow> int" where
  "payload_i64 i p = c_int64 (int (rd_u 8 (8 * i) p))"

subsection \<open>Events\<close>

record ovni_ev =
  oe_flags :: byte
  oe_model :: byte
  oe_category :: byte
  oe_value :: byte
  oe_clock :: "64 word"
  oe_payload :: "byte list"

definition OVNI_EV_JUMBO :: byte where "OVNI_EV_JUMBO = 0x10"

definition ev_header_size :: nat where "ev_header_size = 12"

definition byte_at :: "nat \<Rightarrow> byte list \<Rightarrow> byte" where
  "byte_at i bs = (if i < length bs then bs ! i else 0)"

definition ev_at :: "byte list \<Rightarrow> ovni_ev" where
  "ev_at bs =
     \<lparr>oe_flags = byte_at 0 bs, oe_model = byte_at 1 bs, oe_category = byte_at 2 bs, oe_value = byte_at 3 bs,
      oe_clock = word_of_nat (rd_u 8 4 bs), oe_payload = drop ev_header_size bs\<rparr>"

definition ev_bytes :: "ovni_ev \<Rightarrow> byte list" where
  "ev_bytes ev = oe_flags ev # oe_model ev # oe_category ev # oe_value ev
     # le_enc 8 (unat (oe_clock ev)) @ oe_payload ev"

definition ovni_ev_get_clock :: "ovni_ev \<Rightarrow> 64 word" where
  "ovni_ev_get_clock ev = oe_clock ev"

definition ovni_ev_set_clock :: "64 word \<Rightarrow> ovni_ev \<Rightarrow> ovni_ev" where
  "ovni_ev_set_clock clock ev = ev\<lparr>oe_clock := clock\<rparr>"

definition char_byte :: "char \<Rightarrow> byte" where
  "char_byte c = word_of_nat (of_char c)"

definition ovni_ev_set_mcv :: "string \<Rightarrow> ovni_ev \<Rightarrow> ovni_ev" where
  "ovni_ev_set_mcv mcv ev =
     ev\<lparr>oe_model := char_byte (mcv ! 0), oe_category := char_byte (mcv ! 1), oe_value := char_byte (mcv ! 2)\<rparr>"

definition is_jumbo_flag :: "ovni_ev \<Rightarrow> bool" where
  "is_jumbo_flag ev \<longleftrightarrow> oe_flags ev AND OVNI_EV_JUMBO \<noteq> 0"

definition get_jumbo_payload_size :: "ovni_ev \<Rightarrow> nat" where
  "get_jumbo_payload_size ev = 4 + rd_u 4 0 (oe_payload ev)"

definition ovni_payload_size :: "ovni_ev \<Rightarrow> int" where
  "ovni_payload_size ev =
     (if is_jumbo_flag ev then c_int (int (get_jumbo_payload_size ev))
      else let size = uint (oe_flags ev AND 0x0f) in if size = 0 then 0 else size + 1)"

definition ovni_ev_size :: "ovni_ev \<Rightarrow> int" where
  "ovni_ev_size ev = c_int (int ev_header_size + ovni_payload_size ev)"

definition ovni_payload_add :: "byte list \<Rightarrow> ovni_ev \<Rightarrow> ovni_ev res" where
  "ovni_payload_add buf ev =
     (let size = length buf; payload_size = c_size (ovni_payload_size ev) in
      if is_jumbo_flag ev then Inl (ERt RtJumboFlag)
      else if size < 2 then Inl (ERt RtPayloadTooSmall)
      else if payload_size + size > 16 then Inl (ERt RtPayloadNoSpace)
      else Inr (ev\<lparr>oe_payload := take payload_size (oe_payload ev) @ buf
                      @ drop (payload_size + size) (oe_payload ev),
                   oe_flags := (oe_flags ev AND 0xf0) OR (word_of_nat (payload_size + size - 1) AND 0x0f)\<rparr>))"

subsection \<open>Events of the emulator\<close>

record emu_ev =
  ev_m :: byte
  ev_c :: byte
  ev_v :: byte
  ev_rclock :: int
  ev_sclock :: int
  ev_dclock :: int
  ev_has_payload :: bool
  ev_payload_size :: nat
  ev_is_jumbo :: bool
  ev_payload :: "byte list option"

text \<open>The structure is written in place: \<open>ev\<close> is its old content.\<close>

definition emu_ev :: "emu_ev \<Rightarrow> ovni_ev \<Rightarrow> int \<Rightarrow> int \<Rightarrow> emu_ev" where
  "emu_ev ev oev sclock dclock =
     (let ev1 = ev\<lparr>ev_m := oe_model oev, ev_c := oe_category oev, ev_v := oe_value oev,
                   ev_rclock := c_int64 (uint (oe_clock oev)), ev_sclock := sclock, ev_dclock := dclock,
                   ev_payload_size := c_size (ovni_payload_size oev)\<rparr> in
      if ev_payload_size ev1 > 0
      then let ev2 = ev1\<lparr>ev_has_payload := True, ev_payload := Some (oe_payload oev)\<rparr> in
           if is_jumbo_flag oev then ev2\<lparr>ev_is_jumbo := True\<rparr> else ev2
      else ev1\<lparr>ev_has_payload := False, ev_payload := None, ev_is_jumbo := False\<rparr>)"

subsection \<open>Reading back what was written\<close>

lemma rd_u_less: "rd_u k off bs < 256 ^ k"
proof -
  have "rd_u k off bs < 256 ^ length (take k (drop off bs))" unfolding rd_u_def by (rule le_dec_less)
  also have "\<dots> \<le> 256 ^ k" by (rule power_increasing) simp_all
  finally show ?thesis .
qed

lemma rd_u_enc: "length pre = off \<Longrightarrow> x < 256 ^ k \<Longrightarrow> rd_u k off (pre @ le_enc k x @ rest) = x"
  by (simp add: rd_u_def le_dec_enc)

lemma ev_bytes_length [simp]: "length (ev_bytes ev) = ev_header_size + length (oe_payload ev)"
  by (simp add: ev_bytes_def ev_header_size_def)

lemma ev_at_bytes: "ev_at (ev_bytes ev @ rest) = ev\<lparr>oe_payload := oe_payload ev @ rest\<rparr>"
proof -
  let ?h = "[oe_flags ev, oe_model ev, oe_category ev, oe_value ev]"
  have "unat (oe_clock ev) < 2 ^ LENGTH(64)" by (rule unsigned_less)
  then have "rd_u 8 4 (?h @ le_enc 8 (unat (oe_clock ev)) @ oe_payload ev @ rest) = unat (oe_clock ev)"
    by (intro rd_u_enc) simp_all
  then have "rd_u 8 4 (ev_bytes ev @ rest) = unat (oe_clock ev)" by (simp add: ev_bytes_def)
  moreover have "drop 12 (?h @ le_enc 8 (unat (oe_clock ev)) @ oe_payload ev @ rest) = oe_payload ev @ rest"
    by (simp only: drop_append) simp
  then have "drop 12 (ev_bytes ev @ rest) = oe_payload ev @ rest" by (simp add: ev_bytes_def)
  moreover have "byte_at 0 (ev_bytes ev @ rest) = oe_flags ev" "byte_at 1 (ev_bytes ev @ rest) = oe_model ev"
    "byte_at 2 (ev_bytes ev @ rest) = oe_category ev" "byte_at 3 (ev_bytes ev @ rest) = oe_value ev"
    by (simp_all add: byte_at_def ev_bytes_def)
  ultimately show ?thesis by (simp add: ev_at_def ev_header_size_def)
qed

text \<open>The size of an event needs only its flags and, if it is jumbo, the first four bytes of the payload.\<close>

lemma rd_u_append: "off + k \<le> length bs \<Longrightarrow> rd_u k off (bs @ rest) = rd_u k off bs"
  by (simp add: rd_u_def)

lemma ovni_payload_size_prefix:
  assumes "oe_flags e = oe_flags ev" and "oe_payload e = oe_payload ev @ rest"
    and "is_jumbo_flag ev \<Longrightarrow> 4 \<le> length (oe_payload ev)"
  shows "ovni_payload_size e = ovni_payload_size ev"
  using assms by (simp add: ovni_payload_size_def is_jumbo_flag_def get_jumbo_payload_size_def rd_u_append)

lemma ovni_payload_size_flags:
  "\<not> is_jumbo_flag ev \<Longrightarrow> uint (oe_flags ev AND 0x0f) = n \<Longrightarrow> ovni_payload_size ev = (if n = 0 then 0 else n + 1)"
  unfolding ovni_payload_size_def Let_def by (simp only: if_False)

lemma ovni_payload_size_normal:
  assumes "\<not> is_jumbo_flag ev"
  shows "ovni_payload_size ev = 0 \<or> (2 \<le> ovni_payload_size ev \<and> ovni_payload_size ev \<le> 16)"
proof -
  define n where "n = uint (oe_flags ev AND 0x0f)"
  have "n < 16" "0 \<le> n" by (simp_all add: n_def unsigned_and_eq)
  moreover have "ovni_payload_size ev = (if n = 0 then 0 else n + 1)"
    using ovni_payload_size_flags [OF assms n_def [symmetric]] .
  ultimately show ?thesis by simp
qed

lemma low_bits: "n < 16 \<Longrightarrow> (word_of_nat n :: byte) AND 0x0f = word_of_nat n"
proof -
  assume "n < 16"
  then have "n \<in> set [0..<16]" by simp
  moreover have "\<forall>n \<in> set [0..<16]. (word_of_nat n :: byte) AND 0x0f = word_of_nat n" by code_simp
  ultimately show ?thesis by blast
qed

lemma flags_size:
  fixes f :: byte
  assumes "n < 16"
  shows "((f AND 0xf0) OR (word_of_nat n AND 0x0f)) AND 0x0f = word_of_nat n"
    and "((f AND 0xf0) OR (word_of_nat n AND 0x0f)) AND 0x10 = f AND 0x10"
proof -
  have "((f AND 0xf0) OR (word_of_nat n AND 0x0f)) AND 0x0f = (f AND (0xf0 AND 0x0f)) OR (word_of_nat n AND (0x0f AND 0x0f))"
    by (simp only: bit.conj_disj_distrib2 and.assoc)
  then show "((f AND 0xf0) OR (word_of_nat n AND 0x0f)) AND 0x0f = word_of_nat n" using low_bits [OF assms] by simp
  have "((f AND 0xf0) OR (word_of_nat n AND 0x0f)) AND 0x10 = (f AND (0xf0 AND 0x10)) OR (word_of_nat n AND (0x0f AND 0x10))"
    by (simp only: bit.conj_disj_distrib2 and.assoc)
  then show "((f AND 0xf0) OR (word_of_nat n AND 0x0f)) AND 0x10 = f AND 0x10" by simp
qed

definition payload_added :: "byte list \<Rightarrow> ovni_ev \<Rightarrow> ovni_ev" where
  "payload_added buf ev =
     (let ps = nat (ovni_payload_size ev); m = ps + length buf in
      ev\<lparr>oe_payload := take ps (oe_payload ev) @ buf @ drop m (oe_payload ev),
         oe_flags := (oe_flags ev AND 0xf0) OR (word_of_nat (m - 1) AND 0x0f)\<rparr>)"

lemma ovni_payload_add_ok:
  assumes "\<not> is_jumbo_flag ev" and "length (oe_payload ev) = 16"
    and fit: "2 \<le> length buf" "ovni_payload_size ev + int (length buf) \<le> 16"
  shows "ovni_payload_add buf ev = Inr (payload_added buf ev)" "\<not> is_jumbo_flag (payload_added buf ev)"
    "ovni_payload_size (payload_added buf ev) = ovni_payload_size ev + int (length buf)"
    "length (oe_payload (payload_added buf ev)) = 16"
    "take (nat (ovni_payload_size ev) + length buf) (oe_payload (payload_added buf ev))
      = take (nat (ovni_payload_size ev)) (oe_payload ev) @ buf"
    "(payload_added buf ev)\<lparr>oe_flags := oe_flags ev, oe_payload := oe_payload ev\<rparr> = ev"
proof -
  let ?ps = "nat (ovni_payload_size ev)" and ?ev' = "payload_added buf ev"
  let ?m = "?ps + length buf"
  note ps = ovni_payload_size_normal [OF assms(1)] and d = payload_added_def [of buf ev, unfolded Let_def]
  have c: "c_size (ovni_payload_size ev) = ?ps" using ps by (intro c_size_id) auto
  have m: "2 \<le> ?m" "?m \<le> 16" using fit ps by auto
  then have m1: "?m - 1 < 16" by simp
  show jumbo: "\<not> is_jumbo_flag ?ev'"
    using flags_size(2) [OF m1] assms(1) by (simp add: d is_jumbo_flag_def OVNI_EV_JUMBO_def)
  have "uint (oe_flags ?ev' AND 0x0f) = int (?m - 1)"
    using flags_size(1) [OF m1, of "oe_flags ev"] m1 by (simp add: d unsigned_of_nat take_bit_nat_eq_self)
  then have "ovni_payload_size ?ev' = (if int (?m - 1) = 0 then 0 else int (?m - 1) + 1)"
    using ovni_payload_size_flags [of ?ev'] jumbo by blast
  moreover have "(if int (?m - 1) = 0 then 0 else int (?m - 1) + 1) = int ?m" using m(1) by auto
  ultimately show "ovni_payload_size ?ev' = ovni_payload_size ev + int (length buf)" using ps by auto
  show "ovni_payload_add buf ev = Inr ?ev'"
    using fit assms c m by (simp add: ovni_payload_add_def d Let_def)
  show "length (oe_payload ?ev') = 16" using m assms(2) by (simp add: d)
  show "take ?m (oe_payload ?ev') = take ?ps (oe_payload ev) @ buf" using m assms(2) by (simp add: d min_absorb2)
  show "?ev'\<lparr>oe_flags := oe_flags ev, oe_payload := oe_payload ev\<rparr> = ev" by (simp add: d)
qed

text \<open>Adding to the payload: the operation succeeds exactly on an event that is not jumbo when at least two bytes
  are added and they fit in the sixteen of the payload; then the new payload is the old one followed by the
  new bytes, and its size, which is kept in four bits of the flags, is the sum of both. Nothing else of the
  event changes.\<close>

theorem ovni_payload_add_size:
  assumes "\<not> is_jumbo_flag ev" and "length (oe_payload ev) = 16"
  shows "if 2 \<le> length buf \<and> ovni_payload_size ev + int (length buf) \<le> 16
    then \<exists>ev'. ovni_payload_add buf ev = Inr ev' \<and> \<not> is_jumbo_flag ev'
      \<and> ovni_payload_size ev' = ovni_payload_size ev + int (length buf) \<and> length (oe_payload ev') = 16
      \<and> take (nat (ovni_payload_size ev')) (oe_payload ev') = take (nat (ovni_payload_size ev)) (oe_payload ev) @ buf
      \<and> ev'\<lparr>oe_flags := oe_flags ev, oe_payload := oe_payload ev\<rparr> = ev
    else \<exists>e. ovni_payload_add buf ev = Inl (ERt e)"
proof (cases "2 \<le> length buf \<and> ovni_payload_size ev + int (length buf) \<le> 16")
  case True
  note ok = ovni_payload_add_ok [OF assms conjunct1 [OF True] conjunct2 [OF True]]
  have "nat (ovni_payload_size ev + int (length buf)) = nat (ovni_payload_size ev) + length buf"
    using ovni_payload_size_normal [OF assms(1)] by auto
  with True ok show ?thesis by auto
next
  case False
  have "c_size (ovni_payload_size ev) = nat (ovni_payload_size ev)"
    using ovni_payload_size_normal [OF assms(1)] by (intro c_size_id) auto
  with False show ?thesis using assms ovni_payload_size_normal [OF assms(1)]
    by (auto simp: ovni_payload_add_def Let_def)
qed

definition demo_ev :: ovni_ev where
  "demo_ev = ovni_ev_set_clock 77 (ovni_ev_set_mcv ''OHx''
     \<lparr>oe_flags = 0, oe_model = 0, oe_category = 0, oe_value = 0, oe_clock = 0, oe_payload = replicate 16 0\<rparr>)"

theorem ovni_payload_add_size_witness:
  "\<exists>ev'. ovni_payload_add [1, 2, 3] demo_ev = Inr ev' \<and> ovni_payload_size ev' = 3
     \<and> take 3 (oe_payload ev') = [1, 2, 3]"
proof -
  have d: "\<not> is_jumbo_flag demo_ev" "length (oe_payload demo_ev) = 16" "ovni_payload_size demo_ev = 0"
    by code_simp+
  from ovni_payload_add_size [OF d(1,2), of "[1, 2, 3]"] d(3) show ?thesis by auto
qed

end
