(* ===== verification/Ovni_Event.thy ===== *)
theory Ovni_Event
  imports Cpu Ev
begin

text \<open>
  The events of the base model: \<^verbatim>\<open>src/emu/ovni/event.c\<close>, and the types and events of user marks of
  \<^verbatim>\<open>src/emu/ovni/mark.c\<close>.

  The record \<open>emu\<close> adds to the system what the handlers read of \<^verbatim>\<open>struct emu\<close>: the current event and the
  addresses of the thread, process and loom it belongs to. The extension of a thread for the model \<open>O\<close> is
  \<open>em_ovni\<close>, its flush channel is at \<open>ModelChan t MODEL_O CH_FLUSH\<close> and its mark channels at \<open>MarkChan t i\<close>. The
  statistics of the bursts go to the log only and are left out.
\<close>

subsection \<open>State\<close>

record ovni_thread =
  ot_nbursts :: nat
  ot_burst_time :: "int list"
  ot_flush_start :: int

record mark_type =
  mk_type :: int
  mk_prvtype :: int
  mk_index :: nat
  mk_ctype :: chan_type
  mk_labels :: "(int \<times> string) list"
  mk_title :: string

record emu = sys_bay +
  em_ev :: emu_ev
  em_thread :: nat
  em_proc :: nat
  em_loom :: nat
  em_ovni :: "nat \<Rightarrow> ovni_thread"
  em_marks :: "mark_type list"

definition MODEL_O :: nat where "MODEL_O = 79"
definition CH_FLUSH :: nat where "CH_FLUSH = 0"
definition MAX_BURSTS :: nat where "MAX_BURSTS = 100"

text \<open>The payload of the current event; every handler checks the size before it reads it.\<close>

definition em_payload :: "'x emu_scheme \<Rightarrow> byte list" where
  "em_payload w = (case ev_payload (em_ev w) of None \<Rightarrow> [] | Some p \<Rightarrow> p)"

subsection \<open>Thread events\<close>

definition pre_thread_execute :: "nat \<Rightarrow> 'x emu_scheme \<Rightarrow> 'x emu_scheme res" where
  "pre_thread_execute t w =
     (if th_state (threads w t) = TH_ST_RUNNING then Inl (EThread ThreadRunning)
      else if ev_payload_size (em_ev w) < 4 then Inl (EEvent EvPayloadSize)
      else rbind (loom_get_cpu (em_loom w) (payload_i32 0 (em_payload w)) w) (\<lambda>cpu.
        case cpu of
          None \<Rightarrow> Inl (ECpu CpuNotFound)
        | Some c \<Rightarrow>
            rbind (thread_set_cpu t (Some c) w) (\<lambda>w1.
            rbind (thread_set_state t TH_ST_RUNNING w1) (\<lambda>w2.
            cpu_add_thread c t w2))))"

text \<open>An operation on \<^verbatim>\<open>th->cpu\<close>.\<close>

definition on_th_cpu :: "nat \<Rightarrow> (nat \<Rightarrow> 'x emu_scheme \<Rightarrow> 'x emu_scheme res) \<Rightarrow> 'x emu_scheme \<Rightarrow> 'x emu_scheme res" where
  "on_th_cpu t f w = (case th_cpu (threads w t) of None \<Rightarrow> Inl (EThread ThreadNoCpu) | Some c \<Rightarrow> f c w)"

definition pre_thread_end :: "nat \<Rightarrow> 'x emu_scheme \<Rightarrow> 'x emu_scheme res" where
  "pre_thread_end t w =
     (if th_state (threads w t) \<notin> {TH_ST_RUNNING, TH_ST_COOLING} then Inl (EThread ThreadBadState)
      else rbind (thread_set_state t TH_ST_DEAD w) (\<lambda>w1.
           rbind (on_th_cpu t (\<lambda>c. cpu_remove_thread c t) w1) (\<lambda>w2.
           thread_unset_cpu t w2)))"

definition pre_thread_pause :: "nat \<Rightarrow> 'x emu_scheme \<Rightarrow> 'x emu_scheme res" where
  "pre_thread_pause t w =
     (if th_state (threads w t) \<notin> {TH_ST_RUNNING, TH_ST_COOLING} then Inl (EThread ThreadBadState)
      else rbind (thread_set_state t TH_ST_PAUSED w) (on_th_cpu t cpu_update))"

definition pre_thread_resume :: "nat \<Rightarrow> 'x emu_scheme \<Rightarrow> 'x emu_scheme res" where
  "pre_thread_resume t w =
     (if th_state (threads w t) \<notin> {TH_ST_PAUSED, TH_ST_WARMING} then Inl (EThread ThreadBadState)
      else rbind (thread_set_state t TH_ST_RUNNING w) (on_th_cpu t cpu_update))"

definition pre_thread_cool :: "nat \<Rightarrow> 'x emu_scheme \<Rightarrow> 'x emu_scheme res" where
  "pre_thread_cool t w =
     (if th_state (threads w t) \<noteq> TH_ST_RUNNING then Inl (EThread ThreadBadState)
      else rbind (thread_set_state t TH_ST_COOLING w) (on_th_cpu t cpu_update))"

definition pre_thread_warm :: "nat \<Rightarrow> 'x emu_scheme \<Rightarrow> 'x emu_scheme res" where
  "pre_thread_warm t w =
     (if th_state (threads w t) \<noteq> TH_ST_PAUSED then Inl (EThread ThreadBadState)
      else rbind (thread_set_state t TH_ST_WARMING w) (on_th_cpu t cpu_update))"

definition pre_thread :: "'x emu_scheme \<Rightarrow> 'x emu_scheme res" where
  "pre_thread w =
     (let t = em_thread w; v = ev_v (em_ev w) in
      if v = char_byte CHR ''C'' then Inr w
      else if v = char_byte CHR ''x'' then pre_thread_execute t w
      else if v = char_byte CHR ''e'' then pre_thread_end t w
      else if v = char_byte CHR ''p'' then pre_thread_pause t w
      else if v = char_byte CHR ''r'' then pre_thread_resume t w
      else if v = char_byte CHR ''c'' then pre_thread_cool t w
      else if v = char_byte CHR ''w'' then pre_thread_warm t w
      else Inl (EEvent EvUnknownValue))"

subsection \<open>Affinity events\<close>

definition migrate :: "nat \<Rightarrow> nat \<Rightarrow> nat \<Rightarrow> 'x emu_scheme \<Rightarrow> 'x emu_scheme res" where
  "migrate t cpu newcpu w = rbind (cpu_migrate_thread cpu t newcpu w) (thread_migrate_cpu t newcpu)"

definition pre_affinity_set :: "'x emu_scheme \<Rightarrow> 'x emu_scheme res" where
  "pre_affinity_set w =
     (let t = em_thread w; th = threads w t in
      case th_cpu th of
        None \<Rightarrow> Inl (EThread ThreadNoCpu)
      | Some cpu \<Rightarrow>
          if \<not> th_is_active th then Inl (EThread ThreadNotActive)
          else if ev_payload_size (em_ev w) \<noteq> 4 then Inl (EEvent EvPayloadSize)
          else rbind (loom_get_cpu (em_loom w) (payload_i32 0 (em_payload w)) w) (\<lambda>newcpu.
            case newcpu of
              None \<Rightarrow> Inl (ECpu CpuNotFound)
            | Some c \<Rightarrow> if cpu = c then Inr w else migrate t cpu c w))"

definition pre_affinity_remote :: "'x emu_scheme \<Rightarrow> 'x emu_scheme res" where
  "pre_affinity_remote w =
     (if ev_payload_size (em_ev w) \<noteq> 8 then Inl (EEvent EvPayloadSize)
      else let index = payload_i32 0 (em_payload w); tid = payload_i32 1 (em_payload w);
               remote = (case proc_find_thread (em_proc w) tid w of
                           Some t \<Rightarrow> Some t
                         | None \<Rightarrow> loom_find_thread (em_loom w) tid w) in
      case remote of
        None \<Rightarrow> Inl (EThread ThreadNotFound)
      | Some t \<Rightarrow>
          if th_state (threads w t) = TH_ST_DEAD then Inl (EThread ThreadDead)
          else if th_state (threads w t) = TH_ST_UNKNOWN then Inl (EThread ThreadUnknown)
          else case th_cpu (threads w t) of
            None \<Rightarrow> Inl (EThread ThreadNoCpu)
          | Some cpu \<Rightarrow>
              rbind (loom_get_cpu (em_loom w) index w) (\<lambda>newcpu.
                case newcpu of
                  None \<Rightarrow> Inl (ECpu CpuNotFound)
                | Some c \<Rightarrow> migrate t cpu c w))"

definition pre_affinity :: "'x emu_scheme \<Rightarrow> 'x emu_scheme res" where
  "pre_affinity w =
     (let v = ev_v (em_ev w) in
      if v = char_byte CHR ''s'' then pre_affinity_set w
      else if v = char_byte CHR ''r'' then pre_affinity_remote w
      else Inl (EEvent EvUnknownValue))"

subsection \<open>Other events\<close>

definition pre_cpu :: "'x emu_scheme \<Rightarrow> 'x emu_scheme res" where
  "pre_cpu w = (if ev_v (em_ev w) = char_byte CHR ''n'' then Inr w else Inl (EEvent EvUnknownValue))"

definition pre_burst :: "'x emu_scheme \<Rightarrow> 'x emu_scheme res" where
  "pre_burst w =
     (let t = em_thread w; th = em_ovni w t in
      if ot_nbursts th \<ge> MAX_BURSTS then Inl (EEvent EvTooManyBursts)
      else let th1 = th\<lparr>ot_burst_time := (ot_burst_time th)[ot_nbursts th := ev_dclock (em_ev w)],
                        ot_nbursts := Suc (ot_nbursts th)\<rparr>;
               th2 = (if ot_nbursts th1 \<noteq> MAX_BURSTS then th1 else th1\<lparr>ot_nbursts := 0\<rparr>)
           in Inr (w\<lparr>em_ovni := (em_ovni w)(t := th2)\<rparr>))"

definition pre_flush :: "'x emu_scheme \<Rightarrow> 'x emu_scheme res" where
  "pre_flush w =
     (let t = em_thread w; flush = ModelChan t MODEL_O CH_FLUSH; v = ev_v (em_ev w) in
      if v = char_byte CHR ''['' then
        rbind (chan_set_at flush (VALUE_INT64 1) w) (\<lambda>w1.
          Inr (w1\<lparr>em_ovni := (em_ovni w1)(t := (em_ovni w1 t)\<lparr>ot_flush_start := ev_dclock (em_ev w1)\<rparr>)\<rparr>))
      else if v = char_byte CHR '']'' then chan_set_at flush VALUE_NULL w
      else Inl (EEvent EvUnknownValue))"

definition find_mark_type :: "int \<Rightarrow> mark_type list \<Rightarrow> mark_type option" where
  "find_mark_type type ms = find (\<lambda>m. mk_type m = type) ms"

definition mark_event :: "'x emu_scheme \<Rightarrow> 'x emu_scheme res" where
  "mark_event w =
     (if ev_payload_size (em_ev w) \<noteq> 8 + 4 then Inl (EEvent EvPayloadSize)
      else let val = payload_i64 0 (em_payload w); type = payload_i32 2 (em_payload w) in
      case find_mark_type type (em_marks w) of
        None \<Rightarrow> Inl (EEvent EvMarkNotFound)
      | Some mc \<Rightarrow>
          if val = 0 then Inl (EEvent EvMarkZero)
          else let ch = MarkChan (em_thread w) (mk_index mc); v = ev_v (em_ev w) in
            if v = char_byte CHR ''['' then chan_push_at ch (VALUE_INT64 val) w
            else if v = char_byte CHR '']'' then chan_pop_at ch (VALUE_INT64 val) w
            else if v = char_byte CHR ''='' then chan_set_at ch (VALUE_INT64 val) w
            else Inl (EEvent EvUnknownValue))"

definition model_ovni_event :: "'x emu_scheme \<Rightarrow> 'x emu_scheme res" where
  "model_ovni_event w =
     (let ev = em_ev w; c = ev_c ev in
      if ev_m ev \<noteq> char_byte CHR ''O'' then Inl (EEvent EvUnknownModel)
      else if th_is_out_of_cpu (threads w (em_thread w)) then Inl (EThread ThreadOutOfCpu)
      else if c = char_byte CHR ''H'' then pre_thread w
      else if c = char_byte CHR ''A'' then pre_affinity w
      else if c = char_byte CHR ''B'' then pre_burst w
      else if c = char_byte CHR ''C'' then pre_cpu w
      else if c = char_byte CHR ''F'' then pre_flush w
      else if c = char_byte CHR ''U'' then Inr w
      else if c = char_byte CHR ''M'' then mark_event w
      else Inl (EEvent EvUnknownCategory))"

subsection \<open>Adding and removing threads\<close>

lemma cpu_add_thread_ok:
  assumes "cpu_add_thread c t w = Inr w'"
  shows "t \<notin> set (cp_threads (cpus w c)) \<and> threads w' = threads w \<and> cpu_counts c w'
    \<and> cp_threads (cpus w' c) = cp_threads (cpus w c) @ [t] \<and> cp_nthreads (cpus w' c) = Suc (cp_nthreads (cpus w c))
    \<and> (\<forall>d. d \<noteq> c \<longrightarrow> cpus w' d = cpus w d)"
proof -
  let ?cp = "(cpus w c)\<lparr>cp_threads := cp_threads (cpus w c) @ [t], cp_nthreads := Suc (cp_nthreads (cpus w c))\<rparr>"
  from assms have "find_thread c t w = None" and "cpu_update c (put_cpu c ?cp w) = Inr w'"
    by (auto simp: cpu_add_thread_def Let_def split: if_splits)
  with cpu_update_ok [of c "put_cpu c ?cp w" w'] show ?thesis by (auto simp: find_thread_iff)
qed

lemma cpu_remove_thread_ok:
  assumes "cpu_remove_thread c t w = Inr w'"
  shows "t \<in> set (cp_threads (cpus w c)) \<and> threads w' = threads w \<and> cpu_counts c w'
    \<and> cp_threads (cpus w' c) = remove1 t (cp_threads (cpus w c)) \<and> cp_nthreads (cpus w' c) = cp_nthreads (cpus w c) - 1
    \<and> (\<forall>d. d \<noteq> c \<longrightarrow> cpus w' d = cpus w d)"
proof -
  let ?cp = "(cpus w c)\<lparr>cp_threads := remove1 t (cp_threads (cpus w c)), cp_nthreads := cp_nthreads (cpus w c) - 1\<rparr>"
  from assms have "find_thread c t w \<noteq> None" and "cpu_update c (put_cpu c ?cp w) = Inr w'"
    by (auto simp: cpu_remove_thread_def Let_def split: if_splits)
  with cpu_update_ok [of c "put_cpu c ?cp w" w'] show ?thesis by (auto simp: find_thread_iff)
qed

text \<open>A change of one thread that keeps the lists of the CPUs it leaves and enters up to date keeps the
  invariant of the system.\<close>

lemma sys_wf_move:
  assumes wf: "sys_wf w" and th: "threads w' = (threads w)(t := th')" "thread_ok th'"
    and same: "\<And>c. Some c \<noteq> th_cpu (threads w t) \<Longrightarrow> Some c \<noteq> th_cpu th' \<Longrightarrow> cpus w' c = cpus w c"
    and lists: "\<And>c. Some c = th_cpu (threads w t) \<or> Some c = th_cpu th' \<Longrightarrow>
      distinct (cp_threads (cpus w' c)) \<and> cp_nthreads (cpus w' c) = length (cp_threads (cpus w' c))
      \<and> set (cp_threads (cpus w' c)) = {x. th_cpu (threads w' x) = Some c} \<and> cpu_counts c w'"
  shows "sys_wf w'"
proof -
  have old: "distinct (cp_threads (cpus w c)) \<and> cp_nthreads (cpus w c) = length (cp_threads (cpus w c))"
    "t' \<in> set (cp_threads (cpus w c)) \<longleftrightarrow> th_cpu (threads w t') = Some c" "thread_ok (threads w t')" "cpu_counts c w" for c t'
    using wf by (auto simp: sys_wf_def cpu_lists_def)
  have one: "distinct (cp_threads (cpus w' c)) \<and> cp_nthreads (cpus w' c) = length (cp_threads (cpus w' c))
      \<and> set (cp_threads (cpus w' c)) = {x. th_cpu (threads w' x) = Some c} \<and> cpu_counts c w'" for c
  proof (cases "Some c = th_cpu (threads w t) \<or> Some c = th_cpu th'")
    case True
    then show ?thesis by (rule lists)
  next
    case False
    then have c: "cpus w' c = cpus w c" using same by blast
    have "t \<notin> set (cp_threads (cpus w c))" using old(2) False by auto
    then have "cpu_counts c w' = cpu_counts c w" by (intro cpu_counts_cong c) (auto simp: th)
    moreover have "set (cp_threads (cpus w c)) = {x. th_cpu (threads w' x) = Some c}"
      using False old(2) by (auto simp: th)
    ultimately show ?thesis using c old by simp
  qed
  have "thread_ok (threads w' x)" for x using old(3) th by (cases "x = t") simp_all
  with one show ?thesis by (auto simp: sys_wf_def cpu_lists_def)
qed

lemma sys_wf_same: "sys_wf w \<Longrightarrow> threads w' = threads w \<Longrightarrow> cpus w' = cpus w \<Longrightarrow> sys_wf w'"
  unfolding sys_wf_def cpu_lists_def cpu_counts_def by simp

lemma sys_wf_lists:
  assumes "sys_wf w"
  shows "distinct (cp_threads (cpus w c))" "cp_nthreads (cpus w c) = length (cp_threads (cpus w c))"
    "set (cp_threads (cpus w c)) = {x. th_cpu (threads w x) = Some c}" "thread_ok (threads w t)"
  using assms by (auto simp: sys_wf_def cpu_lists_def)

subsection \<open>The handlers keep the invariant\<close>

lemma pre_thread_execute_wf:
  assumes wf: "sys_wf w" and ok: "pre_thread_execute t w = Inr w'"
  shows "sys_wf w'"
proof -
  obtain c w1 w2 where s1: "thread_set_cpu t (Some c) w = Inr w1" and s2: "thread_set_state t TH_ST_RUNNING w1 = Inr w2"
    and s3: "cpu_add_thread c t w2 = Inr w'"
    using ok by (auto simp: pre_thread_execute_def split: if_splits option.splits)
  note f = thread_cpu_threads(1) [OF s1] thread_set_state_threads [OF s2] cpu_add_thread_ok [OF s3]
  note l = sys_wf_lists [OF wf]
  show ?thesis
  proof (rule sys_wf_move [OF wf])
    show "threads w' = (threads w)(t := (threads w t)\<lparr>th_cpu := Some c, th_state := TH_ST_RUNNING,
        th_is_running := True, th_is_active := True\<rparr>)"
      using f by (auto simp: th_state_active_def)
    show "thread_ok ((threads w t)\<lparr>th_cpu := Some c, th_state := TH_ST_RUNNING,
        th_is_running := True, th_is_active := True\<rparr>)" by (simp add: thread_ok_def th_state_active_def)
  qed (use f l in auto)
qed

lemma pre_thread_end_wf:
  assumes wf: "sys_wf w" and ok: "pre_thread_end t w = Inr w'"
  shows "sys_wf w'"
proof -
  obtain c w1 w2 where s1: "thread_set_state t TH_ST_DEAD w = Inr w1" and c: "th_cpu (threads w1 t) = Some c"
    and s2: "cpu_remove_thread c t w1 = Inr w2" and s3: "thread_unset_cpu t w2 = Inr w'"
    using ok by (auto simp: pre_thread_end_def on_th_cpu_def split: if_splits option.splits)
  note f = thread_set_state_threads [OF s1] cpu_remove_thread_ok [OF s2] thread_cpu_threads(2) [OF s3]
  note l = sys_wf_lists [OF wf]
  show ?thesis
  proof (rule sys_wf_move [OF wf])
    show "threads w' = (threads w)(t := (threads w t)\<lparr>th_cpu := None, th_state := TH_ST_DEAD,
        th_is_running := False, th_is_active := False\<rparr>)"
      using f by (auto simp: th_state_active_def)
    show "thread_ok ((threads w t)\<lparr>th_cpu := None, th_state := TH_ST_DEAD,
        th_is_running := False, th_is_active := False\<rparr>)" by (simp add: thread_ok_def th_state_active_def)
    have "cpu_counts c w' = cpu_counts c w2"
      by (rule cpu_counts_cong) (use f l in auto)
    then show "distinct (cp_threads (cpus w' d)) \<and> cp_nthreads (cpus w' d) = length (cp_threads (cpus w' d))
      \<and> set (cp_threads (cpus w' d)) = {x. th_cpu (threads w' x) = Some d} \<and> cpu_counts d w'"
      if "Some d = th_cpu (threads w t) \<or> Some d = th_cpu ((threads w t)\<lparr>th_cpu := None, th_state := TH_ST_DEAD,
        th_is_running := False, th_is_active := False\<rparr>)" for d
      using that c f l by (auto simp: length_remove1)
  qed (use f l c in auto)
qed

text \<open>The four events that change the state of a thread on its CPU.\<close>

lemma state_change_wf:
  assumes wf: "sys_wf w" and st: "st \<noteq> TH_ST_UNKNOWN" "st \<noteq> TH_ST_DEAD"
    and ok: "rbind (thread_set_state t st w) (on_th_cpu t cpu_update) = Inr w'"
  shows "sys_wf w'"
proof -
  from ok obtain w1 c where s: "thread_set_state t st w = Inr w1" and c: "th_cpu (threads w1 t) = Some c"
    and u: "cpu_update c w1 = Inr w'"
    by (auto simp: on_th_cpu_def split: option.splits)
  from c thread_set_state_threads [OF s] have "th_cpu (threads w t) = Some c" by simp
  from thread_state_update_wf [OF wf st s this u] show ?thesis .
qed

lemma pre_thread_wf:
  assumes "sys_wf w" and "pre_thread w = Inr w'"
  shows "sys_wf w'"
  using assms pre_thread_execute_wf [of w _ w'] pre_thread_end_wf [of w _ w']
    state_change_wf [of w TH_ST_PAUSED _ w'] state_change_wf [of w TH_ST_RUNNING _ w']
    state_change_wf [of w TH_ST_COOLING _ w'] state_change_wf [of w TH_ST_WARMING _ w']
  unfolding pre_thread_def Let_def pre_thread_pause_def pre_thread_resume_def pre_thread_cool_def
    pre_thread_warm_def
  by (simp only: split: if_splits) (blast dest: sum.inject(2) [THEN iffD1])+

lemma migrate_wf:
  assumes wf: "sys_wf w" and old: "th_cpu (threads w t) = Some cpu" and ok: "migrate t cpu c w = Inr w'"
  shows "sys_wf w'"
proof -
  obtain w1 w2 where s1: "cpu_remove_thread cpu t w = Inr w1" and s2: "cpu_add_thread c t w1 = Inr w2"
    and s3: "thread_migrate_cpu t c w2 = Inr w'"
    using ok by (auto simp: migrate_def cpu_migrate_thread_def)
  note f = cpu_remove_thread_ok [OF s1] cpu_add_thread_ok [OF s2] thread_cpu_threads(3) [OF s3]
  note l = sys_wf_lists [OF wf]
  have st: "th_state (threads w' x) = th_state (threads w x)" for x using f by auto
  have counts: "cpu_counts d w'" if "d = cpu \<or> d = c" for d
  proof -
    have "cpu_counts d w' = cpu_counts d w2" by (rule cpu_counts_cong) (use f in auto)
    moreover have "cpu_counts cpu w2 = cpu_counts cpu w1" if "cpu \<noteq> c"
      by (rule cpu_counts_cong) (use f that in auto)
    ultimately show ?thesis using that f by auto
  qed
  show ?thesis
  proof (rule sys_wf_move [OF wf])
    show "threads w' = (threads w)(t := (threads w t)\<lparr>th_cpu := Some c\<rparr>)" using f by simp
    show "thread_ok ((threads w t)\<lparr>th_cpu := Some c\<rparr>)" using l(4) [of t] old by (simp add: thread_ok_def)
    show "distinct (cp_threads (cpus w' d)) \<and> cp_nthreads (cpus w' d) = length (cp_threads (cpus w' d))
      \<and> set (cp_threads (cpus w' d)) = {x. th_cpu (threads w' x) = Some d} \<and> cpu_counts d w'"
      if "Some d = th_cpu (threads w t) \<or> Some d = th_cpu ((threads w t)\<lparr>th_cpu := Some c\<rparr>)" for d
      using that counts [of d] old f l(1-3) [of d] l(1-3) [of cpu]
      by (cases "d = c"; cases "d = cpu") (auto simp: length_remove1 Suc_pred dest: length_pos_if_in_set)
  qed (use f old in auto)
qed

lemma pre_affinity_wf:
  assumes "sys_wf w" and "pre_affinity w = Inr w'"
  shows "sys_wf w'"
  using assms migrate_wf [OF assms(1), where w' = w']
  by (auto simp: pre_affinity_def pre_affinity_set_def pre_affinity_remote_def Let_def
      split: if_splits option.splits)

text \<open>The other events touch neither threads nor CPUs.\<close>

lemma chan_push_at_more: "chan_push_at c v w = Inr w' \<Longrightarrow> bay.more w' = bay.more w"
  by (auto simp: chan_push_at_def chan_push_def set_dirty_def put_chan_def cb_chan_is_dirty_def Let_def
      split: if_splits list.splits)

lemma chan_pop_at_more: "chan_pop_at c v w = Inr w' \<Longrightarrow> bay.more w' = bay.more w"
  by (auto simp: chan_pop_at_def chan_pop_def set_dirty_def put_chan_def cb_chan_is_dirty_def Let_def
      split: if_splits list.splits)

lemma chan_at_sys:
  fixes w :: "'x sys_bay_scheme"
  shows "chan_push_at c v w = Inr w' \<Longrightarrow> threads w' = threads w \<and> cpus w' = cpus w"
    and "chan_pop_at c v w = Inr w' \<Longrightarrow> threads w' = threads w \<and> cpus w' = cpus w"
  using more_sys [OF chan_push_at_more] more_sys [OF chan_pop_at_more] by blast+

lemma pre_other_frame:
  shows "pre_burst w = Inr w' \<Longrightarrow> threads w' = threads w \<and> cpus w' = cpus w"
    and "pre_cpu w = Inr w' \<Longrightarrow> threads w' = threads w \<and> cpus w' = cpus w"
    and "pre_flush w = Inr w' \<Longrightarrow> threads w' = threads w \<and> cpus w' = cpus w"
    and "mark_event w = Inr w' \<Longrightarrow> threads w' = threads w \<and> cpus w' = cpus w"
  by (auto simp: pre_burst_def pre_cpu_def pre_flush_def mark_event_def Let_def chan_set_at_sys
      split: if_splits option.splits dest: chan_at_sys)

lemma model_ovni_event_keeps:
  assumes "sys_wf w" and "model_ovni_event w = Inr w'"
  shows "sys_wf w'"
  using assms pre_thread_wf [OF assms(1), of w'] pre_affinity_wf [OF assms(1), of w'] pre_other_frame [of w w']
    sys_wf_same [OF assms(1), of w']
  unfolding model_ovni_event_def Let_def by (simp only: split: if_splits) blast+

subsection \<open>The state machine of threads\<close>

text \<open>The transitions of the diagram of the documentation, and two more that the code has: a cooling thread may
  end, and a dead one execute again.\<close>

definition th_next :: "thread_state \<Rightarrow> thread_state \<Rightarrow> bool" where
  "th_next a b \<longleftrightarrow> (a, b) \<in> {(TH_ST_UNKNOWN, TH_ST_RUNNING), (TH_ST_RUNNING, TH_ST_COOLING),
     (TH_ST_COOLING, TH_ST_PAUSED), (TH_ST_RUNNING, TH_ST_PAUSED), (TH_ST_PAUSED, TH_ST_RUNNING),
     (TH_ST_PAUSED, TH_ST_WARMING), (TH_ST_WARMING, TH_ST_RUNNING), (TH_ST_RUNNING, TH_ST_DEAD),
     (TH_ST_COOLING, TH_ST_DEAD), (TH_ST_DEAD, TH_ST_RUNNING)}"

definition th_moves :: "nat \<Rightarrow> 'x sys_bay_scheme \<Rightarrow> 'x sys_bay_scheme \<Rightarrow> bool" where
  "th_moves t w w' \<longleftrightarrow> (\<forall>x. x \<noteq> t \<longrightarrow> th_state (threads w' x) = th_state (threads w x))
     \<and> th_next (th_state (threads w t)) (th_state (threads w' t))"

lemma state_change_moves:
  assumes "rbind (thread_set_state t st w) (on_th_cpu t cpu_update) = Inr w'"
    and "th_next (th_state (threads w t)) st"
  shows "th_moves t w w'"
proof -
  from assms obtain w1 c where s: "thread_set_state t st w = Inr w1" and u: "cpu_update c w1 = Inr w'"
    by (auto simp: on_th_cpu_def split: option.splits)
  from thread_set_state_threads [OF s] cpu_update_ok [OF u] assms(2) show ?thesis by (simp add: th_moves_def)
qed

lemma pre_thread_execute_moves:
  assumes "sys_wf w" and "pre_thread_execute t w = Inr w'"
  shows "th_moves t w w'"
proof -
  obtain c w1 w2 where s1: "thread_set_cpu t (Some c) w = Inr w1" and s2: "thread_set_state t TH_ST_RUNNING w1 = Inr w2"
    and s3: "cpu_add_thread c t w2 = Inr w'"
    using assms(2) by (auto simp: pre_thread_execute_def split: if_splits option.splits)
  from thread_cpu_threads(1) [OF s1] thread_set_state_threads [OF s2] cpu_add_thread_ok [OF s3]
    sys_wf_lists(4) [OF assms(1), of t]
  show ?thesis by (auto simp: th_moves_def thread_ok_def th_next_def)
qed

lemma pre_thread_end_moves:
  assumes "pre_thread_end t w = Inr w'"
  shows "th_moves t w w'"
proof -
  obtain c w1 w2 where s1: "thread_set_state t TH_ST_DEAD w = Inr w1" and s2: "cpu_remove_thread c t w1 = Inr w2"
    and s3: "thread_unset_cpu t w2 = Inr w'" and st: "th_state (threads w t) \<in> {TH_ST_RUNNING, TH_ST_COOLING}"
    using assms by (auto simp: pre_thread_end_def on_th_cpu_def split: if_splits option.splits)
  from thread_set_state_threads [OF s1] cpu_remove_thread_ok [OF s2] thread_cpu_threads(2) [OF s3] st
  show ?thesis by (auto simp: th_moves_def th_next_def)
qed

lemma pre_thread_moves:
  assumes "sys_wf w" and "pre_thread w = Inr w'"
  shows "w' = w \<or> th_moves (em_thread w) w w'"
  using assms pre_thread_execute_moves [OF assms(1), of _ w'] pre_thread_end_moves [of _ w w']
    state_change_moves [of _ TH_ST_PAUSED w w'] state_change_moves [of _ TH_ST_RUNNING w w']
    state_change_moves [of _ TH_ST_COOLING w w'] state_change_moves [of _ TH_ST_WARMING w w']
  by (auto simp: pre_thread_def Let_def pre_thread_pause_def pre_thread_resume_def pre_thread_cool_def
      pre_thread_warm_def th_next_def simp del: rbind_eq_Inr split: if_splits)

lemma pre_affinity_states:
  assumes "pre_affinity w = Inr w'"
  shows "th_state (threads w' x) = th_state (threads w x)"
proof -
  have "th_state (threads w' x) = th_state (threads w x)" if m: "migrate t cpu c w = Inr w'" for t cpu c
  proof -
    obtain w1 w2 where s1: "cpu_remove_thread cpu t w = Inr w1" and s2: "cpu_add_thread c t w1 = Inr w2"
      and s3: "thread_migrate_cpu t c w2 = Inr w'"
      using m by (auto simp: migrate_def cpu_migrate_thread_def)
    from cpu_remove_thread_ok [OF s1] cpu_add_thread_ok [OF s2] thread_cpu_threads(3) [OF s3] show ?thesis by auto
  qed
  with assms show ?thesis
    by (auto simp: pre_affinity_def pre_affinity_set_def pre_affinity_remote_def Let_def
      split: if_splits option.splits)
qed

lemma running_unique:
  assumes "sys_wf w" and "\<not> cp_is_virtual (cpus w c)" and "th_cpu (threads w t) = Some c" "th_cpu (threads w u) = Some c"
    and "th_state (threads w t) = TH_ST_RUNNING" "th_state (threads w u) = TH_ST_RUNNING"
  shows "t = u"
proof -
  let ?run = "running_in (threads w) (cp_threads (cpus w c))"
  have "length ?run \<le> 1" using assms(1,2) by (auto simp: sys_wf_def cpu_counts_def Let_def)
  moreover have "t \<in> set ?run" "u \<in> set ?run" using assms sys_wf_lists(3) [OF assms(1), of c] by (auto simp: running_in_def)
  ultimately show ?thesis by (cases ?run; cases "tl ?run") auto
qed

text \<open>C5. The invariant of the emulated system holds across every event of the base model: each thread is in the
  list of the CPU it is assigned to and in no other, its flags follow its state, the counters and pointers of
  each CPU tell which of its threads run, and two running threads are never on the same physical CPU.\<close>

theorem ovni_event_system_invariant:
  assumes "sys_wf w" and "model_ovni_event w = Inr w'"
  shows "sys_wf w' \<and> (\<forall>c t u. \<not> cp_is_virtual (cpus w' c) \<and> th_cpu (threads w' t) = Some c
      \<and> th_cpu (threads w' u) = Some c \<and> th_state (threads w' t) = TH_ST_RUNNING
      \<and> th_state (threads w' u) = TH_ST_RUNNING \<longrightarrow> t = u)"
proof -
  have wf: "sys_wf w'" using model_ovni_event_keeps [OF assms] .
  then show ?thesis using running_unique by blast
qed


text \<open>Thread 0, which is dead, executes on the CPU of index 0; another is paused.\<close>

definition demo_event :: "string \<Rightarrow> byte list \<Rightarrow> emu_ev" where
  "demo_event mcv p = \<lparr>ev_m = char_byte (mcv ! 0), ev_c = char_byte (mcv ! 1), ev_v = char_byte (mcv ! 2),
     ev_rclock = 0, ev_sclock = 0, ev_dclock = 0, ev_has_payload = (p \<noteq> []), ev_payload_size = length p,
     ev_is_jumbo = False, ev_payload = (if p = [] then None else Some p)\<rparr>"

definition demo_emu_sys :: emu where
  "demo_emu_sys = sys_bay.extend
     (put_loom 0 ((looms demo_sys1 0)\<lparr>lm_ncpus := 1, lm_cpus_array := Some [Some 4]\<rparr>)
       (put_thread 0 ((threads demo_sys1 0)\<lparr>th_state := TH_ST_DEAD\<rparr>) demo_sys1))
     \<lparr>em_ev = demo_event ''OHx'' [0, 0, 0, 0], em_thread = 0, em_proc = 0, em_loom = 0,
      em_ovni = (\<lambda>_. \<lparr>ot_nbursts = 0, ot_burst_time = [], ot_flush_start = 0\<rparr>), em_marks = []\<rparr>"

lemma demo_emu_sys_wf: "sys_wf demo_emu_sys"
proof -
  have t: "th_cpu (threads demo_emu_sys t) = None \<and> thread_ok (threads demo_emu_sys t)" for t
    by (simp add: demo_emu_sys_def sys_bay.defs bay.defs put_thread_def put_loom_def demo_sys1_def demo_sys0_def
        thread_ok_def th_state_active_def)
  have "cpus demo_emu_sys c = cpu_init_begin 0 0 False" for c
    by (simp add: demo_emu_sys_def sys_bay.defs bay.defs put_thread_def put_loom_def demo_sys1_def demo_sys0_def)
  with t show ?thesis
    by (simp add: sys_wf_def cpu_lists_def cpu_counts_def running_in_def active_in_def the_only_def
      cpu_init_begin_def Let_def)
qed

lemma demo_emu_sys_step:
  "\<exists>w'. model_ovni_event demo_emu_sys = Inr w' \<and> th_cpu (threads w' 0) = Some 4
     \<and> th_state (threads w' 0) = TH_ST_RUNNING"
proof -
  have "res_get (\<lambda>w. (th_cpu (threads w 0), th_state (threads w 0))) (model_ovni_event demo_emu_sys)
      = Some (Some 4, TH_ST_RUNNING)"
    by code_simp
  then show ?thesis by (auto simp: res_get_Some)
qed

theorem ovni_event_system_invariant_witness:
  "\<exists>w'. model_ovni_event demo_emu_sys = Inr w' \<and> sys_wf w' \<and> th_state (threads w' 0) = TH_ST_RUNNING"
  using demo_emu_sys_step ovni_event_system_invariant [OF demo_emu_sys_wf] by blast


end
