(* ===== verification/Task_Model.thy ===== *)
theory Task_Model
  imports Ovni_Event Task
begin

text \<open>
  What the models of the programming runtimes share: \<^verbatim>\<open>event.c\<close> of \<^verbatim>\<open>src/emu/nosv\<close>, \<^verbatim>\<open>src/emu/nanos6\<close> and
  \<^verbatim>\<open>src/emu/openmp\<close> repeat the same functions with other channels and constants.

  The record \<open>temu\<close> adds to the emulator the tasks of all models: the tables of a process for a model are named by
  \<open>InfoRef\<close>, the stack of a thread by \<open>StackRef\<close>. The channel \<^verbatim>\<open>i\<close> of a model for a thread is at
  \<open>ModelChan t m i\<close>. A table of subsystem events is the list of its entries. A transition is the byte of the event value,
  with \<open>X\<close> and \<open>E\<close> for the nested ones.
\<close>

subsection \<open>State and tables\<close>

record temu = emu +
  em_tasks :: task_world
  em_nhwc :: nat \<comment> \<open>\<^verbatim>\<open>hwc_emu->n\<close>, the hardware counters of nOS-V\<close>
  em_xtasks_on :: bool \<comment> \<open>the static variable \<^verbatim>\<open>enabled\<close> of \<^verbatim>\<open>model_xtasks_event\<close>\<close>

datatype ss_action = ACT_PUSH | ACT_POP | ACT_SET | ACT_IGN

type_synonym ss_entry = "nat \<times> ss_action \<times> int"
type_synonym ss_table = "((char \<times> char) \<times> ss_entry) list"

definition ss_lookup :: "ss_table \<Rightarrow> byte \<Rightarrow> byte \<Rightarrow> ss_entry option" where
  "ss_lookup tbl c v =
     map_option snd (find (\<lambda>e. char_byte (fst (fst e)) = c \<and> char_byte (snd (fst e)) = v) tbl)"

text \<open>An event of a table: an absent entry is all zeros, which is no action.\<close>

definition simple_event :: "nat \<Rightarrow> ss_table \<Rightarrow> 'x temu_scheme \<Rightarrow> 'x temu_scheme res" where
  "simple_event m tbl w =
     (case ss_lookup tbl (ev_c (em_ev w)) (ev_v (em_ev w)) of
        None \<Rightarrow> Inl (EEvent EvUnknownValue)
      | Some (chind, act, st) \<Rightarrow>
          let ch = ModelChan (em_thread w) m chind; v = VALUE_INT64 st in
          (case act of
             ACT_PUSH \<Rightarrow> chan_push_at ch v w
           | ACT_POP \<Rightarrow> chan_pop_at ch v w
           | ACT_SET \<Rightarrow> chan_set_at ch v w
           | ACT_IGN \<Rightarrow> Inr w))"

definition on_tasks :: "(task_world \<Rightarrow> task_world res) \<Rightarrow> 'x temu_scheme \<Rightarrow> 'x temu_scheme res" where
  "on_tasks f w = rbind (f (em_tasks w)) (\<lambda>tw. Inr (w\<lparr>em_tasks := tw\<rparr>))"

text \<open>Several \<^verbatim>\<open>chan_set\<close> on channels of the model and of the current thread, in order, until one fails.\<close>

definition set_chans :: "nat \<Rightarrow> (nat \<times> chval) list \<Rightarrow> 'x temu_scheme \<Rightarrow> 'x temu_scheme res" where
  "set_chans m cvs w = foldr_res (\<lambda>(i, v). chan_set_at (ModelChan (em_thread w) m i) v) cvs w"

subsection \<open>Task types\<close>

text \<open>The label is a C string in the bytes of the trace. The code does not look where the event ends; running out of the
  bytes of the stream is the error \<open>EvOutOfBounds\<close>.\<close>

definition c_string :: "byte list \<Rightarrow> string" where
  "c_string bs = map (\<lambda>b. char_of (unat b)) (takeWhile (\<lambda>b. b \<noteq> 0) bs)"

definition pre_type :: "(string \<Rightarrow> 32 word) \<Rightarrow> nat \<Rightarrow> 'x temu_scheme \<Rightarrow> 'x temu_scheme res" where
  "pre_type hash m w =
     (let p = em_payload w in
      if ev_v (em_ev w) \<noteq> char_byte CHR ''c'' then Inl (EEvent EvUnknownValue)
      else if \<not> ev_is_jumbo (em_ev w) then Inl (EEvent EvNotJumbo)
      else if 0 \<notin> set (drop 8 p) then Inl (EEvent EvOutOfBounds)
      else on_tasks (task_type_create hash (InfoRef m (em_proc w)) (word_of_nat (payload_u32 1 p))
             (c_string (drop 8 p))) w)"

subsection \<open>Running tasks\<close>

definition payload_id :: "nat \<Rightarrow> 'x emu_scheme \<Rightarrow> 32 word" where
  "payload_id i w = word_of_nat (payload_u32 i (em_payload w))"

text \<open>\<^verbatim>\<open>task->type->gid\<close> of a known task.\<close>

definition task_gid :: "task_ref \<Rightarrow> task_world \<Rightarrow> 32 word option" where
  "task_gid t tw = (case t of TaskRef info _ \<Rightarrow>
     (case task_get t tw of
        None \<Rightarrow> None
      | Some tk \<Rightarrow> map_option tt_gid (task_type_find info (tk_type tk) tw)))"

fun body_task :: "body_ref \<Rightarrow> task_ref" where "body_task (BodyRef t i) = t"
fun body_id :: "body_ref \<Rightarrow> 32 word" where "body_id (BodyRef t i) = i"
fun task_id :: "task_ref \<Rightarrow> 32 word" where "task_id (TaskRef info i) = i"

text \<open>The switch of \<^verbatim>\<open>update_task_state\<close> that moves the body.\<close>

definition move_body :: "byte \<Rightarrow> stack_ref \<Rightarrow> task_ref \<Rightarrow> 32 word \<Rightarrow> task_world \<Rightarrow> task_world res" where
  "move_body v s t i tw =
     (if v = char_byte CHR ''x'' then task_execute s t i tw
      else if v = char_byte CHR ''e'' then task_end s t i tw
      else if v = char_byte CHR ''p'' then task_pause s t i tw
      else if v = char_byte CHR ''r'' then task_resume s t i tw
      else Inl (EEvent EvUnknownValue))"

definition expand_transition_value :: "byte \<Rightarrow> bool \<Rightarrow> bool \<Rightarrow> byte res" where
  "expand_transition_value v was_running runs_now =
     (if v = char_byte CHR ''X'' \<or> v = char_byte CHR ''E'' then Inl (EEvent EvUnknownValue)
      else if v = char_byte CHR ''x'' \<and> was_running then Inr (char_byte CHR ''X'')
      else if v = char_byte CHR ''e'' \<and> runs_now then Inr (char_byte CHR ''E'')
      else Inr v)"

definition update_task_ss_channel :: "nat \<Rightarrow> nat \<Rightarrow> int \<Rightarrow> byte \<Rightarrow> 'x temu_scheme \<Rightarrow> 'x temu_scheme res" where
  "update_task_ss_channel m ss st v w =
     (let ch = ModelChan (em_thread w) m ss in
      if v = char_byte CHR ''x'' then chan_push_at ch (VALUE_INT64 st) w
      else if v = char_byte CHR ''e'' then chan_pop_at ch (VALUE_INT64 st) w
      else Inr w)"

definition update_task_channels ::
  "(body_ref option \<Rightarrow> 'w \<Rightarrow> 'w res) \<Rightarrow> ('w \<Rightarrow> 'w res) \<Rightarrow> (body_ref option \<Rightarrow> body_ref option \<Rightarrow> 'w \<Rightarrow> 'w res) \<Rightarrow>
   byte \<Rightarrow> body_ref option \<Rightarrow> body_ref option \<Rightarrow> 'w \<Rightarrow> 'w res" where
  "update_task_channels running stopped switch tr prev next w =
     (if tr = char_byte CHR ''x'' \<or> tr = char_byte CHR ''r'' then running next w
      else if tr = char_byte CHR ''e'' \<or> tr = char_byte CHR ''p'' then stopped w
      else if tr = char_byte CHR ''X'' \<or> tr = char_byte CHR ''E'' then switch prev next w
      else Inl (EEvent EvUnknownValue))"

text \<open>The state of a body that is not in the table is never \<^verbatim>\<open>BODY_ST_RUNNING\<close>.\<close>

definition enforce_task_rules :: "nat \<Rightarrow> nat \<Rightarrow> int \<Rightarrow> byte \<Rightarrow> body_ref option \<Rightarrow> 'x temu_scheme \<Rightarrow> 'x temu_scheme res" where
  "enforce_task_rules m ss st tr next w =
     (if tr \<noteq> char_byte CHR ''x'' \<and> tr \<noteq> char_byte CHR ''X'' then Inr w
      else if (case next of None \<Rightarrow> True | Some k \<Rightarrow>
             map_option bd_state (bodies (em_tasks w) k) \<noteq> Some BODY_ST_RUNNING) then Inl (EEvent EvBodyNotRunning)
      else case chan_read_at (ModelChan (em_thread w) m ss) w of
             VALUE_INT64 i \<Rightarrow> if i \<noteq> st then Inl (EEvent EvWrongSubsystem) else Inr w
           | _ \<Rightarrow> Inr w)"

text \<open>\<^verbatim>\<open>update_task\<close>: \<open>upd\<close> is the \<^verbatim>\<open>update_task_state\<close> of the model and \<open>chans\<close> its \<^verbatim>\<open>update_task_channels\<close>.\<close>

definition update_task ::
  "nat \<Rightarrow> nat \<Rightarrow> int \<Rightarrow> ('x temu_scheme \<Rightarrow> 'x temu_scheme res) \<Rightarrow>
   (byte \<Rightarrow> body_ref option \<Rightarrow> body_ref option \<Rightarrow> 'x temu_scheme \<Rightarrow> 'x temu_scheme res) \<Rightarrow>
   'x temu_scheme \<Rightarrow> 'x temu_scheme res" where
  "update_task m ss st upd chans w =
     (let s = StackRef m (em_thread w); v = ev_v (em_ev w); prev = task_get_running s (em_tasks w) in
      rbind (upd w) (\<lambda>w1.
      let next = task_get_running s (em_tasks w1) in
      rbind (update_task_ss_channel m ss st v w1) (\<lambda>w2.
      rbind (expand_transition_value v (prev \<noteq> None) (next \<noteq> None)) (\<lambda>tr.
      rbind (chans tr prev next w2) (\<lambda>w3. enforce_task_rules m ss st tr next w3)))))"

lemma char_byte_eq [simp]: "char_byte a = char_byte b \<longleftrightarrow> a = b"
proof
  assume "char_byte a = char_byte b"
  then have "unat (word_of_nat (of_char a) :: byte) = unat (word_of_nat (of_char b) :: byte)" by (simp add: char_byte_def)
  moreover have "(of_char c :: nat) < 2 ^ 8" for c using of_char_of [of "of_char c :: nat"] by simp
  ultimately have "(of_char a :: nat) = of_char b" by (simp add: unsigned_of_nat take_bit_nat_eq_self)
  then show "a = b" by simp
qed simp

subsection \<open>What the operations on channels change\<close>

text \<open>Only the content of the channels \<open>C\<close> and the state of the bay.\<close>

definition writes_only :: "cid set \<Rightarrow> 'x bay_scheme \<Rightarrow> 'x bay_scheme \<Rightarrow> bool" where
  "writes_only C w w' \<longleftrightarrow> bay.more w' = bay.more w \<and> (\<forall>c. same_chan (bay_mem w c) (bay_mem w' c))
     \<and> (\<forall>c. c \<notin> C \<longrightarrow> bay_mem w' c = bay_mem w c)"

lemma writes_only_refl [simp]: "writes_only C w w"
  by (simp add: writes_only_def)

lemma writes_only_trans: "writes_only C w w' \<Longrightarrow> writes_only C w' w'' \<Longrightarrow> writes_only C w w''"
  by (simp add: writes_only_def same_chan_def)

lemma writes_only_mono: "writes_only C w w' \<Longrightarrow> C \<subseteq> D \<Longrightarrow> writes_only D w w'"
  by (auto simp: writes_only_def)

lemma cb_chan_is_dirty_writes: "cb_chan_is_dirty c w = Inr w' \<Longrightarrow> bay_mem w' = bay_mem w \<and> bay.more w' = bay.more w"
  by (auto simp: cb_chan_is_dirty_def split: if_splits)

lemma put_chan_writes:
  assumes "(if ch_is_dirty (bay_mem w c) \<or> \<not> ch_dirty_cb (bay_mem w c) then s' = w else cb_chan_is_dirty c w = Inr s')
    \<or> s' = w" and "same_chan (bay_mem w c) ch'" and "put_chan c (ch', s') = Inr w'"
  shows "writes_only {c} w w'"
proof -
  have "bay_mem s' = bay_mem w \<and> bay.more s' = bay.more w"
    using assms(1) cb_chan_is_dirty_writes [of c w s'] by (auto split: if_splits)
  with assms(2,3) show ?thesis by (auto simp: put_chan_def writes_only_def)
qed

lemma chan_at_writes:
  shows "chan_set_at c v w = Inr w' \<Longrightarrow> writes_only {c} w w'"
    and "chan_push_at c v w = Inr w' \<Longrightarrow> writes_only {c} w w'"
    and "chan_pop_at c v w = Inr w' \<Longrightarrow> writes_only {c} w w'"
proof -
  show "writes_only {c} w w'" if set: "chan_set_at c v w = Inr w'"
  proof -
    from set obtain ch' s' where s: "chan_set (\<lambda>_. cb_chan_is_dirty c) (bay_mem w c) v w = Inr (ch', s')" "put_chan c (ch', s') = Inr w'"
      by (auto simp: chan_set_at_def)
    show ?thesis by (rule put_chan_writes [OF _ _ s(2)]) (use chan_set_ok [OF s(1)] in auto)
  qed
  show "writes_only {c} w w'" if push: "chan_push_at c v w = Inr w'"
  proof -
    from push obtain ch' s' where s: "chan_push (\<lambda>_. cb_chan_is_dirty c) (bay_mem w c) v w = Inr (ch', s')" "put_chan c (ch', s') = Inr w'"
      by (auto simp: chan_push_at_def)
    show ?thesis by (rule put_chan_writes [OF _ _ s(2)]) (use chan_push_ok [OF s(1)] in auto)
  qed
  show "writes_only {c} w w'" if pop: "chan_pop_at c v w = Inr w'"
  proof -
    from pop obtain ch' s' where s: "chan_pop (\<lambda>_. cb_chan_is_dirty c) (bay_mem w c) v w = Inr (ch', s')" "put_chan c (ch', s') = Inr w'"
      by (auto simp: chan_pop_at_def)
    show ?thesis by (rule put_chan_writes [OF _ _ s(2)]) (use chan_pop_ok [OF s(1)] in auto)
  qed
qed

lemma writes_only_foldr:
  assumes "foldr_res f xs w = Inr w'" and "\<And>x v v'. x \<in> set xs \<Longrightarrow> f x v = Inr v' \<Longrightarrow> writes_only C v v'"
  shows "writes_only C w w'"
  using assms(1) by (rule foldr_res_invar [where I = "writes_only C w"]) (auto intro: writes_only_trans assms(2))

lemma more_emu:
  fixes w w' :: "'x emu_scheme"
  assumes "sys_bay.more w' = sys_bay.more w"
  shows "em_ev w' = em_ev w \<and> em_thread w' = em_thread w \<and> em_proc w' = em_proc w \<and> em_loom w' = em_loom w
    \<and> em_ovni w' = em_ovni w \<and> em_marks w' = em_marks w \<and> emu.more w' = emu.more w"
  using assms by (cases w rule: emu.cases_scheme; cases w' rule: emu.cases_scheme) simp

lemma more_temu:
  fixes w w' :: "'x temu_scheme"
  assumes "emu.more w' = emu.more w"
  shows "em_tasks w' = em_tasks w \<and> em_nhwc w' = em_nhwc w \<and> em_xtasks_on w' = em_xtasks_on w"
  using assms by (cases w rule: temu.cases_scheme; cases w' rule: temu.cases_scheme) simp

lemma writes_only_emu:
  fixes w w' :: "'x emu_scheme"
  assumes "writes_only C w w'"
  shows "threads w' = threads w" "cpus w' = cpus w" "procs w' = procs w" "looms w' = looms w" "em_ev w' = em_ev w"
    "em_thread w' = em_thread w" "em_proc w' = em_proc w" "em_loom w' = em_loom w" "em_marks w' = em_marks w"
    "emu.more w' = emu.more w"
proof -
  from assms have "bay.more w' = bay.more w" by (simp add: writes_only_def)
  note s = more_sys [OF this]
  then show "threads w' = threads w" "cpus w' = cpus w" "procs w' = procs w" "looms w' = looms w" by simp_all
  note e = more_emu [of w' w]
  with s show "em_ev w' = em_ev w" "em_thread w' = em_thread w" "em_proc w' = em_proc w" "em_loom w' = em_loom w"
    "em_marks w' = em_marks w" "emu.more w' = emu.more w" by simp_all
qed

lemma writes_only_tasks:
  fixes w w' :: "'x temu_scheme"
  assumes "writes_only C w w'"
  shows "em_tasks w' = em_tasks w" "em_nhwc w' = em_nhwc w" "em_xtasks_on w' = em_xtasks_on w"
  using more_temu [OF writes_only_emu(10) [OF assms]] by simp_all

lemmas writes_only_fields = writes_only_emu(1-9) writes_only_tasks

lemma simple_event_writes:
  assumes "simple_event m tbl w = Inr w'"
  shows "\<exists>e \<in> set tbl. writes_only {ModelChan (em_thread w) m (fst (snd e))} w w'"
proof -
  from assms obtain e where e: "find (\<lambda>e. char_byte (fst (fst e)) = ev_c (em_ev w) \<and> char_byte (snd (fst e)) = ev_v (em_ev w)) tbl = Some e"
    by (auto simp: simple_event_def ss_lookup_def split: option.splits)
  then have "e \<in> set tbl" by (auto simp: find_Some_iff in_set_conv_nth)
  moreover obtain ch act st where "snd e = (ch, act, st)" by (cases "snd e")
  moreover from this assms e have "writes_only {ModelChan (em_thread w) m ch} w w'"
    by (auto simp: simple_event_def ss_lookup_def Let_def split: ss_action.splits intro: chan_at_writes)
  ultimately show ?thesis by force
qed

text \<open>The channels of a model do not ignore duplicates, as \<^verbatim>\<open>init_chan\<close> of \<^verbatim>\<open>model_thread.c\<close> leaves them.\<close>

definition plain_chans :: "nat \<Rightarrow> 'x bay_scheme \<Rightarrow> bool" where
  "plain_chans m w \<longleftrightarrow> (\<forall>t i. \<not> ch_prop (bay_mem w (ModelChan t m i)) CHAN_IGNORE_DUP)"

lemma writes_only_plain: "writes_only C w w' \<Longrightarrow> plain_chans m w' = plain_chans m w"
  by (simp add: writes_only_def plain_chans_def same_chan_def)

lemma chan_set_at_plain:
  "\<not> ch_prop (bay_mem w c) CHAN_IGNORE_DUP \<Longrightarrow> chan_set_at c v w = Inr w' \<Longrightarrow> chan_read_at c w' = v"
  by (auto simp: chan_set_at_def put_chan_def chan_read_def same_chan_def dest!: chan_set_ok)

lemma set_chans_ok:
  assumes "set_chans m cvs w = Inr w'" and "plain_chans m w" and "distinct (map fst cvs)"
  shows "writes_only ((\<lambda>(i, v). ModelChan (em_thread w) m i) ` set cvs) w w'
    \<and> (\<forall>(i, v) \<in> set cvs. chan_read_at (ModelChan (em_thread w) m i) w' = v)"
proof -
  let ?c = "\<lambda>i. ModelChan (em_thread w) m i"
  have "writes_only ((\<lambda>(i, v). ?c i) ` set cvs) u u' \<and> (\<forall>(i, v) \<in> set cvs. chan_read_at (?c i) u' = v)"
    if "foldr_res (\<lambda>(i, v). chan_set_at (?c i) v) cvs u = Inr u'" "plain_chans m u" "distinct (map fst cvs)" for u u' :: "'a temu_scheme"
    using that
  proof (induction cvs arbitrary: u)
    case (Cons cv cvs)
    obtain i v where cv: "cv = (i, v)" by (cases cv)
    from Cons.prems(1) cv obtain u1 where u1: "chan_set_at (?c i) v u = Inr u1" "foldr_res (\<lambda>(i, v). chan_set_at (?c i) v) cvs u1 = Inr u'"
      by auto
    note wr = chan_at_writes(1) [OF u1(1)]
    with Cons.prems(2) have "plain_chans m u1" by (simp add: writes_only_plain)
    with Cons.IH [OF u1(2)] Cons.prems(3)
    have IH: "writes_only ((\<lambda>(i, v). ?c i) ` set cvs) u1 u'" "\<forall>(i, v) \<in> set cvs. chan_read_at (?c i) u' = v" by auto
    have rd: "chan_read_at (?c i) u1 = v"
      using Cons.prems(2) u1(1) by (intro chan_set_at_plain) (simp_all add: plain_chans_def)
    from Cons.prems(3) cv have "?c i \<notin> (\<lambda>(i, v). ?c i) ` set cvs" by (auto simp: rev_image_eqI)
    with IH(1) rd have "chan_read_at (?c i) u' = v" by (simp add: writes_only_def)
    moreover have "writes_only ((\<lambda>(i, v). ?c i) ` set (cv # cvs)) u u'"
      by (rule writes_only_trans [OF writes_only_mono [OF wr] writes_only_mono [OF IH(1)]]) (auto simp: cv)
    ultimately show ?case using IH(2) cv by simp
  qed simp
  with assms show ?thesis by (simp add: set_chans_def)
qed

subsection \<open>What moving a body changes\<close>

lemma body_get_running_cong:
  "body_stacks w' s = body_stacks w s \<Longrightarrow> (\<And>k. k \<in> set (body_stacks w s) \<Longrightarrow> bodies w' k = bodies w k) \<Longrightarrow>
     body_get_running s w' = body_get_running s w"
  by (auto simp: body_get_running_def split: list.splits)

lemma body_move_running:
  assumes wf: "body_wf w"
  shows "body_execute s k w = Inr w' \<Longrightarrow> s' \<noteq> s \<Longrightarrow> body_get_running s' w' = body_get_running s' w"
    and "body_pause s k w = Inr w' \<Longrightarrow> s' \<noteq> s \<Longrightarrow> body_get_running s' w' = body_get_running s' w"
    and "body_resume s k w = Inr w' \<Longrightarrow> s' \<noteq> s \<Longrightarrow> body_get_running s' w' = body_get_running s' w"
    and "body_end s k w = Inr w' \<Longrightarrow> s' \<noteq> s \<Longrightarrow> body_get_running s' w' = body_get_running s' w"
    and "body_pause s k w = Inr w' \<Longrightarrow> body_get_running s w' = None"
proof -
  note on = body_wfD(2) [OF wf, of k]
  show "body_get_running s' w' = body_get_running s' w" if "body_execute s k w = Inr w'" "s' \<noteq> s"
    using body_execute_ok [OF that(1)] that(2) on [of s'] by (intro body_get_running_cong) (auto simp: body_put_def)
  show "body_get_running s' w' = body_get_running s' w" if "body_pause s k w = Inr w'" "s' \<noteq> s"
    using body_pause_ok [OF that(1)] that(2) on [of s'] by (intro body_get_running_cong) (auto simp: body_put_def)
  show "body_get_running s' w' = body_get_running s' w" if "body_resume s k w = Inr w'" "s' \<noteq> s"
    using body_resume_ok [OF that(1)] that(2) on [of s'] by (intro body_get_running_cong) (auto simp: body_put_def)
  show "body_get_running s' w' = body_get_running s' w" if "body_end s k w = Inr w'" "s' \<noteq> s"
    using body_end_ok [OF that(1)] that(2) on [of s'] by (intro body_get_running_cong) (auto simp: body_put_def)
  show "body_get_running s w' = None" if "body_pause s k w = Inr w'"
    using body_pause_ok [OF that] by (auto simp: body_get_running_def body_put_def)
qed

lemma task_gid_cong:
  assumes "task_types w' = task_types w"
    and "map_option tk_type (task_get t w') = map_option tk_type (task_get t w)"
  shows "task_gid t w' = task_gid t w"
  using assms by (cases t) (auto simp: task_gid_def task_type_find_def split: option.splits)

lemma create_body_frame:
  assumes "create_body t tk i w = Inr w'" and "task_get t w = Some tk"
  shows "body_stacks w' = body_stacks w" "task_types w' = task_types w"
    "map_option tk_type (task_get u w') = map_option tk_type (task_get u w)"
    "j \<noteq> BodyRef t i \<Longrightarrow> bodies w' j = bodies w j" "bodies w (BodyRef t i) = None"
proof -
  from assms(1) obtain w1 where w1: "body_create t i (body_flags_of tk) w = Inr w1" "w' = task_put t (tk\<lparr>tk_nbodies := tk_nbodies tk + 1\<rparr>) w1"
    by (auto simp: create_body_def split: if_splits)
  then obtain b where b: "w1 = w\<lparr>bodies := (bodies w)(BodyRef t i \<mapsto> b)\<rparr>" "bodies w (BodyRef t i) = None"
    by (auto simp: body_create_def body_find_def split: if_splits)
  have "task_get u w1 = task_get u w" by (cases u) (simp add: b task_get_def task_find_def)
  with w1(2) b assms(2) show "body_stacks w' = body_stacks w" "task_types w' = task_types w"
    "map_option tk_type (task_get u w') = map_option tk_type (task_get u w)"
    "j \<noteq> BodyRef t i \<Longrightarrow> bodies w' j = bodies w j" "bodies w (BodyRef t i) = None" by auto
qed

lemma body_move_tasks:
  fixes w :: "'x task_world_scheme"
  shows "body_execute s k w = Inr w' \<Longrightarrow> tasks w' = tasks w \<and> task_types w' = task_types w"
    and "body_pause s k w = Inr w' \<Longrightarrow> tasks w' = tasks w \<and> task_types w' = task_types w"
    and "body_resume s k w = Inr w' \<Longrightarrow> tasks w' = tasks w \<and> task_types w' = task_types w"
    and "body_end s k w = Inr w' \<Longrightarrow> tasks w' = tasks w \<and> task_types w' = task_types w"
  by (auto simp: body_put_def dest!: body_execute_ok body_pause_ok body_resume_ok body_end_ok)

lemma task_gid_same: "tasks w' = tasks w \<and> task_types w' = task_types w \<Longrightarrow> task_gid t w' = task_gid t w"
  by (rule task_gid_cong) (cases t; simp add: task_get_def task_find_def)+

lemma body_move_stacks:
  shows "body_execute s k w = Inr w' \<Longrightarrow> body_stacks w' = (body_stacks w)(s := k # body_stacks w s)"
    and "body_pause s k w = Inr w' \<Longrightarrow> body_stacks w' = body_stacks w"
    and "body_resume s k w = Inr w' \<Longrightarrow> body_stacks w' = body_stacks w"
    and "body_end s k w = Inr w' \<Longrightarrow> body_stacks w s = k # body_stacks w' s \<and> (s' \<noteq> s \<longrightarrow> body_stacks w' s' = body_stacks w s')"
  by (auto simp: body_put_def dest!: body_execute_ok body_pause_ok body_resume_ok body_end_ok)

text \<open>Moving a body of the stack \<open>s\<close>: the other stacks keep their running body, the types of the tasks stay, and after a
  pause nothing runs on \<open>s\<close>.\<close>

definition moves_on :: "stack_ref \<Rightarrow> task_world \<Rightarrow> task_world \<Rightarrow> bool" where
  "moves_on s tw tw' \<longleftrightarrow> task_wf tw' \<and> (\<forall>s'. s' \<noteq> s \<longrightarrow> task_get_running s' tw' = task_get_running s' tw
         \<and> body_stacks tw' s' = body_stacks tw s')
     \<and> (\<forall>u. task_gid u tw' = task_gid u tw)"

lemma task_execute_moves:
  assumes wf: "task_wf tw" and ok: "task_execute s t i tw = Inr tw'"
  shows "moves_on s tw tw' \<and> body_stacks tw' = (body_stacks tw)(s := BodyRef t i # body_stacks tw s)"
proof -
  from ok obtain tk tw1 where tk: "task_get t tw = Some tk"
    and c: "(case body_find t i tw of None \<Rightarrow> create_body t tk i tw | Some _ \<Rightarrow> Inr tw) = Inr tw1"
    and ex: "body_execute s (BodyRef t i) tw1 = Inr tw'"
    by (auto simp: task_execute_def split: option.splits)
  have "task_wf tw1 \<and> (\<forall>u. task_gid u tw1 = task_gid u tw) \<and> (\<forall>s'. task_get_running s' tw1 = task_get_running s' tw)
      \<and> body_stacks tw1 = body_stacks tw"
  proof (cases "body_find t i tw")
    case None
    with c have cb: "create_body t tk i tw = Inr tw1" by simp
    note f = create_body_frame [OF cb tk]
    have "BodyRef t i \<notin> set (body_stacks tw s')" for s' using body_wfD(2) [OF task_wfD(1) [OF wf], of "BodyRef t i" s'] f(5) by simp
    then have "body_get_running s' tw1 = body_get_running s' tw" for s'
      by (intro body_get_running_cong f(4)) (auto simp: f(1))
    then show ?thesis using create_body_wf [OF wf tk cb] f(1,2,3) by (auto simp: task_get_running_def intro: task_gid_cong)
  qed (use c wf in simp)
  with body_ops_task_wf(1) [OF _ ex] body_move_running(1) [OF task_wfD(1) ex] task_gid_same [OF body_move_tasks(1) [OF ex]]
    body_move_stacks(1) [OF ex]
  show ?thesis by (simp add: moves_on_def task_get_running_def)
qed

lemma move_body_moves:
  assumes wf: "task_wf tw" and ok: "move_body v s t i tw = Inr tw'"
  shows "moves_on s tw tw' \<and> (v = char_byte CHR ''p'' \<longrightarrow> task_get_running s tw' = None)"
proof -
  note b = task_wfD(1) [OF wf]
  consider "v = char_byte CHR ''x''" "task_execute s t i tw = Inr tw'"
    | "v = char_byte CHR ''e''" "body_end s (BodyRef t i) tw = Inr tw'"
    | "v = char_byte CHR ''p''" "body_pause s (BodyRef t i) tw = Inr tw'"
    | "v = char_byte CHR ''r''" "v \<noteq> char_byte CHR ''p''" "body_resume s (BodyRef t i) tw = Inr tw'"
    using ok by (auto simp: move_body_def task_end_def task_pause_def task_resume_def split: if_splits)
  then show ?thesis
  proof cases
    case 1
    then show ?thesis using task_execute_moves [OF wf 1(2)] by auto
  next
    case 2
    then show ?thesis using body_ops_task_wf(4) [OF wf 2(2)] body_move_running(4) [OF b 2(2)] task_gid_same [OF body_move_tasks(4) [OF 2(2)]]
        body_move_stacks(4) [OF 2(2)]
      by (auto simp: moves_on_def task_get_running_def)
  next
    case 3
    then show ?thesis using body_ops_task_wf(2) [OF wf 3(2)] body_move_running(2,5) [OF b 3(2)] task_gid_same [OF body_move_tasks(2) [OF 3(2)]]
        body_move_stacks(2) [OF 3(2)]
      by (auto simp: moves_on_def task_get_running_def)
  next
    case 4
    then show ?thesis using body_ops_task_wf(3) [OF wf 4(3)] body_move_running(3) [OF b 4(3)] task_gid_same [OF body_move_tasks(3) [OF 4(3)]]
        body_move_stacks(3) [OF 4(3)]
      by (auto simp: moves_on_def task_get_running_def)
  qed
qed

subsection \<open>The channels show the running body\<close>

text \<open>The body that runs on the stack of a thread, with the identifier of its type.\<close>

definition running_of :: "nat \<Rightarrow> nat \<Rightarrow> 'x temu_scheme \<Rightarrow> (body_ref \<times> 32 word) option" where
  "running_of m t w =
     (case task_get_running (StackRef m t) (em_tasks w) of
        None \<Rightarrow> None
      | Some k \<Rightarrow> map_option (Pair k) (task_gid (body_task k) (em_tasks w)))"

definition shows_running ::
  "nat \<Rightarrow> (proc \<Rightarrow> (body_ref \<times> 32 word) option \<Rightarrow> (nat \<times> chval) list) \<Rightarrow> 'x temu_scheme \<Rightarrow> bool" where
  "shows_running m view w \<longleftrightarrow> task_wf (em_tasks w) \<and> plain_chans m w
     \<and> (\<forall>t p i v. th_proc (threads w t) = Some p \<longrightarrow> (i, v) \<in> set (view (procs w p) (running_of m t w)) \<longrightarrow>
          chan_read_at (ModelChan t m i) w = v)"

lemma shows_runningD:
  assumes "shows_running m view w"
  shows "task_wf (em_tasks w)" "plain_chans m w"
    and "th_proc (threads w t) = Some p \<Longrightarrow> (i, v) \<in> set (view (procs w p) (running_of m t w)) \<Longrightarrow>
      chan_read_at (ModelChan t m i) w = v"
  using assms by (auto simp: shows_running_def)

text \<open>Changes that leave threads, processes, running bodies and the channels of the view alone keep it.\<close>

lemma shows_running_keep:
  assumes sr: "shows_running m view w" and wf: "task_wf (em_tasks w')"
    and same: "map_option th_proc \<circ> Some \<circ> threads w' = map_option th_proc \<circ> Some \<circ> threads w" "procs w' = procs w"
    and props: "\<And>t i. ch_prop (bay_mem w' (ModelChan t m i)) = ch_prop (bay_mem w (ModelChan t m i))"
    and run: "\<And>t. running_of m t w' = running_of m t w"
    and rd: "\<And>t p b i v. (i, v) \<in> set (view p b) \<Longrightarrow> bay_mem w' (ModelChan t m i) = bay_mem w (ModelChan t m i)"
  shows "shows_running m view w'"
proof -
  have "th_proc (threads w' t) = th_proc (threads w t)" for t using fun_cong [OF same(1), of t] by simp
  with shows_runningD(2,3) [OF sr] same(2) run props rd show ?thesis
    unfolding shows_running_def plain_chans_def by (auto simp: wf)
qed

lemma running_of_tasks: "em_tasks w' = em_tasks w \<Longrightarrow> running_of m t w' = running_of m t w"
  by (simp add: running_of_def split: option.split)

lemma shows_running_writes:
  assumes sr: "shows_running m view w" and wr: "writes_only C w w'"
    and out: "\<And>t p b i v. (i, v) \<in> set (view p b) \<Longrightarrow> ModelChan t m i \<notin> C"
  shows "shows_running m view w'"
  using sr
proof (rule shows_running_keep)
  show "running_of m t w' = running_of m t w" for t by (rule running_of_tasks) (rule writes_only_fields [OF wr])
  show "bay_mem w' (ModelChan t m i) = bay_mem w (ModelChan t m i)" if "(i, v) \<in> set (view p b)" for t p b i v
    using wr out [OF that] by (simp add: writes_only_def)
qed (use sr wr in \<open>simp_all add: writes_only_fields [OF wr] shows_running_def writes_only_def same_chan_def\<close>)

text \<open>New tasks and types do not change what is running.\<close>

definition extends_tasks :: "task_world \<Rightarrow> task_world \<Rightarrow> bool" where
  "extends_tasks tw tw' \<longleftrightarrow> task_wf tw' \<and> (\<forall>s. task_get_running s tw' = task_get_running s tw)
     \<and> body_stacks tw' = body_stacks tw \<and> (\<forall>u g. task_gid u tw = Some g \<longrightarrow> task_gid u tw' = Some g)"

lemma task_create_extends:
  assumes wf: "task_wf tw" and ok: "task_create info ty i fl tw = Inr tw'"
  shows "extends_tasks tw tw'"
proof -
  from ok have tw': "tw' = task_put (TaskRef info i) \<lparr>tk_type = ty, tk_nbodies = 0, tk_flags = fl\<rparr> tw"
    and new: "task_get (TaskRef info i) tw = None"
    by (auto simp: task_create_def task_find_get split: if_splits)
  have "task_gid u tw' = Some g" if "task_gid u tw = Some g" for u g
  proof -
    from that new have "u \<noteq> TaskRef info i" by (auto simp: task_gid_def)
    then have "task_gid u tw' = task_gid u tw" by (intro task_gid_cong) (simp_all add: tw')
    with that show ?thesis by simp
  qed
  moreover have "task_get_running s tw' = task_get_running s tw" for s
    unfolding task_get_running_def by (rule body_get_running_cong) (simp_all add: tw')
  ultimately show ?thesis using task_create_wf [OF wf ok] by (simp add: extends_tasks_def tw')
qed

lemma task_type_create_extends:
  assumes wf: "task_wf tw" and ok: "task_type_create h info ty lbl tw = Inr tw'"
  shows "extends_tasks tw tw'"
proof -
  from ok obtain tt where tw': "tw' = tw\<lparr>task_types := (task_types tw)(info := (task_types tw info)(ty \<mapsto> tt))\<rparr>"
    and new: "task_types tw info ty = None"
    by (auto simp: task_type_create_def Let_def split: if_splits)
  have get: "task_get u tw' = task_get u tw" for u by (cases u) (simp add: tw' task_get_def task_find_def)
  have find: "task_type_find i ty' tw = Some x \<Longrightarrow> task_type_find i ty' tw' = Some x" for i ty' x
    using new by (auto simp: task_type_find_def tw')
  have "task_gid u tw' = Some g" if "task_gid u tw = Some g" for u g
    using that by (cases u) (auto simp: task_gid_def get split: option.splits dest!: find)
  moreover have "task_get_running s tw' = task_get_running s tw" for s
    unfolding task_get_running_def by (rule body_get_running_cong) (simp_all add: tw')
  ultimately show ?thesis using task_type_create_wf [OF wf ok] by (simp add: extends_tasks_def tw')
qed

text \<open>The task of a running body is known, and so is its type.\<close>

lemma running_gid:
  assumes wf: "task_wf tw" and run: "task_get_running s tw = Some k"
  shows "\<exists>g. task_gid (body_task k) tw = Some g"
proof -
  obtain t i where k: "k = BodyRef t i" by (cases k)
  from run obtain b where "bodies tw k = Some b"
    by (auto simp: task_get_running_def body_get_running_def split: list.splits option.splits if_splits)
  with task_wfD(2) [OF wf, of t i b] k obtain tk where tk: "task_get t tw = Some tk" by auto
  obtain info j where t: "t = TaskRef info j" by (cases t)
  from task_wfD(4) [OF wf, of info j tk] tk t obtain tt where "task_type_find info (tk_type tk) tw = Some tt" by auto
  with tk t k show ?thesis by (simp add: task_gid_def)
qed

lemma shows_running_extends:
  assumes sr: "shows_running m view w" and ex: "extends_tasks (em_tasks w) tw'"
  shows "shows_running m view (w\<lparr>em_tasks := tw'\<rparr>)"
  using sr
proof (rule shows_running_keep)
  show "running_of m t (w\<lparr>em_tasks := tw'\<rparr>) = running_of m t w" for t
    using ex running_gid [OF shows_runningD(1) [OF sr], of "StackRef m t"]
    by (auto simp: running_of_def extends_tasks_def split: option.splits)
qed (use ex in \<open>simp_all add: extends_tasks_def\<close>)

lemma simple_event_shows:
  assumes sr: "shows_running m view w" and ok: "simple_event m' tbl w = Inr w'"
    and out: "m' = m \<Longrightarrow> \<forall>e \<in> set tbl. \<forall>p b. fst (snd e) \<notin> fst ` set (view p b)"
  shows "shows_running m view w'"
proof -
  from simple_event_writes [OF ok] obtain e where e: "e \<in> set tbl" "writes_only {ModelChan (em_thread w) m' (fst (snd e))} w w'" by blast
  show ?thesis by (rule shows_running_writes [OF sr e(2)]) (use out e(1) in \<open>force simp: image_iff\<close>)
qed

lemma on_tasks_extends_shows:
  assumes "shows_running m view w" and "on_tasks f w = Inr w'" and "\<And>tw'. f (em_tasks w) = Inr tw' \<Longrightarrow> extends_tasks (em_tasks w) tw'"
  shows "shows_running m view w'"
  using assms by (auto simp: on_tasks_def intro: shows_running_extends)

lemma pre_type_shows:
  assumes "shows_running m view w" and "pre_type hash m' w = Inr w'"
  shows "shows_running m view w'"
proof -
  from assms(2) obtain h i l where "on_tasks (task_type_create hash h i l) w = Inr w'"
    by (auto simp: pre_type_def Let_def split: if_splits)
  then show ?thesis
    by (rule on_tasks_extends_shows [OF assms(1)]) (rule task_type_create_extends [OF shows_runningD(1) [OF assms(1)]])
qed

subsection \<open>The contract of a model with tasks\<close>

text \<open>A model updates the state of one body of its own stack and then writes in the channels of the view what
  runs: nothing on the transitions \<open>e\<close> and \<open>p\<close>, the body \<open>next\<close> on the others.\<close>

definition tr_runs :: "byte \<Rightarrow> bool" where
  "tr_runs tr \<longleftrightarrow> tr \<in> char_byte ` set ''xrXE''"

locale task_view =
  fixes m ss :: nat and st :: int
    and view :: "proc \<Rightarrow> (body_ref \<times> 32 word) option \<Rightarrow> (nat \<times> chval) list"
    and upd :: "'x temu_scheme \<Rightarrow> 'x temu_scheme res"
    and chans :: "byte \<Rightarrow> body_ref option \<Rightarrow> body_ref option \<Rightarrow> 'x temu_scheme \<Rightarrow> 'x temu_scheme res"
  assumes upd_moves: "upd w = Inr w' \<Longrightarrow>
      \<exists>t i. on_tasks (move_body (ev_v (em_ev w)) (StackRef m (em_thread w)) t i) w = Inr w'"
    and chans_view: "chans tr prev next w = Inr w' \<Longrightarrow> \<exists>cur. set_chans m (view (procs w (em_proc w)) cur) w = Inr w'
      \<and> (if tr_runs tr then \<exists>k g. next = Some k \<and> task_gid (body_task k) (em_tasks w) = Some g \<and> cur = Some (k, g)
         else cur = None)"
    and view_keys: "distinct (map fst (view p b))"
begin

lemma transition:
  assumes "expand_transition_value v was (next \<noteq> None) = Inr tr" and "v = char_byte CHR ''p'' \<longrightarrow> next = None"
    and "v \<in> char_byte ` set ''xepr''" and "\<not> tr_runs tr"
  shows "next = None"
  using assms by (auto simp: expand_transition_value_def tr_runs_def split: if_splits)

text \<open>The steps of \<^verbatim>\<open>update_task\<close>: the body moves, the subsystem is written and then the view.\<close>

lemma update_task_steps:
  assumes wf: "task_wf (em_tasks w)" and plain: "plain_chans m w" and ok: "update_task m ss st upd chans w = Inr w'"
    and v: "ev_v (em_ev w) \<in> char_byte ` set ''xepr''"
  shows "\<exists>cur. moves_on (StackRef m (em_thread w)) (em_tasks w) (em_tasks w') \<and> running_of m (em_thread w) w' = cur
    \<and> (\<exists>tw1. writes_only (range (ModelChan (em_thread w) m)) (w\<lparr>em_tasks := tw1\<rparr>) w')
    \<and> (\<forall>(i, x) \<in> set (view (procs w (em_proc w)) cur). chan_read_at (ModelChan (em_thread w) m i) w' = x)"
proof -
  let ?t = "em_thread w" and ?v = "ev_v (em_ev w)"
  let ?s = "StackRef m ?t" and ?C = "range (ModelChan (em_thread w) m)"
  from ok obtain w1 w2 tr where w1: "upd w = Inr w1" and w2: "update_task_ss_channel m ss st ?v w1 = Inr w2"
    and tr: "expand_transition_value ?v (task_get_running ?s (em_tasks w) \<noteq> None) (task_get_running ?s (em_tasks w1) \<noteq> None) = Inr tr"
    and w3: "chans tr (task_get_running ?s (em_tasks w)) (task_get_running ?s (em_tasks w1)) w2 = Inr w'"
    by (auto simp: update_task_def enforce_task_rules_def Let_def split: if_splits chval.splits)
  from upd_moves [OF w1] obtain t i tw1 where mv: "move_body ?v ?s t i (em_tasks w) = Inr tw1" and w1': "w1 = w\<lparr>em_tasks := tw1\<rparr>"
    by (auto simp: on_tasks_def)
  note mo = move_body_moves [OF wf mv]
  have wr2: "writes_only {ModelChan ?t m ss} w1 w2"
    using w2 by (auto simp: update_task_ss_channel_def w1' Let_def split: if_splits intro: chan_at_writes)
  note f2 = writes_only_fields [OF wr2]
  have f1: "em_thread w2 = ?t" "em_proc w2 = em_proc w" "threads w2 = threads w" "procs w2 = procs w" "em_tasks w2 = tw1"
    "em_tasks w1 = tw1" by (simp_all add: f2 w1')
  have plain2: "plain_chans m w2" using plain writes_only_plain [OF wr2, of m] by (simp add: w1' plain_chans_def)
  from chans_view [OF w3, unfolded f1] obtain cv where sc: "set_chans m (view (procs w (em_proc w)) cv) w2 = Inr w'"
    and cv: "if tr_runs tr then \<exists>k g. task_get_running ?s tw1 = Some k \<and> task_gid (body_task k) tw1 = Some g \<and> cv = Some (k, g) else cv = None"
    by blast
  note so = set_chans_ok [OF sc plain2 view_keys, THEN conjunct1] set_chans_ok [OF sc plain2 view_keys, THEN conjunct2]
  have tasks': "em_tasks w' = tw1" by (simp add: writes_only_fields [OF so(1)] f1)
  have run: "running_of m ?t w' = cv"
    using cv transition [OF tr _ v] mo by (auto simp: running_of_def tasks' w1' split: if_splits)
  have "writes_only ?C w1 w'"
    by (rule writes_only_trans [OF writes_only_mono [OF wr2] writes_only_mono [OF so(1)]]) (auto simp: f1)
  with mo run so(2) show ?thesis unfolding tasks' w1' f1 by blast
qed

theorem update_task_shows:
  assumes sr: "shows_running m view w" and cur: "th_proc (threads w (em_thread w)) = Some (em_proc w)"
    and v: "ev_v (em_ev w) \<in> char_byte ` set ''xepr''"
    and ok: "update_task m ss st upd chans w = Inr w'"
  shows "shows_running m view w'"
proof -
  from update_task_steps [OF shows_runningD(1,2) [OF sr] ok v] obtain cv tw1 where
    mo: "moves_on (StackRef m (em_thread w)) (em_tasks w) (em_tasks w')" and run: "running_of m (em_thread w) w' = cv"
    and wr: "writes_only (range (ModelChan (em_thread w) m)) (w\<lparr>em_tasks := tw1\<rparr>) w'"
    and rd: "\<forall>(i, x) \<in> set (view (procs w (em_proc w)) cv). chan_read_at (ModelChan (em_thread w) m i) w' = x" by blast
  have f: "threads w' = threads w" "procs w' = procs w" by (simp_all add: writes_only_fields [OF wr])
  show ?thesis
    unfolding shows_running_def
  proof (intro conjI allI impI)
    show "task_wf (em_tasks w')" using mo by (simp add: moves_on_def)
    show "plain_chans m w'" using shows_runningD(2) [OF sr] writes_only_plain [OF wr, of m] by (simp add: plain_chans_def)
    fix u p j x assume p: "th_proc (threads w' u) = Some p" and x: "(j, x) \<in> set (view (procs w' p) (running_of m u w'))"
    show "chan_read_at (ModelChan u m j) w' = x"
    proof (cases "u = em_thread w")
      case True
      with p x cur run f have "(j, x) \<in> set (view (procs w (em_proc w)) cv)" by simp
      with rd True show ?thesis by auto
    next
      case False
      have "running_of m u w' = running_of m u w" using mo False by (auto simp: running_of_def moves_on_def split: option.split)
      with p x have "chan_read_at (ModelChan u m j) w = x" using shows_runningD(3) [OF sr, of u p j x] by (simp add: f)
      moreover have "bay_mem w' (ModelChan u m j) = bay_mem w (ModelChan u m j)" using wr False by (auto simp: writes_only_def)
      ultimately show ?thesis by simp
    qed
  qed
qed

text \<open>The other models do not notice.\<close>

theorem update_task_others:
  assumes sr: "shows_running m' view' w" and m': "m' \<noteq> m" and plain: "plain_chans m w"
    and v: "ev_v (em_ev w) \<in> char_byte ` set ''xepr''"
    and ok: "update_task m ss st upd chans w = Inr w'"
  shows "shows_running m' view' w'"
proof -
  from update_task_steps [OF shows_runningD(1) [OF sr] plain ok v] obtain tw1 where
    mo: "moves_on (StackRef m (em_thread w)) (em_tasks w) (em_tasks w')"
    and wr: "writes_only (range (ModelChan (em_thread w) m)) (w\<lparr>em_tasks := tw1\<rparr>) w'" by blast
  show ?thesis
    using sr
  proof (rule shows_running_keep)
    show "running_of m' t w' = running_of m' t w" for t
      using mo m' by (auto simp: running_of_def moves_on_def split: option.split)
    show "bay_mem w' (ModelChan t m' i) = bay_mem w (ModelChan t m' i)" if "(i, x) \<in> set (view' p b)" for t p b i x
      using wr m' by (auto simp: writes_only_def)
  qed (use mo wr m' in \<open>auto simp: writes_only_fields [OF wr] moves_on_def writes_only_def same_chan_def\<close>)
qed

end

subsection \<open>A small system for examples\<close>

text \<open>The thread 1 of the process 1 is active. The channels are clean and have no callback; \<open>stk\<close> tells which are stacks.
  The process has a type 3, a task 5 of that type and maybe one that runs.\<close>

definition demo_tasks :: "nat \<Rightarrow> (task_flag \<Rightarrow> bool) \<Rightarrow> task_world" where
  "demo_tasks m fl = task_world0\<lparr>
     task_types := (\<lambda>_. Map.empty)(InfoRef m 1 := [3 \<mapsto> \<lparr>tt_gid = 2000, tt_label = ''main''\<rparr>]),
     tasks := (\<lambda>_. Map.empty)(InfoRef m 1 := [5 \<mapsto> \<lparr>tk_type = 3, tk_nbodies = 0, tk_flags = fl\<rparr>])\<rparr>"

definition demo_temu :: "(nat \<Rightarrow> bool) \<Rightarrow> task_world \<Rightarrow> string \<Rightarrow> byte list \<Rightarrow> temu" where
  "demo_temu stk tw mcv p = sys_bay.extend
     (put_thread 1 ((threads demo_sys0 1)\<lparr>th_proc := Some 1, th_is_active := True, th_is_running := True\<rparr>)
       (demo_sys0\<lparr>bay_mem := (\<lambda>c. case c of ModelChan t m i \<Rightarrow> demo_chan (if stk i then CHAN_STACK else CHAN_SINGLE)
           | _ \<Rightarrow> demo_chan CHAN_SINGLE), procs := (\<lambda>_. (proc_init_begin 10)\<lparr>pr_appid := 1, pr_rank := 2, pr_nranks := 4\<rparr>)\<rparr>))
     \<lparr>em_ev = demo_event mcv p, em_thread = 1, em_proc = 1, em_loom = 0,
      em_ovni = (\<lambda>_. \<lparr>ot_nbursts = 0, ot_burst_time = [], ot_flush_start = 0\<rparr>), em_marks = [],
      em_tasks = tw, em_nhwc = 0, em_xtasks_on = False\<rparr>"

lemma demo_temu_sel [simp]:
  "em_ev (demo_temu stk tw mcv p) = demo_event mcv p" "em_thread (demo_temu stk tw mcv p) = 1"
  "em_proc (demo_temu stk tw mcv p) = 1" "em_tasks (demo_temu stk tw mcv p) = tw"
  "bay_mem (demo_temu stk tw mcv p) (ModelChan t m i) = demo_chan (if stk i then CHAN_STACK else CHAN_SINGLE)"
  "procs (demo_temu stk tw mcv p) q = (proc_init_begin 10)\<lparr>pr_appid := 1, pr_rank := 2, pr_nranks := 4\<rparr>"
  "threads (demo_temu stk tw mcv p) t = (if t = 1 then (threads demo_sys0 1)\<lparr>th_proc := Some 1, th_is_active := True, th_is_running := True\<rparr>
     else threads demo_sys0 t)"
  by (simp_all add: demo_temu_def sys_bay.defs put_thread_def)

lemma demo_tasks_wf: "task_wf (demo_tasks m fl)"
proof (rule task_wfI)
  show "body_wf (demo_tasks m fl)" by (simp add: body_wf_def demo_tasks_def task_world0_def)
  show "tk_nbodies tk = int (card (task_bodies t (demo_tasks m fl))) \<and> (\<not> task_is_parallel tk \<longrightarrow> tk_nbodies tk \<le> 1)"
    if "task_get t (demo_tasks m fl) = Some tk" for t tk
    using that by (cases t) (auto simp: demo_tasks_def task_world0_def task_get_def task_find_def task_bodies_def split: if_splits)
qed (auto simp: demo_tasks_def task_world0_def task_get_def task_find_def task_type_find_def split: if_splits)

lemma demo_shows:
  assumes "\<And>p i v. (i, v) \<in> set (view p None) \<Longrightarrow> v = VALUE_NULL"
  shows "shows_running m view (demo_temu stk (demo_tasks m fl) mcv p)"
proof -
  have "running_of m t (demo_temu stk (demo_tasks m fl) mcv p) = None" for t
    by (simp add: running_of_def task_get_running_def body_get_running_def demo_tasks_def task_world0_def)
  with assms show ?thesis
    by (auto simp: shows_running_def demo_tasks_wf plain_chans_def demo_chan_def chan_read_def)
qed

end
