(* ===== verification/Nosv.thy ===== *)
theory Nosv
  imports Task_Model
begin

text \<open>
  The events of nOS-V: \<^verbatim>\<open>src/emu/nosv/event.c\<close>, with the states of \<^verbatim>\<open>nosv_priv.h\<close>, the channels of \<^verbatim>\<open>setup.c\<close> and
  the event of the hardware counters of \<^verbatim>\<open>hwc.c\<close>.
\<close>

subsection \<open>Channels and states\<close>

definition MODEL_V :: nat where "MODEL_V = 86"

definition NOSV_CH_BODYID :: nat where "NOSV_CH_BODYID = 0"
definition NOSV_CH_TASKID :: nat where "NOSV_CH_TASKID = 1"
definition NOSV_CH_TYPE :: nat where "NOSV_CH_TYPE = 2"
definition NOSV_CH_APPID :: nat where "NOSV_CH_APPID = 3"
definition NOSV_CH_SUBSYSTEM :: nat where "NOSV_CH_SUBSYSTEM = 4"
definition NOSV_CH_RANK :: nat where "NOSV_CH_RANK = 5"
definition NOSV_CH_IDLE :: nat where "NOSV_CH_IDLE = 6"
definition NOSV_CH_MAX :: nat where "NOSV_CH_MAX = 7"

lemmas nosv_ch_defs = NOSV_CH_BODYID_def NOSV_CH_TASKID_def NOSV_CH_TYPE_def NOSV_CH_APPID_def NOSV_CH_SUBSYSTEM_def NOSV_CH_RANK_def NOSV_CH_IDLE_def NOSV_CH_MAX_def

datatype nosv_ss_values =
    ST_UNKNOWN_SS | ST_SCHED_HUNGRY | ST_SCHED_SERVING | ST_SCHED_SUBMITTING | ST_MEM_ALLOCATING
  | ST_MEM_FREEING | ST_TASK_BODY | ST_API_CREATE | ST_API_DESTROY | ST_API_SUBMIT | ST_API_PAUSE
  | ST_API_YIELD | ST_API_WAITFOR | ST_API_SCHEDPOINT | ST_API_ATTACH | ST_API_DETACH | ST_API_MUTEX_LOCK
  | ST_API_MUTEX_TRYLOCK | ST_API_MUTEX_UNLOCK | ST_API_BARRIER_WAIT | ST_API_COND_WAIT | ST_API_COND_SIGNAL
  | ST_API_COND_BCAST | ST_WORKER | ST_DELEGATE | EV_SCHED_RECV | EV_SCHED_SEND | EV_SCHED_SELF

primrec nosv_st :: "nosv_ss_values \<Rightarrow> int" where
  "nosv_st ST_UNKNOWN_SS = 2"
| "nosv_st ST_SCHED_HUNGRY = 6"
| "nosv_st ST_SCHED_SERVING = 7"
| "nosv_st ST_SCHED_SUBMITTING = 8"
| "nosv_st ST_MEM_ALLOCATING = 9"
| "nosv_st ST_MEM_FREEING = 10"
| "nosv_st ST_TASK_BODY = 11"
| "nosv_st ST_API_CREATE = 12"
| "nosv_st ST_API_DESTROY = 13"
| "nosv_st ST_API_SUBMIT = 14"
| "nosv_st ST_API_PAUSE = 15"
| "nosv_st ST_API_YIELD = 16"
| "nosv_st ST_API_WAITFOR = 17"
| "nosv_st ST_API_SCHEDPOINT = 18"
| "nosv_st ST_API_ATTACH = 19"
| "nosv_st ST_API_DETACH = 20"
| "nosv_st ST_API_MUTEX_LOCK = 21"
| "nosv_st ST_API_MUTEX_TRYLOCK = 22"
| "nosv_st ST_API_MUTEX_UNLOCK = 23"
| "nosv_st ST_API_BARRIER_WAIT = 24"
| "nosv_st ST_API_COND_WAIT = 25"
| "nosv_st ST_API_COND_SIGNAL = 26"
| "nosv_st ST_API_COND_BCAST = 27"
| "nosv_st ST_WORKER = 28"
| "nosv_st ST_DELEGATE = 29"
| "nosv_st EV_SCHED_RECV = 30"
| "nosv_st EV_SCHED_SEND = 31"
| "nosv_st EV_SCHED_SELF = 32"

datatype nosv_progress =
    ST_PROGRESSING | ST_RESTING | ST_ABSORBING

primrec nosv_progress_st :: "nosv_progress \<Rightarrow> int" where
  "nosv_progress_st ST_PROGRESSING = 100"
| "nosv_progress_st ST_RESTING = 101"
| "nosv_progress_st ST_ABSORBING = 102"

definition nosv_ss_table :: ss_table where
  "nosv_ss_table = [
     ((CHR ''S'', CHR ''h''), NOSV_CH_SUBSYSTEM, ACT_PUSH, nosv_st ST_SCHED_HUNGRY),
     ((CHR ''S'', CHR ''f''), NOSV_CH_SUBSYSTEM, ACT_POP, nosv_st ST_SCHED_HUNGRY),
     ((CHR ''S'', CHR ''[''), NOSV_CH_SUBSYSTEM, ACT_PUSH, nosv_st ST_SCHED_SERVING),
     ((CHR ''S'', CHR '']''), NOSV_CH_SUBSYSTEM, ACT_POP, nosv_st ST_SCHED_SERVING),
     ((CHR ''S'', CHR ''N''), NOSV_CH_SUBSYSTEM, ACT_PUSH, nosv_st ST_SCHED_SERVING),
     ((CHR ''S'', CHR ''n''), NOSV_CH_SUBSYSTEM, ACT_POP, nosv_st ST_SCHED_SERVING),
     ((CHR ''S'', CHR ''@''), NOSV_CH_SUBSYSTEM, ACT_IGN, -1),
     ((CHR ''S'', CHR ''r''), NOSV_CH_SUBSYSTEM, ACT_IGN, -1),
     ((CHR ''S'', CHR ''s''), NOSV_CH_SUBSYSTEM, ACT_IGN, -1),
     ((CHR ''U'', CHR ''[''), NOSV_CH_SUBSYSTEM, ACT_PUSH, nosv_st ST_SCHED_SUBMITTING),
     ((CHR ''U'', CHR '']''), NOSV_CH_SUBSYSTEM, ACT_POP, nosv_st ST_SCHED_SUBMITTING),
     ((CHR ''M'', CHR ''a''), NOSV_CH_SUBSYSTEM, ACT_PUSH, nosv_st ST_MEM_ALLOCATING),
     ((CHR ''M'', CHR ''A''), NOSV_CH_SUBSYSTEM, ACT_POP, nosv_st ST_MEM_ALLOCATING),
     ((CHR ''M'', CHR ''f''), NOSV_CH_SUBSYSTEM, ACT_PUSH, nosv_st ST_MEM_FREEING),
     ((CHR ''M'', CHR ''F''), NOSV_CH_SUBSYSTEM, ACT_POP, nosv_st ST_MEM_FREEING),
     ((CHR ''A'', CHR ''r''), NOSV_CH_SUBSYSTEM, ACT_PUSH, nosv_st ST_API_CREATE),
     ((CHR ''A'', CHR ''R''), NOSV_CH_SUBSYSTEM, ACT_POP, nosv_st ST_API_CREATE),
     ((CHR ''A'', CHR ''d''), NOSV_CH_SUBSYSTEM, ACT_PUSH, nosv_st ST_API_DESTROY),
     ((CHR ''A'', CHR ''D''), NOSV_CH_SUBSYSTEM, ACT_POP, nosv_st ST_API_DESTROY),
     ((CHR ''A'', CHR ''s''), NOSV_CH_SUBSYSTEM, ACT_PUSH, nosv_st ST_API_SUBMIT),
     ((CHR ''A'', CHR ''S''), NOSV_CH_SUBSYSTEM, ACT_POP, nosv_st ST_API_SUBMIT),
     ((CHR ''A'', CHR ''p''), NOSV_CH_SUBSYSTEM, ACT_PUSH, nosv_st ST_API_PAUSE),
     ((CHR ''A'', CHR ''P''), NOSV_CH_SUBSYSTEM, ACT_POP, nosv_st ST_API_PAUSE),
     ((CHR ''A'', CHR ''y''), NOSV_CH_SUBSYSTEM, ACT_PUSH, nosv_st ST_API_YIELD),
     ((CHR ''A'', CHR ''Y''), NOSV_CH_SUBSYSTEM, ACT_POP, nosv_st ST_API_YIELD),
     ((CHR ''A'', CHR ''w''), NOSV_CH_SUBSYSTEM, ACT_PUSH, nosv_st ST_API_WAITFOR),
     ((CHR ''A'', CHR ''W''), NOSV_CH_SUBSYSTEM, ACT_POP, nosv_st ST_API_WAITFOR),
     ((CHR ''A'', CHR ''c''), NOSV_CH_SUBSYSTEM, ACT_PUSH, nosv_st ST_API_SCHEDPOINT),
     ((CHR ''A'', CHR ''C''), NOSV_CH_SUBSYSTEM, ACT_POP, nosv_st ST_API_SCHEDPOINT),
     ((CHR ''A'', CHR ''a''), NOSV_CH_SUBSYSTEM, ACT_PUSH, nosv_st ST_API_ATTACH),
     ((CHR ''A'', CHR ''A''), NOSV_CH_SUBSYSTEM, ACT_POP, nosv_st ST_API_ATTACH),
     ((CHR ''A'', CHR ''e''), NOSV_CH_SUBSYSTEM, ACT_PUSH, nosv_st ST_API_DETACH),
     ((CHR ''A'', CHR ''E''), NOSV_CH_SUBSYSTEM, ACT_POP, nosv_st ST_API_DETACH),
     ((CHR ''A'', CHR ''l''), NOSV_CH_SUBSYSTEM, ACT_PUSH, nosv_st ST_API_MUTEX_LOCK),
     ((CHR ''A'', CHR ''L''), NOSV_CH_SUBSYSTEM, ACT_POP, nosv_st ST_API_MUTEX_LOCK),
     ((CHR ''A'', CHR ''t''), NOSV_CH_SUBSYSTEM, ACT_PUSH, nosv_st ST_API_MUTEX_TRYLOCK),
     ((CHR ''A'', CHR ''T''), NOSV_CH_SUBSYSTEM, ACT_POP, nosv_st ST_API_MUTEX_TRYLOCK),
     ((CHR ''A'', CHR ''u''), NOSV_CH_SUBSYSTEM, ACT_PUSH, nosv_st ST_API_MUTEX_UNLOCK),
     ((CHR ''A'', CHR ''U''), NOSV_CH_SUBSYSTEM, ACT_POP, nosv_st ST_API_MUTEX_UNLOCK),
     ((CHR ''A'', CHR ''b''), NOSV_CH_SUBSYSTEM, ACT_PUSH, nosv_st ST_API_BARRIER_WAIT),
     ((CHR ''A'', CHR ''B''), NOSV_CH_SUBSYSTEM, ACT_POP, nosv_st ST_API_BARRIER_WAIT),
     ((CHR ''A'', CHR ''o''), NOSV_CH_SUBSYSTEM, ACT_PUSH, nosv_st ST_API_COND_WAIT),
     ((CHR ''A'', CHR ''O''), NOSV_CH_SUBSYSTEM, ACT_POP, nosv_st ST_API_COND_WAIT),
     ((CHR ''A'', CHR ''g''), NOSV_CH_SUBSYSTEM, ACT_PUSH, nosv_st ST_API_COND_SIGNAL),
     ((CHR ''A'', CHR ''G''), NOSV_CH_SUBSYSTEM, ACT_POP, nosv_st ST_API_COND_SIGNAL),
     ((CHR ''A'', CHR ''k''), NOSV_CH_SUBSYSTEM, ACT_PUSH, nosv_st ST_API_COND_BCAST),
     ((CHR ''A'', CHR ''K''), NOSV_CH_SUBSYSTEM, ACT_POP, nosv_st ST_API_COND_BCAST),
     ((CHR ''H'', CHR ''a''), NOSV_CH_SUBSYSTEM, ACT_IGN, 0),
     ((CHR ''H'', CHR ''A''), NOSV_CH_SUBSYSTEM, ACT_IGN, 0),
     ((CHR ''H'', CHR ''w''), NOSV_CH_SUBSYSTEM, ACT_PUSH, nosv_st ST_WORKER),
     ((CHR ''H'', CHR ''W''), NOSV_CH_SUBSYSTEM, ACT_POP, nosv_st ST_WORKER),
     ((CHR ''H'', CHR ''d''), NOSV_CH_SUBSYSTEM, ACT_PUSH, nosv_st ST_DELEGATE),
     ((CHR ''H'', CHR ''D''), NOSV_CH_SUBSYSTEM, ACT_POP, nosv_st ST_DELEGATE),
     ((CHR ''P'', CHR ''p''), NOSV_CH_IDLE, ACT_SET, nosv_progress_st ST_PROGRESSING),
     ((CHR ''P'', CHR ''r''), NOSV_CH_IDLE, ACT_SET, nosv_progress_st ST_RESTING),
     ((CHR ''P'', CHR ''a''), NOSV_CH_IDLE, ACT_SET, nosv_progress_st ST_ABSORBING)]"

subsection \<open>Task events\<close>

text \<open>The channels that show a running body, and what they show: \<open>p\<close> is the process and \<open>gid\<close> the identifier of the type.\<close>

definition nosv_view :: "proc \<Rightarrow> (body_ref \<times> 32 word) option \<Rightarrow> (nat \<times> chval) list" where
  "nosv_view p b =
     (let val = (\<lambda>f. case b of None \<Rightarrow> VALUE_NULL | Some (k, gid) \<Rightarrow> VALUE_INT64 (f k gid)) in
      [(NOSV_CH_BODYID, val (\<lambda>k gid. uint (body_id k))), (NOSV_CH_TASKID, val (\<lambda>k gid. uint (task_id (body_task k)))),
       (NOSV_CH_TYPE, val (\<lambda>k gid. uint gid)), (NOSV_CH_APPID, val (\<lambda>k gid. pr_appid p))]
      @ (if pr_rank p \<ge> 0 then [(NOSV_CH_RANK, val (\<lambda>k gid. pr_rank p + 1))] else []))"

definition nosv_chan_body_stopped :: "'x temu_scheme \<Rightarrow> 'x temu_scheme res" where
  "nosv_chan_body_stopped w = set_chans MODEL_V (nosv_view (procs w (em_proc w)) None) w"

definition nosv_chan_body_running :: "body_ref option \<Rightarrow> 'x temu_scheme \<Rightarrow> 'x temu_scheme res" where
  "nosv_chan_body_running body w =
     (case body of
        None \<Rightarrow> Inl (EEvent EvSwitchNull)
      | Some k \<Rightarrow>
          (case task_gid (body_task k) (em_tasks w) of
             None \<Rightarrow> Inl (EEvent EvSwitchNull)
           | Some gid \<Rightarrow>
               let proc = procs w (em_proc w) in
               if task_id (body_task k) = 0 then Inl (EEvent EvIdZero)
               else if gid = 0 then Inl (EEvent EvTypeGidZero)
               else if pr_appid proc \<le> 0 then Inl (EEvent EvAppidNotPositive)
               else set_chans MODEL_V (nosv_view proc (Some (k, gid))) w))"

definition nosv_chan_body_switch :: "body_ref option \<Rightarrow> body_ref option \<Rightarrow> 'x temu_scheme \<Rightarrow> 'x temu_scheme res" where
  "nosv_chan_body_switch bprev bnext w =
     (case (bprev, bnext) of
        (Some j, Some k) \<Rightarrow>
          if j = k then Inl (EEvent EvSwitchSame)
          else (case task_gid (body_task k) (em_tasks w) of
             None \<Rightarrow> Inl (EEvent EvSwitchNull)
           | Some gid \<Rightarrow>
               if task_id (body_task k) = 0 then Inl (EEvent EvIdZero)
               else if gid = 0 then Inl (EEvent EvTypeGidZero)
               else set_chans MODEL_V (nosv_view (procs w (em_proc w)) (Some (k, gid))) w)
      | _ \<Rightarrow> Inl (EEvent EvSwitchNull))"

definition nosv_update_task_state :: "'x temu_scheme \<Rightarrow> 'x temu_scheme res" where
  "nosv_update_task_state w =
     (if ev_payload_size (em_ev w) < 4 then Inl (EEvent EvPayloadSize)
      else if ev_payload_size (em_ev w) < 8 then Inl (EEvent EvPayloadSize)
      else let info = InfoRef MODEL_V (em_proc w); tid = payload_id 0 w; bid = payload_id 1 w in
        case task_find info tid (em_tasks w) of
          None \<Rightarrow> Inl (EEvent EvTaskNotFound)
        | Some task \<Rightarrow>
            if task_is_parallel task \<and> bid = 0 then Inl (EEvent EvBodyIdZero)
            else if \<not> task_is_parallel task \<and> bid \<noteq> 0 then Inl (EEvent EvBodyIdNotZero)
            else on_tasks (move_body (ev_v (em_ev w)) (StackRef MODEL_V (em_thread w)) (TaskRef info tid)
                   (if task_is_parallel task then bid else 1)) w)"

definition nosv_update_task_channels ::
  "byte \<Rightarrow> body_ref option \<Rightarrow> body_ref option \<Rightarrow> 'x temu_scheme \<Rightarrow> 'x temu_scheme res" where
  "nosv_update_task_channels =
     update_task_channels nosv_chan_body_running nosv_chan_body_stopped nosv_chan_body_switch"

definition nosv_update_task :: "'x temu_scheme \<Rightarrow> 'x temu_scheme res" where
  "nosv_update_task = update_task MODEL_V NOSV_CH_SUBSYSTEM (nosv_st ST_TASK_BODY) nosv_update_task_state nosv_update_task_channels"

definition nosv_create_task :: "byte \<Rightarrow> 'x temu_scheme \<Rightarrow> 'x temu_scheme res" where
  "nosv_create_task v w =
     (if ev_payload_size (em_ev w) < 8 then Inl (EEvent EvPayloadSize)
      else let is_parallel = (v = char_byte CHR ''C'');
               flags = (\<lambda>f. if is_parallel then f = TASK_FLAG_PARALLEL
                            else f = TASK_FLAG_RESURRECT \<or> f = TASK_FLAG_PAUSE)
           in on_tasks (task_create (InfoRef MODEL_V (em_proc w)) (payload_id 1 w) (payload_id 0 w) flags) w)"

definition nosv_pre_task :: "'x temu_scheme \<Rightarrow> 'x temu_scheme res" where
  "nosv_pre_task w =
     (let v = ev_v (em_ev w) in
      if v = char_byte CHR ''C'' \<or> v = char_byte CHR ''c'' then nosv_create_task v w
      else if v \<in> {char_byte CHR ''x'', char_byte CHR ''e'', char_byte CHR ''r'', char_byte CHR ''p''} then nosv_update_task w
      else Inl (EEvent EvUnknownValue))"

definition nosv_pre_type :: "(string \<Rightarrow> 32 word) \<Rightarrow> 'x temu_scheme \<Rightarrow> 'x temu_scheme res" where
  "nosv_pre_type hash = pre_type hash MODEL_V"

subsection \<open>Hardware counters\<close>

definition event_hwc_count :: "'x temu_scheme \<Rightarrow> 'x temu_scheme res" where
  "event_hwc_count w =
     (let p = em_payload w in
      if \<not> ev_is_jumbo (em_ev w) then Inl (EEvent EvNotJumbo)
      else if payload_u32 0 p \<noteq> em_nhwc w * 8 then Inl (EEvent EvHwcSize)
      else foldr_res (\<lambda>i. chan_set_at (HwcChan (em_thread w) i) (VALUE_INT64 (c_int64 (int (rd_u 8 (4 + 8 * i) p)))))
             [0..<em_nhwc w] w)"

definition hwc_event :: "'x temu_scheme \<Rightarrow> 'x temu_scheme res" where
  "hwc_event w =
     (if em_nhwc w = 0 then Inl (EEvent EvHwcNone)
      else if ev_v (em_ev w) = char_byte CHR ''C'' then event_hwc_count w
      else Inl (EEvent EvUnknownValue))"

subsection \<open>The handler of the model\<close>

definition nosv_simple :: "'x temu_scheme \<Rightarrow> 'x temu_scheme res" where
  "nosv_simple = simple_event MODEL_V nosv_ss_table"

definition nosv_process_ev :: "(string \<Rightarrow> 32 word) \<Rightarrow> 'x temu_scheme \<Rightarrow> 'x temu_scheme res" where
  "nosv_process_ev hash w =
     (let c = ev_c (em_ev w); th = threads w (em_thread w) in
      if \<not> th_is_active th then Inl (EThread ThreadNotActive)
      else if th_is_out_of_cpu th then Inl (EThread ThreadOutOfCpu)
      else if c \<in> char_byte ` set ''SUMHAP'' then nosv_simple w
      else if c = char_byte CHR ''T'' then nosv_pre_task w
      else if c = char_byte CHR ''Y'' then nosv_pre_type hash w
      else if c = char_byte CHR ''W'' then hwc_event w
      else Inl (EEvent EvUnknownCategory))"

definition model_nosv_event :: "(string \<Rightarrow> 32 word) \<Rightarrow> 'x temu_scheme \<Rightarrow> 'x temu_scheme res" where
  "model_nosv_event hash w =
     (if ev_m (em_ev w) \<noteq> char_byte CHR ''V'' then Inl (EEvent EvUnknownModel) else nosv_process_ev hash w)"

subsection \<open>The channels show the running body\<close>

interpretation nosv: task_view MODEL_V NOSV_CH_SUBSYSTEM "nosv_st ST_TASK_BODY" nosv_view nosv_update_task_state nosv_update_task_channels
proof
  fix w w' :: "'x temu_scheme"
  show "\<exists>t i. on_tasks (move_body (ev_v (em_ev w)) (StackRef MODEL_V (em_thread w)) t i) w = Inr w'"
    if "nosv_update_task_state w = Inr w'"
    using that by (auto simp: nosv_update_task_state_def Let_def split: if_splits option.splits)
next
  fix tr prev "next" and w w' :: "'x temu_scheme"
  assume ok: "nosv_update_task_channels tr prev next w = Inr w'"
  show "\<exists>cur. set_chans MODEL_V (nosv_view (procs w (em_proc w)) cur) w = Inr w'
      \<and> (if tr_runs tr then \<exists>k g. next = Some k \<and> task_gid (body_task k) (em_tasks w) = Some g \<and> cur = Some (k, g) else cur = None)"
    using ok by (auto simp: nosv_update_task_channels_def update_task_channels_def nosv_chan_body_running_def
        nosv_chan_body_stopped_def nosv_chan_body_switch_def tr_runs_def Let_def split: if_splits option.splits)
next
  show "distinct (map fst (nosv_view p b))" for p b
    by (simp add: nosv_view_def Let_def nosv_ch_defs)
qed

lemma nosv_view_keys: "fst ` set (nosv_view p b) \<subseteq> {NOSV_CH_BODYID, NOSV_CH_TASKID, NOSV_CH_TYPE, NOSV_CH_APPID, NOSV_CH_RANK}"
  by (auto simp: nosv_view_def Let_def)

lemma nosv_table_keys: "\<forall>e \<in> set nosv_ss_table. fst (snd e) \<in> {NOSV_CH_SUBSYSTEM, NOSV_CH_IDLE}"
  by (simp add: nosv_ss_table_def)

lemma nosv_table_view:
  assumes "e \<in> set nosv_ss_table"
  shows "fst (snd e) \<notin> fst ` set (nosv_view p b)"
proof
  assume "fst (snd e) \<in> fst ` set (nosv_view p b)"
  from subsetD [OF nosv_view_keys this] bspec [OF nosv_table_keys assms] show False by (auto simp: nosv_ch_defs)
qed

lemma hwc_event_writes:
  assumes "hwc_event w = Inr w'"
  shows "writes_only (range (HwcChan (em_thread w))) w w'"
proof -
  from assms have "foldr_res (\<lambda>i. chan_set_at (HwcChan (em_thread w) i) (VALUE_INT64 (c_int64 (int (rd_u 8 (4 + 8 * i) (em_payload w))))))
      [0..<em_nhwc w] w = Inr w'"
    by (auto simp: hwc_event_def event_hwc_count_def Let_def split: if_splits)
  then show ?thesis by (rule writes_only_foldr) (auto dest: chan_at_writes(1) intro: writes_only_mono)
qed

lemma nosv_pre_task_cases:
  assumes "nosv_pre_task w = Inr w'"
  obtains "ev_v (em_ev w) \<in> char_byte ` set ''xepr''" "nosv_update_task w = Inr w'"
  | info ty i fl where "on_tasks (task_create info ty i fl) w = Inr w'"
  using assms by (auto simp: nosv_pre_task_def nosv_create_task_def Let_def split: if_splits)

text \<open>The events of nOS-V keep what any model shows.\<close>

lemma nosv_event_shows:
  assumes sr: "shows_running m view w" and nosv: "shows_running MODEL_V nosv_view w"
    and eq: "m = MODEL_V \<Longrightarrow> view = nosv_view"
    and cur: "th_proc (threads w (em_thread w)) = Some (em_proc w)" and ok: "model_nosv_event hash w = Inr w'"
  shows "shows_running m view w'"
proof -
  have proc: "nosv_process_ev hash w = Inr w'" using ok by (simp add: model_nosv_event_def split: if_splits)
  consider "nosv_simple w = Inr w'" | "nosv_pre_task w = Inr w'" | "nosv_pre_type hash w = Inr w'" | "hwc_event w = Inr w'"
    using proc by (auto simp: nosv_process_ev_def Let_def split: if_splits)
  then show ?thesis
  proof cases
    case 1
    then show ?thesis unfolding nosv_simple_def by (rule simple_event_shows [OF sr]) (use eq nosv_table_view in blast)
  next
    case 2
    then show ?thesis
    proof (cases rule: nosv_pre_task_cases)
      case 1
      then show ?thesis
        using nosv.update_task_shows [OF nosv cur] nosv.update_task_others [OF sr _ shows_runningD(2) [OF nosv]] eq
        by (cases "m = MODEL_V") (simp_all add: nosv_update_task_def)
    next
      case 2
      then show ?thesis
        by (rule on_tasks_extends_shows [OF sr]) (rule task_create_extends [OF shows_runningD(1) [OF sr]])
    qed
  next
    case 3
    then show ?thesis unfolding nosv_pre_type_def by (rule pre_type_shows [OF sr])
  next
    case 4
    show ?thesis by (rule shows_running_writes [OF sr hwc_event_writes [OF 4]]) auto
  qed
qed

text \<open>C9. The task channels of nOS-V show what the task stack holds. If for every thread the channels of the body, the task, its
  type, the application and the rank have the values of the body that runs on the stack of the thread, or are null when
  none runs, then they still do after any event of the model that the emulator accepts.\<close>

theorem nosv_channels_show_running:
  assumes "shows_running MODEL_V nosv_view w" and "th_proc (threads w (em_thread w)) = Some (em_proc w)"
    and "model_nosv_event hash w = Inr w'"
  shows "shows_running MODEL_V nosv_view w'"
  using nosv_event_shows [OF assms(1,1) _ assms(2,3)] by simp

definition demo_nosv :: temu where
  "demo_nosv = demo_temu (\<lambda>i. i = NOSV_CH_SUBSYSTEM) (demo_tasks MODEL_V (\<lambda>f. f = TASK_FLAG_PAUSE)) ''VTx'' [5, 0, 0, 0, 0, 0, 0, 0]"

lemma demo_nosv_run:
  "res_get (\<lambda>w. map (\<lambda>i. chan_read_at (ModelChan 1 MODEL_V i) w) [0..<6]) (model_nosv_event (\<lambda>_. 0) demo_nosv)
     = Some (map VALUE_INT64 [1, 5, 2000, 1, 11, 3])"
  by code_simp

theorem nosv_channels_show_running_witness:
  "\<exists>w'. model_nosv_event (\<lambda>_. 0) demo_nosv = Inr w' \<and> shows_running MODEL_V nosv_view w'
     \<and> chan_read_at (ModelChan 1 MODEL_V NOSV_CH_TASKID) w' = VALUE_INT64 5"
proof -
  from demo_nosv_run obtain w' where w': "model_nosv_event (\<lambda>_. 0) demo_nosv = Inr w'"
    "chan_read_at (ModelChan 1 MODEL_V 1) w' = VALUE_INT64 5"
    by (auto simp: res_get_Some upt_rec)
  have "shows_running MODEL_V nosv_view demo_nosv"
    unfolding demo_nosv_def by (rule demo_shows) (auto simp: nosv_view_def Let_def split: if_splits)
  from nosv_channels_show_running [OF this _ w'(1)] w' show ?thesis by (simp add: demo_nosv_def NOSV_CH_TASKID_def)
qed

end
