(* ===== verification/Nanos6.thy ===== *)
theory Nanos6
  imports Task_Model
begin

text \<open>
  The events of Nanos6: \<^verbatim>\<open>src/emu/nanos6/event.c\<close>, with the states of \<^verbatim>\<open>nanos6_priv.h\<close>. Its tasks have one body, with
  the identifier 1, and they may nest inside a running one.
\<close>

subsection \<open>Channels and states\<close>

definition MODEL_6 :: nat where "MODEL_6 = 54"

definition NANOS6_CH_TASKID :: nat where "NANOS6_CH_TASKID = 0"
definition NANOS6_CH_TYPE :: nat where "NANOS6_CH_TYPE = 1"
definition NANOS6_CH_SUBSYSTEM :: nat where "NANOS6_CH_SUBSYSTEM = 2"
definition NANOS6_CH_RANK :: nat where "NANOS6_CH_RANK = 3"
definition NANOS6_CH_THREAD :: nat where "NANOS6_CH_THREAD = 4"
definition NANOS6_CH_IDLE :: nat where "NANOS6_CH_IDLE = 5"
definition NANOS6_CH_MAX :: nat where "NANOS6_CH_MAX = 6"

lemmas nanos6_ch_defs = NANOS6_CH_TASKID_def NANOS6_CH_TYPE_def NANOS6_CH_SUBSYSTEM_def NANOS6_CH_RANK_def NANOS6_CH_THREAD_def NANOS6_CH_IDLE_def NANOS6_CH_MAX_def

datatype nanos6_ss_state =
    ST_TASK_BODY | ST_UNKNOWN_SS | ST_TASK_CREATING | ST_TASK_SUBMIT | ST_TASK_SPAWNING | ST_TASK_FOR
  | ST_SCHED_ADDING | ST_SCHED_PROCESSING | ST_SCHED_SERVING | ST_DEP_REG | ST_DEP_UNREG | ST_BLK_TASKWAIT
  | ST_BLK_WAITFOR | ST_BLK_BLOCKING | ST_BLK_UNBLOCKING | ST_ALLOCATING | ST_FREEING | ST_HANDLING_TASK
  | ST_WORKER_LOOP | ST_SWITCH_TO | ST_MIGRATE | ST_SUSPEND | ST_RESUME | ST_SPONGE | EV_SCHED_RECV
  | EV_SCHED_SEND | EV_SCHED_SELF | EV_CPU_IDLE | EV_CPU_ACTIVE | EV_SIGNAL

primrec nanos6_st :: "nanos6_ss_state \<Rightarrow> int" where
  "nanos6_st ST_TASK_BODY = 1"
| "nanos6_st ST_UNKNOWN_SS = 2"
| "nanos6_st ST_TASK_CREATING = 3"
| "nanos6_st ST_TASK_SUBMIT = 4"
| "nanos6_st ST_TASK_SPAWNING = 5"
| "nanos6_st ST_TASK_FOR = 6"
| "nanos6_st ST_SCHED_ADDING = 7"
| "nanos6_st ST_SCHED_PROCESSING = 8"
| "nanos6_st ST_SCHED_SERVING = 9"
| "nanos6_st ST_DEP_REG = 10"
| "nanos6_st ST_DEP_UNREG = 11"
| "nanos6_st ST_BLK_TASKWAIT = 12"
| "nanos6_st ST_BLK_WAITFOR = 13"
| "nanos6_st ST_BLK_BLOCKING = 14"
| "nanos6_st ST_BLK_UNBLOCKING = 15"
| "nanos6_st ST_ALLOCATING = 16"
| "nanos6_st ST_FREEING = 17"
| "nanos6_st ST_HANDLING_TASK = 18"
| "nanos6_st ST_WORKER_LOOP = 19"
| "nanos6_st ST_SWITCH_TO = 20"
| "nanos6_st ST_MIGRATE = 21"
| "nanos6_st ST_SUSPEND = 22"
| "nanos6_st ST_RESUME = 23"
| "nanos6_st ST_SPONGE = 24"
| "nanos6_st EV_SCHED_RECV = 60"
| "nanos6_st EV_SCHED_SEND = 61"
| "nanos6_st EV_SCHED_SELF = 62"
| "nanos6_st EV_CPU_IDLE = 63"
| "nanos6_st EV_CPU_ACTIVE = 64"
| "nanos6_st EV_SIGNAL = 65"

datatype nanos6_thread_type =
    ST_TH_LEADER | ST_TH_MAIN | ST_TH_WORKER | ST_TH_EXTERNAL

primrec nanos6_thread_st :: "nanos6_thread_type \<Rightarrow> int" where
  "nanos6_thread_st ST_TH_LEADER = 1"
| "nanos6_thread_st ST_TH_MAIN = 2"
| "nanos6_thread_st ST_TH_WORKER = 3"
| "nanos6_thread_st ST_TH_EXTERNAL = 4"

datatype nanos6_progress =
    ST_PROGRESSING | ST_RESTING | ST_ABSORBING

primrec nanos6_progress_st :: "nanos6_progress \<Rightarrow> int" where
  "nanos6_progress_st ST_PROGRESSING = 100"
| "nanos6_progress_st ST_RESTING = 101"
| "nanos6_progress_st ST_ABSORBING = 102"

definition nanos6_ss_table :: ss_table where
  "nanos6_ss_table = [
     ((CHR ''W'', CHR ''[''), NANOS6_CH_SUBSYSTEM, ACT_PUSH, nanos6_st ST_WORKER_LOOP),
     ((CHR ''W'', CHR '']''), NANOS6_CH_SUBSYSTEM, ACT_POP, nanos6_st ST_WORKER_LOOP),
     ((CHR ''W'', CHR ''t''), NANOS6_CH_SUBSYSTEM, ACT_PUSH, nanos6_st ST_HANDLING_TASK),
     ((CHR ''W'', CHR ''T''), NANOS6_CH_SUBSYSTEM, ACT_POP, nanos6_st ST_HANDLING_TASK),
     ((CHR ''W'', CHR ''w''), NANOS6_CH_SUBSYSTEM, ACT_PUSH, nanos6_st ST_SWITCH_TO),
     ((CHR ''W'', CHR ''W''), NANOS6_CH_SUBSYSTEM, ACT_POP, nanos6_st ST_SWITCH_TO),
     ((CHR ''W'', CHR ''m''), NANOS6_CH_SUBSYSTEM, ACT_PUSH, nanos6_st ST_MIGRATE),
     ((CHR ''W'', CHR ''M''), NANOS6_CH_SUBSYSTEM, ACT_POP, nanos6_st ST_MIGRATE),
     ((CHR ''W'', CHR ''s''), NANOS6_CH_SUBSYSTEM, ACT_PUSH, nanos6_st ST_SUSPEND),
     ((CHR ''W'', CHR ''S''), NANOS6_CH_SUBSYSTEM, ACT_POP, nanos6_st ST_SUSPEND),
     ((CHR ''W'', CHR ''r''), NANOS6_CH_SUBSYSTEM, ACT_PUSH, nanos6_st ST_RESUME),
     ((CHR ''W'', CHR ''R''), NANOS6_CH_SUBSYSTEM, ACT_POP, nanos6_st ST_RESUME),
     ((CHR ''W'', CHR ''g''), NANOS6_CH_SUBSYSTEM, ACT_PUSH, nanos6_st ST_SPONGE),
     ((CHR ''W'', CHR ''G''), NANOS6_CH_SUBSYSTEM, ACT_POP, nanos6_st ST_SPONGE),
     ((CHR ''W'', CHR ''*''), NANOS6_CH_SUBSYSTEM, ACT_IGN, -1),
     ((CHR ''P'', CHR ''p''), NANOS6_CH_IDLE, ACT_SET, nanos6_progress_st ST_PROGRESSING),
     ((CHR ''P'', CHR ''r''), NANOS6_CH_IDLE, ACT_SET, nanos6_progress_st ST_RESTING),
     ((CHR ''P'', CHR ''a''), NANOS6_CH_IDLE, ACT_SET, nanos6_progress_st ST_ABSORBING),
     ((CHR ''C'', CHR ''[''), NANOS6_CH_SUBSYSTEM, ACT_PUSH, nanos6_st ST_TASK_CREATING),
     ((CHR ''C'', CHR '']''), NANOS6_CH_SUBSYSTEM, ACT_POP, nanos6_st ST_TASK_CREATING),
     ((CHR ''U'', CHR ''[''), NANOS6_CH_SUBSYSTEM, ACT_PUSH, nanos6_st ST_TASK_SUBMIT),
     ((CHR ''U'', CHR '']''), NANOS6_CH_SUBSYSTEM, ACT_POP, nanos6_st ST_TASK_SUBMIT),
     ((CHR ''F'', CHR ''[''), NANOS6_CH_SUBSYSTEM, ACT_PUSH, nanos6_st ST_TASK_SPAWNING),
     ((CHR ''F'', CHR '']''), NANOS6_CH_SUBSYSTEM, ACT_POP, nanos6_st ST_TASK_SPAWNING),
     ((CHR ''O'', CHR ''[''), NANOS6_CH_SUBSYSTEM, ACT_PUSH, nanos6_st ST_TASK_FOR),
     ((CHR ''O'', CHR '']''), NANOS6_CH_SUBSYSTEM, ACT_POP, nanos6_st ST_TASK_FOR),
     ((CHR ''t'', CHR ''[''), NANOS6_CH_SUBSYSTEM, ACT_IGN, -1),
     ((CHR ''t'', CHR '']''), NANOS6_CH_SUBSYSTEM, ACT_IGN, -1),
     ((CHR ''M'', CHR ''a''), NANOS6_CH_SUBSYSTEM, ACT_PUSH, nanos6_st ST_ALLOCATING),
     ((CHR ''M'', CHR ''A''), NANOS6_CH_SUBSYSTEM, ACT_POP, nanos6_st ST_ALLOCATING),
     ((CHR ''M'', CHR ''f''), NANOS6_CH_SUBSYSTEM, ACT_PUSH, nanos6_st ST_FREEING),
     ((CHR ''M'', CHR ''F''), NANOS6_CH_SUBSYSTEM, ACT_POP, nanos6_st ST_FREEING),
     ((CHR ''D'', CHR ''r''), NANOS6_CH_SUBSYSTEM, ACT_PUSH, nanos6_st ST_DEP_REG),
     ((CHR ''D'', CHR ''R''), NANOS6_CH_SUBSYSTEM, ACT_POP, nanos6_st ST_DEP_REG),
     ((CHR ''D'', CHR ''u''), NANOS6_CH_SUBSYSTEM, ACT_PUSH, nanos6_st ST_DEP_UNREG),
     ((CHR ''D'', CHR ''U''), NANOS6_CH_SUBSYSTEM, ACT_POP, nanos6_st ST_DEP_UNREG),
     ((CHR ''S'', CHR ''[''), NANOS6_CH_SUBSYSTEM, ACT_PUSH, nanos6_st ST_SCHED_SERVING),
     ((CHR ''S'', CHR '']''), NANOS6_CH_SUBSYSTEM, ACT_POP, nanos6_st ST_SCHED_SERVING),
     ((CHR ''S'', CHR ''a''), NANOS6_CH_SUBSYSTEM, ACT_PUSH, nanos6_st ST_SCHED_ADDING),
     ((CHR ''S'', CHR ''A''), NANOS6_CH_SUBSYSTEM, ACT_POP, nanos6_st ST_SCHED_ADDING),
     ((CHR ''S'', CHR ''p''), NANOS6_CH_SUBSYSTEM, ACT_PUSH, nanos6_st ST_SCHED_PROCESSING),
     ((CHR ''S'', CHR ''P''), NANOS6_CH_SUBSYSTEM, ACT_POP, nanos6_st ST_SCHED_PROCESSING),
     ((CHR ''S'', CHR ''@''), NANOS6_CH_SUBSYSTEM, ACT_IGN, -1),
     ((CHR ''S'', CHR ''r''), NANOS6_CH_SUBSYSTEM, ACT_IGN, -1),
     ((CHR ''S'', CHR ''s''), NANOS6_CH_SUBSYSTEM, ACT_IGN, -1),
     ((CHR ''B'', CHR ''b''), NANOS6_CH_SUBSYSTEM, ACT_PUSH, nanos6_st ST_BLK_BLOCKING),
     ((CHR ''B'', CHR ''B''), NANOS6_CH_SUBSYSTEM, ACT_POP, nanos6_st ST_BLK_BLOCKING),
     ((CHR ''B'', CHR ''u''), NANOS6_CH_SUBSYSTEM, ACT_PUSH, nanos6_st ST_BLK_UNBLOCKING),
     ((CHR ''B'', CHR ''U''), NANOS6_CH_SUBSYSTEM, ACT_POP, nanos6_st ST_BLK_UNBLOCKING),
     ((CHR ''B'', CHR ''w''), NANOS6_CH_SUBSYSTEM, ACT_PUSH, nanos6_st ST_BLK_TASKWAIT),
     ((CHR ''B'', CHR ''W''), NANOS6_CH_SUBSYSTEM, ACT_POP, nanos6_st ST_BLK_TASKWAIT),
     ((CHR ''B'', CHR ''f''), NANOS6_CH_SUBSYSTEM, ACT_PUSH, nanos6_st ST_BLK_WAITFOR),
     ((CHR ''B'', CHR ''F''), NANOS6_CH_SUBSYSTEM, ACT_POP, nanos6_st ST_BLK_WAITFOR),
     ((CHR ''H'', CHR ''e''), NANOS6_CH_THREAD, ACT_PUSH, nanos6_thread_st ST_TH_EXTERNAL),
     ((CHR ''H'', CHR ''E''), NANOS6_CH_THREAD, ACT_POP, nanos6_thread_st ST_TH_EXTERNAL),
     ((CHR ''H'', CHR ''w''), NANOS6_CH_THREAD, ACT_PUSH, nanos6_thread_st ST_TH_WORKER),
     ((CHR ''H'', CHR ''W''), NANOS6_CH_THREAD, ACT_POP, nanos6_thread_st ST_TH_WORKER),
     ((CHR ''H'', CHR ''l''), NANOS6_CH_THREAD, ACT_PUSH, nanos6_thread_st ST_TH_LEADER),
     ((CHR ''H'', CHR ''L''), NANOS6_CH_THREAD, ACT_POP, nanos6_thread_st ST_TH_LEADER),
     ((CHR ''H'', CHR ''m''), NANOS6_CH_THREAD, ACT_PUSH, nanos6_thread_st ST_TH_MAIN),
     ((CHR ''H'', CHR ''M''), NANOS6_CH_THREAD, ACT_POP, nanos6_thread_st ST_TH_MAIN)]"

subsection \<open>Task events\<close>

definition nanos6_view :: "proc \<Rightarrow> (body_ref \<times> 32 word) option \<Rightarrow> (nat \<times> chval) list" where
  "nanos6_view p b =
     (let val = (\<lambda>f. case b of None \<Rightarrow> VALUE_NULL | Some (k, gid) \<Rightarrow> VALUE_INT64 (f k gid)) in
      [(NANOS6_CH_TASKID, val (\<lambda>k gid. uint (task_id (body_task k)))), (NANOS6_CH_TYPE, val (\<lambda>k gid. uint gid))]
      @ (if pr_rank p \<ge> 0 then [(NANOS6_CH_RANK, val (\<lambda>k gid. pr_rank p + 1))] else []))"

definition nanos6_chan_task_stopped :: "'x temu_scheme \<Rightarrow> 'x temu_scheme res" where
  "nanos6_chan_task_stopped w = set_chans MODEL_6 (nanos6_view (procs w (em_proc w)) None) w"

definition nanos6_chan_task_running :: "body_ref option \<Rightarrow> 'x temu_scheme \<Rightarrow> 'x temu_scheme res" where
  "nanos6_chan_task_running body w =
     (case body of
        None \<Rightarrow> Inl (EEvent EvSwitchNull)
      | Some k \<Rightarrow>
          (case task_gid (body_task k) (em_tasks w) of
             None \<Rightarrow> Inl (EEvent EvSwitchNull)
           | Some gid \<Rightarrow>
               if task_id (body_task k) = 0 then Inl (EEvent EvIdZero)
               else if gid = 0 then Inl (EEvent EvTypeGidZero)
               else set_chans MODEL_6 (nanos6_view (procs w (em_proc w)) (Some (k, gid))) w))"

definition nanos6_chan_task_switch :: "body_ref option \<Rightarrow> body_ref option \<Rightarrow> 'x temu_scheme \<Rightarrow> 'x temu_scheme res" where
  "nanos6_chan_task_switch bprev bnext w =
     (case (bprev, bnext) of
        (Some j, Some k) \<Rightarrow>
          if body_task j = body_task k then Inl (EEvent EvSwitchSame)
          else (case task_gid (body_task k) (em_tasks w) of
             None \<Rightarrow> Inl (EEvent EvSwitchNull)
           | Some gid \<Rightarrow>
               if task_id (body_task k) = 0 then Inl (EEvent EvIdZero)
               else if gid = 0 then Inl (EEvent EvTypeGidZero)
               else set_chans MODEL_6 (nanos6_view (procs w (em_proc w)) (Some (k, gid))) w)
      | _ \<Rightarrow> Inl (EEvent EvSwitchNull))"

definition nanos6_update_task_state :: "'x temu_scheme \<Rightarrow> 'x temu_scheme res" where
  "nanos6_update_task_state w =
     (if ev_payload_size (em_ev w) < 4 then Inl (EEvent EvPayloadSize)
      else let info = InfoRef MODEL_6 (em_proc w); tid = payload_id 0 w in
        case task_find info tid (em_tasks w) of
          None \<Rightarrow> Inl (EEvent EvTaskNotFound)
        | Some task \<Rightarrow>
            on_tasks (move_body (ev_v (em_ev w)) (StackRef MODEL_6 (em_thread w)) (TaskRef info tid) 1) w)"

definition nanos6_update_task_channels ::
  "byte \<Rightarrow> body_ref option \<Rightarrow> body_ref option \<Rightarrow> 'x temu_scheme \<Rightarrow> 'x temu_scheme res" where
  "nanos6_update_task_channels =
     update_task_channels nanos6_chan_task_running nanos6_chan_task_stopped nanos6_chan_task_switch"

definition nanos6_update_task :: "'x temu_scheme \<Rightarrow> 'x temu_scheme res" where
  "nanos6_update_task =
     update_task MODEL_6 NANOS6_CH_SUBSYSTEM (nanos6_st ST_TASK_BODY) nanos6_update_task_state nanos6_update_task_channels"

definition nanos6_create_task :: "'x temu_scheme \<Rightarrow> 'x temu_scheme res" where
  "nanos6_create_task w =
     (if ev_payload_size (em_ev w) \<noteq> 8 then Inl (EEvent EvPayloadSize)
      else on_tasks (task_create (InfoRef MODEL_6 (em_proc w)) (payload_id 1 w) (payload_id 0 w)
             (\<lambda>f. f = TASK_FLAG_PAUSE \<or> f = TASK_FLAG_RELAX_NESTING)) w)"

definition nanos6_pre_task :: "'x temu_scheme \<Rightarrow> 'x temu_scheme res" where
  "nanos6_pre_task w =
     (let v = ev_v (em_ev w) in
      if v = char_byte CHR ''C'' then Inr w
      else if v = char_byte CHR ''c'' then nanos6_create_task w
      else if v \<in> {char_byte CHR ''x'', char_byte CHR ''e'', char_byte CHR ''r'', char_byte CHR ''p''} then nanos6_update_task w
      else Inl (EEvent EvUnknownValue))"

definition nanos6_pre_type :: "(string \<Rightarrow> 32 word) \<Rightarrow> 'x temu_scheme \<Rightarrow> 'x temu_scheme res" where
  "nanos6_pre_type hash = pre_type hash MODEL_6"

subsection \<open>The handler of the model\<close>

definition nanos6_simple :: "'x temu_scheme \<Rightarrow> 'x temu_scheme res" where
  "nanos6_simple = simple_event MODEL_6 nanos6_ss_table"

definition nanos6_process_ev :: "(string \<Rightarrow> 32 word) \<Rightarrow> 'x temu_scheme \<Rightarrow> 'x temu_scheme res" where
  "nanos6_process_ev hash w =
     (let c = ev_c (em_ev w) in
      if \<not> th_is_active (threads w (em_thread w)) then Inl (EThread ThreadNotActive)
      else if c \<in> char_byte ` set ''CSUFOtHDBWMP'' then nanos6_simple w
      else if c = char_byte CHR ''T'' then nanos6_pre_task w
      else if c = char_byte CHR ''Y'' then nanos6_pre_type hash w
      else Inl (EEvent EvUnknownCategory))"

definition model_nanos6_event :: "(string \<Rightarrow> 32 word) \<Rightarrow> 'x temu_scheme \<Rightarrow> 'x temu_scheme res" where
  "model_nanos6_event hash w =
     (if ev_m (em_ev w) \<noteq> char_byte CHR ''6'' then Inl (EEvent EvUnknownModel) else nanos6_process_ev hash w)"

subsection \<open>The channels show the running task\<close>

interpretation nanos6: task_view MODEL_6 NANOS6_CH_SUBSYSTEM "nanos6_st ST_TASK_BODY" nanos6_view
  nanos6_update_task_state nanos6_update_task_channels
proof
  fix w w' :: "'x temu_scheme"
  show "\<exists>t i. on_tasks (move_body (ev_v (em_ev w)) (StackRef MODEL_6 (em_thread w)) t i) w = Inr w'"
    if "nanos6_update_task_state w = Inr w'"
    using that by (auto simp: nanos6_update_task_state_def Let_def split: if_splits option.splits)
next
  fix tr prev "next" and w w' :: "'x temu_scheme"
  assume ok: "nanos6_update_task_channels tr prev next w = Inr w'"
  show "\<exists>cur. set_chans MODEL_6 (nanos6_view (procs w (em_proc w)) cur) w = Inr w'
      \<and> (if tr_runs tr then \<exists>k g. next = Some k \<and> task_gid (body_task k) (em_tasks w) = Some g \<and> cur = Some (k, g) else cur = None)"
    using ok by (auto simp: nanos6_update_task_channels_def update_task_channels_def nanos6_chan_task_running_def
        nanos6_chan_task_stopped_def nanos6_chan_task_switch_def tr_runs_def Let_def split: if_splits option.splits)
next
  show "distinct (map fst (nanos6_view p b))" for p b
    by (simp add: nanos6_view_def Let_def nanos6_ch_defs)
qed

lemma nanos6_table_keys: "\<forall>e \<in> set nanos6_ss_table. fst (snd e) \<in> {NANOS6_CH_SUBSYSTEM, NANOS6_CH_THREAD, NANOS6_CH_IDLE}"
  by (simp add: nanos6_ss_table_def)

lemma nanos6_view_keys: "fst ` set (nanos6_view p b) \<subseteq> {NANOS6_CH_TASKID, NANOS6_CH_TYPE, NANOS6_CH_RANK}"
  by (auto simp: nanos6_view_def Let_def)

lemma nanos6_table_view:
  assumes "e \<in> set nanos6_ss_table"
  shows "fst (snd e) \<notin> fst ` set (nanos6_view p b)"
proof
  assume "fst (snd e) \<in> fst ` set (nanos6_view p b)"
  from subsetD [OF nanos6_view_keys this] bspec [OF nanos6_table_keys assms] show False by (auto simp: nanos6_ch_defs)
qed

lemma nanos6_pre_task_cases:
  assumes "nanos6_pre_task w = Inr w'"
  obtains "ev_v (em_ev w) \<in> char_byte ` set ''xepr''" "nanos6_update_task w = Inr w'"
  | info ty i fl where "on_tasks (task_create info ty i fl) w = Inr w'"
  | "w' = w"
proof -
  let ?v = "ev_v (em_ev w)"
  have "?v = char_byte CHR ''C'' \<and> w' = w \<or> ?v = char_byte CHR ''c'' \<and> nanos6_create_task w = Inr w'
      \<or> ?v \<in> char_byte ` set ''xepr'' \<and> nanos6_update_task w = Inr w'"
    using assms unfolding nanos6_pre_task_def Let_def by (simp split: if_splits) blast
  then show ?thesis using that by (auto simp: nanos6_create_task_def split: if_splits)
qed

lemma nanos6_event_shows:
  assumes sr: "shows_running m view w" and n6: "shows_running MODEL_6 nanos6_view w"
    and eq: "m = MODEL_6 \<Longrightarrow> view = nanos6_view"
    and cur: "th_proc (threads w (em_thread w)) = Some (em_proc w)" and ok: "model_nanos6_event hash w = Inr w'"
  shows "shows_running m view w'"
proof -
  have proc: "nanos6_process_ev hash w = Inr w'" using ok by (simp add: model_nanos6_event_def split: if_splits)
  consider "nanos6_simple w = Inr w'" | "nanos6_pre_task w = Inr w'" | "nanos6_pre_type hash w = Inr w'"
    using proc by (auto simp: nanos6_process_ev_def Let_def split: if_splits)
  then show ?thesis
  proof cases
    case 1
    then show ?thesis unfolding nanos6_simple_def by (rule simple_event_shows [OF sr]) (use eq nanos6_table_view in blast)
  next
    case 2
    then show ?thesis
    proof (cases rule: nanos6_pre_task_cases)
      case 1
      then show ?thesis
        using nanos6.update_task_shows [OF n6 cur] nanos6.update_task_others [OF sr _ shows_runningD(2) [OF n6]] eq
        by (cases "m = MODEL_6") (simp_all add: nanos6_update_task_def)
    next
      case 2
      then show ?thesis
        by (rule on_tasks_extends_shows [OF sr]) (rule task_create_extends [OF shows_runningD(1) [OF sr]])
    qed (use sr in simp)
  next
    case 3
    then show ?thesis unfolding nanos6_pre_type_def by (rule pre_type_shows [OF sr])
  qed
qed

text \<open>C11. The task channels of Nanos6 show what the task stack holds, also when tasks are executed inside another one that is still
  running: after any accepted event the channels of the task, its type and the rank of every thread have the values
  of the body that runs on top of the stack of the thread, or are null when none runs.\<close>

theorem nanos6_channels_show_running:
  assumes "shows_running MODEL_6 nanos6_view w" and "th_proc (threads w (em_thread w)) = Some (em_proc w)"
    and "model_nanos6_event hash w = Inr w'"
  shows "shows_running MODEL_6 nanos6_view w'"
  using nanos6_event_shows [OF assms(1,1) _ assms(2,3)] by simp

definition demo_nanos6 :: temu where
  "demo_nanos6 = demo_temu (\<lambda>i. i = NANOS6_CH_SUBSYSTEM) (demo_tasks MODEL_6 (\<lambda>f. f = TASK_FLAG_PAUSE)) ''6Tx'' [5, 0, 0, 0]"

lemma demo_nanos6_run:
  "res_get (\<lambda>w. map (\<lambda>i. chan_read_at (ModelChan 1 MODEL_6 i) w) [0..<4]) (model_nanos6_event (\<lambda>_. 0) demo_nanos6)
     = Some (map VALUE_INT64 [5, 2000, 1, 3])"
  by code_simp

theorem nanos6_channels_show_running_witness:
  "\<exists>w'. model_nanos6_event (\<lambda>_. 0) demo_nanos6 = Inr w' \<and> shows_running MODEL_6 nanos6_view w'
     \<and> chan_read_at (ModelChan 1 MODEL_6 NANOS6_CH_TASKID) w' = VALUE_INT64 5"
proof -
  from demo_nanos6_run obtain w' where w': "model_nanos6_event (\<lambda>_. 0) demo_nanos6 = Inr w'"
    "chan_read_at (ModelChan 1 MODEL_6 0) w' = VALUE_INT64 5"
    by (auto simp: res_get_Some upt_rec)
  have "shows_running MODEL_6 nanos6_view demo_nanos6"
    unfolding demo_nanos6_def by (rule demo_shows) (auto simp: nanos6_view_def Let_def split: if_splits)
  from nanos6_channels_show_running [OF this _ w'(1)] w' show ?thesis by (simp add: demo_nanos6_def NANOS6_CH_TASKID_def)
qed

end
