(* ===== verification/Openmp.thy ===== *)
theory Openmp
  imports Task_Model
begin

text \<open>
  The events of OpenMP: \<^verbatim>\<open>src/emu/openmp/event.c\<close>, with the states of \<^verbatim>\<open>openmp_priv.h\<close>. The channels of the task and of its
  label are stacks: executing a task pushes on them and ending it pops. Worksharings use the label too.
\<close>

subsection \<open>Channels and states\<close>

definition MODEL_P :: nat where "MODEL_P = 80"

definition OMP_CH_SUBSYSTEM :: nat where "OMP_CH_SUBSYSTEM = 0"
definition OMP_CH_LABEL :: nat where "OMP_CH_LABEL = 1"
definition OMP_CH_TASKID :: nat where "OMP_CH_TASKID = 2"
definition OMP_CH_MAX :: nat where "OMP_CH_MAX = 3"

lemmas omp_ch_defs = OMP_CH_SUBSYSTEM_def OMP_CH_LABEL_def OMP_CH_TASKID_def OMP_CH_MAX_def

datatype openmp_function_values =
    ST_BARRIER_FORK | ST_BARRIER_JOIN | ST_BARRIER_PLAIN | ST_BARRIER_SPIN_WAIT | ST_BARRIER_TASK
  | ST_CRITICAL_ACQ | ST_CRITICAL_REL | ST_CRITICAL_SECTION | ST_WD_DISTRIBUTE | ST_WD_FOR_DYNAMIC_CHUNK
  | ST_WD_FOR_DYNAMIC_INIT | ST_WD_FOR_STATIC | ST_WD_SECTION | ST_WD_SINGLE | ST_TASK_ALLOC
  | ST_TASK_CHECK_DEPS | ST_TASK_DUP_ALLOC | ST_TASK_RELEASE_DEPS | ST_TASK_RUN | ST_TASK_RUN_IF0
  | ST_TASK_SCHEDULE | ST_TASK_TASKGROUP | ST_TASK_TASKWAIT | ST_TASK_TASKWAIT_DEPS | ST_TASK_TASKYIELD
  | ST_RT_ATTACHED | ST_RT_FORK_CALL | ST_RT_INIT | ST_RT_MICROTASK_INTERNAL | ST_RT_MICROTASK_USER
  | ST_RT_WORKER_LOOP

primrec openmp_st :: "openmp_function_values \<Rightarrow> int" where
  "openmp_st ST_BARRIER_FORK = 1"
| "openmp_st ST_BARRIER_JOIN = 2"
| "openmp_st ST_BARRIER_PLAIN = 3"
| "openmp_st ST_BARRIER_SPIN_WAIT = 4"
| "openmp_st ST_BARRIER_TASK = 5"
| "openmp_st ST_CRITICAL_ACQ = 6"
| "openmp_st ST_CRITICAL_REL = 7"
| "openmp_st ST_CRITICAL_SECTION = 8"
| "openmp_st ST_WD_DISTRIBUTE = 9"
| "openmp_st ST_WD_FOR_DYNAMIC_CHUNK = 10"
| "openmp_st ST_WD_FOR_DYNAMIC_INIT = 11"
| "openmp_st ST_WD_FOR_STATIC = 12"
| "openmp_st ST_WD_SECTION = 13"
| "openmp_st ST_WD_SINGLE = 14"
| "openmp_st ST_TASK_ALLOC = 15"
| "openmp_st ST_TASK_CHECK_DEPS = 16"
| "openmp_st ST_TASK_DUP_ALLOC = 17"
| "openmp_st ST_TASK_RELEASE_DEPS = 18"
| "openmp_st ST_TASK_RUN = 19"
| "openmp_st ST_TASK_RUN_IF0 = 20"
| "openmp_st ST_TASK_SCHEDULE = 21"
| "openmp_st ST_TASK_TASKGROUP = 22"
| "openmp_st ST_TASK_TASKWAIT = 23"
| "openmp_st ST_TASK_TASKWAIT_DEPS = 24"
| "openmp_st ST_TASK_TASKYIELD = 25"
| "openmp_st ST_RT_ATTACHED = 26"
| "openmp_st ST_RT_FORK_CALL = 27"
| "openmp_st ST_RT_INIT = 28"
| "openmp_st ST_RT_MICROTASK_INTERNAL = 29"
| "openmp_st ST_RT_MICROTASK_USER = 30"
| "openmp_st ST_RT_WORKER_LOOP = 31"

definition openmp_fn_table :: ss_table where
  "openmp_fn_table = [
     ((CHR ''B'', CHR ''b''), OMP_CH_SUBSYSTEM, ACT_PUSH, openmp_st ST_BARRIER_PLAIN),
     ((CHR ''B'', CHR ''B''), OMP_CH_SUBSYSTEM, ACT_POP, openmp_st ST_BARRIER_PLAIN),
     ((CHR ''B'', CHR ''j''), OMP_CH_SUBSYSTEM, ACT_PUSH, openmp_st ST_BARRIER_JOIN),
     ((CHR ''B'', CHR ''J''), OMP_CH_SUBSYSTEM, ACT_POP, openmp_st ST_BARRIER_JOIN),
     ((CHR ''B'', CHR ''f''), OMP_CH_SUBSYSTEM, ACT_PUSH, openmp_st ST_BARRIER_FORK),
     ((CHR ''B'', CHR ''F''), OMP_CH_SUBSYSTEM, ACT_POP, openmp_st ST_BARRIER_FORK),
     ((CHR ''B'', CHR ''t''), OMP_CH_SUBSYSTEM, ACT_PUSH, openmp_st ST_BARRIER_TASK),
     ((CHR ''B'', CHR ''T''), OMP_CH_SUBSYSTEM, ACT_POP, openmp_st ST_BARRIER_TASK),
     ((CHR ''B'', CHR ''s''), OMP_CH_SUBSYSTEM, ACT_IGN, openmp_st ST_BARRIER_SPIN_WAIT),
     ((CHR ''B'', CHR ''S''), OMP_CH_SUBSYSTEM, ACT_IGN, openmp_st ST_BARRIER_SPIN_WAIT),
     ((CHR ''I'', CHR ''a''), OMP_CH_SUBSYSTEM, ACT_PUSH, openmp_st ST_CRITICAL_ACQ),
     ((CHR ''I'', CHR ''A''), OMP_CH_SUBSYSTEM, ACT_POP, openmp_st ST_CRITICAL_ACQ),
     ((CHR ''I'', CHR ''r''), OMP_CH_SUBSYSTEM, ACT_PUSH, openmp_st ST_CRITICAL_REL),
     ((CHR ''I'', CHR ''R''), OMP_CH_SUBSYSTEM, ACT_POP, openmp_st ST_CRITICAL_REL),
     ((CHR ''I'', CHR ''[''), OMP_CH_SUBSYSTEM, ACT_PUSH, openmp_st ST_CRITICAL_SECTION),
     ((CHR ''I'', CHR '']''), OMP_CH_SUBSYSTEM, ACT_POP, openmp_st ST_CRITICAL_SECTION),
     ((CHR ''W'', CHR ''d''), OMP_CH_SUBSYSTEM, ACT_PUSH, openmp_st ST_WD_DISTRIBUTE),
     ((CHR ''W'', CHR ''D''), OMP_CH_SUBSYSTEM, ACT_POP, openmp_st ST_WD_DISTRIBUTE),
     ((CHR ''W'', CHR ''c''), OMP_CH_SUBSYSTEM, ACT_PUSH, openmp_st ST_WD_FOR_DYNAMIC_CHUNK),
     ((CHR ''W'', CHR ''C''), OMP_CH_SUBSYSTEM, ACT_POP, openmp_st ST_WD_FOR_DYNAMIC_CHUNK),
     ((CHR ''W'', CHR ''y''), OMP_CH_SUBSYSTEM, ACT_PUSH, openmp_st ST_WD_FOR_DYNAMIC_INIT),
     ((CHR ''W'', CHR ''Y''), OMP_CH_SUBSYSTEM, ACT_POP, openmp_st ST_WD_FOR_DYNAMIC_INIT),
     ((CHR ''W'', CHR ''s''), OMP_CH_SUBSYSTEM, ACT_PUSH, openmp_st ST_WD_FOR_STATIC),
     ((CHR ''W'', CHR ''S''), OMP_CH_SUBSYSTEM, ACT_POP, openmp_st ST_WD_FOR_STATIC),
     ((CHR ''W'', CHR ''e''), OMP_CH_SUBSYSTEM, ACT_PUSH, openmp_st ST_WD_SECTION),
     ((CHR ''W'', CHR ''E''), OMP_CH_SUBSYSTEM, ACT_POP, openmp_st ST_WD_SECTION),
     ((CHR ''W'', CHR ''i''), OMP_CH_SUBSYSTEM, ACT_PUSH, openmp_st ST_WD_SINGLE),
     ((CHR ''W'', CHR ''I''), OMP_CH_SUBSYSTEM, ACT_POP, openmp_st ST_WD_SINGLE),
     ((CHR ''T'', CHR ''a''), OMP_CH_SUBSYSTEM, ACT_PUSH, openmp_st ST_TASK_ALLOC),
     ((CHR ''T'', CHR ''A''), OMP_CH_SUBSYSTEM, ACT_POP, openmp_st ST_TASK_ALLOC),
     ((CHR ''T'', CHR ''c''), OMP_CH_SUBSYSTEM, ACT_PUSH, openmp_st ST_TASK_CHECK_DEPS),
     ((CHR ''T'', CHR ''C''), OMP_CH_SUBSYSTEM, ACT_POP, openmp_st ST_TASK_CHECK_DEPS),
     ((CHR ''T'', CHR ''d''), OMP_CH_SUBSYSTEM, ACT_PUSH, openmp_st ST_TASK_DUP_ALLOC),
     ((CHR ''T'', CHR ''D''), OMP_CH_SUBSYSTEM, ACT_POP, openmp_st ST_TASK_DUP_ALLOC),
     ((CHR ''T'', CHR ''r''), OMP_CH_SUBSYSTEM, ACT_PUSH, openmp_st ST_TASK_RELEASE_DEPS),
     ((CHR ''T'', CHR ''R''), OMP_CH_SUBSYSTEM, ACT_POP, openmp_st ST_TASK_RELEASE_DEPS),
     ((CHR ''T'', CHR ''[''), OMP_CH_SUBSYSTEM, ACT_PUSH, openmp_st ST_TASK_RUN),
     ((CHR ''T'', CHR '']''), OMP_CH_SUBSYSTEM, ACT_POP, openmp_st ST_TASK_RUN),
     ((CHR ''T'', CHR ''i''), OMP_CH_SUBSYSTEM, ACT_PUSH, openmp_st ST_TASK_RUN_IF0),
     ((CHR ''T'', CHR ''I''), OMP_CH_SUBSYSTEM, ACT_POP, openmp_st ST_TASK_RUN_IF0),
     ((CHR ''T'', CHR ''s''), OMP_CH_SUBSYSTEM, ACT_PUSH, openmp_st ST_TASK_SCHEDULE),
     ((CHR ''T'', CHR ''S''), OMP_CH_SUBSYSTEM, ACT_POP, openmp_st ST_TASK_SCHEDULE),
     ((CHR ''T'', CHR ''g''), OMP_CH_SUBSYSTEM, ACT_PUSH, openmp_st ST_TASK_TASKGROUP),
     ((CHR ''T'', CHR ''G''), OMP_CH_SUBSYSTEM, ACT_POP, openmp_st ST_TASK_TASKGROUP),
     ((CHR ''T'', CHR ''t''), OMP_CH_SUBSYSTEM, ACT_PUSH, openmp_st ST_TASK_TASKWAIT),
     ((CHR ''T'', CHR ''T''), OMP_CH_SUBSYSTEM, ACT_POP, openmp_st ST_TASK_TASKWAIT),
     ((CHR ''T'', CHR ''w''), OMP_CH_SUBSYSTEM, ACT_PUSH, openmp_st ST_TASK_TASKWAIT_DEPS),
     ((CHR ''T'', CHR ''W''), OMP_CH_SUBSYSTEM, ACT_POP, openmp_st ST_TASK_TASKWAIT_DEPS),
     ((CHR ''T'', CHR ''y''), OMP_CH_SUBSYSTEM, ACT_PUSH, openmp_st ST_TASK_TASKYIELD),
     ((CHR ''T'', CHR ''Y''), OMP_CH_SUBSYSTEM, ACT_POP, openmp_st ST_TASK_TASKYIELD),
     ((CHR ''A'', CHR ''[''), OMP_CH_SUBSYSTEM, ACT_PUSH, openmp_st ST_RT_ATTACHED),
     ((CHR ''A'', CHR '']''), OMP_CH_SUBSYSTEM, ACT_POP, openmp_st ST_RT_ATTACHED),
     ((CHR ''M'', CHR ''i''), OMP_CH_SUBSYSTEM, ACT_PUSH, openmp_st ST_RT_MICROTASK_INTERNAL),
     ((CHR ''M'', CHR ''I''), OMP_CH_SUBSYSTEM, ACT_POP, openmp_st ST_RT_MICROTASK_INTERNAL),
     ((CHR ''M'', CHR ''u''), OMP_CH_SUBSYSTEM, ACT_PUSH, openmp_st ST_RT_MICROTASK_USER),
     ((CHR ''M'', CHR ''U''), OMP_CH_SUBSYSTEM, ACT_POP, openmp_st ST_RT_MICROTASK_USER),
     ((CHR ''H'', CHR ''[''), OMP_CH_SUBSYSTEM, ACT_PUSH, openmp_st ST_RT_WORKER_LOOP),
     ((CHR ''H'', CHR '']''), OMP_CH_SUBSYSTEM, ACT_POP, openmp_st ST_RT_WORKER_LOOP),
     ((CHR ''C'', CHR ''i''), OMP_CH_SUBSYSTEM, ACT_PUSH, openmp_st ST_RT_INIT),
     ((CHR ''C'', CHR ''I''), OMP_CH_SUBSYSTEM, ACT_POP, openmp_st ST_RT_INIT),
     ((CHR ''C'', CHR ''f''), OMP_CH_SUBSYSTEM, ACT_PUSH, openmp_st ST_RT_FORK_CALL),
     ((CHR ''C'', CHR ''F''), OMP_CH_SUBSYSTEM, ACT_POP, openmp_st ST_RT_FORK_CALL)]"

subsection \<open>Task events\<close>

definition omp_create_task :: "'x temu_scheme \<Rightarrow> 'x temu_scheme res" where
  "omp_create_task w =
     (if ev_payload_size (em_ev w) \<noteq> 8 then Inl (EEvent EvPayloadSize)
      else let taskid = payload_id 0 w; typeid = payload_id 1 w in
        if taskid = 0 then Inl (EEvent EvIdZero)
        else if typeid = 0 then Inl (EEvent EvIdZero)
        else on_tasks (task_create (InfoRef MODEL_P (em_proc w)) typeid taskid
               (\<lambda>f. f = TASK_FLAG_RELAX_NESTING \<or> f = TASK_FLAG_RESURRECT)) w)"

text \<open>The two channels of a task, with the identifier of the type; the type of a known task is known.\<close>

definition push_pop :: "bool \<Rightarrow> cid \<Rightarrow> chval \<Rightarrow> 'x bay_scheme \<Rightarrow> 'x bay_scheme res" where
  "push_pop push = (if push then chan_push_at else chan_pop_at)"

definition omp_task_chans :: "bool \<Rightarrow> task_ref \<Rightarrow> 'x temu_scheme \<Rightarrow> 'x temu_scheme res" where
  "omp_task_chans push t w =
     (case task_gid t (em_tasks w) of
        None \<Rightarrow> Inl (ETask TaskNull)
      | Some gid \<Rightarrow>
          rbind (push_pop push (ModelChan (em_thread w) MODEL_P OMP_CH_TASKID) (VALUE_INT64 (uint (task_id t))) w)
            (push_pop push (ModelChan (em_thread w) MODEL_P OMP_CH_LABEL) (VALUE_INT64 (uint gid))))"

definition omp_update_task :: "'x temu_scheme \<Rightarrow> 'x temu_scheme res" where
  "omp_update_task w =
     (if ev_payload_size (em_ev w) < 4 then Inl (EEvent EvPayloadSize)
      else let taskid = payload_id 0 w; info = InfoRef MODEL_P (em_proc w); s = StackRef MODEL_P (em_thread w);
               t = TaskRef info taskid; v = ev_v (em_ev w) in
        if taskid = 0 then Inl (EEvent EvIdZero)
        else if task_find info taskid (em_tasks w) = None then Inl (EEvent EvTaskNotFound)
        else if v = char_byte CHR ''x'' then rbind (on_tasks (task_execute s t 1) w) (omp_task_chans True t)
        else if v = char_byte CHR ''e'' then rbind (on_tasks (task_end s t 1) w) (omp_task_chans False t)
        else Inl (EEvent EvUnknownValue))"

definition omp_pre_task :: "'x temu_scheme \<Rightarrow> 'x temu_scheme res" where
  "omp_pre_task w =
     (let v = ev_v (em_ev w) in
      if v = char_byte CHR ''c'' then omp_create_task w
      else if v = char_byte CHR ''x'' \<or> v = char_byte CHR ''e'' then omp_update_task w
      else Inl (EEvent EvUnknownValue))"

definition omp_pre_type :: "(string \<Rightarrow> 32 word) \<Rightarrow> 'x temu_scheme \<Rightarrow> 'x temu_scheme res" where
  "omp_pre_type hash = pre_type hash MODEL_P"

subsection \<open>Worksharings\<close>

definition omp_update_ws_state :: "byte \<Rightarrow> 'x temu_scheme \<Rightarrow> 'x temu_scheme res" where
  "omp_update_ws_state action w =
     (if ev_payload_size (em_ev w) < 4 then Inl (EEvent EvPayloadSize)
      else let typeid = payload_id 0 w; ch = ModelChan (em_thread w) MODEL_P OMP_CH_LABEL in
        if typeid = 0 then Inl (EEvent EvIdZero)
        else case task_type_find (InfoRef MODEL_P (em_proc w)) typeid (em_tasks w) of
          None \<Rightarrow> Inl (ETask TaskTypeUnknown)
        | Some ttype \<Rightarrow>
            if action = char_byte CHR ''x'' then chan_push_at ch (VALUE_INT64 (uint (tt_gid ttype))) w
            else chan_pop_at ch (VALUE_INT64 (uint (tt_gid ttype))) w)"

definition omp_pre_worksharing :: "'x temu_scheme \<Rightarrow> 'x temu_scheme res" where
  "omp_pre_worksharing w =
     (let v = ev_v (em_ev w) in
      if v = char_byte CHR ''x'' \<or> v = char_byte CHR ''e'' then omp_update_ws_state v w
      else Inl (EEvent EvUnknownValue))"

subsection \<open>The handler of the model\<close>

definition omp_simple :: "'x temu_scheme \<Rightarrow> 'x temu_scheme res" where
  "omp_simple w =
     (if \<not> th_is_running (threads w (em_thread w)) then Inl (EThread ThreadNotRunning)
      else simple_event MODEL_P openmp_fn_table w)"

definition omp_process_ev :: "(string \<Rightarrow> 32 word) \<Rightarrow> 'x temu_scheme \<Rightarrow> 'x temu_scheme res" where
  "omp_process_ev hash w =
     (let c = ev_c (em_ev w) in
      if \<not> th_is_running (threads w (em_thread w)) then Inl (EThread ThreadNotRunning)
      else if c \<in> char_byte ` set ''BIWTAMHC'' then omp_simple w
      else if c = char_byte CHR ''P'' then omp_pre_task w
      else if c = char_byte CHR ''O'' then omp_pre_type hash w
      else if c = char_byte CHR ''Q'' then omp_pre_worksharing w
      else Inl (EEvent EvUnknownCategory))"

definition model_openmp_event :: "(string \<Rightarrow> 32 word) \<Rightarrow> 'x temu_scheme \<Rightarrow> 'x temu_scheme res" where
  "model_openmp_event hash w =
     (if ev_m (em_ev w) \<noteq> char_byte CHR ''P'' then Inl (EEvent EvUnknownModel) else omp_process_ev hash w)"

subsection \<open>The task channel is the task stack\<close>

text \<open>For every thread the channel of the task holds the identifiers of the tasks of its stack, in the same order.\<close>

definition omp_mirror :: "'x temu_scheme \<Rightarrow> bool" where
  "omp_mirror w \<longleftrightarrow> task_wf (em_tasks w) \<and> plain_chans MODEL_P w
     \<and> (\<forall>t. ch_stack (bay_mem w (ModelChan t MODEL_P OMP_CH_TASKID))
          = map (\<lambda>k. VALUE_INT64 (uint (task_id (body_task k)))) (body_stacks (em_tasks w) (StackRef MODEL_P t)))"

lemma omp_mirrorD:
  assumes "omp_mirror w"
  shows "task_wf (em_tasks w)" "plain_chans MODEL_P w"
    "ch_stack (bay_mem w (ModelChan t MODEL_P OMP_CH_TASKID))
      = map (\<lambda>k. VALUE_INT64 (uint (task_id (body_task k)))) (body_stacks (em_tasks w) (StackRef MODEL_P t))"
  using assms by (auto simp: omp_mirror_def)

lemma omp_mirror_writes:
  assumes "omp_mirror w" and wr: "writes_only C w w'" and "\<And>t. ModelChan t MODEL_P OMP_CH_TASKID \<notin> C"
  shows "omp_mirror w'"
  using assms(1,3) writes_only_plain [OF wr, of MODEL_P] wr
  by (simp add: omp_mirror_def writes_only_fields [OF wr]) (simp add: writes_only_def)

lemma omp_mirror_extends: "omp_mirror w \<Longrightarrow> extends_tasks (em_tasks w) tw' \<Longrightarrow> omp_mirror (w\<lparr>em_tasks := tw'\<rparr>)"
  by (simp add: omp_mirror_def extends_tasks_def plain_chans_def)

lemma chan_push_at_plain:
  "\<not> ch_prop (bay_mem w c) CHAN_IGNORE_DUP \<Longrightarrow> chan_push_at c v w = Inr w' \<Longrightarrow> ch_stack (bay_mem w' c) = v # ch_stack (bay_mem w c)"
  by (drule chan_push_at_value) auto

lemma push_pop_ok:
  assumes "push_pop push c v w = Inr w'"
  shows "writes_only {c} w w'"
    and "\<not> ch_prop (bay_mem w c) CHAN_IGNORE_DUP \<Longrightarrow> if push then ch_stack (bay_mem w' c) = v # ch_stack (bay_mem w c)
       else ch_stack (bay_mem w c) = v # ch_stack (bay_mem w' c)"
proof -
  have "push \<and> chan_push_at c v w = Inr w' \<or> \<not> push \<and> chan_pop_at c v w = Inr w'" using assms by (simp add: push_pop_def split: if_splits)
  then show "writes_only {c} w w'" "\<not> ch_prop (bay_mem w c) CHAN_IGNORE_DUP \<Longrightarrow> if push then ch_stack (bay_mem w' c) = v # ch_stack (bay_mem w c)
       else ch_stack (bay_mem w c) = v # ch_stack (bay_mem w' c)"
    using chan_at_writes(2,3) [of c v w w'] chan_push_at_plain [of w c v w'] by (auto dest: chan_pop_at_value)
qed

lemma omp_task_chans_ok:
  assumes "omp_task_chans push t w = Inr w'" and "plain_chans MODEL_P w"
  shows "writes_only {ModelChan (em_thread w) MODEL_P OMP_CH_TASKID, ModelChan (em_thread w) MODEL_P OMP_CH_LABEL} w w'"
    and "if push
       then ch_stack (bay_mem w' (ModelChan (em_thread w) MODEL_P OMP_CH_TASKID))
         = VALUE_INT64 (uint (task_id t)) # ch_stack (bay_mem w (ModelChan (em_thread w) MODEL_P OMP_CH_TASKID))
       else ch_stack (bay_mem w (ModelChan (em_thread w) MODEL_P OMP_CH_TASKID))
         = VALUE_INT64 (uint (task_id t)) # ch_stack (bay_mem w' (ModelChan (em_thread w) MODEL_P OMP_CH_TASKID))"
proof -
  let ?c = "ModelChan (em_thread w) MODEL_P OMP_CH_TASKID" and ?l = "ModelChan (em_thread w) MODEL_P OMP_CH_LABEL"
    and ?v = "VALUE_INT64 (uint (task_id t))"
  from assms(1) obtain gid where gid: "task_gid t (em_tasks w) = Some gid" by (auto simp: omp_task_chans_def split: option.splits)
  with assms(1) obtain w1 where w1: "push_pop push ?c ?v w = Inr w1" "push_pop push ?l (VALUE_INT64 (uint gid)) w1 = Inr w'"
    by (auto simp: omp_task_chans_def)
  note wr = push_pop_ok(1) [OF w1(1)] push_pop_ok(1) [OF w1(2)]
  show "writes_only {?c, ?l} w w'" by (rule writes_only_trans [OF writes_only_mono [OF wr(1)] writes_only_mono [OF wr(2)]]) auto
  have "bay_mem w' ?c = bay_mem w1 ?c" using wr(2) by (simp add: writes_only_def omp_ch_defs)
  with push_pop_ok(2) [OF w1(1)] assms(2)
  show "if push then ch_stack (bay_mem w' ?c) = ?v # ch_stack (bay_mem w ?c) else ch_stack (bay_mem w ?c) = ?v # ch_stack (bay_mem w' ?c)"
    by (simp add: plain_chans_def)
qed

text \<open>The task stack of the thread gets or loses the body at the same time as the channel its identifier.\<close>

lemma omp_update_task_steps:
  assumes wf: "task_wf (em_tasks w)" and ok: "omp_update_task w = Inr w'"
  obtains k push tw1 where "moves_on (StackRef MODEL_P (em_thread w)) (em_tasks w) tw1"
    "omp_task_chans push (body_task k) (w\<lparr>em_tasks := tw1\<rparr>) = Inr w'"
    "if push then body_stacks tw1 (StackRef MODEL_P (em_thread w)) = k # body_stacks (em_tasks w) (StackRef MODEL_P (em_thread w))
     else body_stacks (em_tasks w) (StackRef MODEL_P (em_thread w)) = k # body_stacks tw1 (StackRef MODEL_P (em_thread w))"
proof -
  let ?k = "BodyRef (TaskRef (InfoRef MODEL_P (em_proc w)) (payload_id 0 w)) 1" and ?s = "StackRef MODEL_P (em_thread w)"
  have "(\<exists>tw1. task_execute ?s (body_task ?k) 1 (em_tasks w) = Inr tw1 \<and> omp_task_chans True (body_task ?k) (w\<lparr>em_tasks := tw1\<rparr>) = Inr w')
    \<or> (\<exists>tw1. task_end ?s (body_task ?k) 1 (em_tasks w) = Inr tw1 \<and> omp_task_chans False (body_task ?k) (w\<lparr>em_tasks := tw1\<rparr>) = Inr w')"
    using ok unfolding omp_update_task_def Let_def on_tasks_def by (auto split: if_splits)
  then show thesis
  proof (elim disjE exE conjE)
    fix tw1 assume "task_execute ?s (body_task ?k) 1 (em_tasks w) = Inr tw1" "omp_task_chans True (body_task ?k) (w\<lparr>em_tasks := tw1\<rparr>) = Inr w'"
    then show thesis using task_execute_moves [OF wf] that [of tw1 True ?k] by simp
  next
    fix tw1 assume e: "task_end ?s (body_task ?k) 1 (em_tasks w) = Inr tw1" "omp_task_chans False (body_task ?k) (w\<lparr>em_tasks := tw1\<rparr>) = Inr w'"
    then have "body_end ?s ?k (em_tasks w) = Inr tw1" by (simp add: task_end_def split: if_splits)
    moreover have "move_body (char_byte CHR ''e'') ?s (body_task ?k) 1 (em_tasks w) = Inr tw1" using e(1) by (simp add: move_body_def)
    ultimately show thesis using move_body_moves [OF wf] body_move_stacks(4) e(2) that [of tw1 False ?k] by fastforce
  qed
qed

lemma omp_update_task_mirror:
  assumes mir: "omp_mirror w" and ok: "omp_update_task w = Inr w'"
  shows "omp_mirror w'"
proof -
  let ?t = "em_thread w"
  let ?s = "StackRef MODEL_P ?t" and ?c = "\<lambda>t. ModelChan t MODEL_P OMP_CH_TASKID"
  let ?v = "\<lambda>k. VALUE_INT64 (uint (task_id (body_task k)))"
  from omp_update_task_steps [OF omp_mirrorD(1) [OF mir] ok] obtain k push tw1 where
    mo: "moves_on ?s (em_tasks w) tw1" and ch: "omp_task_chans push (body_task k) (w\<lparr>em_tasks := tw1\<rparr>) = Inr w'"
    and st: "if push then body_stacks tw1 ?s = k # body_stacks (em_tasks w) ?s else body_stacks (em_tasks w) ?s = k # body_stacks tw1 ?s"
    by blast
  have plain: "plain_chans MODEL_P (w\<lparr>em_tasks := tw1\<rparr>)" using omp_mirrorD(2) [OF mir] by (simp add: plain_chans_def)
  note oc = omp_task_chans_ok [OF ch plain]
  have tw: "em_tasks w' = tw1" by (simp add: writes_only_fields [OF oc(1)])
  show ?thesis
    unfolding omp_mirror_def tw
  proof (intro conjI allI)
    show "task_wf tw1" using mo by (simp add: moves_on_def)
    show "plain_chans MODEL_P w'" using plain writes_only_plain [OF oc(1), of MODEL_P] by simp
    show "ch_stack (bay_mem w' (?c t)) = map ?v (body_stacks tw1 (StackRef MODEL_P t))" for t
    proof (cases "t = ?t")
      case True
      with oc(2) omp_mirrorD(3) [OF mir, of ?t] st show ?thesis by (cases push) auto
    next
      case False
      with oc(1) have "bay_mem w' (?c t) = bay_mem w (?c t)" by (auto simp: writes_only_def)
      with False mo omp_mirrorD(3) [OF mir, of t] show ?thesis by (simp add: moves_on_def)
    qed
  qed
qed

text \<open>The other events.\<close>

lemma omp_table_keys: "\<forall>e \<in> set openmp_fn_table. fst (snd e) = OMP_CH_SUBSYSTEM"
  by (simp add: openmp_fn_table_def)

lemma omp_simple_writes: "omp_simple w = Inr w' \<Longrightarrow> writes_only {ModelChan (em_thread w) MODEL_P OMP_CH_SUBSYSTEM} w w'"
  using omp_table_keys by (auto simp: omp_simple_def split: if_splits dest!: simple_event_writes)

lemma omp_ws_writes: "omp_pre_worksharing w = Inr w' \<Longrightarrow> writes_only {ModelChan (em_thread w) MODEL_P OMP_CH_LABEL} w w'"
  by (auto simp: omp_pre_worksharing_def omp_update_ws_state_def Let_def split: if_splits option.splits intro: chan_at_writes)

lemma omp_event_cases:
  assumes wf: "task_wf (em_tasks w)" and ok: "model_openmp_event hash w = Inr w'"
  obtains "omp_update_task w = Inr w'"
  | i where "i \<noteq> OMP_CH_TASKID" "writes_only {ModelChan (em_thread w) MODEL_P i} w w'"
  | tw' where "extends_tasks (em_tasks w) tw'" "w' = w\<lparr>em_tasks := tw'\<rparr>"
proof -
  have "omp_process_ev hash w = Inr w'" using ok by (simp add: model_openmp_event_def split: if_splits)
  then consider "omp_simple w = Inr w'" | "omp_pre_task w = Inr w'" | "omp_pre_type hash w = Inr w'" | "omp_pre_worksharing w = Inr w'"
    by (auto simp: omp_process_ev_def Let_def split: if_splits)
  then show thesis
  proof cases
    case 1
    from that(2) [OF _ omp_simple_writes [OF 1]] show thesis by (simp add: omp_ch_defs)
  next
    case 2
    then have "omp_create_task w = Inr w' \<or> omp_update_task w = Inr w'" by (auto simp: omp_pre_task_def Let_def split: if_splits)
    then show thesis
    proof
      assume "omp_create_task w = Inr w'"
      then obtain info ty i fl tw' where "task_create info ty i fl (em_tasks w) = Inr tw'" "w' = w\<lparr>em_tasks := tw'\<rparr>"
        by (auto simp: omp_create_task_def on_tasks_def Let_def split: if_splits)
      then show thesis using that(3) task_create_extends [OF wf] by blast
    qed (rule that(1))
  next
    case 3
    then obtain info ty l tw' where "task_type_create hash info ty l (em_tasks w) = Inr tw'" "w' = w\<lparr>em_tasks := tw'\<rparr>"
      by (auto simp: omp_pre_type_def pre_type_def on_tasks_def Let_def split: if_splits)
    then show thesis using that(3) task_type_create_extends [OF wf] by blast
  next
    case 4
    from that(2) [OF _ omp_ws_writes [OF 4]] show thesis by (simp add: omp_ch_defs)
  qed
qed

text \<open>C10. The task channel of OpenMP mirrors the task stack: if for every thread the stack of the channel holds the identifiers of
  the tasks of its task stack, in the same order, then it still does after any event of the model that the emulator
  accepts, so the tasks end in the reverse of the order in which they started.\<close>

theorem openmp_task_stack_mirrored:
  assumes "omp_mirror w" and "model_openmp_event hash w = Inr w'"
  shows "omp_mirror w'"
proof (rule omp_event_cases [OF omp_mirrorD(1) [OF assms(1)] assms(2)])
  show "omp_mirror w'" if "omp_update_task w = Inr w'" by (rule omp_update_task_mirror [OF assms(1) that])
  show "omp_mirror w'" if "i \<noteq> OMP_CH_TASKID" "writes_only {ModelChan (em_thread w) MODEL_P i} w w'" for i
    by (rule omp_mirror_writes [OF assms(1) that(2)]) (use that(1) in auto)
  show "omp_mirror w'" if "extends_tasks (em_tasks w) tw'" "w' = w\<lparr>em_tasks := tw'\<rparr>" for tw'
    using omp_mirror_extends [OF assms(1) that(1)] that(2) by simp
qed

definition demo_openmp :: temu where
  "demo_openmp = demo_temu (\<lambda>i. True) (demo_tasks MODEL_P (\<lambda>f. f = TASK_FLAG_RESURRECT)) ''PPx'' [5, 0, 0, 0]"

lemma demo_openmp_run:
  "res_get (\<lambda>w. map (\<lambda>i. ch_stack (bay_mem w (ModelChan 1 MODEL_P i))) [0..<3]) (model_openmp_event (\<lambda>_. 0) demo_openmp)
     = Some [[], [VALUE_INT64 2000], [VALUE_INT64 5]]"
  by code_simp

theorem openmp_task_stack_mirrored_witness:
  "\<exists>w'. model_openmp_event (\<lambda>_. 0) demo_openmp = Inr w' \<and> omp_mirror w'
     \<and> ch_stack (bay_mem w' (ModelChan 1 MODEL_P OMP_CH_TASKID)) = [VALUE_INT64 5]"
proof -
  from demo_openmp_run obtain w' where w': "model_openmp_event (\<lambda>_. 0) demo_openmp = Inr w'"
    "ch_stack (bay_mem w' (ModelChan 1 MODEL_P 2)) = [VALUE_INT64 5]"
    by (auto simp: res_get_Some upt_rec numeral_2_eq_2)
  have "omp_mirror demo_openmp"
    by (simp add: demo_openmp_def omp_mirror_def demo_tasks_wf plain_chans_def demo_chan_def) (simp add: demo_tasks_def task_world0_def)
  from openmp_task_stack_mirrored [OF this w'(1)] w' show ?thesis by (simp add: OMP_CH_TASKID_def)
qed

end
