(* ===== verification/Simple_Models.thy ===== *)
theory Simple_Models
  imports Task_Model
begin

text \<open>
  The models without tasks: \<^verbatim>\<open>event.c\<close> of \<^verbatim>\<open>src/emu/mpi\<close>, \<^verbatim>\<open>src/emu/tampi\<close>, \<^verbatim>\<open>src/emu/nodes\<close>, \<^verbatim>\<open>src/emu/kernel\<close> and
  \<^verbatim>\<open>src/emu/xtasks\<close>, with the states of their private headers. Each has one channel, a stack, at the index 0.
\<close>

definition MODEL_M :: nat where "MODEL_M = 77"
definition MODEL_T :: nat where "MODEL_T = 84"
definition MODEL_D :: nat where "MODEL_D = 68"
definition MODEL_K :: nat where "MODEL_K = 75"
definition MODEL_X :: nat where "MODEL_X = 88"

lemmas simple_model_defs = MODEL_M_def MODEL_T_def MODEL_D_def MODEL_K_def MODEL_X_def

subsection \<open>MPI\<close>

datatype mpi_function_values =
    ST_MPI_INIT | ST_MPI_INIT_THREAD | ST_MPI_FINALIZE | ST_MPI_WAIT | ST_MPI_WAITALL | ST_MPI_WAITANY
  | ST_MPI_WAITSOME | ST_MPI_TEST | ST_MPI_TESTALL | ST_MPI_TESTANY | ST_MPI_TESTSOME | ST_MPI_RECV
  | ST_MPI_SEND | ST_MPI_BSEND | ST_MPI_RSEND | ST_MPI_SSEND | ST_MPI_SENDRECV | ST_MPI_SENDRECV_REPLACE
  | ST_MPI_IRECV | ST_MPI_ISEND | ST_MPI_IBSEND | ST_MPI_IRSEND | ST_MPI_ISSEND | ST_MPI_ISENDRECV
  | ST_MPI_ISENDRECV_REPLACE | ST_MPI_ALLGATHER | ST_MPI_ALLREDUCE | ST_MPI_ALLTOALL | ST_MPI_BARRIER
  | ST_MPI_BCAST | ST_MPI_GATHER | ST_MPI_REDUCE | ST_MPI_REDUCE_SCATTER | ST_MPI_REDUCE_SCATTER_BLOCK
  | ST_MPI_SCATTER | ST_MPI_SCAN | ST_MPI_EXSCAN | ST_MPI_IALLGATHER | ST_MPI_IALLREDUCE | ST_MPI_IALLTOALL
  | ST_MPI_IBARRIER | ST_MPI_IBCAST | ST_MPI_IGATHER | ST_MPI_IREDUCE | ST_MPI_IREDUCE_SCATTER
  | ST_MPI_IREDUCE_SCATTER_BLOCK | ST_MPI_ISCATTER | ST_MPI_ISCAN | ST_MPI_IEXSCAN

primrec mpi_st :: "mpi_function_values \<Rightarrow> int" where
  "mpi_st ST_MPI_INIT = 1"
| "mpi_st ST_MPI_INIT_THREAD = 2"
| "mpi_st ST_MPI_FINALIZE = 3"
| "mpi_st ST_MPI_WAIT = 4"
| "mpi_st ST_MPI_WAITALL = 5"
| "mpi_st ST_MPI_WAITANY = 6"
| "mpi_st ST_MPI_WAITSOME = 7"
| "mpi_st ST_MPI_TEST = 8"
| "mpi_st ST_MPI_TESTALL = 9"
| "mpi_st ST_MPI_TESTANY = 10"
| "mpi_st ST_MPI_TESTSOME = 11"
| "mpi_st ST_MPI_RECV = 12"
| "mpi_st ST_MPI_SEND = 13"
| "mpi_st ST_MPI_BSEND = 14"
| "mpi_st ST_MPI_RSEND = 15"
| "mpi_st ST_MPI_SSEND = 16"
| "mpi_st ST_MPI_SENDRECV = 17"
| "mpi_st ST_MPI_SENDRECV_REPLACE = 18"
| "mpi_st ST_MPI_IRECV = 19"
| "mpi_st ST_MPI_ISEND = 20"
| "mpi_st ST_MPI_IBSEND = 21"
| "mpi_st ST_MPI_IRSEND = 22"
| "mpi_st ST_MPI_ISSEND = 23"
| "mpi_st ST_MPI_ISENDRECV = 24"
| "mpi_st ST_MPI_ISENDRECV_REPLACE = 25"
| "mpi_st ST_MPI_ALLGATHER = 26"
| "mpi_st ST_MPI_ALLREDUCE = 27"
| "mpi_st ST_MPI_ALLTOALL = 28"
| "mpi_st ST_MPI_BARRIER = 29"
| "mpi_st ST_MPI_BCAST = 30"
| "mpi_st ST_MPI_GATHER = 31"
| "mpi_st ST_MPI_REDUCE = 32"
| "mpi_st ST_MPI_REDUCE_SCATTER = 33"
| "mpi_st ST_MPI_REDUCE_SCATTER_BLOCK = 34"
| "mpi_st ST_MPI_SCATTER = 35"
| "mpi_st ST_MPI_SCAN = 36"
| "mpi_st ST_MPI_EXSCAN = 37"
| "mpi_st ST_MPI_IALLGATHER = 38"
| "mpi_st ST_MPI_IALLREDUCE = 39"
| "mpi_st ST_MPI_IALLTOALL = 40"
| "mpi_st ST_MPI_IBARRIER = 41"
| "mpi_st ST_MPI_IBCAST = 42"
| "mpi_st ST_MPI_IGATHER = 43"
| "mpi_st ST_MPI_IREDUCE = 44"
| "mpi_st ST_MPI_IREDUCE_SCATTER = 45"
| "mpi_st ST_MPI_IREDUCE_SCATTER_BLOCK = 46"
| "mpi_st ST_MPI_ISCATTER = 47"
| "mpi_st ST_MPI_ISCAN = 48"
| "mpi_st ST_MPI_IEXSCAN = 49"

definition mpi_fn_table :: ss_table where
  "mpi_fn_table = [
     ((CHR ''U'', CHR ''i''), 0, ACT_PUSH, mpi_st ST_MPI_INIT),
     ((CHR ''U'', CHR ''I''), 0, ACT_POP, mpi_st ST_MPI_INIT),
     ((CHR ''U'', CHR ''t''), 0, ACT_PUSH, mpi_st ST_MPI_INIT_THREAD),
     ((CHR ''U'', CHR ''T''), 0, ACT_POP, mpi_st ST_MPI_INIT_THREAD),
     ((CHR ''U'', CHR ''f''), 0, ACT_PUSH, mpi_st ST_MPI_FINALIZE),
     ((CHR ''U'', CHR ''F''), 0, ACT_POP, mpi_st ST_MPI_FINALIZE),
     ((CHR ''W'', CHR ''[''), 0, ACT_PUSH, mpi_st ST_MPI_WAIT),
     ((CHR ''W'', CHR '']''), 0, ACT_POP, mpi_st ST_MPI_WAIT),
     ((CHR ''W'', CHR ''a''), 0, ACT_PUSH, mpi_st ST_MPI_WAITALL),
     ((CHR ''W'', CHR ''A''), 0, ACT_POP, mpi_st ST_MPI_WAITALL),
     ((CHR ''W'', CHR ''y''), 0, ACT_PUSH, mpi_st ST_MPI_WAITANY),
     ((CHR ''W'', CHR ''Y''), 0, ACT_POP, mpi_st ST_MPI_WAITANY),
     ((CHR ''W'', CHR ''s''), 0, ACT_PUSH, mpi_st ST_MPI_WAITSOME),
     ((CHR ''W'', CHR ''S''), 0, ACT_POP, mpi_st ST_MPI_WAITSOME),
     ((CHR ''T'', CHR ''[''), 0, ACT_PUSH, mpi_st ST_MPI_TEST),
     ((CHR ''T'', CHR '']''), 0, ACT_POP, mpi_st ST_MPI_TEST),
     ((CHR ''T'', CHR ''a''), 0, ACT_PUSH, mpi_st ST_MPI_TESTALL),
     ((CHR ''T'', CHR ''A''), 0, ACT_POP, mpi_st ST_MPI_TESTALL),
     ((CHR ''T'', CHR ''y''), 0, ACT_PUSH, mpi_st ST_MPI_TESTANY),
     ((CHR ''T'', CHR ''Y''), 0, ACT_POP, mpi_st ST_MPI_TESTANY),
     ((CHR ''T'', CHR ''s''), 0, ACT_PUSH, mpi_st ST_MPI_TESTSOME),
     ((CHR ''T'', CHR ''S''), 0, ACT_POP, mpi_st ST_MPI_TESTSOME),
     ((CHR ''R'', CHR ''[''), 0, ACT_PUSH, mpi_st ST_MPI_RECV),
     ((CHR ''R'', CHR '']''), 0, ACT_POP, mpi_st ST_MPI_RECV),
     ((CHR ''R'', CHR ''s''), 0, ACT_PUSH, mpi_st ST_MPI_SENDRECV),
     ((CHR ''R'', CHR ''S''), 0, ACT_POP, mpi_st ST_MPI_SENDRECV),
     ((CHR ''R'', CHR ''o''), 0, ACT_PUSH, mpi_st ST_MPI_SENDRECV_REPLACE),
     ((CHR ''R'', CHR ''O''), 0, ACT_POP, mpi_st ST_MPI_SENDRECV_REPLACE),
     ((CHR ''r'', CHR ''[''), 0, ACT_PUSH, mpi_st ST_MPI_IRECV),
     ((CHR ''r'', CHR '']''), 0, ACT_POP, mpi_st ST_MPI_IRECV),
     ((CHR ''r'', CHR ''s''), 0, ACT_PUSH, mpi_st ST_MPI_ISENDRECV),
     ((CHR ''r'', CHR ''S''), 0, ACT_POP, mpi_st ST_MPI_ISENDRECV),
     ((CHR ''r'', CHR ''o''), 0, ACT_PUSH, mpi_st ST_MPI_ISENDRECV_REPLACE),
     ((CHR ''r'', CHR ''O''), 0, ACT_POP, mpi_st ST_MPI_ISENDRECV_REPLACE),
     ((CHR ''S'', CHR ''[''), 0, ACT_PUSH, mpi_st ST_MPI_SEND),
     ((CHR ''S'', CHR '']''), 0, ACT_POP, mpi_st ST_MPI_SEND),
     ((CHR ''S'', CHR ''b''), 0, ACT_PUSH, mpi_st ST_MPI_BSEND),
     ((CHR ''S'', CHR ''B''), 0, ACT_POP, mpi_st ST_MPI_BSEND),
     ((CHR ''S'', CHR ''r''), 0, ACT_PUSH, mpi_st ST_MPI_RSEND),
     ((CHR ''S'', CHR ''R''), 0, ACT_POP, mpi_st ST_MPI_RSEND),
     ((CHR ''S'', CHR ''s''), 0, ACT_PUSH, mpi_st ST_MPI_SSEND),
     ((CHR ''S'', CHR ''S''), 0, ACT_POP, mpi_st ST_MPI_SSEND),
     ((CHR ''s'', CHR ''[''), 0, ACT_PUSH, mpi_st ST_MPI_ISEND),
     ((CHR ''s'', CHR '']''), 0, ACT_POP, mpi_st ST_MPI_ISEND),
     ((CHR ''s'', CHR ''b''), 0, ACT_PUSH, mpi_st ST_MPI_IBSEND),
     ((CHR ''s'', CHR ''B''), 0, ACT_POP, mpi_st ST_MPI_IBSEND),
     ((CHR ''s'', CHR ''r''), 0, ACT_PUSH, mpi_st ST_MPI_IRSEND),
     ((CHR ''s'', CHR ''R''), 0, ACT_POP, mpi_st ST_MPI_IRSEND),
     ((CHR ''s'', CHR ''s''), 0, ACT_PUSH, mpi_st ST_MPI_ISSEND),
     ((CHR ''s'', CHR ''S''), 0, ACT_POP, mpi_st ST_MPI_ISSEND),
     ((CHR ''A'', CHR ''g''), 0, ACT_PUSH, mpi_st ST_MPI_ALLGATHER),
     ((CHR ''A'', CHR ''G''), 0, ACT_POP, mpi_st ST_MPI_ALLGATHER),
     ((CHR ''A'', CHR ''r''), 0, ACT_PUSH, mpi_st ST_MPI_ALLREDUCE),
     ((CHR ''A'', CHR ''R''), 0, ACT_POP, mpi_st ST_MPI_ALLREDUCE),
     ((CHR ''A'', CHR ''a''), 0, ACT_PUSH, mpi_st ST_MPI_ALLTOALL),
     ((CHR ''A'', CHR ''A''), 0, ACT_POP, mpi_st ST_MPI_ALLTOALL),
     ((CHR ''a'', CHR ''g''), 0, ACT_PUSH, mpi_st ST_MPI_IALLGATHER),
     ((CHR ''a'', CHR ''G''), 0, ACT_POP, mpi_st ST_MPI_IALLGATHER),
     ((CHR ''a'', CHR ''r''), 0, ACT_PUSH, mpi_st ST_MPI_IALLREDUCE),
     ((CHR ''a'', CHR ''R''), 0, ACT_POP, mpi_st ST_MPI_IALLREDUCE),
     ((CHR ''a'', CHR ''a''), 0, ACT_PUSH, mpi_st ST_MPI_IALLTOALL),
     ((CHR ''a'', CHR ''A''), 0, ACT_POP, mpi_st ST_MPI_IALLTOALL),
     ((CHR ''C'', CHR ''b''), 0, ACT_PUSH, mpi_st ST_MPI_BARRIER),
     ((CHR ''C'', CHR ''B''), 0, ACT_POP, mpi_st ST_MPI_BARRIER),
     ((CHR ''C'', CHR ''s''), 0, ACT_PUSH, mpi_st ST_MPI_SCAN),
     ((CHR ''C'', CHR ''S''), 0, ACT_POP, mpi_st ST_MPI_SCAN),
     ((CHR ''C'', CHR ''e''), 0, ACT_PUSH, mpi_st ST_MPI_EXSCAN),
     ((CHR ''C'', CHR ''E''), 0, ACT_POP, mpi_st ST_MPI_EXSCAN),
     ((CHR ''c'', CHR ''b''), 0, ACT_PUSH, mpi_st ST_MPI_IBARRIER),
     ((CHR ''c'', CHR ''B''), 0, ACT_POP, mpi_st ST_MPI_IBARRIER),
     ((CHR ''c'', CHR ''s''), 0, ACT_PUSH, mpi_st ST_MPI_ISCAN),
     ((CHR ''c'', CHR ''S''), 0, ACT_POP, mpi_st ST_MPI_ISCAN),
     ((CHR ''c'', CHR ''e''), 0, ACT_PUSH, mpi_st ST_MPI_IEXSCAN),
     ((CHR ''c'', CHR ''E''), 0, ACT_POP, mpi_st ST_MPI_IEXSCAN),
     ((CHR ''D'', CHR ''b''), 0, ACT_PUSH, mpi_st ST_MPI_BCAST),
     ((CHR ''D'', CHR ''B''), 0, ACT_POP, mpi_st ST_MPI_BCAST),
     ((CHR ''D'', CHR ''g''), 0, ACT_PUSH, mpi_st ST_MPI_GATHER),
     ((CHR ''D'', CHR ''G''), 0, ACT_POP, mpi_st ST_MPI_GATHER),
     ((CHR ''D'', CHR ''s''), 0, ACT_PUSH, mpi_st ST_MPI_SCATTER),
     ((CHR ''D'', CHR ''S''), 0, ACT_POP, mpi_st ST_MPI_SCATTER),
     ((CHR ''d'', CHR ''b''), 0, ACT_PUSH, mpi_st ST_MPI_IBCAST),
     ((CHR ''d'', CHR ''B''), 0, ACT_POP, mpi_st ST_MPI_IBCAST),
     ((CHR ''d'', CHR ''g''), 0, ACT_PUSH, mpi_st ST_MPI_IGATHER),
     ((CHR ''d'', CHR ''G''), 0, ACT_POP, mpi_st ST_MPI_IGATHER),
     ((CHR ''d'', CHR ''s''), 0, ACT_PUSH, mpi_st ST_MPI_ISCATTER),
     ((CHR ''d'', CHR ''S''), 0, ACT_POP, mpi_st ST_MPI_ISCATTER),
     ((CHR ''E'', CHR ''[''), 0, ACT_PUSH, mpi_st ST_MPI_REDUCE),
     ((CHR ''E'', CHR '']''), 0, ACT_POP, mpi_st ST_MPI_REDUCE),
     ((CHR ''E'', CHR ''s''), 0, ACT_PUSH, mpi_st ST_MPI_REDUCE_SCATTER),
     ((CHR ''E'', CHR ''S''), 0, ACT_POP, mpi_st ST_MPI_REDUCE_SCATTER),
     ((CHR ''E'', CHR ''b''), 0, ACT_PUSH, mpi_st ST_MPI_REDUCE_SCATTER_BLOCK),
     ((CHR ''E'', CHR ''B''), 0, ACT_POP, mpi_st ST_MPI_REDUCE_SCATTER_BLOCK),
     ((CHR ''e'', CHR ''[''), 0, ACT_PUSH, mpi_st ST_MPI_IREDUCE),
     ((CHR ''e'', CHR '']''), 0, ACT_POP, mpi_st ST_MPI_IREDUCE),
     ((CHR ''e'', CHR ''s''), 0, ACT_PUSH, mpi_st ST_MPI_IREDUCE_SCATTER),
     ((CHR ''e'', CHR ''S''), 0, ACT_POP, mpi_st ST_MPI_IREDUCE_SCATTER),
     ((CHR ''e'', CHR ''b''), 0, ACT_PUSH, mpi_st ST_MPI_IREDUCE_SCATTER_BLOCK),
     ((CHR ''e'', CHR ''B''), 0, ACT_POP, mpi_st ST_MPI_IREDUCE_SCATTER_BLOCK)]"

definition model_mpi_event :: "'x temu_scheme \<Rightarrow> 'x temu_scheme res" where
  "model_mpi_event w =
     (if ev_m (em_ev w) \<noteq> char_byte CHR ''M'' then Inl (EEvent EvUnknownModel)
      else if \<not> th_is_running (threads w (em_thread w)) then Inl (EThread ThreadNotRunning)
      else simple_event MODEL_M mpi_fn_table w)"

subsection \<open>TAMPI\<close>

datatype tampi_ss_values =
    ST_COMM_ISSUE_NONBLOCKING | ST_GLOBAL_ARRAY_CHECK | ST_LIBRARY_INTERFACE | ST_LIBRARY_POLLING
  | ST_QUEUE_ADD | ST_QUEUE_TRANSFER | ST_REQUEST_COMPLETED | ST_REQUEST_TEST | ST_REQUEST_TESTALL
  | ST_REQUEST_TESTSOME | ST_TICKET_CREATE | ST_TICKET_WAIT

primrec tampi_st :: "tampi_ss_values \<Rightarrow> int" where
  "tampi_st ST_COMM_ISSUE_NONBLOCKING = 1"
| "tampi_st ST_GLOBAL_ARRAY_CHECK = 2"
| "tampi_st ST_LIBRARY_INTERFACE = 3"
| "tampi_st ST_LIBRARY_POLLING = 4"
| "tampi_st ST_QUEUE_ADD = 5"
| "tampi_st ST_QUEUE_TRANSFER = 6"
| "tampi_st ST_REQUEST_COMPLETED = 7"
| "tampi_st ST_REQUEST_TEST = 8"
| "tampi_st ST_REQUEST_TESTALL = 9"
| "tampi_st ST_REQUEST_TESTSOME = 10"
| "tampi_st ST_TICKET_CREATE = 11"
| "tampi_st ST_TICKET_WAIT = 12"

definition tampi_ss_table :: ss_table where
  "tampi_ss_table = [
     ((CHR ''C'', CHR ''i''), 0, ACT_PUSH, tampi_st ST_COMM_ISSUE_NONBLOCKING),
     ((CHR ''C'', CHR ''I''), 0, ACT_POP, tampi_st ST_COMM_ISSUE_NONBLOCKING),
     ((CHR ''G'', CHR ''c''), 0, ACT_PUSH, tampi_st ST_GLOBAL_ARRAY_CHECK),
     ((CHR ''G'', CHR ''C''), 0, ACT_POP, tampi_st ST_GLOBAL_ARRAY_CHECK),
     ((CHR ''L'', CHR ''i''), 0, ACT_PUSH, tampi_st ST_LIBRARY_INTERFACE),
     ((CHR ''L'', CHR ''I''), 0, ACT_POP, tampi_st ST_LIBRARY_INTERFACE),
     ((CHR ''L'', CHR ''p''), 0, ACT_PUSH, tampi_st ST_LIBRARY_POLLING),
     ((CHR ''L'', CHR ''P''), 0, ACT_POP, tampi_st ST_LIBRARY_POLLING),
     ((CHR ''Q'', CHR ''a''), 0, ACT_PUSH, tampi_st ST_QUEUE_ADD),
     ((CHR ''Q'', CHR ''A''), 0, ACT_POP, tampi_st ST_QUEUE_ADD),
     ((CHR ''Q'', CHR ''t''), 0, ACT_PUSH, tampi_st ST_QUEUE_TRANSFER),
     ((CHR ''Q'', CHR ''T''), 0, ACT_POP, tampi_st ST_QUEUE_TRANSFER),
     ((CHR ''R'', CHR ''c''), 0, ACT_PUSH, tampi_st ST_REQUEST_COMPLETED),
     ((CHR ''R'', CHR ''C''), 0, ACT_POP, tampi_st ST_REQUEST_COMPLETED),
     ((CHR ''R'', CHR ''t''), 0, ACT_PUSH, tampi_st ST_REQUEST_TEST),
     ((CHR ''R'', CHR ''T''), 0, ACT_POP, tampi_st ST_REQUEST_TEST),
     ((CHR ''R'', CHR ''a''), 0, ACT_PUSH, tampi_st ST_REQUEST_TESTALL),
     ((CHR ''R'', CHR ''A''), 0, ACT_POP, tampi_st ST_REQUEST_TESTALL),
     ((CHR ''R'', CHR ''s''), 0, ACT_PUSH, tampi_st ST_REQUEST_TESTSOME),
     ((CHR ''R'', CHR ''S''), 0, ACT_POP, tampi_st ST_REQUEST_TESTSOME),
     ((CHR ''T'', CHR ''c''), 0, ACT_PUSH, tampi_st ST_TICKET_CREATE),
     ((CHR ''T'', CHR ''C''), 0, ACT_POP, tampi_st ST_TICKET_CREATE),
     ((CHR ''T'', CHR ''w''), 0, ACT_PUSH, tampi_st ST_TICKET_WAIT),
     ((CHR ''T'', CHR ''W''), 0, ACT_POP, tampi_st ST_TICKET_WAIT)]"

definition model_tampi_event :: "'x temu_scheme \<Rightarrow> 'x temu_scheme res" where
  "model_tampi_event w =
     (if ev_m (em_ev w) \<noteq> char_byte CHR ''T'' then Inl (EEvent EvUnknownModel)
      else if \<not> th_is_running (threads w (em_thread w)) then Inl (EThread ThreadNotRunning)
      else simple_event MODEL_T tampi_ss_table w)"

subsection \<open>NODES\<close>

datatype nodes_ss_values =
    ST_REGISTER | ST_UNREGISTER | ST_IF0_WAIT | ST_IF0_INLINE | ST_TASKWAIT | ST_CREATE | ST_SUBMIT | ST_SPAWN

primrec nodes_st :: "nodes_ss_values \<Rightarrow> int" where
  "nodes_st ST_REGISTER = 1"
| "nodes_st ST_UNREGISTER = 2"
| "nodes_st ST_IF0_WAIT = 3"
| "nodes_st ST_IF0_INLINE = 4"
| "nodes_st ST_TASKWAIT = 5"
| "nodes_st ST_CREATE = 6"
| "nodes_st ST_SUBMIT = 7"
| "nodes_st ST_SPAWN = 8"

definition nodes_ss_table :: ss_table where
  "nodes_ss_table = [
     ((CHR ''R'', CHR ''[''), 0, ACT_PUSH, nodes_st ST_REGISTER),
     ((CHR ''R'', CHR '']''), 0, ACT_POP, nodes_st ST_REGISTER),
     ((CHR ''U'', CHR ''[''), 0, ACT_PUSH, nodes_st ST_UNREGISTER),
     ((CHR ''U'', CHR '']''), 0, ACT_POP, nodes_st ST_UNREGISTER),
     ((CHR ''W'', CHR ''[''), 0, ACT_PUSH, nodes_st ST_IF0_WAIT),
     ((CHR ''W'', CHR '']''), 0, ACT_POP, nodes_st ST_IF0_WAIT),
     ((CHR ''I'', CHR ''[''), 0, ACT_PUSH, nodes_st ST_IF0_INLINE),
     ((CHR ''I'', CHR '']''), 0, ACT_POP, nodes_st ST_IF0_INLINE),
     ((CHR ''T'', CHR ''[''), 0, ACT_PUSH, nodes_st ST_TASKWAIT),
     ((CHR ''T'', CHR '']''), 0, ACT_POP, nodes_st ST_TASKWAIT),
     ((CHR ''C'', CHR ''[''), 0, ACT_PUSH, nodes_st ST_CREATE),
     ((CHR ''C'', CHR '']''), 0, ACT_POP, nodes_st ST_CREATE),
     ((CHR ''S'', CHR ''[''), 0, ACT_PUSH, nodes_st ST_SUBMIT),
     ((CHR ''S'', CHR '']''), 0, ACT_POP, nodes_st ST_SUBMIT),
     ((CHR ''P'', CHR ''[''), 0, ACT_PUSH, nodes_st ST_SPAWN),
     ((CHR ''P'', CHR '']''), 0, ACT_POP, nodes_st ST_SPAWN)]"

definition model_nodes_event :: "'x temu_scheme \<Rightarrow> 'x temu_scheme res" where
  "model_nodes_event w =
     (if ev_m (em_ev w) \<noteq> char_byte CHR ''D'' then Inl (EEvent EvUnknownModel)
      else if \<not> th_is_running (threads w (em_thread w)) then Inl (EThread ThreadNotRunning)
      else if ev_c (em_ev w) \<in> char_byte ` set ''RUWITCSP'' then simple_event MODEL_D nodes_ss_table w
      else Inl (EEvent EvUnknownCategory))"

subsection \<open>Kernel\<close>

definition ST_CSOUT :: int where "ST_CSOUT = 3"

text \<open>The flag of the thread changes before the channel is written; an error stops the emulator.\<close>

definition context_switch :: "'x temu_scheme \<Rightarrow> 'x temu_scheme res" where
  "context_switch w =
     (let t = em_thread w; ch = ModelChan t MODEL_K 0; v = ev_v (em_ev w); th = threads w t in
      if v = char_byte CHR ''O'' then
        chan_push_at ch (VALUE_INT64 ST_CSOUT) (put_thread t (th\<lparr>th_is_out_of_cpu := True\<rparr>) w)
      else if v = char_byte CHR ''I'' then
        chan_pop_at ch (VALUE_INT64 ST_CSOUT) (put_thread t (th\<lparr>th_is_out_of_cpu := False\<rparr>) w)
      else Inl (EEvent EvUnknownValue))"

definition model_kernel_event :: "'x temu_scheme \<Rightarrow> 'x temu_scheme res" where
  "model_kernel_event w =
     (if ev_m (em_ev w) \<noteq> char_byte CHR ''K'' then Inl (EEvent EvUnknownModel)
      else if ev_c (em_ev w) = char_byte CHR ''C'' then context_switch w
      else Inl (EEvent EvUnknownCategory))"

subsection \<open>xtasks\<close>

definition EV_APICALL :: nat where "EV_APICALL = 85"

definition event_s :: "'x temu_scheme \<Rightarrow> 'x temu_scheme res" where
  "event_s w =
     (let ch = ModelChan (em_thread w) MODEL_X 0; p = em_payload w in
      if ev_payload_size (em_ev w) \<noteq> 16 then Inl (EEvent EvPayloadSize)
      else if ev_v (em_ev w) \<noteq> char_byte CHR ''e'' then Inl (EEvent EvUnknownValue)
      else let val = payload_i64 0 p; i = payload_u32 2 p; ty = payload_u32 3 p;
               id_or_val = (if i = EV_APICALL then val else int i) in
        if ty = 0 then chan_push_at ch (VALUE_INT64 id_or_val) w
        else if ty = 1 then chan_pop_at ch (VALUE_INT64 id_or_val) w
        else Inl (EEvent EvUnknownValue))"

text \<open>The model connects its channels at its first event; \<open>connect\<close> is \<^verbatim>\<open>model_xtasks_connect\<close>.\<close>

definition model_xtasks_event ::
  "('x temu_scheme \<Rightarrow> 'x temu_scheme res) \<Rightarrow> 'x temu_scheme \<Rightarrow> 'x temu_scheme res" where
  "model_xtasks_event connect w =
     rbind (if em_xtasks_on w then Inr w else rbind (connect w) (\<lambda>w1. Inr (w1\<lparr>em_xtasks_on := True\<rparr>))) (\<lambda>w1.
     if ev_m (em_ev w1) \<noteq> char_byte CHR ''X'' then Inl (EEvent EvUnknownModel)
     else if ev_c (em_ev w1) = char_byte CHR ''s'' then event_s w1
     else Inl (EEvent EvUnknownCategory))"

subsection \<open>What the handlers change\<close>

lemma simple_models_write:
  shows "model_mpi_event w = Inr w' \<Longrightarrow> \<exists>i. writes_only {ModelChan (em_thread w) MODEL_M i} w w'"
    and "model_tampi_event w = Inr w' \<Longrightarrow> \<exists>i. writes_only {ModelChan (em_thread w) MODEL_T i} w w'"
    and "model_nodes_event w = Inr w' \<Longrightarrow> \<exists>i. writes_only {ModelChan (em_thread w) MODEL_D i} w w'"
    and "event_s w = Inr w' \<Longrightarrow> \<exists>i. writes_only {ModelChan (em_thread w) MODEL_X i} w w'"
  by (auto simp: model_mpi_event_def model_tampi_event_def model_nodes_event_def event_s_def Let_def split: if_splits
      dest!: simple_event_writes intro: chan_at_writes)

text \<open>The channel of a thread has one entry while the flag says that the thread is out of its CPU.\<close>

definition kernel_agrees :: "nat \<Rightarrow> 'x temu_scheme \<Rightarrow> bool" where
  "kernel_agrees t w \<longleftrightarrow> ch_stack (bay_mem w (ModelChan t MODEL_K 0))
     = (if th_is_out_of_cpu (threads w t) then [VALUE_INT64 ST_CSOUT] else [])"

lemma push_no_dup:
  assumes "chan_push_at c v w = Inr w'" and "chan_wf (bay_mem w c)" and "\<not> ch_is_dirty (bay_mem w c)"
    and "\<not> ch_prop (bay_mem w c) CHAN_ALLOW_DUP" "\<not> ch_prop (bay_mem w c) CHAN_IGNORE_DUP"
  shows "ch_stack (bay_mem w' c) = v # ch_stack (bay_mem w c) \<and> ch_type (bay_mem w c) = CHAN_STACK
    \<and> (\<forall>x xs. ch_stack (bay_mem w c) = x # xs \<longrightarrow> x \<noteq> v)"
proof -
  from assms(1) obtain ch' s' where "chan_push (\<lambda>_. cb_chan_is_dirty c) (bay_mem w c) v w = Inr (ch', s')"
    by (auto simp: chan_push_at_def)
  then have "ch_last_value (bay_mem w c) \<noteq> v" using assms(3-5) by (auto simp: chan_push_def split: if_splits)
  with assms(2,3,5) chan_push_at_value [OF assms(1)] show ?thesis by (auto simp: chan_wf_def chan_read_def)
qed

text \<open>C34. The context switches of the kernel model. While the channel of the thread is clean and allows no duplicates, and for
  every thread the channel has an entry exactly when the flag says that the thread is out of its CPU, an accepted event
  leaves flag and channel in agreement again, and it changes the flag: a thread cannot leave its CPU twice
  nor return to it twice.\<close>

theorem kernel_context_switch:
  assumes agree: "\<forall>t. kernel_agrees t w" and ch: "chan_wf (bay_mem w (ModelChan (em_thread w) MODEL_K 0))"
    "\<not> ch_is_dirty (bay_mem w (ModelChan (em_thread w) MODEL_K 0))"
    "\<not> ch_prop (bay_mem w (ModelChan (em_thread w) MODEL_K 0)) CHAN_ALLOW_DUP"
    "\<not> ch_prop (bay_mem w (ModelChan (em_thread w) MODEL_K 0)) CHAN_IGNORE_DUP"
    and ok: "model_kernel_event w = Inr w'"
  shows "(\<forall>t. kernel_agrees t w')
    \<and> th_is_out_of_cpu (threads w' (em_thread w)) = (ev_v (em_ev w) = char_byte CHR ''O'')
    \<and> th_is_out_of_cpu (threads w (em_thread w)) \<noteq> th_is_out_of_cpu (threads w' (em_thread w))"
proof -
  let ?t = "em_thread w" and ?out = "\<lambda>b. put_thread (em_thread w) ((threads w (em_thread w))\<lparr>th_is_out_of_cpu := b\<rparr>) w"
  let ?c = "ModelChan ?t MODEL_K 0" and ?v = "VALUE_INT64 ST_CSOUT"
  have cs: "context_switch w = Inr w'" using ok by (auto simp: model_kernel_event_def split: if_splits)
  then consider "ev_v (em_ev w) = char_byte CHR ''O''" "chan_push_at ?c ?v (?out True) = Inr w'"
    | "ev_v (em_ev w) = char_byte CHR ''I''" "chan_pop_at ?c ?v (?out False) = Inr w'"
    by (auto simp: context_switch_def Let_def split: if_splits)
  then show ?thesis
  proof cases
    case 1
    note wr = chan_at_writes(2) [OF 1(2)]
    have st: "ch_stack (bay_mem w' ?c) = ?v # ch_stack (bay_mem w ?c)" "\<forall>x xs. ch_stack (bay_mem w ?c) = x # xs \<longrightarrow> x \<noteq> ?v"
      using push_no_dup [OF 1(2)] ch by simp_all
    have f: "threads w' = threads (?out True)" by (rule writes_only_fields [OF wr])
    have was: "\<not> th_is_out_of_cpu (threads w ?t)" using st(2) agree by (auto simp: kernel_agrees_def)
    have "kernel_agrees t w'" for t
      using agree was st(1) wr by (cases "t = ?t") (simp_all add: kernel_agrees_def f writes_only_def)
    with 1(1) was show ?thesis by (simp add: f)
  next
    case 2
    note wr = chan_at_writes(3) [OF 2(2)]
    have st: "ch_stack (bay_mem w ?c) = ?v # ch_stack (bay_mem w' ?c)" using chan_pop_at_value [OF 2(2)] by simp
    have f: "threads w' = threads (?out False)" by (rule writes_only_fields [OF wr])
    have was: "th_is_out_of_cpu (threads w ?t)" "ch_stack (bay_mem w ?c) = [?v]"
      using st agree by (auto simp: kernel_agrees_def split: if_splits)
    have "kernel_agrees t w'" for t
      using agree was st wr by (cases "t = ?t") (simp_all add: kernel_agrees_def f writes_only_def)
    with 2(1) was show ?thesis by (simp add: f)
  qed
qed

definition demo_kernel :: temu where
  "demo_kernel = demo_temu (\<lambda>i. True) task_world0 ''KCO'' []"

theorem kernel_context_switch_witness:
  "\<exists>w'. model_kernel_event demo_kernel = Inr w' \<and> kernel_agrees 1 w' \<and> th_is_out_of_cpu (threads w' 1)"
proof -
  have "res_get (\<lambda>_. ()) (model_kernel_event demo_kernel) = Some ()" by code_simp
  then obtain w' where w': "model_kernel_event demo_kernel = Inr w'" by (auto simp: res_get_Some)
  have "\<not> th_is_out_of_cpu (threads demo_kernel t)" "ch_stack (bay_mem demo_kernel (ModelChan t MODEL_K 0)) = []" for t
    by (simp_all add: demo_kernel_def demo_chan_def) (simp_all add: demo_sys0_def bay.defs)
  then have "\<forall>t. kernel_agrees t demo_kernel" by (simp add: kernel_agrees_def)
  from kernel_context_switch [OF this _ _ _ _ w'] show ?thesis using w'
    by (simp add: demo_kernel_def demo_chan_def chan_wf_def chan_read_def demo_event_def)
qed

end
