(* ===== verification/Handlers.thy ===== *)
theory Handlers
  imports Wiring Source_Writes Nosv Nanos6 Openmp Simple_Models
begin

text \<open>
  What the event handlers of all the models may change. The handlers are built from writes to the channels of threads and
  CPUs, updates of the records of threads, CPUs and tasks, and the control of the C code. A relation between the state before and
  after a handler that has the laws of one of the locales below therefore holds of every handler. The laws are
  used with two relations: \<open>src_step\<close>, which says that the bay keeps its wiring, and one that says which other parts of
  the emulator are left alone.
\<close>

subsection \<open>States with the same bay\<close>

definition same_bay :: "'x prv_bay_scheme \<Rightarrow> 'x prv_bay_scheme \<Rightarrow> bool" where
  "same_bay w v \<longleftrightarrow> prv_bay.truncate w = prv_bay.truncate v"

lemma same_bay_fields:
  assumes "same_bay w v"
  shows "bay_state v = bay_state w" "bay_channels v = bay_channels w" "bay_dirty v = bay_dirty w" "bay_bchans v = bay_bchans w"
    "bay_cbs v = bay_cbs w" "bay_ncbs v = bay_ncbs w" "bay_mem v = bay_mem w" "muxes v = muxes w" "sorts v = sorts w" "prvs v = prvs w"
  using assms by (simp_all add: same_bay_def prv_bay.truncate_def)

lemma same_bay_refl [simp]: "same_bay w w"
  by (simp add: same_bay_def)

lemma same_bay_put [simp]:
  "same_bay w (put_thread t th v) = same_bay w v" "same_bay w (put_cpu c cp v) = same_bay w v"
  by (simp_all add: same_bay_def put_thread_def put_cpu_def prv_bay.truncate_def)

lemma same_bay_upd [simp]:
  "same_bay w (v\<lparr>em_ovni := x\<rparr>) = same_bay w v"
  by (simp add: same_bay_def prv_bay.truncate_def)

lemma same_bay_tasks [simp]:
  "same_bay w (v\<lparr>em_tasks := y\<rparr>) = same_bay w v" "same_bay w (v\<lparr>em_xtasks_on := z\<rparr>) = same_bay w v"
  by (simp_all add: same_bay_def prv_bay.truncate_def)

lemma same_bay_wf: "same_bay w v \<Longrightarrow> bay_wf v = bay_wf w"
  by (simp add: same_bay_fields bay_wf_defs)

lemma same_bay_src: "same_bay w v \<Longrightarrow> src_step v w' \<Longrightarrow> src_step w w'"
  by (simp add: same_bay_fields src_step_def bay_step_def)

subsection \<open>The interface: relations that hold of channel writes\<close>

definition res_all :: "('w \<Rightarrow> bool) \<Rightarrow> 'w res \<Rightarrow> bool" where
  "res_all P r \<longleftrightarrow> (\<forall>w'. r = Inr w' \<longrightarrow> P w')"

named_theorems frame

lemma res_all_Inl [frame]: "res_all P (Inl e)"
  by (simp add: res_all_def)

lemma res_all_Inr: "P w \<Longrightarrow> res_all P (Inr w)"
  by (simp add: res_all_def)

lemma res_all_value: "(\<And>x. res_all P (f x)) \<Longrightarrow> res_all P (rbind m f)"
  by (cases m) (simp_all add: res_all_Inl)

lemma res_all_if [frame]: "res_all P a \<Longrightarrow> res_all P b \<Longrightarrow> res_all P (if c then a else b)"
  by simp

lemma res_all_option [frame]: "res_all P a \<Longrightarrow> (\<And>x. res_all P (f x)) \<Longrightarrow> res_all P (case_option a f y)"
  by (cases y) simp_all

lemma res_all_prod [frame]: "(\<And>a b. res_all P (f a b)) \<Longrightarrow> res_all P (case_prod f y)"
  by (cases y) simp

lemma res_all_action [frame]:
  "res_all P a \<Longrightarrow> res_all P b \<Longrightarrow> res_all P c \<Longrightarrow> res_all P d \<Longrightarrow> res_all P (case_ss_action a b c d y)"
  by (cases y) simp_all

lemma res_all_chval [frame]: "res_all P a \<Longrightarrow> (\<And>i. res_all P (f i)) \<Longrightarrow> (\<And>i. res_all P (g i)) \<Longrightarrow> res_all P (case_chval a f g y)"
  by (cases y) simp_all

locale chan_frame =
  fixes R :: "'x bay_scheme \<Rightarrow> 'x bay_scheme \<Rightarrow> bool"
  assumes R_refl: "R w w"
    and R_trans: "R u v \<Longrightarrow> R v w \<Longrightarrow> R u w"
    and R_set: "is_source c \<Longrightarrow> chan_set_at c x w = Inr w' \<Longrightarrow> R w w'"
    and R_push: "is_source c \<Longrightarrow> chan_push_at c x w = Inr w' \<Longrightarrow> R w w'"
    and R_pop: "is_source c \<Longrightarrow> chan_pop_at c x w = Inr w' \<Longrightarrow> R w w'"
begin

lemma frame_Inr [frame]: "R w v \<Longrightarrow> res_all (R w) (Inr v)"
  by (rule res_all_Inr)

lemma frame_after: "R w v \<Longrightarrow> res_all (R v) r \<Longrightarrow> res_all (R w) r"
  using R_trans by (auto simp: res_all_def)

lemma frame_chan [frame]:
  assumes "R w v" and "is_source c"
  shows "res_all (R w) (chan_set_at c x v)" "res_all (R w) (chan_push_at c x v)" "res_all (R w) (chan_pop_at c x v)"
  by (rule frame_after [OF assms(1)]; use assms(2) R_set R_push R_pop in \<open>simp add: res_all_def\<close>)+

lemma frame_bind [frame]:
  assumes "res_all (R w) m" and "\<And>v. res_all (R v) (f v)"
  shows "res_all (R w) (rbind m f)"
  using assms R_trans by (cases m) (auto simp: res_all_def)

lemma frame_foldr [frame]:
  assumes "\<And>x v. res_all (R v) (f x v)"
  shows "res_all (R w) (foldr_res f xs w)"
  by (induction xs arbitrary: w) (simp_all add: frame_Inr R_refl frame_bind assms)

end

subsection \<open>The base model\<close>

locale base_frame = chan_frame R for R :: "'x emu_scheme \<Rightarrow> 'x emu_scheme \<Rightarrow> bool" +
  assumes R_thread: "R w (put_thread t th w)"
    and R_cpu: "R w (put_cpu c cp w)"
    and R_ovni: "R w (w\<lparr>em_ovni := ov\<rparr>)"
begin

lemma R_puts:
  assumes "R w v"
  shows "R w (put_thread t th v)" "R w (put_cpu c cp v)" "R w (v\<lparr>em_ovni := ov\<rparr>)"
  using R_trans [OF assms] R_thread R_cpu R_ovni by blast+

lemmas R_states = R_refl R_puts

lemma frame_thread_ops [frame]:
  "res_all (R w) (thread_set_state t st w)" "res_all (R w) (thread_set_cpu t c w)" "res_all (R w) (thread_unset_cpu t w)"
  "res_all (R w) (thread_migrate_cpu t d w)"
  unfolding thread_set_state_def thread_set_cpu_def thread_unset_cpu_def thread_migrate_cpu_def Let_def
  by (intro frame; simp add: R_states)+

lemma frame_cpu_update [frame]: "R w v \<Longrightarrow> res_all (R w) (cpu_update c v)"
  unfolding cpu_update_def Let_def by (rule frame_after, assumption, intro frame; simp add: R_states)

lemma frame_cpu_ops [frame]:
  "res_all (R w) (cpu_add_thread c t w)" "res_all (R w) (cpu_remove_thread c t w)" "res_all (R w) (cpu_migrate_thread c t d w)"
proof -
  show a: "res_all (R w) (cpu_add_thread c t w)" "res_all (R w) (cpu_remove_thread c t w)" for w c
    unfolding cpu_add_thread_def cpu_remove_thread_def Let_def by (intro frame; simp add: R_states)+
  show "res_all (R w) (cpu_migrate_thread c t d w)" unfolding cpu_migrate_thread_def by (intro frame a)
qed

lemma frame_on_th_cpu [frame]: "(\<And>c. res_all (R w) (f c w)) \<Longrightarrow> res_all (R w) (on_th_cpu t f w)"
  unfolding on_th_cpu_def by (intro frame)

lemma frame_pre_thread: "res_all (R w) (pre_thread w)"
proof -
  have "res_all (R w) (pre_thread_execute t w)" for t
    unfolding pre_thread_execute_def by (intro res_all_if res_all_Inl; rule res_all_value; intro frame)
  moreover have "res_all (R w) (pre_thread_end t w)" "res_all (R w) (pre_thread_pause t w)" "res_all (R w) (pre_thread_resume t w)"
    "res_all (R w) (pre_thread_cool t w)" "res_all (R w) (pre_thread_warm t w)" for t
    unfolding pre_thread_end_def pre_thread_pause_def pre_thread_resume_def pre_thread_cool_def pre_thread_warm_def
    by (intro frame; simp add: R_states)+
  ultimately show ?thesis unfolding pre_thread_def Let_def by (intro res_all_if res_all_Inl res_all_Inr R_refl)
qed

lemma frame_pre_affinity: "res_all (R w) (pre_affinity w)"
proof -
  have m: "res_all (R w) (migrate t c d w)" for t c d unfolding migrate_def by (intro frame)
  have "res_all (R w) (pre_affinity_set w)" "res_all (R w) (pre_affinity_remote w)"
    unfolding pre_affinity_set_def pre_affinity_remote_def Let_def
    by (intro res_all_if res_all_Inl res_all_value res_all_option m res_all_Inr R_refl)+
  then show ?thesis unfolding pre_affinity_def Let_def by (intro res_all_if res_all_Inl)
qed

lemma frame_ovni_event: "res_all (R w) (model_ovni_event w)"
proof -
  have "res_all (R w) (pre_burst w)" "res_all (R w) (pre_flush w)" "res_all (R w) (mark_event w)" "res_all (R w) (pre_cpu w)"
    unfolding pre_burst_def pre_flush_def mark_event_def pre_cpu_def Let_def by (intro frame; simp add: R_states)+
  then show ?thesis unfolding model_ovni_event_def Let_def
    by (intro res_all_if res_all_Inl frame_pre_thread frame_pre_affinity res_all_Inr R_refl)
qed

end

subsection \<open>The models of the runtimes\<close>

locale task_frame = chan_frame R for R :: "'x temu_scheme \<Rightarrow> 'x temu_scheme \<Rightarrow> bool" +
  assumes R_tasks: "R w (w\<lparr>em_tasks := tw\<rparr>)"
    and R_out: "R w (put_thread t ((threads w t)\<lparr>th_is_out_of_cpu := b\<rparr>) w)"
begin

lemmas R_same = R_refl R_tasks R_out

lemma frame_simple_event [frame]: "res_all (R w) (simple_event m tbl w)"
  unfolding simple_event_def Let_def by (intro frame; simp add: R_same)

lemma frame_on_tasks [frame]: "res_all (R w) (on_tasks f w)"
  unfolding on_tasks_def by (intro res_all_value res_all_Inr R_tasks)

lemma frame_set_chans [frame]: "res_all (R w) (set_chans m cvs w)"
  unfolding set_chans_def by (rule frame_foldr) (auto intro!: frame_chan R_refl split: prod.splits)

lemma frame_pre_type [frame]: "res_all (R w) (pre_type hash m w)"
  unfolding pre_type_def Let_def by (intro frame)

lemma frame_update_task:
  assumes "\<And>v. res_all (R v) (upd v)" and "\<And>tr p n v. res_all (R v) (chans tr p n v)"
  shows "res_all (R w) (update_task m ss st upd chans w)"
proof -
  have "res_all (R v) (update_task_ss_channel m ss st x v)" "res_all (R v) (enforce_task_rules m ss st x n v)" for v x n
    unfolding update_task_ss_channel_def enforce_task_rules_def Let_def by (intro frame; simp add: R_same)+
  then show ?thesis unfolding update_task_def Let_def
    by (intro frame_bind res_all_value [where m = "expand_transition_value _ _ _"] assms)
qed

lemma frame_update_task_channels:
  assumes "\<And>b v. res_all (R v) (running b v)" and "\<And>v. res_all (R v) (stopped v)" and "\<And>p n v. res_all (R v) (switch p n v)"
  shows "res_all (R w) (update_task_channels running stopped switch tr p n w)"
  unfolding update_task_channels_def by (intro frame R_refl assms)

lemma frame_nosv_event: "res_all (R w) (model_nosv_event hash w)"
proof -
  have chans: "res_all (R v) (nosv_chan_body_running b v)" "res_all (R v) (nosv_chan_body_stopped v)" "res_all (R v) (nosv_chan_body_switch b d v)"
    for v b d
    unfolding nosv_chan_body_running_def nosv_chan_body_stopped_def nosv_chan_body_switch_def Let_def by (intro frame)+
  have st: "res_all (R v) (nosv_update_task_state v)" for v
    unfolding nosv_update_task_state_def Let_def by (intro frame)
  have "res_all (R w) (nosv_update_task w)"
    unfolding nosv_update_task_def nosv_update_task_channels_def by (intro frame_update_task frame_update_task_channels st chans)
  moreover have "res_all (R w) (nosv_create_task v w)" for v unfolding nosv_create_task_def Let_def by (intro frame)
  ultimately have "res_all (R w) (nosv_pre_task w)" unfolding nosv_pre_task_def Let_def by (intro frame)
  moreover have "res_all (R w) (hwc_event w)" unfolding hwc_event_def event_hwc_count_def Let_def by (intro frame; simp add: R_same)
  ultimately show ?thesis unfolding model_nosv_event_def nosv_process_ev_def nosv_simple_def nosv_pre_type_def Let_def by (intro frame)
qed

lemma frame_nanos6_event: "res_all (R w) (model_nanos6_event hash w)"
proof -
  have chans: "res_all (R v) (nanos6_chan_task_running b v)" "res_all (R v) (nanos6_chan_task_stopped v)" "res_all (R v) (nanos6_chan_task_switch b d v)"
    for v b d
    unfolding nanos6_chan_task_running_def nanos6_chan_task_stopped_def nanos6_chan_task_switch_def Let_def by (intro frame)+
  have st: "res_all (R v) (nanos6_update_task_state v)" for v
    unfolding nanos6_update_task_state_def Let_def by (intro frame)
  have "res_all (R w) (nanos6_update_task w)"
    unfolding nanos6_update_task_def nanos6_update_task_channels_def by (intro frame_update_task frame_update_task_channels st chans)
  moreover have "res_all (R w) (nanos6_create_task w)" unfolding nanos6_create_task_def Let_def by (intro frame)
  ultimately have "res_all (R w) (nanos6_pre_task w)" unfolding nanos6_pre_task_def Let_def by (intro frame R_refl)
  then show ?thesis unfolding model_nanos6_event_def nanos6_process_ev_def nanos6_simple_def nanos6_pre_type_def Let_def by (intro frame)
qed

lemma frame_openmp_event: "res_all (R w) (model_openmp_event hash w)"
proof -
  have "res_all (R v) (omp_task_chans b t v)" for v b t
    unfolding omp_task_chans_def push_pop_def by (cases b) (simp_all, (intro frame; simp add: R_same)+)
  then have "res_all (R w) (omp_update_task w)" unfolding omp_update_task_def Let_def by (intro frame)
  moreover have "res_all (R w) (omp_create_task w)" unfolding omp_create_task_def Let_def by (intro frame)
  ultimately have "res_all (R w) (omp_pre_task w)" unfolding omp_pre_task_def Let_def by (intro frame)
  moreover have "res_all (R w) (omp_pre_worksharing w)"
    unfolding omp_pre_worksharing_def omp_update_ws_state_def Let_def by (intro frame; simp add: R_same)
  ultimately show ?thesis
    unfolding model_openmp_event_def omp_process_ev_def omp_simple_def omp_pre_type_def Let_def by (intro frame)
qed

lemma frame_small_events:
  "res_all (R w) (model_mpi_event w)" "res_all (R w) (model_tampi_event w)" "res_all (R w) (model_nodes_event w)"
  "res_all (R w) (model_kernel_event w)" "res_all (R w) (event_s w)"
  unfolding model_mpi_event_def model_tampi_event_def model_nodes_event_def model_kernel_event_def context_switch_def event_s_def Let_def
  by (intro frame; simp add: R_same)+

lemmas frame_events = frame_nosv_event frame_nanos6_event frame_openmp_event frame_small_events

end

subsection \<open>The wiring of the bay\<close>

definition src_only :: "'x prv_bay_scheme \<Rightarrow> 'x prv_bay_scheme \<Rightarrow> bool" where
  "src_only w w' \<longleftrightarrow> (bay_wf w \<longrightarrow> src_step w w')"

lemma src_only_same: "same_bay w v \<Longrightarrow> src_only w v"
  using same_bay_src [of w v v] same_bay_wf [of w v] src_step_refl by (auto simp: src_only_def)

lemma src_only_trans: "src_only u v \<Longrightarrow> src_only v w \<Longrightarrow> src_only u w"
  unfolding src_only_def using src_step_wf src_step_trans by blast

lemma src_only_chan:
  assumes "is_source c"
  shows "chan_set_at c x w = Inr w' \<Longrightarrow> src_only w w'" "chan_push_at c x w = Inr w' \<Longrightarrow> src_only w w'" "chan_pop_at c x w = Inr w' \<Longrightarrow> src_only w w'"
  using assms chan_src by (auto simp: src_only_def)

lemma src_only_frame: "chan_frame src_only"
  by unfold_locales (use src_only_same src_only_trans src_only_chan in \<open>auto intro: same_bay_refl\<close>)

interpretation ovni_src: base_frame src_only
  by (intro base_frame.intro src_only_frame base_frame_axioms.intro src_only_same) simp_all

interpretation task_src: task_frame src_only
  by (intro task_frame.intro src_only_frame task_frame_axioms.intro src_only_same) simp_all

subsection \<open>The rest of the emulator\<close>

text \<open>A handler of the base model leaves alone what the emulator keeps beside the system; a handler of another model
  also leaves the CPUs and the threads, but for the mark of the threads that are out of their CPU.\<close>

definition outer_kept :: "'x emu_scheme \<Rightarrow> 'x emu_scheme \<Rightarrow> bool" where
  "outer_kept w w' \<longleftrightarrow> emu.more w' = emu.more w \<and> rec_pvts w' = rec_pvts w"

definition system_kept :: "'x temu_scheme \<Rightarrow> 'x temu_scheme \<Rightarrow> bool" where
  "system_kept w w' \<longleftrightarrow> temu.more w' = temu.more w \<and> em_xtasks_on w' = em_xtasks_on w \<and> cpus w' = cpus w
     \<and> (\<forall>t. (threads w' t)\<lparr>th_is_out_of_cpu := False\<rparr> = (threads w t)\<lparr>th_is_out_of_cpu := False\<rparr>)"

lemma bay_more_kept:
  "bay.more w' = bay.more w \<Longrightarrow> outer_kept w w'"
  "bay.more v' = bay.more v \<Longrightarrow> system_kept v v'"
  by (cases w rule: emu.cases_scheme; cases w' rule: emu.cases_scheme; simp add: outer_kept_def)
     (cases v rule: temu.cases_scheme; cases v' rule: temu.cases_scheme; simp add: system_kept_def)

lemma chan_at_more:
  "chan_set_at c x w = Inr w' \<Longrightarrow> bay.more w' = bay.more w" "chan_push_at c x w = Inr w' \<Longrightarrow> bay.more w' = bay.more w"
  "chan_pop_at c x w = Inr w' \<Longrightarrow> bay.more w' = bay.more w"
  by (drule chan_at_writes, simp add: writes_only_def)+

lemmas chan_at_kept = bay_more_kept(1) [OF chan_at_more(1)] bay_more_kept(1) [OF chan_at_more(2)] bay_more_kept(1) [OF chan_at_more(3)]
  bay_more_kept(2) [OF chan_at_more(1)] bay_more_kept(2) [OF chan_at_more(2)] bay_more_kept(2) [OF chan_at_more(3)]

interpretation ovni_kept: base_frame outer_kept
  by unfold_locales ((rule chan_at_kept, assumption) | (auto simp: outer_kept_def put_thread_def put_cpu_def)[1])+

interpretation task_kept: task_frame system_kept
  by unfold_locales ((rule chan_at_kept, assumption) | (auto simp: system_kept_def put_thread_def)[1])+

lemma system_kept_wf:
  assumes "system_kept w w'"
  shows "sys_wf w' = sys_wf w"
proof -
  have th: "th_cpu (threads w' t) = th_cpu (threads w t) \<and> th_state (threads w' t) = th_state (threads w t)
      \<and> th_is_running (threads w' t) = th_is_running (threads w t) \<and> th_is_active (threads w' t) = th_is_active (threads w t)" for t
    using assms by (cases "threads w t"; cases "threads w' t") (auto simp: system_kept_def dest!: spec [of _ t])
  have cp: "cpus w' = cpus w" using assms by (simp add: system_kept_def)
  have "cpu_counts c w' = cpu_counts c w" for c by (rule cpu_counts_cong) (simp_all add: th cp)
  then show ?thesis by (simp add: sys_wf_def cpu_lists_def thread_ok_def th cp)
qed

end
