(* ===== verification/Cstr.thy ===== *)
theory Cstr
  imports Ev
begin

text \<open>
  Numbers and versions as text: the functions of the C library that the sources use to read them and
  \<^verbatim>\<open>src/include/version.h\<close>.

  \<open>strtol_all\<close> is the idiom of the sources around \<^verbatim>\<open>strtol(str, &endptr, 10)\<close>: it fails when \<^verbatim>\<open>errno\<close> is set (the number
  is out of the range of a long), when there are no digits or when something follows them. \<open>strtok\<close> is one call of
  \<^verbatim>\<open>strtok_r\<close>: the token and what is left for the next call.
\<close>

subsection \<open>Numbers\<close>

definition is_space :: "char \<Rightarrow> bool" where
  "is_space c \<longleftrightarrow> (of_char c :: nat) = 32 \<or> (9 \<le> (of_char c :: nat) \<and> (of_char c :: nat) \<le> 13)"

definition is_digit :: "char \<Rightarrow> bool" where
  "is_digit c \<longleftrightarrow> 48 \<le> (of_char c :: nat) \<and> (of_char c :: nat) \<le> 57"

definition digit_value :: "char \<Rightarrow> int" where
  "digit_value c = int (of_char c) - 48"

definition digits_value :: "string \<Rightarrow> int" where
  "digits_value ds = foldl (\<lambda>n c. 10 * n + digit_value c) 0 ds"

fun strip_sign :: "string \<Rightarrow> bool \<times> string" where
  "strip_sign (CHR ''-'' # s) = (True, s)"
| "strip_sign (CHR ''+'' # s) = (False, s)"
| "strip_sign s = (False, s)"

definition strtol_all :: "string \<Rightarrow> int option" where
  "strtol_all str =
     (let (neg, s) = strip_sign (dropWhile is_space str);
          ds = takeWhile is_digit s; rest = dropWhile is_digit s;
          v = (if neg then - digits_value ds else digits_value ds) in
      if ds = [] \<or> rest \<noteq> [] then None
      else if v < - (2 ^ 63) \<or> v \<ge> 2 ^ 63 then None
      else Some v)"

subsection \<open>Versions\<close>

definition strtok :: "string \<Rightarrow> string \<Rightarrow> (string \<times> string) option" where
  "strtok delim s =
     (let t = dropWhile (\<lambda>c. c \<in> set delim) s in
      if t = [] then None
      else Some (takeWhile (\<lambda>c. c \<notin> set delim) t, drop 1 (dropWhile (\<lambda>c. c \<notin> set delim) t)))"

definition version_number :: "string \<Rightarrow> string \<Rightarrow> (int \<times> string) option" where
  "version_number delim s =
     (case strtok delim s of
        None \<Rightarrow> None
      | Some (num, rest) \<Rightarrow>
          (case strtol_all num of
             None \<Rightarrow> None
           | Some n \<Rightarrow> let v = c_int n in if v < 0 then None else Some (v, rest)))"

definition version_parse :: "string \<Rightarrow> (int \<times> int \<times> int) option" where
  "version_parse version =
     (if length version \<ge> 64 then None
      else case version_number ''.'' version of
        None \<Rightarrow> None
      | Some (major, s1) \<Rightarrow>
          (case version_number ''.'' s1 of
             None \<Rightarrow> None
           | Some (minor, s2) \<Rightarrow>
               (case version_number ''.-'' s2 of
                  None \<Rightarrow> None
                | Some (patch, _) \<Rightarrow> Some (major, minor, patch))))"

definition version_is_compatible :: "int \<times> int \<times> int \<Rightarrow> int \<times> int \<times> int \<Rightarrow> bool" where
  "version_is_compatible want have' \<longleftrightarrow> fst want = fst have' \<and> fst (snd want) \<le> fst (snd have')"

subsection \<open>Printed numbers are read back\<close>

lemma dec_digits: "list_all is_digit (dec n) \<and> dec n \<noteq> []"
proof (induction n rule: dec.induct)
  case (1 n)
  have d: "is_digit (char_of (48 + m))" if "m < 10" for m :: nat
    using that by (simp add: is_digit_def)
  show ?case
  proof (cases "n < 10")
    case True
    then show ?thesis using d [of n] by (simp add: dec.simps [of n])
  next
    case False
    then show ?thesis using 1 d [of "n mod 10"] by (simp add: dec.simps [of n])
  qed
qed

lemma digits_value_snoc: "digits_value (ds @ [c]) = 10 * digits_value ds + digit_value c"
  by (simp add: digits_value_def)

lemma digits_value_dec: "digits_value (dec n) = int n"
proof (induction n rule: dec.induct)
  case (1 n)
  have d: "digit_value (char_of (48 + m)) = int m" if "m < 10" for m :: nat
    using that by (simp add: digit_value_def)
  show ?case
  proof (cases "n < 10")
    case True
    then show ?thesis using d [of n] by (simp add: dec.simps [of n] digits_value_def)
  next
    case False
    then show ?thesis using 1 d [of "n mod 10"] by (simp add: dec.simps [of n] digits_value_snoc zdiv_int zmod_int)
  qed
qed

lemma is_digit_other:
  "is_digit c \<Longrightarrow> \<not> is_space c" "is_digit c \<Longrightarrow> c \<noteq> CHR ''-''" "is_digit c \<Longrightarrow> c \<noteq> CHR ''+''"
  "is_digit c \<Longrightarrow> c \<noteq> CHR ''.''"
  by (auto simp: is_digit_def is_space_def)

lemma strip_sign_digit: "is_digit c \<Longrightarrow> strip_sign (c # s) = (False, c # s)"
  using is_digit_other(2,3) [of c] by (cases "c # s" rule: strip_sign.cases) auto

lemma strtol_dec:
  assumes "int n < 2 ^ 63"
  shows "strtol_all (dec n) = Some (int n)"
proof -
  obtain c s where dn: "dec n = c # s" "is_digit c" "list_all is_digit s"
    using dec_digits [of n] by (cases "dec n") auto
  have "dropWhile is_space (dec n) = dec n" using dn is_digit_other(1) by simp
  moreover have "takeWhile is_digit (dec n) = dec n" "dropWhile is_digit (dec n) = []"
    using dec_digits [of n] by (simp_all add: list_all_iff)
  moreover have "strip_sign (dec n) = (False, dec n)" using dn strip_sign_digit by simp
  ultimately show ?thesis using assms dec_digits [of n]
    unfolding strtol_all_def Let_def by (simp del: takeWhile_eq_all_conv dropWhile_eq_Nil_conv add: digits_value_dec)
qed

lemma strtok_token:
  assumes "list_all (\<lambda>c. c \<notin> set delim) tok" and "tok \<noteq> []" and "rest = [] \<or> hd rest \<in> set delim"
  shows "strtok delim (tok @ rest) = Some (tok, tl rest)"
proof -
  obtain c t where tok: "tok = c # t" "c \<notin> set delim" using assms(1,2) by (cases tok) auto
  have "takeWhile (\<lambda>c. c \<notin> set delim) (tok @ rest) = tok" "dropWhile (\<lambda>c. c \<notin> set delim) (tok @ rest) = rest"
    using assms(1,3) by (cases rest; auto simp: list_all_iff)+
  then show ?thesis using tok by (simp add: strtok_def drop_Suc)
qed

lemma dec_no_delim: "set delim \<subseteq> {CHR ''.'', CHR ''-''} \<Longrightarrow> list_all (\<lambda>c. c \<notin> set delim) (dec n)"
  using dec_digits [of n] is_digit_other(2,4) by (auto simp: list_all_iff)

lemma version_number_dec:
  assumes "set delim \<subseteq> {CHR ''.'', CHR ''-''}" and "rest = [] \<or> hd rest \<in> set delim" and "int n < 2 ^ 31"
  shows "version_number delim (dec n @ rest) = Some (int n, tl rest)"
proof -
  have "strtok delim (dec n @ rest) = Some (dec n, tl rest)"
    using dec_no_delim [OF assms(1)] dec_digits [of n] assms(2) by (intro strtok_token) auto
  moreover have "strtol_all (dec n) = Some (int n)" using assms(3) by (intro strtol_dec) simp
  moreover have "c_int (int n) = int n" using assms(3) by (intro c_int_id) auto
  ultimately show ?thesis by (simp add: version_number_def)
qed

lemma version_parse_dec:
  assumes "int a < 2 ^ 31" and "int b < 2 ^ 31" and "int c < 2 ^ 31"
    and "length (dec a @ ''.'' @ dec b @ ''.'' @ dec c @ rest) < 64" and "rest = [] \<or> hd rest = CHR ''-''"
  shows "version_parse (dec a @ ''.'' @ dec b @ ''.'' @ dec c @ rest) = Some (int a, int b, int c)"
proof -
  have "version_number ''.'' (dec a @ ''.'' @ dec b @ ''.'' @ dec c @ rest) = Some (int a, dec b @ ''.'' @ dec c @ rest)"
    using version_number_dec [of "''.''" "''.'' @ dec b @ ''.'' @ dec c @ rest" a] assms(1) by simp
  moreover have "version_number ''.'' (dec b @ ''.'' @ dec c @ rest) = Some (int b, dec c @ rest)"
    using version_number_dec [of "''.''" "''.'' @ dec c @ rest" b] assms(2) by simp
  moreover have "version_number ''.-'' (dec c @ rest) = Some (int c, tl rest)"
    using version_number_dec [of "''.-''" rest c] assms(3,5) by auto
  ultimately show ?thesis using assms(4) by (simp add: version_parse_def)
qed

end
