(* ===== verification/Ev_Spec.thy ===== *)
theory Ev_Spec
  imports Cstr
begin

text \<open>
  Declarations of events: \<^verbatim>\<open>src/emu/ev_spec.c\<close> and \<^verbatim>\<open>src/emu/model_evspec.c\<close>.

  Every model declares its events with a signature, such as \<^verbatim>\<open>OAr(i32 cpu, i32 tid)\<close>, and a description with the arguments
  in place, such as \<^verbatim>\<open>%{cpu}\<close>. Signatures are compiled when a model is registered; \<^verbatim>\<open>ovnidump\<close> prints events with
  their description.

  Strings have no zero byte; the end of the list is the end of the string. The buffer of an output is the text
  written to it. Of \<^verbatim>\<open>printf\<close> the conversions of one argument are modelled that have the flag \<^verbatim>\<open>#\<close> or none, a length and one of
  \<^verbatim>\<open>d i u x s\<close>; the models use no others, and they are the error \<open>EsFormat\<close>. The payload of an event is the memory from its
  place on, as in \<open>Ev\<close>; an event without payload has a null pointer, and reading it is the error \<open>EvOutOfBounds\<close>.
\<close>

subsection \<open>Signatures\<close>

record ev_decl =
  ed_signature :: string
  ed_description :: string

datatype ev_arg_type = U8 | U16 | U32 | U64 | I8 | I16 | I32 | I64 | T_STR

definition arg_types :: "ev_arg_type list" where
  "arg_types = [U8, U16, U32, U64, I8, I16, I32, I64, T_STR]"

fun type_name :: "ev_arg_type \<Rightarrow> string" where
  "type_name U8 = ''u8''" | "type_name U16 = ''u16''" | "type_name U32 = ''u32''" | "type_name U64 = ''u64''"
| "type_name I8 = ''i8''" | "type_name I16 = ''i16''" | "type_name I32 = ''i32''" | "type_name I64 = ''i64''"
| "type_name T_STR = ''str''"

fun type_fmt :: "ev_arg_type \<Rightarrow> string" where
  "type_fmt U8 = ''%u''" | "type_fmt U16 = ''%u''" | "type_fmt U32 = ''%u''" | "type_fmt U64 = ''%lu''"
| "type_fmt I8 = ''%d''" | "type_fmt I16 = ''%d''" | "type_fmt I32 = ''%d''" | "type_fmt I64 = ''%ld''"
| "type_fmt T_STR = ''%s''"

fun type_size :: "ev_arg_type \<Rightarrow> nat" where
  "type_size U8 = 1" | "type_size U16 = 2" | "type_size U32 = 4" | "type_size U64 = 8"
| "type_size I8 = 1" | "type_size I16 = 2" | "type_size I32 = 4" | "type_size I64 = 8" | "type_size T_STR = 0"

definition MAX_ARGS :: nat where "MAX_ARGS = 16"

record ev_arg =
  ea_size :: nat
  ea_offset :: nat
  ea_type :: ev_arg_type
  ea_name :: string

record ev_spec =
  es_mcv :: string
  es_is_jumbo :: bool
  es_args :: "ev_arg list"
  es_payload_size :: nat
  es_description :: string

definition parse_type :: "string \<Rightarrow> ev_arg_type res" where
  "parse_type type = (case find (\<lambda>t. type_name t = type) arg_types of None \<Rightarrow> Inl (EEvspec EsType) | Some t \<Rightarrow> Inr t)"

definition parse_arg :: "string \<Rightarrow> ev_spec \<Rightarrow> ev_spec res" where
  "parse_arg arg spec =
     (if length (es_args spec) \<ge> MAX_ARGS then Inl (EEvspec EsTooManyArgs)
      else case strtok '' '' arg of None \<Rightarrow> Inl (EEvspec EsNoType)
      | Some (type, rest) \<Rightarrow>
          (case strtok '' '' rest of None \<Rightarrow> Inl (EEvspec EsNoName)
           | Some (name, _) \<Rightarrow>
               if length name \<ge> 64 then Inl (EEvspec EsNameTooLong)
               else rbind (parse_type type) (\<lambda>t.
                 Inr (spec\<lparr>es_args := es_args spec @ [\<lparr>ea_size = type_size t, ea_offset = es_payload_size spec,
                        ea_type = t, ea_name = name\<rparr>],
                      es_payload_size := es_payload_size spec + type_size t\<rparr>))))"

lemma strtok_shorter: "strtok delim s = Some (tok, rest) \<Longrightarrow> length rest < length s"
proof -
  assume a: "strtok delim s = Some (tok, rest)"
  let ?t = "dropWhile (\<lambda>c. c \<in> set delim) s"
  have t: "0 < length ?t" and rest: "rest = drop 1 (dropWhile (\<lambda>c. c \<notin> set delim) ?t)"
    using a unfolding strtok_def Let_def by (simp_all split: if_splits)
  have le: "length (dropWhile (\<lambda>c. c \<notin> set delim) ?t) \<le> length ?t" "length ?t \<le> length s"
    by (rule length_dropWhile_le)+
  have "length rest = length (dropWhile (\<lambda>c. c \<notin> set delim) ?t) - 1" unfolding rest by (rule length_drop)
  with t le show ?thesis by linarith
qed

text \<open>The loop of \<^verbatim>\<open>parse_args\<close>.\<close>

function parse_arg_list :: "string \<Rightarrow> ev_spec \<Rightarrow> ev_spec res" where
  "parse_arg_list s spec =
     (case strtok '',)'' s of None \<Rightarrow> Inr spec
      | Some (arg, rest) \<Rightarrow> rbind (parse_arg arg spec) (parse_arg_list rest))"
  by pat_completeness auto
termination
  by (relation "measure (\<lambda>(s, _). length s)") (auto dest: strtok_shorter)

declare parse_arg_list.simps [simp del]

definition parse_args :: "string \<Rightarrow> ev_spec \<Rightarrow> ev_spec res" where
  "parse_args paren spec = parse_arg_list (drop 1 paren) (spec\<lparr>es_payload_size := if es_is_jumbo spec then 4 else 0\<rparr>)"

definition isgraph :: "char \<Rightarrow> bool" where
  "isgraph c \<longleftrightarrow> 33 \<le> (of_char c :: nat) \<and> (of_char c :: nat) \<le> 126"

definition is_mcv_valid :: "char \<Rightarrow> char \<Rightarrow> char \<Rightarrow> bool" where
  "is_mcv_valid m c v \<longleftrightarrow> isgraph m \<and> isgraph c \<and> isgraph v"

definition parse_signature :: "string \<Rightarrow> ev_spec \<Rightarrow> ev_spec res" where
  "parse_signature sig spec =
     (if length sig < 3 then Inl (EEvspec EsTooShort)
      else if \<not> is_mcv_valid (sig ! 0) (sig ! 1) (sig ! 2) then Inl (EEvspec EsBadMcv)
      else
        let spec1 = spec\<lparr>es_mcv := take 3 sig\<rparr>;
            plus = (drop 3 sig \<noteq> [] \<and> sig ! 3 = CHR ''+'');
            spec2 = (if plus then spec1\<lparr>es_is_jumbo := True\<rparr> else spec1);
            next' = drop (if plus then 4 else 3) sig in
        if next' = [] then (if es_is_jumbo spec2 then Inl (EEvspec EsJumboNoArgs) else Inr spec2)
        else if hd next' \<noteq> CHR ''('' then Inl (EEvspec EsParen)
        else rbind (parse_args next' spec2) (\<lambda>spec3.
          if es_args spec3 = [] then Inl (EEvspec EsEmptyArgs) else Inr spec3))"

definition ev_spec_zero :: ev_spec where
  "ev_spec_zero = \<lparr>es_mcv = [], es_is_jumbo = False, es_args = [], es_payload_size = 0, es_description = []\<rparr>"

definition ev_spec_compile :: "ev_decl \<Rightarrow> ev_spec res" where
  "ev_spec_compile decl =
     (if length (ed_signature decl) \<ge> 256 then Inl (EEvspec EsSigTooLong)
      else rbind (parse_signature (ed_signature decl) ev_spec_zero) (\<lambda>spec.
        Inr (spec\<lparr>es_description := ed_description decl\<rparr>)))"

definition ev_spec_find_arg :: "string \<Rightarrow> ev_spec \<Rightarrow> ev_arg option" where
  "ev_spec_find_arg name spec = find (\<lambda>a. ea_name a = name) (es_args spec)"

subsection \<open>The events of a model\<close>

type_synonym model_evspec = "ev_spec list" \<comment> \<open>the hash table, in the order of insertion\<close>

definition model_evspec_find :: "string \<Rightarrow> model_evspec \<Rightarrow> ev_spec option" where
  "model_evspec_find mcv evspec = find (\<lambda>s. es_mcv s = mcv) evspec"

definition evspec_add :: "char \<Rightarrow> ev_decl \<Rightarrow> model_evspec \<Rightarrow> model_evspec res" where
  "evspec_add model evdecl evspec =
     rbind (ev_spec_compile evdecl) (\<lambda>s.
       if model_evspec_find (es_mcv s) evspec \<noteq> None then Inl (EEvspec EsDuplicated)
       else if hd (es_mcv s) \<noteq> model then Inl (EEvspec EsBadModel)
       else Inr (evspec @ [s]))"

fun evspec_add_all :: "char \<Rightarrow> ev_decl list \<Rightarrow> model_evspec \<Rightarrow> model_evspec res" where
  "evspec_add_all model [] evspec = Inr evspec"
| "evspec_add_all model (d # ds) evspec = rbind (evspec_add model d evspec) (evspec_add_all model ds)"

definition model_evspec_init :: "char \<Rightarrow> ev_decl list \<Rightarrow> model_evspec res" where
  "model_evspec_init model evlist =
     (if evlist = [] then Inl (EEvspec EsNoEvents) else evspec_add_all model evlist [])"

subsection \<open>Printing\<close>

record cursor =
  cu_in :: string
  cu_out :: string
  cu_len :: nat

definition advance_out :: "string \<Rightarrow> cursor \<Rightarrow> cursor" where
  "advance_out s c = c\<lparr>cu_out := cu_out c @ s, cu_len := cu_len c - length s\<rparr>"

definition advance_in :: "nat \<Rightarrow> cursor \<Rightarrow> cursor" where
  "advance_in n c = c\<lparr>cu_in := drop n (cu_in c)\<rparr>"

definition isalnum :: "char \<Rightarrow> bool" where
  "isalnum c \<longleftrightarrow> (let n = (of_char c :: nat) in 48 \<le> n \<and> n \<le> 57 \<or> 65 \<le> n \<and> n \<le> 90 \<or> 97 \<le> n \<and> n \<le> 122)"

text \<open>The loops of \<^verbatim>\<open>parse_printf_format\<close> and \<^verbatim>\<open>parse_arg_name\<close>: what was read and what is left, which starts with the bracket.\<close>

fun scan_fmt :: "nat \<Rightarrow> string \<Rightarrow> string \<Rightarrow> (string \<times> string) res" where
  "scan_fmt n fmt [] = Inl (EEvspec EsFormat)"
| "scan_fmt n fmt (x # xs) =
     (if x = CHR ''{'' then Inr (fmt, x # xs)
      else if length fmt \<ge> n then Inl (EEvspec EsNoSpace)
      else scan_fmt n (fmt @ [x]) xs)"

definition parse_printf_format :: "nat \<Rightarrow> cursor \<Rightarrow> (string \<times> cursor) res" where
  "parse_printf_format buflen c =
     (let n = buflen - 1 in
      if cu_in c \<noteq> [] \<and> hd (cu_in c) = CHR ''{'' then Inl (EEvspec EsFormat)
      else if n < 1 then Inl (EEvspec EsNoSpace)
      else rbind (scan_fmt n ''%'' (cu_in c)) (\<lambda>(fmt, rest). Inr (fmt, c\<lparr>cu_in := rest\<rparr>)))"

fun scan_name :: "nat \<Rightarrow> string \<Rightarrow> string \<Rightarrow> (string \<times> string) res" where
  "scan_name n arg [] = Inl (EEvspec EsArgName)"
| "scan_name n arg (x # xs) =
     (if x = CHR ''}'' then Inr (arg, x # xs)
      else if \<not> isalnum x then Inl (EEvspec EsArgName)
      else if length arg \<ge> n then Inl (EEvspec EsNoSpace)
      else scan_name n (arg @ [x]) xs)"

definition parse_arg_name :: "nat \<Rightarrow> cursor \<Rightarrow> (string \<times> cursor) res" where
  "parse_arg_name buflen c =
     (let n = buflen - 1 in
      if cu_in c \<noteq> [] \<and> hd (cu_in c) = CHR ''}'' then Inl (EEvspec EsArgName)
      else if n < 1 then Inl (EEvspec EsNoSpace)
      else rbind (scan_name n [] (cu_in c)) (\<lambda>(arg, rest). Inr (arg, c\<lparr>cu_in := rest\<rparr>)))"

text \<open>\<^verbatim>\<open>snprintf\<close> with one argument, an integer or a string.\<close>

datatype print_data = PInt int | PStr string

function hex :: "nat \<Rightarrow> string" where
  "hex n = (if n < 16 then [''0123456789abcdef'' ! n] else hex (n div 16) @ [''0123456789abcdef'' ! (n mod 16)])"
  by pat_completeness auto
termination by (relation "measure id") auto

declare hex.simps [simp del]

definition dec_int :: "int \<Rightarrow> string" where
  "dec_int x = (if x < 0 then CHR ''-'' # dec (nat (- x)) else dec (nat x))"

definition length_bits :: "string \<Rightarrow> nat option" where
  "length_bits m = map_of [('''', 32), (''hh'', 8), (''h'', 16), (''l'', 64), (''ll'', 64), (''j'', 64), (''z'', 64)] m"

text \<open>The argument seen as a signed or unsigned number of \<open>b\<close> bits.\<close>

definition as_signed :: "nat \<Rightarrow> int \<Rightarrow> int" where
  "as_signed b x = (x + 2 ^ (b - 1)) mod 2 ^ b - 2 ^ (b - 1)"

definition as_unsigned :: "nat \<Rightarrow> int \<Rightarrow> nat" where
  "as_unsigned b x = nat (x mod 2 ^ b)"

definition print_int :: "bool \<Rightarrow> nat \<Rightarrow> char \<Rightarrow> int \<Rightarrow> string option" where
  "print_int alt b conv x =
     (if conv = CHR ''d'' \<or> conv = CHR ''i'' then Some (dec_int (as_signed b x))
      else if conv = CHR ''u'' then Some (dec (as_unsigned b x))
      else if conv = CHR ''x'' then
        Some ((if alt \<and> as_unsigned b x \<noteq> 0 then ''0x'' else []) @ hex (as_unsigned b x))
      else None)"

definition snprintf_arg :: "string \<Rightarrow> print_data \<Rightarrow> string option" where
  "snprintf_arg fmt d =
     (if fmt = [] \<or> hd fmt \<noteq> CHR ''%'' \<or> tl fmt = [] then None
      else let spec = tl fmt; alt = (hd spec = CHR ''#''); s = (if alt then tl spec else spec) in
        if s = [] then None
        else case d of
          PStr str \<Rightarrow> if spec = ''s'' then Some str else None
        | PInt x \<Rightarrow> (case length_bits (butlast s) of None \<Rightarrow> None | Some b \<Rightarrow> print_int alt b (last s) x))"

definition arg_data :: "ev_arg \<Rightarrow> byte list \<Rightarrow> print_data" where
  "arg_data arg payload =
     (let x = int (rd_u (ea_size arg) (ea_offset arg) payload) in
      case ea_type arg of
        U8 \<Rightarrow> PInt x | U16 \<Rightarrow> PInt x | U32 \<Rightarrow> PInt x | U64 \<Rightarrow> PInt x
      | I8 \<Rightarrow> PInt (as_signed 8 x) | I16 \<Rightarrow> PInt (as_signed 16 x) | I32 \<Rightarrow> PInt (as_signed 32 x) | I64 \<Rightarrow> PInt (as_signed 64 x)
      | T_STR \<Rightarrow> PStr (map (\<lambda>b. char_of (unat b)) (takeWhile (\<lambda>b. b \<noteq> 0) (drop (ea_offset arg) payload))))"

definition print_arg :: "ev_arg \<Rightarrow> string \<Rightarrow> emu_ev \<Rightarrow> cursor \<Rightarrow> cursor res" where
  "print_arg arg fmt ev c =
     (case ev_payload ev of None \<Rightarrow> Inl (EEvent EvOutOfBounds)
      | Some payload \<Rightarrow>
          (case snprintf_arg fmt (arg_data arg payload) of None \<Rightarrow> Inl (EEvspec EsFormat)
           | Some s \<Rightarrow> if length s \<ge> cu_len c then Inl (EEvspec EsNoSpace) else Inr (advance_out s c)))"

text \<open>The two halves of a region: the optional format and the name of the argument in brackets.\<close>

definition region_fmt :: "cursor \<Rightarrow> (string option \<times> cursor) res" where
  "region_fmt c =
     (if hd (cu_in c) = CHR ''{'' then Inr (None, c)
      else rbind (parse_printf_format 64 c) (\<lambda>(fmt, c1). Inr (Some fmt, c1)))"

definition region_arg :: "ev_spec \<Rightarrow> emu_ev \<Rightarrow> string option \<Rightarrow> cursor \<Rightarrow> cursor res" where
  "region_arg spec ev fmt c =
     (if cu_in c = [] \<or> hd (cu_in c) \<noteq> CHR ''{'' then Inl (EEvspec EsFormat)
      else rbind (parse_arg_name 64 (advance_in 1 c)) (\<lambda>(argname, c1).
        if cu_in c1 = [] \<or> hd (cu_in c1) \<noteq> CHR ''}'' then Inl (EEvspec EsArgName)
        else case ev_spec_find_arg argname spec of None \<Rightarrow> Inl (EEvspec EsArgNotFound)
          | Some arg \<Rightarrow> print_arg arg (case fmt of None \<Rightarrow> type_fmt (ea_type arg) | Some f \<Rightarrow> f) ev (advance_in 1 c1)))"

definition format_region :: "ev_spec \<Rightarrow> emu_ev \<Rightarrow> cursor \<Rightarrow> cursor res" where
  "format_region spec ev c =
     (if cu_len c = 0 then Inl (EEvspec EsNoSpace)
      else if cu_in c = [] \<or> hd (cu_in c) \<noteq> CHR ''%'' then Inl (EEvspec EsFormat)
      else let c1 = advance_in 1 c in
        if cu_in c1 = [] then Inl (EEvspec EsFormat)
        else if hd (cu_in c1) = CHR ''%'' then Inr (advance_in 1 (advance_out ''%'' c1))
        else rbind (region_fmt c1) (\<lambda>(fmt, c2). region_arg spec ev fmt c2))"

text \<open>The loop of \<^verbatim>\<open>ev_spec_print\<close>; every iteration consumes input.\<close>

fun print_loop :: "nat \<Rightarrow> ev_spec \<Rightarrow> emu_ev \<Rightarrow> cursor \<Rightarrow> cursor res" where
  "print_loop n spec ev c =
     (if cu_in c = [] then Inr c
      else case n of 0 \<Rightarrow> Inl EFuel
      | Suc n' \<Rightarrow>
          if cu_len c = 0 then Inl (EEvspec EsNoSpace)
          else if hd (cu_in c) = CHR ''%'' then rbind (format_region spec ev c) (print_loop n' spec ev)
          else print_loop n' spec ev (advance_in 1 (advance_out [hd (cu_in c)] c)))"

declare print_loop.simps [simp del]

definition ev_spec_print :: "ev_spec \<Rightarrow> emu_ev \<Rightarrow> int \<Rightarrow> string res" where
  "ev_spec_print spec ev outlen =
     (if outlen \<le> 0 then Inl (EEvspec EsNoSpace)
      else rbind (print_loop (length (es_description spec)) spec ev
          \<lparr>cu_in = es_description spec, cu_out = [], cu_len = nat (outlen - 1)\<rparr>) (\<lambda>c. Inr (cu_out c)))"

subsection \<open>Signatures are read back\<close>

text \<open>A signature written from its parts.\<close>

fun sig_args :: "(ev_arg_type \<times> string) list \<Rightarrow> string" where
  "sig_args [] = []"
| "sig_args [(t, name)] = type_name t @ '' '' @ name"
| "sig_args ((t, name) # args) = type_name t @ '' '' @ name @ '', '' @ sig_args args"

definition write_sig :: "string \<Rightarrow> bool \<Rightarrow> (ev_arg_type \<times> string) list \<Rightarrow> string" where
  "write_sig mcv jumbo args =
     mcv @ (if jumbo then ''+'' else []) @ (if args = [] then [] else ''('' @ sig_args args @ '')'')"

text \<open>The arguments one after another in the payload.\<close>

fun place_args :: "nat \<Rightarrow> (ev_arg_type \<times> string) list \<Rightarrow> ev_arg list" where
  "place_args off [] = []"
| "place_args off ((t, name) # args) =
     \<lparr>ea_size = type_size t, ea_offset = off, ea_type = t, ea_name = name\<rparr> # place_args (off + type_size t) args"

definition args_size :: "(ev_arg_type \<times> string) list \<Rightarrow> nat" where
  "args_size args = sum_list (map (type_size \<circ> fst) args)"

definition name_ok :: "string \<Rightarrow> bool" where
  "name_ok name \<longleftrightarrow> name \<noteq> [] \<and> length name < 64 \<and> list_all (\<lambda>c. c \<notin> set '' ,)'') name"

lemma type_name_chars: "type_name t \<noteq> []" "list_all (\<lambda>c. c \<notin> set '' ,)'') (type_name t)"
  by (cases t; simp)+

lemma parse_type_name: "parse_type (type_name t) = Inr t"
  by (cases t) (simp_all add: parse_type_def arg_types_def)

lemma place_args_length [simp]: "length (place_args off args) = length args"
  by (induction off args rule: place_args.induct) simp_all

text \<open>One argument, perhaps after a space.\<close>

lemma parse_arg_ok:
  assumes "sp = [] \<or> sp = '' ''" and "name_ok name" and "length (es_args spec) < MAX_ARGS"
  shows "parse_arg (sp @ type_name t @ '' '' @ name) spec =
    Inr (spec\<lparr>es_args := es_args spec @ place_args (es_payload_size spec) [(t, name)],
              es_payload_size := es_payload_size spec + type_size t\<rparr>)"
proof -
  have sp: "strtok '' '' (sp @ x) = strtok '' '' x" for x using assms(1) by (auto simp: strtok_def)
  have "list_all (\<lambda>c. c \<notin> set '' '') (type_name t)" "list_all (\<lambda>c. c \<notin> set '' '') name" "name \<noteq> []"
    using type_name_chars(2) [of t] assms(2) by (simp_all add: name_ok_def list_all_iff)
  then have "strtok '' '' (type_name t @ '' '' @ name) = Some (type_name t, name)" "strtok '' '' (name @ []) = Some (name, [])"
    using strtok_token [of "'' ''" "type_name t" "'' '' @ name"] strtok_token [of "'' ''" name "[]"] type_name_chars(1) by simp_all
  then show ?thesis using assms(2,3) by (simp add: parse_arg_def sp parse_type_name name_ok_def not_le)
qed

lemma strtok_arg:
  assumes "name_ok name" and "rest = [] \<or> hd rest \<in> set '',)''" and "sp = [] \<or> sp = '' ''"
  shows "strtok '',)'' (sp @ type_name t @ '' '' @ name @ rest) = Some (sp @ type_name t @ '' '' @ name, tl rest)"
proof -
  have w: "list_all (\<lambda>c. c \<notin> set '',)'') x" if "list_all (\<lambda>c. c \<notin> set '' ,)'') x" for x
    using that by (rule list.pred_mono_strong) simp
  have "list_all (\<lambda>c. c \<notin> set '',)'') (type_name t)" "list_all (\<lambda>c. c \<notin> set '',)'') name"
    using type_name_chars(2) [of t] assms(1) by (simp_all only: w name_ok_def)
  moreover have "list_all (\<lambda>c. c \<notin> set '',)'') sp" using assms(3) by (elim disjE) simp_all
  ultimately have "list_all (\<lambda>c. c \<notin> set '',)'') (sp @ type_name t @ '' '' @ name)"
    by (simp only: list_all_append list.pred_inject) simp
  from strtok_token [OF this _ assms(2)] type_name_chars(1) [of t] show ?thesis by simp
qed

lemma parse_arg_list_ok:
  "\<forall>(t, name) \<in> set args. name_ok name \<Longrightarrow> length (es_args spec) + length args \<le> MAX_ARGS \<Longrightarrow> sp = [] \<or> sp = '' '' \<Longrightarrow> args \<noteq> [] \<Longrightarrow>
     parse_arg_list (sp @ sig_args args @ '')'') spec =
       Inr (spec\<lparr>es_args := es_args spec @ place_args (es_payload_size spec) args,
                 es_payload_size := es_payload_size spec + args_size args\<rparr>)"
proof (induction args arbitrary: spec sp rule: sig_args.induct)
  case (2 t name)
  then have ok: "name_ok name" "length (es_args spec) < MAX_ARGS" by auto
  have e: "parse_arg_list '''' s = Inr s" for s by (simp add: parse_arg_list.simps strtok_def)
  show ?case using strtok_arg [OF ok(1), of "'')''" sp t] parse_arg_ok [OF 2(3) ok, of t] 2(3) e
    by (subst parse_arg_list.simps) (simp add: args_size_def)
next
  case (3 t name a args)
  then have ok: "name_ok name" "length (es_args spec) < MAX_ARGS" by auto
  let ?spec = "spec\<lparr>es_args := es_args spec @ place_args (es_payload_size spec) [(t, name)],
              es_payload_size := es_payload_size spec + type_size t\<rparr>"
  have "parse_arg_list ('' '' @ sig_args (a # args) @ '')'') ?spec =
      Inr (?spec\<lparr>es_args := es_args ?spec @ place_args (es_payload_size ?spec) (a # args),
                 es_payload_size := es_payload_size ?spec + args_size (a # args)\<rparr>)"
    using 3 by (intro "3.IH") auto
  then show ?case
    using strtok_arg [OF ok(1), of "'', '' @ sig_args (a # args) @ '')''" sp t] parse_arg_ok [OF 3(4) ok, of t] 3(4)
    by (subst parse_arg_list.simps) (simp add: args_size_def add.assoc)
qed simp

text \<open>C31. A signature written from an event, its arguments and the mark of jumbo events compiles back to them, with the
  arguments one after another in the payload, after the size when the event is jumbo.\<close>

theorem ev_spec_compile_roundtrip:
  assumes mcv: "length mcv = 3" "list_all isgraph mcv" and args: "length args \<le> MAX_ARGS" "\<forall>(t, name) \<in> set args. name_ok name"
    and jumbo: "jumbo \<longrightarrow> args \<noteq> []" and len: "length (write_sig mcv jumbo args) < 256"
  shows "ev_spec_compile \<lparr>ed_signature = write_sig mcv jumbo args, ed_description = desc\<rparr> =
    Inr \<lparr>es_mcv = mcv, es_is_jumbo = jumbo, es_args = place_args (if jumbo then 4 else 0) args,
         es_payload_size = (if jumbo then 4 else 0) + args_size args, es_description = desc\<rparr>"
proof -
  obtain a b c where abc: "mcv = [a, b, c]" using mcv(1) by (auto simp: length_Suc_conv numeral_3_eq_3)
  have p: "parse_arg_list (sig_args args @ '')'') spec =
       Inr (spec\<lparr>es_args := es_args spec @ place_args (es_payload_size spec) args,
                 es_payload_size := es_payload_size spec + args_size args\<rparr>)"
    if "args \<noteq> []" "es_args spec = []" for spec
    using parse_arg_list_ok [OF args(2), of spec "[]"] args(1) that by simp
  have ne: "place_args off args \<noteq> []" if "args \<noteq> []" for off using that by (cases args) auto
  have "parse_signature (write_sig mcv jumbo args) ev_spec_zero =
      Inr \<lparr>es_mcv = mcv, es_is_jumbo = jumbo, es_args = place_args (if jumbo then 4 else 0) args,
           es_payload_size = (if jumbo then 4 else 0) + args_size args, es_description = []\<rparr>"
  proof (cases "args = []")
    case True
    then show ?thesis using jumbo mcv(2)
      by (simp add: parse_signature_def write_sig_def abc is_mcv_valid_def ev_spec_zero_def args_size_def Let_def)
  next
    case False
    then show ?thesis using mcv(2) p ne
      by (simp add: parse_signature_def write_sig_def abc is_mcv_valid_def ev_spec_zero_def Let_def parse_args_def)
  qed
  then show ?thesis using len by (simp add: ev_spec_compile_def)
qed

theorem ev_spec_compile_roundtrip_witness:
  "ev_spec_compile \<lparr>ed_signature = ''VYc+(u32 typeid, str label)'', ed_description = []\<rparr> =
     Inr \<lparr>es_mcv = ''VYc'', es_is_jumbo = True,
          es_args = [\<lparr>ea_size = 4, ea_offset = 4, ea_type = U32, ea_name = ''typeid''\<rparr>,
                     \<lparr>ea_size = 0, ea_offset = 8, ea_type = T_STR, ea_name = ''label''\<rparr>],
          es_payload_size = 8, es_description = []\<rparr>"
  using ev_spec_compile_roundtrip [of "''VYc''" "[(U32, ''typeid''), (T_STR, ''label'')]" True "[]"]
  by (simp add: isgraph_def MAX_ARGS_def name_ok_def write_sig_def args_size_def)

subsection \<open>Printing stays in the buffer and ends\<close>

text \<open>What a step of the printer does: it consumes input, and what it writes takes room.\<close>

definition cursor_step :: "cursor \<Rightarrow> cursor \<Rightarrow> bool" where
  "cursor_step c c' \<longleftrightarrow> length (cu_in c') < length (cu_in c) \<and> length (cu_out c') + cu_len c' = length (cu_out c) + cu_len c"

lemma scan_fmt_rest: "scan_fmt n fmt xs = Inr (fmt', rest) \<Longrightarrow> length rest \<le> length xs"
  by (induction n fmt xs rule: scan_fmt.induct) (auto split: if_splits)

lemma scan_name_rest: "scan_name n arg xs = Inr (arg', rest) \<Longrightarrow> length rest \<le> length xs"
  by (induction n arg xs rule: scan_name.induct) (auto split: if_splits)

lemma parse_printf_format_step:
  "parse_printf_format n c = Inr (fmt, c') \<Longrightarrow> length (cu_in c') \<le> length (cu_in c) \<and> cu_out c' = cu_out c \<and> cu_len c' = cu_len c"
  by (auto simp: parse_printf_format_def Let_def scan_fmt_rest split: if_splits)

lemma parse_arg_name_step:
  "parse_arg_name n c = Inr (arg, c') \<Longrightarrow> length (cu_in c') \<le> length (cu_in c) \<and> cu_out c' = cu_out c \<and> cu_len c' = cu_len c"
  by (auto simp: parse_arg_name_def Let_def scan_name_rest split: if_splits)

lemma print_arg_step:
  "print_arg arg fmt ev c = Inr c' \<Longrightarrow> cu_in c' = cu_in c \<and> length (cu_out c') + cu_len c' = length (cu_out c) + cu_len c"
  by (auto simp: print_arg_def advance_out_def split: option.splits if_splits)

lemma no_fuel:
  "scan_fmt n fmt xs \<noteq> Inl EFuel" "scan_name n fmt xs \<noteq> Inl EFuel" "print_arg arg f ev c \<noteq> Inl EFuel"
proof -
  show "scan_fmt n fmt xs \<noteq> Inl EFuel" by (induction n fmt xs rule: scan_fmt.induct) auto
  show "scan_name n fmt xs \<noteq> Inl EFuel" by (induction n fmt xs rule: scan_name.induct) auto
  show "print_arg arg f ev c \<noteq> Inl EFuel" by (auto simp: print_arg_def split: option.splits)
qed

lemma advance_simps [simp]:
  "cu_in (advance_in n c) = drop n (cu_in c)" "cu_out (advance_in n c) = cu_out c" "cu_len (advance_in n c) = cu_len c"
  "cu_in (advance_out s c) = cu_in c" "cu_out (advance_out s c) = cu_out c @ s" "cu_len (advance_out s c) = cu_len c - length s"
  by (simp_all add: advance_in_def advance_out_def)

lemma region_fmt_step:
  "region_fmt c = Inr (f, c') \<Longrightarrow> length (cu_in c') \<le> length (cu_in c) \<and> cu_out c' = cu_out c \<and> cu_len c' = cu_len c"
  "region_fmt c \<noteq> Inl EFuel"
  using scan_fmt_rest no_fuel(1)
  by (auto simp: region_fmt_def parse_printf_format_def Let_def rbind_def split: if_splits sum.splits)

lemma region_arg_step:
  "region_arg spec ev f c = Inr c' \<Longrightarrow>
     length (cu_in c') \<le> length (cu_in c) \<and> length (cu_out c') + cu_len c' = length (cu_out c) + cu_len c"
  "region_arg spec ev f c \<noteq> Inl EFuel"
proof -
  assume a: "region_arg spec ev f c = Inr c'"
  then obtain argname c1 arg fmt where c1: "parse_arg_name 64 (advance_in 1 c) = Inr (argname, c1)"
    "print_arg arg fmt ev (advance_in 1 c1) = Inr c'" by (auto simp: region_arg_def split: if_splits option.splits)
  show "length (cu_in c') \<le> length (cu_in c) \<and> length (cu_out c') + cu_len c' = length (cu_out c) + cu_len c"
    using parse_arg_name_step [OF c1(1)] print_arg_step [OF c1(2)] by simp linarith
next
  have "parse_arg_name n x \<noteq> Inl EFuel" for n x
    using no_fuel(2) by (auto simp: parse_arg_name_def Let_def rbind_def split: sum.splits)
  then show "region_arg spec ev f c \<noteq> Inl EFuel"
    using no_fuel(3) by (auto simp: region_arg_def rbind_def split: sum.splits option.splits)
qed

lemma format_region_step:
  assumes "format_region spec ev c = Inr c'"
  shows "cursor_step c c'"
proof (cases "hd (cu_in (advance_in 1 c)) = CHR ''%''")
  case True
  then have "c' = advance_in 1 (advance_out ''%'' (advance_in 1 c))" "0 < cu_len c" "cu_in c \<noteq> []"
    using assms by (auto simp: format_region_def Let_def split: if_splits)
  then show ?thesis by (auto simp: cursor_step_def)
next
  case False
  then obtain f c2 where "region_fmt (advance_in 1 c) = Inr (f, c2)" "region_arg spec ev f c2 = Inr c'" "cu_in c \<noteq> []"
    using assms by (auto simp: format_region_def Let_def split: if_splits)
  from region_fmt_step(1) [OF this(1)] region_arg_step(1) [OF this(2)] this(3) show ?thesis
    by (cases "cu_in c") (auto simp: cursor_step_def)
qed

lemma format_region_no_fuel: "format_region spec ev c \<noteq> Inl EFuel"
  using region_fmt_step(2) region_arg_step(2) by (auto simp: format_region_def Let_def rbind_def split: sum.splits)

lemma print_loop_ok:
  "length (cu_in c) \<le> n \<Longrightarrow> print_loop n spec ev c \<noteq> Inl EFuel
     \<and> (\<forall>c'. print_loop n spec ev c = Inr c' \<longrightarrow> length (cu_out c') + cu_len c' = length (cu_out c) + cu_len c)"
proof (induction n arbitrary: c)
  case 0
  then show ?case by (simp add: print_loop.simps)
next
  case (Suc n)
  show ?case
  proof (cases "cu_in c = [] \<or> cu_len c = 0")
    case True
    then show ?thesis by (auto simp: print_loop.simps)
  next
    case False
    have step: "length (cu_in c1) \<le> n" if "cursor_step c c1" for c1 using that Suc.prems by (simp add: cursor_step_def)
    show ?thesis
    proof (cases "hd (cu_in c) = CHR ''%''")
      case True
      have "print_loop (Suc n) spec ev c = rbind (format_region spec ev c) (print_loop n spec ev)"
        using False True by (subst print_loop.simps) simp
      note loop = this
      show ?thesis
      proof (cases "format_region spec ev c")
        case (Inl e)
        then show ?thesis using loop format_region_no_fuel [of spec ev c] by simp
      next
        case (Inr c1)
        note s = format_region_step [OF Inr]
        show ?thesis using Suc.IH [OF step [OF s]] s loop Inr by (simp add: cursor_step_def)
      qed
    next
      case no: False
      let ?c = "advance_in 1 (advance_out [hd (cu_in c)] c)"
      have "print_loop (Suc n) spec ev c = print_loop n spec ev ?c" using False no by (subst print_loop.simps) simp
      moreover have "cursor_step c ?c" using False by (auto simp: cursor_step_def)
      ultimately show ?thesis using Suc.IH [OF step, of ?c] by (auto simp: cursor_step_def)
    qed
  qed
qed


end
