(* ===== verification/Ev_Lists.thy ===== *)
theory Ev_Lists
  imports Ev_Spec
begin

text \<open>
  The events that the models declare: the tables \<^verbatim>\<open>model_evlist\<close> of \<^verbatim>\<open>src/emu/*/setup.c\<close> and the macros for pairs of
  events of \<^verbatim>\<open>src/emu/ev_spec.h\<close>.
\<close>

definition PAIR_E :: "string \<Rightarrow> string \<Rightarrow> string \<Rightarrow> ev_decl list" where
  "PAIR_E mcv1 mcv2 desc = [\<lparr>ed_signature = mcv1, ed_description = ''enters '' @ desc\<rparr>,
     \<lparr>ed_signature = mcv2, ed_description = ''leaves '' @ desc\<rparr>]"

definition PAIR_B :: "string \<Rightarrow> string \<Rightarrow> string \<Rightarrow> ev_decl list" where
  "PAIR_B mcv1 mcv2 desc = [\<lparr>ed_signature = mcv1, ed_description = ''begins '' @ desc\<rparr>,
     \<lparr>ed_signature = mcv2, ed_description = ''ceases '' @ desc\<rparr>]"

definition PAIR_S :: "string \<Rightarrow> string \<Rightarrow> string \<Rightarrow> ev_decl list" where
  "PAIR_S mcv1 mcv2 desc = [\<lparr>ed_signature = mcv1, ed_description = ''starts '' @ desc\<rparr>,
     \<lparr>ed_signature = mcv2, ed_description = ''stops  '' @ desc\<rparr>]"

definition ovni_evlist :: "ev_decl list" where
  "ovni_evlist =
     concat [
       [\<lparr>ed_signature = ''OAr(i32 cpu, i32 tid)'', ed_description = ''changes the affinity of thread %{tid} to CPU %{cpu}''\<rparr>,
        \<lparr>ed_signature = ''OAs(i32 cpu)'', ed_description = (''switches it'' @ [CHR 0x27] @ ''s own affinity to the CPU %{cpu}'')\<rparr>,
        \<lparr>ed_signature = ''OB.'', ed_description = ''emits a burst event to measure latency''\<rparr>,
        \<lparr>ed_signature = ''OHC(i32 cpu, u64 tag)'', ed_description = ''creates a new thread on CPU %{cpu} with tag %#llx{tag}''\<rparr>,
        \<lparr>ed_signature = ''OHc'', ed_description = ''enters the Cooling state (about to be paused)''\<rparr>,
        \<lparr>ed_signature = ''OHe'', ed_description = ''ends the execution''\<rparr>,
        \<lparr>ed_signature = ''OHp'', ed_description = ''pauses the execution''\<rparr>,
        \<lparr>ed_signature = ''OHr'', ed_description = ''resumes the execution''\<rparr>,
        \<lparr>ed_signature = ''OHw'', ed_description = ''enters the Warming state (about to be running)''\<rparr>,
        \<lparr>ed_signature = ''OHx(i32 cpu, i32 tid, u64 tag)'', ed_description = ''begins the execution on CPU %{cpu} created from %{tid} with tag %#llx{tag}''\<rparr>,
        \<lparr>ed_signature = ''OCn(i32 cpu)'', ed_description = ''informs there are %{cpu} CPUs''\<rparr>],
       PAIR_B ''OF['' ''OF]'' ''flushing events to disk'',
       PAIR_E ''OU['' ''OU]'' ''unordered event region'',
       [\<lparr>ed_signature = ''OM[(i64 value, i32 type)'', ed_description = ''push mark with value %{value} from type %{type}''\<rparr>,
        \<lparr>ed_signature = ''OM](i64 value, i32 type)'', ed_description = ''pop mark with value %{value} from type %{type}''\<rparr>,
        \<lparr>ed_signature = ''OM=(i64 value, i32 type)'', ed_description = ''set mark with value %{value} from type %{type}''\<rparr>]]"

definition nosv_evlist :: "ev_decl list" where
  "nosv_evlist =
     concat [
       [\<lparr>ed_signature = ''VTc(u32 taskid, u32 typeid)'', ed_description = ''creates task %{taskid} with type %{typeid}''\<rparr>,
        \<lparr>ed_signature = ''VTC(u32 taskid, u32 typeid)'', ed_description = ''creates parallel task %{taskid} with type %{typeid}''\<rparr>,
        \<lparr>ed_signature = ''VTx(u32 taskid, u32 bodyid)'', ed_description = ''executes the task %{taskid} with bodyid %{bodyid}''\<rparr>,
        \<lparr>ed_signature = ''VTe(u32 taskid, u32 bodyid)'', ed_description = ''ends the task %{taskid} with bodyid %{bodyid}''\<rparr>,
        \<lparr>ed_signature = ''VTp(u32 taskid, u32 bodyid)'', ed_description = ''pauses the task %{taskid} with bodyid %{bodyid}''\<rparr>,
        \<lparr>ed_signature = ''VTr(u32 taskid, u32 bodyid)'', ed_description = ''resumes the task %{taskid} with bodyid %{bodyid}''\<rparr>,
        \<lparr>ed_signature = ''VYc+(u32 typeid, str label)'', ed_description = (''creates task type %{typeid} with label '' @ [CHR 0x22] @ ''%{label}'' @ [CHR 0x22])\<rparr>,
        \<lparr>ed_signature = ''VSr'', ed_description = ''receives a task from another thread''\<rparr>,
        \<lparr>ed_signature = ''VSs'', ed_description = ''sends a task to another thread''\<rparr>,
        \<lparr>ed_signature = ''VS@'', ed_description = ''self assigns itself a task''\<rparr>,
        \<lparr>ed_signature = ''VSh'', ed_description = ''enters the hungry state, waiting for work''\<rparr>,
        \<lparr>ed_signature = ''VSf'', ed_description = ''is no longer hungry''\<rparr>],
       PAIR_E ''VS['' ''VS]'' ''scheduler server blocking mode'',
       PAIR_E ''VSN'' ''VSn'' ''scheduler server non-blocking mode'',
       PAIR_S ''VU['' ''VU]'' ''submitting a task'',
       PAIR_S ''VMa'' ''VMA'' ''allocating memory'',
       PAIR_S ''VMf'' ''VMF'' ''freeing memory'',
       PAIR_E ''VAr'' ''VAR'' ''nosv_create()'',
       PAIR_E ''VAd'' ''VAD'' ''nosv_destroy()'',
       PAIR_E ''VAs'' ''VAS'' ''nosv_submit()'',
       PAIR_E ''VAp'' ''VAP'' ''nosv_pause()'',
       PAIR_E ''VAy'' ''VAY'' ''nosv_yield()'',
       PAIR_E ''VAw'' ''VAW'' ''nosv_waitfor()'',
       PAIR_E ''VAc'' ''VAC'' ''nosv_schedpoint()'',
       PAIR_E ''VAa'' ''VAA'' ''nosv_attach()'',
       PAIR_E ''VAe'' ''VAE'' ''nosv_detach()'',
       PAIR_E ''VAl'' ''VAL'' ''nosv_mutex_lock()'',
       PAIR_E ''VAt'' ''VAT'' ''nosv_mutex_trylock()'',
       PAIR_E ''VAu'' ''VAU'' ''nosv_mutex_unlock()'',
       PAIR_E ''VAb'' ''VAB'' ''nosv_barrier_wait()'',
       PAIR_E ''VAo'' ''VAO'' ''nosv_cond_wait()'',
       PAIR_E ''VAg'' ''VAG'' ''nosv_cond_signal()'',
       PAIR_E ''VAk'' ''VAK'' ''nosv_cond_broadcast()'',
       [\<lparr>ed_signature = ''VHa'', ed_description = ''enters nosv_attach()''\<rparr>,
        \<lparr>ed_signature = ''VHA'', ed_description = ''leaves nosv_dettach()''\<rparr>],
       PAIR_B ''VHw'' ''VHW'' ''execution as worker'',
       PAIR_B ''VHd'' ''VHD'' ''execution as delegate'',
       [\<lparr>ed_signature = ''VPp'', ed_description = ''sets progress state to Progressing''\<rparr>,
        \<lparr>ed_signature = ''VPr'', ed_description = ''sets progress state to Resting''\<rparr>,
        \<lparr>ed_signature = ''VPa'', ed_description = ''sets progress state to Absorbing''\<rparr>,
        \<lparr>ed_signature = ''VWC+(i64 value)'', ed_description = ''set hardware counters (first %{value})''\<rparr>]]"

definition nanos6_evlist :: "ev_decl list" where
  "nanos6_evlist =
     concat [
       [\<lparr>ed_signature = ''6Yc+(u32 typeid, str label)'', ed_description = (''creates task type %{typeid} with label '' @ [CHR 0x22] @ ''%{label}'' @ [CHR 0x22])\<rparr>,
        \<lparr>ed_signature = ''6Tc(u32 taskid, u32 typeid)'', ed_description = ''creates task %{taskid} with type %{typeid}''\<rparr>,
        \<lparr>ed_signature = ''6Tx(u32 taskid)'', ed_description = ''executes the task %{taskid}''\<rparr>,
        \<lparr>ed_signature = ''6Te(u32 taskid)'', ed_description = ''ends the task %{taskid}''\<rparr>,
        \<lparr>ed_signature = ''6Tp(u32 taskid)'', ed_description = ''pauses the task %{taskid}''\<rparr>,
        \<lparr>ed_signature = ''6Tr(u32 taskid)'', ed_description = ''resumes the task %{taskid}''\<rparr>],
       PAIR_E ''6W['' ''6W]'' ''worker main loop, looking for tasks'',
       PAIR_B ''6Wt'' ''6WT'' ''handling a task via handleTask()'',
       PAIR_B ''6Ww'' ''6WW'' ''switching to another worker via switchTo()'',
       PAIR_B ''6Wm'' ''6WM'' ''migrating the current worker to another CPU'',
       PAIR_B ''6Ws'' ''6WS'' ''suspending the worker via suspend()'',
       PAIR_B ''6Wr'' ''6WR'' ''resuming another worker via resume()'',
       PAIR_E ''6Wg'' ''6WG'' ''sponge mode (absorbing system noise)'',
       [\<lparr>ed_signature = ''6W*'', ed_description = ''signals another worker to wake up''\<rparr>,
        \<lparr>ed_signature = ''6Pp'', ed_description = ''sets progress state to Progressing''\<rparr>,
        \<lparr>ed_signature = ''6Pr'', ed_description = ''sets progress state to Resting''\<rparr>,
        \<lparr>ed_signature = ''6Pa'', ed_description = ''sets progress state to Absorbing''\<rparr>],
       PAIR_B ''6C['' ''6C]'' ''creating a new task'',
       PAIR_B ''6U['' ''6U]'' ''submitting a task via submitTask()'',
       PAIR_B ''6F['' ''6F]'' ''spawning a function via spawnFunction()'',
       PAIR_E ''6t['' ''6t]'' ''the task body'',
       PAIR_B ''6O['' ''6O]'' ''running the task body as taskfor collaborator'',
       PAIR_S ''6Ma'' ''6MA'' ''allocating memory'',
       PAIR_S ''6Mf'' ''6MF'' ''freeing memory'',
       PAIR_B ''6Dr'' ''6DR'' ''registration of task dependencies'',
       PAIR_B ''6Du'' ''6DU'' ''unregistration of task dependencies'',
       PAIR_B ''6S['' ''6S]'' ''scheduler serving mode'',
       PAIR_B ''6Sa'' ''6SA'' ''submitting a ready task via addReadyTask()'',
       PAIR_B ''6Sp'' ''6SP'' ''processing ready tasks via processReadyTasks()'',
       [\<lparr>ed_signature = ''6S@'', ed_description = ''self assigns itself a task''\<rparr>,
        \<lparr>ed_signature = ''6Sr'', ed_description = ''receives a task from another thread''\<rparr>,
        \<lparr>ed_signature = ''6Ss'', ed_description = ''sends a task to another thread''\<rparr>],
       PAIR_B ''6Bb'' ''6BB'' ''blocking the current task'',
       PAIR_B ''6Bu'' ''6BU'' ''unblocking a task'',
       PAIR_E ''6Bw'' ''6BW'' ''a task wait'',
       PAIR_E ''6Bf'' ''6BF'' ''a wait for'',
       PAIR_B ''6He'' ''6HE'' ''execution as external thread'',
       PAIR_B ''6Hw'' ''6HW'' ''execution as worker'',
       PAIR_B ''6Hl'' ''6HL'' ''execution as leader'',
       PAIR_B ''6Hm'' ''6HM'' ''execution as main thread'']"

definition openmp_evlist :: "ev_decl list" where
  "openmp_evlist =
     concat [
       PAIR_B ''PBb'' ''PBB'' ''plain barrier'',
       PAIR_B ''PBj'' ''PBJ'' ''join barrier'',
       PAIR_B ''PBf'' ''PBF'' ''fork barrier'',
       PAIR_B ''PBt'' ''PBT'' ''tasking barrier'',
       PAIR_B ''PBs'' ''PBS'' ''spin wait'',
       PAIR_B ''PIa'' ''PIA'' ''critical acquiring'',
       PAIR_B ''PIr'' ''PIR'' ''critical releasing'',
       PAIR_B ''PI['' ''PI]'' ''critical section'',
       PAIR_B ''PWd'' ''PWD'' ''distribute'',
       PAIR_B ''PWy'' ''PWY'' ''dynamic for init'',
       PAIR_B ''PWc'' ''PWC'' ''dynamic for chunk'',
       PAIR_B ''PWs'' ''PWS'' ''static for'',
       PAIR_B ''PWe'' ''PWE'' ''section'',
       PAIR_B ''PWi'' ''PWI'' ''single'',
       PAIR_B ''PTa'' ''PTA'' ''task allocation'',
       PAIR_B ''PTc'' ''PTC'' ''checking task dependencies'',
       PAIR_B ''PTd'' ''PTD'' ''duplicating a task'',
       PAIR_B ''PTr'' ''PTR'' ''releasing task dependencies'',
       PAIR_B ''PT['' ''PT]'' ''running a task'',
       PAIR_B ''PTi'' ''PTI'' ''running an if0 task'',
       PAIR_B ''PTs'' ''PTS'' ''scheduling a task'',
       PAIR_B ''PTg'' ''PTG'' ''a taskgroup'',
       PAIR_B ''PTt'' ''PTT'' ''a taskwait'',
       PAIR_B ''PTw'' ''PTW'' ''waiting for taskwait dependencies'',
       PAIR_B ''PTy'' ''PTY'' ''a taskyield'',
       PAIR_E ''PA['' ''PA]'' ''the attached state'',
       PAIR_B ''PMi'' ''PMI'' ''microtask internal'',
       PAIR_B ''PMu'' ''PMU'' ''microtask user code'',
       PAIR_B ''PH['' ''PH]'' ''worker loop'',
       PAIR_B ''PCf'' ''PCF'' ''fork call'',
       PAIR_B ''PCi'' ''PCI'' ''initialization'',
       [\<lparr>ed_signature = ''POc+(u32 typeid, str label)'', ed_description = (''creates a type %{typeid} with label '' @ [CHR 0x22] @ ''%{label}'' @ [CHR 0x22])\<rparr>,
        \<lparr>ed_signature = ''PPc(u32 taskid, u32 typeid)'', ed_description = ''creates the task %{taskid} with type %{typeid}''\<rparr>,
        \<lparr>ed_signature = ''PPx(u32 taskid)'', ed_description = ''executes the task %{taskid}''\<rparr>,
        \<lparr>ed_signature = ''PPe(u32 taskid)'', ed_description = ''ends the task %{taskid}''\<rparr>,
        \<lparr>ed_signature = ''PQx(u32 typeid)'', ed_description = ''begins worksharing with type %{typeid}''\<rparr>,
        \<lparr>ed_signature = ''PQe(u32 typeid)'', ed_description = ''ends worksharing with type %{typeid}''\<rparr>]]"

definition mpi_evlist :: "ev_decl list" where
  "mpi_evlist =
     concat [
       PAIR_E ''MUf'' ''MUF'' ''MPI_Finalize()'',
       PAIR_E ''MUi'' ''MUI'' ''MPI_Init()'',
       PAIR_E ''MUt'' ''MUT'' ''MPI_Init_thread()'',
       PAIR_E ''MW['' ''MW]'' ''MPI_Wait()'',
       PAIR_E ''MWa'' ''MWA'' ''MPI_Waitall()'',
       PAIR_E ''MWs'' ''MWS'' ''MPI_Waitsome()'',
       PAIR_E ''MWy'' ''MWY'' ''MPI_Waitany()'',
       PAIR_E ''MT['' ''MT]'' ''MPI_Test()'',
       PAIR_E ''MTa'' ''MTA'' ''MPI_Testall()'',
       PAIR_E ''MTy'' ''MTY'' ''MPI_Testany()'',
       PAIR_E ''MTs'' ''MTS'' ''MPI_Testsome()'',
       PAIR_E ''MS['' ''MS]'' ''MPI_Send()'',
       PAIR_E ''MSb'' ''MSB'' ''MPI_Bsend()'',
       PAIR_E ''MSr'' ''MSR'' ''MPI_Rsend()'',
       PAIR_E ''MSs'' ''MSS'' ''MPI_Ssend()'',
       PAIR_E ''MR['' ''MR]'' ''MPI_Recv()'',
       PAIR_E ''MRs'' ''MRS'' ''MPI_Sendrecv()'',
       PAIR_E ''MRo'' ''MRO'' ''MPI_Sendrecv_replace()'',
       PAIR_E ''MAg'' ''MAG'' ''MPI_Allgather()'',
       PAIR_E ''MAr'' ''MAR'' ''MPI_Allreduce()'',
       PAIR_E ''MAa'' ''MAA'' ''MPI_Alltoall()'',
       PAIR_E ''MCb'' ''MCB'' ''MPI_Barrier()'',
       PAIR_E ''MCe'' ''MCE'' ''MPI_Exscan()'',
       PAIR_E ''MCs'' ''MCS'' ''MPI_Scan()'',
       PAIR_E ''MDb'' ''MDB'' ''MPI_Bcast()'',
       PAIR_E ''MDg'' ''MDG'' ''MPI_Gather()'',
       PAIR_E ''MDs'' ''MDS'' ''MPI_Scatter()'',
       PAIR_E ''ME['' ''ME]'' ''MPI_Reduce()'',
       PAIR_E ''MEs'' ''MES'' ''MPI_Reduce_scatter()'',
       PAIR_E ''MEb'' ''MEB'' ''MPI_Reduce_scatter_block()'',
       PAIR_E ''Ms['' ''Ms]'' ''MPI_Isend()'',
       PAIR_E ''Msb'' ''MsB'' ''MPI_Ibsend()'',
       PAIR_E ''Msr'' ''MsR'' ''MPI_Irsend()'',
       PAIR_E ''Mss'' ''MsS'' ''MPI_Issend()'',
       PAIR_E ''Mr['' ''Mr]'' ''MPI_Irecv()'',
       PAIR_E ''Mrs'' ''MrS'' ''MPI_Isendrecv()'',
       PAIR_E ''Mro'' ''MrO'' ''MPI_Isendrecv_replace()'',
       PAIR_E ''Mag'' ''MaG'' ''MPI_Iallgather()'',
       PAIR_E ''Mar'' ''MaR'' ''MPI_Iallreduce()'',
       PAIR_E ''Maa'' ''MaA'' ''MPI_Ialltoall()'',
       PAIR_E ''Mcb'' ''McB'' ''MPI_Ibarrier()'',
       PAIR_E ''Mce'' ''McE'' ''MPI_Iexscan()'',
       PAIR_E ''Mcs'' ''McS'' ''MPI_Iscan()'',
       PAIR_E ''Mdb'' ''MdB'' ''MPI_Ibcast()'',
       PAIR_E ''Mdg'' ''MdG'' ''MPI_Igather()'',
       PAIR_E ''Mds'' ''MdS'' ''MPI_Iscatter()'',
       PAIR_E ''Me['' ''Me]'' ''MPI_Ireduce()'',
       PAIR_E ''Mes'' ''MeS'' ''MPI_Ireduce_scatter()'',
       PAIR_E ''Meb'' ''MeB'' ''MPI_Ireduce_scatter_block()'']"

definition tampi_evlist :: "ev_decl list" where
  "tampi_evlist =
     concat [
       PAIR_S ''TCi'' ''TCI'' ''issuing a non-blocking communication operation'',
       PAIR_S ''TGc'' ''TGC'' ''checking pending requests from the global array'',
       PAIR_E ''TLi'' ''TLI'' ''the library code at an API function'',
       PAIR_E ''TLp'' ''TLP'' ''the library code at a polling function'',
       PAIR_S ''TQa'' ''TQA'' ''adding a ticket/requests to a queue'',
       PAIR_S ''TQt'' ''TQT'' ''transferring tickets/requests from queues to global array'',
       PAIR_S ''TRc'' ''TRC'' ''processsing a completed request'',
       PAIR_S ''TRt'' ''TRT'' ''testing a single request with MPI_Test'',
       PAIR_S ''TRa'' ''TRA'' ''testing several requests with MPI_Testall'',
       PAIR_S ''TRs'' ''TRS'' ''testing several requests with MPI_Testsome'',
       PAIR_S ''TTc'' ''TTC'' ''creating a ticket linked to a set of requests and a task'',
       PAIR_S ''TTw'' ''TTW'' ''waiting for a ticket completion'']"

definition nodes_evlist :: "ev_decl list" where
  "nodes_evlist =
     concat [
       PAIR_B ''DR['' ''DR]'' ''registering task accesses'',
       PAIR_B ''DU['' ''DU]'' ''unregistering task accesses'',
       PAIR_E ''DW['' ''DW]'' ''a blocking condition (waiting for an If0 task)'',
       PAIR_B ''DI['' ''DI]'' ''the inline execution of an If0 task'',
       PAIR_E ''DT['' ''DT]'' ''a taskwait'',
       PAIR_B ''DC['' ''DC]'' ''creating a task'',
       PAIR_B ''DS['' ''DS]'' ''submitting a task'',
       PAIR_B ''DP['' ''DP]'' ''spawning a function'']"

definition kernel_evlist :: "ev_decl list" where
  "kernel_evlist =
     concat [
       [\<lparr>ed_signature = ''KCO'', ed_description = ''out of CPU''\<rparr>,
        \<lparr>ed_signature = ''KCI'', ed_description = ''back to CPU''\<rparr>]]"

definition xtasks_evlist :: "ev_decl list" where
  "xtasks_evlist =
     concat [
       [\<lparr>ed_signature = ''Xse(u64 value, u32 id, u32 type)'', ed_description = ''FPGA task id %{value}, event id %{id}, event type %{type}''\<rparr>]]"

end
