(* ===== verification/Json.thy ===== *)
theory Json
  imports Complex_Main Prelude "HOL-Library.Sublist"
begin

text \<open>
  The metadata of a stream: the part of \<^verbatim>\<open>src/parson.c\<close> that the runtime uses to build it and the
  emulator to read it.

  An object is the list of its names and values in the order they were added; \<^verbatim>\<open>NULL\<close> is \<open>None\<close>. A number is a
  finite double, kept as the real it denotes (\<^verbatim>\<open>json_value_init_number\<close> refuses the others). Allocation does not
  fail. The text of a file, that is serializing and parsing, is left out. A path with dots descends into the nested
  objects; \<open>dots\<close> is the list of its keys and \<open>path_get\<close>, \<open>path_set\<close> are the reference definitions over that list.
\<close>

subsection \<open>Values\<close>

datatype json =
    JSONNull
  | JSONString string
  | JSONNumber real
  | JSONObject "(string \<times> json) list"
  | JSONArray "json list"
  | JSONBoolean bool

type_synonym json_object = "(string \<times> json) list"

fun json_value_get_object :: "json option \<Rightarrow> json_object option" where
  "json_value_get_object (Some (JSONObject ob)) = Some ob"
| "json_value_get_object _ = None"

fun json_value_get_array :: "json option \<Rightarrow> json list option" where
  "json_value_get_array (Some (JSONArray xs)) = Some xs"
| "json_value_get_array _ = None"

fun json_value_get_string :: "json option \<Rightarrow> string option" where
  "json_value_get_string (Some (JSONString s)) = Some s"
| "json_value_get_string _ = None"

fun json_value_get_number :: "json option \<Rightarrow> real" where
  "json_value_get_number (Some (JSONNumber x)) = x"
| "json_value_get_number _ = 0"

fun json_value_get_boolean :: "json option \<Rightarrow> int" where
  "json_value_get_boolean (Some (JSONBoolean b)) = (if b then 1 else 0)"
| "json_value_get_boolean _ = -1"

text \<open>A string is kept only if it is valid UTF-8. The strings of C end at the first zero byte, which is
  no continuation byte, so a sequence cut by the end of the string is not valid.\<close>

definition IS_CONT :: "nat \<Rightarrow> bool" where
  "IS_CONT b \<longleftrightarrow> b div 64 = 2"

definition num_bytes_in_utf8_sequence :: "nat \<Rightarrow> nat" where
  "num_bytes_in_utf8_sequence c =
     (if c = 0xC0 \<or> c = 0xC1 \<or> c > 0xF4 \<or> IS_CONT c then 0
      else if c div 128 = 0 then 1
      else if c div 32 = 6 then 2
      else if c div 16 = 14 then 3
      else if c div 8 = 30 then 4 else 0)"

definition byte_of :: "nat \<Rightarrow> string \<Rightarrow> nat" where
  "byte_of i s = (if i < length s then of_char (s ! i) else 0)"

definition utf8_code_point :: "nat \<Rightarrow> string \<Rightarrow> nat option" where
  "utf8_code_point len s =
     (if len = 1 then Some (byte_of 0 s)
      else if len = 2 \<and> IS_CONT (byte_of 1 s) then Some (byte_of 0 s mod 32 * 64 + byte_of 1 s mod 64)
      else if len = 3 \<and> IS_CONT (byte_of 1 s) \<and> IS_CONT (byte_of 2 s)
        then Some ((byte_of 0 s mod 16 * 64 + byte_of 1 s mod 64) * 64 + byte_of 2 s mod 64)
      else if len = 4 \<and> IS_CONT (byte_of 1 s) \<and> IS_CONT (byte_of 2 s) \<and> IS_CONT (byte_of 3 s)
        then Some (((byte_of 0 s mod 8 * 64 + byte_of 1 s mod 64) * 64 + byte_of 2 s mod 64) * 64 + byte_of 3 s mod 64)
      else None)"

definition verify_utf8_sequence :: "string \<Rightarrow> nat option" where
  "verify_utf8_sequence s =
     (let len = num_bytes_in_utf8_sequence (byte_of 0 s) in
      case utf8_code_point len s of
        None \<Rightarrow> None
      | Some cp \<Rightarrow>
          if (cp < 0x80 \<and> len > 1) \<or> (cp < 0x800 \<and> len > 2) \<or> (cp < 0x10000 \<and> len > 3) then None
          else if cp > 0x10FFFF then None
          else if cp \<ge> 0xD800 \<and> cp \<le> 0xDFFF then None
          else Some len)"

function is_valid_utf8 :: "string \<Rightarrow> bool" where
  "is_valid_utf8 s =
     (if s = [] then True
      else case verify_utf8_sequence s of
        None \<Rightarrow> False
      | Some len \<Rightarrow> is_valid_utf8 (drop len s))"
  by pat_completeness auto
termination
proof (relation "measure length")
  fix s :: string and len
  assume s: "s \<noteq> []" and len: "verify_utf8_sequence s = Some len"
  have "utf8_code_point 0 s = None" by (simp add: utf8_code_point_def)
  with len have "0 < len" by (auto simp: verify_utf8_sequence_def Let_def split: option.splits if_splits intro!: gr0I)
  with s show "(drop len s, s) \<in> measure length" by simp
qed simp

declare is_valid_utf8.simps [simp del]

lemma is_valid_utf8_ascii: "list_all (\<lambda>c. (of_char c :: nat) < 128) s \<Longrightarrow> is_valid_utf8 s"
proof (induction s)
  case Nil
  then show ?case by (simp add: is_valid_utf8.simps)
next
  case (Cons c s)
  then have "verify_utf8_sequence (c # s) = Some 1"
    by (auto simp: verify_utf8_sequence_def byte_of_def num_bytes_in_utf8_sequence_def IS_CONT_def utf8_code_point_def)
  with Cons show ?case by (subst is_valid_utf8.simps) simp
qed

definition json_value_init_string :: "string \<Rightarrow> json option" where
  "json_value_init_string s = (if is_valid_utf8 s then Some (JSONString s) else None)"

definition json_value_init_number :: "real \<Rightarrow> json option" where
  "json_value_init_number x = Some (JSONNumber x)"

definition json_value_init_boolean :: "int \<Rightarrow> json option" where
  "json_value_init_boolean b = Some (JSONBoolean (b \<noteq> 0))"

subsection \<open>Objects\<close>

fun json_object_getn_value :: "json_object \<Rightarrow> string \<Rightarrow> json option" where
  "json_object_getn_value [] name = None"
| "json_object_getn_value ((n, v) # ob) name = (if n = name then Some v else json_object_getn_value ob name)"

definition json_object_get_value :: "json_object option \<Rightarrow> string \<Rightarrow> json option" where
  "json_object_get_value ob name = (case ob of None \<Rightarrow> None | Some ob \<Rightarrow> json_object_getn_value ob name)"

definition json_object_addn :: "json_object \<Rightarrow> string \<Rightarrow> json \<Rightarrow> json_object option" where
  "json_object_addn ob name v =
     (if json_object_getn_value ob name \<noteq> None then None else Some (ob @ [(name, v)]))"

fun json_object_replace :: "json_object \<Rightarrow> string \<Rightarrow> json \<Rightarrow> json_object" where
  "json_object_replace [] name v = []"
| "json_object_replace ((n, x) # ob) name v = (if n = name then (n, v) # ob else (n, x) # json_object_replace ob name v)"

definition json_object_set_value :: "json_object \<Rightarrow> string \<Rightarrow> json \<Rightarrow> json_object option" where
  "json_object_set_value ob name v =
     (if json_object_getn_value ob name \<noteq> None then Some (json_object_replace ob name v)
      else json_object_addn ob name v)"

text \<open>\<^verbatim>\<open>strchr(name, '.')\<close>: what is before and after the first dot.\<close>

definition split_dot :: "string \<Rightarrow> (string \<times> string) option" where
  "split_dot name =
     (case dropWhile (\<lambda>c. c \<noteq> CHR ''.'') name of
        [] \<Rightarrow> None | _ # rest \<Rightarrow> Some (takeWhile (\<lambda>c. c \<noteq> CHR ''.'') name, rest))"

lemma split_dot_length: "split_dot name = Some (a, b) \<Longrightarrow> length b < length name"
proof -
  assume "split_dot name = Some (a, b)"
  then obtain c where "dropWhile (\<lambda>c. c \<noteq> CHR ''.'') name = c # b"
    by (auto simp: split_dot_def split: list.splits)
  with length_dropWhile_le [of "\<lambda>c. c \<noteq> CHR ''.''" name] show ?thesis by simp
qed

function json_object_dotget_value :: "json_object option \<Rightarrow> string \<Rightarrow> json option" where
  "json_object_dotget_value ob name =
     (case split_dot name of
        None \<Rightarrow> json_object_get_value ob name
      | Some (key, rest) \<Rightarrow> json_object_dotget_value (json_value_get_object (json_object_get_value ob key)) rest)"
  by pat_completeness auto
termination by (relation "measure (\<lambda>(_, name). length name)") (auto dest: split_dot_length)

function json_object_dotset_value :: "json_object \<Rightarrow> string \<Rightarrow> json \<Rightarrow> json_object option" where
  "json_object_dotset_value ob name v =
     (case split_dot name of
        None \<Rightarrow> json_object_set_value ob name v
      | Some (key, rest) \<Rightarrow>
          (case json_object_getn_value ob key of
             Some (JSONObject sub) \<Rightarrow>
               map_option (\<lambda>sub'. json_object_replace ob key (JSONObject sub')) (json_object_dotset_value sub rest v)
           | Some _ \<Rightarrow> None
           | None \<Rightarrow>
               (case json_object_dotset_value [] rest v of
                  None \<Rightarrow> None | Some sub' \<Rightarrow> json_object_addn ob key (JSONObject sub'))))"
  by pat_completeness auto
termination by (relation "measure (\<lambda>(_, name, _). length name)") (auto dest: split_dot_length)

declare json_object_dotget_value.simps [simp del]
declare json_object_dotset_value.simps [simp del]

definition json_object_dotget_object :: "json_object option \<Rightarrow> string \<Rightarrow> json_object option" where
  "json_object_dotget_object ob name = json_value_get_object (json_object_dotget_value ob name)"

definition json_object_dotset_string :: "json_object \<Rightarrow> string \<Rightarrow> string \<Rightarrow> json_object option" where
  "json_object_dotset_string ob name s =
     (case json_value_init_string s of None \<Rightarrow> None | Some v \<Rightarrow> json_object_dotset_value ob name v)"

definition json_object_dotset_number :: "json_object \<Rightarrow> string \<Rightarrow> real \<Rightarrow> json_object option" where
  "json_object_dotset_number ob name x =
     (case json_value_init_number x of None \<Rightarrow> None | Some v \<Rightarrow> json_object_dotset_value ob name v)"

definition json_object_dotset_boolean :: "json_object \<Rightarrow> string \<Rightarrow> int \<Rightarrow> json_object option" where
  "json_object_dotset_boolean ob name b =
     (case json_value_init_boolean b of None \<Rightarrow> None | Some v \<Rightarrow> json_object_dotset_value ob name v)"

subsection \<open>Paths as lists of keys\<close>

function dots :: "string \<Rightarrow> string list" where
  "dots name = (case split_dot name of None \<Rightarrow> [name] | Some (key, rest) \<Rightarrow> key # dots rest)"
  by pat_completeness auto
termination by (relation "measure length") (auto dest: split_dot_length)

declare dots.simps [simp del]

lemma dots_nonempty [simp]: "dots name \<noteq> []"
  by (subst dots.simps) (auto split: option.splits prod.splits)

fun path_get :: "string list \<Rightarrow> json_object option \<Rightarrow> json option" where
  "path_get [] ob = map_option JSONObject ob"
| "path_get (k # ks) ob =
     (case json_object_get_value ob k of
        None \<Rightarrow> None
      | Some v \<Rightarrow> if ks = [] then Some v else path_get ks (json_value_get_object (Some v)))"

fun path_set :: "string list \<Rightarrow> json \<Rightarrow> json_object \<Rightarrow> json_object option" where
  "path_set [] v ob = None"
| "path_set (k # ks) v ob =
     (if ks = [] then json_object_set_value ob k v
      else case json_object_getn_value ob k of
        Some (JSONObject sub) \<Rightarrow> map_option (\<lambda>sub'. json_object_replace ob k (JSONObject sub')) (path_set ks v sub)
      | Some _ \<Rightarrow> None
      | None \<Rightarrow> map_option (\<lambda>sub'. ob @ [(k, JSONObject sub')]) (path_set ks v []))"

lemma get_value_None [simp]: "json_object_get_value None k = None"
  and get_value_Some [simp]: "json_object_get_value (Some ob) k = json_object_getn_value ob k"
  by (simp_all add: json_object_get_value_def)

lemma get_string_Some: "json_value_get_string v = Some s \<longleftrightarrow> v = Some (JSONString s)"
  by (cases v rule: json_value_get_string.cases) auto

lemma get_object_Some: "json_value_get_object v = Some ob \<longleftrightarrow> v = Some (JSONObject ob)"
  by (cases v rule: json_value_get_object.cases) auto

lemma get_value_object:
  "json_object_get_value (json_value_get_object v) k = Some x \<Longrightarrow> \<exists>ob. v = Some (JSONObject ob) \<and> json_object_getn_value ob k = Some x"
  by (cases v rule: json_value_get_object.cases) auto

lemma getn_in: "json_object_getn_value ob k = Some v \<Longrightarrow> (k, v) \<in> set ob"
  by (induction ob k rule: json_object_getn_value.induct) (auto split: if_splits)

lemma path_get_None: "path_get ks None = None"
  by (cases ks) simp_all

lemma dotget_path: "json_object_dotget_value ob name = path_get (dots name) ob"
proof (induction ob name rule: json_object_dotget_value.induct)
  case (1 ob name)
  show ?case
  proof (cases "split_dot name")
    case None
    then show ?thesis by (simp add: json_object_dotget_value.simps [of ob name] dots.simps [of name] split: option.splits)
  next
    case (Some kr)
    obtain key rest where kr: "kr = (key, rest)" by force
    then show ?thesis using 1 [OF Some kr [symmetric]] Some
      by (cases "json_object_get_value ob key")
        (simp_all add: json_object_dotget_value.simps [of ob name] dots.simps [of name] path_get_None)
  qed
qed

lemma dotset_path: "json_object_dotset_value ob name v = path_set (dots name) v ob"
proof (induction ob name v rule: json_object_dotset_value.induct)
  case (1 ob name v)
  show ?case
  proof (cases "split_dot name")
    case None
    then show ?thesis by (simp add: json_object_dotset_value.simps [of ob name] dots.simps [of name])
  next
    case (Some kr)
    obtain key rest where kr: "kr = (key, rest)" by force
    have add: "(case r of None \<Rightarrow> None | Some sub \<Rightarrow> json_object_addn ob key (JSONObject sub))
        = map_option (\<lambda>sub. ob @ [(key, JSONObject sub)]) r"
      if "json_object_getn_value ob key = None" for r
      using that by (simp add: json_object_addn_def split: option.splits)
    show ?thesis using 1 [OF Some kr [symmetric]] Some kr add
      by (simp add: json_object_dotset_value.simps [of ob name] dots.simps [of name] split: option.splits json.splits)
  qed
qed

subsection \<open>Setting and getting\<close>

lemma getn_replace:
  "json_object_getn_value (json_object_replace ob k v) j =
     (if j = k \<and> json_object_getn_value ob k \<noteq> None then Some v else json_object_getn_value ob j)"
  by (induction ob k v rule: json_object_replace.induct) auto

lemma getn_append:
  "json_object_getn_value (ob @ [(k, v)]) j =
     (case json_object_getn_value ob j of Some x \<Rightarrow> Some x | None \<Rightarrow> if j = k then Some v else None)"
  by (induction ob j rule: json_object_getn_value.induct) auto

lemma getn_set:
  "json_object_set_value ob k v = Some ob' \<Longrightarrow>
     json_object_getn_value ob' j = (if j = k then Some v else json_object_getn_value ob j)"
  by (auto simp: json_object_set_value_def json_object_addn_def getn_replace getn_append
      split: if_splits option.splits)

text \<open>One step of a path: the sub-object before and after.\<close>

lemma path_set_step:
  assumes "path_set (k # ks) v ob = Some ob'" and "ks \<noteq> []"
  shows "\<exists>sub sub'. path_set ks v sub = Some sub' \<and> json_object_getn_value ob' k = Some (JSONObject sub')
    \<and> (json_object_getn_value ob k = Some (JSONObject sub) \<or> json_object_getn_value ob k = None \<and> sub = [])
    \<and> (\<forall>j. j \<noteq> k \<longrightarrow> json_object_getn_value ob' j = json_object_getn_value ob j)"
  using assms
  by (auto simp: getn_replace getn_append split: option.splits json.splits)

lemma path_get_empty: "path_get ks (Some []) = None \<or> ks = []"
  by (cases ks) simp_all

lemma path_set_get: "path_set ks v ob = Some ob' \<Longrightarrow> path_get ks (Some ob') = Some v"
proof (induction ks arbitrary: ob ob')
  case (Cons k ks)
  show ?case
  proof (cases "ks = []")
    case True
    with Cons.prems show ?thesis by (simp add: getn_set)
  next
    case False
    from path_set_step [OF Cons.prems this] obtain sub sub' where
      "path_set ks v sub = Some sub'" "json_object_getn_value ob' k = Some (JSONObject sub')" by blast
    with Cons.IH [of sub sub'] False show ?thesis by simp
  qed
qed simp

lemma path_set_other:
  "path_set ks v ob = Some ob' \<Longrightarrow> \<not> prefix ks js \<Longrightarrow> \<not> prefix js ks
    \<Longrightarrow> path_get js (Some ob') = path_get js (Some ob)"
proof (induction ks arbitrary: ob ob' js)
  case (Cons k ks)
  obtain j js' where js: "js = j # js'" using Cons.prems(3) by (cases js) auto
  show ?case
  proof (cases "ks = []")
    case True
    with Cons.prems js show ?thesis by (auto simp: getn_set)
  next
    case False
    from path_set_step [OF Cons.prems(1) this] obtain sub sub' where sub: "path_set ks v sub = Some sub'"
      "json_object_getn_value ob' k = Some (JSONObject sub')"
      "json_object_getn_value ob k = Some (JSONObject sub) \<or> json_object_getn_value ob k = None \<and> sub = []"
      "\<forall>j. j \<noteq> k \<longrightarrow> json_object_getn_value ob' j = json_object_getn_value ob j" by blast
    show ?thesis
    proof (cases "j = k")
      case True
      then have np: "\<not> prefix ks js'" "\<not> prefix js' ks" using Cons.prems(2,3) js by auto
      then have "js' \<noteq> []" by auto
      with True sub Cons.IH [OF sub(1) np] js path_get_empty [of js'] show ?thesis by auto
    next
      case False
      with sub js show ?thesis by simp
    qed
  qed
qed simp

text \<open>What is above a value that was set is an object.\<close>

lemma path_set_above:
  "path_set ks v ob = Some ob' \<Longrightarrow> prefix js ks \<Longrightarrow> js \<noteq> ks \<Longrightarrow> \<exists>sub. path_get js (Some ob') = Some (JSONObject sub)"
proof (induction ks arbitrary: ob ob' js)
  case (Cons k ks)
  show ?case
  proof (cases js)
    case (Cons j js')
    with Cons.prems have j: "j = k" "prefix js' ks" "js' \<noteq> ks" by auto
    then have "ks \<noteq> []" by auto
    from path_set_step [OF Cons.prems(1) this] obtain sub sub' where sub: "path_set ks v sub = Some sub'"
      "json_object_getn_value ob' k = Some (JSONObject sub')" by blast
    with Cons.IH [OF sub(1) j(2,3)] j Cons show ?thesis by auto
  qed simp
qed simp

text \<open>A value can be set at a path exactly when no prefix of the path holds something that is not an object.\<close>

fun path_free :: "string list \<Rightarrow> json_object \<Rightarrow> bool" where
  "path_free [] ob \<longleftrightarrow> False"
| "path_free (k # ks) ob \<longleftrightarrow> ks = [] \<or>
     (case json_object_getn_value ob k of
        None \<Rightarrow> True | Some (JSONObject sub) \<Rightarrow> path_free ks sub | Some _ \<Rightarrow> False)"

lemma path_free_empty: "ks \<noteq> [] \<Longrightarrow> path_free ks []"
  by (cases ks) simp_all

lemma path_set_iff: "path_set ks v ob \<noteq> None \<longleftrightarrow> path_free ks ob"
proof (induction ks arbitrary: ob)
  case (Cons k ks)
  then show ?case
    using Cons.IH [of "[]"] path_free_empty [of ks]
    by (auto simp: json_object_set_value_def json_object_addn_def split: option.splits json.splits)
qed simp

lemma path_free_set:
  "path_set ks v ob = Some ob' \<Longrightarrow> \<not> prefix ks js \<Longrightarrow> path_free js ob \<Longrightarrow> path_free js ob'"
proof (induction ks arbitrary: ob ob' js)
  case (Cons k ks)
  obtain j js' where js: "js = j # js'" using Cons.prems(3) by (cases js) auto
  show ?case
  proof (cases "ks = []")
    case True
    with Cons.prems js show ?thesis by (auto simp: getn_set)
  next
    case False
    from path_set_step [OF Cons.prems(1) this] obtain sub sub' where sub: "path_set ks v sub = Some sub'"
      "json_object_getn_value ob' k = Some (JSONObject sub')"
      "json_object_getn_value ob k = Some (JSONObject sub) \<or> json_object_getn_value ob k = None \<and> sub = []"
      "\<forall>j. j \<noteq> k \<longrightarrow> json_object_getn_value ob' j = json_object_getn_value ob j" by blast
    show ?thesis
    proof (cases "j = k")
      case True
      then have np: "\<not> prefix ks js'" using Cons.prems(2) js by auto
      show ?thesis
      proof (cases "js' = []")
        case False
        then have "path_free js' sub" using Cons.prems(3) sub(3) js True path_free_empty [of js'] by auto
        with Cons.IH [OF sub(1) np] sub(2) js True show ?thesis by simp
      qed (simp add: js)
    next
      case False
      with sub js Cons.prems(3) show ?thesis by simp
    qed
  qed
qed simp

subsection \<open>The interface: a store of attributes\<close>

text \<open>What the users of the metadata rely on: a value set under a key is read back, and the values under
  the keys that are neither above nor below it do not change.\<close>

fun put_all :: "('o \<Rightarrow> string \<Rightarrow> 'v \<Rightarrow> 'o option) \<Rightarrow> (string \<times> 'v) list \<Rightarrow> 'o \<Rightarrow> 'o option" where
  "put_all put [] ob = Some ob"
| "put_all put ((k, v) # kvs) ob = (case put ob k v of None \<Rightarrow> None | Some ob' \<Rightarrow> put_all put kvs ob')"

locale attr_store =
  fixes fetch :: "'o \<Rightarrow> string \<Rightarrow> 'v option"
    and put :: "'o \<Rightarrow> string \<Rightarrow> 'v \<Rightarrow> 'o option"
    and apart :: "string \<Rightarrow> string \<Rightarrow> bool"
  assumes put_fetch: "put ob k v = Some ob' \<Longrightarrow> fetch ob' k = Some v"
    and put_other: "put ob k v = Some ob' \<Longrightarrow> apart k j \<Longrightarrow> fetch ob' j = fetch ob j"
begin

lemma put_all_other:
  "put_all put kvs ob = Some ob' \<Longrightarrow> \<forall>k \<in> fst ` set kvs. apart k j \<Longrightarrow> fetch ob' j = fetch ob j"
  by (induction kvs arbitrary: ob) (auto split: option.splits dest: put_other)

lemma put_all_fetch:
  assumes "put_all put (pre @ (k, v) # post) ob = Some ob'" and "\<forall>j \<in> fst ` set post. apart j k"
  shows "fetch ob' k = Some v"
  using assms
proof (induction pre arbitrary: ob)
  case Nil
  then show ?case by (auto simp: put_all_other put_fetch split: option.splits)
qed (auto split: option.splits)

end

definition keys_apart :: "string \<Rightarrow> string \<Rightarrow> bool" where
  "keys_apart k j \<longleftrightarrow> \<not> prefix (dots k) (dots j) \<and> \<not> prefix (dots j) (dots k)"

interpretation meta: attr_store "\<lambda>ob. json_object_dotget_value (Some ob)" json_object_dotset_value keys_apart
  by unfold_locales (auto simp: dotget_path dotset_path keys_apart_def dest: path_set_get path_set_other)

text \<open>The keys of the metadata that the sources name.\<close>

lemma dots_keys:
  "dots ''version'' = [''version'']"
  "dots ''ovni.lib.version'' = [''ovni'', ''lib'', ''version'']"
  "dots ''ovni.lib.commit'' = [''ovni'', ''lib'', ''commit'']"
  "dots ''ovni.part'' = [''ovni'', ''part'']"
  "dots ''ovni.tid'' = [''ovni'', ''tid'']"
  "dots ''ovni.pid'' = [''ovni'', ''pid'']"
  "dots ''ovni.loom'' = [''ovni'', ''loom'']"
  "dots ''ovni.app_id'' = [''ovni'', ''app_id'']"
  "dots ''ovni.rank'' = [''ovni'', ''rank'']"
  "dots ''ovni.nranks'' = [''ovni'', ''nranks'']"
  "dots ''ovni.loom_cpus'' = [''ovni'', ''loom_cpus'']"
  "dots ''ovni.finished'' = [''ovni'', ''finished'']"
  "dots ''ovni.require.ovni'' = [''ovni'', ''require'', ''ovni'']"
  "dots ''ovni.require'' = [''ovni'', ''require'']"
  "dots ''ovni.mark'' = [''ovni'', ''mark'']"
  by code_simp+

end
