(* ===== verification/Registry.thy ===== *)
theory Registry
  imports Ev_Lists Json
begin

text \<open>
  The registry of models: \<^verbatim>\<open>src/emu/model.c\<close> and the loops of \<^verbatim>\<open>src/emu/models.c\<close>.

  A model is a \<^verbatim>\<open>struct model_spec\<close> with its name, its version, its declared events and five hooks that may be missing.
  The state of the emulator that the hooks work on is the type \<open>'w\<close>. The hook \<open>ms_probe\<close> tells whether
  the model is enabled (a positive result). A hook that ends a model, \<open>ms_finish\<close>, may fail after it has changed the
  state, so it returns the state and the error, if there is one.

  A model is identified by a byte, which is the index in the arrays of \<^verbatim>\<open>struct model\<close>. The arrays are functions of the
  index; only the indices below \<open>MAX_MODELS\<close> are used.
\<close>

subsection \<open>Data\<close>

record 'w model_spec =
  ms_name :: "string option"
  ms_version :: "string option"
  ms_model :: nat
  ms_evlist :: "ev_decl list option"
  ms_probe :: "('w \<Rightarrow> bool res) option"
  ms_create :: "('w \<Rightarrow> 'w res) option"
  ms_connect :: "('w \<Rightarrow> 'w res) option"
  ms_event :: "('w \<Rightarrow> 'w res) option"
  ms_finish :: "('w \<Rightarrow> 'w \<times> error option) option"
  ms_evspec :: "model_evspec option"

definition MAX_MODELS :: nat where "MAX_MODELS = 256"

record 'w model =
  md_spec :: "nat \<Rightarrow> 'w model_spec option"
  md_registered :: "nat \<Rightarrow> bool"
  md_enabled :: "nat \<Rightarrow> bool"

definition model_init :: "'w model" where
  "model_init = \<lparr>md_spec = (\<lambda>_. None), md_registered = (\<lambda>_. False), md_enabled = (\<lambda>_. False)\<rparr>"

subsection \<open>Registration\<close>

definition model_register :: "'w model_spec \<Rightarrow> 'w model \<Rightarrow> 'w model res" where
  "model_register spec md =
     (let i = ms_model spec in
      if ms_name spec = None then Inl (EModel ModelFieldMissing)
      else if md_registered md i then Inl (EModel ModelRegistered)
      else if ms_version spec = None then Inl (EModel ModelFieldMissing)
      else case ms_evlist spec of None \<Rightarrow> Inl (EModel ModelFieldMissing)
      | Some evlist \<Rightarrow>
          if ms_evspec spec \<noteq> None then Inl (EModel ModelFieldMissing)
          else rbind (model_evspec_init (char_of i) evlist) (\<lambda>evspec.
            Inr (md\<lparr>md_spec := (md_spec md)(i \<mapsto> spec\<lparr>ms_evspec := Some evspec\<rparr>),
                    md_registered := (md_registered md)(i := True)\<rparr>)))"

definition models_register :: "'w model_spec list \<Rightarrow> 'w model \<Rightarrow> 'w model res" where
  "models_register models md = foldr_res model_register models md"

definition models_get_version :: "'w model_spec list \<Rightarrow> string \<Rightarrow> string option" where
  "models_get_version models name =
     (case find (\<lambda>spec. ms_name spec = Some name) models of None \<Rightarrow> None | Some spec \<Rightarrow> ms_version spec)"

subsection \<open>The loops over the models\<close>

text \<open>\<open>spec_of md i\<close> is \<^verbatim>\<open>model->spec[i]\<close>, which is set for the registered models, and \<open>hook\<close> one of its hooks.\<close>

definition hook_of :: "('w model_spec \<Rightarrow> 'h option) \<Rightarrow> nat \<Rightarrow> 'w model \<Rightarrow> 'h option" where
  "hook_of hook i md = (case md_spec md i of None \<Rightarrow> None | Some spec \<Rightarrow> hook spec)"

definition probe_one :: "bool \<Rightarrow> 'w \<Rightarrow> nat \<Rightarrow> 'w model \<Rightarrow> 'w model res" where
  "probe_one enable_all w i md =
     (if \<not> md_registered md i then Inr md
      else case hook_of ms_probe i md of None \<Rightarrow> Inr md
      | Some probe \<Rightarrow> rbind (probe w) (\<lambda>ret.
          if ret \<or> enable_all then Inr (md\<lparr>md_enabled := (md_enabled md)(i := True)\<rparr>) else Inr md))"

definition model_probe :: "bool \<Rightarrow> 'w \<Rightarrow> 'w model \<Rightarrow> 'w model res" where
  "model_probe enable_all w md = foldr_res (probe_one enable_all w) [0..<MAX_MODELS] md"

definition hook_one :: "('w model_spec \<Rightarrow> ('w \<Rightarrow> 'w res) option) \<Rightarrow> 'w model \<Rightarrow> nat \<Rightarrow> 'w \<Rightarrow> 'w res" where
  "hook_one hook md i w =
     (if \<not> md_enabled md i then Inr w else case hook_of hook i md of None \<Rightarrow> Inr w | Some f \<Rightarrow> f w)"

definition model_create :: "'w model \<Rightarrow> 'w \<Rightarrow> 'w res" where
  "model_create md w = foldr_res (hook_one ms_create md) [0..<MAX_MODELS] w"

definition model_connect :: "'w model \<Rightarrow> 'w \<Rightarrow> 'w res" where
  "model_connect md w = foldr_res (hook_one ms_connect md) [0..<MAX_MODELS] w"

definition model_event :: "'w model \<Rightarrow> nat \<Rightarrow> 'w \<Rightarrow> 'w res" where
  "model_event md index w =
     (if \<not> md_registered md index then Inl (EModel ModelNotRegistered)
      else if \<not> md_enabled md index then Inl (EModel ModelNotEnabled)
      else case hook_of ms_event index md of None \<Rightarrow> Inr w | Some f \<Rightarrow> f w)"

definition model_event_print :: "'w model \<Rightarrow> emu_ev \<Rightarrow> int \<Rightarrow> string res" where
  "model_event_print md ev buflen =
     (let index = unat (ev_m ev) in
      if \<not> md_registered md index then Inl (EModel ModelNotRegistered)
      else case hook_of ms_evspec index md of None \<Rightarrow> Inl (EModel ModelFieldMissing)
      | Some evspec \<Rightarrow>
          (case model_evspec_find (map (\<lambda>b. char_of (unat b)) [ev_m ev, ev_c ev, ev_v ev]) evspec of
             None \<Rightarrow> Inl (EEvspec EsArgNotFound)
           | Some es \<Rightarrow> ev_spec_print es ev buflen))"

text \<open>A model that fails to finish does not keep the others from finishing.\<close>

definition finish_one :: "'w model \<Rightarrow> nat \<Rightarrow> 'w \<times> error option \<Rightarrow> 'w \<times> error option" where
  "finish_one md i = (\<lambda>(w, ret).
     if \<not> md_enabled md i then (w, ret)
     else case hook_of ms_finish i md of None \<Rightarrow> (w, ret)
     | Some f \<Rightarrow> (case f w of (w1, None) \<Rightarrow> (w1, ret) | (w1, Some _) \<Rightarrow> (w1, Some (EModel ModelFinish))))"

definition model_finish :: "'w model \<Rightarrow> 'w \<Rightarrow> 'w \<times> error option" where
  "model_finish md w = fold (finish_one md) [0..<MAX_MODELS] (w, None)"

subsection \<open>Models required by the threads\<close>

text \<open>\<open>have\<close> is the version of the model in the emulator. \<open>meta\<close> is the metadata of a thread.\<close>

definition should_enable :: "int \<times> int \<times> int \<Rightarrow> string \<Rightarrow> json_object option \<Rightarrow> bool res" where
  "should_enable have' name meta =
     (if meta = None then Inl (EThread ThreadMetaUnset)
      else case json_object_dotget_object meta ''ovni.require'' of None \<Rightarrow> Inl (EModel ModelNoRequire)
      | Some require \<Rightarrow>
          (case json_value_get_string (json_object_get_value (Some require) name) of None \<Rightarrow> Inr False
           | Some req_version \<Rightarrow>
               (case version_parse req_version of None \<Rightarrow> Inl (EModel ModelVersion)
                | Some want \<Rightarrow>
                    if \<not> version_is_compatible want have' then Inl (EModel ModelIncompatible) else Inr True)))"

definition model_version_probe :: "string \<Rightarrow> string \<Rightarrow> json_object option list \<Rightarrow> bool res" where
  "model_version_probe name version metas =
     (case version_parse version of None \<Rightarrow> Inl (EModel ModelVersion)
      | Some have' \<Rightarrow>
          if length name + 8 \<ge> 128 then Inl (EModel ModelFieldMissing)
          else foldr_res (\<lambda>meta enable. rbind (should_enable have' name meta) (\<lambda>ret. Inr (ret \<or> enable))) metas False)"

subsection \<open>Which models are enabled\<close>

text \<open>The version of the model that a thread requires, and the threads the probe accepts.\<close>

definition required :: "string \<Rightarrow> json_object option \<Rightarrow> string option" where
  "required name meta =
     (case json_object_dotget_object meta ''ovni.require'' of None \<Rightarrow> None
      | Some require \<Rightarrow> json_value_get_string (json_object_get_value (Some require) name))"

definition meta_accepted :: "int \<times> int \<times> int \<Rightarrow> string \<Rightarrow> json_object option \<Rightarrow> bool" where
  "meta_accepted have' name meta \<longleftrightarrow>
     meta \<noteq> None \<and> json_object_dotget_object meta ''ovni.require'' \<noteq> None
     \<and> (case required name meta of None \<Rightarrow> True
        | Some v \<Rightarrow> (case version_parse v of None \<Rightarrow> False | Some want \<Rightarrow> version_is_compatible want have'))"

lemma should_enable_iff:
  "should_enable have' name meta = Inr en \<longleftrightarrow> meta_accepted have' name meta \<and> (en \<longleftrightarrow> required name meta \<noteq> None)"
  by (auto simp: should_enable_def meta_accepted_def required_def split: option.splits if_splits)

lemma version_probe_fold:
  "foldr_res (\<lambda>meta enable. rbind (should_enable have' name meta) (\<lambda>ret. Inr (ret \<or> enable))) metas e = Inr en \<longleftrightarrow>
     list_all (meta_accepted have' name) metas \<and> (en \<longleftrightarrow> e \<or> list_ex (\<lambda>meta. required name meta \<noteq> None) metas)"
  by (induction metas arbitrary: e) (auto simp: should_enable_iff)

lemma model_version_probe_iff:
  assumes "version_parse version = Some have'" and "length name < 120"
  shows "model_version_probe name version metas = Inr en \<longleftrightarrow>
    list_all (meta_accepted have' name) metas \<and> (en \<longleftrightarrow> list_ex (\<lambda>meta. required name meta \<noteq> None) metas)"
  using assms version_probe_fold [of have' name metas False en] by (simp add: model_version_probe_def)

text \<open>Probing changes only which models are enabled, and enables a model when its probe says so or all are to be.\<close>

definition probed :: "bool \<Rightarrow> 'w \<Rightarrow> nat \<Rightarrow> 'w model \<Rightarrow> bool" where
  "probed enable_all w i md \<longleftrightarrow> md_registered md i
     \<and> (case hook_of ms_probe i md of None \<Rightarrow> False | Some probe \<Rightarrow> enable_all \<or> probe w = Inr True)"

lemma probe_fold:
  assumes "foldr_res (probe_one enable_all w) xs md = Inr md'"
  shows "md_spec md' = md_spec md \<and> md_registered md' = md_registered md
    \<and> (\<forall>i. md_enabled md' i \<longleftrightarrow> md_enabled md i \<or> i \<in> set xs \<and> probed enable_all w i md)
    \<and> (\<forall>i \<in> set xs. \<forall>probe. md_registered md i \<longrightarrow> hook_of ms_probe i md = Some probe \<longrightarrow> (\<exists>b. probe w = Inr b))"
  using assms
proof (induction xs arbitrary: md)
  case (Cons x xs)
  then obtain md1 where 1: "probe_one enable_all w x md = Inr md1" and 2: "foldr_res (probe_one enable_all w) xs md1 = Inr md'"
    by auto
  have s: "md_spec md1 = md_spec md \<and> md_registered md1 = md_registered md
    \<and> (\<forall>i. md_enabled md1 i \<longleftrightarrow> md_enabled md i \<or> i = x \<and> probed enable_all w i md)
    \<and> (\<forall>probe. md_registered md x \<longrightarrow> hook_of ms_probe x md = Some probe \<longrightarrow> (\<exists>b. probe w = Inr b))"
  proof (cases "hook_of ms_probe x md")
    case (Some probe)
    show ?thesis
    proof (cases "md_registered md x")
      case True
      with 1 Some obtain b where b: "probe w = Inr b"
        "md1 = (if b \<or> enable_all then md\<lparr>md_enabled := (md_enabled md)(x := True)\<rparr> else md)"
        by (auto simp: probe_one_def split: if_splits)
      with True Some show ?thesis by (auto simp: probed_def)
    qed (use 1 in \<open>auto simp: probe_one_def probed_def\<close>)
  qed (use 1 in \<open>auto simp: probe_one_def probed_def split: if_splits\<close>)
  then have p: "probed enable_all w i md1 = probed enable_all w i md" "hook_of ms_probe i md1 = hook_of ms_probe i md" for i
    by (simp_all add: probed_def hook_of_def)
  from Cons.IH [OF 2] s p show ?case by auto
qed simp

text \<open>Registration keeps what is registered and adds the models of the list, which must be other ones.\<close>

lemma models_register_spec:
  assumes "models_register specs md = Inr md'"
  shows "(\<forall>i. md_registered md' i \<longleftrightarrow> md_registered md i \<or> i \<in> ms_model ` set specs)
    \<and> distinct (map ms_model specs) \<and> (\<forall>spec \<in> set specs. \<not> md_registered md (ms_model spec))
    \<and> (\<forall>spec \<in> set specs. \<exists>evlist es. ms_evlist spec = Some evlist \<and> model_evspec_init (char_of (ms_model spec)) evlist = Inr es
         \<and> md_spec md' (ms_model spec) = Some (spec\<lparr>ms_evspec := Some es\<rparr>))
    \<and> (\<forall>i. i \<notin> ms_model ` set specs \<longrightarrow> md_spec md' i = md_spec md i) \<and> md_enabled md' = md_enabled md"
  using assms unfolding models_register_def
proof (induction specs arbitrary: md)
  case (Cons x xs)
  then obtain md1 where 1: "model_register x md = Inr md1" and 2: "foldr_res model_register xs md1 = Inr md'" by auto
  from 1 obtain evlist es where s: "\<not> md_registered md (ms_model x)" "ms_evlist x = Some evlist"
    "model_evspec_init (char_of (ms_model x)) evlist = Inr es"
    "md1 = md\<lparr>md_spec := (md_spec md)(ms_model x \<mapsto> x\<lparr>ms_evspec := Some es\<rparr>), md_registered := (md_registered md)(ms_model x := True)\<rparr>"
    by (auto simp: model_register_def Let_def split: if_splits option.splits)
  note ih = Cons.IH [OF 2]
  then have new: "\<forall>spec \<in> set xs. ms_model spec \<noteq> ms_model x \<and> \<not> md_registered md (ms_model spec)"
    using s(4) by (auto split: if_splits)
  then have "ms_model x \<notin> ms_model ` set xs" by auto
  then show ?case using ih s new by auto
qed simp

end
