(* ===== verification/Stream.thy ===== *)
theory Stream
  imports Ev
begin

text \<open>
  Streams of events: \<^verbatim>\<open>src/emu/stream.c\<close>.

  A stream is the content of a file mapped in memory, with the offset of the current event. The pointer
  \<^verbatim>\<open>cur_ev\<close> is the offset it points to. \<^verbatim>\<open>stream_step\<close> returns 0 when it has loaded an event and 1 at the end;
  the model returns the pair of that answer, as \<open>True\<close> at the end, and the new stream. A negative offset, which a jumbo
  event of more than two gigabytes gives, is outside of the buffer and is an error of the model. Finding the
  files and parsing their metadata are left out.
\<close>

subsection \<open>Data and operations\<close>

record stream =
  st_buf :: "byte list"
  st_size :: int
  st_usize :: int
  st_offset :: int
  st_cur_ev :: "int option"
  st_lastclock :: int
  st_deltaclock :: int
  st_clock_offset :: int
  st_active :: bool
  st_unsorted :: bool

definition stream_header :: "byte list" where
  "stream_header = map char_byte ''ovni'' @ le_enc 4 1"

definition check_stream_header :: "byte list \<Rightarrow> unit res" where
  "check_stream_header buf =
     (if length buf < 8 then Inl (EStream StreamBadHeader)
      else if take 4 buf \<noteq> map char_byte ''ovni'' \<or> rd_u 4 4 buf \<noteq> 1 then Inl (EStream StreamBadHeader)
      else Inr ())"

definition load_obs :: "byte list \<Rightarrow> stream res" where
  "load_obs file =
     (if file = [] then Inl (EStream StreamEmpty)
      else rbind (check_stream_header file) (\<lambda>_.
        Inr \<lparr>st_buf = file, st_size = int (length file), st_usize = int (length file) - 8, st_offset = 8,
             st_cur_ev = None, st_lastclock = 0, st_deltaclock = 0, st_clock_offset = 0,
             st_active = (8 < int (length file)), st_unsorted = False\<rparr>))"

definition stream_clkoff_set :: "int \<Rightarrow> stream \<Rightarrow> stream res" where
  "stream_clkoff_set clkoff s =
     (if st_cur_ev s \<noteq> None then Inl (EStream StreamClkoffStarted)
      else if st_clock_offset s \<noteq> 0 then Inl (EStream StreamClkoffSet)
      else Inr (s\<lparr>st_clock_offset := clkoff\<rparr>))"

definition stream_at :: "int \<Rightarrow> stream \<Rightarrow> ovni_ev" where
  "stream_at off s = ev_at (drop (nat off) (st_buf s))"

definition stream_ev :: "stream \<Rightarrow> ovni_ev option" where
  "stream_ev s = map_option (\<lambda>off. stream_at off s) (st_cur_ev s)"

definition stream_evclock :: "ovni_ev \<Rightarrow> stream \<Rightarrow> int" where
  "stream_evclock ev s = c_int64 (c_int64 (uint (ovni_ev_get_clock ev)) + st_clock_offset s)"

text \<open>The second half of \<^verbatim>\<open>stream_step\<close>: load the event at the offset.\<close>

definition stream_load_ev :: "stream \<Rightarrow> (bool \<times> stream) res" where
  "stream_load_ev s =
     (if st_offset s < 0 then Inl (EStream StreamOutOfBuffer)
      else let s1 = s\<lparr>st_cur_ev := Some (st_offset s)\<rparr>; ev = stream_at (st_offset s) s in
        if st_offset s + ovni_ev_size ev > st_size s then Inl (EStream StreamIncompleteEvent)
        else let clock = stream_evclock ev s in
          if \<not> st_unsorted s \<and> clock < st_lastclock s then Inl (EStream StreamClockBackwards)
          else Inr (False, s1\<lparr>st_deltaclock := c_int64 (clock - st_lastclock s), st_lastclock := clock\<rparr>))"

definition stream_step :: "stream \<Rightarrow> (bool \<times> stream) res" where
  "stream_step s =
     (if \<not> st_active s then Inl (EStream StreamInactive)
      else case st_cur_ev s of
        None \<Rightarrow> stream_load_ev s
      | Some cur \<Rightarrow>
          let off = st_offset s + ovni_ev_size (stream_at cur s); s1 = s\<lparr>st_offset := off\<rparr> in
          if off > st_size s then Inl (EStream StreamOffsetExceeds)
          else if off = st_size s then Inr (True, s1\<lparr>st_active := False, st_cur_ev := None\<rparr>)
          else stream_load_ev s1)"

definition stream_progress :: "stream \<Rightarrow> int \<times> int" where
  "stream_progress s = (st_offset s - 8, st_usize s)"

definition stream_allow_unsorted :: "stream \<Rightarrow> stream" where
  "stream_allow_unsorted s = s\<lparr>st_unsorted := True\<rparr>"

subsection \<open>Reading a stream to its end\<close>

text \<open>An event with the bytes of its payload only.\<close>

definition ev_trim :: "ovni_ev \<Rightarrow> ovni_ev" where
  "ev_trim ev = ev\<lparr>oe_payload := take (nat (ovni_payload_size ev)) (oe_payload ev)\<rparr>"

text \<open>The events a stream still has: step until the end.\<close>

fun stream_read :: "nat \<Rightarrow> stream \<Rightarrow> ovni_ev list res" where
  "stream_read 0 s = Inl EFuel"
| "stream_read (Suc n) s =
     rbind (stream_step s) (\<lambda>(ended, s').
       if ended then Inr []
       else rbind (stream_read n s') (\<lambda>evs.
         Inr (map ev_trim (case stream_ev s' of None \<Rightarrow> [] | Some ev \<Rightarrow> [ev]) @ evs)))"

text \<open>An event as it is in a stream: its payload has the size the flags, or the jumbo size, tell. The bound
  keeps the size of the event in an \<^verbatim>\<open>int\<close>.\<close>

definition ev_wf :: "ovni_ev \<Rightarrow> bool" where
  "ev_wf ev \<longleftrightarrow> ovni_payload_size ev = int (length (oe_payload ev)) \<and> length (oe_payload ev) < 2 ^ 31 - 12
     \<and> (is_jumbo_flag ev \<longrightarrow> 4 \<le> length (oe_payload ev))"

lemma ev_wf_size: "ev_wf ev \<Longrightarrow> ovni_ev_size ev = int (length (ev_bytes ev))"
  by (simp add: ev_wf_def ovni_ev_size_def ev_header_size_def)

text \<open>An event in the middle of a buffer is seen with its size, clock and payload.\<close>

lemma ev_at_wf:
  assumes "ev_wf ev"
  shows "ovni_payload_size (ev_at (ev_bytes ev @ rest)) = ovni_payload_size ev"
    and "ovni_ev_size (ev_at (ev_bytes ev @ rest)) = int (length (ev_bytes ev))"
    and "oe_clock (ev_at (ev_bytes ev @ rest)) = oe_clock ev"
    and "ev_trim (ev_at (ev_bytes ev @ rest)) = ev"
proof -
  show size: "ovni_payload_size (ev_at (ev_bytes ev @ rest)) = ovni_payload_size ev"
    using assms by (intro ovni_payload_size_prefix) (auto simp: ev_at_bytes ev_wf_def)
  then show "ovni_ev_size (ev_at (ev_bytes ev @ rest)) = int (length (ev_bytes ev))"
    using ev_wf_size [OF assms] by (simp add: ovni_ev_size_def)
  show "oe_clock (ev_at (ev_bytes ev @ rest)) = oe_clock ev" by (simp add: ev_at_bytes)
  have "nat (ovni_payload_size ev) = length (oe_payload ev)" using assms by (simp add: ev_wf_def)
  with size show "ev_trim (ev_at (ev_bytes ev @ rest)) = ev" by (simp add: ev_trim_def ev_at_bytes)
qed

text \<open>The part of a stream from an offset on.\<close>

definition stream_holds :: "stream \<Rightarrow> nat \<Rightarrow> ovni_ev list \<Rightarrow> bool" where
  "stream_holds s off evs \<longleftrightarrow> st_size s = int (length (st_buf s)) \<and> off \<le> length (st_buf s)
     \<and> drop off (st_buf s) = concat (map ev_bytes evs)"

lemma stream_holds_Cons:
  assumes "stream_holds s off (ev # evs)"
  shows "stream_holds s (off + length (ev_bytes ev)) evs" "drop off (st_buf s) = ev_bytes ev @ concat (map ev_bytes evs)"
    "off + length (ev_bytes ev) \<le> length (st_buf s)"
proof -
  show d: "drop off (st_buf s) = ev_bytes ev @ concat (map ev_bytes evs)" using assms by (simp add: stream_holds_def)
  then have "length (st_buf s) - off = length (ev_bytes ev) + length (concat (map ev_bytes evs))"
    by (metis length_append length_drop)
  moreover have "off \<le> length (st_buf s)" using assms by (simp add: stream_holds_def)
  ultimately show le: "off + length (ev_bytes ev) \<le> length (st_buf s)" by linarith
  have "drop (off + length (ev_bytes ev)) (st_buf s) = drop (length (ev_bytes ev)) (drop off (st_buf s))"
    by (simp only: drop_drop add.commute)
  also have "\<dots> = concat (map ev_bytes evs)" by (simp add: d)
  finally show "stream_holds s (off + length (ev_bytes ev)) evs" using assms le by (simp add: stream_holds_def)
qed

text \<open>Loading the event at the offset.\<close>

lemma stream_load_ev_ok:
  assumes h: "stream_holds s off (ev # evs)" and off: "st_offset s = int off" and wf: "ev_wf ev"
    and clock: "st_unsorted s \<or> st_lastclock s \<le> stream_evclock ev s"
  shows "stream_load_ev s = Inr (False, s\<lparr>st_cur_ev := Some (int off),
      st_deltaclock := c_int64 (stream_evclock ev s - st_lastclock s), st_lastclock := stream_evclock ev s\<rparr>)"
proof -
  note e = ev_at_wf [OF wf, of "concat (map ev_bytes evs)"] and c = stream_holds_Cons [OF h]
  have at: "stream_at (int off) s = ev_at (ev_bytes ev @ concat (map ev_bytes evs))"
    by (simp only: stream_at_def nat_int c(2))
  then have "stream_evclock (stream_at (int off) s) s = stream_evclock ev s"
    by (simp only: stream_evclock_def ovni_ev_get_clock_def e(3))
  moreover have "int off + ovni_ev_size (stream_at (int off) s) \<le> st_size s"
    using c(3) h by (simp add: at e(2) stream_holds_def del: ev_bytes_length)
  ultimately show ?thesis using off clock by (auto simp: stream_load_ev_def Let_def)
qed

text \<open>The clocks of the events in the time of the emulator.\<close>

definition clocks_ok :: "stream \<Rightarrow> ovni_ev list \<Rightarrow> bool" where
  "clocks_ok s evs \<longleftrightarrow> st_unsorted s \<or> sorted (st_lastclock s # map (\<lambda>ev. stream_evclock ev s) evs)"

text \<open>A stream that is at the first of the events \<open>evs\<close>, the last of the file.\<close>

definition stream_ready :: "stream \<Rightarrow> ovni_ev list \<Rightarrow> bool" where
  "stream_ready s evs \<longleftrightarrow> evs \<noteq> [] \<and> st_active s \<and> (\<forall>e \<in> set evs. ev_wf e) \<and> clocks_ok s (tl evs)
     \<and> st_lastclock s = stream_evclock (hd evs) s
     \<and> (\<exists>off. st_cur_ev s = Some (int off) \<and> st_offset s = int off \<and> stream_holds s off evs)"

lemma stream_ready_size:
  assumes "stream_holds s off (ev # evs)" and "ev_wf ev"
  shows "ovni_ev_size (stream_at (int off) s) = int (length (ev_bytes ev))" "ev_trim (stream_at (int off) s) = ev"
proof -
  have "stream_at (int off) s = ev_at (ev_bytes ev @ concat (map ev_bytes evs))"
    by (simp only: stream_at_def nat_int stream_holds_Cons(2) [OF assms(1)])
  then show "ovni_ev_size (stream_at (int off) s) = int (length (ev_bytes ev))" "ev_trim (stream_at (int off) s) = ev"
    using ev_at_wf(2,4) [OF assms(2)] by (simp_all del: ev_bytes_length)
qed

lemma stream_ready_ev: "stream_ready s (ev # evs) \<Longrightarrow> \<exists>e. stream_ev s = Some e \<and> ev_trim e = ev"
  using stream_ready_size(2) by (auto simp: stream_ready_def stream_ev_def)

lemma stream_step_last:
  assumes "stream_ready s [ev]"
  shows "stream_step s = Inr (True, s\<lparr>st_offset := st_size s, st_active := False, st_cur_ev := None\<rparr>)"
proof -
  from assms obtain off where off: "st_cur_ev s = Some (int off)" "st_offset s = int off" and h: "stream_holds s off [ev]"
    and wf: "ev_wf ev" "st_active s" by (auto simp: stream_ready_def)
  have "int off + int (length (ev_bytes ev)) = st_size s"
    using stream_holds_Cons(1) [OF h] by (auto simp: stream_holds_def simp del: ev_bytes_length)
  then show ?thesis using off wf stream_ready_size(1) [OF h wf(1)] by (simp add: stream_step_def Let_def)
qed

lemma stream_step_next:
  assumes "stream_ready s (ev # e # evs)"
  shows "\<exists>s'. stream_step s = Inr (False, s') \<and> stream_ready s' (e # evs) \<and> st_clock_offset s' = st_clock_offset s
    \<and> st_unsorted s' = st_unsorted s \<and> st_buf s' = st_buf s"
proof -
  from assms obtain off where off: "st_cur_ev s = Some (int off)" "st_offset s = int off" "st_active s"
    and h0: "stream_holds s off (ev # e # evs)" and wf: "ev_wf ev" "ev_wf e" "\<forall>x \<in> set evs. ev_wf x"
    and clocks: "clocks_ok s (e # evs)" by (auto simp: stream_ready_def)
  let ?off = "off + length (ev_bytes ev)"
  let ?s = "s\<lparr>st_offset := int ?off\<rparr>"
  let ?s' = "?s\<lparr>st_cur_ev := Some (int ?off), st_deltaclock := c_int64 (stream_evclock e ?s - st_lastclock ?s),
      st_lastclock := stream_evclock e ?s\<rparr>"
  have clk: "stream_evclock x ?s = stream_evclock x s" "stream_evclock x ?s' = stream_evclock x s" for x
    by (simp_all add: stream_evclock_def)
  have h: "stream_holds ?s ?off (e # evs)" using stream_holds_Cons(1) [OF h0] by (simp add: stream_holds_def)
  have lt: "?off < length (st_buf s)"
  proof -
    have "0 < length (ev_bytes e)" by (simp add: ev_header_size_def)
    moreover have "?off + length (ev_bytes e) \<le> length (st_buf s)"
      using stream_holds_Cons(3) [OF h] by (simp del: ev_bytes_length)
    ultimately show ?thesis by linarith
  qed
  have load: "stream_load_ev ?s = Inr (False, ?s')"
    using stream_load_ev_ok [OF h _ wf(2)] clocks clk by (auto simp: clocks_ok_def simp del: ev_bytes_length)
  then have "stream_step s = Inr (False, ?s')"
    using off h0 stream_ready_size(1) [OF h0 wf(1)] lt
    by (simp add: stream_step_def Let_def stream_holds_def del: ev_bytes_length)
  moreover have h': "st_cur_ev ?s' = Some (int ?off) \<and> st_offset ?s' = int ?off \<and> stream_holds ?s' ?off (e # evs)"
    using h by (simp add: stream_holds_def)
  have "clocks_ok ?s' evs" "st_lastclock ?s' = stream_evclock e ?s'" "st_active ?s'"
    using clocks clk off(3) by (auto simp: clocks_ok_def)
  then have "stream_ready ?s' (e # evs)"
    unfolding stream_ready_def list.sel using wf h' by (intro conjI exI [of _ ?off]) (simp_all del: ev_bytes_length)
  ultimately show ?thesis by (intro exI [of _ ?s']) simp
qed

lemma stream_read_from: "stream_ready s (ev # evs) \<Longrightarrow> length evs < n \<Longrightarrow> stream_read n s = Inr evs"
proof (induction evs arbitrary: n s ev)
  case Nil
  then show ?case using stream_step_last [of s ev] by (cases n) simp_all
next
  case (Cons e evs)
  from stream_step_next [OF Cons.prems(1)] obtain s' where s': "stream_step s = Inr (False, s')" "stream_ready s' (e # evs)"
    by blast
  obtain m where m: "n = Suc m" "length evs < m" using Cons.prems(2) by (cases n) auto
  from stream_ready_ev [OF s'(2)] Cons.IH [OF s'(2) m(2)] s'(1) m(1) show ?case by auto
qed

text \<open>The first step on a stream just loaded.\<close>

lemma stream_step_first:
  assumes h: "stream_holds s off (e # rest)" and s: "st_offset s = int off" "st_cur_ev s = None" "st_active s"
    and wf: "\<forall>x \<in> set (e # rest). ev_wf x" and clocks: "clocks_ok s (e # rest)"
  shows "\<exists>s'. stream_step s = Inr (False, s') \<and> stream_ready s' (e # rest) \<and> st_unsorted s' = st_unsorted s
    \<and> st_clock_offset s' = st_clock_offset s"
proof -
  let ?s = "s\<lparr>st_cur_ev := Some (int off), st_deltaclock := c_int64 (stream_evclock e s - st_lastclock s),
      st_lastclock := stream_evclock e s\<rparr>"
  have clk: "stream_evclock x ?s = stream_evclock x s" for x by (simp add: stream_evclock_def)
  have "stream_step s = Inr (False, ?s)"
    using stream_load_ev_ok [OF h s(1)] wf clocks s by (auto simp: stream_step_def clocks_ok_def)
  moreover have "stream_holds ?s off (e # rest)" using h by (simp add: stream_holds_def)
  then have "stream_ready ?s (e # rest)" using s wf clocks clk by (auto simp: stream_ready_def clocks_ok_def)
  ultimately show ?thesis by (intro exI [of _ ?s]) simp
qed

lemma stream_header_ok: "check_stream_header (stream_header @ rest) = Inr ()" "length stream_header = 8"
proof -
  show len: "length stream_header = 8" by (simp add: stream_header_def)
  have "rd_u 4 4 (map char_byte ''ovni'' @ le_enc 4 1 @ rest) = 1" by (rule rd_u_enc) simp_all
  then show "check_stream_header (stream_header @ rest) = Inr ()"
    by (simp add: check_stream_header_def stream_header_def)
qed

lemma load_obs_header:
  "load_obs (stream_header @ rest) = Inr \<lparr>st_buf = stream_header @ rest, st_size = int (8 + length rest),
     st_usize = int (length rest), st_offset = 8, st_cur_ev = None, st_lastclock = 0, st_deltaclock = 0,
     st_clock_offset = 0, st_active = (rest \<noteq> []), st_unsorted = False\<rparr>"
proof -
  have "stream_header \<noteq> []" using stream_header_ok(2) by auto
  then show ?thesis by (simp add: load_obs_def stream_header_ok)
qed

lemma stream_loaded:
  assumes "load_obs (stream_header @ concat (map ev_bytes evs)) = Inr s0" and "stream_clkoff_set clkoff s0 = Inr s"
  shows "stream_holds s 8 evs" "st_offset s = int 8" "st_cur_ev s = None" "st_active s \<longleftrightarrow> evs \<noteq> []"
    "st_lastclock s = 0" "st_clock_offset s = clkoff" "\<not> st_unsorted s"
proof -
  have "concat (map ev_bytes evs) = [] \<longleftrightarrow> evs = []" by (cases evs) (auto simp: ev_bytes_def)
  then show "stream_holds s 8 evs" "st_offset s = int 8" "st_cur_ev s = None" "st_active s \<longleftrightarrow> evs \<noteq> []"
    "st_lastclock s = 0" "st_clock_offset s = clkoff" "\<not> st_unsorted s"
    using assms by (auto simp: load_obs_header stream_clkoff_set_def stream_holds_def stream_header_ok split: if_splits)
qed

lemma stream_read_loaded:
  assumes wf: "\<forall>e \<in> set evs. ev_wf e" and ne: "evs \<noteq> []"
    and load: "load_obs (stream_header @ concat (map ev_bytes evs)) = Inr s0"
    and off: "stream_clkoff_set clkoff s0 = Inr s"
    and clocks: "clocks_ok s evs"
  shows "stream_read (Suc (length evs)) s = Inr evs"
proof -
  obtain e rest where evs: "evs = e # rest" using ne by (cases evs) auto
  from stream_loaded [OF load off] have h: "stream_holds s 8 (e # rest)" and s: "st_offset s = int 8" "st_cur_ev s = None" "st_active s"
    by (auto simp: evs)
  obtain s' where s': "stream_step s = Inr (False, s')" "stream_ready s' (e # rest)"
    using stream_step_first [OF h s] wf clocks evs by blast
  define k where "k = length evs"
  have "stream_read k s' = Inr rest" by (rule stream_read_from [OF s'(2)]) (simp add: evs k_def)
  with stream_ready_ev [OF s'(2)] s'(1) have "stream_read (Suc k) s = Inr (e # rest)" by auto
  then show ?thesis by (simp only: k_def evs)
qed

text \<open>C14. A file with the header of a stream followed by well formed events is read back event by event: stepping
  the stream gives exactly those events in order, with their payloads, and then the end. It needs the clocks,
  corrected with the offset of the stream, not to go backwards.\<close>

theorem stream_read_back:
  assumes wf: "\<forall>e \<in> set evs. ev_wf e" and ne: "evs \<noteq> []"
    and load: "load_obs (stream_header @ concat (map ev_bytes evs)) = Inr s0"
    and off: "stream_clkoff_set clkoff s0 = Inr s"
    and clocks: "clocks_ok s evs"
  shows "stream_read (Suc (length evs)) s = Inr evs"
  using stream_read_loaded [OF assms] .

definition demo_evs :: "ovni_ev list" where
  "demo_evs = [demo_ev\<lparr>oe_payload := []\<rparr>, demo_ev\<lparr>oe_flags := 3, oe_clock := 80, oe_payload := [1, 2, 3, 4]\<rparr>]"

lemma demo_evs_ok: "\<forall>e \<in> set demo_evs. ev_wf e" "demo_evs \<noteq> []" "length demo_evs = 2"
  by (simp_all add: demo_evs_def ev_wf_def ovni_payload_size_def is_jumbo_flag_def OVNI_EV_JUMBO_def demo_ev_def
      ovni_ev_set_mcv_def ovni_ev_set_clock_def)

theorem stream_read_back_witness:
  "\<exists>s0 s. load_obs (stream_header @ concat (map ev_bytes demo_evs)) = Inr s0
     \<and> stream_clkoff_set (-70) s0 = Inr s \<and> stream_read 3 s = Inr demo_evs"
proof -
  obtain s0 where s0: "load_obs (stream_header @ concat (map ev_bytes demo_evs)) = Inr s0"
    and f: "st_cur_ev s0 = None" "st_clock_offset s0 = 0" "st_lastclock s0 = 0"
    by (simp add: load_obs_header)
  let ?s = "s0\<lparr>st_clock_offset := -70\<rparr>"
  have off: "stream_clkoff_set (-70) s0 = Inr ?s" using f by (simp add: stream_clkoff_set_def)
  have "clocks_ok ?s demo_evs"
    using f by (simp add: clocks_ok_def demo_evs_def demo_ev_def stream_evclock_def ovni_ev_get_clock_def
        ovni_ev_set_clock_def)
  from stream_read_back [OF demo_evs_ok(1,2) s0 off this] s0 off show ?thesis
    by (auto simp: demo_evs_ok(3) numeral_3_eq_3)
qed

subsection \<open>What a step guarantees\<close>

text \<open>The invariant of a stream: the offset is inside of the buffer and, if there is a current event, at it.\<close>

definition stream_wf :: "stream \<Rightarrow> bool" where
  "stream_wf s \<longleftrightarrow> st_size s = int (length (st_buf s)) \<and> 0 \<le> st_offset s \<and> st_offset s \<le> st_size s
     \<and> (st_active s \<longrightarrow> st_offset s < st_size s)
     \<and> (\<forall>cur. st_cur_ev s = Some cur \<longrightarrow> cur = st_offset s \<and> st_active s
          \<and> cur + ovni_ev_size (stream_at cur s) \<le> st_size s \<and> st_lastclock s = stream_evclock (stream_at cur s) s)"

lemma load_obs_wf: "load_obs file = Inr s \<Longrightarrow> stream_wf s"
  by (auto simp: load_obs_def stream_wf_def check_stream_header_def split: if_splits)

lemma stream_clkoff_set_wf: "stream_wf s \<Longrightarrow> stream_clkoff_set off s = Inr s' \<Longrightarrow> stream_wf s'"
  by (auto simp: stream_wf_def stream_clkoff_set_def split: if_splits)

lemma stream_allow_unsorted_wf: "stream_wf s \<Longrightarrow> stream_wf (stream_allow_unsorted s)"
  by (auto simp: stream_wf_def stream_allow_unsorted_def stream_at_def stream_evclock_def)

lemma stream_at_cong: "st_buf s' = st_buf s \<Longrightarrow> stream_at off s' = stream_at off s"
  by (simp add: stream_at_def)

lemma stream_load_ev_wf:
  assumes ok: "stream_load_ev s = Inr (ended, s')" and size: "st_size s = int (length (st_buf s))"
    and act: "st_active s" and le: "st_offset s < st_size s"
  shows "\<not> ended \<and> stream_wf s' \<and> st_cur_ev s' = Some (st_offset s) \<and> st_offset s' = st_offset s
    \<and> st_buf s' = st_buf s \<and> st_size s' = st_size s \<and> st_clock_offset s' = st_clock_offset s \<and> st_unsorted s' = st_unsorted s
    \<and> st_active s' \<and> st_lastclock s' = stream_evclock (stream_at (st_offset s) s) s
    \<and> (\<not> st_unsorted s \<longrightarrow> st_lastclock s \<le> st_lastclock s')"
  using ok size act le
  by (auto simp: stream_load_ev_def stream_wf_def Let_def stream_at_def stream_evclock_def split: if_splits)

lemma stream_step_wf:
  assumes wf: "stream_wf s" and ok: "stream_step s = Inr (ended, s')"
  shows "stream_wf s' \<and> st_buf s' = st_buf s \<and> st_clock_offset s' = st_clock_offset s \<and> st_unsorted s' = st_unsorted s
    \<and> st_size s' = st_size s"
proof (cases "st_cur_ev s")
  case None
  with ok have "stream_load_ev s = Inr (ended, s')" by (auto simp: stream_step_def split: if_splits)
  from stream_load_ev_wf [OF this] wf ok show ?thesis by (auto simp: stream_wf_def stream_step_def split: if_splits)
next
  case (Some cur)
  let ?off = "st_offset s + ovni_ev_size (stream_at cur s)"
  show ?thesis
  proof (cases "?off = st_size s")
    case True
    then show ?thesis using ok wf Some by (auto simp: stream_step_def Let_def stream_wf_def split: if_splits)
  next
    case False
    with ok Some have "stream_load_ev (s\<lparr>st_offset := ?off\<rparr>) = Inr (ended, s')" "st_active s" "?off < st_size s"
      by (auto simp: stream_step_def Let_def split: if_splits)
    from stream_load_ev_wf [OF this(1)] this(2,3) wf show ?thesis by (auto simp: stream_wf_def)
  qed
qed

lemma stream_step_event':
  assumes wf: "stream_wf s" and ok: "stream_step s = Inr (ended, s')"
  shows "if ended then st_offset s' = st_size s \<and> \<not> st_active s' \<and> st_cur_ev s' = None
    else \<exists>off. st_cur_ev s' = Some off \<and> 0 \<le> off \<and> off < int (length (st_buf s))
      \<and> off + ovni_ev_size (stream_at off s) \<le> int (length (st_buf s))
      \<and> st_lastclock s' = stream_evclock (stream_at off s) s \<and> (\<not> st_unsorted s \<longrightarrow> st_lastclock s \<le> st_lastclock s')"
proof -
  have load: "\<not> ended \<and> (\<exists>off. st_cur_ev s' = Some off \<and> 0 \<le> off \<and> off < int (length (st_buf s))
      \<and> off + ovni_ev_size (stream_at off s) \<le> int (length (st_buf s))
      \<and> st_lastclock s' = stream_evclock (stream_at off s) s \<and> (\<not> st_unsorted s \<longrightarrow> st_lastclock s \<le> st_lastclock s'))"
    if l: "stream_load_ev (s\<lparr>st_offset := off\<rparr>) = Inr (ended, s')" "off < st_size s" "st_active s" for off
  proof -
    have e: "stream_at x (s\<lparr>st_offset := off\<rparr>) = stream_at x s"
      "stream_evclock y (s\<lparr>st_offset := off\<rparr>) = stream_evclock y s" for x y
      by (simp_all add: stream_at_def stream_evclock_def)
    have sz: "st_size s = int (length (st_buf s))" using wf by (simp add: stream_wf_def)
    note w = stream_load_ev_wf [OF l(1)]
    have "st_buf s' = st_buf s" "st_clock_offset s' = st_clock_offset s" using w l sz by simp_all
    then have e': "stream_at x s' = stream_at x s" "stream_evclock y s' = stream_evclock y s" for x y
      by (simp_all add: stream_at_def stream_evclock_def)
    have "stream_wf s'" "\<not> ended" and cur: "st_cur_ev s' = Some off" and clk: "st_lastclock s' = stream_evclock (stream_at off s) s"
      "\<not> st_unsorted s \<longrightarrow> st_lastclock s \<le> st_lastclock s'" "st_size s' = int (length (st_buf s))"
      using w l sz e by auto
    moreover from this have "0 \<le> off" "off + ovni_ev_size (stream_at off s) \<le> int (length (st_buf s))"
      using e'(1) by (auto simp: stream_wf_def)
    ultimately show ?thesis using l(2) sz by simp
  qed
  show ?thesis
  proof (cases "st_cur_ev s")
    case None
    have "s\<lparr>st_offset := st_offset s\<rparr> = s" by simp
    with load [of "st_offset s"] None ok wf show ?thesis
      by (auto simp: stream_step_def stream_wf_def split: if_splits)
  next
    case (Some cur)
    show ?thesis
    proof (cases "st_offset s + ovni_ev_size (stream_at cur s) = st_size s")
      case True
      then show ?thesis using ok Some by (auto simp: stream_step_def Let_def split: if_splits)
    next
      case False
      with ok Some have "stream_load_ev (s\<lparr>st_offset := st_offset s + ovni_ev_size (stream_at cur s)\<rparr>) = Inr (ended, s')"
        "st_active s" "st_offset s + ovni_ev_size (stream_at cur s) < st_size s"
        by (auto simp: stream_step_def Let_def split: if_splits)
      from load [OF this(1,3,2)] show ?thesis by simp
    qed
  qed
qed

text \<open>C24. A step that does not end a stream leaves a current event that lies inside of the file, its last clock is
  the corrected clock of that event and, unless the stream was allowed to be unsorted, it is not before the
  previous one. A step that ends it has consumed the file exactly.\<close>

theorem stream_step_event:
  assumes wf: "stream_wf s" and ok: "stream_step s = Inr (ended, s')"
  shows "if ended then st_offset s' = st_size s \<and> \<not> st_active s' \<and> st_cur_ev s' = None
    else \<exists>off. st_cur_ev s' = Some off \<and> 0 \<le> off \<and> off < int (length (st_buf s))
      \<and> off + ovni_ev_size (stream_at off s) \<le> int (length (st_buf s))
      \<and> st_lastclock s' = stream_evclock (stream_at off s) s \<and> (\<not> st_unsorted s \<longrightarrow> st_lastclock s \<le> st_lastclock s')"
  using stream_step_event' [OF assms] .

theorem stream_step_event_witness:
  "\<exists>s s' off. load_obs (stream_header @ concat (map ev_bytes demo_evs)) = Inr s
     \<and> stream_step s = Inr (False, s') \<and> st_cur_ev s' = Some off \<and> off + ovni_ev_size (stream_at off s) \<le> st_size s"
proof -
  let ?file = "stream_header @ concat (map ev_bytes demo_evs)"
  obtain s where s: "load_obs ?file = Inr s" by (simp add: load_obs_header)
  then have f: "st_buf s = ?file" "st_size s = int (length ?file)" "st_offset s = int 8" "st_cur_ev s = None"
    "st_active s" "st_lastclock s = 0" "st_clock_offset s = 0"
    by (auto simp: load_obs_header stream_header_ok demo_evs_def ev_header_size_def ev_bytes_def)
  obtain e evs where evs: "demo_evs = e # evs" "e = demo_ev\<lparr>oe_payload := []\<rparr>" by (simp add: demo_evs_def)
  have h: "stream_holds s 8 (e # evs)" using f by (simp add: stream_holds_def stream_header_ok evs(1))
  have wf: "ev_wf e" using demo_evs_ok(1) unfolding evs(1) by (meson list.set_intros(1))
  have clk: "st_unsorted s \<or> st_lastclock s \<le> stream_evclock e s"
    using f evs(2) by (simp add: stream_evclock_def ovni_ev_get_clock_def demo_ev_def ovni_ev_set_clock_def)
  from stream_load_ev_ok [OF h f(3) wf clk] obtain s' where s': "stream_step s = Inr (False, s')"
    using f by (simp add: stream_step_def)
  from stream_step_event [OF load_obs_wf [OF s] s'] s s' f show ?thesis by (auto simp del: ev_bytes_length)
qed

text \<open>The check of the clocks is the only thing that distinguishes a stream that must be sorted.\<close>

lemma stream_load_ev_allow:
  assumes "stream_load_ev (stream_allow_unsorted s) = Inr (ended, s')"
  shows "stream_load_ev s = Inl (EStream StreamClockBackwards)
    \<or> (\<exists>s1. stream_load_ev s = Inr (ended, s1) \<and> s' = stream_allow_unsorted s1)"
proof -
  let ?ev = "stream_at (st_offset s) s"
  have eq: "stream_at off (stream_allow_unsorted s) = stream_at off s"
    "stream_evclock e (stream_allow_unsorted s) = stream_evclock e s" for off e
    by (simp_all add: stream_allow_unsorted_def stream_at_def stream_evclock_def)
  have f: "st_offset (stream_allow_unsorted s) = st_offset s" "st_size (stream_allow_unsorted s) = st_size s"
    "st_unsorted (stream_allow_unsorted s)" "st_lastclock (stream_allow_unsorted s) = st_lastclock s"
    by (simp_all add: stream_allow_unsorted_def)
  show ?thesis
  proof (cases "stream_evclock ?ev s < st_lastclock s \<and> \<not> st_unsorted s")
    case True
    with assms show ?thesis unfolding stream_load_ev_def Let_def eq f by (simp split: if_splits)
  next
    case False
    with assms show ?thesis unfolding stream_load_ev_def Let_def eq f
      by (simp add: stream_allow_unsorted_def split: if_splits) auto
  qed
qed

lemma stream_step_allow:
  assumes "stream_step (stream_allow_unsorted s) = Inr (ended, s')"
  shows "stream_step s = Inl (EStream StreamClockBackwards)
    \<or> (\<exists>s1. stream_step s = Inr (ended, s1) \<and> s' = stream_allow_unsorted s1)"
proof (cases "st_cur_ev s")
  case None
  with assms have "stream_load_ev (stream_allow_unsorted s) = Inr (ended, s')" "st_active s"
    by (simp_all add: stream_step_def stream_allow_unsorted_def split: if_splits)
  with stream_load_ev_allow [OF this(1)] None show ?thesis by (simp add: stream_step_def)
next
  case (Some cur)
  let ?off = "st_offset s + ovni_ev_size (stream_at cur s)"
  let ?s1 = "s\<lparr>st_offset := ?off\<rparr>"
  have at: "stream_at cur (stream_allow_unsorted s) = stream_at cur s"
    by (simp add: stream_allow_unsorted_def stream_at_def)
  have upd: "(stream_allow_unsorted s)\<lparr>st_offset := x\<rparr> = stream_allow_unsorted (s\<lparr>st_offset := x\<rparr>)" for x
    by (simp add: stream_allow_unsorted_def)
  have f: "st_offset (stream_allow_unsorted s) = st_offset s" "st_size (stream_allow_unsorted s) = st_size s"
    "st_active (stream_allow_unsorted s) = st_active s" "st_cur_ev (stream_allow_unsorted s) = st_cur_ev s"
    by (simp_all add: stream_allow_unsorted_def)
  have act: "st_active s" "?off \<le> st_size s"
    using assms unfolding stream_step_def Let_def f Some option.case at by (auto split: if_splits)
  show ?thesis
  proof (cases "?off = st_size s")
    case True
    with assms act show ?thesis unfolding stream_step_def Let_def f Some option.case at
      by (simp add: stream_allow_unsorted_def) auto
  next
    case False
    with assms act have "stream_load_ev (stream_allow_unsorted ?s1) = Inr (ended, s')"
      unfolding stream_step_def Let_def f Some option.case at upd by simp
    from stream_load_ev_allow [OF this] False act show ?thesis
      unfolding stream_step_def Let_def Some option.case by simp
  qed
qed

lemma stream_read_allow:
  "stream_read n (stream_allow_unsorted s) = Inr es \<Longrightarrow>
     stream_read n s = Inr es \<or> stream_read n s = Inl (EStream StreamClockBackwards)"
proof (induction n arbitrary: s es)
  case (Suc n)
  then obtain ended s' where step: "stream_step (stream_allow_unsorted s) = Inr (ended, s')" by auto
  have ev: "stream_ev (stream_allow_unsorted x) = stream_ev x" for x
    by (simp add: stream_ev_def stream_allow_unsorted_def stream_at_def)
  from stream_step_allow [OF step] show ?case
  proof
    assume "\<exists>s1. stream_step s = Inr (ended, s1) \<and> s' = stream_allow_unsorted s1"
    then obtain s1 where s1: "stream_step s = Inr (ended, s1)" "s' = stream_allow_unsorted s1" by blast
    show ?thesis
    proof (cases ended)
      case True
      with Suc.prems step s1 show ?thesis by auto
    next
      case False
      with Suc.prems step s1 ev obtain evs where evs: "stream_read n (stream_allow_unsorted s1) = Inr evs"
        "es = map ev_trim (case stream_ev s1 of None \<Rightarrow> [] | Some ev \<Rightarrow> [ev]) @ evs" by auto
      from Suc.IH [OF evs(1)] False s1 evs(2) show ?thesis by auto
    qed
  qed simp
qed simp

lemma stream_read_sorted:
  assumes "stream_wf s" and "\<not> st_unsorted s" and "stream_read n s = Inr es"
  shows "sorted (st_lastclock s # map (\<lambda>e. stream_evclock e s) es)"
  using assms
proof (induction n arbitrary: s es)
  case (Suc n)
  then obtain ended s' where step: "stream_step s = Inr (ended, s')" by auto
  show ?case
  proof (cases ended)
    case True
    with Suc.prems step show ?thesis by auto
  next
    case False
    note w = stream_step_wf [OF Suc.prems(1) step]
    have eq: "stream_evclock e s' = stream_evclock e s" "stream_at off s' = stream_at off s" for e off
      using w by (simp_all add: stream_evclock_def stream_at_def)
    from stream_step_event' [OF Suc.prems(1) step] False Suc.prems(2) obtain off where
      off: "st_cur_ev s' = Some off" "st_lastclock s' = stream_evclock (stream_at off s) s" "st_lastclock s \<le> st_lastclock s'"
      by auto
    have trim: "stream_evclock (ev_trim e) s = stream_evclock e s" for e
      by (simp add: stream_evclock_def ev_trim_def ovni_ev_get_clock_def)
    from off(1) eq have ev: "stream_ev s' = Some (stream_at off s)" by (simp add: stream_ev_def)
    with Suc.prems(3) step False obtain evs where evs: "stream_read n s' = Inr evs" "es = ev_trim (stream_at off s) # evs" by auto
    have "sorted (st_lastclock s' # map (\<lambda>e. stream_evclock e s') evs)" using w Suc.prems(2) evs(1) by (intro Suc.IH) auto
    then show ?thesis using evs(2) off(2,3) trim eq by auto
  qed
qed simp

text \<open>Without jumbo events every step moves forward, so a stream ends after at most as many steps as bytes.
  With one it may not.\<close>

lemma ovni_ev_size_normal: "\<not> is_jumbo_flag ev \<Longrightarrow> 12 \<le> ovni_ev_size ev"
  using ovni_payload_size_normal [of ev] by (auto simp: ovni_ev_size_def ev_header_size_def)

text \<open>C37. A stream whose current event is a jumbo event that declares 4294967280 bytes never advances: the size of the
  event is computed as 0, so the step succeeds, passes every check and stays on the same event.\<close>

theorem stream_step_stuck:
  assumes "stream_wf s" and "stream_ev s = Some ev" and "is_jumbo_flag ev" and "rd_u 4 0 (oe_payload ev) = 4294967280"
  shows "stream_step s = Inr (False, s\<lparr>st_deltaclock := 0\<rparr>)"
proof -
  from assms obtain off where off: "st_cur_ev s = Some off" "ev = stream_at off s" by (auto simp: stream_ev_def)
  have "ovni_ev_size ev = 0"
    using assms(3,4) by (simp add: ovni_ev_size_def ovni_payload_size_def get_jumbo_payload_size_def c_int_def
        ev_header_size_def)
  then show ?thesis using assms(1) off
    by (auto simp: stream_step_def stream_load_ev_def stream_wf_def Let_def stream_at_def stream_evclock_def)
qed

definition demo_stuck :: stream where
  "demo_stuck = \<lparr>st_buf = replicate 8 0 @ [0x10] @ replicate 11 0 @ [0xf0, 0xff, 0xff, 0xff], st_size = 24,
     st_usize = 16, st_offset = 8, st_cur_ev = Some 8, st_lastclock = 0, st_deltaclock = 5, st_clock_offset = 0,
     st_active = True, st_unsorted = False\<rparr>"

theorem stream_step_stuck_witness:
  "\<exists>ev. stream_ev demo_stuck = Some ev \<and> stream_step demo_stuck = Inr (False, demo_stuck\<lparr>st_deltaclock := 0\<rparr>)"
proof -
  let ?bs = "[0x10] @ replicate 11 0 @ [0xf0, 0xff, 0xff, 0xff] :: byte list"
  have buf: "drop 8 (st_buf demo_stuck) = ?bs" by (simp only: demo_stuck_def stream.select_convs drop_append) simp
  have at: "stream_at 8 demo_stuck = ev_at ?bs" by (simp only: stream_at_def nat_numeral buf)
  have "drop 12 ?bs = [0xf0, 0xff, 0xff, 0xff]" by (simp only: drop_append) simp
  then have p: "oe_payload (ev_at ?bs) = [0xf0, 0xff, 0xff, 0xff]" by (simp add: ev_at_def ev_header_size_def)
  have j: "is_jumbo_flag (ev_at ?bs)" by (simp add: is_jumbo_flag_def ev_at_def byte_at_def OVNI_EV_JUMBO_def)
  have r: "rd_u 4 0 (oe_payload (ev_at ?bs)) = 4294967280" unfolding p by (simp add: rd_u_def)
  have ev: "stream_ev demo_stuck = Some (ev_at ?bs)" 
  proof -
    have "st_cur_ev demo_stuck = Some 8" by (simp add: demo_stuck_def)
    then show ?thesis by (simp only: stream_ev_def option.map at)
  qed
  have "oe_clock (ev_at ?bs) = 0" by (simp add: ev_at_def rd_u_def numeral_eq_Suc)
  moreover have "ovni_ev_size (ev_at ?bs) = 0"
    using j r by (simp add: ovni_ev_size_def ovni_payload_size_def get_jumbo_payload_size_def c_int_def
        ev_header_size_def)
  ultimately have "stream_wf demo_stuck"
    unfolding stream_wf_def using at
    by (simp add: demo_stuck_def stream_evclock_def ovni_ev_get_clock_def)
  from stream_step_stuck [OF this ev j r] ev show ?thesis by blast
qed

end
