(* ===== verification/Rt.thy ===== *)
theory Rt
  imports Stream Json Cstr
begin

unbundle bit_operations_syntax

text \<open>
  The runtime that writes the events of a thread: \<^verbatim>\<open>src/rt/ovni.c\<close>.

  The record \<open>rt\<close> holds the state of the process (\<^verbatim>\<open>rproc\<close>), of one of its threads (\<^verbatim>\<open>rthread\<close>, which is local to
  the thread) and of the operating system as far as they use it: the answers of the clock and of \<^verbatim>\<open>write\<close> in the
  order of the calls, the file of the stream with the position of its descriptor, and the metadata on disk. The
  buffer \<open>rt_evbuf\<close> is the list of the \<^verbatim>\<open>evlen\<close> bytes filled with events. Every \<^verbatim>\<open>die\<close> is an error. \<^verbatim>\<open>write\<close> never
  takes more bytes than it is given; \<^verbatim>\<open>write_evbuf\<close> gets a call for each byte and one more, which is
  enough when every call takes at least one byte (\<open>writes_ok\<close>). \<^verbatim>\<open>ovni_ev_add\<close> and \<^verbatim>\<open>add_flush_events\<close> call each other; the
  depth \<open>add_depth\<close> is enough, because the events of a flush fit in the buffer that the flush has emptied
  (\<open>ovni_ev_add_ok\<close>, \<open>ovni_ev_add_jumbo_ok\<close>). The directories of the trace and their final location are left out.
\<close>

subsection \<open>State\<close>

datatype rproc_st = ST_UNINIT | ST_INIT | ST_READY | ST_GONE

record ovni_rcpu =
  rc_index :: int
  rc_phyid :: int

record rt =
  rp_st :: rproc_st
  rp_app :: int
  rp_pid :: int
  rp_loom :: string
  rt_tid :: int
  rt_ready :: bool
  rt_finished :: bool
  rt_evbuf :: "byte list"
  rt_cpus :: "ovni_rcpu list"
  rt_rank_set :: bool
  rt_rank :: int
  rt_nranks :: int
  rt_meta :: json_object
  os_clock :: "nat \<Rightarrow> (64 word \<times> 64 word) option"
  os_nclock :: nat
  os_write :: "nat \<Rightarrow> nat \<Rightarrow> int"
  os_nwrite :: nat
  os_file :: "byte list"
  os_pos :: nat
  os_json :: "json_object option"

definition OVNI_MAX_EV_BUF :: nat where
  "OVNI_MAX_EV_BUF = 2 * 1024 * 1024"

subsection \<open>Clock and file\<close>

definition clock_monotonic_now :: "rt \<Rightarrow> (64 word \<times> rt) res" where
  "clock_monotonic_now w =
     (case os_clock w (os_nclock w) of
        None \<Rightarrow> Inl (ERt RtClockFailed)
      | Some (sec, nsec) \<Rightarrow> Inr (sec * 1000000000 + nsec, w\<lparr>os_nclock := Suc (os_nclock w)\<rparr>))"

definition ovni_clock_now :: "rt \<Rightarrow> (64 word \<times> rt) res" where
  "ovni_clock_now w = clock_monotonic_now w"

text \<open>\<^verbatim>\<open>write\<close> puts the bytes at the position of the descriptor, over what the file has there. The file is
  opened without truncating it.\<close>

definition file_write :: "byte list \<Rightarrow> rt \<Rightarrow> rt" where
  "file_write bs w =
     w\<lparr>os_file := take (os_pos w) (os_file w) @ bs @ drop (os_pos w + length bs) (os_file w),
       os_pos := os_pos w + length bs\<rparr>"

fun write_evbuf :: "nat \<Rightarrow> byte list \<Rightarrow> rt \<Rightarrow> rt res" where
  "write_evbuf 0 buf w = Inl EFuel"
| "write_evbuf (Suc n) buf w =
     (let written = os_write w (os_nwrite w) (length buf); w1 = w\<lparr>os_nwrite := Suc (os_nwrite w)\<rparr> in
      if written < 0 then Inl (ERt RtWriteFailed)
      else let w2 = file_write (take (nat written) buf) w1; rest = drop (nat written) buf in
        if rest = [] then Inr w2 else write_evbuf n rest w2)"

definition flush_evbuf :: "rt \<Rightarrow> rt res" where
  "flush_evbuf w =
     rbind (write_evbuf (Suc (length (rt_evbuf w))) (rt_evbuf w) w) (\<lambda>w1. Inr (w1\<lparr>rt_evbuf := []\<rparr>))"

definition write_stream_header :: "rt \<Rightarrow> rt res" where
  "write_stream_header w = flush_evbuf (w\<lparr>rt_evbuf := stream_header\<rparr>)"

definition create_trace_stream :: "rt \<Rightarrow> rt" where
  "create_trace_stream w = w\<lparr>os_pos := 0\<rparr>"

subsection \<open>Events\<close>

definition ev_zero :: ovni_ev where
  "ev_zero = \<lparr>oe_flags = 0, oe_model = 0, oe_category = 0, oe_value = 0, oe_clock = 0, oe_payload = replicate 16 0\<rparr>"

definition ev_mcv :: "string \<Rightarrow> 64 word \<Rightarrow> ovni_ev" where
  "ev_mcv mcv clock = ovni_ev_set_mcv mcv (ovni_ev_set_clock clock ev_zero)"

text \<open>\<^verbatim>\<open>memcpy\<close> into the buffer.\<close>

definition evbuf_add :: "byte list \<Rightarrow> rt \<Rightarrow> rt" where
  "evbuf_add bs w = w\<lparr>rt_evbuf := rt_evbuf w @ bs\<rparr>"

definition add_flush_events :: "(ovni_ev \<Rightarrow> rt \<Rightarrow> rt res) \<Rightarrow> 64 word \<Rightarrow> 64 word \<Rightarrow> rt \<Rightarrow> rt res" where
  "add_flush_events add t0 t1 w = rbind (add (ev_mcv ''OF['' t0) w) (add (ev_mcv ''OF]'' t1))"

text \<open>The flush, with the times before and after, when \<open>size\<close> more bytes do not fit.\<close>

definition flush_if_full :: "nat \<Rightarrow> rt \<Rightarrow> ((64 word \<times> 64 word) option \<times> rt) res" where
  "flush_if_full sz w =
     (if length (rt_evbuf w) + sz \<ge> OVNI_MAX_EV_BUF then
        rbind (ovni_clock_now w) (\<lambda>(t0, w1).
        rbind (flush_evbuf w1) (\<lambda>w2.
        rbind (ovni_clock_now w2) (\<lambda>(t1, w3). Inr (Some (t0, t1), w3))))
      else Inr (None, w))"

text \<open>An event whose size is larger than the structure would be copied from memory that is not the event's: that is an
  error of the model.\<close>

fun ovni_ev_add :: "nat \<Rightarrow> ovni_ev \<Rightarrow> rt \<Rightarrow> rt res" where
  "ovni_ev_add 0 ev w = Inl EFuel"
| "ovni_ev_add (Suc n) ev w =
     (if \<not> rt_ready w then Inl (ERt RtNotReady)
      else let size = c_size (ovni_ev_size ev) in
        if size > length (ev_bytes ev) then Inl (ERt RtOverread)
        else rbind (flush_if_full size w) (\<lambda>(flushed, w1).
          let w2 = evbuf_add (take size (ev_bytes ev)) w1 in
          case flushed of
            None \<Rightarrow> Inr w2
          | Some (t0, t1) \<Rightarrow> add_flush_events (ovni_ev_add n) t0 t1 w2))"

definition add_depth :: nat where "add_depth = 3"

definition ovni_ev_emit :: "ovni_ev \<Rightarrow> rt \<Rightarrow> rt res" where
  "ovni_ev_emit ev w = ovni_ev_add add_depth ev w"

definition ovni_ev_add_jumbo :: "ovni_ev \<Rightarrow> byte list \<Rightarrow> rt \<Rightarrow> rt res" where
  "ovni_ev_add_jumbo ev0 buf w =
     (if \<not> rt_ready w then Inl (ERt RtNotReady)
      else if ovni_payload_size ev0 \<noteq> 0 then Inl (ERt RtPayloadNotEmpty)
      else rbind (ovni_payload_add (le_enc 4 (length buf)) ev0) (\<lambda>ev.
        let evsize = c_size (ovni_ev_size ev); totalsize = evsize + length buf in
        if totalsize \<ge> OVNI_MAX_EV_BUF then Inl (ERt RtEventTooLarge)
        else rbind (flush_if_full totalsize w) (\<lambda>(flushed, w1).
          let ev = ev\<lparr>oe_flags := oe_flags ev OR OVNI_EV_JUMBO\<rparr>;
              w2 = evbuf_add buf (evbuf_add (take evsize (ev_bytes ev)) w1) in
          case flushed of
            None \<Rightarrow> Inr w2
          | Some (t0, t1) \<Rightarrow> add_flush_events (ovni_ev_add add_depth) t0 t1 w2)))"

definition ovni_flush :: "rt \<Rightarrow> rt res" where
  "ovni_flush w =
     (if \<not> rt_ready w then Inl (ERt RtNotReady)
      else if rp_st w \<noteq> ST_READY then Inl (ERt RtProcNotReady)
      else rbind (ovni_clock_now w) (\<lambda>(t0, w1).
        rbind (flush_evbuf w1) (\<lambda>w2.
        rbind (ovni_clock_now w2) (\<lambda>(t1, w3).
        rbind (ovni_ev_add add_depth (ev_mcv ''OF['' t0) w3) (\<lambda>w4.
        ovni_ev_add add_depth (ev_mcv ''OF]'' t1) w4)))))"

text \<open>The events of marks: \<^verbatim>\<open>ovni_mark_push\<close>, \<^verbatim>\<open>ovni_mark_pop\<close> and \<^verbatim>\<open>ovni_mark_set\<close> differ in the code of the event only. The
  payload is the value in eight bytes and the type in four.\<close>

definition mark_emit :: "string \<Rightarrow> int \<Rightarrow> int \<Rightarrow> rt \<Rightarrow> rt res" where
  "mark_emit mcv type value w =
     (if value = 0 then Inl (ERt RtZeroValue)
      else rbind (ovni_clock_now w) (\<lambda>(t, w1).
        rbind (ovni_payload_add (le_enc 8 (nat (value mod 2 ^ 64))) (ev_mcv mcv t)) (\<lambda>ev1.
        rbind (ovni_payload_add (le_enc 4 (nat (type mod 2 ^ 32))) ev1) (\<lambda>ev2.
        ovni_ev_add add_depth ev2 w1))))"

definition ovni_mark_push :: "int \<Rightarrow> int \<Rightarrow> rt \<Rightarrow> rt res" where
  "ovni_mark_push = mark_emit ''OM[''"

definition ovni_mark_pop :: "int \<Rightarrow> int \<Rightarrow> rt \<Rightarrow> rt res" where
  "ovni_mark_pop = mark_emit ''OM]''"

definition ovni_mark_set :: "int \<Rightarrow> int \<Rightarrow> rt \<Rightarrow> rt res" where
  "ovni_mark_set = mark_emit ''OM=''"

subsection \<open>What the runtime relies on\<close>

text \<open>\<^verbatim>\<open>write\<close> on a file takes at least one byte, if there is one, and at most those it is given; the clock
  does not fail and does not go backwards.\<close>

definition writes_ok :: "rt \<Rightarrow> bool" where
  "writes_ok w \<longleftrightarrow> (\<forall>i n. 0 \<le> os_write w i n \<and> os_write w i n \<le> int n \<and> (0 < n \<longrightarrow> 0 < os_write w i n))"

definition clock_value :: "64 word \<times> 64 word \<Rightarrow> 64 word" where
  "clock_value t = fst t * 1000000000 + snd t"

definition clock_at :: "rt \<Rightarrow> nat \<Rightarrow> 64 word" where
  "clock_at w i = (case os_clock w i of None \<Rightarrow> 0 | Some t \<Rightarrow> clock_value t)"

definition clock_ok :: "rt \<Rightarrow> bool" where
  "clock_ok w \<longleftrightarrow> (\<forall>i. os_clock w i \<noteq> None) \<and> (\<forall>i j. i \<le> j \<longrightarrow> clock_at w i \<le> clock_at w j)"

lemma clock_now_ok:
  "clock_ok w \<Longrightarrow> ovni_clock_now w = Inr (clock_at w (os_nclock w), w\<lparr>os_nclock := Suc (os_nclock w)\<rparr>)"
  by (auto simp: clock_ok_def ovni_clock_now_def clock_monotonic_now_def clock_at_def clock_value_def
      split: option.splits)

text \<open>The bytes of the stream so far: what is in the file up to the position, then the buffer.\<close>

definition rt_bytes :: "rt \<Rightarrow> byte list" where
  "rt_bytes w = take (os_pos w) (os_file w) @ rt_evbuf w"

lemma file_write_file:
  assumes "os_pos w \<le> length (os_file w)"
  shows "take (os_pos (file_write bs w)) (os_file (file_write bs w)) = take (os_pos w) (os_file w) @ bs"
    and "os_pos (file_write bs w) \<le> length (os_file (file_write bs w))"
    and "os_pos w = length (os_file w) \<Longrightarrow> os_pos (file_write bs w) = length (os_file (file_write bs w))"
  using assms by (auto simp: file_write_def)

text \<open>The fields that writing the buffer leaves alone.\<close>

definition rt_same :: "rt \<Rightarrow> rt \<Rightarrow> bool" where
  "rt_same w w' \<longleftrightarrow> w' = w\<lparr>rt_evbuf := rt_evbuf w', os_file := os_file w', os_pos := os_pos w',
     os_nwrite := os_nwrite w', os_nclock := os_nclock w'\<rparr>"

lemma rt_same_refl [simp]: "rt_same w w"
  by (simp add: rt_same_def)

lemma rt_same_trans: "rt_same w w1 \<Longrightarrow> rt_same w1 w2 \<Longrightarrow> rt_same w w2"
  unfolding rt_same_def by (cases w; cases w1; cases w2) simp

lemma rt_same_fields:
  "rt_same w w' \<Longrightarrow> rt_ready w' = rt_ready w \<and> rp_st w' = rp_st w \<and> os_write w' = os_write w \<and> os_clock w' = os_clock w"
  unfolding rt_same_def by (cases w; cases w') simp

lemma rt_same_ok: "rt_same w w' \<Longrightarrow> writes_ok w' = writes_ok w" "rt_same w w' \<Longrightarrow> clock_ok w' = clock_ok w"
  "rt_same w w' \<Longrightarrow> clock_at w' = clock_at w"
  using rt_same_fields [of w w'] by (simp_all add: writes_ok_def clock_ok_def clock_at_def fun_eq_iff)

lemma write_evbuf_ok:
  assumes "writes_ok w" and "length buf < n" and "os_pos w \<le> length (os_file w)"
  shows "\<exists>w'. write_evbuf n buf w = Inr w' \<and> rt_same w w' \<and> rt_evbuf w' = rt_evbuf w \<and> os_nclock w' = os_nclock w
    \<and> os_pos w' \<le> length (os_file w') \<and> take (os_pos w') (os_file w') = take (os_pos w) (os_file w) @ buf
    \<and> (os_pos w = length (os_file w) \<longrightarrow> os_pos w' = length (os_file w'))"
  using assms
proof (induction n arbitrary: buf w)
  case (Suc n)
  let ?k = "os_write w (os_nwrite w) (length buf)" and ?w1 = "w\<lparr>os_nwrite := Suc (os_nwrite w)\<rparr>"
  let ?w2 = "file_write (take (nat ?k) buf) ?w1" and ?rest = "drop (nat ?k) buf"
  have k: "0 \<le> ?k" "?k \<le> int (length buf)" "0 < length buf \<Longrightarrow> 0 < ?k"
    using Suc.prems(1) by (auto simp: writes_ok_def)
  note f = file_write_file [of ?w1 "take (nat ?k) buf"]
  have same: "rt_same w ?w2" "rt_evbuf ?w2 = rt_evbuf w" "os_nclock ?w2 = os_nclock w"
    by (simp_all add: rt_same_def file_write_def)
  have pos: "os_pos ?w2 \<le> length (os_file ?w2)"
    "take (os_pos ?w2) (os_file ?w2) = take (os_pos w) (os_file w) @ take (nat ?k) buf"
    "os_pos w = length (os_file w) \<Longrightarrow> os_pos ?w2 = length (os_file ?w2)"
    using f Suc.prems(3) by simp_all
  show ?case
  proof (cases "?rest = []")
    case True
    then have "take (nat ?k) buf = buf" by simp
    with True k(1) same pos show ?thesis by (intro exI [of _ ?w2]) (simp add: Let_def)
  next
    case False
    then have "length ?rest < n" using k Suc.prems(2) by (cases buf) auto
    from Suc.IH [OF _ this pos(1)] Suc.prems(1) rt_same_ok(1) [OF same(1)] obtain w' where
      w': "write_evbuf n ?rest ?w2 = Inr w'" "rt_same ?w2 w'" "rt_evbuf w' = rt_evbuf ?w2" "os_nclock w' = os_nclock ?w2"
        "os_pos w' \<le> length (os_file w')" "take (os_pos w') (os_file w') = take (os_pos ?w2) (os_file ?w2) @ ?rest"
        "os_pos ?w2 = length (os_file ?w2) \<longrightarrow> os_pos w' = length (os_file w')" by blast
    have "write_evbuf (Suc n) buf w = Inr w'" using w'(1) False k(1) by (simp add: Let_def)
    with w' same pos rt_same_trans [OF same(1) w'(2)] show ?thesis by (intro exI [of _ w']) simp
  qed
qed simp

lemma flush_evbuf_ok:
  assumes "writes_ok w" and "os_pos w \<le> length (os_file w)"
  shows "\<exists>w'. flush_evbuf w = Inr w' \<and> rt_same w w' \<and> rt_evbuf w' = [] \<and> os_nclock w' = os_nclock w
    \<and> os_pos w' \<le> length (os_file w') \<and> rt_bytes w' = rt_bytes w
    \<and> (os_pos w = length (os_file w) \<longrightarrow> os_pos w' = length (os_file w'))"
proof -
  from write_evbuf_ok [OF assms(1) _ assms(2), of "rt_evbuf w" "Suc (length (rt_evbuf w))"] obtain w1 where
    w1: "write_evbuf (Suc (length (rt_evbuf w))) (rt_evbuf w) w = Inr w1" "rt_same w w1" "os_nclock w1 = os_nclock w"
      "os_pos w1 \<le> length (os_file w1)" "take (os_pos w1) (os_file w1) = take (os_pos w) (os_file w) @ rt_evbuf w"
      "os_pos w = length (os_file w) \<longrightarrow> os_pos w1 = length (os_file w1)" by auto
  have "rt_same w1 (w1\<lparr>rt_evbuf := []\<rparr>)" by (simp add: rt_same_def)
  with rt_same_trans [OF w1(2) this] w1 show ?thesis
    by (intro exI [of _ "w1\<lparr>rt_evbuf := []\<rparr>"]) (simp add: flush_evbuf_def rt_bytes_def)
qed

subsection \<open>The log of events\<close>

text \<open>An event as the users of the runtime build it: not jumbo, with the sixteen bytes of its payload.\<close>

definition ev_user :: "ovni_ev \<Rightarrow> bool" where
  "ev_user ev \<longleftrightarrow> \<not> is_jumbo_flag ev \<and> length (oe_payload ev) = 16"

lemma ev_user_zero [simp]: "ev_user ev_zero" "ovni_payload_size ev_zero = 0"
  by (simp_all add: ev_user_def ev_zero_def is_jumbo_flag_def OVNI_EV_JUMBO_def ovni_payload_size_def)

lemma ev_user_mcv [simp]: "ev_user (ev_mcv mcv t)" "ovni_payload_size (ev_mcv mcv t) = 0" "oe_clock (ev_mcv mcv t) = t"
  using ev_user_zero
  by (simp_all add: ev_mcv_def ovni_ev_set_mcv_def ovni_ev_set_clock_def ev_user_def is_jumbo_flag_def ovni_payload_size_def)

lemma ev_user_size:
  assumes "ev_user ev"
  shows "c_size (ovni_ev_size ev) = 12 + nat (ovni_payload_size ev)" "nat (ovni_payload_size ev) \<le> 16"
    "0 \<le> ovni_payload_size ev"
proof -
  have "ovni_payload_size ev = 0 \<or> (2 \<le> ovni_payload_size ev \<and> ovni_payload_size ev \<le> 16)"
    using assms by (simp add: ev_user_def ovni_payload_size_normal)
  then have r: "0 \<le> ovni_payload_size ev" "ovni_payload_size ev \<le> 16" by auto
  then show "nat (ovni_payload_size ev) \<le> 16" "0 \<le> ovni_payload_size ev" by simp_all
  have "c_int (12 + ovni_payload_size ev) = 12 + ovni_payload_size ev" using r by (intro c_int_id) simp_all
  with r show "c_size (ovni_ev_size ev) = 12 + nat (ovni_payload_size ev)"
    by (simp add: ovni_ev_size_def ev_header_size_def nat_add_distrib)
qed

lemma ev_trim_flags [simp]: "is_jumbo_flag (ev_trim ev) = is_jumbo_flag ev" "oe_clock (ev_trim ev) = oe_clock ev"
  by (simp_all add: ev_trim_def is_jumbo_flag_def)

lemma ev_bytes_take: "take (12 + m) (ev_bytes ev) = ev_bytes (ev\<lparr>oe_payload := take m (oe_payload ev)\<rparr>)"
proof -
  have m: "12 + m = Suc (Suc (Suc (Suc (8 + m))))" by simp
  show ?thesis by (simp only: ev_bytes_def m take_Suc_Cons take_append le_enc_length) simp
qed

lemma ev_user_trim:
  assumes "ev_user ev"
  shows "ev_wf (ev_trim ev)" "ev_bytes (ev_trim ev) = take (c_size (ovni_ev_size ev)) (ev_bytes ev)"
    "length (ev_bytes (ev_trim ev)) = c_size (ovni_ev_size ev)" "c_size (ovni_ev_size ev) \<le> length (ev_bytes ev)"
proof -
  note z = ev_user_size [OF assms]
  have "ovni_payload_size (ev_trim ev) = ovni_payload_size ev"
    using assms by (simp add: ev_trim_def ovni_payload_size_def ev_user_def is_jumbo_flag_def)
  with z assms show "ev_wf (ev_trim ev)" by (simp add: ev_wf_def ev_user_def) (simp add: ev_trim_def)
  show "length (ev_bytes (ev_trim ev)) = c_size (ovni_ev_size ev)" "c_size (ovni_ev_size ev) \<le> length (ev_bytes ev)"
    using z assms by (simp_all add: ev_trim_def ev_user_def ev_header_size_def)
  have "take (12 + nat (ovni_payload_size ev)) (ev_bytes ev) = ev_bytes (ev_trim ev)"
    unfolding ev_trim_def by (rule ev_bytes_take)
  with z(1) show "ev_bytes (ev_trim ev) = take (c_size (ovni_ev_size ev)) (ev_bytes ev)" by simp
qed

text \<open>The stream so far is the header and the bytes of \<open>evs\<close>, the buffer is not full and the file has no hole.\<close>

definition rt_holds :: "rt \<Rightarrow> ovni_ev list \<Rightarrow> bool" where
  "rt_holds w evs \<longleftrightarrow> rt_bytes w = stream_header @ concat (map ev_bytes evs) \<and> (\<forall>e \<in> set evs. ev_wf e)
     \<and> length (rt_evbuf w) < OVNI_MAX_EV_BUF \<and> os_pos w \<le> length (os_file w)"

definition rt_ok :: "rt \<Rightarrow> bool" where
  "rt_ok w \<longleftrightarrow> rt_ready w \<and> writes_ok w \<and> clock_ok w"

lemma rt_same_rt_ok: "rt_same w w' \<Longrightarrow> rt_ok w' = rt_ok w"
  using rt_same_fields [of w w'] rt_same_ok [of w w'] by (simp add: rt_ok_def)

lemma evbuf_add_fields [simp]:
  "rt_evbuf (evbuf_add bs w) = rt_evbuf w @ bs" "os_pos (evbuf_add bs w) = os_pos w" "os_file (evbuf_add bs w) = os_file w"
  "os_nclock (evbuf_add bs w) = os_nclock w" "rt_bytes (evbuf_add bs w) = rt_bytes w @ bs" "rt_same w (evbuf_add bs w)"
  by (simp_all add: evbuf_add_def rt_bytes_def rt_same_def)

lemma flush_if_full_ok:
  assumes "rt_ok w" and "os_pos w \<le> length (os_file w)" and "length (rt_evbuf w) + sz \<ge> OVNI_MAX_EV_BUF"
  shows "\<exists>w'. flush_if_full sz w = Inr (Some (clock_at w (os_nclock w), clock_at w (Suc (os_nclock w))), w')
    \<and> rt_same w w' \<and> rt_evbuf w' = [] \<and> os_nclock w' = Suc (Suc (os_nclock w)) \<and> rt_bytes w' = rt_bytes w
    \<and> os_pos w' \<le> length (os_file w') \<and> (os_pos w = length (os_file w) \<longrightarrow> os_pos w' = length (os_file w'))"
proof -
  let ?w1 = "w\<lparr>os_nclock := Suc (os_nclock w)\<rparr>"
  have ok: "writes_ok w" "clock_ok w" using assms(1) by (simp_all add: rt_ok_def)
  have s1: "rt_same w ?w1" by (simp add: rt_same_def)
  from flush_evbuf_ok [of ?w1] ok rt_same_ok(1) [OF s1] assms(2) obtain w2 where
    w2: "flush_evbuf ?w1 = Inr w2" "rt_same ?w1 w2" "rt_evbuf w2 = []" "os_nclock w2 = Suc (os_nclock w)"
      "os_pos w2 \<le> length (os_file w2)" "rt_bytes w2 = rt_bytes ?w1"
      "os_pos w = length (os_file w) \<longrightarrow> os_pos w2 = length (os_file w2)" by auto
  note s2 = rt_same_trans [OF s1 w2(2)]
  let ?w3 = "w2\<lparr>os_nclock := Suc (os_nclock w2)\<rparr>"
  have s3: "rt_same w ?w3" by (rule rt_same_trans [OF s2]) (simp add: rt_same_def)
  have c2: "ovni_clock_now w2 = Inr (clock_at w (Suc (os_nclock w)), ?w3)"
    using clock_now_ok [of w2] rt_same_ok(2,3) [OF s2] ok(2) w2(4) by simp
  have "flush_if_full sz w = Inr (Some (clock_at w (os_nclock w), clock_at w (Suc (os_nclock w))), ?w3)"
    using assms(3) clock_now_ok [OF ok(2)] w2(1) c2 by (simp add: flush_if_full_def)
  then show ?thesis using s3 w2 by (intro exI [of _ ?w3]) (simp add: rt_bytes_def)
qed

lemma ovni_ev_add_fits:
  assumes "rt_ready w" and "ev_user ev" and "length (rt_evbuf w) + c_size (ovni_ev_size ev) < OVNI_MAX_EV_BUF"
  shows "ovni_ev_add (Suc n) ev w = Inr (evbuf_add (ev_bytes (ev_trim ev)) w)"
  using assms ev_user_trim(2,4) [OF assms(2)] by (simp add: flush_if_full_def Let_def)

definition flush_evs :: "64 word \<Rightarrow> 64 word \<Rightarrow> ovni_ev list" where
  "flush_evs t0 t1 = [ev_trim (ev_mcv ''OF['' t0), ev_trim (ev_mcv ''OF]'' t1)]"

lemma mcv_size: "c_size (ovni_ev_size (ev_mcv mcv t)) = 12"
  using ev_user_size(1) [of "ev_mcv mcv t"] by simp

lemma mcv_length [simp]: "length (ev_bytes (ev_trim (ev_mcv mcv t))) = 12"
  using ev_user_trim(3) [of "ev_mcv mcv t"] mcv_size by (simp del: ev_bytes_length)

lemma flush_evs_wf: "\<forall>e \<in> set (flush_evs t0 t1). ev_wf e"
  by (simp add: flush_evs_def ev_user_trim(1))

text \<open>The events of a flush after one that fit.\<close>

lemma add_flush_events_fits:
  assumes "rt_ready w" and "length (rt_evbuf w) + 24 < OVNI_MAX_EV_BUF"
  shows "add_flush_events (ovni_ev_add (Suc n)) t0 t1 w = Inr (evbuf_add (concat (map ev_bytes (flush_evs t0 t1))) w)"
proof -
  let ?pre = "ev_mcv ''OF['' t0" and ?post = "ev_mcv ''OF]'' t1"
  have a: "ovni_ev_add (Suc n) ?pre w = Inr (evbuf_add (ev_bytes (ev_trim ?pre)) w)"
    using assms by (intro ovni_ev_add_fits) (simp_all add: mcv_size)
  have "ovni_ev_add (Suc n) ?post (evbuf_add (ev_bytes (ev_trim ?pre)) w)
      = Inr (evbuf_add (ev_bytes (ev_trim ?post)) (evbuf_add (ev_bytes (ev_trim ?pre)) w))"
    using assms by (intro ovni_ev_add_fits) (simp_all add: mcv_size evbuf_add_def del: ev_bytes_length)
  with a show ?thesis
    by (simp add: add_flush_events_def flush_evs_def evbuf_add_def del: ovni_ev_add.simps)
qed

text \<open>What emitting an event appends to the log: the event and, when it did not fit in the buffer, the two events
  that tell when the flush began and ended.\<close>

definition fits :: "rt \<Rightarrow> nat \<Rightarrow> bool" where
  "fits w k \<longleftrightarrow> length (rt_evbuf w) + k < OVNI_MAX_EV_BUF"

definition emit_log :: "rt \<Rightarrow> ovni_ev \<Rightarrow> ovni_ev list" where
  "emit_log w ev = ev_trim ev #
     (if fits w (c_size (ovni_ev_size ev)) then []
      else flush_evs (clock_at w (os_nclock w)) (clock_at w (Suc (os_nclock w))))"

definition fresh :: "rt \<Rightarrow> bool" where
  "fresh w \<longleftrightarrow> os_pos w = length (os_file w)"

lemma rt_holds_add:
  assumes "rt_holds w evs" and "rt_bytes w' = rt_bytes w @ concat (map ev_bytes es)" and "\<forall>e \<in> set es. ev_wf e"
    and "length (rt_evbuf w') < OVNI_MAX_EV_BUF" and "os_pos w' \<le> length (os_file w')"
  shows "rt_holds w' (evs @ es)"
  using assms by (auto simp: rt_holds_def)

lemma ovni_ev_add_ok:
  assumes ok: "rt_ok w" and h: "rt_holds w evs" and ev: "ev_user ev"
  shows "\<exists>w'. ovni_ev_add (Suc (Suc n)) ev w = Inr w' \<and> rt_holds w' (evs @ emit_log w ev) \<and> rt_same w w'
    \<and> (fresh w \<longrightarrow> fresh w')
    \<and> os_nclock w' = (if fits w (c_size (ovni_ev_size ev)) then os_nclock w else Suc (Suc (os_nclock w)))
    \<and> length (rt_evbuf w') = (if fits w (c_size (ovni_ev_size ev)) then length (rt_evbuf w) else 24)
        + c_size (ovni_ev_size ev)"
proof (cases "fits w (c_size (ovni_ev_size ev))")
  case True
  let ?w = "evbuf_add (ev_bytes (ev_trim ev)) w"
  have "ovni_ev_add (Suc (Suc n)) ev w = Inr ?w"
    using True ok ev by (intro ovni_ev_add_fits) (simp_all add: rt_ok_def fits_def)
  moreover have "rt_holds ?w (evs @ emit_log w ev)"
    using True h ev_user_trim(1,3) [OF ev]
    by (intro rt_holds_add [OF h]) (simp_all add: emit_log_def fits_def rt_holds_def del: ev_bytes_length)
  ultimately show ?thesis using True ev_user_trim(3) [OF ev]
    by (intro exI [of _ ?w]) (simp add: fresh_def del: ev_bytes_length)
next
  case False
  let ?t0 = "clock_at w (os_nclock w)" and ?t1 = "clock_at w (Suc (os_nclock w))"
  let ?bs = "ev_bytes (ev_trim ev)" and ?fl = "concat (map ev_bytes (flush_evs (clock_at w (os_nclock w)) (clock_at w (Suc (os_nclock w)))))"
  note size = ev_user_size [OF ev] and trim = ev_user_trim [OF ev]
  have hp: "os_pos w \<le> length (os_file w)" using h by (simp add: rt_holds_def)
  from flush_if_full_ok [OF ok hp, of "c_size (ovni_ev_size ev)"] False obtain w1 where
    w1: "flush_if_full (c_size (ovni_ev_size ev)) w = Inr (Some (?t0, ?t1), w1)" "rt_same w w1" "rt_evbuf w1 = []"
      "os_nclock w1 = Suc (Suc (os_nclock w))" "rt_bytes w1 = rt_bytes w" "os_pos w1 \<le> length (os_file w1)"
      "fresh w \<longrightarrow> fresh w1" by (auto simp: fits_def fresh_def)
  let ?w2 = "evbuf_add ?bs w1"
  let ?w' = "evbuf_add ?fl ?w2"
  have len: "length (rt_evbuf ?w2) \<le> 28" using w1(3) trim(3) size by (simp del: ev_bytes_length)
  have s2: "rt_same w ?w2" by (rule rt_same_trans [OF w1(2)]) simp
  have "rt_ready ?w2" using rt_same_fields [OF s2] ok by (simp add: rt_ok_def)
  then have "add_flush_events (ovni_ev_add (Suc n)) ?t0 ?t1 ?w2 = Inr ?w'"
    using len by (intro add_flush_events_fits) (simp_all add: OVNI_MAX_EV_BUF_def del: evbuf_add_fields(1))
  then have "ovni_ev_add (Suc (Suc n)) ev w = Inr ?w'"
    using ok w1(1) trim(2,4) by (subst ovni_ev_add.simps(2)) (simp add: rt_ok_def Let_def del: ovni_ev_add.simps)
  moreover have len': "length (rt_evbuf ?w') = 24 + c_size (ovni_ev_size ev)"
    using w1(3) trim(3) by (simp add: flush_evs_def del: ev_bytes_length)
  then have "length (rt_evbuf ?w') < OVNI_MAX_EV_BUF" using size by (simp only: OVNI_MAX_EV_BUF_def)
  then have "rt_holds ?w' (evs @ emit_log w ev)"
    using False w1(5,6) trim(1) flush_evs_wf
    by (intro rt_holds_add [OF h]) (simp_all add: emit_log_def)
  moreover have "rt_same w ?w'" by (rule rt_same_trans [OF s2]) simp
  ultimately show ?thesis using w1(4,7) False len' by (intro exI [of _ ?w']) (simp add: fresh_def)
qed

text \<open>The event with the size and the bytes of a jumbo payload.\<close>

definition jumbo_ev :: "ovni_ev \<Rightarrow> byte list \<Rightarrow> ovni_ev" where
  "jumbo_ev ev buf = (payload_added (le_enc 4 (length buf)) ev)
     \<lparr>oe_flags := oe_flags (payload_added (le_enc 4 (length buf)) ev) OR OVNI_EV_JUMBO,
      oe_payload := le_enc 4 (length buf) @ buf\<rparr>"

lemma jumbo_ev_flag: "is_jumbo_flag (jumbo_ev ev buf)"
proof -
  have "(f OR 0x10) AND 0x10 = (0x10 :: byte)" for f by (simp add: bit_eq_iff bit_simps)
  then show ?thesis by (simp add: jumbo_ev_def is_jumbo_flag_def OVNI_EV_JUMBO_def)
qed

lemma jumbo_ev_wf:
  assumes "length buf < OVNI_MAX_EV_BUF"
  shows "ev_wf (jumbo_ev ev buf)" "oe_clock (jumbo_ev ev buf) = oe_clock ev"
proof -
  note j = jumbo_ev_flag [of ev buf]
  have "rd_u 4 0 ([] @ le_enc 4 (length buf) @ buf) = length buf"
    using assms by (intro rd_u_enc) (simp_all add: OVNI_MAX_EV_BUF_def)
  then have g: "get_jumbo_payload_size (jumbo_ev ev buf) = 4 + length buf"
    by (simp add: get_jumbo_payload_size_def jumbo_ev_def)
  have "c_int (int (4 + length buf)) = int (4 + length buf)"
    using assms by (intro c_int_id) (simp_all add: OVNI_MAX_EV_BUF_def)
  with j g have "ovni_payload_size (jumbo_ev ev buf) = int (4 + length buf)"
    by (simp only: ovni_payload_size_def if_True)
  then show "ev_wf (jumbo_ev ev buf)" using assms by (simp add: ev_wf_def jumbo_ev_def OVNI_MAX_EV_BUF_def)
  show "oe_clock (jumbo_ev ev buf) = oe_clock ev" by (simp add: jumbo_ev_def payload_added_def Let_def)
qed

text \<open>What emitting a jumbo event appends to the log. An event that leaves no room for the events of its own flush
  makes them flush again: then these tell two flushes, one inside of the other when not even the first fits.\<close>

definition jumbo_log :: "rt \<Rightarrow> ovni_ev \<Rightarrow> byte list \<Rightarrow> ovni_ev list" where
  "jumbo_log w ev buf = jumbo_ev ev buf #
     (let total = 16 + length buf; t = (\<lambda>i. clock_at w (os_nclock w + i)) in
      if fits w total then []
      else if total + 12 \<ge> OVNI_MAX_EV_BUF
        then [ev_trim (ev_mcv ''OF['' (t 0))] @ flush_evs (t 2) (t 3) @ [ev_trim (ev_mcv ''OF]'' (t 1))]
      else if total + 24 \<ge> OVNI_MAX_EV_BUF then flush_evs (t 0) (t 1) @ flush_evs (t 2) (t 3)
      else flush_evs (t 0) (t 1))"

text \<open>The two events of a flush, added to a buffer that may be full again.\<close>

definition flush_log :: "rt \<Rightarrow> 64 word \<Rightarrow> 64 word \<Rightarrow> ovni_ev list" where
  "flush_log w t0 t1 =
     (let t = (\<lambda>i. clock_at w (os_nclock w + i)) in
      if \<not> fits w 12 then [ev_trim (ev_mcv ''OF['' t0)] @ flush_evs (t 0) (t 1) @ [ev_trim (ev_mcv ''OF]'' t1)]
      else if \<not> fits w 24 then flush_evs t0 t1 @ flush_evs (t 0) (t 1)
      else flush_evs t0 t1)"

lemma add_flush_events_ok:
  assumes ok: "rt_ok w" and h: "rt_holds w evs"
  shows "\<exists>w'. add_flush_events (ovni_ev_add add_depth) t0 t1 w = Inr w' \<and> rt_same w w' \<and> (fresh w \<longrightarrow> fresh w')
    \<and> rt_holds w' (evs @ flush_log w t0 t1) \<and> os_nclock w' + 2 = os_nclock w + length (flush_log w t0 t1)"
proof -
  let ?pre = "ev_mcv ''OF['' t0" and ?post = "ev_mcv ''OF]'' t1"
  have d: "add_depth = Suc (Suc 1)" by (simp add: add_depth_def)
  from ovni_ev_add_ok [OF ok h, of ?pre 1] obtain w1 where
    w1: "ovni_ev_add add_depth ?pre w = Inr w1" "rt_holds w1 (evs @ emit_log w ?pre)" "rt_same w w1"
      "fresh w \<longrightarrow> fresh w1" "os_nclock w1 = (if fits w 12 then os_nclock w else Suc (Suc (os_nclock w)))"
      "length (rt_evbuf w1) = (if fits w 12 then length (rt_evbuf w) else 24) + 12"
    by (auto simp: d mcv_size simp del: ovni_ev_add.simps)
  have ok1: "rt_ok w1" using rt_same_rt_ok [OF w1(3)] ok by simp
  from ovni_ev_add_ok [OF ok1 w1(2), of ?post 1] obtain w2 where
    w2: "ovni_ev_add add_depth ?post w1 = Inr w2" "rt_holds w2 ((evs @ emit_log w ?pre) @ emit_log w1 ?post)"
      "rt_same w1 w2" "fresh w1 \<longrightarrow> fresh w2"
      "os_nclock w2 = (if fits w1 12 then os_nclock w1 else Suc (Suc (os_nclock w1)))"
    by (auto simp: d mcv_size simp del: ovni_ev_add.simps)
  have c: "clock_at w1 = clock_at w" by (rule rt_same_ok(3) [OF w1(3)])
  have f1: "fits w1 12 \<longleftrightarrow> \<not> fits w 12 \<or> fits w 24"
    using w1(6) by (auto simp: fits_def OVNI_MAX_EV_BUF_def)
  have eq: "(evs @ emit_log w ?pre) @ emit_log w1 ?post = evs @ flush_log w t0 t1"
    using w1(5) c f1 by (auto simp: emit_log_def mcv_size flush_log_def Let_def flush_evs_def)
  have "os_nclock w2 + 2 = os_nclock w + length (flush_log w t0 t1)"
    using w1(5) w2(5) f1 by (auto simp: flush_log_def Let_def flush_evs_def)
  moreover have h2: "rt_holds w2 (evs @ flush_log w t0 t1)" using w2(2) eq by (simp only:)
  moreover have "add_flush_events (ovni_ev_add add_depth) t0 t1 w = Inr w2"
    using w1(1) w2(1) by (simp add: add_flush_events_def)
  ultimately show ?thesis using w1(4) w2(4) rt_same_trans [OF w1(3) w2(3)] by blast
qed

lemma jumbo_bytes:
  assumes "ev_user ev" and "ovni_payload_size ev = 0"
  shows "ovni_payload_add (le_enc 4 (length buf)) ev = Inr (payload_added (le_enc 4 (length buf)) ev)"
    "c_size (ovni_ev_size (payload_added (le_enc 4 (length buf)) ev)) = 16"
    "take 16 (ev_bytes ((payload_added (le_enc 4 (length buf)) ev)\<lparr>oe_flags := f\<rparr>)) @ buf
      = ev_bytes ((payload_added (le_enc 4 (length buf)) ev)\<lparr>oe_flags := f, oe_payload := le_enc 4 (length buf) @ buf\<rparr>)"
proof -
  let ?ev = "payload_added (le_enc 4 (length buf)) ev"
  have u: "\<not> is_jumbo_flag ev" "length (oe_payload ev) = 16" using assms(1) by (simp_all add: ev_user_def)
  note p = ovni_payload_add_ok [OF u, of "le_enc 4 (length buf)"]
  show "ovni_payload_add (le_enc 4 (length buf)) ev = Inr ?ev" using p(1) assms(2) by simp
  have s: "ovni_payload_size ?ev = 4" "take 4 (oe_payload ?ev) = le_enc 4 (length buf)" "ev_user ?ev"
    using p(2-5) assms(2) by (simp_all add: ev_user_def)
  show "c_size (ovni_ev_size ?ev) = 16" using ev_user_size(1) [OF s(3)] s(1) by simp
  have "take (12 + 4) (ev_bytes (?ev\<lparr>oe_flags := f\<rparr>)) = ev_bytes (?ev\<lparr>oe_flags := f, oe_payload := le_enc 4 (length buf)\<rparr>)"
    using ev_bytes_take [of 4 "?ev\<lparr>oe_flags := f\<rparr>"] s(2) by simp
  then show "take 16 (ev_bytes (?ev\<lparr>oe_flags := f\<rparr>)) @ buf
      = ev_bytes (?ev\<lparr>oe_flags := f, oe_payload := le_enc 4 (length buf) @ buf\<rparr>)"
    by (simp add: ev_bytes_def)
qed

lemma ovni_ev_add_jumbo_ok:
  assumes ok: "rt_ok w" and h: "rt_holds w evs" and ev: "ev_user ev" "ovni_payload_size ev = 0"
    and buf: "16 + length buf < OVNI_MAX_EV_BUF"
  shows "\<exists>w'. ovni_ev_add_jumbo ev buf w = Inr w' \<and> rt_holds w' (evs @ jumbo_log w ev buf) \<and> rt_same w w'
    \<and> (fresh w \<longrightarrow> fresh w') \<and> os_nclock w' + 1 = os_nclock w + length (jumbo_log w ev buf)"
proof -
  let ?total = "16 + length buf" and ?j = "jumbo_ev ev buf"
  note jb = jumbo_bytes [OF ev, where buf = buf]
  have bs: "evbuf_add buf (evbuf_add (take 16 (ev_bytes ((payload_added (le_enc 4 (length buf)) ev)
      \<lparr>oe_flags := oe_flags (payload_added (le_enc 4 (length buf)) ev) OR OVNI_EV_JUMBO\<rparr>))) w1)
    = evbuf_add (ev_bytes ?j) w1" for w1
    using jb(3) by (simp add: evbuf_add_def jumbo_ev_def)
  have jwf: "ev_wf ?j" using buf by (intro jumbo_ev_wf) simp
  have jlen: "length (ev_bytes ?j) = ?total" by (simp add: jumbo_ev_def ev_header_size_def)
  have rdy: "rt_ready w" using ok by (simp add: rt_ok_def)
  show ?thesis
  proof (cases "fits w ?total")
    case True
    let ?w = "evbuf_add (ev_bytes ?j) w"
    have "ovni_ev_add_jumbo ev buf w = Inr ?w"
      using rdy ev(2) jb(1,2) buf True bs
      by (simp add: ovni_ev_add_jumbo_def Let_def flush_if_full_def fits_def)
    moreover have "rt_holds ?w (evs @ [?j])"
      using True h jwf jlen by (intro rt_holds_add [OF h]) (simp_all add: fits_def rt_holds_def del: ev_bytes_length)
    ultimately show ?thesis using True by (intro exI [of _ ?w]) (simp add: jumbo_log_def Let_def fresh_def)
  next
    case False
    let ?t = "\<lambda>i. clock_at w (os_nclock w + i)"
    have hp: "os_pos w \<le> length (os_file w)" using h by (simp add: rt_holds_def)
    from flush_if_full_ok [OF ok hp, of ?total] False obtain w1 where
      w1: "flush_if_full ?total w = Inr (Some (?t 0, ?t 1), w1)" "rt_same w w1" "rt_evbuf w1 = []"
        "os_nclock w1 = os_nclock w + 2" "rt_bytes w1 = rt_bytes w" "os_pos w1 \<le> length (os_file w1)"
        "fresh w \<longrightarrow> fresh w1" by (auto simp: fits_def fresh_def)
    let ?w2 = "evbuf_add (ev_bytes ?j) w1"
    have s2: "rt_same w ?w2" by (rule rt_same_trans [OF w1(2)]) simp
    have h2: "rt_holds ?w2 (evs @ [?j])"
      using w1 h jwf jlen buf by (intro rt_holds_add [OF h]) (simp_all del: ev_bytes_length)
    have ok2: "rt_ok ?w2" using rt_same_rt_ok [OF s2] ok by simp
    have f2: "fits ?w2 k \<longleftrightarrow> ?total + k < OVNI_MAX_EV_BUF" for k
      using w1(3) jlen by (simp add: fits_def del: ev_bytes_length)
    have c2: "clock_at ?w2 (os_nclock ?w2 + 0) = ?t 2" "clock_at ?w2 (os_nclock ?w2 + 1) = ?t 3"
      using rt_same_ok(3) [OF s2] w1(4) by (simp_all add: numeral_3_eq_3)
    from add_flush_events_ok [OF ok2 h2, of "?t 0" "?t 1"] obtain w' where
      w': "add_flush_events (ovni_ev_add add_depth) (?t 0) (?t 1) ?w2 = Inr w'" "rt_same ?w2 w'" "fresh ?w2 \<longrightarrow> fresh w'"
      "rt_holds w' ((evs @ [?j]) @ flush_log ?w2 (?t 0) (?t 1))"
      "os_nclock w' + 2 = os_nclock w + 2 + length (flush_log ?w2 (?t 0) (?t 1))"
      using w1(4) by auto
    have log: "jumbo_log w ev buf = ?j # flush_log ?w2 (?t 0) (?t 1)"
      unfolding jumbo_log_def flush_log_def Let_def c2 f2 using False by (simp add: not_less)
    then have "rt_holds w' (evs @ jumbo_log w ev buf)" using w'(4) by simp
    moreover have "ovni_ev_add_jumbo ev buf w = Inr w'"
      using rdy ev(2) jb(1,2) buf w1(1) bs w'(1)
      by (simp add: ovni_ev_add_jumbo_def Let_def)
    moreover have "fresh w \<longrightarrow> fresh ?w2" using w1(7) by (simp add: fresh_def)
    moreover have "os_nclock w' + 1 = os_nclock w + length (jumbo_log w ev buf)" using w'(5) log by simp
    ultimately show ?thesis using w'(3) rt_same_trans [OF s2 w'(2)] by blast
  qed
qed

lemma ovni_flush_ok:
  assumes ok: "rt_ok w" and h: "rt_holds w evs" and st: "rp_st w = ST_READY"
  shows "\<exists>w'. ovni_flush w = Inr w' \<and> rt_same w w' \<and> (fresh w \<longrightarrow> fresh w') \<and> os_nclock w' = Suc (Suc (os_nclock w))
    \<and> rt_holds w' (evs @ flush_evs (clock_at w (os_nclock w)) (clock_at w (Suc (os_nclock w))))
    \<and> take (os_pos w') (os_file w') = stream_header @ concat (map ev_bytes evs)"
proof -
  let ?t0 = "clock_at w (os_nclock w)" and ?t1 = "clock_at w (Suc (os_nclock w))"
  let ?fl = "flush_evs ?t0 ?t1"
  have hp: "os_pos w \<le> length (os_file w)" using h by (simp add: rt_holds_def)
  from flush_if_full_ok [OF ok hp, of OVNI_MAX_EV_BUF] obtain w3 where
    w3: "flush_if_full OVNI_MAX_EV_BUF w = Inr (Some (?t0, ?t1), w3)" "rt_same w w3" "rt_evbuf w3 = []"
      "os_nclock w3 = Suc (Suc (os_nclock w))" "rt_bytes w3 = rt_bytes w" "os_pos w3 \<le> length (os_file w3)"
      "fresh w \<longrightarrow> fresh w3" by (auto simp: fresh_def)
  let ?w' = "evbuf_add (concat (map ev_bytes ?fl)) w3"
  have "rt_ready w3" using rt_same_fields [OF w3(2)] ok by (simp add: rt_ok_def)
  then have "add_flush_events (ovni_ev_add (Suc 2)) ?t0 ?t1 w3 = Inr ?w'"
    using w3(3) by (intro add_flush_events_fits) (simp_all add: OVNI_MAX_EV_BUF_def)
  then have "ovni_flush w = Inr ?w'"
    using ok st w3(1)
    by (auto simp: ovni_flush_def rt_ok_def flush_if_full_def add_flush_events_def add_depth_def numeral_3_eq_3 numeral_2_eq_2
        simp del: ovni_ev_add.simps)
  moreover have "rt_holds ?w' (evs @ ?fl)"
    using w3 flush_evs_wf
    by (intro rt_holds_add [OF h]) (simp_all add: flush_evs_def OVNI_MAX_EV_BUF_def del: ev_bytes_length)
  moreover have "take (os_pos w3) (os_file w3) = stream_header @ concat (map ev_bytes evs)"
    using w3(3,5) h by (simp add: rt_bytes_def rt_holds_def)
  moreover have "rt_same w ?w'" by (rule rt_same_trans [OF w3(2)]) simp
  ultimately show ?thesis using w3(4,7) by (intro exI [of _ ?w']) (simp add: fresh_def)
qed

end
