(* ===== verification/Rt_Thread.thy ===== *)
theory Rt_Thread
  imports Rt
begin

text \<open>
  The life of a process and of a thread in the runtime, and the metadata of the thread: the rest of
  \<^verbatim>\<open>src/rt/ovni.c\<close>.

  A string that may be \<^verbatim>\<open>NULL\<close> is an option. The version and the commit of the library come from the build: they are the
  arguments \<open>lib\<close> and \<open>commit\<close>. Storing the metadata on disk does not fail. Directories are left out.
\<close>

subsection \<open>Metadata\<close>

definition meta_set :: "string \<Rightarrow> json option \<Rightarrow> rt \<Rightarrow> rt res" where
  "meta_set key v w =
     (case v of
        None \<Rightarrow> Inl (ERt RtMetaFailed)
      | Some v \<Rightarrow>
          (case json_object_dotset_value (rt_meta w) key v of
             None \<Rightarrow> Inl (ERt RtMetaFailed)
           | Some ob \<Rightarrow> Inr (w\<lparr>rt_meta := ob\<rparr>)))"

definition meta_string :: "string \<Rightarrow> json option" where
  "meta_string = json_value_init_string"

definition meta_number :: "int \<Rightarrow> json option" where
  "meta_number n = json_value_init_number (real_of_int n)"

definition thread_metadata_store :: "rt \<Rightarrow> rt" where
  "thread_metadata_store w = w\<lparr>os_json := Some (rt_meta w)\<rparr>"

definition OVNI_METADATA_VERSION :: int where "OVNI_METADATA_VERSION = 3"

definition OVNI_MODEL_VERSION :: string where "OVNI_MODEL_VERSION = ''1.1.0''"

definition OVNI_MAX_HOSTNAME :: nat where "OVNI_MAX_HOSTNAME = 512"

definition populate_fields :: "string \<Rightarrow> string \<Rightarrow> rt \<Rightarrow> (string \<times> json option) list" where
  "populate_fields lib commit w =
     [(''version'', meta_number OVNI_METADATA_VERSION),
      (''ovni.lib.version'', meta_string lib),
      (''ovni.lib.commit'', meta_string commit),
      (''ovni.part'', meta_string ''thread''),
      (''ovni.tid'', meta_number (rt_tid w)),
      (''ovni.pid'', meta_number (rp_pid w)),
      (''ovni.loom'', meta_string (rp_loom w)),
      (''ovni.app_id'', meta_number (rp_app w))]"

definition thread_metadata_populate :: "string \<Rightarrow> string \<Rightarrow> rt \<Rightarrow> rt res" where
  "thread_metadata_populate lib commit w = foldr_res (\<lambda>(k, v). meta_set k v) (populate_fields lib commit w) w"

definition thread_metadata_init :: "string \<Rightarrow> string \<Rightarrow> rt \<Rightarrow> rt res" where
  "thread_metadata_init lib commit w =
     rbind (thread_metadata_populate lib commit (w\<lparr>rt_meta := []\<rparr>)) (\<lambda>w1. Inr (thread_metadata_store w1))"

definition ovni_thread_require :: "string option \<Rightarrow> string option \<Rightarrow> rt \<Rightarrow> rt res" where
  "ovni_thread_require model version w =
     (if \<not> rt_ready w then Inl (ERt RtNotReady)
      else case model of
        None \<Rightarrow> Inl (ERt RtModelName)
      | Some model \<Rightarrow>
          if CHR '' '' \<in> set model \<or> CHR ''.'' \<in> set model then Inl (ERt RtModelName)
          else if length model \<le> 1 then Inl (ERt RtModelName)
          else case version of
            None \<Rightarrow> Inl (ERt RtVersionNull)
          | Some version \<Rightarrow>
              if version_parse version = None then Inl (ERt RtVersionParse)
              else if length (''ovni.require.'' @ model) \<ge> 128 then Inl (ERt RtModelName)
              else meta_set (''ovni.require.'' @ model) (meta_string version) w)"

definition ovni_version_check_str :: "string \<Rightarrow> string option \<Rightarrow> unit res" where
  "ovni_version_check_str lib version =
     (case version of
        None \<Rightarrow> Inl (ERt RtVersionNull)
      | Some version \<Rightarrow>
          (case version_parse version of
             None \<Rightarrow> Inl (ERt RtVersionParse)
           | Some provided \<Rightarrow>
               (case version_parse lib of
                  None \<Rightarrow> Inl (ERt RtVersionParse)
                | Some expected \<Rightarrow>
                    if fst provided \<noteq> fst expected then Inl (ERt RtVersionIncompatible)
                    else if fst (snd provided) > fst (snd expected) then Inl (ERt RtVersionIncompatible)
                    else Inr ())))"

subsection \<open>Processes and threads\<close>

definition ovni_proc_init :: "int \<Rightarrow> string \<Rightarrow> int \<Rightarrow> rt \<Rightarrow> rt res" where
  "ovni_proc_init app loom pid w =
     (if rp_st w \<noteq> ST_UNINIT then Inl (ERt RtProcInit)
      else let w1 = w\<lparr>rp_st := ST_INIT\<rparr> in
        if length loom \<ge> OVNI_MAX_HOSTNAME then Inl (ERt RtLoomTooLong)
        else Inr (w1\<lparr>rp_loom := loom, rp_pid := pid, rp_app := app, rp_st := ST_READY\<rparr>))"

definition ovni_proc_fini :: "rt \<Rightarrow> rt res" where
  "ovni_proc_fini w = (if rp_st w \<noteq> ST_READY then Inl (ERt RtProcNotReady) else Inr (w\<lparr>rp_st := ST_GONE\<rparr>))"

definition ovni_proc_set_rank :: "int \<Rightarrow> int \<Rightarrow> rt \<Rightarrow> rt res" where
  "ovni_proc_set_rank rank nranks w =
     (if rp_st w \<noteq> ST_READY then Inl (ERt RtProcNotReady)
      else if \<not> rt_ready w then Inl (ERt RtNotReady)
      else Inr (w\<lparr>rt_rank_set := True, rt_rank := rank, rt_nranks := nranks\<rparr>))"

definition ovni_add_cpu :: "int \<Rightarrow> int \<Rightarrow> rt \<Rightarrow> rt res" where
  "ovni_add_cpu index phyid w =
     (if index < 0 then Inl (ERt RtNegative)
      else if phyid < 0 then Inl (ERt RtNegative)
      else if rp_st w \<noteq> ST_READY then Inl (ERt RtProcNotReady)
      else if \<not> rt_ready w then Inl (ERt RtNotReady)
      else Inr (w\<lparr>rt_cpus := rt_cpus w @ [\<lparr>rc_index = index, rc_phyid = phyid\<rparr>]\<rparr>))"

definition rthread_zero :: "rt \<Rightarrow> rt" where
  "rthread_zero w =
     w\<lparr>rt_tid := 0, rt_ready := False, rt_finished := False, rt_evbuf := [], rt_cpus := [], rt_rank_set := False,
       rt_rank := 0, rt_nranks := 0, rt_meta := []\<rparr>"

definition ovni_thread_init :: "string \<Rightarrow> string \<Rightarrow> int \<Rightarrow> rt \<Rightarrow> rt res" where
  "ovni_thread_init lib commit tid w =
     (if rt_ready w then Inr w
      else if rt_finished w then Inl (ERt RtFinished)
      else if tid = 0 then Inl (ERt RtTidZero)
      else if rp_st w \<noteq> ST_READY then Inl (ERt RtProcNotReady)
      else let w1 = create_trace_stream ((rthread_zero w)\<lparr>rt_tid := tid\<rparr>) in
        rbind (write_stream_header w1) (\<lambda>w2.
        rbind (thread_metadata_init lib commit w2) (\<lambda>w3.
        ovni_thread_require (Some ''ovni'') (Some OVNI_MODEL_VERSION) (w3\<lparr>rt_ready := True\<rparr>))))"

definition set_thread_rank :: "rt \<Rightarrow> rt res" where
  "set_thread_rank w =
     rbind (meta_set ''ovni.rank'' (meta_number (rt_rank w)) w) (\<lambda>w1.
     meta_set ''ovni.nranks'' (meta_number (rt_nranks w)) w1)"

definition rcpu_json :: "ovni_rcpu \<Rightarrow> json" where
  "rcpu_json c = JSONObject [(''index'', JSONNumber (real_of_int (rc_index c))),
                             (''phyid'', JSONNumber (real_of_int (rc_phyid c)))]"

definition set_thread_cpus :: "rt \<Rightarrow> rt res" where
  "set_thread_cpus w = meta_set ''ovni.loom_cpus'' (Some (JSONArray (map rcpu_json (rt_cpus w)))) w"

definition ovni_thread_free :: "rt \<Rightarrow> rt res" where
  "ovni_thread_free w =
     (if rt_finished w then Inl (ERt RtFinished)
      else if \<not> rt_ready w then Inl (ERt RtNotReady)
      else
        rbind (if rt_rank_set w then set_thread_rank w else Inr w) (\<lambda>w1.
        rbind (if rt_cpus w1 \<noteq> [] then set_thread_cpus w1 else Inr w1) (\<lambda>w2.
        rbind (meta_set ''ovni.finished'' (meta_number 1) w2) (\<lambda>w3.
        Inr ((thread_metadata_store w3)\<lparr>rt_evbuf := [], rt_finished := True, rt_ready := False\<rparr>)))))"

subsection \<open>Attributes\<close>

definition get_thread_metadata :: "rt \<Rightarrow> json_object res" where
  "get_thread_metadata w =
     (if rt_finished w then Inl (ERt RtFinished)
      else if \<not> rt_ready w then Inl (ERt RtNotReady)
      else Inr (rt_meta w))"

definition ovni_attr_has :: "string \<Rightarrow> rt \<Rightarrow> bool res" where
  "ovni_attr_has key w =
     rbind (get_thread_metadata w) (\<lambda>meta. Inr (json_object_dotget_value (Some meta) key \<noteq> None))"

definition attr_set :: "string \<Rightarrow> json option \<Rightarrow> rt \<Rightarrow> rt res" where
  "attr_set key v w = rbind (get_thread_metadata w) (\<lambda>_. meta_set key v w)"

definition ovni_attr_set_double :: "string \<Rightarrow> real \<Rightarrow> rt \<Rightarrow> rt res" where
  "ovni_attr_set_double key num w = attr_set key (json_value_init_number num) w"

definition ovni_attr_set_boolean :: "string \<Rightarrow> int \<Rightarrow> rt \<Rightarrow> rt res" where
  "ovni_attr_set_boolean key v w = attr_set key (json_value_init_boolean v) w"

definition ovni_attr_set_str :: "string \<Rightarrow> string \<Rightarrow> rt \<Rightarrow> rt res" where
  "ovni_attr_set_str key s w = attr_set key (json_value_init_string s) w"

definition attr_get :: "string \<Rightarrow> rt \<Rightarrow> json res" where
  "attr_get key w =
     rbind (get_thread_metadata w) (\<lambda>meta.
       case json_object_dotget_value (Some meta) key of
         None \<Rightarrow> Inl (ERt RtKeyNotFound) | Some v \<Rightarrow> Inr v)"

definition ovni_attr_get_double :: "string \<Rightarrow> rt \<Rightarrow> real res" where
  "ovni_attr_get_double key w =
     rbind (attr_get key w) (\<lambda>v. case v of JSONNumber x \<Rightarrow> Inr x | _ \<Rightarrow> Inl (ERt RtKeyType))"

definition ovni_attr_get_boolean :: "string \<Rightarrow> rt \<Rightarrow> bool res" where
  "ovni_attr_get_boolean key w =
     rbind (attr_get key w) (\<lambda>v. case v of JSONBoolean b \<Rightarrow> Inr b | _ \<Rightarrow> Inl (ERt RtKeyType))"

definition ovni_attr_get_str :: "string \<Rightarrow> rt \<Rightarrow> string res" where
  "ovni_attr_get_str key w =
     rbind (attr_get key w) (\<lambda>v. case v of JSONString s \<Rightarrow> Inr s | _ \<Rightarrow> Inl (ERt RtKeyType))"

definition ovni_attr_flush :: "rt \<Rightarrow> rt res" where
  "ovni_attr_flush w = rbind (get_thread_metadata w) (\<lambda>_. Inr (thread_metadata_store w))"

subsection \<open>Types and labels of marks\<close>

definition mark_key :: "int \<Rightarrow> string" where
  "mark_key type = ''ovni.mark.'' @ dec (nat type)"

definition ovni_mark_type :: "int \<Rightarrow> bool \<Rightarrow> string \<Rightarrow> rt \<Rightarrow> rt res" where
  "ovni_mark_type type stack title w =
     (if type < 0 \<or> type \<ge> 100 then Inl (ERt RtMarkRange)
      else if title = [] then Inl (ERt RtMarkTitle)
      else rbind (get_thread_metadata w) (\<lambda>meta.
        if json_object_dotget_value (Some meta) (mark_key type) \<noteq> None then Inl (ERt RtMarkExists)
        else rbind (meta_set (mark_key type @ ''.title'') (meta_string title) w)
          (meta_set (mark_key type @ ''.chan_type'') (meta_string (if stack then ''stack'' else ''single'')))))"

definition ovni_mark_label :: "int \<Rightarrow> int \<Rightarrow> string \<Rightarrow> rt \<Rightarrow> rt res" where
  "ovni_mark_label type value label w =
     (if type < 0 \<or> type \<ge> 100 then Inl (ERt RtMarkRange)
      else if value \<le> 0 then Inl (ERt RtMarkValue)
      else if label = [] then Inl (ERt RtMarkTitle)
      else rbind (get_thread_metadata w) (\<lambda>meta.
        if json_object_dotget_value (Some meta) (mark_key type) = None then Inl (ERt RtMarkUndefined)
        else let key = mark_key type @ ''.labels.'' @ dec (nat value) in
          if json_object_dotget_value (Some meta) key \<noteq> None then Inl (ERt RtMarkLabelExists)
          else meta_set key (meta_string label) w))"

subsection \<open>The metadata at the start of a thread\<close>

lemma split_dot_simps [simp]:
  "split_dot [] = None"
  "split_dot (c # s) = (if c = CHR ''.'' then Some ([], s)
     else map_option (\<lambda>(k, r). (c # k, r)) (split_dot s))"
  by (simp add: split_dot_def, cases "dropWhile (\<lambda>c. c \<noteq> CHR ''.'') s") (simp_all add: split_dot_def del: dropWhile_eq_Nil_conv)

lemma dots_Nil: "dots [] = [[]]"
  and dots_Cons: "dots (c # s) = (if c = CHR ''.'' then [] # dots s else (c # hd (dots s)) # tl (dots s))"
proof -
  show "dots [] = [[]]" by (subst dots.simps) simp
  show "dots (c # s) = (if c = CHR ''.'' then [] # dots s else (c # hd (dots s)) # tl (dots s))"
  proof (cases "split_dot s")
    case None
    then have "dots s = [s]" by (subst dots.simps) simp
    with None show ?thesis by (subst dots.simps) simp
  next
    case (Some kr)
    then have "dots s = fst kr # dots (snd kr)" by (subst dots.simps) (simp split: prod.splits)
    with Some show ?thesis by (subst dots.simps) (simp split: prod.splits)
  qed
qed

lemma dots_append: "dots (a @ CHR ''.'' # b) = dots a @ dots b"
proof (induction a)
  case Nil
  then show ?case by (simp add: dots_Nil dots_Cons)
next
  case (Cons c a)
  then show ?case by (simp add: dots_Cons)
qed

lemma dots_plain: "CHR ''.'' \<notin> set a \<Longrightarrow> dots a = [a]"
  by (induction a) (auto simp: dots_Nil dots_Cons)

definition initial_meta :: "string \<Rightarrow> string \<Rightarrow> rt \<Rightarrow> json_object" where
  "initial_meta lib commit w =
     [(''version'', JSONNumber 3),
      (''ovni'', JSONObject
        [(''lib'', JSONObject [(''version'', JSONString lib), (''commit'', JSONString commit)]),
         (''part'', JSONString ''thread''),
         (''tid'', JSONNumber (real_of_int (rt_tid w))),
         (''pid'', JSONNumber (real_of_int (rp_pid w))),
         (''loom'', JSONString (rp_loom w)),
         (''app_id'', JSONNumber (real_of_int (rp_app w)))])]"

lemma meta_set_path:
  "meta_set key (Some v) w = (case path_set (dots key) v (rt_meta w) of
     None \<Rightarrow> Inl (ERt RtMetaFailed) | Some ob \<Rightarrow> Inr (w\<lparr>rt_meta := ob\<rparr>))"
  by (simp add: meta_set_def dotset_path)

lemma meta_string_ok: "is_valid_utf8 s \<Longrightarrow> meta_string s = Some (JSONString s)"
  by (simp add: meta_string_def json_value_init_string_def)

lemma meta_number_ok [simp]: "meta_number n = Some (JSONNumber (real_of_int n))"
  by (simp add: meta_number_def json_value_init_number_def)

lemma thread_metadata_populate_ok:
  assumes "is_valid_utf8 lib" and "is_valid_utf8 commit" and "is_valid_utf8 (rp_loom w)" and "rt_meta w = []"
  shows "thread_metadata_populate lib commit w = Inr (w\<lparr>rt_meta := initial_meta lib commit w\<rparr>)"
proof -
  have "is_valid_utf8 ''thread''" by (rule is_valid_utf8_ascii) simp
  with assms show ?thesis
    by (simp add: thread_metadata_populate_def populate_fields_def meta_string_ok meta_set_path dots_keys
        json_object_set_value_def json_object_addn_def initial_meta_def OVNI_METADATA_VERSION_def)
qed

text \<open>The metadata of a thread that is ready: the initial fields and the model of the base events.\<close>

definition started_meta :: "string \<Rightarrow> string \<Rightarrow> rt \<Rightarrow> json_object" where
  "started_meta lib commit w =
     [(''version'', JSONNumber 3),
      (''ovni'', JSONObject
        [(''lib'', JSONObject [(''version'', JSONString lib), (''commit'', JSONString commit)]),
         (''part'', JSONString ''thread''),
         (''tid'', JSONNumber (real_of_int (rt_tid w))),
         (''pid'', JSONNumber (real_of_int (rp_pid w))),
         (''loom'', JSONString (rp_loom w)),
         (''app_id'', JSONNumber (real_of_int (rp_app w))),
         (''require'', JSONObject [(''ovni'', JSONString OVNI_MODEL_VERSION)])])]"

lemma model_version_ok: "version_parse OVNI_MODEL_VERSION = Some (1, 1, 0)" "is_valid_utf8 OVNI_MODEL_VERSION"
proof -
  have e: "OVNI_MODEL_VERSION = dec 1 @ ''.'' @ dec 1 @ ''.'' @ dec 0 @ []"
    by code_simp
  have "length (dec 1 @ ''.'' @ dec 1 @ ''.'' @ dec 0 @ []) < 64" by (simp add: dec.simps)
  from version_parse_dec [OF _ _ _ this] show "version_parse OVNI_MODEL_VERSION = Some (1, 1, 0)" unfolding e by simp
  show "is_valid_utf8 OVNI_MODEL_VERSION" by (rule is_valid_utf8_ascii) (simp add: OVNI_MODEL_VERSION_def)
qed

lemma require_base:
  assumes "rt_ready w" and "rt_meta w = initial_meta lib commit w"
  shows "ovni_thread_require (Some ''ovni'') (Some OVNI_MODEL_VERSION) w = Inr (w\<lparr>rt_meta := started_meta lib commit w\<rparr>)"
proof -
  have "ovni_thread_require (Some ''ovni'') (Some OVNI_MODEL_VERSION) w
      = meta_set ''ovni.require.ovni'' (Some (JSONString OVNI_MODEL_VERSION)) w"
    using assms(1) model_version_ok by (simp add: ovni_thread_require_def meta_string_ok)
  also have "\<dots> = Inr (w\<lparr>rt_meta := started_meta lib commit w\<rparr>)"
    by (simp add: meta_set_path dots_keys assms(2) initial_meta_def started_meta_def json_object_set_value_def
        json_object_addn_def)
  finally show ?thesis .
qed

subsection \<open>Attributes are read back\<close>

lemma attr_set_ok:
  assumes "attr_set key v w = Inr w'"
  shows "\<exists>x. v = Some x \<and> \<not> rt_finished w \<and> rt_ready w \<and> json_object_dotset_value (rt_meta w) key x = Some (rt_meta w')
    \<and> w' = w\<lparr>rt_meta := rt_meta w'\<rparr>"
  using assms by (auto simp: attr_set_def get_thread_metadata_def meta_set_def split: if_splits option.splits)

text \<open>The value that was set is found under its key, and other keys keep theirs.\<close>

lemma attr_set_get:
  assumes "attr_set key (Some x) w = Inr w'"
  shows "attr_get key w' = Inr x" "keys_apart key k \<Longrightarrow> attr_get k w' = attr_get k w"
proof -
  from attr_set_ok [OF assms] have d: "json_object_dotset_value (rt_meta w) key x = Some (rt_meta w')"
    and w: "w' = w\<lparr>rt_meta := rt_meta w'\<rparr>" "\<not> rt_finished w" "rt_ready w" by auto
  have "\<not> rt_finished w'" "rt_ready w'" using w(2,3) by (subst w(1), simp)+
  then have get: "get_thread_metadata w' = Inr (rt_meta w')" "get_thread_metadata w = Inr (rt_meta w)"
    using w(2,3) by (simp_all add: get_thread_metadata_def)
  show "attr_get key w' = Inr x" using get meta.put_fetch [OF d] by (simp add: attr_get_def)
  show "attr_get k w' = attr_get k w" if "keys_apart key k" using get meta.put_other [OF d that] by (simp add: attr_get_def)
qed


text \<open>A thread that is ready, with a type of marks.\<close>

definition demo_ready :: rt where
  "demo_ready = \<lparr>rp_st = ST_READY, rp_app = 1, rp_pid = 10, rp_loom = ''node1'', rt_tid = 20, rt_ready = True,
     rt_finished = False, rt_evbuf = [], rt_cpus = [], rt_rank_set = False, rt_rank = 0, rt_nranks = 0,
     rt_meta = [(''ovni'', JSONObject [(''mark'', JSONObject [(''7'', JSONObject [(''title'', JSONString ''Phase'')])])])],
     os_clock = (\<lambda>i. Some (0, 5)), os_nclock = 0, os_write = (\<lambda>i n. int n), os_nwrite = 0,
     os_file = [], os_pos = 0, os_json = None\<rparr>"

lemma demo_ready_fields: "rt_ready demo_ready" "\<not> rt_finished demo_ready"
  "rt_meta demo_ready = [(''ovni'', JSONObject [(''mark'', JSONObject [(''7'', JSONObject [(''title'', JSONString ''Phase'')])])])]"
  by (simp_all add: demo_ready_def)

lemma attr_set_ready:
  "rt_ready w \<Longrightarrow> \<not> rt_finished w \<Longrightarrow> path_set (dots key) v (rt_meta w) = Some ob \<Longrightarrow>
     attr_set key (Some v) w = Inr (w\<lparr>rt_meta := ob\<rparr>)"
  by (simp add: attr_set_def get_thread_metadata_def meta_set_path)


text \<open>A label can be given to a value of a mark only once in a thread: repeating the call fails, even with
  the same label.\<close>

theorem ovni_mark_label_once:
  assumes "ovni_mark_label type v label w = Inr w'" and "label' \<noteq> []"
  shows "ovni_mark_label type v label' w' = Inl (ERt RtMarkLabelExists)"
proof -
  let ?key = "mark_key type @ ''.labels.'' @ dec (nat v)"
  from assms(1) have r: "0 \<le> type" "type < 100" "0 < v"
    and d: "attr_set ?key (meta_string label) w = Inr w'"
    by (auto simp: ovni_mark_label_def attr_set_def Let_def split: if_splits)
  from attr_set_ok [OF d] obtain x where x: "meta_string label = Some x" "\<not> rt_finished w" "rt_ready w"
    "json_object_dotset_value (rt_meta w) ?key x = Some (rt_meta w')" "w' = w\<lparr>rt_meta := rt_meta w'\<rparr>" by auto
  have k: "dots ?key = dots (mark_key type) @ dots (''labels.'' @ dec (nat v))"
    using dots_append [of "mark_key type" "''labels.'' @ dec (nat v)"] by simp
  have "path_get (dots (mark_key type)) (Some (rt_meta w')) \<noteq> None"
    using path_set_above [OF x(4) [unfolded dotset_path], of "dots (mark_key type)"] k by auto
  moreover have "json_object_dotget_value (Some (rt_meta w')) ?key = Some x" by (rule meta.put_fetch [OF x(4)])
  moreover have "\<not> rt_finished w'" "rt_ready w'" using x(2,3) by (subst x(5), simp)+
  ultimately show ?thesis using r assms(2)
    by (simp add: ovni_mark_label_def get_thread_metadata_def dotget_path [of _ "mark_key type"] Let_def)
qed

theorem ovni_mark_label_once_witness:
  "\<exists>w'. ovni_mark_label 7 1 ''init'' demo_ready = Inr w' \<and> ovni_mark_label 7 1 ''init'' w' = Inl (ERt RtMarkLabelExists)"
proof -
  have k: "mark_key 7 = ''ovni.mark.7''" "dec (Suc 0) = ''1''" by code_simp+
  have d: "dots ''ovni.mark.7'' = [''ovni'', ''mark'', ''7'']"
    "dots ''ovni.mark.7.labels.1'' = [''ovni'', ''mark'', ''7'', ''labels'', ''1'']" by code_simp+
  have "is_valid_utf8 ''init''" by (rule is_valid_utf8_ascii) simp
  then obtain w' where w': "ovni_mark_label 7 1 ''init'' demo_ready = Inr w'"
    by (simp add: ovni_mark_label_def get_thread_metadata_def demo_ready_fields k d dotget_path meta_string_ok meta_set_path Let_def
        json_object_set_value_def json_object_addn_def)
  from ovni_mark_label_once [OF w', of "''init''"] w' show ?thesis by blast
qed

end
