(* ===== verification/Marks.thy ===== *)
theory Marks
  imports Rt_Thread Track Ovni_Event
begin

text \<open>
  User marks: the set-up of \<^verbatim>\<open>src/emu/ovni/mark.c\<close>; the event is in \<open>Ovni_Event\<close>.

  A thread declares in its metadata the types of marks it uses, each with a title, a type of channel and labels for
  its values. The emulator merges the declarations of all the threads in one table, the hash table
  \<^verbatim>\<open>memu->types\<close>, which is a list in the order of insertion, and gives every thread a channel for every type.

  The channels are \<open>MarkChan t i\<close>. The tracks \<^verbatim>\<open>mark.track[i]\<close> of a thread and of a CPU are named like those of a model, with
  an index \<open>MARK_TRACKS\<close> that is not the byte of a model.
\<close>

subsection \<open>Reading the declarations\<close>

definition PRV_OVNI_MARK :: int where "PRV_OVNI_MARK = 100"
definition MARK_TRACKS :: nat where "MARK_TRACKS = 256"

definition find_label :: "int \<Rightarrow> mark_type \<Rightarrow> string option" where
  "find_label v t = map_of (mk_labels t) v"

definition add_label :: "int \<Rightarrow> string \<Rightarrow> mark_type \<Rightarrow> mark_type res" where
  "add_label v label t =
     (case find_label v t of
        Some l \<Rightarrow> if l = label then Inr t else Inl (EMark MarkLabelTaken)
      | None \<Rightarrow>
          if length label \<ge> MAX_PCF_LABEL then Inl (EMark MarkLabelTooLong)
          else Inr (t\<lparr>mk_labels := mk_labels t @ [(v, label)]\<rparr>))"

definition parse_label :: "string \<times> json \<Rightarrow> mark_type \<Rightarrow> mark_type res" where
  "parse_label = (\<lambda>(valuestr, labelval) t.
     case strtol_all valuestr of None \<Rightarrow> Inl (EMark MarkNumber)
     | Some v \<Rightarrow>
         (case json_value_get_string (Some labelval) of None \<Rightarrow> Inl (EMark MarkLabelNotString)
          | Some label \<Rightarrow> add_label v label t))"

definition parse_labels :: "json_object \<Rightarrow> mark_type \<Rightarrow> mark_type res" where
  "parse_labels labels t = foldr_res parse_label labels t"

definition create_mark_type :: "int \<Rightarrow> chan_type \<Rightarrow> string \<Rightarrow> mark_type list \<Rightarrow> mark_type list res" where
  "create_mark_type type ctype title ms =
     (if find_mark_type type ms \<noteq> None then Inl (EMark MarkTypeTaken)
      else if length title \<ge> MAX_PCF_LABEL then Inl (EMark MarkTitleTooLong)
      else Inr (ms @ [\<lparr>mk_type = type, mk_prvtype = type + PRV_OVNI_MARK, mk_index = length ms, mk_ctype = ctype,
                       mk_labels = [], mk_title = title\<rparr>]))"

text \<open>The type is changed in the table, at its place.\<close>

definition put_mark_type :: "mark_type \<Rightarrow> mark_type list \<Rightarrow> mark_type list" where
  "put_mark_type t ms = map (\<lambda>m. if mk_type m = mk_type t then t else m) ms"

definition parse_chan_type :: "string \<Rightarrow> chan_type option" where
  "parse_chan_type s = (if s = ''single'' then Some CHAN_SINGLE else if s = ''stack'' then Some CHAN_STACK else None)"

definition declare_mark :: "int \<Rightarrow> chan_type \<Rightarrow> string \<Rightarrow> mark_type list \<Rightarrow> mark_type list res" where
  "declare_mark type ctype title ms =
     (case find_mark_type type ms of
        None \<Rightarrow> create_mark_type type ctype title ms
      | Some t \<Rightarrow>
          if mk_title t \<noteq> title then Inl (EMark MarkTitleMismatch)
          else if mk_ctype t \<noteq> ctype then Inl (EMark MarkChanTypeMismatch)
          else Inr ms)"

definition mark_labels :: "int \<Rightarrow> json_object \<Rightarrow> mark_type list \<Rightarrow> mark_type list res" where
  "mark_labels type mark ms =
     (case json_object_getn_value mark ''labels'' of None \<Rightarrow> Inr ms
      | Some v \<Rightarrow>
          (case json_value_get_object (Some v) of None \<Rightarrow> Inl (EMark MarkLabelsNotObject)
           | Some labels \<Rightarrow>
               (case find_mark_type type ms of None \<Rightarrow> Inr ms
                | Some t \<Rightarrow> rbind (parse_labels labels t) (\<lambda>t1. Inr (put_mark_type t1 ms)))))"

definition parse_mark :: "string \<times> json \<Rightarrow> mark_type list \<Rightarrow> mark_type list res" where
  "parse_mark = (\<lambda>(typestr, markval) ms.
     case strtol_all typestr of None \<Rightarrow> Inl (EMark MarkNumber)
     | Some type \<Rightarrow>
         if type < 0 \<or> type \<ge> 100 then Inl (EMark MarkTypeRange)
         else case json_value_get_object (Some markval) of None \<Rightarrow> Inl (EMark MarkNotObject)
         | Some mark \<Rightarrow>
             (case json_value_get_string (json_object_getn_value mark ''title'') of None \<Rightarrow> Inl (EMark MarkNoTitle)
              | Some title \<Rightarrow>
                  (case json_value_get_string (json_object_getn_value mark ''chan_type'') of None \<Rightarrow> Inl (EMark MarkNoChanType)
                   | Some s \<Rightarrow>
                       (case parse_chan_type s of None \<Rightarrow> Inl (EMark MarkChanType)
                        | Some ctype \<Rightarrow> rbind (declare_mark type ctype title ms) (mark_labels type mark)))))"

definition scan_thread :: "json_object option \<Rightarrow> mark_type list \<Rightarrow> mark_type list res" where
  "scan_thread meta ms =
     (case json_object_dotget_object meta ''ovni.mark'' of None \<Rightarrow> Inr ms | Some ob \<Rightarrow> foldr_res parse_mark ob ms)"

subsection \<open>Channels and tracks\<close>

definition mark_name :: "string \<Rightarrow> int \<Rightarrow> mark_type \<Rightarrow> string" where
  "mark_name what gindex type = what @ dec (nat gindex) @ ''.mark'' @ dec (nat (mk_type type))"

definition create_thread_chan :: "mark_type list \<Rightarrow> nat \<Rightarrow> 'x sys_bay_scheme \<Rightarrow> 'x sys_bay_scheme res" where
  "create_thread_chan types t w =
     rbind (foldr_res (\<lambda>type v.
         rbind (chan_init (mk_ctype type) (mark_name ''thread'' (th_gindex (threads v t)) type)) (\<lambda>ch.
           new_chan (MarkChan t (mk_index type)) (chan_prop_set CHAN_ALLOW_DUP True ch) v)) types w)
       (foldr_res (\<lambda>type v. track_init (ModelThreadTrack t MARK_TRACKS (mk_index type)) TRACK_TH_ACT
         (mark_name ''thread'' (th_gindex (threads v t)) type) v) types)"

definition mark_init_cpu :: "mark_type list \<Rightarrow> nat \<Rightarrow> 'x sys_bay_scheme \<Rightarrow> 'x sys_bay_scheme res" where
  "mark_init_cpu types c w =
     foldr_res (\<lambda>type v. track_init (ModelCpuTrack c MARK_TRACKS (mk_index type)) TRACK_TH_RUN
       (mark_name ''cpu'' (cp_gindex (cpus v c)) type) v) types w"

definition mark_create ::
  "(nat \<Rightarrow> json_object option) \<Rightarrow> nat list \<Rightarrow> nat list \<Rightarrow> 'x emu_scheme \<Rightarrow> 'x emu_scheme res" where
  "mark_create metas ths cps w =
     rbind (foldr_res scan_thread (map metas ths) []) (\<lambda>types.
       let w1 = w\<lparr>em_marks := types\<rparr> in
       if types = [] then Inr w1
       else rbind (foldr_res (create_thread_chan types) ths w1) (foldr_res (mark_init_cpu types) cps))"

definition mark_flags :: "prv_flag \<Rightarrow> bool" where
  "mark_flags f \<longleftrightarrow> f = PRV_SKIPDUPNULL"

definition mark_connect_thread_prv :: "mark_type list \<Rightarrow> nat \<Rightarrow> nat \<Rightarrow> 'x sys_bay_scheme \<Rightarrow> 'x sys_bay_scheme res" where
  "mark_connect_thread_prv types k t w =
     foldr_res (\<lambda>type v.
       let tr = ModelThreadTrack t MARK_TRACKS (mk_index type); inp = MarkChan t (mk_index type) in
       rbind (track_th_input_chan tr TRACK_TH_ACT (ThreadChan t TH_CHAN_STATE) inp v) (\<lambda>v1.
         prv_register k (th_gindex (threads v1 t)) (mk_prvtype type) (track_get_output tr TRACK_TH_ACT inp) mark_flags v1)) types w"

definition mark_create_type :: "mark_type \<Rightarrow> pcf \<Rightarrow> pcf res" where
  "mark_create_type type pcf =
     rbind (pcf_add_type (c_int (mk_prvtype type)) (mk_title type) pcf) (\<lambda>pcf1.
     rbind (foldr_res (\<lambda>(v, label). pcf_add_value (c_int v) label) (mk_labels type) (last pcf1)) (\<lambda>t.
       Inr (butlast pcf1 @ [t])))"

definition mark_init_pcf :: "mark_type list \<Rightarrow> pcf \<Rightarrow> pcf res" where
  "mark_init_pcf types pcf = foldr_res mark_create_type types pcf"

definition mark_connect_thread :: "mark_type list \<Rightarrow> nat list \<Rightarrow> 'x pcf_st \<Rightarrow> 'x pcf_st res" where
  "mark_connect_thread types ths = (\<lambda>(pcfs, w).
     case recorder_find_pvt ''thread'' w of None \<Rightarrow> Inl (EThread ThreadNoPvt)
     | Some k \<Rightarrow>
         rbind (foldr_res (mark_connect_thread_prv types k) ths w) (\<lambda>w1.
         rbind (mark_init_pcf types (pcfs k)) (\<lambda>pcf. Inr (pcfs(k := pcf), w1))))"

definition mark_connect_cpu_prv :: "mark_type list \<Rightarrow> nat list \<Rightarrow> nat \<Rightarrow> nat \<Rightarrow> 'x sys_bay_scheme \<Rightarrow> 'x sys_bay_scheme res" where
  "mark_connect_cpu_prv types ths k c w =
     foldr_res (\<lambda>type v.
       let i = mk_index type; tr = ModelCpuTrack c MARK_TRACKS i in
       rbind (track_set_select tr (CpuChan c CPU_CHAN_THRUN) None (length ths) v) (\<lambda>v1.
       rbind (foldr_res (\<lambda>t u. track_set_input tr (nat (th_gindex (threads u t))) (MarkChan t i) u) ths v1) (\<lambda>v2.
         prv_register k (cp_gindex (cpus v2 c)) (mk_prvtype type) tr mark_flags v2))) types w"

definition mark_connect_cpu :: "mark_type list \<Rightarrow> nat list \<Rightarrow> nat list \<Rightarrow> 'x pcf_st \<Rightarrow> 'x pcf_st res" where
  "mark_connect_cpu types ths cps = (\<lambda>(pcfs, w).
     case recorder_find_pvt ''cpu'' w of None \<Rightarrow> Inl (ECpu CpuNoPvt)
     | Some k \<Rightarrow>
         rbind (foldr_res (mark_connect_cpu_prv types ths k) cps w) (\<lambda>w1.
         rbind (mark_init_pcf types (pcfs k)) (\<lambda>pcf. Inr (pcfs(k := pcf), w1))))"

definition mark_connect :: "mark_type list \<Rightarrow> nat list \<Rightarrow> nat list \<Rightarrow> 'x pcf_st \<Rightarrow> 'x pcf_st res" where
  "mark_connect types ths cps s =
     (if types = [] then Inr s
      else rbind (mark_connect_thread types ths s) (mark_connect_cpu types ths cps))"

subsection \<open>The table has every declaration\<close>

definition mark_ok :: "mark_type \<Rightarrow> bool" where
  "mark_ok m \<longleftrightarrow> 0 \<le> mk_type m \<and> mk_type m < 100 \<and> mk_prvtype m = mk_type m + PRV_OVNI_MARK \<and> length (mk_title m) < MAX_PCF_LABEL
     \<and> distinct (map fst (mk_labels m)) \<and> (\<forall>l \<in> set (mk_labels m). length (snd l) < MAX_PCF_LABEL)"

definition marks_ok :: "mark_type list \<Rightarrow> bool" where
  "marks_ok ms \<longleftrightarrow> distinct (map mk_type ms) \<and> map mk_index ms = [0..<length ms] \<and> (\<forall>m \<in> set ms. mark_ok m)"

text \<open>A type keeps everything but its labels, of which it may get more.\<close>

definition mark_extends :: "mark_type \<Rightarrow> mark_type \<Rightarrow> bool" where
  "mark_extends m m' \<longleftrightarrow> mk_type m' = mk_type m \<and> mk_title m' = mk_title m \<and> mk_ctype m' = mk_ctype m \<and> mk_index m' = mk_index m
     \<and> mk_prvtype m' = mk_prvtype m \<and> set (mk_labels m) \<subseteq> set (mk_labels m')"

definition marks_extend :: "mark_type list \<Rightarrow> mark_type list \<Rightarrow> bool" where
  "marks_extend ms ms' \<longleftrightarrow> (\<forall>m \<in> set ms. \<exists>m' \<in> set ms'. mark_extends m m')"

lemma mark_extends_refl [simp]: "mark_extends m m"
  by (simp add: mark_extends_def)

lemma mark_extends_trans: "mark_extends m m' \<Longrightarrow> mark_extends m' m'' \<Longrightarrow> mark_extends m m''"
  by (auto simp: mark_extends_def)

lemma marks_extend_refl [simp]: "marks_extend ms ms"
  by (auto simp: marks_extend_def intro: bexI [where P = "mark_extends m" for m, OF mark_extends_refl])

lemma marks_extend_trans: "marks_extend ms ms' \<Longrightarrow> marks_extend ms' ms'' \<Longrightarrow> marks_extend ms ms''"
  unfolding marks_extend_def by (meson mark_extends_trans)

text \<open>A declaration, a type of marks in the metadata of a thread, and the type of the table that has it.\<close>

definition has_labels :: "json_object \<Rightarrow> mark_type \<Rightarrow> bool" where
  "has_labels labels m \<longleftrightarrow> (\<forall>(vs, lv) \<in> set labels. \<exists>v l. strtol_all vs = Some v \<and> lv = JSONString l \<and> (v, l) \<in> set (mk_labels m))"

definition decl_labels :: "json_object \<Rightarrow> mark_type \<Rightarrow> bool" where
  "decl_labels mark m \<longleftrightarrow> (case json_object_getn_value mark ''labels'' of None \<Rightarrow> True
     | Some v \<Rightarrow> \<exists>labels. v = JSONObject labels \<and> has_labels labels m)"

definition declares :: "string \<times> json \<Rightarrow> mark_type \<Rightarrow> bool" where
  "declares = (\<lambda>(typestr, markval) m.
     strtol_all typestr = Some (mk_type m)
     \<and> (\<exists>mark. markval = JSONObject mark
          \<and> json_object_getn_value mark ''title'' = Some (JSONString (mk_title m))
          \<and> json_object_getn_value mark ''chan_type'' = Some (JSONString (case mk_ctype m of CHAN_SINGLE \<Rightarrow> ''single'' | CHAN_STACK \<Rightarrow> ''stack''))
          \<and> decl_labels mark m))"

lemma has_labels_extends: "has_labels labels m \<Longrightarrow> mark_extends m m' \<Longrightarrow> has_labels labels m'"
  unfolding has_labels_def mark_extends_def by blast

lemma declares_extends:
  assumes "declares d m" and "mark_extends m m'"
  shows "declares d m'"
proof -
  have "mk_type m' = mk_type m" "mk_title m' = mk_title m" "mk_ctype m' = mk_ctype m" using assms(2) by (simp_all add: mark_extends_def)
  moreover have "decl_labels mark m \<Longrightarrow> decl_labels mark m'" for mark
    using has_labels_extends [OF _ assms(2)] by (auto simp: decl_labels_def split: option.splits)
  ultimately show ?thesis using assms(1) by (auto simp: declares_def)
qed

lemma parse_label_ok:
  assumes "parse_label d t = Inr t'" and "mark_ok t"
  shows "mark_ok t' \<and> mark_extends t t' \<and> has_labels [d] t'"
proof -
  obtain vs lv where d: "d = (vs, lv)" by (cases d)
  from assms(1) d obtain v l where v: "strtol_all vs = Some v" "lv = JSONString l" and a: "add_label v l t = Inr t'"
    by (auto simp: parse_label_def get_string_Some split: option.splits)
  have "(v, l) \<in> set (mk_labels t') \<and> mark_ok t' \<and> mark_extends t t'"
  proof (cases "find_label v t")
    case None
    with a have "length l < MAX_PCF_LABEL" "t' = t\<lparr>mk_labels := mk_labels t @ [(v, l)]\<rparr>"
      by (auto simp: add_label_def split: if_splits)
    with None assms(2) show ?thesis
      by (auto simp: mark_ok_def mark_extends_def find_label_def map_of_eq_None_iff)
  next
    case (Some l')
    with a have "l' = l" "t' = t" by (auto simp: add_label_def split: if_splits)
    with Some assms(2) show ?thesis by (auto simp: find_label_def dest: map_of_SomeD)
  qed
  with v d show ?thesis by (simp add: has_labels_def)
qed

lemma parse_labels_ok:
  assumes "parse_labels labels t = Inr t'" and "mark_ok t"
  shows "mark_ok t' \<and> mark_extends t t' \<and> has_labels labels t'"
  using assms unfolding parse_labels_def
proof (induction labels arbitrary: t)
  case (Cons d labels)
  then obtain t1 where t1: "parse_label d t = Inr t1" "foldr_res parse_label labels t1 = Inr t'" by auto
  note 1 = parse_label_ok [OF t1(1) Cons.prems(2)]
  have 2: "mark_ok t' \<and> mark_extends t1 t' \<and> has_labels labels t'" using Cons.IH [OF t1(2)] 1 by simp
  with 1 have "mark_extends t t'" using mark_extends_trans by blast
  moreover have "has_labels (d # labels) t'"
    using 1 2 has_labels_extends [of "[d]" t1 t'] by (simp add: has_labels_def)
  ultimately show ?case using 2 by simp
qed (simp add: has_labels_def)

lemma find_mark_type_in: "find_mark_type type ms = Some m \<Longrightarrow> m \<in> set ms \<and> mk_type m = type"
  by (auto simp: find_mark_type_def find_Some_iff)

lemma find_mark_type_iff:
  "distinct (map mk_type ms) \<Longrightarrow> m \<in> set ms \<Longrightarrow> find_mark_type (mk_type m) ms = Some m"
  by (induction ms) (auto simp: find_mark_type_def)

lemma declare_mark_ok:
  assumes "declare_mark type ctype title ms = Inr ms'" and ok: "marks_ok ms" and "0 \<le> type" "type < 100"
  shows "marks_ok ms' \<and> marks_extend ms ms' \<and> (\<exists>m. find_mark_type type ms' = Some m \<and> mk_title m = title \<and> mk_ctype m = ctype)"
proof (cases "find_mark_type type ms")
  case None
  let ?m = "\<lparr>mk_type = type, mk_prvtype = type + PRV_OVNI_MARK, mk_index = length ms, mk_ctype = ctype, mk_labels = [], mk_title = title\<rparr>"
  from None assms(1) have ms': "ms' = ms @ [?m]" and len: "length title < MAX_PCF_LABEL"
    by (auto simp: declare_mark_def create_mark_type_def split: if_splits)
  have new: "type \<notin> mk_type ` set ms" using None by (auto simp: find_mark_type_def find_None_iff)
  have m: "marks_ok ms'" using ok new len assms(3,4) by (auto simp: marks_ok_def ms' mark_ok_def)
  then have "find_mark_type (mk_type ?m) ms' = Some ?m" by (intro find_mark_type_iff) (auto simp: marks_ok_def ms')
  with m show ?thesis by (force simp: ms' marks_extend_def)
next
  case (Some t)
  with assms show ?thesis by (auto simp: declare_mark_def split: if_splits)
qed

lemma put_mark_type_ok:
  assumes ok: "marks_ok ms" and t: "t \<in> set ms" and e: "mark_extends t t'" and "mark_ok t'"
  shows "marks_ok (put_mark_type t' ms) \<and> marks_extend ms (put_mark_type t' ms) \<and> t' \<in> set (put_mark_type t' ms)"
proof -
  have same: "m = t" if "m \<in> set ms" "mk_type m = mk_type t" for m
    using ok that t find_mark_type_iff [of ms] by (metis marks_ok_def option.inject)
  have e': "mk_type t' = mk_type t" "mk_index t' = mk_index t" using e by (simp_all add: mark_extends_def)
  have "map mk_type (put_mark_type t' ms) = map mk_type ms" "map mk_index (put_mark_type t' ms) = map mk_index ms"
    using same e' by (auto simp: put_mark_type_def)
  moreover have "\<exists>m' \<in> set (put_mark_type t' ms). mark_extends m m'" if "m \<in> set ms" for m
  proof (cases "mk_type m = mk_type t")
    case True
    with that same [OF that] e e' show ?thesis by (auto simp: put_mark_type_def)
  next
    case False
    with that e' have "m \<in> set (put_mark_type t' ms)" by (force simp: put_mark_type_def)
    then show ?thesis by (auto intro: bexI [where P = "mark_extends m" for m, OF mark_extends_refl])
  qed
  moreover have "\<forall>m \<in> set (put_mark_type t' ms). mark_ok m" "t' \<in> set (put_mark_type t' ms)" "length (put_mark_type t' ms) = length ms"
    using ok assms(4) t e' by (auto simp: marks_ok_def put_mark_type_def)
  ultimately show ?thesis using ok by (simp add: marks_ok_def marks_extend_def)
qed

lemma parse_chan_type_Some:
  "parse_chan_type s = Some c \<longleftrightarrow> s = (case c of CHAN_SINGLE \<Rightarrow> ''single'' | CHAN_STACK \<Rightarrow> ''stack'')"
  by (cases c) (auto simp: parse_chan_type_def)

lemma parse_mark_ok:
  assumes "parse_mark d ms = Inr ms'" and ok: "marks_ok ms"
  shows "marks_ok ms' \<and> marks_extend ms ms' \<and> (\<exists>m \<in> set ms'. declares d m)"
proof -
  obtain typestr markval where d: "d = (typestr, markval)" by (cases d)
  from assms(1) d obtain type mark title s ctype ms1 where
    p: "strtol_all typestr = Some type" "0 \<le> type" "type < 100" "markval = JSONObject mark"
      "json_object_getn_value mark ''title'' = Some (JSONString title)"
      "json_object_getn_value mark ''chan_type'' = Some (JSONString s)" "parse_chan_type s = Some ctype"
    and 1: "declare_mark type ctype title ms = Inr ms1" and 2: "mark_labels type mark ms1 = Inr ms'"
    by (auto simp: parse_mark_def get_string_Some get_object_Some split: option.splits if_splits)
  from declare_mark_ok [OF 1 ok p(2,3)] obtain m where m: "marks_ok ms1" "marks_extend ms ms1"
    "find_mark_type type ms1 = Some m" "mk_title m = title" "mk_ctype m = ctype" by blast
  note mi = find_mark_type_in [OF m(3)]
  have decl: "declares d m'" if "mark_extends m m'" "decl_labels mark m'" for m'
    using that p m(4,5) mi by (auto simp: declares_def d mark_extends_def parse_chan_type_Some)
  show ?thesis
  proof (cases "json_object_getn_value mark ''labels''")
    case None
    with 2 have "ms' = ms1" by (simp add: mark_labels_def)
    with m(1,2) mi decl [of m] None show ?thesis by (auto simp: decl_labels_def)
  next
    case (Some v)
    with 2 m(3) obtain labels t where v: "v = JSONObject labels" and t: "parse_labels labels m = Inr t" "ms' = put_mark_type t ms1"
      by (auto simp: mark_labels_def get_object_Some split: option.splits)
    have "mark_ok m" using m(1) mi by (simp add: marks_ok_def)
    note l = parse_labels_ok [OF t(1) this]
    with put_mark_type_ok [OF m(1), of m t] mi t(2) have 3: "marks_ok ms'" "marks_extend ms1 ms'" "t \<in> set ms'" by auto
    have "declares d t" using decl [of t] l Some v by (simp add: decl_labels_def)
    with 3 marks_extend_trans [OF m(2) 3(2)] show ?thesis by blast
  qed
qed

lemma parse_marks_ok:
  assumes "foldr_res parse_mark ds ms = Inr ms'" and "marks_ok ms"
  shows "marks_ok ms' \<and> marks_extend ms ms' \<and> (\<forall>d \<in> set ds. \<exists>m \<in> set ms'. declares d m)"
  using assms
proof (induction ds arbitrary: ms)
  case (Cons d ds)
  then obtain ms1 where 1: "parse_mark d ms = Inr ms1" and 2: "foldr_res parse_mark ds ms1 = Inr ms'" by auto
  note p = parse_mark_ok [OF 1 Cons.prems(2)]
  note ih = Cons.IH [OF 2 conjunct1 [OF p]]
  from p obtain m where m: "m \<in> set ms1" "declares d m" by blast
  with ih obtain m' where "m' \<in> set ms'" "mark_extends m m'" by (auto simp: marks_extend_def)
  with m(2) have "\<exists>m \<in> set ms'. declares d m" using declares_extends by blast
  with p ih show ?case using marks_extend_trans by auto
qed simp

lemma scan_threads_ok:
  assumes "foldr_res scan_thread metas ms = Inr ms'" and "marks_ok ms"
  shows "marks_ok ms' \<and> marks_extend ms ms'
    \<and> (\<forall>meta \<in> set metas. \<forall>ob. json_object_dotget_object meta ''ovni.mark'' = Some ob \<longrightarrow>
         (\<forall>d \<in> set ob. \<exists>m \<in> set ms'. declares d m))"
  using assms
proof (induction metas arbitrary: ms)
  case (Cons meta metas)
  then obtain ms1 where 1: "scan_thread meta ms = Inr ms1" and 2: "foldr_res scan_thread metas ms1 = Inr ms'" by auto
  have p: "marks_ok ms1 \<and> marks_extend ms ms1
    \<and> (\<forall>ob. json_object_dotget_object meta ''ovni.mark'' = Some ob \<longrightarrow> (\<forall>d \<in> set ob. \<exists>m \<in> set ms1. declares d m))"
    using 1 parse_marks_ok [OF _ Cons.prems(2)] Cons.prems(2) by (auto simp: scan_thread_def split: option.splits)
  note ih = Cons.IH [OF 2 conjunct1 [OF p]]
  have "\<exists>m \<in> set ms'. declares d m" if "\<exists>m \<in> set ms1. declares d m" for d
    using that ih declares_extends unfolding marks_extend_def by meson
  with p ih show ?case using marks_extend_trans by auto
qed simp

subsection \<open>From the runtime to the emulator\<close>

text \<open>The keys of the metadata under which the runtime writes a type of marks.\<close>

definition mark_path :: "int \<Rightarrow> string list \<Rightarrow> string list" where
  "mark_path type ks = [''ovni'', ''mark'', dec (nat type)] @ ks"

lemma dec_no_dot: "CHR ''.'' \<notin> set (dec n)"
  using dec_no_delim [of "''.''" n] by (auto simp: list_all_iff)

lemma dots_mark_key:
  "CHR ''.'' \<notin> set k \<Longrightarrow> dots (mark_key type @ CHR ''.'' # k) = mark_path type [k]"
  "dots (mark_key type @ ''.labels.'' @ dec (nat v)) = mark_path type [''labels'', dec (nat v)]"
proof -
  have m: "dots (mark_key type) = [''ovni'', ''mark'', dec (nat type)]"
    using dots_append [of "''ovni.mark''" "dec (nat type)"] by (simp add: mark_key_def dots_plain [OF dec_no_dot] dots_keys)
  show "CHR ''.'' \<notin> set k \<Longrightarrow> dots (mark_key type @ CHR ''.'' # k) = mark_path type [k]"
    using dots_append [of "mark_key type" k] m by (simp add: mark_path_def dots_plain)
  have "dots (''labels.'' @ dec (nat v)) = [''labels'', dec (nat v)]"
    using dots_append [of "''labels''" "dec (nat v)"] by (simp add: dots_plain dec_no_dot)
  with dots_append [of "mark_key type" "''labels.'' @ dec (nat v)"] m
  show "dots (mark_key type @ ''.labels.'' @ dec (nat v)) = mark_path type [''labels'', dec (nat v)]"
    by (simp add: mark_path_def)
qed

lemma meta_set_get:
  assumes "meta_set key (meta_string s) w = Inr w'"
  shows "path_get (dots key) (Some (rt_meta w')) = Some (JSONString s)"
    and "\<not> prefix (dots key) ks \<Longrightarrow> \<not> prefix ks (dots key) \<Longrightarrow> path_get ks (Some (rt_meta w')) = path_get ks (Some (rt_meta w))"
proof -
  from assms have "path_set (dots key) (JSONString s) (rt_meta w) = Some (rt_meta w')"
    by (auto simp: meta_set_def meta_string_def json_value_init_string_def dotset_path split: option.splits if_splits)
  then show "path_get (dots key) (Some (rt_meta w')) = Some (JSONString s)"
    "\<not> prefix (dots key) ks \<Longrightarrow> \<not> prefix ks (dots key) \<Longrightarrow> path_get ks (Some (rt_meta w')) = path_get ks (Some (rt_meta w))"
    using path_set_get path_set_other by blast+
qed

lemma ovni_mark_type_meta:
  assumes "ovni_mark_type type stack title w = Inr w'"
  shows "0 \<le> type \<and> type < 100 \<and> path_get (mark_path type [''title'']) (Some (rt_meta w')) = Some (JSONString title)
    \<and> path_get (mark_path type [''chan_type'']) (Some (rt_meta w')) = Some (JSONString (if stack then ''stack'' else ''single''))"
proof -
  from assms obtain w1 where "0 \<le> type" "type < 100" and 1: "meta_set (mark_key type @ ''.title'') (meta_string title) w = Inr w1"
    and 2: "meta_set (mark_key type @ ''.chan_type'') (meta_string (if stack then ''stack'' else ''single'')) w1 = Inr w'"
    by (auto simp: ovni_mark_type_def split: if_splits)
  moreover have "path_get (mark_path type [''title'']) (Some (rt_meta w')) = path_get (mark_path type [''title'']) (Some (rt_meta w1))"
    by (rule meta_set_get(2) [OF 2]) (simp_all add: dots_mark_key(1) mark_path_def)
  ultimately show ?thesis using meta_set_get(1) [OF 1] meta_set_get(1) [OF 2] by (simp add: dots_mark_key(1))
qed

lemma dec_inject: "dec m = dec n \<longleftrightarrow> m = n"
  by (metis digits_value_dec of_nat_eq_iff)

lemma ovni_mark_labels_meta:
  assumes "foldr_res (\<lambda>(v, l). ovni_mark_label type v l) labels w = Inr w'"
  shows "(\<forall>(v, l) \<in> set labels. 0 < v \<and> path_get (mark_path type [''labels'', dec (nat v)]) (Some (rt_meta w')) = Some (JSONString l))
    \<and> (\<forall>k. k \<noteq> ''labels'' \<longrightarrow> path_get (mark_path type [k]) (Some (rt_meta w')) = path_get (mark_path type [k]) (Some (rt_meta w)))
    \<and> (\<forall>v x. path_get (mark_path type [''labels'', dec v]) (Some (rt_meta w)) = Some x \<longrightarrow>
         path_get (mark_path type [''labels'', dec v]) (Some (rt_meta w')) = Some x)"
  using assms
proof (induction labels arbitrary: w)
  case (Cons d labels)
  obtain v l where d: "d = (v, l)" by (cases d)
  let ?key = "mark_key type @ ''.labels.'' @ dec (nat v)"
  from Cons.prems d obtain w1 where 1: "ovni_mark_label type v l w = Inr w1"
    and 2: "foldr_res (\<lambda>(v, l). ovni_mark_label type v l) labels w1 = Inr w'" by auto
  from 1 have v: "0 < v" and s: "meta_set ?key (meta_string l) w = Inr w1"
    and "json_object_dotget_value (Some (rt_meta w)) ?key = None"
    by (auto simp: ovni_mark_label_def get_thread_metadata_def Let_def split: if_splits)
  then have new: "path_get (mark_path type [''labels'', dec (nat v)]) (Some (rt_meta w)) = None"
    by (simp only: dotget_path dots_mark_key(2))
  note g = meta_set_get [OF s, unfolded dots_mark_key(2)]
  have other: "path_get (mark_path type [k]) (Some (rt_meta w1)) = path_get (mark_path type [k]) (Some (rt_meta w))" if "k \<noteq> ''labels''" for k
    by (rule g(2)) (use that in \<open>auto simp: mark_path_def\<close>)
  have old: "path_get (mark_path type [''labels'', dec u]) (Some (rt_meta w1)) = Some x"
    if "path_get (mark_path type [''labels'', dec u]) (Some (rt_meta w)) = Some x" for u x
  proof -
    have "u \<noteq> nat v" using that new by auto
    then have "path_get (mark_path type [''labels'', dec u]) (Some (rt_meta w1)) = path_get (mark_path type [''labels'', dec u]) (Some (rt_meta w))"
      by (intro g(2)) (auto simp: mark_path_def dec_inject)
    with that show ?thesis by simp
  qed
  from Cons.IH [OF 2] g(1) other old v d show ?case by auto
qed simp

text \<open>C22. Marks declared in a program are the ones of the trace: when a thread declares a type of marks and
  labels for its values with the functions of the runtime, and the emulator reads the metadata of a set of threads with that one
  among them, then the table of types has the type, with the title and the kind of channel that were declared and every
  label. The types of the table are distinct and numbered in order, and get the Paraver types 100 to 199.\<close>

theorem marks_reach_emulator:
  assumes "ovni_mark_type type stack title w = Inr w1"
    and "foldr_res (\<lambda>(v, l). ovni_mark_label type v l) labels w1 = Inr w2" and "\<forall>(v, l) \<in> set labels. v < 2 ^ 63"
    and "foldr_res scan_thread metas [] = Inr ms" and "Some (rt_meta w2) \<in> set metas"
  shows "marks_ok ms \<and> (\<exists>m. find_mark_type type ms = Some m \<and> mk_title m = title
    \<and> mk_ctype m = (if stack then CHAN_STACK else CHAN_SINGLE) \<and> (\<forall>(v, l) \<in> set labels. find_label v m = Some l))"
proof -
  let ?g = "\<lambda>ks. path_get (mark_path type ks) (Some (rt_meta w2))"
  note t = ovni_mark_type_meta [OF assms(1)] and l = ovni_mark_labels_meta [OF assms(2)]
  have title: "?g [''title''] = Some (JSONString title)" and ct: "?g [''chan_type''] = Some (JSONString (if stack then ''stack'' else ''single''))"
    and labels: "\<And>v l. (v, l) \<in> set labels \<Longrightarrow> 0 < v \<and> ?g [''labels'', dec (nat v)] = Some (JSONString l)"
    using t l by auto
  from title obtain ob mark where ob: "json_object_dotget_object (Some (rt_meta w2)) ''ovni.mark'' = Some ob"
    "json_object_getn_value ob (dec (nat type)) = Some (JSONObject mark)"
    by (auto simp: mark_path_def json_object_dotget_object_def dotget_path dots_keys split: option.splits dest!: get_value_object)
  have g: "?g (k # ks) = path_get (k # ks) (Some mark)" for k ks
    using ob by (auto simp: mark_path_def json_object_dotget_object_def dotget_path dots_keys get_object_Some split: option.splits if_splits)
  have ok0: "marks_ok []" by (simp add: marks_ok_def)
  note sc = scan_threads_ok [OF assms(4) ok0]
  then obtain m where m: "m \<in> set ms" "declares (dec (nat type), JSONObject mark) m"
    using ob assms(5) getn_in by blast
  have "strtol_all (dec (nat type)) = Some type" using t strtol_dec [of "nat type"] by simp
  with m(2) have mt: "mk_type m = type" "mk_title m = title" "mk_ctype m = (if stack then CHAN_STACK else CHAN_SINGLE)"
    using title [unfolded g] ct [unfolded g] by (auto simp: declares_def split: chan_type.splits if_splits option.splits)
  have lab: "find_label v m = Some lb" if "(v, lb) \<in> set labels" for v lb
  proof -
    from labels [OF that] have v: "0 < v" "path_get [''labels'', dec (nat v)] (Some mark) = Some (JSONString lb)" by (simp_all add: g)
    then obtain ls where ls: "json_object_getn_value mark ''labels'' = Some (JSONObject ls)" "json_object_getn_value ls (dec (nat v)) = Some (JSONString lb)"
      by (auto split: option.splits dest!: get_value_object)
    have "has_labels ls m" using m(2) ls(1) by (auto simp: declares_def decl_labels_def)
    with getn_in [OF ls(2)] have "\<exists>v'. strtol_all (dec (nat v)) = Some v' \<and> (v', lb) \<in> set (mk_labels m)" by (auto simp: has_labels_def)
    moreover have "strtol_all (dec (nat v)) = Some v" using v(1) assms(3) that strtol_dec [of "nat v"] by auto
    moreover have "distinct (map fst (mk_labels m))" using sc m(1) by (simp add: marks_ok_def mark_ok_def)
    ultimately show ?thesis by (auto simp: find_label_def)
  qed
  have "find_mark_type type ms = Some m" using find_mark_type_iff [of ms m] sc m(1) mt(1) by (simp add: marks_ok_def)
  with sc mt lab show ?thesis by auto
qed

text \<open>A thread that declares a stack of iterations with two labels.\<close>

definition demo_fresh :: rt where
  "demo_fresh = demo_ready\<lparr>rt_meta := []\<rparr>"

lemma demo_mark_keys:
  "dots (mark_key 3) = [''ovni'', ''mark'', ''3'']"
  "dots (mark_key 3 @ ''.title'') = [''ovni'', ''mark'', ''3'', ''title'']"
  "dots (mark_key 3 @ ''.chan_type'') = [''ovni'', ''mark'', ''3'', ''chan_type'']"
  "dots (mark_key 3 @ ''.labels.'' @ dec (Suc 0)) = [''ovni'', ''mark'', ''3'', ''labels'', ''1'']"
  by code_simp+

lemma demo_mark_strings: "is_valid_utf8 ''Iter''" "is_valid_utf8 ''stack''" "is_valid_utf8 ''init''"
  by (rule is_valid_utf8_ascii, simp)+

theorem marks_reach_emulator_witness:
  "\<exists>w1 w2 ms m. ovni_mark_type 3 True ''Iter'' demo_fresh = Inr w1 \<and> ovni_mark_label 3 1 ''init'' w1 = Inr w2
     \<and> foldr_res scan_thread [None, Some (rt_meta w2)] [] = Inr ms
     \<and> find_mark_type 3 ms = Some m \<and> mk_ctype m = CHAN_STACK \<and> find_label 1 m = Some ''init''"
proof -
  note demo_mark_strings [simp] and json_object_set_value_def [simp] and json_object_addn_def [simp]
  have r: "rt_ready demo_fresh" "\<not> rt_finished demo_fresh" "rt_meta demo_fresh = []"
    by (simp_all add: demo_fresh_def demo_ready_def)
  let ?m1 = "[(''ovni'', JSONObject [(''mark'', JSONObject [(''3'', JSONObject [(''title'', JSONString ''Iter''), (''chan_type'', JSONString ''stack'')])])])]"
  let ?m2 = "[(''ovni'', JSONObject [(''mark'', JSONObject [(''3'', JSONObject [(''title'', JSONString ''Iter''), (''chan_type'', JSONString ''stack''),
    (''labels'', JSONObject [(''1'', JSONString ''init'')])])])])]"
  have 1: "ovni_mark_type 3 True ''Iter'' demo_fresh = Inr (demo_fresh\<lparr>rt_meta := ?m1\<rparr>)"
    by (simp add: ovni_mark_type_def get_thread_metadata_def r dotget_path meta_set_path meta_string_ok demo_mark_keys del: append.append_Cons)
  have 2: "ovni_mark_label 3 1 ''init'' (demo_fresh\<lparr>rt_meta := ?m1\<rparr>) = Inr (demo_fresh\<lparr>rt_meta := ?m2\<rparr>)"
    by (simp add: ovni_mark_label_def get_thread_metadata_def r Let_def dotget_path meta_set_path meta_string_ok demo_mark_keys
        del: append.append_Cons)
  let ?t = "\<lparr>mk_type = 3, mk_prvtype = 103, mk_index = 0, mk_ctype = CHAN_STACK, mk_labels = [(1, ''init'')], mk_title = ''Iter''\<rparr>"
  have n: "strtol_all ''3'' = Some 3" "strtol_all ''1'' = Some 1" by code_simp+
  have 3: "foldr_res scan_thread [None, Some ?m2] [] = Inr [?t]"
    by (simp add: scan_thread_def json_object_dotget_object_def dotget_path dots_keys parse_mark_def n parse_chan_type_def declare_mark_def
        find_mark_type_def create_mark_type_def mark_labels_def parse_labels_def parse_label_def add_label_def find_label_def put_mark_type_def
        MAX_PCF_LABEL_def PRV_OVNI_MARK_def)
  from 2 have "foldr_res (\<lambda>(v, l). ovni_mark_label 3 v l) [(1, ''init'')] (demo_fresh\<lparr>rt_meta := ?m1\<rparr>) = Inr (demo_fresh\<lparr>rt_meta := ?m2\<rparr>)" by simp
  from marks_reach_emulator [OF 1 this _ 3] 1 2 3 show ?thesis by simp blast
qed

end
