(* ===== verification/Hwc.thy ===== *)
theory Hwc
  imports Json Track Task_Model Cstr
begin

text \<open>
  Hardware counters of nOS-V: the set-up of \<^verbatim>\<open>src/emu/nosv/hwc.c\<close>; the event is in \<open>Nosv\<close>.

  The names of the counters, \<^verbatim>\<open>hwc_emu->name\<close>, are a list whose length is \<^verbatim>\<open>hwc_emu->n\<close>, with \<open>None\<close> for a pointer that is
  still null. The channels of a thread are \<open>HwcChan t i\<close>; the tracks of threads and CPUs are named like those of a model, with an index
  \<open>HWC_TRACKS\<close> that is not the byte of a model. A name that was never given is printed by the C library as
  \<^verbatim>\<open>(null)\<close>.
\<close>

subsection \<open>Reading the declarations\<close>

definition PRV_NOSV_HWC :: int where "PRV_NOSV_HWC = 200"
definition HWC_TRACKS :: nat where "HWC_TRACKS = 257"

text \<open>A negative index is a large one, as it is converted to \<^verbatim>\<open>size_t\<close>.\<close>

definition parse_hwc :: "string \<times> json \<Rightarrow> string option list \<Rightarrow> string option list res" where
  "parse_hwc = (\<lambda>(indexstr, hwcval) names.
     case strtol_all indexstr of None \<Rightarrow> Inl (EHwc HwcNumber)
     | Some index \<Rightarrow>
         if index < 0 \<or> index \<ge> 100 then Inl (EHwc HwcRange)
         else if nat index \<ge> length names then Inl (EHwc HwcExceeds)
         else case json_value_get_object (Some hwcval) of None \<Rightarrow> Inl (EHwc HwcNotObject)
         | Some hwc \<Rightarrow>
             (case json_value_get_string (json_object_getn_value hwc ''name'') of None \<Rightarrow> Inl (EHwc HwcNoName)
              | Some name \<Rightarrow>
                  (case names ! nat index of
                     None \<Rightarrow> Inr (names[nat index := Some name])
                   | Some old \<Rightarrow> if old \<noteq> name then Inl (EHwc HwcNameTaken) else Inr names)))"

definition hwc_scan_thread :: "json_object option \<Rightarrow> string option list \<Rightarrow> string option list res" where
  "hwc_scan_thread meta names =
     (case json_object_dotget_object meta ''nosv.hwc'' of None \<Rightarrow> Inr names
      | Some ob \<Rightarrow>
          if ob = [] then Inr names
          else if names = [] then foldr_res parse_hwc ob (replicate (length ob) None)
          else if length names \<noteq> length ob then Inl (EHwc HwcCount)
          else foldr_res parse_hwc ob names)"

subsection \<open>Channels and tracks\<close>

definition hwc_name :: "string \<Rightarrow> int \<Rightarrow> nat \<Rightarrow> string" where
  "hwc_name what gindex i = ''nosv.'' @ what @ dec (nat gindex) @ ''.hwc'' @ dec i"

definition hwc_create_thread_chan :: "nat \<Rightarrow> nat \<Rightarrow> 'x sys_bay_scheme \<Rightarrow> 'x sys_bay_scheme res" where
  "hwc_create_thread_chan n t w =
     rbind (foldr_res (\<lambda>i v.
         rbind (chan_init CHAN_SINGLE (hwc_name ''thread'' (th_gindex (threads v t)) i)) (\<lambda>ch.
           new_chan (HwcChan t i) (chan_prop_set CHAN_ALLOW_DUP True ch) v)) [0..<n] w)
       (foldr_res (\<lambda>i v. track_init (ModelThreadTrack t HWC_TRACKS i) TRACK_TH_ACT (hwc_name ''thread'' (th_gindex (threads v t)) i) v)
         [0..<n])"

definition hwc_init_cpu :: "nat \<Rightarrow> nat \<Rightarrow> 'x sys_bay_scheme \<Rightarrow> 'x sys_bay_scheme res" where
  "hwc_init_cpu n c w =
     foldr_res (\<lambda>i v. track_init (ModelCpuTrack c HWC_TRACKS i) TRACK_TH_RUN (hwc_name ''cpu'' (cp_gindex (cpus v c)) i) v) [0..<n] w"

definition hwc_create ::
  "(nat \<Rightarrow> json_object option) \<Rightarrow> nat list \<Rightarrow> nat list \<Rightarrow> 'x temu_scheme \<Rightarrow> (string option list \<times> 'x temu_scheme) res" where
  "hwc_create metas ths cps w =
     rbind (foldr_res hwc_scan_thread (map metas ths) []) (\<lambda>names.
       let n = length names; w1 = w\<lparr>em_nhwc := n\<rparr> in
       if n = 0 then Inr (names, w1)
       else rbind (foldr_res (hwc_create_thread_chan n) ths w1) (\<lambda>w2.
            rbind (foldr_res (hwc_init_cpu n) cps w2) (\<lambda>w3. Inr (names, w3))))"

definition hwc_flags :: "prv_flag \<Rightarrow> bool" where
  "hwc_flags f \<longleftrightarrow> f = PRV_SKIPDUPNULL \<or> f = PRV_ZERO"

definition hwc_connect_thread_prv :: "nat \<Rightarrow> nat \<Rightarrow> nat \<Rightarrow> 'x sys_bay_scheme \<Rightarrow> 'x sys_bay_scheme res" where
  "hwc_connect_thread_prv n k t w =
     foldr_res (\<lambda>i v.
       let tr = ModelThreadTrack t HWC_TRACKS i; inp = HwcChan t i in
       rbind (track_th_input_chan tr TRACK_TH_ACT (ThreadChan t TH_CHAN_STATE) inp v) (\<lambda>v1.
         prv_register k (th_gindex (threads v1 t)) (PRV_NOSV_HWC + int i) (track_get_output tr TRACK_TH_ACT inp) hwc_flags v1)) [0..<n] w"

definition hwc_init_pcf :: "string option list \<Rightarrow> pcf \<Rightarrow> pcf res" where
  "hwc_init_pcf names pcf =
     foldr_res (\<lambda>i. pcf_add_type (PRV_NOSV_HWC + int i) (case names ! i of None \<Rightarrow> ''(null)'' | Some name \<Rightarrow> name)) [0..<length names] pcf"

definition hwc_connect_thread :: "string option list \<Rightarrow> nat list \<Rightarrow> 'x pcf_st \<Rightarrow> 'x pcf_st res" where
  "hwc_connect_thread names ths = (\<lambda>(pcfs, w).
     case recorder_find_pvt ''thread'' w of None \<Rightarrow> Inl (EThread ThreadNoPvt)
     | Some k \<Rightarrow>
         rbind (foldr_res (hwc_connect_thread_prv (length names) k) ths w) (\<lambda>w1.
         rbind (hwc_init_pcf names (pcfs k)) (\<lambda>pcf. Inr (pcfs(k := pcf), w1))))"

definition hwc_connect_cpu_prv :: "nat \<Rightarrow> nat list \<Rightarrow> nat \<Rightarrow> nat \<Rightarrow> 'x sys_bay_scheme \<Rightarrow> 'x sys_bay_scheme res" where
  "hwc_connect_cpu_prv n ths k c w =
     foldr_res (\<lambda>i v.
       let tr = ModelCpuTrack c HWC_TRACKS i in
       rbind (track_set_select tr (CpuChan c CPU_CHAN_THRUN) None (length ths) v) (\<lambda>v1.
       rbind (foldr_res (\<lambda>t u. track_set_input tr (nat (th_gindex (threads u t))) (HwcChan t i) u) ths v1) (\<lambda>v2.
         prv_register k (cp_gindex (cpus v2 c)) (PRV_NOSV_HWC + int i) tr hwc_flags v2))) [0..<n] w"

definition hwc_connect_cpu :: "string option list \<Rightarrow> nat list \<Rightarrow> nat list \<Rightarrow> 'x pcf_st \<Rightarrow> 'x pcf_st res" where
  "hwc_connect_cpu names ths cps = (\<lambda>(pcfs, w).
     case recorder_find_pvt ''cpu'' w of None \<Rightarrow> Inl (ECpu CpuNoPvt)
     | Some k \<Rightarrow>
         rbind (foldr_res (hwc_connect_cpu_prv (length names) ths k) cps w) (\<lambda>w1.
         rbind (hwc_init_pcf names (pcfs k)) (\<lambda>pcf. Inr (pcfs(k := pcf), w1))))"

definition hwc_connect :: "string option list \<Rightarrow> nat list \<Rightarrow> nat list \<Rightarrow> 'x pcf_st \<Rightarrow> 'x pcf_st res" where
  "hwc_connect names ths cps s =
     (if names = [] then Inr s else rbind (hwc_connect_thread names ths s) (hwc_connect_cpu names ths cps))"

subsection \<open>Threads agree on the counters\<close>

text \<open>\<open>named d names\<close>: the declaration \<open>d\<close> of a thread is the name at its index.\<close>

definition named :: "string \<times> json \<Rightarrow> string option list \<Rightarrow> bool" where
  "named = (\<lambda>(indexstr, hwcval) names. \<exists>i hwc name. strtol_all indexstr = Some (int i) \<and> i < length names
     \<and> hwcval = JSONObject hwc \<and> json_object_getn_value hwc ''name'' = Some (JSONString name) \<and> names ! i = Some name)"

definition names_extend :: "string option list \<Rightarrow> string option list \<Rightarrow> bool" where
  "names_extend ns ns' \<longleftrightarrow> length ns' = length ns \<and> (\<forall>i < length ns. ns ! i \<noteq> None \<longrightarrow> ns' ! i = ns ! i)"

lemma parse_hwc_ok:
  assumes "parse_hwc d names = Inr names'"
  shows "names_extend names names' \<and> named d names'"
proof -
  obtain indexstr hwcval where d: "d = (indexstr, hwcval)" by (cases d)
  from assms d obtain index hwc name where
    p: "strtol_all indexstr = Some index" "0 \<le> index" "nat index < length names" "hwcval = JSONObject hwc"
      "json_object_getn_value hwc ''name'' = Some (JSONString name)"
    and n: "(case names ! nat index of None \<Rightarrow> Inr (names[nat index := Some name])
      | Some old \<Rightarrow> if old \<noteq> name then Inl (EHwc HwcNameTaken) else Inr names) = Inr names'"
    by (auto simp: parse_hwc_def get_object_Some get_string_Some split: option.splits if_splits)
  have "names_extend names names'" "length names' = length names" "names' ! nat index = Some name"
    using p(3) n by (cases "names ! nat index"; fastforce simp: names_extend_def nth_list_update split: if_splits)+
  moreover have "strtol_all indexstr = Some (int (nat index))" using p(1,2) by simp
  ultimately show ?thesis using p(2-5) unfolding named_def d by (auto intro: exI [where x = "nat index"])
qed

lemma named_extend: "named d ns \<Longrightarrow> names_extend ns ns' \<Longrightarrow> named d ns'"
  by (cases d) (force simp: named_def names_extend_def)

lemma names_extend_refl [simp]: "names_extend ns ns"
  by (simp add: names_extend_def)

lemma names_extend_trans: "names_extend a b \<Longrightarrow> names_extend b c \<Longrightarrow> names_extend a c"
  by (auto simp: names_extend_def)

lemma parse_hwcs_ok:
  "foldr_res parse_hwc ds names = Inr names' \<Longrightarrow> names_extend names names' \<and> (\<forall>d \<in> set ds. named d names')"
proof (induction ds arbitrary: names)
  case (Cons d ds)
  then obtain n1 where 1: "parse_hwc d names = Inr n1" and 2: "foldr_res parse_hwc ds n1 = Inr names'" by auto
  from parse_hwc_ok [OF 1] Cons.IH [OF 2] show ?case
    using named_extend [of d n1 names'] names_extend_trans [of names n1 names'] by simp
qed simp

text \<open>The counters of every thread that declares any are the counters of the trace.\<close>

lemma hwc_scan_ok:
  assumes "foldr_res hwc_scan_thread metas names = Inr names'"
  shows "(names \<noteq> [] \<longrightarrow> names_extend names names')
    \<and> (\<forall>meta \<in> set metas. \<forall>ob. json_object_dotget_object meta ''nosv.hwc'' = Some ob \<longrightarrow> ob \<noteq> [] \<longrightarrow>
         length names' = length ob \<and> (\<forall>d \<in> set ob. named d names'))"
  using assms
proof (induction metas arbitrary: names)
  case (Cons meta metas)
  then obtain n1 where 1: "hwc_scan_thread meta names = Inr n1" and 2: "foldr_res hwc_scan_thread metas n1 = Inr names'" by auto
  have s: "(names \<noteq> [] \<longrightarrow> names_extend names n1) \<and> (\<forall>ob. json_object_dotget_object meta ''nosv.hwc'' = Some ob \<longrightarrow> ob \<noteq> [] \<longrightarrow>
      n1 \<noteq> [] \<and> length n1 = length ob \<and> (\<forall>d \<in> set ob. named d n1))"
  proof (cases "json_object_dotget_object meta ''nosv.hwc''")
    case (Some ob)
    show ?thesis
    proof (cases "ob = []")
      case False
      let ?n = "if names = [] then replicate (length ob) None else names"
      have f: "foldr_res parse_hwc ob ?n = Inr n1" and len: "length ?n = length ob"
        using 1 Some False by (auto simp: hwc_scan_thread_def split: if_splits)
      from parse_hwcs_ok [OF f] have x: "names_extend ?n n1" "\<forall>d \<in> set ob. named d n1" by auto
      then have "length n1 = length ob" using len unfolding names_extend_def by simp
      with x False Some show ?thesis by (auto split: if_splits)
    qed (use 1 Some in \<open>simp add: hwc_scan_thread_def\<close>)
  qed (use 1 in \<open>simp add: hwc_scan_thread_def\<close>)
  note ih = Cons.IH [OF 2]
  have "length names' = length ob \<and> (\<forall>d \<in> set ob. named d names')"
    if "json_object_dotget_object meta ''nosv.hwc'' = Some ob" "ob \<noteq> []" for ob
    using s ih that named_extend [of _ n1 names'] by (auto simp: names_extend_def)
  moreover have "names \<noteq> [] \<longrightarrow> names_extend names names'"
    using s ih names_extend_trans [of names n1 names'] by (auto simp: names_extend_def)
  ultimately show ?case using ih by auto
qed simp

end
