(* ===== verification/System.thy ===== *)
theory System
  imports Cpu Json Cstr Stream "HOL-Library.List_Lexorder"
begin

text \<open>
  The emulated system built from a trace: \<^verbatim>\<open>src/emu/system.c\<close>.

  The streams of the trace are given by their metadata, in the order of the list of the trace; a stream is known by
  its number. The record \<open>system\<close> holds the lists and counters of \<^verbatim>\<open>struct system\<close>, the table from streams to
  loom, process and thread (\<^verbatim>\<open>lpt\<close>) and the next address that \<^verbatim>\<open>malloc\<close> returns. The structures themselves are in the
  maps of \<open>sys_bay\<close>. The clock offset table is a list of entries, already read from its file; the
  rows of the traces are in the theory \<open>Connect\<close>. Converting a double to \<^verbatim>\<open>int\<close> drops its fraction.
\<close>

subsection \<open>Values of the metadata\<close>

definition c_trunc :: "real \<Rightarrow> int" where
  "c_trunc x = (if 0 \<le> x then \<lfloor>x\<rfloor> else \<lceil>x\<rceil>)"

lemma c_trunc_int [simp]: "c_trunc (real_of_int n) = n"
  by (simp add: c_trunc_def)

definition meta_get :: "string \<Rightarrow> json_object \<Rightarrow> json option" where
  "meta_get key meta = json_object_dotget_value (Some meta) key"

text \<open>An optional attribute that is a number: \<^verbatim>\<open>json_number\<close> of the value, if it is there.\<close>

definition meta_int :: "string \<Rightarrow> json_object \<Rightarrow> int option" where
  "meta_int key meta =
     (case meta_get key meta of None \<Rightarrow> None | Some v \<Rightarrow> Some (c_trunc (json_value_get_number (Some v))))"

definition thread_stream_get_tid :: "json_object \<Rightarrow> int" where
  "thread_stream_get_tid meta =
     (let tid = json_value_get_number (meta_get ''ovni.tid'' meta) in if tid = 0 then -1 else c_trunc tid)"

definition proc_stream_get_pid :: "json_object \<Rightarrow> int" where
  "proc_stream_get_pid meta =
     (let pid = json_value_get_number (meta_get ''ovni.pid'' meta) in if pid = 0 then -1 else c_trunc pid)"

definition loom_name :: "json_object \<Rightarrow> string option" where
  "loom_name meta = json_value_get_string (meta_get ''ovni.loom'' meta)"

definition thread_finished :: "json_object \<Rightarrow> bool" where
  "thread_finished meta \<longleftrightarrow> json_value_get_number (meta_get ''ovni.finished'' meta) = 1"

text \<open>The elements of the array of CPUs.\<close>

fun jcpu :: "json \<Rightarrow> (int \<times> int) option" where
  "jcpu (JSONObject ob) =
     Some (c_trunc (json_value_get_number (json_object_getn_value ob ''index'')),
           c_trunc (json_value_get_number (json_object_getn_value ob ''phyid'')))"
| "jcpu _ = None"

subsection \<open>Creating the system\<close>

record system =
  sy_looms :: "nat list"
  sy_procs :: "nat list"
  sy_threads :: "nat list"
  sy_cpus :: "nat list"
  sy_nlooms :: nat
  sy_nprocs :: nat
  sy_nthreads :: nat
  sy_ncpus :: nat
  sy_nphycpus :: nat
  sy_sort_by_rank :: bool
  sy_lpt :: "nat \<Rightarrow> (nat \<times> nat \<times> nat) option"
  sy_next :: nat

type_synonym 'x sys_st = "system \<times> 'x sys_bay_scheme"

definition system_empty :: system where
  "system_empty = \<lparr>sy_looms = [], sy_procs = [], sy_threads = [], sy_cpus = [], sy_nlooms = 0, sy_nprocs = 0,
     sy_nthreads = 0, sy_ncpus = 0, sy_nphycpus = 0, sy_sort_by_rank = False, sy_lpt = (\<lambda>_. None), sy_next = 0\<rparr>"

definition create_thread :: "nat \<Rightarrow> json_object \<Rightarrow> 'x sys_st \<Rightarrow> (nat \<times> 'x sys_st) res" where
  "create_thread p meta = (\<lambda>(sy, w).
     let tid = thread_stream_get_tid meta; t = sy_next sy in
     if tid < 0 then Inl (ESys SysNoTid)
     else if proc_find_thread p tid w \<noteq> None then Inl (EProc ProcTidTaken)
     else rbind (thread_load_metadata (thread_finished meta) (thread_init_begin tid)) (\<lambda>th.
       rbind (proc_add_thread p t (put_thread t th w)) (\<lambda>w1.
       Inr (t, sy\<lparr>sy_next := Suc t\<rparr>, w1))))"

definition create_proc :: "nat \<Rightarrow> json_object \<Rightarrow> 'x sys_st \<Rightarrow> (nat \<times> 'x sys_st) res" where
  "create_proc l meta = (\<lambda>(sy, w).
     let pid = proc_stream_get_pid meta in
     if pid < 0 then Inl (ESys SysNoPid)
     else rbind (case loom_find_proc l pid w of
         Some p \<Rightarrow> Inr (p, sy, w)
       | None \<Rightarrow>
           let p = sy_next sy in
           rbind (loom_add_proc l p (put_proc p (proc_init_begin pid) w)) (\<lambda>w1.
           Inr (p, sy\<lparr>sy_next := Suc p\<rparr>, w1))) (\<lambda>(p, sy1, w1).
     rbind (proc_load_metadata (meta_int ''ovni.app_id'' meta) (meta_int ''ovni.rank'' meta)
         (meta_int ''ovni.nranks'' meta) (procs w1 p)) (\<lambda>pr.
     Inr (p, sy1, put_proc p pr w1))))"

definition find_loom :: "string \<Rightarrow> 'x sys_st \<Rightarrow> nat option" where
  "find_loom name = (\<lambda>(sy, w). find (\<lambda>l. lm_name (looms w l) = name) (sy_looms sy))"

text \<open>\<^verbatim>\<open>loom_load_metadata\<close>: the CPUs of the metadata, with the addresses new ones get.\<close>

definition loom_load_metadata :: "nat \<Rightarrow> json_object \<Rightarrow> 'x sys_st \<Rightarrow> 'x sys_st res" where
  "loom_load_metadata l meta = (\<lambda>(sy, w).
     case json_value_get_array (meta_get ''ovni.loom_cpus'' meta) of
       None \<Rightarrow> Inr (sy, w)
     | Some js \<Rightarrow>
         if \<exists>j \<in> set js. jcpu j = None then Inl (ESys SysCpuNotObject)
         else let cs = map (\<lambda>(j, c). case the (jcpu j) of (index, phyid) \<Rightarrow> (index, phyid, c))
                         (zip js [sy_next sy..<sy_next sy + length js]) in
           rbind (load_cpus l (Some cs) w) (\<lambda>w1. Inr (sy\<lparr>sy_next := sy_next sy + length js\<rparr>, w1)))"

definition create_loom :: "json_object \<Rightarrow> 'x sys_st \<Rightarrow> (nat \<times> 'x sys_st) res" where
  "create_loom meta = (\<lambda>(sy, w).
     case loom_name meta of
       None \<Rightarrow> Inl (ESys SysNoLoomName)
     | Some name \<Rightarrow>
         rbind (case find_loom name (sy, w) of
             Some l \<Rightarrow> Inr (l, sy, w)
           | None \<Rightarrow>
               let l = sy_next sy in
               rbind (loom_init_begin l name (Suc l) w) (\<lambda>w1.
               Inr (l, sy\<lparr>sy_looms := sy_looms sy @ [l], sy_nlooms := Suc (sy_nlooms sy), sy_next := l + 2\<rparr>, w1)))
           (\<lambda>(l, sw). rbind (loom_load_metadata l meta sw) (\<lambda>sw1. Inr (l, sw1))))"

definition is_thread_stream :: "json_object \<Rightarrow> bool res" where
  "is_thread_stream meta =
     (case json_value_get_string (meta_get ''ovni.part'' meta) of
        None \<Rightarrow> Inl (ESys SysNoPart)
      | Some part \<Rightarrow> Inr (part = ''thread''))"

definition create_stream :: "nat \<times> json_object \<Rightarrow> 'x sys_st \<Rightarrow> 'x sys_st res" where
  "create_stream s sw =
     (case s of (i, meta) \<Rightarrow>
        rbind (is_thread_stream meta) (\<lambda>ok.
        if \<not> ok then Inr sw
        else rbind (create_loom meta sw) (\<lambda>(l, sw1).
          rbind (create_proc l meta sw1) (\<lambda>(p, sw2).
          rbind (create_thread p meta sw2) (\<lambda>(t, sy, w).
          Inr (sy\<lparr>sy_lpt := (sy_lpt sy)(i := Some (l, p, t))\<rparr>, w))))))"

definition create_system :: "json_object list \<Rightarrow> 'x sys_st \<Rightarrow> 'x sys_st res" where
  "create_system metas sw = foldr_res create_stream (zip [0..<length metas] metas) sw"

subsection \<open>Order and indices\<close>

definition set_sort_criteria :: "'x sys_st \<Rightarrow> 'x sys_st res" where
  "set_sort_criteria = (\<lambda>(sy, w).
     rbind (foldr_res loom_set_rank_min (sy_looms sy) w) (\<lambda>w1.
     Inr (if \<forall>l \<in> set (sy_looms sy). lm_rank_enabled (looms w1 l) then sy\<lparr>sy_sort_by_rank := True\<rparr> else sy, w1)))"

text \<open>\<^verbatim>\<open>strcmp\<close> compares the characters as unsigned numbers.\<close>

definition str_key :: "string \<Rightarrow> nat list" where
  "str_key s = map of_char s"

definition sort_lpt :: "'x sys_st \<Rightarrow> 'x sys_st" where
  "sort_lpt = (\<lambda>(sy, w).
     let ls = (if sy_sort_by_rank sy then sort_key (\<lambda>l. lm_rank_min (looms w l)) (sy_looms sy)
               else sort_key (\<lambda>l. str_key (lm_name (looms w l))) (sy_looms sy))
     in (sy\<lparr>sy_looms := ls\<rparr>, fold loom_sort ls w))"

definition init_global_lists :: "'x sys_st \<Rightarrow> 'x sys_st" where
  "init_global_lists = (\<lambda>(sy, w).
     (sy\<lparr>sy_threads := sy_threads sy @ concat (map (\<lambda>l. concat (map (\<lambda>p. pr_threads (procs w p)) (lm_procs (looms w l)))) (sy_looms sy)),
        sy_procs := sy_procs sy @ concat (map (\<lambda>l. lm_procs (looms w l)) (sy_looms sy)),
        sy_cpus := sy_cpus sy @ concat (map (\<lambda>l. lm_cpus (looms w l) @ [lm_vcpu (looms w l)]) (sy_looms sy))\<rparr>, w))"

fun set_indices :: "(nat \<Rightarrow> int \<Rightarrow> 'w \<Rightarrow> 'w) \<Rightarrow> int \<Rightarrow> nat list \<Rightarrow> 'w \<Rightarrow> 'w" where
  "set_indices f i [] w = w"
| "set_indices f i (a # as) w = set_indices f (i + 1) as (f a i w)"

definition init_global_indices :: "'x sys_st \<Rightarrow> 'x sys_st" where
  "init_global_indices = (\<lambda>(sy, w).
     let w1 = set_indices (\<lambda>l i w. put_loom l ((looms w l)\<lparr>lm_gindex := i\<rparr>) w) 0 (sy_looms sy) w;
         w2 = set_indices (\<lambda>p i w. put_proc p ((procs w p)\<lparr>pr_gindex := i\<rparr>) w) 0 (sy_procs sy) w1;
         w3 = set_indices (\<lambda>t i w. put_thread t (thread_set_gindex i (threads w t)) w) 0 (sy_threads sy) w2;
         w4 = set_indices (\<lambda>c i w. put_cpu c ((cpus w c)\<lparr>cp_gindex := i\<rparr>) w) 0 (sy_cpus sy) w3
     in (sy\<lparr>sy_nprocs := length (sy_procs sy), sy_nthreads := length (sy_threads sy), sy_ncpus := length (sy_cpus sy),
           sy_nphycpus := length (filter (\<lambda>c. \<not> cp_is_virtual (cpus w4 c)) (sy_cpus sy))\<rparr>, w4))"

definition init_end_proc :: "nat \<Rightarrow> 'x sys_bay_scheme \<Rightarrow> 'x sys_bay_scheme res" where
  "init_end_proc p w =
     rbind (foldr_res thread_init_end (pr_threads (procs w p)) w) (\<lambda>w1.
     rbind (proc_init_end (procs w1 p)) (\<lambda>pr. Inr (put_proc p pr w1)))"

definition init_end_loom :: "nat \<Rightarrow> 'x sys_bay_scheme \<Rightarrow> 'x sys_bay_scheme res" where
  "init_end_loom l w =
     rbind (foldr_res init_end_proc (lm_procs (looms w l)) w) (\<lambda>w1.
     rbind (foldr_res cpu_init_end (lm_cpus (looms w1 l)) w1) (\<lambda>w2.
     rbind (cpu_init_end (lm_vcpu (looms w2 l)) w2) (\<lambda>w3. loom_init_end l w3)))"

definition init_end_system :: "'x sys_st \<Rightarrow> 'x sys_st res" where
  "init_end_system = (\<lambda>(sy, w). rbind (foldr_res init_end_loom (sy_looms sy) w) (\<lambda>w1. Inr (sy, w1)))"

subsection \<open>Versions and clock offsets\<close>

text \<open>Differences between the versions are only reported. The metadata of the streams of threads is what the threads point to.\<close>

definition report_libovni_version :: "json_object list \<Rightarrow> unit res" where
  "report_libovni_version metas =
     (if \<exists>meta \<in> set metas. json_value_get_string (meta_get ''ovni.lib.version'' meta) = None
          \<or> json_value_get_string (meta_get ''ovni.lib.commit'' meta) = None
      then Inl (ESys SysNoVersion) else Inr ())"

definition clkoff_loom :: "string \<Rightarrow> int \<Rightarrow> nat \<Rightarrow> 'x sys_bay_scheme \<Rightarrow> 'x sys_bay_scheme res" where
  "clkoff_loom host offset l w =
     (let lm = looms w l in
      if lm_hostname lm \<noteq> host then Inr w
      else if lm_clock_offset lm \<noteq> 0 then Inl (ESys SysClkoffSet)
      else Inr (put_loom l (lm\<lparr>lm_clock_offset := offset\<rparr>) w))"

definition parse_clkoff_entry :: "nat list \<Rightarrow> string \<times> real \<Rightarrow> 'x sys_bay_scheme \<Rightarrow> 'x sys_bay_scheme res" where
  "parse_clkoff_entry ls e w =
     (case e of (host, median) \<Rightarrow>
        rbind (foldr_res (clkoff_loom host (c_trunc median)) ls w) (\<lambda>w1.
        if \<exists>l \<in> set ls. lm_hostname (looms w l) = host then Inr w1 else Inl (ESys SysClkoffNoLoom)))"

text \<open>The streams, by number.\<close>

definition set_offset :: "'x sys_st \<Rightarrow> nat \<Rightarrow> (nat \<Rightarrow> stream) \<Rightarrow> (nat \<Rightarrow> stream) res" where
  "set_offset = (\<lambda>(sy, w) i ss.
     case sy_lpt sy i of
       None \<Rightarrow> Inr ss
     | Some (l, _, _) \<Rightarrow> rbind (stream_clkoff_set (lm_clock_offset (looms w l)) (ss i)) (\<lambda>s. Inr (ss(i := s))))"

definition init_offsets ::
  "(string \<times> real) list \<Rightarrow> nat \<Rightarrow> 'x sys_st \<times> (nat \<Rightarrow> stream) \<Rightarrow> ('x sys_st \<times> (nat \<Rightarrow> stream)) res" where
  "init_offsets table n = (\<lambda>((sy, w), ss).
     rbind (foldr_res (parse_clkoff_entry (sy_looms sy)) table w) (\<lambda>w1.
     rbind (foldr_res (set_offset (sy, w1)) [0..<n] ss) (\<lambda>ss1. Inr ((sy, w1), ss1))))"

definition thread_metas :: "json_object list \<Rightarrow> json_object list" where
  "thread_metas metas = filter (\<lambda>m. is_thread_stream m = Inr True) metas"

definition system_init ::
  "(string \<times> real) list \<Rightarrow> json_object list \<Rightarrow> 'x sys_bay_scheme \<times> (nat \<Rightarrow> stream) \<Rightarrow> ('x sys_st \<times> (nat \<Rightarrow> stream)) res" where
  "system_init table metas = (\<lambda>(w, ss).
     rbind (create_system metas (system_empty, w)) (\<lambda>sw1.
     rbind (set_sort_criteria sw1) (\<lambda>sw2.
     rbind (init_end_system (init_global_indices (init_global_lists (sort_lpt sw2)))) (\<lambda>sw3.
     rbind (report_libovni_version (thread_metas metas)) (\<lambda>_.
     init_offsets table (length metas) (sw3, ss))))))"

definition system_get_lpt :: "nat \<Rightarrow> 'x sys_st \<Rightarrow> (nat \<times> nat \<times> nat) option" where
  "system_get_lpt i = (\<lambda>(sy, w). sy_lpt sy i)"

subsection \<open>The tree of looms, processes and threads\<close>

text \<open>Every process is in the list of its loom and every thread in the list of its process, once; addresses that were
  not given yet are in no list.\<close>

definition sys_tree :: "'x sys_st \<Rightarrow> bool" where
  "sys_tree = (\<lambda>(sy, w).
     distinct (sy_looms sy) \<and> (\<forall>l \<in> set (sy_looms sy). l < sy_next sy)
     \<and> (\<forall>l. distinct (lm_procs (looms w l)) \<and> (\<forall>p \<in> set (lm_procs (looms w l)). p < sy_next sy \<and> pr_loom (procs w p) = Some l))
     \<and> (\<forall>p. distinct (pr_threads (procs w p))
          \<and> (\<forall>t \<in> set (pr_threads (procs w p)). t < sy_next sy \<and> th_proc (threads w t) = Some p)))"

text \<open>The entry of a stream: the loom, process and thread that its metadata name.\<close>

definition lpt_entry :: "json_object \<Rightarrow> nat \<times> nat \<times> nat \<Rightarrow> 'x sys_st \<Rightarrow> bool" where
  "lpt_entry meta e = (\<lambda>(sy, w). case e of (l, p, t) \<Rightarrow>
     l \<in> set (sy_looms sy) \<and> p \<in> set (lm_procs (looms w l)) \<and> t \<in> set (pr_threads (procs w p))
     \<and> loom_name meta = Some (lm_name (looms w l)) \<and> pr_pid (procs w p) = proc_stream_get_pid meta
     \<and> th_tid (threads w t) = thread_stream_get_tid meta)"

text \<open>What building the system adds keeps the entries of before: \<open>grows sw sw'\<close>.\<close>

definition grows :: "'x sys_st \<Rightarrow> 'x sys_st \<Rightarrow> bool" where
  "grows = (\<lambda>(sy, w) (sy', w'). sy_next sy \<le> sy_next sy' \<and> sy_lpt sy' = sy_lpt sy
     \<and> set (sy_looms sy) \<subseteq> set (sy_looms sy')
     \<and> (\<forall>a < sy_next sy. lm_name (looms w' a) = lm_name (looms w a) \<and> pr_pid (procs w' a) = pr_pid (procs w a)
          \<and> th_tid (threads w' a) = th_tid (threads w a)
          \<and> set (lm_procs (looms w a)) \<subseteq> set (lm_procs (looms w' a))
          \<and> set (pr_threads (procs w a)) \<subseteq> set (pr_threads (procs w' a))))"

lemma grows_refl [simp]: "grows sw sw"
  by (cases sw) (simp add: grows_def)

lemma grows_trans: "grows a b \<Longrightarrow> grows b c \<Longrightarrow> grows a c"
  unfolding grows_def by (cases a; cases b; cases c) (simp, metis order_less_le_trans subset_trans order_trans)

lemma lpt_entry_grows: "lpt_entry meta e sw \<Longrightarrow> sys_tree sw \<Longrightarrow> grows sw sw' \<Longrightarrow> lpt_entry meta e sw'"
  unfolding lpt_entry_def grows_def sys_tree_def by (cases e; cases sw; cases sw') (simp, metis subsetD)

text \<open>No thread has run yet and no CPU has threads.\<close>

definition blank :: "'x sys_bay_scheme \<Rightarrow> bool" where
  "blank w \<longleftrightarrow> (\<forall>t. th_state (threads w t) = TH_ST_UNKNOWN \<and> th_cpu (threads w t) = None
        \<and> \<not> th_is_running (threads w t) \<and> \<not> th_is_active (threads w t))
     \<and> (\<forall>c. cp_threads (cpus w c) = [] \<and> cp_nthreads (cpus w c) = 0 \<and> cp_nth_running (cpus w c) = 0
        \<and> cp_nth_active (cpus w c) = 0 \<and> cp_th_running (cpus w c) = None \<and> cp_th_active (cpus w c) = None)"

lemma blank_sys_wf: "blank w \<Longrightarrow> sys_wf w"
  by (simp add: blank_def sys_wf_def cpu_lists_def thread_ok_def th_state_active_def cpu_counts_def running_in_def
      active_in_def the_only_def Let_def)

subsection \<open>What the operations on looms add\<close>

lemma load_cpu_frame:
  assumes "load_cpu l j w = Inr w'"
  shows "procs w' = procs w \<and> threads w' = threads w \<and> (\<forall>a. lm_procs (looms w' a) = lm_procs (looms w a)
    \<and> lm_name (looms w' a) = lm_name (looms w a)) \<and> (blank w \<longrightarrow> blank w')"
proof (cases j)
  case (fields index phyid c)
  show ?thesis
  proof (cases "loom_find_cpu l phyid w")
    case None
    then show ?thesis using assms fields
      by (auto simp: load_cpu_def loom_add_cpu_def cpu_set_loom_def Let_def blank_def cpu_init_begin_def split: if_splits)
  next
    case (Some cpu)
    then show ?thesis using assms fields by (auto simp: load_cpu_def split: if_splits)
  qed
qed

lemma load_cpus_frame:
  assumes "load_cpus l js w = Inr w'"
  shows "procs w' = procs w \<and> threads w' = threads w \<and> (\<forall>a. lm_procs (looms w' a) = lm_procs (looms w a)
    \<and> lm_name (looms w' a) = lm_name (looms w a)) \<and> (blank w \<longrightarrow> blank w')"
proof (cases js)
  case (Some xs)
  with assms have "foldr_res (load_cpu l) xs w = Inr w'" by (auto simp: load_cpus_def split: if_splits)
  then show ?thesis
    by (rule foldr_res_invar [where I = "\<lambda>v. procs v = procs w \<and> threads v = threads w
        \<and> (\<forall>a. lm_procs (looms v a) = lm_procs (looms w a) \<and> lm_name (looms v a) = lm_name (looms w a))
        \<and> (blank w \<longrightarrow> blank v)"]) (auto dest!: load_cpu_frame)
qed (use assms in \<open>simp add: load_cpus_def\<close>)

text \<open>The conclusion that each step of building the system has.\<close>

definition built :: "'x sys_st \<Rightarrow> 'x sys_st \<Rightarrow> bool" where
  "built sw sw' \<longleftrightarrow> (sys_tree sw \<longrightarrow> sys_tree sw' \<and> grows sw sw') \<and> (blank (snd sw) \<longrightarrow> blank (snd sw'))
     \<and> sy_threads (fst sw') = sy_threads (fst sw)"

lemma built_refl [simp]: "built sw sw"
  by (simp add: built_def)

lemma built_trans: "built a b \<Longrightarrow> built b c \<Longrightarrow> built a c"
  unfolding built_def using grows_trans by (metis (no_types, lifting))

lemma loom_load_metadata_built:
  assumes "loom_load_metadata l meta (sy, w) = Inr sw'"
  shows "built (sy, w) sw' \<and> sy_looms (fst sw') = sy_looms sy \<and> lm_name (looms (snd sw') l) = lm_name (looms w l)"
proof (cases "json_value_get_array (meta_get ''ovni.loom_cpus'' meta)")
  case None
  then show ?thesis using assms by (auto simp: loom_load_metadata_def)
next
  case (Some js)
  then obtain cs w' where w': "load_cpus l cs w = Inr w'" and sw': "sw' = (sy\<lparr>sy_next := sy_next sy + length js\<rparr>, w')"
    using assms by (auto simp: loom_load_metadata_def Let_def split: if_splits)
  note f = load_cpus_frame [OF w']
  have "sys_tree (sy, w) \<Longrightarrow> sys_tree sw'"
    using f by (force simp: sys_tree_def sw')
  moreover have "grows (sy, w) sw'" using f by (simp add: grows_def sw')
  ultimately show ?thesis using f by (simp add: built_def sw')
qed

lemma create_loom_built:
  assumes ok: "create_loom meta (sy, w) = Inr (l, sw')"
  shows "built (sy, w) sw' \<and> (l \<in> set (sy_looms (fst sw')) \<and> loom_name meta = Some (lm_name (looms (snd sw') l)))"
proof -
  obtain name where name: "loom_name meta = Some name" using ok by (auto simp: create_loom_def split: option.splits)
  show ?thesis
  proof (cases "find_loom name (sy, w)")
    case (Some k)
    then have "k \<in> set (sy_looms sy)" "lm_name (looms w k) = name"
      by (auto simp: find_loom_def find_Some_iff)
    with ok name Some loom_load_metadata_built [of k meta sy w sw'] show ?thesis by (auto simp: create_loom_def)
  next
    case None
    let ?l = "sy_next sy"
    let ?sy = "sy\<lparr>sy_looms := sy_looms sy @ [?l], sy_nlooms := Suc (sy_nlooms sy), sy_next := ?l + 2\<rparr>"
    from None ok name obtain w1 where w1: "loom_init_begin ?l name (Suc ?l) w = Inr w1" and l: "l = ?l"
      and load: "loom_load_metadata ?l meta (?sy, w1) = Inr sw'"
      by (auto simp: create_loom_def Let_def)
    have f: "threads w1 = threads w" "procs w1 = procs w" "\<forall>a. a \<noteq> ?l \<longrightarrow> looms w1 a = looms w a"
      "lm_name (looms w1 ?l) = name" "lm_procs (looms w1 ?l) = []" "blank w \<longrightarrow> blank w1"
      using w1 by (auto simp: loom_init_begin_def cpu_set_loom_def blank_def cpu_init_begin_def split: if_splits)
    have empty: "lm_procs (looms w a) \<noteq> [] \<Longrightarrow> a \<noteq> ?l \<Longrightarrow> lm_procs (looms w1 a) = lm_procs (looms w a)" for a
      using f(3) by simp
    have t: "sys_tree (?sy, w1)" if "sys_tree (sy, w)"
    proof -
      have lp: "distinct (lm_procs (looms w1 a)) \<and> (\<forall>p \<in> set (lm_procs (looms w1 a)). p < ?l + 2 \<and> pr_loom (procs w1 p) = Some a)" for a
        using that f by (cases "a = ?l") (force simp: sys_tree_def)+
      moreover have "distinct (sy_looms sy @ [?l])" "\<forall>a \<in> set (sy_looms sy @ [?l]). a < ?l + 2"
        using that by (auto simp: sys_tree_def)
      moreover have "distinct (pr_threads (procs w1 p)) \<and> (\<forall>t \<in> set (pr_threads (procs w1 p)). t < ?l + 2 \<and> th_proc (threads w1 t) = Some p)" for p
        using that f by (force simp: sys_tree_def)
      ultimately show ?thesis by (simp add: sys_tree_def)
    qed
    have "grows (sy, w) (?sy, w1)" using f by (auto simp: grows_def)
    with t f(6) have "built (sy, w) (?sy, w1)" by (simp add: built_def)
    with loom_load_metadata_built [OF load] built_trans have b: "built (sy, w) sw'" by blast
    from loom_load_metadata_built [OF load] f(4) l name b show ?thesis by simp
  qed
qed

lemma load_keys:
  "load_appid a pr0 = Inr pr \<Longrightarrow> pr_pid pr = pr_pid pr0 \<and> pr_threads pr = pr_threads pr0 \<and> pr_loom pr = pr_loom pr0"
  "load_rank r n pr0 = Inr pr \<Longrightarrow> pr_pid pr = pr_pid pr0 \<and> pr_threads pr = pr_threads pr0 \<and> pr_loom pr = pr_loom pr0"
  by (cases a; auto simp: load_appid_def split: if_splits)
    (cases r; cases n; auto simp: load_rank_def split: if_splits)

lemma create_proc_built:
  assumes ok: "create_proc l meta (sy, w) = Inr (p, sw')"
  shows "built (sy, w) sw' \<and> sy_looms (fst sw') = sy_looms sy
    \<and> p \<in> set (lm_procs (looms (snd sw') l)) \<and> pr_pid (procs (snd sw') p) = proc_stream_get_pid meta"
proof -
  let ?pid = "proc_stream_get_pid meta"
  text \<open>Loading the metadata into a process changes neither its key nor its threads.\<close>
  have load: "pr_pid pr = pr_pid pr0 \<and> pr_threads pr = pr_threads pr0 \<and> pr_loom pr = pr_loom pr0"
    if "proc_load_metadata a r n pr0 = Inr pr" for a r n pr0 pr
    using that load_keys by (fastforce simp: proc_load_metadata_def)
  have step: "built (sy1, w1) (sy1, put_proc p pr w1)"
    if "proc_load_metadata a r n (procs w1 p) = Inr pr" for a r n pr and sy1 and w1 :: "'x sys_bay_scheme"
  proof -
    have "sys_tree (sy1, put_proc p pr w1)" if "sys_tree (sy1, w1)"
      using that load [OF \<open>proc_load_metadata a r n (procs w1 p) = Inr pr\<close>] by (auto simp: sys_tree_def)
    moreover have "grows (sy1, w1) (sy1, put_proc p pr w1)" using load [OF that] by (auto simp: grows_def)
    ultimately show ?thesis by (auto simp: built_def blank_def)
  qed
  show ?thesis
  proof (cases "loom_find_proc l ?pid w")
    case (Some k)
    then have k: "k \<in> set (lm_procs (looms w l))" "pr_pid (procs w k) = ?pid"
      by (auto simp: loom_find_proc_def find_Some_iff)
    from ok Some obtain pr where pr: "p = k" "sw' = (sy, put_proc k pr w)"
      "proc_load_metadata (meta_int ''ovni.app_id'' meta) (meta_int ''ovni.rank'' meta) (meta_int ''ovni.nranks'' meta) (procs w k) = Inr pr"
      by (auto simp: create_proc_def Let_def split: if_splits)
    show ?thesis using k step [of _ _ _ w pr sy] pr load [OF pr(3)] by simp
  next
    case None
    let ?p = "sy_next sy"
    from ok None obtain w1 pr where w1: "loom_add_proc l ?p (put_proc ?p (proc_init_begin ?pid) w) = Inr w1" and p: "p = ?p"
      and sw': "sw' = (sy\<lparr>sy_next := Suc ?p\<rparr>, put_proc ?p pr w1)"
      and pr: "proc_load_metadata (meta_int ''ovni.app_id'' meta) (meta_int ''ovni.rank'' meta) (meta_int ''ovni.nranks'' meta) (procs w1 ?p) = Inr pr"
      by (auto simp: create_proc_def Let_def split: if_splits)
    let ?sy = "sy\<lparr>sy_next := Suc ?p\<rparr>"
    have f: "threads w1 = threads w" "cpus w1 = cpus w" "\<forall>a. a \<noteq> ?p \<longrightarrow> procs w1 a = procs w a"
      "procs w1 ?p = (proc_init_begin ?pid)\<lparr>pr_loom := Some l\<rparr>"
      "\<forall>a. lm_procs (looms w1 a) = (if a = l then lm_procs (looms w a) @ [?p] else lm_procs (looms w a))"
      "\<forall>a. lm_name (looms w1 a) = lm_name (looms w a)"
      using w1 by (auto simp: loom_add_proc_def Let_def split: if_splits)
    have t: "sys_tree (?sy, w1)" if tree: "sys_tree (sy, w)"
    proof -
      have lp: "distinct (lm_procs (looms w a))" "q \<in> set (lm_procs (looms w a)) \<Longrightarrow> q < ?p \<and> pr_loom (procs w q) = Some a" for a q
        using tree by (simp_all add: sys_tree_def)
      have q: "q \<in> set (lm_procs (looms w a)) \<Longrightarrow> q < Suc ?p \<and> pr_loom (procs w1 q) = Some a" for a q
        using lp(2) [of q a] f(3) by simp
      have "?p \<notin> set (lm_procs (looms w a))" for a using lp(2) by blast
      then have "distinct (lm_procs (looms w1 a)) \<and> (\<forall>q \<in> set (lm_procs (looms w1 a)). q < Suc ?p \<and> pr_loom (procs w1 q) = Some a)" for a
        using lp(1) q [of _ a] f(4,5) by auto
      moreover have "distinct (pr_threads (procs w1 q)) \<and> (\<forall>t \<in> set (pr_threads (procs w1 q)). t < Suc ?p \<and> th_proc (threads w1 t) = Some q)" for q
        using tree f by (cases "q = ?p") (force simp: sys_tree_def proc_init_begin_def)+
      ultimately show ?thesis using tree by (auto simp: sys_tree_def)
    qed
    have "grows (sy, w) (?sy, w1)" using f by (auto simp: grows_def)
    with t have "built (sy, w) (?sy, w1)" using f(1,2) by (simp add: built_def blank_def)
    with step [of _ _ _ w1 pr ?sy] pr p have "built (sy, w) sw'" unfolding sw' using built_trans by blast
    then show ?thesis using f p sw' load [OF pr] by (simp add: proc_init_begin_def)
  qed
qed

lemma create_thread_built:
  assumes ok: "create_thread p meta (sy, w) = Inr (t, sw')"
  shows "built (sy, w) sw' \<and> sy_looms (fst sw') = sy_looms sy \<and> looms (snd sw') = looms w
    \<and> pr_pid (procs (snd sw') p) = pr_pid (procs w p)
    \<and> t = sy_next sy \<and> t \<in> set (pr_threads (procs (snd sw') p)) \<and> th_tid (threads (snd sw') t) = thread_stream_get_tid meta"
proof -
  let ?t = "sy_next sy" and ?tid = "thread_stream_get_tid meta"
  let ?th = "(thread_init_begin ?tid)\<lparr>th_meta := True\<rparr>"
  from ok obtain w1 where w1: "proc_add_thread p ?t (put_thread ?t ?th w) = Inr w1" and t: "t = ?t"
    and sw': "sw' = (sy\<lparr>sy_next := Suc ?t\<rparr>, w1)"
    by (auto simp: create_thread_def thread_load_metadata_def thread_init_begin_def Let_def split: if_splits)
  have f: "looms w1 = looms w" "cpus w1 = cpus w" "\<forall>a. a \<noteq> ?t \<longrightarrow> threads w1 a = threads w a"
    "threads w1 ?t = ?th\<lparr>th_proc := Some p\<rparr>" "\<forall>a. pr_pid (procs w1 a) = pr_pid (procs w a) \<and> pr_loom (procs w1 a) = pr_loom (procs w a)"
    "\<forall>a. pr_threads (procs w1 a) = (if a = p then pr_threads (procs w a) @ [?t] else pr_threads (procs w a))"
    using w1 by (auto simp: proc_add_thread_def Let_def split: if_splits)
  have tr: "sys_tree (sy\<lparr>sy_next := Suc ?t\<rparr>, w1)" if tree: "sys_tree (sy, w)"
  proof -
    have pt: "distinct (pr_threads (procs w a))" "q \<in> set (pr_threads (procs w a)) \<Longrightarrow> q < ?t \<and> th_proc (threads w q) = Some a" for a q
      using tree by (simp_all add: sys_tree_def)
    have q: "q \<in> set (pr_threads (procs w a)) \<Longrightarrow> q < Suc ?t \<and> th_proc (threads w1 q) = Some a" for a q
      using pt(2) [of q a] f(3) by simp
    have "?t \<notin> set (pr_threads (procs w a))" for a using pt(2) by blast
    then have "distinct (pr_threads (procs w1 a)) \<and> (\<forall>q \<in> set (pr_threads (procs w1 a)). q < Suc ?t \<and> th_proc (threads w1 q) = Some a)" for a
      using pt(1) q [of _ a] f(4,6) by auto
    moreover have "\<forall>l. \<forall>q \<in> set (lm_procs (looms w1 l)). q < Suc ?t \<and> pr_loom (procs w1 q) = Some l"
      using tree f(1,5) by (force simp: sys_tree_def)
    ultimately show ?thesis using tree f(1) by (auto simp: sys_tree_def)
  qed
  have "grows (sy, w) (sy\<lparr>sy_next := Suc ?t\<rparr>, w1)" using f by (auto simp: grows_def)
  moreover have "blank w \<Longrightarrow> blank w1"
  proof -
    assume b: "blank w"
    have "th_state (threads w1 a) = TH_ST_UNKNOWN \<and> th_cpu (threads w1 a) = None
        \<and> \<not> th_is_running (threads w1 a) \<and> \<not> th_is_active (threads w1 a)" for a
      using b f(3,4) by (cases "a = ?t") (simp_all add: blank_def thread_init_begin_def)
    then show ?thesis using b f(2) by (simp add: blank_def)
  qed
  ultimately show ?thesis using tr f t sw' by (simp add: built_def thread_init_begin_def)
qed

text \<open>The invariant of the loop over the streams: those done have their entry, and no two the same thread.\<close>

definition lpt_done :: "json_object list \<Rightarrow> nat \<Rightarrow> 'x sys_st \<Rightarrow> bool" where
  "lpt_done metas n sw \<longleftrightarrow>
     (\<forall>i e. sy_lpt (fst sw) i = Some e \<longrightarrow> i < n \<and> lpt_entry (metas ! i) e sw)
     \<and> (\<forall>i < n. is_thread_stream (metas ! i) = Inr True \<longrightarrow> sy_lpt (fst sw) i \<noteq> None)
     \<and> (\<forall>i j l p l' p' t. sy_lpt (fst sw) i = Some (l, p, t) \<longrightarrow> sy_lpt (fst sw) j = Some (l', p', t) \<longrightarrow> i = j)
     \<and> (\<forall>i l p t. sy_lpt (fst sw) i = Some (l, p, t) \<longrightarrow> t < sy_next (fst sw))"

lemma create_stream_done:
  assumes ok: "create_stream (n, metas ! n) sw = Inr sw'" and d: "lpt_done metas n sw" and tree: "sys_tree sw"
  shows "lpt_done metas (Suc n) sw' \<and> sys_tree sw' \<and> (blank (snd sw) \<longrightarrow> blank (snd sw')) \<and> sy_threads (fst sw') = sy_threads (fst sw)"
proof (cases "is_thread_stream (metas ! n) = Inr True")
  case False
  then have "sw' = sw" using ok by (auto simp: create_stream_def split: if_splits)
  with d tree False show ?thesis unfolding lpt_done_def by (metis less_Suc_eq)
next
  case True
  let ?m = "metas ! n"
  obtain sy0 w0 where sw: "sw = (sy0, w0)" by (cases sw)
  from ok True sw obtain l sy1 w1 p sy2 w2 t sy3 w3 where
    l: "create_loom ?m (sy0, w0) = Inr (l, sy1, w1)" and p: "create_proc l ?m (sy1, w1) = Inr (p, sy2, w2)"
    and t: "create_thread p ?m (sy2, w2) = Inr (t, sy3, w3)"
    and sw': "sw' = (sy3\<lparr>sy_lpt := (sy_lpt sy3)(n := Some (l, p, t))\<rparr>, w3)"
    by (auto simp: create_stream_def)
  note bl = create_loom_built [OF l] and bp = create_proc_built [OF p] and bt = create_thread_built [OF t]
  have t1: "sys_tree (sy1, w1)" "grows sw (sy1, w1)" using bl tree sw by (simp_all add: built_def)
  have t2: "sys_tree (sy2, w2)" "grows (sy1, w1) (sy2, w2)" using bp t1(1) by (simp_all add: built_def)
  have t3: "sys_tree (sy3, w3)" "grows (sy2, w2) (sy3, w3)" using bt t2(1) by (simp_all add: built_def)
  have g: "grows sw (sy3, w3)" using t1(2) t2(2) t3(2) grows_trans by blast
  have g2: "grows (sy1, w1) (sy3, w3)" using t2(2) t3(2) grows_trans by blast
  have tree': "sys_tree sw'" using t3(1) by (simp add: sys_tree_def sw')
  have lpt: "sy_lpt sy3 = sy_lpt sy0" "sy_next sy0 \<le> sy_next sy2" using g t1(2) t2(2) by (auto simp: grows_def sw)
  have keep: "lpt_entry m e sw'" if "lpt_entry m e sw" for m e
    using lpt_entry_grows [OF that tree g] by (simp add: lpt_entry_def sw' split: prod.splits)
  have lname: "loom_name ?m = Some (lm_name (looms w3 l))" "l \<in> set (sy_looms sy3)"
  proof -
    have "l < sy_next sy1" using bl t1(1) by (auto simp: sys_tree_def)
    then show "loom_name ?m = Some (lm_name (looms w3 l))" "l \<in> set (sy_looms sy3)"
      using bl g2 by (auto simp: grows_def)
  qed
  have new: "lpt_entry ?m (l, p, t) sw'"
    using lname bp bt by (auto simp: lpt_entry_def sw')
  have tn: "t = sy_next sy2" "t < sy_next sy3" using bt t3(1) by (auto simp: sys_tree_def)
  have old: "x < sy_next sy0" if "sy_lpt sy0 i = Some (a, b, x)" for i a b x
    using d that by (auto simp: lpt_done_def sw)
  have fresh: "sy_lpt sy0 i \<noteq> Some (a, b, t)" for i a b using old [of i a b t] tn(1) lpt(2) by auto
  have "lpt_done metas (Suc n) sw'"
    unfolding lpt_done_def
  proof (intro conjI allI impI)
    fix i e assume i: "sy_lpt (fst sw') i = Some e"
    have d1: "sy_lpt sy0 i = Some e \<Longrightarrow> i < n \<and> lpt_entry (metas ! i) e sw" using d unfolding lpt_done_def sw fst_conv by blast
    have cases: "i = n \<and> e = (l, p, t) \<or> sy_lpt sy0 i = Some e" using i lpt(1) by (auto simp: sw' split: if_splits)
    from cases d1 show "i < Suc n" by auto
    from cases d1 new keep show "lpt_entry (metas ! i) e sw'" by blast
  next
    fix i assume "i < Suc n" "is_thread_stream (metas ! i) = Inr True"
    then show "sy_lpt (fst sw') i \<noteq> None" using d lpt(1) by (auto simp: lpt_done_def sw sw' less_Suc_eq)
  next
    fix i j a b a' b' x assume "sy_lpt (fst sw') i = Some (a, b, x)" "sy_lpt (fst sw') j = Some (a', b', x)"
    then show "i = j" using d fresh lpt(1) unfolding lpt_done_def sw' sw by (auto split: if_splits)
  next
    fix i a b x assume "sy_lpt (fst sw') i = Some (a, b, x)"
    then show "x < sy_next (fst sw')" using old [of i a b x] tn lpt by (auto simp: sw' split: if_splits)
  qed
  moreover have "blank (snd sw) \<longrightarrow> blank (snd sw')" "sy_threads (fst sw') = sy_threads (fst sw)"
    using bl bp bt by (simp_all add: built_def sw sw')
  ultimately show ?thesis using tree' by simp
qed

lemma create_system_done:
  assumes ok: "create_system metas sw = Inr sw'" and init: "lpt_done metas 0 sw" "sys_tree sw"
  shows "lpt_done metas (length metas) sw' \<and> sys_tree sw' \<and> (blank (snd sw) \<longrightarrow> blank (snd sw'))
    \<and> sy_threads (fst sw') = sy_threads (fst sw)"
proof -
  have "lpt_done metas (n + k) v' \<and> sys_tree v' \<and> (blank (snd v) \<longrightarrow> blank (snd v')) \<and> sy_threads (fst v') = sy_threads (fst v)"
    if "foldr_res create_stream (zip [n..<n + k] (take k (drop n metas))) v = Inr v'" "lpt_done metas n v" "sys_tree v"
      "n + k \<le> length metas" for n k v v'
    using that
  proof (induction k arbitrary: n v)
    case (Suc k)
    have "take (Suc k) (drop n metas) = metas ! n # take k (drop (Suc n) metas)"
      using Suc.prems(4) by (simp add: Cons_nth_drop_Suc [symmetric])
    moreover have "[n..<n + Suc k] = n # [Suc n..<Suc n + k]" by (simp add: upt_conv_Cons)
    ultimately obtain v1 where v1: "create_stream (n, metas ! n) v = Inr v1"
      "foldr_res create_stream (zip [Suc n..<Suc n + k] (take k (drop (Suc n) metas))) v1 = Inr v'"
      using Suc.prems(1) by (auto simp del: upt_Suc)
    from create_stream_done [OF v1(1) Suc.prems(2,3)] Suc.IH [OF v1(2)] Suc.prems(4) show ?case by auto
  qed auto
  from this [of 0 "length metas" sw sw'] ok init show ?thesis by (simp add: create_system_def)
qed

subsection \<open>Order and indices\<close>

text \<open>What comes after keeps the tree up to the order of its lists.\<close>

definition keeps :: "'x sys_bay_scheme \<Rightarrow> 'x sys_bay_scheme \<Rightarrow> bool" where
  "keeps w w' \<longleftrightarrow> (\<forall>a. lm_name (looms w' a) = lm_name (looms w a) \<and> mset (lm_procs (looms w' a)) = mset (lm_procs (looms w a))
       \<and> pr_pid (procs w' a) = pr_pid (procs w a) \<and> pr_loom (procs w' a) = pr_loom (procs w a)
       \<and> mset (pr_threads (procs w' a)) = mset (pr_threads (procs w a))
       \<and> th_tid (threads w' a) = th_tid (threads w a) \<and> th_proc (threads w' a) = th_proc (threads w a))
     \<and> (blank w \<longrightarrow> blank w')"

lemma keeps_refl [simp]: "keeps w w"
  by (simp add: keeps_def)

lemma keeps_trans: "keeps a b \<Longrightarrow> keeps b c \<Longrightarrow> keeps a c"
  by (auto simp: keeps_def)

lemma keeps_foldr: "foldr_res f xs w = Inr w' \<Longrightarrow> (\<And>x v v'. f x v = Inr v' \<Longrightarrow> keeps v v') \<Longrightarrow> keeps w w'"
  by (rule foldr_res_invar [where I = "keeps w"]) (auto intro: keeps_trans)

lemma keeps_fold: "(\<And>x v. keeps v (f x v)) \<Longrightarrow> keeps w (fold f xs w)"
  by (induction xs arbitrary: w) (auto intro: keeps_trans)

lemma keeps_sets:
  assumes "keeps w w'"
  shows "set (lm_procs (looms w' a)) = set (lm_procs (looms w a))" "set (pr_threads (procs w' a)) = set (pr_threads (procs w a))"
    "distinct (lm_procs (looms w' a)) = distinct (lm_procs (looms w a))"
    "distinct (pr_threads (procs w' a)) = distinct (pr_threads (procs w a))"
proof -
  have m: "mset (lm_procs (looms w' a)) = mset (lm_procs (looms w a))" "mset (pr_threads (procs w' a)) = mset (pr_threads (procs w a))"
    using assms by (simp_all add: keeps_def)
  show "set (lm_procs (looms w' a)) = set (lm_procs (looms w a))" "set (pr_threads (procs w' a)) = set (pr_threads (procs w a))"
    "distinct (lm_procs (looms w' a)) = distinct (lm_procs (looms w a))"
    "distinct (pr_threads (procs w' a)) = distinct (pr_threads (procs w a))"
    using mset_eq_setD [OF m(1)] mset_eq_setD [OF m(2)] mset_eq_imp_distinct_iff [OF m(1)] mset_eq_imp_distinct_iff [OF m(2)]
    by simp_all
qed

lemma keeps_tree:
  assumes "keeps w w'" and "sys_tree (sy, w)" and "mset (sy_looms sy') = mset (sy_looms sy)" and "sy_next sy' = sy_next sy"
  shows "sys_tree (sy', w')"
proof -
  have "set (sy_looms sy') = set (sy_looms sy)" "distinct (sy_looms sy') = distinct (sy_looms sy)"
    using mset_eq_setD [OF assms(3)] mset_eq_imp_distinct_iff [OF assms(3)] by simp_all
  then show ?thesis using assms(1,2,4) keeps_sets [OF assms(1)] by (simp add: sys_tree_def keeps_def)
qed

lemma keeps_entry:
  assumes "keeps w w'" and "lpt_entry m e (sy, w)" and "set (sy_looms sy') = set (sy_looms sy)"
  shows "lpt_entry m e (sy', w')"
  using assms keeps_sets [OF assms(1)] by (auto simp: lpt_entry_def keeps_def split: prod.splits)

lemma put_keeps:
  "lm_name lm = lm_name (looms w l) \<Longrightarrow> mset (lm_procs lm) = mset (lm_procs (looms w l)) \<Longrightarrow> keeps w (put_loom l lm w)"
  "pr_pid pr = pr_pid (procs w p) \<Longrightarrow> pr_loom pr = pr_loom (procs w p) \<Longrightarrow> mset (pr_threads pr) = mset (pr_threads (procs w p))
     \<Longrightarrow> keeps w (put_proc p pr w)"
  by (auto simp: keeps_def blank_def)

lemma put_thread_keeps: "keeps w (put_thread t ((threads w t)\<lparr>th_gindex := g\<rparr>) w)" "keeps w (put_thread t ((threads w t)\<lparr>th_is_init := b\<rparr>) w)"
  by (auto simp: keeps_def blank_def)

lemma put_cpu_keeps: "keeps w (put_cpu c ((cpus w c)\<lparr>cp_gindex := g\<rparr>) w)" "keeps w (put_cpu c ((cpus w c)\<lparr>cp_is_init := b\<rparr>) w)"
  by (auto simp: keeps_def blank_def)

lemma mem_keeps [simp]: "keeps w (w\<lparr>bay_mem := m\<rparr>)"
  by (simp add: keeps_def blank_def)

lemma loom_set_rank_min_keeps: "loom_set_rank_min l w = Inr w' \<Longrightarrow> keeps w w'"
  by (auto simp: loom_set_rank_min_def Let_def intro!: put_keeps split: if_splits)

lemma loom_sort_keeps: "keeps w (loom_sort l w)"
  unfolding loom_sort_def Let_def
  by (rule keeps_trans [OF put_keeps(1) keeps_fold]) (auto simp: proc_sort_def Let_def intro!: put_keeps(2))

lemma set_indices_keeps: "(\<And>a i v. keeps v (f a i v)) \<Longrightarrow> keeps w (set_indices f i as w)"
  by (induction as arbitrary: w i) (simp, metis keeps_trans set_indices.simps(2))

lemma init_global_indices_keeps: "keeps w (snd (init_global_indices (sy, w)))"
  unfolding init_global_indices_def Let_def prod.case snd_conv thread_set_gindex_def
  by (intro keeps_trans [OF _ set_indices_keeps] set_indices_keeps put_thread_keeps put_cpu_keeps put_keeps) simp_all

lemma keeps_init_end:
  "thread_init_end t w = Inr w' \<Longrightarrow> keeps w w'"
  "cpu_init_end c w = Inr w' \<Longrightarrow> keeps w w'"
  "loom_init_end l w = Inr w' \<Longrightarrow> keeps w w'"
proof -
  have chan: "keeps v v'" if "rbind (chan_init ty nm) (\<lambda>ch. Inr (v\<lparr>bay_mem := f ch\<rparr>)) = Inr v'" for v v' :: "'x sys_bay_scheme" and ty nm f
    using that by auto
  show "keeps w w'" if ok: "thread_init_end t w = Inr w'"
  proof -
    from ok obtain w1 m where w1: "foldr_res (thread_init_chan t) [0..<TH_CHAN_MAX] w = Inr w1"
      and w': "w' = put_thread t ((threads (w1\<lparr>bay_mem := m\<rparr>) t)\<lparr>th_is_init := True\<rparr>) (w1\<lparr>bay_mem := m\<rparr>)"
      by (auto simp: thread_init_end_def Let_def split: if_splits)
    have "keeps w w1" using w1 by (rule keeps_foldr) (auto simp: thread_init_chan_def)
    then show ?thesis unfolding w' by (rule keeps_trans [OF keeps_trans]) (rule mem_keeps put_thread_keeps)+
  qed
  show "keeps w w'" if ok: "cpu_init_end c w = Inr w'"
  proof -
    from ok obtain w1 m where w1: "foldr_res (cpu_init_chan c) [0..<CPU_CHAN_MAX] w = Inr w1"
      and w': "w' = put_cpu c ((cpus w1 c)\<lparr>cp_is_init := True\<rparr>) (w1\<lparr>bay_mem := m\<rparr>)"
      by (auto simp: cpu_init_end_def Let_def split: if_splits)
    have "keeps w w1" using w1 by (rule keeps_foldr) (auto simp: cpu_init_chan_def)
    moreover have "keeps w1 w'" using put_cpu_keeps(2) [of "w1\<lparr>bay_mem := m\<rparr>" c True] keeps_trans [OF mem_keeps] w' by auto
    ultimately show ?thesis by (rule keeps_trans)
  qed
  show "keeps w w'" if "loom_init_end l w = Inr w'"
    using that by (auto simp: loom_init_end_def Let_def intro!: put_keeps split: if_splits)
qed

lemma init_end_system_keeps:
  assumes "init_end_system (sy, w) = Inr sw'"
  shows "fst sw' = sy \<and> keeps w (snd sw')"
proof -
  have proc: "keeps v v'" if ok: "init_end_proc p v = Inr v'" for p and v v' :: "'a sys_bay_scheme"
  proof -
    from ok obtain v1 pr where v1: "foldr_res thread_init_end (pr_threads (procs v p)) v = Inr v1"
      and pr: "proc_init_end (procs v1 p) = Inr pr" "v' = put_proc p pr v1" by (auto simp: init_end_proc_def)
    have "keeps v1 v'" using pr by (auto simp: proc_init_end_def intro!: put_keeps split: if_splits)
    moreover have "keeps v v1" using v1 keeps_init_end(1) by (rule keeps_foldr)
    ultimately show ?thesis using keeps_trans by blast
  qed
  have loom: "keeps v v'" if ok: "init_end_loom l v = Inr v'" for l and v v' :: "'a sys_bay_scheme"
  proof -
    from ok obtain v1 v2 v3 where v1: "foldr_res init_end_proc (lm_procs (looms v l)) v = Inr v1"
      and v2: "foldr_res cpu_init_end (lm_cpus (looms v1 l)) v1 = Inr v2"
      and v3: "cpu_init_end (lm_vcpu (looms v2 l)) v2 = Inr v3" "loom_init_end l v3 = Inr v'" by (auto simp: init_end_loom_def)
    have "keeps v v1" using v1 proc by (rule keeps_foldr)
    moreover have "keeps v1 v2" using v2 keeps_init_end(2) by (rule keeps_foldr)
    ultimately show ?thesis
      using keeps_init_end(2) [OF v3(1)] keeps_init_end(3) [OF v3(2)] by (blast intro: keeps_trans)
  qed
  from assms obtain w1 where w1: "foldr_res init_end_loom (sy_looms sy) w = Inr w1" and sw': "sw' = (sy, w1)"
    by (auto simp: init_end_system_def)
  from w1 loom have "keeps w w1" by (rule keeps_foldr)
  with sw' show ?thesis by simp
qed

text \<open>The indices of the threads, and that what comes after does not change them.\<close>

definition same_index :: "'x sys_bay_scheme \<Rightarrow> 'x sys_bay_scheme \<Rightarrow> bool" where
  "same_index w w' \<longleftrightarrow> (\<forall>t. th_gindex (threads w' t) = th_gindex (threads w t))"

lemma same_index_foldr: "foldr_res f xs w = Inr w' \<Longrightarrow> (\<And>x v v'. f x v = Inr v' \<Longrightarrow> same_index v v') \<Longrightarrow> same_index w w'"
  by (rule foldr_res_invar [where I = "same_index w"]) (auto simp: same_index_def)

lemma same_index_trans: "same_index a b \<Longrightarrow> same_index b c \<Longrightarrow> same_index a c"
  by (simp add: same_index_def)

lemma set_indices_threads:
  "(\<And>a i v. threads (f a i v) = threads v) \<Longrightarrow> threads (set_indices f i as w) = threads w"
  by (induction as arbitrary: i w) simp_all

lemma set_indices_gindex:
  fixes w :: "'x sys_bay_scheme"
  defines "f \<equiv> \<lambda>t i (w :: 'x sys_bay_scheme). put_thread t (thread_set_gindex i (threads w t)) w"
  assumes "distinct ts" and "k < length ts"
  shows "th_gindex (threads (set_indices f i ts w) (ts ! k)) = i + int k"
  using assms(2,3)
proof (induction ts arbitrary: i k w)
  case (Cons t ts)
  have other: "x \<notin> set ts \<Longrightarrow> threads (set_indices f j ts v) x = threads v x" for x j and v :: "'x sys_bay_scheme"
    by (induction ts arbitrary: j v) (auto simp: f_def)
  show ?case
  proof (cases k)
    case 0
    then show ?thesis using Cons.prems(1) other by (simp add: f_def thread_set_gindex_def)
  next
    case (Suc m)
    then show ?thesis using Cons.IH [of m "i + 1"] Cons.prems by simp
  qed
qed simp

lemma init_global_indices_gindex:
  assumes "distinct (sy_threads sy)" and "k < length (sy_threads sy)"
  shows "th_gindex (threads (snd (init_global_indices (sy, w))) (sy_threads sy ! k)) = int k"
proof -
  let ?f = "\<lambda>t i w. put_thread t (thread_set_gindex i (threads w t)) w"
  define w2 where "w2 = set_indices (\<lambda>p i w. put_proc p ((procs w p)\<lparr>pr_gindex := i\<rparr>) w) 0 (sy_procs sy)
      (set_indices (\<lambda>l i w. put_loom l ((looms w l)\<lparr>lm_gindex := i\<rparr>) w) 0 (sy_looms sy) w)"
  have "threads (snd (init_global_indices (sy, w))) = threads (set_indices ?f 0 (sy_threads sy) w2)"
    unfolding init_global_indices_def Let_def prod.case snd_conv w2_def by (rule set_indices_threads) simp
  with set_indices_gindex [OF assms, of 0 w2] show ?thesis by simp
qed

lemma same_index_init_end:
  assumes "init_end_system (sy, w) = Inr sw'"
  shows "same_index w (snd sw')"
proof -
  have mem: "threads v' = threads v" if "foldr_res f xs v = Inr v'" "\<And>x u u'. f x u = Inr u' \<Longrightarrow> threads u' = threads u"
    for f :: "nat \<Rightarrow> 'a sys_bay_scheme \<Rightarrow> 'a sys_bay_scheme res" and xs v v'
    using foldr_res_invar [where I = "\<lambda>u. threads u = threads v", OF that(1)] that(2) by auto
  have th: "same_index v v'" if ok: "thread_init_end t v = Inr v'" for t and v v' :: "'a sys_bay_scheme"
  proof -
    from ok obtain v1 where v1: "foldr_res (thread_init_chan t) [0..<TH_CHAN_MAX] v = Inr v1"
      and v': "threads v' = (threads v1)(t := (threads v1 t)\<lparr>th_is_init := True\<rparr>)"
      by (auto simp: thread_init_end_def Let_def split: if_splits)
    have "threads v1 = threads v" using v1 by (rule mem) (auto simp: thread_init_chan_def)
    with v' show ?thesis by (simp add: same_index_def)
  qed
  have cp: "same_index v v'" if ok: "cpu_init_end c v = Inr v'" for c and v v' :: "'a sys_bay_scheme"
  proof -
    from ok obtain v1 where v1: "foldr_res (cpu_init_chan c) [0..<CPU_CHAN_MAX] v = Inr v1" and v': "threads v' = threads v1"
      by (auto simp: cpu_init_end_def Let_def split: if_splits)
    have "threads v1 = threads v" using v1 by (rule mem) (auto simp: cpu_init_chan_def)
    with v' show ?thesis by (simp add: same_index_def)
  qed
  have pr: "same_index v v'" if ok: "init_end_proc p v = Inr v'" for p and v v' :: "'a sys_bay_scheme"
  proof -
    from ok obtain v1 where v1: "foldr_res thread_init_end (pr_threads (procs v p)) v = Inr v1" "threads v' = threads v1"
      by (auto simp: init_end_proc_def)
    with same_index_foldr [OF v1(1)] th show ?thesis by (auto simp: same_index_def)
  qed
  have lm: "same_index v v'" if ok: "init_end_loom l v = Inr v'" for l and v v' :: "'a sys_bay_scheme"
  proof -
    from ok obtain v1 v2 v3 where v1: "foldr_res init_end_proc (lm_procs (looms v l)) v = Inr v1"
      and v2: "foldr_res cpu_init_end (lm_cpus (looms v1 l)) v1 = Inr v2"
      and v3: "cpu_init_end (lm_vcpu (looms v2 l)) v2 = Inr v3" "threads v' = threads v3"
      by (auto simp: init_end_loom_def loom_init_end_def Let_def split: if_splits)
    have "same_index v v1" using v1 pr by (rule same_index_foldr)
    moreover have "same_index v1 v2" using v2 cp by (rule same_index_foldr)
    moreover have "same_index v2 v'" using cp [OF v3(1)] v3(2) by (simp add: same_index_def)
    ultimately show ?thesis using same_index_trans by blast
  qed
  from assms obtain w1 where w1: "foldr_res init_end_loom (sy_looms sy) w = Inr w1" and sw': "sw' = (sy, w1)"
    by (auto simp: init_end_system_def)
  from w1 lm have "same_index w w1" by (rule same_index_foldr)
  with sw' show ?thesis by simp
qed

text \<open>The list of all threads has each thread of the tree once.\<close>

lemma distinct_concat_map:
  assumes "distinct xs" and "\<And>x. x \<in> set xs \<Longrightarrow> distinct (f x)"
    and "\<And>x y z. x \<in> set xs \<Longrightarrow> y \<in> set xs \<Longrightarrow> z \<in> set (f x) \<Longrightarrow> z \<in> set (f y) \<Longrightarrow> x = y"
  shows "distinct (concat (map f xs))"
  using assms
proof (induction xs)
  case (Cons x xs)
  have "set (f x) \<inter> set (concat (map f xs)) = {}"
  proof (rule ccontr)
    assume "set (f x) \<inter> set (concat (map f xs)) \<noteq> {}"
    then obtain z y where "z \<in> set (f x)" "y \<in> set xs" "z \<in> set (f y)" by auto
    with Cons.prems(3) [of x y z] have "x = y" by simp
    with \<open>y \<in> set xs\<close> Cons.prems(1) show False by simp
  qed
  with Cons show ?case by simp
qed simp

lemma all_threads_distinct:
  assumes "sys_tree (sy, w)"
  shows "distinct (concat (map (\<lambda>l. concat (map (\<lambda>p. pr_threads (procs w p)) (lm_procs (looms w l)))) (sy_looms sy)))"
proof (rule distinct_concat_map)
  have t: "t \<in> set (pr_threads (procs w p)) \<Longrightarrow> th_proc (threads w t) = Some p" for t p
    using assms by (simp add: sys_tree_def)
  have l: "p \<in> set (lm_procs (looms w l)) \<Longrightarrow> pr_loom (procs w p) = Some l" for p l
    using assms by (simp add: sys_tree_def)
  show "distinct (sy_looms sy)" using assms by (simp add: sys_tree_def)
  show "distinct (concat (map (\<lambda>p. pr_threads (procs w p)) (lm_procs (looms w l))))" for l
  proof (rule distinct_concat_map)
    show "distinct (lm_procs (looms w l))" "distinct (pr_threads (procs w p))" for p
      using assms by (simp_all add: sys_tree_def)
    show "p = q" if "t \<in> set (pr_threads (procs w p))" "t \<in> set (pr_threads (procs w q))" for p q t
      using t [OF that(1)] t [OF that(2)] by simp
  qed
  show "l = k" if "x \<in> set (concat (map (\<lambda>p. pr_threads (procs w p)) (lm_procs (looms w l))))"
      "x \<in> set (concat (map (\<lambda>p. pr_threads (procs w p)) (lm_procs (looms w k))))" for l k x
  proof -
    from that obtain p q where p: "p \<in> set (lm_procs (looms w l))" "x \<in> set (pr_threads (procs w p))"
      and q: "q \<in> set (lm_procs (looms w k))" "x \<in> set (pr_threads (procs w q))" by auto
    from t [OF p(2)] t [OF q(2)] have "p = q" by simp
    with l [OF p(1)] l [OF q(1)] show ?thesis by simp
  qed
qed

subsection \<open>The whole initialization\<close>

lemma set_offset_fold:
  assumes "foldr_res (set_offset (sy, w)) is ss = Inr ss'" and "distinct is"
  shows "(\<forall>i. i \<notin> set is \<longrightarrow> ss' i = ss i)
    \<and> (\<forall>i \<in> set is. \<forall>l p t. sy_lpt sy i = Some (l, p, t) \<longrightarrow> st_clock_offset (ss' i) = lm_clock_offset (looms w l))"
  using assms
proof (induction "is" arbitrary: ss)
  case (Cons i "is")
  from Cons.prems(1) obtain ss1 where s1: "set_offset (sy, w) i ss = Inr ss1" "foldr_res (set_offset (sy, w)) is ss1 = Inr ss'"
    by auto
  note IH = Cons.IH [OF s1(2)]
  have one: "\<forall>j. j \<noteq> i \<longrightarrow> ss1 j = ss j"
    "\<forall>l p t. sy_lpt sy i = Some (l, p, t) \<longrightarrow> st_clock_offset (ss1 i) = lm_clock_offset (looms w l)"
    using s1(1) by (auto simp: set_offset_def stream_clkoff_set_def split: option.splits if_splits)
  with IH Cons.prems(2) show ?case by auto
qed simp

lemma clkoff_keeps:
  assumes "clkoff_loom host off l w = Inr w'"
  shows "keeps w w' \<and> same_index w w'"
  using assms by (auto simp: clkoff_loom_def Let_def same_index_def intro!: put_keeps split: if_splits)

lemma init_offsets_ok:
  assumes "init_offsets table n ((sy, w), ss) = Inr ((sy', w'), ss')"
  shows "sy' = sy \<and> keeps w w' \<and> same_index w w'
    \<and> (\<forall>i < n. \<forall>l p t. sy_lpt sy i = Some (l, p, t) \<longrightarrow> st_clock_offset (ss' i) = lm_clock_offset (looms w' l))"
proof -
  from assms have w': "foldr_res (parse_clkoff_entry (sy_looms sy)) table w = Inr w'" and sy: "sy' = sy"
    and ss: "foldr_res (set_offset (sy, w')) [0..<n] ss = Inr ss'" by (auto simp: init_offsets_def)
  have entry: "keeps v v' \<and> same_index v v'" if "parse_clkoff_entry ls e v = Inr v'" for ls e and v v' :: "'a sys_bay_scheme"
  proof -
    from that obtain host off v1 where v1: "foldr_res (clkoff_loom host off) ls v = Inr v1" "v' = v1"
      by (auto simp: parse_clkoff_entry_def split: prod.splits if_splits)
    have "keeps v v1" using v1(1) by (rule keeps_foldr) (simp add: clkoff_keeps)
    moreover have "same_index v v1" using v1(1) by (rule same_index_foldr) (simp add: clkoff_keeps)
    ultimately show ?thesis using v1(2) by simp
  qed
  have "keeps w w'" using w' by (rule keeps_foldr) (simp add: entry)
  moreover have "same_index w w'" using w' by (rule same_index_foldr) (simp add: entry)
  ultimately show ?thesis using set_offset_fold [OF ss] sy by simp
qed

text \<open>A state in which nothing was created yet.\<close>

definition sys_new :: "'x sys_bay_scheme \<Rightarrow> bool" where
  "sys_new w \<longleftrightarrow> blank w \<and> (\<forall>l. lm_procs (looms w l) = []) \<and> (\<forall>p. pr_threads (procs w p) = [])"

lemma sort_lpt_keeps:
  "keeps w (snd (sort_lpt (sy, w))) \<and> mset (sy_looms (fst (sort_lpt (sy, w)))) = mset (sy_looms sy)
    \<and> sy_next (fst (sort_lpt (sy, w))) = sy_next sy \<and> sy_lpt (fst (sort_lpt (sy, w))) = sy_lpt sy
    \<and> sy_threads (fst (sort_lpt (sy, w))) = sy_threads sy"
  unfolding sort_lpt_def Let_def prod.case fst_conv snd_conv
  by (auto intro!: keeps_fold loom_sort_keeps)

text \<open>C7. The initialization of the system from the metadata of the streams. If it succeeds, every stream of a thread has
  its entry: the loom, the process and the thread with the name and the identifiers of its metadata, the thread in the list of
  the process and the process in that of the loom. Two streams never share a thread. The global index of a thread is its
  position in the list of all threads, the clock of a stream is corrected with the offset of its loom, and
  the invariant of threads and CPUs that the events keep holds.\<close>

theorem system_init_ok:
  assumes ok: "system_init table metas (w, ss) = Inr ((sy', w'), ss')" and new: "sys_new w"
  shows "sys_wf w'
    \<and> (\<forall>i < length metas. is_thread_stream (metas ! i) = Inr True \<longrightarrow>
         (\<exists>l p t k. system_get_lpt i (sy', w') = Some (l, p, t) \<and> lpt_entry (metas ! i) (l, p, t) (sy', w')
            \<and> k < length (sy_threads sy') \<and> sy_threads sy' ! k = t \<and> th_gindex (threads w' t) = int k
            \<and> st_clock_offset (ss' i) = lm_clock_offset (looms w' l)))
    \<and> (\<forall>i j l p l' p' t. sy_lpt sy' i = Some (l, p, t) \<longrightarrow> sy_lpt sy' j = Some (l', p', t) \<longrightarrow> i = j)"
proof -
  from ok obtain sy1 w1 sy2 w2 sw5 where
    1: "create_system metas (system_empty, w) = Inr (sy1, w1)" and 2: "set_sort_criteria (sy1, w1) = Inr (sy2, w2)"
    and 5: "init_end_system (init_global_indices (init_global_lists (sort_lpt (sy2, w2)))) = Inr sw5"
    and 6: "init_offsets table (length metas) (sw5, ss) = Inr ((sy', w'), ss')"
    by (auto simp: system_init_def)
  have start: "lpt_done metas 0 (system_empty, w)" "sys_tree (system_empty, w)" "blank w"
    using new by (simp_all add: lpt_done_def system_empty_def sys_tree_def sys_new_def)
  from create_system_done [OF 1 start(1,2)] start(3) have d: "lpt_done metas (length metas) (sy1, w1)" "sys_tree (sy1, w1)" "blank w1"
    and th0: "sy_threads sy1 = []" by (auto simp: system_empty_def)
  from 2 obtain b where sy2: "sy2 = sy1\<lparr>sy_sort_by_rank := b\<rparr>" and r: "foldr_res loom_set_rank_min (sy_looms sy1) w1 = Inr w2"
    by (auto simp: set_sort_criteria_def split: if_splits) (metis system.surjective system.update_convs(10))+
  have k2: "keeps w1 w2" using r loom_set_rank_min_keeps by (rule keeps_foldr)
  obtain sy3 w3 where 3: "sort_lpt (sy2, w2) = (sy3, w3)" by force
  from sort_lpt_keeps [of w2 sy2] 3 sy2 th0 have k3: "keeps w2 w3" "mset (sy_looms sy3) = mset (sy_looms sy1)"
    "sy_next sy3 = sy_next sy1" "sy_lpt sy3 = sy_lpt sy1" "sy_threads sy3 = []" by simp_all
  have k13: "keeps w1 w3" using k2 k3(1) by (rule keeps_trans)
  have tree3: "sys_tree (sy3, w3)" by (rule keeps_tree [OF k13 d(2) k3(2,3)])
  let ?all = "concat (map (\<lambda>l. concat (map (\<lambda>p. pr_threads (procs w3 p)) (lm_procs (looms w3 l)))) (sy_looms sy3))"
  obtain sy3' where g3: "init_global_lists (sy3, w3) = (sy3', w3)" "sy_threads sy3' = ?all" "sy_lpt sy3' = sy_lpt sy1"
    "set (sy_looms sy3') = set (sy_looms sy1)"
    using k3 mset_eq_setD [OF k3(2)] by (simp add: init_global_lists_def)
  obtain sy4 w4 where 4: "init_global_indices (sy3', w3) = (sy4, w4)" by force
  then have s4: "sy_threads sy4 = ?all" "sy_lpt sy4 = sy_lpt sy1" "set (sy_looms sy4) = set (sy_looms sy1)"
    using g3 by (auto simp: init_global_indices_def Let_def)
  have k4: "keeps w3 w4" using init_global_indices_keeps [of w3 sy3'] 4 by simp
  have ix: "th_gindex (threads w4 (?all ! k)) = int k" if "k < length ?all" for k
    using init_global_indices_gindex [of sy3' k w3] 4 g3(2) all_threads_distinct [OF tree3] that by simp
  obtain sy5 w5 where sw5: "sw5 = (sy5, w5)" by (cases sw5)
  from 5 3 g3(1) 4 have f5: "init_end_system (sy4, w4) = Inr sw5" by simp
  have k5: "sy5 = sy4" "keeps w4 w5" "same_index w4 w5"
    using init_end_system_keeps [OF f5] same_index_init_end [OF f5] sw5 by auto
  from init_offsets_ok [of table "length metas" sy5 w5 ss sy' w' ss'] 6 sw5 have k6: "sy' = sy5" "keeps w5 w'" "same_index w5 w'"
    "\<forall>i < length metas. \<forall>l p t. sy_lpt sy5 i = Some (l, p, t) \<longrightarrow> st_clock_offset (ss' i) = lm_clock_offset (looms w' l)" by auto
  have k: "keeps w1 w'" using k13 k4 k5(2) k6(2) keeps_trans by blast
  have lpt: "sy_lpt sy' = sy_lpt sy1" "set (sy_looms sy') = set (sy_looms sy1)" "sy_threads sy' = ?all" using k5(1) k6(1) s4 by simp_all
  have "blank w'" using k d(3) by (simp add: keeps_def)
  moreover have "\<exists>l p t k. system_get_lpt i (sy', w') = Some (l, p, t) \<and> lpt_entry (metas ! i) (l, p, t) (sy', w')
            \<and> k < length (sy_threads sy') \<and> sy_threads sy' ! k = t \<and> th_gindex (threads w' t) = int k
            \<and> st_clock_offset (ss' i) = lm_clock_offset (looms w' l)"
    if i: "i < length metas" "is_thread_stream (metas ! i) = Inr True" for i
  proof -
    from d(1) i obtain l p t where e: "sy_lpt sy1 i = Some (l, p, t)" by (force simp: lpt_done_def)
    with d(1) have en: "lpt_entry (metas ! i) (l, p, t) (sy1, w1)" unfolding lpt_done_def fst_conv by blast
    have en': "lpt_entry (metas ! i) (l, p, t) (sy', w')" by (rule keeps_entry [OF k en lpt(2)])
    have "lpt_entry (metas ! i) (l, p, t) (sy3, w3)" by (rule keeps_entry [OF k13 en mset_eq_setD [OF k3(2)]])
    then have "t \<in> set ?all" by (auto simp: lpt_entry_def)
    then obtain n where n: "n < length ?all" "?all ! n = t" by (auto simp only: in_set_conv_nth)
    then have "th_gindex (threads w' t) = int n"
      using ix [OF n(1)] k5(3) k6(3) by (simp only: same_index_def)
    moreover have "st_clock_offset (ss' i) = lm_clock_offset (looms w' l)" using k6(1,4) k5(1) s4(2) e i(1) by simp
    ultimately show ?thesis using e en' n lpt(1,3) by (auto simp: system_get_lpt_def)
  qed
  moreover have "\<forall>i j l p l' p' t. sy_lpt sy' i = Some (l, p, t) \<longrightarrow> sy_lpt sy' j = Some (l', p', t) \<longrightarrow> i = j"
    using d(1) unfolding lpt(1) lpt_done_def fst_conv by blast
  ultimately show ?thesis using blank_sys_wf by blast
qed

text \<open>A trace of two threads of one process and the metadata of their streams.\<close>

definition demo_meta :: "real \<Rightarrow> json_object" where
  "demo_meta tid = [(''ovni'', JSONObject [(''part'', JSONString ''thread''), (''loom'', JSONString ''n.1''),
     (''pid'', JSONNumber 10), (''tid'', JSONNumber tid), (''app_id'', JSONNumber 1), (''finished'', JSONNumber 1),
     (''lib'', JSONObject [(''version'', JSONString ''1.9.0''), (''commit'', JSONString ''x'')]),
     (''loom_cpus'', JSONArray [JSONObject [(''index'', JSONNumber 0), (''phyid'', JSONNumber 4)]])])]"

definition demo_stream0 :: stream where
  "demo_stream0 = \<lparr>st_buf = stream_header, st_size = 8, st_usize = 0, st_offset = 0, st_cur_ev = None, st_lastclock = 0,
     st_deltaclock = 0, st_clock_offset = 0, st_active = False, st_unsorted = False\<rparr>"

definition demo_system :: "((system \<times> sys_bay) \<times> (nat \<Rightarrow> stream)) res" where
  "demo_system = system_init [(''n'', 7)] [demo_meta 12, demo_meta 11] (demo_sys0, \<lambda>_. demo_stream0)"

lemma demo_sys0_new: "sys_new demo_sys0"
  by (simp add: sys_new_def blank_def demo_sys0_def cpu_init_begin_def proc_init_begin_def bay.defs)

lemma demo_meta_get: "is_thread_stream (demo_meta t) = Inr True" "loom_name (demo_meta t) = Some ''n.1''"
   "proc_stream_get_pid (demo_meta t) = 10" "thread_finished (demo_meta t)"
   "thread_stream_get_tid (demo_meta t) = (if t = 0 then -1 else c_trunc t)"
   "meta_int ''ovni.app_id'' (demo_meta t) = Some 1" "meta_int ''ovni.rank'' (demo_meta t) = None" "meta_int ''ovni.nranks'' (demo_meta t) = None"
   "json_value_get_array (meta_get ''ovni.loom_cpus'' (demo_meta t)) = Some [JSONObject [(''index'', JSONNumber 0), (''phyid'', JSONNumber 4)]]"
   "json_value_get_string (meta_get ''ovni.lib.version'' (demo_meta t)) = Some ''1.9.0''"
   "json_value_get_string (meta_get ''ovni.lib.commit'' (demo_meta t)) = Some ''x''"
  by (simp_all add: is_thread_stream_def loom_name_def proc_stream_get_pid_def thread_finished_def thread_stream_get_tid_def
   meta_int_def meta_get_def dotget_path dots_keys demo_meta_def Let_def c_trunc_def)

lemmas system_defs = system_init_def create_system_def create_stream_def create_loom_def system_empty_def find_loom_def loom_init_begin_def
   loom_load_metadata_def load_cpus_def load_cpu_def loom_find_cpu_def cpu_set_loom_def loom_add_cpu_def cpu_init_begin_def Let_def upt_rec
   create_proc_def loom_find_proc_def loom_add_proc_def proc_init_begin_def proc_load_metadata_def load_appid_def load_rank_def
   create_thread_def proc_find_thread_def proc_add_thread_def thread_load_metadata_def thread_init_begin_def

lemma demo_system_init:
  "res_get (\<lambda>((sy, w), ss). (sy_lpt sy 0, sy_threads sy, st_clock_offset (ss 0))) demo_system = Some (Some (0, 3, 4), [6, 4], 7)"
  by (simp add: demo_system_def demo_meta_get system_defs PATH_MAX_def res_get_def c_trunc_def
   set_sort_criteria_def loom_set_rank_min_def sort_lpt_def loom_sort_def proc_sort_def init_global_lists_def 
   init_global_indices_def thread_set_gindex_def init_end_system_def init_end_loom_def init_end_proc_def thread_init_end_def
   proc_init_end_def loom_init_end_def cpu_init_end_def thread_init_chan_def cpu_init_chan_def chan_init_def th_chan_defs th_chan_name_def
   dec.simps MAX_CHAN_NAME_def cpu_chan_name_def cpu_chan_defs report_libovni_version_def init_offsets_def parse_clkoff_entry_def clkoff_loom_def
   set_hostname_def set_offset_def stream_clkoff_set_def thread_metas_def demo_stream0_def)

theorem system_init_ok_witness:
  "\<exists>sy w ss. demo_system = Inr ((sy, w), ss) \<and> sys_wf w \<and> system_get_lpt 0 (sy, w) = Some (0, 3, 4)
     \<and> th_gindex (threads w 4) = 1 \<and> st_clock_offset (ss 0) = 7"
proof -
  from demo_system_init obtain sy w ss where d: "demo_system = Inr ((sy, w), ss)" "sy_lpt sy 0 = Some (0, 3, 4)"
    "sy_threads sy = [6, 4]" "st_clock_offset (ss 0) = 7"
    by (auto simp: res_get_Some)
  note ok = system_init_ok [OF d(1) [unfolded demo_system_def] demo_sys0_new]
  then have "sys_wf w" by (rule conjunct1)
  moreover have "th_gindex (threads w 4) = 1"
    using ok [THEN conjunct2, THEN conjunct1, rule_format, of 0] d(2,3)
    by (auto simp: demo_meta_get system_get_lpt_def less_Suc_eq)
  ultimately show ?thesis using d(1,2,4) unfolding system_get_lpt_def prod.case by blast
qed

end
