(* ===== verification/Connect.thy ===== *)
theory Connect
  imports Wiring System Source_Writes
begin

text \<open>
  Connecting the system to the bay and to the traces: \<^verbatim>\<open>system_connect\<close> of \<^verbatim>\<open>src/emu/system.c\<close>, the rows of a
  Paraver trace (\<^verbatim>\<open>src/emu/pv/prf.c\<close>), the Paraver types of the threads (\<^verbatim>\<open>src/emu/thread.c\<close>) and the names of the
  CPUs (\<^verbatim>\<open>src/emu/cpu.c\<close>). It leaves the state the models are created in (\<open>system_ready\<close>).
\<close>

subsection \<open>Rows\<close>

text \<open>The rows of a trace, \<open>None\<close> where none was set, and the lines written when it is closed.\<close>

record prf_rows =
  pf_rows :: "string option list"
  pf_file :: "string list"

definition MAX_PRF_LABEL :: nat where "MAX_PRF_LABEL = 512"

definition prf_open :: "nat \<Rightarrow> prf_rows" where
  "prf_open nrows = \<lparr>pf_rows = replicate nrows None, pf_file = []\<rparr>"

definition prf_add :: "int \<Rightarrow> string \<Rightarrow> prf_rows \<Rightarrow> prf_rows res" where
  "prf_add index label prf =
     (if index < 0 \<or> index \<ge> int (length (pf_rows prf)) then Inl (EPrv PrfBounds)
      else if pf_rows prf ! nat index \<noteq> None then Inl (EPrv PrfRowTaken)
      else if length label \<ge> MAX_PRF_LABEL then Inl (EPrv PrfLabelTooLong)
      else Inr (prf\<lparr>pf_rows := (pf_rows prf)[nat index := Some label]\<rparr>))"

definition prf_close :: "prf_rows \<Rightarrow> prf_rows res" where
  "prf_close prf =
     (if None \<in> set (pf_rows prf) then Inl (EPrv PrfRowMissing)
      else Inr (prf\<lparr>pf_file := pf_file prf @ [''LEVEL NODE SIZE 1'', ''hostname'', '''',
          ''LEVEL THREAD SIZE '' @ dec (length (pf_rows prf))] @ map the (pf_rows prf)\<rparr>))"

subsection \<open>Types of the threads, names of the CPUs\<close>

definition th_pvt_name :: "nat \<Rightarrow> string" where
  "th_pvt_name i = (if i = TH_CHAN_CPU then ''Thread: CPU affinity''
     else if i = TH_CHAN_TID then ''Thread: TID of the ACTIVE thread'' else ''Thread: thread state'')"

definition state_name :: "(int \<times> string) list" where
  "state_name = [(th_st TH_ST_UNKNOWN, ''Unknown''), (th_st TH_ST_RUNNING, ''Running''), (th_st TH_ST_PAUSED, ''Paused''),
     (th_st TH_ST_DEAD, ''Dead''), (th_st TH_ST_COOLING, ''Cooling''), (th_st TH_ST_WARMING, ''Warming'')]"

definition th_pcf_labels :: "nat \<Rightarrow> (int \<times> string) list" where
  "th_pcf_labels i = (if i = TH_CHAN_STATE then state_name else [])"

definition th_create_type :: "nat \<Rightarrow> pcf \<Rightarrow> pcf res" where
  "th_create_type i pcf =
     (let type = th_chan_type i in
      if type = -1 then Inr pcf
      else rbind (pcf_add_type type (th_pvt_name i) pcf) (\<lambda>pcf1.
           rbind (create_values (th_pcf_labels i) (last pcf1)) (\<lambda>t. Inr (butlast pcf1 @ [t]))))"

definition thread_create_pcf_types :: "pcf \<Rightarrow> pcf res" where
  "thread_create_pcf_types pcf = foldr_res th_create_type [0..<TH_CHAN_MAX] pcf"

text \<open>The numbers are converted to \<^verbatim>\<open>size_t\<close>.\<close>

definition cpu_name :: "nat \<Rightarrow> 'x sys_bay_scheme \<Rightarrow> string" where
  "cpu_name c w =
     (let cp = cpus w c; i = dec (nat (lm_gindex (looms w (the (cp_loom cp))) mod 2 ^ 64)); j = dec (nat (cp_phyid cp mod 2 ^ 64)) in
      if cp_is_virtual cp then ''vCPU '' @ i @ ''.*'' else '' CPU '' @ i @ ''.'' @ j)"

text \<open>The value is added to the type in place: the pointer from \<^verbatim>\<open>pcf_find_type\<close>.\<close>

definition cpu_add_to_pcf_type :: "nat \<Rightarrow> 'x sys_bay_scheme \<Rightarrow> pcf \<Rightarrow> pcf res" where
  "cpu_add_to_pcf_type c w pcf =
     (case pcf_find_type (th_chan_type TH_CHAN_CPU) pcf of
        None \<Rightarrow> Inl (EPrv PcfTypeMissing)
      | Some t \<Rightarrow> rbind (pcf_add_value (cp_gindex (cpus w c) + 1) (cpu_name c w) t) (\<lambda>t'.
          Inr (map (\<lambda>u. if pt_id u = pt_id t then t' else u) pcf)))"

subsection \<open>\<^verbatim>\<open>system_connect\<close>\<close>

text \<open>The state: the types and the rows of every trace, and the emulator. The traces are at the addresses 0 and 1.\<close>

type_synonym 'x pv_st = "(nat \<Rightarrow> pcf) \<times> (nat \<Rightarrow> prf_rows) \<times> 'x sys_bay_scheme"

definition PVT_CPU :: nat where "PVT_CPU = 0"
definition PVT_TH :: nat where "PVT_TH = 1"

definition prf_add_at :: "nat \<Rightarrow> int \<Rightarrow> string \<Rightarrow> (nat \<Rightarrow> prf_rows) \<Rightarrow> (nat \<Rightarrow> prf_rows) res" where
  "prf_add_at k index label prfs = rbind (prf_add index label (prfs k)) (\<lambda>p. Inr (prfs(k := p)))"

definition dec_int :: "int \<Rightarrow> string" where
  "dec_int i = (if i < 0 then ''-'' @ dec (nat (- i)) else dec (nat i))"

definition connect_thread_row :: "nat \<Rightarrow> 'x pv_st \<Rightarrow> 'x pv_st res" where
  "connect_thread_row t = (\<lambda>(pcfs, prfs, w).
     rbind (thread_connect t w) (\<lambda>w1.
     let name = ''TH '' @ dec_int (pr_appid (procs w1 (the (th_proc (threads w1 t))))) @ ''.'' @ dec_int (th_tid (threads w1 t)) in
     if length name \<ge> 128 then Inl (ESys SysLabelTooLong)
     else rbind (prf_add_at PVT_TH (th_gindex (threads w1 t)) name prfs) (\<lambda>prfs1. Inr (pcfs, prfs1, w1))))"

text \<open>With an accelerator configuration. \<open>acc\<close> has the name and the instance of every accelerator, \<open>n\<close> counts the threads.
  The condition on \<^verbatim>\<open>prf_add\<close> is the one of the code, which goes on only when the row could not be added.\<close>

definition connect_thread_acc :: "(string \<times> int) list \<Rightarrow> nat \<Rightarrow> nat \<times> nat \<times> 'x pv_st \<Rightarrow> (nat \<times> nat \<times> 'x pv_st) res" where
  "connect_thread_acc acc t = (\<lambda>(n, n_acc, pcfs, prfs, w).
     rbind (thread_connect t w) (\<lambda>w1.
     let appid = dec_int (pr_appid (procs w1 (the (th_proc (threads w1 t)))));
         is_acc = (n > 0 \<and> n \<le> length acc);
         name = (if is_acc then fst (acc ! n_acc) @ '' '' @ appid @ ''.'' @ dec_int (snd (acc ! n_acc))
                 else ''TH '' @ appid @ ''.'' @ dec_int (int n + 1 - int n_acc)) in
     if length name \<ge> 128 then Inl (ESys SysLabelTooLong)
     else case prf_add_at PVT_TH (th_gindex (threads w1 t)) name prfs of
            Inr _ \<Rightarrow> Inl (ESys SysPrfAdd)
          | Inl _ \<Rightarrow> Inr (Suc n, (if is_acc then Suc n_acc else n_acc), pcfs, prfs, w1)))"

definition connect_cpu_row :: "nat \<Rightarrow> 'x pv_st \<Rightarrow> 'x pv_st res" where
  "connect_cpu_row c = (\<lambda>(pcfs, prfs, w).
     rbind (cpu_connect c w) (\<lambda>w1.
     rbind (prf_add_at PVT_CPU (cp_gindex (cpus w1 c)) (cpu_name c w1) prfs) (\<lambda>prfs1.
     rbind (cpu_add_to_pcf_type c w1 (pcfs PVT_TH)) (\<lambda>pcf. Inr (pcfs(PVT_TH := pcf), prfs1, w1)))))"

definition system_connect :: "(string \<times> int) list option \<Rightarrow> system \<Rightarrow> 'x sys_bay_scheme \<Rightarrow> 'x pv_st res" where
  "system_connect acc sy w =
     rbind (recorder_add_pvt ''cpu'' PVT_CPU (int (sy_ncpus sy)) w) (\<lambda>w1.
     rbind (recorder_add_pvt ''thread'' PVT_TH (int (sy_nthreads sy)) w1) (\<lambda>w2.
     let st = (\<lambda>_. [], (\<lambda>_. prf_open 0)(PVT_CPU := prf_open (sy_ncpus sy), PVT_TH := prf_open (sy_nthreads sy)), w2) in
     rbind (case acc of
              None \<Rightarrow> foldr_res connect_thread_row (sy_threads sy) st
            | Some as \<Rightarrow> rbind (foldr_res (connect_thread_acc as) (sy_threads sy) (0, 0, st)) (\<lambda>(_, _, st1). Inr st1)) (\<lambda>(pcfs, prfs, w3).
     rbind (thread_create_pcf_types (pcfs PVT_TH)) (\<lambda>pcf.
     foldr_res connect_cpu_row (sy_cpus sy) (pcfs(PVT_TH := pcf), prfs, w3)))))"

subsection \<open>What connecting does\<close>

definition chan_new :: "chan \<Rightarrow> bool" where
  "chan_new ch \<longleftrightarrow> chan_wf ch \<and> \<not> ch_is_dirty ch \<and> \<not> ch_dirty_cb ch \<and> chan_read ch = VALUE_NULL"

text \<open>The channels of the set \<open>C\<close> are registered, and rows may be added to the traces; nothing else changes.\<close>

definition connect_step :: "cid set \<Rightarrow> 'x prv_bay_scheme \<Rightarrow> 'x prv_bay_scheme \<Rightarrow> bool" where
  "connect_step C w w' \<longleftrightarrow> prop_inv w' \<and> tracks_only w' \<and> prv_bay.more w' = prv_bay.more w \<and> registered w' = registered w \<union> C
     \<and> bay_dirty w' = bay_dirty w \<and> bay_state w' = bay_state w
     \<and> (\<forall>c. chan_read_at c w' = chan_read_at c w \<and> (is_source c \<and> c \<notin> C \<longrightarrow> bay_mem w' c = bay_mem w c))
     \<and> (\<forall>k. prv_wf (prvs w k) \<longrightarrow> prv_wf (prvs w' k))"

lemma connect_step_refl: "prop_inv w \<Longrightarrow> tracks_only w \<Longrightarrow> connect_step {} w w"
  by (simp add: connect_step_def)

lemma connect_step_trans: "connect_step C w w' \<Longrightarrow> connect_step D w' w'' \<Longrightarrow> connect_step (C \<union> D) w w''"
  by (auto simp: connect_step_def)

lemma wire_connect: "wire_step {} w w' \<Longrightarrow> connect_step {} w w'"
  by (simp add: wire_step_def connect_step_def)

lemma bay_register_connect:
  assumes "prop_inv w" "tracks_only w" and c: "is_source c" "c \<notin> registered w" "chan_new (bay_mem w c)"
    and ok: "bay_register c w = Inr w'"
  shows "connect_step {c} w w'"
proof -
  have "new_chan c (bay_mem w c) w = Inr w'" using ok by (simp add: new_chan_def)
  moreover have "c \<noteq> SortOutput s i" for s i using c(1) by auto
  ultimately have n: "prop_inv w'" "registered w' = insert c (registered w)" "bay_mem w' = (bay_mem w)(c := chan_set_dirty_cb (bay_mem w c))"
    "bay.more w' = bay.more w" "bay_cbs w' = bay_cbs w" "bay_ncbs w' = bay_ncbs w" "bay_dirty w' = bay_dirty w" "bay_state w' = bay_state w"
    using new_chan_ok [OF assms(1) c(2)] c(3) unfolding chan_new_def by blast+
  have "tracks_only w'" using assms(2) more_muxes [OF n(4)] by (simp add: tracks_only_def mux_used_def n(5,6))
  moreover have "prv_bay.more w' = prv_bay.more w"
    using n(4) by (cases w rule: prv_bay.cases_scheme; cases w' rule: prv_bay.cases_scheme) simp
  moreover have "chan_read (chan_set_dirty_cb ch) = chan_read ch" for ch
    by (simp add: chan_set_dirty_cb_def chan_read_def split: list.split)
  ultimately show ?thesis using n more_prvs [OF n(4)] by (simp add: connect_step_def)
qed

text \<open>A loop that connects the channels \<open>C x\<close> of every element; the new channels of later elements stay new.\<close>

lemma foldr_connect:
  assumes "foldr_res body xs s = Inr s'" and "prop_inv (wld s)" "tracks_only (wld s)" and "distinct xs"
    and new: "\<And>x c. x \<in> set xs \<Longrightarrow> c \<in> C x \<Longrightarrow> is_source c \<and> c \<notin> registered (wld s) \<and> chan_new (bay_mem (wld s) c)"
    and disj: "\<And>x y. x \<in> set xs \<Longrightarrow> y \<in> set xs \<Longrightarrow> x \<noteq> y \<Longrightarrow> C x \<inter> C y = {}"
    and step: "\<And>x v v'. x \<in> set xs \<Longrightarrow> body x v = Inr v' \<Longrightarrow> prop_inv (wld v) \<Longrightarrow> tracks_only (wld v) \<Longrightarrow>
        prv_bay.more (wld v) = prv_bay.more (wld s) \<Longrightarrow> (\<And>k. prv_wf (prvs (wld s) k) \<Longrightarrow> prv_wf (prvs (wld v) k)) \<Longrightarrow>
        (\<And>c. c \<in> C x \<Longrightarrow> is_source c \<and> c \<notin> registered (wld v) \<and> chan_new (bay_mem (wld v) c)) \<Longrightarrow> connect_step (C x) (wld v) (wld v')"
  shows "connect_step (\<Union>x \<in> set xs. C x) (wld s) (wld s')"
  using assms
proof (induction xs arbitrary: s)
  case (Cons x xs)
  then obtain v where v: "body x s = Inr v" and rest: "foldr_res body xs v = Inr s'" by auto
  have c: "connect_step (C x) (wld s) (wld v)"
    by (rule Cons.prems(7) [OF _ v Cons.prems(2,3)]) (use Cons.prems(5) in auto)
  then have pv: "prop_inv (wld v)" "tracks_only (wld v)" "prv_bay.more (wld v) = prv_bay.more (wld s)"
    "registered (wld v) = registered (wld s) \<union> C x" "\<And>k. prv_wf (prvs (wld s) k) \<Longrightarrow> prv_wf (prvs (wld v) k)"
    "\<And>c. is_source c \<Longrightarrow> c \<notin> C x \<Longrightarrow> bay_mem (wld v) c = bay_mem (wld s) c"
    by (auto simp: connect_step_def)
  have d: "C y \<inter> C x = {}" if "y \<in> set xs" for y using Cons.prems(4) Cons.prems(6) [of y x] that by auto
  have "connect_step (\<Union>x \<in> set xs. C x) (wld v) (wld s')"
  proof (rule Cons.IH [OF rest pv(1,2)])
    fix y c assume y: "y \<in> set xs" "c \<in> C y"
    then have "is_source c \<and> c \<notin> registered (wld s) \<and> chan_new (bay_mem (wld s) c)" by (intro Cons.prems(5)) simp_all
    moreover have "c \<notin> C x" using d y by blast
    ultimately show "is_source c \<and> c \<notin> registered (wld v) \<and> chan_new (bay_mem (wld v) c)" using pv(4,6) by simp
  next
    fix y u v' assume "y \<in> set xs" "body y u = Inr v'" "prop_inv (wld u)" "tracks_only (wld u)" "prv_bay.more (wld u) = prv_bay.more (wld v)"
      "\<And>k. prv_wf (prvs (wld v) k) \<Longrightarrow> prv_wf (prvs (wld u) k)"
      "\<And>c. c \<in> C y \<Longrightarrow> is_source c \<and> c \<notin> registered (wld u) \<and> chan_new (bay_mem (wld u) c)"
    then show "connect_step (C y) (wld u) (wld v')" using Cons.prems(7) pv(3,5) by (metis list.set_intros(2))
  qed (use Cons.prems(4,6) in auto)
  from connect_step_trans [OF c this] show ?case by simp
qed (simp add: connect_step_refl)

lemma thread_connect_chan_step:
  assumes "prop_inv w" "tracks_only w" and "ThreadChan t i \<notin> registered w" "chan_new (bay_mem w (ThreadChan t i))"
    and "prv_wf (prvs w k)" and ok: "thread_connect_chan t k i w = Inr w'"
  shows "connect_step {ThreadChan t i} w w'"
proof -
  obtain w1 where 1: "bay_register (ThreadChan t i) w = Inr w1"
    and 2: "prv_register k (th_gindex (threads w1 t)) (th_chan_type i) (ThreadChan t i) (th_prv_flags i) w1 = Inr w'"
    using ok by (auto simp: thread_connect_chan_def)
  have s: "connect_step {ThreadChan t i} w w1" by (rule bay_register_connect [OF assms(1,2) _ assms(3,4) 1]) simp
  have "wire_step {} w1 w'"
    by (rule prv_register_wire [OF _ _ _ _ 2]) (use s assms(5) in \<open>auto simp: connect_step_def\<close>)
  from connect_step_trans [OF s wire_connect [OF this]] show ?thesis by simp
qed

lemma cpu_connect_chan_step:
  assumes "prop_inv w" "tracks_only w" and "CpuChan c i \<notin> registered w" "chan_new (bay_mem w (CpuChan c i))"
    and "prv_wf (prvs w k)" and ok: "cpu_connect_chan c k i w = Inr w'"
  shows "connect_step {CpuChan c i} w w'"
proof -
  obtain w1 where 1: "bay_register (CpuChan c i) w = Inr w1"
    and 2: "w' = w1 \<or> prv_register k (cp_gindex (cpus w1 c)) (cpu_chan_type i) (CpuChan c i) (cpu_prv_flags i) w1 = Inr w'"
    using ok by (auto simp: cpu_connect_chan_def split: if_splits)
  have s: "connect_step {CpuChan c i} w w1" by (rule bay_register_connect [OF assms(1,2) _ assms(3,4) 1]) simp
  have "wire_step {} w1 w'" if "prv_register k (cp_gindex (cpus w1 c)) (cpu_chan_type i) (CpuChan c i) (cpu_prv_flags i) w1 = Inr w'"
    by (rule prv_register_wire [OF _ _ _ _ that]) (use s assms(5) in \<open>auto simp: connect_step_def\<close>)
  with 2 connect_step_trans [OF s wire_connect] s show ?thesis by fastforce
qed

definition thread_chans :: "nat \<Rightarrow> cid set" where
  "thread_chans t = ThreadChan t ` {..<TH_CHAN_MAX}"

definition sys_cpu_chans :: "nat \<Rightarrow> cid set" where
  "sys_cpu_chans c = CpuChan c ` {..<CPU_CHAN_MAX}"

lemma thread_connect_step:
  assumes inv: "prop_inv w" "tracks_only w" and new: "\<And>c. c \<in> thread_chans t \<Longrightarrow> c \<notin> registered w \<and> chan_new (bay_mem w c)"
    and p: "\<And>k. k \<in> snd ` set (rec_pvts w) \<Longrightarrow> prv_wf (prvs w k)" and ok: "thread_connect t w = Inr w'"
  shows "connect_step (thread_chans t) w w'"
proof -
  obtain k where k: "recorder_find_pvt ''thread'' w = Some k" and f: "foldr_res (thread_connect_chan t k) [0..<TH_CHAN_MAX] w = Inr w'"
    using ok by (auto simp: thread_connect_def split: if_splits option.splits)
  have pk: "prv_wf (prvs w k)" using k p map_of_SomeD by (force simp: recorder_find_pvt_def)
  have "connect_step (\<Union>i \<in> set [0..<TH_CHAN_MAX]. {ThreadChan t i}) w w'"
    using f inv by (rule foldr_connect [where wld = "\<lambda>w. w"]) (use new pk in \<open>auto simp: thread_chans_def intro: thread_connect_chan_step\<close>)
  then show ?thesis unfolding UN_image thread_chans_def .
qed

lemma cpu_connect_step:
  assumes inv: "prop_inv w" "tracks_only w" and new: "\<And>a. a \<in> sys_cpu_chans c \<Longrightarrow> a \<notin> registered w \<and> chan_new (bay_mem w a)"
    and p: "\<And>k. k \<in> snd ` set (rec_pvts w) \<Longrightarrow> prv_wf (prvs w k)" and ok: "cpu_connect c w = Inr w'"
  shows "connect_step (sys_cpu_chans c) w w'"
proof -
  obtain k where k: "recorder_find_pvt ''cpu'' w = Some k" and f: "foldr_res (cpu_connect_chan c k) [0..<CPU_CHAN_MAX] w = Inr w'"
    using ok by (auto simp: cpu_connect_def split: if_splits option.splits)
  have pk: "prv_wf (prvs w k)" using k p map_of_SomeD by (force simp: recorder_find_pvt_def)
  have "connect_step (\<Union>i \<in> set [0..<CPU_CHAN_MAX]. {CpuChan c i}) w w'"
    using f inv by (rule foldr_connect [where wld = "\<lambda>w. w"]) (use new pk in \<open>auto simp: sys_cpu_chans_def intro: cpu_connect_chan_step\<close>)
  then show ?thesis unfolding UN_image sys_cpu_chans_def .
qed

subsection \<open>The system connected\<close>

text \<open>The state \<^verbatim>\<open>system_init\<close> and \<^verbatim>\<open>bay_init\<close> leave: the bay is empty, and the channels of the threads and CPUs are new.\<close>

definition sys_built :: "system \<Rightarrow> 'x sys_bay_scheme \<Rightarrow> bool" where
  "sys_built sy w \<longleftrightarrow> bay_wf w \<and> registered w = {} \<and> bay_ncbs w = 0 \<and> rec_pvts w = []
     \<and> distinct (sy_threads sy) \<and> distinct (sy_cpus sy) \<and> gindexed (sy_threads sy) w
     \<and> (\<forall>t \<in> set (sy_threads sy). \<forall>c \<in> thread_chans t. chan_new (bay_mem w c))
     \<and> (\<forall>c \<in> set (sy_cpus sy). \<forall>a \<in> sys_cpu_chans c. chan_new (bay_mem w a))"

lemma no_cbs_inv: "bay_wf w \<Longrightarrow> bay_ncbs w = 0 \<Longrightarrow> prop_inv w \<and> tracks_only w"
  by (simp add: prop_inv_def emu_inv_def mux_inv_def sort_inv_def prv_inv_def flat_def sel_wired_def mux_used_def tracks_only_def)

lemma recorder_add_pvt_built:
  assumes "recorder_add_pvt name k n w = Inr w'"
  shows "rec_pvts w' = rec_pvts w @ [(name, k)] \<and> bay_wf w' = bay_wf w \<and> registered w' = registered w \<and> bay_ncbs w' = bay_ncbs w
    \<and> bay_mem w' = bay_mem w \<and> threads w' = threads w \<and> cpus w' = cpus w \<and> prv_wf (prvs w' k)
    \<and> (\<forall>j. prv_wf (prvs w j) \<longrightarrow> prv_wf (prvs w' j)) \<and> bay_dirty w' = bay_dirty w"
  using assms
  by (auto simp: recorder_add_pvt_def prv_update_def bay_wf_defs prv_open_file_def prv_wf_def split: if_splits)

lemma connect_rows_step:
  assumes new: "\<And>c. c \<in> C \<Longrightarrow> c \<notin> registered (snd (snd s)) \<and> chan_new (bay_mem (snd (snd s)) c)"
    and inv: "prop_inv (snd (snd s))" "tracks_only (snd (snd s))"
    and p: "\<And>k. k \<in> snd ` set (rec_pvts (snd (snd s))) \<Longrightarrow> prv_wf (prvs (snd (snd s)) k)"
  shows "connect_thread_row t s = Inr s' \<Longrightarrow> C = thread_chans t \<Longrightarrow> connect_step C (snd (snd s)) (snd (snd s'))"
    and "connect_cpu_row c s = Inr s' \<Longrightarrow> C = sys_cpu_chans c \<Longrightarrow> connect_step C (snd (snd s)) (snd (snd s'))"
    and "connect_thread_acc acc t (n, m, s) = Inr (n', m', s') \<Longrightarrow> C = thread_chans t \<Longrightarrow> connect_step C (snd (snd s)) (snd (snd s'))"
proof -
  obtain pcfs prfs w where s: "s = (pcfs, prfs, w)" by (cases s)
  show "connect_step C (snd (snd s)) (snd (snd s'))" if ok: "connect_thread_row t s = Inr s'" and C: "C = thread_chans t"
  proof -
    obtain w1 where "thread_connect t w = Inr w1" "snd (snd s') = w1"
      using ok by (auto simp: connect_thread_row_def s Let_def split: if_splits)
    with thread_connect_step [of w t w1] assms C s show ?thesis by simp
  qed
  show "connect_step C (snd (snd s)) (snd (snd s'))" if ok: "connect_cpu_row c s = Inr s'" and C: "C = sys_cpu_chans c"
  proof -
    obtain w1 where "cpu_connect c w = Inr w1" "snd (snd s') = w1"
      using ok by (auto simp: connect_cpu_row_def s)
    with cpu_connect_step [of w c w1] assms C s show ?thesis by simp
  qed
  show "connect_step C (snd (snd s)) (snd (snd s'))" if ok: "connect_thread_acc acc t (n, m, s) = Inr (n', m', s')" and C: "C = thread_chans t"
  proof -
    obtain w1 where "thread_connect t w = Inr w1" "snd (snd s') = w1"
      using ok unfolding connect_thread_acc_def s prod.case rbind_eq_Inr Let_def by (auto split: if_splits sum.splits)
    with thread_connect_step [of w t w1] assms C s show ?thesis by simp
  qed
qed

lemma pv_more: "prv_bay.more (snd (snd s')) = prv_bay.more (snd (snd s)) \<Longrightarrow> rec_pvts (snd (snd s')) = rec_pvts (snd (snd s))"
  for s :: "'x pv_st"
  using more_threads by blast

lemma pv_prvs:
  fixes s v :: "'x pv_st"
  assumes "prv_bay.more (snd (snd v)) = prv_bay.more (snd (snd s))"
    and "\<And>k. prv_wf (prvs (snd (snd s)) k) \<Longrightarrow> prv_wf (prvs (snd (snd v)) k)"
    and "\<And>k. k \<in> snd ` set (rec_pvts (snd (snd s))) \<Longrightarrow> prv_wf (prvs (snd (snd s)) k)"
    and "k \<in> snd ` set (rec_pvts (snd (snd v)))"
  shows "prv_wf (prvs (snd (snd v)) k)"
  using assms pv_more [OF assms(1)] by simp

text \<open>With an accelerator configuration no thread gets a row: the code takes the success of \<^verbatim>\<open>prf_add\<close> for a failure.\<close>

lemma connect_threads_acc_empty:
  assumes "foldr_res (connect_thread_acc as) ths (n, m, pcfs, prfs, w) = Inr (n', m', pcfs', prfs', w')"
  shows "prfs' = prfs"
  using assms
proof (induction ths arbitrary: n m pcfs prfs w)
  case (Cons t ths)
  then obtain n1 m1 pcfs1 prfs1 w1 where s: "connect_thread_acc as t (n, m, pcfs, prfs, w) = Inr (n1, m1, pcfs1, prfs1, w1)"
    and rest: "foldr_res (connect_thread_acc as) ths (n1, m1, pcfs1, prfs1, w1) = Inr (n', m', pcfs', prfs', w')" by force
  have "prfs1 = prfs"
    using s unfolding connect_thread_acc_def prod.case rbind_eq_Inr Let_def by (auto split: if_splits sum.splits)
  with Cons.IH [OF rest] show ?case by simp
qed simp

lemma connect_threads_step:
  assumes ok: "(case acc of None \<Rightarrow> foldr_res connect_thread_row ths s
      | Some as \<Rightarrow> rbind (foldr_res (connect_thread_acc as) ths (0, 0, s)) (\<lambda>(_, _, st1). Inr st1)) = Inr s'"
    and inv: "prop_inv (snd (snd s))" "tracks_only (snd (snd s))" and d: "distinct ths"
    and new: "\<And>t c. t \<in> set ths \<Longrightarrow> c \<in> thread_chans t \<Longrightarrow> is_source c \<and> c \<notin> registered (snd (snd s)) \<and> chan_new (bay_mem (snd (snd s)) c)"
    and p: "\<And>k. k \<in> snd ` set (rec_pvts (snd (snd s))) \<Longrightarrow> prv_wf (prvs (snd (snd s)) k)"
  shows "connect_step (\<Union>t \<in> set ths. thread_chans t) (snd (snd s)) (snd (snd s'))"
proof (cases acc)
  case None
  with ok have "foldr_res connect_thread_row ths s = Inr s'" by simp
  then show ?thesis
  proof (rule foldr_connect [where wld = "\<lambda>s. snd (snd s)", OF _ inv d new])
    fix t v v' assume v: "connect_thread_row t v = Inr v'" "prop_inv (snd (snd v))" "tracks_only (snd (snd v))"
      "prv_bay.more (snd (snd v)) = prv_bay.more (snd (snd s))"
      "\<And>k. prv_wf (prvs (snd (snd s)) k) \<Longrightarrow> prv_wf (prvs (snd (snd v)) k)"
      "\<And>c. c \<in> thread_chans t \<Longrightarrow> is_source c \<and> c \<notin> registered (snd (snd v)) \<and> chan_new (bay_mem (snd (snd v)) c)"
    show "connect_step (thread_chans t) (snd (snd v)) (snd (snd v'))"
      by (rule connect_rows_step(1) [OF _ v(2,3) pv_prvs [OF v(4,5) p] v(1)]) (use v(6) in simp_all)
  qed (auto simp: thread_chans_def)
next
  case (Some as)
  with ok obtain n m where "foldr_res (connect_thread_acc as) ths (0, 0, s) = Inr (n, m, s')" by auto
  then have "connect_step (\<Union>t \<in> set ths. thread_chans t) (snd (snd (snd (snd (0 :: nat, 0 :: nat, s))))) (snd (snd (snd (snd (n, m, s')))))"
  proof (rule foldr_connect [where wld = "\<lambda>s. snd (snd (snd (snd s)))"])
    fix t v v' assume a: "connect_thread_acc as t v = Inr v'" "prop_inv (snd (snd (snd (snd v))))" "tracks_only (snd (snd (snd (snd v))))"
      "prv_bay.more (snd (snd (snd (snd v)))) = prv_bay.more (snd (snd (snd (snd (0 :: nat, 0 :: nat, s)))))"
      "\<And>k. prv_wf (prvs (snd (snd (snd (snd (0 :: nat, 0 :: nat, s))))) k) \<Longrightarrow> prv_wf (prvs (snd (snd (snd (snd v)))) k)"
      "\<And>c. c \<in> thread_chans t \<Longrightarrow> is_source c \<and> c \<notin> registered (snd (snd (snd (snd v)))) \<and> chan_new (bay_mem (snd (snd (snd (snd v)))) c)"
    obtain i j u i' j' u' where v: "v = (i, j, u)" "v' = (i', j', u')" by (metis prod_cases3)
    show "connect_step (thread_chans t) (snd (snd (snd (snd v)))) (snd (snd (snd (snd v'))))"
      unfolding v snd_conv
      by (rule connect_rows_step(3) [OF _ _ _ pv_prvs [of u s]]) (use a p v in auto)
  qed (use inv d new in \<open>auto simp: thread_chans_def\<close>)
  then show ?thesis by simp
qed

lemma connect_cpus_step:
  assumes ok: "foldr_res connect_cpu_row cps s = Inr s'"
    and inv: "prop_inv (snd (snd s))" "tracks_only (snd (snd s))" and d: "distinct cps"
    and new: "\<And>t c. t \<in> set cps \<Longrightarrow> c \<in> sys_cpu_chans t \<Longrightarrow> is_source c \<and> c \<notin> registered (snd (snd s)) \<and> chan_new (bay_mem (snd (snd s)) c)"
    and p: "\<And>k. k \<in> snd ` set (rec_pvts (snd (snd s))) \<Longrightarrow> prv_wf (prvs (snd (snd s)) k)"
  shows "connect_step (\<Union>t \<in> set cps. sys_cpu_chans t) (snd (snd s)) (snd (snd s'))"
  using ok
proof (rule foldr_connect [where wld = "\<lambda>s. snd (snd s)", OF _ inv d new])
  fix c v v' assume v: "connect_cpu_row c v = Inr v'" "prop_inv (snd (snd v))" "tracks_only (snd (snd v))"
    "prv_bay.more (snd (snd v)) = prv_bay.more (snd (snd s))"
    "\<And>k. prv_wf (prvs (snd (snd s)) k) \<Longrightarrow> prv_wf (prvs (snd (snd v)) k)"
    "\<And>a. a \<in> sys_cpu_chans c \<Longrightarrow> is_source a \<and> a \<notin> registered (snd (snd v)) \<and> chan_new (bay_mem (snd (snd v)) a)"
  show "connect_step (sys_cpu_chans c) (snd (snd v)) (snd (snd v'))"
    by (rule connect_rows_step(2) [OF _ v(2,3) pv_prvs [OF v(4,5) p] v(1)]) (use v(6) in simp_all)
qed (auto simp: sys_cpu_chans_def)

lemma pvts_added:
  assumes "sys_built sy w" and 1: "recorder_add_pvt ''cpu'' PVT_CPU n w = Inr w1" and 2: "recorder_add_pvt ''thread'' PVT_TH m w1 = Inr w2"
  shows "bay_wf w2 \<and> registered w2 = {} \<and> bay_ncbs w2 = 0 \<and> rec_pvts w2 = [(''cpu'', PVT_CPU), (''thread'', PVT_TH)]
    \<and> bay_mem w2 = bay_mem w \<and> threads w2 = threads w \<and> cpus w2 = cpus w \<and> bay_dirty w2 = bay_dirty w
    \<and> (\<forall>k. k \<in> snd ` set (rec_pvts w2) \<longrightarrow> prv_wf (prvs w2 k))"
  using assms(1) recorder_add_pvt_built [OF 1] recorder_add_pvt_built [OF 2] by (auto simp: sys_built_def)

lemma system_connect_ok:
  assumes built: "sys_built sy w" and ok: "system_connect acc sy w = Inr (pcfs, prfs, w')"
  shows "system_ready (sy_threads sy) (sy_cpus sy) w'
    \<and> registered w' = (\<Union>t \<in> set (sy_threads sy). thread_chans t) \<union> (\<Union>c \<in> set (sy_cpus sy). sys_cpu_chans c)
    \<and> bay_dirty w' = bay_dirty w \<and> rec_pvts w' = [(''cpu'', PVT_CPU), (''thread'', PVT_TH)]
    \<and> threads w' = threads w \<and> cpus w' = cpus w"
proof -
  obtain w1 w2 pcfs1 prfs1 pcfs2 prfs2 w3 where
    1: "recorder_add_pvt ''cpu'' PVT_CPU (int (sy_ncpus sy)) w = Inr w1"
    and 2: "recorder_add_pvt ''thread'' PVT_TH (int (sy_nthreads sy)) w1 = Inr w2"
    and 3: "(case acc of None \<Rightarrow> foldr_res connect_thread_row (sy_threads sy) (pcfs1, prfs1, w2)
      | Some as \<Rightarrow> rbind (foldr_res (connect_thread_acc as) (sy_threads sy) (0, 0, pcfs1, prfs1, w2)) (\<lambda>(_, _, st1). Inr st1)) = Inr (pcfs2, prfs2, w3)"
    and 4: "\<exists>q. foldr_res connect_cpu_row (sy_cpus sy) (q, prfs2, w3) = Inr (pcfs, prfs, w')"
    using ok unfolding system_connect_def rbind_eq_Inr Let_def by (elim exE conjE) (force split: prod.splits)
  from 4 obtain q where 4: "foldr_res connect_cpu_row (sy_cpus sy) (q, prfs2, w3) = Inr (pcfs, prfs, w')" ..
  from built have b: "bay_wf w" "registered w = {}" "bay_ncbs w = 0" "rec_pvts w = []" "distinct (sy_threads sy)" "distinct (sy_cpus sy)"
    "gindexed (sy_threads sy) w" "\<And>t c. t \<in> set (sy_threads sy) \<Longrightarrow> c \<in> thread_chans t \<Longrightarrow> chan_new (bay_mem w c)"
    "\<And>t c. t \<in> set (sy_cpus sy) \<Longrightarrow> c \<in> sys_cpu_chans t \<Longrightarrow> chan_new (bay_mem w c)"
    unfolding sys_built_def by blast+
  have w2: "bay_wf w2" "registered w2 = {}" "bay_ncbs w2 = 0" "rec_pvts w2 = [(''cpu'', PVT_CPU), (''thread'', PVT_TH)]"
    "bay_mem w2 = bay_mem w" "threads w2 = threads w" "cpus w2 = cpus w" "bay_dirty w2 = bay_dirty w"
    "\<And>k. k \<in> snd ` set (rec_pvts w2) \<Longrightarrow> prv_wf (prvs w2 k)"
    using pvts_added [OF built 1 2] by blast+
  have src: "c \<in> thread_chans t \<Longrightarrow> is_source c" "c \<in> sys_cpu_chans t \<Longrightarrow> is_source c" for c t by (auto simp: thread_chans_def sys_cpu_chans_def)
  have disj: "sys_cpu_chans t \<inter> thread_chans u = {}" for t u by (auto simp: thread_chans_def sys_cpu_chans_def)
  let ?T = "\<Union>t \<in> set (sy_threads sy). thread_chans t" and ?C = "\<Union>c \<in> set (sy_cpus sy). sys_cpu_chans c"
  have s3: "connect_step ?T w2 w3"
    using connect_threads_step [OF 3 _ _ b(5)] no_cbs_inv [OF w2(1,3)] w2 b(8) src(1) by simp
  then have w3: "prop_inv w3" "tracks_only w3" "prv_bay.more w3 = prv_bay.more w2" "registered w3 = ?T"
    "\<And>c. is_source c \<Longrightarrow> c \<notin> ?T \<Longrightarrow> bay_mem w3 c = bay_mem w2 c" "\<And>k. prv_wf (prvs w2 k) \<Longrightarrow> prv_wf (prvs w3 k)"
    using w2(2) by (simp_all add: connect_step_def)
  have new3: "is_source a \<and> a \<notin> registered w3 \<and> chan_new (bay_mem w3 a)" if "c \<in> set (sy_cpus sy)" "a \<in> sys_cpu_chans c" for c a
  proof -
    have "a \<notin> ?T" using disj [of c] that(2) by blast
    then show ?thesis using w3(4,5) src(2) b(9) that w2(5) by simp
  qed
  have s4: "connect_step ?C w3 w'"
    using connect_cpus_step [OF 4 _ _ b(6)] w3 new3 w2(4,9) more_threads [OF w3(3)] by simp
  from connect_step_trans [OF s3 s4] have s: "connect_step (?T \<union> ?C) w2 w'" .
  then have more: "threads w' = threads w" "cpus w' = cpus w" "rec_pvts w' = rec_pvts w2"
    using more_threads [of w' w2] w2(6,7) by (simp_all add: connect_step_def)
  have rd: "chan_read_at c w' = chan_read_at c w" for c using s w2(5) by (simp add: connect_step_def)
  have T: "ThreadChan t TH_CHAN_STATE \<in> thread_chans t" "CpuChan c CPU_CHAN_THRUN \<in> sys_cpu_chans c" for t c
    by (simp_all add: thread_chans_def sys_cpu_chans_def th_chan_defs cpu_chan_defs)
  have reg: "registered w' = ?T \<union> ?C" using s w2(2) by (simp add: connect_step_def)
  have "ThreadChan t TH_CHAN_STATE \<in> registered w' \<and> chan_read_at (ThreadChan t TH_CHAN_STATE) w' = VALUE_NULL" if "t \<in> set (sy_threads sy)" for t
    using that T(1) b(8) unfolding rd reg chan_new_def by blast
  moreover have "CpuChan c CPU_CHAN_THRUN \<in> registered w' \<and> chan_read_at (CpuChan c CPU_CHAN_THRUN) w' = VALUE_NULL" if "c \<in> set (sy_cpus sy)" for c
    using that T(2) b(9) unfolding rd reg chan_new_def by blast
  ultimately have "system_ready (sy_threads sy) (sy_cpus sy) w'"
    using s w2(9) b(7) unfolding system_ready_def more gindexed_def by (simp add: connect_step_def)
  then show ?thesis using s w2 more by (simp add: connect_step_def)
qed

subsection \<open>A system of two threads and a CPU\<close>

definition demo_name :: "cid \<Rightarrow> string" where
  "demo_name c = (case c of ThreadChan t i \<Rightarrow> ''thread'' @ dec t @ ''.'' @ th_chan_name i
     | CpuChan t i \<Rightarrow> ''cpu'' @ dec t @ ''.'' @ cpu_chan_name i | _ \<Rightarrow> '''')"

definition demo_built :: sys_bay where
  "demo_built = demo_sys0\<lparr>bay_mem := (\<lambda>c. (demo_chan CHAN_SINGLE)\<lparr>ch_name := demo_name c\<rparr>),
     threads := (\<lambda>t. (thread_init_begin (int t + 7))\<lparr>th_gindex := int t, th_is_init := True, th_proc := Some 0\<rparr>),
     cpus := (\<lambda>c. (cpu_init_begin 0 3 False)\<lparr>cp_gindex := int c, cp_is_init := True, cp_loom := Some 0\<rparr>)\<rparr>"

definition demo_sy :: system where
  "demo_sy = system_empty\<lparr>sy_threads := [0, 1], sy_nthreads := 2, sy_cpus := [0], sy_ncpus := 1\<rparr>"

lemma demo_built_ok: "sys_built demo_sy demo_built"
  by (auto simp: sys_built_def demo_built_def demo_sy_def demo_sys0_def demo_bay0_def bay_init_def bay_wf_defs chan_wf_def chan_read_def
      demo_chan_def bay.defs chan_new_def gindexed_def nth_Cons' split: if_splits)

lemma demo_connect: "res_get (\<lambda>(pcfs, prfs, w). pf_rows (prfs PVT_TH)) (system_connect None demo_sy demo_built) =
    Some [Some ''TH 0.7'', Some ''TH 0.8'']"
  by code_simp



text \<open>C39. An accelerator configuration makes the connection of any system with threads fail: adding the row of the first thread succeeds,
  which the code takes for a failure.\<close>

theorem accelerators_rejected:
  assumes built: "sys_built sy w" and n: "sy_nthreads sy = length (sy_threads sy)" "sy_threads sy \<noteq> []"
  shows "\<exists>e. system_connect (Some as) sy w = Inl e"
proof (cases "system_connect (Some as) sy w")
  case (Inr r)
  obtain t ths where th: "sy_threads sy = t # ths" using n(2) by (cases "sy_threads sy") auto
  let ?prfs = "(\<lambda>_. prf_open 0)(PVT_CPU := prf_open (sy_ncpus sy), PVT_TH := prf_open (sy_nthreads sy))"
  obtain w2 s1 where w2: "connect_thread_acc as t (0, 0, \<lambda>_. [], ?prfs, w2) = Inr s1"
    and r: "\<exists>w1. recorder_add_pvt ''cpu'' PVT_CPU (int (sy_ncpus sy)) w = Inr w1 \<and> recorder_add_pvt ''thread'' PVT_TH (int (sy_nthreads sy)) w1 = Inr w2"
    using Inr unfolding system_connect_def rbind_eq_Inr Let_def th by fastforce
  then have w2': "bay_wf w2" "registered w2 = {}" "bay_ncbs w2 = 0" "bay_mem w2 = bay_mem w" "threads w2 = threads w"
    "\<And>k. k \<in> snd ` set (rec_pvts w2) \<Longrightarrow> prv_wf (prvs w2 k)"
    using pvts_added [OF built] by blast+
  obtain w3 where w3: "thread_connect t w2 = Inr w3" using w2 unfolding connect_thread_acc_def prod.case rbind_eq_Inr by blast
  have "connect_step (thread_chans t) w2 w3"
    by (rule thread_connect_step [OF _ _ _ w2'(6) w3])
       (use no_cbs_inv [OF w2'(1,3)] w2' built th in \<open>auto simp: sys_built_def\<close>)
  then have "threads w3 = threads w" using more_threads [of w3 w2] w2'(5) by (simp add: connect_step_def)
  with built th have g: "th_gindex (threads w3 t) = 0" by (auto simp: sys_built_def gindexed_def)
  have "prf_add_at PVT_TH (th_gindex (threads w3 t)) name ?prfs =
      (if 512 \<le> length name then Inl (EPrv PrfLabelTooLong) else Inr (?prfs(PVT_TH := (prf_open (sy_nthreads sy))\<lparr>pf_rows := (replicate (sy_nthreads sy) None)[0 := Some name]\<rparr>)))" for name
    using n th g by (simp add: prf_add_at_def prf_add_def prf_open_def MAX_PRF_LABEL_def)
  with w2 w3 have False unfolding connect_thread_acc_def prod.case Let_def
    by (auto split: if_splits)
  then show ?thesis ..
qed blast

subsection \<open>A model on a system of a thread and a CPU\<close>

text \<open>The model has one channel, shown in the row of the CPU for its running thread. The event makes the thread run on the CPU
  and sets the channel.\<close>

definition demo_spec :: "track_th \<Rightarrow> model_chan_spec" where
  "demo_spec mode = \<lparr>cs_nch = 1, cs_prefix = ''d'', cs_names = (\<lambda>_. ''c''), cs_stack = (\<lambda>_. False), cs_dup = None,
     cs_pvt = \<lparr>ps_type = (\<lambda>_. 20), ps_prefix = (\<lambda>_. ''D''), ps_flags = (\<lambda>_ _. False), ps_label = (\<lambda>_. [(1, ''One'')])\<rparr>,
     cs_track = (\<lambda>_. mode)\<rparr>"

definition demo_models :: "nat \<Rightarrow> (nat \<times> model_chan_spec \<times> model_chan_spec) list" where
  "demo_models m = [(m, demo_spec TRACK_TH_ANY, demo_spec TRACK_TH_RUN)]"

definition demo_small0 :: sys_bay where
  "demo_small0 = demo_sys0\<lparr>threads := (\<lambda>t. (thread_init_begin 7)\<lparr>th_gindex := int t\<rparr>),
     cpus := (\<lambda>c. (cpu_init_begin 0 3 False)\<lparr>cp_gindex := int c\<rparr>), rec_pvts := [(''cpu'', PVT_CPU), (''thread'', PVT_TH)]\<rparr>"

text \<open>The channels of the thread and the CPU that the tracks select by are added to a state with no others, and the model is
  created and connected.\<close>

definition demo_select :: "'x bay_scheme \<Rightarrow> 'x bay_scheme res" where
  "demo_select w = rbind (new_chan (ThreadChan 0 TH_CHAN_STATE) ((demo_chan CHAN_SINGLE)\<lparr>ch_name := ''s''\<rparr>) w)
     (new_chan (CpuChan 0 CPU_CHAN_THRUN) ((demo_chan CHAN_SINGLE)\<lparr>ch_name := ''r''\<rparr>))"

definition demo_made :: "nat \<Rightarrow> 'x sys_bay_scheme \<Rightarrow> ('x sys_bay_scheme \<times> 'x sys_bay_scheme \<times> (nat \<Rightarrow> pcf) \<times> 'x sys_bay_scheme) res" where
  "demo_made m w0 =
     rbind (demo_select w0) (\<lambda>w.
     rbind (foldr_res (chans_create [0] [0]) (demo_models m) w) (\<lambda>w1.
     rbind (foldr_res (chans_connect [0] [0]) (demo_models m) (\<lambda>_. [], w1)) (\<lambda>(q, w2). Inr (w, w1, q, w2))))"

definition bare :: "'x sys_bay_scheme \<Rightarrow> bool" where
  "bare w \<longleftrightarrow> bay_wf w \<and> bay_ncbs w = 0 \<and> registered w = {} \<and> gindexed [0] w \<and> (\<forall>k. prv_wf (prvs w k))"

definition demo_ext :: "'x \<Rightarrow> 'x sys_bay_scheme" where
  "demo_ext x = sys_bay.extend demo_small0 x"

lemma demo_ext_bare: "bare (demo_ext x)"
  by (auto simp: bare_def demo_ext_def demo_small0_def demo_sys0_def demo_bay0_def bay_init_def bay_wf_defs chan_wf_def chan_read_def demo_chan_def
      sys_bay.defs bay.defs gindexed_def prv_wf_def prv_open_file_def)

definition demo_event_writes :: "'x sys_bay_scheme \<Rightarrow> 'x sys_bay_scheme res" where
  "demo_event_writes w =
     rbind (chan_set_at (CpuChan 0 CPU_CHAN_THRUN) (VALUE_INT64 0) w) (chan_set_at (ModelChan 0 0 0) (VALUE_INT64 5))"

lemma demo_small_run:
  "res_get (\<lambda>w. (chan_read_at (CpuChan 0 CPU_CHAN_THRUN) w, chan_read_at (ModelChan 0 0 0) w, bay_dirty w,
       pv_time (prvs w PVT_CPU), pv_time (prvs w PVT_TH)))
     (rbind (demo_made 0 (demo_ext x)) (\<lambda>(_, _, _, w). rbind (demo_event_writes w) (bay_propagate run_cb 5))) =
   Some (VALUE_INT64 0, VALUE_INT64 5, [], 0, 0)"
  by code_simp

lemma bay_more_prv: "bay.more w' = bay.more w \<Longrightarrow> prv_bay.more w' = prv_bay.more (w :: 'x prv_bay_scheme)"
  by (cases w rule: prv_bay.cases_scheme; cases w' rule: prv_bay.cases_scheme) simp

lemma demo_select_ready:
  assumes bare: "bare w0" and ok: "demo_select w0 = Inr w"
  shows "system_ready [0] [0] w \<and> registered w = {ThreadChan 0 TH_CHAN_STATE, CpuChan 0 CPU_CHAN_THRUN} \<and> prv_bay.more w = prv_bay.more w0"
proof -
  from bare have 0: "bay_wf w0" "bay_ncbs w0 = 0" "registered w0 = {}" by (simp_all add: bare_def)
  have i: "chan_init CHAN_SINGLE [x] = Inr ((demo_chan CHAN_SINGLE)\<lparr>ch_name := [x]\<rparr>)" for x
    by (simp add: chan_init_def demo_chan_def MAX_CHAN_NAME_def)
  obtain w1 where 1: "new_chan (ThreadChan 0 TH_CHAN_STATE) ((demo_chan CHAN_SINGLE)\<lparr>ch_name := ''s''\<rparr>) w0 = Inr w1"
    and 2: "new_chan (CpuChan 0 CPU_CHAN_THRUN) ((demo_chan CHAN_SINGLE)\<lparr>ch_name := ''r''\<rparr>) w1 = Inr w"
    using ok by (auto simp: demo_select_def)
  have s1: "create_step {ThreadChan 0 TH_CHAN_STATE} w0 w1"
    by (rule new_chan_create [OF _ _ _ i _ 1]) (use no_cbs_inv [OF 0(1,2)] 0(3) in auto)
  have s2: "create_step {CpuChan 0 CPU_CHAN_THRUN} w1 w"
    by (rule new_chan_create [OF _ _ _ i _ 2]) (use s1 0(3) in \<open>auto simp: create_step_def\<close>)
  from create_step_trans [OF s1 s2] have s: "create_step {ThreadChan 0 TH_CHAN_STATE, CpuChan 0 CPU_CHAN_THRUN} w0 w" by (simp add: insert_commute)
  then have w: "bay.more w = bay.more w0" "tracks_only w" "prop_inv w"
    using create_step_tracks [OF s] no_cbs_inv [OF 0(1,2)] s by (auto simp: create_step_def)
  have "threads w = threads w0" "rec_pvts w = rec_pvts w0" "prvs w = prvs w0"
    using more_threads [OF bay_more_prv [OF w(1)]] more_prvs [OF w(1)] by simp_all
  then show ?thesis
    using s w 0(3) bare bay_more_prv [OF w(1)] by (simp add: system_ready_def create_step_def gindexed_def bare_def)
qed

lemma demo_made_connected:
  assumes bare: "bare w0" and ok: "demo_made m w0 = Inr (w, w1, q, w2)"
  shows "system_ready [0] [0] w \<and> model_fresh m w \<and> foldr_res (chans_create [0] [0]) (demo_models m) w = Inr w1
    \<and> foldr_res (chans_connect [0] [0]) (demo_models m) (\<lambda>_. [], w1) = Inr (q, w2)
    \<and> prop_inv w2 \<and> model_connected (demo_spec TRACK_TH_ANY) (demo_spec TRACK_TH_RUN) m [0] [0] w2
    \<and> card (registered w2) \<le> 5 \<and> prv_bay.more w2 = prv_bay.more w0"
proof -
  from ok have d: "demo_select w0 = Inr w" "foldr_res (chans_create [0] [0]) (demo_models m) w = Inr w1"
    "foldr_res (chans_connect [0] [0]) (demo_models m) (\<lambda>_. [], w1) = Inr (q, w2)" by (auto simp: demo_made_def)
  note r = demo_select_ready [OF bare d(1)]
  have f: "model_fresh m w" using r by (auto simp: model_fresh_def)
  have c1: "chans_create [0] [0] (m, demo_spec TRACK_TH_ANY, demo_spec TRACK_TH_RUN) w = Inr w1" using d(2) by (simp add: demo_models_def)
  then obtain v where v: "model_thread_create (demo_spec TRACK_TH_ANY) m [0] w = Inr v" "model_cpu_create (demo_spec TRACK_TH_RUN) m [0] v = Inr w1"
    by (auto simp: chans_create_def)
  have cs: "create_step (th_chans (demo_spec TRACK_TH_ANY) m 0 \<union> cpu_chans (demo_spec TRACK_TH_RUN) m 0) w w1"
    using model_create_step [OF _ _ _ _ _ _ v] r f by (simp add: system_ready_def model_fresh_def)
  have s: "{..<Suc 0} = {0}" by auto
  have reg: "registered w1 = {ThreadChan 0 TH_CHAN_STATE, CpuChan 0 CPU_CHAN_THRUN, ModelChan 0 m 0, ModelThreadTrack 0 m 0, ModelCpuTrack 0 m 0}"
    using cs r by (auto simp: create_step_def th_chans_def cpu_chans_def demo_spec_def s)
  note mm = chans_create_made [OF conjunct1 [OF r] _ _ f c1]
  have c2: "chans_connect [0] [0] (m, demo_spec TRACK_TH_ANY, demo_spec TRACK_TH_RUN) (\<lambda>_. [], w1) = Inr (q, w2)" using d(3) by (simp add: demo_models_def)
  have w2: "wire_step (model_muxes m) w1 w2" "model_connected (demo_spec TRACK_TH_ANY) (demo_spec TRACK_TH_RUN) m [0] [0] w2"
    using chans_connect_step [OF _ _ _ _ _ c2] mm by (simp_all add: demo_spec_def)
  have "registered w2 = registered w1" "prv_bay.more w2 = prv_bay.more w1" "prop_inv w2" using w2(1) by (simp_all add: wire_step_def)
  moreover have "prv_bay.more w1 = prv_bay.more w" using cs bay_more_prv by (auto simp: create_step_def)
  moreover have "card (registered w1) \<le> 5" unfolding reg by (simp add: card_insert_if)
  ultimately show ?thesis using r f d w2(2) by simp
qed

lemma demo_small_steps:
  obtains w w1 q w2 w2' w3 where "foldr_res (chans_create [0] [0]) (demo_models 0) w = Inr w1"
    "foldr_res (chans_connect [0] [0]) (demo_models 0) (\<lambda>_. [], w1) = Inr (q, w2)" "src_step w2 w2'" "card (registered w2') \<le> 5"
    "bay_propagate run_cb 5 w2' = Inr w3" "system_ready [0] [0] w" "model_fresh 0 w" "prop_inv w2"
    "model_connected (demo_spec TRACK_TH_ANY) (demo_spec TRACK_TH_RUN) 0 [0] [0] w2"
    "chan_read_at (CpuChan 0 CPU_CHAN_THRUN) w3 = VALUE_INT64 0" "chan_read_at (ModelChan 0 0 0) w3 = VALUE_INT64 5"
    "bay_dirty w3 = []" "pv_time (prvs w3 PVT_CPU) = 0" "pv_time (prvs w3 PVT_TH) = 0" "prv_bay.more w2' = prv_bay.more (demo_ext x)"
proof -
  from demo_small_run [of x] obtain w w1 q w2 w2' w3 where d: "demo_made 0 (demo_ext x) = Inr (w, w1, q, w2)"
    "demo_event_writes w2 = Inr w2'" "bay_propagate run_cb 5 w2' = Inr w3"
    "chan_read_at (CpuChan 0 CPU_CHAN_THRUN) w3 = VALUE_INT64 0" "chan_read_at (ModelChan 0 0 0) w3 = VALUE_INT64 5"
    "bay_dirty w3 = []" "pv_time (prvs w3 PVT_CPU) = 0" "pv_time (prvs w3 PVT_TH) = 0"
    by (auto simp: res_get_Some)
  note c = demo_made_connected [OF demo_ext_bare d(1)]
  then have p2: "prop_inv w2" "bay_wf w2" by (simp_all add: prop_inv_def)
  obtain v2 where v2: "chan_set_at (CpuChan 0 CPU_CHAN_THRUN) (VALUE_INT64 0) w2 = Inr v2" "chan_set_at (ModelChan 0 0 0) (VALUE_INT64 5) v2 = Inr w2'"
    using d(2) by (auto simp: demo_event_writes_def)
  have s1: "src_step w2 v2" by (rule chan_set_at_src [OF p2(2) _ v2(1)]) simp
  have "src_step v2 w2'" by (rule chan_set_at_src [OF src_step_wf [OF s1] _ v2(2)]) simp
  with s1 have src: "src_step w2 w2'" by (rule src_step_trans)
  then have "card (registered w2') \<le> 5" using c by (simp add: src_step_def bay_step_def)
  moreover have "prv_bay.more w2' = prv_bay.more (demo_ext x)"
    using bay_more_prv [OF chan_set_at_more [OF v2(1)]] bay_more_prv [OF chan_set_at_more [OF v2(2)]] c by simp
  ultimately show thesis using d(3-8) c src by (intro that) blast+
qed



theorem accelerators_rejected_witness:
  "\<exists>e. system_connect (Some [(''fpga'', 1)]) demo_sy demo_built = Inl e"
  by (rule accelerators_rejected [OF demo_built_ok]) (simp_all add: demo_sy_def)

end
