(* ===== verification/Model_Specs.thy ===== *)
theory Model_Specs
  imports Connect Nosv Nanos6 Openmp Simple_Models
begin

text \<open>
  The channels of every model, from the \<^verbatim>\<open>setup.c\<close> of the directories of \<^verbatim>\<open>src/emu\<close> and the Paraver types of
  \<^verbatim>\<open>src/emu/emu_prv.h\<close>: names, stack and duplicate properties, Paraver types and flags, labels of the values,
  and what the tracks of threads and CPUs follow. An array is a function of the index of the channel, with the entries that the
  code sets and the zero of the C array elsewhere.

  The lemmas check the tables against each other: the tables of the events only push, pop and set values on channels of
  the right kind and with labels that are in the tables of labels, and the types of all models can be added to the same trace.
\<close>

definition tab :: "'a \<Rightarrow> (nat \<times> 'a) list \<Rightarrow> nat \<Rightarrow> 'a" where
  "tab d kvs i = (case map_of kvs i of None \<Rightarrow> d | Some v \<Rightarrow> v)"

definition no_flags :: "prv_flag \<Rightarrow> bool" where
  "no_flags f = False"

definition PRV_OVNI_FLUSH :: int where "PRV_OVNI_FLUSH = 7"
definition PRV_NOSV_TASKID :: int where "PRV_NOSV_TASKID = 10"
definition PRV_NOSV_TYPE :: int where "PRV_NOSV_TYPE = 11"
definition PRV_NOSV_APPID :: int where "PRV_NOSV_APPID = 12"
definition PRV_NOSV_SUBSYSTEM :: int where "PRV_NOSV_SUBSYSTEM = 13"
definition PRV_NOSV_RANK :: int where "PRV_NOSV_RANK = 14"
definition PRV_NOSV_BODYID :: int where "PRV_NOSV_BODYID = 15"
definition PRV_NOSV_IDLE :: int where "PRV_NOSV_IDLE = 16"
definition PRV_TAMPI_SUBSYSTEM :: int where "PRV_TAMPI_SUBSYSTEM = 20"
definition PRV_MPI_FUNCTION :: int where "PRV_MPI_FUNCTION = 25"
definition PRV_NODES_SUBSYSTEM :: int where "PRV_NODES_SUBSYSTEM = 30"
definition PRV_NANOS6_TASKID :: int where "PRV_NANOS6_TASKID = 35"
definition PRV_NANOS6_TYPE :: int where "PRV_NANOS6_TYPE = 36"
definition PRV_NANOS6_SUBSYSTEM :: int where "PRV_NANOS6_SUBSYSTEM = 37"
definition PRV_NANOS6_RANK :: int where "PRV_NANOS6_RANK = 38"
definition PRV_NANOS6_THREAD :: int where "PRV_NANOS6_THREAD = 39"
definition PRV_NANOS6_IDLE :: int where "PRV_NANOS6_IDLE = 40"
definition PRV_KERNEL_CS :: int where "PRV_KERNEL_CS = 45"
definition PRV_OPENMP_SUBSYSTEM :: int where "PRV_OPENMP_SUBSYSTEM = 50"
definition PRV_OPENMP_LABEL :: int where "PRV_OPENMP_LABEL = 51"
definition PRV_OPENMP_TASKID :: int where "PRV_OPENMP_TASKID = 52"
definition PRV_XTASKS_SUBSYSTEM :: int where "PRV_XTASKS_SUBSYSTEM = 99"

lemmas prv_type_defs = PRV_OVNI_FLUSH_def PRV_NOSV_TASKID_def PRV_NOSV_TYPE_def PRV_NOSV_APPID_def PRV_NOSV_SUBSYSTEM_def PRV_NOSV_RANK_def PRV_NOSV_BODYID_def PRV_NOSV_IDLE_def PRV_TAMPI_SUBSYSTEM_def PRV_MPI_FUNCTION_def PRV_NODES_SUBSYSTEM_def PRV_NANOS6_TASKID_def PRV_NANOS6_TYPE_def PRV_NANOS6_SUBSYSTEM_def PRV_NANOS6_RANK_def PRV_NANOS6_THREAD_def PRV_NANOS6_IDLE_def PRV_KERNEL_CS_def PRV_OPENMP_SUBSYSTEM_def PRV_OPENMP_LABEL_def PRV_OPENMP_TASKID_def PRV_XTASKS_SUBSYSTEM_def

subsection \<open>\<^verbatim>\<open>src/emu/ovni/setup.c\<close>\<close>

definition ovni_chan_name :: "nat \<Rightarrow> string" where
  "ovni_chan_name = tab '''' [
     (CH_FLUSH, ''flush'')]"

definition ovni_chan_stack :: "nat \<Rightarrow> bool" where
  "ovni_chan_stack = tab False []"

definition ovni_pvt_type :: "nat \<Rightarrow> int" where
  "ovni_pvt_type = tab 0 [
     (CH_FLUSH, PRV_OVNI_FLUSH)]"

definition ovni_pcf_prefix :: "nat \<Rightarrow> string" where
  "ovni_pcf_prefix = tab '''' [
     (CH_FLUSH, ''Flushing ovni buffer'')]"

definition ovni_lbl_flushing_values :: "(int \<times> string) list" where
  "ovni_lbl_flushing_values = [
     (1, ''Flushing'')]"

definition ovni_pcf_labels :: "nat \<Rightarrow> (int \<times> string) list" where
  "ovni_pcf_labels = tab [] [
     (CH_FLUSH, ovni_lbl_flushing_values)]"

definition ovni_prv_flags :: "nat \<Rightarrow> prv_flag \<Rightarrow> bool" where
  "ovni_prv_flags = tab no_flags [
     (CH_FLUSH, (\<lambda>f. f = PRV_SKIPDUP))]"

definition ovni_th_track :: "nat \<Rightarrow> track_th" where
  "ovni_th_track = tab TRACK_TH_ANY [
     (CH_FLUSH, TRACK_TH_ANY)]"

definition ovni_cpu_track :: "nat \<Rightarrow> track_th" where
  "ovni_cpu_track = tab TRACK_TH_ANY [
     (CH_FLUSH, TRACK_TH_RUN)]"

definition ovni_pvt_spec :: model_pvt_spec where
  "ovni_pvt_spec = \<lparr>ps_type = ovni_pvt_type, ps_prefix = ovni_pcf_prefix, ps_flags = ovni_prv_flags, ps_label = ovni_pcf_labels\<rparr>"

definition ovni_th_chan :: model_chan_spec where
  "ovni_th_chan = \<lparr>cs_nch = 1, cs_prefix = ''ovni'', cs_names = ovni_chan_name, cs_stack = ovni_chan_stack, cs_dup = None,
     cs_pvt = ovni_pvt_spec, cs_track = ovni_th_track\<rparr>"

definition ovni_cpu_chan :: model_chan_spec where
  "ovni_cpu_chan = \<lparr>cs_nch = 1, cs_prefix = ''ovni'', cs_names = ovni_chan_name, cs_stack = ovni_chan_stack, cs_dup = None,
     cs_pvt = ovni_pvt_spec, cs_track = ovni_cpu_track\<rparr>"

subsection \<open>\<^verbatim>\<open>src/emu/nosv/setup.c\<close>\<close>

definition nosv_chan_name :: "nat \<Rightarrow> string" where
  "nosv_chan_name = tab '''' [
     (NOSV_CH_BODYID, ''bodyid''), (NOSV_CH_TASKID, ''taskid''), (NOSV_CH_TYPE, ''task_type''),
     (NOSV_CH_APPID, ''appid''), (NOSV_CH_SUBSYSTEM, ''subsystem''), (NOSV_CH_RANK, ''rank''),
     (NOSV_CH_IDLE, ''idle'')]"

definition nosv_chan_stack :: "nat \<Rightarrow> bool" where
  "nosv_chan_stack = tab False [
     (NOSV_CH_SUBSYSTEM, True)]"

definition nosv_chan_dup :: "nat \<Rightarrow> bool" where
  "nosv_chan_dup = tab False [
     (NOSV_CH_BODYID, True), (NOSV_CH_APPID, True), (NOSV_CH_TYPE, True), (NOSV_CH_RANK, True),
     (NOSV_CH_SUBSYSTEM, True)]"

definition nosv_pvt_type :: "nat \<Rightarrow> int" where
  "nosv_pvt_type = tab 0 [
     (NOSV_CH_BODYID, PRV_NOSV_BODYID), (NOSV_CH_TASKID, PRV_NOSV_TASKID), (NOSV_CH_TYPE, PRV_NOSV_TYPE),
     (NOSV_CH_APPID, PRV_NOSV_APPID), (NOSV_CH_SUBSYSTEM, PRV_NOSV_SUBSYSTEM), (NOSV_CH_RANK, PRV_NOSV_RANK),
     (NOSV_CH_IDLE, PRV_NOSV_IDLE)]"

definition nosv_pcf_prefix :: "nat \<Rightarrow> string" where
  "nosv_pcf_prefix = tab '''' [
     (NOSV_CH_BODYID, ''nOS-V task body ID''), (NOSV_CH_TASKID, ''nOS-V task ID''),
     (NOSV_CH_TYPE, ''nOS-V task type''), (NOSV_CH_APPID, ''nOS-V task AppID''),
     (NOSV_CH_SUBSYSTEM, ''nOS-V subsystem''), (NOSV_CH_RANK, ''nOS-V task MPI rank''),
     (NOSV_CH_IDLE, ''nOS-V idle state'')]"

definition nosv_lbl_nosv_ss_values :: "(int \<times> string) list" where
  "nosv_lbl_nosv_ss_values = [
     (nosv_st nosv_ss_values.ST_UNKNOWN_SS, ''Unknown subsystem''),
     (nosv_st nosv_ss_values.ST_SCHED_HUNGRY, ''Scheduler: Hungry''),
     (nosv_st nosv_ss_values.ST_SCHED_SERVING, ''Scheduler: Serving''),
     (nosv_st nosv_ss_values.ST_SCHED_SUBMITTING, ''Scheduler: Submitting''),
     (nosv_st nosv_ss_values.ST_MEM_ALLOCATING, ''Memory: Allocating''),
     (nosv_st nosv_ss_values.ST_MEM_FREEING, ''Memory: Freeing''),
     (nosv_st nosv_ss_values.ST_TASK_BODY, ''Task: In body''),
     (nosv_st nosv_ss_values.ST_API_CREATE, ''API: Create''),
     (nosv_st nosv_ss_values.ST_API_DESTROY, ''API: Destroy''),
     (nosv_st nosv_ss_values.ST_API_SUBMIT, ''API: Submit''), (nosv_st nosv_ss_values.ST_API_PAUSE, ''API: Pause''),
     (nosv_st nosv_ss_values.ST_API_YIELD, ''API: Yield''),
     (nosv_st nosv_ss_values.ST_API_WAITFOR, ''API: Waitfor''),
     (nosv_st nosv_ss_values.ST_API_SCHEDPOINT, ''API: Scheduling point''),
     (nosv_st nosv_ss_values.ST_API_ATTACH, ''API: Attach''),
     (nosv_st nosv_ss_values.ST_API_DETACH, ''API: Detach''),
     (nosv_st nosv_ss_values.ST_API_MUTEX_LOCK, ''API: Mutex lock''),
     (nosv_st nosv_ss_values.ST_API_MUTEX_TRYLOCK, ''API: Mutex trylock''),
     (nosv_st nosv_ss_values.ST_API_MUTEX_UNLOCK, ''API: Mutex unlock''),
     (nosv_st nosv_ss_values.ST_API_BARRIER_WAIT, ''API: Barrier wait''),
     (nosv_st nosv_ss_values.ST_API_COND_WAIT, ''API: Cond wait''),
     (nosv_st nosv_ss_values.ST_API_COND_SIGNAL, ''API: Cond signal''),
     (nosv_st nosv_ss_values.ST_API_COND_BCAST, ''API: Cond broadcast''),
     (nosv_st nosv_ss_values.ST_WORKER, ''Thread: Worker''),
     (nosv_st nosv_ss_values.ST_DELEGATE, ''Thread: Delegate''),
     (nosv_st nosv_ss_values.EV_SCHED_SEND, ''EV Scheduler: Send task''),
     (nosv_st nosv_ss_values.EV_SCHED_RECV, ''EV Scheduler: Recv task''),
     (nosv_st nosv_ss_values.EV_SCHED_SELF, ''EV Scheduler: Self-assign task'')]"

definition nosv_lbl_nosv_worker_idle :: "(int \<times> string) list" where
  "nosv_lbl_nosv_worker_idle = [
     (nosv_progress_st nosv_progress.ST_PROGRESSING, ''Progressing''),
     (nosv_progress_st nosv_progress.ST_RESTING, ''Resting''),
     (nosv_progress_st nosv_progress.ST_ABSORBING, ''Absorbing noise'')]"

definition nosv_pcf_labels :: "nat \<Rightarrow> (int \<times> string) list" where
  "nosv_pcf_labels = tab [] [
     (NOSV_CH_SUBSYSTEM, nosv_lbl_nosv_ss_values), (NOSV_CH_IDLE, nosv_lbl_nosv_worker_idle)]"

definition nosv_prv_flags :: "nat \<Rightarrow> prv_flag \<Rightarrow> bool" where
  "nosv_prv_flags = tab no_flags [
     (NOSV_CH_BODYID, (\<lambda>f. f = PRV_SKIPDUPNULL)), (NOSV_CH_TASKID, (\<lambda>f. f = PRV_SKIPDUPNULL)),
     (NOSV_CH_TYPE, (\<lambda>f. f = PRV_SKIPDUPNULL)), (NOSV_CH_APPID, (\<lambda>f. f = PRV_SKIPDUPNULL)),
     (NOSV_CH_SUBSYSTEM, (\<lambda>f. f = PRV_SKIPDUPNULL)), (NOSV_CH_RANK, (\<lambda>f. f = PRV_SKIPDUPNULL)),
     (NOSV_CH_IDLE, (\<lambda>f. f = PRV_SKIPDUPNULL))]"

definition nosv_th_track :: "nat \<Rightarrow> track_th" where
  "nosv_th_track = tab TRACK_TH_ANY [
     (NOSV_CH_BODYID, TRACK_TH_RUN), (NOSV_CH_TASKID, TRACK_TH_RUN), (NOSV_CH_TYPE, TRACK_TH_RUN),
     (NOSV_CH_APPID, TRACK_TH_RUN), (NOSV_CH_SUBSYSTEM, TRACK_TH_ACT), (NOSV_CH_RANK, TRACK_TH_RUN),
     (NOSV_CH_IDLE, TRACK_TH_RUN)]"

definition nosv_cpu_track :: "nat \<Rightarrow> track_th" where
  "nosv_cpu_track = tab TRACK_TH_ANY [
     (NOSV_CH_BODYID, TRACK_TH_RUN), (NOSV_CH_TASKID, TRACK_TH_RUN), (NOSV_CH_TYPE, TRACK_TH_RUN),
     (NOSV_CH_APPID, TRACK_TH_RUN), (NOSV_CH_SUBSYSTEM, TRACK_TH_RUN), (NOSV_CH_RANK, TRACK_TH_RUN),
     (NOSV_CH_IDLE, TRACK_TH_RUN)]"

definition nosv_pvt_spec :: model_pvt_spec where
  "nosv_pvt_spec = \<lparr>ps_type = nosv_pvt_type, ps_prefix = nosv_pcf_prefix, ps_flags = nosv_prv_flags, ps_label = nosv_pcf_labels\<rparr>"

definition nosv_th_chan :: model_chan_spec where
  "nosv_th_chan = \<lparr>cs_nch = NOSV_CH_MAX, cs_prefix = ''nosv'', cs_names = nosv_chan_name, cs_stack = nosv_chan_stack, cs_dup = Some nosv_chan_dup,
     cs_pvt = nosv_pvt_spec, cs_track = nosv_th_track\<rparr>"

definition nosv_cpu_chan :: model_chan_spec where
  "nosv_cpu_chan = \<lparr>cs_nch = NOSV_CH_MAX, cs_prefix = ''nosv'', cs_names = nosv_chan_name, cs_stack = nosv_chan_stack, cs_dup = None,
     cs_pvt = nosv_pvt_spec, cs_track = nosv_cpu_track\<rparr>"

subsection \<open>\<^verbatim>\<open>src/emu/nanos6/setup.c\<close>\<close>

definition nanos6_chan_name :: "nat \<Rightarrow> string" where
  "nanos6_chan_name = tab '''' [
     (NANOS6_CH_TASKID, ''taskid''), (NANOS6_CH_TYPE, ''task_type''), (NANOS6_CH_SUBSYSTEM, ''subsystem''),
     (NANOS6_CH_RANK, ''rank''), (NANOS6_CH_THREAD, ''thread_type''), (NANOS6_CH_IDLE, ''idle'')]"

definition nanos6_chan_stack :: "nat \<Rightarrow> bool" where
  "nanos6_chan_stack = tab False [
     (NANOS6_CH_SUBSYSTEM, True), (NANOS6_CH_THREAD, True)]"

definition nanos6_chan_dup :: "nat \<Rightarrow> bool" where
  "nanos6_chan_dup = tab False [
     (NANOS6_CH_TYPE, True), (NANOS6_CH_RANK, True)]"

definition nanos6_pvt_type :: "nat \<Rightarrow> int" where
  "nanos6_pvt_type = tab 0 [
     (NANOS6_CH_TASKID, PRV_NANOS6_TASKID), (NANOS6_CH_TYPE, PRV_NANOS6_TYPE),
     (NANOS6_CH_SUBSYSTEM, PRV_NANOS6_SUBSYSTEM), (NANOS6_CH_RANK, PRV_NANOS6_RANK),
     (NANOS6_CH_THREAD, PRV_NANOS6_THREAD), (NANOS6_CH_IDLE, PRV_NANOS6_IDLE)]"

definition nanos6_pcf_prefix :: "nat \<Rightarrow> string" where
  "nanos6_pcf_prefix = tab '''' [
     (NANOS6_CH_TASKID, ''Nanos6 task ID''), (NANOS6_CH_TYPE, ''Nanos6 task type''),
     (NANOS6_CH_SUBSYSTEM, ''Nanos6 subsystem''), (NANOS6_CH_RANK, ''Nanos6 task MPI rank''),
     (NANOS6_CH_THREAD, ''Nanos6 thread type''), (NANOS6_CH_IDLE, ''Nanos6 idle state'')]"

definition nanos6_lbl_nanos6_ss_values :: "(int \<times> string) list" where
  "nanos6_lbl_nanos6_ss_values = [
     (nanos6_st nanos6_ss_state.ST_UNKNOWN_SS, ''Unknown subsystem''),
     (nanos6_st nanos6_ss_state.ST_TASK_BODY, ''Task: Running body''),
     (nanos6_st nanos6_ss_state.ST_TASK_CREATING, ''Task: Creating''),
     (nanos6_st nanos6_ss_state.ST_TASK_SUBMIT, ''Task: Submitting''),
     (nanos6_st nanos6_ss_state.ST_TASK_SPAWNING, ''Task: Spawning function''),
     (nanos6_st nanos6_ss_state.ST_TASK_FOR, ''Task: Running task for''),
     (nanos6_st nanos6_ss_state.ST_SCHED_SERVING, ''Scheduler: Serving tasks''),
     (nanos6_st nanos6_ss_state.ST_SCHED_ADDING, ''Scheduler: Adding ready tasks''),
     (nanos6_st nanos6_ss_state.ST_SCHED_PROCESSING, ''Scheduler: Processing ready tasks''),
     (nanos6_st nanos6_ss_state.ST_DEP_REG, ''Dependency: Registering''),
     (nanos6_st nanos6_ss_state.ST_DEP_UNREG, ''Dependency: Unregistering''),
     (nanos6_st nanos6_ss_state.ST_BLK_TASKWAIT, ''Blocking: Taskwait''),
     (nanos6_st nanos6_ss_state.ST_BLK_BLOCKING, ''Blocking: Blocking current task''),
     (nanos6_st nanos6_ss_state.ST_BLK_UNBLOCKING, ''Blocking: Unblocking remote task''),
     (nanos6_st nanos6_ss_state.ST_BLK_WAITFOR, ''Blocking: Wait for deadline''),
     (nanos6_st nanos6_ss_state.ST_HANDLING_TASK, ''Worker: Handling task''),
     (nanos6_st nanos6_ss_state.ST_WORKER_LOOP, ''Worker: Looking for work''),
     (nanos6_st nanos6_ss_state.ST_SWITCH_TO, ''Worker: Switching to another thread''),
     (nanos6_st nanos6_ss_state.ST_MIGRATE, ''Worker: Migrating CPU''),
     (nanos6_st nanos6_ss_state.ST_SUSPEND, ''Worker: Suspending thread''),
     (nanos6_st nanos6_ss_state.ST_RESUME, ''Worker: Resuming another thread''),
     (nanos6_st nanos6_ss_state.ST_SPONGE, ''Worker: Sponge mode''),
     (nanos6_st nanos6_ss_state.ST_ALLOCATING, ''Memory: Allocating''),
     (nanos6_st nanos6_ss_state.ST_FREEING, ''Memory: Freeing''),
     (nanos6_st nanos6_ss_state.EV_SCHED_SEND, ''EV Scheduler: Send task''),
     (nanos6_st nanos6_ss_state.EV_SCHED_RECV, ''EV Scheduler: Recv task''),
     (nanos6_st nanos6_ss_state.EV_SCHED_SELF, ''EV Scheduler: Self-assign task''),
     (nanos6_st nanos6_ss_state.EV_CPU_IDLE, ''EV CPU: Becomes idle''),
     (nanos6_st nanos6_ss_state.EV_CPU_ACTIVE, ''EV CPU: Becomes active''),
     (nanos6_st nanos6_ss_state.EV_SIGNAL, ''EV Worker: Waking another thread'')]"

definition nanos6_lbl_nanos6_thread_type :: "(int \<times> string) list" where
  "nanos6_lbl_nanos6_thread_type = [
     (nanos6_thread_st nanos6_thread_type.ST_TH_EXTERNAL, ''External''),
     (nanos6_thread_st nanos6_thread_type.ST_TH_WORKER, ''Worker''),
     (nanos6_thread_st nanos6_thread_type.ST_TH_LEADER, ''Leader''),
     (nanos6_thread_st nanos6_thread_type.ST_TH_MAIN, ''Main'')]"

definition nanos6_lbl_nanos6_worker_idle :: "(int \<times> string) list" where
  "nanos6_lbl_nanos6_worker_idle = [
     (nanos6_progress_st nanos6_progress.ST_PROGRESSING, ''Progressing''),
     (nanos6_progress_st nanos6_progress.ST_RESTING, ''Resting''),
     (nanos6_progress_st nanos6_progress.ST_ABSORBING, ''Absorbing noise'')]"

definition nanos6_pcf_labels :: "nat \<Rightarrow> (int \<times> string) list" where
  "nanos6_pcf_labels = tab [] [
     (NANOS6_CH_SUBSYSTEM, nanos6_lbl_nanos6_ss_values), (NANOS6_CH_THREAD, nanos6_lbl_nanos6_thread_type),
     (NANOS6_CH_IDLE, nanos6_lbl_nanos6_worker_idle)]"

definition nanos6_prv_flags :: "nat \<Rightarrow> prv_flag \<Rightarrow> bool" where
  "nanos6_prv_flags = tab no_flags [
     (NANOS6_CH_TASKID, (\<lambda>f. f = PRV_SKIPDUP)), (NANOS6_CH_TYPE, (\<lambda>f. f = PRV_EMITDUP)),
     (NANOS6_CH_SUBSYSTEM, (\<lambda>f. f = PRV_SKIPDUP)), (NANOS6_CH_RANK, (\<lambda>f. f = PRV_EMITDUP)),
     (NANOS6_CH_THREAD, (\<lambda>f. f = PRV_SKIPDUP)), (NANOS6_CH_IDLE, (\<lambda>f. f = PRV_SKIPDUP))]"

definition nanos6_th_track :: "nat \<Rightarrow> track_th" where
  "nanos6_th_track = tab TRACK_TH_ANY [
     (NANOS6_CH_TASKID, TRACK_TH_RUN), (NANOS6_CH_TYPE, TRACK_TH_RUN), (NANOS6_CH_SUBSYSTEM, TRACK_TH_ACT),
     (NANOS6_CH_RANK, TRACK_TH_RUN), (NANOS6_CH_THREAD, TRACK_TH_ANY), (NANOS6_CH_IDLE, TRACK_TH_RUN)]"

definition nanos6_cpu_track :: "nat \<Rightarrow> track_th" where
  "nanos6_cpu_track = tab TRACK_TH_ANY [
     (NANOS6_CH_TASKID, TRACK_TH_RUN), (NANOS6_CH_TYPE, TRACK_TH_RUN), (NANOS6_CH_SUBSYSTEM, TRACK_TH_RUN),
     (NANOS6_CH_RANK, TRACK_TH_RUN), (NANOS6_CH_THREAD, TRACK_TH_RUN), (NANOS6_CH_IDLE, TRACK_TH_RUN)]"

definition nanos6_pvt_spec :: model_pvt_spec where
  "nanos6_pvt_spec = \<lparr>ps_type = nanos6_pvt_type, ps_prefix = nanos6_pcf_prefix, ps_flags = nanos6_prv_flags, ps_label = nanos6_pcf_labels\<rparr>"

definition nanos6_th_chan :: model_chan_spec where
  "nanos6_th_chan = \<lparr>cs_nch = NANOS6_CH_MAX, cs_prefix = ''nanos6'', cs_names = nanos6_chan_name, cs_stack = nanos6_chan_stack, cs_dup = Some nanos6_chan_dup,
     cs_pvt = nanos6_pvt_spec, cs_track = nanos6_th_track\<rparr>"

definition nanos6_cpu_chan :: model_chan_spec where
  "nanos6_cpu_chan = \<lparr>cs_nch = NANOS6_CH_MAX, cs_prefix = ''nanos6'', cs_names = nanos6_chan_name, cs_stack = nanos6_chan_stack, cs_dup = Some nanos6_chan_dup,
     cs_pvt = nanos6_pvt_spec, cs_track = nanos6_cpu_track\<rparr>"

subsection \<open>\<^verbatim>\<open>src/emu/openmp/setup.c\<close>\<close>

definition openmp_chan_name :: "nat \<Rightarrow> string" where
  "openmp_chan_name = tab '''' [
     (OMP_CH_SUBSYSTEM, ''subsystem''), (OMP_CH_LABEL, ''label''), (OMP_CH_TASKID, ''task ID'')]"

definition openmp_chan_stack :: "nat \<Rightarrow> bool" where
  "openmp_chan_stack = tab False [
     (OMP_CH_SUBSYSTEM, True), (OMP_CH_LABEL, True), (OMP_CH_TASKID, True)]"

definition openmp_chan_dup :: "nat \<Rightarrow> bool" where
  "openmp_chan_dup = tab False [
     (OMP_CH_SUBSYSTEM, True), (OMP_CH_LABEL, True), (OMP_CH_TASKID, True)]"

definition openmp_pvt_type :: "nat \<Rightarrow> int" where
  "openmp_pvt_type = tab 0 [
     (OMP_CH_SUBSYSTEM, PRV_OPENMP_SUBSYSTEM), (OMP_CH_LABEL, PRV_OPENMP_LABEL), (OMP_CH_TASKID, PRV_OPENMP_TASKID)]"

definition openmp_pcf_prefix :: "nat \<Rightarrow> string" where
  "openmp_pcf_prefix = tab '''' [
     (OMP_CH_SUBSYSTEM, ''OpenMP subsystem''), (OMP_CH_LABEL, ''OpenMP label''), (OMP_CH_TASKID, ''OpenMP task ID'')]"

definition openmp_lbl_openmp_subsystem_values :: "(int \<times> string) list" where
  "openmp_lbl_openmp_subsystem_values = [
     (openmp_st openmp_function_values.ST_WD_DISTRIBUTE, ''Work-distribution: Distribute''),
     (openmp_st openmp_function_values.ST_WD_FOR_DYNAMIC_CHUNK, ''Work-distribution: Dynamic for chunk''),
     (openmp_st openmp_function_values.ST_WD_FOR_DYNAMIC_INIT, ''Work-distribution: Dynamic for initialization''),
     (openmp_st openmp_function_values.ST_WD_FOR_STATIC, ''Work-distribution: Static for chunk''),
     (openmp_st openmp_function_values.ST_WD_SECTION, ''Work-distribution: Section''),
     (openmp_st openmp_function_values.ST_WD_SINGLE, ''Work-distribution: Single''),
     (openmp_st openmp_function_values.ST_TASK_ALLOC, ''Task: Allocation''),
     (openmp_st openmp_function_values.ST_TASK_CHECK_DEPS, ''Task: Check deps''),
     (openmp_st openmp_function_values.ST_TASK_DUP_ALLOC, ''Task: Duplicating''),
     (openmp_st openmp_function_values.ST_TASK_RELEASE_DEPS, ''Task: Releasing deps''),
     (openmp_st openmp_function_values.ST_TASK_RUN, ''Task: Running task''),
     (openmp_st openmp_function_values.ST_TASK_RUN_IF0, ''Task: Running task if0''),
     (openmp_st openmp_function_values.ST_TASK_SCHEDULE, ''Task: Scheduling''),
     (openmp_st openmp_function_values.ST_TASK_TASKGROUP, ''Task: Taskgroup''),
     (openmp_st openmp_function_values.ST_TASK_TASKWAIT, ''Task: Taskwait''),
     (openmp_st openmp_function_values.ST_TASK_TASKWAIT_DEPS, ''Task: Taskwait deps''),
     (openmp_st openmp_function_values.ST_TASK_TASKYIELD, ''Task: Taskyield''),
     (openmp_st openmp_function_values.ST_CRITICAL_ACQ, ''Critical: Acquiring''),
     (openmp_st openmp_function_values.ST_CRITICAL_REL, ''Critical: Releasing''),
     (openmp_st openmp_function_values.ST_CRITICAL_SECTION, ''Critical: Section''),
     (openmp_st openmp_function_values.ST_BARRIER_FORK, ''Barrier: Fork''),
     (openmp_st openmp_function_values.ST_BARRIER_JOIN, ''Barrier: Join''),
     (openmp_st openmp_function_values.ST_BARRIER_PLAIN, ''Barrier: Plain''),
     (openmp_st openmp_function_values.ST_BARRIER_TASK, ''Barrier: Task''),
     (openmp_st openmp_function_values.ST_BARRIER_SPIN_WAIT, ''Barrier: Spin wait''),
     (openmp_st openmp_function_values.ST_RT_ATTACHED, ''Runtime: Attached''),
     (openmp_st openmp_function_values.ST_RT_FORK_CALL, ''Runtime: Fork call''),
     (openmp_st openmp_function_values.ST_RT_INIT, ''Runtime: Initialization''),
     (openmp_st openmp_function_values.ST_RT_MICROTASK_INTERNAL, ''Runtime: Internal microtask''),
     (openmp_st openmp_function_values.ST_RT_MICROTASK_USER, ''Runtime: User microtask''),
     (openmp_st openmp_function_values.ST_RT_WORKER_LOOP, ''Runtime: Worker main loop'')]"

definition openmp_pcf_labels :: "nat \<Rightarrow> (int \<times> string) list" where
  "openmp_pcf_labels = tab [] [
     (OMP_CH_SUBSYSTEM, openmp_lbl_openmp_subsystem_values)]"

definition openmp_prv_flags :: "nat \<Rightarrow> prv_flag \<Rightarrow> bool" where
  "openmp_prv_flags = tab no_flags [
     (OMP_CH_SUBSYSTEM, (\<lambda>f. f = PRV_SKIPDUPNULL)), (OMP_CH_LABEL, (\<lambda>f. f = PRV_SKIPDUPNULL)),
     (OMP_CH_TASKID, (\<lambda>f. f = PRV_SKIPDUPNULL))]"

definition openmp_th_track :: "nat \<Rightarrow> track_th" where
  "openmp_th_track = tab TRACK_TH_ANY [
     (OMP_CH_SUBSYSTEM, TRACK_TH_ACT), (OMP_CH_LABEL, TRACK_TH_ACT), (OMP_CH_TASKID, TRACK_TH_ACT)]"

definition openmp_cpu_track :: "nat \<Rightarrow> track_th" where
  "openmp_cpu_track = tab TRACK_TH_ANY [
     (OMP_CH_SUBSYSTEM, TRACK_TH_RUN), (OMP_CH_LABEL, TRACK_TH_RUN), (OMP_CH_TASKID, TRACK_TH_RUN)]"

definition openmp_pvt_spec :: model_pvt_spec where
  "openmp_pvt_spec = \<lparr>ps_type = openmp_pvt_type, ps_prefix = openmp_pcf_prefix, ps_flags = openmp_prv_flags, ps_label = openmp_pcf_labels\<rparr>"

definition openmp_th_chan :: model_chan_spec where
  "openmp_th_chan = \<lparr>cs_nch = OMP_CH_MAX, cs_prefix = ''openmp'', cs_names = openmp_chan_name, cs_stack = openmp_chan_stack, cs_dup = Some openmp_chan_dup,
     cs_pvt = openmp_pvt_spec, cs_track = openmp_th_track\<rparr>"

definition openmp_cpu_chan :: model_chan_spec where
  "openmp_cpu_chan = \<lparr>cs_nch = OMP_CH_MAX, cs_prefix = ''openmp'', cs_names = openmp_chan_name, cs_stack = openmp_chan_stack, cs_dup = Some openmp_chan_dup,
     cs_pvt = openmp_pvt_spec, cs_track = openmp_cpu_track\<rparr>"

subsection \<open>\<^verbatim>\<open>src/emu/mpi/setup.c\<close>\<close>

definition mpi_chan_name :: "nat \<Rightarrow> string" where
  "mpi_chan_name = tab '''' [
     (0, ''function'')]"

definition mpi_chan_stack :: "nat \<Rightarrow> bool" where
  "mpi_chan_stack = tab False [
     (0, True)]"

definition mpi_pvt_type :: "nat \<Rightarrow> int" where
  "mpi_pvt_type = tab 0 [
     (0, PRV_MPI_FUNCTION)]"

definition mpi_pcf_prefix :: "nat \<Rightarrow> string" where
  "mpi_pcf_prefix = tab '''' [
     (0, ''MPI function'')]"

definition mpi_lbl_mpi_function_values :: "(int \<times> string) list" where
  "mpi_lbl_mpi_function_values = [
     (mpi_st mpi_function_values.ST_MPI_INIT, ''MPI_Init''),
     (mpi_st mpi_function_values.ST_MPI_INIT_THREAD, ''MPI_Init_thread''),
     (mpi_st mpi_function_values.ST_MPI_FINALIZE, ''MPI_Finalize''),
     (mpi_st mpi_function_values.ST_MPI_WAIT, ''MPI_Wait''),
     (mpi_st mpi_function_values.ST_MPI_WAITALL, ''MPI_Waitall''),
     (mpi_st mpi_function_values.ST_MPI_WAITANY, ''MPI_Waitany''),
     (mpi_st mpi_function_values.ST_MPI_WAITSOME, ''MPI_Waitsome''),
     (mpi_st mpi_function_values.ST_MPI_TEST, ''MPI_Test''),
     (mpi_st mpi_function_values.ST_MPI_TESTALL, ''MPI_Testall''),
     (mpi_st mpi_function_values.ST_MPI_TESTANY, ''MPI_Testany''),
     (mpi_st mpi_function_values.ST_MPI_TESTSOME, ''MPI_Testsome''),
     (mpi_st mpi_function_values.ST_MPI_RECV, ''MPI_Recv''), (mpi_st mpi_function_values.ST_MPI_SEND, ''MPI_Send''),
     (mpi_st mpi_function_values.ST_MPI_BSEND, ''MPI_Bsend''),
     (mpi_st mpi_function_values.ST_MPI_RSEND, ''MPI_Rsend''),
     (mpi_st mpi_function_values.ST_MPI_SSEND, ''MPI_Ssend''),
     (mpi_st mpi_function_values.ST_MPI_SENDRECV, ''MPI_Sendrecv''),
     (mpi_st mpi_function_values.ST_MPI_SENDRECV_REPLACE, ''MPI_Sendrecv_replace''),
     (mpi_st mpi_function_values.ST_MPI_IRECV, ''MPI_Irecv''),
     (mpi_st mpi_function_values.ST_MPI_ISEND, ''MPI_Isend''),
     (mpi_st mpi_function_values.ST_MPI_IBSEND, ''MPI_Ibsend''),
     (mpi_st mpi_function_values.ST_MPI_IRSEND, ''MPI_Irsend''),
     (mpi_st mpi_function_values.ST_MPI_ISSEND, ''MPI_Issend''),
     (mpi_st mpi_function_values.ST_MPI_ISENDRECV, ''MPI_Isendrecv''),
     (mpi_st mpi_function_values.ST_MPI_ISENDRECV_REPLACE, ''MPI_Isendrecv_replace''),
     (mpi_st mpi_function_values.ST_MPI_ALLGATHER, ''MPI_Allgather''),
     (mpi_st mpi_function_values.ST_MPI_ALLREDUCE, ''MPI_Allreduce''),
     (mpi_st mpi_function_values.ST_MPI_ALLTOALL, ''MPI_Alltoall''),
     (mpi_st mpi_function_values.ST_MPI_BARRIER, ''MPI_Barrier''),
     (mpi_st mpi_function_values.ST_MPI_BCAST, ''MPI_Bcast''),
     (mpi_st mpi_function_values.ST_MPI_GATHER, ''MPI_Gather''),
     (mpi_st mpi_function_values.ST_MPI_REDUCE, ''MPI_Reduce''),
     (mpi_st mpi_function_values.ST_MPI_REDUCE_SCATTER, ''MPI_Reduce_scatter''),
     (mpi_st mpi_function_values.ST_MPI_REDUCE_SCATTER_BLOCK, ''MPI_Reduce_scatter_block''),
     (mpi_st mpi_function_values.ST_MPI_SCATTER, ''MPI_Scatter''),
     (mpi_st mpi_function_values.ST_MPI_SCAN, ''MPI_Scan''),
     (mpi_st mpi_function_values.ST_MPI_EXSCAN, ''MPI_Exscan''),
     (mpi_st mpi_function_values.ST_MPI_IALLGATHER, ''MPI_Iallgather''),
     (mpi_st mpi_function_values.ST_MPI_IALLREDUCE, ''MPI_Iallreduce''),
     (mpi_st mpi_function_values.ST_MPI_IALLTOALL, ''MPI_Ialltoall''),
     (mpi_st mpi_function_values.ST_MPI_IBARRIER, ''MPI_Ibarrier''),
     (mpi_st mpi_function_values.ST_MPI_IBCAST, ''MPI_Ibcast''),
     (mpi_st mpi_function_values.ST_MPI_IGATHER, ''MPI_Igather''),
     (mpi_st mpi_function_values.ST_MPI_IREDUCE, ''MPI_Ireduce''),
     (mpi_st mpi_function_values.ST_MPI_IREDUCE_SCATTER, ''MPI_Ireduce_scatter''),
     (mpi_st mpi_function_values.ST_MPI_IREDUCE_SCATTER_BLOCK, ''MPI_Ireduce_scatter_block''),
     (mpi_st mpi_function_values.ST_MPI_ISCATTER, ''MPI_Iscatter''),
     (mpi_st mpi_function_values.ST_MPI_ISCAN, ''MPI_Iscan''),
     (mpi_st mpi_function_values.ST_MPI_IEXSCAN, ''MPI_Iexscan'')]"

definition mpi_pcf_labels :: "nat \<Rightarrow> (int \<times> string) list" where
  "mpi_pcf_labels = tab [] [
     (0, mpi_lbl_mpi_function_values)]"

definition mpi_prv_flags :: "nat \<Rightarrow> prv_flag \<Rightarrow> bool" where
  "mpi_prv_flags = tab no_flags [
     (0, (\<lambda>f. f = PRV_SKIPDUP))]"

definition mpi_th_track :: "nat \<Rightarrow> track_th" where
  "mpi_th_track = tab TRACK_TH_ANY [
     (0, TRACK_TH_RUN)]"

definition mpi_cpu_track :: "nat \<Rightarrow> track_th" where
  "mpi_cpu_track = tab TRACK_TH_ANY [
     (0, TRACK_TH_RUN)]"

definition mpi_pvt_spec :: model_pvt_spec where
  "mpi_pvt_spec = \<lparr>ps_type = mpi_pvt_type, ps_prefix = mpi_pcf_prefix, ps_flags = mpi_prv_flags, ps_label = mpi_pcf_labels\<rparr>"

definition mpi_th_chan :: model_chan_spec where
  "mpi_th_chan = \<lparr>cs_nch = 1, cs_prefix = ''mpi'', cs_names = mpi_chan_name, cs_stack = mpi_chan_stack, cs_dup = None,
     cs_pvt = mpi_pvt_spec, cs_track = mpi_th_track\<rparr>"

definition mpi_cpu_chan :: model_chan_spec where
  "mpi_cpu_chan = \<lparr>cs_nch = 1, cs_prefix = ''mpi'', cs_names = mpi_chan_name, cs_stack = mpi_chan_stack, cs_dup = None,
     cs_pvt = mpi_pvt_spec, cs_track = mpi_cpu_track\<rparr>"

subsection \<open>\<^verbatim>\<open>src/emu/tampi/setup.c\<close>\<close>

definition tampi_chan_name :: "nat \<Rightarrow> string" where
  "tampi_chan_name = tab '''' [
     (0, ''subsystem'')]"

definition tampi_chan_stack :: "nat \<Rightarrow> bool" where
  "tampi_chan_stack = tab False [
     (0, True)]"

definition tampi_pvt_type :: "nat \<Rightarrow> int" where
  "tampi_pvt_type = tab 0 [
     (0, PRV_TAMPI_SUBSYSTEM)]"

definition tampi_pcf_prefix :: "nat \<Rightarrow> string" where
  "tampi_pcf_prefix = tab '''' [
     (0, ''TAMPI subsystem'')]"

definition tampi_lbl_tampi_ss_values :: "(int \<times> string) list" where
  "tampi_lbl_tampi_ss_values = [
     (tampi_st tampi_ss_values.ST_COMM_ISSUE_NONBLOCKING, ''Communication: Issuing a non-blocking operation''),
     (tampi_st tampi_ss_values.ST_GLOBAL_ARRAY_CHECK, ''Global array: Checking pending requests''),
     (tampi_st tampi_ss_values.ST_LIBRARY_INTERFACE, ''Library code: Interface function''),
     (tampi_st tampi_ss_values.ST_LIBRARY_POLLING, ''Library code: Polling function''),
     (tampi_st tampi_ss_values.ST_QUEUE_ADD, ''Queue: Adding to a queue''),
     (tampi_st tampi_ss_values.ST_QUEUE_TRANSFER, ''Queue: Transfering to global array''),
     (tampi_st tampi_ss_values.ST_REQUEST_TEST, ''Request: Testing a request''),
     (tampi_st tampi_ss_values.ST_REQUEST_COMPLETED, ''Request: Processing a completed request''),
     (tampi_st tampi_ss_values.ST_REQUEST_TESTALL, ''Request: Testing all requests''),
     (tampi_st tampi_ss_values.ST_REQUEST_TESTSOME, ''Request: Testing some requests''),
     (tampi_st tampi_ss_values.ST_TICKET_CREATE, ''Ticket: Creating a ticket''),
     (tampi_st tampi_ss_values.ST_TICKET_WAIT, ''Ticket: Waiting a ticket'')]"

definition tampi_pcf_labels :: "nat \<Rightarrow> (int \<times> string) list" where
  "tampi_pcf_labels = tab [] [
     (0, tampi_lbl_tampi_ss_values)]"

definition tampi_prv_flags :: "nat \<Rightarrow> prv_flag \<Rightarrow> bool" where
  "tampi_prv_flags = tab no_flags [
     (0, (\<lambda>f. f = PRV_SKIPDUP))]"

definition tampi_th_track :: "nat \<Rightarrow> track_th" where
  "tampi_th_track = tab TRACK_TH_ANY [
     (0, TRACK_TH_ACT)]"

definition tampi_cpu_track :: "nat \<Rightarrow> track_th" where
  "tampi_cpu_track = tab TRACK_TH_ANY [
     (0, TRACK_TH_RUN)]"

definition tampi_pvt_spec :: model_pvt_spec where
  "tampi_pvt_spec = \<lparr>ps_type = tampi_pvt_type, ps_prefix = tampi_pcf_prefix, ps_flags = tampi_prv_flags, ps_label = tampi_pcf_labels\<rparr>"

definition tampi_th_chan :: model_chan_spec where
  "tampi_th_chan = \<lparr>cs_nch = 1, cs_prefix = ''tampi'', cs_names = tampi_chan_name, cs_stack = tampi_chan_stack, cs_dup = None,
     cs_pvt = tampi_pvt_spec, cs_track = tampi_th_track\<rparr>"

definition tampi_cpu_chan :: model_chan_spec where
  "tampi_cpu_chan = \<lparr>cs_nch = 1, cs_prefix = ''tampi'', cs_names = tampi_chan_name, cs_stack = tampi_chan_stack, cs_dup = None,
     cs_pvt = tampi_pvt_spec, cs_track = tampi_cpu_track\<rparr>"

subsection \<open>\<^verbatim>\<open>src/emu/nodes/setup.c\<close>\<close>

definition nodes_chan_name :: "nat \<Rightarrow> string" where
  "nodes_chan_name = tab '''' [
     (0, ''subsystem'')]"

definition nodes_chan_stack :: "nat \<Rightarrow> bool" where
  "nodes_chan_stack = tab False [
     (0, True)]"

definition nodes_pvt_type :: "nat \<Rightarrow> int" where
  "nodes_pvt_type = tab 0 [
     (0, PRV_NODES_SUBSYSTEM)]"

definition nodes_pcf_prefix :: "nat \<Rightarrow> string" where
  "nodes_pcf_prefix = tab '''' [
     (0, ''NODES subsystem'')]"

definition nodes_lbl_nodes_ss_values :: "(int \<times> string) list" where
  "nodes_lbl_nodes_ss_values = [
     (nodes_st nodes_ss_values.ST_REGISTER, ''Dependencies: Registering task accesses''),
     (nodes_st nodes_ss_values.ST_UNREGISTER, ''Dependencies: Unregistering task accesses''),
     (nodes_st nodes_ss_values.ST_IF0_WAIT, ''If0: Waiting for an If0 task''),
     (nodes_st nodes_ss_values.ST_IF0_INLINE, ''If0: Executing an If0 task inline''),
     (nodes_st nodes_ss_values.ST_TASKWAIT, ''Taskwait: Taskwait''),
     (nodes_st nodes_ss_values.ST_CREATE, ''Add Task: Creating a task''),
     (nodes_st nodes_ss_values.ST_SUBMIT, ''Add Task: Submitting a task''),
     (nodes_st nodes_ss_values.ST_SPAWN, ''Spawn Function: Spawning a function'')]"

definition nodes_pcf_labels :: "nat \<Rightarrow> (int \<times> string) list" where
  "nodes_pcf_labels = tab [] [
     (0, nodes_lbl_nodes_ss_values)]"

definition nodes_prv_flags :: "nat \<Rightarrow> prv_flag \<Rightarrow> bool" where
  "nodes_prv_flags = tab no_flags [
     (0, (\<lambda>f. f = PRV_SKIPDUP))]"

definition nodes_th_track :: "nat \<Rightarrow> track_th" where
  "nodes_th_track = tab TRACK_TH_ANY [
     (0, TRACK_TH_ACT)]"

definition nodes_cpu_track :: "nat \<Rightarrow> track_th" where
  "nodes_cpu_track = tab TRACK_TH_ANY [
     (0, TRACK_TH_RUN)]"

definition nodes_pvt_spec :: model_pvt_spec where
  "nodes_pvt_spec = \<lparr>ps_type = nodes_pvt_type, ps_prefix = nodes_pcf_prefix, ps_flags = nodes_prv_flags, ps_label = nodes_pcf_labels\<rparr>"

definition nodes_th_chan :: model_chan_spec where
  "nodes_th_chan = \<lparr>cs_nch = 1, cs_prefix = ''nodes'', cs_names = nodes_chan_name, cs_stack = nodes_chan_stack, cs_dup = None,
     cs_pvt = nodes_pvt_spec, cs_track = nodes_th_track\<rparr>"

definition nodes_cpu_chan :: model_chan_spec where
  "nodes_cpu_chan = \<lparr>cs_nch = 1, cs_prefix = ''nodes'', cs_names = nodes_chan_name, cs_stack = nodes_chan_stack, cs_dup = None,
     cs_pvt = nodes_pvt_spec, cs_track = nodes_cpu_track\<rparr>"

subsection \<open>\<^verbatim>\<open>src/emu/kernel/setup.c\<close>\<close>

definition kernel_chan_name :: "nat \<Rightarrow> string" where
  "kernel_chan_name = tab '''' [
     (0, ''context_switch'')]"

definition kernel_chan_stack :: "nat \<Rightarrow> bool" where
  "kernel_chan_stack = tab False [
     (0, True)]"

definition kernel_pvt_type :: "nat \<Rightarrow> int" where
  "kernel_pvt_type = tab 0 [
     (0, PRV_KERNEL_CS)]"

definition kernel_pcf_prefix :: "nat \<Rightarrow> string" where
  "kernel_pcf_prefix = tab '''' [
     (0, ''Kernel context switch'')]"

definition kernel_lbl_kernel_cs_values :: "(int \<times> string) list" where
  "kernel_lbl_kernel_cs_values = [
     (3, ''Context switch: Out of the CPU'')]"

definition kernel_pcf_labels :: "nat \<Rightarrow> (int \<times> string) list" where
  "kernel_pcf_labels = tab [] [
     (0, kernel_lbl_kernel_cs_values)]"

definition kernel_prv_flags :: "nat \<Rightarrow> prv_flag \<Rightarrow> bool" where
  "kernel_prv_flags = tab no_flags [
     (0, (\<lambda>f. f = PRV_SKIPDUP))]"

definition kernel_th_track :: "nat \<Rightarrow> track_th" where
  "kernel_th_track = tab TRACK_TH_ANY [
     (0, TRACK_TH_ANY)]"

definition kernel_cpu_track :: "nat \<Rightarrow> track_th" where
  "kernel_cpu_track = tab TRACK_TH_ANY [
     (0, TRACK_TH_RUN)]"

definition kernel_pvt_spec :: model_pvt_spec where
  "kernel_pvt_spec = \<lparr>ps_type = kernel_pvt_type, ps_prefix = kernel_pcf_prefix, ps_flags = kernel_prv_flags, ps_label = kernel_pcf_labels\<rparr>"

definition kernel_th_chan :: model_chan_spec where
  "kernel_th_chan = \<lparr>cs_nch = 1, cs_prefix = ''kernel'', cs_names = kernel_chan_name, cs_stack = kernel_chan_stack, cs_dup = None,
     cs_pvt = kernel_pvt_spec, cs_track = kernel_th_track\<rparr>"

definition kernel_cpu_chan :: model_chan_spec where
  "kernel_cpu_chan = \<lparr>cs_nch = 1, cs_prefix = ''kernel'', cs_names = kernel_chan_name, cs_stack = kernel_chan_stack, cs_dup = None,
     cs_pvt = kernel_pvt_spec, cs_track = kernel_cpu_track\<rparr>"

subsection \<open>\<^verbatim>\<open>src/emu/xtasks/setup.c\<close>\<close>

definition xtasks_chan_name :: "nat \<Rightarrow> string" where
  "xtasks_chan_name = tab '''' [
     (0, ''subsystem'')]"

definition xtasks_chan_stack :: "nat \<Rightarrow> bool" where
  "xtasks_chan_stack = tab False [
     (0, True)]"

definition xtasks_pvt_type :: "nat \<Rightarrow> int" where
  "xtasks_pvt_type = tab 0 [
     (0, PRV_XTASKS_SUBSYSTEM)]"

definition xtasks_pcf_prefix :: "nat \<Rightarrow> string" where
  "xtasks_pcf_prefix = tab '''' [
     (0, ''FPGA xtasks subsystem'')]"

definition xtasks_lbl_xtasks_ss_values :: "(int \<times> string) list" where
  "xtasks_lbl_xtasks_ss_values = [
     (1, ''Waiting for tasks''), (2, ''Seting lock''), (3, ''Unseting lock''), (5, ''Creating task''),
     (78, ''Copying in localmem''), (79, ''Copying out localmem''), (80, ''Running user task''),
     (6660, ''Reverse Offload user task'')]"

definition xtasks_pcf_labels :: "nat \<Rightarrow> (int \<times> string) list" where
  "xtasks_pcf_labels = tab [] [
     (0, xtasks_lbl_xtasks_ss_values)]"

definition xtasks_prv_flags :: "nat \<Rightarrow> prv_flag \<Rightarrow> bool" where
  "xtasks_prv_flags = tab no_flags [
     (0, no_flags)]"

definition xtasks_th_track :: "nat \<Rightarrow> track_th" where
  "xtasks_th_track = tab TRACK_TH_ANY [
     (0, TRACK_TH_ANY)]"

definition xtasks_pvt_spec :: model_pvt_spec where
  "xtasks_pvt_spec = \<lparr>ps_type = xtasks_pvt_type, ps_prefix = xtasks_pcf_prefix, ps_flags = xtasks_prv_flags, ps_label = xtasks_pcf_labels\<rparr>"

definition xtasks_th_chan :: model_chan_spec where
  "xtasks_th_chan = \<lparr>cs_nch = 1, cs_prefix = ''xtasks'', cs_names = xtasks_chan_name, cs_stack = xtasks_chan_stack, cs_dup = None,
     cs_pvt = xtasks_pvt_spec, cs_track = xtasks_th_track\<rparr>"

subsection \<open>The tables agree\<close>

text \<open>A push or a pop is on a stack, a set is not; and the trace has a label for the value.\<close>

definition entry_typed :: "model_chan_spec \<Rightarrow> ss_entry \<Rightarrow> bool" where
  "entry_typed spec = (\<lambda>(ch, act, st).
     act = ACT_IGN \<or> ch < cs_nch spec \<and> cs_stack spec ch = (act \<noteq> ACT_SET) \<and> st \<in> set (map fst (ps_label (cs_pvt spec) ch)))"

definition table_typed :: "model_chan_spec \<Rightarrow> ss_table \<Rightarrow> bool" where
  "table_typed spec tbl \<longleftrightarrow> list_all (\<lambda>(_, e). entry_typed spec e) tbl"

lemma nosv_typed: "table_typed nosv_th_chan nosv_ss_table" by code_simp
lemma nanos6_typed: "table_typed nanos6_th_chan nanos6_ss_table" by code_simp
lemma openmp_typed: "table_typed openmp_th_chan openmp_fn_table" by code_simp
lemma mpi_typed: "table_typed mpi_th_chan mpi_fn_table" by code_simp
lemma tampi_typed: "table_typed tampi_th_chan tampi_ss_table" by code_simp
lemma nodes_typed: "table_typed nodes_th_chan nodes_ss_table" by code_simp

definition model_tables :: "(nat \<times> model_chan_spec \<times> ss_table) list" where
  "model_tables = [(MODEL_V, nosv_th_chan, nosv_ss_table), (MODEL_6, nanos6_th_chan, nanos6_ss_table), (MODEL_P, openmp_th_chan, openmp_fn_table),
     (MODEL_M, mpi_th_chan, mpi_fn_table), (MODEL_T, tampi_th_chan, tampi_ss_table), (MODEL_D, nodes_th_chan, nodes_ss_table)]"

lemma tables_typed: "(m, spec, tbl) \<in> set model_tables \<Longrightarrow> table_typed spec tbl"
  using nosv_typed nanos6_typed openmp_typed mpi_typed tampi_typed nodes_typed by (auto simp: model_tables_def)

text \<open>The channels of a thread have the types that \<^verbatim>\<open>model_thread_create\<close> gives them, and the values in a channel.\<close>

definition chans_typed :: "nat \<Rightarrow> model_chan_spec \<Rightarrow> nat \<Rightarrow> 'x bay_scheme \<Rightarrow> bool" where
  "chans_typed m spec t w \<longleftrightarrow> (\<forall>i < cs_nch spec.
     ch_type (bay_mem w (ModelChan t m i)) = (if cs_stack spec i then CHAN_STACK else CHAN_SINGLE))"

definition chan_vals :: "chan \<Rightarrow> chval set" where
  "chan_vals ch = (if ch_type ch = CHAN_STACK then set (ch_stack ch) else {ch_value ch})"

definition chan_labels :: "model_chan_spec \<Rightarrow> nat \<Rightarrow> chval set" where
  "chan_labels spec i = (\<lambda>(v, _). VALUE_INT64 v) ` set (ps_label (cs_pvt spec) i)"

lemma put_chan_mem: "put_chan c (ch, s) = Inr w' \<Longrightarrow> bay_mem w' = (bay_mem s)(c := ch)"
  by (auto simp: put_chan_def)

lemma chan_at_vals:
  "chan_set_at c v w = Inr w' \<Longrightarrow> chan_vals (bay_mem w' d) \<subseteq> chan_vals (bay_mem w d) \<union> (if d = c then {v} else {})"
  "chan_push_at c v w = Inr w' \<Longrightarrow> chan_vals (bay_mem w' d) \<subseteq> chan_vals (bay_mem w d) \<union> (if d = c then {v} else {})"
  "chan_pop_at c v w = Inr w' \<Longrightarrow> chan_vals (bay_mem w' d) \<subseteq> chan_vals (bay_mem w d) \<union> (if d = c then {v} else {})"
  by (auto simp: chan_set_at_def chan_push_at_def chan_pop_at_def put_chan_def chan_vals_def same_chan_def
      dest!: chan_set_ok chan_push_ok chan_pop_ok cb_chan_is_dirty_ok split: if_splits)

lemma chan_at_type:
  "ch_type (bay_mem w c) = CHAN_SINGLE \<Longrightarrow> chan_set_at c v w \<noteq> Inl (EChan ChanNotSingle)"
  "ch_type (bay_mem w c) = CHAN_STACK \<Longrightarrow> chan_push_at c v w \<noteq> Inl (EChan ChanNotStack)"
  "ch_type (bay_mem w c) = CHAN_STACK \<Longrightarrow> chan_pop_at c v w \<noteq> Inl (EChan ChanNotStack)"
  "chan_set_at c v w \<noteq> Inl (EChan ChanNotStack)" "chan_push_at c v w \<noteq> Inl (EChan ChanNotSingle)" "chan_pop_at c v w \<noteq> Inl (EChan ChanNotSingle)"
  by (auto simp: chan_set_at_def chan_push_at_def chan_pop_at_def chan_op_defs put_chan_def cb_chan_is_dirty_def rbind_def
      split: if_splits list.splits sum.splits)

text \<open>C18. The tables of events are well typed. An event from the table of nOS-V, Nanos6, OpenMP, MPI, TAMPI or NODES, on the channels as the
  model creates them, never fails because a channel is not a stack or not a single value; and the values it leaves in a
  channel were there before or have a label in the trace.\<close>

theorem tables_well_typed:
  assumes "(m, spec, tbl) \<in> set model_tables" and "chans_typed m spec (em_thread w) w"
  shows "simple_event m tbl w \<noteq> Inl (EChan ChanNotSingle) \<and> simple_event m tbl w \<noteq> Inl (EChan ChanNotStack)
    \<and> (\<forall>w' i. simple_event m tbl w = Inr w' \<longrightarrow> i < cs_nch spec \<longrightarrow>
         chan_vals (bay_mem w' (ModelChan (em_thread w) m i)) \<subseteq> chan_vals (bay_mem w (ModelChan (em_thread w) m i)) \<union> chan_labels spec i)"
proof (cases "ss_lookup tbl (ev_c (em_ev w)) (ev_v (em_ev w))")
  case None
  then show ?thesis by (simp add: simple_event_def)
next
  case (Some e)
  obtain ch act st where e: "e = (ch, act, st)" by (cases e)
  let ?c = "ModelChan (em_thread w) m ch" and ?v = "VALUE_INT64 st"
  have "entry_typed spec e"
    using tables_typed [OF assms(1)] Some
    by (force simp: table_typed_def ss_lookup_def list_all_iff find_Some_iff dest: nth_mem)
  then consider (ign) "act = ACT_IGN" | (act) "ch < cs_nch spec" "cs_stack spec ch = (act \<noteq> ACT_SET)" "?v \<in> chan_labels spec ch" "act \<noteq> ACT_IGN"
    by (force simp: entry_typed_def e chan_labels_def)
  then show ?thesis
  proof cases
    case ign
    then show ?thesis by (simp add: simple_event_def Some e)
  next
    case act
    have ty: "ch_type (bay_mem w ?c) = (if act = ACT_SET then CHAN_SINGLE else CHAN_STACK)"
      using assms(2) act by (simp add: chans_typed_def)
    have "chan_vals (bay_mem w' (ModelChan (em_thread w) m i)) \<subseteq> chan_vals (bay_mem w (ModelChan (em_thread w) m i)) \<union> chan_labels spec i"
      if "chan_set_at ?c ?v w = Inr w' \<or> chan_push_at ?c ?v w = Inr w' \<or> chan_pop_at ?c ?v w = Inr w'" for w' i
      using that chan_at_vals [of ?c ?v w w' "ModelChan (em_thread w) m i"] act(3) by (cases "i = ch") auto
    then show ?thesis
      using ty act(4) by (cases act) (simp_all add: simple_event_def Some e Let_def chan_at_type)
  qed
qed

subsection \<open>The types of all models in one trace\<close>

definition label_ok :: "int \<times> string \<Rightarrow> bool" where
  "label_ok l \<longleftrightarrow> length (snd l) < MAX_PCF_LABEL"

definition type_ok :: "model_chan_spec \<Rightarrow> nat \<Rightarrow> bool" where
  "type_ok spec i \<longleftrightarrow> ps_type (cs_pvt spec) i \<noteq> -1 \<and> length (ps_prefix (cs_pvt spec) i) < 400
     \<and> distinct (map fst (ps_label (cs_pvt spec) i)) \<and> list_all label_ok (ps_label (cs_pvt spec) i)"

definition spec_types :: "model_chan_spec \<Rightarrow> int list" where
  "spec_types spec = map (ps_type (cs_pvt spec)) [0..<cs_nch spec]"

lemma create_values_ok:
  assumes "distinct (map fst vs)" "list_all label_ok vs" "set (map fst vs) \<inter> set (map fst (pt_values t)) = {}"
  shows "\<exists>t'. create_values vs t = Inr t' \<and> pt_id t' = pt_id t"
  using assms
proof (induction vs arbitrary: t)
  case (Cons x vs)
  obtain v l where x: "x = (v, l)" by (cases x)
  have "map_of (pt_values t) v = None" using Cons.prems(3) x by (simp add: map_of_eq_None_iff)
  with Cons.prems(2) x obtain t1 where t1: "pcf_add_value v l t = Inr t1" "pt_values t1 = pt_values t @ [(v, l)]" "pt_id t1 = pt_id t"
    by (simp add: pcf_add_value_def pcf_find_value_def label_ok_def)
  then have "\<exists>t'. create_values vs t1 = Inr t' \<and> pt_id t' = pt_id t1"
    using Cons.prems x by (intro Cons.IH) auto
  with t1 x show ?case by (auto simp: create_values_def)
qed (simp add: create_values_def)

lemma create_type_ok:
  assumes "type_ok spec i" "ps_type (cs_pvt spec) i \<notin> set (map pt_id pcf)"
  shows "\<exists>pcf'. create_type (cs_pvt spec) i mode pcf = Inr pcf' \<and> map pt_id pcf' = map pt_id pcf @ [ps_type (cs_pvt spec) i]"
proof -
  let ?l = "ps_prefix (cs_pvt spec) i @ '' '' @ pcf_suffix mode" and ?ty = "ps_type (cs_pvt spec) i"
  have len: "length ?l < MAX_PCF_LABEL" using assms(1) by (cases mode) (simp_all add: type_ok_def MAX_PCF_LABEL_def)
  have "pcf_find_type ?ty pcf = None" using assms(2) by (force simp: pcf_find_type_def find_None_iff)
  with len have add: "pcf_add_type ?ty ?l pcf = Inr (pcf @ [\<lparr>pt_id = ?ty, pt_label = ?l, pt_values = []\<rparr>])"
    by (simp add: pcf_add_type_def)
  obtain t' where "create_values (ps_label (cs_pvt spec) i) \<lparr>pt_id = ?ty, pt_label = ?l, pt_values = []\<rparr> = Inr t'" "pt_id t' = ?ty"
    using create_values_ok [of "ps_label (cs_pvt spec) i" "\<lparr>pt_id = ?ty, pt_label = ?l, pt_values = []\<rparr>"] assms(1) by (auto simp: type_ok_def)
  with add len assms(1) show ?thesis by (simp add: create_type_def Let_def type_ok_def)
qed

lemma init_pcf_ok:
  assumes "\<And>i. i < cs_nch spec \<Longrightarrow> type_ok spec i" "distinct (spec_types spec)" "set (spec_types spec) \<inter> set (map pt_id pcf) = {}"
  shows "\<exists>pcf'. init_pcf spec pcf = Inr pcf' \<and> map pt_id pcf' = map pt_id pcf @ spec_types spec"
proof -
  have "\<exists>pcf'. foldr_res (\<lambda>i. create_type (cs_pvt spec) i (cs_track spec i)) is pcf = Inr pcf'
      \<and> map pt_id pcf' = map pt_id pcf @ map (ps_type (cs_pvt spec)) is"
    if "\<And>i. i \<in> set is \<Longrightarrow> type_ok spec i" "distinct (map (ps_type (cs_pvt spec)) is)"
      "set (map (ps_type (cs_pvt spec)) is) \<inter> set (map pt_id pcf) = {}" for "is" pcf
    using that
  proof (induction "is" arbitrary: pcf)
    case (Cons i js)
    obtain q where q: "create_type (cs_pvt spec) i (cs_track spec i) pcf = Inr q" "map pt_id q = map pt_id pcf @ [ps_type (cs_pvt spec) i]"
      using create_type_ok [of spec i pcf "cs_track spec i"] Cons.prems by auto
    have "set (map pt_id q) = insert (ps_type (cs_pvt spec) i) (set (map pt_id pcf))" unfolding q(2) by simp
    then have "\<exists>pcf'. foldr_res (\<lambda>i. create_type (cs_pvt spec) i (cs_track spec i)) js q = Inr pcf'
        \<and> map pt_id pcf' = map pt_id q @ map (ps_type (cs_pvt spec)) js"
      using Cons.prems by (intro Cons.IH) auto
    with q show ?case by auto
  qed simp
  from this [of "[0..<cs_nch spec]" pcf] assms show ?thesis by (simp add: init_pcf_def spec_types_def)
qed

definition th_specs :: "model_chan_spec list" where
  "th_specs = [ovni_th_chan, nosv_th_chan, nanos6_th_chan, openmp_th_chan, mpi_th_chan, tampi_th_chan, nodes_th_chan, kernel_th_chan, xtasks_th_chan]"

definition cpu_specs :: "model_chan_spec list" where
  "cpu_specs = [ovni_cpu_chan, nosv_cpu_chan, nanos6_cpu_chan, openmp_cpu_chan, mpi_cpu_chan, tampi_cpu_chan, nodes_cpu_chan, kernel_cpu_chan]"

lemma specs_types_ok: "list_all (\<lambda>s. list_all (type_ok s) [0..<cs_nch s]) (th_specs @ cpu_specs)" by code_simp

lemma specs_types_distinct: "distinct (concat (map spec_types th_specs)) \<and> distinct (concat (map spec_types cpu_specs))" by code_simp

lemma th_types_free: "list_all (\<lambda>t. t \<noteq> 6 \<and> t \<noteq> 2 \<and> t \<noteq> 4 \<and> t < 100) (concat (map spec_types th_specs))" by code_simp

lemma cpu_types_free: "list_all (\<lambda>t. t < 100) (concat (map spec_types cpu_specs))" by code_simp

lemmas spec_nch_defs = ovni_th_chan_def nosv_th_chan_def nanos6_th_chan_def openmp_th_chan_def mpi_th_chan_def tampi_th_chan_def nodes_th_chan_def
  kernel_th_chan_def xtasks_th_chan_def ovni_cpu_chan_def nosv_cpu_chan_def nanos6_cpu_chan_def openmp_cpu_chan_def mpi_cpu_chan_def
  tampi_cpu_chan_def nodes_cpu_chan_def kernel_cpu_chan_def NOSV_CH_MAX_def NANOS6_CH_MAX_def OMP_CH_MAX_def

lemma specs_init_pcf:
  assumes "distinct ss" "set ss \<subseteq> set all" "list_all (\<lambda>s. list_all (type_ok s) [0..<cs_nch s]) all" "distinct (concat (map spec_types all))"
    "set (concat (map spec_types all)) \<inter> set (map pt_id pcf) = {}" "\<And>s. s \<in> set all \<Longrightarrow> spec_types s \<noteq> []"
  shows "\<exists>pcf'. foldr_res init_pcf ss pcf = Inr pcf' \<and> map pt_id pcf' = map pt_id pcf @ concat (map spec_types ss)"
proof -
  have d: "distinct (spec_types s)" "s \<noteq> s' \<Longrightarrow> s' \<in> set all \<Longrightarrow> set (spec_types s) \<inter> set (spec_types s') = {}" if "s \<in> set all" for s s'
  proof -
    have "[] \<notin> set (map spec_types all)" using assms(6) by force
    then have "distinct (map spec_types all)" using assms(4) removeAll_id [of "[]" "map spec_types all"] by (simp add: distinct_concat_iff)
    then have inj: "inj_on spec_types (set all)" by (simp add: distinct_map)
    have dd: "\<forall>ys. ys \<in> spec_types ` set all \<longrightarrow> distinct ys"
      "\<forall>ys zs. ys \<in> spec_types ` set all \<and> zs \<in> spec_types ` set all \<and> ys \<noteq> zs \<longrightarrow> set ys \<inter> set zs = {}"
      using assms(4) by (simp_all add: distinct_concat_iff)
    show "distinct (spec_types s)" using dd(1) that by blast
    show "s \<noteq> s' \<Longrightarrow> s' \<in> set all \<Longrightarrow> set (spec_types s) \<inter> set (spec_types s') = {}"
      using dd(2) inj that by (metis imageI inj_on_eq_iff)
  qed
  have "\<exists>pcf'. foldr_res init_pcf ss q = Inr pcf' \<and> map pt_id pcf' = map pt_id q @ concat (map spec_types ss)"
    if "distinct ss" "set ss \<subseteq> set all" "set (concat (map spec_types ss)) \<inter> set (map pt_id q) = {}" for ss q
    using that
  proof (induction ss arbitrary: q)
    case (Cons s ss)
    obtain q1 where q1: "init_pcf s q = Inr q1" "map pt_id q1 = map pt_id q @ spec_types s"
      using init_pcf_ok [of s q] Cons.prems assms(3) d(1) [of s] by (auto simp: list_all_iff)
    have "set (map pt_id q1) = set (map pt_id q) \<union> set (spec_types s)" unfolding q1(2) by simp
    moreover have "set (spec_types s) \<inter> set (concat (map spec_types ss)) = {}" using d(2) [of s] Cons.prems(1,2) by fastforce
    ultimately have "set (concat (map spec_types ss)) \<inter> set (map pt_id q1) = {}" using Cons.prems(3) by auto
    then obtain q2 where "foldr_res init_pcf ss q1 = Inr q2" "map pt_id q2 = map pt_id q1 @ concat (map spec_types ss)"
      using Cons.IH [of q1] Cons.prems by auto
    with q1 show ?case by auto
  qed simp
  moreover have "set (concat (map spec_types ss)) \<subseteq> set (concat (map spec_types all))" using assms(2) by auto
  ultimately show ?thesis using assms(1,2,5) by blast
qed

definition demo_tampi :: temu where
  "demo_tampi = demo_kernel\<lparr>em_ev := demo_event ''TCi'' [], bay_mem := (\<lambda>c. demo_chan CHAN_STACK)\<rparr>"

text \<open>C19. Any set of models can share the traces: whichever models are enabled, adding their Paraver types and labels to the types of
  the threads of the thread trace, or to an empty CPU trace, succeeds, and the types stay below the ones reserved for marks.\<close>

theorem models_share_traces:
  assumes "distinct ss" and "set ss \<subseteq> set th_specs" and "distinct cs" and "set cs \<subseteq> set cpu_specs"
  shows "\<exists>pcf pcf' q. thread_create_pcf_types [] = Inr pcf \<and> foldr_res init_pcf ss pcf = Inr pcf' \<and> foldr_res init_pcf cs [] = Inr q
    \<and> (\<forall>t \<in> set pcf' \<union> set q. pt_id t < 100)"
proof -
  have "res_get (map pt_id) (thread_create_pcf_types []) = Some [6, 2, 4]" by code_simp
  then obtain pcf where pcf: "thread_create_pcf_types [] = Inr pcf" "map pt_id pcf = [6, 2, 4]" by (auto simp: res_get_Some)
  have free: "\<forall>t \<in> set (concat (map spec_types th_specs)). t \<noteq> 6 \<and> t \<noteq> 2 \<and> t \<noteq> 4 \<and> t < 100"
    "\<forall>t \<in> set (concat (map spec_types cpu_specs)). t < 100"
    using th_types_free cpu_types_free by (simp_all only: list_all_iff)
  have ne: "spec_types s \<noteq> []" if "s \<in> set th_specs \<union> set cpu_specs" for s
    using that by (auto simp: th_specs_def cpu_specs_def spec_types_def spec_nch_defs)
  have ok: "list_all (\<lambda>s. list_all (type_ok s) [0..<cs_nch s]) th_specs" "list_all (\<lambda>s. list_all (type_ok s) [0..<cs_nch s]) cpu_specs"
    using specs_types_ok by simp_all
  have "set (concat (map spec_types th_specs)) \<inter> set (map pt_id pcf) = {}" unfolding pcf(2) using free(1) by auto
  from specs_init_pcf [OF assms(1,2) ok(1) conjunct1 [OF specs_types_distinct] this] ne
  obtain pcf' where p: "foldr_res init_pcf ss pcf = Inr pcf'" "map pt_id pcf' = [6, 2, 4] @ concat (map spec_types ss)"
    unfolding pcf(2) by blast
  from specs_init_pcf [OF assms(3,4) ok(2) conjunct2 [OF specs_types_distinct], of "[]"] ne
  obtain q where q: "foldr_res init_pcf cs [] = Inr q" "map pt_id q = concat (map spec_types cs)" by auto
  have "set (map pt_id pcf') \<union> set (map pt_id q) \<subseteq> {..<100}"
    using free assms(2,4) unfolding p(2) q(2) by auto
  then show ?thesis using pcf(1) p(1) q(1) by (auto simp: image_subset_iff)
qed

theorem tables_well_typed_witness:
  "\<exists>w'. chans_typed MODEL_T tampi_th_chan 1 demo_tampi \<and> simple_event MODEL_T tampi_ss_table demo_tampi = Inr w'
     \<and> chan_vals (bay_mem w' (ModelChan 1 MODEL_T 0)) \<subseteq> chan_vals (bay_mem demo_tampi (ModelChan 1 MODEL_T 0)) \<union> chan_labels tampi_th_chan 0"
proof -
  have "res_get (\<lambda>_. ()) (simple_event MODEL_T tampi_ss_table demo_tampi) = Some ()" by code_simp
  then obtain w' where w': "simple_event MODEL_T tampi_ss_table demo_tampi = Inr w'" by (auto simp: res_get_Some)
  have "em_thread demo_tampi = 1" by code_simp
  moreover have "chans_typed MODEL_T tampi_th_chan 1 demo_tampi" "cs_nch tampi_th_chan = 1"
    by (auto simp: chans_typed_def demo_tampi_def tampi_th_chan_def tampi_chan_stack_def tab_def demo_chan_def)
  ultimately have t: "chans_typed MODEL_T tampi_th_chan 1 demo_tampi" "em_thread demo_tampi = 1" "cs_nch tampi_th_chan = 1" by simp_all
  have "(MODEL_T, tampi_th_chan, tampi_ss_table) \<in> set model_tables" by (simp add: model_tables_def)
  from tables_well_typed [OF this, of demo_tampi] t w' show ?thesis by auto
qed

theorem models_share_traces_witness:
  "\<exists>pcf pcf' q. thread_create_pcf_types [] = Inr pcf \<and> foldr_res init_pcf [ovni_th_chan, kernel_th_chan] pcf = Inr pcf' \<and> foldr_res init_pcf [] [] = Inr q
    \<and> (\<forall>t \<in> set pcf' \<union> set q. pt_id t < 100)"
  by (rule models_share_traces) (simp_all add: th_specs_def cpu_specs_def ovni_th_chan_def kernel_th_chan_def)

end
