(* ===== verification/Heap.thy ===== *)
theory Heap
  imports Prelude "HOL-Library.Tree"
begin

text \<open>
  The binary heap with intrusive nodes: \<^verbatim>\<open>src/include/heap.h\<close>.

  A node is named by its address and \<open>hp_mem\<close> is the memory that holds the pointers of the nodes to their parent and
  children. The comparison function takes addresses, since it reads the structures the nodes are in. Following
  a null pointer and every \<^verbatim>\<open>die\<close> are errors; the recursion of \<^verbatim>\<open>heap_max_heapify\<close> and the loops are bounded by
  the number of nodes.

  The lemmas show that the memory always holds a complete binary tree with the order of a heap: an
  insertion adds the node and extracting the maximum removes a node no other is greater than, and neither reaches
  an error or its bound.
\<close>

subsection \<open>Data and operations\<close>

text \<open>The pointers of all the nodes, one map for each field.\<close>

record hmem =
  hm_parent :: "nat \<Rightarrow> nat option"
  hm_left :: "nat \<Rightarrow> nat option"
  hm_right :: "nat \<Rightarrow> nat option"

record heap =
  hp_root :: "nat option"
  hp_size :: nat
  hp_mem :: hmem

definition set_parent :: "nat \<Rightarrow> nat option \<Rightarrow> hmem \<Rightarrow> hmem" where
  "set_parent a v m = m\<lparr>hm_parent := (hm_parent m)(a := v)\<rparr>"

definition set_left :: "nat \<Rightarrow> nat option \<Rightarrow> hmem \<Rightarrow> hmem" where
  "set_left a v m = m\<lparr>hm_left := (hm_left m)(a := v)\<rparr>"

definition set_right :: "nat \<Rightarrow> nat option \<Rightarrow> hmem \<Rightarrow> hmem" where
  "set_right a v m = m\<lparr>hm_right := (hm_right m)(a := v)\<rparr>"

text \<open>\<^verbatim>\<open>if (c) c->parent = a\<close>\<close>

definition adopt :: "nat option \<Rightarrow> nat \<Rightarrow> hmem \<Rightarrow> hmem" where
  "adopt c a m = (case c of None \<Rightarrow> m | Some b \<Rightarrow> set_parent b (Some a) m)"

text \<open>The child \<open>a\<close> of its parent, if any, becomes \<open>b\<close>.\<close>

definition relink :: "nat option \<Rightarrow> nat \<Rightarrow> nat \<Rightarrow> hmem \<Rightarrow> hmem" where
  "relink g a b m = (case g of None \<Rightarrow> m
     | Some g \<Rightarrow> if hm_left m g = Some a then set_left g (Some b) m else set_right g (Some b) m)"

definition heap_init :: "hmem \<Rightarrow> heap" where
  "heap_init m = \<lparr>hp_root = None, hp_size = 0, hp_mem = m\<rparr>"

text \<open>The exchange of \<open>a\<close> with its child \<open>largest\<close>.\<close>

definition heapify_exchange :: "nat \<Rightarrow> nat \<Rightarrow> hmem \<Rightarrow> hmem" where
  "heapify_exchange a largest m0 =
     (let m = set_parent largest (hm_parent m0 a) m0;
          m = relink (hm_parent m a) a largest m;
          m = set_parent a (Some largest) m in
      if hm_left m a = Some largest then
        let m = set_left a (hm_left m largest) m;
            m = adopt (hm_left m a) a m;
            m = set_left largest (Some a) m;
            aux = hm_right m a;
            m = set_right a (hm_right m largest) m;
            m = set_right largest aux m;
            m = adopt (hm_right m a) a m
        in adopt (hm_right m largest) largest m
      else
        let m = set_right a (hm_right m largest) m;
            m = adopt (hm_right m a) a m;
            m = set_right largest (Some a) m;
            aux = hm_left m a;
            m = set_left a (hm_left m largest) m;
            m = set_left largest aux m;
            m = adopt (hm_left m a) a m
        in adopt (hm_left m largest) largest m)"

definition heapify_largest :: "(nat \<Rightarrow> nat \<Rightarrow> int) \<Rightarrow> nat \<Rightarrow> hmem \<Rightarrow> nat" where
  "heapify_largest cmp a m =
     (let l1 = (case hm_left m a of None \<Rightarrow> a | Some l \<Rightarrow> if cmp l a > 0 then l else a)
      in case hm_right m a of None \<Rightarrow> l1 | Some r \<Rightarrow> if cmp r l1 > 0 then r else l1)"

text \<open>The recursive calls pass no head, so the root changes at most in the first.\<close>

fun heapify_rec :: "nat \<Rightarrow> (nat \<Rightarrow> nat \<Rightarrow> int) \<Rightarrow> nat \<Rightarrow> hmem \<Rightarrow> hmem res" where
  "heapify_rec 0 cmp a m = Inl EFuel"
| "heapify_rec (Suc n) cmp a m =
     (let largest = heapify_largest cmp a m in
      if largest = a then Inr m else heapify_rec n cmp a (heapify_exchange a largest m))"

definition heap_max_heapify :: "(nat \<Rightarrow> nat \<Rightarrow> int) \<Rightarrow> nat \<Rightarrow> heap \<Rightarrow> heap res" where
  "heap_max_heapify cmp a h =
     (let largest = heapify_largest cmp a (hp_mem h) in
      if largest = a then Inr h
      else rbind (heapify_rec (hp_size h) cmp a (heapify_exchange a largest (hp_mem h))) (\<lambda>m.
        Inr (h\<lparr>hp_root := Some largest, hp_mem := m\<rparr>)))"

text \<open>The position of the highest bit; a size has 64 bits.\<close>

fun high_bit :: "nat \<Rightarrow> nat" where
  "high_bit n = (if n < 2 then 0 else Suc (high_bit (n div 2)))"

declare high_bit.simps [simp del]

definition leading_zeros :: "nat \<Rightarrow> nat" where
  "leading_zeros x = 63 - high_bit x"

definition heap_get_move :: "nat \<Rightarrow> bool \<times> nat" where
  "heap_get_move node =
     (let shift = 64 - leading_zeros node - 1; base = 2 ^ shift; aux = node - base div 2 in
      if aux < base then (False, aux) else (True, aux - base div 2))"

text \<open>The loop of \<^verbatim>\<open>heap_get\<close> divides the number of the node by two in every turn.\<close>

fun heap_walk :: "nat \<Rightarrow> hmem \<Rightarrow> nat option \<Rightarrow> nat \<Rightarrow> nat option res" where
  "heap_walk 0 m current node = Inl EFuel"
| "heap_walk (Suc n) m current node =
     (if node = 1 then Inr current
      else case current of
        None \<Rightarrow> Inl (EPlayer HeapGetFailed)
      | Some c \<Rightarrow> let (right, node') = heap_get_move node in
          heap_walk n m (if right then hm_right m c else hm_left m c) node')"

definition heap_get :: "nat \<Rightarrow> heap \<Rightarrow> nat option res" where
  "heap_get node h = heap_walk node (hp_mem h) (hp_root h) node"

text \<open>The last node \<open>c\<close>, with parent \<open>p\<close>, takes the links of the root \<open>mx\<close>; it is a right child when the size is odd.\<close>

definition pop_mem :: "bool \<Rightarrow> nat \<Rightarrow> nat \<Rightarrow> nat \<Rightarrow> hmem \<Rightarrow> hmem res" where
  "pop_mem odd_size mx p c m =
     (if p = mx then
        Inr (if odd_size then let m = set_left c (hm_left m mx) m in adopt (hm_left m c) c m
             else let m = set_right c (hm_right m mx) m in adopt (hm_right m c) c m)
      else
        let m = (if odd_size then set_right p None m else set_left p None m) in
        if hm_left m c \<noteq> None \<or> hm_right m c \<noteq> None then Inl (EPlayer HeapChildSet)
        else let m = set_left c (hm_left m mx) m;
                 m = adopt (hm_left m c) c m;
                 m = set_right c (hm_right m mx) m
             in Inr (adopt (hm_right m c) c m))"

definition heap_pop_max :: "(nat \<Rightarrow> nat \<Rightarrow> int) \<Rightarrow> heap \<Rightarrow> (nat option \<times> heap) res" where
  "heap_pop_max cmp h =
     (case hp_root h of
        None \<Rightarrow> Inr (None, h)
      | Some mx \<Rightarrow>
          let size = hp_size h in
          rbind (heap_get size h) (\<lambda>change.
          case change of
            None \<Rightarrow> Inl (EPlayer HeapGetFailed)
          | Some c \<Rightarrow>
              let m = hp_mem h; h1 = h\<lparr>hp_size := size - 1\<rparr> in
              case hm_parent m c of
                None \<Rightarrow> Inr (Some mx, h1\<lparr>hp_root := None\<rparr>)
              | Some p \<Rightarrow>
                  rbind (pop_mem (odd size) mx p c m)
                    (\<lambda>m. rbind (heap_max_heapify cmp c
                              (h1\<lparr>hp_mem := set_parent c None m, hp_root := Some c\<rparr>)) (\<lambda>h2.
                            Inr (Some mx, h2)))))"

text \<open>The exchange of \<open>node\<close> with its parent when a node is inserted.\<close>

definition bubble_exchange :: "nat \<Rightarrow> nat \<Rightarrow> hmem \<Rightarrow> hmem" where
  "bubble_exchange parent node m0 =
     (let m = set_parent node (hm_parent m0 parent) m0;
          m = set_parent parent (Some node) m;
          m = relink (hm_parent m node) parent node m in
      if hm_left m parent = Some node then
        let m = set_left parent (hm_left m node) m;
            m = adopt (hm_left m parent) parent m;
            m = set_left node (Some parent) m;
            aux = hm_right m node;
            m = set_right node (hm_right m parent) m;
            m = set_right parent aux m;
            m = adopt (hm_right m node) node m
        in adopt (hm_right m parent) parent m
      else
        let m = set_right parent (hm_right m node) m;
            m = adopt (hm_right m parent) parent m;
            m = set_right node (Some parent) m;
            aux = hm_left m node;
            m = set_left node (hm_left m parent) m;
            m = set_left parent aux m;
            m = adopt (hm_left m node) node m
        in adopt (hm_left m parent) parent m)"

text \<open>The loop ends at the root, when \<open>parent\<close> is null, or below a greater parent.\<close>

fun bubble_up :: "nat \<Rightarrow> (nat \<Rightarrow> nat \<Rightarrow> int) \<Rightarrow> nat \<Rightarrow> nat option \<Rightarrow> hmem \<Rightarrow> (nat option \<times> hmem) res" where
  "bubble_up 0 cmp node parent m = Inl EFuel"
| "bubble_up (Suc n) cmp node parent m =
     (case parent of
        None \<Rightarrow> Inr (None, m)
      | Some p \<Rightarrow>
          if cmp node p > 0
          then let m' = bubble_exchange p node m in bubble_up n cmp node (hm_parent m' node) m'
          else Inr (Some p, m))"

definition heap_insert :: "(nat \<Rightarrow> nat \<Rightarrow> int) \<Rightarrow> nat \<Rightarrow> heap \<Rightarrow> heap res" where
  "heap_insert cmp node h =
     (let m = set_parent node None (set_right node None (set_left node None (hp_mem h)));
          size = Suc (hp_size h); h1 = h\<lparr>hp_size := size, hp_mem := m\<rparr> in
      case hp_root h of
        None \<Rightarrow> Inr (h1\<lparr>hp_root := Some node\<rparr>)
      | Some _ \<Rightarrow>
          rbind (heap_get (size div 2) h1) (\<lambda>parent.
          case parent of
            None \<Rightarrow> Inl (EPlayer HeapGetFailed)
          | Some p \<Rightarrow>
              rbind (if odd size
                     then if hm_right m p \<noteq> None then Inl (EPlayer HeapSlotTaken) else Inr (set_right p (Some node) m)
                     else if hm_left m p \<noteq> None then Inl (EPlayer HeapSlotTaken) else Inr (set_left p (Some node) m))
                (\<lambda>m. rbind (bubble_up size cmp node (Some p) (set_parent node (Some p) m)) (\<lambda>(parent, m).
                   Inr (h1\<lparr>hp_mem := m, hp_root := (if parent = None then Some node else hp_root h1)\<rparr>)))))"

subsection \<open>Node numbers and paths\<close>

text \<open>The way from the root to the node of a number: the bits after the first, from the highest.\<close>

fun path :: "nat \<Rightarrow> bool list" where
  "path n = (if n < 2 then [] else path (n div 2) @ [odd n])"

declare path.simps [simp del]

lemma path_1 [simp]: "path (Suc 0) = []" "path 1 = []"
  by (simp_all add: path.simps)

lemma path_double: "1 \<le> n \<Longrightarrow> path (2 * n) = path n @ [False]" "1 \<le> n \<Longrightarrow> path (Suc (2 * n)) = path n @ [True]"
  by (subst path.simps; simp)+

lemma path_half: "2 \<le> n \<Longrightarrow> path n = path (n div 2) @ [odd n]"
  by (subst path.simps) simp

lemma path_small: "n < 2 \<Longrightarrow> path n = []"
  by (subst path.simps) simp

lemma path_inj: "1 \<le> i \<Longrightarrow> 1 \<le> j \<Longrightarrow> path i = path j \<Longrightarrow> i = j"
proof (induction i arbitrary: j rule: path.induct)
  case (1 i)
  show ?case
  proof (cases "i < 2 \<or> j < 2")
    case True
    then show ?thesis using "1.prems" path_half [of i] path_half [of j] path_small [of i] path_small [of j]
      by (cases "i < 2"; cases "j < 2") auto
  next
    case False
    then have eq: "path (i div 2) = path (j div 2)" "odd i = odd j"
      using "1.prems"(3) path_half [of i] path_half [of j] by auto
    have "i div 2 = j div 2" using "1.IH" [OF _ _ _ eq(1)] False by auto
    with eq(2) show ?thesis by (metis odd_two_times_div_two_succ even_two_times_div_two)
  qed
qed

lemma path_surj: "\<exists>n \<ge> 1. path n = bs"
proof (induction bs rule: rev_induct)
  case (snoc b bs)
  then obtain n where "1 \<le> n" "path n = bs" by blast
  then have "path (if b then Suc (2 * n) else 2 * n) = bs @ [b]" "1 \<le> (if b then Suc (2 * n) else 2 * n)"
    using path_double [of n] by auto
  then show ?case by blast
qed (auto intro: exI [of _ 1])

lemma high_bit_1 [simp]: "high_bit (Suc 0) = 0"
  by (simp add: high_bit.simps)

lemma high_bit_bounds: "1 \<le> n \<Longrightarrow> 2 ^ high_bit n \<le> n \<and> n < 2 * 2 ^ high_bit n"
proof (induction n rule: high_bit.induct)
  case (1 n)
  show ?case
  proof (cases "n < 2")
    case True
    with 1 show ?thesis by (simp add: high_bit.simps)
  next
    case False
    with 1 have "2 ^ high_bit (n div 2) \<le> n div 2 \<and> n div 2 < 2 * 2 ^ high_bit (n div 2)" by simp
    with False show ?thesis by (simp add: high_bit.simps [of n]) linarith
  qed
qed

lemma high_bit_less: "1 \<le> n \<Longrightarrow> n < 2 ^ 64 \<Longrightarrow> high_bit n < 64"
  using high_bit_bounds [of n] power_less_imp_less_exp [of "2 :: nat" "high_bit n" 64] by linarith

text \<open>A move takes the first step of the path.\<close>

lemma heap_get_move_eq:
  assumes "2 \<le> n" and "n < 2 ^ 64"
  shows "heap_get_move n = (let b = 2 ^ high_bit n div 2 in if n < 3 * b then (False, n - b) else (True, n - 2 * b))"
proof -
  have "high_bit n < 64" using high_bit_less assms by simp
  then have "64 - leading_zeros n - 1 = high_bit n" by (simp add: leading_zeros_def)
  moreover obtain k where k: "high_bit n = Suc k" using assms(1) by (auto simp: high_bit.simps [of n])
  moreover have "2 ^ high_bit n \<le> n" using high_bit_bounds assms by simp
  ultimately show ?thesis by (auto simp: heap_get_move_def Let_def)
qed

lemma heap_get_move_path:
  assumes "2 \<le> n" and "n < 2 ^ 64"
  shows "\<exists>b k. heap_get_move n = (b, k) \<and> path n = b # path k \<and> 1 \<le> k \<and> k < n"
  using assms
proof (induction n rule: path.induct)
  case (1 n)
  let ?h = "n div 2"
  have hb: "high_bit n = Suc (high_bit ?h)" using "1.prems" by (simp add: high_bit.simps [of n])
  show ?case
  proof (cases "?h < 2")
    case True
    then have n: "n = 2 \<or> n = 3" using "1.prems" by auto
    then have "high_bit n = 1" using hb by auto
    then have m: "heap_get_move n = (if n < 3 then (False, n - 1) else (True, n - 2))"
      using heap_get_move_eq [OF "1.prems"] by simp
    from n show ?thesis
    proof
      assume "n = 2"
      with m path_double(1) [of 1] show ?thesis by auto
    next
      assume "n = 3"
      with m path_double(2) [of 1] show ?thesis by (auto simp: eval_nat_numeral)
    qed
  next
    case False
    then obtain b k where m: "heap_get_move ?h = (b, k)" "path ?h = b # path k" "1 \<le> k" "k < ?h"
      using "1.IH" "1.prems" by force
    define c :: nat where "c = 2 ^ high_bit ?h div 2"
    obtain j where "high_bit ?h = Suc j" using False by (auto simp: high_bit.simps [of "?h"])
    then have c: "2 ^ high_bit ?h = 2 * c" by (simp add: c_def)
    have mh: "(b, k) = (if ?h < 3 * c then (False, ?h - c) else (True, ?h - 2 * c))"
      using heap_get_move_eq [of ?h] m(1) False "1.prems" by (simp add: c_def Let_def)
    have mn: "heap_get_move n = (if n < 6 * c then (False, n - 2 * c) else (True, n - 4 * c))"
      using heap_get_move_eq [OF "1.prems"] by (simp add: hb c Let_def)
    let ?k = "2 * k + n mod 2"
    have le: "2 * c \<le> ?h" using high_bit_bounds [of ?h] False c by simp
    have n: "n = 2 * ?h + n mod 2" by simp
    have "n - 2 * c = 2 * (?h - c) + n mod 2" using n le by linarith
    moreover have "n - 4 * c = 2 * (?h - 2 * c) + n mod 2" using n le by linarith
    moreover have "n < 6 * c \<longleftrightarrow> ?h < 3 * c" by linarith
    ultimately have "heap_get_move n = (b, ?k)" using mn mh by (auto split: if_splits)
    moreover have "path ?k = path k @ [odd n]" using path_double [OF m(3)] by (cases "odd n") (auto simp: odd_iff_mod_2_eq_one)
    ultimately show ?thesis using m path_half [OF "1.prems"(1)] by (auto simp: algebra_simps)
  qed
qed

subsection \<open>The tree in the memory\<close>

fun tree_at :: "hmem \<Rightarrow> nat option \<Rightarrow> nat tree \<Rightarrow> nat option \<Rightarrow> bool" where
  "tree_at m par Leaf q \<longleftrightarrow> q = None"
| "tree_at m par (Node l a r) q \<longleftrightarrow> q = Some a \<and> hm_parent m a = par
     \<and> tree_at m (Some a) l (hm_left m a) \<and> tree_at m (Some a) r (hm_right m a)"

definition child :: "hmem \<Rightarrow> nat \<Rightarrow> nat \<Rightarrow> bool" where
  "child m a b \<longleftrightarrow> hm_left m a = Some b \<or> hm_right m a = Some b"

lemma tree_at_root: "tree_at m par t (Some b) \<Longrightarrow> b \<in> set_tree t \<and> hm_parent m b = par"
  by (cases t) auto

text \<open>How the nodes of a tree are linked.\<close>

definition linked :: "hmem \<Rightarrow> nat set \<Rightarrow> bool" where
  "linked m S \<longleftrightarrow>
     (\<forall>a \<in> S. \<forall>b. child m a b \<longrightarrow> b \<in> S \<and> hm_parent m b = Some a)
     \<and> (\<forall>a \<in> S. \<forall>b. hm_left m a = Some b \<longrightarrow> hm_right m a \<noteq> Some b)
     \<and> (\<forall>a \<in> S. \<forall>g. hm_parent m a = Some g \<longrightarrow> g \<in> S \<and> child m g a)
     \<and> (\<exists>rk. \<forall>a \<in> S. \<forall>b. child m a b \<longrightarrow> rk a < (rk b :: nat))"

lemma tree_at_child:
  assumes "tree_at m par t q" and "a \<in> set_tree t" and "child m a b"
  shows "b \<in> set_tree t \<and> hm_parent m b = Some a"
  using assms by (induction t arbitrary: par q) (auto simp: child_def dest: tree_at_root)

lemma tree_at_parent:
  assumes "tree_at m par t q" and "a \<in> set_tree t"
  shows "q = Some a \<and> hm_parent m a = par \<or> (\<exists>g \<in> set_tree t. hm_parent m a = Some g \<and> child m g a)"
  using assms
proof (induction t arbitrary: par q)
  case (Node l x r)
  from Node.prems(2) consider "a = x" | "a \<in> set_tree l" | "a \<in> set_tree r" by auto
  then show ?case
  proof cases
    case 1
    with Node.prems(1) show ?thesis by simp
  next
    case 2
    from Node.IH(1) [OF _ 2, of "Some x" "hm_left m x"] Node.prems(1) show ?thesis
      by (auto simp: child_def)
  next
    case 3
    from Node.IH(2) [OF _ 3, of "Some x" "hm_right m x"] Node.prems(1) show ?thesis
      by (auto simp: child_def)
  qed
qed simp

lemma tree_at_sides:
  assumes "tree_at m par t q" and "distinct (inorder t)" and "a \<in> set_tree t"
  shows "hm_left m a = Some b \<longrightarrow> hm_right m a \<noteq> Some b"
  using assms
proof (induction t arbitrary: par q)
  case (Node l x r)
  show ?case
  proof (cases "a = x")
    case True
    have "hm_left m x = Some b \<Longrightarrow> b \<in> set_tree l" "hm_right m x = Some b \<Longrightarrow> b \<in> set_tree r"
      using Node.prems(1) by (auto dest: tree_at_root)
    with True Node.prems(2) show ?thesis by auto
  next
    case False
    with Node show ?thesis by auto
  qed
qed simp

lemma tree_at_rank:
  assumes "tree_at m par t q" and "distinct (inorder t)"
  shows "\<exists>rk. \<forall>a \<in> set_tree t. \<forall>b. child m a b \<longrightarrow> rk a < (rk b :: nat)"
  using assms
proof (induction t arbitrary: par q)
  case (Node l x r)
  then obtain f g where f: "\<forall>a \<in> set_tree l. \<forall>b. child m a b \<longrightarrow> f a < (f b :: nat)"
    and g: "\<forall>a \<in> set_tree r. \<forall>b. child m a b \<longrightarrow> g a < (g b :: nat)" by fastforce
  have dist: "x \<notin> set_tree l" "x \<notin> set_tree r" "set_tree l \<inter> set_tree r = {}" using Node.prems(2) by auto
  have cl: "b \<in> set_tree l" if "a \<in> set_tree l" "child m a b" for a b using tree_at_child that Node.prems(1) by auto
  have cr: "b \<in> set_tree r" if "a \<in> set_tree r" "child m a b" for a b using tree_at_child that Node.prems(1) by auto
  have cx: "b \<in> set_tree l \<union> set_tree r" if "child m x b" for b
    using that Node.prems(1) by (auto simp: child_def dest: tree_at_root)
  let ?rk = "\<lambda>a. if a = x then 0 else if a \<in> set_tree l then Suc (f a) else Suc (g a)"
  have "?rk a < ?rk b" if a: "a \<in> set_tree (Node l x r)" and c: "child m a b" for a b
  proof -
    from a consider "a = x" | "a \<in> set_tree l" | "a \<in> set_tree r" by auto
    then show ?thesis
    proof cases
      case 1
      with cx c dist show ?thesis by auto
    next
      case 2
      with cl [OF 2 c] dist f c show ?thesis by auto
    next
      case 3
      with cr [OF 3 c] dist g c show ?thesis by auto
    qed
  qed
  then show ?case by (intro exI [of _ ?rk]) blast
qed simp

lemma tree_at_linked:
  assumes "tree_at m None t q" and "distinct (inorder t)"
  shows "linked m (set_tree t)"
  unfolding linked_def
proof (intro conjI ballI allI impI)
  fix a b assume a: "a \<in> set_tree t"
  show "b \<in> set_tree t" "hm_parent m b = Some a" if "child m a b"
    using tree_at_child [OF assms(1) a that] by auto
  show "hm_right m a \<noteq> Some b" if "hm_left m a = Some b" using tree_at_sides [OF assms a] that by auto
  show "b \<in> set_tree t" "child m b a" if "hm_parent m a = Some b" using tree_at_parent [OF assms(1) a] that by auto
qed (rule tree_at_rank [OF assms])

text \<open>Renaming the nodes of a tree.\<close>

definition renames :: "(nat \<Rightarrow> nat) \<Rightarrow> hmem \<Rightarrow> hmem \<Rightarrow> nat \<Rightarrow> bool" where
  "renames f m m' a \<longleftrightarrow> hm_parent m' (f a) = map_option f (hm_parent m a)
     \<and> hm_left m' (f a) = map_option f (hm_left m a) \<and> hm_right m' (f a) = map_option f (hm_right m a)"

lemma tree_at_rename:
  assumes "tree_at m par t q" and "\<And>a. a \<in> set_tree t \<Longrightarrow> renames f m m' a"
  shows "tree_at m' (map_option f par) (map_tree f t) (map_option f q)"
  using assms
proof (induction t arbitrary: par q)
  case (Node l x r)
  then show ?case using Node.IH(1) [of "Some x" "hm_left m x"] Node.IH(2) [of "Some x" "hm_right m x"]
    by (auto simp: renames_def)
qed simp

definition swp :: "nat \<Rightarrow> nat \<Rightarrow> nat \<Rightarrow> nat" where
  "swp a b x = (if x = a then b else if x = b then a else x)"

text \<open>What the writes do to each map.\<close>

definition upd :: "nat option \<Rightarrow> nat option \<Rightarrow> (nat \<Rightarrow> nat option) \<Rightarrow> nat \<Rightarrow> nat option" where
  "upd a v f = (case a of None \<Rightarrow> f | Some b \<Rightarrow> f(b := v))"

lemma upd_None [simp]: "upd None v f = f" and upd_apply: "upd a v f x = (if a = Some x then v else f x)"
  by (auto simp: upd_def split: option.splits)

lemma link_sel [simp]:
  "hm_parent (set_parent a v m) = upd (Some a) v (hm_parent m)" "hm_left (set_parent a v m) = hm_left m"
  "hm_right (set_parent a v m) = hm_right m" "hm_parent (set_left a v m) = hm_parent m"
  "hm_left (set_left a v m) = upd (Some a) v (hm_left m)" "hm_right (set_left a v m) = hm_right m"
  "hm_parent (set_right a v m) = hm_parent m" "hm_left (set_right a v m) = hm_left m"
  "hm_right (set_right a v m) = upd (Some a) v (hm_right m)" "hm_parent (adopt c a m) = upd c (Some a) (hm_parent m)"
  "hm_left (adopt c a m) = hm_left m" "hm_right (adopt c a m) = hm_right m"
  by (simp_all add: set_parent_def set_left_def set_right_def adopt_def upd_def split: option.splits)

definition left_of :: "nat option \<Rightarrow> nat \<Rightarrow> hmem \<Rightarrow> nat option" where
  "left_of g a m = (case g of None \<Rightarrow> None | Some x \<Rightarrow> if hm_left m x = Some a then g else None)"

definition right_of :: "nat option \<Rightarrow> nat \<Rightarrow> hmem \<Rightarrow> nat option" where
  "right_of g a m = (case g of None \<Rightarrow> None | Some x \<Rightarrow> if hm_left m x = Some a then None else g)"

lemma relink_sel [simp]:
  "hm_parent (relink g a b m) = hm_parent m"
  "hm_left (relink g a b m) = upd (left_of g a m) (Some b) (hm_left m)"
  "hm_right (relink g a b m) = upd (right_of g a m) (Some b) (hm_right m)"
  by (auto simp: relink_def left_of_def right_of_def split: option.splits)

lemma of_set_parent [simp]:
  "left_of g a (set_parent b v m) = left_of g a m" "right_of g a (set_parent b v m) = right_of g a m"
  by (simp_all add: left_of_def right_of_def split: option.splits)

text \<open>The nodes around a parent and its child that an exchange writes: the grandparent \<open>g\<close>, the other child \<open>oc\<close>
  and the grandchildren \<open>ln\<close> and \<open>rn\<close>.\<close>

definition apart :: "nat \<Rightarrow> nat \<Rightarrow> nat option list \<Rightarrow> bool" where
  "apart p n ps \<longleftrightarrow> n \<noteq> p \<and> (\<forall>q \<in> set ps. q \<noteq> Some p \<and> q \<noteq> Some n)"

lemma apart_of: "apart p n [g, oc, ln, rn] \<Longrightarrow> left_of g a m \<noteq> Some p \<and> left_of g a m \<noteq> Some n
    \<and> right_of g a m \<noteq> Some p \<and> right_of g a m \<noteq> Some n"
  by (auto simp: apart_def left_of_def right_of_def split: option.splits if_splits)

text \<open>Both exchanges write the same pointers.\<close>

definition exchange_ok :: "(hmem \<Rightarrow> hmem) \<Rightarrow> nat \<Rightarrow> nat \<Rightarrow> hmem \<Rightarrow> bool" where
  "exchange_ok ex p n m \<longleftrightarrow> (\<forall>x.
     (let left = (hm_left m p = Some n); oc = (if left then hm_right m p else hm_left m p); g = hm_parent m p in
      hm_left (ex m) x = (if x = n then (if left then Some p else oc) else if x = p then hm_left m n
        else upd (left_of g p m) (Some n) (hm_left m) x)
      \<and> hm_right (ex m) x = (if x = n then (if left then oc else Some p) else if x = p then hm_right m n
        else upd (right_of g p m) (Some n) (hm_right m) x)
      \<and> hm_parent (ex m) x = (if x = n then g else if x = p then Some n
        else upd oc (Some n) (upd (hm_right m n) (Some p) (upd (hm_left m n) (Some p) (hm_parent m))) x)))"

lemma exchange_left_ok:
  assumes "hm_left m p = Some n" "apart p n [hm_parent m p, hm_right m p, hm_left m n, hm_right m n]"
    and "hm_right m p = None \<or> hm_right m p \<noteq> hm_right m n"
  shows "exchange_ok (heapify_exchange p n) p n m" "exchange_ok (bubble_exchange p n) p n m"
  using assms(1,3) apart_of [OF assms(2), of p m] assms(2)
  by (auto simp: exchange_ok_def heapify_exchange_def bubble_exchange_def Let_def upd_apply apart_def)

lemma exchange_right_ok:
  assumes "hm_right m p = Some n" "hm_left m p \<noteq> Some n"
    "apart p n [hm_parent m p, hm_left m p, hm_left m n, hm_right m n]"
    and "hm_left m p = None \<or> hm_left m p \<noteq> hm_left m n \<and> hm_left m p \<noteq> hm_right m n"
    and "hm_left m n = None \<or> hm_left m n \<noteq> hm_right m n"
  shows "exchange_ok (heapify_exchange p n) p n m" "exchange_ok (bubble_exchange p n) p n m"
  using assms(1,2,4,5) apart_of [OF assms(3), of p m] assms(3)
  by (auto simp: exchange_ok_def heapify_exchange_def bubble_exchange_def Let_def upd_apply apart_def)

lemma linkedD:
  assumes "linked m S" and "a \<in> S"
  shows "child m a b \<Longrightarrow> b \<in> S" "child m a b \<Longrightarrow> hm_parent m b = Some a"
    "hm_left m a = Some b \<Longrightarrow> hm_right m a \<noteq> Some b"
    "hm_parent m a = Some g \<Longrightarrow> g \<in> S" "hm_parent m a = Some g \<Longrightarrow> child m g a"
  using assms unfolding linked_def by blast+

lemma linked_rank: "linked m S \<Longrightarrow> \<exists>rk. \<forall>a \<in> S. \<forall>b. child m a b \<longrightarrow> rk a < (rk b :: nat)"
  unfolding linked_def by blast

lemma linked_exchange_ok:
  assumes L: "linked m S" and p: "p \<in> S" and n: "child m p n"
  shows "exchange_ok (heapify_exchange p n) p n m \<and> exchange_ok (bubble_exchange p n) p n m"
proof -
  obtain rk where rk: "\<And>a b. a \<in> S \<Longrightarrow> child m a b \<Longrightarrow> rk a < (rk b :: nat)" using linked_rank [OF L] by blast
  have nS: "n \<in> S" and np: "hm_parent m n = Some p" using linkedD [OF L p] n by auto
  have pn: "rk p < rk n" using rk [OF p n] .
  have g: "rk g < rk p" if "hm_parent m p = Some g" for g using rk linkedD(4,5) [OF L p that] by blast
  have c: "rk n < rk x \<and> hm_parent m x = Some n" if "child m n x" for x using rk [OF nS that] linkedD(2) [OF L nS that] by simp
  have o: "rk p < rk x \<and> hm_parent m x = Some p" if "child m p x" for x using rk [OF p that] linkedD(2) [OF L p that] by simp
  have ne: "n \<noteq> p" "hm_parent m p \<noteq> Some p" "hm_parent m p \<noteq> Some n" using pn g by force+
  have nc: "hm_left m n \<noteq> Some p" "hm_right m n \<noteq> Some p" "hm_left m n \<noteq> Some n" "hm_right m n \<noteq> Some n"
    using c [of p] c [of n] pn by (auto simp: child_def)
  have no: "hm_left m p \<noteq> Some p" "hm_right m p \<noteq> Some p" using o [of p] by (auto simp: child_def)
  show ?thesis
  proof (cases "hm_left m p = Some n")
    case True
    have "hm_right m p \<noteq> Some n" using linkedD(3) [OF L p True] .
    with ne nc no have "apart p n [hm_parent m p, hm_right m p, hm_left m n, hm_right m n]"
      by (simp add: apart_def)
    moreover have "hm_right m p = None \<or> hm_right m p \<noteq> hm_right m n"
      using pn c o by (cases "hm_right m p") (fastforce simp: child_def)+
    ultimately show ?thesis using exchange_left_ok True by blast
  next
    case False
    then have r: "hm_right m p = Some n" using n by (simp add: child_def)
    have "apart p n [hm_parent m p, hm_left m p, hm_left m n, hm_right m n]"
      using ne nc no False by (simp add: apart_def)
    moreover have "hm_left m p = None \<or> hm_left m p \<noteq> hm_left m n \<and> hm_left m p \<noteq> hm_right m n"
      using pn c o by (cases "hm_left m p") (fastforce simp: child_def)+
    moreover have "hm_left m n = None \<or> hm_left m n \<noteq> hm_right m n"
      using linkedD(3) [OF L nS] by (cases "hm_left m n") auto
    ultimately show ?thesis using exchange_right_ok [OF r False] by blast
  qed
qed

lemma exchange_renames:
  assumes L: "linked m S" and p: "p \<in> S" and n: "child m p n" and a: "a \<in> S" and ex: "exchange_ok ex p n m"
  shows "renames (swp p n) m (ex m) a"
proof -
  obtain rk where rk: "\<And>a b. a \<in> S \<Longrightarrow> child m a b \<Longrightarrow> rk a < (rk b :: nat)" using linked_rank [OF L] by blast
  have nS: "n \<in> S" and np: "hm_parent m n = Some p" using linkedD [OF L p] n by auto
  have pn: "rk p < rk n" using rk [OF p n] .
  let ?oc = "if hm_left m p = Some n then hm_right m p else hm_left m p"
  have oc: "child m p x \<longleftrightarrow> x = n \<or> ?oc = Some x" for x using n by (auto simp: child_def)
  have oc_n: "?oc \<noteq> Some n" using n linkedD(3) [OF L p] by (auto simp: child_def)
  have par_p: "hm_parent m a = Some p \<longleftrightarrow> a = n \<or> ?oc = Some a"
    using oc linkedD(2) [OF L p] linkedD(5) [OF L a] by blast
  have par_n: "hm_parent m a = Some n \<longleftrightarrow> hm_left m n = Some a \<or> hm_right m n = Some a"
    using linkedD(2) [OF L nS] linkedD(5) [OF L a] by (auto simp: child_def)
  have ch_p: "child m a p \<longleftrightarrow> hm_parent m p = Some a" using linkedD(2) [OF L a] linkedD(5) [OF L p] by blast
  have ch_n: "child m a n \<longleftrightarrow> a = p" using linkedD(2) [OF L a] n np by auto
  have "left_of (hm_parent m p) p m = Some a \<longleftrightarrow> hm_parent m p = Some a \<and> hm_left m a = Some p"
    by (auto simp: left_of_def split: option.splits if_splits)
  then have lo: "left_of (hm_parent m p) p m = Some a \<longleftrightarrow> hm_left m a = Some p" using ch_p child_def by blast
  have "right_of (hm_parent m p) p m = Some a \<longleftrightarrow> hm_parent m p = Some a \<and> hm_left m a \<noteq> Some p"
    by (auto simp: right_of_def split: option.splits if_splits)
  then have ro: "right_of (hm_parent m p) p m = Some a \<longleftrightarrow> hm_right m a = Some p"
    using ch_p linkedD(3) [OF L a, of p] child_def by blast
  have swp_opt: "map_option (swp p n) q = (if q = Some p then Some n else if q = Some n then Some p else q)" for q
    by (cases q) (auto simp: swp_def)
  note E = ex [unfolded exchange_ok_def Let_def, rule_format]
  have ne: "n \<noteq> p" using pn by auto
  have pc: "\<not> child m p p" "\<not> child m n n" "\<not> child m n p" "hm_parent m p \<noteq> Some p" "hm_parent m p \<noteq> Some n"
    using rk [OF p] rk [OF nS] pn linkedD(4,5) [OF L p] rk by (fastforce dest: less_not_sym)+
  consider "a = p" | "a = n" | "a \<noteq> p" "a \<noteq> n" by blast
  then show ?thesis
  proof cases
    case 1
    then show ?thesis using E [of n] ne n pc oc_n by (auto simp: renames_def swp_opt swp_def child_def)
  next
    case 2
    then show ?thesis using E [of p] ne np pc by (auto simp: renames_def swp_opt swp_def child_def)
  next
    case 3
    then have "swp p n a = a" by (simp add: swp_def)
    with 3 E [of a] show ?thesis
      using par_p par_n lo ro ch_n by (auto simp: renames_def swp_opt upd_apply child_def)
  qed
qed

text \<open>So an exchange swaps the two nodes in the tree.\<close>

lemma swp_image: "p \<in> S \<Longrightarrow> n \<in> S \<Longrightarrow> swp p n ` S = S"
  by (force simp: swp_def image_iff)

lemma swp_inj: "inj (swp p n)"
  by (auto simp: inj_on_def swp_def split: if_splits)

lemma inorder_map: "inorder (map_tree f t) = map f (inorder t)"
  by (induction t) auto

lemma exchange_tree:
  assumes t: "tree_at m None t q" and d: "distinct (inorder t)" and p: "p \<in> set_tree t" and n: "child m p n"
    and ex: "ex = heapify_exchange p n \<or> ex = bubble_exchange p n"
  shows "tree_at (ex m) None (map_tree (swp p n) t) (map_option (swp p n) q)"
    and "distinct (inorder (map_tree (swp p n) t))" and "set_tree (map_tree (swp p n) t) = set_tree t"
    and "a \<in> set_tree t \<Longrightarrow> renames (swp p n) m (ex m) a"
proof -
  have L: "linked m (set_tree t)" using tree_at_linked [OF t d] .
  have "exchange_ok ex p n m" using linked_exchange_ok [OF L p n] ex by auto
  then show r: "renames (swp p n) m (ex m) a" if "a \<in> set_tree t" for a using exchange_renames [OF L p n that] by blast
  show "tree_at (ex m) None (map_tree (swp p n) t) (map_option (swp p n) q)"
    using tree_at_rename [OF t r] by simp
  show "distinct (inorder (map_tree (swp p n) t))"
    using d swp_inj [of p n] by (simp add: inorder_map distinct_map inj_on_subset [OF swp_inj subset_UNIV])
  show "set_tree (map_tree (swp p n) t) = set_tree t"
    using swp_image [OF p, of n] linkedD(1) [OF L p n] by (simp add: tree.set_map)
qed

subsection \<open>Order and shape\<close>

text \<open>The part of a tree at a path.\<close>

fun sub :: "nat tree \<Rightarrow> bool list \<Rightarrow> nat tree" where
  "sub t [] = t"
| "sub Leaf (b # bs) = Leaf"
| "sub (Node l a r) (b # bs) = sub (if b then r else l) bs"

lemma sub_subset: "set_tree (sub t bs) \<subseteq> set_tree t"
  by (induction t bs rule: sub.induct) (auto split: if_splits)

lemma sub_at: "tree_at m par t q \<Longrightarrow> sub t bs = Node l a r \<Longrightarrow>
    tree_at m (Some a) l (hm_left m a) \<and> tree_at m (Some a) r (hm_right m a)"
  by (induction t bs arbitrary: par q rule: sub.induct) (auto split: if_splits)

lemma sub_Leaf [simp]: "sub Leaf bs = Leaf"
  by (cases bs) auto

lemma sub_append: "sub t (bs @ cs) = sub (sub t bs) cs"
  by (induction t bs rule: sub.induct) auto

lemma child_sub:
  assumes "tree_at m par t q" and "sub t bs = Node l a r" and "child m a b"
  shows "\<exists>side l1 r1. sub t (bs @ [side]) = Node l1 b r1 \<and> size l1 + size r1 < size l + size r"
proof -
  note at = sub_at [OF assms(1,2)]
  from assms(3) consider "hm_left m a = Some b" | "hm_right m a = Some b" by (auto simp: child_def)
  then show ?thesis
  proof cases
    case 1
    with at obtain l1 r1 where "l = Node l1 b r1" by (cases l) auto
    with assms(2) show ?thesis by (intro exI [of _ False] exI [of _ l1] exI [of _ r1]) (simp add: sub_append)
  next
    case 2
    with at obtain l1 r1 where "r = Node l1 b r1" by (cases r) auto
    with assms(2) show ?thesis by (intro exI [of _ True] exI [of _ l1] exI [of _ r1]) (simp add: sub_append)
  qed
qed

lemma sub_map: "sub (map_tree f t) bs = map_tree f (sub t bs)"
  by (induction t bs rule: sub.induct) auto

text \<open>A complete tree with \<open>n\<close> nodes has the nodes with the numbers up to \<open>n\<close>.\<close>

definition complete_n :: "nat \<Rightarrow> nat tree \<Rightarrow> bool" where
  "complete_n n t \<longleftrightarrow> (\<forall>i \<ge> 1. sub t (path i) \<noteq> Leaf \<longleftrightarrow> i \<le> n)"

lemma complete_n_map: "complete_n n (map_tree f t) = complete_n n t"
  by (simp add: complete_n_def sub_map)

lemma complete_n_0: "complete_n 0 t \<longleftrightarrow> t = Leaf"
proof
  assume "complete_n 0 t"
  then have "sub t (path 1) = Leaf" unfolding complete_n_def by force
  then show "t = Leaf" by simp
qed (auto simp: complete_n_def)

text \<open>A complete tree has as many nodes as its number says.\<close>

lemma card_paths: "finite {bs. sub t bs \<noteq> Leaf} \<and> card {bs. sub t bs \<noteq> Leaf} = size t"
proof (induction t)
  case (Node l a r)
  let ?L = "{bs. sub l bs \<noteq> Leaf}" and ?R = "{bs. sub r bs \<noteq> Leaf}"
  have "sub (Node l a r) bs \<noteq> Leaf \<longleftrightarrow> bs = [] \<or> bs \<in> Cons False ` ?L \<or> bs \<in> Cons True ` ?R" for bs
    by (cases bs) (auto simp: image_iff)
  then have eq: "{bs. sub (Node l a r) bs \<noteq> Leaf} = insert [] (Cons False ` ?L \<union> Cons True ` ?R)" by blast
  have "card (Cons False ` ?L \<union> Cons True ` ?R) = size l + size r"
    using Node by (subst card_Un_disjoint) (auto simp: card_image)
  then show ?case unfolding eq using Node by (subst card_insert_disjoint) auto
qed simp

lemma complete_n_size:
  assumes "complete_n n t"
  shows "size t = n"
proof -
  have "{bs. sub t bs \<noteq> Leaf} = path ` {1..n}"
  proof
    show "{bs. sub t bs \<noteq> Leaf} \<subseteq> path ` {1..n}"
    proof
      fix bs assume "bs \<in> {bs. sub t bs \<noteq> Leaf}"
      moreover obtain i where "1 \<le> i" "path i = bs" using path_surj by blast
      ultimately show "bs \<in> path ` {1..n}" using assms by (force simp: complete_n_def)
    qed
  qed (use assms in \<open>auto simp: complete_n_def\<close>)
  moreover have "inj_on path {1..n}" using path_inj by (auto simp: inj_on_def)
  ultimately have "card {bs. sub t bs \<noteq> Leaf} = n" by (simp add: card_image)
  then show ?thesis using card_paths [of t] by simp
qed

text \<open>Walking down the memory follows the path of the number of the node.\<close>

definition root_of :: "nat tree \<Rightarrow> nat option" where
  "root_of t = (case t of Leaf \<Rightarrow> None | Node l a r \<Rightarrow> Some a)"

lemma root_of_at: "tree_at m par t q \<Longrightarrow> q = root_of t"
  by (cases t) (auto simp: root_of_def)

lemma heap_walk_sub:
  assumes "tree_at m par t q" and "1 \<le> i" and "i < 2 ^ 64" and "i \<le> n" and "sub t (path i) \<noteq> Leaf"
  shows "heap_walk n m q i = Inr (root_of (sub t (path i)))"
  using assms
proof (induction n arbitrary: par t q i)
  case (Suc n)
  show ?case
  proof (cases "i = 1")
    case True
    then show ?thesis using root_of_at [OF Suc.prems(1)] by simp
  next
    case False
    with Suc.prems obtain b k where m: "heap_get_move i = (b, k)" "path i = b # path k" "1 \<le> k" "k < i"
      using heap_get_move_path [of i] by auto
    obtain l a r where t: "t = Node l a r" using Suc.prems(5) m(2) by (cases t) auto
    have at: "tree_at m (Some a) (if b then r else l) (if b then hm_right m a else hm_left m a)" "q = Some a"
      using Suc.prems(1) t by auto
    from Suc.IH [OF at(1), of k] Suc.prems m t at(2) False show ?thesis by auto
  qed
qed simp

definition same_shape :: "nat tree \<Rightarrow> nat tree \<Rightarrow> bool" where
  "same_shape t t' \<longleftrightarrow> (\<forall>bs. sub t' bs = Leaf \<longleftrightarrow> sub t bs = Leaf)"

lemma same_shape_map: "same_shape t (map_tree f t)"
  by (simp add: same_shape_def sub_map)

lemma same_shape_refl: "same_shape t t"
  by (simp add: same_shape_def)

lemma same_shape_trans: "same_shape t u \<Longrightarrow> same_shape u v \<Longrightarrow> same_shape t v"
  by (simp add: same_shape_def)

lemma complete_n_shape: "same_shape t t' \<Longrightarrow> complete_n n t \<Longrightarrow> complete_n n t'"
  by (simp add: same_shape_def complete_n_def)

text \<open>Replacing the part of a tree at a path.\<close>

fun put :: "nat tree \<Rightarrow> bool list \<Rightarrow> nat tree \<Rightarrow> nat tree" where
  "put t [] u = u"
| "put Leaf (b # bs) u = Leaf"
| "put (Node l a r) (b # bs) u = (if b then Node l a (put r bs u) else Node (put l bs u) a r)"

lemma sub_snoc:
  assumes "tree_at m par t q" and "sub t (bs @ [b]) = Node l c r"
  shows "\<exists>l' p r'. sub t bs = Node l' p r' \<and> hm_parent m c = Some p \<and> (if b then hm_right m p else hm_left m p) = Some c"
proof -
  obtain l' p r' where s: "sub t bs = Node l' p r'" using assms(2) by (cases "sub t bs") (auto simp: sub_append)
  then have "(if b then r' else l') = Node l c r" using assms(2) by (auto simp: sub_append)
  with sub_at [OF assms(1) s] s show ?thesis by (auto split: if_splits)
qed

lemma tree_at_cong:
  assumes "tree_at m par t q" and "\<And>a. a \<in> set_tree t \<Longrightarrow>
      hm_parent m' a = hm_parent m a \<and> hm_left m' a = hm_left m a \<and> hm_right m' a = hm_right m a"
  shows "tree_at m' par t q"
  using assms by (induction t arbitrary: par q) auto

text \<open>Writing one child pointer of the node \<open>p\<close> replaces that part of the tree.\<close>

lemma put_at:
  assumes "tree_at m par t q" and "distinct (inorder t)" and "sub t bs = Node l p r"
    and same: "\<And>a. a \<in> set_tree t \<Longrightarrow> hm_parent m' a = hm_parent m a \<and> (a \<noteq> p \<longrightarrow> hm_left m' a = hm_left m a \<and> hm_right m' a = hm_right m a)"
    and side: "if b then hm_right m' p = v \<and> hm_left m' p = hm_left m p else hm_left m' p = v \<and> hm_right m' p = hm_right m p"
    and u: "tree_at m' (Some p) u v"
  shows "tree_at m' par (put t (bs @ [b]) u) q"
  using assms(1-4)
proof (induction t bs arbitrary: par q rule: sub.induct)
  case (1 t)
  then have t: "t = Node l p r" by simp
  have at: "tree_at m (Some p) l (hm_left m p)" "tree_at m (Some p) r (hm_right m p)" using "1.prems"(1) t by simp_all
  have ne: "a \<noteq> p" "a \<in> set_tree t" if "a \<in> set_tree l \<union> set_tree r" for a using that "1.prems"(2) t by auto
  have "tree_at m' (Some p) l (hm_left m p)" by (rule tree_at_cong [OF at(1)]) (use "1.prems"(4) ne in simp)
  moreover have "tree_at m' (Some p) r (hm_right m p)" by (rule tree_at_cong [OF at(2)]) (use "1.prems"(4) ne in simp)
  ultimately show ?case using t "1.prems"(1) "1.prems"(4) [of p] side u by (cases b) simp_all
next
  case (3 l' a r' c bs)
  have pin: "p \<in> set_tree (if c then r' else l')" using "3.prems"(3) sub_subset [of "if c then r' else l'" bs] by auto
  have pa: "p \<noteq> a" using pin "3.prems"(2) by (auto split: if_splits)
  have at: "tree_at m (Some a) l' (hm_left m a)" "tree_at m (Some a) r' (hm_right m a)" "q = Some a" "hm_parent m a = par"
    using "3.prems"(1) by auto
  have ma: "hm_parent m' a = hm_parent m a \<and> hm_left m' a = hm_left m a \<and> hm_right m' a = hm_right m a"
    using "3.prems"(4) [of a] pa by simp
  show ?case
  proof (cases c)
    case True
    have "p \<notin> set_tree l'" using pin True "3.prems"(2) by auto
    then have "tree_at m' (Some a) l' (hm_left m a)"
      by (intro tree_at_cong [OF at(1)]) (use "3.prems"(4) in auto)
    moreover have "tree_at m' (Some a) (put r' (bs @ [b]) u) (hm_right m a)"
      using "3.IH" [of "Some a" "hm_right m a"] at(2) "3.prems" True by auto
    ultimately show ?thesis using True at ma by simp
  next
    case False
    have "p \<notin> set_tree r'" using pin False "3.prems"(2) by auto
    then have "tree_at m' (Some a) r' (hm_right m a)"
      by (intro tree_at_cong [OF at(2)]) (use "3.prems"(4) in auto)
    moreover have "tree_at m' (Some a) (put l' (bs @ [b]) u) (hm_left m a)"
      using "3.IH" [of "Some a" "hm_left m a"] at(1) "3.prems" False by auto
    ultimately show ?thesis using False at ma by simp
  qed
qed simp

lemma inorder_put_insert:
  assumes "sub t bs = Node l p r" and "sub t (bs @ [b]) = Leaf"
  shows "mset (inorder (put t (bs @ [b]) (Node Leaf x Leaf))) = add_mset x (mset (inorder t))"
  using assms by (induction t bs rule: sub.induct) (auto split: if_splits)

lemma inorder_put_remove:
  assumes "sub t bs = Node l p r" and "sub t (bs @ [b]) = Node Leaf x Leaf"
  shows "add_mset x (mset (inorder (put t (bs @ [b]) Leaf))) = mset (inorder t)"
  using assms by (induction t bs rule: sub.induct) (auto split: if_splits)

lemma sub_put_Leaf:
  assumes "sub t bs = Node l p r"
  shows "sub (put t (bs @ [b]) u) cs = Leaf \<longleftrightarrow>
      (if \<exists>ds. cs = (bs @ [b]) @ ds then sub u (drop (Suc (length bs)) cs) = Leaf else sub t cs = Leaf)"
  using assms
proof (induction t bs arbitrary: cs rule: sub.induct)
  case (1 t)
  then show ?case by (cases cs) auto
next
  case (3 l' a r' c bs)
  show ?case
  proof (cases cs)
    case (Cons d ds)
    then show ?thesis using "3.IH" [of ds] "3.prems" by (cases c; cases d) auto
  qed simp
qed simp

lemma sub_put_same: "sub t bs = Node l p r \<Longrightarrow> sub (put t (bs @ [b]) u) (bs @ [b]) = u"
  by (induction t bs rule: sub.induct) auto

lemma complete_n_insert:
  assumes "complete_n n t" and "path (Suc n) = bs @ [b]" and "sub t bs = Node l p r"
  shows "complete_n (Suc n) (put t (bs @ [b]) (Node Leaf x Leaf))"
  unfolding complete_n_def
proof (intro allI impI)
  fix i :: nat assume i: "1 \<le> i"
  have slot: "sub t (bs @ [b]) = Leaf" using assms(1,2) unfolding complete_n_def by (metis Suc_n_not_le_n le_numeral_extra(4) not_less_eq_eq plus_1_eq_Suc le_add1)
  show "sub (put t (bs @ [b]) (Node Leaf x Leaf)) (path i) \<noteq> Leaf \<longleftrightarrow> i \<le> Suc n"
  proof (cases "\<exists>ds. path i = (bs @ [b]) @ ds")
    case True
    then obtain ds where ds: "path i = (bs @ [b]) @ ds" by blast
    have "sub t (path i) = Leaf" unfolding ds sub_append [of t "bs @ [b]"] slot by simp
    then have "\<not> i \<le> n" using assms(1) [unfolded complete_n_def, rule_format, OF i] by simp
    moreover have "i = Suc n \<longleftrightarrow> ds = []" using ds assms(2) path_inj [of i "Suc n"] i by auto
    moreover have "sub (Node Leaf x Leaf) ds = Leaf \<longleftrightarrow> ds \<noteq> []" by (cases ds) auto
    ultimately show ?thesis using ds by (simp add: sub_put_Leaf [OF assms(3)]) linarith
  next
    case False
    then have "i \<noteq> Suc n" using assms(2) by auto
    then show ?thesis using False assms(1) i by (auto simp: sub_put_Leaf [OF assms(3)] complete_n_def)
  qed
qed

lemma complete_n_leaf:
  assumes "complete_n n t" and "1 \<le> n"
  shows "\<exists>c. sub t (path n) = Node Leaf c Leaf"
proof -
  have c: "sub t (path i) \<noteq> Leaf \<longleftrightarrow> i \<le> n" if "1 \<le> i" for i using assms(1) that by (simp add: complete_n_def)
  obtain l c r where s: "sub t (path n) = Node l c r" using c [of n] assms(2) by (cases "sub t (path n)") auto
  have "sub t (path n @ [False]) = Leaf" using c [of "2 * n"] assms(2) path_double(1) [of n] by simp
  moreover have "sub t (path n @ [True]) = Leaf" using c [of "Suc (2 * n)"] assms(2) path_double(2) [of n] by simp
  ultimately show ?thesis using s by (simp add: sub_append)
qed

lemma complete_n_remove:
  assumes "complete_n (Suc n) t" and "path (Suc n) = bs @ [b]" and "sub t bs = Node l p r"
  shows "complete_n n (put t (bs @ [b]) Leaf)"
  unfolding complete_n_def
proof (intro allI impI)
  fix i :: nat assume i: "1 \<le> i"
  obtain c where leaf: "sub t (bs @ [b]) = Node Leaf c Leaf" using complete_n_leaf [OF assms(1)] assms(2) by auto
  show "sub (put t (bs @ [b]) Leaf) (path i) \<noteq> Leaf \<longleftrightarrow> i \<le> n"
  proof (cases "\<exists>ds. path i = (bs @ [b]) @ ds")
    case True
    then obtain ds where ds: "path i = (bs @ [b]) @ ds" by blast
    have "ds = [] \<Longrightarrow> i = Suc n" using ds assms(2) path_inj [of i "Suc n"] i by auto
    moreover have "ds \<noteq> [] \<Longrightarrow> sub t (path i) = Leaf"
      unfolding ds sub_append [of t "bs @ [b]"] leaf by (cases ds) auto
    ultimately have "\<not> i \<le> n" using assms(1) i by (cases "ds = []") (auto simp: complete_n_def)
    then show ?thesis using ds by (simp add: sub_put_Leaf [OF assms(3)])
  next
    case False
    then have "i \<noteq> Suc n" using assms(2) by auto
    then show ?thesis using False assms(1) i by (auto simp: sub_put_Leaf [OF assms(3)] complete_n_def)
  qed
qed

lemma path_length: "1 \<le> n \<Longrightarrow> length (path n) < n"
proof (induction n rule: path.induct)
  case (1 n)
  show ?case
  proof (cases "n < 2")
    case False
    then have "length (path (n div 2)) < n div 2" "n div 2 < n" using 1 by auto
    then show ?thesis using False path_half [of n] by simp
  qed (use 1 in \<open>simp add: path_small\<close>)
qed

text \<open>Every node but the children of \<open>a\<close> is at most its parent, and these are at most the parent of \<open>a\<close>.\<close>

definition hord :: "(nat \<Rightarrow> int) \<Rightarrow> hmem \<Rightarrow> nat set \<Rightarrow> bool" where
  "hord key m S \<longleftrightarrow> (\<forall>c \<in> S. \<forall>p. hm_parent m c = Some p \<longrightarrow> key c \<le> key p)"

definition hord_below :: "(nat \<Rightarrow> int) \<Rightarrow> nat \<Rightarrow> hmem \<Rightarrow> nat set \<Rightarrow> bool" where
  "hord_below key a m S \<longleftrightarrow> (\<forall>c \<in> S. \<forall>p. hm_parent m c = Some p \<and> p \<noteq> a \<longrightarrow> key c \<le> key p)
     \<and> (\<forall>c g. child m a c \<and> hm_parent m a = Some g \<longrightarrow> key c \<le> key g)"

text \<open>Every node but \<open>a\<close> is at most its parent, and so are the children of \<open>a\<close> with the parent of \<open>a\<close>.\<close>

definition hord_above :: "(nat \<Rightarrow> int) \<Rightarrow> nat \<Rightarrow> hmem \<Rightarrow> nat set \<Rightarrow> bool" where
  "hord_above key a m S \<longleftrightarrow> (\<forall>c \<in> S. \<forall>p. hm_parent m c = Some p \<and> c \<noteq> a \<longrightarrow> key c \<le> key p)
     \<and> (\<forall>c g. child m a c \<and> hm_parent m a = Some g \<longrightarrow> key c \<le> key g)"

text \<open>The invariant of the heap: the memory holds a complete tree of the nodes \<open>S\<close> in heap order.\<close>

definition heap_inv :: "(nat \<Rightarrow> int) \<Rightarrow> heap \<Rightarrow> nat set \<Rightarrow> bool" where
  "heap_inv key h S \<longleftrightarrow> (\<exists>t. tree_at (hp_mem h) None t (hp_root h) \<and> distinct (inorder t) \<and> set_tree t = S
     \<and> complete_n (hp_size h) t \<and> hord key (hp_mem h) S)"

text \<open>The pointers after an exchange, seen from the nodes before it.\<close>

lemma swp_swp [simp]: "swp p n (swp p n x) = x"
  by (auto simp: swp_def)

lemma map_swp_Some: "map_option (swp p n) q = Some x \<longleftrightarrow> q = Some (swp p n x)"
  by (cases q) auto

lemma renames_parent:
  assumes "renames (swp p n) m m' (swp p n c)"
  shows "hm_parent m' c = Some x \<longleftrightarrow> hm_parent m (swp p n c) = Some (swp p n x)"
    "child m' c x \<longleftrightarrow> child m (swp p n c) (swp p n x)"
  using assms by (auto simp: renames_def map_swp_Some child_def)

lemma heapify_largest_cases:
  obtains (same) "heapify_largest cmp a m = a"
    | (child) "child m a (heapify_largest cmp a m)" "heapify_largest cmp a m \<noteq> a"
  by (cases "heapify_largest cmp a m = a")
    (auto simp: heapify_largest_def child_def Let_def split: option.splits if_splits)

locale heap_cmp =
  fixes cmp :: "nat \<Rightarrow> nat \<Rightarrow> int" and key :: "nat \<Rightarrow> int"
  assumes cmp_key: "cmp a b > 0 \<longleftrightarrow> key b < key a"
begin

lemma largest_max:
  shows "key a \<le> key (heapify_largest cmp a m)" "child m a c \<Longrightarrow> key c \<le> key (heapify_largest cmp a m)"
  by (auto simp: heapify_largest_def child_def cmp_key Let_def split: option.splits)

lemma exchange_below:
  assumes t: "tree_at m None t q" "distinct (inorder t)" and a: "a \<in> set_tree t" and b: "child m a b"
    and mx: "key a \<le> key b" "\<And>c. child m a c \<Longrightarrow> key c \<le> key b"
    and ord: "hord_below key a m (set_tree t)"
  shows "hord_below key a (heapify_exchange a b m) (set_tree t)"
proof -
  let ?S = "set_tree t" and ?m = "heapify_exchange a b m" and ?f = "swp a b"
  have L: "linked m ?S" using tree_at_linked [OF t] .
  have bS: "b \<in> ?S" and bp: "hm_parent m b = Some a" using linkedD(1,2) [OF L a b] by auto
  have ren: "renames ?f m ?m c" if "c \<in> ?S" for c using exchange_tree(4) [OF t a b _ that, of "heapify_exchange a b"] by simp
  have sw: "?f c \<in> ?S" if "c \<in> ?S" for c using that a bS by (simp add: swp_def)
  have ab: "a \<noteq> b" "\<not> child m b a" "\<not> child m b b" "\<not> child m a a"
    using linked_rank [OF L] a bS b by (metis less_irrefl less_trans)+
  have o1: "key c \<le> key p" if "c \<in> ?S" "hm_parent m c = Some p" "p \<noteq> a" for c p
    using ord that by (auto simp: hord_below_def)
  have o2: "key c \<le> key g" if "child m a c" "hm_parent m a = Some g" for c g
    using ord that by (auto simp: hord_below_def)
  have "key c \<le> key p" if c: "c \<in> ?S" and p: "hm_parent ?m c = Some p" "p \<noteq> a" for c p
  proof -
    have e: "hm_parent m (?f c) = Some (?f p)" using renames_parent(1) [OF ren [OF sw [OF c]]] p(1) by blast
    have ch: "child m (?f p) (?f c)" using linkedD(5) [OF L sw [OF c] e] .
    consider "c = a" | "c = b" | "c \<noteq> a" "c \<noteq> b" by blast
    then show ?thesis
    proof cases
      case 1
      then have "p = b" using e bp ab p(2) by (auto simp: swp_def split: if_splits)
      with 1 mx(1) show ?thesis by simp
    next
      case 2
      then have "?f c = a" "?f p = p" using ch ab p(2) by (auto simp: swp_def split: if_splits)
      with 2 e o2 [OF b] show ?thesis by simp
    next
      case 3
      then have "?f c = c" by (simp add: swp_def)
      with e ch p(2) mx(2) o1 [OF c] show ?thesis by (auto simp: swp_def split: if_splits)
    qed
  qed
  moreover have "key c \<le> key g" if c: "child ?m a c" and g: "hm_parent ?m a = Some g" for c g
  proof -
    have fa: "?f a = b" "?f b = a" by (simp_all add: swp_def)
    have "child m b (?f c)" "hm_parent m b = Some (?f g)"
      using renames_parent [OF ren [OF sw [OF a]]] c g fa by auto
    then have "child m b c" "g = b" using ab bp by (auto simp: swp_def split: if_splits)
    with o1 [of c b] linkedD(1,2) [OF L bS] ab show ?thesis by simp
  qed
  ultimately show ?thesis by (auto simp: hord_below_def)
qed

lemma heapify_rec_ok:
  assumes "tree_at m None t q" and "distinct (inorder t)" and "sub t bs = Node l a r" and "size l + size r < n"
    and "hord_below key a m (set_tree t)" and "q \<noteq> Some a"
  shows "\<exists>m' t'. heapify_rec n cmp a m = Inr m' \<and> tree_at m' None t' q \<and> distinct (inorder t')
      \<and> set_tree t' = set_tree t \<and> same_shape t t' \<and> hord key m' (set_tree t)"
  using assms
proof (induction n arbitrary: m t bs l r)
  case (Suc n)
  let ?b = "heapify_largest cmp a m"
  have a: "a \<in> set_tree t" using Suc.prems(3) sub_subset [of t bs] by simp
  show ?case
  proof (cases rule: heapify_largest_cases [of cmp a m])
    case same
    have "hord key m (set_tree t)"
      unfolding hord_def
    proof (intro ballI allI impI)
      fix c p assume c: "c \<in> set_tree t" "hm_parent m c = Some p"
      have "child m p c" using linkedD(5) [OF tree_at_linked [OF Suc.prems(1,2)] c] .
      with c Suc.prems(5) largest_max(2) [of m a c] same show "key c \<le> key p"
        by (cases "p = a") (auto simp: hord_below_def)
    qed
    with same Suc.prems(1,2) show ?thesis by (intro exI [of _ m] exI [of _ t]) (simp add: same_shape_refl)
  next
    case child
    let ?m = "heapify_exchange a ?b m" and ?t = "map_tree (swp a ?b) t"
    have ex: "heapify_exchange a ?b = heapify_exchange a ?b \<or> heapify_exchange a ?b = bubble_exchange a ?b" by simp
    note x = exchange_tree [OF Suc.prems(1,2) a child(1) ex]
    obtain side l1 r1 where s: "sub t (bs @ [side]) = Node l1 ?b r1" "size l1 + size r1 < size l + size r"
      using child_sub [OF Suc.prems(1,3) child(1)] by blast
    then have pos: "sub ?t (bs @ [side]) = Node (map_tree (swp a ?b) l1) a (map_tree (swp a ?b) r1)"
      by (simp add: sub_map swp_def)
    have q: "map_option (swp a ?b) q = q"
    proof (cases q)
      case (Some z)
      then have "hm_parent m z = None" using tree_at_root Suc.prems(1) by auto
      moreover have "hm_parent m ?b = Some a" using tree_at_child [OF Suc.prems(1) a child(1)] by simp
      ultimately have "z \<noteq> ?b" by auto
      with Some Suc.prems(6) show ?thesis by (simp add: swp_def)
    qed simp
    have ord: "hord_below key a ?m (set_tree ?t)"
      using exchange_below [OF Suc.prems(1,2) a child(1) largest_max Suc.prems(5)] x(3) by simp
    have sz: "size (map_tree (swp a ?b) l1) + size (map_tree (swp a ?b) r1) < n" using s(2) Suc.prems(4) by simp
    from Suc.IH [OF x(1) [unfolded q] x(2) pos sz ord Suc.prems(6)] obtain m' t' where
      "heapify_rec n cmp a ?m = Inr m'" "tree_at m' None t' q" "distinct (inorder t')"
      "set_tree t' = set_tree t" "same_shape ?t t'" "hord key m' (set_tree t)" using x(3) by auto
    with child(2) same_shape_trans [OF same_shape_map] show ?thesis
      by (intro exI [of _ m'] exI [of _ t']) (auto simp: Let_def)
  qed
qed simp

lemma hord_root_max:
  assumes "tree_at m par t (Some a)" and "hord key m (set_tree t)" and "y \<in> set_tree t"
  shows "key y \<le> key a"
  using assms
proof (induction t arbitrary: par a)
  case (Node l x r)
  have x: "a = x" using Node.prems(1) by simp
  have step: "key y \<le> key a" if "tree_at m (Some x) u (Some b)" "y \<in> set_tree u" "set_tree u \<subseteq> set_tree (Node l x r)"
    "\<And>par a. tree_at m par u (Some a) \<Longrightarrow> hord key m (set_tree u) \<Longrightarrow> y \<in> set_tree u \<Longrightarrow> key y \<le> key a" for u b
  proof -
    have "hord key m (set_tree u)" using Node.prems(2) that(3) by (auto simp: hord_def)
    then have "key y \<le> key b" using that by blast
    moreover have "key b \<le> key x"
      using tree_at_root [OF that(1)] that(3) Node.prems(2) by (auto simp: hord_def)
    ultimately show ?thesis using x by simp
  qed
  from Node.prems(3) consider "y = x" | "y \<in> set_tree l" | "y \<in> set_tree r" by auto
  then show ?case
  proof cases
    case 2
    then obtain b where "hm_left m x = Some b" using Node.prems(1) by (cases l) auto
    then show ?thesis using step [of l b] 2 Node.IH(1) Node.prems(1) by auto
  next
    case 3
    then obtain b where "hm_right m x = Some b" using Node.prems(1) by (cases r) auto
    then show ?thesis using step [of r b] 3 Node.IH(2) Node.prems(1) by auto
  qed (simp add: x)
qed simp

lemma heap_max_heapify_ok:
  assumes t: "tree_at (hp_mem h) None t (Some a)" "distinct (inorder t)" and root: "hp_root h = Some a"
    and ord: "hord_below key a (hp_mem h) (set_tree t)" and size: "size t = hp_size h"
  shows "\<exists>h' t'. heap_max_heapify cmp a h = Inr h' \<and> tree_at (hp_mem h') None t' (hp_root h') \<and> distinct (inorder t')
      \<and> set_tree t' = set_tree t \<and> same_shape t t' \<and> hord key (hp_mem h') (set_tree t) \<and> hp_size h' = hp_size h"
proof -
  let ?m = "hp_mem h"
  let ?b = "heapify_largest cmp a ?m"
  have a: "a \<in> set_tree t" using tree_at_root [OF t(1)] by simp
  obtain l r where sub: "t = Node l a r" using t(1) by (cases t) auto
  show ?thesis
  proof (cases rule: heapify_largest_cases [of cmp a ?m])
    case same
    have "hord key ?m (set_tree t)"
      unfolding hord_def
    proof (intro ballI allI impI)
      fix c p assume c: "c \<in> set_tree t" "hm_parent ?m c = Some p"
      have "child ?m p c" using linkedD(5) [OF tree_at_linked [OF t] c] .
      with c ord largest_max(2) [of ?m a c] same show "key c \<le> key p"
        by (cases "p = a") (auto simp: hord_below_def)
    qed
    with same t root show ?thesis
      by (intro exI [of _ h] exI [of _ t]) (simp add: heap_max_heapify_def same_shape_refl)
  next
    case child
    let ?m1 = "heapify_exchange a ?b ?m" and ?t = "map_tree (swp a ?b) t"
    have ex: "heapify_exchange a ?b = heapify_exchange a ?b \<or> heapify_exchange a ?b = bubble_exchange a ?b" by simp
    note x = exchange_tree [OF t a child(1) ex]
    obtain side l1 r1 where s: "sub t ([] @ [side]) = Node l1 ?b r1" "size l1 + size r1 < size l + size r"
      using child_sub [OF t(1) _ child(1), of "[]" l r] sub by auto
    then have pos: "sub ?t [side] = Node (map_tree (swp a ?b) l1) a (map_tree (swp a ?b) r1)"
      by (simp add: sub_map swp_def)
    have q: "map_option (swp a ?b) (Some a) = Some ?b" by (simp add: swp_def)
    have ord1: "hord_below key a ?m1 (set_tree ?t)"
      using exchange_below [OF t a child(1) largest_max ord] x(3) by simp
    have sz: "size (map_tree (swp a ?b) l1) + size (map_tree (swp a ?b) r1) < hp_size h"
      using s(2) size sub by simp
    from heapify_rec_ok [OF x(1) [unfolded q] x(2) pos sz ord1] child(2) obtain m' t' where
      "heapify_rec (hp_size h) cmp a ?m1 = Inr m'" "tree_at m' None t' (Some ?b)" "distinct (inorder t')"
      "set_tree t' = set_tree t" "same_shape ?t t'" "hord key m' (set_tree t)" using x(3) by auto
    with child(2) same_shape_trans [OF same_shape_map] show ?thesis
      by (intro exI [of _ "h\<lparr>hp_root := Some ?b, hp_mem := m'\<rparr>"] exI [of _ t'])
        (auto simp: heap_max_heapify_def Let_def)
  qed
qed

lemma exchange_above:
  assumes t: "tree_at m None t q" "distinct (inorder t)" and x: "x \<in> set_tree t" and p: "hm_parent m x = Some p"
    and gt: "key p \<le> key x" and ord: "hord_above key x m (set_tree t)"
  shows "hord_above key x (bubble_exchange p x m) (set_tree t)"
proof -
  let ?S = "set_tree t" and ?m = "bubble_exchange p x m" and ?f = "swp p x"
  have L: "linked m ?S" using tree_at_linked [OF t] .
  have pS: "p \<in> ?S" and px: "child m p x" using linkedD(4,5) [OF L x p] by auto
  have ren: "renames ?f m ?m c" if "c \<in> ?S" for c
    using exchange_tree(4) [OF t pS px _ that, of "bubble_exchange p x"] by simp
  have sw: "?f c \<in> ?S" if "c \<in> ?S" for c using that x pS by (simp add: swp_def)
  have ab: "p \<noteq> x" "\<not> child m x p" "\<not> child m x x" "\<not> child m p p"
    using linked_rank [OF L] x pS px by (metis less_irrefl less_trans)+
  have o1: "key c \<le> key g" if "c \<in> ?S" "hm_parent m c = Some g" "c \<noteq> x" for c g
    using ord that by (auto simp: hord_above_def)
  have o2: "key c \<le> key p" if "child m x c" for c
    using ord that p by (auto simp: hord_above_def)
  have "key c \<le> key g" if c: "c \<in> ?S" and g: "hm_parent ?m c = Some g" "c \<noteq> x" for c g
  proof -
    have e: "hm_parent m (?f c) = Some (?f g)" using renames_parent(1) [OF ren [OF sw [OF c]]] g(1) by blast
    have ch: "child m (?f g) (?f c)" using linkedD(5) [OF L sw [OF c] e] .
    show ?thesis
    proof (cases "c = p")
      case True
      then have "g = x" using e p ab by (auto simp: swp_def split: if_splits)
      with True gt show ?thesis by simp
    next
      case False
      then have fc: "?f c = c" using g(2) by (simp add: swp_def)
      consider "g = x" | "g = p" | "g \<noteq> x" "g \<noteq> p" by blast
      then show ?thesis
      proof cases
        case 1
        then have "hm_parent m c = Some p" using e fc by (auto simp: swp_def split: if_splits)
        with o1 [OF c _ g(2)] gt 1 show ?thesis by force
      next
        case 2
        then have "child m x c" using ch fc by (auto simp: swp_def split: if_splits)
        with o2 2 show ?thesis by simp
      next
        case 3
        then have "hm_parent m c = Some g" using e fc by (auto simp: swp_def split: if_splits)
        with o1 [OF c _ g(2)] show ?thesis by simp
      qed
    qed
  qed
  moreover have "key c \<le> key g" if c: "child ?m x c" and g: "hm_parent ?m x = Some g" for c g
  proof -
    have fx: "?f x = p" "?f p = x" by (simp_all add: swp_def)
    have e: "child m p (?f c)" "hm_parent m p = Some (?f g)"
      using renames_parent [OF ren [OF sw [OF x]]] c g fx by auto
    have "child m (?f g) p" using linkedD(5) [OF L pS e(2)] .
    then have "?f g = g" using ab by (auto simp: swp_def split: if_splits)
    then have pg: "key p \<le> key g" using o1 [OF pS _ ab(1)] e(2) by simp
    show ?thesis
    proof (cases "c = p")
      case False
      have "c \<noteq> x" using e(1) fx ab by auto
      then have "child m p c" using e(1) False by (simp add: swp_def)
      then have "key c \<le> key p" using linkedD(1,2) [OF L pS] o1 \<open>c \<noteq> x\<close> by blast
      with pg show ?thesis by simp
    qed (simp add: pg)
  qed
  ultimately show ?thesis by (auto simp: hord_above_def)
qed

lemma bubble_up_ok:
  assumes "tree_at m None t q" and "distinct (inorder t)" and "sub t bs = Node l x r" and "length bs < n"
    and "hord_above key x m (set_tree t)"
  shows "\<exists>m' t' par. bubble_up n cmp x (hm_parent m x) m = Inr (par, m')
      \<and> tree_at m' None t' (if par = None then Some x else q) \<and> distinct (inorder t')
      \<and> set_tree t' = set_tree t \<and> same_shape t t' \<and> hord key m' (set_tree t)"
  using assms
proof (induction n arbitrary: m t q bs l r)
  case (Suc n)
  have x: "x \<in> set_tree t" using Suc.prems(3) sub_subset [of t bs] by simp
  note L = tree_at_linked [OF Suc.prems(1,2)]
  show ?case
  proof (cases "hm_parent m x")
    case None
    have "hord key m (set_tree t)" using Suc.prems(5) None unfolding hord_above_def hord_def by (metis option.distinct(1))
    moreover have "q = Some x" using tree_at_parent [OF Suc.prems(1) x] None by auto
    ultimately show ?thesis using None Suc.prems(1,2)
      by (intro exI [of _ m] exI [of _ t] exI [of _ None]) (auto simp: same_shape_refl)
  next
    case (Some p)
    show ?thesis
    proof (cases "cmp x p > 0")
      case False
      then have "key x \<le> key p" by (simp add: cmp_key)
      then have "hord key m (set_tree t)"
        using Suc.prems(5) Some unfolding hord_above_def hord_def by (metis option.inject)
      then show ?thesis using Some False Suc.prems(1,2)
        by (intro exI [of _ m] exI [of _ t] exI [of _ "Some p"]) (auto simp: same_shape_refl)
    next
      case True
      then have gt: "key p \<le> key x" by (simp add: cmp_key)
      have pS: "p \<in> set_tree t" and px: "child m p x" using linkedD(4,5) [OF L x Some] by auto
      let ?m = "bubble_exchange p x m" and ?t = "map_tree (swp p x) t"
      have ex: "bubble_exchange p x = heapify_exchange p x \<or> bubble_exchange p x = bubble_exchange p x" by simp
      note e = exchange_tree [OF Suc.prems(1,2) pS px ex]
      have "bs \<noteq> []"
      proof
        assume "bs = []"
        then have "hm_parent m x = None" using Suc.prems(1,3) by auto
        with Some show False by simp
      qed
      then obtain cs b where bs: "bs = cs @ [b]" by (cases bs rule: rev_cases) auto
      obtain l' r' where s: "sub t cs = Node l' p r'"
        using sub_snoc [OF Suc.prems(1) Suc.prems(3) [unfolded bs]] Some by auto
      then have pos: "sub ?t cs = Node (map_tree (swp p x) l') x (map_tree (swp p x) r')"
        by (simp add: sub_map swp_def)
      have ord: "hord_above key x ?m (set_tree ?t)"
        using exchange_above [OF Suc.prems(1,2) x Some gt Suc.prems(5)] e(3) by simp
      have len: "length cs < n" using Suc.prems(4) bs by simp
      obtain m' t' par where r: "bubble_up n cmp x (hm_parent ?m x) ?m = Inr (par, m')"
        "tree_at m' None t' (if par = None then Some x else map_option (swp p x) q)" "distinct (inorder t')"
        "set_tree t' = set_tree t" "same_shape ?t t'" "hord key m' (set_tree t)"
        using Suc.IH [OF e(1,2) pos len ord] e(3) by auto
      have q: "map_option (swp p x) q = q" if "par \<noteq> None"
      proof (cases "q = Some p")
        case True
        then have "map_option (swp p x) q = Some x" by (simp add: swp_def)
        then have "hm_parent ?m x = None" using tree_at_root e(1) by auto
        then have "par = None" using r(1) len by (cases n) auto
        with that show ?thesis by simp
      next
        case False
        have "q \<noteq> Some x" using tree_at_root [of m None t x] Suc.prems(1) Some by auto
        with False show ?thesis by (cases q) (auto simp: swp_def)
      qed
      from r q True Some same_shape_trans [OF same_shape_map r(5)] show ?thesis
        by (intro exI [of _ m'] exI [of _ t'] exI [of _ par]) (auto simp: Let_def split: if_splits)
    qed
  qed
qed simp

lemma heap_inv_init: "heap_inv key (heap_init m) {}"
  unfolding heap_inv_def by (rule exI [of _ Leaf]) (simp add: heap_init_def complete_n_0 hord_def)

lemma heap_inv_size: "heap_inv key h S \<Longrightarrow> finite S \<and> card S = hp_size h"
  unfolding heap_inv_def using complete_n_size
  by (metis distinct_card length_inorder set_inorder finite_set_tree)

lemma heap_get_ok:
  assumes "tree_at m None t (hp_root h)" and "hp_mem h = m" and "complete_n n t" and "1 \<le> i" and "i \<le> n" and "i < 2 ^ 64"
  shows "\<exists>l a r. sub t (path i) = Node l a r \<and> heap_get i h = Inr (Some a)"
proof -
  have s: "sub t (path i) \<noteq> Leaf" using assms(3-5) by (simp add: complete_n_def)
  then obtain l a r where "sub t (path i) = Node l a r" by (cases "sub t (path i)") auto
  moreover have "heap_get i h = Inr (root_of (sub t (path i)))"
    unfolding heap_get_def using heap_walk_sub [OF assms(1,4,6) order_refl s] assms(2) by simp
  ultimately show ?thesis by (auto simp: root_of_def)
qed

lemma heap_insert_ok:
  assumes inv: "heap_inv key h S" and x: "x \<notin> S" and bound: "hp_size h < 2 ^ 64 - 1"
  shows "\<exists>h'. heap_insert cmp x h = Inr h' \<and> heap_inv key h' (insert x S)"
proof -
  let ?n = "hp_size h"
  obtain t where t: "tree_at (hp_mem h) None t (hp_root h)" "distinct (inorder t)" "set_tree t = S"
    "complete_n ?n t" "hord key (hp_mem h) S" using inv by (auto simp: heap_inv_def)
  let ?m = "set_parent x None (set_right x None (set_left x None (hp_mem h)))"
  let ?h = "h\<lparr>hp_size := Suc ?n, hp_mem := ?m\<rparr>"
  have fr: "hm_parent ?m a = hm_parent (hp_mem h) a \<and> hm_left ?m a = hm_left (hp_mem h) a
      \<and> hm_right ?m a = hm_right (hp_mem h) a" if "a \<noteq> x" for a using that by (simp add: upd_apply)
  have mx: "hm_parent ?m x = None" "hm_left ?m x = None" "hm_right ?m x = None" by (simp_all add: upd_apply)
  show ?thesis
  proof (cases "hp_root h")
    case None
    then have "t = Leaf" using t(1) by (cases t) auto
    with t have S: "S = {}" "?n = 0" using complete_n_size [OF t(4)] by auto
    have "complete_n 1 (Node Leaf x Leaf)"
      unfolding complete_n_def
    proof (intro allI impI)
      fix i :: nat assume "1 \<le> i"
      moreover have "path i = [] \<longleftrightarrow> i = 1" using path_inj [of i 1] \<open>1 \<le> i\<close> by auto
      ultimately show "sub (Node Leaf x Leaf) (path i) \<noteq> Leaf \<longleftrightarrow> i \<le> 1" by (cases "path i") auto
    qed
    moreover have "heap_insert cmp x h = Inr (?h\<lparr>hp_root := Some x\<rparr>)" using None by (simp add: heap_insert_def Let_def)
    ultimately show ?thesis
      using S mx unfolding heap_inv_def by (intro exI [of _ "?h\<lparr>hp_root := Some x\<rparr>"] conjI exI [of _ "Node Leaf x Leaf"])
        (simp_all add: hord_def upd_apply)
  next
    case (Some z)
    have t1: "tree_at ?m None t (hp_root h)" by (rule tree_at_cong [OF t(1)]) (use fr t(3) x in metis)
    have n: "1 \<le> ?n" using complete_n_0 [of t] t(1,4) Some by (cases "?n") auto
    let ?N = "Suc ?n"
    have path: "path ?N = path (?N div 2) @ [odd ?N]" using n by (intro path_half) simp
    have half: "1 \<le> ?N div 2" "?N div 2 \<le> ?n" using n by (auto simp: div_le_dividend)
    then have half2: "?N div 2 < 2 ^ 64" using bound by linarith
    obtain l p r where p: "sub t (path (?N div 2)) = Node l p r" "heap_get (?N div 2) ?h = Inr (Some p)"
      using heap_get_ok [OF _ _ t(4) half half2, of ?m ?h] t1 by auto
    have pS: "p \<in> S" using sub_subset [of t "path (?N div 2)"] p(1) t(3) by auto
    then have px: "p \<noteq> x" using x by auto
    have slot: "sub t (path ?N) = Leaf" using t(4) unfolding complete_n_def by (metis Suc_n_not_le_n le_add1 plus_1_eq_Suc)
    have "(if odd ?N then r else l) = Leaf" using slot p(1) unfolding path sub_append by (auto split: if_splits)
    then have empty: "(if odd ?N then hm_right ?m p else hm_left ?m p) = None"
      using sub_at [OF t1 p(1)] by (auto split: if_splits)
    let ?m1 = "set_parent x (Some p) (if odd ?N then set_right p (Some x) ?m else set_left p (Some x) ?m)"
    let ?u = "Node Leaf x Leaf" and ?b = "odd ?N" and ?bs = "path (?N div 2)"
    let ?t = "put t (?bs @ [?b]) ?u"
    have at: "tree_at ?m1 None ?t (hp_root h)"
      by (rule put_at [OF t1 t(2) p(1), of _ _ "Some x"]) (use px mx x t(3) in \<open>auto simp: upd_apply\<close>)
    have ms: "mset (inorder ?t) = add_mset x (mset (inorder t))"
      by (rule inorder_put_insert [OF p(1)]) (use slot path in simp)
    have set: "set_tree ?t = insert x S" using arg_cong [OF ms, of set_mset] t(3) by simp
    have dist: "distinct (inorder ?t)"
    proof -
      have "distinct (x # inorder t)" using t(2,3) x by simp
      moreover have "mset (x # inorder t) = mset (inorder ?t)" using ms by simp
      ultimately show ?thesis by (metis mset_eq_imp_distinct_iff)
    qed
    have pos: "sub ?t (?bs @ [?b]) = Node Leaf x Leaf" by (rule sub_put_same [OF p(1)])
    have len: "length (?bs @ [?b]) < ?N" using path_length [of ?N] path by simp
    have ord: "hord_above key x ?m1 (set_tree ?t)"
      using t(5) x mx px unfolding set hord_above_def hord_def child_def by (auto simp: upd_apply)
    from bubble_up_ok [OF at dist pos len ord] obtain m' t' par where
      b: "bubble_up ?N cmp x (hm_parent ?m1 x) ?m1 = Inr (par, m')"
      "tree_at m' None t' (if par = None then Some x else hp_root h)" "distinct (inorder t')"
      "set_tree t' = insert x S" "same_shape ?t t'" "hord key m' (insert x S)" using set by auto
    have comp: "complete_n ?N t'"
      using complete_n_shape [OF b(5)] complete_n_insert [OF t(4) path p(1)] by blast
    let ?h' = "?h\<lparr>hp_mem := m', hp_root := (if par = None then Some x else hp_root h)\<rparr>"
    have "hm_parent ?m1 x = Some p" by (simp add: upd_apply)
    with b(1) have up: "bubble_up ?N cmp x (Some p) ?m1 = Inr (par, m')" by (simp only:)
    have "rbind (if odd ?N
          then if hm_right ?m p \<noteq> None then Inl (EPlayer HeapSlotTaken) else Inr (set_right p (Some x) ?m)
          else if hm_left ?m p \<noteq> None then Inl (EPlayer HeapSlotTaken) else Inr (set_left p (Some x) ?m))
        (\<lambda>m. rbind (bubble_up ?N cmp x (Some p) (set_parent x (Some p) m)) k)
      = rbind (bubble_up ?N cmp x (Some p) ?m1) k" for k :: "nat option \<times> hmem \<Rightarrow> heap res"
      using empty by (simp del: bubble_up.simps link_sel split: if_splits)
    then have "heap_insert cmp x h = Inr ?h'"
      using Some p(2) up unfolding heap_insert_def Let_def by (simp del: bubble_up.simps link_sel)
    moreover have "heap_inv key ?h' (insert x S)"
      unfolding heap_inv_def using b comp by (intro exI [of _ t']) (simp split: if_splits)
    ultimately show ?thesis by blast
  qed
qed

text \<open>The memory once the last node \<open>c\<close> has taken the place of the root \<open>mx\<close>, in the tree without its last place.\<close>

definition pop_links :: "nat \<Rightarrow> nat \<Rightarrow> hmem \<Rightarrow> hmem \<Rightarrow> nat \<Rightarrow> bool" where
  "pop_links mx c m0 m1 x \<longleftrightarrow>
     hm_parent m1 x = (if x = c then None else if child m0 mx x then Some c else hm_parent m0 x)
     \<and> hm_left m1 x = (if x = c then hm_left m0 mx else hm_left m0 x)
     \<and> hm_right m1 x = (if x = c then hm_right m0 mx else hm_right m0 x)"

lemma pop_renames:
  assumes t: "tree_at m0 None t (Some mx)" "distinct (inorder t)" and c: "c \<notin> set_tree t" and a: "a \<in> set_tree t"
    and links: "\<And>x. x \<in> insert c (set_tree t) \<Longrightarrow> x \<noteq> mx \<Longrightarrow> pop_links mx c m0 m1 x"
  shows "renames (\<lambda>x. if x = mx then c else x) m0 m1 a"
proof -
  let ?S = "set_tree t"
  have L: "linked m0 ?S" using tree_at_linked [OF t] .
  have mx: "mx \<in> ?S" "hm_parent m0 mx = None" using tree_at_root [OF t(1)] by auto
  have noroot: "\<not> child m0 y mx" if "y \<in> ?S" for y using linkedD(2) [OF L that] mx(2) by auto
  show ?thesis
  proof (cases "a = mx")
    case True
    have "pop_links mx c m0 m1 c" using links [of c] c mx(1) by auto
    then show ?thesis using True mx(2) noroot [OF mx(1)]
      by (auto simp: renames_def pop_links_def child_def option.map_ident_strong intro!: option.map_ident_strong [symmetric])
  next
    case False
    have ac: "a \<noteq> c" using a c by auto
    have "hm_parent m0 a = Some mx \<longleftrightarrow> child m0 mx a" using linkedD(2) [OF L mx(1)] linkedD(5) [OF L a] by blast
    moreover have "pop_links mx c m0 m1 a" using links [of a] a False by auto
    ultimately show ?thesis using False ac noroot [OF a]
      by (cases "hm_parent m0 a"; cases "hm_left m0 a"; cases "hm_right m0 a") (auto simp: renames_def pop_links_def child_def)
  qed
qed

lemma pop_mem_ok:
  assumes c: "hm_left m c = None" "hm_right m c = None" "c \<noteq> mx" "c \<noteq> p" and p: "(if b then hm_right m p else hm_left m p) = Some c"
    and uniq: "child m mx c \<Longrightarrow> p = mx" "hm_left m p = Some c \<Longrightarrow> hm_right m p \<noteq> Some c"
    and m0: "m0 = (if b then set_right p None m else set_left p None m)"
  shows "\<exists>m1. pop_mem b mx p c m = Inr m1 \<and> (\<forall>x. x \<noteq> mx \<longrightarrow> pop_links mx c m0 (set_parent c None m1) x)"
proof (cases "p = mx")
  case True
  show ?thesis
  proof (cases b)
    case True
    then show ?thesis using c p uniq m0 \<open>p = mx\<close> by (auto simp: pop_mem_def pop_links_def child_def Let_def upd_apply)
  next
    case False
    then show ?thesis using c p uniq m0 \<open>p = mx\<close> by (auto simp: pop_mem_def pop_links_def child_def Let_def upd_apply)
  qed
next
  case False
  have "\<not> child m mx c" using uniq(1) False by blast
  then show ?thesis using c p False m0
    by (cases b) (auto simp: pop_mem_def pop_links_def child_def Let_def upd_apply)
qed

lemma heap_pop_max_eq:
  "hp_root h = Some mx \<Longrightarrow> heap_get (hp_size h) h = Inr (Some c) \<Longrightarrow> hm_parent (hp_mem h) c = Some p \<Longrightarrow>
     heap_pop_max cmp h = rbind (pop_mem (odd (hp_size h)) mx p c (hp_mem h)) (\<lambda>m.
       rbind (heap_max_heapify cmp c (h\<lparr>hp_size := hp_size h - 1, hp_mem := set_parent c None m, hp_root := Some c\<rparr>))
         (\<lambda>h2. Inr (Some mx, h2)))"
  by (simp add: heap_pop_max_def Let_def)

lemma heap_pop_ok:
  assumes inv: "heap_inv key h S" and bound: "hp_size h < 2 ^ 64"
  shows "S = {} \<and> heap_pop_max cmp h = Inr (None, h)
    \<or> (\<exists>x h'. x \<in> S \<and> (\<forall>y \<in> S. key y \<le> key x) \<and> heap_pop_max cmp h = Inr (Some x, h') \<and> heap_inv key h' (S - {x}))"
proof -
  let ?n = "hp_size h" and ?m = "hp_mem h"
  obtain t where t: "tree_at ?m None t (hp_root h)" "distinct (inorder t)" "set_tree t = S"
    "complete_n ?n t" "hord key ?m S" using inv by (auto simp: heap_inv_def)
  show ?thesis
  proof (cases "hp_root h")
    case None
    then have "t = Leaf" using t(1) by (cases t) auto
    with t(3) None show ?thesis by (simp add: heap_pop_max_def)
  next
    case (Some mx)
    have n: "1 \<le> ?n" using complete_n_0 [of t] t(1,4) Some by (cases "?n") auto
    have at: "tree_at ?m None t (Some mx)" using t(1) Some by simp
    have mx: "mx \<in> S" "hm_parent ?m mx = None" using tree_at_root [OF at] t(3) by auto
    have max: "\<forall>y \<in> S. key y \<le> key mx" using hord_root_max [OF at] t(3,5) by simp
    obtain c where leaf: "sub t (path ?n) = Node Leaf c Leaf" using complete_n_leaf [OF t(4) n] by blast
    then have get: "heap_get ?n h = Inr (Some c)" using heap_get_ok [OF t(1) refl t(4) n order_refl bound] by auto
    have cS: "c \<in> S" using sub_subset [of t "path ?n"] leaf t(3) by auto
    show ?thesis
    proof (cases "?n = 1")
      case True
      then have "t = Node Leaf c Leaf" using leaf by simp
      with at t(3) have "c = mx" "S = {mx}" by auto
      then have "heap_pop_max cmp h = Inr (Some mx, h\<lparr>hp_size := 0, hp_root := None\<rparr>)"
        using Some get mx(2) True by (simp add: heap_pop_max_def)
      moreover have "heap_inv key (h\<lparr>hp_size := 0, hp_root := None\<rparr>) {}"
        unfolding heap_inv_def by (rule exI [of _ Leaf]) (simp add: complete_n_0 hord_def)
      ultimately show ?thesis using max mx(1) \<open>S = {mx}\<close> by auto
    next
      case False
      obtain k where k: "?n = Suc k" "1 \<le> k" using n False by (cases "?n") auto
      let ?bs = "path (?n div 2)" and ?b = "odd ?n"
      have path: "path ?n = ?bs @ [?b]" using k by (intro path_half) simp
      obtain l p r where p: "sub t ?bs = Node l p r" "hm_parent ?m c = Some p"
        "(if ?b then hm_right ?m p else hm_left ?m p) = Some c"
        using sub_snoc [OF t(1) leaf [unfolded path]] by blast
      note L = tree_at_linked [OF t(1,2), unfolded t(3)]
      have pS: "p \<in> S" and pc: "child ?m p c" using linkedD(4,5) [OF L cS p(2)] by auto
      have cnm: "c \<noteq> mx" using mx(2) p(2) by auto
      have cnp: "c \<noteq> p" using linked_rank [OF L] pS pc by (metis less_irrefl)
      have cl: "hm_left ?m c = None" "hm_right ?m c = None" using sub_at [OF t(1) leaf] by auto
      let ?mz = "if ?b then set_right p None ?m else set_left p None ?m"
      let ?tz = "put t (?bs @ [?b]) Leaf"
      have at0: "tree_at ?mz None ?tz (Some mx)"
        by (rule put_at [OF at t(2) p(1), of _ _ None]) (auto simp: upd_apply)
      have ms: "add_mset c (mset (inorder ?tz)) = mset (inorder t)"
        by (rule inorder_put_remove [OF p(1)]) (use leaf path in simp)
      have d: "distinct (c # inorder ?tz)" using t(2) ms mset_eq_imp_distinct_iff [of "c # inorder ?tz" "inorder t"] by simp
      then have dist0: "distinct (inorder ?tz)" and c0: "c \<notin> set_tree ?tz" by auto
      have "insert c (set_tree ?tz) = S" using arg_cong [OF ms, of set_mset] t(3) by simp
      then have set0: "set_tree ?tz = S - {c}" using c0 by auto
      have u: "p = mx" if "child ?m mx c" using linkedD(2) [OF L mx(1) that] p(2) by simp
      obtain m1 where m1: "pop_mem ?b mx p c ?m = Inr m1"
        "\<And>x. x \<noteq> mx \<Longrightarrow> pop_links mx c ?mz (set_parent c None m1) x"
        using pop_mem_ok [OF cl cnm cnp p(3) u _ refl] linkedD(3) [OF L pS] by blast
      let ?f = "\<lambda>x. if x = mx then c else x" and ?mf = "set_parent c None m1"
      let ?t1 = "map_tree ?f ?tz"
      have at1: "tree_at ?mf None ?t1 (Some c)"
        using tree_at_rename [OF at0 pop_renames [OF at0 dist0 c0 _ m1(2)]] by simp
      have inj: "inj_on ?f (set_tree ?tz)" using c0 by (auto simp: inj_on_def)
      have dist1: "distinct (inorder ?t1)" using dist0 inj by (simp add: inorder_map distinct_map)
      have set1: "set_tree ?t1 = S - {mx}" using set0 mx(1) cS cnm by (auto simp: tree.set_map image_iff)
      have comp1: "complete_n k ?t1"
        using complete_n_remove [of k t] t(4) path p(1) k(1) by (simp add: complete_n_map)
      let ?h = "h\<lparr>hp_size := ?n - 1, hp_mem := ?mf, hp_root := Some c\<rparr>"
      have par: "hm_parent ?mf x = (if x = c then None else if child ?mz mx x then Some c else hm_parent ?m x)"
        if "x \<noteq> mx" for x using m1(2) [OF that] by (simp add: pop_links_def split: if_splits)
      have ord1: "hord_below key c ?mf (set_tree ?t1)"
        using par [of c] par cnm t(5) unfolding hord_below_def hord_def set1 by (auto split: if_splits)
      from heap_max_heapify_ok [of ?h ?t1 c] at1 dist1 ord1 complete_n_size [OF comp1] k(1) obtain h' t' where
        h': "heap_max_heapify cmp c ?h = Inr h'" "tree_at (hp_mem h') None t' (hp_root h')" "distinct (inorder t')"
        "set_tree t' = S - {mx}" "same_shape ?t1 t'" "hord key (hp_mem h') (S - {mx})" "hp_size h' = k"
        unfolding set1 by auto
      have "heap_inv key h' (S - {mx})"
        unfolding heap_inv_def using h' complete_n_shape [OF h'(5) comp1] by blast
      moreover have "heap_pop_max cmp h = Inr (Some mx, h')"
        using heap_pop_max_eq [OF Some get p(2)] m1(1) h'(1) by simp
      ultimately show ?thesis using max mx(1) by blast
    qed
  qed
qed

end

end
