(* ===== verification/Player.thy ===== *)
theory Player
  imports Stream Heap
begin

text \<open>
  The player: \<^verbatim>\<open>src/emu/player.c\<close>, which merges the streams of a trace by clock.

  A stream is named by its address, which is also the name of its heap node. \<open>pl_mem\<close> is the memory of the streams
  and \<open>pl_trace\<close> the list of the streams of the trace. \<^verbatim>\<open>step_stream\<close> and \<^verbatim>\<open>player_step\<close> return 1 when there are no
  more events, \<open>True\<close> in the model.
\<close>

subsection \<open>Data and operations\<close>

record player =
  pl_heap :: heap
  pl_first_event :: bool
  pl_firstclock :: int
  pl_lastclock :: int
  pl_deltaclock :: int
  pl_nprocessed :: nat
  pl_unsorted :: bool
  pl_stream :: "nat option"
  pl_ev :: emu_ev
  pl_trace :: "nat list"
  pl_mem :: "nat \<Rightarrow> stream"

definition stream_cmp :: "(nat \<Rightarrow> stream) \<Rightarrow> nat \<Rightarrow> nat \<Rightarrow> int" where
  "stream_cmp mem a b =
     (let ca = st_lastclock (mem a); cb = st_lastclock (mem b) in
      if ca < cb then 1 else if ca > cb then -1 else 0)"

definition step_stream :: "nat \<Rightarrow> player \<Rightarrow> (bool \<times> player) res" where
  "step_stream s pl =
     (if \<not> st_active (pl_mem pl s) then Inr (True, pl)
      else rbind (stream_step (pl_mem pl s)) (\<lambda>(ended, st).
        let mem = (pl_mem pl)(s := st) in
        if ended then Inr (True, pl\<lparr>pl_mem := mem\<rparr>)
        else rbind (heap_insert (stream_cmp mem) s (pl_heap pl)) (\<lambda>h.
          Inr (False, pl\<lparr>pl_mem := mem, pl_heap := h, pl_nprocessed := Suc (pl_nprocessed pl)\<rparr>))))"

text \<open>The loop of \<^verbatim>\<open>check_clock_gate\<close>, with the clock of the first stream that has an event, if it was found.\<close>

definition maxgate :: int where "maxgate = 3600 * 1000 * 1000 * 1000"

fun clock_gate :: "int option \<Rightarrow> stream list \<Rightarrow> bool" where
  "clock_gate first [] = True"
| "clock_gate first (st # sts) =
     (case (if st_active st then stream_ev st else None) of
        None \<Rightarrow> clock_gate first sts
      | Some oev \<Rightarrow>
          let sclock = stream_evclock oev st; t0 = (case first of None \<Rightarrow> sclock | Some t \<Rightarrow> t) in
          \<bar>c_int64 (t0 - sclock)\<bar> \<le> maxgate \<and> clock_gate (Some t0) sts)"

definition check_clock_gate :: "player \<Rightarrow> unit res" where
  "check_clock_gate pl =
     (if clock_gate None (map (pl_mem pl) (pl_trace pl)) then Inr () else Inl (EPlayer PlayerClockGate))"

text \<open>\<open>ev\<close> is the content of a zeroed event.\<close>

definition zero_ev :: emu_ev where
  "zero_ev = \<lparr>ev_m = 0, ev_c = 0, ev_v = 0, ev_rclock = 0, ev_sclock = 0, ev_dclock = 0, ev_has_payload = False,
     ev_payload_size = 0, ev_is_jumbo = False, ev_payload = None\<rparr>"

definition player_start :: "nat \<Rightarrow> player \<Rightarrow> player res" where
  "player_start s pl =
     (let pl1 = (if pl_unsorted pl then pl\<lparr>pl_mem := (pl_mem pl)(s := stream_allow_unsorted (pl_mem pl s))\<rparr> else pl)
      in rbind (step_stream s pl1) (\<lambda>(_, pl2). Inr pl2))"

definition player_init :: "nat list \<Rightarrow> (nat \<Rightarrow> stream) \<Rightarrow> hmem \<Rightarrow> bool \<Rightarrow> player res" where
  "player_init trace mem nodes unsorted =
     rbind (foldr_res player_start trace
       \<lparr>pl_heap = heap_init nodes, pl_first_event = True, pl_firstclock = 0, pl_lastclock = 0, pl_deltaclock = 0,
        pl_nprocessed = 0, pl_unsorted = unsorted, pl_stream = None, pl_ev = zero_ev, pl_trace = trace, pl_mem = mem\<rparr>)
     (\<lambda>pl. if unsorted then Inr pl else rbind (check_clock_gate pl) (\<lambda>_. Inr pl))"

definition update_clocks :: "stream \<Rightarrow> player \<Rightarrow> player res" where
  "update_clocks st pl =
     (let sclock = st_lastclock st;
          pl1 = (if pl_first_event pl
                 then pl\<lparr>pl_first_event := False, pl_firstclock := sclock, pl_lastclock := sclock\<rparr> else pl) in
      if sclock < pl_lastclock pl1 \<and> \<not> pl_unsorted pl1 then Inl (EPlayer PlayerBackwards)
      else Inr (pl1\<lparr>pl_lastclock := sclock, pl_deltaclock := c_int64 (sclock - pl_firstclock pl1)\<rparr>))"

definition player_step :: "player \<Rightarrow> (bool \<times> player) res" where
  "player_step pl =
     rbind (case pl_stream pl of None \<Rightarrow> Inr (True, pl) | Some s \<Rightarrow> step_stream s pl) (\<lambda>(_, pl1).
     rbind (heap_pop_max (stream_cmp (pl_mem pl1)) (pl_heap pl1)) (\<lambda>(node, h).
       let pl2 = pl1\<lparr>pl_heap := h\<rparr> in
       case node of
         None \<Rightarrow> Inr (True, pl2)
       | Some s \<Rightarrow>
           rbind (update_clocks (pl_mem pl2 s) pl2) (\<lambda>pl3.
             case stream_ev (pl_mem pl3 s) of
               None \<Rightarrow> Inl (EPlayer HeapGetFailed)
             | Some oev \<Rightarrow>
                 Inr (False, pl3\<lparr>pl_stream := Some s,
                             pl_ev := emu_ev (pl_ev pl3) oev (pl_lastclock pl3) (pl_deltaclock pl3)\<rparr>))))"

subsection \<open>The heap of streams\<close>

text \<open>The comparison orders by decreasing clock, so the maximum is a stream with the least clock.\<close>

definition stream_key :: "(nat \<Rightarrow> stream) \<Rightarrow> nat \<Rightarrow> int" where
  "stream_key mem s = - st_lastclock (mem s)"

interpretation stream_heap: heap_cmp "stream_cmp mem" "stream_key mem" for mem
  by unfold_locales (auto simp: stream_cmp_def stream_key_def Let_def)

text \<open>C13. Inserting a stream in the heap: the pointers of the nodes keep forming a complete binary tree in which no
  stream has a lower clock than its parent, now with the new stream. Neither an error of the code nor the
  bound of a loop is reached.\<close>

theorem heap_insert_refines:
  assumes "heap_inv (stream_key mem) h S" and "s \<notin> S" and "hp_size h < 2 ^ 64 - 1"
  shows "\<exists>h'. heap_insert (stream_cmp mem) s h = Inr h' \<and> heap_inv (stream_key mem) h' (insert s S)"
  using stream_heap.heap_insert_ok [OF assms] .

text \<open>C12. Extracting from the heap: it gives nothing exactly when the heap has no stream, and otherwise a stream with the least
  clock, and the pointers of the remaining nodes form a complete binary tree in heap order again.\<close>

theorem heap_pop_refines:
  assumes "heap_inv (stream_key mem) h S" and "hp_size h < 2 ^ 64"
  shows "S = {} \<and> heap_pop_max (stream_cmp mem) h = Inr (None, h)
    \<or> (\<exists>s h'. s \<in> S \<and> (\<forall>x \<in> S. st_lastclock (mem s) \<le> st_lastclock (mem x))
         \<and> heap_pop_max (stream_cmp mem) h = Inr (Some s, h') \<and> heap_inv (stream_key mem) h' (S - {s}))"
  using stream_heap.heap_pop_ok [OF assms] by (simp add: stream_key_def)

subsection \<open>The invariant of the player\<close>

text \<open>The streams in the heap have a current event; the one that is playing is not in the heap.\<close>

definition player_inv :: "player \<Rightarrow> nat set \<Rightarrow> bool" where
  "player_inv pl S \<longleftrightarrow> heap_inv (stream_key (pl_mem pl)) (pl_heap pl) S \<and> S \<subseteq> set (pl_trace pl)
     \<and> length (pl_trace pl) < 2 ^ 64 - 1 \<and> (\<forall>s \<in> set (pl_trace pl). stream_wf (pl_mem pl s))
     \<and> (\<forall>s \<in> S. st_cur_ev (pl_mem pl s) \<noteq> None)
     \<and> (\<forall>s. pl_stream pl = Some s \<longrightarrow> s \<in> set (pl_trace pl) \<and> s \<notin> S)"

text \<open>In a player that does not allow unsorted streams the clock of the player is at most that of every stream of
  the heap.\<close>

definition player_sorted :: "player \<Rightarrow> nat set \<Rightarrow> bool" where
  "player_sorted pl S \<longleftrightarrow> \<not> pl_unsorted pl \<and> (\<forall>s \<in> set (pl_trace pl). \<not> st_unsorted (pl_mem pl s))
     \<and> (if pl_first_event pl then pl_stream pl = None
        else (\<forall>s \<in> S. pl_lastclock pl \<le> st_lastclock (pl_mem pl s))
          \<and> (\<forall>s. pl_stream pl = Some s \<longrightarrow> st_lastclock (pl_mem pl s) = pl_lastclock pl \<or> \<not> st_active (pl_mem pl s)))"

lemma heap_inv_key:
  assumes "heap_inv key h S" and "\<And>x. x \<in> S \<Longrightarrow> key' x = key x"
  shows "heap_inv key' h S"
proof -
  obtain t where t: "tree_at (hp_mem h) None t (hp_root h)" "distinct (inorder t)" "set_tree t = S"
    "complete_n (hp_size h) t" "hord key (hp_mem h) S" using assms(1) by (auto simp: heap_inv_def)
  have "hord key' (hp_mem h) S"
    unfolding hord_def
  proof (intro ballI allI impI)
    fix c p assume c: "c \<in> S" "hm_parent (hp_mem h) c = Some p"
    have "p \<in> S" using linkedD(4) [OF tree_at_linked [OF t(1,2), unfolded t(3)] c] .
    moreover have "key c \<le> key p" using t(5) c unfolding hord_def by blast
    ultimately show "key' c \<le> key' p" using assms(2) [of c] assms(2) [of p] c(1) by simp
  qed
  with t show ?thesis unfolding heap_inv_def by blast
qed

lemma player_inv_size:
  assumes "player_inv pl S"
  shows "hp_size (pl_heap pl) \<le> length (pl_trace pl)" "hp_size (pl_heap pl) < 2 ^ 64 - 1"
proof -
  have S: "S \<subseteq> set (pl_trace pl)" "card S = hp_size (pl_heap pl)"
    using assms stream_heap.heap_inv_size [of "pl_mem pl" "pl_heap pl" S] by (auto simp: player_inv_def)
  have "card S \<le> card (set (pl_trace pl))" using S(1) by (intro card_mono) auto
  also have "\<dots> \<le> length (pl_trace pl)" by (rule card_length)
  finally show "hp_size (pl_heap pl) \<le> length (pl_trace pl)" using S(2) by simp
  then show "hp_size (pl_heap pl) < 2 ^ 64 - 1" using assms unfolding player_inv_def by linarith
qed

text \<open>Stepping a stream fails only when the stream does.\<close>

lemma step_stream_ok:
  assumes inv: "player_inv pl S" and s: "s \<in> set (pl_trace pl)" "s \<notin> S"
    and step: "stream_step (pl_mem pl s) = Inr (ended, st)" "st_active (pl_mem pl s)"
  shows "\<exists>h. step_stream s pl = Inr (ended, pl\<lparr>pl_mem := (pl_mem pl)(s := st), pl_heap := h,
        pl_nprocessed := (if ended then pl_nprocessed pl else Suc (pl_nprocessed pl))\<rparr>)
      \<and> heap_inv (stream_key ((pl_mem pl)(s := st))) h (if ended then S else insert s S)"
proof -
  let ?mem = "(pl_mem pl)(s := st)"
  have h: "heap_inv (stream_key ?mem) (pl_heap pl) S"
  proof (rule heap_inv_key)
    show "heap_inv (stream_key (pl_mem pl)) (pl_heap pl) S" using inv by (simp add: player_inv_def)
  qed (use s(2) in \<open>auto simp: stream_key_def\<close>)
  show ?thesis
  proof (cases ended)
    case True
    with step h show ?thesis by (intro exI [of _ "pl_heap pl"]) (simp add: step_stream_def)
  next
    case False
    from stream_heap.heap_insert_ok [OF h s(2) player_inv_size(2) [OF inv]] obtain h' where
      "heap_insert (stream_cmp ?mem) s (pl_heap pl) = Inr h'" "heap_inv (stream_key ?mem) h' (insert s S)" by blast
    with False step show ?thesis by (intro exI [of _ h']) (simp add: step_stream_def Let_def)
  qed
qed

lemma step_stream_inv:
  assumes inv: "player_inv pl S" and s: "s \<in> set (pl_trace pl)" "s \<notin> S" and ok: "step_stream s pl = Inr (ended, pl')"
  shows "\<exists>st h n. pl' = pl\<lparr>pl_mem := (pl_mem pl)(s := st), pl_heap := h, pl_nprocessed := n\<rparr>
      \<and> heap_inv (stream_key (pl_mem pl')) h (if ended then S else insert s S) \<and> stream_wf st
      \<and> (\<not> ended \<longrightarrow> st_cur_ev st \<noteq> None) \<and> st_unsorted st = st_unsorted (pl_mem pl s)
      \<and> (ended \<longrightarrow> \<not> st_active st)
      \<and> (\<not> st_unsorted (pl_mem pl s) \<and> \<not> ended \<longrightarrow> st_lastclock (pl_mem pl s) \<le> st_lastclock st)"
proof (cases "st_active (pl_mem pl s)")
  case False
  have "stream_wf (pl_mem pl s)" "heap_inv (stream_key (pl_mem pl)) (pl_heap pl) S" using inv s(1) by (auto simp: player_inv_def)
  then show ?thesis using False ok
    by (intro exI [of _ "pl_mem pl s"] exI [of _ "pl_heap pl"] exI [of _ "pl_nprocessed pl"]) (auto simp: step_stream_def)
next
  case True
  have wf: "stream_wf (pl_mem pl s)" using inv s(1) by (auto simp: player_inv_def)
  from ok True obtain e st where st: "stream_step (pl_mem pl s) = Inr (e, st)" by (auto simp: step_stream_def)
  from step_stream_ok [OF inv s st True] obtain h where
    h: "step_stream s pl = Inr (e, pl\<lparr>pl_mem := (pl_mem pl)(s := st), pl_heap := h,
        pl_nprocessed := (if e then pl_nprocessed pl else Suc (pl_nprocessed pl))\<rparr>)"
      "heap_inv (stream_key ((pl_mem pl)(s := st))) h (if e then S else insert s S)" by blast
  note ev = stream_step_event' [OF wf st] and wf' = stream_step_wf [OF wf st]
  have e: "e = ended" using h(1) ok by simp
  show ?thesis
    by (rule exI [of _ st], rule exI [of _ h],
        rule exI [of _ "if e then pl_nprocessed pl else Suc (pl_nprocessed pl)"])
      (use h ok ev wf' e in \<open>auto split: if_splits\<close>)
qed

text \<open>The first half of \<^verbatim>\<open>player_step\<close>, which puts the stream that was playing back.\<close>

definition player_back :: "player \<Rightarrow> (bool \<times> player) res" where
  "player_back pl = (case pl_stream pl of None \<Rightarrow> Inr (True, pl) | Some s \<Rightarrow> step_stream s pl)"

lemma player_back_inv:
  assumes inv: "player_inv pl S" and ok: "player_back pl = Inr (r, pl1)"
  shows "\<exists>S1. S1 = (case pl_stream pl of None \<Rightarrow> S | Some s \<Rightarrow> if r then S else insert s S)
    \<and> player_inv (pl1\<lparr>pl_stream := None\<rparr>) S1 \<and> pl_stream pl1 = pl_stream pl \<and> pl_trace pl1 = pl_trace pl
    \<and> pl_lastclock pl1 = pl_lastclock pl \<and> pl_first_event pl1 = pl_first_event pl \<and> pl_unsorted pl1 = pl_unsorted pl
    \<and> (\<forall>s. pl_stream pl = Some s \<longrightarrow> s \<in> S1 \<or> \<not> st_active (pl_mem pl1 s))
    \<and> (player_sorted pl S \<longrightarrow> player_sorted (pl1\<lparr>pl_stream := None\<rparr>) S1)"
proof (cases "pl_stream pl")
  case None
  with ok have "pl1 = pl" by (simp add: player_back_def)
  with inv None show ?thesis by (intro exI [of _ S]) (auto simp: player_inv_def player_sorted_def)
next
  case (Some s)
  then have s: "s \<in> set (pl_trace pl)" "s \<notin> S" using inv by (auto simp: player_inv_def)
  from ok Some have "step_stream s pl = Inr (r, pl1)" by (simp add: player_back_def)
  from step_stream_inv [OF inv s this] obtain st h n where
    pl1: "pl1 = pl\<lparr>pl_mem := (pl_mem pl)(s := st), pl_heap := h, pl_nprocessed := n\<rparr>"
    and h: "heap_inv (stream_key (pl_mem pl1)) h (if r then S else insert s S)" and st: "stream_wf st"
    "\<not> r \<longrightarrow> st_cur_ev st \<noteq> None" "st_unsorted st = st_unsorted (pl_mem pl s)"
    "\<not> st_unsorted (pl_mem pl s) \<and> \<not> r \<longrightarrow> st_lastclock (pl_mem pl s) \<le> st_lastclock st"
    "r \<longrightarrow> \<not> st_active st" by blast
  let ?S = "if r then S else insert s S"
  have act: "st_active (pl_mem pl s)" if "\<not> r" using \<open>step_stream s pl = Inr (r, pl1)\<close> that
    by (auto simp: step_stream_def split: if_splits)
  have "player_inv (pl1\<lparr>pl_stream := None\<rparr>) ?S" using inv s h st by (auto simp: pl1 player_inv_def split: if_splits)
  moreover have "player_sorted (pl1\<lparr>pl_stream := None\<rparr>) ?S" if so: "player_sorted pl S"
  proof -
    have f: "\<not> pl_first_event pl" "\<not> st_unsorted (pl_mem pl s)" "\<not> pl_unsorted pl"
      "\<And>x. x \<in> S \<Longrightarrow> pl_lastclock pl \<le> st_lastclock (pl_mem pl x)"
      "st_active (pl_mem pl s) \<Longrightarrow> st_lastclock (pl_mem pl s) = pl_lastclock pl"
      "\<And>x. x \<in> set (pl_trace pl) \<Longrightarrow> \<not> st_unsorted (pl_mem pl x)"
      using so Some s by (auto simp: player_sorted_def split: if_splits)
    have "pl_lastclock pl \<le> st_lastclock st" if "\<not> r" using that act f st(4) by simp
    with f st(3) s(2) show ?thesis by (auto simp: player_sorted_def pl1)
  qed
  ultimately show ?thesis using pl1 Some st(5) by (intro exI [of _ ?S]) simp
qed

lemma player_step_eq:
  "player_step pl = rbind (player_back pl) (\<lambda>(_, pl1).
     rbind (heap_pop_max (stream_cmp (pl_mem pl1)) (pl_heap pl1)) (\<lambda>(node, h).
       let pl2 = pl1\<lparr>pl_heap := h\<rparr> in
       case node of
         None \<Rightarrow> Inr (True, pl2)
       | Some s \<Rightarrow>
           rbind (update_clocks (pl_mem pl2 s) pl2) (\<lambda>pl3.
             case stream_ev (pl_mem pl3 s) of
               None \<Rightarrow> Inl (EPlayer HeapGetFailed)
             | Some oev \<Rightarrow>
                 Inr (False, pl3\<lparr>pl_stream := Some s,
                             pl_ev := emu_ev (pl_ev pl3) oev (pl_lastclock pl3) (pl_deltaclock pl3)\<rparr>))))"
  by (simp add: player_step_def player_back_def)

text \<open>The second half: it takes a stream with the least clock out of the heap.\<close>

lemma player_pop:
  assumes bk: "player_back pl = Inr (r, pl1)" and inv: "player_inv (pl1\<lparr>pl_stream := None\<rparr>) S"
    and so: "player_sorted (pl1\<lparr>pl_stream := None\<rparr>) S"
  shows "S = {} \<and> player_step pl = Inr (True, pl1)
    \<or> (\<exists>s pl' oev. s \<in> S \<and> player_step pl = Inr (False, pl') \<and> pl_stream pl' = Some s
        \<and> (\<forall>x \<in> S. st_lastclock (pl_mem pl1 s) \<le> st_lastclock (pl_mem pl1 x))
        \<and> pl_mem pl' = pl_mem pl1 \<and> pl_trace pl' = pl_trace pl1 \<and> player_inv pl' (S - {s}) \<and> player_sorted pl' (S - {s})
        \<and> \<not> pl_first_event pl' \<and> pl_lastclock pl' = st_lastclock (pl_mem pl1 s)
        \<and> (\<not> pl_first_event pl1 \<longrightarrow> pl_lastclock pl1 \<le> pl_lastclock pl' \<and> pl_firstclock pl' = pl_firstclock pl1)
        \<and> (pl_first_event pl1 \<longrightarrow> pl_firstclock pl' = pl_lastclock pl')
        \<and> pl_deltaclock pl' = c_int64 (pl_lastclock pl' - pl_firstclock pl')
        \<and> stream_ev (pl_mem pl1 s) = Some oev
        \<and> pl_ev pl' = emu_ev (pl_ev pl1) oev (pl_lastclock pl') (pl_deltaclock pl'))"
proof -
  have h: "heap_inv (stream_key (pl_mem pl1)) (pl_heap pl1) S" using inv by (simp add: player_inv_def)
  have size: "hp_size (pl_heap pl1) < 2 ^ 64" using player_inv_size(2) [OF inv] by simp
  have nu: "\<not> pl_unsorted pl1" using so by (simp add: player_sorted_def)
  from stream_heap.heap_pop_ok [OF h size] show ?thesis
  proof
    assume "S = {} \<and> heap_pop_max (stream_cmp (pl_mem pl1)) (pl_heap pl1) = Inr (None, pl_heap pl1)"
    then show ?thesis using bk by (simp add: player_step_eq)
  next
    assume "\<exists>x h'. x \<in> S \<and> (\<forall>y \<in> S. stream_key (pl_mem pl1) y \<le> stream_key (pl_mem pl1) x)
      \<and> heap_pop_max (stream_cmp (pl_mem pl1)) (pl_heap pl1) = Inr (Some x, h')
      \<and> heap_inv (stream_key (pl_mem pl1)) h' (S - {x})"
    then obtain s h' where s: "s \<in> S" "\<And>x. x \<in> S \<Longrightarrow> st_lastclock (pl_mem pl1 s) \<le> st_lastclock (pl_mem pl1 x)"
      and pop: "heap_pop_max (stream_cmp (pl_mem pl1)) (pl_heap pl1) = Inr (Some s, h')"
      and h': "heap_inv (stream_key (pl_mem pl1)) h' (S - {s})" by (auto simp: stream_key_def)
    have cur: "st_cur_ev (pl_mem pl1 s) \<noteq> None" "s \<in> set (pl_trace pl1)" using inv s(1) by (auto simp: player_inv_def)
    then obtain oev where oev: "stream_ev (pl_mem pl1 s) = Some oev" by (auto simp: stream_ev_def)
    let ?c = "st_lastclock (pl_mem pl1 s)"
    have ge: "pl_lastclock pl1 \<le> ?c" if "\<not> pl_first_event pl1" using so s(1) that by (auto simp: player_sorted_def)
    let ?f = "if pl_first_event pl1 then ?c else pl_firstclock pl1"
    let ?pl3 = "pl1\<lparr>pl_heap := h', pl_first_event := False, pl_firstclock := ?f, pl_lastclock := ?c,
        pl_deltaclock := c_int64 (?c - ?f)\<rparr>"
    have upd: "update_clocks (pl_mem pl1 s) (pl1\<lparr>pl_heap := h'\<rparr>) = Inr ?pl3"
      using ge nu by (auto simp: update_clocks_def Let_def)
    let ?pl' = "?pl3\<lparr>pl_stream := Some s, pl_ev := emu_ev (pl_ev pl1) oev ?c (c_int64 (?c - ?f))\<rparr>"
    have "player_step pl = Inr (False, ?pl')"
      using bk pop upd oev by (simp add: player_step_eq Let_def)
    moreover have "player_inv ?pl' (S - {s})" using inv h' cur(2) by (auto simp: player_inv_def)
    moreover have "player_sorted ?pl' (S - {s})" using so s by (auto simp: player_sorted_def)
    ultimately show ?thesis using s oev ge
      by (intro disjI2 exI [of _ s] exI [of _ ?pl'] exI [of _ oev]) auto
  qed
qed

text \<open>Starting a player on streams just loaded.\<close>

lemma player_start_inv:
  assumes inv: "player_inv pl S" and s: "s \<in> set (pl_trace pl)" "s \<notin> S" and none: "pl_stream pl = None"
    and ok: "player_start s pl = Inr pl'"
  shows "\<exists>S'. player_inv pl' S' \<and> S' \<subseteq> insert s S \<and> pl_stream pl' = None \<and> pl_trace pl' = pl_trace pl
    \<and> pl_first_event pl' = pl_first_event pl \<and> pl_unsorted pl' = pl_unsorted pl
    \<and> (\<not> pl_unsorted pl \<longrightarrow> (\<forall>x. st_unsorted (pl_mem pl' x) = st_unsorted (pl_mem pl x)))"
proof -
  let ?pl = "if pl_unsorted pl then pl\<lparr>pl_mem := (pl_mem pl)(s := stream_allow_unsorted (pl_mem pl s))\<rparr> else pl"
  obtain r where r: "step_stream s ?pl = Inr (r, pl')" using ok by (auto simp: player_start_def Let_def)
  have h: "heap_inv (stream_key (pl_mem ?pl)) (pl_heap pl) S"
  proof (rule heap_inv_key)
    show "heap_inv (stream_key (pl_mem pl)) (pl_heap pl) S" using inv by (simp add: player_inv_def)
  qed (use s(2) in \<open>auto simp: stream_key_def\<close>)
  have inv1: "player_inv ?pl S" "s \<in> set (pl_trace ?pl)"
    using inv s h stream_allow_unsorted_wf by (auto simp: player_inv_def)
  from step_stream_inv [OF inv1 s(2) r] obtain st h n where
    pl': "pl' = ?pl\<lparr>pl_mem := (pl_mem ?pl)(s := st), pl_heap := h, pl_nprocessed := n\<rparr>"
    and h': "heap_inv (stream_key (pl_mem pl')) h (if r then S else insert s S)" and st: "stream_wf st"
    "\<not> r \<longrightarrow> st_cur_ev st \<noteq> None" "st_unsorted st = st_unsorted (pl_mem ?pl s)" by blast
  have "player_inv pl' (if r then S else insert s S)"
    using inv1 h' st none s(2) by (auto simp: pl' player_inv_def split: if_splits)
  then show ?thesis using pl' none st(3) by (intro exI [of _ "if r then S else insert s S"]) auto
qed

lemma player_init_inv:
  assumes ok: "player_init trace mem nodes unsorted = Inr pl" and trace: "distinct trace" "length trace < 2 ^ 64 - 1"
    and wf: "\<And>s. s \<in> set trace \<Longrightarrow> stream_wf (mem s)"
  shows "\<exists>S. player_inv pl S \<and> (\<not> unsorted \<and> (\<forall>s \<in> set trace. \<not> st_unsorted (mem s)) \<longrightarrow> player_sorted pl S)"
proof -
  let ?pl = "\<lparr>pl_heap = heap_init nodes, pl_first_event = True, pl_firstclock = 0, pl_lastclock = 0, pl_deltaclock = 0,
        pl_nprocessed = 0, pl_unsorted = unsorted, pl_stream = None, pl_ev = zero_ev, pl_trace = trace, pl_mem = mem\<rparr>"
  have run: "foldr_res player_start trace ?pl = Inr pl"
    using ok by (auto simp: player_init_def split: if_splits)
  have loop: "\<exists>S'. player_inv pl S' \<and> pl_stream pl = None \<and> pl_trace pl = pl_trace p \<and> pl_first_event pl = pl_first_event p
      \<and> pl_unsorted pl = pl_unsorted p
      \<and> (\<not> pl_unsorted p \<longrightarrow> (\<forall>x. st_unsorted (pl_mem pl x) = st_unsorted (pl_mem p x)))"
    if "foldr_res player_start xs p = Inr pl" "player_inv p S" "pl_stream p = None" "set xs \<subseteq> set (pl_trace p)"
      "distinct xs" "set xs \<inter> S = {}" for xs p S
    using that
  proof (induction xs arbitrary: p S)
    case (Cons s xs)
    from Cons.prems(1) obtain p1 where p1: "player_start s p = Inr p1" "foldr_res player_start xs p1 = Inr pl" by auto
    from player_start_inv [OF Cons.prems(2) _ _ Cons.prems(3) p1(1)] Cons.prems(4,6) obtain S1 where
      S1: "player_inv p1 S1" "S1 \<subseteq> insert s S" "pl_stream p1 = None" "pl_trace p1 = pl_trace p"
      "pl_first_event p1 = pl_first_event p" "pl_unsorted p1 = pl_unsorted p"
      "\<not> pl_unsorted p \<longrightarrow> (\<forall>x. st_unsorted (pl_mem p1 x) = st_unsorted (pl_mem p x))" by auto
    have "set xs \<subseteq> set (pl_trace p1)" "distinct xs" "set xs \<inter> S1 = {}" using Cons.prems(4-6) S1 by auto
    from Cons.IH [OF p1(2) S1(1,3) this] S1 show ?case by metis
  qed auto
  have "player_inv ?pl {}" using wf trace stream_heap.heap_inv_init by (simp add: player_inv_def)
  from loop [OF run this] trace(1) show ?thesis by (fastforce simp: player_sorted_def)
qed

text \<open>The player merges the streams in the order of their corrected clocks: a step either finds that there are no more
  events, or plays the current event of the stream with the least clock of all that have one. The clock of the
  player never goes back, and the time of the event since the start is the difference with the first clock. It
  holds for every content of the streams, in a player that does not accept unsorted streams.\<close>

theorem player_step_in_order:
  assumes inv: "player_inv pl S" and so: "player_sorted pl S" and ok: "player_step pl = Inr (ended, pl')"
  shows "\<exists>S'. player_inv pl' S' \<and> player_sorted pl' S' \<and>
    (if ended then S' = {} else
      \<exists>s oev. pl_stream pl' = Some s \<and> stream_ev (pl_mem pl' s) = Some oev \<and> s \<notin> S'
        \<and> pl_lastclock pl' = st_lastclock (pl_mem pl' s) \<and> (\<forall>x \<in> S'. pl_lastclock pl' \<le> st_lastclock (pl_mem pl' x))
        \<and> (\<not> pl_first_event pl \<longrightarrow> pl_lastclock pl \<le> pl_lastclock pl')
        \<and> ev_sclock (pl_ev pl') = pl_lastclock pl'
        \<and> ev_dclock (pl_ev pl') = c_int64 (pl_lastclock pl' - pl_firstclock pl')
        \<and> ev_m (pl_ev pl') = oe_model oev \<and> ev_c (pl_ev pl') = oe_category oev \<and> ev_v (pl_ev pl') = oe_value oev)"
proof -
  from ok obtain r pl1 where bk: "player_back pl = Inr (r, pl1)" by (auto simp: player_step_eq)
  from player_back_inv [OF inv bk] so obtain S1 where S1: "player_inv (pl1\<lparr>pl_stream := None\<rparr>) S1"
    "player_sorted (pl1\<lparr>pl_stream := None\<rparr>) S1" "pl_lastclock pl1 = pl_lastclock pl" "pl_first_event pl1 = pl_first_event pl"
    "pl_stream pl1 = pl_stream pl" "pl_trace pl1 = pl_trace pl"
    "\<forall>s. pl_stream pl = Some s \<longrightarrow> s \<in> S1 \<or> \<not> st_active (pl_mem pl1 s)" by blast
  show ?thesis
  proof (cases ended)
    case True
    then have "S1 = {}" "pl' = pl1" using player_pop [OF bk S1(1,2)] ok by auto
    moreover have "player_inv pl1 {}" using S1(1,5,6) inv \<open>S1 = {}\<close> by (auto simp: player_inv_def)
    moreover have "player_sorted pl1 {}"
      using S1(2,4,5,7) so \<open>S1 = {}\<close> by (auto simp: player_sorted_def split: if_splits)
    ultimately show ?thesis using True by auto
  next
    case False
    then have "\<not> (S1 = {} \<and> player_step pl = Inr (True, pl1))" using ok by auto
    with player_pop [OF bk S1(1,2)] obtain s pl'' oev where
      p: "s \<in> S1" "pl_stream pl'' = Some s" "\<forall>x \<in> S1. st_lastclock (pl_mem pl1 s) \<le> st_lastclock (pl_mem pl1 x)"
      "pl_mem pl'' = pl_mem pl1" "player_inv pl'' (S1 - {s})" "player_sorted pl'' (S1 - {s})"
      "pl_lastclock pl'' = st_lastclock (pl_mem pl1 s)" "\<not> pl_first_event pl1 \<longrightarrow> pl_lastclock pl1 \<le> pl_lastclock pl''"
      "pl_deltaclock pl'' = c_int64 (pl_lastclock pl'' - pl_firstclock pl'')" "stream_ev (pl_mem pl1 s) = Some oev"
      "pl_ev pl'' = emu_ev (pl_ev pl1) oev (pl_lastclock pl'') (pl_deltaclock pl'')"
      and "player_step pl = Inr (False, pl'')" by blast
    then have "pl'' = pl'" using ok by simp
    note p = p [unfolded this]
    have e: "ev_sclock (emu_ev ev o' a b) = a" "ev_dclock (emu_ev ev o' a b) = b" "ev_m (emu_ev ev o' a b) = oe_model o'"
      "ev_c (emu_ev ev o' a b) = oe_category o'" "ev_v (emu_ev ev o' a b) = oe_value o'" for ev o' a b
      by (simp_all add: emu_ev_def Let_def)
    show ?thesis using False p S1(3,4) by (intro exI [of _ "S1 - {s}"]) (auto simp: e)
  qed
qed

text \<open>C23. What stops the player: in a player that does not accept unsorted streams a step fails only because the stream that
  was playing is broken: it ends with an incomplete event, overruns its end or has clocks that go
  backwards. In particular the check of the player for jumps back in time never fires, and neither do those
  of the heap.\<close>

theorem player_step_errors:
  assumes inv: "player_inv pl S" and so: "player_sorted pl S" and fail: "player_step pl = Inl e"
  shows "\<exists>s. pl_stream pl = Some s \<and> st_active (pl_mem pl s) \<and> stream_step (pl_mem pl s) = Inl e"
proof (cases "player_back pl")
  case (Inr p)
  then obtain r pl1 where "player_back pl = Inr (r, pl1)" by (cases p) auto
  with player_back_inv [OF inv this] so player_pop [OF this] fail show ?thesis by fastforce
next
  case (Inl e')
  with fail have e: "player_back pl = Inl e" by (simp add: player_step_eq)
  then obtain s where s: "pl_stream pl = Some s" "step_stream s pl = Inl e" by (auto simp: player_back_def split: option.splits)
  then have act: "st_active (pl_mem pl s)" by (auto simp: step_stream_def split: if_splits)
  have in_trace: "s \<in> set (pl_trace pl)" "s \<notin> S" using inv s(1) by (auto simp: player_inv_def)
  show ?thesis
  proof (cases "stream_step (pl_mem pl s)")
    case (Inr q)
    then obtain ended st where "stream_step (pl_mem pl s) = Inr (ended, st)" by (cases q) auto
    from step_stream_ok [OF inv in_trace this act] s(2) show ?thesis by auto
  qed (use s act in \<open>auto simp: step_stream_def\<close>)
qed

end
