(* ===== verification/Declared.thy ===== *)
theory Declared
  imports Ev_Lists Nosv Nanos6 Openmp Simple_Models
begin

text \<open>
  The declarations of events and the tables of the handlers are written apart, in \<^verbatim>\<open>setup.c\<close> and \<^verbatim>\<open>event.c\<close> of each model. This
  theory shows that they agree: the declarations of the six models with a table compile, and in the categories that go to
  the table the declared events are exactly those with an entry.
\<close>

definition table_models :: "(char \<times> string \<times> ss_table \<times> ev_decl list) list" where
  "table_models =
     [(CHR ''V'', ''SUMHAP'', nosv_ss_table, nosv_evlist), (CHR ''6'', ''CSUFOtHDBWMP'', nanos6_ss_table, nanos6_evlist),
      (CHR ''P'', ''BIWTAMHC'', openmp_fn_table, openmp_evlist), (CHR ''M'', ''UWTSRACDEsracde'', mpi_fn_table, mpi_evlist),
      (CHR ''T'', ''CGLQRT'', tampi_ss_table, tampi_evlist), (CHR ''D'', ''RUWITCSP'', nodes_ss_table, nodes_evlist)]"

definition table_declared :: "char \<Rightarrow> string \<Rightarrow> ss_table \<Rightarrow> ev_decl list \<Rightarrow> bool" where
  "table_declared m cats tbl evlist \<longleftrightarrow>
     (case model_evspec_init m evlist of Inl _ \<Rightarrow> False
      | Inr es \<Rightarrow>
          list_all (\<lambda>mcv. mcv ! 1 \<notin> set cats \<or> (mcv ! 1, mcv ! 2) \<in> set (map fst tbl)) (map es_mcv es)
          \<and> list_all (\<lambda>cv. [m, fst cv, snd cv] \<in> set (map es_mcv es)) (map fst tbl))"

lemma nosv_declared: "table_declared CHR ''V'' ''SUMHAP'' nosv_ss_table nosv_evlist" by code_simp

lemma nanos6_declared: "table_declared CHR ''6'' ''CSUFOtHDBWMP'' nanos6_ss_table nanos6_evlist" by code_simp

lemma openmp_declared: "table_declared CHR ''P'' ''BIWTAMHC'' openmp_fn_table openmp_evlist" by code_simp

lemma mpi_declared: "table_declared CHR ''M'' ''UWTSRACDEsracde'' mpi_fn_table mpi_evlist" by code_simp

lemma tampi_declared: "table_declared CHR ''T'' ''CGLQRT'' tampi_ss_table tampi_evlist" by code_simp

lemma nodes_declared: "table_declared CHR ''D'' ''RUWITCSP'' nodes_ss_table nodes_evlist" by code_simp

lemma ss_lookup_iff: "ss_lookup tbl (char_byte c) (char_byte v) \<noteq> None \<longleftrightarrow> (c, v) \<in> fst ` set tbl"
  by (force simp: ss_lookup_def find_None_iff)

lemma model_evspec_find_iff: "model_evspec_find mcv es \<noteq> None \<longleftrightarrow> mcv \<in> es_mcv ` set es"
  by (auto simp: model_evspec_find_def find_None_iff)

text \<open>C33. Declarations and handlers agree: for each of the six models whose events come from a table, the declarations compile when
  the model is registered, and an event in a category of the table is declared exactly when the table has an action
  for it.\<close>

theorem declared_events_handled:
  assumes "(m, cats, tbl, evlist) \<in> set table_models" and "c \<in> set cats"
  shows "\<exists>es. model_evspec_init m evlist = Inr es
    \<and> (model_evspec_find [m, c, v] es \<noteq> None \<longleftrightarrow> ss_lookup tbl (char_byte c) (char_byte v) \<noteq> None)"
proof -
  have "table_declared m cats tbl evlist"
    using assms(1) nosv_declared nanos6_declared openmp_declared mpi_declared tampi_declared nodes_declared
    unfolding table_models_def by auto
  then obtain es where es: "model_evspec_init m evlist = Inr es"
    "\<forall>mcv \<in> es_mcv ` set es. mcv ! 1 \<in> set cats \<longrightarrow> (mcv ! 1, mcv ! 2) \<in> fst ` set tbl"
    "\<forall>cv \<in> fst ` set tbl. [m, fst cv, snd cv] \<in> es_mcv ` set es"
    unfolding table_declared_def list_all_iff set_map by (auto split: sum.splits)
  have "[m, c, v] \<in> es_mcv ` set es \<longleftrightarrow> (c, v) \<in> fst ` set tbl"
  proof
    assume "[m, c, v] \<in> es_mcv ` set es"
    from bspec [OF es(2) this] assms(2) show "(c, v) \<in> fst ` set tbl" by simp
  next
    assume "(c, v) \<in> fst ` set tbl"
    from bspec [OF es(3) this] show "[m, c, v] \<in> es_mcv ` set es" by simp
  qed
  then show ?thesis using es(1) model_evspec_find_iff ss_lookup_iff by blast
qed

theorem declared_events_handled_witness:
  "\<exists>es. model_evspec_init CHR ''D'' nodes_evlist = Inr es
     \<and> (model_evspec_find ''DR['' es \<noteq> None \<longleftrightarrow> ss_lookup nodes_ss_table (char_byte CHR ''R'') (char_byte CHR ''['') \<noteq> None)"
  using declared_events_handled [of "CHR ''D''" "''RUWITCSP''" nodes_ss_table nodes_evlist "CHR ''R''" "CHR ''[''"]
  by (simp add: table_models_def)

end
