(* ===== verification/Emu.thy ===== *)
theory Emu
  imports Handlers Registry Marks Hwc Model_Specs Connect Player Declared
begin

text \<open>
  The emulator: \<^verbatim>\<open>src/emu/emu.c\<close>, with the hooks of the models in \<^verbatim>\<open>src/emu/<model>/setup.c\<close> and the table of
  \<^verbatim>\<open>src/emu/models.c\<close>.

  The record \<open>emulator\<close> adds to the state that the handlers use the rest of \<^verbatim>\<open>struct emu\<close>: the system, the player, the
  types and rows of the traces, the metadata of the threads, the names of the hardware counters and the options. The
  registry of models is kept apart, as its hooks are functions of the emulator. The functions of other components work on
  the part of the record that they know. The breakdowns (option \<^verbatim>\<open>-b\<close>) are not modelled: the hooks are those of an emulator
  without that option.

  \<open>fin m name\<close> stands for \<^verbatim>\<open>finish_pvt\<close> of the models with tasks, which adds the labels of the types of tasks to a
  trace, and \<open>hash\<close> for the hash function of the labels. The number \<open>n\<close> bounds the loops of a propagation; the number of
  channels is enough.
\<close>

subsection \<open>State\<close>

record emulator = temu +
  em_sys :: system
  em_player :: player
  em_pcfs :: "nat \<Rightarrow> pcf"
  em_rows :: "nat \<Rightarrow> prf_rows"
  em_metas :: "nat \<Rightarrow> json_object option"
  em_hwc :: "string option list"
  em_finished :: bool
  em_linter :: bool
  em_enable_all :: bool

abbreviation em_threads :: "emulator \<Rightarrow> nat list" where
  "em_threads w \<equiv> sy_threads (em_sys w)"

abbreviation em_cpus :: "emulator \<Rightarrow> nat list" where
  "em_cpus w \<equiv> sy_cpus (em_sys w)"

subsection \<open>Hooks of the models\<close>

definition with_pcfs :: "((nat \<Rightarrow> pcf) \<times> emulator \<Rightarrow> ((nat \<Rightarrow> pcf) \<times> emulator) res) \<Rightarrow> emulator \<Rightarrow> emulator res" where
  "with_pcfs f w = rbind (f (em_pcfs w, w)) (\<lambda>(pcfs, w1). Inr (w1\<lparr>em_pcfs := pcfs\<rparr>))"

definition version_probe :: "string \<Rightarrow> string \<Rightarrow> emulator \<Rightarrow> bool res" where
  "version_probe name version w = model_version_probe name version (map (em_metas w) (em_threads w))"

definition create_chans :: "nat \<Rightarrow> model_chan_spec \<Rightarrow> model_chan_spec \<Rightarrow> emulator \<Rightarrow> emulator res" where
  "create_chans m th_spec cpu_spec w = chans_create (em_threads w) (em_cpus w) (m, th_spec, cpu_spec) w"

definition connect_chans :: "nat \<Rightarrow> model_chan_spec \<Rightarrow> model_chan_spec \<Rightarrow> emulator \<Rightarrow> emulator res" where
  "connect_chans m th_spec cpu_spec w = with_pcfs (chans_connect (em_threads w) (em_cpus w) (m, th_spec, cpu_spec)) w"

text \<open>The idle channel of the models with progress: all the threads progress, and a CPU with no running thread rests.\<close>

definition connect_idle :: "nat \<Rightarrow> nat \<Rightarrow> int \<Rightarrow> int \<Rightarrow> emulator \<Rightarrow> emulator res" where
  "connect_idle m ch progressing resting w =
     rbind (foldr_res (\<lambda>t. chan_set_at (ModelChan t m ch) (VALUE_INT64 progressing)) (em_threads w) w) (\<lambda>w1.
       Inr (fold (\<lambda>c. mux_set_default (track_mux (ModelCpuTrack c m ch)) (VALUE_INT64 resting)) (em_cpus w) w1))"

text \<open>No thread may end with something stacked in a channel. \<open>always\<close> is set for the model that checks it also when the
  emulation stopped early.\<close>

definition end_lint :: "bool \<Rightarrow> nat \<Rightarrow> nat \<Rightarrow> emulator \<Rightarrow> error option" where
  "end_lint always m ch w =
     (if \<not> always \<and> \<not> em_finished w then None
      else if list_ex (\<lambda>t. ch_stack (bay_mem w (ModelChan t m ch)) \<noteq> []) (em_threads w) then Some (EModel ModelChanNotEmpty)
      else None)"

definition lint_finish :: "bool \<Rightarrow> nat \<Rightarrow> nat \<Rightarrow> emulator \<Rightarrow> emulator \<times> error option" where
  "lint_finish always m ch w = (w, if em_linter w then end_lint always m ch w else None)"

definition task_finish ::
  "(nat \<Rightarrow> string \<Rightarrow> emulator \<Rightarrow> emulator \<times> error option) \<Rightarrow> bool \<Rightarrow> nat \<Rightarrow> nat \<Rightarrow> emulator \<Rightarrow> emulator \<times> error option" where
  "task_finish fin always m ch w =
     (case fin m ''thread'' w of (w1, Some e) \<Rightarrow> (w1, Some e)
      | (w1, None) \<Rightarrow> (case fin m ''cpu'' w1 of (w2, Some e) \<Rightarrow> (w2, Some e) | (w2, None) \<Rightarrow> lint_finish always m ch w2))"

subsection \<open>The base model\<close>

definition model_ovni_probe :: "emulator \<Rightarrow> bool res" where
  "model_ovni_probe w = rbind (version_probe ''ovni'' OVNI_MODEL_VERSION w) (\<lambda>_. Inr True)"

definition model_ovni_create :: "emulator \<Rightarrow> emulator res" where
  "model_ovni_create w =
     rbind (create_chans MODEL_O ovni_th_chan ovni_cpu_chan w) (\<lambda>w1. mark_create (em_metas w1) (em_threads w1) (em_cpus w1) w1)"

definition model_ovni_connect :: "emulator \<Rightarrow> emulator res" where
  "model_ovni_connect w =
     rbind (connect_chans MODEL_O ovni_th_chan ovni_cpu_chan w) (\<lambda>w1. with_pcfs (mark_connect (em_marks w1) (em_threads w1) (em_cpus w1)) w1)"

definition model_ovni_finish :: "emulator \<Rightarrow> emulator \<times> error option" where
  "model_ovni_finish w =
     (w, if \<not> em_finished w then None
         else if list_ex (\<lambda>t. th_state (threads w t) \<noteq> TH_ST_DEAD) (em_threads w) then Some (EModel ModelThreadAlive) else None)"

subsection \<open>The other models\<close>

definition model_nosv_create :: "emulator \<Rightarrow> emulator res" where
  "model_nosv_create w =
     rbind (create_chans MODEL_V nosv_th_chan nosv_cpu_chan w) (\<lambda>w1.
     rbind (hwc_create (em_metas w1) (em_threads w1) (em_cpus w1) w1) (\<lambda>(names, w2). Inr (w2\<lparr>em_hwc := names\<rparr>)))"

definition model_nosv_connect :: "emulator \<Rightarrow> emulator res" where
  "model_nosv_connect w =
     rbind (connect_chans MODEL_V nosv_th_chan nosv_cpu_chan w) (\<lambda>w1.
     rbind (with_pcfs (hwc_connect (em_hwc w1) (em_threads w1) (em_cpus w1)) w1)
       (connect_idle MODEL_V NOSV_CH_IDLE (nosv_progress_st nosv_progress.ST_PROGRESSING) (nosv_progress_st nosv_progress.ST_RESTING)))"

definition model_nanos6_connect :: "emulator \<Rightarrow> emulator res" where
  "model_nanos6_connect w =
     rbind (connect_chans MODEL_6 nanos6_th_chan nanos6_cpu_chan w)
       (connect_idle MODEL_6 NANOS6_CH_IDLE (nanos6_progress_st nanos6_progress.ST_PROGRESSING) (nanos6_progress_st nanos6_progress.ST_RESTING))"

definition model_xtasks_create :: "emulator \<Rightarrow> emulator res" where
  "model_xtasks_create w = model_thread_create xtasks_th_chan MODEL_X (em_threads w) w"

definition model_xtasks_connect :: "emulator \<Rightarrow> emulator res" where
  "model_xtasks_connect w = with_pcfs (model_thread_connect xtasks_th_chan MODEL_X (em_threads w)) w"

subsection \<open>The table of models\<close>

definition spec_of ::
  "string \<Rightarrow> string \<Rightarrow> nat \<Rightarrow> ev_decl list \<Rightarrow> (emulator \<Rightarrow> bool res) \<Rightarrow> (emulator \<Rightarrow> emulator res) \<Rightarrow> (emulator \<Rightarrow> emulator res) option \<Rightarrow>
   (emulator \<Rightarrow> emulator res) \<Rightarrow> (emulator \<Rightarrow> emulator \<times> error option) option \<Rightarrow> emulator model_spec" where
  "spec_of name version m evlist probe create connect event finish =
     \<lparr>ms_name = Some name, ms_version = Some version, ms_model = m, ms_evlist = Some evlist, ms_probe = Some probe, ms_create = Some create,
      ms_connect = connect, ms_event = Some event, ms_finish = finish, ms_evspec = None\<rparr>"

definition model_ovni :: "emulator model_spec" where
  "model_ovni = spec_of ''ovni'' OVNI_MODEL_VERSION MODEL_O ovni_evlist model_ovni_probe
     model_ovni_create (Some model_ovni_connect) model_ovni_event (Some model_ovni_finish)"

definition model_nanos6 ::
  "(nat \<Rightarrow> string \<Rightarrow> emulator \<Rightarrow> emulator \<times> error option) \<Rightarrow> (string \<Rightarrow> 32 word) \<Rightarrow> emulator model_spec" where
  "model_nanos6 fin hash = spec_of ''nanos6'' ''1.1.0'' MODEL_6 nanos6_evlist (version_probe ''nanos6'' ''1.1.0'')
     (create_chans MODEL_6 nanos6_th_chan nanos6_cpu_chan) (Some model_nanos6_connect) (model_nanos6_event hash)
     (Some (task_finish fin False MODEL_6 NANOS6_CH_SUBSYSTEM))"

definition model_nosv ::
  "(nat \<Rightarrow> string \<Rightarrow> emulator \<Rightarrow> emulator \<times> error option) \<Rightarrow> (string \<Rightarrow> 32 word) \<Rightarrow> emulator model_spec" where
  "model_nosv fin hash = spec_of ''nosv'' ''2.6.0'' MODEL_V nosv_evlist (version_probe ''nosv'' ''2.6.0'')
     model_nosv_create (Some model_nosv_connect) (model_nosv_event hash) (Some (task_finish fin True MODEL_V NOSV_CH_SUBSYSTEM))"

definition model_nodes :: "emulator model_spec" where
  "model_nodes = spec_of ''nodes'' ''1.0.0'' MODEL_D nodes_evlist (version_probe ''nodes'' ''1.0.0'')
     (create_chans MODEL_D nodes_th_chan nodes_cpu_chan) (Some (connect_chans MODEL_D nodes_th_chan nodes_cpu_chan)) model_nodes_event
     (Some (lint_finish False MODEL_D 0))"

definition model_tampi :: "emulator model_spec" where
  "model_tampi = spec_of ''tampi'' ''1.0.0'' MODEL_T tampi_evlist (version_probe ''tampi'' ''1.0.0'')
     (create_chans MODEL_T tampi_th_chan tampi_cpu_chan) (Some (connect_chans MODEL_T tampi_th_chan tampi_cpu_chan)) model_tampi_event
     (Some (lint_finish False MODEL_T 0))"

definition model_mpi :: "emulator model_spec" where
  "model_mpi = spec_of ''mpi'' ''1.0.0'' MODEL_M mpi_evlist (version_probe ''mpi'' ''1.0.0'')
     (create_chans MODEL_M mpi_th_chan mpi_cpu_chan) (Some (connect_chans MODEL_M mpi_th_chan mpi_cpu_chan)) model_mpi_event
     (Some (lint_finish False MODEL_M 0))"

definition model_kernel :: "emulator model_spec" where
  "model_kernel = spec_of ''kernel'' ''1.0.0'' MODEL_K kernel_evlist (version_probe ''kernel'' ''1.0.0'')
     (create_chans MODEL_K kernel_th_chan kernel_cpu_chan) (Some (connect_chans MODEL_K kernel_th_chan kernel_cpu_chan)) model_kernel_event
     None"

definition model_openmp ::
  "(nat \<Rightarrow> string \<Rightarrow> emulator \<Rightarrow> emulator \<times> error option) \<Rightarrow> (string \<Rightarrow> 32 word) \<Rightarrow> emulator model_spec" where
  "model_openmp fin hash = spec_of ''openmp'' ''1.2.1'' MODEL_P openmp_evlist (version_probe ''openmp'' ''1.2.1'')
     (create_chans MODEL_P openmp_th_chan openmp_cpu_chan) (Some (connect_chans MODEL_P openmp_th_chan openmp_cpu_chan)) (model_openmp_event hash)
     (Some (task_finish fin False MODEL_P OMP_CH_SUBSYSTEM))"

definition model_xtasks :: "emulator model_spec" where
  "model_xtasks = spec_of ''xtasks'' ''1.0.0'' MODEL_X xtasks_evlist (version_probe ''xtasks'' ''1.0.0'')
     model_xtasks_create None (model_xtasks_event model_xtasks_connect) (Some (\<lambda>w. (w, None)))"

definition models ::
  "(nat \<Rightarrow> string \<Rightarrow> emulator \<Rightarrow> emulator \<times> error option) \<Rightarrow> (string \<Rightarrow> 32 word) \<Rightarrow> emulator model_spec list" where
  "models fin hash = [model_ovni, model_nanos6 fin hash, model_nosv fin hash, model_nodes, model_tampi, model_mpi, model_kernel,
     model_openmp fin hash, model_xtasks]"

subsection \<open>The emulation\<close>

text \<open>\<open>metas\<close> are the metadata of the streams of the trace, \<open>ss\<close> the streams, \<open>nodes\<close> their heap nodes and \<open>table\<close> the clock offsets.
  The state \<open>w\<close> is the one after \<^verbatim>\<open>memset\<close> with the options set.\<close>

definition emu_init ::
  "(nat \<Rightarrow> string \<Rightarrow> emulator \<Rightarrow> emulator \<times> error option) \<Rightarrow> (string \<Rightarrow> 32 word) \<Rightarrow> (string \<times> real) list \<Rightarrow> (string \<times> int) list option \<Rightarrow>
   json_object list \<Rightarrow> (nat \<Rightarrow> stream) \<Rightarrow> hmem \<Rightarrow> emulator \<Rightarrow> (emulator model \<times> emulator) res" where
  "emu_init fin hash table acc metas ss nodes w =
     rbind (system_init table metas (w, ss)) (\<lambda>((sy, w1), ss1).
     rbind (system_connect acc sy (bay_init w1)) (\<lambda>(pcfs, rows, w2).
     rbind (player_init [0..<length metas] ss1 nodes False) (\<lambda>pl.
     rbind (models_register (models fin hash) model_init) (\<lambda>md.
       let meta_of = (\<lambda>t. case find (\<lambda>i. map_option (snd \<circ> snd) (sy_lpt sy i) = Some t) [0..<length metas] of
             None \<Rightarrow> None | Some i \<Rightarrow> Some (metas ! i));
           w3 = w2\<lparr>em_sys := sy, em_player := pl, em_pcfs := pcfs, em_rows := rows, em_metas := meta_of\<rparr> in
       rbind (model_probe (em_enable_all w3) w3 md) (\<lambda>md1.
       rbind (model_create md1 w3) (\<lambda>w4. Inr (md1, w4)))))))"

definition emu_connect :: "nat \<Rightarrow> emulator model \<Rightarrow> emulator \<Rightarrow> emulator res" where
  "emu_connect n md w = rbind (model_connect md w) (bay_propagate run_cb n)"

definition set_current :: "emulator \<Rightarrow> emulator res" where
  "set_current w =
     (case pl_stream (em_player w) of None \<Rightarrow> Inl (ESys SysUnknownStream)
      | Some s \<Rightarrow>
          (case system_get_lpt s (em_sys w, w) of None \<Rightarrow> Inl (ESys SysUnknownStream)
           | Some (loom, proc, thread) \<Rightarrow>
               Inr (w\<lparr>em_ev := pl_ev (em_player w), em_loom := loom, em_proc := proc, em_thread := thread\<rparr>)))"

definition emu_step :: "nat \<Rightarrow> emulator model \<Rightarrow> emulator \<Rightarrow> (bool \<times> emulator) res" where
  "emu_step n md w =
     rbind (player_step (em_player w)) (\<lambda>(ended, pl).
       let w1 = w\<lparr>em_player := pl\<rparr> in
       if ended then Inr (True, w1\<lparr>em_finished := True\<rparr>)
       else
         rbind (set_current w1) (\<lambda>w2.
         rbind (recorder_advance (ev_dclock (em_ev w2)) w2) (\<lambda>w3.
         rbind (model_event md (unat (ev_m (em_ev w3))) w3) (\<lambda>w4.
         rbind (bay_propagate run_cb n w4) (\<lambda>w5. Inr (False, w5))))))"

definition emu_finish :: "emulator model \<Rightarrow> emulator \<Rightarrow> emulator \<times> error option" where
  "emu_finish md w = (case model_finish md w of (w1, ret) \<Rightarrow> (recorder_finish w1, ret))"

subsection \<open>Steps that leave the bay alone\<close>

text \<open>Setting the current event changes nothing of the bay, and advancing the clock only the time of the traces.\<close>

definition quiet :: "'x prv_bay_scheme \<Rightarrow> 'x prv_bay_scheme \<Rightarrow> bool" where
  "quiet w v \<longleftrightarrow> bay_state v = bay_state w \<and> bay_channels v = bay_channels w \<and> bay_dirty v = bay_dirty w \<and> bay_bchans v = bay_bchans w
     \<and> bay_cbs v = bay_cbs w \<and> bay_ncbs v = bay_ncbs w \<and> bay_mem v = bay_mem w \<and> muxes v = muxes w \<and> sorts v = sorts w
     \<and> (\<forall>k. pv_rchans (prvs v k) = pv_rchans (prvs w k) \<and> (prv_wf (prvs w k) \<longrightarrow> prv_wf (prvs v k)))"

lemma quiet_trans: "quiet u v \<Longrightarrow> quiet v w \<Longrightarrow> quiet u w"
  by (simp add: quiet_def)

lemma quiet_same_bay: "same_bay w v \<Longrightarrow> quiet w v"
  by (simp add: quiet_def same_bay_fields)

lemma quiet_fields:
  assumes "quiet w v"
  shows "bay_channels v = bay_channels w" "bay_mem v = bay_mem w" "muxes v = muxes w" "mux_used m v = mux_used m w" "mux_view m v = mux_view m w"
proof -
  from assms show f: "bay_channels v = bay_channels w" "bay_mem v = bay_mem w" "muxes v = muxes w" "mux_used m v = mux_used m w"
    by (simp_all add: quiet_def mux_used_def)
  show "mux_view m v = mux_view m w" unfolding mux_view_def mux_chosen_def select_input_def mux_out_value_def f ..
qed

lemma quiet_prop_inv:
  assumes q: "quiet w v" and inv: "prop_inv w"
  shows "prop_inv v"
proof -
  from q have f: "bay_state v = bay_state w" "bay_channels v = bay_channels w" "bay_dirty v = bay_dirty w" "bay_bchans v = bay_bchans w"
    "bay_cbs v = bay_cbs w" "bay_ncbs v = bay_ncbs w" "bay_mem v = bay_mem w" "muxes v = muxes w" "sorts v = sorts w"
    by (simp_all add: quiet_def)
  have "bay_wf v = bay_wf w" by (simp add: bay_wf_defs f)
  moreover have "mux_inv v = mux_inv w" by (simp add: mux_inv_defs f)
  moreover have "sort_inv v = sort_inv w" by (simp add: sort_inv_def sort_out_ok_def f)
  moreover have "flat v = flat w" "sel_wired v = sel_wired w"
    by (simp_all add: flat_def mux_flat_def mux_used_def sel_wired_def f)
  moreover have "prv_inv w \<Longrightarrow> prv_inv v" using q by (simp add: prv_inv_def f quiet_def)
  ultimately show ?thesis using inv by (simp add: prop_inv_def emu_inv_def)
qed

lemma quiet_connected:
  assumes "quiet w v"
  shows "model_connected ts cs m ths cps v = model_connected ts cs m ths cps w"
  by (simp add: model_connected_def track_wired_def quiet_fields [OF assms])

lemma recorder_advance_quiet:
  assumes "recorder_advance t w = Inr w'"
  shows "quiet w w' \<and> prv_bay.more w' = prv_bay.more w"
  using assms unfolding recorder_advance_def
proof (rule foldr_res_invar)
  fix x v v'
  assume v: "quiet w v \<and> prv_bay.more v = prv_bay.more w"
    and ok: "(\<lambda>(_, k) v. rbind (prv_advance t (prvs v k)) (\<lambda>p. Inr (prv_update k p v))) x v = Inr v'"
  then obtain k p where p: "prv_advance t (prvs v k) = Inr p" "v' = prv_update k p v" by (cases x) auto
  then have "pv_rchans p = pv_rchans (prvs v k)" "prv_wf (prvs v k) \<Longrightarrow> prv_wf p"
    using prv_advance_wf [OF _ p(1)] by (auto simp: prv_advance_def split: if_splits)
  then have "quiet v v'" by (auto simp: quiet_def p(2) prv_update_def)
  then show "quiet w v' \<and> prv_bay.more v' = prv_bay.more w" using v quiet_trans by (auto simp: p(2) prv_update_def)
qed (simp add: quiet_def)

subsection \<open>Every event keeps the invariants\<close>

lemmas model_specs = model_ovni_def model_nanos6_def model_nosv_def model_nodes_def model_tampi_def model_mpi_def model_kernel_def
  model_openmp_def model_xtasks_def

text \<open>The state of the registry during the emulation: the nine models registered, and some enabled.\<close>

definition models_ready ::
  "(nat \<Rightarrow> string \<Rightarrow> emulator \<Rightarrow> emulator \<times> error option) \<Rightarrow> (string \<Rightarrow> 32 word) \<Rightarrow> emulator model \<Rightarrow> bool" where
  "models_ready fin hash md \<longleftrightarrow>
     (\<exists>md0 w. models_register (models fin hash) model_init = Inr md0 \<and> model_probe (em_enable_all w) w md0 = Inr md)"

lemma models_ready_facts:
  assumes "models_ready fin hash md"
  shows "md_registered md i \<longleftrightarrow> i \<in> ms_model ` set (models fin hash)"
    and "spec \<in> set (models fin hash) \<Longrightarrow> hook_of ms_event (ms_model spec) md = ms_event spec"
    and "spec \<in> set (models fin hash) \<Longrightarrow> hook_of ms_finish (ms_model spec) md = ms_finish spec"
proof -
  from assms obtain md0 w where r: "models_register (models fin hash) model_init = Inr md0"
    and p: "model_probe (em_enable_all w) w md0 = Inr md" by (auto simp: models_ready_def)
  note r' = models_register_spec [OF r] and p' = probe_fold [OF p [unfolded model_probe_def]]
  show "md_registered md i \<longleftrightarrow> i \<in> ms_model ` set (models fin hash)" using r' p' by (simp add: model_init_def)
  show "spec \<in> set (models fin hash) \<Longrightarrow> hook_of ms_event (ms_model spec) md = ms_event spec"
    "spec \<in> set (models fin hash) \<Longrightarrow> hook_of ms_finish (ms_model spec) md = ms_finish spec"
    using r' p' by (fastforce simp: hook_of_def)+
qed

lemma model_event_cases:
  assumes rdy: "models_ready fin hash md" and ok: "model_event md i w = Inr w'"
  obtains "model_ovni_event w = Inr w'" | "model_nanos6_event hash w = Inr w'" | "model_nosv_event hash w = Inr w'"
  | "model_nodes_event w = Inr w'" | "model_tampi_event w = Inr w'" | "model_mpi_event w = Inr w'" | "model_kernel_event w = Inr w'"
  | "model_openmp_event hash w = Inr w'" | "md_enabled md MODEL_X" "model_xtasks_event model_xtasks_connect w = Inr w'"
proof -
  note f = models_ready_facts [OF rdy]
  have en: "md_enabled md i" and "md_registered md i" using ok by (auto simp: model_event_def split: if_splits)
  then obtain spec where spec: "spec \<in> set (models fin hash)" "i = ms_model spec" using f(1) by auto
  have "ms_event spec = Some (the (ms_event spec))" using spec(1) by (auto simp: models_def model_specs spec_of_def)
  then have "the (ms_event spec) w = Inr w'"
    using ok f(2) [OF spec(1)] spec(2) by (auto simp: model_event_def split: if_splits option.splits)
  then show thesis using spec en that by (auto simp: models_def model_specs spec_of_def)
qed

lemma model_event_keeps:
  assumes rdy: "models_ready fin hash md" and ok: "model_event md i w = Inr w'" and x: "em_xtasks_on w \<or> \<not> md_enabled md MODEL_X"
  shows "src_only w w' \<and> (sys_wf w \<longrightarrow> sys_wf w') \<and> em_xtasks_on w' = em_xtasks_on w \<and> em_sys w' = em_sys w"
proof -
  have task: "src_only w w' \<and> (sys_wf w \<longrightarrow> sys_wf w') \<and> em_xtasks_on w' = em_xtasks_on w \<and> em_sys w' = em_sys w"
    if "r = Inr w'" "res_all (src_only w) r" "res_all (system_kept w) r" for r
  proof -
    from that have k: "src_only w w'" "system_kept w w'" by (simp_all add: res_all_def)
    then have "temu.more w' = temu.more w" "em_xtasks_on w' = em_xtasks_on w" by (simp_all add: system_kept_def)
    then have "em_sys w' = em_sys w" by (cases w; cases w') simp
    with k system_kept_wf [OF k(2)] show ?thesis by (simp add: system_kept_def)
  qed
  from rdy ok show ?thesis
  proof (cases rule: model_event_cases)
    case 1
    then have k: "src_only w w'" "outer_kept w w'"
      using ovni_src.frame_ovni_event [of w] ovni_kept.frame_ovni_event [of w] by (simp_all add: res_all_def)
    then have "emu.more w' = emu.more w" by (simp add: outer_kept_def)
    then have "em_xtasks_on w' = em_xtasks_on w" "em_sys w' = em_sys w" by (cases w; cases w'; simp)+
    with k 1 model_ovni_event_keeps show ?thesis by blast
  next
    case 9
    then have e: "event_s w = Inr w'" using x by (auto simp: model_xtasks_event_def split: if_splits)
    show ?thesis by (rule task [OF e]) (rule task_src.frame_events task_kept.frame_events)+
  qed (rule task, assumption, rule task_src.frame_events, rule task_kept.frame_events)+
qed

lemma sys_wf_iff: "threads w' = threads w \<Longrightarrow> cpus w' = cpus w \<Longrightarrow> sys_wf w' = sys_wf w"
  using cpu_counts_cong [of w' _ w] by (simp add: sys_wf_def cpu_lists_def)

lemma more_emulator:
  assumes "prv_bay.more w' = prv_bay.more (w :: emulator)"
  shows "threads w' = threads w" "cpus w' = cpus w" "em_xtasks_on w' = em_xtasks_on w" "em_sys w' = em_sys w"
  using assms by (cases w; cases w'; simp)+

text \<open>What holds between two events.\<close>

definition emu_good :: "emulator model \<Rightarrow> emulator \<Rightarrow> bool" where
  "emu_good md w \<longleftrightarrow> prop_inv w \<and> sys_wf w \<and> (em_xtasks_on w \<or> \<not> md_enabled md MODEL_X)"

lemma emu_step_keeps:
  assumes rdy: "models_ready fin hash md" and ok: "emu_step n md w = Inr (False, w')" and n: "card (registered w) \<le> n" and good: "emu_good md w"
  shows "emu_good md w' \<and> em_sys w' = em_sys w \<and> (\<forall>ts cs m ths cps. model_connected ts cs m ths cps w \<longrightarrow> model_connected ts cs m ths cps w')"
proof -
  from ok obtain pl w2 w3 w4 where 2: "set_current (w\<lparr>em_player := pl\<rparr>) = Inr w2"
    and 3: "recorder_advance (ev_dclock (em_ev w2)) w2 = Inr w3" and 4: "model_event md (unat (ev_m (em_ev w3))) w3 = Inr w4"
    and 5: "bay_propagate run_cb n w4 = Inr w'"
    by (auto simp: emu_step_def Let_def split: if_splits)
  have s2: "same_bay w w2" "threads w2 = threads w" "cpus w2 = cpus w" "em_xtasks_on w2 = em_xtasks_on w" "em_sys w2 = em_sys w"
    using 2 by (auto simp: set_current_def same_bay_def prv_bay.truncate_def split: option.splits)
  note a = recorder_advance_quiet [OF 3]
  note m3 = more_emulator [OF conjunct2 [OF a]]
  have q: "quiet w w3" using quiet_same_bay [OF s2(1)] a quiet_trans by blast
  from good have g: "prop_inv w" "sys_wf w" "em_xtasks_on w \<or> \<not> md_enabled md MODEL_X" by (simp_all add: emu_good_def)
  have p3: "prop_inv w3" by (rule quiet_prop_inv [OF q g(1)])
  have wf3: "sys_wf w3" using g(2) sys_wf_iff [of w3 w] m3 s2 by simp
  have x3: "em_xtasks_on w3 \<or> \<not> md_enabled md MODEL_X" using g(3) m3 s2 by simp
  note e = model_event_keeps [OF rdy 4 x3]
  then have src: "src_step w3 w4" using p3 by (simp add: src_only_def prop_inv_def)
  have n4: "card (registered w4) \<le> n" using n src quiet_fields(1) [OF q] by (simp add: src_step_def bay_step_def)
  have r: "emu_round w3 w'" by (rule emu_round.intros [OF src n4 5])
  have "prop_frame w4 w'"
    using propagate_views [OF src_step_inv [OF p3 src] src_step_views [OF p3 src, of "{}"] n4 5] by auto
  then have m: "threads w' = threads w4" "cpus w' = cpus w4" "em_xtasks_on w' = em_xtasks_on w4" "em_sys w' = em_sys w4"
    using more_emulator [of w' w4] by (simp_all add: prop_frame_def)
  have "sys_wf w'" using sys_wf_iff [OF m(1,2)] e wf3 by simp
  then show ?thesis
    using emu_round_keeps [OF p3 r] emu_round_connected [OF p3 _ r] quiet_connected [OF q] x3 e m m3 s2 by (simp add: emu_good_def)
qed

end
