(* ===== verification/Merge.thy ===== *)
theory Merge
  imports Player
begin

text \<open>
  Playing a whole trace: what the steps of the player deliver when the streams hold well formed events whose
  corrected clocks do not go backwards.
\<close>

subsection \<open>Playing to the end\<close>

text \<open>What a step plays: the stream, its clock and the event.\<close>

definition played :: "player \<Rightarrow> (nat \<times> int \<times> ovni_ev) list" where
  "played pl = (case pl_stream pl of None \<Rightarrow> [] | Some s \<Rightarrow>
     (case stream_ev (pl_mem pl s) of None \<Rightarrow> [] | Some ev \<Rightarrow> [(s, pl_lastclock pl, ev_trim ev)]))"

text \<open>The loop of the programs that use the player: step until there are no more events.\<close>

fun player_run :: "nat \<Rightarrow> player \<Rightarrow> (nat \<times> int \<times> ovni_ev) list res" where
  "player_run 0 pl = Inl EFuel"
| "player_run (Suc n) pl =
     rbind (player_step pl) (\<lambda>(ended, pl').
       if ended then Inr [] else rbind (player_run n pl') (\<lambda>xs. Inr (played pl' @ xs)))"

text \<open>The events that remain to be played: \<open>todo s\<close> of the stream \<open>s\<close>.\<close>

definition merge_inv :: "player \<Rightarrow> nat set \<Rightarrow> (nat \<Rightarrow> ovni_ev list) \<Rightarrow> bool" where
  "merge_inv pl S todo \<longleftrightarrow> player_inv pl S \<and> player_sorted pl S
     \<and> (\<forall>s \<in> set (pl_trace pl).
          if s \<in> S then stream_ready (pl_mem pl s) (todo s)
          else if pl_stream pl = Some s \<and> st_active (pl_mem pl s) then \<exists>e. stream_ready (pl_mem pl s) (e # todo s)
          else \<not> st_active (pl_mem pl s) \<and> todo s = [])"

text \<open>Putting the stream that was playing back succeeds.\<close>

lemma merge_back:
  assumes m: "merge_inv pl S todo"
  shows "\<exists>r pl1 S1. player_back pl = Inr (r, pl1) \<and> merge_inv (pl1\<lparr>pl_stream := None\<rparr>) S1 todo \<and> pl_trace pl1 = pl_trace pl
    \<and> pl_lastclock pl1 = pl_lastclock pl \<and> pl_first_event pl1 = pl_first_event pl"
proof (cases "\<exists>s. pl_stream pl = Some s \<and> st_active (pl_mem pl s)")
  case False
  then have "\<exists>r. player_back pl = Inr (r, pl)"
    by (cases "pl_stream pl") (auto simp: player_back_def step_stream_def)
  moreover have "merge_inv (pl\<lparr>pl_stream := None\<rparr>) S todo"
    using m False by (auto simp: merge_inv_def player_inv_def player_sorted_def split: if_splits)
  ultimately show ?thesis by blast
next
  case True
  then obtain s where s: "pl_stream pl = Some s" "st_active (pl_mem pl s)" by blast
  have inv: "player_inv pl S" "player_sorted pl S" using m by (auto simp: merge_inv_def)
  then have sS: "s \<in> set (pl_trace pl)" "s \<notin> S" using s(1) by (auto simp: player_inv_def)
  have todo: "if x \<in> S then stream_ready (pl_mem pl x) (todo x)
      else if pl_stream pl = Some x \<and> st_active (pl_mem pl x) then \<exists>e. stream_ready (pl_mem pl x) (e # todo x)
      else \<not> st_active (pl_mem pl x) \<and> todo x = []" if "x \<in> set (pl_trace pl)" for x
    using m that unfolding merge_inv_def by blast
  obtain e where e: "stream_ready (pl_mem pl s) (e # todo s)" using todo [OF sS(1)] s sS(2) by auto
  obtain ended st where st: "stream_step (pl_mem pl s) = Inr (ended, st)"
    and rdy: "if ended then todo s = [] \<and> \<not> st_active st else stream_ready st (todo s)"
  proof (cases "todo s")
    case Nil
    then show ?thesis using that stream_step_last [of "pl_mem pl s" e] e by auto
  next
    case (Cons e' evs)
    from stream_step_next [of "pl_mem pl s" e e' evs] e Cons obtain st where
      "stream_step (pl_mem pl s) = Inr (False, st)" "stream_ready st (todo s)" by auto
    then show ?thesis using that [of False st] by simp
  qed
  from step_stream_ok [OF inv(1) sS st s(2)] obtain h where
    "step_stream s pl = Inr (ended, pl\<lparr>pl_mem := (pl_mem pl)(s := st), pl_heap := h,
        pl_nprocessed := (if ended then pl_nprocessed pl else Suc (pl_nprocessed pl))\<rparr>)" (is "_ = Inr (_, ?pl1)")
    by blast
  then have bk: "player_back pl = Inr (ended, ?pl1)" using s(1) by (simp add: player_back_def)
  let ?S = "if ended then S else insert s S"
  from player_back_inv [OF inv(1) bk] inv(2) s(1) have S1: "player_inv (?pl1\<lparr>pl_stream := None\<rparr>) ?S"
    "player_sorted (?pl1\<lparr>pl_stream := None\<rparr>) ?S" by auto
  have new: "if x \<in> ?S then stream_ready (((pl_mem pl)(s := st)) x) (todo x)
      else \<not> st_active (((pl_mem pl)(s := st)) x) \<and> todo x = []" if x: "x \<in> set (pl_trace pl)" for x
    using todo [OF x] rdy s(1) sS(2) by (cases "x = s") auto
  have "merge_inv (?pl1\<lparr>pl_stream := None\<rparr>) ?S todo"
    unfolding merge_inv_def
  proof (intro conjI ballI S1)
    fix x assume "x \<in> set (pl_trace (?pl1\<lparr>pl_stream := None\<rparr>))"
    then show "if x \<in> ?S then stream_ready (pl_mem (?pl1\<lparr>pl_stream := None\<rparr>) x) (todo x)
        else if pl_stream (?pl1\<lparr>pl_stream := None\<rparr>) = Some x \<and> st_active (pl_mem (?pl1\<lparr>pl_stream := None\<rparr>) x)
          then \<exists>e. stream_ready (pl_mem (?pl1\<lparr>pl_stream := None\<rparr>) x) (e # todo x)
        else \<not> st_active (pl_mem (?pl1\<lparr>pl_stream := None\<rparr>) x) \<and> todo x = []"
      using new [of x] by (auto split: if_splits)
  qed
  with bk show ?thesis by (intro exI [of _ ended] exI [of _ ?pl1] exI [of _ ?S]) simp
qed

text \<open>A step plays the next event of one of the streams, or there is none left.\<close>

lemma merge_step:
  assumes m: "merge_inv pl S todo"
  shows "(\<forall>s \<in> set (pl_trace pl). todo s = []) \<and> (\<exists>pl'. player_step pl = Inr (True, pl'))
    \<or> (\<exists>s pl' S' e evs. s \<in> set (pl_trace pl) \<and> todo s = e # evs \<and> player_step pl = Inr (False, pl')
        \<and> merge_inv pl' S' (todo(s := evs)) \<and> pl_trace pl' = pl_trace pl \<and> played pl' = [(s, pl_lastclock pl', e)]
        \<and> \<not> pl_first_event pl' \<and> (\<not> pl_first_event pl \<longrightarrow> pl_lastclock pl \<le> pl_lastclock pl'))"
proof -
  from merge_back [OF m] obtain r pl1 S1 where bk: "player_back pl = Inr (r, pl1)"
    and m1: "merge_inv (pl1\<lparr>pl_stream := None\<rparr>) S1 todo" and eq: "pl_trace pl1 = pl_trace pl"
      "pl_lastclock pl1 = pl_lastclock pl" "pl_first_event pl1 = pl_first_event pl" by blast
  have inv: "player_inv (pl1\<lparr>pl_stream := None\<rparr>) S1" "player_sorted (pl1\<lparr>pl_stream := None\<rparr>) S1"
    using m1 by (auto simp: merge_inv_def)
  have todo: "if x \<in> S1 then stream_ready (pl_mem pl1 x) (todo x) else \<not> st_active (pl_mem pl1 x) \<and> todo x = []"
    if x: "x \<in> set (pl_trace pl)" for x
  proof -
    have "x \<in> set (pl_trace (pl1\<lparr>pl_stream := None\<rparr>))" using x eq(1) by simp
    with m1 show ?thesis unfolding merge_inv_def by fastforce
  qed
  from player_pop [OF bk inv] show ?thesis
  proof (elim disjE exE conjE)
    assume "S1 = {}" "player_step pl = Inr (True, pl1)"
    then show ?thesis using todo by auto
  next
    fix s pl' oev
    assume p: "s \<in> S1" "player_step pl = Inr (False, pl')" "pl_stream pl' = Some s" "pl_mem pl' = pl_mem pl1"
      "pl_trace pl' = pl_trace pl1" "player_inv pl' (S1 - {s})" "player_sorted pl' (S1 - {s})" "\<not> pl_first_event pl'"
      "\<not> pl_first_event pl1 \<longrightarrow> pl_lastclock pl1 \<le> pl_lastclock pl' \<and> pl_firstclock pl' = pl_firstclock pl1"
      "stream_ev (pl_mem pl1 s) = Some oev"
    have s: "s \<in> set (pl_trace pl)" using p(1) inv(1) eq(1) by (auto simp: player_inv_def)
    have rdy: "stream_ready (pl_mem pl1 s) (todo s)" using todo [OF s] p(1) by simp
    then obtain e evs where ev: "todo s = e # evs" by (cases "todo s") (auto simp: stream_ready_def)
    then have trim: "ev_trim oev = e" using stream_ready_ev rdy p(10) by fastforce
    have act: "st_active (pl_mem pl1 s)" using rdy by (simp add: stream_ready_def)
    have "if x \<in> S1 - {s} then stream_ready (pl_mem pl' x) ((todo(s := evs)) x)
          else if pl_stream pl' = Some x \<and> st_active (pl_mem pl' x) then \<exists>e. stream_ready (pl_mem pl' x) (e # (todo(s := evs)) x)
          else \<not> st_active (pl_mem pl' x) \<and> (todo(s := evs)) x = []" if x: "x \<in> set (pl_trace pl')" for x
      using todo [of x] x p(3-5) eq(1) rdy ev act by (cases "x = s") auto
    then have "merge_inv pl' (S1 - {s}) (todo(s := evs))" using p(6,7) unfolding merge_inv_def by blast
    moreover have "played pl' = [(s, pl_lastclock pl', e)]" using p(3,4,10) trim by (simp add: played_def)
    ultimately show ?thesis using s ev p eq by auto
  qed
qed

text \<open>The number of events that remain.\<close>

definition todo_size :: "nat list \<Rightarrow> (nat \<Rightarrow> ovni_ev list) \<Rightarrow> nat" where
  "todo_size ss todo = (\<Sum>s \<in> set ss. length (todo s))"

lemma todo_size_upd: "s \<in> set ss \<Longrightarrow> todo s = e # evs \<Longrightarrow> todo_size ss todo = Suc (todo_size ss (todo(s := evs)))"
  by (simp add: todo_size_def sum.remove [of _ s])

definition played_of :: "nat \<Rightarrow> (nat \<times> int \<times> ovni_ev) list \<Rightarrow> ovni_ev list" where
  "played_of s xs = map (\<lambda>(_, _, e). e) (filter (\<lambda>(s', _). s' = s) xs)"

lemma player_run_merges:
  assumes "merge_inv pl S todo" and "todo_size (pl_trace pl) todo < n"
  shows "\<exists>xs. player_run n pl = Inr xs \<and> (\<forall>s \<in> set (pl_trace pl). played_of s xs = todo s)
    \<and> fst ` set xs \<subseteq> set (pl_trace pl) \<and> sorted (map (\<lambda>(_, c, _). c) xs)
    \<and> (\<not> pl_first_event pl \<longrightarrow> (\<forall>(_, c, _) \<in> set xs. pl_lastclock pl \<le> c))"
  using assms
proof (induction n arbitrary: pl S todo)
  case (Suc n)
  from merge_step [OF Suc.prems(1)] show ?case
  proof (elim disjE exE conjE)
    fix pl' assume "\<forall>s \<in> set (pl_trace pl). todo s = []" "player_step pl = Inr (True, pl')"
    then show ?thesis by (intro exI [of _ "[]"]) (simp add: played_of_def)
  next
    fix s pl' S' e evs
    assume s: "s \<in> set (pl_trace pl)" "todo s = e # evs" "player_step pl = Inr (False, pl')"
      "merge_inv pl' S' (todo(s := evs))" "pl_trace pl' = pl_trace pl" "played pl' = [(s, pl_lastclock pl', e)]"
      "\<not> pl_first_event pl'" "\<not> pl_first_event pl \<longrightarrow> pl_lastclock pl \<le> pl_lastclock pl'"
    have "todo_size (pl_trace pl') (todo(s := evs)) < n"
      using Suc.prems(2) todo_size_upd [of s _ todo e evs, OF s(1,2)] s(5) by simp
    from Suc.IH [OF s(4) this] obtain xs where xs: "player_run n pl' = Inr xs"
      "\<forall>x \<in> set (pl_trace pl). played_of x xs = (todo(s := evs)) x" "fst ` set xs \<subseteq> set (pl_trace pl)"
      "sorted (map (\<lambda>(_, c, _). c) xs)" "\<forall>(_, c, _) \<in> set xs. pl_lastclock pl' \<le> c" using s(5,7) by auto
    let ?xs = "(s, pl_lastclock pl', e) # xs"
    have "player_run (Suc n) pl = Inr ?xs" using s(3,6) xs(1) by simp
    moreover have "played_of x ?xs = todo x" if "x \<in> set (pl_trace pl)" for x
      using xs(2) that s(2) by (auto simp: played_of_def)
    moreover have "sorted (map (\<lambda>(_, c, _). c) ?xs)" using xs(4,5) by auto
    moreover have "\<forall>(_, c, _) \<in> set ?xs. pl_lastclock pl \<le> c" if "\<not> pl_first_event pl"
      using xs(5) s(8) that by auto
    ultimately show ?thesis using xs(3) s(1) by (intro exI [of _ ?xs]) simp
  qed
qed simp

subsection \<open>From the files\<close>

text \<open>A stream loaded from a file with the events \<open>evs\<close> and a clock offset.\<close>

definition loaded :: "stream \<Rightarrow> ovni_ev list \<Rightarrow> bool" where
  "loaded st evs \<longleftrightarrow> (\<exists>s0 clkoff. load_obs (stream_header @ concat (map ev_bytes evs)) = Inr s0
     \<and> stream_clkoff_set clkoff s0 = Inr st) \<and> (\<forall>e \<in> set evs. ev_wf e) \<and> clocks_ok st evs"

lemma loaded_facts:
  assumes "loaded st evs"
  shows "stream_wf st" "\<not> st_unsorted st" "st_active st \<longleftrightarrow> evs \<noteq> []"
    "evs \<noteq> [] \<Longrightarrow> \<exists>st'. stream_step st = Inr (False, st') \<and> stream_ready st' evs \<and> st_unsorted st' = st_unsorted st"
proof -
  from assms obtain s0 clkoff where l: "load_obs (stream_header @ concat (map ev_bytes evs)) = Inr s0"
    "stream_clkoff_set clkoff s0 = Inr st" and e: "\<forall>e \<in> set evs. ev_wf e" "clocks_ok st evs"
    by (auto simp: loaded_def)
  show "stream_wf st" using stream_clkoff_set_wf [OF load_obs_wf [OF l(1)] l(2)] .
  note f = stream_loaded [OF l]
  show "\<not> st_unsorted st" "st_active st \<longleftrightarrow> evs \<noteq> []" using f by auto
  show "\<exists>st'. stream_step st = Inr (False, st') \<and> stream_ready st' evs \<and> st_unsorted st' = st_unsorted st" if "evs \<noteq> []"
  proof (cases evs)
    case (Cons x xs)
    with stream_step_first [of st 8 x xs] f e show ?thesis by auto
  qed (use that in simp)
qed

text \<open>The streams already started are ready, the others are as they were loaded.\<close>

lemma player_start_merge:
  assumes inv: "player_inv pl S" and s: "s \<in> set (pl_trace pl)" "s \<notin> S" and none: "pl_stream pl = None" "\<not> pl_unsorted pl"
    and st: "loaded (pl_mem pl s) evs"
  shows "\<exists>pl' S' st. player_start s pl = Inr pl' \<and> player_inv pl' S' \<and> S' = (if evs = [] then S else insert s S)
    \<and> pl_stream pl' = None \<and> pl_mem pl' = (pl_mem pl)(s := st) \<and> pl_trace pl' = pl_trace pl \<and> \<not> pl_unsorted pl'
    \<and> pl_first_event pl' = pl_first_event pl \<and> \<not> st_unsorted st
    \<and> (if evs = [] then \<not> st_active st else stream_ready st evs)"
proof (cases "evs = []")
  case True
  then have "\<not> st_active (pl_mem pl s)" "\<not> st_unsorted (pl_mem pl s)" using loaded_facts [OF st] by auto
  then show ?thesis using True inv none
    by (intro exI [of _ pl] exI [of _ S] exI [of _ "pl_mem pl s"]) (simp add: player_start_def step_stream_def)
next
  case False
  then obtain st' where st': "stream_step (pl_mem pl s) = Inr (False, st')" "stream_ready st' evs"
    "st_unsorted st' = st_unsorted (pl_mem pl s)" and act: "st_active (pl_mem pl s)" using loaded_facts [OF st] by auto
  from step_stream_ok [OF inv s st'(1) act] obtain h where
    h: "step_stream s pl = Inr (False, pl\<lparr>pl_mem := (pl_mem pl)(s := st'), pl_heap := h, pl_nprocessed := Suc (pl_nprocessed pl)\<rparr>)"
      "heap_inv (stream_key ((pl_mem pl)(s := st'))) h (insert s S)" by auto
  let ?pl = "pl\<lparr>pl_mem := (pl_mem pl)(s := st'), pl_heap := h, pl_nprocessed := Suc (pl_nprocessed pl)\<rparr>"
  have wf: "stream_wf st'" using stream_step_wf [OF loaded_facts(1) [OF st] st'(1)] by simp
  have "st_cur_ev st' \<noteq> None" using st'(2) by (auto simp: stream_ready_def)
  then have "player_inv ?pl (insert s S)" using inv s h(2) none wf by (auto simp: player_inv_def)
  then show ?thesis using False h(1) none st' loaded_facts(2) [OF st]
    by (intro exI [of _ ?pl] exI [of _ "insert s S"] exI [of _ st']) (simp add: player_start_def)
qed

lemma player_init_merge:
  assumes ok: "player_init trace mem nodes False = Inr pl" and trace: "distinct trace" "length trace < 2 ^ 64 - 1"
    and st: "\<And>s. s \<in> set trace \<Longrightarrow> loaded (mem s) (evs s)"
  shows "\<exists>S. merge_inv pl S evs \<and> pl_trace pl = trace \<and> pl_first_event pl"
proof -
  let ?pl = "\<lparr>pl_heap = heap_init nodes, pl_first_event = True, pl_firstclock = 0, pl_lastclock = 0, pl_deltaclock = 0,
        pl_nprocessed = 0, pl_unsorted = False, pl_stream = None, pl_ev = zero_ev, pl_trace = trace, pl_mem = mem\<rparr>"
  have run: "foldr_res player_start trace ?pl = Inr pl" using ok by (auto simp: player_init_def)
  have loop: "\<exists>S'. player_inv pl S' \<and> pl_stream pl = None \<and> pl_trace pl = pl_trace p \<and> pl_first_event pl = pl_first_event p
      \<and> \<not> pl_unsorted pl \<and> (\<forall>x \<in> set (pl_trace p). \<not> st_unsorted (pl_mem pl x)
        \<and> (if x \<in> S' then stream_ready (pl_mem pl x) (evs x) else \<not> st_active (pl_mem pl x) \<and> evs x = []))"
    if "foldr_res player_start xs p = Inr pl" "player_inv p S" "pl_stream p = None" "\<not> pl_unsorted p"
      "set xs \<subseteq> set (pl_trace p)" "distinct xs" "set xs \<inter> S = {}"
      "\<forall>x \<in> set xs. loaded (pl_mem p x) (evs x)"
      "\<forall>x \<in> set (pl_trace p) - set xs. \<not> st_unsorted (pl_mem p x)
        \<and> (if x \<in> S then stream_ready (pl_mem p x) (evs x) else \<not> st_active (pl_mem p x) \<and> evs x = [])" for xs p S
    using that
  proof (induction xs arbitrary: p S)
    case Nil
    then show ?case by (intro exI [of _ S]) auto
  next
    case (Cons s xs)
    have s: "s \<in> set (pl_trace p)" "s \<notin> S" "loaded (pl_mem p s) (evs s)" using Cons.prems(5,7,8) by auto
    from player_start_merge [OF Cons.prems(2) s(1,2) Cons.prems(3,4) s(3)] obtain p1 S1 st where
      p1: "player_start s p = Inr p1" "player_inv p1 S1" "S1 = (if evs s = [] then S else insert s S)"
      "pl_stream p1 = None" "pl_mem p1 = (pl_mem p)(s := st)" "pl_trace p1 = pl_trace p" "\<not> pl_unsorted p1"
      "pl_first_event p1 = pl_first_event p" "\<not> st_unsorted st"
      "if evs s = [] then \<not> st_active st else stream_ready st (evs s)" by blast
    have rest: "foldr_res player_start xs p1 = Inr pl" using Cons.prems(1) p1(1) by simp
    have a: "set xs \<subseteq> set (pl_trace p1)" "distinct xs" "set xs \<inter> S1 = {}" "\<forall>x \<in> set xs. loaded (pl_mem p1 x) (evs x)"
      using Cons.prems(5-8) p1(3,5,6) by auto
    have b: "\<forall>x \<in> set (pl_trace p1) - set xs. \<not> st_unsorted (pl_mem p1 x)
        \<and> (if x \<in> S1 then stream_ready (pl_mem p1 x) (evs x) else \<not> st_active (pl_mem p1 x) \<and> evs x = [])"
    proof
      fix x assume x: "x \<in> set (pl_trace p1) - set xs"
      show "\<not> st_unsorted (pl_mem p1 x)
        \<and> (if x \<in> S1 then stream_ready (pl_mem p1 x) (evs x) else \<not> st_active (pl_mem p1 x) \<and> evs x = [])"
      proof (cases "x = s")
        case True
        with p1(3,5,9,10) s(2) show ?thesis by (auto split: if_splits)
      next
        case False
        with Cons.prems(9) x p1(3,5,6) show ?thesis by (auto split: if_splits)
      qed
    qed
    from Cons.IH [OF rest p1(2,4,7) a b] p1(6,8) show ?case by simp
  qed
  have "player_inv ?pl {}"
    using loaded_facts(1) [OF st] trace stream_heap.heap_inv_init by (simp add: player_inv_def)
  from loop [OF run this] trace st obtain S where S: "player_inv pl S" "pl_stream pl = None" "pl_trace pl = trace"
    "pl_first_event pl" "\<not> pl_unsorted pl" "\<forall>x \<in> set trace. \<not> st_unsorted (pl_mem pl x)
        \<and> (if x \<in> S then stream_ready (pl_mem pl x) (evs x) else \<not> st_active (pl_mem pl x) \<and> evs x = [])" by auto
  have "player_sorted pl S" using S by (simp add: player_sorted_def)
  with S show ?thesis unfolding merge_inv_def by (intro exI [of _ S]) auto
qed


subsection \<open>Examples\<close>

text \<open>A trace with one stream of two events.\<close>

definition demo_st :: stream where
  "demo_st = \<lparr>st_buf = stream_header @ concat (map ev_bytes demo_evs), st_size = int (8 + length (concat (map ev_bytes demo_evs))),
     st_usize = int (length (concat (map ev_bytes demo_evs))), st_offset = 8, st_cur_ev = None, st_lastclock = 0,
     st_deltaclock = 0, st_clock_offset = 0, st_active = True, st_unsorted = False\<rparr>"

lemma demo_st_loaded: "loaded demo_st demo_evs"
proof -
  have "concat (map ev_bytes demo_evs) \<noteq> []" by (simp add: demo_evs_def ev_bytes_def)
  then have "load_obs (stream_header @ concat (map ev_bytes demo_evs)) = Inr demo_st"
    "stream_clkoff_set 0 demo_st = Inr demo_st" by (simp_all add: load_obs_header demo_st_def stream_clkoff_set_def)
  moreover have "clocks_ok demo_st demo_evs"
    by (simp add: clocks_ok_def demo_st_def demo_evs_def demo_ev_def stream_evclock_def ovni_ev_get_clock_def ovni_ev_set_clock_def)
  ultimately show ?thesis unfolding loaded_def using demo_evs_ok(1) by blast
qed

lemma clock_gate_single: "clock_gate None [st]"
  by (simp add: maxgate_def split: option.splits)

definition demo_nodes :: hmem where
  "demo_nodes = \<lparr>hm_parent = (\<lambda>_. None), hm_left = (\<lambda>_. None), hm_right = (\<lambda>_. None)\<rparr>"

lemma demo_player: "\<exists>pl. player_init [0] (\<lambda>_. demo_st) demo_nodes False = Inr pl"
proof -
  let ?pl = "\<lparr>pl_heap = heap_init demo_nodes, pl_first_event = True, pl_firstclock = 0, pl_lastclock = 0, pl_deltaclock = 0,
        pl_nprocessed = 0, pl_unsorted = False, pl_stream = None, pl_ev = zero_ev, pl_trace = [0], pl_mem = (\<lambda>_. demo_st)\<rparr>"
  have "player_inv ?pl {}" using loaded_facts(1) [OF demo_st_loaded] stream_heap.heap_inv_init by (simp add: player_inv_def)
  from player_start_merge [OF this, of 0 demo_evs] demo_st_loaded obtain pl' where
    "player_start 0 ?pl = Inr pl'" "pl_trace pl' = [0]" by auto
  then show ?thesis by (simp add: player_init_def check_clock_gate_def clock_gate_single del: clock_gate.simps)
qed

lemma demo_player_merge:
  assumes "player_init [0] (\<lambda>_. demo_st) demo_nodes False = Inr pl"
  shows "\<exists>S. merge_inv pl S (\<lambda>_. demo_evs) \<and> pl_trace pl = [0]"
  using player_init_merge [OF assms, of "\<lambda>_. demo_evs"] demo_st_loaded by auto


theorem player_step_in_order_witness:
  "\<exists>pl pl' S'. player_init [0] (\<lambda>_. demo_st) demo_nodes False = Inr pl \<and> player_step pl = Inr (False, pl')
     \<and> player_sorted pl' S' \<and> pl_stream pl' = Some 0"
proof -
  obtain pl where pl: "player_init [0] (\<lambda>_. demo_st) demo_nodes False = Inr pl" using demo_player by blast
  obtain S where S: "merge_inv pl S (\<lambda>_. demo_evs)" "pl_trace pl = [0]" using demo_player_merge [OF pl] by blast
  have ne: "demo_evs \<noteq> []" by (rule demo_evs_ok(2))
  from merge_step [OF S(1)] ne S(2) obtain pl' where pl': "player_step pl = Inr (False, pl')" "pl_trace pl' = [0]" by auto
  have inv: "player_inv pl S" "player_sorted pl S" using S(1) by (auto simp: merge_inv_def)
  from player_step_in_order [OF inv pl'(1)] obtain S' s where
    "player_inv pl' S'" "player_sorted pl' S'" "pl_stream pl' = Some s" by auto
  moreover from this pl'(2) have "s = 0" by (auto simp: player_inv_def)
  ultimately show ?thesis using pl pl'(1) by blast
qed

theorem heap_insert_refines_witness:
  "\<exists>h'. heap_insert (stream_cmp (\<lambda>_. demo_st)) 5 (heap_init demo_nodes) = Inr h'
     \<and> heap_inv (stream_key (\<lambda>_. demo_st)) h' {5}"
  using heap_insert_refines [OF stream_heap.heap_inv_init, of 5 demo_nodes "\<lambda>_. demo_st"] by (simp add: heap_init_def)

theorem heap_pop_refines_witness:
  "\<exists>h h'. heap_inv (stream_key (\<lambda>_. demo_st)) h {5} \<and> heap_pop_max (stream_cmp (\<lambda>_. demo_st)) h = Inr (Some 5, h')"
proof -
  obtain h where h: "heap_inv (stream_key (\<lambda>_. demo_st)) h {5}"
    using stream_heap.heap_insert_ok [OF stream_heap.heap_inv_init, of 5 demo_nodes "\<lambda>_. demo_st"]
    by (auto simp: heap_init_def)
  have "hp_size h = 1" using stream_heap.heap_inv_size [OF h] by simp
  then have "hp_size h < 2 ^ 64" by simp
  from heap_pop_refines [OF h this] h show ?thesis by auto
qed

text \<open>A stream that has played an event and has three more bytes.\<close>

definition demo_cut :: stream where
  "demo_cut = \<lparr>st_buf = replicate 23 0, st_size = 23, st_usize = 15, st_offset = 8, st_cur_ev = Some 8, st_lastclock = 0,
     st_deltaclock = 0, st_clock_offset = 0, st_active = True, st_unsorted = False\<rparr>"

definition demo_cut_player :: player where
  "demo_cut_player = \<lparr>pl_heap = heap_init demo_nodes, pl_first_event = False, pl_firstclock = 0, pl_lastclock = 0,
     pl_deltaclock = 0, pl_nprocessed = 1, pl_unsorted = False, pl_stream = Some 0, pl_ev = zero_ev, pl_trace = [0],
     pl_mem = (\<lambda>_. demo_cut)\<rparr>"

lemma zero_event: "oe_flags (ev_at (replicate n 0)) = 0" "oe_clock (ev_at (replicate n 0)) = 0"
proof -
  have "le_dec (replicate k 0) = 0" for k by (induction k) simp_all
  then show "oe_flags (ev_at (replicate n 0)) = 0" "oe_clock (ev_at (replicate n 0)) = 0"
    by (simp_all add: ev_at_def byte_at_def rd_u_def)
qed

lemma zero_event_size: "ovni_ev_size (ev_at (replicate n 0)) = 12"
  by (simp add: ovni_ev_size_def ovni_payload_size_def is_jumbo_flag_def zero_event ev_header_size_def)

theorem player_step_errors_witness:
  "player_step demo_cut_player = Inl (EStream StreamIncompleteEvent)
     \<and> (\<exists>s. pl_stream demo_cut_player = Some s
          \<and> stream_step (pl_mem demo_cut_player s) = Inl (EStream StreamIncompleteEvent))"
proof -
  have at: "stream_at off demo_cut = ev_at (replicate (23 - nat off) 0)" for off
    by (simp add: stream_at_def demo_cut_def)
  have wf: "stream_wf demo_cut"
    by (auto simp: stream_wf_def at zero_event_size stream_evclock_def ovni_ev_get_clock_def zero_event)
      (simp_all add: demo_cut_def)
  have inv: "player_inv demo_cut_player {}"
    using wf stream_heap.heap_inv_init by (simp add: player_inv_def demo_cut_player_def)
  have so: "player_sorted demo_cut_player {}" by (simp add: player_sorted_def demo_cut_player_def demo_cut_def)
  have step: "stream_step demo_cut = Inl (EStream StreamIncompleteEvent)"
    using zero_event_size by (simp add: stream_step_def stream_load_ev_def stream_at_def demo_cut_def Let_def)
  have fail: "player_step demo_cut_player = Inl (EStream StreamIncompleteEvent)"
    using step by (simp add: player_step_def step_stream_def demo_cut_player_def demo_cut_def)
  from player_step_errors [OF inv so fail] fail show ?thesis by blast
qed

end
