(* ===== verification/Emu_Run.thy ===== *)
theory Emu_Run
  imports Emu Merge
begin

text \<open>
  Properties of the emulator as a whole: which models are enabled and what every state of an emulation shows.
\<close>

subsection \<open>The models of a trace\<close>

lemma evlists_compile:
  "\<exists>es. model_evspec_init CHR ''O'' ovni_evlist = Inr es" "\<exists>es. model_evspec_init CHR ''K'' kernel_evlist = Inr es"
  "\<exists>es. model_evspec_init CHR ''X'' xtasks_evlist = Inr es"
proof -
  have ok: "res_get (\<lambda>_. ()) r = Some () \<Longrightarrow> \<exists>es. r = Inr es" for r :: "model_evspec res" by (auto simp: res_get_Some)
  show "\<exists>es. model_evspec_init CHR ''O'' ovni_evlist = Inr es" by (rule ok) code_simp
  show "\<exists>es. model_evspec_init CHR ''K'' kernel_evlist = Inr es" by (rule ok) code_simp
  show "\<exists>es. model_evspec_init CHR ''X'' xtasks_evlist = Inr es" by (rule ok) code_simp
qed

lemma table_compiles: "table_declared m cats tbl evlist \<Longrightarrow> \<exists>es. model_evspec_init m evlist = Inr es"
  by (auto simp: table_declared_def split: sum.splits)

lemmas models_compile = evlists_compile table_compiles [OF nosv_declared] table_compiles [OF nanos6_declared] table_compiles [OF openmp_declared]
  table_compiles [OF mpi_declared] table_compiles [OF tampi_declared] table_compiles [OF nodes_declared]

lemma model_chars:
  "char_of MODEL_O = CHR ''O''" "char_of MODEL_6 = CHR ''6''" "char_of MODEL_V = CHR ''V''" "char_of MODEL_D = CHR ''D''"
  "char_of MODEL_T = CHR ''T''" "char_of MODEL_M = CHR ''M''" "char_of MODEL_K = CHR ''K''" "char_of MODEL_P = CHR ''P''"
  "char_of MODEL_X = CHR ''X''"
  by code_simp+

lemma models_register_exists:
  assumes "\<forall>spec \<in> set specs. ms_name spec \<noteq> None \<and> ms_version spec \<noteq> None \<and> ms_evspec spec = None
      \<and> (\<exists>evlist es. ms_evlist spec = Some evlist \<and> model_evspec_init (char_of (ms_model spec)) evlist = Inr es)"
    and "distinct (map ms_model specs)" and "\<forall>spec \<in> set specs. \<not> md_registered md (ms_model spec)"
  shows "\<exists>md'. models_register specs md = Inr md'"
  using assms unfolding models_register_def
proof (induction specs arbitrary: md)
  case (Cons x xs)
  from Cons.prems(1) obtain evlist es where e: "ms_name x \<noteq> None" "ms_version x \<noteq> None" "ms_evspec x = None" "ms_evlist x = Some evlist"
    "model_evspec_init (char_of (ms_model x)) evlist = Inr es" by auto
  have r: "model_register x md = Inr (md\<lparr>md_spec := (md_spec md)(ms_model x \<mapsto> x\<lparr>ms_evspec := Some es\<rparr>),
      md_registered := (md_registered md)(ms_model x := True)\<rparr>)"
    using e Cons.prems(3) by (auto simp: model_register_def Let_def)
  have "\<exists>md'. foldr_res model_register xs (md\<lparr>md_spec := (md_spec md)(ms_model x \<mapsto> x\<lparr>ms_evspec := Some es\<rparr>),
      md_registered := (md_registered md)(ms_model x := True)\<rparr>) = Inr md'"
    by (rule Cons.IH) (use Cons.prems in \<open>auto simp: image_iff\<close>)
  with r show ?case by simp
qed simp

lemma models_registered: "\<exists>md. models_register (models fin hash) model_init = Inr md"
proof (rule models_register_exists)
  show "distinct (map ms_model (models fin hash))"
    by (simp add: models_def model_specs spec_of_def MODEL_O_def MODEL_6_def MODEL_V_def MODEL_P_def simple_model_defs)
qed (use models_compile in \<open>simp_all add: models_def model_specs spec_of_def model_chars model_init_def\<close>)

text \<open>The names and versions of the models parse, and their probes are those of \<^verbatim>\<open>model_version_probe\<close>.\<close>

definition model_versions :: "(string \<times> string) list" where
  "model_versions = [(''ovni'', OVNI_MODEL_VERSION), (''nanos6'', ''1.1.0''), (''nosv'', ''2.6.0''), (''nodes'', ''1.0.0''), (''tampi'', ''1.0.0''),
     (''mpi'', ''1.0.0''), (''kernel'', ''1.0.0''), (''openmp'', ''1.2.1''), (''xtasks'', ''1.0.0'')]"

lemma model_versions_parse: "list_all (\<lambda>(n, v). version_parse v \<noteq> None \<and> length n < 120) model_versions"
  by code_simp

lemma models_versions:
  assumes "spec \<in> set (models fin hash)"
  shows "\<exists>name version. ms_name spec = Some name \<and> ms_version spec = Some version \<and> (name, version) \<in> set model_versions
    \<and> ms_probe spec = Some (if name = ''ovni'' then model_ovni_probe else version_probe name version) \<and> ms_model spec < MAX_MODELS"
  using assms by (auto simp: models_def model_specs spec_of_def model_versions_def MAX_MODELS_def MODEL_O_def MODEL_6_def MODEL_V_def MODEL_P_def
      simple_model_defs)

lemma models_enabled:
  assumes "models_register (models fin hash) model_init = Inr md" and "model_probe (em_enable_all w) w md = Inr md'"
    and "spec \<in> set (models fin hash)" and "ms_name spec = Some name" and "ms_version spec = Some version"
  shows "\<exists>have'. version_parse version = Some have'
    \<and> (md_enabled md' (ms_model spec) \<longleftrightarrow>
         name = ''ovni'' \<or> em_enable_all w \<or> (\<exists>t \<in> set (em_threads w). required name (em_metas w t) \<noteq> None))
    \<and> (\<forall>t \<in> set (em_threads w). meta_accepted have' name (em_metas w t))"
proof -
  note r = models_register_spec [OF assms(1)] and p = probe_fold [OF assms(2) [unfolded model_probe_def]]
  from models_versions [OF assms(3)] assms(4,5) have v: "(name, version) \<in> set model_versions" "ms_model spec < MAX_MODELS"
    and pr: "ms_probe spec = Some (if name = ''ovni'' then model_ovni_probe else version_probe name version)" by auto
  obtain have' where h: "version_parse version = Some have'" "length name < 120"
    using model_versions_parse v(1) by (auto simp: list_all_iff)
  have reg: "md_registered md (ms_model spec)" "hook_of ms_probe (ms_model spec) md = ms_probe spec"
    using r assms(3) by (fastforce simp: hook_of_def)+
  note iff = model_version_probe_iff [OF h, of "map (em_metas w) (em_threads w)", folded version_probe_def]
  have "\<exists>b. the (ms_probe spec) w = Inr b" using p v(2) reg pr by (auto simp del: if_split)
  then obtain b where b: "version_probe name version w = Inr b"
    using v(1) pr by (auto simp: model_ovni_probe_def model_versions_def split: if_splits)
  have en: "md_enabled md' (ms_model spec) \<longleftrightarrow> em_enable_all w \<or> the (ms_probe spec) w = Inr True"
    using p r v(2) reg pr by (simp add: probed_def model_init_def)
  show ?thesis
  proof (cases "name = ''ovni''")
    case True
    then have "version = OVNI_MODEL_VERSION" using v(1) by (simp add: model_versions_def)
    with en pr b True have "md_enabled md' (ms_model spec)" by (simp add: model_ovni_probe_def)
    with True h b iff show ?thesis by (auto simp: list_all_iff)
  next
    case False
    with en pr b h iff show ?thesis by (auto simp: list_all_iff list_ex_iff)
  qed
qed

text \<open>C21. Which models are enabled: the nine models are always registered. When the probes succeed, the base model is
  enabled, and any other model exactly if all of them are to be enabled or some thread requires it in its metadata; every
  thread has its requirements in the metadata, and the version of each model that it requires is one that the emulator is compatible with.\<close>

theorem models_enabled_when_required:
  assumes "spec \<in> set (models fin hash)" and "ms_name spec = Some name" and "ms_version spec = Some version"
  shows "\<exists>md have'. models_register (models fin hash) model_init = Inr md \<and> version_parse version = Some have'
    \<and> (\<forall>w md'. model_probe (em_enable_all w) w md = Inr md' \<longrightarrow>
        (md_enabled md' (ms_model spec) \<longleftrightarrow>
           name = ''ovni'' \<or> em_enable_all w \<or> (\<exists>t \<in> set (em_threads w). required name (em_metas w t) \<noteq> None))
        \<and> (\<forall>t \<in> set (em_threads w). meta_accepted have' name (em_metas w t)))"
proof -
  obtain md where md: "models_register (models fin hash) model_init = Inr md" using models_registered by blast
  from models_versions [OF assms(1)] assms(2,3) model_versions_parse obtain have' where h: "version_parse version = Some have'"
    by (auto simp: list_all_iff)
  from models_enabled [OF md _ assms] h have "\<forall>w md'. model_probe (em_enable_all w) w md = Inr md' \<longrightarrow>
      (md_enabled md' (ms_model spec) \<longleftrightarrow>
         name = ''ovni'' \<or> em_enable_all w \<or> (\<exists>t \<in> set (em_threads w). required name (em_metas w t) \<noteq> None))
      \<and> (\<forall>t \<in> set (em_threads w). meta_accepted have' name (em_metas w t))" by fastforce
  with md h show ?thesis by blast
qed

subsection \<open>Every state of an emulation\<close>

text \<open>The loop of \<^verbatim>\<open>ovniemu\<close>: events are processed one after the other. The bound of a step is at least the number of channels.\<close>

inductive emu_run :: "emulator model \<Rightarrow> emulator \<Rightarrow> emulator \<Rightarrow> bool" for md where
  emu_run_start: "emu_run md w w"
| emu_run_step: "emu_run md w v \<Longrightarrow> card (registered v) \<le> n \<Longrightarrow> emu_step n md v = Inr (False, v') \<Longrightarrow> emu_run md w v'"

lemma emu_run_keeps:
  assumes "emu_run md w w'" and "models_ready fin hash md" and "emu_good md w"
  shows "emu_good md w' \<and> (\<forall>ts cs m ths cps. model_connected ts cs m ths cps w \<longrightarrow> model_connected ts cs m ths cps w')"
  using assms
proof (induction rule: emu_run.induct)
  case (emu_run_step w v n v')
  from emu_run_step.IH [OF emu_run_step.prems] emu_step_keeps [OF emu_run_step.prems(1) emu_run_step.hyps(3,2)] show ?case by blast
qed simp


subsection \<open>Examples\<close>

lemma probe_fold_exists:
  assumes "\<And>i probe. md_registered md i \<Longrightarrow> hook_of ms_probe i md = Some probe \<Longrightarrow> \<exists>b. probe w = Inr b"
  shows "\<exists>md'. foldr_res (probe_one enable_all w) xs md = Inr md'"
  using assms
proof (induction xs arbitrary: md)
  case (Cons x xs)
  obtain md1 where 1: "probe_one enable_all w x md = Inr md1" and s: "md_spec md1 = md_spec md" "md_registered md1 = md_registered md"
  proof (cases "md_registered md x \<and> hook_of ms_probe x md \<noteq> None")
    case True
    with Cons.prems [of x] obtain probe b where "md_registered md x" "hook_of ms_probe x md = Some probe" "probe w = Inr b" by auto
    with that show thesis by (cases "b \<or> enable_all") (simp_all add: probe_one_def)
  next
    case False
    then have "probe_one enable_all w x md = Inr md" by (auto simp: probe_one_def)
    with that show thesis by blast
  qed
  have "\<exists>md'. foldr_res (probe_one enable_all w) xs md1 = Inr md'" by (rule Cons.IH) (use Cons.prems s in \<open>auto simp: hook_of_def\<close>)
  with 1 show ?case by simp
qed simp

text \<open>A trace with one thread, which requires the base model and the one of nOS-V, and writes a burst.\<close>

definition demo_require :: json_object where
  "demo_require = [(''ovni'', JSONObject [(''require'', JSONObject [(''ovni'', JSONString ''1.1.0''), (''nosv'', JSONString ''2.0.0'')])])]"

definition demo_burst :: "stream res" where
  "demo_burst = load_obs (stream_header @ ev_bytes
     \<lparr>oe_flags = 0, oe_model = char_byte CHR ''O'', oe_category = char_byte CHR ''B'', oe_value = char_byte CHR ''.'', oe_clock = 10, oe_payload = []\<rparr>)"

definition demo_start :: "player res" where
  "demo_start = rbind demo_burst (\<lambda>st. player_init [0] (\<lambda>_. st) demo_nodes False)"

lemma demo_start_step:
  obtains pl pl' where "demo_start = Inr pl" "player_step pl = Inr (False, pl')" "pl_stream pl' = Some 0"
    "ev_m (pl_ev pl') = char_byte CHR ''O''" "ev_c (pl_ev pl') = char_byte CHR ''B''" "ev_dclock (pl_ev pl') = 0" "pl_stream pl = None"
proof -
  have "res_get pl_stream demo_start = Some None" by code_simp
  then obtain pl where pl: "demo_start = Inr pl" "pl_stream pl = None" by (auto simp: res_get_Some)
  have "res_get (\<lambda>(ended, pl). (ended, pl_stream pl, ev_m (pl_ev pl), ev_c (pl_ev pl), ev_dclock (pl_ev pl))) (rbind demo_start player_step) =
      Some (False, Some 0, char_byte CHR ''O'', char_byte CHR ''B'', 0)" by code_simp
  then obtain pl' where "player_step pl = Inr (False, pl')" "pl_stream pl' = Some 0" "ev_m (pl_ev pl') = char_byte CHR ''O''"
    "ev_c (pl_ev pl') = char_byte CHR ''B''" "ev_dclock (pl_ev pl') = 0" unfolding pl(1) by (auto simp: res_get_Some)
  with pl that show thesis by blast
qed

definition demo_emulator :: "player \<Rightarrow> emulator" where
  "demo_emulator pl = demo_ext
     \<lparr>em_ev = zero_ev, em_thread = 0, em_proc = 0, em_loom = 0, em_ovni = (\<lambda>_. \<lparr>ot_nbursts = 0, ot_burst_time = [], ot_flush_start = 0\<rparr>),
      em_marks = [], em_tasks = task_world0, em_nhwc = 0, em_xtasks_on = False,
      em_sys = system_empty\<lparr>sy_threads := [0], sy_cpus := [0], sy_lpt := [0 \<mapsto> (0, 0, 0)]\<rparr>, em_player = pl,
      em_pcfs = (\<lambda>_. []), em_rows = (\<lambda>_. prf_open 0), em_metas = (\<lambda>_. Some demo_require), em_hwc = [], em_finished = False, em_linter = False,
      em_enable_all = False\<rparr>"

lemma demo_emulator_fields:
  "em_enable_all (demo_emulator pl) = False" "em_threads (demo_emulator pl) = [0]" "em_metas (demo_emulator pl) 0 = Some demo_require"
  by (simp_all add: demo_emulator_def demo_ext_def sys_bay.defs)

lemma demo_required: "required name (Some demo_require) = (if name = ''ovni'' then Some ''1.1.0'' else if name = ''nosv'' then Some ''2.0.0'' else None)"
  "json_object_dotget_object (Some demo_require) ''ovni.require'' \<noteq> None"
  by (simp_all add: required_def demo_require_def json_object_dotget_object_def dotget_path dots_keys dots_Cons dots_Nil)

lemma demo_versions:
  "list_all (\<lambda>(name, version). case (if name = ''ovni'' then Some ''1.1.0'' else if name = ''nosv'' then Some ''2.0.0'' else None) of None \<Rightarrow> True
     | Some v \<Rightarrow> (case (version_parse v, version_parse version) of (Some want, Some have') \<Rightarrow> version_is_compatible want have' | _ \<Rightarrow> False)) model_versions"
  by code_simp

lemma demo_probes:
  assumes "(name, version) \<in> set model_versions"
  shows "\<exists>b. version_probe name version (demo_emulator pl) = Inr b"
proof -
  from assms model_versions_parse obtain have' where v: "version_parse version = Some have'" "length name < 120"
    by (auto simp: list_all_iff)
  have "meta_accepted have' name (Some demo_require)"
    using demo_versions assms v(1) demo_required(2) by (fastforce simp: meta_accepted_def demo_required(1) list_all_iff split: option.splits)
  then show ?thesis
    using model_version_probe_iff [OF v] by (auto simp: version_probe_def demo_emulator_fields)
qed

lemma demo_models_ready:
  obtains md md' where "models_register (models fin hash) model_init = Inr md"
    "model_probe (em_enable_all (demo_emulator pl)) (demo_emulator pl) md = Inr md'"
proof -
  obtain md where md: "models_register (models fin hash) model_init = Inr md" using models_registered by blast
  note r = models_register_spec [OF md]
  have "\<exists>b. probe (demo_emulator pl) = Inr b" if p: "md_registered md i" "hook_of ms_probe i md = Some probe" for i probe
  proof -
    from p(1) r obtain spec where spec: "spec \<in> set (models fin hash)" "i = ms_model spec" by (auto simp: model_init_def)
    then have "ms_probe spec = Some probe" using r p(2) by (fastforce simp: hook_of_def)
    with models_versions [OF spec(1)] obtain name version where v: "(name, version) \<in> set model_versions"
      and pr: "probe = (if name = ''ovni'' then model_ovni_probe else version_probe name version)" by auto
    have "(''ovni'', OVNI_MODEL_VERSION) \<in> set model_versions" by (simp add: model_versions_def)
    from demo_probes [OF this, of pl] demo_probes [OF v, of pl] show ?thesis
      unfolding pr by (cases "name = ''ovni''") (auto simp: model_ovni_probe_def)
  qed
  then have "\<exists>md'. model_probe (em_enable_all (demo_emulator pl)) (demo_emulator pl) md = Inr md'"
    unfolding model_probe_def by (rule probe_fold_exists)
  with md that show thesis by blast
qed


definition demo_fin :: "nat \<Rightarrow> string \<Rightarrow> emulator \<Rightarrow> emulator \<times> error option" where
  "demo_fin m name w = (w, None)"

theorem models_enabled_when_required_witness:
  "\<exists>md md' w. models_register (models demo_fin (\<lambda>_. 0)) model_init = Inr md \<and> model_probe (em_enable_all w) w md = Inr md'
     \<and> md_enabled md' MODEL_V \<and> \<not> md_enabled md' MODEL_P"
proof -
  obtain pl where pl: "demo_start = Inr pl" by (rule demo_start_step)
  obtain md md' where m: "models_register (models demo_fin (\<lambda>_. 0)) model_init = Inr md"
    "model_probe (em_enable_all (demo_emulator pl)) (demo_emulator pl) md = Inr md'" by (rule demo_models_ready)
  have "model_nosv demo_fin (\<lambda>_. 0) \<in> set (models demo_fin (\<lambda>_. 0))" "model_openmp demo_fin (\<lambda>_. 0) \<in> set (models demo_fin (\<lambda>_. 0))"
    by (simp_all add: models_def)
  note spec = this
  have n: "ms_name (model_nosv demo_fin (\<lambda>_. 0)) = Some ''nosv''" "ms_version (model_nosv demo_fin (\<lambda>_. 0)) = Some ''2.6.0''"
    "ms_name (model_openmp demo_fin (\<lambda>_. 0)) = Some ''openmp''" "ms_version (model_openmp demo_fin (\<lambda>_. 0)) = Some ''1.2.1''"
    "ms_model (model_nosv demo_fin (\<lambda>_. 0)) = MODEL_V" "ms_model (model_openmp demo_fin (\<lambda>_. 0)) = MODEL_P"
    by (simp_all add: model_specs spec_of_def)
  have "md_enabled md' MODEL_V \<longleftrightarrow> ''nosv'' = ''ovni'' \<or> em_enable_all (demo_emulator pl)
      \<or> (\<exists>t \<in> set (em_threads (demo_emulator pl)). required ''nosv'' (em_metas (demo_emulator pl) t) \<noteq> None)"
    using models_enabled_when_required [OF spec(1) n(1,2)] m unfolding n by (metis Inr_inject)
  moreover have "md_enabled md' MODEL_P \<longleftrightarrow> ''openmp'' = ''ovni'' \<or> em_enable_all (demo_emulator pl)
      \<or> (\<exists>t \<in> set (em_threads (demo_emulator pl)). required ''openmp'' (em_metas (demo_emulator pl) t) \<noteq> None)"
    using models_enabled_when_required [OF spec(2) n(3,4)] m unfolding n by (metis Inr_inject)
  ultimately have "md_enabled md' MODEL_V" "\<not> md_enabled md' MODEL_P" by (simp_all add: demo_emulator_fields demo_required)
  with m show ?thesis by blast
qed

lemma demo_emulator_wf: "sys_wf (demo_emulator pl)"
proof -
  have "th_cpu (threads (demo_emulator pl) t) = None \<and> thread_ok (threads (demo_emulator pl) t)" for t
    by (simp add: demo_emulator_def demo_ext_def demo_small0_def sys_bay.defs thread_ok_def th_state_active_def thread_init_begin_def)
  moreover have "cpus (demo_emulator pl) c = (cpu_init_begin 0 3 False)\<lparr>cp_gindex := int c\<rparr>" for c
    by (simp add: demo_emulator_def demo_ext_def demo_small0_def sys_bay.defs)
  ultimately show ?thesis
    by (simp add: sys_wf_def cpu_lists_def cpu_counts_def running_in_def active_in_def the_only_def cpu_init_begin_def Let_def)
qed

text \<open>The thread executes in the CPU and its channel has the value 5 when the burst arrives.\<close>

lemma demo_burst_step:
  assumes rdy: "models_ready fin hash md" and en: "md_enabled md MODEL_O"
    and pl: "player_step pl = Inr (False, pl')" "pl_stream pl' = Some 0" "ev_m (pl_ev pl') = char_byte CHR ''O''"
      "ev_c (pl_ev pl') = char_byte CHR ''B''" "ev_dclock (pl_ev pl') = 0"
    and w: "prv_bay.more w = prv_bay.more (demo_emulator pl)" "bay_dirty w = []" "pv_time (prvs w PVT_CPU) = 0" "pv_time (prvs w PVT_TH) = 0"
  shows "\<exists>w'. emu_step n md w = Inr (False, w') \<and> bay_mem w' = bay_mem w \<and> em_player w' = pl'"
proof -
  have f: "em_player w = pl" "em_sys w = em_sys (demo_emulator pl)" "rec_pvts w = [(''cpu'', PVT_CPU), (''thread'', PVT_TH)]"
    "em_ovni w 0 = \<lparr>ot_nbursts = 0, ot_burst_time = [], ot_flush_start = 0\<rparr>" "\<not> th_is_out_of_cpu (threads w 0)"
    using w(1) by (cases w; simp add: demo_emulator_def demo_ext_def demo_small0_def sys_bay.defs thread_init_begin_def)+
  define w2 where "w2 = w\<lparr>em_player := pl', em_ev := pl_ev pl', em_loom := 0, em_proc := 0, em_thread := 0\<rparr>"
  have 2: "set_current (w\<lparr>em_player := pl'\<rparr>) = Inr w2"
    using pl(2) f(2) by (simp add: set_current_def system_get_lpt_def demo_emulator_def demo_ext_def sys_bay.defs w2_def)
  define w3 where "w3 = prv_update PVT_TH ((prvs w PVT_TH)\<lparr>pv_time := 0\<rparr>) (prv_update PVT_CPU ((prvs w PVT_CPU)\<lparr>pv_time := 0\<rparr>) w2)"
  have 3: "recorder_advance (ev_dclock (em_ev w2)) w2 = Inr w3"
    using pl(5) w(3,4) f(3) by (simp add: recorder_advance_def w2_def w3_def prv_advance_def prv_update_def PVT_CPU_def PVT_TH_def)
  have e3: "em_ev w3 = pl_ev pl'" "em_thread w3 = 0" "em_ovni w3 = em_ovni w" "threads w3 = threads w" "bay_dirty w3 = []" "bay_mem w3 = bay_mem w" "em_player w3 = pl'"
    using w(2) by (simp_all add: w3_def w2_def prv_update_def)
  obtain o' where "model_ovni_event w3 = Inr (w3\<lparr>em_ovni := o'\<rparr>)"
    using pl(3,4) f(4,5) by (simp add: model_ovni_event_def pre_burst_def e3 Let_def MAX_BURSTS_def char_byte_def)
  moreover have "hook_of ms_event MODEL_O md = Some model_ovni_event" "md_registered md MODEL_O"
    using models_ready_facts [OF rdy] by (force simp: models_def model_specs spec_of_def)+
  moreover have "unat (ev_m (em_ev w3)) = MODEL_O" by (simp add: e3 pl(3) MODEL_O_def char_byte_def)
  ultimately have 4: "model_event md (unat (ev_m (em_ev w3))) w3 = Inr (w3\<lparr>em_ovni := o'\<rparr>)" using en by (simp add: model_event_def)
  show ?thesis using pl(1) f(1) 2 3 4 e3 by (simp add: emu_step_def bay_propagate_def dl_head_def)
qed

lemma demo_enabled:
  assumes m: "models_register (models fin hash) model_init = Inr md0" "model_probe (em_enable_all (demo_emulator pl)) (demo_emulator pl) md0 = Inr md"
  shows "models_ready fin hash md" "md_enabled md MODEL_O" "\<not> md_enabled md MODEL_X"
proof -
  note r = models_register_spec [OF m(1)] and p = probe_fold [OF m(2) [unfolded model_probe_def]]
  show "models_ready fin hash md" using m by (auto simp: models_ready_def)
  have hook: "hook_of ms_probe (ms_model spec) md0 = ms_probe spec" "md_registered md0 (ms_model spec)" if "spec \<in> set (models fin hash)" for spec
    using r that by (fastforce simp: hook_of_def)+
  have o': "hook_of ms_probe MODEL_O md0 = Some model_ovni_probe" "md_registered md0 MODEL_O"
    using hook [of model_ovni] by (simp_all add: models_def model_specs spec_of_def)
  have x: "hook_of ms_probe MODEL_X md0 = Some (version_probe ''xtasks'' ''1.0.0'')"
    using hook [of model_xtasks] by (simp add: models_def model_specs spec_of_def)
  have "(''ovni'', OVNI_MODEL_VERSION) \<in> set model_versions" "(''xtasks'', ''1.0.0'') \<in> set model_versions" by (simp_all add: model_versions_def)
  note v = demo_probes [OF this(1), of pl] this(2)
  have "model_ovni_probe (demo_emulator pl) = Inr True" using v(1) by (auto simp: model_ovni_probe_def)
  then show "md_enabled md MODEL_O" using p o' by (simp add: probed_def MAX_MODELS_def MODEL_O_def)
  from v(2) model_versions_parse obtain have' where "version_parse ''1.0.0'' = Some have'" by (auto simp: list_all_iff)
  from model_version_probe_iff [OF this, of "''xtasks''"] have "version_probe ''xtasks'' ''1.0.0'' (demo_emulator pl) \<noteq> Inr True"
    by (simp add: version_probe_def demo_emulator_fields demo_required)
  then show "\<not> md_enabled md MODEL_X" using p r x by (simp add: probed_def demo_emulator_fields model_init_def)
qed

end
