(* ===== verification/Rt_Run.thy ===== *)
theory Rt_Run
  imports Rt_Thread
begin

unbundle bit_operations_syntax

text \<open>
  A thread from its start to its last flush, and the emulator that reads what it wrote.

  \<open>rt_op\<close> is a call of the user: emit an event with the current clock and a payload given in pieces, emit a jumbo event, or
  flush. The functions on marks are of the first kind (\<open>mark_emit_op\<close>).
\<close>

subsection \<open>Calls of the user\<close>

datatype rt_op = Emit string "byte list list" | Jumbo string "byte list" | Flush

fun rt_op_step :: "rt_op \<Rightarrow> rt \<Rightarrow> rt res" where
  "rt_op_step (Emit mcv bufs) w =
     rbind (ovni_clock_now w) (\<lambda>(t, w1).
     rbind (foldr_res ovni_payload_add bufs (ev_mcv mcv t)) (\<lambda>ev. ovni_ev_emit ev w1))"
| "rt_op_step (Jumbo mcv buf) w =
     rbind (ovni_clock_now w) (\<lambda>(t, w1). ovni_ev_add_jumbo (ev_mcv mcv t) buf w1)"
| "rt_op_step Flush w = ovni_flush w"

definition rt_run :: "rt_op list \<Rightarrow> rt \<Rightarrow> rt res" where
  "rt_run ops w = foldr_res rt_op_step ops w"

lemma mark_emit_op:
  "value \<noteq> 0 \<Longrightarrow> mark_emit mcv type value w =
     rt_op_step (Emit mcv [le_enc 8 (nat (value mod 2 ^ 64)), le_enc 4 (nat (type mod 2 ^ 32))]) w"
  by (simp add: mark_emit_def ovni_ev_emit_def rbind_def split: sum.splits prod.splits)

text \<open>The pieces of a payload have at least two bytes and at most sixteen together. A jumbo event must leave room
  for the two events of a flush.\<close>

fun op_ok :: "rt_op \<Rightarrow> bool" where
  "op_ok (Emit mcv bufs) \<longleftrightarrow> (\<forall>b \<in> set bufs. 2 \<le> length b) \<and> length (concat bufs) \<le> 16"
| "op_ok (Jumbo mcv buf) \<longleftrightarrow> length buf + 28 < OVNI_MAX_EV_BUF"
| "op_ok Flush \<longleftrightarrow> True"

text \<open>What a call leaves in the stream: the event of the user, then events of flushes.\<close>

definition is_flush :: "ovni_ev \<Rightarrow> bool" where
  "is_flush e \<longleftrightarrow> (\<exists>t. e = ev_trim (ev_mcv ''OF['' t) \<or> e = ev_trim (ev_mcv ''OF]'' t))"

definition same_mcv :: "string \<Rightarrow> ovni_ev \<Rightarrow> bool" where
  "same_mcv mcv e \<longleftrightarrow> oe_model e = char_byte (mcv ! 0) \<and> oe_category e = char_byte (mcv ! 1)
     \<and> oe_value e = char_byte (mcv ! 2)"

fun op_chunk :: "rt_op \<Rightarrow> ovni_ev list \<Rightarrow> bool" where
  "op_chunk (Emit mcv bufs) es \<longleftrightarrow> (\<exists>e fl. es = e # fl \<and> same_mcv mcv e \<and> \<not> is_jumbo_flag e
     \<and> oe_payload e = concat bufs \<and> list_all is_flush fl)"
| "op_chunk (Jumbo mcv buf) es \<longleftrightarrow> (\<exists>e fl. es = e # fl \<and> same_mcv mcv e \<and> is_jumbo_flag e
     \<and> oe_payload e = le_enc 4 (length buf) @ buf \<and> list_all is_flush fl)"
| "op_chunk Flush es \<longleftrightarrow> list_all is_flush es \<and> es \<noteq> []"

lemma flush_evs_flush [simp]: "list_all is_flush (flush_evs t0 t1)" "map oe_clock (flush_evs t0 t1) = [t0, t1]"
  by (auto simp: flush_evs_def is_flush_def)

subsection \<open>The payload in pieces\<close>

lemma payload_adds:
  assumes "ev_user ev" and "\<forall>b \<in> set bufs. 2 \<le> length b" and "ovni_payload_size ev + int (length (concat bufs)) \<le> 16"
  shows "\<exists>ev'. foldr_res ovni_payload_add bufs ev = Inr ev' \<and> ev_user ev' \<and> oe_clock ev' = oe_clock ev
    \<and> oe_model ev' = oe_model ev \<and> oe_category ev' = oe_category ev \<and> oe_value ev' = oe_value ev
    \<and> oe_payload (ev_trim ev') = oe_payload (ev_trim ev) @ concat bufs"
  using assms
proof (induction bufs arbitrary: ev)
  case (Cons b bufs)
  let ?ev = "payload_added b ev"
  have u: "\<not> is_jumbo_flag ev" "length (oe_payload ev) = 16" using Cons.prems(1) by (simp_all add: ev_user_def)
  have fit: "2 \<le> length b" "ovni_payload_size ev + int (length b) \<le> 16" using Cons.prems(2,3) by auto
  note p = ovni_payload_add_ok [OF u fit]
  have "ev_user ?ev" using p(2,4) by (simp add: ev_user_def)
  moreover have "ovni_payload_size ?ev + int (length (concat bufs)) \<le> 16" using p(3) Cons.prems(3) by simp
  ultimately obtain ev' where ev': "foldr_res ovni_payload_add bufs ?ev = Inr ev'" "ev_user ev'"
    "oe_clock ev' = oe_clock ?ev" "oe_model ev' = oe_model ?ev" "oe_category ev' = oe_category ?ev"
    "oe_value ev' = oe_value ?ev" "oe_payload (ev_trim ev') = oe_payload (ev_trim ?ev) @ concat bufs"
    using Cons.IH Cons.prems(2) by (metis list.set_intros(2))
  have "nat (ovni_payload_size ?ev) = nat (ovni_payload_size ev) + length b"
    using p(3) ev_user_size(3) [OF Cons.prems(1)] by simp
  then have "oe_payload (ev_trim ?ev) = oe_payload (ev_trim ev) @ b" using p(5) by (simp add: ev_trim_def)
  moreover have "oe_clock ?ev = oe_clock ev" "oe_model ?ev = oe_model ev" "oe_category ?ev = oe_category ev"
    "oe_value ?ev = oe_value ev" by (simp_all add: payload_added_def Let_def)
  ultimately show ?case using ev' p(1) by (intro exI [of _ ev']) simp
qed simp

lemma mcv_trim [simp]: "oe_payload (ev_trim (ev_mcv mcv t)) = []"
  using ev_user_mcv(2) [of mcv t] by (simp add: ev_trim_def)

lemma mcv_fields [simp]: "oe_model (ev_mcv mcv t) = char_byte (mcv ! 0)" "oe_category (ev_mcv mcv t) = char_byte (mcv ! 1)"
  "oe_value (ev_mcv mcv t) = char_byte (mcv ! 2)"
  by (simp_all add: ev_mcv_def ovni_ev_set_mcv_def)

lemma trim_mcv [simp]: "same_mcv mcv (ev_trim e) \<longleftrightarrow> same_mcv mcv e"
  by (simp add: same_mcv_def ev_trim_def)

subsection \<open>The invariant of a run\<close>

text \<open>The clocks in the stream are the readings of the clock, in the order in which they were made.\<close>

definition run_inv :: "nat \<Rightarrow> rt \<Rightarrow> ovni_ev list \<Rightarrow> bool" where
  "run_inv k w evs \<longleftrightarrow> rt_ok w \<and> rp_st w = ST_READY \<and> rt_holds w evs \<and> fresh w \<and> k \<le> os_nclock w
     \<and> map oe_clock evs = map (clock_at w) [k..<os_nclock w]"

lemma run_inv_sorted: "run_inv k w evs \<Longrightarrow> sorted (map oe_clock evs)"
proof -
  assume inv: "run_inv k w evs"
  then have "sorted (map (clock_at w) [k..<os_nclock w])"
    by (auto simp: sorted_iff_nth_mono run_inv_def rt_ok_def clock_ok_def)
  with inv show ?thesis by (simp add: run_inv_def)
qed

lemma run_inv_add:
  assumes inv: "run_inv k w evs" and same: "rt_same w w'" and h: "rt_holds w' (evs @ es)" and "fresh w'"
    and le: "os_nclock w \<le> os_nclock w'"
    and es: "map oe_clock es = map (clock_at w) [os_nclock w..<os_nclock w']"
  shows "run_inv k w' (evs @ es)"
proof -
  have k: "k \<le> os_nclock w" using inv by (simp add: run_inv_def)
  obtain d where d: "os_nclock w' = os_nclock w + d" using le le_Suc_ex by blast
  have "[k..<os_nclock w + d] = [k..<os_nclock w] @ [os_nclock w..<os_nclock w + d]" using k by (rule upt_add_eq_append)
  then have "map oe_clock (evs @ es) = map (clock_at w') [k..<os_nclock w']"
    using inv es rt_same_ok(3) [OF same] by (simp add: run_inv_def d)
  then show ?thesis
    using assms rt_same_rt_ok [OF same] rt_same_fields [OF same] k unfolding run_inv_def by auto
qed

lemma upt_2: "[i..<Suc (Suc i)] = [i, Suc i]"
  by (simp add: upt_rec)

lemma rt_op_step_ok:
  assumes inv: "run_inv k w evs" and op: "op_ok c"
  shows "\<exists>w' es. rt_op_step c w = Inr w' \<and> run_inv k w' (evs @ es) \<and> op_chunk c es \<and> rt_same w w'"
proof -
  have ok: "rt_ok w" "clock_ok w" and h: "rt_holds w evs" and fr: "fresh w" and st: "rp_st w = ST_READY"
    using inv by (simp_all add: run_inv_def rt_ok_def)
  let ?n = "os_nclock w" and ?w1 = "w\<lparr>os_nclock := Suc (os_nclock w)\<rparr>"
  let ?t = "clock_at w ?n"
  note now = clock_now_ok [OF ok(2)]
  have s1: "rt_same w ?w1" by (simp add: rt_same_def)
  have ok1: "rt_ok ?w1" using rt_same_rt_ok [OF s1] ok(1) by simp
  have h1: "rt_holds ?w1 evs" "fresh ?w1" "clock_at ?w1 = clock_at w"
    using h fr rt_same_ok(3) [OF s1] by (simp_all add: rt_holds_def rt_bytes_def fresh_def)
  show ?thesis
  proof (cases c)
    case (Emit mcv bufs)
    from payload_adds [of "ev_mcv mcv ?t" bufs] op Emit obtain ev where
      ev: "foldr_res ovni_payload_add bufs (ev_mcv mcv ?t) = Inr ev" "ev_user ev" "oe_clock ev = ?t"
        "oe_model ev = char_byte (mcv ! 0)" "oe_category ev = char_byte (mcv ! 1)" "oe_value ev = char_byte (mcv ! 2)"
        "oe_payload (ev_trim ev) = concat bufs" by auto
    from ovni_ev_add_ok [OF ok1 h1(1) ev(2), of 1] h1(2) obtain w' where
      w': "ovni_ev_emit ev ?w1 = Inr w'" "rt_holds w' (evs @ emit_log ?w1 ev)" "rt_same ?w1 w'" "fresh w'"
        "os_nclock w' = (if fits ?w1 (c_size (ovni_ev_size ev)) then Suc ?n else Suc (Suc (Suc ?n)))"
      by (auto simp: ovni_ev_emit_def add_depth_def numeral_3_eq_3 simp del: ovni_ev_add.simps)
    have "map oe_clock (emit_log ?w1 ev) = map (clock_at w) [?n..<os_nclock w']"
      using w'(5) ev(3) h1(3) by (simp add: emit_log_def upt_conv_Cons)
    then have "run_inv k w' (evs @ emit_log ?w1 ev)"
      using w' by (intro run_inv_add [OF inv rt_same_trans [OF s1 w'(3)]]) auto
    moreover have "same_mcv mcv ev" using ev(4-6) by (simp add: same_mcv_def)
    then have "op_chunk c (emit_log ?w1 ev)" using ev(2,7) Emit by (simp add: emit_log_def ev_user_def)
    ultimately show ?thesis using Emit now ev(1) w'(1) rt_same_trans [OF s1 w'(3)] by auto
  next
    case (Jumbo mcv buf)
    have sz: "16 + length buf < OVNI_MAX_EV_BUF" "\<not> 16 + length buf + 12 \<ge> OVNI_MAX_EV_BUF" using op Jumbo by auto
    from ovni_ev_add_jumbo_ok [OF ok1 h1(1) _ _ sz(1), of "ev_mcv mcv ?t"] h1(2) obtain w' where
      w': "ovni_ev_add_jumbo (ev_mcv mcv ?t) buf ?w1 = Inr w'" "rt_holds w' (evs @ jumbo_log ?w1 (ev_mcv mcv ?t) buf)"
        "rt_same ?w1 w'" "fresh w'" "os_nclock w' + 1 = Suc ?n + length (jumbo_log ?w1 (ev_mcv mcv ?t) buf)" by auto
    let ?j = "jumbo_ev (ev_mcv mcv ?t) buf" and ?r = "\<lambda>i. clock_at w (Suc ?n + i)"
    obtain fl where fl: "jumbo_log ?w1 (ev_mcv mcv ?t) buf = ?j # fl"
      "fl = [] \<or> fl = flush_evs (?r 0) (?r 1) @ flush_evs (?r 2) (?r 3) \<or> fl = flush_evs (?r 0) (?r 1)"
      using sz(2) h1(3) by (simp add: jumbo_log_def Let_def)
    have jc: "oe_clock ?j = ?t" "is_jumbo_flag ?j"
      using jumbo_ev_wf(2) [of buf] sz(1) by (simp_all add: jumbo_ev_flag)
    have "map oe_clock (jumbo_log ?w1 (ev_mcv mcv ?t) buf) = map (clock_at w) [?n..<os_nclock w']"
      using w'(5) fl jc(1) by (auto simp: upt_conv_Cons flush_evs_def numeral_eq_Suc)
    then have "run_inv k w' (evs @ jumbo_log ?w1 (ev_mcv mcv ?t) buf)"
      using w' fl(1) by (intro run_inv_add [OF inv rt_same_trans [OF s1 w'(3)]]) auto
    moreover have "op_chunk c (jumbo_log ?w1 (ev_mcv mcv ?t) buf)"
      using fl jc Jumbo
      by (auto simp: same_mcv_def jumbo_ev_def payload_added_def Let_def)
    ultimately show ?thesis using Jumbo now w'(1) rt_same_trans [OF s1 w'(3)] by auto
  next
    case Flush
    from ovni_flush_ok [OF ok(1) h st] fr obtain w' where
      w': "ovni_flush w = Inr w'" "rt_same w w'" "fresh w'" "os_nclock w' = Suc (Suc ?n)"
        "rt_holds w' (evs @ flush_evs ?t (clock_at w (Suc ?n)))" by auto
    have "run_inv k w' (evs @ flush_evs ?t (clock_at w (Suc ?n)))"
      using w' by (intro run_inv_add [OF inv w'(2)]) (simp_all add: upt_2)
    moreover have "op_chunk c (flush_evs ?t (clock_at w (Suc ?n)))"
      using Flush by (auto simp: flush_evs_def is_flush_def)
    ultimately show ?thesis using Flush w'(1,2) by auto
  qed
qed

lemma rt_run_ok:
  assumes "run_inv k w evs" and "list_all op_ok ops"
  shows "\<exists>w' ess. rt_run ops w = Inr w' \<and> run_inv k w' (evs @ concat ess) \<and> list_all2 op_chunk ops ess \<and> rt_same w w'"
  using assms
proof (induction ops arbitrary: w evs)
  case Nil
  then show ?case by (auto simp: rt_run_def)
next
  case (Cons c ops)
  from rt_op_step_ok [OF Cons.prems(1), of c] Cons.prems(2) obtain w1 es where
    w1: "rt_op_step c w = Inr w1" "run_inv k w1 (evs @ es)" "op_chunk c es" "rt_same w w1" by auto
  from Cons.IH [OF w1(2)] Cons.prems(2) obtain w' ess where
    w': "rt_run ops w1 = Inr w'" "run_inv k w' ((evs @ es) @ concat ess)" "list_all2 op_chunk ops ess" "rt_same w1 w'" by auto
  show ?case
    using w1 w' rt_same_trans [OF w1(4) w'(4)]
    by (intro exI [of _ w'] exI [of _ "es # ess"]) (simp add: rt_run_def)
qed

subsection \<open>The start of a thread\<close>

lemma write_stream_header_ok:
  assumes "writes_ok w" and "os_pos w = 0" and "os_file w = []"
  shows "\<exists>w'. write_stream_header w = Inr w' \<and> rt_same w w' \<and> rt_evbuf w' = [] \<and> os_nclock w' = os_nclock w
    \<and> rt_bytes w' = stream_header \<and> fresh w' \<and> os_pos w' \<le> length (os_file w')"
proof -
  let ?w = "w\<lparr>rt_evbuf := stream_header\<rparr>"
  have s: "rt_same w ?w" by (simp add: rt_same_def)
  from flush_evbuf_ok [of ?w] rt_same_ok(1) [OF s] assms obtain w' where
    w': "flush_evbuf ?w = Inr w'" "rt_same ?w w'" "rt_evbuf w' = []" "os_nclock w' = os_nclock w"
      "os_pos w' \<le> length (os_file w')" "rt_bytes w' = rt_bytes ?w" "os_pos w' = length (os_file w')" by auto
  then show ?thesis using rt_same_trans [OF s w'(2)] assms
    by (intro exI [of _ w']) (simp add: write_stream_header_def rt_bytes_def fresh_def)
qed

text \<open>The strings of the metadata have to be valid UTF-8.\<close>

definition init_ok :: "string \<Rightarrow> string \<Rightarrow> int \<Rightarrow> rt \<Rightarrow> bool" where
  "init_ok lib commit tid w \<longleftrightarrow> \<not> rt_ready w \<and> \<not> rt_finished w \<and> tid \<noteq> 0 \<and> rp_st w = ST_READY
     \<and> is_valid_utf8 lib \<and> is_valid_utf8 commit \<and> is_valid_utf8 (rp_loom w)"

lemma ovni_thread_init_ok:
  assumes init: "init_ok lib commit tid w" and wr: "writes_ok w" and ck: "clock_ok w" and empty: "os_file w = []"
  shows "\<exists>w'. ovni_thread_init lib commit tid w = Inr w' \<and> run_inv (os_nclock w) w' [] \<and> rt_tid w' = tid
    \<and> rp_pid w' = rp_pid w \<and> rp_app w' = rp_app w \<and> rp_loom w' = rp_loom w \<and> os_clock w' = os_clock w
    \<and> os_nclock w' = os_nclock w \<and> rt_meta w' = started_meta lib commit w' \<and> rt_cpus w' = [] \<and> \<not> rt_rank_set w'
    \<and> \<not> rt_finished w'"
proof -
  let ?w1 = "create_trace_stream ((rthread_zero w)\<lparr>rt_tid := tid\<rparr>)"
  have w1: "writes_ok ?w1" "os_pos ?w1 = 0" "os_file ?w1 = []"
    using wr empty by (simp_all add: create_trace_stream_def rthread_zero_def writes_ok_def)
  from write_stream_header_ok [OF w1] obtain w2 where
    w2: "write_stream_header ?w1 = Inr w2" "rt_same ?w1 w2" "rt_evbuf w2 = []" "os_nclock w2 = os_nclock ?w1"
      "rt_bytes w2 = stream_header" "fresh w2" "os_pos w2 \<le> length (os_file w2)" by blast
  let ?w2 = "w2\<lparr>rt_meta := []\<rparr>"
  have f2: "rp_st w2 = ST_READY" "rp_loom w2 = rp_loom w" "rp_pid w2 = rp_pid w" "rp_app w2 = rp_app w" "rt_tid w2 = tid"
    "os_clock w2 = os_clock w" "os_write w2 = os_write w" "rt_cpus w2 = []" "\<not> rt_rank_set w2" "\<not> rt_finished w2"
    "os_nclock w2 = os_nclock w"
    using w2(2,4) init unfolding rt_same_def
    by (cases w; cases w2; simp add: create_trace_stream_def rthread_zero_def init_ok_def)+
  let ?w3 = "thread_metadata_store (?w2\<lparr>rt_meta := initial_meta lib commit ?w2\<rparr>)"
  have "thread_metadata_populate lib commit ?w2 = Inr (?w2\<lparr>rt_meta := initial_meta lib commit ?w2\<rparr>)"
    using init f2(2) by (intro thread_metadata_populate_ok) (simp_all add: init_ok_def)
  then have "thread_metadata_init lib commit w2 = Inr ?w3" by (simp add: thread_metadata_init_def)
  let ?w4 = "?w3\<lparr>rt_ready := True\<rparr>"
  have "rt_meta ?w4 = initial_meta lib commit ?w4"
    by (simp add: thread_metadata_store_def initial_meta_def)
  then have "ovni_thread_require (Some ''ovni'') (Some OVNI_MODEL_VERSION) ?w4
      = Inr (?w4\<lparr>rt_meta := started_meta lib commit ?w4\<rparr>)" by (intro require_base) simp_all
  let ?w' = "?w4\<lparr>rt_meta := started_meta lib commit ?w4\<rparr>"
  have "ovni_thread_init lib commit tid w = Inr ?w'"
    using init w2(1) \<open>thread_metadata_init lib commit w2 = Inr ?w3\<close>
      \<open>ovni_thread_require (Some ''ovni'') (Some OVNI_MODEL_VERSION) ?w4 = Inr ?w'\<close>
    by (simp add: ovni_thread_init_def init_ok_def Let_def del: rt.update_defs)
  moreover have "run_inv (os_nclock w) ?w' []"
    using wr ck f2 w2 unfolding run_inv_def
    by (simp add: thread_metadata_store_def rt_ok_def writes_ok_def clock_ok_def clock_at_def rt_holds_def rt_bytes_def
        fresh_def OVNI_MAX_EV_BUF_def)
  ultimately show ?thesis using f2
    by (intro exI [of _ ?w']) (simp add: thread_metadata_store_def started_meta_def)
qed

subsection \<open>What was written is read\<close>

lemma fresh_flush_file:
  assumes inv: "run_inv k w evs"
  shows "\<exists>w'. ovni_flush w = Inr w' \<and> fresh w'
    \<and> take (os_pos w') (os_file w') = stream_header @ concat (map ev_bytes evs)"
  using ovni_flush_ok [of w evs] inv by (auto simp: run_inv_def)

lemma flushed_file:
  assumes "run_inv k w evs"
  shows "\<exists>w'. ovni_flush w = Inr w' \<and> os_file w' = stream_header @ concat (map ev_bytes evs)"
  using fresh_flush_file [OF assms] by (auto simp: fresh_def)

text \<open>The stream loaded from such a file, with no correction of its clock.\<close>

lemma loaded_log:
  assumes wf: "\<forall>e \<in> set evs. ev_wf e" and ne: "evs \<noteq> []"
  shows "\<exists>s. load_obs (stream_header @ concat (map ev_bytes evs)) = Inr s \<and> stream_wf s \<and> \<not> st_unsorted s
    \<and> st_clock_offset s = 0 \<and> st_lastclock s = 0
    \<and> (clocks_ok s evs \<longrightarrow> stream_read (Suc (length evs)) s = Inr evs)
    \<and> stream_read (Suc (length evs)) (stream_allow_unsorted s) = Inr evs"
proof -
  obtain s where s: "load_obs (stream_header @ concat (map ev_bytes evs)) = Inr s" by (simp add: load_obs_header)
  then have f: "st_clock_offset s = 0" "st_cur_ev s = None" by (auto simp: load_obs_header)
  then have off: "stream_clkoff_set 0 s = Inr s" by (simp add: stream_clkoff_set_def)
  note l = stream_loaded [OF s off]
  let ?u = "stream_allow_unsorted s"
  obtain e rest where evs: "evs = e # rest" using ne by (cases evs) auto
  have h: "stream_holds ?u 8 (e # rest)" "st_offset ?u = int 8" "st_cur_ev ?u = None" "st_active ?u"
    using l evs by (simp_all add: stream_allow_unsorted_def stream_holds_def)
  have "clocks_ok ?u (e # rest)" by (simp add: clocks_ok_def stream_allow_unsorted_def)
  from stream_step_first [OF h _ this] wf evs obtain s' where
    s': "stream_step ?u = Inr (False, s')" "stream_ready s' (e # rest)" by auto
  define n where "n = length evs"
  have "stream_read n s' = Inr rest" by (rule stream_read_from [OF s'(2)]) (simp add: evs n_def)
  with s'(1) stream_ready_ev [OF s'(2)] have "stream_read (Suc n) ?u = Inr (e # rest)" by auto
  then have "stream_read (Suc (length evs)) ?u = Inr evs" by (simp only: n_def evs)
  with s l load_obs_wf [OF s] stream_read_loaded [OF wf ne s off] show ?thesis by (intro exI [of _ s]) simp
qed

lemma evclock_small: "oe_clock e < 2 ^ 63 \<Longrightarrow> st_clock_offset s = 0 \<Longrightarrow> stream_evclock e s = uint (oe_clock e)"
proof -
  assume "oe_clock e < 2 ^ 63" and s: "st_clock_offset s = 0"
  then have "uint (oe_clock e) < 2 ^ 63" by (simp add: word_less_def)
  moreover have "0 \<le> uint (oe_clock e)" by simp
  then have "- (2 ^ 63) \<le> uint (oe_clock e)" by (rule order_trans [rotated]) simp
  ultimately have "c_int64 (uint (oe_clock e)) = uint (oe_clock e)" by (intro c_int64_id)
  with s show ?thesis by (simp add: stream_evclock_def ovni_ev_get_clock_def)
qed

lemma clocks_ok_sorted:
  assumes "\<forall>e \<in> set evs. oe_clock e < 2 ^ 63" and "st_clock_offset s = 0" and "st_lastclock s = 0" and "\<not> st_unsorted s"
  shows "clocks_ok s evs \<longleftrightarrow> sorted (map oe_clock evs)"
proof -
  have m: "map (\<lambda>e. stream_evclock e s) evs = map uint (map oe_clock evs)"
    using assms(1,2) evclock_small by simp
  have "sorted (map uint cs) \<longleftrightarrow> sorted cs" for cs :: "64 word list"
    by (induction cs) (auto simp: word_le_def)
  with assms(3,4) show ?thesis unfolding clocks_ok_def m by (simp del: map_map)
qed


text \<open>A process that is ready and a file system that takes three bytes at a time.\<close>

definition demo_rt :: rt where
  "demo_rt = \<lparr>rp_st = ST_READY, rp_app = 1, rp_pid = 10, rp_loom = ''node1'', rt_tid = 0, rt_ready = False,
     rt_finished = False, rt_evbuf = [], rt_cpus = [], rt_rank_set = False, rt_rank = 0, rt_nranks = 0, rt_meta = [],
     os_clock = (\<lambda>i. Some (0, if i < 2 then 5 else 7)), os_nclock = 0, os_write = (\<lambda>i n. int (min 3 n)), os_nwrite = 0,
     os_file = [], os_pos = 0, os_json = None\<rparr>"

lemma demo_rt_ok: "writes_ok demo_rt" "clock_ok demo_rt" "clock_at demo_rt i < 2 ^ 63" "os_file demo_rt = []"
  "clock_at demo_rt = (\<lambda>i. if i < 2 then 5 else 7)"
  by (auto simp: demo_rt_def writes_ok_def clock_ok_def clock_at_def clock_value_def)

lemma demo_rt_init: "init_ok ''1.11.0'' ''abc'' 20 demo_rt"
proof -
  have "is_valid_utf8 ''1.11.0''" "is_valid_utf8 ''abc''" "is_valid_utf8 ''node1''"
    by (rule is_valid_utf8_ascii, simp)+
  then show ?thesis by (simp add: init_ok_def demo_rt_def)
qed



text \<open>A thread with one event in its buffer.\<close>

definition demo_busy :: rt where
  "demo_busy = demo_rt\<lparr>rt_ready := True, rt_tid := 20, os_file := stream_header, os_pos := length stream_header,
     rt_evbuf := ev_bytes (ev_trim (ev_mcv ''OB.'' 3))\<rparr>"

lemma demo_busy_ok: "rt_ok demo_busy" "rt_holds demo_busy [ev_trim (ev_mcv ''OB.'' 3)]" "fresh demo_busy"
  "rp_st demo_busy = ST_READY" "clock_at demo_busy = clock_at demo_rt" "length (rt_evbuf demo_busy) = 12"
proof -
  have os: "os_clock demo_busy = os_clock demo_rt" "os_write demo_busy = os_write demo_rt" "rt_ready demo_busy"
    by (simp_all add: demo_busy_def)
  then show c: "clock_at demo_busy = clock_at demo_rt" by (simp add: clock_at_def fun_eq_iff)
  show "rt_ok demo_busy" using demo_rt_ok(1,2) os unfolding rt_ok_def writes_ok_def clock_ok_def c by simp
  show "rt_holds demo_busy [ev_trim (ev_mcv ''OB.'' 3)]"
    by (simp add: demo_busy_def rt_holds_def rt_bytes_def OVNI_MAX_EV_BUF_def ev_user_trim(1) del: ev_bytes_length)
  show "fresh demo_busy" "rp_st demo_busy = ST_READY" "length (rt_evbuf demo_busy) = 12"
    by (simp_all add: demo_busy_def demo_rt_def fresh_def del: ev_bytes_length)
qed


text \<open>C38. A jumbo event that fills the buffer so that not even one event of its own flush fits after it leaves a
  stream that the emulator refuses: the first event of the flush makes the runtime flush again, the events of the second
  flush come before the end of the first, and the emulator finds that the clock goes backwards.\<close>

theorem jumbo_flush_disorder:
  assumes ok: "rt_ok w" and h: "rt_holds w evs" and "fresh w" and st: "rp_st w = ST_READY"
    and ev: "ev_user ev" "ovni_payload_size ev = 0" and sz: "16 + length buf < OVNI_MAX_EV_BUF"
    and big: "28 + length buf \<ge> OVNI_MAX_EV_BUF" "length (rt_evbuf w) + 16 + length buf \<ge> OVNI_MAX_EV_BUF"
    and later: "clock_at w (os_nclock w + 1) < clock_at w (os_nclock w + 3)"
    and small: "\<forall>e \<in> set evs. oe_clock e < 2 ^ 63" "oe_clock ev < 2 ^ 63" "\<forall>i. clock_at w i < 2 ^ 63"
  shows "\<exists>w1 w2 s n. ovni_ev_add_jumbo ev buf w = Inr w1 \<and> ovni_flush w1 = Inr w2 \<and> load_obs (os_file w2) = Inr s
    \<and> stream_read n s = Inl (EStream StreamClockBackwards)"
proof -
  let ?t = "\<lambda>i. clock_at w (os_nclock w + i)" and ?log = "jumbo_log w ev buf"
  from ovni_ev_add_jumbo_ok [OF ok h ev sz] obtain w1 where
    w1: "ovni_ev_add_jumbo ev buf w = Inr w1" "rt_holds w1 (evs @ ?log)" "rt_same w w1" "fresh w1" using assms(3) by blast
  have "rt_ok w1" "rp_st w1 = ST_READY" using rt_same_rt_ok [OF w1(3)] rt_same_fields [OF w1(3)] ok st by auto
  from ovni_flush_ok [OF this(1) w1(2) this(2)] w1(4) obtain w2 where
    w2: "ovni_flush w1 = Inr w2" "os_file w2 = stream_header @ concat (map ev_bytes (evs @ ?log))"
    by (auto simp: fresh_def)
  have log: "?log = [jumbo_ev ev buf, ev_trim (ev_mcv ''OF['' (?t 0))] @ flush_evs (?t 2) (?t 3) @ [ev_trim (ev_mcv ''OF]'' (?t 1))]"
    using big by (simp add: jumbo_log_def Let_def fits_def)
  have wf: "\<forall>e \<in> set (evs @ ?log). ev_wf e" using w1(2) by (simp add: rt_holds_def)
  have jc: "oe_clock (jumbo_ev ev buf) = oe_clock ev" using sz by (intro jumbo_ev_wf) simp
  have c: "\<forall>e \<in> set (evs @ ?log). oe_clock e < 2 ^ 63" using small jc by (auto simp: log flush_evs_def)
  have ns: "\<not> sorted (map oe_clock (evs @ ?log))" using later by (simp add: log flush_evs_def sorted_append not_le)
  from loaded_log [OF wf] log obtain s where s: "load_obs (os_file w2) = Inr s" "stream_wf s" "\<not> st_unsorted s"
    "st_clock_offset s = 0" "st_lastclock s = 0"
    "stream_read (Suc (length (evs @ ?log))) (stream_allow_unsorted s) = Inr (evs @ ?log)"
    using w2(2) by auto
  have "stream_read (Suc (length (evs @ ?log))) s \<noteq> Inr (evs @ ?log)"
  proof
    assume "stream_read (Suc (length (evs @ ?log))) s = Inr (evs @ ?log)"
    from stream_read_sorted [OF s(2,3) this] have "clocks_ok s (evs @ ?log)" by (simp add: clocks_ok_def)
    with clocks_ok_sorted [OF c s(4,5,3)] ns show False by simp
  qed
  with stream_read_allow [OF s(6)] s(1) w1(1) w2(1) show ?thesis by blast
qed

theorem jumbo_flush_disorder_witness:
  "\<exists>w1 w2 s n. ovni_ev_add_jumbo (ev_mcv ''VYc'' 4) (replicate (OVNI_MAX_EV_BUF - 17) 0) demo_busy = Inr w1
     \<and> ovni_flush w1 = Inr w2 \<and> load_obs (os_file w2) = Inr s \<and> stream_read n s = Inl (EStream StreamClockBackwards)"
proof (rule jumbo_flush_disorder [OF demo_busy_ok(1-4)])
  show "\<forall>i. clock_at demo_busy i < 2 ^ 63" using demo_rt_ok(3) by (simp add: demo_busy_ok(5))
  have "os_nclock demo_busy = 0" by (simp add: demo_busy_def demo_rt_def)
  then show "clock_at demo_busy (os_nclock demo_busy + 1) < clock_at demo_busy (os_nclock demo_busy + 3)"
    by (simp add: demo_busy_ok(5) demo_rt_ok(5))
qed (simp_all add: OVNI_MAX_EV_BUF_def demo_busy_ok(6))

end
