(* ===== verification/Osort.thy ===== *)
theory Osort
  imports Stream "HOL-Library.Multiset"
begin

text \<open>
  The tool that sorts the streams of a trace: \<^verbatim>\<open>src/emu/ovnisort.c\<close>.

  The kernel writes its events late, between the marks \<^verbatim>\<open>OU[\<close> and \<^verbatim>\<open>OU]\<close>. When a region is closed, the tool looks back
  in a ring with the last events of the stream for one that is older than the whole region, and sorts the
  bytes of the file from there to the end of the region.

  A pointer to an event is its offset in the stream. The file is written with \<^verbatim>\<open>pwrite\<close> and read through the
  private mapping of \<^verbatim>\<open>stream.c\<close>, which was never written, so both are the same bytes \<open>st_buf\<close>. The answers of
  \<^verbatim>\<open>pwrite\<close> are an argument: \<open>pw k n\<close> is the answer of call \<open>k\<close> when it is given \<open>n\<close> bytes. \<^verbatim>\<open>qsort\<close> of the C library
  is a parameter \<open>qs\<close>; the standard only promises what the locale \<open>c_qsort\<close> says, not the order of equal elements.
  The loops that follow the sizes of events have the number of bytes as bound: every event has bytes.
  The loops on the ring have its size as bound. The size of the ring, the option \<^verbatim>\<open>-n\<close>, must be positive.
\<close>

subsection \<open>The ring\<close>

record ring =
  rg_head :: nat
  rg_tail :: nat
  rg_size :: nat
  rg_ev :: "int list"

definition ring_reset :: "ring \<Rightarrow> ring" where
  "ring_reset r = r\<lparr>rg_head := 0, rg_tail := 0\<rparr>"

definition ring_add :: "int \<Rightarrow> ring \<Rightarrow> ring" where
  "ring_add ev r =
     (let r1 = r\<lparr>rg_ev := (rg_ev r)[rg_tail r := ev], rg_tail := rg_tail r + 1\<rparr>;
          r2 = (if rg_tail r1 \<ge> rg_size r1 then r1\<lparr>rg_tail := 0\<rparr> else r1);
          r3 = (if rg_head r2 = rg_tail r2 then r2\<lparr>rg_head := rg_tail r2 + 1\<rparr> else r2)
      in if rg_head r3 \<ge> rg_size r3 then r3\<lparr>rg_head := 0\<rparr> else r3)"

text \<open>The event a pointer points to.\<close>

definition mem_ev :: "byte list \<Rightarrow> int \<Rightarrow> ovni_ev" where
  "mem_ev mem p = ev_at (drop (nat p) mem)"

fun ring_check_loop :: "nat \<Rightarrow> byte list \<Rightarrow> ring \<Rightarrow> nat \<Rightarrow> 64 word \<Rightarrow> unit res" where
  "ring_check_loop n mem r i last_clock =
     (if i = rg_tail r then Inr ()
      else case n of 0 \<Rightarrow> Inl EFuel
      | Suc n' \<Rightarrow>
          let clock = oe_clock (mem_ev mem (rg_ev r ! i)) in
          if clock < last_clock then Inl (EOsort OsRingUnsorted)
          else ring_check_loop n' mem r ((i + 1) mod rg_size r) clock)"

definition ring_check :: "byte list \<Rightarrow> ring \<Rightarrow> nat \<Rightarrow> unit res" where
  "ring_check mem r start = ring_check_loop (rg_size r) mem r start 0"

text \<open>The loop of \<^verbatim>\<open>find_destination\<close>: the position found, if any, and \<^verbatim>\<open>nback\<close>.\<close>

fun find_back :: "nat \<Rightarrow> byte list \<Rightarrow> ring \<Rightarrow> 64 word \<Rightarrow> nat \<Rightarrow> nat \<Rightarrow> nat \<Rightarrow> (nat option \<times> nat) res" where
  "find_back n mem r clock i end' nback =
     (if i = end' then Inr (None, nback)
      else case n of 0 \<Rightarrow> Inl EFuel
      | Suc n' \<Rightarrow>
          if oe_clock (mem_ev mem (rg_ev r ! i)) < clock then Inr (Some i, nback)
          else find_back n' mem r clock (if i = 0 then rg_size r - 1 else i - 1) end' (nback + 1))"

definition find_destination :: "byte list \<Rightarrow> ring \<Rightarrow> 64 word \<Rightarrow> nat option res" where
  "find_destination mem r clock =
     (let start = (if rg_tail r \<ge> 1 then rg_tail r - 1 else rg_size r - 1);
          end' = (if rg_head r \<ge> 1 then rg_head r - 1 else rg_size r - 1) in
      rbind (find_back (rg_size r) mem r clock start end' 0) (\<lambda>(found, nback).
        case found of Some i \<Rightarrow> Inr (Some i)
        | None \<Rightarrow>
            if nback < rg_size r - 1 then
              (if rg_head r \<noteq> 0 then Inl (EOsort OsRingHead)
               else if rg_tail r \<ge> rg_size r - 1 then Inl (EOsort OsRingTail)
               else Inr (Some (rg_head r)))
            else Inr None))"

declare ring_check_loop.simps [simp del] find_back.simps [simp del]

subsection \<open>Sorting a part of the stream\<close>

definition starts_unsorted_region :: "ovni_ev \<Rightarrow> bool" where
  "starts_unsorted_region ev \<longleftrightarrow>
     oe_model ev = char_byte (CHR ''O'') \<and> oe_category ev = char_byte (CHR ''U'') \<and> oe_value ev = char_byte (CHR ''['')"

definition ends_unsorted_region :: "ovni_ev \<Rightarrow> bool" where
  "ends_unsorted_region ev \<longleftrightarrow>
     oe_model ev = char_byte (CHR ''O'') \<and> oe_category ev = char_byte (CHR ''U'') \<and> oe_value ev = char_byte (CHR '']'')"

fun find_min_loop :: "nat \<Rightarrow> byte list \<Rightarrow> int \<Rightarrow> int \<Rightarrow> 64 word \<Rightarrow> 64 word res" where
  "find_min_loop n mem p end' min_clock =
     (if p \<ge> end' then Inr min_clock
      else case n of 0 \<Rightarrow> Inl EFuel
      | Suc n' \<Rightarrow>
          let ev = mem_ev mem p in
          find_min_loop n' mem (p + ovni_ev_size ev) end' (if oe_clock ev < min_clock then oe_clock ev else min_clock))"

definition find_min_clock :: "byte list \<Rightarrow> int \<Rightarrow> int \<Rightarrow> 64 word res" where
  "find_min_clock mem src end' = find_min_loop (nat (end' - src)) mem src end' (oe_clock (mem_ev mem src))"

fun count_loop :: "nat \<Rightarrow> byte list \<Rightarrow> int \<Rightarrow> int \<Rightarrow> nat \<Rightarrow> nat res" where
  "count_loop n mem p end' k =
     (if p \<ge> end' then Inr k
      else case n of 0 \<Rightarrow> Inl EFuel
      | Suc n' \<Rightarrow> count_loop n' mem (p + ovni_ev_size (mem_ev mem p)) end' (k + 1))"

definition count_events :: "byte list \<Rightarrow> int \<Rightarrow> int \<Rightarrow> nat res" where
  "count_events mem src end' = count_loop (nat (end' - src)) mem src end' 0"

declare find_min_loop.simps [simp del] count_loop.simps [simp del]

fun index_events :: "nat \<Rightarrow> byte list \<Rightarrow> int \<Rightarrow> int list" where
  "index_events 0 mem p = []"
| "index_events (Suc n) mem p = p # index_events n mem (p + ovni_ev_size (mem_ev mem p))"

fun write_events :: "int list \<Rightarrow> byte list \<Rightarrow> byte list" where
  "write_events [] mem = []"
| "write_events (p # table) mem =
     take (c_size (ovni_ev_size (mem_ev mem p))) (drop (nat p) mem) @ write_events table mem"

definition cmp_ev :: "byte list \<Rightarrow> int \<Rightarrow> int \<Rightarrow> int" where
  "cmp_ev mem a b =
     (let clock1 = c_int64 (uint (oe_clock (mem_ev mem a))); clock2 = c_int64 (uint (oe_clock (mem_ev mem b))) in
      if clock1 < clock2 then -1 else if clock1 > clock2 then 1 else 0)"

type_synonym qsort = "(int \<Rightarrow> int \<Rightarrow> int) \<Rightarrow> int list \<Rightarrow> int list"

definition sort_buf :: "qsort \<Rightarrow> byte list \<Rightarrow> int \<Rightarrow> int \<Rightarrow> byte list res" where
  "sort_buf qs mem src bufsize =
     (let buf2 = take (nat bufsize) (drop (nat src) mem) in
      rbind (count_events buf2 0 bufsize) (\<lambda>n.
        Inr (write_events (qs (cmp_ev buf2) (index_events n buf2 0)) buf2)))"

text \<open>\<^verbatim>\<open>write_stream\<close> gets a call for each byte, which is enough when every call takes some. \<open>k\<close> counts the calls.\<close>

fun write_stream :: "(nat \<Rightarrow> nat \<Rightarrow> int) \<Rightarrow> nat \<Rightarrow> int \<Rightarrow> byte list \<Rightarrow> nat \<Rightarrow> byte list \<Rightarrow> (nat \<times> byte list) res" where
  "write_stream pw n dst src k mem =
     (if src = [] then Inr (k, mem)
      else case n of 0 \<Rightarrow> Inl EFuel
      | Suc n' \<Rightarrow>
          let written = pw k (length src) in
          if written < 0 then Inl (EOsort OsWriteFailed)
          else write_stream pw n' (dst + written) (drop (nat written) src) (k + 1)
            (take (nat dst) mem @ take (nat written) src @ drop (nat dst + length (take (nat written) src)) mem))"

fun rebuild_ring :: "nat \<Rightarrow> byte list \<Rightarrow> nat \<Rightarrow> int \<Rightarrow> int \<Rightarrow> ring \<Rightarrow> ring res" where
  "rebuild_ring n mem i ev last' r =
     (if i = rg_tail r then (if ev \<noteq> last' then Inl (EOsort OsNotLast) else Inr r)
      else case n of 0 \<Rightarrow> Inl EFuel
      | Suc n' \<Rightarrow>
          if ev \<ge> last' then Inl (EOsort OsExceedsLast)
          else rebuild_ring n' mem (if i + 1 \<ge> rg_size r then 0 else i + 1) (ev + ovni_ev_size (mem_ev mem ev)) last'
            (r\<lparr>rg_ev := (rg_ev r)[i := ev]\<rparr>))"

declare write_stream.simps [simp del] rebuild_ring.simps [simp del]

subsection \<open>A stream\<close>

datatype winsort_st = StSorted | StUnsorted | StRegion \<comment> \<open>the characters S, U and X\<close>

record winsort =
  ws_stream :: stream
  ws_ring :: ring
  ws_calls :: nat
  ws_st :: winsort_st
  ws_bad0 :: int
  ws_empty_regions :: nat
  ws_updated :: bool

definition execute_sort_plan :: "qsort \<Rightarrow> (nat \<Rightarrow> nat \<Rightarrow> int) \<Rightarrow> int \<Rightarrow> winsort \<Rightarrow> winsort res" where
  "execute_sort_plan qs pw next' w =
     (let mem = st_buf (ws_stream w); r = ws_ring w; clock0 = oe_clock (mem_ev mem (ws_bad0 w)) in
      rbind (find_min_clock mem (ws_bad0 w) next') (\<lambda>min_clock.
      rbind (find_destination mem r (if min_clock < clock0 then min_clock else clock0)) (\<lambda>dest.
        case dest of None \<Rightarrow> Inl (EOsort OsNoDestination)
        | Some i0 \<Rightarrow>
            let first = rg_ev r ! i0; bufsize = next' - first in
            if bufsize \<le> 0 then Inl (EOsort OsBufSize)
            else rbind (sort_buf qs mem first bufsize) (\<lambda>buf.
              rbind (write_stream pw (length buf) first buf (ws_calls w) mem) (\<lambda>(k, mem').
              rbind (rebuild_ring (rg_size r) mem' i0 first next' r) (\<lambda>r'.
              rbind (ring_check mem' r' i0) (\<lambda>_.
                Inr (w\<lparr>ws_stream := (ws_stream w)\<lparr>st_buf := mem'\<rparr>, ws_ring := r', ws_calls := k\<rparr>))))))))"

text \<open>The body of the loop, on the event \<open>ev\<close> of the stream.\<close>

definition winsort_event :: "qsort \<Rightarrow> (nat \<Rightarrow> nat \<Rightarrow> int) \<Rightarrow> int \<Rightarrow> winsort \<Rightarrow> winsort res" where
  "winsort_event qs pw p w =
     (let ev = mem_ev (st_buf (ws_stream w)) p in
      rbind
       (if ws_st w = StSorted \<and> starts_unsorted_region ev then Inr (w\<lparr>ws_st := StUnsorted\<rparr>)
        else if ws_st w = StUnsorted then
          (if ends_unsorted_region ev then Inr (w\<lparr>ws_empty_regions := ws_empty_regions w + 1, ws_st := StSorted\<rparr>)
           else Inr (w\<lparr>ws_st := StRegion, ws_bad0 := p\<rparr>))
        else if ws_st w = StRegion \<and> ends_unsorted_region ev then
          rbind (execute_sort_plan qs pw p (w\<lparr>ws_updated := True\<rparr>)) (\<lambda>w1. Inr (w1\<lparr>ws_bad0 := 0, ws_st := StSorted\<rparr>))
        else Inr w)
       (\<lambda>w1. Inr (w1\<lparr>ws_ring := ring_add p (ws_ring w1)\<rparr>)))"

fun winsort_loop :: "nat \<Rightarrow> qsort \<Rightarrow> (nat \<Rightarrow> nat \<Rightarrow> int) \<Rightarrow> winsort \<Rightarrow> winsort res" where
  "winsort_loop 0 qs pw w = Inl EFuel"
| "winsort_loop (Suc n) qs pw w =
     rbind (stream_step (ws_stream w)) (\<lambda>(ended, s).
       if ended then Inr (w\<lparr>ws_stream := s\<rparr>)
       else case st_cur_ev s of None \<Rightarrow> Inl (EStream StreamInactive)
         | Some p \<Rightarrow> rbind (winsort_event qs pw p (w\<lparr>ws_stream := s\<rparr>)) (winsort_loop n qs pw))"

definition stream_winsort :: "qsort \<Rightarrow> (nat \<Rightarrow> nat \<Rightarrow> int) \<Rightarrow> nat \<Rightarrow> stream \<Rightarrow> ring \<Rightarrow> winsort res" where
  "stream_winsort qs pw k s r =
     winsort_loop (length (st_buf s)) qs pw
       \<lparr>ws_stream = s, ws_ring = ring_reset r, ws_calls = k, ws_st = StSorted, ws_bad0 = 0, ws_empty_regions = 0,
        ws_updated = False\<rparr>"

text \<open>The check mode: the loop of \<^verbatim>\<open>stream_check\<close> returns \<^verbatim>\<open>backjump\<close>.\<close>

fun stream_check_loop :: "nat \<Rightarrow> stream \<Rightarrow> 64 word \<Rightarrow> bool \<Rightarrow> bool res" where
  "stream_check_loop 0 s last_clock backjump = Inl EFuel"
| "stream_check_loop (Suc n) s last_clock backjump =
     rbind (stream_step s) (\<lambda>(ended, s').
       if ended then Inr backjump
       else case stream_ev s' of None \<Rightarrow> Inl (EStream StreamInactive)
         | Some ev \<Rightarrow> stream_check_loop n s' (ovni_ev_get_clock ev) (backjump \<or> ovni_ev_get_clock ev < last_clock))"

definition stream_check :: "stream \<Rightarrow> unit res" where
  "stream_check s =
     rbind (stream_step s) (\<lambda>(ended, s').
       if ended then Inr ()
       else case stream_ev s' of None \<Rightarrow> Inl (EStream StreamInactive)
         | Some ev \<Rightarrow> rbind (stream_check_loop (length (st_buf s)) s' (oe_clock ev) False) (\<lambda>backjump.
             if backjump then Inl (EOsort OsBackjump) else Inr ()))"

text \<open>\<^verbatim>\<open>process_trace\<close>: sorting stops at the first stream that fails; checking goes on and fails at the end.\<close>

datatype operation_mode = SORT | CHECK

fun sort_streams :: "qsort \<Rightarrow> (nat \<Rightarrow> nat \<Rightarrow> int) \<Rightarrow> nat \<Rightarrow> ring \<Rightarrow> stream list \<Rightarrow> stream list res" where
  "sort_streams qs pw k r [] = Inr []"
| "sort_streams qs pw k r (s # ss) =
     rbind (stream_winsort qs pw k (stream_allow_unsorted s) r) (\<lambda>w.
       rbind (sort_streams qs pw (ws_calls w) (ws_ring w) ss) (\<lambda>ss'. Inr (ws_stream w # ss')))"

fun check_streams :: "stream list \<Rightarrow> bool" where
  "check_streams [] = True"
| "check_streams (s # ss) =
     (let ok = (case stream_check (stream_allow_unsorted s) of Inl e \<Rightarrow> False | Inr _ \<Rightarrow> True); rest = check_streams ss in
      ok \<and> rest)"

definition process_trace :: "operation_mode \<Rightarrow> nat \<Rightarrow> qsort \<Rightarrow> (nat \<Rightarrow> nat \<Rightarrow> int) \<Rightarrow> stream list \<Rightarrow> stream list res" where
  "process_trace mode max_look_back qs pw streams =
     (case mode of
        SORT \<Rightarrow> sort_streams qs pw 0
          \<lparr>rg_head = 0, rg_tail = 0, rg_size = max_look_back, rg_ev = replicate max_look_back 0\<rparr> streams
      | CHECK \<Rightarrow> if check_streams streams then Inr streams else Inl (EOsort OsBackjump))"

subsection \<open>The ring holds the last events\<close>

text \<open>After adding the pointers \<open>xs\<close> to a ring that was reset, it holds the last \<open>size - 1\<close> of them. Pointer number
  \<open>i\<close> is at position \<open>i mod size\<close>.\<close>

definition ring_holds :: "ring \<Rightarrow> int list \<Rightarrow> bool" where
  "ring_holds r xs \<longleftrightarrow> 0 < rg_size r \<and> length (rg_ev r) = rg_size r \<and> rg_tail r = length xs mod rg_size r
     \<and> rg_head r = (if length xs < rg_size r then 0 else Suc (length xs) mod rg_size r)
     \<and> (\<forall>i < length xs. length xs < i + rg_size r \<longrightarrow> rg_ev r ! (i mod rg_size r) = xs ! i)"

text \<open>Two numbers closer than the size have different positions.\<close>

lemma window_mod_eq: "(j :: nat) \<le> n \<Longrightarrow> n < j + s \<Longrightarrow> j mod s = n mod s \<longleftrightarrow> j = n"
  by (metis add.commute add_diff_cancel_left' le_add_diff_inverse mod_eq_dvd_iff_nat mod_less nat_add_left_cancel_less
      dvd_imp_mod_0 add.right_neutral)

lemma suc_mod:
  assumes "0 < s"
  shows "(if j mod s + 1 \<ge> s then 0 else j mod s + 1) = Suc j mod s"
  using mod_less_divisor [OF assms, of j] by (auto simp: mod_Suc)

lemma ring_reset_holds:
  "0 < rg_size r \<Longrightarrow> length (rg_ev r) = rg_size r \<Longrightarrow> ring_holds (ring_reset r) []"
  by (simp add: ring_holds_def ring_reset_def)

lemma ring_add_holds:
  assumes "ring_holds r xs"
  shows "ring_holds (ring_add x r) (xs @ [x])"
proof -
  define n s where "n = length xs" and "s = rg_size r"
  have r: "0 < s" "length (rg_ev r) = s" "rg_tail r = n mod s" "rg_head r = (if n < s then 0 else Suc n mod s)"
    and evs: "\<And>i. i < n \<Longrightarrow> n < i + s \<Longrightarrow> rg_ev r ! (i mod s) = xs ! i"
    using assms by (simp_all add: ring_holds_def n_def s_def)
  have size: "rg_size (ring_add x r) = s" and ev: "rg_ev (ring_add x r) = (rg_ev r)[n mod s := x]"
    by (simp_all add: ring_add_def Let_def s_def r(3) [unfolded s_def])
  have tail: "rg_tail (ring_add x r) = Suc n mod s"
    using suc_mod [OF r(1), of n] by (auto simp: ring_add_def Let_def r(3) s_def [symmetric] split: if_splits)
  have head: "rg_head (ring_add x r) = (if Suc n < s then 0 else Suc (Suc n) mod s)"
  proof -
    have "rg_head (ring_add x r) =
        (let t = Suc n mod s; h = (if rg_head r = t then t + 1 else rg_head r) in if h \<ge> s then 0 else h)"
      using suc_mod [OF r(1), of n] by (auto simp: ring_add_def Let_def r(3) s_def [symmetric] split: if_splits)
    also have "\<dots> = (if Suc n < s then 0 else Suc (Suc n) mod s)"
    proof (cases "n < s")
      case True
      then show ?thesis using r by (cases "Suc n = s") (auto simp: Let_def mod_Suc)
    next
      case False
      then show ?thesis using r suc_mod [OF r(1), of "Suc n"] by (auto simp: Let_def)
    qed
    finally show ?thesis .
  qed
  have nth: "rg_ev (ring_add x r) ! (i mod s) = (xs @ [x]) ! i" if "i < Suc n" "Suc n < i + s" for i
  proof (cases "i = n")
    case True
    then show ?thesis using r by (simp add: ev n_def)
  next
    case False
    then have "i mod s \<noteq> n mod s" using window_mod_eq [of i n s] that by auto
    then show ?thesis using that False evs [of i] by (simp add: ev n_def nth_append)
  qed
  show ?thesis using r size ev tail head nth by (auto simp: ring_holds_def n_def)
qed

text \<open>Walking back: before \<open>m\<close> pointers are left the loop is at position \<open>ring_pos s m\<close>, and it stops when none of
  those that the ring holds is left.\<close>

definition ring_pos :: "nat \<Rightarrow> nat \<Rightarrow> nat" where
  "ring_pos s m = (if m = 0 then s - 1 else (m - 1) mod s)"

lemma ring_pos_pred: "0 < m \<Longrightarrow> 0 < s \<Longrightarrow> (if ring_pos s m = 0 then s - 1 else ring_pos s m - 1) = ring_pos s (m - 1)"
  using mod_less_divisor [of s "m - 2"] by (cases m; cases "m - 1") (auto simp: ring_pos_def mod_Suc)

lemma ring_pos_end:
  assumes "0 < s" and "Suc n - s \<le> m" and "m \<le> n"
  shows "ring_pos s m = (if n < s then s - 1 else n mod s) \<longleftrightarrow> m = Suc n - s"
proof (cases "n < s")
  case True
  with assms show ?thesis by (auto simp: ring_pos_def)
next
  case False
  with assms have "0 < m" by linarith
  moreover have "(m - 1) mod s = n mod s \<longleftrightarrow> m = Suc n - s"
  proof
    assume eq: "(m - 1) mod s = n mod s"
    show "m = Suc n - s"
    proof (rule ccontr)
      assume "m \<noteq> Suc n - s"
      then have "n < m - 1 + s" using assms \<open>0 < m\<close> by linarith
      then have "m - 1 = n" using window_mod_eq [of "m - 1" n s] eq assms(3) by simp
      then show False using assms \<open>0 < m\<close> by linarith
    qed
  next
    assume "m = Suc n - s"
    then have "m - 1 = n - s" by simp
    then show "(m - 1) mod s = n mod s" using False by (simp add: le_mod_geq)
  qed
  ultimately show ?thesis using False by (simp add: ring_pos_def)
qed

lemma find_back_holds:
  assumes h: "ring_holds r xs" and n: "n = length xs" "s = rg_size r"
    and e: "e = (if n < s then s - 1 else n mod s)"
  shows "Suc n - s \<le> m \<Longrightarrow> m \<le> n \<Longrightarrow> m - (Suc n - s) \<le> fuel \<Longrightarrow>
    (\<exists>j. Suc n - s \<le> j \<and> j < m \<and> (\<exists>k'. find_back fuel mem r c (ring_pos s m) e k = Inr (Some (j mod s), k'))
        \<and> oe_clock (mem_ev mem (xs ! j)) < c \<and> (\<forall>l. j < l \<and> l < m \<longrightarrow> c \<le> oe_clock (mem_ev mem (xs ! l))))
    \<or> find_back fuel mem r c (ring_pos s m) e k = Inr (None, k + (m - (Suc n - s)))
        \<and> (\<forall>l. Suc n - s \<le> l \<and> l < m \<longrightarrow> c \<le> oe_clock (mem_ev mem (xs ! l)))"
proof (induction fuel arbitrary: m k)
  case 0
  then have "m = Suc n - s" by linarith
  moreover have "0 < s" using h by (simp add: ring_holds_def n)
  ultimately show ?case using ring_pos_end [OF _ 0(1,2)] by (auto simp: find_back.simps e)
next
  case (Suc fuel)
  have s: "0 < s" using h by (simp add: ring_holds_def n)
  show ?case
  proof (cases "m = Suc n - s")
    case True
    then show ?thesis using ring_pos_end [OF s Suc.prems(1,2)] by (auto simp: find_back.simps e)
  next
    case False
    then have m: "0 < m" "Suc n - s \<le> m - 1" "m - 1 \<le> n" "m - 1 - (Suc n - s) \<le> fuel" "m - 1 < n" "n < m - 1 + s"
      using Suc.prems s by auto
    have pos: "ring_pos s m = (m - 1) mod s" using m by (simp add: ring_pos_def)
    have ev: "rg_ev r ! ring_pos s m = xs ! (m - 1)"
      unfolding pos using h m(5,6) by (simp add: ring_holds_def n)
    have "ring_pos s m \<noteq> e" using ring_pos_end [OF s Suc.prems(1,2)] False by (simp add: e)
    then have step: "find_back (Suc fuel) mem r c (ring_pos s m) e k =
        (if oe_clock (mem_ev mem (xs ! (m - 1))) < c then Inr (Some (ring_pos s m), k)
         else find_back fuel mem r c (ring_pos s (m - 1)) e (k + 1))"
      by (subst find_back.simps, unfold ev n(2) [symmetric] ring_pos_pred [OF m(1) s]) simp
    show ?thesis
    proof (cases "oe_clock (mem_ev mem (xs ! (m - 1))) < c")
      case True
      then show ?thesis using m by (intro disjI1 exI [of _ "m - 1"]) (auto simp: step, simp add: pos)
    next
      case False
      have less: "l < m \<longleftrightarrow> l < m - 1 \<or> l = m - 1" for l using m(1) by auto
      have "k + 1 + (m - 1 - (Suc n - s)) = k + (m - (Suc n - s))" using m(1,2) by linarith
      then show ?thesis using Suc.IH [OF m(2-4), of "k + 1"] False m(2)
        by (auto simp: step less not_less)
    qed
  qed
qed

lemma find_destination_holds:
  assumes h: "ring_holds r xs" and n: "n = length xs" "s = rg_size r" "xs \<noteq> []"
  shows "(\<exists>j. j < n \<and> n < j + s \<and> find_destination mem r c = Inr (Some (j mod s))
        \<and> (\<forall>l. j < l \<and> l < n \<longrightarrow> c \<le> oe_clock (mem_ev mem (xs ! l)))
        \<and> (j \<noteq> 0 \<longrightarrow> oe_clock (mem_ev mem (xs ! j)) < c))
    \<or> find_destination mem r c = Inr None \<and> s \<le> Suc n"
proof -
  define e where "e = (if n < s then s - 1 else n mod s)"
  have r: "0 < s" "rg_tail r = n mod s" "rg_head r = (if n < s then 0 else Suc n mod s)" "0 < n"
    using h n by (simp_all add: ring_holds_def)
  have start: "(if rg_tail r \<ge> 1 then rg_tail r - 1 else s - 1) = ring_pos s n"
    using ring_pos_pred [of "Suc n" s] r by (auto simp: ring_pos_def)
  have end': "(if rg_head r \<ge> 1 then rg_head r - 1 else s - 1) = e"
    using mod_less_divisor [OF r(1), of n] r(1) by (auto simp: e_def r(3) mod_Suc)
  let ?fb = "find_back s mem r c (ring_pos s n) e 0"
  have fd: "find_destination mem r c = rbind ?fb (\<lambda>(found, nback).
        case found of Some i \<Rightarrow> Inr (Some i)
        | None \<Rightarrow> if nback < s - 1 then
              (if rg_head r \<noteq> 0 then Inl (EOsort OsRingHead)
               else if rg_tail r \<ge> s - 1 then Inl (EOsort OsRingTail) else Inr (Some (rg_head r)))
            else Inr None)"
    unfolding find_destination_def Let_def n(2) [symmetric] start end' ..
  have le: "n - (Suc n - s) \<le> s" "Suc n - s \<le> n" using r(1) by linarith+
  from find_back_holds [OF h n(1,2) e_def le(2) order_refl le(1), of mem c 0] show ?thesis
  proof (elim disjE exE conjE)
    fix j k' assume j: "Suc n - s \<le> j" "j < n" "?fb = Inr (Some (j mod s), k')" "oe_clock (mem_ev mem (xs ! j)) < c"
      "\<forall>l. j < l \<and> l < n \<longrightarrow> c \<le> oe_clock (mem_ev mem (xs ! l))"
    then show ?thesis by (intro disjI1 exI [of _ j]) (auto simp: fd)
  next
    assume none: "?fb = Inr (None, 0 + (n - (Suc n - s)))"
      "\<forall>l. Suc n - s \<le> l \<and> l < n \<longrightarrow> c \<le> oe_clock (mem_ev mem (xs ! l))"
    show ?thesis
    proof (cases "n < s - 1")
      case True
      then have "find_destination mem r c = Inr (Some 0)" using none(1) r by (auto simp: fd)
      then show ?thesis using none(2) True r by (intro disjI1 exI [of _ 0]) auto
    next
      case False
      then have "find_destination mem r c = Inr None" using none(1) r by (auto simp: fd)
      then show ?thesis using False by auto
    qed
  qed
qed

subsection \<open>Events in memory\<close>

abbreviation evs_bytes :: "ovni_ev list \<Rightarrow> byte list" where
  "evs_bytes evs \<equiv> concat (map ev_bytes evs)"

lemma evs_bytes_split: "evs_bytes evs = evs_bytes (take j evs) @ evs_bytes (drop j evs)"
  by (simp only: append_take_drop_id flip: concat_append map_append)

text \<open>The offsets of events that are one after another.\<close>

fun ev_offs :: "nat \<Rightarrow> ovni_ev list \<Rightarrow> int list" where
  "ev_offs off [] = []"
| "ev_offs off (e # es) = int off # ev_offs (off + length (ev_bytes e)) es"

lemma ev_offs_append: "ev_offs off (xs @ ys) = ev_offs off xs @ ev_offs (off + length (evs_bytes xs)) ys"
  by (induction xs arbitrary: off) (simp_all add: add.assoc del: ev_bytes_length)

lemma ev_offs_length [simp]: "length (ev_offs off evs) = length evs"
  by (induction evs arbitrary: off) simp_all

lemma ev_offs_nth: "i < length evs \<Longrightarrow> ev_offs off evs ! i = int (off + length (evs_bytes (take i evs)))"
  by (induction evs arbitrary: off i) (auto simp: nth_Cons split: nat.split simp del: ev_bytes_length)

text \<open>The memory holds the events from an offset on.\<close>

definition laid :: "byte list \<Rightarrow> nat \<Rightarrow> ovni_ev list \<Rightarrow> bool" where
  "laid mem off evs \<longleftrightarrow> (\<exists>post. drop off mem = evs_bytes evs @ post) \<and> (\<forall>e \<in> set evs. ev_wf e)"

lemma laid_Cons:
  assumes "laid mem off (e # es)"
  shows "ovni_ev_size (mem_ev mem (int off)) = int (length (ev_bytes e))" "oe_clock (mem_ev mem (int off)) = oe_clock e"
    "ev_trim (mem_ev mem (int off)) = e" "laid mem (off + length (ev_bytes e)) es" "0 < length (ev_bytes e)"
    "take (length (ev_bytes e)) (drop off mem) = ev_bytes e" "length (ev_bytes e) < 2 ^ 31"
proof -
  obtain post where d: "drop off mem = ev_bytes e @ (evs_bytes es @ post)" and wf: "ev_wf e" "\<forall>x \<in> set es. ev_wf x"
    using assms by (auto simp: laid_def)
  have "mem_ev mem (int off) = ev_at (ev_bytes e @ (evs_bytes es @ post))" by (simp add: mem_ev_def d)
  then show "ovni_ev_size (mem_ev mem (int off)) = int (length (ev_bytes e))" "oe_clock (mem_ev mem (int off)) = oe_clock e"
    "ev_trim (mem_ev mem (int off)) = e"
    using ev_at_wf [OF wf(1)] by (simp_all del: ev_bytes_length)
  have "drop (off + length (ev_bytes e)) mem = drop (length (ev_bytes e)) (drop off mem)"
    by (simp only: drop_drop add.commute)
  also have "\<dots> = evs_bytes es @ post" by (simp add: d)
  finally show "laid mem (off + length (ev_bytes e)) es" using wf(2) by (auto simp: laid_def)
  show "take (length (ev_bytes e)) (drop off mem) = ev_bytes e" by (simp add: d del: ev_bytes_length)
  show "0 < length (ev_bytes e)" "length (ev_bytes e) < 2 ^ 31" using wf(1) by (simp_all add: ev_header_size_def ev_wf_def)
qed

lemma laid_append:
  "laid mem off (xs @ ys) \<Longrightarrow> laid mem off xs" "laid mem off (xs @ ys) \<Longrightarrow> laid mem (off + length (evs_bytes xs)) ys"
proof -
  show "laid mem off (xs @ ys) \<Longrightarrow> laid mem off xs" by (auto simp: laid_def)
  show "laid mem (off + length (evs_bytes xs)) ys" if "laid mem off (xs @ ys)"
    using that
  proof (induction xs arbitrary: off)
    case (Cons e es)
    from Cons.IH [of "off + length (ev_bytes e)"] laid_Cons(4) [of mem off e "es @ ys"] Cons.prems show ?case
      by (simp add: add.assoc del: ev_bytes_length)
  qed simp
qed

lemma laid_nth:
  assumes "laid mem off evs" and "i < length evs"
  shows "oe_clock (mem_ev mem (ev_offs off evs ! i)) = oe_clock (evs ! i)"
    "ev_trim (mem_ev mem (ev_offs off evs ! i)) = evs ! i"
proof -
  have "evs = take i evs @ evs ! i # drop (Suc i) evs" using assms(2) by (simp add: id_take_nth_drop)
  then have "laid mem (off + length (evs_bytes (take i evs))) (evs ! i # drop (Suc i) evs)"
    using laid_append(2) assms(1) by metis
  from laid_Cons(2,3) [OF this] show "oe_clock (mem_ev mem (ev_offs off evs ! i)) = oe_clock (evs ! i)"
    "ev_trim (mem_ev mem (ev_offs off evs ! i)) = evs ! i"
    using ev_offs_nth [OF assms(2)] by simp_all
qed

lemma evs_bytes_ge: "length evs \<le> length (evs_bytes evs)"
  by (induction evs) (auto simp: ev_header_size_def)

lemma find_min_loop_laid:
  "laid mem off evs \<Longrightarrow> length evs \<le> n \<Longrightarrow> \<exists>c. find_min_loop n mem (int off) (int (off + length (evs_bytes evs))) m = Inr c
     \<and> c \<le> m \<and> (\<forall>e \<in> set evs. c \<le> oe_clock e) \<and> (c = m \<or> c \<in> oe_clock ` set evs)"
proof (induction evs arbitrary: off n m)
  case Nil
  then show ?case by (simp add: find_min_loop.simps)
next
  case (Cons e es)
  then obtain n' where n: "n = Suc n'" "length es \<le> n'" by (cases n) auto
  note l = laid_Cons [OF Cons.prems(1)]
  let ?m = "if oe_clock e < m then oe_clock e else m"
  from Cons.IH [OF l(4) n(2), of ?m] obtain c where
    c: "find_min_loop n' mem (int (off + length (ev_bytes e)))
          (int (off + length (ev_bytes e) + length (evs_bytes es))) ?m = Inr c"
      "c \<le> ?m" "\<forall>e \<in> set es. c \<le> oe_clock e" "c = ?m \<or> c \<in> oe_clock ` set es" by blast
  have "\<not> int (length (ev_bytes e)) + int (length (evs_bytes es)) \<le> 0" using l(5) by linarith
  then have "find_min_loop n mem (int off) (int (off + length (evs_bytes (e # es)))) m = Inr c"
    using c(1) l(1) by (subst find_min_loop.simps) (simp add: n Let_def l(2) add.assoc split: if_splits del: ev_bytes_length)
  then show ?case using c(2-4) by (intro exI [of _ c]) (auto split: if_splits)
qed

lemma find_min_clock_laid:
  assumes "laid mem off evs" and "evs \<noteq> []"
  shows "\<exists>c. find_min_clock mem (int off) (int (off + length (evs_bytes evs))) = Inr c
    \<and> (\<forall>e \<in> set evs. c \<le> oe_clock e) \<and> c \<in> oe_clock ` set evs"
proof -
  obtain e es where evs: "evs = e # es" using assms(2) by (cases evs) auto
  have "oe_clock (mem_ev mem (int off)) = oe_clock e" using laid_Cons(2) assms(1) evs by auto
  moreover have "length evs \<le> nat (int (off + length (evs_bytes evs)) - int off)" using evs_bytes_ge [of evs] by simp
  ultimately show ?thesis
    using find_min_loop_laid [OF assms(1), of "nat (int (off + length (evs_bytes evs)) - int off)" "oe_clock e"] evs
    by (auto simp: find_min_clock_def)
qed

lemma count_loop_laid:
  "laid mem off evs \<Longrightarrow> length evs \<le> n \<Longrightarrow>
     count_loop n mem (int off) (int (off + length (evs_bytes evs))) k = Inr (k + length evs)"
proof (induction evs arbitrary: off n k)
  case Nil
  then show ?case by (simp add: count_loop.simps)
next
  case (Cons e es)
  then obtain n' where n: "n = Suc n'" "length es \<le> n'" by (cases n) auto
  note l = laid_Cons [OF Cons.prems(1)]
  have "\<not> int (length (ev_bytes e)) + int (length (evs_bytes es)) \<le> 0" using l(5) by linarith
  then show ?case using Cons.IH [OF l(4) n(2), of "Suc k"] l(1)
    by (subst count_loop.simps) (simp add: n add.assoc del: ev_bytes_length)
qed

lemma index_events_laid: "laid mem off evs \<Longrightarrow> index_events (length evs) mem (int off) = ev_offs off evs"
proof (induction evs arbitrary: off)
  case (Cons e es)
  note l = laid_Cons [OF Cons.prems]
  show ?case using Cons.IH [OF l(4)] l(1) by (simp del: ev_bytes_length)
qed simp

lemma write_events_laid:
  "laid mem off evs \<Longrightarrow> set table \<subseteq> set (ev_offs off evs) \<Longrightarrow>
     write_events table mem = evs_bytes (map (\<lambda>p. ev_trim (mem_ev mem p)) table)"
proof (induction table)
  case (Cons p table)
  then obtain i where i: "i < length evs" "p = ev_offs off evs ! i" by (auto simp: in_set_conv_nth)
  have "evs = take i evs @ evs ! i # drop (Suc i) evs" using i(1) by (simp add: id_take_nth_drop)
  then have "laid mem (off + length (evs_bytes (take i evs))) (evs ! i # drop (Suc i) evs)"
    using laid_append(2) Cons.prems(1) by metis
  note l = laid_Cons [OF this]
  have p: "p = int (off + length (evs_bytes (take i evs)))" using ev_offs_nth [OF i(1)] i(2) by simp
  have "c_size (ovni_ev_size (mem_ev mem p)) = length (ev_bytes (evs ! i))"
    unfolding p l(1) using l(7) by (subst c_size_id) auto
  moreover have "nat p = off + length (evs_bytes (take i evs))" unfolding p nat_int ..
  ultimately show ?case using Cons l(3) [folded p] l(6) by (simp del: ev_bytes_length)
qed simp

lemma map_laid: "laid mem off evs \<Longrightarrow> map (\<lambda>p. ev_trim (mem_ev mem p)) (ev_offs off evs) = evs"
  by (rule nth_equalityI) (simp_all add: laid_nth(2))

subsection \<open>Sorting\<close>

text \<open>What the C standard promises of \<^verbatim>\<open>qsort\<close>: the elements of the array in an order that agrees with the comparison,
  when that is a total preorder.\<close>

locale c_qsort =
  fixes qs :: qsort
  assumes qsort_perm: "mset (qs cmp xs) = mset xs"
    and qsort_sorted: "(\<And>a b. cmp a b \<le> 0 \<or> cmp b a \<le> 0) \<Longrightarrow> (\<And>a b c. cmp a b \<le> 0 \<Longrightarrow> cmp b c \<le> 0 \<Longrightarrow> cmp a c \<le> 0) \<Longrightarrow>
      sorted_wrt (\<lambda>a b. cmp a b \<le> 0) (qs cmp xs)"
begin

lemma sort_buf_laid:
  assumes l: "laid mem off evs" and c: "\<forall>e \<in> set evs. oe_clock e < 2 ^ 63"
  shows "\<exists>evs'. sort_buf qs mem (int off) (int (length (evs_bytes evs))) = Inr (evs_bytes evs') \<and> mset evs' = mset evs
    \<and> sorted (map oe_clock evs')"
proof -
  define buf where "buf = evs_bytes evs"
  obtain post where d: "drop off mem = buf @ post" and wf: "\<forall>e \<in> set evs. ev_wf e"
    using l by (auto simp: laid_def buf_def)
  then have lb: "laid buf 0 evs" by (auto simp: laid_def buf_def)
  define f where "f = (\<lambda>p. ev_trim (mem_ev buf p))"
  let ?offs = "ev_offs 0 evs"
  let ?t = "qs (cmp_ev buf) ?offs"
  have n: "count_events buf 0 (int (length buf)) = Inr (length evs)"
    using count_loop_laid [OF lb evs_bytes_ge, of 0] by (simp add: count_events_def buf_def)
  have perm: "mset ?t = mset ?offs" by (rule qsort_perm)
  have "sort_buf qs mem (int off) (int (length buf)) = Inr (write_events ?t buf)"
    using n index_events_laid [OF lb] by (simp add: sort_buf_def Let_def d)
  also have "write_events ?t buf = evs_bytes (map f ?t)"
    using write_events_laid [OF lb] mset_eq_setD [OF perm] by (simp add: f_def)
  finally have s: "sort_buf qs mem (int off) (int (length buf)) = Inr (evs_bytes (map f ?t))" .
  have m: "mset (map f ?t) = mset evs"
    using arg_cong [OF perm, of "image_mset f"] map_laid [OF lb] by (simp add: f_def mset_map [symmetric] del: mset_map)
  have cmp: "cmp_ev buf a b \<le> 0 \<longleftrightarrow> c_int64 (uint (oe_clock (mem_ev buf a))) \<le> c_int64 (uint (oe_clock (mem_ev buf b)))" for a b
    by (simp add: cmp_ev_def Let_def)
  have "sorted_wrt (\<lambda>a b. cmp_ev buf a b \<le> 0) ?t"
    by (rule qsort_sorted) (unfold cmp, rule linear, rule order_trans)
  then have "sorted_wrt (\<lambda>a b. oe_clock (f a) \<le> oe_clock (f b)) ?t"
  proof (rule sorted_wrt_mono_rel [rotated])
    have small: "c_int64 (uint (oe_clock (mem_ev buf a))) = uint (oe_clock (mem_ev buf a))" if "a \<in> set ?t" for a
    proof -
      have "f a \<in> set evs" using m that by (metis image_eqI list.set_map mset_eq_setD)
      then have "oe_clock (f a) < 2 ^ 63" using c by blast
      then have "uint (oe_clock (mem_ev buf a)) < 2 ^ 63" by (simp add: f_def ev_trim_def word_less_def)
      then show ?thesis by (intro c_int64_id order_trans [OF _ uint_ge_0]) simp_all
    qed
    fix a b assume "a \<in> set ?t" "b \<in> set ?t" "cmp_ev buf a b \<le> 0"
    then show "oe_clock (f a) \<le> oe_clock (f b)"
      using small [of a] small [of b] by (simp add: cmp f_def ev_trim_def word_le_def)
  qed
  then have "sorted (map oe_clock (map f ?t))" by (simp add: sorted_wrt_map)
  with s m show ?thesis unfolding buf_def by blast
qed

end

text \<open>An instance: insertion with the comparison.\<close>

fun insert_cmp :: "(int \<Rightarrow> int \<Rightarrow> int) \<Rightarrow> int \<Rightarrow> int list \<Rightarrow> int list" where
  "insert_cmp cmp x [] = [x]"
| "insert_cmp cmp x (y # ys) = (if cmp x y \<le> 0 then x # y # ys else y # insert_cmp cmp x ys)"

definition insertion_qsort :: qsort where
  "insertion_qsort cmp xs = foldr (insert_cmp cmp) xs []"

lemma insert_cmp_mset [simp]: "mset (insert_cmp cmp x ys) = add_mset x (mset ys)"
  by (induction ys) auto

lemma insert_cmp_sorted:
  assumes "\<And>a b. cmp a b \<le> 0 \<or> cmp b a \<le> 0" "\<And>a b c. cmp a b \<le> 0 \<Longrightarrow> cmp b c \<le> 0 \<Longrightarrow> cmp a c \<le> 0"
  shows "sorted_wrt (\<lambda>a b. cmp a b \<le> 0) ys \<Longrightarrow> sorted_wrt (\<lambda>a b. cmp a b \<le> 0) (insert_cmp cmp x ys)"
proof (induction ys)
  case (Cons y ys)
  have "set (insert_cmp cmp x ys) = insert x (set ys)" by (metis insert_cmp_mset set_mset_add_mset_insert set_mset_mset)
  then show ?case using Cons assms by (auto intro: assms(2))
qed simp

interpretation isort: c_qsort insertion_qsort
proof
  show "mset (insertion_qsort cmp xs) = mset xs" for cmp xs
    by (induction xs) (auto simp: insertion_qsort_def)
  show "sorted_wrt (\<lambda>a b. cmp a b \<le> 0) (insertion_qsort cmp xs)"
    if "\<And>a b. cmp a b \<le> 0 \<or> cmp b a \<le> 0" "\<And>a b c. cmp a b \<le> 0 \<Longrightarrow> cmp b c \<le> 0 \<Longrightarrow> cmp a c \<le> 0" for cmp xs
    by (induction xs) (auto simp: insertion_qsort_def intro!: insert_cmp_sorted that(1) intro: that(2))
qed

text \<open>Every call of \<^verbatim>\<open>pwrite\<close> takes some of the bytes it is given.\<close>

definition pwrites_ok :: "(nat \<Rightarrow> nat \<Rightarrow> int) \<Rightarrow> bool" where
  "pwrites_ok pw \<longleftrightarrow> (\<forall>k n. 0 < n \<longrightarrow> 0 < pw k n \<and> pw k n \<le> int n)"

lemma write_stream_ok:
  assumes "pwrites_ok pw"
  shows "length src \<le> n \<Longrightarrow> off + length src \<le> length mem \<Longrightarrow>
    \<exists>k'. write_stream pw n (int off) src k mem = Inr (k', take off mem @ src @ drop (off + length src) mem)"
proof (induction n arbitrary: src off k mem)
  case 0
  then show ?case by (simp add: write_stream.simps)
next
  case (Suc n)
  show ?case
  proof (cases "src = []")
    case True
    then show ?thesis by (simp add: write_stream.simps)
  next
    case False
    define w where "w = nat (pw k (length src))"
    have "0 < pw k (length src)" "pw k (length src) \<le> int (length src)" using assms False by (auto simp: pwrites_ok_def)
    then have pw: "pw k (length src) = int w" and w: "0 < w" "w \<le> length src" by (simp_all add: w_def)
    let ?mem = "take off mem @ take w src @ drop (off + w) mem"
    have "write_stream pw (Suc n) (int off) src k mem = write_stream pw n (int (off + w)) (drop w src) (k + 1) ?mem"
      using False w by (subst write_stream.simps) (simp add: pw Let_def min_def)
    moreover have "length (drop w src) \<le> n" "off + w + length (drop w src) \<le> length ?mem"
      using Suc.prems w by auto
    ultimately obtain k' where "write_stream pw (Suc n) (int off) src k mem =
        Inr (k', take (off + w) ?mem @ drop w src @ drop (off + w + length (drop w src)) ?mem)"
      using Suc.IH [of "drop w src" "off + w" ?mem "k + 1"] by metis
    moreover have "take (off + w) ?mem = take off mem @ take w src" using Suc.prems w by simp
    moreover have "drop (off + w + length (drop w src)) ?mem = drop (off + length src) mem" using Suc.prems w by (simp add: add.commute)
    ultimately show ?thesis by (metis append.assoc append_take_drop_id)
  qed
qed

subsection \<open>A region is sorted into the stream\<close>

lemma ring_holds_update:
  assumes h: "ring_holds r xs" and j: "j < length xs" "length xs < j + rg_size r"
  shows "ring_holds (r\<lparr>rg_ev := (rg_ev r)[j mod rg_size r := x]\<rparr>) (xs[j := x])"
proof -
  define s n where "s = rg_size r" and "n = length xs"
  have r: "0 < s" "length (rg_ev r) = s" and evs: "\<And>i. i < n \<Longrightarrow> n < i + s \<Longrightarrow> rg_ev r ! (i mod s) = xs ! i"
    using h by (simp_all add: ring_holds_def n_def s_def)
  have "(rg_ev r)[j mod s := x] ! (i mod s) = xs[j := x] ! i" if i: "i < n" "n < i + s" for i
  proof (cases "i = j")
    case True
    then show ?thesis using r j by simp
  next
    case False
    then have "i mod s \<noteq> j mod s"
      using window_mod_eq [of i j s] window_mod_eq [of j i s] i j by (cases "i < j") (auto simp: n_def s_def)
    then show ?thesis using evs [OF i] False by simp
  qed
  then show ?thesis using h by (simp add: ring_holds_def n_def s_def)
qed

lemma rebuild_ring_laid:
  "ring_holds r xs \<Longrightarrow> laid mem off evs \<Longrightarrow> length xs = j + length evs \<Longrightarrow> length xs < j + rg_size r \<Longrightarrow> length evs \<le> n \<Longrightarrow>
     \<exists>r'. rebuild_ring n mem (j mod rg_size r) (int off) (int (off + length (evs_bytes evs))) r = Inr r'
       \<and> ring_holds r' (take j xs @ ev_offs off evs) \<and> rg_size r' = rg_size r"
proof (induction evs arbitrary: r xs off j n)
  case Nil
  then have "j mod rg_size r = rg_tail r" by (simp add: ring_holds_def)
  then show ?case using Nil by (simp add: rebuild_ring.simps)
next
  case (Cons e es)
  note l = laid_Cons [OF Cons.prems(2)]
  obtain n' where n: "n = Suc n'" "length es \<le> n'" using Cons.prems(5) by (cases n) auto
  let ?s = "rg_size r"
  let ?r = "r\<lparr>rg_ev := (rg_ev r)[j mod ?s := int off]\<rparr>" and ?xs = "xs[j := int off]"
  have s: "0 < ?s" using Cons.prems(1) by (simp add: ring_holds_def)
  have jn: "j < length xs" using Cons.prems(3) by simp
  have h: "ring_holds ?r ?xs" by (rule ring_holds_update [OF Cons.prems(1) jn Cons.prems(4)])
  have tail: "j mod ?s \<noteq> rg_tail r"
    using window_mod_eq [of j "length xs" ?s] jn Cons.prems(1,4) by (auto simp: ring_holds_def)
  have lt: "\<not> int (length (ev_bytes e)) + int (length (evs_bytes es)) \<le> 0" using l(5) by linarith
  have step: "rebuild_ring n mem (j mod ?s) (int off) (int (off + length (evs_bytes (e # es)))) r =
      rebuild_ring n' mem (Suc j mod ?s) (int (off + length (ev_bytes e)))
        (int (off + length (ev_bytes e) + length (evs_bytes es))) ?r"
    using tail lt by (subst rebuild_ring.simps, unfold suc_mod [OF s]) (simp add: n l(1) add.assoc del: ev_bytes_length)
  have take: "take (Suc j) ?xs = take j xs @ [int off]" using jn by (simp add: take_Suc_conv_app_nth)
  have lens: "length ?xs = Suc j + length es" "length ?xs < Suc j + rg_size ?r" using Cons.prems(3,4) by simp_all
  from Cons.IH [OF h l(4) lens n(2)] obtain r' where
    "rebuild_ring n' mem (Suc j mod ?s) (int (off + length (ev_bytes e)))
        (int (off + length (ev_bytes e) + length (evs_bytes es))) ?r = Inr r'"
    "ring_holds r' (take (Suc j) ?xs @ ev_offs (off + length (ev_bytes e)) es)" "rg_size r' = ?s" by auto
  then show ?case unfolding step take by (intro exI [of _ r']) (simp del: ev_bytes_length)
qed

lemma ring_check_laid:
  "ring_holds r (xs @ ev_offs off evs) \<Longrightarrow> laid mem off evs \<Longrightarrow> length evs < rg_size r \<Longrightarrow> length evs \<le> n \<Longrightarrow>
     sorted (c # map oe_clock evs) \<Longrightarrow> ring_check_loop n mem r (length xs mod rg_size r) c = Inr ()"
proof (induction evs arbitrary: xs off n c)
  case Nil
  then show ?case by (simp add: ring_check_loop.simps ring_holds_def)
next
  case (Cons e es)
  note l = laid_Cons [OF Cons.prems(2)]
  obtain n' where n: "n = Suc n'" "length es \<le> n'" using Cons.prems(4) by (cases n) auto
  let ?s = "rg_size r" and ?n = "length xs + length (e # es)"
  have h: "ring_holds r ((xs @ [int off]) @ ev_offs (off + length (ev_bytes e)) es)"
    using Cons.prems(1) by (simp del: ev_bytes_length)
  have "rg_tail r = ?n mod ?s" using Cons.prems(1) by (simp add: ring_holds_def)
  then have tail: "length xs mod ?s \<noteq> rg_tail r" using window_mod_eq [of "length xs" ?n ?s] Cons.prems(3) by simp
  have "rg_ev r ! (length xs mod ?s) = int off"
    using Cons.prems(1,3) by (simp add: ring_holds_def nth_append)
  then have step: "ring_check_loop n mem r (length xs mod ?s) c = ring_check_loop n' mem r (Suc (length xs) mod ?s) (oe_clock e)"
    using tail Cons.prems(5) by (subst ring_check_loop.simps) (auto simp: n l(2) Let_def mod_Suc_eq)
  have "ring_check_loop n' mem r (length (xs @ [int off]) mod ?s) (oe_clock e) = Inr ()"
    using Cons.prems by (intro Cons.IH [OF h l(4)] n(2)) auto
  then show ?case by (simp add: step)
qed

text \<open>The result of a sort plan: the events from number \<open>j\<close> to the end of the region \<open>b\<close> are sorted, where \<open>j\<close> is the
  first event, or one before the region that is not newer than those that follow.\<close>

definition sort_result :: "nat \<Rightarrow> ovni_ev list \<Rightarrow> ovni_ev list \<Rightarrow> ovni_ev list \<Rightarrow> bool" where
  "sort_result j a b z \<longleftrightarrow> mset z = mset (drop j (a @ b)) \<and> sorted (map oe_clock z)
     \<and> (j = 0 \<or> j < length a \<and> (\<forall>e \<in> set (drop j (a @ b)). oe_clock (a ! j) \<le> oe_clock e))"

lemma sort_result_sorted:
  assumes "sort_result j a b z" and a: "sorted (map oe_clock a)"
  shows "sorted (map oe_clock (take j (a @ b) @ z))"
proof (cases "j = 0")
  case True
  then show ?thesis using assms(1) by (simp add: sort_result_def)
next
  case False
  have j: "j < length a" and m: "mset z = mset (drop j (a @ b))" and z: "sorted (map oe_clock z)"
    and min: "\<forall>e \<in> set (drop j (a @ b)). oe_clock (a ! j) \<le> oe_clock e"
    using assms(1) False unfolding sort_result_def by blast+
  note set = mset_eq_setD [OF m]
  have "oe_clock x \<le> oe_clock e" if x: "x \<in> set (take j a)" and e: "e \<in> set z" for x e
  proof -
    obtain i where i: "i < j" "x = a ! i" using x j by (auto simp: in_set_conv_nth)
    then have "oe_clock x \<le> oe_clock (a ! j)" using sorted_nth_mono [OF a, of i j] j by simp
    also have "\<dots> \<le> oe_clock e" using min e set by blast
    finally show ?thesis .
  qed
  moreover have "sorted (map oe_clock (take j a))" using sorted_wrt_take [OF a, of j] by (simp only: take_map)
  ultimately show ?thesis using z j by (simp add: sorted_append)
qed

lemma evs_bytes_mset: "length (evs_bytes evs) = (\<Sum>e \<in># mset evs. length (ev_bytes e))"
  by (induction evs) (simp_all del: ev_bytes_length)

lemma laid_replace:
  assumes "drop off mem = evs_bytes evs @ post" and "off \<le> length mem" and "mset z = mset evs" and "\<forall>e \<in> set evs. ev_wf e"
  defines "mem' \<equiv> take off mem @ evs_bytes z @ drop (off + length (evs_bytes z)) mem"
  shows "length (evs_bytes z) = length (evs_bytes evs)" "mem' = take off mem @ evs_bytes z @ post" "laid mem' off z"
    "off + length (evs_bytes z) \<le> length mem"
proof -
  show len: "length (evs_bytes z) = length (evs_bytes evs)" using assms(3) by (simp only: evs_bytes_mset)
  have "drop (off + length (evs_bytes z)) mem = drop (length (evs_bytes z)) (drop off mem)" by (simp add: add.commute)
  then have "drop (off + length (evs_bytes z)) mem = post" by (simp add: len assms(1))
  then show mem': "mem' = take off mem @ evs_bytes z @ post" by (simp add: mem'_def)
  show "laid mem' off z" using assms(2-4) mset_eq_setD [OF assms(3)] by (auto simp: laid_def mem')
  have "length mem = off + length (evs_bytes evs) + length post"
    using arg_cong [OF assms(1), of length] assms(2) by simp
  then show "off + length (evs_bytes z) \<le> length mem" by (simp add: len)
qed

context c_qsort
begin

lemma execute_sort_plan_ok:
  assumes pw: "pwrites_ok pw" and mem: "st_buf (ws_stream w) = pre @ evs_bytes (a @ b) @ post"
    and wf: "\<forall>e \<in> set (a @ b). ev_wf e \<and> oe_clock e < 2 ^ 63" and b: "b \<noteq> []"
    and bad0: "ws_bad0 w = int (length pre + length (evs_bytes a))"
    and nxt: "next' = int (length pre + length (evs_bytes (a @ b)))"
    and ring: "ring_holds (ws_ring w) (ev_offs (length pre) (a @ b))"
  shows "execute_sort_plan qs pw next' w = Inl (EOsort OsNoDestination) \<and> rg_size (ws_ring w) \<le> Suc (length (a @ b))
    \<or> (\<exists>j z k r'. sort_result j a b z \<and> execute_sort_plan qs pw next' w =
          Inr (w\<lparr>ws_stream := (ws_stream w)\<lparr>st_buf := pre @ evs_bytes (take j (a @ b) @ z) @ post\<rparr>, ws_ring := r', ws_calls := k\<rparr>)
        \<and> ring_holds r' (ev_offs (length pre) (take j (a @ b) @ z)) \<and> rg_size r' = rg_size (ws_ring w))"
proof -
  define m r p xs s where "m = st_buf (ws_stream w)" and "r = ws_ring w" and "p = length pre" and "xs = a @ b" and "s = rg_size r"
  have l: "laid m p xs" using wf by (auto simp: laid_def m_def mem p_def xs_def)
  note lb = laid_append(2) [OF l [unfolded xs_def]]
  have end': "next' = int (p + length (evs_bytes a) + length (evs_bytes b))" by (simp add: nxt p_def)
  obtain c where c: "find_min_clock m (ws_bad0 w) next' = Inr c" "\<forall>e \<in> set b. c \<le> oe_clock e"
    using find_min_clock_laid [OF lb b] unfolding end' bad0 p_def by blast
  have "oe_clock (mem_ev m (ws_bad0 w)) = oe_clock (hd b)"
    using laid_Cons(2) [of m "p + length (evs_bytes a)" "hd b" "tl b"] lb b by (simp add: bad0 p_def)
  then have c0: "(if c < oe_clock (mem_ev m (ws_bad0 w)) then c else oe_clock (mem_ev m (ws_bad0 w))) = c"
    using c(2) hd_in_set [OF b] by (auto simp: not_less intro: antisym)
  have clk: "oe_clock (mem_ev m (ev_offs p xs ! i)) = oe_clock (xs ! i)" if "i < length xs" for i
    by (rule laid_nth(1) [OF l that])
  have ne: "ev_offs p xs \<noteq> []" using b by (cases xs) (auto simp: xs_def)
  from find_destination_holds [OF ring [folded r_def p_def xs_def] refl refl ne, of m c, folded s_def] show ?thesis
  proof (elim disjE exE conjE)
    assume "find_destination m r c = Inr None" "s \<le> Suc (length (ev_offs p xs))"
    then show ?thesis using c(1) c0 unfolding execute_sort_plan_def Let_def m_def [symmetric] r_def [symmetric]
      by (simp add: xs_def s_def)
  next
    fix j assume j: "j < length (ev_offs p xs)" "length (ev_offs p xs) < j + s" "find_destination m r c = Inr (Some (j mod s))"
      and min: "\<forall>l. j < l \<and> l < length (ev_offs p xs) \<longrightarrow> c \<le> oe_clock (mem_ev m (ev_offs p xs ! l))"
      and jc: "j \<noteq> 0 \<longrightarrow> oe_clock (mem_ev m (ev_offs p xs ! j)) < c"
    define q where "q = p + length (evs_bytes (take j xs))"
    let ?d = "drop j xs"
    have xs: "xs = take j xs @ ?d" by simp
    have jn: "j < length xs" using j(1) by simp
    have first: "rg_ev r ! (j mod s) = int q"
      using ring j(1,2) ev_offs_nth [OF jn, of p] by (simp add: ring_holds_def r_def [symmetric] p_def [symmetric] xs_def [symmetric] s_def [symmetric] q_def)
    have ld: "laid m q ?d" using laid_append(2) [of m p "take j xs" ?d] l by (simp add: q_def)
    have size: "next' - int q = int (length (evs_bytes ?d))"
      using arg_cong [OF evs_bytes_split [of xs j], of length] by (simp add: nxt q_def p_def xs_def [symmetric])
    have pos: "0 < length (evs_bytes ?d)" using evs_bytes_ge [of ?d] jn unfolding length_drop by linarith
    have "\<forall>e \<in> set ?d. oe_clock e < 2 ^ 63" using wf in_set_dropD unfolding xs_def by fastforce
    from sort_buf_laid [OF ld this] obtain z where
      z: "sort_buf qs m (int q) (int (length (evs_bytes ?d))) = Inr (evs_bytes z)" "mset z = mset ?d" "sorted (map oe_clock z)"
      by blast
    have "m = pre @ evs_bytes xs @ post" by (simp only: m_def mem xs_def)
    then have "m = (pre @ evs_bytes (take j xs)) @ evs_bytes ?d @ post" by (simp only: evs_bytes_split [of xs j] append.assoc)
    then have tk: "take q m = pre @ evs_bytes (take j xs)" and dr: "drop q m = evs_bytes ?d @ post" and le: "q \<le> length m"
      by (simp_all add: q_def p_def)
    have wfd: "\<forall>e \<in> set ?d. ev_wf e" using wf in_set_dropD unfolding xs_def by fastforce
    note lr = laid_replace [OF dr le z(2) wfd]
    define m' where "m' = take q m @ evs_bytes z @ drop (q + length (evs_bytes z)) m"
    obtain k where k: "write_stream pw (length (evs_bytes z)) (int q) (evs_bytes z) (ws_calls w) m = Inr (k, m')"
      using write_stream_ok [OF pw order_refl lr(4)] m'_def by blast
    have m': "m' = pre @ evs_bytes (take j xs @ z) @ post" using lr(2) by (simp add: m'_def tk)
    have lenz: "length z = length ?d" by (metis size_mset z(2))
    obtain r' where r': "rebuild_ring s m' (j mod s) (int q) (int (q + length (evs_bytes z))) r = Inr r'"
      "ring_holds r' (take j (ev_offs p xs) @ ev_offs q z)" "rg_size r' = s"
    proof -
      have "length (ev_offs p xs) = j + length z" "length (ev_offs p xs) < j + rg_size r" "length z \<le> s"
        using j(2) jn lenz by (simp_all add: s_def [symmetric])
      from rebuild_ring_laid [OF ring [folded r_def p_def xs_def] lr(3) [folded m'_def] this] that show thesis
        unfolding s_def by blast
    qed
    have nxt': "int (q + length (evs_bytes z)) = next'" using size lr(1) by simp
    have offs: "take j (ev_offs p xs) @ ev_offs q z = ev_offs p (take j xs @ z)"
      using xs ev_offs_append [of p "take j xs" ?d] jn by (simp add: ev_offs_append q_def)
    have check: "ring_check m' r' (j mod s) = Inr ()"
      using ring_check_laid [of r' "take j (ev_offs p xs)" q z m' s 0] r'(2,3) lr(3) z(3) lenz j(2) jn
      by (simp add: ring_check_def m'_def)
    have gt: "\<not> next' \<le> int q" using size pos by linarith
    have exec: "execute_sort_plan qs pw next' w =
        Inr (w\<lparr>ws_stream := (ws_stream w)\<lparr>st_buf := m'\<rparr>, ws_ring := r', ws_calls := k\<rparr>)"
      unfolding execute_sort_plan_def Let_def m_def [symmetric] r_def [symmetric] s_def [symmetric]
      using c(1) c0 j(3) first size gt z(1) k r'(1) nxt' check by simp
    have "sort_result j a b z"
    proof -
      have "j < length a \<and> (\<forall>e \<in> set ?d. oe_clock (a ! j) \<le> oe_clock e)" if "j \<noteq> 0"
      proof -
        have lt: "oe_clock (xs ! j) < c" using jc that clk [OF jn] by simp
        have ja: "j < length a"
        proof (rule ccontr)
          assume "\<not> j < length a"
          then have "xs ! j \<in> set b" using jn by (simp add: xs_def nth_append)
          then show False using c(2) lt by (auto simp: not_le [symmetric])
        qed
        have "oe_clock (xs ! j) \<le> oe_clock e" if e: "e \<in> set ?d" for e
        proof -
          obtain i where i: "i < length xs - j" "e = xs ! (j + i)" using e by (auto simp: in_set_conv_nth)
          then have "i \<noteq> 0 \<Longrightarrow> c \<le> oe_clock e" using min [rule_format, of "j + i"] clk [of "j + i"] by simp
          then show ?thesis using lt i(2) by (cases "i = 0") auto
        qed
        then show ?thesis using ja by (simp add: xs_def nth_append)
      qed
      then show ?thesis using z(2,3) by (auto simp: sort_result_def xs_def)
    qed
    then show ?thesis using exec r'(2,3) offs m' unfolding p_def xs_def s_def r_def by metis
  qed
qed

end

subsection \<open>The whole stream\<close>

text \<open>A stream whose events outside of the regions are not older than any event before them, and whose regions are
  closed. \<open>lo\<close> is the largest clock so far.\<close>

fun orderly :: "winsort_st \<Rightarrow> 64 word \<Rightarrow> ovni_ev list \<Rightarrow> bool" where
  "orderly st lo [] \<longleftrightarrow> st \<noteq> StRegion"
| "orderly st lo (e # es) \<longleftrightarrow>
     (if st = StSorted then lo \<le> oe_clock e \<and> orderly (if starts_unsorted_region e then StUnsorted else StSorted) (oe_clock e) es
      else if ends_unsorted_region e then lo \<le> oe_clock e \<and> orderly StSorted (oe_clock e) es
      else orderly StRegion (max lo (oe_clock e)) es)"

text \<open>The state of the loop after the events \<open>a @ b\<close>, where \<open>b\<close> is the region that is open, with \<open>rest\<close> to come.\<close>

definition winv :: "winsort \<Rightarrow> ovni_ev list \<Rightarrow> ovni_ev list \<Rightarrow> ovni_ev list \<Rightarrow> bool" where
  "winv w a b rest \<longleftrightarrow> st_buf (ws_stream w) = stream_header @ evs_bytes (a @ b) @ evs_bytes rest
     \<and> ring_holds (ws_ring w) (ev_offs 8 (a @ b)) \<and> (\<forall>e \<in> set (a @ b) \<union> set rest. ev_wf e \<and> oe_clock e < 2 ^ 63)
     \<and> (if ws_st w = StRegion then b \<noteq> [] \<and> ws_bad0 w = int (8 + length (evs_bytes a)) else b = [])"

definition wsorted :: "winsort_st \<Rightarrow> ovni_ev list \<Rightarrow> ovni_ev list \<Rightarrow> 64 word \<Rightarrow> ovni_ev list \<Rightarrow> bool" where
  "wsorted st a b lo rest \<longleftrightarrow> sorted (map oe_clock a) \<and> (\<forall>e \<in> set (a @ b). oe_clock e \<le> lo) \<and> orderly st lo rest"

text \<open>After the event \<open>e\<close>: what was passed is a permutation, and stays sorted.\<close>

definition wnext :: "winsort \<Rightarrow> ovni_ev list \<Rightarrow> ovni_ev list \<Rightarrow> ovni_ev \<Rightarrow> ovni_ev list \<Rightarrow> winsort \<Rightarrow> bool" where
  "wnext w a b e rest w' \<longleftrightarrow> (\<exists>a' b'. winv w' a' b' rest \<and> (\<exists>c. a' @ b' = c @ [e] \<and> mset c = mset (a @ b))
     \<and> ws_stream w' = (ws_stream w)\<lparr>st_buf := st_buf (ws_stream w')\<rparr> \<and> rg_size (ws_ring w') = rg_size (ws_ring w)
     \<and> (\<forall>lo. wsorted (ws_st w) a b lo (e # rest) \<longrightarrow> (\<exists>lo'. wsorted (ws_st w') a' b' lo' rest)))"

lemma ring_add_size [simp]: "rg_size (ring_add x r) = rg_size r"
  by (simp add: ring_add_def Let_def)

text \<open>An event that does not close a region.\<close>

lemma wnext_plain:
  assumes w: "winv w a b (e # rest)" and p: "p = int (8 + length (evs_bytes (a @ b)))"
    and w': "ws_stream w' = ws_stream w" "ws_ring w' = ring_add p (ws_ring w)"
    and st: "(ws_st w', if ws_st w' = StRegion then Some (ws_bad0 w') else None) =
      (if ws_st w = StSorted then (if starts_unsorted_region e then StUnsorted else StSorted, None)
       else if ws_st w = StUnsorted then (if ends_unsorted_region e then (StSorted, None) else (StRegion, Some p))
       else (StRegion, Some (ws_bad0 w)))" and open': "ws_st w = StRegion \<longrightarrow> \<not> ends_unsorted_region e"
  shows "wnext w a b e rest w'"
proof -
  let ?region = "ws_st w' = StRegion"
  define a' b' where "a' = (if ws_st w = StRegion \<or> ?region then a else a @ [e])"
    and "b' = (if ws_st w = StRegion then b @ [e] else if ?region then [e] else [])"
  have b: "ws_st w \<noteq> StRegion \<Longrightarrow> b = []" "ws_st w = StRegion \<Longrightarrow> b \<noteq> []" using w by (simp_all add: winv_def split: if_splits)
  have ab: "a' @ b' = a @ b @ [e]" using b by (auto simp: a'_def b'_def)
  have "ring_holds (ws_ring w') (ev_offs 8 (a @ b @ [e]))"
  proof -
    have "ev_offs 8 (a @ b @ [e]) = ev_offs 8 (a @ b) @ [p]"
      using ev_offs_append [of 8 "a @ b" "[e]"] by (simp add: p del: ev_bytes_length)
    then show ?thesis using ring_add_holds [of "ws_ring w" "ev_offs 8 (a @ b)" p] w by (simp add: w' winv_def)
  qed
  moreover have "if ?region then b' \<noteq> [] \<and> ws_bad0 w' = int (8 + length (evs_bytes a')) else b' = []"
    using st w b by (cases "ws_st w") (auto simp: a'_def b'_def winv_def p split: if_splits)
  ultimately have inv: "winv w' a' b' rest"
    using w unfolding winv_def ab by (auto simp: w')
  have "\<exists>lo'. wsorted (ws_st w') a' b' lo' rest" if s: "wsorted (ws_st w) a b lo (e # rest)" for lo
  proof (cases "ws_st w = StSorted \<or> ends_unsorted_region e")
    case True
    then have "wsorted (ws_st w') a' b' (oe_clock e) rest"
      using s st open' b by (cases "ws_st w") (auto simp: wsorted_def a'_def b'_def sorted_append intro: order_trans split: if_splits)
    then show ?thesis ..
  next
    case False
    then have "wsorted (ws_st w') a' b' (max lo (oe_clock e)) rest"
      using s st open' b by (cases "ws_st w") (auto simp: wsorted_def a'_def b'_def le_max_iff_disj split: if_splits)
    then show ?thesis ..
  qed
  then show ?thesis unfolding wnext_def using inv ab by (intro exI [of _ a'] exI [of _ b']) (auto simp: w')
qed

context c_qsort
begin

lemma winsort_event_ok:
  assumes pw: "pwrites_ok pw" and w: "winv w a b (e # rest)" and p: "p = int (8 + length (evs_bytes (a @ b)))"
  shows "winsort_event qs pw p w = Inl (EOsort OsNoDestination) \<and> rg_size (ws_ring w) \<le> Suc (length (a @ b))
    \<or> (\<exists>w'. winsort_event qs pw p w = Inr w' \<and> wnext w a b e rest w')"
proof -
  have buf: "st_buf (ws_stream w) = stream_header @ evs_bytes (a @ b) @ evs_bytes (e # rest)"
    and ring: "ring_holds (ws_ring w) (ev_offs (length stream_header) (a @ b))"
    and wf: "\<forall>e \<in> set (a @ b). ev_wf e \<and> oe_clock e < 2 ^ 63" and wfr: "\<forall>x \<in> set (e # rest). ev_wf x"
    and bb: "ws_st w = StRegion \<longrightarrow> b \<noteq> [] \<and> ws_bad0 w = int (length stream_header + length (evs_bytes a))"
    "ws_st w \<noteq> StRegion \<longrightarrow> b = []"
    using w by (auto simp: winv_def stream_header_ok split: if_splits)
  have "drop (8 + length (evs_bytes (a @ b))) (st_buf (ws_stream w)) = evs_bytes (e # rest) @ []"
    unfolding buf by (simp add: stream_header_ok)
  then have "laid (st_buf (ws_stream w)) (8 + length (evs_bytes (a @ b))) (e # rest)" using wfr unfolding laid_def by blast
  from laid_Cons(3) [OF this] have trim: "ev_trim (mem_ev (st_buf (ws_stream w)) p) = e" by (simp only: p)
  have reg: "starts_unsorted_region (mem_ev (st_buf (ws_stream w)) p) = starts_unsorted_region e"
    "ends_unsorted_region (mem_ev (st_buf (ws_stream w)) p) = ends_unsorted_region e"
    unfolding trim [symmetric] starts_unsorted_region_def ends_unsorted_region_def by (simp_all add: ev_trim_def)
  show ?thesis
  proof (cases "ws_st w = StRegion \<and> ends_unsorted_region e")
    case False
    define w1 where "w1 =
      (if ws_st w = StSorted then (if starts_unsorted_region e then w\<lparr>ws_st := StUnsorted\<rparr> else w)
       else if ws_st w = StUnsorted then
         (if ends_unsorted_region e then w\<lparr>ws_empty_regions := ws_empty_regions w + 1, ws_st := StSorted\<rparr>
          else w\<lparr>ws_st := StRegion, ws_bad0 := p\<rparr>)
       else w)"
    let ?w' = "w1\<lparr>ws_ring := ring_add p (ws_ring w)\<rparr>"
    have w': "winsort_event qs pw p w = Inr ?w'" "ws_stream ?w' = ws_stream w" "ws_ring ?w' = ring_add p (ws_ring w)"
      "(ws_st ?w', if ws_st ?w' = StRegion then Some (ws_bad0 ?w') else None) =
        (if ws_st w = StSorted then (if starts_unsorted_region e then StUnsorted else StSorted, None)
         else if ws_st w = StUnsorted then (if ends_unsorted_region e then (StSorted, None) else (StRegion, Some p))
         else (StRegion, Some (ws_bad0 w)))"
      using False by (cases "ws_st w"; simp add: winsort_event_def Let_def reg w1_def)+
    from wnext_plain [OF w p w'(2-4)] False w'(1) show ?thesis by blast
  next
    case True
    let ?w = "w\<lparr>ws_updated := True\<rparr>"
    have ev: "winsort_event qs pw p w = rbind (execute_sort_plan qs pw p ?w) (\<lambda>w1.
        Inr (w1\<lparr>ws_bad0 := 0, ws_st := StSorted, ws_ring := ring_add p (ws_ring w1)\<rparr>))"
      using True by (simp add: winsort_event_def reg) (simp add: rbind_def split: sum.split)
    have pre: "st_buf (ws_stream ?w) = stream_header @ evs_bytes (a @ b) @ evs_bytes (e # rest)"
      "ws_bad0 ?w = int (length stream_header + length (evs_bytes a))" "p = int (length stream_header + length (evs_bytes (a @ b)))"
      "ring_holds (ws_ring ?w) (ev_offs (length stream_header) (a @ b))" "b \<noteq> []"
      using buf bb True ring by (simp_all add: p stream_header_ok)
    from execute_sort_plan_ok [OF pw pre(1) wf pre(5,2,3,4)] show ?thesis
    proof (elim disjE exE conjE)
      assume "execute_sort_plan qs pw p ?w = Inl (EOsort OsNoDestination)" "rg_size (ws_ring ?w) \<le> Suc (length (a @ b))"
      then show ?thesis by (simp add: ev)
    next
      fix j z k r' assume z: "sort_result j a b z"
        and ex: "execute_sort_plan qs pw p ?w = Inr (?w\<lparr>ws_stream := (ws_stream ?w)
            \<lparr>st_buf := stream_header @ evs_bytes (take j (a @ b) @ z) @ evs_bytes (e # rest)\<rparr>, ws_ring := r', ws_calls := k\<rparr>)"
        and r': "ring_holds r' (ev_offs (length stream_header) (take j (a @ b) @ z))" "rg_size r' = rg_size (ws_ring ?w)"
      define a' where "a' = take j (a @ b) @ z"
      have m: "mset a' = mset (a @ b)"
      proof -
        have "mset a' = mset (take j (a @ b)) + mset (drop j (a @ b))" using z by (simp add: a'_def sort_result_def)
        also have "\<dots> = mset (a @ b)" by (simp only: append_take_drop_id flip: mset_append)
        finally show ?thesis .
      qed
      have len: "length (evs_bytes a') = length (evs_bytes (a @ b))" using m by (simp only: evs_bytes_mset)
      define w' where "w' = ?w\<lparr>ws_stream := (ws_stream ?w)\<lparr>st_buf := stream_header @ evs_bytes a' @ evs_bytes (e # rest)\<rparr>,
          ws_ring := ring_add p r', ws_calls := k, ws_bad0 := 0, ws_st := StSorted\<rparr>"
      have res: "winsort_event qs pw p w = Inr w'" by (simp add: ev ex w'_def a'_def)
      have "ring_holds (ring_add p r') (ev_offs 8 (a' @ [e]))"
      proof -
        have "ev_offs 8 (a' @ [e]) = ev_offs 8 a' @ [p]" using len by (simp add: ev_offs_append p del: ev_bytes_length)
        then show ?thesis using ring_add_holds [OF r'(1), of p] by (simp add: a'_def stream_header_ok)
      qed
      then have inv: "winv w' (a' @ [e]) [] rest"
        using w mset_eq_setD [OF m] by (auto simp: winv_def w'_def)
      have "wsorted (ws_st w') (a' @ [e]) [] (oe_clock e) rest" if s: "wsorted (ws_st w) a b lo (e # rest)" for lo
      proof -
        have "sorted (map oe_clock a')" using sort_result_sorted [OF z] s by (simp add: a'_def wsorted_def)
        moreover have "\<forall>x \<in> set a'. oe_clock x \<le> oe_clock e"
          using s True mset_eq_setD [OF m] by (auto simp: wsorted_def intro: order_trans)
        ultimately show ?thesis using s True by (simp add: wsorted_def w'_def sorted_append)
      qed
      then have "wnext w a b e rest w'"
        unfolding wnext_def using inv m r'(2) by (intro exI [of _ "a' @ [e]"] exI [of _ "[]"]) (auto simp: w'_def)
      then show ?thesis using res by blast
    qed
  qed
qed

end

text \<open>Changing the bytes before the current event.\<close>

lemma stream_ready_rewrite:
  assumes "stream_ready s (e # rest)" and "st_buf s = stream_header @ x @ evs_bytes (e # rest)" and "length y = length x"
  shows "st_cur_ev s = Some (int (8 + length x))"
    "stream_ready (s\<lparr>st_buf := stream_header @ y @ evs_bytes (e # rest)\<rparr>) (e # rest)"
proof -
  let ?s = "s\<lparr>st_buf := stream_header @ y @ evs_bytes (e # rest)\<rparr>"
  obtain off where off: "st_cur_ev s = Some (int off)" "st_offset s = int off" "stream_holds s off (e # rest)"
    using assms(1) by (auto simp: stream_ready_def)
  have "length (st_buf s) - off = length (evs_bytes (e # rest))" "off \<le> length (st_buf s)"
    using off(3) by (auto simp: stream_holds_def simp flip: length_drop simp del: length_drop ev_bytes_length)
  then have eq: "off = 8 + length x" by (simp add: assms(2) stream_header_ok del: ev_bytes_length)
  then show "st_cur_ev s = Some (int (8 + length x))" using off(1) by simp
  have "stream_holds ?s off (e # rest)"
    using off(3) assms(2,3) by (simp add: stream_holds_def eq stream_header_ok del: ev_bytes_length)
  moreover have "stream_evclock ev ?s = stream_evclock ev s" for ev by (simp add: stream_evclock_def)
  ultimately show "stream_ready ?s (e # rest)" using assms(1) off(1,2) by (auto simp: stream_ready_def clocks_ok_def)
qed

text \<open>The outcome: a file with the same events, sorted when \<open>ok\<close>, or no place for a region in a ring that is full.\<close>

definition sorts_to :: "winsort res \<Rightarrow> ovni_ev list \<Rightarrow> bool \<Rightarrow> nat \<Rightarrow> bool" where
  "sorts_to res evs ok sz \<longleftrightarrow>
     (\<exists>w evs'. res = Inr w \<and> st_buf (ws_stream w) = stream_header @ evs_bytes evs' \<and> mset evs' = mset evs
        \<and> (ok \<longrightarrow> sorted (map oe_clock evs')))
     \<or> res = Inl (EOsort OsNoDestination) \<and> sz \<le> length evs"

lemma stream_step_buf: "stream_step s = Inr (x, s') \<Longrightarrow> st_buf s' = st_buf s"
  by (auto simp: stream_step_def stream_load_ev_def Let_def split: if_splits option.splits)

context c_qsort
begin

text \<open>From the event the stream is at, the step to the next one and its handling.\<close>

lemma winsort_step_ok:
  assumes pw: "pwrites_ok pw" and w: "winv w a b (e # rest)"
    and step: "stream_step (ws_stream w) = Inr (False, s')" and s': "stream_ready s' (e # rest)" "st_buf s' = st_buf (ws_stream w)"
      "st_unsorted s'"
  shows "winsort_loop (Suc n) qs pw w = Inl (EOsort OsNoDestination) \<and> rg_size (ws_ring w) \<le> Suc (length (a @ b))
    \<or> (\<exists>w' a' b'. winsort_loop (Suc n) qs pw w = winsort_loop n qs pw w' \<and> winv w' a' b' rest
          \<and> mset (a' @ b') = mset (a @ b @ [e]) \<and> rg_size (ws_ring w') = rg_size (ws_ring w)
          \<and> stream_ready (ws_stream w') (e # rest) \<and> st_unsorted (ws_stream w')
          \<and> (\<forall>lo. wsorted (ws_st w) a b lo (e # rest) \<longrightarrow> (\<exists>lo'. wsorted (ws_st w') a' b' lo' rest)))"
proof -
  let ?w = "w\<lparr>ws_stream := s'\<rparr>" and ?p = "int (8 + length (evs_bytes (a @ b)))"
  have inv: "winv ?w a b (e # rest)" using w s'(2) by (simp add: winv_def)
  then have buf: "st_buf s' = stream_header @ evs_bytes (a @ b) @ evs_bytes (e # rest)" by (simp add: winv_def)
  note cur = stream_ready_rewrite [OF s'(1) buf]
  have loop: "winsort_loop (Suc n) qs pw w = rbind (winsort_event qs pw ?p ?w) (winsort_loop n qs pw)"
    using cur(1) [OF refl] by (simp add: step)
  from winsort_event_ok [OF pw inv refl] show ?thesis
  proof (elim disjE exE conjE)
    assume "winsort_event qs pw ?p ?w = Inl (EOsort OsNoDestination)" "rg_size (ws_ring ?w) \<le> Suc (length (a @ b))"
    then show ?thesis unfolding loop by simp
  next
    fix w' assume w': "winsort_event qs pw ?p ?w = Inr w'" "wnext ?w a b e rest w'"
    then obtain a' b' c where n: "winv w' a' b' rest" "a' @ b' = c @ [e]" "mset c = mset (a @ b)"
      "ws_stream w' = s'\<lparr>st_buf := st_buf (ws_stream w')\<rparr>" "rg_size (ws_ring w') = rg_size (ws_ring w)"
      "\<forall>lo. wsorted (ws_st w) a b lo (e # rest) \<longrightarrow> (\<exists>lo'. wsorted (ws_st w') a' b' lo' rest)"
      unfolding wnext_def by auto
    have "st_buf (ws_stream w') = stream_header @ evs_bytes c @ evs_bytes (e # rest)"
      using n(1,2) by (simp add: winv_def del: ev_bytes_length)
    with n(4) have sw: "ws_stream w' = s'\<lparr>st_buf := stream_header @ evs_bytes c @ evs_bytes (e # rest)\<rparr>" by metis
    have "length (evs_bytes c) = length (evs_bytes (a @ b))" using n(3) by (simp only: evs_bytes_mset)
    from cur(2) [OF this] have ready: "stream_ready (ws_stream w') (e # rest)" by (simp only: sw)
    have m: "mset (a' @ b') = mset (a @ b @ [e])" unfolding n(2) using n(3) by simp
    have u: "st_unsorted (ws_stream w')" using s'(3) by (simp add: sw)
    have l: "winsort_loop (Suc n) qs pw w = winsort_loop n qs pw w'" unfolding loop w'(1) by simp
    show ?thesis using l n(1) m n(5) ready u n(6) by blast
  qed
qed

lemma winsort_loop_ok:
  assumes pw: "pwrites_ok pw"
  shows "winv w a b rest \<Longrightarrow> stream_ready (ws_stream w) (e # rest) \<Longrightarrow> st_unsorted (ws_stream w) \<Longrightarrow> length rest < n \<Longrightarrow>
    (ok \<longrightarrow> (\<exists>lo. wsorted (ws_st w) a b lo rest)) \<Longrightarrow>
    sorts_to (winsort_loop n qs pw w) (a @ b @ rest) ok (rg_size (ws_ring w))"
proof (induction rest arbitrary: w a b e n)
  case Nil
  then obtain n' where n: "n = Suc n'" by (cases n) auto
  let ?w = "w\<lparr>ws_stream := (ws_stream w)\<lparr>st_offset := st_size (ws_stream w), st_active := False, st_cur_ev := None\<rparr>\<rparr>"
  have "winsort_loop n qs pw w = Inr ?w" using stream_step_last [OF Nil.prems(2)] by (simp add: n)
  moreover have "st_buf (ws_stream ?w) = stream_header @ evs_bytes (a @ b)" using Nil.prems(1) by (simp add: winv_def)
  moreover have "sorted (map oe_clock (a @ b))" if ok
    using that Nil.prems(1,5) by (auto simp: winv_def wsorted_def split: if_splits)
  ultimately show ?case unfolding sorts_to_def by (intro disjI1 exI [of _ ?w] exI [of _ "a @ b"]) simp
next
  case (Cons f rest)
  then obtain n' where n: "n = Suc n'" "length rest < n'" by (cases n) auto
  obtain s' where s': "stream_step (ws_stream w) = Inr (False, s')" "stream_ready s' (f # rest)" "st_buf s' = st_buf (ws_stream w)"
    "st_unsorted s'" using stream_step_next [OF Cons.prems(2)] Cons.prems(3) by auto
  from winsort_step_ok [OF pw Cons.prems(1) s', of n'] show ?case
  proof (elim disjE exE conjE)
    assume "winsort_loop (Suc n') qs pw w = Inl (EOsort OsNoDestination)" "rg_size (ws_ring w) \<le> Suc (length (a @ b))"
    then show ?thesis by (simp add: sorts_to_def n(1))
  next
    fix w' a' b' assume w': "winsort_loop (Suc n') qs pw w = winsort_loop n' qs pw w'" "winv w' a' b' rest"
      "mset (a' @ b') = mset (a @ b @ [f])" "rg_size (ws_ring w') = rg_size (ws_ring w)"
      "stream_ready (ws_stream w') (f # rest)" "st_unsorted (ws_stream w')"
      "\<forall>lo. wsorted (ws_st w) a b lo (f # rest) \<longrightarrow> (\<exists>lo'. wsorted (ws_st w') a' b' lo' rest)"
    have m: "mset (a' @ b' @ rest) = mset (a @ b @ f # rest)" using w'(3) by (simp add: add.assoc [symmetric])
    have "sorts_to (winsort_loop n' qs pw w') (a' @ b' @ rest) ok (rg_size (ws_ring w'))"
      using Cons.IH [OF w'(2,5,6) n(2)] w'(7) Cons.prems(5) by blast
    then show ?thesis using m mset_eq_length [OF m] by (simp only: sorts_to_def n(1) w'(1,4))
  qed
qed

lemma stream_winsort_ok:
  assumes pw: "pwrites_ok pw" and r: "0 < rg_size r" "length (rg_ev r) = rg_size r"
    and wf: "\<forall>e \<in> set evs. ev_wf e \<and> oe_clock e < 2 ^ 63" and ne: "evs \<noteq> []"
    and load: "load_obs (stream_header @ evs_bytes evs) = Inr s"
  shows "sorts_to (stream_winsort qs pw k (stream_allow_unsorted s) r) evs (orderly StSorted 0 evs) (rg_size r)"
proof -
  obtain e rest where evs: "evs = e # rest" using ne by (cases evs) auto
  let ?s = "stream_allow_unsorted s"
  let ?w = "\<lparr>ws_stream = ?s, ws_ring = ring_reset r, ws_calls = k, ws_st = StSorted, ws_bad0 = 0, ws_empty_regions = 0,
        ws_updated = False\<rparr>"
  have s: "s = \<lparr>st_buf = stream_header @ evs_bytes evs, st_size = int (8 + length (evs_bytes evs)),
     st_usize = int (length (evs_bytes evs)), st_offset = 8, st_cur_ev = None, st_lastclock = 0, st_deltaclock = 0,
     st_clock_offset = 0, st_active = (evs_bytes evs \<noteq> []), st_unsorted = False\<rparr>"
    using load by (simp add: load_obs_header)
  have "0 < length (evs_bytes evs)" using evs_bytes_ge [of evs] ne by (cases "evs_bytes evs") auto
  then have h: "stream_holds ?s 8 (e # rest)" "st_offset ?s = int 8" "st_cur_ev ?s = None" "st_active ?s" "clocks_ok ?s (e # rest)"
    "st_buf ?s = stream_header @ evs_bytes evs" "st_unsorted ?s"
    by (auto simp: s stream_allow_unsorted_def stream_holds_def stream_header_ok clocks_ok_def evs simp del: ev_bytes_length)
  have wfe: "\<forall>x \<in> set (e # rest). ev_wf x" using wf by (simp add: evs)
  have inv: "winv ?w [] [] (e # rest)" using wf h(6) ring_reset_holds [OF r] by (simp add: winv_def evs)
  obtain s' where s': "stream_step ?s = Inr (False, s')" "stream_ready s' (e # rest)" "st_buf s' = st_buf ?s" "st_unsorted s'"
    using stream_step_first [OF h(1-4) wfe h(5)] h(7) stream_step_buf by metis
  define n where "n = length (stream_header @ evs_bytes evs) - 1"
  have n: "length (st_buf ?s) = Suc n" "length rest < n"
    using evs_bytes_ge [of evs] by (simp_all add: n_def h(6) stream_header_ok evs del: ev_bytes_length)
  have ord: "orderly StSorted 0 evs \<longrightarrow> wsorted StSorted [] [] 0 (e # rest)" by (simp add: wsorted_def evs)
  have sw: "stream_winsort qs pw k ?s r = winsort_loop (Suc n) qs pw ?w" by (simp only: stream_winsort_def n(1))
  have st: "stream_step (ws_stream ?w) = Inr (False, s')" "st_buf s' = st_buf (ws_stream ?w)" using s' by simp_all
  from winsort_step_ok [OF pw inv st(1) s'(2) st(2) s'(4), of n] show ?thesis
  proof (elim disjE exE conjE)
    assume "winsort_loop (Suc n) qs pw ?w = Inl (EOsort OsNoDestination)" "rg_size (ws_ring ?w) \<le> Suc (length ([] @ []))"
    then show ?thesis unfolding sorts_to_def sw by (simp add: evs ring_reset_def del: winsort_loop.simps)
  next
    fix w' a' b' assume w': "winsort_loop (Suc n) qs pw ?w = winsort_loop n qs pw w'" "winv w' a' b' rest"
      "mset (a' @ b') = mset ([] @ [] @ [e])" "rg_size (ws_ring w') = rg_size (ws_ring ?w)"
      "stream_ready (ws_stream w') (e # rest)" "st_unsorted (ws_stream w')"
      "\<forall>lo. wsorted (ws_st ?w) [] [] lo (e # rest) \<longrightarrow> (\<exists>lo'. wsorted (ws_st w') a' b' lo' rest)"
    have m: "mset (a' @ b' @ rest) = mset evs" using w'(3) by (simp add: evs add.assoc [symmetric])
    have "sorts_to (winsort_loop n qs pw w') (a' @ b' @ rest) (orderly StSorted 0 evs) (rg_size (ws_ring w'))"
      using winsort_loop_ok [OF pw w'(2,5,6) n(2)] w'(7) ord by simp blast
    moreover have "rg_size (ws_ring ?w) = rg_size r" by (simp add: ring_reset_def)
    ultimately show ?thesis by (simp only: sorts_to_def sw w'(1,4) m mset_eq_length [OF m])
  qed
qed

end

subsection \<open>The sorted stream is one the emulator reads\<close>

lemma sorted_readable:
  assumes wf: "\<forall>e \<in> set evs. ev_wf e \<and> oe_clock e < 2 ^ 63" and ne: "evs \<noteq> []" and sorted: "sorted (map oe_clock evs)"
    and load: "load_obs (stream_header @ evs_bytes evs) = Inr s"
  shows "stream_read (Suc (length evs)) s = Inr evs"
proof -
  have s: "st_lastclock s = 0" "st_clock_offset s = 0" "st_cur_ev s = None" using load by (auto simp: load_obs_header)
  have clk: "stream_evclock e s = uint (oe_clock e)" if "e \<in> set evs" for e
  proof -
    have "uint (oe_clock e) < 2 ^ 63" using wf that by (auto simp: word_less_def)
    then have "c_int64 (uint (oe_clock e)) = uint (oe_clock e)" by (intro c_int64_id order_trans [OF _ uint_ge_0]) simp_all
    then show ?thesis by (simp add: stream_evclock_def s ovni_ev_get_clock_def)
  qed
  have "sorted (map (\<lambda>e. uint (oe_clock e)) evs)" using sorted by (simp add: sorted_map word_le_def)
  then have "sorted (map (\<lambda>e. stream_evclock e s) evs)" using clk by (simp cong: map_cong)
  then have "clocks_ok s evs" using clk by (auto simp: clocks_ok_def s)
  moreover have "stream_clkoff_set 0 s = Inr s" using s by (simp add: stream_clkoff_set_def)
  ultimately show ?thesis using wf ne load by (intro stream_read_loaded) auto
qed


definition demo_region :: "ovni_ev list" where
  "demo_region = map (\<lambda>(mcv, t). ovni_ev_set_mcv mcv (ovni_ev_set_clock t (demo_ev\<lparr>oe_payload := []\<rparr>)))
     [(''KO['', 3), (''OHp'', 7), (''OU['', 10), (''KO]'', 5), (''OU]'', 20)]"

definition demo_ring :: ring where
  "demo_ring = \<lparr>rg_head = 0, rg_tail = 0, rg_size = 8, rg_ev = replicate 8 0\<rparr>"


text \<open>In check mode a stream passes exactly when its clocks are in order.\<close>

lemma stream_check_loop_ok:
  "stream_ready s (e # rest) \<Longrightarrow> st_unsorted s \<Longrightarrow> length rest < n \<Longrightarrow>
     stream_check_loop n s (oe_clock e) bj = Inr (bj \<or> \<not> sorted (map oe_clock (e # rest)))"
proof (induction rest arbitrary: s e n bj)
  case Nil
  then obtain n' where "n = Suc n'" by (cases n) auto
  then show ?case using stream_step_last [OF Nil.prems(1)] by simp
next
  case (Cons f rest)
  then obtain n' where n: "n = Suc n'" "length rest < n'" by (cases n) auto
  obtain s' where s': "stream_step s = Inr (False, s')" "stream_ready s' (f # rest)" "st_unsorted s'"
    using stream_step_next [OF Cons.prems(1)] Cons.prems(2) by auto
  obtain x where x: "stream_ev s' = Some x" "ev_trim x = f" using stream_ready_ev [OF s'(2)] by blast
  then have "oe_clock x = oe_clock f" by (auto simp: ev_trim_def)
  moreover have "sorted (map oe_clock (e # f # rest)) \<longleftrightarrow> oe_clock e \<le> oe_clock f \<and> sorted (map oe_clock (f # rest))"
    by (auto intro: order_trans)
  ultimately show ?case
    using Cons.IH [OF s'(2,3) n(2), of "bj \<or> oe_clock f < oe_clock e"] s'(1) x(1)
    by (auto simp: n(1) ovni_ev_get_clock_def not_less)
qed



text \<open>A stream with no events is an error of both modes, although the emulator accepts it.\<close>

lemma winsort_empty_stream:
  assumes "load_obs stream_header = Inr s"
  shows "stream_winsort qs pw k (stream_allow_unsorted s) r = Inl (EStream StreamInactive)"
    "stream_check (stream_allow_unsorted s) = Inl (EStream StreamInactive)"
proof -
  have "\<not> st_active (stream_allow_unsorted s)" "length (st_buf (stream_allow_unsorted s)) = Suc 7"
    using assms load_obs_header [of "[]"] by (auto simp: stream_allow_unsorted_def stream_header_ok)
  then show "stream_winsort qs pw k (stream_allow_unsorted s) r = Inl (EStream StreamInactive)"
    "stream_check (stream_allow_unsorted s) = Inl (EStream StreamInactive)"
    unfolding stream_winsort_def stream_check_def by (simp_all only: winsort_loop.simps) (simp_all add: stream_step_def)
qed

end
