(* ===== verification/Spec2Isabelle.thy ===== *)
theory Spec2Isabelle
  imports Emu_Run Rt_Run Osort
begin

text \<open>
  A verification library for ovni, the instrumentation and trace emulation toolkit of the BSC.

  \<^bold>\<open>The program.\<close> A program that is traced calls the runtime library \<^verbatim>\<open>libovni\<close> (\<^verbatim>\<open>src/rt/ovni.c\<close>): every thread writes
  events to a buffer that is flushed to its own stream, a file with a header and a sequence of binary events, and keeps metadata
  in JSON. \<^verbatim>\<open>ovnisort\<close> puts the events that the kernel wrote late in their place. The emulator
  \<^verbatim>\<open>ovniemu\<close> (\<^verbatim>\<open>src/emu\<close>) loads the streams of all threads, corrects their clocks, merges them with a heap, and
  gives each event to the model it belongs to (ovni, nOS-V, Nanos6, OpenMP, MPI, TAMPI, NODES, kernel, xtasks). The models write channels. The
  patch bay propagates the channels that changed through multiplexers and sorters, and what comes out is recorded in
  Paraver traces, with a row per thread and a row per CPU.

  \<^bold>\<open>State and effects.\<close> Structures live at addresses: a channel at a \<open>cid\<close>, a thread, CPU, process, loom, stream or heap
  node at a number, and fields of the state map the addresses to the structures, so sharing is explicit. The state grows by
  extension of a record, in the order of the layers of the code: \<open>bay\<close>, \<open>mux_bay\<close>, \<open>sort_bay\<close>, \<open>prv_bay\<close>, \<open>sys_bay\<close> (threads,
  CPUs, processes, looms), \<open>emu\<close> (current event, base model), \<open>temu\<close> (tasks) and \<open>emulator\<close>. A function of a layer works on every
  extension of it. Every \<^verbatim>\<open>err(...); return -1\<close> and every \<^verbatim>\<open>die\<close> is a value of \<open>error\<close>, and a fallible
  function returns \<open>'a res\<close>. Raw clocks, flags, payloads and task identifiers are words, and signed arithmetic that the code does
  in \<^verbatim>\<open>int\<close> or \<^verbatim>\<open>int64_t\<close> wraps with \<open>c_int\<close> and \<open>c_int64\<close>.

  \<^bold>\<open>Theories.\<close>

  \<^item> \<open>Prelude\<close>: errors, results, folds that may fail, shared lemmas. \<open>Cstr\<close>: \<^verbatim>\<open>strtol\<close>, \<^verbatim>\<open>strtok_r\<close>, decimal numbers, \<^verbatim>\<open>version.h\<close>.
  \<^item> \<open>Chan\<close> (\<^verbatim>\<open>chan.c\<close>, \<^verbatim>\<open>value.h\<close>), \<open>Bay\<close> (\<^verbatim>\<open>bay.c\<close>), \<open>Mux\<close> (\<^verbatim>\<open>mux.c\<close>), \<open>Sort\<close> (\<^verbatim>\<open>sort.c\<close>), \<open>Prv\<close> (\<^verbatim>\<open>pv/prv.c\<close>): channels, their
    registration and callbacks, and the three kinds of callbacks. \<open>Propagate\<close> puts them together: \<^verbatim>\<open>bay_propagate\<close> ends, and leaves
    every channel clean. \<open>View\<close> and \<open>Source_Writes\<close>: after a propagation the output of a multiplexer shows what it selects.
  \<^item> \<open>Heap\<close> (\<^verbatim>\<open>heap.h\<close>), \<open>Ev\<close> (\<^verbatim>\<open>emu_ev.c\<close>, the layout of events), \<open>Stream\<close> (\<^verbatim>\<open>stream.c\<close>), \<open>Player\<close> (\<^verbatim>\<open>player.c\<close>), \<open>Merge\<close>: the
    pointer heap refines a set with extraction of the least, streams are read back, and the player is a merge.
  \<^item> \<open>Loom\<close>, \<open>Thread\<close>, \<open>Cpu\<close>, \<open>System\<close> (\<^verbatim>\<open>loom.c\<close>, \<^verbatim>\<open>proc.c\<close>, \<^verbatim>\<open>thread.c\<close>, \<^verbatim>\<open>cpu.c\<close>, \<^verbatim>\<open>system.c\<close>, \<^verbatim>\<open>recorder.c\<close>): the emulated system, built
    from the metadata. \<open>Connect\<close>: \<^verbatim>\<open>system_connect\<close> and the rows of Paraver (\<^verbatim>\<open>pv/prf.c\<close>).
  \<^item> \<open>Track\<close> and \<open>Wiring\<close> (\<^verbatim>\<open>track.c\<close>, \<^verbatim>\<open>model_thread.c\<close>, \<^verbatim>\<open>model_cpu.c\<close>, \<^verbatim>\<open>model_pvt.c\<close>, \<^verbatim>\<open>pv/pcf.c\<close>): how the channels of the models reach the
    traces, and that the rows show what they promise. \<open>Model_Specs\<close>: the tables of channels, types and labels of all the models.
  \<^item> \<open>Body\<close>, \<open>Task\<close> (\<^verbatim>\<open>body.c\<close>, \<^verbatim>\<open>task.c\<close>), \<open>Ovni_Event\<close> (\<^verbatim>\<open>ovni/event.c\<close>), \<open>Task_Model\<close> (what the next three share), \<open>Nosv\<close>, \<open>Nanos6\<close>, \<open>Openmp\<close>,
    \<open>Simple_Models\<close> (MPI, TAMPI, NODES, kernel, xtasks): the events of the nine models, each with its invariant.
    \<open>Marks\<close> (\<^verbatim>\<open>ovni/mark.c\<close>) and \<open>Hwc\<close> (\<^verbatim>\<open>nosv/hwc.c\<close>): channels declared by the metadata.
  \<^item> \<open>Ev_Spec\<close> (\<^verbatim>\<open>ev_spec.c\<close>, \<^verbatim>\<open>model_evspec.c\<close>), \<open>Ev_Lists\<close>, \<open>Declared\<close>: the declarations of events, compiling and printing them, and
    that they agree with the tables of the handlers.
  \<^item> \<open>Registry\<close> (\<^verbatim>\<open>model.c\<close>, \<^verbatim>\<open>models.c\<close>), \<open>Handlers\<close> (what an event of any model may change), \<open>Emu\<close> (\<^verbatim>\<open>emu.c\<close> and the hooks of
    \<^verbatim>\<open>setup.c\<close>) and \<open>Emu_Run\<close>: which models are enabled, and what holds after any number of events.
  \<^item> \<open>Json\<close> (\<^verbatim>\<open>parson.c\<close>), \<open>Rt\<close>, \<open>Rt_Thread\<close>, \<open>Rt_Run\<close> (\<^verbatim>\<open>rt/ovni.c\<close>): the runtime. What a thread emits is what the emulator
    reads, and attributes and marks round trip through the metadata.
  \<^item> \<open>Osort\<close> (\<^verbatim>\<open>ovnisort.c\<close>): the tool sorts.

  \<^bold>\<open>Interfaces.\<close> The contracts between components are locales. \<open>heap_cmp\<close> is what the heap needs of its comparison,
  interpreted with \<^verbatim>\<open>stream_cmp\<close> of the player. \<open>bay_callbacks\<close> is what the bay needs of the callbacks and the invariant they keep,
  interpreted with the callbacks of multiplexers, sorters and traces. \<open>attr_store\<close> is a store with keys that
  are apart or not, interpreted with the dotted paths of the metadata. \<open>task_view\<close> is what a model with tasks does with its channels when a
  body stops or runs, interpreted with nOS-V and Nanos6. \<open>chan_frame\<close>, with its extensions \<open>base_frame\<close> and \<open>task_frame\<close>, are the laws of a
  relation that every handler of events keeps, interpreted twice for each of the two kinds of handlers: with the writes that leave the wiring
  alone, and with the parts of the state that are not touched. \<open>c_qsort\<close> is what the C standard says of \<^verbatim>\<open>qsort\<close>, a function of the C
  library, which \<^verbatim>\<open>ovnisort\<close> calls; it is interpreted with an insertion sort.

  \<^bold>\<open>Bounds of loops.\<close> A loop over a linked list or over pointers takes a bound, and running out of it is the error \<open>EFuel\<close>.
  In a propagation, the number of registered channels and twice the number of callbacks is enough (\<open>bay_propagate_terminates\<close>); for the
  heap, the number of nodes (the refinement lemmas show that the result is not an error); for \<^verbatim>\<open>write_evbuf\<close>, a call for each byte and
  one more, when every write makes progress; for the player, one step per event and the final one. \<^verbatim>\<open>ovni_ev_add\<close> and
  \<^verbatim>\<open>add_flush_events\<close> call each other at most three deep. The loops of \<^verbatim>\<open>ovnisort\<close> have the size of the ring or of the file.
  Every other function is total by structural recursion.

  \<^bold>\<open>Parameters.\<close> The hash function of task labels (\<^verbatim>\<open>uthash.h\<close>), \<^verbatim>\<open>qsort\<close>, the answers of the clock, of \<^verbatim>\<open>write\<close> and of \<^verbatim>\<open>pwrite\<close>, the version and commit
  of the library, the content of the files and their metadata after parsing, the table of clock offsets. The parameter \<open>fin\<close> of \<open>Emu\<close> stands for \<^verbatim>\<open>finish_pvt\<close>,
  which adds the labels of the task types in the order of a hash table that the model keeps as a map; no property depends on it.

  \<^bold>\<open>Not modelled.\<close> The breakdowns (option \<^verbatim>\<open>-b\<close>): they chain multiplexers into sorters, for which \<open>View\<close> says that the guarantee of
  a propagation does not hold in general. Command line, progress messages and the main program (\<^verbatim>\<open>emu_args.c\<close>, \<^verbatim>\<open>emu_stat.c\<close>,
  \<^verbatim>\<open>ovniemu.c\<close>), walking directories (\<^verbatim>\<open>trace.c\<close>, \<^verbatim>\<open>path.c\<close>), the files of configuration of Paraver (\<^verbatim>\<open>pv/pvt.c\<close>, \<^verbatim>\<open>pv/cfg.c\<close>, \<^verbatim>\<open>hwc_finish\<close>) and the text of the
  \<^verbatim>\<open>.pcf\<close> files: input and output only. The tools \<^verbatim>\<open>ovnidump\<close>, \<^verbatim>\<open>ovnitop\<close>, \<^verbatim>\<open>ovnisync\<close>, \<^verbatim>\<open>ovniver\<close>, \<^verbatim>\<open>ovnievents\<close>: they print a trace or measure clocks. \<^verbatim>\<open>uthash.h\<close>
  and \<^verbatim>\<open>utlist.h\<close>: vendored macros whose tables and lists are maps and lists here. The rest of \<^verbatim>\<open>parson.c\<close>: parsing and
  serializing JSON, arrays, copies and validation. Moving the directory of a trace to its final place in the runtime.
\<close>

end
